(* ===== verification/NM_Prelude.thy ===== *)
theory NM_Prelude
  imports Main "HOL-Library.Word" "HOL-Library.Multiset"
begin

text \<open>
  Shared vocabulary of the development: the names of the C integer types, the limits of
  \<^verbatim>\<open>glib\<close> the code refers to, the three-way comparison convention of \<^verbatim>\<open>GCompareFunc\<close>
  with the locale that states its contract, and generic list lemmas on the two array idioms of
  the code base: in-place index updates (\<^verbatim>\<open>arr[j] = arr[i]\<close>, \<^verbatim>\<open>NM_SWAP\<close>) and the
  compaction loop that keeps the elements satisfying a test.
\<close>

unbundle bit_operations_syntax

named_theorems nm_simps \<open>unfolding rules of small model definitions\<close>

section \<open>C integer types and limits\<close>

type_synonym u8 = "8 word"
type_synonym u16 = "16 word"
type_synonym u32 = "32 word"
type_synonym u64 = "64 word"

abbreviation G_MAXUINT :: nat where
  "G_MAXUINT \<equiv> 4294967295"

abbreviation G_MAXINT32 :: int where
  "G_MAXINT32 \<equiv> 2147483647"

abbreviation G_MININT32 :: int where
  "G_MININT32 \<equiv> - 2147483648"

abbreviation G_MAXUINT32 :: int where
  "G_MAXUINT32 \<equiv> 4294967295"

abbreviation G_MAXINT64 :: int where
  "G_MAXINT64 \<equiv> 9223372036854775807"

abbreviation G_MININT64 :: int where
  "G_MININT64 \<equiv> - 9223372036854775808"

text \<open>The values a hash function feeds into the hash state, in order.\<close>

type_synonym hash_input = "int list"

text \<open>C integer division truncates towards zero.\<close>

definition c_div :: "int \<Rightarrow> int \<Rightarrow> int" where
  "c_div a b = sgn a * sgn b * (\<bar>a\<bar> div \<bar>b\<bar>)"

lemma c_div_nonneg [simp]: "0 \<le> a \<Longrightarrow> 0 < b \<Longrightarrow> c_div a b = a div b"
  by (cases "a = 0") (auto simp: c_div_def)

text \<open>A \<^verbatim>\<open>gint32\<close> result that wraps around.\<close>

definition gint32 :: "int \<Rightarrow> int" where
  "gint32 x = (x + 2147483648) mod 4294967296 - 2147483648"

lemma gint32_id [simp]: "- 2147483648 \<le> x \<Longrightarrow> x \<le> 2147483647 \<Longrightarrow> gint32 x = x"
  by (simp add: gint32_def)

section \<open>Three-way comparison\<close>

text \<open>
  A \<^verbatim>\<open>GCompareFunc\<close> returns a negative number, zero or a positive number. What its
  callers rely on is that it is antisymmetric and transitive.
\<close>

definition compare_ok :: "('a \<Rightarrow> 'a \<Rightarrow> int) \<Rightarrow> bool" where
  "compare_ok f \<longleftrightarrow>
     (\<forall>a b. f a b < 0 \<longleftrightarrow> 0 < f b a) \<and> (\<forall>a b c. f a b \<le> 0 \<longrightarrow> f b c \<le> 0 \<longrightarrow> f a c \<le> 0)"

locale compare_order =
  fixes cmp :: "'a \<Rightarrow> 'a \<Rightarrow> int"
  assumes cmp_antisym: "cmp a b < 0 \<longleftrightarrow> 0 < cmp b a"
    and cmp_trans: "cmp a b \<le> 0 \<Longrightarrow> cmp b c \<le> 0 \<Longrightarrow> cmp a c \<le> 0"
begin

lemma cmp_refl: "cmp a a = 0"
  using cmp_antisym [of a a] by linarith

lemma cmp_total: "cmp a b \<le> 0 \<or> cmp b a \<le> 0"
  using cmp_antisym [of b a] by linarith

lemma cmp_not_le: "\<not> cmp a b \<le> 0 \<Longrightarrow> cmp b a \<le> 0"
  using cmp_total by blast

lemma cmp_less_le: "cmp a b < 0 \<Longrightarrow> cmp a b \<le> 0"
  by linarith

lemma cmp_not_less: "\<not> cmp a b < 0 \<Longrightarrow> cmp b a \<le> 0"
  using cmp_antisym [of a b] by linarith

lemma cmp_equiv_trans: "cmp a b = 0 \<Longrightarrow> cmp b c = 0 \<Longrightarrow> cmp a c = 0"
  using cmp_trans [of a b c] cmp_trans [of c b a] cmp_antisym [of a b] cmp_antisym [of b c]
    cmp_antisym [of b a] cmp_antisym [of c b] cmp_antisym [of a c] cmp_antisym [of c a]
  by linarith

end

lemma compare_ok_iff: "compare_ok f \<longleftrightarrow> compare_order f"
  unfolding compare_ok_def compare_order_def by blast

text \<open>Comparing by one key first and by another where the first is equal.\<close>

lemma compare_order_eq_0:
  assumes "compare_order f" "f a b \<le> 0" "f b c \<le> 0" "f a c = 0"
  shows "f a b = 0 \<and> f b c = 0"
proof -
  note anti = compare_order.cmp_antisym [OF assms(1)] and trans = compare_order.cmp_trans [OF assms(1)]
  have ca: "f c a \<le> 0" using anti [of a c] assms(4) by linarith
  have "f b a \<le> 0" "f c b \<le> 0" using trans [OF assms(3) ca] trans [OF ca assms(2)] .
  then show ?thesis using anti [of a b] anti [of b c] assms(2,3) by linarith
qed

lemma compare_order_lex:
  assumes f: "compare_order f" and g: "compare_order g"
  shows "compare_order (\<lambda>a b. if f a b \<noteq> 0 then f a b else g a b)"
proof
  fix a b c
  have anti: "f x y < 0 \<longleftrightarrow> 0 < f y x" "g x y < 0 \<longleftrightarrow> 0 < g y x" for x y
    by (rule compare_order.cmp_antisym, fact)+
  show "(if f a b \<noteq> 0 then f a b else g a b) < 0 \<longleftrightarrow> 0 < (if f b a \<noteq> 0 then f b a else g b a)"
    using anti(1) [of a b] anti(1) [of b a] anti(2) [of a b] by auto
  assume h: "(if f a b \<noteq> 0 then f a b else g a b) \<le> 0" "(if f b c \<noteq> 0 then f b c else g b c) \<le> 0"
  then have le: "f a b \<le> 0" "f b c \<le> 0" by (auto split: if_splits)
  show "(if f a c \<noteq> 0 then f a c else g a c) \<le> 0"
    using compare_order.cmp_trans [OF f le] compare_order_eq_0 [OF f le] h
      compare_order.cmp_trans [OF g, of a b c] by auto
qed

section \<open>Arrays\<close>

lemma mset_list_swap:
  "i < length xs \<Longrightarrow> j < length xs \<Longrightarrow> mset (xs[i := xs ! j, j := xs ! i]) = mset xs"
  by (rule mset_swap)

lemma list_swap_nth:
  "i < length xs \<Longrightarrow> j < length xs \<Longrightarrow> k < length xs \<Longrightarrow>
    xs[i := xs ! j, j := xs ! i] ! k = xs ! (if k = i then j else if k = j then i else k)"
  by (auto simp: nth_list_update)

text \<open>Removal of one array slot, \<^verbatim>\<open>g_array_remove_index\<close>.\<close>

definition g_array_remove_index :: "'a list \<Rightarrow> nat \<Rightarrow> 'a list" where
  "g_array_remove_index xs i = take i xs @ drop (Suc i) xs"

definition g_array_insert_val :: "'a list \<Rightarrow> nat \<Rightarrow> 'a \<Rightarrow> 'a list" where
  "g_array_insert_val xs i x = take i xs @ x # drop i xs"

lemma set_remove_index_subset: "set (g_array_remove_index xs i) \<subseteq> set xs"
  by (auto simp: g_array_remove_index_def dest: in_set_takeD in_set_dropD)

lemma length_remove_index [simp]:
  "i < length xs \<Longrightarrow> length (g_array_remove_index xs i) = length xs - 1"
  by (simp add: g_array_remove_index_def)

lemma length_insert_val [simp]: "length (g_array_insert_val xs i x) = Suc (length xs)"
  by (simp add: g_array_insert_val_def)

lemma set_insert_val [simp]: "set (g_array_insert_val xs i x) = insert x (set xs)"
proof -
  have "set (take i xs) \<union> set (drop i xs) = set xs"
    by (metis append_take_drop_id set_append)
  then show ?thesis by (auto simp: g_array_insert_val_def)
qed

lemma mset_remove_index:
  "i < length xs \<Longrightarrow> add_mset (xs ! i) (mset (g_array_remove_index xs i)) = mset xs"
  by (subst (3) id_take_nth_drop [of i xs]) (simp_all add: g_array_remove_index_def)

lemma remove_index_append_Cons [simp]:
  "g_array_remove_index (us @ x # vs) (length us) = us @ vs"
  by (simp add: g_array_remove_index_def)

lemma mset_insert_val [simp]: "mset (g_array_insert_val xs i x) = add_mset x (mset xs)"
proof -
  have "mset (take i xs) + mset (drop i xs) = mset xs"
    by (metis append_take_drop_id mset_append)
  then show ?thesis by (simp add: g_array_insert_val_def)
qed

lemma distinct_map_insert_val [simp]:
  "distinct (map f (g_array_insert_val xs i x)) \<longleftrightarrow> f x \<notin> f ` set xs \<and> distinct (map f xs)"
proof -
  have "mset (map f (g_array_insert_val xs i x)) = mset (map f (x # xs))" by simp
  then have "distinct (map f (g_array_insert_val xs i x)) \<longleftrightarrow> distinct (map f (x # xs))"
    by (rule mset_eq_imp_distinct_iff)
  then show ?thesis by simp
qed

lemma Collect_key_empty: "k \<notin> f ` S \<Longrightarrow> {y \<in> S. f y = k} = {}"
  by auto

lemma Collect_insert_if: "{y \<in> insert x S. P y} = (if P x then insert x {y \<in> S. P y} else {y \<in> S. P y})"
  by auto

lemma Collect_key_single:
  assumes "f y = k" "k \<notin> f ` set (us @ vs)"
  shows "{z \<in> set (us @ y # vs). f z = k} = {y}"
proof (intro set_eqI iffI)
  fix z
  assume "z \<in> {z \<in> set (us @ y # vs). f z = k}"
  then have "z = y \<or> z \<in> set (us @ vs)" "f z = k" by auto
  with assms(2) show "z \<in> {y}" by blast
qed (use assms(1) in simp)

lemma sorted_wrt_insert_mid:
  "sorted_wrt R (us @ vs) \<Longrightarrow> (\<And>u. u \<in> set us \<Longrightarrow> R u x) \<Longrightarrow> (\<And>v. v \<in> set vs \<Longrightarrow> R x v) \<Longrightarrow>
    sorted_wrt R (us @ x # vs)"
  by (simp add: sorted_wrt_append)

end
