(* ===== verification/NM_Prioq.thy ===== *)
theory NM_Prioq
  imports NM_Prelude
begin

text \<open>
  The priority queue of \<^verbatim>\<open>src/libnm-glib-aux/nm-prioq.c\<close>: a binary heap in an array whose
  items may carry a pointer to an \<^verbatim>\<open>unsigned\<close> of the caller, in which the queue keeps the
  item's current position. The caller's index variables are the field \<open>idx_mem\<close>, a store
  from pointers to values, so that what the queue writes through \<^verbatim>\<open>item->idx\<close> is visible to
  the model. The comparison function reads the priorities in the caller's memory: when the
  caller changes a priority, the model changes \<open>compare_func\<close>.

  Proved here: each operation restores the heap order, keeps every index variable equal to the
  position of its item, and adds or removes exactly the item it is asked to; \<open>nm_prioq_pop\<close>
  returns a least element; below \<open>2^31\<close> items every store is in bounds and popping until empty sorts.
\<close>

section \<open>Data\<close>

record ('d, 'p) PrioqItem =
  data :: 'd
  idx :: "'p option"

record ('d, 'p) NMPrioq =
  compare_func :: "('d \<Rightarrow> 'd \<Rightarrow> int) option"
  items :: "('d, 'p) PrioqItem list"
  n_allocated :: nat
  idx_mem :: "'p \<Rightarrow> nat"

abbreviation NM_PRIOQ_IDX_NULL :: nat where
  "NM_PRIOQ_IDX_NULL \<equiv> G_MAXUINT"

definition n_items :: "('d, 'p) NMPrioq \<Rightarrow> nat" where
  "n_items q = length (items q)"

text \<open>Writing through an optional index pointer.\<close>

definition set_idx :: "'p option \<Rightarrow> nat \<Rightarrow> ('d, 'p) NMPrioq \<Rightarrow> ('d, 'p) NMPrioq" where
  "set_idx p v q =
     (case p of None \<Rightarrow> q | Some a \<Rightarrow> q\<lparr>idx_mem := (idx_mem q)(a := v)\<rparr>)"

section \<open>Operations\<close>

definition nm_prioq_init :: "('d \<Rightarrow> 'd \<Rightarrow> int) \<Rightarrow> ('p \<Rightarrow> nat) \<Rightarrow> ('d, 'p) NMPrioq" where
  "nm_prioq_init f mem =
     \<lparr>compare_func = Some f, items = [], n_allocated = 0, idx_mem = mem\<rparr>"

fun destroy_loop :: "('d, 'p) PrioqItem list \<Rightarrow> ('d, 'p) NMPrioq \<Rightarrow> ('d, 'p) NMPrioq" where
  "destroy_loop [] q = q"
| "destroy_loop (i # is) q = destroy_loop is (set_idx (idx i) NM_PRIOQ_IDX_NULL q)"

definition nm_prioq_destroy :: "('d, 'p) NMPrioq \<Rightarrow> ('d, 'p) NMPrioq" where
  "nm_prioq_destroy q =
     (if compare_func q = None then q
      else (destroy_loop (rev (items q)) q)\<lparr>items := [], compare_func := None\<rparr>)"

definition compare :: "('d, 'p) NMPrioq \<Rightarrow> nat \<Rightarrow> nat \<Rightarrow> int" where
  "compare q a b =
     (case compare_func q of
        Some f \<Rightarrow> f (data (items q ! a)) (data (items q ! b))
      | None \<Rightarrow> 0)"

definition swap :: "('d, 'p) NMPrioq \<Rightarrow> nat \<Rightarrow> nat \<Rightarrow> ('d, 'p) NMPrioq" where
  "swap q j k =
     (let q1 = q\<lparr>items := (items q)[j := items q ! k, k := items q ! j]\<rparr>;
          q2 = set_idx (idx (items q1 ! j)) j q1
      in set_idx (idx (items q2 ! k)) k q2)"

lemma items_set_idx [simp]: "items (set_idx p v q) = items q"
  and compare_func_set_idx [simp]: "compare_func (set_idx p v q) = compare_func q"
  and n_allocated_set_idx [simp]: "n_allocated (set_idx p v q) = n_allocated q"
  by (auto simp: set_idx_def split: option.splits)

lemma items_swap [simp]: "items (swap q j k) = (items q)[j := items q ! k, k := items q ! j]"
  and compare_func_swap [simp]: "compare_func (swap q j k) = compare_func q"
  and n_allocated_swap [simp]: "n_allocated (swap q j k) = n_allocated q"
  by (simp_all add: swap_def Let_def)

lemma n_items_swap [simp]: "n_items (swap q j k) = n_items q"
  by (simp add: n_items_def)

fun shuffle_up :: "('d, 'p) NMPrioq \<Rightarrow> nat \<Rightarrow> ('d, 'p) NMPrioq \<times> nat" where
  "shuffle_up q i =
     (if 0 < i then
        (let k = (i - 1) div 2 in
         if compare q k i \<le> 0 then (q, i) else shuffle_up (swap q i k) k)
      else (q, i))"

function shuffle_down :: "('d, 'p) NMPrioq \<Rightarrow> nat \<Rightarrow> ('d, 'p) NMPrioq \<times> nat" where
  "shuffle_down q i =
     (let k = (i + 1) * 2; j = k - 1 in
      if n_items q \<le> j then (q, i)
      else
        (let s = (if compare q j i < 0 then j else i);
             s = (if k < n_items q \<and> compare q k s < 0 then k else s) in
         if s = i then (q, i) else shuffle_down (swap q i s) s))"
  by pat_completeness auto
termination
  by (relation "measure (\<lambda>(q, i). n_items q - i)") (auto split: if_splits)

declare shuffle_up.simps [simp del] shuffle_down.simps [simp del]

text \<open>
  The code computes with \<^verbatim>\<open>unsigned\<close> of 32 bits. With fewer than \<open>2^31\<close> items the position
  \<open>(i + 1) * 2\<close> of \<open>shuffle_down\<close> is exact. The doubled capacity wraps when the array is full
  with \<open>2^31 - 1\<close> items or more: then it shrinks and the store of the new item is out of its bounds.
  \<open>nm_prioq_put\<close> is what the stores do where they are in bounds; \<open>nm_prioq_put_checked\<close>
  has no result where the store is out of bounds.
\<close>

definition put_capacity :: "('d, 'p) NMPrioq \<Rightarrow> nat" where
  "put_capacity q =
     (if n_allocated q \<le> n_items q then max (((n_items q + 1) * 2) mod 2 ^ 32) 16 else n_allocated q)"

definition nm_prioq_put :: "('d, 'p) NMPrioq \<Rightarrow> 'd \<Rightarrow> 'p option \<Rightarrow> ('d, 'p) NMPrioq" where
  "nm_prioq_put q d p =
     (let q = q\<lparr>n_allocated := put_capacity q\<rparr>;
          k = n_items q;
          q = q\<lparr>items := items q @ [\<lparr>data = d, idx = p\<rparr>]\<rparr>;
          q = set_idx p k q
      in fst (shuffle_up q k))"

definition nm_prioq_put_checked :: "('d, 'p) NMPrioq \<Rightarrow> 'd \<Rightarrow> 'p option \<Rightarrow> ('d, 'p) NMPrioq option" where
  "nm_prioq_put_checked q d p = (if n_items q < put_capacity q then Some (nm_prioq_put q d p) else None)"

text \<open>Inserting the elements of a list one after the other.\<close>

fun put_all :: "('d, 'p) NMPrioq \<Rightarrow> 'd list \<Rightarrow> ('d, 'p) NMPrioq option" where
  "put_all q [] = Some q"
| "put_all q (d # ds) = Option.bind (nm_prioq_put_checked q d None) (\<lambda>q. put_all q ds)"

definition remove_item :: "('d, 'p) NMPrioq \<Rightarrow> nat \<Rightarrow> ('d, 'p) NMPrioq" where
  "remove_item q i =
     (let q = set_idx (idx (items q ! i)) NM_PRIOQ_IDX_NULL q;
          l = n_items q - 1;
          last_item = items q ! l;
          q = q\<lparr>items := take l (items q)\<rparr>
      in if i = l then q
         else
           (let q = q\<lparr>items := (items q)[i := last_item]\<rparr>;
                q = set_idx (idx last_item) i q;
                (q, k) = shuffle_down q i
            in fst (shuffle_up q k)))"

fun linear_find :: "('d, 'p) PrioqItem list \<Rightarrow> 'd \<Rightarrow> nat \<Rightarrow> nat option" where
  "linear_find [] d n = None"
| "linear_find (i # is) d n = (if data i = d then Some n else linear_find is d (Suc n))"

definition find_item :: "('d, 'p) NMPrioq \<Rightarrow> 'd \<Rightarrow> 'p option \<Rightarrow> nat option" where
  "find_item q d p =
     (case p of
        None \<Rightarrow> linear_find (items q) d 0
      | Some a \<Rightarrow>
          if n_items q \<le> idx_mem q a then None
          else if data (items q ! idx_mem q a) \<noteq> d then None
          else Some (idx_mem q a))"

definition nm_prioq_remove ::
    "('d, 'p) NMPrioq \<Rightarrow> 'd \<Rightarrow> 'p option \<Rightarrow> bool \<times> ('d, 'p) NMPrioq" where
  "nm_prioq_remove q d p =
     (case find_item q d p of None \<Rightarrow> (False, q) | Some i \<Rightarrow> (True, remove_item q i))"

definition reshuffle_item :: "('d, 'p) NMPrioq \<Rightarrow> nat \<Rightarrow> ('d, 'p) NMPrioq" where
  "reshuffle_item q i = (let (q, k) = shuffle_down q i in fst (shuffle_up q k))"

definition nm_prioq_reshuffle ::
    "('d, 'p) NMPrioq \<Rightarrow> 'd \<Rightarrow> 'p option \<Rightarrow> bool \<times> ('d, 'p) NMPrioq" where
  "nm_prioq_reshuffle q d p =
     (case find_item q d p of None \<Rightarrow> (False, q) | Some i \<Rightarrow> (True, reshuffle_item q i))"

definition nm_prioq_update ::
    "('d, 'p) NMPrioq \<Rightarrow> 'd \<Rightarrow> 'p option \<Rightarrow> bool \<Rightarrow> ('d, 'p) NMPrioq" where
  "nm_prioq_update q d p queued =
     (case find_item q d p of
        None \<Rightarrow> if queued then nm_prioq_put q d p else q
      | Some i \<Rightarrow> if \<not> queued then remove_item q i else reshuffle_item q i)"

definition nm_prioq_peek_by_index :: "('d, 'p) NMPrioq \<Rightarrow> nat \<Rightarrow> 'd option" where
  "nm_prioq_peek_by_index q i =
     (if n_items q \<le> i then None else Some (data (items q ! i)))"

definition nm_prioq_peek :: "('d, 'p) NMPrioq \<Rightarrow> 'd option" where
  "nm_prioq_peek q = nm_prioq_peek_by_index q 0"

definition nm_prioq_size :: "('d, 'p) NMPrioq \<Rightarrow> nat" where
  "nm_prioq_size q = n_items q"

definition nm_prioq_pop :: "('d, 'p) NMPrioq \<Rightarrow> 'd option \<times> ('d, 'p) NMPrioq" where
  "nm_prioq_pop q =
     (if n_items q = 0 then (None, q)
      else (Some (data (items q ! 0)), remove_item q 0))"

section \<open>Well-formed queues\<close>

text \<open>
  \<open>heap_ok\<close> is the heap order, \<open>idx_ok\<close> says that every index variable holds the position of
  its item, \<open>alloc_ok\<close> that the array is large enough for the items in it.
\<close>

definition parent :: "nat \<Rightarrow> nat" where
  "parent i = (i - 1) div 2"

lemma parent_less: "0 < i \<Longrightarrow> parent i < i"
  by (auto simp: parent_def)

lemma parent_le: "parent i \<le> i"
  by (auto simp: parent_def)

lemma parent_eq_iff: "0 < m \<Longrightarrow> parent m = i \<longleftrightarrow> m = 2 * i + 1 \<or> m = 2 * i + 2"
  unfolding parent_def by arith

lemma shuffle_up_unfold:
  "shuffle_up q i =
     (if 0 < i \<and> \<not> compare q (parent i) i \<le> 0 then shuffle_up (swap q i (parent i)) (parent i)
      else (q, i))"
  by (subst shuffle_up.simps) (simp add: parent_def Let_def)

lemma shuffle_up_induct [case_names step]:
  assumes "\<And>q i. (0 < i \<Longrightarrow> \<not> compare q (parent i) i \<le> 0 \<Longrightarrow> P (swap q i (parent i)) (parent i)) \<Longrightarrow> P q i"
  shows "P q i"
proof (induction q i rule: shuffle_up.induct)
  case (1 q i)
  show ?case by (rule assms) (rule 1, simp_all add: parent_def)
qed

definition edge_ok :: "('d, 'p) NMPrioq \<Rightarrow> nat \<Rightarrow> bool" where
  "edge_ok q i \<longleftrightarrow> (0 < i \<longrightarrow> compare q (parent i) i \<le> 0)"

definition heap_ok :: "('d, 'p) NMPrioq \<Rightarrow> bool" where
  "heap_ok q \<longleftrightarrow> list_all (edge_ok q) [0..<n_items q]"

definition idx_ok :: "('d, 'p) NMPrioq \<Rightarrow> bool" where
  "idx_ok q \<longleftrightarrow>
     list_all (\<lambda>i. case idx (items q ! i) of None \<Rightarrow> True | Some p \<Rightarrow> idx_mem q p = i) [0..<n_items q]"

definition alloc_ok :: "('d, 'p) NMPrioq \<Rightarrow> bool" where
  "alloc_ok q \<longleftrightarrow> n_items q \<le> n_allocated q"

definition prioq_ok :: "('d, 'p) NMPrioq \<Rightarrow> bool" where
  "prioq_ok q \<longleftrightarrow> heap_ok q \<and> idx_ok q \<and>
     (case compare_func q of None \<Rightarrow> False | Some f \<Rightarrow> compare_ok f)"

text \<open>The elements of a queue and the index pointers it writes through.\<close>

definition prioq_mset :: "('d, 'p) NMPrioq \<Rightarrow> 'd multiset" where
  "prioq_mset q = image_mset data (mset (items q))"

definition idx_ptrs :: "('d, 'p) NMPrioq \<Rightarrow> 'p set" where
  "idx_ptrs q = {p. \<exists>i\<in>set (items q). idx i = Some p}"

lemma heap_ok_iff: "heap_ok q \<longleftrightarrow> (\<forall>i<n_items q. edge_ok q i)"
  by (auto simp: heap_ok_def list_all_iff)

lemma idx_ok_iff: "idx_ok q \<longleftrightarrow> (\<forall>i<n_items q. \<forall>p. idx (items q ! i) = Some p \<longrightarrow> idx_mem q p = i)"
  by (fastforce simp: idx_ok_def list_all_iff split: option.splits)

lemma idx_okD: "idx_ok q \<Longrightarrow> i < length (items q) \<Longrightarrow> idx (items q ! i) = Some p \<Longrightarrow> idx_mem q p = i"
  by (auto simp: idx_ok_iff n_items_def)

lemma idx_ptrs_eq: "idx_ptrs q = {p. \<exists>i<length (items q). idx (items q ! i) = Some p}"
  unfolding idx_ptrs_def by (fastforce simp: set_conv_nth)

lemma idx_ptrs_set_idx [simp]: "idx_ptrs (set_idx p v q) = idx_ptrs q"
  by (simp add: idx_ptrs_def)

section \<open>Swapping two items\<close>

lemma compare_swap:
  "j < n_items q \<Longrightarrow> k < n_items q \<Longrightarrow> a < n_items q \<Longrightarrow> b < n_items q \<Longrightarrow>
   compare (swap q j k) a b =
     compare q (if a = j then k else if a = k then j else a)
               (if b = j then k else if b = k then j else b)"
  by (simp add: compare_def n_items_def list_swap_nth cong: if_cong split: option.splits)

lemma prioq_mset_swap [simp]:
  "j < n_items q \<Longrightarrow> k < n_items q \<Longrightarrow> prioq_mset (swap q j k) = prioq_mset q"
  by (simp add: prioq_mset_def n_items_def mset_list_swap)

lemma set_items_swap [simp]:
  "j < n_items q \<Longrightarrow> k < n_items q \<Longrightarrow> set (items (swap q j k)) = set (items q)"
  by (metis items_swap mset_list_swap n_items_def set_mset_mset)

lemma idx_ptrs_swap [simp]:
  "j < n_items q \<Longrightarrow> k < n_items q \<Longrightarrow> idx_ptrs (swap q j k) = idx_ptrs q"
  unfolding idx_ptrs_def by (subst set_items_swap) auto

lemma idx_mem_swap:
  assumes "j < n_items q" "k < n_items q"
  shows "idx_mem (swap q j k) p =
     (if idx (items q ! j) = Some p then k else if idx (items q ! k) = Some p then j
      else idx_mem q p)"
  using assms
  by (auto simp: swap_def set_idx_def Let_def n_items_def nth_list_update split: option.splits)

lemma idx_ok_swap:
  assumes ok: "idx_ok q" and j: "j < n_items q" and k: "k < n_items q"
  shows "idx_ok (swap q j k)"
  unfolding idx_ok_iff
proof (intro allI impI)
  fix i p
  assume i: "i < n_items (swap q j k)" and p: "idx (items (swap q j k) ! i) = Some p"
  let ?i' = "if i = j then k else if i = k then j else i"
  have i': "idx (items q ! ?i') = Some p" "?i' < n_items q"
    using p i j k by (auto simp: n_items_def list_swap_nth)
  then have mem: "idx_mem q p = ?i'" using idx_okD [OF ok] by (simp add: n_items_def)
  have uniq: "idx (items q ! a) = Some p \<Longrightarrow> a = ?i'" if "a < n_items q" for a
    using idx_okD [OF ok, of a p] that mem by (simp add: n_items_def)
  show "idx_mem (swap q j k) p = i"
    unfolding idx_mem_swap [OF j k] using i' mem uniq [OF j] uniq [OF k]
    by (cases "i = j"; cases "i = k") auto
qed

lemma idx_mem_swap_frame:
  "j < n_items q \<Longrightarrow> k < n_items q \<Longrightarrow> p \<notin> idx_ptrs q \<Longrightarrow> idx_mem (swap q j k) p = idx_mem q p"
  by (auto simp: idx_mem_swap idx_ptrs_eq n_items_def)

section \<open>What shuffling leaves unchanged\<close>

text \<open>
  \<open>same_content q q'\<close>: \<open>q'\<close> is a rearrangement of \<open>q\<close>; index variables outside the queue are
  untouched and those inside stay consistent.
\<close>

definition same_content :: "('d, 'p) NMPrioq \<Rightarrow> ('d, 'p) NMPrioq \<Rightarrow> bool" where
  "same_content q q' \<longleftrightarrow>
     compare_func q' = compare_func q \<and> n_allocated q' = n_allocated q \<and>
     mset (items q') = mset (items q) \<and> (idx_ok q \<longrightarrow> idx_ok q') \<and>
     (\<forall>p. p \<notin> idx_ptrs q \<longrightarrow> idx_mem q' p = idx_mem q p)"

lemma same_content_refl [simp]: "same_content q q"
  by (simp add: same_content_def)

lemma same_content_set: "same_content q q' \<Longrightarrow> set (items q') = set (items q)"
  unfolding same_content_def by (metis set_mset_mset)

lemma same_content_ptrs: "same_content q q' \<Longrightarrow> idx_ptrs q' = idx_ptrs q"
  by (simp add: idx_ptrs_def same_content_set)

lemma same_content_n_items: "same_content q q' \<Longrightarrow> n_items q' = n_items q"
  unfolding same_content_def n_items_def by (metis size_mset)

lemma same_content_trans: "same_content q q' \<Longrightarrow> same_content q' q'' \<Longrightarrow> same_content q q''"
  using same_content_ptrs [of q q'] unfolding same_content_def by auto

lemma same_content_swap: "j < n_items q \<Longrightarrow> k < n_items q \<Longrightarrow> same_content q (swap q j k)"
  by (auto simp: same_content_def idx_ok_swap idx_mem_swap_frame mset_list_swap n_items_def)

lemma shuffle_up_content:
  "i < n_items q \<Longrightarrow> same_content q (fst (shuffle_up q i))"
proof (induction q i rule: shuffle_up_induct)
  case (step q i)
  let ?k = "parent i"
  show ?case
  proof (cases "0 < i \<and> \<not> compare q ?k i \<le> 0")
    case True
    have k: "?k < n_items q" using step(2) parent_le [of i] by linarith
    have "same_content (swap q i ?k) (fst (shuffle_up (swap q i ?k) ?k))"
      using step(1) True k by simp
    with same_content_trans [OF same_content_swap [OF step(2) k]] True show ?thesis
      by (simp add: shuffle_up_unfold [of q i])
  next
    case False
    then show ?thesis by (auto simp: shuffle_up_unfold [of q i])
  qed
qed

text \<open>One iteration of \<open>shuffle_down\<close>: the child chosen as \<open>s\<close>.\<close>

definition smallest_of_three :: "('d, 'p) NMPrioq \<Rightarrow> nat \<Rightarrow> nat" where
  "smallest_of_three q i =
     (let k = (i + 1) * 2; j = k - 1;
          s = (if compare q j i < 0 then j else i)
      in if k < n_items q \<and> compare q k s < 0 then k else s)"

lemma smallest_of_three_eq:
  "smallest_of_three q i =
     (let s = (if compare q (2 * i + 1) i < 0 then 2 * i + 1 else i)
      in if 2 * i + 2 < n_items q \<and> compare q (2 * i + 2) s < 0 then 2 * i + 2 else s)"
proof -
  have "(i + 1) * 2 = 2 * i + 2" "(i + 1) * 2 - 1 = 2 * i + 1" by simp_all
  then show ?thesis by (simp only: smallest_of_three_def Let_def)
qed

lemma shuffle_down_unfold:
  "shuffle_down q i =
     (if n_items q \<le> 2 * i + 1 \<or> smallest_of_three q i = i then (q, i)
      else shuffle_down (swap q i (smallest_of_three q i)) (smallest_of_three q i))"
  by (subst shuffle_down.simps) (simp add: smallest_of_three_def Let_def)

lemma smallest_of_three_cases:
  "2 * i + 1 < n_items q \<Longrightarrow> smallest_of_three q i \<noteq> i \<Longrightarrow>
     smallest_of_three q i = 2 * i + 1 \<or>
     smallest_of_three q i = 2 * i + 2 \<and> 2 * i + 2 < n_items q"
  by (auto simp: smallest_of_three_eq Let_def split: if_splits)

lemma smallest_of_three_bounds:
  "2 * i + 1 < n_items q \<Longrightarrow> smallest_of_three q i \<noteq> i \<Longrightarrow>
     smallest_of_three q i < n_items q \<and> i < smallest_of_three q i \<and>
     parent (smallest_of_three q i) = i"
  using smallest_of_three_cases [of i q] by (auto simp: parent_def)

lemma shuffle_down_content:
  "i < n_items q \<Longrightarrow>
     same_content q (fst (shuffle_down q i)) \<and> snd (shuffle_down q i) < n_items q"
proof (induction q i rule: measure_induct_rule [of "\<lambda>(q, i). n_items q - i" _ "(q, i)" for q i,
      split_format (complete)])
  case (less q i)
  let ?s = "smallest_of_three q i"
  show ?case
  proof (cases "n_items q \<le> 2 * i + 1 \<or> ?s = i")
    case True
    with less.prems show ?thesis by (simp add: shuffle_down_unfold [of q i])
  next
    case False
    then have s: "?s < n_items q" "i < ?s" using smallest_of_three_bounds [of i q] by auto
    then have "same_content (swap q i ?s) (fst (shuffle_down (swap q i ?s) ?s)) \<and>
        snd (shuffle_down (swap q i ?s) ?s) < n_items (swap q i ?s)"
      using less.IH [of "swap q i ?s" ?s] less.prems by simp
    with False same_content_trans [OF same_content_swap [OF less.prems s(1)]] show ?thesis
      by (simp add: shuffle_down_unfold [of q i])
  qed
qed

section \<open>Restoring the heap order\<close>

text \<open>
  \<open>hole q k\<close>: the order can be broken only at \<open>k\<close>, and even there the children of \<open>k\<close> are not
  below its parent. \<open>up_hole\<close> adds that \<open>k\<close> is not above its children.
\<close>

definition hole :: "('d, 'p) NMPrioq \<Rightarrow> nat \<Rightarrow> bool" where
  "hole q k \<longleftrightarrow>
     (\<forall>i<n_items q. 0 < i \<longrightarrow> i \<noteq> k \<longrightarrow> parent i \<noteq> k \<longrightarrow> compare q (parent i) i \<le> 0) \<and>
     (\<forall>i<n_items q. 0 < i \<longrightarrow> parent i = k \<longrightarrow> 0 < k \<longrightarrow> compare q (parent k) i \<le> 0)"

definition up_hole :: "('d, 'p) NMPrioq \<Rightarrow> nat \<Rightarrow> bool" where
  "up_hole q k \<longleftrightarrow> hole q k \<and>
     (\<forall>i<n_items q. 0 < i \<longrightarrow> parent i = k \<longrightarrow> compare q k i \<le> 0)"

lemma holeD1:
  "hole q k \<Longrightarrow> i < n_items q \<Longrightarrow> 0 < i \<Longrightarrow> i \<noteq> k \<Longrightarrow> parent i \<noteq> k \<Longrightarrow>
   compare q (parent i) i \<le> 0"
  by (auto simp: hole_def)

lemma holeD2:
  "hole q k \<Longrightarrow> i < n_items q \<Longrightarrow> 0 < i \<Longrightarrow> parent i = k \<Longrightarrow> 0 < k \<Longrightarrow>
   compare q (parent k) i \<le> 0"
  by (auto simp: hole_def)

lemma compare_func_cmp:
  "compare_func q = Some f \<Longrightarrow> compare q a b = f (data (items q ! a)) (data (items q ! b))"
  by (simp add: compare_def)

lemma compare_trans:
  "compare_func q = Some f \<Longrightarrow> compare_ok f \<Longrightarrow> compare q a b \<le> 0 \<Longrightarrow> compare q b c \<le> 0 \<Longrightarrow>
   compare q a c \<le> 0"
  unfolding compare_ok_iff by (simp add: compare_func_cmp) (rule compare_order.cmp_trans)

lemma compare_not_le:
  "compare_func q = Some f \<Longrightarrow> compare_ok f \<Longrightarrow> \<not> compare q a b \<le> 0 \<Longrightarrow> compare q b a \<le> 0"
  unfolding compare_ok_iff by (simp add: compare_func_cmp compare_order.cmp_not_le)

lemma compare_not_less:
  "compare_func q = Some f \<Longrightarrow> compare_ok f \<Longrightarrow> \<not> compare q a b < 0 \<Longrightarrow> compare q b a \<le> 0"
  unfolding compare_ok_iff by (simp add: compare_func_cmp compare_order.cmp_not_less)

lemma up_hole_heap:
  "up_hole q i \<Longrightarrow> i = 0 \<or> compare q (parent i) i \<le> 0 \<Longrightarrow> heap_ok q"
  unfolding heap_ok_iff edge_ok_def up_hole_def by (metis holeD1 neq0_conv)

lemma heap_hole: "heap_ok q \<Longrightarrow> n_items q \<le> 2 * k + 1 \<Longrightarrow> up_hole q k"
  unfolding heap_ok_iff edge_ok_def up_hole_def hole_def by (auto simp: parent_eq_iff)

lemma up_hole_swap:
  assumes f: "compare_func q = Some f" "compare_ok f"
    and hole: "up_hole q i" and i: "i < n_items q" "0 < i"
    and le: "compare q i (parent i) \<le> 0"
  shows "up_hole (swap q i (parent i)) (parent i)"
proof -
  define k where "k = parent i"
  have k: "k < n_items q" "k \<noteq> i" using i parent_less [of i] by (auto simp: k_def)
  have H: "hole q i" using hole by (simp add: up_hole_def)
  have le': "compare q i k \<le> 0" using le by (simp add: k_def)
  have child: "compare q k m \<le> 0" if "m < n_items q" "0 < m" "parent m = k" "m \<noteq> i" for m
    using holeD1 [OF H that(1,2,4)] that(3) k by simp
  have top: "compare q (parent k) k \<le> 0" if "0 < k"
    using holeD1 [OF H k(1) that k(2)] parent_le [of k] parent_less [OF i(2)] k_def by simp
  have par: "parent m < n_items q" if "m < n_items q" for m using that parent_le [of m] by linarith
  have "compare (swap q i k) (parent m) m \<le> 0"
    if m: "m < n_items q" "0 < m" "m \<noteq> k" "parent m \<noteq> k" for m
    using holeD1 [OF H m(1,2)] holeD2 [OF H m(1,2)] m i k par [OF m(1)] k_def
    by (cases "parent m = i") (auto simp: compare_swap)
  moreover have "compare (swap q i k) (parent k) m \<le> 0"
    if m: "m < n_items q" "0 < m" "parent m = k" "0 < k" for m
    using top [OF m(4)] child [OF m(1-3)] compare_trans [OF f, of "parent k" k m] m i k
      par [OF k(1)] parent_less [OF m(4)] parent_less [OF i(2)]
    by (cases "m = i") (auto simp: compare_swap simp flip: k_def)
  moreover have "compare (swap q i k) k m \<le> 0"
    if m: "m < n_items q" "0 < m" "parent m = k" for m
    using le' child [OF m] compare_trans [OF f le'] m i k parent_less [OF m(2)]
    by (cases "m = i") (auto simp: compare_swap)
  ultimately show ?thesis by (simp add: up_hole_def hole_def k_def)
qed

lemma shuffle_up_heap:
  "up_hole q i \<Longrightarrow> i < n_items q \<Longrightarrow> compare_func q = Some f \<Longrightarrow> compare_ok f \<Longrightarrow>
   heap_ok (fst (shuffle_up q i))"
proof (induction q i rule: shuffle_up_induct)
  case (step q i)
  let ?k = "parent i"
  show ?case
  proof (cases "0 < i \<and> \<not> compare q ?k i \<le> 0")
    case True
    then have "up_hole (swap q i ?k) ?k"
      using up_hole_swap [OF step(4,5,2,3)] compare_not_le [OF step(4,5)] by simp
    moreover have "?k < n_items q" using step(3) parent_le [of i] by linarith
    ultimately have "heap_ok (fst (shuffle_up (swap q i ?k) ?k))"
      using step(1,4,5) True by simp
    with True show ?thesis by (simp add: shuffle_up_unfold [of q i])
  next
    case False
    with up_hole_heap [OF step(2)] show ?thesis
      by (auto simp: shuffle_up_unfold [of q i])
  qed
qed

lemma smallest_of_three_le:
  assumes f: "compare_func q = Some f" "compare_ok f"
    and m: "m < n_items q" "0 < m" "parent m = i"
  shows "compare q (smallest_of_three q i) m \<le> 0"
proof -
  have le: "compare q a m \<le> 0" if "compare q a b < 0" "compare q b m \<le> 0" for a b
    using compare_trans [OF f, of a b m] that by linarith
  have refl: "compare q a a \<le> 0" for a
    using compare_not_less [OF f, of a a] by linarith
  consider "m = 2 * i + 1" | "m = 2 * i + 2" using m parent_eq_iff by blast
  then show ?thesis
  proof cases
    case 1
    then show ?thesis
      using le [of "2 * i + 2" m] le [of "2 * i + 2" i] refl compare_not_less [OF f, of m i]
      by (auto simp: smallest_of_three_eq Let_def)
  next
    case 2
    then show ?thesis
      using m(1) refl compare_not_less [OF f, of m "2 * i + 1"] compare_not_less [OF f, of m i]
      by (auto simp: smallest_of_three_eq Let_def)
  qed
qed

lemma smallest_of_three_less:
  "compare_func q = Some f \<Longrightarrow> compare_ok f \<Longrightarrow> smallest_of_three q i \<noteq> i \<Longrightarrow>
   compare q (smallest_of_three q i) i \<le> 0"
  using compare_trans [of q f "2 * i + 2" "2 * i + 1" i]
  by (auto simp: smallest_of_three_eq Let_def split: if_splits)

lemma hole_swap:
  assumes f: "compare_func q = Some f" "compare_ok f"
    and H: "hole q i" and i: "2 * i + 1 < n_items q"
    and ne: "smallest_of_three q i \<noteq> i"
  shows "hole (swap q i (smallest_of_three q i)) (smallest_of_three q i)"
proof -
  define s where "s = smallest_of_three q i"
  have s: "s < n_items q" "i < s" "parent s = i"
    using smallest_of_three_bounds [OF i ne] by (simp_all add: s_def)
  have par: "parent m < n_items q" if "m < n_items q" for m using that parent_le [of m] by linarith
  have le: "compare q s m \<le> 0" if "m < n_items q" "0 < m" "parent m = i" for m
    using smallest_of_three_le [OF f that] by (simp add: s_def)
  have "compare (swap q i s) (parent m) m \<le> 0"
    if m: "m < n_items q" "0 < m" "m \<noteq> s" "parent m \<noteq> s" for m
    using holeD1 [OF H m(1,2)] holeD2 [OF H s(1) _ s(3)] le [OF m(1,2)] m s par [OF m(1)]
      parent_less [OF m(2)]
    by (cases "m = i"; cases "parent m = i") (auto simp: compare_swap)
  moreover have "compare (swap q i s) (parent s) m \<le> 0"
    if m: "m < n_items q" "0 < m" "parent m = s" for m
  proof -
    have "m \<noteq> i" "m \<noteq> s" using m s parent_less [of m] by auto
    then show ?thesis using holeD1 [OF H m(1,2)] m s by (simp add: compare_swap)
  qed
  ultimately show ?thesis by (simp add: hole_def s_def)
qed

lemma shuffle_down_hole:
  "hole q i \<Longrightarrow> i < n_items q \<Longrightarrow> compare_func q = Some f \<Longrightarrow> compare_ok f \<Longrightarrow>
   up_hole (fst (shuffle_down q i)) (snd (shuffle_down q i))"
proof (induction q i rule: measure_induct_rule [of "\<lambda>(q, i). n_items q - i" _ "(q, i)" for q i,
      split_format (complete)])
  case (less q i)
  let ?s = "smallest_of_three q i"
  show ?case
  proof (cases "n_items q \<le> 2 * i + 1 \<or> ?s = i")
    case True
    have "compare q i m \<le> 0" if "m < n_items q" "0 < m" "parent m = i" for m
      using smallest_of_three_le [OF less.prems(3,4) that] True that parent_eq_iff [of m i]
      by auto
    with less.prems(1) True show ?thesis by (auto simp: shuffle_down_unfold [of q i] up_hole_def)
  next
    case False
    then have "?s < n_items q" "i < ?s" using smallest_of_three_bounds [of i q] by auto
    moreover have "hole (swap q i ?s) ?s"
      using hole_swap [OF less.prems(3,4,1)] False by simp
    ultimately have "up_hole (fst (shuffle_down (swap q i ?s) ?s)) (snd (shuffle_down (swap q i ?s) ?s))"
      using less.IH [of "swap q i ?s" ?s] less.prems(2-4) by simp
    with False show ?thesis by (simp add: shuffle_down_unfold [of q i])
  qed
qed

lemma reshuffle_item_spec:
  assumes "hole q i" "i < n_items q" "compare_func q = Some f" "compare_ok f"
  shows "same_content q (reshuffle_item q i) \<and> heap_ok (reshuffle_item q i)"
proof -
  obtain q1 k where d: "shuffle_down q i = (q1, k)" by force
  have c1: "same_content q q1" and k: "k < n_items q"
    using shuffle_down_content [OF assms(2)] d by auto
  have n1: "n_items q1 = n_items q" using same_content_n_items [OF c1] .
  have f1: "compare_func q1 = Some f" using c1 assms(3) by (simp add: same_content_def)
  have "same_content q1 (fst (shuffle_up q1 k))" using shuffle_up_content [of k q1] k n1 by simp
  moreover have "heap_ok (fst (shuffle_up q1 k))"
    using shuffle_down_hole [OF assms] d shuffle_up_heap [OF _ _ f1 assms(4)] k n1 by simp
  ultimately show ?thesis
    using same_content_trans [OF c1] d by (simp add: reshuffle_item_def)
qed

section \<open>The operations keep queues well-formed\<close>

lemma prioq_okD:
  "prioq_ok q \<Longrightarrow> \<exists>f. compare_func q = Some f \<and> compare_ok f \<and> heap_ok q \<and> idx_ok q"
  by (auto simp: prioq_ok_def split: option.splits)

lemma prioq_ok_same_content:
  "same_content q q' \<Longrightarrow> idx_ok q \<Longrightarrow> compare_func q = Some f \<Longrightarrow> compare_ok f \<Longrightarrow> heap_ok q' \<Longrightarrow>
   prioq_ok q'"
  by (simp add: prioq_ok_def same_content_def)

lemma prioq_mset_same_content: "same_content q q' \<Longrightarrow> prioq_mset q' = prioq_mset q"
  by (simp add: prioq_mset_def same_content_def)

text \<open>The queue after \<open>nm_prioq_put\<close> has appended the item, before it moves it up.\<close>

definition appended :: "('d, 'p) NMPrioq \<Rightarrow> 'd \<Rightarrow> 'p option \<Rightarrow> ('d, 'p) NMPrioq" where
  "appended q d p =
     set_idx p (n_items q)
       (q\<lparr>n_allocated := put_capacity q, items := items q @ [\<lparr>data = d, idx = p\<rparr>]\<rparr>)"

lemma nm_prioq_put_eq: "nm_prioq_put q d p = fst (shuffle_up (appended q d p) (n_items q))"
  by (simp add: nm_prioq_put_def appended_def Let_def n_items_def)

lemma items_appended [simp]: "items (appended q d p) = items q @ [\<lparr>data = d, idx = p\<rparr>]"
  and compare_func_appended [simp]: "compare_func (appended q d p) = compare_func q"
  and n_items_appended [simp]: "n_items (appended q d p) = Suc (n_items q)"
  by (simp_all add: appended_def n_items_def)

lemma compare_appended:
  "a < n_items q \<Longrightarrow> b < n_items q \<Longrightarrow> compare (appended q d p) a b = compare q a b"
  by (simp add: compare_def n_items_def nth_append split: option.splits)

lemma appended_hole: "heap_ok q \<Longrightarrow> up_hole (appended q d p) (n_items q)"
  unfolding up_hole_def hole_def heap_ok_iff edge_ok_def
  by (auto simp: compare_appended less_Suc_eq parent_eq_iff le_less_trans [OF parent_le])

lemma appended_idx_ok:
  "idx_ok q \<Longrightarrow> (\<And>a. p = Some a \<Longrightarrow> a \<notin> idx_ptrs q) \<Longrightarrow> idx_ok (appended q d p)"
  unfolding idx_ok_iff idx_ptrs_eq
  by (auto simp: appended_def n_items_def nth_append set_idx_def less_Suc_eq split: option.splits)

lemma nm_prioq_put_spec:
  assumes ok: "prioq_ok q" and fresh: "\<And>a. p = Some a \<Longrightarrow> a \<notin> idx_ptrs q"
  shows "prioq_ok (nm_prioq_put q d p)"
    and "prioq_mset (nm_prioq_put q d p) = add_mset d (prioq_mset q)"
    and "idx_ptrs (nm_prioq_put q d p) = idx_ptrs q \<union> set_option p"
    and "compare_func (nm_prioq_put q d p) = compare_func q"
    and "n_allocated (nm_prioq_put q d p) = n_allocated (appended q d p)"
    and "n_items (nm_prioq_put q d p) = Suc (n_items q)"
proof -
  let ?q1 = "appended q d p"
  obtain f where f: "compare_func q = Some f" "compare_ok f" "heap_ok q" "idx_ok q"
    using prioq_okD [OF ok] by blast
  have sc: "same_content ?q1 (nm_prioq_put q d p)"
    unfolding nm_prioq_put_eq by (rule shuffle_up_content) simp
  have "heap_ok (nm_prioq_put q d p)"
    unfolding nm_prioq_put_eq using shuffle_up_heap [OF appended_hole [OF f(3)]] f by simp
  then show "prioq_ok (nm_prioq_put q d p)"
    using prioq_ok_same_content [OF sc] appended_idx_ok [OF f(4) fresh] f by simp
  show "prioq_mset (nm_prioq_put q d p) = add_mset d (prioq_mset q)"
    using prioq_mset_same_content [OF sc] by (simp add: prioq_mset_def)
  show "idx_ptrs (nm_prioq_put q d p) = idx_ptrs q \<union> set_option p"
    using same_content_ptrs [OF sc] by (auto simp: idx_ptrs_def)
  show "compare_func (nm_prioq_put q d p) = compare_func q"
    and "n_allocated (nm_prioq_put q d p) = n_allocated ?q1"
    using sc by (simp_all add: same_content_def)
  show "n_items (nm_prioq_put q d p) = Suc (n_items q)"
    using same_content_n_items [OF sc] by simp
qed

text \<open>Below \<open>2^31\<close> items every insertion stores in bounds.\<close>

lemma put_capacity_gt: "n_items q + 1 < 2 ^ 31 \<Longrightarrow> n_items q < put_capacity q"
  by (auto simp: put_capacity_def less_max_iff_disj)

lemma nm_prioq_put_in_bounds:
  "n_items q + 1 < 2 ^ 31 \<Longrightarrow> nm_prioq_put_checked q d p = Some (nm_prioq_put q d p)"
  using put_capacity_gt [of q] by (simp add: nm_prioq_put_checked_def)

lemma put_all_in_bounds:
  "prioq_ok q \<Longrightarrow> n_items q + length ds < 2 ^ 31 \<Longrightarrow> put_all q ds = Some (foldl (\<lambda>q d. nm_prioq_put q d None) q ds)"
proof (induction ds arbitrary: q)
  case (Cons d ds)
  have "n_items q + 1 < 2 ^ 31" using Cons.prems(2) by simp
  then show ?case
    using Cons.IH [of "nm_prioq_put q d None"] Cons.prems nm_prioq_put_spec(1,6) [OF Cons.prems(1), of None d]
    by (simp add: nm_prioq_put_in_bounds)
qed simp

text \<open>The queue after \<open>remove_item\<close> has put the last item into the freed slot.\<close>

definition replaced :: "('d, 'p) NMPrioq \<Rightarrow> nat \<Rightarrow> ('d, 'p) NMPrioq" where
  "replaced q i =
     (let l = n_items q - 1; x = items q ! l in
      set_idx (idx x) i
        ((set_idx (idx (items q ! i)) NM_PRIOQ_IDX_NULL q)\<lparr>items := (take l (items q))[i := x]\<rparr>))"

definition truncated :: "('d, 'p) NMPrioq \<Rightarrow> ('d, 'p) NMPrioq" where
  "truncated q =
     (let l = n_items q - 1 in
      (set_idx (idx (items q ! l)) NM_PRIOQ_IDX_NULL q)\<lparr>items := take l (items q)\<rparr>)"

lemma n_items_set_idx [simp]: "n_items (set_idx p v q) = n_items q"
  by (simp add: n_items_def)

lemma remove_item_eq:
  "remove_item q i = (if i = n_items q - 1 then truncated q else reshuffle_item (replaced q i) i)"
  by (simp add: remove_item_def replaced_def truncated_def reshuffle_item_def Let_def)

lemma items_replaced: "items (replaced q i) = (take (n_items q - 1) (items q))[i := items q ! (n_items q - 1)]"
  and compare_func_replaced [simp]: "compare_func (replaced q i) = compare_func q"
  by (simp_all add: replaced_def Let_def)

lemma n_items_replaced [simp]: "n_items (replaced q i) = n_items q - 1"
  by (simp add: n_items_def items_replaced)

lemma mset_replaced:
  assumes "i < n_items q - 1"
  shows "add_mset (items q ! i) (mset (items (replaced q i))) = mset (items q)"
proof -
  define l where "l = n_items q - 1"
  have l: "l < length (items q)" "i < l" "n_items q = Suc l"
    using assms by (auto simp: l_def n_items_def)
  have "items q = take l (items q) @ [items q ! l]"
    using take_Suc_conv_app_nth [of l "items q"] l by (simp add: n_items_def)
  then have "mset (items q) = add_mset (items q ! l) (mset (take l (items q)))"
    by (metis add_mset_add_single mset_append mset.simps)
  moreover have "items q ! i \<in># mset (take l (items q))"
    using l by (metis length_take min.absorb4 nth_mem nth_take set_mset_mset)
  then have "add_mset (items q ! i) (mset ((take l (items q))[i := items q ! l])) =
      add_mset (items q ! l) (mset (take l (items q)))"
    using l by (simp add: mset_update)
  ultimately show ?thesis by (simp add: items_replaced l_def)
qed

lemma nth_replaced:
  "i < n_items q - 1 \<Longrightarrow> a < n_items q - 1 \<Longrightarrow>
   items (replaced q i) ! a = items q ! (if a = i then n_items q - 1 else a)"
  by (simp add: items_replaced n_items_def nth_list_update)

lemma compare_replaced:
  "i < n_items q - 1 \<Longrightarrow> a < n_items q - 1 \<Longrightarrow> b < n_items q - 1 \<Longrightarrow> a \<noteq> i \<Longrightarrow> b \<noteq> i \<Longrightarrow>
   compare (replaced q i) a b = compare q a b"
  by (simp add: compare_def nth_replaced split: option.splits)

lemma replaced_hole:
  assumes i: "i < n_items q - 1" and heap: "heap_ok q"
    and f: "compare_func q = Some f" "compare_ok f"
  shows "hole (replaced q i) i"
proof -
  have edge: "compare q (parent m) m \<le> 0" if "m < n_items q" "0 < m" for m
    using heap that by (auto simp: heap_ok_iff edge_ok_def)
  have "compare (replaced q i) (parent m) m \<le> 0"
    if "m < n_items q - 1" "0 < m" "m \<noteq> i" "parent m \<noteq> i" for m
    using edge [of m] that le_less_trans [OF parent_le that(1)] i by (simp add: compare_replaced)
  moreover have "compare (replaced q i) (parent i) m \<le> 0"
    if m: "m < n_items q - 1" "0 < m" "parent m = i" "0 < i" for m
  proof -
    have "compare q (parent i) m \<le> 0"
      using compare_trans [OF f edge [OF _ m(4)] edge [OF _ m(2), unfolded m(3)]] m(1) i by simp
    then show ?thesis
      using m i parent_less [OF m(2)] parent_less [OF m(4)]
      by (simp add: compare_replaced)
  qed
  ultimately show ?thesis by (simp add: hole_def)
qed

lemma idx_mem_replaced:
  "i < n_items q - 1 \<Longrightarrow> idx_mem (replaced q i) p =
     (if idx (items q ! (n_items q - 1)) = Some p then i
      else if idx (items q ! i) = Some p then NM_PRIOQ_IDX_NULL else idx_mem q p)"
  by (auto simp: replaced_def set_idx_def Let_def split: option.splits)

lemma idx_mem_truncated:
  "idx_mem (truncated q) p =
     (if idx (items q ! (n_items q - 1)) = Some p then NM_PRIOQ_IDX_NULL else idx_mem q p)"
  by (auto simp: truncated_def set_idx_def Let_def split: option.splits)

lemma idx_ok_inj:
  "idx_ok q \<Longrightarrow> a < n_items q \<Longrightarrow> b < n_items q \<Longrightarrow> idx (items q ! a) = Some p \<Longrightarrow>
   idx (items q ! b) = Some p \<Longrightarrow> a = b"
  unfolding idx_ok_iff by metis

lemma replaced_idx_ok:
  assumes ok: "idx_ok q" and i: "i < n_items q - 1"
  shows "idx_ok (replaced q i)"
  unfolding idx_ok_iff
proof (intro allI impI)
  fix m p
  assume m: "m < n_items (replaced q i)" and p: "idx (items (replaced q i) ! m) = Some p"
  have lt: "m < n_items q" "i < n_items q" "n_items q - 1 < n_items q" using m i by auto
  from p show "idx_mem (replaced q i) p = m"
    using m i idx_ok_inj [OF ok lt(1) lt(3)] idx_ok_inj [OF ok lt(1) lt(2)] ok lt
    by (cases "m = i") (auto simp: nth_replaced idx_mem_replaced idx_ok_iff)
qed

lemma truncated_props:
  assumes "0 < n_items q"
  shows "n_items (truncated q) = n_items q - 1" "compare_func (truncated q) = compare_func q"
    "items (truncated q) = take (n_items q - 1) (items q)"
    "add_mset (items q ! (n_items q - 1)) (mset (items (truncated q))) = mset (items q)"
proof -
  have "items q = take (n_items q - 1) (items q) @ [items q ! (n_items q - 1)]"
    using take_Suc_conv_app_nth [of "n_items q - 1" "items q"] assms by (simp add: n_items_def)
  then have "mset (items q) = mset (take (n_items q - 1) (items q)) + {#items q ! (n_items q - 1)#}"
    by (metis mset_append mset.simps add_mset_add_single)
  then show "add_mset (items q ! (n_items q - 1)) (mset (items (truncated q))) = mset (items q)"
    by (simp add: truncated_def Let_def)
qed (simp_all add: truncated_def Let_def n_items_def)

lemma compare_truncated:
  "0 < n_items q \<Longrightarrow> a < n_items q - 1 \<Longrightarrow> b < n_items q - 1 \<Longrightarrow>
   compare (truncated q) a b = compare q a b"
  by (simp add: compare_def truncated_props split: option.splits)

lemma truncated_heap_ok: "0 < n_items q \<Longrightarrow> heap_ok q \<Longrightarrow> heap_ok (truncated q)"
  by (auto simp: heap_ok_iff edge_ok_def truncated_props compare_truncated
      le_less_trans [OF parent_le])

lemma truncated_idx_ok:
  assumes "0 < n_items q" "idx_ok q"
  shows "idx_ok (truncated q)"
  unfolding idx_ok_iff
proof (intro allI impI)
  fix m p
  assume "m < n_items (truncated q)" and "idx (items (truncated q) ! m) = Some p"
  then have m: "m < n_items q - 1" "m < n_items q" "n_items q - 1 < n_items q"
    and p: "idx (items q ! m) = Some p"
    using assms(1) by (auto simp: truncated_props)
  then have "idx (items q ! (n_items q - 1)) \<noteq> Some p"
    using idx_ok_inj [OF assms(2) m(2,3) p] by auto
  then show "idx_mem (truncated q) p = m"
    using assms(2) m(2) p by (simp add: idx_mem_truncated idx_ok_iff)
qed

lemma ex_less_last:
  "0 < (n::nat) \<Longrightarrow> (\<exists>m<n. P m) \<longleftrightarrow> P (n - 1) \<or> (\<exists>m<n - 1. P m)"
  by (cases n) (auto simp: less_Suc_eq)

lemma idx_ptrs_truncated:
  assumes "0 < n_items q" "idx_ok q"
  shows "idx_ptrs (truncated q) = idx_ptrs q - set_option (idx (items q ! (n_items q - 1)))"
proof -
  have "idx_ptrs (truncated q) = {p. \<exists>m<n_items q - 1. idx (items q ! m) = Some p}"
    using assms(1) by (auto simp: idx_ptrs_eq truncated_props n_items_def)
  moreover have "idx (items q ! (n_items q - 1)) \<noteq> Some p"
    if "m < n_items q - 1" "idx (items q ! m) = Some p" for m p
    using idx_ok_inj [OF assms(2), of m "n_items q - 1" p] that by auto
  moreover have "idx_ptrs q = {p. \<exists>m<n_items q. idx (items q ! m) = Some p}"
    by (simp add: idx_ptrs_eq n_items_def)
  ultimately show ?thesis using ex_less_last [OF assms(1)] by fastforce
qed

lemma idx_ptrs_replaced:
  assumes i: "i < n_items q - 1" and ok: "idx_ok q"
  shows "idx_ptrs (replaced q i) = idx_ptrs q - set_option (idx (items q ! i))"
proof -
  let ?l = "n_items q - 1"
  have "idx_ptrs (replaced q i) =
      {p. \<exists>m<?l. idx (items q ! (if m = i then ?l else m)) = Some p}"
    unfolding idx_ptrs_eq n_items_def [symmetric] n_items_replaced
    using i by (simp add: nth_replaced cong: conj_cong)
  also have "\<dots> = {p. \<exists>m<n_items q. m \<noteq> i \<and> idx (items q ! m) = Some p}" (is "?A = ?B")
  proof
    show "?A \<subseteq> ?B"
    proof
      fix p
      assume "p \<in> ?A"
      then obtain m where "m < ?l" "idx (items q ! (if m = i then ?l else m)) = Some p" by blast
      then show "p \<in> ?B"
        using i by (intro CollectI exI [of _ "if m = i then ?l else m"]) auto
    qed
    show "?B \<subseteq> ?A"
    proof
      fix p
      assume "p \<in> ?B"
      then obtain m where "m < n_items q" "m \<noteq> i" "idx (items q ! m) = Some p" by blast
      then show "p \<in> ?A"
        using i by (intro CollectI exI [of _ "if m = ?l then i else m"]) auto
    qed
  qed
  also have "\<dots> = idx_ptrs q - set_option (idx (items q ! i))"
  proof -
    have "idx (items q ! i) \<noteq> Some p" if "m < n_items q" "m \<noteq> i" "idx (items q ! m) = Some p" for m p
      using idx_ok_inj [OF ok that(1) _ that(3), of i] i that(2) less_imp_diff_less [of i] by fastforce
    then show ?thesis unfolding idx_ptrs_eq n_items_def [symmetric] by auto
  qed
  finally show ?thesis .
qed

lemma remove_item_spec:
  assumes ok: "prioq_ok q" and i: "i < n_items q"
  shows "prioq_ok (remove_item q i)"
    and "add_mset (data (items q ! i)) (prioq_mset (remove_item q i)) = prioq_mset q"
    and "idx_ptrs (remove_item q i) = idx_ptrs q - set_option (idx (items q ! i))"
    and "compare_func (remove_item q i) = compare_func q"
    and "idx (items q ! i) = Some p \<Longrightarrow> idx_mem (remove_item q i) p = NM_PRIOQ_IDX_NULL"
proof -
  obtain f where f: "compare_func q = Some f" "compare_ok f" and h: "heap_ok q" "idx_ok q"
    using prioq_okD [OF ok] by blast
  let ?l = "n_items q - 1"
  have "prioq_ok (remove_item q i) \<and>
      add_mset (data (items q ! i)) (prioq_mset (remove_item q i)) = prioq_mset q \<and>
      idx_ptrs (remove_item q i) = idx_ptrs q - set_option (idx (items q ! i)) \<and>
      compare_func (remove_item q i) = compare_func q \<and>
      (idx (items q ! i) = Some p \<longrightarrow> idx_mem (remove_item q i) p = NM_PRIOQ_IDX_NULL)"
  proof (cases "i = ?l")
    case True
    have n: "0 < n_items q" using i by linarith
    have "prioq_ok (truncated q)"
      using truncated_heap_ok [OF n h(1)] truncated_idx_ok [OF n h(2)] f n
      by (simp add: prioq_ok_def truncated_props)
    moreover have "add_mset (data (items q ! ?l)) (prioq_mset (truncated q)) = prioq_mset q"
      using arg_cong [OF truncated_props(4) [OF n], of "image_mset data"]
      by (simp add: prioq_mset_def)
    ultimately show ?thesis
      using True n f idx_ptrs_truncated [OF n h(2)]
      by (simp add: remove_item_eq truncated_props idx_mem_truncated)
  next
    case False
    then have il: "i < ?l" using i by linarith
    let ?q1 = "replaced q i"
    have sc: "same_content ?q1 (reshuffle_item ?q1 i)" and hp: "heap_ok (reshuffle_item ?q1 i)"
      using reshuffle_item_spec [OF replaced_hole [OF il h(1) f]] il f by simp_all
    have "prioq_ok (reshuffle_item ?q1 i)"
      using prioq_ok_same_content [OF sc replaced_idx_ok [OF h(2) il] _ f(2) hp] f(1) by simp
    moreover have "add_mset (data (items q ! i)) (prioq_mset ?q1) = prioq_mset q"
      using arg_cong [OF mset_replaced [OF il], of "image_mset data"] by (simp add: prioq_mset_def)
    moreover have "idx_mem (reshuffle_item ?q1 i) p = NM_PRIOQ_IDX_NULL"
      if p: "idx (items q ! i) = Some p"
    proof -
      have "idx (items q ! ?l) \<noteq> Some p" using idx_ok_inj [OF h(2) i _ p, of ?l] i False by auto
      then have "idx_mem ?q1 p = NM_PRIOQ_IDX_NULL" using idx_mem_replaced [OF il] p by simp
      moreover have "p \<notin> idx_ptrs ?q1" using idx_ptrs_replaced [OF il h(2)] p by simp
      ultimately show ?thesis using sc by (simp add: same_content_def)
    qed
    ultimately show ?thesis
      using False prioq_mset_same_content [OF sc] same_content_ptrs [OF sc]
        idx_ptrs_replaced [OF il h(2)] sc
      by (simp add: remove_item_eq same_content_def)
  qed
  then show "prioq_ok (remove_item q i)"
    "add_mset (data (items q ! i)) (prioq_mset (remove_item q i)) = prioq_mset q"
    "idx_ptrs (remove_item q i) = idx_ptrs q - set_option (idx (items q ! i))"
    "compare_func (remove_item q i) = compare_func q"
    "idx (items q ! i) = Some p \<Longrightarrow> idx_mem (remove_item q i) p = NM_PRIOQ_IDX_NULL"
    by blast+
qed

lemma heap_root_least:
  assumes "heap_ok q" "compare_func q = Some f" "compare_ok f" "i < n_items q"
  shows "compare q 0 i \<le> 0"
  using assms(4)
proof (induction i rule: less_induct)
  case (less i)
  show ?case
  proof (cases "i = 0")
    case True
    then show ?thesis using assms(3) by (simp add: compare_func_cmp [OF assms(2)] compare_ok_iff
          compare_order.cmp_refl)
  next
    case False
    then have "compare q 0 (parent i) \<le> 0" using less parent_less [of i] by simp
    moreover have "compare q (parent i) i \<le> 0"
      using assms(1) less.prems False by (simp add: heap_ok_iff edge_ok_def)
    ultimately show ?thesis using compare_trans [OF assms(2,3)] by blast
  qed
qed

section \<open>The interface of a priority queue\<close>

text \<open>
  What the users of a queue rely on (the expiry queue of the LLDP receiver, the retry queue of
  \<^verbatim>\<open>nm-l3cfg.c\<close>): inserting adds one element, taking the head removes a least one.
  The order may depend on the queue, because the comparison function is stored in it.
\<close>

locale prio_queue =
  fixes inv :: "'q \<Rightarrow> bool"
    and le :: "'q \<Rightarrow> 'd \<Rightarrow> 'd \<Rightarrow> bool"
    and content :: "'q \<Rightarrow> 'd multiset"
    and enq :: "'q \<Rightarrow> 'd \<Rightarrow> 'q"
    and deq :: "'q \<Rightarrow> 'd option \<times> 'q"
  assumes enq_inv: "inv q \<Longrightarrow> inv (enq q d)"
    and enq_content: "inv q \<Longrightarrow> content (enq q d) = add_mset d (content q)"
    and enq_le: "inv q \<Longrightarrow> le (enq q d) = le q"
    and deq_empty: "inv q \<Longrightarrow> content q = {#} \<Longrightarrow> deq q = (None, q)"
    and deq_least: "inv q \<Longrightarrow> content q \<noteq> {#} \<Longrightarrow>
      \<exists>d q'. deq q = (Some d, q') \<and> inv q' \<and> le q' = le q \<and>
        content q = add_mset d (content q') \<and> (\<forall>x\<in>#content q. le q d x)"

text \<open>Taking the head \<open>n\<close> times.\<close>

fun drain :: "('q \<Rightarrow> 'd option \<times> 'q) \<Rightarrow> nat \<Rightarrow> 'q \<Rightarrow> 'd list \<times> 'q" where
  "drain deq 0 q = ([], q)"
| "drain deq (Suc n) q =
     (case deq q of
        (None, q') \<Rightarrow> ([], q')
      | (Some d, q') \<Rightarrow> (case drain deq n q' of (ds, q'') \<Rightarrow> (d # ds, q'')))"

context prio_queue
begin

lemma drain_spec:
  "inv q \<Longrightarrow> size (content q) \<le> n \<Longrightarrow>
   sorted_wrt (le q) (fst (drain deq n q)) \<and> mset (fst (drain deq n q)) = content q \<and>
   inv (snd (drain deq n q)) \<and> content (snd (drain deq n q)) = {#}"
proof (induction n arbitrary: q)
  case 0
  then show ?case by simp
next
  case (Suc n)
  show ?case
  proof (cases "content q = {#}")
    case True
    then show ?thesis using deq_empty [OF Suc.prems(1)] Suc.prems by simp
  next
    case False
    then obtain d q' where d: "deq q = (Some d, q')" "inv q'" "le q' = le q"
      "content q = add_mset d (content q')" "\<forall>x\<in>#content q. le q d x"
      using deq_least [OF Suc.prems(1)] by blast
    obtain ds q'' where r: "drain deq n q' = (ds, q'')" by force
    have "size (content q') \<le> n" using Suc.prems(2) d(4) by simp
    from Suc.IH [OF d(2) this] r have ih: "sorted_wrt (le q') ds" "mset ds = content q'"
      "inv q''" "content q'' = {#}" by simp_all
    from ih(2) have "set ds = set_mset (content q')" by (metis set_mset_mset)
    then show ?thesis using d r ih by auto
  qed
qed

lemma foldl_enq:
  "inv q \<Longrightarrow> inv (foldl enq q ds) \<and> content (foldl enq q ds) = content q + mset ds \<and>
   le (foldl enq q ds) = le q"
  by (induction ds arbitrary: q) (simp_all add: enq_inv enq_content enq_le)

lemma enq_all_drain:
  assumes "inv q" "content q = {#}"
  shows "sorted_wrt (le q) (fst (drain deq (length ds) (foldl enq q ds)))"
    and "mset (fst (drain deq (length ds) (foldl enq q ds))) = mset ds"
  using drain_spec [of "foldl enq q ds" "length ds"] foldl_enq [OF assms(1), of ds] assms(2)
  by simp_all

end

definition prioq_le :: "('d, 'p) NMPrioq \<Rightarrow> 'd \<Rightarrow> 'd \<Rightarrow> bool" where
  "prioq_le q a b \<longleftrightarrow> (case compare_func q of None \<Rightarrow> True | Some f \<Rightarrow> f a b \<le> 0)"

lemma prioq_mset_empty_iff: "prioq_mset q = {#} \<longleftrightarrow> n_items q = 0"
  by (simp add: prioq_mset_def n_items_def)

lemma nm_prioq_pop_spec:
  assumes ok: "prioq_ok q" and ne: "n_items q \<noteq> 0"
  shows "\<exists>d q'. nm_prioq_pop q = (Some d, q') \<and> prioq_ok q' \<and> compare_func q' = compare_func q \<and>
     prioq_mset q = add_mset d (prioq_mset q') \<and> (\<forall>x\<in>#prioq_mset q. prioq_le q d x)"
proof -
  obtain f where f: "compare_func q = Some f" "compare_ok f" "heap_ok q"
    using prioq_okD [OF ok] by blast
  have "prioq_le q (data (items q ! 0)) x" if "x \<in># prioq_mset q" for x
  proof -
    have "\<exists>m<n_items q. x = data (items q ! m)"
      using that by (auto simp: prioq_mset_def n_items_def in_set_conv_nth)
    then obtain m where "m < n_items q" "x = data (items q ! m)" by blast
    then show ?thesis
      using heap_root_least [OF f(3,1,2)] f(1) by (simp add: prioq_le_def compare_func_cmp)
  qed
  then show ?thesis
    using remove_item_spec [OF ok, of 0] ne by (simp add: nm_prioq_pop_def)
qed

interpretation prioq: prio_queue prioq_ok prioq_le prioq_mset
  "\<lambda>q d. nm_prioq_put q d None" nm_prioq_pop
proof
  fix q :: "('d, 'p) NMPrioq" and d
  assume ok: "prioq_ok q"
  show "prioq_ok (nm_prioq_put q d None)"
    "prioq_mset (nm_prioq_put q d None) = add_mset d (prioq_mset q)"
    "prioq_le (nm_prioq_put q d None) = prioq_le q"
    using nm_prioq_put_spec [OF ok, of None] by (simp_all add: prioq_le_def fun_eq_iff)
  show "nm_prioq_pop q = (None, q)" if "prioq_mset q = {#}"
    using that by (simp add: prioq_mset_empty_iff nm_prioq_pop_def)
  show "\<exists>d q'. nm_prioq_pop q = (Some d, q') \<and> prioq_ok q' \<and> prioq_le q' = prioq_le q \<and>
      prioq_mset q = add_mset d (prioq_mset q') \<and> (\<forall>x\<in>#prioq_mset q. prioq_le q d x)"
    if "prioq_mset q \<noteq> {#}"
    using nm_prioq_pop_spec [OF ok] that
    by (fastforce simp: prioq_mset_empty_iff prioq_le_def fun_eq_iff)
qed

lemma prioq_ok_init: "compare_ok f \<Longrightarrow> prioq_ok (nm_prioq_init f mem)"
  by (simp add: prioq_ok_def nm_prioq_init_def heap_ok_def idx_ok_def n_items_def)

section \<open>Finding an item\<close>

lemma linear_find_Some:
  "linear_find is d n = Some i \<Longrightarrow> n \<le> i \<and> i < n + length is \<and> data (is ! (i - n)) = d"
  by (induction "is" d n rule: linear_find.induct)
    (auto split: if_splits simp: nth_Cons' Suc_diff_le less_diff_conv2)

lemma linear_find_None: "linear_find is d n = None \<longleftrightarrow> d \<notin> data ` set is"
  by (induction "is" d n rule: linear_find.induct) auto

lemma find_item_Some: "find_item q d p = Some i \<Longrightarrow> i < n_items q \<and> data (items q ! i) = d"
  using linear_find_Some [of "items q" d 0 i]
  by (auto simp: find_item_def n_items_def split: option.splits if_splits)

lemma find_item_ptr:
  "idx_ok q \<Longrightarrow> find_item q d (Some a) = Some i \<Longrightarrow> a \<in> idx_ptrs q \<Longrightarrow> idx (items q ! i) = Some a"
  by (fastforce simp: find_item_def idx_ptrs_eq idx_ok_iff n_items_def split: if_splits)

section \<open>Properties of the priority queue\<close>

text \<open>
  Inserting an item whose index variable is not used by the queue keeps the queue
  well-formed (heap order and index variables), adds exactly this element, and makes the item
  findable by its data and index variable.
\<close>

theorem nm_prioq_put_correct:
  assumes ok: "prioq_ok q" and fresh: "\<forall>a. p = Some a \<longrightarrow> a \<notin> idx_ptrs q"
  shows "prioq_ok (nm_prioq_put q d p) \<and> prioq_mset (nm_prioq_put q d p) = add_mset d (prioq_mset q) \<and>
    (\<exists>i. find_item (nm_prioq_put q d p) d p = Some i)"
proof -
  let ?q' = "nm_prioq_put q d p"
  note spec = nm_prioq_put_spec [OF ok, of p d]
  have new: "set (items ?q') = insert \<lparr>data = d, idx = p\<rparr> (set (items q))"
    using same_content_set [OF shuffle_up_content [of "n_items q" "appended q d p"]]
    by (simp add: nm_prioq_put_eq)
  have "\<exists>i. find_item ?q' d p = Some i"
  proof (cases p)
    case None
    have "d \<in> data ` set (items ?q')" using new by simp
    then show ?thesis using None linear_find_None [of "items ?q'" d 0]
      by (auto simp: find_item_def)
  next
    case (Some a)
    have "\<lparr>data = d, idx = p\<rparr> \<in> set (items ?q')" using new by simp
    then obtain m where m: "m < n_items ?q'" "items ?q' ! m = \<lparr>data = d, idx = p\<rparr>"
      by (auto simp: in_set_conv_nth n_items_def)
    have "idx_mem ?q' a = m"
      using spec(1) m Some fresh by (auto simp: prioq_ok_def idx_ok_iff)
    then show ?thesis using m Some by (simp add: find_item_def)
  qed
  then show ?thesis using spec fresh by blast
qed

text \<open>
  Popping from a non-empty queue returns a least element under the comparison function,
  removes exactly this element and keeps the queue well-formed; an empty queue returns nothing
  and is unchanged.
\<close>

theorem nm_prioq_pop_correct:
  assumes "prioq_ok q"
  shows "case nm_prioq_pop q of
      (None, q') \<Rightarrow> n_items q = 0 \<and> q' = q
    | (Some d, q') \<Rightarrow> prioq_ok q' \<and> prioq_mset q = add_mset d (prioq_mset q') \<and>
        (\<forall>x\<in>#prioq_mset q. prioq_le q d x)"
  using nm_prioq_pop_spec [OF assms] by (cases "n_items q = 0") (auto simp: nm_prioq_pop_def)

text \<open>
  C9. Heap sort: for every list of fewer than \<open>2^31\<close> elements (the range of the 32-bit arithmetic
  of the code), putting its elements into a fresh queue stores no item outside the array, and
  popping as many times returns a permutation of the list that is sorted by the comparison function.
\<close>

theorem nm_prioq_sorts:
  fixes mem :: "'p \<Rightarrow> nat"
  assumes "compare_ok f" and "length ds < 2 ^ 31"
  shows "case put_all (nm_prioq_init f mem) ds of
      None \<Rightarrow> False
    | Some q \<Rightarrow> sorted_wrt (\<lambda>a b. f a b \<le> 0) (fst (drain nm_prioq_pop (length ds) q)) \<and>
        mset (fst (drain nm_prioq_pop (length ds) q)) = mset ds"
proof -
  have "prioq_mset (nm_prioq_init f mem) = {#}" "n_items (nm_prioq_init f mem) = 0"
    "prioq_le (nm_prioq_init f mem) = (\<lambda>a b. f a b \<le> 0)"
    by (simp_all add: nm_prioq_init_def prioq_mset_def prioq_le_def n_items_def fun_eq_iff)
  with prioq.enq_all_drain [OF prioq_ok_init [OF assms(1)], of mem ds]
    put_all_in_bounds [OF prioq_ok_init [OF assms(1)], of mem ds] assms(2)
  show ?thesis by simp
qed

text \<open>
  Removing by data and index variable: when the item is found, exactly one element with
  that data goes away, the queue stays well-formed and the index variable is reset to
  \<^verbatim>\<open>NM_PRIOQ_IDX_NULL\<close>; when it is not found, nothing changes and the result is false.
\<close>

theorem nm_prioq_remove_correct:
  assumes ok: "prioq_ok q"
  shows "case find_item q d p of
      None \<Rightarrow> nm_prioq_remove q d p = (False, q)
    | Some i \<Rightarrow> fst (nm_prioq_remove q d p) \<and> prioq_ok (snd (nm_prioq_remove q d p)) \<and>
        prioq_mset q = add_mset d (prioq_mset (snd (nm_prioq_remove q d p))) \<and>
        (\<forall>a. idx (items q ! i) = Some a \<longrightarrow>
           idx_mem (snd (nm_prioq_remove q d p)) a = NM_PRIOQ_IDX_NULL \<and>
           a \<notin> idx_ptrs (snd (nm_prioq_remove q d p)))"
proof (cases "find_item q d p")
  case (Some i)
  note f = find_item_Some [OF Some]
  show ?thesis
    using remove_item_spec [OF ok, of i] f Some by (simp add: nm_prioq_remove_def)
qed (simp add: nm_prioq_remove_def)

text \<open>After the order changed for one item, the heap order can be violated at this item only.\<close>

lemma reorder_hole:
  assumes ok: "prioq_ok q" and i: "i < n_items q"
    and eq: "\<And>a b. a < n_items q \<Longrightarrow> b < n_items q \<Longrightarrow> a \<noteq> i \<Longrightarrow> b \<noteq> i \<Longrightarrow>
      compare (q\<lparr>compare_func := g\<rparr>) a b = compare q a b"
  shows "hole (q\<lparr>compare_func := g\<rparr>) i"
proof -
  let ?q1 = "q\<lparr>compare_func := g\<rparr>"
  have n1 [simp]: "n_items ?q1 = n_items q" by (simp add: n_items_def)
  obtain f where f: "compare_func q = Some f" "compare_ok f" and h: "heap_ok q"
    using prioq_okD [OF ok] by blast
  have edge: "compare q (parent m) m \<le> 0" if "m < n_items q" "0 < m" for m
    using h that by (auto simp: heap_ok_iff edge_ok_def)
  show ?thesis
    unfolding hole_def n1
  proof (intro conjI allI impI)
    fix m assume m: "m < n_items q" "0 < m" "m \<noteq> i" "parent m \<noteq> i"
    then show "compare ?q1 (parent m) m \<le> 0"
      using eq [of "parent m" m] edge [of m] le_less_trans [OF parent_le m(1)] by simp
  next
    fix m assume m: "m < n_items q" "0 < m" "parent m = i" "0 < i"
    have "compare q (parent i) m \<le> 0"
      using compare_trans [OF f edge [OF i m(4)] edge [OF m(1,2), unfolded m(3)]] .
    then show "compare ?q1 (parent i) m \<le> 0"
      using eq [of "parent i" m] m i parent_less [OF m(2)] parent_less [OF m(4)] by simp
  qed
qed

text \<open>
  After the caller has changed the priority of one queued element (the comparison function
  changes only for that element), \<open>nm_prioq_reshuffle\<close> re-establishes the heap order for the
  new priorities and keeps all elements.
\<close>

theorem nm_prioq_reshuffle_correct:
  assumes ok: "prioq_ok q" and old: "compare_func q = Some f" and new: "compare_ok f'"
    and found: "find_item q d p = Some i"
    and single: "\<forall>j<n_items q. j \<noteq> i \<longrightarrow> data (items q ! j) \<noteq> d"
    and same: "\<forall>a b. a \<noteq> d \<longrightarrow> b \<noteq> d \<longrightarrow> f' a b = f a b"
  shows "fst (nm_prioq_reshuffle (q\<lparr>compare_func := Some f'\<rparr>) d p) \<and>
    prioq_ok (snd (nm_prioq_reshuffle (q\<lparr>compare_func := Some f'\<rparr>) d p)) \<and>
    prioq_mset (snd (nm_prioq_reshuffle (q\<lparr>compare_func := Some f'\<rparr>) d p)) = prioq_mset q"
proof -
  let ?q1 = "q\<lparr>compare_func := Some f'\<rparr>"
  have i: "i < n_items q" using find_item_Some [OF found] by simp
  have n1 [simp]: "n_items ?q1 = n_items q" by (simp add: n_items_def)
  have eq: "compare ?q1 a b = compare q a b"
    if "a < n_items q" "b < n_items q" "a \<noteq> i" "b \<noteq> i" for a b
    using that single same old by (simp add: compare_def)
  have h: "idx_ok q" using prioq_okD [OF ok] by blast
  have "hole ?q1 i" by (rule reorder_hole [OF ok i eq])
  from reshuffle_item_spec [OF this, of f'] new i
  have sc: "same_content ?q1 (reshuffle_item ?q1 i)" and hp: "heap_ok (reshuffle_item ?q1 i)"
    by simp_all
  have "idx_ok ?q1" using h by (simp add: idx_ok_iff)
  then have "prioq_ok (reshuffle_item ?q1 i)"
    using prioq_ok_same_content [OF sc _ _ new hp] by simp
  moreover have "find_item ?q1 d p = Some i"
    using found by (auto simp: find_item_def n_items_def split: option.splits if_splits)
  ultimately show ?thesis
    using prioq_mset_same_content [OF sc] by (simp add: nm_prioq_reshuffle_def prioq_mset_def)
qed

text \<open>
  The array is large enough after an insertion exactly when there was a free slot or the
  queue holds fewer than \<open>2^31 - 1\<close> items: the doubled capacity is computed in 32 bits and
  wraps to 16 beyond that.
\<close>

theorem nm_prioq_put_alloc:
  assumes "alloc_ok q" and "n_items q < G_MAXUINT"
  shows "alloc_ok (nm_prioq_put q d p) \<longleftrightarrow> n_items q < n_allocated q \<or> n_items q + 1 < 2 ^ 31"
proof -
  have sc: "same_content (appended q d p) (nm_prioq_put q d p)"
    unfolding nm_prioq_put_eq by (rule shuffle_up_content) simp
  have eq: "alloc_ok (nm_prioq_put q d p) \<longleftrightarrow> Suc (n_items q) \<le> n_allocated (appended q d p)"
    using sc same_content_n_items [OF sc] by (simp add: alloc_ok_def same_content_def)
  show ?thesis
  proof (cases "n_items q < n_allocated q \<or> n_items q + 1 < 2 ^ 31")
    case True
    then show ?thesis unfolding eq using assms(1) by (auto simp: appended_def put_capacity_def alloc_ok_def max_def)
  next
    case False
    moreover define r where "r = n_items q + 1 - 2 ^ 31"
    ultimately have r: "n_items q + 1 = 2 ^ 31 + r" "r < 2 ^ 31" using assms(2) by auto
    then have "((n_items q + 1) * 2) mod 2 ^ 32 = 2 * r" by simp
    then show ?thesis unfolding eq using False r by (auto simp: appended_def put_capacity_def)
  qed
qed

section \<open>Concrete instances\<close>

text \<open>
  A queue of integers ordered by value, with index variables numbered by naturals: 5 and then 3
  are inserted, each with an index variable.
\<close>

definition int_cmp :: "int \<Rightarrow> int \<Rightarrow> int" where
  "int_cmp a b = a - b"

definition example_queue :: "(int, nat) NMPrioq" where
  "example_queue =
     nm_prioq_put (nm_prioq_put (nm_prioq_init int_cmp (\<lambda>_. NM_PRIOQ_IDX_NULL)) 5 (Some 0)) 3 (Some 1)"

lemma int_cmp_ok: "compare_ok int_cmp"
  by (auto simp: compare_ok_def int_cmp_def)

lemma example_queue_eq:
  "example_queue =
     \<lparr>compare_func = Some int_cmp, items = [\<lparr>data = 3, idx = Some 1\<rparr>, \<lparr>data = 5, idx = Some 0\<rparr>],
      n_allocated = 16, idx_mem = (\<lambda>_. NM_PRIOQ_IDX_NULL)(0 := 1, 1 := 0)\<rparr>"
  by (simp add: example_queue_def nm_prioq_put_def put_capacity_def nm_prioq_init_def n_items_def set_idx_def
      shuffle_up.simps compare_def swap_def int_cmp_def Let_def fun_eq_iff)

lemma example_queue_ok: "prioq_ok example_queue"
  by (simp add: example_queue_eq prioq_ok_def heap_ok_def edge_ok_def idx_ok_def n_items_def
      compare_def parent_def int_cmp_ok) (simp add: int_cmp_def)

theorem nm_prioq_put_correct_witness:
  "prioq_mset (nm_prioq_put example_queue 4 (Some 7)) = {#3, 4, 5#} \<and>
   prioq_ok (nm_prioq_put example_queue 4 (Some 7))"
  using nm_prioq_put_correct [OF example_queue_ok, of "Some 7" 4]
  by (simp add: example_queue_eq idx_ptrs_def prioq_mset_def add_mset_commute)

theorem nm_prioq_pop_correct_witness:
  "\<exists>q'. nm_prioq_pop example_queue = (Some 3, q') \<and> prioq_ok q' \<and> prioq_mset q' = {#5#}"
  using nm_prioq_pop_correct [OF example_queue_ok]
  by (simp add: nm_prioq_pop_def example_queue_eq n_items_def prioq_mset_def split: prod.splits)

theorem nm_prioq_sorts_witness:
  "case put_all (nm_prioq_init int_cmp (\<lambda>_::nat. 0)) [4, 1, 3, 2] of
     None \<Rightarrow> False
   | Some q \<Rightarrow> sorted_wrt (\<lambda>a b. int_cmp a b \<le> 0) (fst (drain nm_prioq_pop (length [4::int, 1, 3, 2]) q)) \<and>
       mset (fst (drain nm_prioq_pop (length [4::int, 1, 3, 2]) q)) = mset [4, 1, 3, 2]"
  by (rule nm_prioq_sorts [OF int_cmp_ok]) simp

theorem nm_prioq_remove_correct_witness:
  "find_item example_queue 5 (Some 0) = Some 1 \<and>
   prioq_mset (snd (nm_prioq_remove example_queue 5 (Some 0))) = {#3#} \<and>
   idx_mem (snd (nm_prioq_remove example_queue 5 (Some 0))) 0 = NM_PRIOQ_IDX_NULL"
proof -
  have f: "find_item example_queue 5 (Some 0) = Some 1"
    by (simp add: example_queue_eq find_item_def n_items_def)
  have "idx (items example_queue ! 1) = Some 0" "prioq_mset example_queue = {#5, 3#}"
    by (simp_all add: example_queue_eq prioq_mset_def)
  with f nm_prioq_remove_correct [OF example_queue_ok, of 5 "Some 0"] show ?thesis by simp
qed

text \<open>The priority of 5 drops below that of 3.\<close>

definition changed_cmp :: "int \<Rightarrow> int \<Rightarrow> int" where
  "changed_cmp a b = int_cmp (if a = 5 then 1 else a) (if b = 5 then 1 else b)"

theorem nm_prioq_reshuffle_correct_witness:
  "prioq_ok (snd (nm_prioq_reshuffle (example_queue\<lparr>compare_func := Some changed_cmp\<rparr>) 5 (Some 0))) \<and>
   prioq_mset (snd (nm_prioq_reshuffle (example_queue\<lparr>compare_func := Some changed_cmp\<rparr>) 5 (Some 0)))
     = {#3, 5#}"
proof -
  have "find_item example_queue 5 (Some 0) = Some 1" "compare_func example_queue = Some int_cmp"
    "\<forall>j<n_items example_queue. j \<noteq> 1 \<longrightarrow> data (items example_queue ! j) \<noteq> 5"
    by (auto simp: example_queue_eq find_item_def n_items_def less_Suc_eq)
  moreover have "compare_ok changed_cmp" "\<forall>a b. a \<noteq> 5 \<longrightarrow> b \<noteq> 5 \<longrightarrow> changed_cmp a b = int_cmp a b"
    by (auto simp: compare_ok_def changed_cmp_def int_cmp_def)
  moreover have "prioq_mset example_queue = {#3, 5#}"
    by (simp add: example_queue_eq prioq_mset_def)
  ultimately show ?thesis
    using nm_prioq_reshuffle_correct [OF example_queue_ok, of int_cmp changed_cmp 5 "Some 0" 1] by simp
qed

definition full_queue :: "nat \<Rightarrow> (int, nat) NMPrioq" where
  "full_queue n =
     \<lparr>compare_func = Some int_cmp, items = replicate n \<lparr>data = 0, idx = None\<rparr>, n_allocated = n,
      idx_mem = (\<lambda>_. 0)\<rparr>"

theorem nm_prioq_put_alloc_witness:
  "alloc_ok (nm_prioq_put (full_queue 16) 1 None) \<and>
   \<not> alloc_ok (nm_prioq_put (full_queue 2147483647) 1 None)"
  using nm_prioq_put_alloc [of "full_queue 16" 1 None]
    nm_prioq_put_alloc [of "full_queue 2147483647" 1 None]
  by (simp add: full_queue_def alloc_ok_def n_items_def)

end
