(* ===== verification/NM_Inet.thy ===== *)
theory NM_Inet
  imports NM_Prelude
begin

text \<open>
  IP address arithmetic of \<^verbatim>\<open>src/libnm-glib-aux/nm-inet-utils.[ch]\<close>.

  An \<^verbatim>\<open>in_addr_t\<close> is a 32-bit word holding the address in network byte order, as the code
  passes it around; the host is little endian, so \<open>htonl\<close> reverses the bytes. A
  \<^verbatim>\<open>struct in6_addr\<close> is its array of 16 bytes. The routines on IPv6 addresses work byte by
  byte; the specification side reads an address as a sequence of bits, most significant first.
\<close>

type_synonym in_addr_t = u32
type_synonym in6_addr = "u8 list"

definition in6_ok :: "in6_addr \<Rightarrow> bool" where
  "in6_ok a \<longleftrightarrow> length a = 16"

section \<open>Comparison macros\<close>

definition nm_cmp_direct :: "'a::linorder \<Rightarrow> 'a \<Rightarrow> int" where
  "nm_cmp_direct a b = (if a = b then 0 else if a < b then - 1 else 1)"

fun cmp_bytes :: "u8 list \<Rightarrow> u8 list \<Rightarrow> int" where
  "cmp_bytes [] [] = 0"
| "cmp_bytes [] (y # ys) = - 1"
| "cmp_bytes (x # xs) [] = 1"
| "cmp_bytes (x # xs) (y # ys) = (if x = y then cmp_bytes xs ys else nm_cmp_direct x y)"

definition nm_cmp_memcmp :: "u8 list \<Rightarrow> u8 list \<Rightarrow> nat \<Rightarrow> int" where
  "nm_cmp_memcmp a b n = cmp_bytes (take n a) (take n b)"

section \<open>Byte order\<close>

definition htonl :: "u32 \<Rightarrow> u32" where
  "htonl x =
     push_bit 24 x OR (push_bit 8 x AND push_bit 16 (mask 8)) OR
     (drop_bit 8 x AND push_bit 8 (mask 8)) OR drop_bit 24 x"

abbreviation ntohl :: "u32 \<Rightarrow> u32" where
  "ntohl \<equiv> htonl"

section \<open>IPv4\<close>

definition builtin_ctz :: "u32 \<Rightarrow> nat" where
  "builtin_ctz x = length (takeWhile (\<lambda>i. \<not> bit x i) [0..<32])"

definition nm_ip4_addr_netmask_to_prefix :: "in_addr_t \<Rightarrow> nat" where
  "nm_ip4_addr_netmask_to_prefix m = (if m \<noteq> 0 then 32 - builtin_ctz (ntohl m) else 0)"

definition nm_ip4_addr_netmask_from_prefix :: "nat \<Rightarrow> in_addr_t" where
  "nm_ip4_addr_netmask_from_prefix prefix =
     (if prefix < 32 then NOT (htonl (drop_bit prefix 0xFFFFFFFF)) else 0xFFFFFFFF)"

definition nm_ip4_addr_get_default_prefix0 :: "in_addr_t \<Rightarrow> nat" where
  "nm_ip4_addr_get_default_prefix0 ip =
     (let c = unat (drop_bit 24 (ntohl ip)) in
      if c \<le> 127 then 8 else if c \<le> 191 then 16 else if c \<le> 223 then 24 else 0)"

definition nm_ip4_addr_get_default_prefix :: "in_addr_t \<Rightarrow> nat" where
  "nm_ip4_addr_get_default_prefix ip =
     (if nm_ip4_addr_get_default_prefix0 ip \<noteq> 0 then nm_ip4_addr_get_default_prefix0 ip else 24)"

definition nm_ip4_addr_get_broadcast_address :: "in_addr_t \<Rightarrow> nat \<Rightarrow> in_addr_t" where
  "nm_ip4_addr_get_broadcast_address a plen = a OR NOT (nm_ip4_addr_netmask_from_prefix plen)"

definition nm_ip4_addr_clear_host_address :: "in_addr_t \<Rightarrow> nat \<Rightarrow> in_addr_t" where
  "nm_ip4_addr_clear_host_address a plen = a AND nm_ip4_addr_netmask_from_prefix plen"

definition nm_ip4_addr_same_prefix_cmp :: "in_addr_t \<Rightarrow> in_addr_t \<Rightarrow> nat \<Rightarrow> int" where
  "nm_ip4_addr_same_prefix_cmp a b plen =
     nm_cmp_direct (htonl (nm_ip4_addr_clear_host_address a plen))
                   (htonl (nm_ip4_addr_clear_host_address b plen))"

definition nm_ip4_addr_same_prefix :: "in_addr_t \<Rightarrow> in_addr_t \<Rightarrow> nat \<Rightarrow> bool" where
  "nm_ip4_addr_same_prefix a b plen \<longleftrightarrow> nm_ip4_addr_same_prefix_cmp a b plen = 0"

definition nm_ip4_addr_is_site_local :: "in_addr_t \<Rightarrow> bool" where
  "nm_ip4_addr_is_site_local a \<longleftrightarrow>
     a AND htonl 0xff000000 = htonl 0x0a000000 \<or>
     a AND htonl 0xfff00000 = htonl 0xac100000 \<or>
     a AND htonl 0xffff0000 = htonl 0xc0a80000"

section \<open>IPv6\<close>

definition IN6_IS_ADDR_UNSPECIFIED :: "in6_addr \<Rightarrow> bool" where
  "IN6_IS_ADDR_UNSPECIFIED a \<longleftrightarrow> a = replicate 16 0"

definition IN6_IS_ADDR_LINKLOCAL :: "in6_addr \<Rightarrow> bool" where
  "IN6_IS_ADDR_LINKLOCAL a \<longleftrightarrow> a ! 0 = 0xfe \<and> a ! 1 AND 0xc0 = 0x80"

definition IN6_IS_ADDR_SITELOCAL :: "in6_addr \<Rightarrow> bool" where
  "IN6_IS_ADDR_SITELOCAL a \<longleftrightarrow> a ! 0 = 0xfe \<and> a ! 1 AND 0xc0 = 0xc0"

definition nm_ip6_addr_is_ula :: "in6_addr \<Rightarrow> bool" where
  "nm_ip6_addr_is_ula a \<longleftrightarrow> a ! 0 AND 0xfe = 0xfc"

text \<open>
  \<open>dst\<close> and \<open>src\<close> are the two buffers; \<open>None\<close> for \<open>src\<close> is the in-place update. Every store of
  the code is kept: the copy of the whole bytes, the masked byte, the zeroed tail.
\<close>

definition nm_ip6_addr_clear_host_address ::
    "in6_addr \<Rightarrow> in6_addr option \<Rightarrow> nat \<Rightarrow> in6_addr option" where
  "nm_ip6_addr_clear_host_address dst src plen =
     (if \<not> plen \<le> 128 then None
      else
        (let same = (src = None); src = (case src of None \<Rightarrow> dst | Some s \<Rightarrow> s) in
         if plen < 128 then
           (let nbytes = plen div 8; nbits = plen mod 8;
                dst = (if nbytes \<noteq> 0 \<and> \<not> same then take nbytes src @ drop nbytes dst else dst);
                src = (if same then dst else src);
                (dst, nbytes) =
                  (if nbits \<noteq> 0
                   then (dst[nbytes := src ! nbytes AND push_bit (8 - nbits) 0xFF], nbytes + 1)
                   else (dst, nbytes));
                dst = (if nbytes \<le> 15 then take nbytes dst @ replicate (16 - nbytes) 0 else dst)
            in Some dst)
         else Some src))"

definition nm_ip6_addr_same_prefix_cmp :: "in6_addr \<Rightarrow> in6_addr \<Rightarrow> nat \<Rightarrow> int" where
  "nm_ip6_addr_same_prefix_cmp a b plen =
     (if 128 \<le> plen then nm_cmp_memcmp a b 16
      else
        (let nbytes = plen div 8;
             c = (if nbytes \<noteq> 0 then nm_cmp_memcmp a b nbytes else 0) in
         if c \<noteq> 0 then c
         else
           (let plen = plen mod 8 in
            if plen \<noteq> 0 then
              (let m = NOT (push_bit (8 - plen) 1 - 1);
                   va = a ! nbytes AND m; vb = b ! nbytes AND m
               in nm_cmp_direct va vb)
            else 0)))"

definition nm_ip6_addr_same_prefix :: "in6_addr \<Rightarrow> in6_addr \<Rightarrow> nat \<Rightarrow> bool" where
  "nm_ip6_addr_same_prefix a b plen \<longleftrightarrow> nm_ip6_addr_same_prefix_cmp a b plen = 0"

section \<open>Untrusted input\<close>

datatype addr_family = AF_UNSPEC | AF_INET | AF_INET6 | AF_OTHER nat

text \<open>
  The result is the bytes copied to \<open>dst\<close> and the address family written to
  \<open>out_addr_family\<close>, or nothing when the function returns \<^verbatim>\<open>FALSE\<close>. \<open>has_out\<close> says whether
  the caller passed an \<open>out_addr_family\<close>.
\<close>

definition nm_ip_addr_set_from_untrusted ::
    "addr_family \<Rightarrow> u8 list \<Rightarrow> bool \<Rightarrow> (u8 list \<times> addr_family) option" where
  "nm_ip_addr_set_from_untrusted family src has_out =
     (case family of
        AF_UNSPEC \<Rightarrow>
          if \<not> has_out then None
          else if length src = 4 then Some (src, AF_INET)
          else if length src = 16 then Some (src, AF_INET6)
          else None
      | AF_INET \<Rightarrow> if length src \<noteq> 4 then None else Some (src, AF_INET)
      | AF_INET6 \<Rightarrow> if length src \<noteq> 16 then None else Some (src, AF_INET6)
      | AF_OTHER _ \<Rightarrow> None)"

definition nm_utils_addr_family_to_size :: "addr_family \<Rightarrow> nat" where
  "nm_utils_addr_family_to_size family =
     (case family of AF_INET \<Rightarrow> 4 | AF_INET6 \<Rightarrow> 16 | _ \<Rightarrow> 0)"

definition nm_ip_addr_cmp :: "addr_family \<Rightarrow> u8 list \<Rightarrow> u8 list \<Rightarrow> int" where
  "nm_ip_addr_cmp family a b = nm_cmp_memcmp a b (nm_utils_addr_family_to_size family)"

definition nm_ip_addr_equal :: "addr_family \<Rightarrow> u8 list \<Rightarrow> u8 list \<Rightarrow> bool" where
  "nm_ip_addr_equal family a b \<longleftrightarrow> nm_ip_addr_cmp family a b = 0"

section \<open>Lemmas on comparison\<close>

lemma nm_cmp_direct_eq_0 [simp]: "nm_cmp_direct a b = 0 \<longleftrightarrow> a = b"
  by (simp add: nm_cmp_direct_def)

lemma nm_cmp_direct_le_0: "nm_cmp_direct a b \<le> 0 \<longleftrightarrow> a \<le> b"
  by (auto simp: nm_cmp_direct_def)

lemma nm_cmp_direct_less_0: "nm_cmp_direct a b < 0 \<longleftrightarrow> a < b"
  and nm_cmp_direct_gr_0: "0 < nm_cmp_direct a b \<longleftrightarrow> b < a"
  by (auto simp: nm_cmp_direct_def)

lemma compare_order_key: "compare_order (\<lambda>a b. nm_cmp_direct (f a) (f b))"
  by unfold_locales (auto simp: nm_cmp_direct_le_0 nm_cmp_direct_less_0 nm_cmp_direct_gr_0)

lemma cmp_bytes_eq_0 [simp]: "cmp_bytes xs ys = 0 \<longleftrightarrow> xs = ys"
  by (induction xs ys rule: cmp_bytes.induct) auto

lemma cmp_bytes_antisym: "cmp_bytes xs ys < 0 \<longleftrightarrow> 0 < cmp_bytes ys xs"
  by (induction xs ys rule: cmp_bytes.induct)
    (auto simp: nm_cmp_direct_less_0 nm_cmp_direct_gr_0)

lemma cmp_bytes_trans: "cmp_bytes xs ys \<le> 0 \<Longrightarrow> cmp_bytes ys zs \<le> 0 \<Longrightarrow> cmp_bytes xs zs \<le> 0"
proof (induction xs ys arbitrary: zs rule: cmp_bytes.induct)
  case (2 y ys)
  then show ?case by (cases zs) auto
next
  case (4 x xs y ys)
  show ?case
  proof (cases zs)
    case Nil
    then show ?thesis using 4 by simp
  next
    case (Cons z zs')
    then show ?thesis
      using 4 by (auto simp: nm_cmp_direct_le_0 split: if_splits)
  qed
qed auto

lemma compare_order_bytes: "compare_order (\<lambda>a b. cmp_bytes (f a) (f b))"
  by unfold_locales (auto simp: cmp_bytes_antisym intro: cmp_bytes_trans)

lemma unspecified_Cons [simp]:
  "IN6_IS_ADDR_UNSPECIFIED (b # bs) \<longleftrightarrow> b = 0 \<and> bs = replicate 15 0"
  by (simp add: IN6_IS_ADDR_UNSPECIFIED_def numeral_eq_Suc)

lemma nm_cmp_memcmp_eq_0 [simp]: "nm_cmp_memcmp a b n = 0 \<longleftrightarrow> take n a = take n b"
  by (simp add: nm_cmp_memcmp_def)

text \<open>The comparison of addresses is an order on the bytes of the address family.\<close>

interpretation ip_addr: compare_order "nm_ip_addr_cmp family" for family
  unfolding nm_ip_addr_cmp_def nm_cmp_memcmp_def by (rule compare_order_bytes)

interpretation ip4_prefix: compare_order "\<lambda>a b. nm_ip4_addr_same_prefix_cmp a b plen" for plen
  unfolding nm_ip4_addr_same_prefix_cmp_def by (rule compare_order_key)

lemma nm_ip6_addr_same_prefix_cmp_lex:
  "nm_ip6_addr_same_prefix_cmp a b plen =
     (if 128 \<le> plen then cmp_bytes (take 16 a) (take 16 b)
      else if cmp_bytes (take (plen div 8) a) (take (plen div 8) b) \<noteq> 0
      then cmp_bytes (take (plen div 8) a) (take (plen div 8) b)
      else nm_cmp_direct (if plen mod 8 = 0 then 0 else a ! (plen div 8) AND NOT (mask (8 - plen mod 8)))
             (if plen mod 8 = 0 then 0 else b ! (plen div 8) AND NOT (mask (8 - plen mod 8))))"
  by (simp add: nm_ip6_addr_same_prefix_cmp_def nm_cmp_memcmp_def Let_def mask_eq_exp_minus_1
      push_bit_eq_mult)

interpretation ip6_prefix: compare_order "\<lambda>a b. nm_ip6_addr_same_prefix_cmp a b plen" for plen
proof (cases "128 \<le> plen")
  case True
  then show "compare_order (\<lambda>a b. nm_ip6_addr_same_prefix_cmp a b plen)"
    unfolding nm_ip6_addr_same_prefix_cmp_lex by (simp add: compare_order_bytes)
next
  case False
  show "compare_order (\<lambda>a b. nm_ip6_addr_same_prefix_cmp a b plen)"
    unfolding nm_ip6_addr_same_prefix_cmp_lex if_not_P [OF False]
    by (rule compare_order_lex [OF compare_order_bytes compare_order_key])
qed

section \<open>Byte order\<close>

lemma bit_htonl: "bit (htonl x) n \<longleftrightarrow> n < 32 \<and> bit x (24 - 8 * (n div 8) + n mod 8)"
proof (cases "n < 32")
  case True
  note htonl_bits = htonl_def bit_or_iff bit_and_iff bit_push_bit_iff bit_drop_bit_eq bit_mask_iff
  have high: "\<not> bit x (24 + n)" if "8 \<le> n" using that by (auto dest: bit_imp_le_length)
  from True consider "n < 8" | "8 \<le> n \<and> n < 16" | "16 \<le> n \<and> n < 24" | "24 \<le> n \<and> n < 32"
    by linarith
  then show ?thesis
  proof cases
    case 1
    then have "n div 8 = 0" "n mod 8 = n" by auto
    then show ?thesis using 1 by (simp add: htonl_bits)
  next
    case 2
    then have "n div 8 = 1" "n mod 8 = n - 8"
      using div_nat_eqI [of 8 1 n] minus_div_mult_eq_mod [of n 8] by simp_all
    then show ?thesis using 2 high by (simp add: htonl_bits add.commute) linarith
  next
    case 3
    then have "n div 8 = 2" "n mod 8 = n - 16"
      using div_nat_eqI [of 8 2 n] minus_div_mult_eq_mod [of n 8] by simp_all
    then show ?thesis using 3 high by (simp add: htonl_bits) linarith
  next
    case 4
    then have "n div 8 = 3" "n mod 8 = n - 24"
      using div_nat_eqI [of 8 3 n] minus_div_mult_eq_mod [of n 8] by simp_all
    then show ?thesis using 4 high by (simp add: htonl_bits) linarith
  qed
next
  case False
  then show ?thesis by (simp add: bit_eq_iff impossible_bit)
qed

lemma htonl_htonl [simp]: "htonl (htonl x) = x"
proof (rule bit_word_eqI)
  fix n
  assume n: "n < LENGTH(32)"
  define q r where "q = n div 8" and "r = n mod 8"
  have qr: "q \<le> 3" "r < 8" "n = 8 * q + r" using n by (auto simp: q_def r_def)
  define m where "m = 8 * (3 - q) + r"
  have m: "m < 32" "m div 8 = 3 - q" "m mod 8 = r" using qr by (auto simp: m_def)
  have "24 - 8 * (n div 8) + n mod 8 = m" using qr(1) by (simp add: m_def q_def r_def)
  moreover have "24 - 8 * (m div 8) + m mod 8 = n" using m qr by simp
  ultimately show "bit (htonl (htonl x)) n = bit x n"
    using n m(1) by (simp only: bit_htonl) simp
qed

lemma htonl_inject [simp]: "htonl x = htonl y \<longleftrightarrow> x = y"
  by (metis htonl_htonl)

lemma htonl_and: "htonl (x AND y) = htonl x AND htonl y"
  and htonl_or: "htonl (x OR y) = htonl x OR htonl y"
  by (auto simp: bit_eq_iff bit_htonl bit_simps)

lemma htonl_not: "htonl (NOT x) = NOT (htonl x)"
  by (rule bit_word_eqI) (auto simp: bit_htonl bit_simps)

section \<open>IPv4 prefixes\<close>

text \<open>In host byte order the netmask of prefix length \<open>p\<close> has exactly the upper \<open>p\<close> bits set.\<close>

lemma bit_netmask:
  "p \<le> 32 \<Longrightarrow> bit (ntohl (nm_ip4_addr_netmask_from_prefix p)) n \<longleftrightarrow> n < 32 \<and> 32 - p \<le> n"
proof (cases "p < 32")
  case True
  have m1: "(0xFFFFFFFF :: u32) = - 1" by simp
  have "ntohl (nm_ip4_addr_netmask_from_prefix p) = NOT (drop_bit p (- 1))"
    using True by (simp only: nm_ip4_addr_netmask_from_prefix_def m1 if_P htonl_not htonl_htonl)
  then show ?thesis using True by (auto simp: bit_simps)
next
  case False
  assume "p \<le> 32"
  with False have p: "p = 32" by simp
  have m1: "(0xFFFFFFFF :: u32) = - 1" by simp
  have i: "24 - 8 * (n div 8) + n mod 8 < LENGTH(32)" by simp
  have "bit (- 1 :: u32) (24 - 8 * (n div 8) + n mod 8)"
    by (rule iffD2 [OF bit_minus_1_iff]) (use i in \<open>simp only: possible_bit_word\<close>)
  then show ?thesis
    by (simp only: nm_ip4_addr_netmask_from_prefix_def bit_htonl m1 p) simp
qed

lemma takeWhile_upt_less:
  "m \<le> n \<Longrightarrow> takeWhile (\<lambda>i. i < m) [0..<n] = [0..<m]"
proof -
  assume "m \<le> n"
  then have "[0..<n] = [0..<m] @ [m..<n]" by (metis le0 le_Suc_ex upt_add_eq_append)
  moreover have "takeWhile (\<lambda>i. i < m) [m..<n] = []"
    by (cases "m < n") (simp_all add: upt_conv_Cons)
  moreover have "takeWhile (\<lambda>i. i < m) ([0..<m] @ [m..<n]) = [0..<m] @ takeWhile (\<lambda>i. i < m) [m..<n]"
    by (rule takeWhile_append2) simp
  ultimately show ?thesis by simp
qed

lemma ctz_netmask:
  assumes "p \<le> 32"
  shows "builtin_ctz (ntohl (nm_ip4_addr_netmask_from_prefix p)) = 32 - p"
proof -
  have "takeWhile (\<lambda>i. \<not> bit (ntohl (nm_ip4_addr_netmask_from_prefix p)) i) [0..<32] =
      takeWhile (\<lambda>i. i < 32 - p) [0..<32]"
    by (rule takeWhile_cong) (auto simp: bit_netmask [OF assms])
  then show ?thesis by (simp add: builtin_ctz_def takeWhile_upt_less)
qed

lemma htonl_0 [simp]: "htonl 0 = 0"
  by (simp add: htonl_def)

lemma netmask_eq_0: "p \<le> 32 \<Longrightarrow> nm_ip4_addr_netmask_from_prefix p = 0 \<longleftrightarrow> p = 0"
proof -
  assume p: "p \<le> 32"
  have "nm_ip4_addr_netmask_from_prefix p = 0 \<longleftrightarrow> ntohl (nm_ip4_addr_netmask_from_prefix p) = 0"
    by (metis htonl_0 htonl_inject)
  also have "\<dots> \<longleftrightarrow> (\<forall>n. \<not> (n < 32 \<and> 32 - p \<le> n))"
    unfolding bit_eq_iff bit_netmask [OF p] by simp
  also have "\<dots> \<longleftrightarrow> p = 0" using p by (auto dest: spec [of _ 31])
  finally show ?thesis .
qed

lemma bit_clear_host4:
  "plen \<le> 32 \<Longrightarrow> bit (ntohl (nm_ip4_addr_clear_host_address a plen)) n \<longleftrightarrow>
     32 - plen \<le> n \<and> bit (ntohl a) n"
  by (auto simp: nm_ip4_addr_clear_host_address_def htonl_and bit_and_iff bit_netmask
      dest: bit_imp_le_length)

text \<open>
  Prefix length and netmask are inverse: for every prefix length up to 32, the prefix of
  the netmask of that length is the length itself.
\<close>

theorem netmask_prefix_roundtrip:
  assumes "p \<le> 32"
  shows "nm_ip4_addr_netmask_to_prefix (nm_ip4_addr_netmask_from_prefix p) = p"
  using assms ctz_netmask [OF assms] netmask_eq_0 [OF assms]
  by (simp add: nm_ip4_addr_netmask_to_prefix_def)

theorem netmask_prefix_roundtrip_witness:
  "nm_ip4_addr_netmask_to_prefix (nm_ip4_addr_netmask_from_prefix 20) = 20"
  by (rule netmask_prefix_roundtrip) simp

text \<open>
  \<open>nm_ip4_addr_same_prefix\<close> holds exactly when the first \<open>plen\<close> bits of the two addresses
  (in host order, most significant first) agree.
\<close>

theorem ip4_same_prefix_iff:
  assumes "plen \<le> 32"
  shows "nm_ip4_addr_same_prefix a b plen \<longleftrightarrow>
    (\<forall>n. 32 - plen \<le> n \<and> n < 32 \<longrightarrow> bit (ntohl a) n = bit (ntohl b) n)"
proof -
  have "nm_ip4_addr_same_prefix a b plen \<longleftrightarrow>
      ntohl (nm_ip4_addr_clear_host_address a plen) = ntohl (nm_ip4_addr_clear_host_address b plen)"
    by (simp add: nm_ip4_addr_same_prefix_def nm_ip4_addr_same_prefix_cmp_def)
  also have "\<dots> \<longleftrightarrow> (\<forall>n. 32 - plen \<le> n \<and> n < 32 \<longrightarrow> bit (ntohl a) n = bit (ntohl b) n)"
    unfolding bit_eq_iff bit_clear_host4 [OF assms] by (auto simp: bit_htonl)
  finally show ?thesis .
qed

text \<open>10.0.0.1 and 10.0.3.7, in network byte order, agree on 20 bits.\<close>

theorem ip4_same_prefix_iff_witness:
  "nm_ip4_addr_same_prefix (htonl 0x0a000001) (htonl 0x0a000307) 20 \<and>
   bit (ntohl (htonl 0x0a000001)) 12 = bit (ntohl (htonl 0x0a000307)) 12"
proof -
  have "nm_ip4_addr_same_prefix (htonl 0x0a000001) (htonl 0x0a000307) 20"
    by code_simp
  with ip4_same_prefix_iff [of 20 "htonl 0x0a000001" "htonl 0x0a000307"] show ?thesis
    by (auto simp del: htonl_htonl dest: spec [of _ 12])
qed

section \<open>IPv6 prefixes\<close>

text \<open>Bit \<open>j\<close> of an IPv6 address, counting from the most significant bit of the first byte.\<close>

definition in6_bit :: "in6_addr \<Rightarrow> nat \<Rightarrow> bool" where
  "in6_bit a j \<longleftrightarrow> bit (a ! (j div 8)) (7 - j mod 8)"

text \<open>Specification of clearing the host part, byte by byte.\<close>

definition clear6 :: "in6_addr \<Rightarrow> nat \<Rightarrow> in6_addr" where
  "clear6 a plen = map (\<lambda>i. a ! i AND NOT (mask (8 - (plen - 8 * i)))) [0..<16]"

lemma length_clear6 [simp]: "length (clear6 a plen) = 16"
  by (simp add: clear6_def)

lemma in6_bit_clear6:
  assumes "j < 128"
  shows "in6_bit (clear6 a plen) j \<longleftrightarrow> j < plen \<and> in6_bit a j"
proof -
  have "j div 8 < 16" using assms by linarith
  moreover have "8 - (plen - 8 * (j div 8)) \<le> 7 - j mod 8 \<longleftrightarrow> j < plen" by presburger
  ultimately show ?thesis
    by (auto simp: in6_bit_def clear6_def bit_simps)
qed

lemma in6_eq_iff:
  assumes "length a = 16" "length b = 16"
  shows "a = b \<longleftrightarrow> (\<forall>j<128. in6_bit a j = in6_bit b j)"
proof
  assume h: "\<forall>j<128. in6_bit a j = in6_bit b j"
  show "a = b"
  proof (rule nth_equalityI)
    show "length a = length b" using assms by simp
    fix i assume i: "i < length a"
    show "a ! i = b ! i"
    proof (rule bit_word_eqI)
      fix n assume n: "n < LENGTH(8)"
      define r where "r = 7 - n"
      have r: "r < 8" "7 - r = n" using n by (simp_all add: r_def)
      define j where "j = 8 * i + r"
      have "j < 128" "j div 8 = i" "7 - j mod 8 = n"
        using i r assms by (auto simp: j_def)
      with h show "bit (a ! i) n = bit (b ! i) n" by (auto simp: in6_bit_def dest!: spec [of _ j])
    qed
  qed
qed simp

lemma mask8_u8: "push_bit (8 - n) (0xFF :: u8) = NOT (mask (8 - n))"
proof -
  have m1: "(0xFF :: u8) = - 1" by simp
  show ?thesis by (simp only: m1 push_bit_minus_one_eq_not_mask)
qed

lemma clear6_split:
  assumes "length s = 16" "nb \<le> 15" "k < 8"
  shows "clear6 s (8 * nb + k) =
    take nb s @ (s ! nb AND NOT (mask (8 - k))) # replicate (15 - nb) 0"
proof (rule nth_equalityI)
  fix i
  assume "i < length (clear6 s (8 * nb + k))"
  then have i: "i < 16" by simp
  consider "i < nb" | "i = nb" | "nb < i" by linarith
  then show "clear6 s (8 * nb + k) ! i =
      (take nb s @ (s ! nb AND NOT (mask (8 - k))) # replicate (15 - nb) 0) ! i"
  proof cases
    case 1
    then have "8 - (8 * nb + k - 8 * i) = 0" by linarith
    with 1 i assms show ?thesis by (simp add: clear6_def nth_append)
  next
    case 2
    with i assms show ?thesis by (simp add: clear6_def nth_append)
  next
    case 3
    then have "8 * nb + k - 8 * i = 0" using assms by linarith
    moreover have "(mask 8 :: u8) = - 1" by (simp add: mask_eq_exp_minus_1)
    moreover have "i - nb - 1 < 15 - nb" using 3 i by linarith
    ultimately show ?thesis using 3 i assms by (simp add: clear6_def nth_append nth_Cons')
  qed
qed (use assms in simp)

lemma clear6_full: "length s = 16 \<Longrightarrow> clear6 s 128 = s"
  by (intro nth_equalityI) (auto simp: clear6_def)

lemma clear_host_address6:
  assumes "length dst = 16" "\<And>s. src = Some s \<Longrightarrow> length s = 16" "plen \<le> 128"
  shows "nm_ip6_addr_clear_host_address dst src plen =
    Some (clear6 (case src of None \<Rightarrow> dst | Some s \<Rightarrow> s) plen)"
proof (cases "plen < 128")
  case False
  with assms have "plen = 128" by simp
  with assms show ?thesis
    by (auto simp: nm_ip6_addr_clear_host_address_def clear6_full split: option.splits)
next
  case True
  define nb k where "nb = plen div 8" and "k = plen mod 8"
  have nb: "nb \<le> 15" "8 * nb + k = plen" "k < 8" "plen div 8 = nb" "plen mod 8 = k"
    using True by (auto simp: nb_def k_def)
  have rep: "replicate (16 - nb) (0::u8) = 0 # replicate (15 - nb) 0"
  proof -
    have "16 - nb = Suc (15 - nb)" using nb(1) by linarith
    then show ?thesis by (simp only: replicate_Suc)
  qed
  have m8: "(NOT (mask 8) :: u8) = 0" by (simp add: mask_eq_exp_minus_1)
  have upd: "d[nb := x] = take nb d @ [x]" if "\<not> nb \<le> 14" "length d = 16" for x and d :: in6_addr
    using that nb(1) by (simp add: upd_conv_take_nth_drop)
  show ?thesis
  proof (cases src)
    case None
    have "clear6 dst plen = take nb dst @ (dst ! nb AND NOT (mask (8 - k))) # replicate (15 - nb) 0"
      using clear6_split [OF assms(1) nb(1,3)] by (simp only: nb)
    with None True assms(1) nb(1,3) show ?thesis
      by (simp add: nm_ip6_addr_clear_host_address_def Let_def mask8_u8 rep m8 nb(4,5)
          take_Suc_conv_app_nth upd)
  next
    case (Some s)
    have "clear6 s plen = take nb s @ (s ! nb AND NOT (mask (8 - k))) # replicate (15 - nb) 0"
      using clear6_split [OF assms(2) [OF Some] nb(1,3)] by (simp only: nb)
    with Some True assms(1) assms(2) [OF Some] nb(1,3) show ?thesis
      by (simp add: nm_ip6_addr_clear_host_address_def Let_def mask8_u8 rep m8 nb(4,5)
          take_Suc_conv_app_nth upd)
  qed
qed

text \<open>
  \<open>nm_ip6_addr_clear_host_address\<close> copies exactly the first \<open>plen\<close> bits of the source address
  and zeroes all others, whatever the destination buffer held before, and also when source and
  destination are the same buffer (no separate source is given).
\<close>

theorem ip6_clear_host_address_correct:
  assumes "in6_ok dst" "\<And>s. src = Some s \<Longrightarrow> in6_ok s" "plen \<le> 128"
  shows "\<exists>r. nm_ip6_addr_clear_host_address dst src plen = Some r \<and> in6_ok r \<and>
    (\<forall>j<128. in6_bit r j \<longleftrightarrow> j < plen \<and> in6_bit (case src of None \<Rightarrow> dst | Some s \<Rightarrow> s) j)"
  using clear_host_address6 [of dst src plen] assms
  by (auto simp: in6_ok_def in6_bit_clear6)

text \<open>2001:db8:: from an address with all host bits set, into a dirty buffer.\<close>

theorem ip6_clear_host_address_correct_witness:
  "\<exists>r. nm_ip6_addr_clear_host_address (replicate 16 0xaa)
         (Some ([0x20, 0x01, 0x0d, 0xb8] @ replicate 12 0xff)) 35 = Some r \<and> in6_ok r \<and>
    (in6_bit r 34 \<longleftrightarrow> in6_bit ([0x20, 0x01, 0x0d, 0xb8] @ replicate 12 0xff) 34) \<and> \<not> in6_bit r 35"
  using ip6_clear_host_address_correct [of "replicate 16 0xaa"
      "Some ([0x20, 0x01, 0x0d, 0xb8] @ replicate 12 0xff)" 35]
  by (auto simp: in6_ok_def)

lemma take_eq_clear6:
  assumes "length a = 16" "length b = 16" "nb \<le> 15" "k < 8"
  shows "clear6 a (8 * nb + k) = clear6 b (8 * nb + k) \<longleftrightarrow>
    take nb a = take nb b \<and>
    a ! nb AND NOT (mask (8 - k)) = b ! nb AND NOT (mask (8 - k))"
  using assms by (simp add: clear6_split)

lemma same_prefix6_clear6:
  assumes "length a = 16" "length b = 16" "plen \<le> 128"
  shows "nm_ip6_addr_same_prefix a b plen \<longleftrightarrow> clear6 a plen = clear6 b plen"
proof (cases "plen = 128")
  case True
  then show ?thesis
    using assms by (simp add: nm_ip6_addr_same_prefix_def nm_ip6_addr_same_prefix_cmp_def clear6_full)
next
  case False
  define nb k where "nb = plen div 8" and "k = plen mod 8"
  have nb: "nb \<le> 15" "8 * nb + k = plen" "k < 8" "plen div 8 = nb" "plen mod 8 = k"
    using False assms by (auto simp: nb_def k_def)
  have m8: "(NOT (mask 8) :: u8) = 0" by (simp add: mask_eq_exp_minus_1)
  have "nm_ip6_addr_same_prefix a b plen \<longleftrightarrow> take nb a = take nb b \<and>
      a ! nb AND NOT (mask (8 - k)) = b ! nb AND NOT (mask (8 - k))"
    using False assms(3) m8
    by (auto simp: nm_ip6_addr_same_prefix_def nm_ip6_addr_same_prefix_cmp_lex nb(4,5))
  then show ?thesis
    using take_eq_clear6 [OF assms(1,2) nb(1,3)] by (simp only: nb)
qed

text \<open>
  \<open>nm_ip6_addr_same_prefix\<close> holds exactly when the first \<open>plen\<close> bits of the two addresses
  agree, for every prefix length including those that are not a multiple of eight.
\<close>

theorem ip6_same_prefix_iff:
  assumes "in6_ok a" "in6_ok b" "plen \<le> 128"
  shows "nm_ip6_addr_same_prefix a b plen \<longleftrightarrow> (\<forall>j<plen. in6_bit a j = in6_bit b j)"
proof -
  have "nm_ip6_addr_same_prefix a b plen \<longleftrightarrow> clear6 a plen = clear6 b plen"
    using assms by (simp add: in6_ok_def same_prefix6_clear6)
  also have "\<dots> \<longleftrightarrow> (\<forall>j<128. in6_bit (clear6 a plen) j = in6_bit (clear6 b plen) j)"
    by (rule in6_eq_iff) simp_all
  also have "\<dots> \<longleftrightarrow> (\<forall>j<plen. in6_bit a j = in6_bit b j)"
    using assms(3) by (simp add: in6_bit_clear6) (metis order_less_le_trans)
  finally show ?thesis .
qed

theorem ip6_same_prefix_iff_witness:
  "nm_ip6_addr_same_prefix (0x20 # 0x01 # replicate 14 0) (0x20 # 0x01 # 0x1f # replicate 13 1) 19 \<and>
   in6_bit (0x20 # 0x01 # replicate 14 0) 18 = in6_bit (0x20 # 0x01 # 0x1f # replicate 13 1) 18"
proof -
  have "nm_ip6_addr_same_prefix (0x20 # 0x01 # replicate 14 0)
      (0x20 # 0x01 # 0x1f # replicate 13 1) 19"
    by code_simp
  with ip6_same_prefix_iff [of "0x20 # 0x01 # replicate 14 0" "0x20 # 0x01 # 0x1f # replicate 13 1" 19]
  show ?thesis by (auto simp: in6_ok_def)
qed

end
