(* ===== verification/NM_NDisc_Store.thy ===== *)
theory NM_NDisc_Store
  imports NM_Inet
begin

text \<open>
  The data that IPv6 neighbor discovery collects from router advertisements: the five arrays of
  \<^verbatim>\<open>src/core/ndisc/nm-ndisc.c\<close> (gateways, addresses, routes, DNS servers, DNS search
  domains), their expiry arithmetic, the operations that merge one received item into an array,
  and the loops that drop expired items.

  Timestamps are \<^verbatim>\<open>gint64\<close> milliseconds of the monotonic clock, here \<open>int\<close>;
  \<^verbatim>\<open>NM_NDISC_EXPIRY_INFINITY\<close> is \<^verbatim>\<open>G_MAXINT64\<close>. The index
  \<^verbatim>\<open>G_MAXUINT\<close> that stands for ``no position yet'' is \<open>None\<close>.

  The four operations that add an item keyed by an address, a prefix or a name share one contract,
  the locale \<open>advert_store\<close>; it is interpreted on each of them.
\<close>

section \<open>Items\<close>

datatype NMIcmpv6RouterPref =
  NM_ICMPV6_ROUTER_PREF_MEDIUM
| NM_ICMPV6_ROUTER_PREF_HIGH
| NM_ICMPV6_ROUTER_PREF_INVALID
| NM_ICMPV6_ROUTER_PREF_LOW

record NMNDiscGateway =
  gw_address :: in6_addr
  gw_expiry_msec :: int
  gw_preference :: NMIcmpv6RouterPref

record NMNDiscAddress =
  ad_address :: in6_addr
  ad_expiry_msec :: int
  ad_expiry_preferred_msec :: int
  ad_dad_counter :: u8

record NMNDiscRoute =
  rt_network :: in6_addr
  rt_gateway :: in6_addr
  rt_expiry_msec :: int
  rt_preference :: NMIcmpv6RouterPref
  rt_plen :: nat
  rt_on_link :: bool
  rt_duplicate :: bool

record NMNDiscDNSServer =
  ds_address :: in6_addr
  ds_expiry_msec :: int

text \<open>The string of a search domain is owned by the array; \<open>None\<close> is the null pointer.\<close>

record NMNDiscDNSDomain =
  dd_domain :: "string option"
  dd_expiry_msec :: int

abbreviation NM_NDISC_EXPIRY_INFINITY :: int where
  "NM_NDISC_EXPIRY_INFINITY \<equiv> G_MAXINT64"

abbreviation NM_NDISC_INFINITY_U32 :: u32 where
  "NM_NDISC_INFINITY_U32 \<equiv> - 1"

abbreviation NM_NDISC_SIZE_MAX_GATEWAYS :: nat where
  "NM_NDISC_SIZE_MAX_GATEWAYS \<equiv> 100"

abbreviation NM_NDISC_SIZE_MAX_ROUTES :: nat where
  "NM_NDISC_SIZE_MAX_ROUTES \<equiv> 1000"

abbreviation NM_NDISC_SIZE_MAX_DNS_SERVERS :: nat where
  "NM_NDISC_SIZE_MAX_DNS_SERVERS \<equiv> 64"

abbreviation NM_NDISC_SIZE_MAX_DNS_DOMAINS :: nat where
  "NM_NDISC_SIZE_MAX_DNS_DOMAINS \<equiv> 64"

section \<open>Expiry arithmetic\<close>

definition nm_ndisc_lifetime_to_expiry :: "int \<Rightarrow> u32 \<Rightarrow> int" where
  "nm_ndisc_lifetime_to_expiry now_msec lifetime =
     (if lifetime = NM_NDISC_INFINITY_U32 then NM_NDISC_EXPIRY_INFINITY
      else now_msec + uint lifetime * 1000)"

definition nm_ndisc_lifetime_from_expiry :: "int \<Rightarrow> int \<Rightarrow> bool \<Rightarrow> int" where
  "nm_ndisc_lifetime_from_expiry now_msec expiry_msec ceil =
     (if expiry_msec = NM_NDISC_EXPIRY_INFINITY then uint NM_NDISC_INFINITY_U32
      else
        (let diff = expiry_msec - now_msec in
         if diff \<le> 0 then 0
         else
           (let diff = (if ceil then diff + 999 else diff) in
            min (c_div diff 1000) (G_MAXUINT32 - 1))))"

definition expiry_next :: "int \<Rightarrow> int \<Rightarrow> int \<Rightarrow> bool \<times> int" where
  "expiry_next now_msec expiry_msec next_msec =
     (if expiry_msec = NM_NDISC_EXPIRY_INFINITY then (True, next_msec)
      else if expiry_msec \<le> now_msec then (False, next_msec)
      else (True, if next_msec > expiry_msec then expiry_msec else next_msec))"

definition preference_to_priority :: "NMIcmpv6RouterPref \<Rightarrow> nat" where
  "preference_to_priority pref =
     (case pref of
        NM_ICMPV6_ROUTER_PREF_LOW \<Rightarrow> 1
      | NM_ICMPV6_ROUTER_PREF_MEDIUM \<Rightarrow> 2
      | NM_ICMPV6_ROUTER_PREF_HIGH \<Rightarrow> 3
      | NM_ICMPV6_ROUTER_PREF_INVALID \<Rightarrow> 0)"

section \<open>Adding items\<close>

text \<open>The loop over the array with the statements after it. The flag tells whether something changed.\<close>

function (sequential) add_gateway_loop ::
    "NMNDiscGateway list \<Rightarrow> NMNDiscGateway \<Rightarrow> int \<Rightarrow> nat \<Rightarrow> nat option \<Rightarrow> NMNDiscGateway list \<times> bool" where
  "add_gateway_loop gws new_item now_msec i insert_idx =
     (if i < length gws then
        (let item = gws ! i in
         if gw_address item = gw_address new_item then
           if gw_expiry_msec new_item \<le> now_msec then (g_array_remove_index gws i, True)
           else if gw_preference item \<noteq> gw_preference new_item
           then add_gateway_loop (g_array_remove_index gws i) new_item now_msec i insert_idx
           else if gw_expiry_msec item = gw_expiry_msec new_item then (gws, False)
           else (gws[i := item\<lparr>gw_expiry_msec := gw_expiry_msec new_item\<rparr>], True)
         else
           add_gateway_loop gws new_item now_msec (i + 1)
             (if preference_to_priority (gw_preference item)
                   < preference_to_priority (gw_preference new_item) \<and> insert_idx = None
              then Some i else insert_idx))
      else if NM_NDISC_SIZE_MAX_GATEWAYS \<le> length gws then (gws, False)
      else if gw_expiry_msec new_item \<le> now_msec then (gws, False)
      else
        (g_array_insert_val gws (case insert_idx of None \<Rightarrow> length gws | Some k \<Rightarrow> k) new_item, True))"
  by pat_completeness auto

termination add_gateway_loop
  by (relation "measure (\<lambda>(gws, _, _, i, _). length gws - i)") auto

definition add_gateway ::
    "NMNDiscGateway list \<Rightarrow> NMNDiscGateway \<Rightarrow> int \<Rightarrow> NMNDiscGateway list \<times> bool" where
  "add_gateway gws new_item now_msec = add_gateway_loop gws new_item now_msec 0 None"

text \<open>The invariant that \<^verbatim>\<open>_ASSERT_data_gateways\<close> checks.\<close>

definition ASSERT_data_gateways :: "NMNDiscGateway list \<Rightarrow> bool" where
  "ASSERT_data_gateways gws \<longleftrightarrow>
     (\<forall>i<length gws.
        \<not> IN6_IS_ADDR_UNSPECIFIED (gw_address (gws ! i)) \<and>
        (\<forall>j<i. gw_address (gws ! i) \<noteq> gw_address (gws ! j)) \<and>
        (i > 0 \<longrightarrow> preference_to_priority (gw_preference (gws ! (i - 1)))
                  \<ge> preference_to_priority (gw_preference (gws ! i))))"

function (sequential) add_route_loop ::
    "NMNDiscRoute list \<Rightarrow> NMNDiscRoute \<Rightarrow> int \<Rightarrow> nat \<Rightarrow> nat option \<Rightarrow> NMNDiscRoute list \<times> bool" where
  "add_route_loop rts new_item now_msec i insert_idx =
     (if i < length rts then
        (let item = rts ! i in
         if rt_network item = rt_network new_item \<and> rt_plen item = rt_plen new_item \<and>
            rt_on_link item = rt_on_link new_item
         then
           if rt_expiry_msec new_item \<le> now_msec then (g_array_remove_index rts i, True)
           else if rt_preference item \<noteq> rt_preference new_item
           then add_route_loop (g_array_remove_index rts i) new_item now_msec i insert_idx
           else if rt_expiry_msec item = rt_expiry_msec new_item \<and>
                   rt_gateway item = rt_gateway new_item
           then (rts, False)
           else
             (rts[i := item\<lparr>rt_expiry_msec := rt_expiry_msec new_item,
                           rt_gateway := rt_gateway new_item\<rparr>], True)
         else
           add_route_loop rts new_item now_msec (i + 1)
             (if preference_to_priority (rt_preference item)
                   < preference_to_priority (rt_preference new_item) \<and> insert_idx = None
              then Some i else insert_idx))
      else if NM_NDISC_SIZE_MAX_ROUTES \<le> length rts then (rts, False)
      else if rt_expiry_msec new_item \<le> now_msec then (rts, False)
      else (g_array_insert_val rts (case insert_idx of None \<Rightarrow> 0 | Some k \<Rightarrow> k) new_item, True))"
  by pat_completeness auto

termination add_route_loop
  by (relation "measure (\<lambda>(rts, _, _, i, _). length rts - i)") auto

definition add_route ::
    "NMNDiscRoute list \<Rightarrow> NMNDiscRoute \<Rightarrow> int \<Rightarrow> NMNDiscRoute list \<times> bool" where
  "add_route rts new_item now_msec =
     (if rt_plen new_item = 0 \<or> rt_plen new_item > 128 then (rts, False)
      else add_route_loop rts new_item now_msec 0 None)"

function (sequential) add_dns_server_loop ::
    "NMNDiscDNSServer list \<Rightarrow> NMNDiscDNSServer \<Rightarrow> int \<Rightarrow> nat \<Rightarrow> NMNDiscDNSServer list \<times> bool" where
  "add_dns_server_loop dss new_item now_msec i =
     (if i < length dss then
        (let item = dss ! i in
         if ds_address item = ds_address new_item then
           if ds_expiry_msec new_item \<le> now_msec then (g_array_remove_index dss i, True)
           else if ds_expiry_msec item = ds_expiry_msec new_item then (dss, False)
           else (dss[i := item\<lparr>ds_expiry_msec := ds_expiry_msec new_item\<rparr>], True)
         else add_dns_server_loop dss new_item now_msec (i + 1))
      else if NM_NDISC_SIZE_MAX_DNS_SERVERS \<le> length dss then (dss, False)
      else if ds_expiry_msec new_item \<le> now_msec then (dss, False)
      else (dss @ [new_item], True))"
  by pat_completeness auto

termination add_dns_server_loop
  by (relation "measure (\<lambda>(dss, _, _, i). length dss - i)") auto

definition add_dns_server ::
    "NMNDiscDNSServer list \<Rightarrow> NMNDiscDNSServer \<Rightarrow> int \<Rightarrow> NMNDiscDNSServer list \<times> bool" where
  "add_dns_server dss new_item now_msec = add_dns_server_loop dss new_item now_msec 0"

function (sequential) add_dns_domain_loop ::
    "NMNDiscDNSDomain list \<Rightarrow> NMNDiscDNSDomain \<Rightarrow> int \<Rightarrow> nat \<Rightarrow> NMNDiscDNSDomain list \<times> bool" where
  "add_dns_domain_loop dds new_item now_msec i =
     (if i < length dds then
        (let item = dds ! i in
         if dd_domain item = dd_domain new_item then
           if dd_expiry_msec new_item \<le> now_msec then (g_array_remove_index dds i, True)
           else if dd_expiry_msec item = dd_expiry_msec new_item then (dds, False)
           else (dds[i := item\<lparr>dd_expiry_msec := dd_expiry_msec new_item\<rparr>], True)
         else add_dns_domain_loop dds new_item now_msec (i + 1))
      else if NM_NDISC_SIZE_MAX_DNS_DOMAINS \<le> length dds then (dds, False)
      else if dd_expiry_msec new_item \<le> now_msec then (dds, False)
      else (dds @ [new_item], True))"
  by pat_completeness auto

termination add_dns_domain_loop
  by (relation "measure (\<lambda>(dds, _, _, i). length dds - i)") auto

definition add_dns_domain ::
    "NMNDiscDNSDomain list \<Rightarrow> NMNDiscDNSDomain \<Rightarrow> int \<Rightarrow> NMNDiscDNSDomain list \<times> bool" where
  "add_dns_domain dds new_item now_msec = add_dns_domain_loop dds new_item now_msec 0"

section \<open>Dropping expired items\<close>

text \<open>
  The compaction loop, the same for all arrays but the search domains: \<open>i\<close> reads, \<open>j\<close> writes, and
  \<open>next_msec\<close> becomes the earliest expiry of what is kept.
\<close>

function (sequential) clean_loop ::
    "('a \<Rightarrow> int) \<Rightarrow> int \<Rightarrow> 'a list \<Rightarrow> nat \<Rightarrow> nat \<Rightarrow> int \<Rightarrow> 'a list \<times> nat \<times> nat \<times> int" where
  "clean_loop expiry now_msec arr i j next_msec =
     (if i < length arr then
        (case expiry_next now_msec (expiry (arr ! i)) next_msec of
           (False, next_msec) \<Rightarrow> clean_loop expiry now_msec arr (i + 1) j next_msec
         | (True, next_msec) \<Rightarrow>
             clean_loop expiry now_msec (if i \<noteq> j then arr[j := arr ! i] else arr) (i + 1) (j + 1) next_msec)
      else (arr, i, j, next_msec))"
  by pat_completeness auto

termination clean_loop
  by (relation "measure (\<lambda>(_, _, arr, i, _, _). length arr - i)") auto

text \<open>
  The loop over the search domains moves the string pointers and frees what it overwrites; \<open>freed\<close>
  collects the strings passed to \<^verbatim>\<open>g_free\<close>.
\<close>

function (sequential) clean_dns_domains_loop ::
    "int \<Rightarrow> NMNDiscDNSDomain list \<Rightarrow> nat \<Rightarrow> nat \<Rightarrow> int \<Rightarrow> string option list \<Rightarrow>
     NMNDiscDNSDomain list \<times> nat \<times> nat \<times> int \<times> string option list" where
  "clean_dns_domains_loop now_msec arr i j next_msec freed =
     (if i < length arr then
        (case expiry_next now_msec (dd_expiry_msec (arr ! i)) next_msec of
           (False, next_msec) \<Rightarrow> clean_dns_domains_loop now_msec arr (i + 1) j next_msec freed
         | (True, next_msec) \<Rightarrow>
             if i \<noteq> j
             then clean_dns_domains_loop now_msec
                    (arr[j := arr ! i, i := (arr ! i)\<lparr>dd_domain := None\<rparr>]) (i + 1) (j + 1) next_msec
                    (freed @ [dd_domain (arr ! j)])
             else clean_dns_domains_loop now_msec arr (i + 1) (j + 1) next_msec freed)
      else (arr, i, j, next_msec, freed))"
  by pat_completeness auto

termination clean_dns_domains_loop
  by (relation "measure (\<lambda>(_, arr, i, _, _, _). length arr - i)") auto

definition array_set_size_max :: "'a list \<Rightarrow> nat \<Rightarrow> 'a list \<times> bool" where
  "array_set_size_max array size_max =
     (if length array \<le> size_max then (array, False) else (take size_max array, True))"

text \<open>Truncating the array of search domains frees the strings of the entries that are cut off.\<close>

definition dns_domains_set_size ::
    "NMNDiscDNSDomain list \<Rightarrow> nat \<Rightarrow> NMNDiscDNSDomain list \<times> string option list" where
  "dns_domains_set_size arr n = (take n arr, map dd_domain (drop n arr))"

declare clean_loop.simps [simp del] clean_dns_domains_loop.simps [simp del]

declare add_gateway_loop.simps [simp del] add_route_loop.simps [simp del]
  add_dns_server_loop.simps [simp del] add_dns_domain_loop.simps [simp del]

section \<open>The contract of the stores\<close>

text \<open>Merging the items of one message, in the order in which they occur in it.\<close>

definition add_all :: "('a list \<Rightarrow> 'a \<Rightarrow> int \<Rightarrow> 'a list \<times> bool) \<Rightarrow> 'a list \<Rightarrow> 'a list \<Rightarrow> int \<Rightarrow> 'a list" where
  "add_all add xs items now = fold (\<lambda>x xs. fst (add xs x now)) items xs"

lemma add_all_simps [simp]:
  "add_all add xs [] now = xs"
  "add_all add xs (x # items) now = add_all add (fst (add xs x now)) items now"
  "add_all add xs (items @ items') now = add_all add (add_all add xs items now) items' now"
  by (simp_all add: add_all_def)

text \<open>
  What a user of a store relies on: keys stay unique and the capacity is never exceeded; after
  adding an item that is still alive, the entry of its key is that item (up to the part of the
  record that \<open>view\<close> hides), unless the store is full and has no entry of that key; an item that
  is already expired removes the entry; entries of other keys stay; and the flag is true exactly
  when the store changed.
\<close>

locale advert_store =
  fixes add :: "'a list \<Rightarrow> 'a \<Rightarrow> int \<Rightarrow> 'a list \<times> bool"
    and key :: "'a \<Rightarrow> 'k"
    and view :: "'a \<Rightarrow> 'v"
    and expiry :: "'a \<Rightarrow> int"
    and cap :: nat
  assumes add_distinct: "distinct (map key xs) \<Longrightarrow> distinct (map key (fst (add xs x now)))"
    and add_cap: "distinct (map key xs) \<Longrightarrow> length xs \<le> cap \<Longrightarrow> length (fst (add xs x now)) \<le> cap"
    and add_same: "distinct (map key xs) \<Longrightarrow> length xs \<le> cap \<Longrightarrow>
      view ` {y \<in> set (fst (add xs x now)). key y = key x} =
        (if expiry x \<le> now then {}
         else if key x \<in> key ` set xs \<or> length xs < cap then {view x} else {})"
    and add_others: "distinct (map key xs) \<Longrightarrow>
      {y \<in> set (fst (add xs x now)). key y \<noteq> key x} = {y \<in> set xs. key y \<noteq> key x}"
    and add_changed: "distinct (map key xs) \<Longrightarrow> length xs \<le> cap \<Longrightarrow>
      snd (add xs x now) \<longleftrightarrow> fst (add xs x now) \<noteq> xs"
begin

lemma add_all_distinct:
  "distinct (map key xs) \<Longrightarrow> distinct (map key (add_all add xs items now))"
  by (induction items arbitrary: xs) (auto simp: add_distinct)

lemma add_all_cap:
  "distinct (map key xs) \<Longrightarrow> length xs \<le> cap \<Longrightarrow> length (add_all add xs items now) \<le> cap"
  by (induction items arbitrary: xs) (simp_all add: add_distinct add_cap)

lemma add_all_untouched:
  "distinct (map key xs) \<Longrightarrow> k \<notin> key ` set items \<Longrightarrow>
    {y \<in> set (add_all add xs items now). key y = k} = {y \<in> set xs. key y = k}"
proof (induction items arbitrary: xs)
  case (Cons x items)
  then have k: "key x \<noteq> k" "k \<notin> key ` set items" by auto
  have "y \<in> set (fst (add xs x now)) \<longleftrightarrow> y \<in> set xs" if "key y = k" for y
    using add_others [OF Cons.prems(1), of x now, THEN eqset_imp_iff, of y] k(1) that by simp
  then have "{y \<in> set (fst (add xs x now)). key y = k} = {y \<in> set xs. key y = k}" by auto
  with Cons.IH [OF add_distinct [OF Cons.prems(1)] k(2)] show ?case by simp
qed simp

text \<open>The last item of a key decides.\<close>

lemma add_all_last:
  assumes "distinct (map key xs)" "length xs \<le> cap" "items = as @ x # bs" "key x \<notin> key ` set bs"
  shows "view ` {y \<in> set (add_all add xs items now). key y = key x} =
    (if expiry x \<le> now then {}
     else if key x \<in> key ` set (add_all add xs as now) \<or> length (add_all add xs as now) < cap
     then {view x} else {})"
proof -
  let ?ys = "add_all add xs as now"
  have ys: "distinct (map key ?ys)" "length ?ys \<le> cap"
    using assms(1,2) add_all_distinct add_all_cap by auto
  have "{y \<in> set (add_all add xs items now). key y = key x} =
      {y \<in> set (fst (add ?ys x now)). key y = key x}"
    using add_all_untouched [OF add_distinct [OF ys(1)] assms(4)] assms(3) by simp
  then show ?thesis using add_same [OF ys] by simp
qed

lemma add_all_withdrawn:
  assumes "distinct (map key xs)" "length xs \<le> cap" "items = as @ x # bs" "key x \<notin> key ` set bs"
    "expiry x \<le> now"
  shows "key x \<notin> key ` set (add_all add xs items now)"
proof -
  have "{y \<in> set (add_all add xs items now). key y = key x} = {}"
    using add_all_last [OF assms(1-4), of now] assms(5) by simp
  then show ?thesis by force
qed

end

text \<open>
  The shape all four operations have: an item of an unknown key goes to position \<open>pos\<close> when it is
  alive and there is room; an item of a known key removes, moves, keeps or updates the entry.
\<close>

locale keyed_array =
  fixes add :: "'a list \<Rightarrow> 'a \<Rightarrow> int \<Rightarrow> 'a list \<times> bool"
    and key :: "'a \<Rightarrow> 'k"
    and view :: "'a \<Rightarrow> 'v"
    and expiry :: "'a \<Rightarrow> int"
    and cap :: nat
    and pos :: "'a list \<Rightarrow> 'a \<Rightarrow> nat"
    and compat :: "'a \<Rightarrow> 'a \<Rightarrow> bool"
    and upd :: "'a \<Rightarrow> 'a \<Rightarrow> 'a"
  assumes absent: "key x \<notin> key ` set xs \<Longrightarrow>
      add xs x now =
        (if cap \<le> length xs \<or> expiry x \<le> now then (xs, False)
         else (g_array_insert_val xs (pos xs x) x, True))"
    and present: "key y = key x \<Longrightarrow> key x \<notin> key ` set us \<Longrightarrow> key x \<notin> key ` set vs \<Longrightarrow>
      add (us @ y # vs) x now =
        (if expiry x \<le> now then (us @ vs, True)
         else if \<not> compat y x then add (us @ vs) x now
         else if upd y x = y then (us @ y # vs, False)
         else (us @ upd y x # vs, True))"
    and upd_key: "key y = key x \<Longrightarrow> compat y x \<Longrightarrow> key (upd y x) = key x"
    and upd_view: "key y = key x \<Longrightarrow> compat y x \<Longrightarrow> view (upd y x) = view x"
    and compat_refl: "compat x x"
begin

text \<open>The four possible outcomes, for a store with unique keys.\<close>

lemma add_cases:
  assumes "distinct (map key xs)"
  obtains (none) "key x \<notin> key ` set xs" "cap \<le> length xs \<or> expiry x \<le> now" "add xs x now = (xs, False)"
    | (new) "key x \<notin> key ` set xs" "length xs < cap" "now < expiry x"
        "add xs x now = (g_array_insert_val xs (pos xs x) x, True)"
    | (del) us y vs where "xs = us @ y # vs" "key y = key x" "key x \<notin> key ` set (us @ vs)"
        "expiry x \<le> now" "add xs x now = (us @ vs, True)"
    | (move) us y vs where "xs = us @ y # vs" "key y = key x" "key x \<notin> key ` set (us @ vs)"
        "now < expiry x" "\<not> compat y x" "add xs x now = add (us @ vs) x now"
    | (keep) us y vs where "xs = us @ y # vs" "key y = key x" "key x \<notin> key ` set (us @ vs)"
        "now < expiry x" "compat y x" "upd y x = y" "add xs x now = (xs, False)"
    | (upd) us y vs where "xs = us @ y # vs" "key y = key x" "key x \<notin> key ` set (us @ vs)"
        "now < expiry x" "compat y x" "upd y x \<noteq> y" "add xs x now = (us @ upd y x # vs, True)"
proof (cases "key x \<in> key ` set xs")
  case False
  from absent [OF this, of now] show thesis
    using none [OF False] new [OF False] by (cases "cap \<le> length xs \<or> expiry x \<le> now") auto
next
  case True
  then obtain y where "y \<in> set xs" "key y = key x" by auto
  then obtain us vs where xs: "xs = us @ y # vs" by (meson split_list)
  have k: "key x \<notin> key ` set (us @ vs)" "key x \<notin> key ` set us" "key x \<notin> key ` set vs"
    using assms xs \<open>key y = key x\<close> by auto
  from present [OF \<open>key y = key x\<close> k(2,3), of now] show thesis
    using del [OF xs \<open>key y = key x\<close> k(1)] move [OF xs \<open>key y = key x\<close> k(1)]
      keep [OF xs \<open>key y = key x\<close> k(1)] upd [OF xs \<open>key y = key x\<close> k(1)] xs
    by (cases "expiry x \<le> now"; cases "compat y x"; cases "upd y x = y") auto
qed

lemma ka_distinct:
  assumes d: "distinct (map key xs)"
  shows "distinct (map key (fst (add xs x now)))"
  using d
proof (cases rule: add_cases [where x = x and now = now])
  case (move us y vs)
  then show ?thesis using d absent [OF move(3), of now] by auto
qed (use d in \<open>auto simp: upd_key\<close>)

lemma ka_cap:
  assumes d: "distinct (map key xs)" and l: "length xs \<le> cap"
  shows "length (fst (add xs x now)) \<le> cap"
  using d
proof (cases rule: add_cases [where x = x and now = now])
  case (move us y vs)
  then show ?thesis using l absent [OF move(3), of now] by auto
qed (use l in auto)

lemma move_insert:
  assumes "length xs \<le> cap" "xs = us @ y # vs" "key x \<notin> key ` set (us @ vs)" "now < expiry x"
  shows "add (us @ vs) x now = (g_array_insert_val (us @ vs) (pos (us @ vs) x) x, True)"
  using absent [OF assms(3), of now] assms by auto

lemma ka_same:
  assumes d: "distinct (map key xs)" and l: "length xs \<le> cap"
  shows "view ` {y \<in> set (fst (add xs x now)). key y = key x} =
      (if expiry x \<le> now then {}
       else if key x \<in> key ` set xs \<or> length xs < cap then {view x} else {})"
  using d
proof (cases rule: add_cases [where x = x and now = now])
  case none
  then show ?thesis using l by (auto simp: Collect_key_empty)
next
  case new
  then show ?thesis by (simp add: Collect_insert_if Collect_key_empty del: insert_iff)
next
  case (del us y vs)
  then show ?thesis by (simp add: Collect_key_empty flip: set_append)
next
  case (move us y vs)
  moreover from move(1,2) have "key x \<in> key ` set xs" by simp
  ultimately show ?thesis
    using move_insert [OF l move(1,3,4)]
    by (simp add: Collect_insert_if Collect_key_empty del: insert_iff Un_iff flip: set_append)
next
  case (keep us y vs)
  moreover from keep(1,2) have "key x \<in> key ` set xs" by simp
  moreover have "{z \<in> set xs. key z = key x} = {y}"
    unfolding keep(1) by (rule Collect_key_single [OF keep(2,3)])
  ultimately show ?thesis using upd_view [OF keep(2,5)] by simp
next
  case (upd us y vs)
  moreover from upd(1,2) have "key x \<in> key ` set xs" by simp
  moreover have "{z \<in> set (us @ upd y x # vs). key z = key x} = {upd y x}"
    using upd_key [OF upd(2,5)] upd(3) by (rule Collect_key_single)
  ultimately show ?thesis using upd_view [OF upd(2,5)] by simp
qed

lemma ka_others:
  assumes d: "distinct (map key xs)"
  shows "{y \<in> set (fst (add xs x now)). key y \<noteq> key x} = {y \<in> set xs. key y \<noteq> key x}"
  using d
proof (cases rule: add_cases [where x = x and now = now])
  case (move us y vs)
  then show ?thesis using absent [OF move(3), of now] by auto
qed (auto simp: upd_key)

lemma ka_changed:
  assumes d: "distinct (map key xs)" and l: "length xs \<le> cap"
  shows "snd (add xs x now) \<longleftrightarrow> fst (add xs x now) \<noteq> xs"
  using d
proof (cases rule: add_cases [where x = x and now = now])
  case (move us y vs)
  have "g_array_insert_val (us @ vs) (pos (us @ vs) x) x \<noteq> xs"
  proof
    assume eq: "g_array_insert_val (us @ vs) (pos (us @ vs) x) x = xs"
    have "mset xs = add_mset x (mset (us @ vs))" using eq mset_insert_val by metis
    then have "x = y" using move(1) by simp
    with move(5) compat_refl show False by simp
  qed
  with move_insert [OF l move(1,3,4)] move(6) show ?thesis by simp
next
  case new
  then show ?thesis by (metis fst_conv length_insert_val n_not_Suc_n snd_conv)
qed auto

lemma ka_length:
  assumes d: "distinct (map key xs)"
  shows "length (fst (add xs x now)) \<le> Suc (length xs)"
  using d
proof (cases rule: add_cases [where x = x and now = now])
  case (move us y vs)
  then show ?thesis using absent [OF move(3), of now] by auto
qed auto

lemma add_all_length:
  "distinct (map key xs) \<Longrightarrow> length (add_all add xs items now) \<le> length xs + length items"
proof (induction items arbitrary: xs)
  case (Cons x items)
  then show ?case
    using Cons.IH [OF ka_distinct [OF Cons.prems], of x now] ka_length [OF Cons.prems, of x now] by simp
qed simp

end

sublocale keyed_array \<subseteq> advert_store add key view expiry cap
  by unfold_locales (fact ka_distinct ka_cap ka_same ka_others ka_changed)+

section \<open>The operations have the shape\<close>

primrec first_idx :: "('a \<Rightarrow> bool) \<Rightarrow> 'a list \<Rightarrow> nat option" where
  "first_idx P [] = None"
| "first_idx P (x # xs) = (if P x then Some 0 else map_option Suc (first_idx P xs))"

lemma first_idx_snoc:
  "first_idx P (xs @ [x]) =
     (if P x \<and> first_idx P xs = None then Some (length xs) else first_idx P xs)"
  by (induction xs) auto

abbreviation gw_prio :: "NMNDiscGateway \<Rightarrow> nat" where
  "gw_prio g \<equiv> preference_to_priority (gw_preference g)"

abbreviation rt_prio :: "NMNDiscRoute \<Rightarrow> nat" where
  "rt_prio r \<equiv> preference_to_priority (rt_preference r)"

definition gw_pos :: "NMNDiscGateway list \<Rightarrow> NMNDiscGateway \<Rightarrow> nat" where
  "gw_pos gws x = (case first_idx (\<lambda>g. gw_prio g < gw_prio x) gws of None \<Rightarrow> length gws | Some k \<Rightarrow> k)"

definition rt_pos :: "NMNDiscRoute list \<Rightarrow> NMNDiscRoute \<Rightarrow> nat" where
  "rt_pos rts x = (case first_idx (\<lambda>r. rt_prio r < rt_prio x) rts of None \<Rightarrow> 0 | Some k \<Rightarrow> k)"

definition rt_key :: "NMNDiscRoute \<Rightarrow> in6_addr \<times> nat \<times> bool" where
  "rt_key r = (rt_network r, rt_plen r, rt_on_link r)"

definition rt_view ::
    "NMNDiscRoute \<Rightarrow> in6_addr \<times> nat \<times> bool \<times> in6_addr \<times> int \<times> NMIcmpv6RouterPref" where
  "rt_view r = (rt_network r, rt_plen r, rt_on_link r, rt_gateway r, rt_expiry_msec r, rt_preference r)"

lemma add_gateway_scan:
  "gw_address x \<notin> gw_address ` set us \<Longrightarrow>
    add_gateway_loop (us @ vs) x now 0 None =
      add_gateway_loop (us @ vs) x now (length us) (first_idx (\<lambda>g. gw_prio g < gw_prio x) us)"
proof (induction us arbitrary: vs rule: rev_induct)
  case (snoc u us)
  then have "add_gateway_loop (us @ (u # vs)) x now 0 None =
      add_gateway_loop (us @ (u # vs)) x now (length us) (first_idx (\<lambda>g. gw_prio g < gw_prio x) us)"
    by simp
  also have "\<dots> = add_gateway_loop (us @ (u # vs)) x now (length us + 1)
      (first_idx (\<lambda>g. gw_prio g < gw_prio x) (us @ [u]))"
    using snoc.prems by (subst add_gateway_loop.simps) (auto simp: first_idx_snoc nth_append)
  finally show ?case by simp
qed simp

lemma add_gateway_absent:
  "gw_address x \<notin> gw_address ` set xs \<Longrightarrow>
    add_gateway xs x now =
      (if NM_NDISC_SIZE_MAX_GATEWAYS \<le> length xs \<or> gw_expiry_msec x \<le> now then (xs, False)
       else (g_array_insert_val xs (gw_pos xs x) x, True))"
  using add_gateway_scan [of x xs "[]" now]
  by (simp add: add_gateway_def add_gateway_loop.simps gw_pos_def)

lemma add_gateway_present:
  assumes "gw_address y = gw_address x" "gw_address x \<notin> gw_address ` set us"
  shows "add_gateway (us @ y # vs) x now =
    (if gw_expiry_msec x \<le> now then (us @ vs, True)
     else if gw_preference y \<noteq> gw_preference x then add_gateway (us @ vs) x now
     else if gw_expiry_msec y = gw_expiry_msec x then (us @ y # vs, False)
     else (us @ y\<lparr>gw_expiry_msec := gw_expiry_msec x\<rparr> # vs, True))"
  unfolding add_gateway_def add_gateway_scan [OF assms(2)]
  by (subst (1) add_gateway_loop.simps) (simp add: nth_append assms(1))

lemma gw_upd_eq: "y\<lparr>gw_expiry_msec := t\<rparr> = y \<longleftrightarrow> gw_expiry_msec y = t"
  by (cases y) auto

interpretation gw_store: keyed_array add_gateway gw_address "\<lambda>g. g" gw_expiry_msec
  NM_NDISC_SIZE_MAX_GATEWAYS gw_pos "\<lambda>y x. gw_preference y = gw_preference x"
  "\<lambda>y x. y\<lparr>gw_expiry_msec := gw_expiry_msec x\<rparr>"
  by unfold_locales (auto simp: add_gateway_absent add_gateway_present gw_upd_eq)

lemma add_route_scan:
  "rt_key x \<notin> rt_key ` set us \<Longrightarrow>
    add_route_loop (us @ vs) x now 0 None =
      add_route_loop (us @ vs) x now (length us) (first_idx (\<lambda>r. rt_prio r < rt_prio x) us)"
proof (induction us arbitrary: vs rule: rev_induct)
  case (snoc u us)
  then have "add_route_loop (us @ (u # vs)) x now 0 None =
      add_route_loop (us @ (u # vs)) x now (length us) (first_idx (\<lambda>r. rt_prio r < rt_prio x) us)"
    by simp
  also have "\<dots> = add_route_loop (us @ (u # vs)) x now (length us + 1)
      (first_idx (\<lambda>r. rt_prio r < rt_prio x) (us @ [u]))"
    using snoc.prems
    by (subst add_route_loop.simps) (auto simp: first_idx_snoc nth_append rt_key_def)
  finally show ?case by simp
qed simp

lemma add_route_loop_absent:
  "rt_key x \<notin> rt_key ` set xs \<Longrightarrow>
    add_route_loop xs x now 0 None =
      (if NM_NDISC_SIZE_MAX_ROUTES \<le> length xs \<or> rt_expiry_msec x \<le> now then (xs, False)
       else (g_array_insert_val xs (rt_pos xs x) x, True))"
  using add_route_scan [of x xs "[]" now] by (simp add: add_route_loop.simps rt_pos_def)

lemma add_route_loop_present:
  assumes "rt_key y = rt_key x" "rt_key x \<notin> rt_key ` set us"
  shows "add_route_loop (us @ y # vs) x now 0 None =
    (if rt_expiry_msec x \<le> now then (us @ vs, True)
     else if rt_preference y \<noteq> rt_preference x then add_route_loop (us @ vs) x now 0 None
     else if rt_expiry_msec y = rt_expiry_msec x \<and> rt_gateway y = rt_gateway x then (us @ y # vs, False)
     else (us @ y\<lparr>rt_expiry_msec := rt_expiry_msec x, rt_gateway := rt_gateway x\<rparr> # vs, True))"
  using assms(1) unfolding add_route_scan [OF assms(2)]
  by (subst (1) add_route_loop.simps) (simp add: nth_append rt_key_def)

lemma rt_upd_eq:
  "y\<lparr>rt_expiry_msec := t, rt_gateway := g\<rparr> = y \<longleftrightarrow> rt_expiry_msec y = t \<and> rt_gateway y = g"
  by (cases y) auto

interpretation rt_store: keyed_array "\<lambda>xs x now. add_route_loop xs x now 0 None" rt_key rt_view
  rt_expiry_msec NM_NDISC_SIZE_MAX_ROUTES rt_pos "\<lambda>y x. rt_preference y = rt_preference x"
  "\<lambda>y x. y\<lparr>rt_expiry_msec := rt_expiry_msec x, rt_gateway := rt_gateway x\<rparr>"
  by unfold_locales
    (auto simp: add_route_loop_absent add_route_loop_present rt_upd_eq rt_key_def rt_view_def)

lemma add_dns_server_scan:
  "ds_address x \<notin> ds_address ` set us \<Longrightarrow>
    add_dns_server (us @ vs) x now = add_dns_server_loop (us @ vs) x now (length us)"
proof (induction us arbitrary: vs rule: rev_induct)
  case (snoc u us)
  then have "add_dns_server (us @ (u # vs)) x now = add_dns_server_loop (us @ (u # vs)) x now (length us)"
    by simp
  also have "\<dots> = add_dns_server_loop (us @ (u # vs)) x now (length us + 1)"
    using snoc.prems by (subst add_dns_server_loop.simps) (auto simp: nth_append)
  finally show ?case by simp
qed (simp add: add_dns_server_def)

lemma ds_upd_eq: "y\<lparr>ds_expiry_msec := t\<rparr> = y \<longleftrightarrow> ds_expiry_msec y = t"
  by (cases y) auto

lemma insert_val_length [simp]: "g_array_insert_val xs (length xs) x = xs @ [x]"
  by (simp add: g_array_insert_val_def)

interpretation ds_store: keyed_array add_dns_server ds_address "\<lambda>d. d" ds_expiry_msec
  NM_NDISC_SIZE_MAX_DNS_SERVERS "\<lambda>xs x. length xs" "\<lambda>y x. True"
  "\<lambda>y x. y\<lparr>ds_expiry_msec := ds_expiry_msec x\<rparr>"
proof unfold_locales
  fix now and xs :: "NMNDiscDNSServer list" and x :: NMNDiscDNSServer
  assume "ds_address x \<notin> ds_address ` set xs"
  then show "add_dns_server xs x now =
      (if NM_NDISC_SIZE_MAX_DNS_SERVERS \<le> length xs \<or> ds_expiry_msec x \<le> now then (xs, False)
       else (g_array_insert_val xs (length xs) x, True))"
    using add_dns_server_scan [of x xs "[]" now] by (simp add: add_dns_server_loop.simps)
next
  fix now and us vs :: "NMNDiscDNSServer list" and y x :: NMNDiscDNSServer
  assume "ds_address y = ds_address x" "ds_address x \<notin> ds_address ` set us"
  then show "add_dns_server (us @ y # vs) x now =
      (if ds_expiry_msec x \<le> now then (us @ vs, True)
       else if \<not> True then add_dns_server (us @ vs) x now
       else if y\<lparr>ds_expiry_msec := ds_expiry_msec x\<rparr> = y then (us @ y # vs, False)
       else (us @ y\<lparr>ds_expiry_msec := ds_expiry_msec x\<rparr> # vs, True))"
    by (simp add: add_dns_server_scan) (simp add: add_dns_server_loop.simps nth_append ds_upd_eq)
qed auto

lemma add_dns_domain_scan:
  "dd_domain x \<notin> dd_domain ` set us \<Longrightarrow>
    add_dns_domain (us @ vs) x now = add_dns_domain_loop (us @ vs) x now (length us)"
proof (induction us arbitrary: vs rule: rev_induct)
  case (snoc u us)
  then have "add_dns_domain (us @ (u # vs)) x now = add_dns_domain_loop (us @ (u # vs)) x now (length us)"
    by simp
  also have "\<dots> = add_dns_domain_loop (us @ (u # vs)) x now (length us + 1)"
    using snoc.prems by (subst add_dns_domain_loop.simps) (auto simp: nth_append)
  finally show ?case by simp
qed (simp add: add_dns_domain_def)

lemma dd_upd_eq: "y\<lparr>dd_expiry_msec := t\<rparr> = y \<longleftrightarrow> dd_expiry_msec y = t"
  by (cases y) auto

interpretation dd_store: keyed_array add_dns_domain dd_domain "\<lambda>d. d" dd_expiry_msec
  NM_NDISC_SIZE_MAX_DNS_DOMAINS "\<lambda>xs x. length xs" "\<lambda>y x. True"
  "\<lambda>y x. y\<lparr>dd_expiry_msec := dd_expiry_msec x\<rparr>"
proof unfold_locales
  fix now and xs :: "NMNDiscDNSDomain list" and x :: NMNDiscDNSDomain
  assume "dd_domain x \<notin> dd_domain ` set xs"
  then show "add_dns_domain xs x now =
      (if NM_NDISC_SIZE_MAX_DNS_DOMAINS \<le> length xs \<or> dd_expiry_msec x \<le> now then (xs, False)
       else (g_array_insert_val xs (length xs) x, True))"
    using add_dns_domain_scan [of x xs "[]" now] by (simp add: add_dns_domain_loop.simps)
next
  fix now and us vs :: "NMNDiscDNSDomain list" and y x :: NMNDiscDNSDomain
  assume "dd_domain y = dd_domain x" "dd_domain x \<notin> dd_domain ` set us"
  then show "add_dns_domain (us @ y # vs) x now =
      (if dd_expiry_msec x \<le> now then (us @ vs, True)
       else if \<not> True then add_dns_domain (us @ vs) x now
       else if y\<lparr>dd_expiry_msec := dd_expiry_msec x\<rparr> = y then (us @ y # vs, False)
       else (us @ y\<lparr>dd_expiry_msec := dd_expiry_msec x\<rparr> # vs, True))"
    by (simp add: add_dns_domain_scan) (simp add: add_dns_domain_loop.simps nth_append dd_upd_eq)
qed auto

section \<open>Gateways are ordered by preference\<close>

lemma first_idx_takeWhile:
  "first_idx P xs =
     (if \<exists>x\<in>set xs. P x then Some (length (takeWhile (\<lambda>x. \<not> P x) xs)) else None)"
  by (induction xs) auto

lemma insert_val_takeWhile:
  "g_array_insert_val xs (length (takeWhile Q xs)) x = takeWhile Q xs @ x # dropWhile Q xs"
proof -
  have "take (length (takeWhile Q xs)) (takeWhile Q xs @ dropWhile Q xs) = takeWhile Q xs"
    "drop (length (takeWhile Q xs)) (takeWhile Q xs @ dropWhile Q xs) = dropWhile Q xs"
    by (simp_all del: takeWhile_dropWhile_id)
  then show ?thesis by (simp add: g_array_insert_val_def)
qed

lemma insert_gw_pos:
  "g_array_insert_val xs (gw_pos xs x) x =
     takeWhile (\<lambda>g. gw_prio x \<le> gw_prio g) xs @ x # dropWhile (\<lambda>g. gw_prio x \<le> gw_prio g) xs"
proof (cases "\<exists>g\<in>set xs. gw_prio g < gw_prio x")
  case True
  then show ?thesis
    using insert_val_takeWhile [of xs "\<lambda>g. gw_prio x \<le> gw_prio g" x]
    by (simp add: gw_pos_def first_idx_takeWhile not_less)
next
  case False
  then have "takeWhile (\<lambda>g. gw_prio x \<le> gw_prio g) xs = xs" "dropWhile (\<lambda>g. gw_prio x \<le> gw_prio g) xs = []"
    by (auto simp: takeWhile_eq_all_conv dropWhile_eq_Nil_conv)
  with False show ?thesis by (simp only: gw_pos_def first_idx_takeWhile) simp
qed

lemma sorted_insert_gw:
  assumes "sorted_wrt (\<lambda>a b. gw_prio b \<le> gw_prio a) xs"
  shows "sorted_wrt (\<lambda>a b. gw_prio b \<le> gw_prio a) (g_array_insert_val xs (gw_pos xs x) x)"
proof -
  let ?Q = "\<lambda>g. gw_prio x \<le> gw_prio g"
  have s: "sorted_wrt (\<lambda>a b. gw_prio b \<le> gw_prio a) (takeWhile ?Q xs @ dropWhile ?Q xs)"
    using assms by simp
  have "gw_prio v \<le> gw_prio x" if "v \<in> set (dropWhile ?Q xs)" for v
  proof -
    from that obtain h t where ht: "dropWhile ?Q xs = h # t" by (cases "dropWhile ?Q xs") auto
    then have "\<not> ?Q h" by (metis dropWhile_eq_Cons_conv)
    moreover have "gw_prio v \<le> gw_prio h" using s that ht by (auto simp: sorted_wrt_append)
    ultimately show ?thesis by simp
  qed
  moreover have "gw_prio x \<le> gw_prio u" if "u \<in> set (takeWhile ?Q xs)" for u
    using that by (auto dest: set_takeWhileD)
  ultimately show ?thesis unfolding insert_gw_pos by (intro sorted_wrt_insert_mid [OF s])
qed

lemma ASSERT_data_gateways_iff:
  "ASSERT_data_gateways gws \<longleftrightarrow>
     (\<forall>g\<in>set gws. \<not> IN6_IS_ADDR_UNSPECIFIED (gw_address g)) \<and> distinct (map gw_address gws) \<and>
     sorted_wrt (\<lambda>a b. gw_prio b \<le> gw_prio a) gws"
proof -
  have "(\<forall>i<length gws. \<forall>j<i. gw_address (gws ! i) \<noteq> gw_address (gws ! j)) \<longleftrightarrow>
      distinct (map gw_address gws)"
    by (auto simp: distinct_conv_nth) (metis nat_neq_iff)
  moreover have "transp (\<lambda>a b. gw_prio b \<le> gw_prio a)" by (auto intro: transpI)
  then have "sorted_wrt (\<lambda>a b. gw_prio b \<le> gw_prio a) gws \<longleftrightarrow>
      (\<forall>i. Suc i < length gws \<longrightarrow> gw_prio (gws ! Suc i) \<le> gw_prio (gws ! i))"
    by (rule sorted_wrt_iff_nth_Suc_transp)
  moreover have "\<dots> \<longleftrightarrow> (\<forall>i<length gws. 0 < i \<longrightarrow> gw_prio (gws ! i) \<le> gw_prio (gws ! (i - 1)))"
  proof (intro iffI allI impI)
    fix i
    assume h: "\<forall>i. Suc i < length gws \<longrightarrow> gw_prio (gws ! Suc i) \<le> gw_prio (gws ! i)"
      and i: "i < length gws" "0 < i"
    show "gw_prio (gws ! i) \<le> gw_prio (gws ! (i - 1))" using h [rule_format, of "i - 1"] i by simp
  qed force
  ultimately show ?thesis
    unfolding ASSERT_data_gateways_def by (auto simp: all_set_conv_all_nth)
qed

lemma add_gateway_sorted:
  assumes "distinct (map gw_address gws)" "sorted_wrt (\<lambda>a b. gw_prio b \<le> gw_prio a) gws"
  shows "sorted_wrt (\<lambda>a b. gw_prio b \<le> gw_prio a) (fst (add_gateway gws x now))"
  using assms(1)
proof (cases rule: gw_store.add_cases [where x = x and now = now])
  case (move us y vs)
  have "sorted_wrt (\<lambda>a b. gw_prio b \<le> gw_prio a) (us @ vs)"
    using assms(2) move(1) by (simp add: sorted_wrt_append)
  then show ?thesis
    using gw_store.absent [OF move(3), of now] move(6) sorted_insert_gw by auto
qed (use assms(2) in \<open>auto simp: sorted_insert_gw sorted_wrt_append\<close>)

lemma add_gateway_nonzero:
  assumes "distinct (map gw_address gws)" "\<forall>g\<in>set gws. P (gw_address g)" "P (gw_address x)"
  shows "\<forall>g\<in>set (fst (add_gateway gws x now)). P (gw_address g)"
proof
  fix g
  assume g: "g \<in> set (fst (add_gateway gws x now))"
  show "P (gw_address g)"
  proof (cases "gw_address g = gw_address x")
    case False
    then have "g \<in> set gws" using gw_store.add_others [OF assms(1), of x now] g by blast
    then show ?thesis using assms(2) by simp
  qed (use assms(3) in simp)
qed

lemma add_gateway_bundle:
  assumes "ASSERT_data_gateways gws" "length gws \<le> NM_NDISC_SIZE_MAX_GATEWAYS"
    "\<not> IN6_IS_ADDR_UNSPECIFIED (gw_address x)"
  shows "(case add_gateway gws x now of (gws', changed) \<Rightarrow>
    ASSERT_data_gateways gws' \<and> length gws' \<le> NM_NDISC_SIZE_MAX_GATEWAYS \<and>
    {g \<in> set gws'. gw_address g = gw_address x} =
      (if gw_expiry_msec x \<le> now then {}
       else if gw_address x \<in> gw_address ` set gws \<or> length gws < NM_NDISC_SIZE_MAX_GATEWAYS then {x}
       else {}) \<and>
    {g \<in> set gws'. gw_address g \<noteq> gw_address x} = {g \<in> set gws. gw_address g \<noteq> gw_address x} \<and>
    (changed \<longleftrightarrow> gws' \<noteq> gws))"
proof -
  from assms(1) have d: "distinct (map gw_address gws)"
    and s: "sorted_wrt (\<lambda>a b. gw_prio b \<le> gw_prio a) gws"
    and z: "\<forall>g\<in>set gws. \<not> IN6_IS_ADDR_UNSPECIFIED (gw_address g)"
    by (simp_all add: ASSERT_data_gateways_iff)
  have "ASSERT_data_gateways (fst (add_gateway gws x now))"
    unfolding ASSERT_data_gateways_iff
    using add_gateway_nonzero [OF d z assms(3)] gw_store.add_distinct [OF d] add_gateway_sorted [OF d s]
    by blast
  then show ?thesis
    using gw_store.add_cap [OF d assms(2), of x now] gw_store.add_same [OF d assms(2), of x now]
      gw_store.add_others [OF d, of x now] gw_store.add_changed [OF d assms(2), of x now]
    by (simp add: case_prod_beta)
qed

text \<open>
  C29. Merging a default router into the gateway array keeps what \<open>_ASSERT_data_gateways\<close> checks
  (no unspecified address, each address once, sorted by preference, best first) and the bound of
  100 entries. Afterwards the only entry of that address is the received one, or none when its
  lifetime is over or the array is full; all other gateways are untouched; and the return value
  says whether the array changed.
\<close>

theorem nm_ndisc_add_gateway_correct:
  assumes "ASSERT_data_gateways gws" "length gws \<le> NM_NDISC_SIZE_MAX_GATEWAYS"
    "\<not> IN6_IS_ADDR_UNSPECIFIED (gw_address x)"
  shows "(case add_gateway gws x now of (gws', changed) \<Rightarrow>
    ASSERT_data_gateways gws' \<and> length gws' \<le> NM_NDISC_SIZE_MAX_GATEWAYS \<and>
    {g \<in> set gws'. gw_address g = gw_address x} =
      (if gw_expiry_msec x \<le> now then {}
       else if gw_address x \<in> gw_address ` set gws \<or> length gws < NM_NDISC_SIZE_MAX_GATEWAYS then {x}
       else {}) \<and>
    {g \<in> set gws'. gw_address g \<noteq> gw_address x} = {g \<in> set gws. gw_address g \<noteq> gw_address x} \<and>
    (changed \<longleftrightarrow> gws' \<noteq> gws))"
  by (rule add_gateway_bundle [OF assms])

abbreviation example_addr :: "u8 \<Rightarrow> in6_addr" where
  "example_addr b \<equiv> [0xfe, 0x80, 0, 0, 0, 0, 0, 0, 0, 0, 0, 0, 0, 0, 0, b]"

abbreviation example_gateway :: "u8 \<Rightarrow> int \<Rightarrow> NMIcmpv6RouterPref \<Rightarrow> NMNDiscGateway" where
  "example_gateway b t p \<equiv> \<lparr>gw_address = example_addr b, gw_expiry_msec = t, gw_preference = p\<rparr>"

lemma example_gateways_ok:
  "ASSERT_data_gateways
     [example_gateway 1 5000 NM_ICMPV6_ROUTER_PREF_HIGH, example_gateway 2 7000 NM_ICMPV6_ROUTER_PREF_LOW]"
  by (simp add: ASSERT_data_gateways_iff preference_to_priority_def)

theorem nm_ndisc_add_gateway_correct_witness:
  "(case add_gateway
      [example_gateway 1 5000 NM_ICMPV6_ROUTER_PREF_HIGH,
       example_gateway 2 7000 NM_ICMPV6_ROUTER_PREF_LOW]
      (example_gateway 3 9000 NM_ICMPV6_ROUTER_PREF_MEDIUM)
      1000 of (gws', changed) \<Rightarrow>
    ASSERT_data_gateways gws' \<and>
    {g \<in> set gws'. gw_address g = example_addr 3} =
      {example_gateway 3 9000 NM_ICMPV6_ROUTER_PREF_MEDIUM} \<and>
    (changed \<longleftrightarrow> gws' \<noteq>
      [example_gateway 1 5000 NM_ICMPV6_ROUTER_PREF_HIGH,
       example_gateway 2 7000 NM_ICMPV6_ROUTER_PREF_LOW]))"
  using nm_ndisc_add_gateway_correct
    [of "[example_gateway 1 5000 NM_ICMPV6_ROUTER_PREF_HIGH,
          example_gateway 2 7000 NM_ICMPV6_ROUTER_PREF_LOW]"
      "example_gateway 3 9000 NM_ICMPV6_ROUTER_PREF_MEDIUM"
      1000]
  by (simp add: example_gateways_ok case_prod_beta)

section \<open>Routes\<close>

definition routes_ok :: "NMNDiscRoute list \<Rightarrow> bool" where
  "routes_ok rts \<longleftrightarrow>
     distinct (map rt_key rts) \<and> length rts \<le> NM_NDISC_SIZE_MAX_ROUTES \<and>
     (\<forall>r\<in>set rts. 0 < rt_plen r \<and> rt_plen r \<le> 128)"

lemma add_route_routes_ok:
  assumes "routes_ok rts"
  shows "routes_ok (fst (add_route rts x now))"
proof (cases "rt_plen x = 0 \<or> rt_plen x > 128")
  case True
  then show ?thesis using assms by (simp add: add_route_def)
next
  case False
  let ?ys = "fst (add_route_loop rts x now 0 None)"
  have d: "distinct (map rt_key rts)" and l: "length rts \<le> NM_NDISC_SIZE_MAX_ROUTES"
    using assms by (simp_all add: routes_ok_def)
  have "0 < rt_plen r \<and> rt_plen r \<le> 128" if "r \<in> set ?ys" for r
  proof (cases "rt_key r = rt_key x")
    case True
    then show ?thesis using False by (simp add: rt_key_def)
  next
    case ne: False
    then have "r \<in> set rts" using rt_store.add_others [OF d, of x now] that by blast
    then show ?thesis using assms by (simp add: routes_ok_def)
  qed
  with False show ?thesis
    using rt_store.add_distinct [OF d, of x now] rt_store.add_cap [OF d l, of x now]
    by (simp add: add_route_def routes_ok_def)
qed

text \<open>
  Merging a route keeps the array well-formed (one entry per network, prefix length and
  on-link flag, at most 1000 entries, prefix lengths 1 to 128). Afterwards the entry of the key
  carries the received gateway, expiry and preference, or is gone when the route was withdrawn;
  other routes are untouched and the return value tells whether the array changed.
\<close>

theorem nm_ndisc_add_route_correct:
  assumes "routes_ok rts" "0 < rt_plen x" "rt_plen x \<le> 128"
  shows "(case add_route rts x now of (rts', changed) \<Rightarrow>
    routes_ok rts' \<and>
    rt_view ` {r \<in> set rts'. rt_key r = rt_key x} =
      (if rt_expiry_msec x \<le> now then {}
       else if rt_key x \<in> rt_key ` set rts \<or> length rts < NM_NDISC_SIZE_MAX_ROUTES then {rt_view x}
       else {}) \<and>
    {r \<in> set rts'. rt_key r \<noteq> rt_key x} = {r \<in> set rts. rt_key r \<noteq> rt_key x} \<and>
    (changed \<longleftrightarrow> rts' \<noteq> rts))"
proof -
  have d: "distinct (map rt_key rts)" and l: "length rts \<le> NM_NDISC_SIZE_MAX_ROUTES"
    using assms(1) by (simp_all add: routes_ok_def)
  show ?thesis
    using add_route_routes_ok [OF assms(1), of x now] assms(2,3)
      rt_store.add_same [OF d l, of x now] rt_store.add_others [OF d, of x now]
      rt_store.add_changed [OF d l, of x now]
    by (simp add: add_route_def case_prod_beta)
qed

abbreviation example_route :: "u8 \<Rightarrow> NMIcmpv6RouterPref \<Rightarrow> NMNDiscRoute" where
  "example_route b p \<equiv>
     \<lparr>rt_network = example_addr b, rt_gateway = example_addr 9, rt_expiry_msec = 5000,
      rt_preference = p, rt_plen = 64, rt_on_link = False, rt_duplicate = False\<rparr>"

theorem nm_ndisc_add_route_correct_witness:
  "(case add_route [example_route 1 NM_ICMPV6_ROUTER_PREF_HIGH]
      ((example_route 1 NM_ICMPV6_ROUTER_PREF_HIGH)\<lparr>rt_expiry_msec := 500\<rparr>) 1000 of (rts', changed) \<Rightarrow>
    routes_ok rts' \<and> {r \<in> set rts'. rt_key r = (example_addr 1, 64, False)} = {} \<and>
    (changed \<longleftrightarrow> rts' \<noteq> [example_route 1 NM_ICMPV6_ROUTER_PREF_HIGH]))"
  using nm_ndisc_add_route_correct [of "[example_route 1 NM_ICMPV6_ROUTER_PREF_HIGH]"
      "(example_route 1 NM_ICMPV6_ROUTER_PREF_HIGH)\<lparr>rt_expiry_msec := 500\<rparr>" 1000]
  by (simp add: routes_ok_def rt_key_def case_prod_beta)

text \<open>
  Where a new route goes: right before the first route that is less preferred, and when there
  is none at the very front of the array. So a route of low preference that arrives after routes of
  higher preference is listed before them: unlike the gateways, routes are not kept in the order of
  preference.
\<close>

theorem nm_ndisc_add_route_position:
  assumes "rt_key x \<notin> rt_key ` set rts" "length rts < NM_NDISC_SIZE_MAX_ROUTES"
    "now < rt_expiry_msec x" "0 < rt_plen x" "rt_plen x \<le> 128"
  shows "add_route rts x now =
    (if \<exists>r\<in>set rts. rt_prio r < rt_prio x
     then (takeWhile (\<lambda>r. rt_prio x \<le> rt_prio r) rts @ x # dropWhile (\<lambda>r. rt_prio x \<le> rt_prio r) rts, True)
     else (x # rts, True))"
  using assms insert_val_takeWhile [of rts "\<lambda>r. rt_prio x \<le> rt_prio r" x]
  by (cases "\<exists>r\<in>set rts. rt_prio r < rt_prio x")
    (auto simp: add_route_def add_route_loop_absent rt_pos_def first_idx_takeWhile not_less
      g_array_insert_val_def)

theorem nm_ndisc_add_route_position_witness:
  "add_route [example_route 1 NM_ICMPV6_ROUTER_PREF_HIGH] (example_route 2 NM_ICMPV6_ROUTER_PREF_LOW) 1000 =
    ([example_route 2 NM_ICMPV6_ROUTER_PREF_LOW, example_route 1 NM_ICMPV6_ROUTER_PREF_HIGH], True)"
  by (subst nm_ndisc_add_route_position) (simp_all add: rt_key_def preference_to_priority_def)

section \<open>Expiry\<close>

text \<open>
  A lifetime of a router advertisement survives the conversion to an absolute expiry and back:
  \<open>d\<close> milliseconds later the remaining lifetime, rounded up, is the received one less the whole
  seconds that went by (and never negative); an infinite lifetime stays infinite. The result always
  fits the 32-bit field it is stored in.
\<close>

theorem ndisc_lifetime_roundtrip:
  assumes "0 \<le> now" "now < 2 ^ 62" "0 \<le> d"
  shows "nm_ndisc_lifetime_from_expiry (now + d) (nm_ndisc_lifetime_to_expiry now lifetime) True =
    (if lifetime = NM_NDISC_INFINITY_U32 then uint lifetime else max 0 (uint lifetime - d div 1000))"
proof (cases "lifetime = NM_NDISC_INFINITY_U32")
  case True
  then show ?thesis
    by (simp add: nm_ndisc_lifetime_to_expiry_def nm_ndisc_lifetime_from_expiry_def)
next
  case False
  have "uint lifetime < 2 ^ 32" using uint_lt2p [of lifetime] by simp
  moreover have "uint lifetime \<noteq> 2 ^ 32 - 1"
  proof
    assume "uint lifetime = 2 ^ 32 - 1"
    then have "uint lifetime = uint (- 1 :: u32)" by (simp add: unsigned_minus_1_eq_mask mask_eq_exp_minus_1)
    with False show False by (simp only: word_uint_eq_iff)
  qed
  ultimately have l: "0 \<le> uint lifetime" "uint lifetime \<le> 4294967294" by simp_all
  have e: "now + uint lifetime * 1000 \<noteq> NM_NDISC_EXPIRY_INFINITY" using assms l by simp
  define q r where "q = d div 1000" and "r = d mod 1000"
  have r: "0 \<le> r" "r < 1000" "d = 1000 * q + r" "0 \<le> q" using assms(3) by (simp_all add: q_def r_def)
  have "(uint lifetime * 1000 - d + 999) div 1000 = ((999 - r) + (uint lifetime - q) * 1000) div 1000"
    unfolding r(3) by (simp add: algebra_simps)
  also have "\<dots> = uint lifetime - q" using r(1,2) by (subst div_mult_self1) simp_all
  finally have "c_div (now + uint lifetime * 1000 - (now + d) + 999) 1000 = uint lifetime - q"
    if "d < uint lifetime * 1000"
    using that by simp
  moreover have "uint lifetime \<le> q \<longleftrightarrow> uint lifetime * 1000 \<le> d" using r by linarith
  ultimately show ?thesis
    using False e l r(4) unfolding q_def [symmetric]
    by (simp add: nm_ndisc_lifetime_to_expiry_def nm_ndisc_lifetime_from_expiry_def Let_def) linarith
qed

theorem ndisc_lifetime_roundtrip_witness:
  "nm_ndisc_lifetime_from_expiry (1000000 + 2500) (nm_ndisc_lifetime_to_expiry 1000000 1800) True = 1798"
  using ndisc_lifetime_roundtrip [of 1000000 2500 1800] by simp

section \<open>The compaction loops\<close>

definition alive :: "int \<Rightarrow> int \<Rightarrow> bool" where
  "alive now expiry \<longleftrightarrow> expiry = NM_NDISC_EXPIRY_INFINITY \<or> now < expiry"

text \<open>The earliest finite expiry among the given ones, or \<open>n\<close>.\<close>

definition min_expiry :: "int \<Rightarrow> int list \<Rightarrow> int" where
  "min_expiry n es = fold min (filter (\<lambda>e. e \<noteq> NM_NDISC_EXPIRY_INFINITY) es) n"

lemma expiry_next_alive:
  "expiry_next now e n =
     (alive now e, if alive now e \<and> e \<noteq> NM_NDISC_EXPIRY_INFINITY then min e n else n)"
  by (auto simp: expiry_next_def alive_def min_def)

lemma clean_loop_correct:
  assumes "j \<le> i" "i \<le> length arr"
  shows "\<exists>arr'. clean_loop expiry now arr i j n =
      (arr', length arr, j + length (filter (alive now \<circ> expiry) (drop i arr)),
       min_expiry n (map expiry (filter (alive now \<circ> expiry) (drop i arr)))) \<and>
    length arr' = length arr \<and>
    take (j + length (filter (alive now \<circ> expiry) (drop i arr))) arr' =
      take j arr @ filter (alive now \<circ> expiry) (drop i arr)"
  using assms
proof (induction "length arr - i" arbitrary: arr i j n rule: less_induct)
  case less
  show ?case
  proof (cases "i < length arr")
    case False
    then show ?thesis using less.prems by (simp add: clean_loop.simps min_expiry_def)
  next
    case True
    have d: "drop i arr = arr ! i # drop (Suc i) arr" using True by (simp add: Cons_nth_drop_Suc)
    show ?thesis
    proof (cases "alive now (expiry (arr ! i))")
      case False
      with less.hyps [of arr "Suc i" j n] True less.prems d show ?thesis
        by (subst clean_loop.simps) (simp add: expiry_next_alive)
    next
      case al: True
      let ?arr = "if i \<noteq> j then arr[j := arr ! i] else arr"
      let ?n = "if expiry (arr ! i) \<noteq> NM_NDISC_EXPIRY_INFINITY then min (expiry (arr ! i)) n else n"
      have dr: "drop (Suc i) ?arr = drop (Suc i) arr" "length ?arr = length arr" "length arr - Suc i < length arr - i"
        using less.prems True by simp_all
      have tk: "take (Suc j) ?arr = take j arr @ [arr ! i]"
        using less.prems True by (auto simp: take_Suc_conv_app_nth)
      have step: "clean_loop expiry now arr i j n = clean_loop expiry now ?arr (Suc i) (Suc j) ?n"
        using True al by (subst clean_loop.simps) (simp add: expiry_next_alive)
      have "min_expiry ?n es = min_expiry n (expiry (arr ! i) # es)" for es
        by (simp add: min_expiry_def)
      then show ?thesis
        using less.hyps [of ?arr "Suc i" "Suc j" ?n] less.prems True al d
        unfolding step dr tk by simp
    qed
  qed
qed

lemma length_filter_eq: "length (filter P xs) = length xs \<longleftrightarrow> filter P xs = xs"
  by (metis filter_True filter_id_conv length_filter_less nat_neq_iff)

text \<open>The loop from the start, with the truncation that follows it.\<close>

lemma clean_array:
  assumes "clean_loop expiry now arr 0 0 n = (arr', i, j, n')"
  shows "(if i \<noteq> j then take j arr' else arr') = filter (alive now \<circ> expiry) arr"
    and "i \<noteq> j \<longleftrightarrow> filter (alive now \<circ> expiry) arr \<noteq> arr"
    and "n' = min_expiry n (map expiry (filter (alive now \<circ> expiry) arr))"
  using clean_loop_correct [of 0 0 arr expiry now n] assms
  by (auto simp: length_filter_eq [symmetric] simp del: length_filter_conv_card)

text \<open>The strings, leaving out null pointers.\<close>

definition owned :: "string option list \<Rightarrow> string option multiset" where
  "owned ps = mset (filter (\<lambda>p. p \<noteq> None) ps)"

lemma owned_append [simp]: "owned (xs @ ys) = owned xs + owned ys"
  by (simp add: owned_def)

lemma owned_mset: "owned ps = {#p \<in># mset ps. p \<noteq> None#}"
  by (simp add: owned_def mset_filter)

lemma move_domain:
  assumes "i < length arr" "j < length arr" "i \<noteq> j"
  shows "owned (map dd_domain (arr[j := arr ! i, i := (arr ! i)\<lparr>dd_domain := None\<rparr>])) +
    owned [dd_domain (arr ! j)] = owned (map dd_domain arr)"
proof -
  let ?ds = "map dd_domain arr"
  have eq: "map dd_domain (arr[j := arr ! i, i := (arr ! i)\<lparr>dd_domain := None\<rparr>]) =
      (?ds[i := ?ds ! j, j := ?ds ! i])[i := None]"
    using assms by (intro nth_equalityI) (auto simp: nth_list_update)
  have "mset ((?ds[i := ?ds ! j, j := ?ds ! i])[i := None]) =
      add_mset None (mset ?ds - {#?ds ! j#})"
    using assms by (simp add: mset_update mset_list_swap)
  moreover have "?ds ! j \<in># mset ?ds" using assms by simp
  ultimately have "add_mset (?ds ! j) (mset ((?ds[i := ?ds ! j, j := ?ds ! i])[i := None])) =
      add_mset None (mset ?ds)"
    by simp
  then have "filter_mset (\<lambda>p. p \<noteq> None) (add_mset (?ds ! j) (mset ((?ds[i := ?ds ! j, j := ?ds ! i])[i := None]))) =
      filter_mset (\<lambda>p. p \<noteq> None) (add_mset None (mset ?ds))"
    by simp
  then show ?thesis
    unfolding eq owned_mset using assms(2) by (auto split: if_splits)
qed

lemma clean_dns_domains_loop_correct:
  assumes "j \<le> i" "i \<le> length arr"
  shows "\<exists>arr' freed'. clean_dns_domains_loop now arr i j n freed =
      (arr', length arr, j + length (filter (alive now \<circ> dd_expiry_msec) (drop i arr)),
       min_expiry n (map dd_expiry_msec (filter (alive now \<circ> dd_expiry_msec) (drop i arr))), freed') \<and>
    length arr' = length arr \<and>
    take (j + length (filter (alive now \<circ> dd_expiry_msec) (drop i arr))) arr' =
      take j arr @ filter (alive now \<circ> dd_expiry_msec) (drop i arr) \<and>
    owned freed' + owned (map dd_domain arr') = owned freed + owned (map dd_domain arr)"
  using assms
proof (induction "length arr - i" arbitrary: arr i j n freed rule: less_induct)
  case less
  let ?e = dd_expiry_msec
  show ?case
  proof (cases "i < length arr")
    case False
    then show ?thesis using less.prems by (simp add: clean_dns_domains_loop.simps min_expiry_def)
  next
    case True
    have d: "drop i arr = arr ! i # drop (Suc i) arr" using True by (simp add: Cons_nth_drop_Suc)
    show ?thesis
    proof (cases "alive now (?e (arr ! i))")
      case False
      with less.hyps [of arr "Suc i" j n freed] True less.prems d show ?thesis
        by (subst clean_dns_domains_loop.simps) (simp add: expiry_next_alive)
    next
      case al: True
      let ?arr = "if i \<noteq> j then arr[j := arr ! i, i := (arr ! i)\<lparr>dd_domain := None\<rparr>] else arr"
      let ?n = "if ?e (arr ! i) \<noteq> NM_NDISC_EXPIRY_INFINITY then min (?e (arr ! i)) n else n"
      let ?freed = "if i \<noteq> j then freed @ [dd_domain (arr ! j)] else freed"
      have dr: "drop (Suc i) ?arr = drop (Suc i) arr" "length ?arr = length arr" "length arr - Suc i < length arr - i"
        using less.prems True by simp_all
      have tk: "take (Suc j) ?arr = take j arr @ [arr ! i]"
        using less.prems True by (auto simp: take_Suc_conv_app_nth)
      have step: "clean_dns_domains_loop now arr i j n freed =
          clean_dns_domains_loop now ?arr (Suc i) (Suc j) ?n ?freed"
        using True al by (subst clean_dns_domains_loop.simps) (simp add: expiry_next_alive)
      have mn: "min_expiry ?n es = min_expiry n (?e (arr ! i) # es)" for es
        by (simp add: min_expiry_def)
      have ow: "owned ?freed + owned (map dd_domain ?arr) = owned freed + owned (map dd_domain arr)"
        using move_domain [of i arr j] less.prems True by (auto simp: ac_simps)
      show ?thesis
        using less.hyps [of ?arr "Suc i" "Suc j" ?n ?freed] less.prems True al d
        unfolding step dr tk mn ow by simp
    qed
  qed
qed

end
