(* ===== verification/NM_NDisc.thy ===== *)
theory NM_NDisc
  imports NM_NDisc_Store
begin

text \<open>
  The neighbor discovery object of \<^verbatim>\<open>src/core/ndisc/nm-ndisc.c\<close>: the state
  \<^verbatim>\<open>NMNDiscPrivate\<close> with its timers and its handlers.

  A timer source is \<open>None\<close> when it is not armed and otherwise its timeout in milliseconds. What a
  handler reads from outside is an argument: the monotonic clock, random numbers, whether the
  network namespace could be entered (\<open>netns_ok\<close>), the error of the virtual functions
  \<^verbatim>\<open>send_rs\<close> and \<^verbatim>\<open>send_ra\<close>, and \<open>gen\<close>, the generator of stable
  privacy interface identifiers. Emitted signals are appended to \<open>signals\<close>. The
  \<^verbatim>\<open>NML3ConfigData\<close> handed out with the signal is the sequence of what is put into it.
  Logging is left out.
\<close>

section \<open>Types\<close>

datatype NMNDiscDHCPLevel =
  NM_NDISC_DHCP_LEVEL_UNKNOWN
| NM_NDISC_DHCP_LEVEL_NONE
| NM_NDISC_DHCP_LEVEL_OTHERCONF
| NM_NDISC_DHCP_LEVEL_MANAGED

primrec dhcp_level_num :: "NMNDiscDHCPLevel \<Rightarrow> nat" where
  "dhcp_level_num NM_NDISC_DHCP_LEVEL_UNKNOWN = 0"
| "dhcp_level_num NM_NDISC_DHCP_LEVEL_NONE = 1"
| "dhcp_level_num NM_NDISC_DHCP_LEVEL_OTHERCONF = 2"
| "dhcp_level_num NM_NDISC_DHCP_LEVEL_MANAGED = 3"

instantiation NMNDiscDHCPLevel :: linorder
begin

definition less_eq_NMNDiscDHCPLevel :: "NMNDiscDHCPLevel \<Rightarrow> NMNDiscDHCPLevel \<Rightarrow> bool" where
  "less_eq_NMNDiscDHCPLevel a b \<longleftrightarrow> dhcp_level_num a \<le> dhcp_level_num b"

definition less_NMNDiscDHCPLevel :: "NMNDiscDHCPLevel \<Rightarrow> NMNDiscDHCPLevel \<Rightarrow> bool" where
  "less_NMNDiscDHCPLevel a b \<longleftrightarrow> dhcp_level_num a < dhcp_level_num b"

instance
proof
  fix a b :: NMNDiscDHCPLevel
  show "a \<le> b \<Longrightarrow> b \<le> a \<Longrightarrow> a = b"
    by (cases a; cases b) (simp_all add: less_eq_NMNDiscDHCPLevel_def)
qed (auto simp: less_eq_NMNDiscDHCPLevel_def less_NMNDiscDHCPLevel_def)

end

datatype NMNDiscConfigFlag =
  NM_NDISC_CONFIG_DHCP_LEVEL
| NM_NDISC_CONFIG_GATEWAYS
| NM_NDISC_CONFIG_ADDRESSES
| NM_NDISC_CONFIG_ROUTES
| NM_NDISC_CONFIG_DNS_SERVERS
| NM_NDISC_CONFIG_DNS_DOMAINS
| NM_NDISC_CONFIG_HOP_LIMIT
| NM_NDISC_CONFIG_MTU
| NM_NDISC_CONFIG_REACHABLE_TIME
| NM_NDISC_CONFIG_RETRANS_TIMER

type_synonym NMNDiscConfigMap = "NMNDiscConfigFlag set"

datatype NMNDiscNodeType =
  NM_NDISC_NODE_TYPE_INVALID | NM_NDISC_NODE_TYPE_HOST | NM_NDISC_NODE_TYPE_ROUTER

datatype NMSettingIP6ConfigAddrGenMode =
  NM_SETTING_IP6_CONFIG_ADDR_GEN_MODE_EUI64 | NM_SETTING_IP6_CONFIG_ADDR_GEN_MODE_STABLE_PRIVACY

datatype NMSettingIP6ConfigPrivacy =
  NM_SETTING_IP6_CONFIG_PRIVACY_UNKNOWN
| NM_SETTING_IP6_CONFIG_PRIVACY_DISABLED
| NM_SETTING_IP6_CONFIG_PRIVACY_PREFER_PUBLIC_ADDR
| NM_SETTING_IP6_CONFIG_PRIVACY_PREFER_TEMP_ADDR

record NMNDiscConfig =
  c_ifname :: string
  c_network_id :: string
  c_max_addresses :: int
  c_router_solicitations :: int
  c_router_solicitation_interval :: int
  c_ra_timeout :: int
  c_stable_type :: nat
  c_addr_gen_mode :: NMSettingIP6ConfigAddrGenMode
  c_node_type :: NMNDiscNodeType
  c_ip6_privacy :: NMSettingIP6ConfigPrivacy

type_synonym stable_generator = "NMNDiscConfig \<Rightarrow> in6_addr \<Rightarrow> nat \<Rightarrow> in6_addr"

record NDiscL3Address =
  la_address :: in6_addr
  la_plen :: nat
  la_timestamp :: int
  la_lifetime :: int
  la_preferred :: int
  la_n_ifa_flags :: u32

record NDiscL3Route =
  lr_network :: in6_addr
  lr_plen :: nat
  lr_gateway :: in6_addr
  lr_metric :: nat
  lr_rt_pref :: NMIcmpv6RouterPref

record NDiscL3cd =
  l_addresses :: "NDiscL3Address list"
  l_routes :: "NDiscL3Route list"
  l_nameservers :: "in6_addr list"
  l_searches :: "string option list"
  l_hop_limit :: int
  l_reachable_time_ms :: u32
  l_retrans_timer_ms :: u32
  l_mtu :: u32
  l_ip6_privacy :: NMSettingIP6ConfigPrivacy
  l_ip6_token :: "u8 list option"

datatype ndisc_signal =
  CONFIG_RECEIVED NMNDiscConfigMap "NDiscL3cd option"
| RA_TIMEOUT_SIGNAL

record NMNDisc =
  dhcp_level :: NMNDiscDHCPLevel
  mtu :: u32
  hop_limit :: int
  reachable_time_ms :: u32
  retrans_timer_ms :: u32
  gateways :: "NMNDiscGateway list"
  addresses :: "NMNDiscAddress list"
  routes :: "NMNDiscRoute list"
  dns_servers :: "NMNDiscDNSServer list"
  dns_domains :: "NMNDiscDNSDomain list"
  l3cd :: "NDiscL3cd option"
  last_error :: "string option"
  ra_timeout_source :: "int option"
  announcements_left :: int
  send_ra_id :: "int option"
  last_ra :: int
  solicit_retransmit_time_msec :: int
  last_rs_msec :: int
  solicit_timer_source :: "int option"
  timeout_expire_source :: "int option"
  iid :: "u8 list"
  iid_is_token :: bool
  config :: NMNDiscConfig
  signals :: "ndisc_signal list"

abbreviation RFC7559_IRT :: int where "RFC7559_IRT \<equiv> 4"
abbreviation RFC7559_MRT :: int where "RFC7559_MRT \<equiv> 3600"
abbreviation NM_NDISC_PRE_EXPIRY_TIME_MSEC :: int where "NM_NDISC_PRE_EXPIRY_TIME_MSEC \<equiv> 60000"
abbreviation NM_NDISC_PRE_EXPIRY_MIN_LIFETIME_MSEC :: int where
  "NM_NDISC_PRE_EXPIRY_MIN_LIFETIME_MSEC \<equiv> 120000"
abbreviation NM_NDISC_SIZE_MAX_ADDRESSES :: int where "NM_NDISC_SIZE_MAX_ADDRESSES \<equiv> 100"
abbreviation NM_NDISC_ROUTER_ADVERTISEMENTS_DEFAULT :: int where
  "NM_NDISC_ROUTER_ADVERTISEMENTS_DEFAULT \<equiv> 3"
abbreviation NM_NDISC_ROUTER_ADVERT_DELAY :: int where "NM_NDISC_ROUTER_ADVERT_DELAY \<equiv> 3"
abbreviation NM_NDISC_ROUTER_ADVERT_INITIAL_INTERVAL :: int where
  "NM_NDISC_ROUTER_ADVERT_INITIAL_INTERVAL \<equiv> 16"
abbreviation NM_NDISC_ROUTER_ADVERT_DELAY_MS :: int where "NM_NDISC_ROUTER_ADVERT_DELAY_MS \<equiv> 500"
abbreviation NM_NDISC_ROUTER_ADVERT_MAX_INTERVAL :: int where
  "NM_NDISC_ROUTER_ADVERT_MAX_INTERVAL \<equiv> 600"
abbreviation NM_NDISC_ROUTER_LIFETIME :: u32 where "NM_NDISC_ROUTER_LIFETIME \<equiv> 900"
abbreviation NM_STABLE_PRIVACY_RFC7217_IDGEN_RETRIES :: nat where
  "NM_STABLE_PRIVACY_RFC7217_IDGEN_RETRIES \<equiv> 3"
abbreviation NM_RA_TIMEOUT_INFINITY :: int where "NM_RA_TIMEOUT_INFINITY \<equiv> G_MAXINT32"

section \<open>Publishing the collected data\<close>

definition is_duplicate_route :: "NMNDiscRoute \<Rightarrow> NMNDiscRoute \<Rightarrow> bool" where
  "is_duplicate_route r0 r1 \<longleftrightarrow> rt_network r0 = rt_network r1 \<and> rt_plen r0 = rt_plen r1"

function (sequential) prepare_routes_loop :: "NMNDiscRoute list \<Rightarrow> nat \<Rightarrow> NMNDiscRoute list" where
  "prepare_routes_loop rts i =
     (if i < length rts then
        (case first_idx (is_duplicate_route (rts ! i)) (drop (i + 1) rts) of
           None \<Rightarrow> prepare_routes_loop rts (i + 1)
         | Some k \<Rightarrow>
             (let j = i + 1 + k;
                  rts = rts[i := (rts ! i)\<lparr>rt_duplicate := True\<rparr>];
                  rts = rts[j := (rts ! j)\<lparr>rt_duplicate := True\<rparr>]
              in prepare_routes_loop rts (i + 1)))
      else rts)"
  by pat_completeness auto

termination prepare_routes_loop
  by (relation "measure (\<lambda>(rts, i). length rts - i)") (auto simp: Let_def)

definition data_complete_prepare_routes :: "NMNDiscRoute list \<Rightarrow> NMNDiscRoute list" where
  "data_complete_prepare_routes rts =
     prepare_routes_loop (map (\<lambda>r. r\<lparr>rt_duplicate := False\<rparr>) rts) 0"

declare prepare_routes_loop.simps [simp del]

abbreviation IFA_F_MANAGETEMPADDR :: u32 where "IFA_F_MANAGETEMPADDR \<equiv> 0x100"
abbreviation IFA_F_NOPREFIXROUTE :: u32 where "IFA_F_NOPREFIXROUTE \<equiv> 0x200"

definition l3_address_of :: "int \<Rightarrow> u32 \<Rightarrow> NMNDiscAddress \<Rightarrow> NDiscL3Address" where
  "l3_address_of now_msec ifa_flags a =
     \<lparr>la_address = ad_address a, la_plen = 64, la_timestamp = c_div now_msec 1000,
      la_lifetime = nm_ndisc_lifetime_from_expiry now_msec (ad_expiry_msec a) True,
      la_preferred =
        nm_ndisc_lifetime_from_expiry now_msec (min (ad_expiry_msec a) (ad_expiry_preferred_msec a)) True,
      la_n_ifa_flags = ifa_flags\<rparr>"

definition l3_route_of :: "NMNDiscRoute \<Rightarrow> NDiscL3Route" where
  "l3_route_of r =
     \<lparr>lr_network = rt_network r, lr_plen = rt_plen r, lr_gateway = rt_gateway r,
      lr_metric = (if rt_duplicate r \<and> \<not> rt_on_link r then 5 else 0),
      lr_rt_pref = rt_preference r\<rparr>"

definition l3_default_route_of :: "NMNDiscGateway \<Rightarrow> NDiscL3Route" where
  "l3_default_route_of g =
     \<lparr>lr_network = replicate 16 0, lr_plen = 0, lr_gateway = gw_address g, lr_metric = 0,
      lr_rt_pref = gw_preference g\<rparr>"

definition nm_ndisc_data_to_l3cd ::
    "NMNDisc \<Rightarrow> NMSettingIP6ConfigPrivacy \<Rightarrow> u8 list option \<Rightarrow> int \<Rightarrow> NDiscL3cd" where
  "nm_ndisc_data_to_l3cd nd ip6_privacy token now_msec =
     (let ifa_flags =
        (if ip6_privacy = NM_SETTING_IP6_CONFIG_PRIVACY_PREFER_TEMP_ADDR \<or>
            ip6_privacy = NM_SETTING_IP6_CONFIG_PRIVACY_PREFER_PUBLIC_ADDR
         then IFA_F_NOPREFIXROUTE OR IFA_F_MANAGETEMPADDR else IFA_F_NOPREFIXROUTE)
      in
      \<lparr>l_addresses = map (l3_address_of now_msec ifa_flags) (addresses nd),
       l_routes = map l3_route_of (routes nd) @ map l3_default_route_of (gateways nd),
       l_nameservers = map ds_address (dns_servers nd),
       l_searches = map dd_domain (dns_domains nd),
       l_hop_limit = hop_limit nd, l_reachable_time_ms = reachable_time_ms nd,
       l_retrans_timer_ms = retrans_timer_ms nd, l_mtu = mtu nd,
       l_ip6_privacy = ip6_privacy, l_ip6_token = token\<rparr>)"

definition nm_ndisc_emit_config_change :: "NMNDisc \<Rightarrow> NMNDiscConfigMap \<Rightarrow> int \<Rightarrow> NMNDisc" where
  "nm_ndisc_emit_config_change nd changed now_msec =
     (let nd = nd\<lparr>routes := data_complete_prepare_routes (routes nd)\<rparr>;
          new = nm_ndisc_data_to_l3cd nd (c_ip6_privacy (config nd))
                  (if iid_is_token nd then Some (iid nd) else None) now_msec;
          nd = (if l3cd nd \<noteq> Some new then nd\<lparr>l3cd := Some new\<rparr> else nd)
      in nd\<lparr>signals := signals nd @ [CONFIG_RECEIVED changed (l3cd nd)]\<rparr>)"

section \<open>Merging received items\<close>

definition nm_ndisc_add_gateway :: "NMNDisc \<Rightarrow> NMNDiscGateway \<Rightarrow> int \<Rightarrow> NMNDisc \<times> bool" where
  "nm_ndisc_add_gateway nd new_item now_msec =
     (case add_gateway (gateways nd) new_item now_msec of (gws, ch) \<Rightarrow> (nd\<lparr>gateways := gws\<rparr>, ch))"

definition nm_ndisc_add_route :: "NMNDisc \<Rightarrow> NMNDiscRoute \<Rightarrow> int \<Rightarrow> NMNDisc \<times> bool" where
  "nm_ndisc_add_route nd new_item now_msec =
     (case add_route (routes nd) new_item now_msec of (rts, ch) \<Rightarrow> (nd\<lparr>routes := rts\<rparr>, ch))"

definition nm_ndisc_add_dns_server :: "NMNDisc \<Rightarrow> NMNDiscDNSServer \<Rightarrow> int \<Rightarrow> NMNDisc \<times> bool" where
  "nm_ndisc_add_dns_server nd new_item now_msec =
     (case add_dns_server (dns_servers nd) new_item now_msec of (dss, ch) \<Rightarrow> (nd\<lparr>dns_servers := dss\<rparr>, ch))"

definition nm_ndisc_add_dns_domain :: "NMNDisc \<Rightarrow> NMNDiscDNSDomain \<Rightarrow> int \<Rightarrow> NMNDisc \<times> bool" where
  "nm_ndisc_add_dns_domain nd new_item now_msec =
     (case add_dns_domain (dns_domains nd) new_item now_msec of (dds, ch) \<Rightarrow> (nd\<lparr>dns_domains := dds\<rparr>, ch))"

definition nm_utils_ipv6_addr_set_interface_identifier :: "in6_addr \<Rightarrow> u8 list \<Rightarrow> in6_addr" where
  "nm_utils_ipv6_addr_set_interface_identifier addr id_u8 = take 8 addr @ id_u8"

definition nm_utils_ipv6_addr_set_stable_privacy_may_fail ::
    "stable_generator \<Rightarrow> NMNDiscConfig \<Rightarrow> in6_addr \<Rightarrow> nat \<Rightarrow> in6_addr option" where
  "nm_utils_ipv6_addr_set_stable_privacy_may_fail gen cfg addr dad_counter =
     (if NM_STABLE_PRIVACY_RFC7217_IDGEN_RETRIES \<le> dad_counter then None
      else Some (gen cfg addr dad_counter))"

definition complete_address ::
    "stable_generator \<Rightarrow> NMNDisc \<Rightarrow> NMNDiscAddress \<Rightarrow> NMNDiscAddress \<times> bool" where
  "complete_address gen nd addr =
     (if c_addr_gen_mode (config nd) = NM_SETTING_IP6_CONFIG_ADDR_GEN_MODE_STABLE_PRIVACY then
        (let r = nm_utils_ipv6_addr_set_stable_privacy_may_fail gen (config nd) (ad_address addr)
                   (unat (ad_dad_counter addr));
             addr = addr\<lparr>ad_dad_counter := ad_dad_counter addr + 1\<rparr> in
         case r of None \<Rightarrow> (addr, False) | Some a \<Rightarrow> (addr\<lparr>ad_address := a\<rparr>, True))
      else if \<forall>b\<in>set (iid nd). b = 0 then (addr, False)
      else if \<forall>b\<in>set (drop 8 (ad_address addr)). b = 0 then
        (addr\<lparr>ad_address := nm_utils_ipv6_addr_set_interface_identifier (ad_address addr) (iid nd)\<rparr>, True)
      else (addr, False))"

definition NDISC_PREFIX_LFT_MIN_MSEC :: int where
  "NDISC_PREFIX_LFT_MIN_MSEC = 7200 * 1000"

text \<open>The new expiry of an existing address when a router advertisement repeats its prefix.\<close>

definition ra_new_expiry :: "int \<Rightarrow> int \<Rightarrow> int \<Rightarrow> int" where
  "ra_new_expiry existing_expiry new_item_expiry now_msec =
     (if new_item_expiry = NM_NDISC_EXPIRY_INFINITY then NM_NDISC_EXPIRY_INFINITY
      else
        (let new_lifetime = new_item_expiry - now_msec;
             existing_lifetime =
               (if existing_expiry = NM_NDISC_EXPIRY_INFINITY then G_MAXINT64
                else existing_expiry - now_msec) in
         if new_lifetime \<ge> NDISC_PREFIX_LFT_MIN_MSEC \<or> new_lifetime \<ge> existing_lifetime
         then new_item_expiry
         else if existing_lifetime \<le> NDISC_PREFIX_LFT_MIN_MSEC then existing_expiry
         else now_msec + NDISC_PREFIX_LFT_MIN_MSEC))"

definition nm_ndisc_add_address ::
    "stable_generator \<Rightarrow> NMNDisc \<Rightarrow> NMNDiscAddress \<Rightarrow> int \<Rightarrow> bool \<Rightarrow> NMNDisc \<times> bool" where
  "nm_ndisc_add_address gen nd new_item now_msec from_ra =
     (let match = (\<lambda>item. if from_ra then take 8 (ad_address item) = take 8 (ad_address new_item)
                          else ad_address item = ad_address new_item) in
      case first_idx match (addresses nd) of
        Some i \<Rightarrow>
          (let existing = addresses nd ! i in
           if \<not> from_ra \<and> ad_expiry_msec new_item \<le> now_msec
           then (nd\<lparr>addresses := g_array_remove_index (addresses nd) i\<rparr>, True)
           else
             (let new_expiry_msec =
                    (if from_ra then ra_new_expiry (ad_expiry_msec existing) (ad_expiry_msec new_item) now_msec
                     else ad_expiry_msec new_item);
                  new_expiry_preferred_msec =
                    (if from_ra
                     then min (min (ad_expiry_preferred_msec new_item) (ad_expiry_msec new_item)) new_expiry_msec
                     else min (ad_expiry_preferred_msec new_item) (ad_expiry_msec new_item)) in
              if new_expiry_msec = ad_expiry_msec existing \<and>
                 new_expiry_preferred_msec = ad_expiry_preferred_msec existing
              then (nd, False)
              else
                (nd\<lparr>addresses := (addresses nd)[i := existing\<lparr>ad_expiry_msec := new_expiry_msec,
                                   ad_expiry_preferred_msec := new_expiry_preferred_msec\<rparr>]\<rparr>, True)))
      | None \<Rightarrow>
          if int (length (addresses nd)) \<ge> c_max_addresses (config nd) then (nd, False)
          else if ad_expiry_msec new_item \<le> now_msec then (nd, False)
          else
            (let new2 = new_item\<lparr>ad_expiry_preferred_msec :=
                          min (ad_expiry_preferred_msec new_item) (ad_expiry_msec new_item)\<rparr> in
             if from_ra then
               (case complete_address gen nd (new2\<lparr>ad_dad_counter := 0\<rparr>) of
                  (new2, ok) \<Rightarrow> if ok then (nd\<lparr>addresses := addresses nd @ [new2]\<rparr>, True) else (nd, False))
             else (nd\<lparr>addresses := addresses nd @ [new2]\<rparr>, True)))"

definition nm_ndisc_complete_and_add_address ::
    "stable_generator \<Rightarrow> NMNDisc \<Rightarrow> NMNDiscAddress \<Rightarrow> int \<Rightarrow> NMNDisc \<times> bool" where
  "nm_ndisc_complete_and_add_address gen nd new_item now_msec =
     nm_ndisc_add_address gen nd new_item now_msec True"

section \<open>Soliciting routers\<close>

definition solicit_retransmit_time_jitter :: "int \<Rightarrow> u32 \<Rightarrow> int" where
  "solicit_retransmit_time_jitter t rnd =
     (let ten_percent = max 1 (c_div t 10) in t - ten_percent + uint rnd mod (2 * ten_percent))"

text \<open>
  \<open>send\<close> is the error of \<^verbatim>\<open>send_rs\<close>, \<open>now_msec\<close> the clock after sending,
  \<open>r1\<close> and \<open>r2\<close> the random numbers of the two calls of the jitter function.
\<close>

definition solicit_timer_cb ::
    "NMNDisc \<Rightarrow> bool \<Rightarrow> string option \<Rightarrow> int \<Rightarrow> u32 \<Rightarrow> u32 \<Rightarrow> NMNDisc" where
  "solicit_timer_cb nd netns_ok send now_msec r1 r2 =
     (let error = (if \<not> netns_ok then Some ''failure to switch netns for soliciting routers'' else send);
          nd = (case error of
                  Some msg \<Rightarrow> nd\<lparr>last_error := Some msg\<rparr>
                | None \<Rightarrow> nd\<lparr>last_error := None, last_rs_msec := now_msec\<rparr>);
          (t, timeout_msec) =
            (if solicit_retransmit_time_msec nd = 0
             then (let t = solicit_retransmit_time_jitter (RFC7559_IRT * 1000) r1 in (t, t))
             else
               (let t = solicit_retransmit_time_msec nd
                          + solicit_retransmit_time_jitter (solicit_retransmit_time_msec nd) r1 in
                if t > RFC7559_MRT * 1000
                then (RFC7559_MRT * 1000, solicit_retransmit_time_jitter (RFC7559_MRT * 1000) r2)
                else (t, t)))
      in nd\<lparr>solicit_retransmit_time_msec := t, solicit_timer_source := Some timeout_msec\<rparr>)"

definition solicit_timer_start :: "NMNDisc \<Rightarrow> u32 \<Rightarrow> NMNDisc" where
  "solicit_timer_start nd rnd =
     nd\<lparr>solicit_retransmit_time_msec := 0, solicit_timer_source := Some (uint rnd mod (1 * 1000 div 4))\<rparr>"

section \<open>Announcing a router\<close>

text \<open>
  \<open>now_sec\<close> is the clock in seconds, \<open>send\<close> the error of \<^verbatim>\<open>send_ra\<close>, \<open>delay\<close> the
  result of the random number generator for the range the code asks for.
\<close>

definition announce_router :: "NMNDisc \<Rightarrow> bool \<Rightarrow> int \<Rightarrow> string option \<Rightarrow> int \<Rightarrow> NMNDisc" where
  "announce_router nd netns_ok now_sec send delay =
     (if \<not> netns_ok then nd
      else
        (let nd = nd\<lparr>last_ra := now_sec\<rparr>;
             nd = nd\<lparr>last_error := send\<rparr>;
             nd = nd\<lparr>announcements_left := announcements_left nd - 1\<rparr> in
         if announcements_left nd \<noteq> 0
         then nd\<lparr>send_ra_id := Some (delay * 1000)\<rparr>
         else nd\<lparr>announcements_left := 1, send_ra_id := Some (NM_NDISC_ROUTER_ADVERT_MAX_INTERVAL * 1000)\<rparr>))"

definition announce_router_initial :: "NMNDisc \<Rightarrow> int \<Rightarrow> int \<Rightarrow> NMNDisc" where
  "announce_router_initial nd now_sec delay =
     (let nd = nd\<lparr>announcements_left := NM_NDISC_ROUTER_ADVERTISEMENTS_DEFAULT\<rparr>;
          nd = (if gint32 (now_sec - last_ra nd) > NM_NDISC_ROUTER_ADVERT_DELAY then nd\<lparr>send_ra_id := None\<rparr> else nd)
      in if send_ra_id nd = None then nd\<lparr>send_ra_id := Some (delay * 1000)\<rparr> else nd)"

definition announce_router_solicited :: "NMNDisc \<Rightarrow> int \<Rightarrow> int \<Rightarrow> NMNDisc" where
  "announce_router_solicited nd now_sec delay_ms =
     (let nd = (if gint32 (now_sec - last_ra nd) > NM_NDISC_ROUTER_ADVERT_DELAY then nd\<lparr>send_ra_id := None\<rparr> else nd)
      in if send_ra_id nd = None then nd\<lparr>send_ra_id := Some delay_ms\<rparr> else nd)"

section \<open>Configuring what a router announces\<close>

definition nm_utils_get_monotonic_timestamp_sec_cached :: "int \<Rightarrow> int \<Rightarrow> int" where
  "nm_utils_get_monotonic_timestamp_sec_cached cache_now now_sec = (if cache_now \<noteq> 0 then cache_now else now_sec)"

abbreviation NM_PLATFORM_LIFETIME_PERMANENT :: u32 where
  "NM_PLATFORM_LIFETIME_PERMANENT \<equiv> - 1"

definition nmp_utils_lifetime_rebase_relative_time_on_now :: "u32 \<Rightarrow> u32 \<Rightarrow> int \<Rightarrow> u32" where
  "nmp_utils_lifetime_rebase_relative_time_on_now timestamp duration now =
     (if duration = NM_PLATFORM_LIFETIME_PERMANENT then NM_PLATFORM_LIFETIME_PERMANENT
      else
        (let timestamp = (if timestamp = 0 then word_of_int now else timestamp);
             t = uint timestamp + uint duration - now in
         if t \<le> 0 then 0
         else if t \<ge> uint NM_PLATFORM_LIFETIME_PERMANENT then NM_PLATFORM_LIFETIME_PERMANENT - 1
         else word_of_int t))"

text \<open>
  The remaining lifetime and preferred lifetime, with the cached clock after the call. The
  assertions that only report a warning return what is computed in any case.
\<close>

definition nmp_utils_lifetime_get ::
    "u32 \<Rightarrow> u32 \<Rightarrow> u32 \<Rightarrow> int \<Rightarrow> int \<Rightarrow> u32 \<times> u32 \<times> int" where
  "nmp_utils_lifetime_get timestamp lifetime preferred cached_now now_sec =
     (if timestamp = 0 \<and> lifetime = 0
      then (NM_PLATFORM_LIFETIME_PERMANENT, NM_PLATFORM_LIFETIME_PERMANENT, cached_now)
      else
        (let now = nm_utils_get_monotonic_timestamp_sec_cached cached_now now_sec;
             t_lifetime = nmp_utils_lifetime_rebase_relative_time_on_now timestamp lifetime now in
         if t_lifetime = 0 then (0, 0, now)
         else
           (let t_preferred = nmp_utils_lifetime_rebase_relative_time_on_now timestamp preferred now
            in (t_lifetime, min t_preferred t_lifetime, now))))"

record NMPlatformIP6Address =
  pa_address :: in6_addr
  pa_n_ifa_flags :: u32
  pa_plen :: nat
  pa_timestamp :: u32
  pa_lifetime :: u32
  pa_preferred :: u32

abbreviation IFA_F_DADFAILED :: u32 where "IFA_F_DADFAILED \<equiv> 0x08"
abbreviation IFA_F_TENTATIVE :: u32 where "IFA_F_TENTATIVE \<equiv> 0x40"

text \<open>One iteration of the loop over the addresses; the state, the flag \<open>changed\<close> and the cached clock.\<close>

definition set_config_address ::
    "stable_generator \<Rightarrow> int \<Rightarrow> NMPlatformIP6Address \<Rightarrow> NMNDisc \<times> bool \<times> int \<Rightarrow> NMNDisc \<times> bool \<times> int" where
  "set_config_address gen now_sec addr = (\<lambda>(nd, changed, fake_now).
     if IN6_IS_ADDR_UNSPECIFIED (pa_address addr) \<or> IN6_IS_ADDR_LINKLOCAL (pa_address addr)
     then (nd, changed, fake_now)
     else if pa_n_ifa_flags addr AND IFA_F_TENTATIVE \<noteq> 0 \<or> pa_n_ifa_flags addr AND IFA_F_DADFAILED \<noteq> 0
     then (nd, changed, fake_now)
     else if pa_plen addr \<noteq> 64 then (nd, changed, fake_now)
     else
       (case nmp_utils_lifetime_get (pa_timestamp addr) (pa_lifetime addr) (pa_preferred addr) fake_now now_sec of
          (lifetime, preferred, fake_now) \<Rightarrow>
            if lifetime = 0 then (nd, changed, fake_now)
            else
              (case nm_ndisc_add_address gen nd
                      \<lparr>ad_address = pa_address addr,
                       ad_expiry_msec = nm_ndisc_lifetime_to_expiry 0 lifetime,
                       ad_expiry_preferred_msec = nm_ndisc_lifetime_to_expiry 0 preferred,
                       ad_dad_counter = 0\<rparr> 0 False of
                 (nd, ch) \<Rightarrow> (nd, changed \<or> ch, fake_now))))"

definition set_config_nameserver ::
    "(string \<Rightarrow> in6_addr option) \<Rightarrow> string \<Rightarrow> NMNDisc \<times> bool \<Rightarrow> NMNDisc \<times> bool" where
  "set_config_nameserver dnsname_parse s = (\<lambda>(nd, changed).
     case dnsname_parse s of
       None \<Rightarrow> (nd, changed)
     | Some a \<Rightarrow>
         (case nm_ndisc_add_dns_server nd
                 \<lparr>ds_address = a, ds_expiry_msec = nm_ndisc_lifetime_to_expiry 0 NM_NDISC_ROUTER_LIFETIME\<rparr>
                 G_MININT64 of
            (nd, ch) \<Rightarrow> (nd, changed \<or> ch)))"

definition set_config_search :: "string \<Rightarrow> NMNDisc \<times> bool \<Rightarrow> NMNDisc \<times> bool" where
  "set_config_search s = (\<lambda>(nd, changed).
     case nm_ndisc_add_dns_domain nd
            \<lparr>dd_domain = Some s, dd_expiry_msec = nm_ndisc_lifetime_to_expiry 0 NM_NDISC_ROUTER_LIFETIME\<rparr>
            G_MININT64 of
       (nd, ch) \<Rightarrow> (nd, changed \<or> ch))"

definition nm_ndisc_set_config ::
    "stable_generator \<Rightarrow> (string \<Rightarrow> in6_addr option) \<Rightarrow> NMNDisc \<Rightarrow>
     NMPlatformIP6Address list \<Rightarrow> string list \<Rightarrow> string list \<Rightarrow> int \<Rightarrow> int \<Rightarrow> NMNDisc" where
  "nm_ndisc_set_config gen dnsname_parse nd addrs nameservers searches now_sec delay =
     (let (nd, changed, _) = fold (set_config_address gen now_sec) addrs (nd, False, 0);
          (nd, changed) = fold (set_config_nameserver dnsname_parse) nameservers (nd, changed);
          (nd, changed) = fold set_config_search searches (nd, changed)
      in if changed then announce_router_initial nd now_sec delay else nd)"

section \<open>Life cycle\<close>

definition nm_ndisc_set_iid ::
    "NMNDisc \<Rightarrow> u8 list \<Rightarrow> bool \<Rightarrow> int \<Rightarrow> u32 \<Rightarrow> NMNDisc \<times> bool" where
  "nm_ndisc_set_iid nd new_iid is_token now_msec rnd =
     (let nd = nd\<lparr>iid_is_token := is_token\<rparr> in
      if iid nd \<noteq> new_iid then
        (let nd = nd\<lparr>iid := new_iid\<rparr> in
         if c_addr_gen_mode (config nd) = NM_SETTING_IP6_CONFIG_ADDR_GEN_MODE_STABLE_PRIVACY
         then (nd, False)
         else if addresses nd \<noteq> [] then
           (let nd = nd\<lparr>addresses := []\<rparr>;
                nd = nm_ndisc_emit_config_change nd {NM_NDISC_CONFIG_ADDRESSES} now_msec
            in (solicit_timer_start nd rnd, True))
         else (nd, True))
      else (nd, False))"

definition ra_timeout_cb :: "NMNDisc \<Rightarrow> NMNDisc" where
  "ra_timeout_cb nd = nd\<lparr>ra_timeout_source := None, signals := signals nd @ [RA_TIMEOUT_SIGNAL]\<rparr>"

definition nm_ndisc_start :: "NMNDisc \<Rightarrow> bool \<Rightarrow> u32 \<Rightarrow> int \<Rightarrow> int \<Rightarrow> NMNDisc" where
  "nm_ndisc_start nd netns_ok rnd now_sec delay =
     (if \<not> netns_ok then nd
      else if c_node_type (config nd) = NM_NDISC_NODE_TYPE_HOST then
        (let nd =
           (if c_ra_timeout (config nd) < NM_RA_TIMEOUT_INFINITY then
              (let timeout_msec =
                 (if c_ra_timeout (config nd) < int (G_MAXUINT div 1000)
                  then c_ra_timeout (config nd) * 1000 else int G_MAXUINT)
               in nd\<lparr>ra_timeout_source := Some timeout_msec\<rparr>)
            else nd)
         in solicit_timer_start nd rnd)
      else announce_router_initial nd now_sec delay)"

definition nm_ndisc_stop :: "NMNDisc \<Rightarrow> bool \<Rightarrow> NMNDisc" where
  "nm_ndisc_stop nd netns_ok =
     (if \<not> netns_ok then nd
      else
        nd\<lparr>gateways := [], addresses := [], routes := [], dns_servers := [], dns_domains := [],
           hop_limit := 64, ra_timeout_source := None, send_ra_id := None, last_error := None,
           timeout_expire_source := None, solicit_retransmit_time_msec := 0,
           solicit_timer_source := None, announcements_left := 0, last_ra := G_MININT32\<rparr>)"

text \<open>The inner loop of \<open>nm_ndisc_dad_failed\<close>, over the addresses for one failed address.\<close>

function (sequential) dad_failed_loop ::
    "stable_generator \<Rightarrow> NMNDisc \<Rightarrow> in6_addr \<Rightarrow> nat \<Rightarrow> bool \<Rightarrow> NMNDisc \<times> bool" where
  "dad_failed_loop gen nd addr j changed =
     (if j < length (addresses nd) then
        (if ad_address (addresses nd ! j) = addr then
           (case complete_address gen nd (addresses nd ! j) of
              (item, ok) \<Rightarrow>
                if ok then dad_failed_loop gen (nd\<lparr>addresses := (addresses nd)[j := item]\<rparr>) addr (j + 1) True
                else dad_failed_loop gen (nd\<lparr>addresses := g_array_remove_index (addresses nd) j\<rparr>) addr j True)
         else dad_failed_loop gen nd addr (j + 1) changed)
      else (nd, changed))"
  by pat_completeness auto

termination dad_failed_loop
  by (relation "measure (\<lambda>(_, nd, _, j, _). length (addresses nd) - j)") auto

definition nm_ndisc_dad_failed ::
    "stable_generator \<Rightarrow> NMNDisc \<Rightarrow> in6_addr list \<Rightarrow> bool \<Rightarrow> int \<Rightarrow> NMNDisc \<times> NMNDiscConfigMap" where
  "nm_ndisc_dad_failed gen nd failed emit_changed_signal now_msec =
     (let (nd, changed) = fold (\<lambda>addr (nd, changed). dad_failed_loop gen nd addr 0 changed) failed (nd, False);
          nd = (if emit_changed_signal \<and> changed
                then nm_ndisc_emit_config_change nd {NM_NDISC_CONFIG_ADDRESSES} now_msec else nd)
      in (nd, if changed then {NM_NDISC_CONFIG_ADDRESSES} else {}))"

declare dad_failed_loop.simps [simp del]

definition config_map_to_string :: "NMNDiscConfigMap \<Rightarrow> string" where
  "config_map_to_string m =
     (if NM_NDISC_CONFIG_DHCP_LEVEL \<in> m then ''d'' else '''') @
     (if NM_NDISC_CONFIG_GATEWAYS \<in> m then ''G'' else '''') @
     (if NM_NDISC_CONFIG_ADDRESSES \<in> m then ''A'' else '''') @
     (if NM_NDISC_CONFIG_ROUTES \<in> m then ''R'' else '''') @
     (if NM_NDISC_CONFIG_DNS_SERVERS \<in> m then ''S'' else '''') @
     (if NM_NDISC_CONFIG_DNS_DOMAINS \<in> m then ''D'' else '''')"

section \<open>Expiry of collected data\<close>

text \<open>
  Each of the five functions takes and returns the state, the set of changes and the earliest
  expiry. All but the first truncate, as the code does, the array of gateways.
\<close>

definition clean_gateways ::
    "int \<Rightarrow> NMNDisc \<times> NMNDiscConfigMap \<times> int \<Rightarrow> NMNDisc \<times> NMNDiscConfigMap \<times> int" where
  "clean_gateways now_msec = (\<lambda>(nd, changed, next_msec).
     if gateways nd = [] then (nd, changed, next_msec)
     else
       (let (arr, i, j, next_msec) = clean_loop gw_expiry_msec now_msec (gateways nd) 0 0 next_msec;
            nd = nd\<lparr>gateways := arr\<rparr>;
            (nd, changed) =
              (if i \<noteq> j then (nd\<lparr>gateways := take j (gateways nd)\<rparr>, changed \<union> {NM_NDISC_CONFIG_GATEWAYS})
               else (nd, changed));
            (gws, trimmed) = array_set_size_max (gateways nd) NM_NDISC_SIZE_MAX_GATEWAYS
        in (nd\<lparr>gateways := gws\<rparr>, if trimmed then changed \<union> {NM_NDISC_CONFIG_GATEWAYS} else changed, next_msec)))"

definition clean_addresses ::
    "int \<Rightarrow> NMNDisc \<times> NMNDiscConfigMap \<times> int \<Rightarrow> NMNDisc \<times> NMNDiscConfigMap \<times> int" where
  "clean_addresses now_msec = (\<lambda>(nd, changed, next_msec).
     if addresses nd = [] then (nd, changed, next_msec)
     else
       (let (arr, i, j, next_msec) = clean_loop ad_expiry_msec now_msec (addresses nd) 0 0 next_msec;
            nd = nd\<lparr>addresses := arr\<rparr>;
            (nd, changed) =
              (if i \<noteq> j then (nd\<lparr>addresses := take j (addresses nd)\<rparr>, {NM_NDISC_CONFIG_ADDRESSES})
               else (nd, changed));
            (gws, trimmed) = array_set_size_max (gateways nd) (nat (c_max_addresses (config nd)))
        in (nd\<lparr>gateways := gws\<rparr>, if trimmed then changed \<union> {NM_NDISC_CONFIG_ADDRESSES} else changed, next_msec)))"

definition clean_routes ::
    "int \<Rightarrow> NMNDisc \<times> NMNDiscConfigMap \<times> int \<Rightarrow> NMNDisc \<times> NMNDiscConfigMap \<times> int" where
  "clean_routes now_msec = (\<lambda>(nd, changed, next_msec).
     if routes nd = [] then (nd, changed, next_msec)
     else
       (let (arr, i, j, next_msec) = clean_loop rt_expiry_msec now_msec (routes nd) 0 0 next_msec;
            nd = nd\<lparr>routes := arr\<rparr>;
            (nd, changed) =
              (if i \<noteq> j then (nd\<lparr>routes := take j (routes nd)\<rparr>, changed \<union> {NM_NDISC_CONFIG_ROUTES})
               else (nd, changed));
            (gws, trimmed) = array_set_size_max (gateways nd) NM_NDISC_SIZE_MAX_ROUTES
        in (nd\<lparr>gateways := gws\<rparr>, if trimmed then changed \<union> {NM_NDISC_CONFIG_ROUTES} else changed, next_msec)))"

definition clean_dns_servers ::
    "int \<Rightarrow> NMNDisc \<times> NMNDiscConfigMap \<times> int \<Rightarrow> NMNDisc \<times> NMNDiscConfigMap \<times> int" where
  "clean_dns_servers now_msec = (\<lambda>(nd, changed, next_msec).
     if dns_servers nd = [] then (nd, changed, next_msec)
     else
       (let (arr, i, j, next_msec) = clean_loop ds_expiry_msec now_msec (dns_servers nd) 0 0 next_msec;
            nd = nd\<lparr>dns_servers := arr\<rparr>;
            (nd, changed) =
              (if i \<noteq> j then (nd\<lparr>dns_servers := take j (dns_servers nd)\<rparr>, changed \<union> {NM_NDISC_CONFIG_DNS_SERVERS})
               else (nd, changed));
            (gws, trimmed) = array_set_size_max (gateways nd) NM_NDISC_SIZE_MAX_DNS_SERVERS
        in (nd\<lparr>gateways := gws\<rparr>, if trimmed then changed \<union> {NM_NDISC_CONFIG_DNS_SERVERS} else changed, next_msec)))"

text \<open>Also returns the strings that are freed.\<close>

definition clean_dns_domains_freed ::
    "int \<Rightarrow> NMNDisc \<times> NMNDiscConfigMap \<times> int \<Rightarrow>
     NMNDisc \<times> NMNDiscConfigMap \<times> int \<times> string option list" where
  "clean_dns_domains_freed now_msec = (\<lambda>(nd, changed, next_msec).
     if dns_domains nd = [] then (nd, changed, next_msec, [])
     else
       (let (arr, i, j, next_msec, freed) =
              clean_dns_domains_loop now_msec (dns_domains nd) 0 0 next_msec [];
            nd = nd\<lparr>dns_domains := arr\<rparr>;
            (nd, changed, freed) =
              (if i \<noteq> 0 then
                 (case dns_domains_set_size (dns_domains nd) j of
                    (arr, trimmed) \<Rightarrow>
                      (nd\<lparr>dns_domains := arr\<rparr>, changed \<union> {NM_NDISC_CONFIG_DNS_DOMAINS}, freed @ trimmed))
               else (nd, changed, freed));
            (gws, trimmed) = array_set_size_max (gateways nd) NM_NDISC_SIZE_MAX_DNS_DOMAINS
        in (nd\<lparr>gateways := gws\<rparr>, if trimmed then changed \<union> {NM_NDISC_CONFIG_DNS_DOMAINS} else changed,
            next_msec, freed)))"

definition clean_dns_domains ::
    "int \<Rightarrow> NMNDisc \<times> NMNDiscConfigMap \<times> int \<Rightarrow> NMNDisc \<times> NMNDiscConfigMap \<times> int" where
  "clean_dns_domains now_msec st =
     (case clean_dns_domains_freed now_msec st of (nd, changed, next_msec, _) \<Rightarrow> (nd, changed, next_msec))"

text \<open>\<open>clock_msec\<close> is the clock when the change is published.\<close>

definition check_timestamps :: "NMNDisc \<Rightarrow> int \<Rightarrow> NMNDiscConfigMap \<Rightarrow> int \<Rightarrow> NMNDisc" where
  "check_timestamps nd now_msec changed clock_msec =
     (let (nd, changed, next_msec) =
        clean_dns_domains now_msec
          (clean_dns_servers now_msec
            (clean_routes now_msec
              (clean_addresses now_msec
                (clean_gateways now_msec (nd, changed, G_MAXINT64)))));
          nd = nd\<lparr>timeout_expire_source :=
                   (if next_msec = NM_NDISC_EXPIRY_INFINITY then None
                    else Some (min (next_msec - now_msec) G_MAXINT32))\<rparr>
      in if changed \<noteq> {} then nm_ndisc_emit_config_change nd changed clock_msec else nd)"

definition timeout_expire_cb :: "NMNDisc \<Rightarrow> int \<Rightarrow> int \<Rightarrow> NMNDisc" where
  "timeout_expire_cb nd now_msec clock_msec = check_timestamps nd now_msec {} clock_msec"

definition calc_pre_expiry_rs_msec_worker :: "int \<Rightarrow> int \<Rightarrow> int \<Rightarrow> int" where
  "calc_pre_expiry_rs_msec_worker last_rs expiry_msec earliest_expiry_msec =
     (if expiry_msec = NM_NDISC_EXPIRY_INFINITY then earliest_expiry_msec
      else if expiry_msec < last_rs + NM_NDISC_PRE_EXPIRY_MIN_LIFETIME_MSEC then earliest_expiry_msec
      else min earliest_expiry_msec expiry_msec)"

definition calc_pre_expiry_rs_msec :: "NMNDisc \<Rightarrow> u32 \<Rightarrow> int" where
  "calc_pre_expiry_rs_msec nd rnd =
     (let w = calc_pre_expiry_rs_msec_worker (last_rs_msec nd);
          expiry_msec = NM_NDISC_EXPIRY_INFINITY;
          expiry_msec = fold w (map gw_expiry_msec (gateways nd)) expiry_msec;
          expiry_msec = fold w (map ad_expiry_msec (addresses nd)) expiry_msec;
          expiry_msec = fold w (map rt_expiry_msec (routes nd)) expiry_msec;
          expiry_msec = fold w (map ds_expiry_msec (dns_servers nd)) expiry_msec;
          expiry_msec = fold w (map dd_expiry_msec (dns_domains nd)) expiry_msec
      in expiry_msec - solicit_retransmit_time_jitter NM_NDISC_PRE_EXPIRY_TIME_MSEC rnd)"

definition NM_CLAMP :: "int \<Rightarrow> int \<Rightarrow> int \<Rightarrow> int" where
  "NM_CLAMP x lo hi = (if x > hi then hi else if x < lo then lo else x)"

definition nm_ndisc_ra_received :: "NMNDisc \<Rightarrow> int \<Rightarrow> NMNDiscConfigMap \<Rightarrow> int \<Rightarrow> u32 \<Rightarrow> NMNDisc" where
  "nm_ndisc_ra_received nd now_msec changed clock_msec rnd =
     (let nd = nd\<lparr>ra_timeout_source := None, last_error := None\<rparr>;
          nd = check_timestamps nd now_msec changed clock_msec;
          pre_expiry_msec = NM_CLAMP (calc_pre_expiry_rs_msec nd rnd)
                              (last_rs_msec nd + RFC7559_IRT * 1000) (last_rs_msec nd + RFC7559_MRT * 1000);
          timeout_msec = NM_CLAMP (pre_expiry_msec - now_msec) 0 G_MAXINT32
      in nd\<lparr>solicit_retransmit_time_msec := 0, solicit_timer_source := Some timeout_msec\<rparr>)"

definition nm_ndisc_rs_received :: "NMNDisc \<Rightarrow> int \<Rightarrow> int \<Rightarrow> NMNDisc" where
  "nm_ndisc_rs_received nd now_sec delay_ms =
     announce_router_solicited (nd\<lparr>last_error := None\<rparr>) now_sec delay_ms"

section \<open>Configuration\<close>

text \<open>\<open>sysctl\<close> stands for reading an integer below \<^verbatim>\<open>/proc/sys\<close> (name, minimum, maximum, default).\<close>

definition nm_ndisc_get_sysctl ::
    "(string \<Rightarrow> int \<Rightarrow> int \<Rightarrow> int \<Rightarrow> int) \<Rightarrow> int \<times> int \<times> int \<times> u32" where
  "nm_ndisc_get_sysctl sysctl =
     (let max_addresses = sysctl ''max_addresses'' 0 G_MAXINT32 16;
          router_solicitations = sysctl ''router_solicitations'' 1 G_MAXINT32 3;
          router_solicitation_interval = sysctl ''router_solicitation_interval'' 1 G_MAXINT32 4
      in (max_addresses, router_solicitations, router_solicitation_interval,
          word_of_int (max (router_solicitations * router_solicitation_interval + 1) 30)))"

definition config_init :: "NMNDiscConfig \<Rightarrow> NMNDiscConfig" where
  "config_init src =
     (if c_max_addresses src \<le> 0 then src\<lparr>c_max_addresses := NM_NDISC_SIZE_MAX_ADDRESSES\<rparr>
      else if c_max_addresses src > 3 * NM_NDISC_SIZE_MAX_ADDRESSES
      then src\<lparr>c_max_addresses := 3 * NM_NDISC_SIZE_MAX_ADDRESSES\<rparr>
      else src)"

definition nm_ndisc_init :: "NMNDiscConfig \<Rightarrow> NMNDisc" where
  "nm_ndisc_init src =
     \<lparr>dhcp_level = NM_NDISC_DHCP_LEVEL_UNKNOWN, mtu = 0, hop_limit = 64, reachable_time_ms = 0,
      retrans_timer_ms = 0, gateways = [], addresses = [], routes = [], dns_servers = [],
      dns_domains = [], l3cd = None, last_error = None, ra_timeout_source = None,
      announcements_left = 0, send_ra_id = None, last_ra = 0, solicit_retransmit_time_msec = 0,
      last_rs_msec = 0, solicit_timer_source = None, timeout_expire_source = None,
      iid = replicate 8 0, iid_is_token = False, config = config_init src, signals = []\<rparr>"

section \<open>Expiry: what the clean functions do\<close>

abbreviation live_gateways :: "int \<Rightarrow> NMNDisc \<Rightarrow> NMNDiscGateway list" where
  "live_gateways now nd \<equiv> filter (alive now \<circ> gw_expiry_msec) (gateways nd)"

abbreviation live_addresses :: "int \<Rightarrow> NMNDisc \<Rightarrow> NMNDiscAddress list" where
  "live_addresses now nd \<equiv> filter (alive now \<circ> ad_expiry_msec) (addresses nd)"

abbreviation live_routes :: "int \<Rightarrow> NMNDisc \<Rightarrow> NMNDiscRoute list" where
  "live_routes now nd \<equiv> filter (alive now \<circ> rt_expiry_msec) (routes nd)"

abbreviation live_dns_servers :: "int \<Rightarrow> NMNDisc \<Rightarrow> NMNDiscDNSServer list" where
  "live_dns_servers now nd \<equiv> filter (alive now \<circ> ds_expiry_msec) (dns_servers nd)"

abbreviation live_dns_domains :: "int \<Rightarrow> NMNDisc \<Rightarrow> NMNDiscDNSDomain list" where
  "live_dns_domains now nd \<equiv> filter (alive now \<circ> dd_expiry_msec) (dns_domains nd)"

lemma take_filter_eq:
  assumes "take k (filter P xs) = xs"
  shows "filter P xs = xs"
proof -
  have "set xs \<subseteq> set (filter P xs)" using set_take_subset [of k "filter P xs"] assms by simp
  then show ?thesis by (auto simp: filter_id_conv)
qed

lemma array_set_size_max_eq: "array_set_size_max xs k = (take k xs, k < length xs)"
  by (auto simp: array_set_size_max_def)

text \<open>What the later functions do to the gateways.\<close>

definition trunc_gateways :: "bool \<Rightarrow> nat \<Rightarrow> NMNDiscGateway list \<Rightarrow> NMNDiscGateway list" where
  "trunc_gateways b k gws = (if b then take k gws else gws)"

lemma min_expiry_Nil [simp]: "min_expiry n [] = n"
  by (simp add: min_expiry_def)

lemma clean_gateways_eq:
  "clean_gateways now (nd, changed, n) =
     (nd\<lparr>gateways := take NM_NDISC_SIZE_MAX_GATEWAYS (live_gateways now nd)\<rparr>,
      changed \<union> (if take NM_NDISC_SIZE_MAX_GATEWAYS (live_gateways now nd) \<noteq> gateways nd
                 then {NM_NDISC_CONFIG_GATEWAYS} else {}),
      min_expiry n (map gw_expiry_msec (live_gateways now nd)))"
proof -
  obtain arr' i j n' where c: "clean_loop gw_expiry_msec now (gateways nd) 0 0 n = (arr', i, j, n')"
    by (metis prod_cases4)
  show ?thesis
  proof (cases "i = j")
    case True
    then show ?thesis using clean_array [OF c] take_filter_eq [of 100 "alive now \<circ> gw_expiry_msec" "gateways nd"]
      by (auto simp: clean_gateways_def Let_def c array_set_size_max_eq trunc_gateways_def)
  next
    case False
    then have "gateways nd \<noteq> []" using clean_array(2) [OF c] by auto
    with False show ?thesis using clean_array [OF c] take_filter_eq [of 100 "alive now \<circ> gw_expiry_msec" "gateways nd"]
      by (auto simp: clean_gateways_def Let_def c array_set_size_max_eq trunc_gateways_def)
  qed
qed

lemma clean_addresses_eq:
  "clean_addresses now (nd, changed, n) =
     (nd\<lparr>addresses := (live_addresses now nd),
         gateways := trunc_gateways (addresses nd \<noteq> []) (nat (c_max_addresses (config nd))) (gateways nd)\<rparr>,
      (if (live_addresses now nd) \<noteq> addresses nd then {NM_NDISC_CONFIG_ADDRESSES} else changed) \<union>
      (if addresses nd \<noteq> [] \<and> (nat (c_max_addresses (config nd))) < length (gateways nd) then {NM_NDISC_CONFIG_ADDRESSES} else {}),
      min_expiry n (map ad_expiry_msec (live_addresses now nd)))"
proof -
  obtain arr' i j n' where c: "clean_loop ad_expiry_msec now (addresses nd) 0 0 n = (arr', i, j, n')"
    by (metis prod_cases4)
  show ?thesis
  proof (cases "i = j")
    case True
    then show ?thesis using clean_array [OF c]
      by (auto simp: clean_addresses_def Let_def c array_set_size_max_eq trunc_gateways_def)
  next
    case False
    then have "addresses nd \<noteq> []" using clean_array(2) [OF c] by auto
    with False show ?thesis using clean_array [OF c]
      by (auto simp: clean_addresses_def Let_def c array_set_size_max_eq trunc_gateways_def)
  qed
qed

lemma clean_routes_eq:
  "clean_routes now (nd, changed, n) =
     (nd\<lparr>routes := (live_routes now nd),
         gateways := trunc_gateways (routes nd \<noteq> []) NM_NDISC_SIZE_MAX_ROUTES (gateways nd)\<rparr>,
      changed \<union> (if (live_routes now nd) \<noteq> routes nd \<or>
        routes nd \<noteq> [] \<and> NM_NDISC_SIZE_MAX_ROUTES < length (gateways nd) then {NM_NDISC_CONFIG_ROUTES} else {}),
      min_expiry n (map rt_expiry_msec (live_routes now nd)))"
proof -
  obtain arr' i j n' where c: "clean_loop rt_expiry_msec now (routes nd) 0 0 n = (arr', i, j, n')"
    by (metis prod_cases4)
  show ?thesis
  proof (cases "i = j")
    case True
    then show ?thesis using clean_array [OF c]
      by (auto simp: clean_routes_def Let_def c array_set_size_max_eq trunc_gateways_def)
  next
    case False
    then have "routes nd \<noteq> []" using clean_array(2) [OF c] by auto
    with False show ?thesis using clean_array [OF c]
      by (auto simp: clean_routes_def Let_def c array_set_size_max_eq trunc_gateways_def)
  qed
qed

lemma clean_dns_servers_eq:
  "clean_dns_servers now (nd, changed, n) =
     (nd\<lparr>dns_servers := (live_dns_servers now nd),
         gateways := trunc_gateways (dns_servers nd \<noteq> []) NM_NDISC_SIZE_MAX_DNS_SERVERS (gateways nd)\<rparr>,
      changed \<union> (if (live_dns_servers now nd) \<noteq> dns_servers nd \<or>
        dns_servers nd \<noteq> [] \<and> NM_NDISC_SIZE_MAX_DNS_SERVERS < length (gateways nd) then {NM_NDISC_CONFIG_DNS_SERVERS} else {}),
      min_expiry n (map ds_expiry_msec (live_dns_servers now nd)))"
proof -
  obtain arr' i j n' where c: "clean_loop ds_expiry_msec now (dns_servers nd) 0 0 n = (arr', i, j, n')"
    by (metis prod_cases4)
  show ?thesis
  proof (cases "i = j")
    case True
    then show ?thesis using clean_array [OF c]
      by (auto simp: clean_dns_servers_def Let_def c array_set_size_max_eq trunc_gateways_def)
  next
    case False
    then have "dns_servers nd \<noteq> []" using clean_array(2) [OF c] by auto
    with False show ?thesis using clean_array [OF c]
      by (auto simp: clean_dns_servers_def Let_def c array_set_size_max_eq trunc_gateways_def)
  qed
qed

lemma clean_dns_domains_eq:
  "clean_dns_domains now (nd, changed, n) =
     (nd\<lparr>dns_domains := (live_dns_domains now nd),
         gateways := trunc_gateways (dns_domains nd \<noteq> []) NM_NDISC_SIZE_MAX_DNS_DOMAINS (gateways nd)\<rparr>,
      changed \<union> (if dns_domains nd \<noteq> [] then {NM_NDISC_CONFIG_DNS_DOMAINS} else {}),
      min_expiry n (map dd_expiry_msec (live_dns_domains now nd)))"
proof -
  obtain arr' freed' where
    c: "clean_dns_domains_loop now (dns_domains nd) 0 0 n [] =
      (arr', length (dns_domains nd), length (live_dns_domains now nd),
       min_expiry n (map dd_expiry_msec (live_dns_domains now nd)), freed')"
    and t: "take (length (live_dns_domains now nd)) arr' = live_dns_domains now nd"
    using clean_dns_domains_loop_correct [of 0 0 "dns_domains nd" now n "[]"] by auto
  then show ?thesis
    by (auto simp: clean_dns_domains_def clean_dns_domains_freed_def Let_def dns_domains_set_size_def
        array_set_size_max_eq trunc_gateways_def)
qed

section \<open>Duplicate routes\<close>

lemma length_prepare_routes_loop [simp]: "length (prepare_routes_loop rts i) = length rts"
proof (induction rts i rule: prepare_routes_loop.induct)
  case (1 rts i)
  then show ?case by (subst prepare_routes_loop.simps) (auto simp: Let_def split: option.splits)
qed

lemma first_idx_Some:
  "first_idx P xs = Some k \<Longrightarrow> k < length xs \<and> P (xs ! k) \<and> (\<forall>m<k. \<not> P (xs ! m))"
proof (induction xs arbitrary: k)
  case (Cons x xs)
  show ?case
  proof (cases "P x")
    case False
    with Cons.prems obtain k' where "first_idx P xs = Some k'" "k = Suc k'" by auto
    with Cons.IH [of k'] False show ?thesis by (auto simp: less_Suc_eq_0_disj)
  qed (use Cons.prems in simp)
qed simp

lemma first_idx_None: "first_idx P xs = None \<longleftrightarrow> (\<forall>x\<in>set xs. \<not> P x)"
  by (induction xs) auto

abbreviation set_dup :: "NMNDiscRoute list \<Rightarrow> nat \<Rightarrow> NMNDiscRoute list" where
  "set_dup rts k \<equiv> rts[k := (rts ! k)\<lparr>rt_duplicate := True\<rparr>]"

lemma rt_view_dup [simp]: "rt_view (r\<lparr>rt_duplicate := b\<rparr>) = rt_view r"
  by (simp add: rt_view_def)

lemma map_update_same: "f v = f (xs ! i) \<Longrightarrow> map f (xs[i := v]) = map f xs"
  by (metis list_update_id map_update)

lemma rt_view_set_dup [simp]: "map rt_view (set_dup rts k) = map rt_view rts"
  by (rule map_update_same) simp

lemma is_duplicate_route_view:
  "rt_view a = rt_view a' \<Longrightarrow> rt_view b = rt_view b' \<Longrightarrow> is_duplicate_route a b = is_duplicate_route a' b'"
  by (simp add: is_duplicate_route_def rt_view_def)

text \<open>
  The invariant of the marking loop before index \<open>i\<close>; \<open>S a b\<close> says that the entries \<open>a\<close> and \<open>b\<close>
  have the same destination.
\<close>

definition dup_inv :: "(nat \<Rightarrow> nat \<Rightarrow> bool) \<Rightarrow> NMNDiscRoute list \<Rightarrow> nat \<Rightarrow> bool" where
  "dup_inv S rts i \<longleftrightarrow>
     (\<forall>k<length rts. rt_duplicate (rts ! k) \<longleftrightarrow>
        (k < i \<and> (\<exists>k'. k < k' \<and> k' < length rts \<and> S k k')) \<or>
        (\<exists>k'<i. k' < k \<and> S k' k \<and> (\<forall>m. k' < m \<and> m < k \<longrightarrow> \<not> S k' m)))"

lemma dup_inv_None:
  assumes "dup_inv S rts i" "\<And>m. i < m \<Longrightarrow> m < length rts \<Longrightarrow> \<not> S i m"
  shows "dup_inv S rts (Suc i)"
  unfolding dup_inv_def
proof (intro allI impI)
  fix k
  assume k: "k < length rts"
  have "\<not> (i < k \<and> S i k)" "k = i \<Longrightarrow> \<not> (\<exists>k'. k < k' \<and> k' < length rts \<and> S k k')"
    using assms(2) k by auto
  then show "rt_duplicate (rts ! k) \<longleftrightarrow>
        (k < Suc i \<and> (\<exists>k'. k < k' \<and> k' < length rts \<and> S k k')) \<or>
        (\<exists>k'<Suc i. k' < k \<and> S k' k \<and> (\<forall>m. k' < m \<and> m < k \<longrightarrow> \<not> S k' m))"
    using assms(1) k unfolding dup_inv_def by (auto simp: less_Suc_eq)
qed

lemma dup_inv_Some:
  assumes "dup_inv S rts i" "i < j" "j < length rts" "S i j" "\<And>m. i < m \<Longrightarrow> m < j \<Longrightarrow> \<not> S i m"
  shows "dup_inv S (set_dup (set_dup rts i) j) (Suc i)"
  unfolding dup_inv_def
proof (intro allI impI)
  fix k
  let ?rts = "set_dup (set_dup rts i) j"
  assume "k < length ?rts"
  then have k: "k < length rts" by simp
  have d: "rt_duplicate (?rts ! k) \<longleftrightarrow> rt_duplicate (rts ! k) \<or> k = i \<or> k = j"
    using k assms(2,3) by (auto simp: nth_list_update)
  have "(i < k \<and> S i k \<and> (\<forall>m. i < m \<and> m < k \<longrightarrow> \<not> S i m)) \<longleftrightarrow> k = j"
    using assms(2,4,5) by (metis linorder_neqE_nat)
  then show "rt_duplicate (?rts ! k) \<longleftrightarrow>
        (k < Suc i \<and> (\<exists>k'. k < k' \<and> k' < length ?rts \<and> S k k')) \<or>
        (\<exists>k'<Suc i. k' < k \<and> S k' k \<and> (\<forall>m. k' < m \<and> m < k \<longrightarrow> \<not> S k' m))"
    using d assms(1-4) k unfolding dup_inv_def by (auto simp: less_Suc_eq)
qed

lemma prepare_routes_loop_inv:
  "\<lbrakk>dup_inv S rts i; i \<le> length rts;
    \<forall>a<length rts. \<forall>b<length rts. S a b = is_duplicate_route (rts ! a) (rts ! b)\<rbrakk> \<Longrightarrow>
   dup_inv S (prepare_routes_loop rts i) (length rts) \<and>
   map rt_view (prepare_routes_loop rts i) = map rt_view rts"
proof (induction "length rts - i" arbitrary: rts i rule: less_induct)
  case less
  show ?case
  proof (cases "i < length rts")
    case False
    then show ?thesis using less.prems by (simp add: prepare_routes_loop.simps)
  next
    case True
    show ?thesis
    proof (cases "first_idx (is_duplicate_route (rts ! i)) (drop (i + 1) rts)")
      case None
      have "\<not> S i m" if "i < m" "m < length rts" for m
      proof -
        have "rts ! m \<in> set (drop (i + 1) rts)"
          using that by (auto simp: in_set_conv_nth intro!: exI [of _ "m - (i + 1)"])
        then show ?thesis using None less.prems(3) True that by (auto simp: first_idx_None)
      qed
      then have "dup_inv S rts (Suc i)" by (rule dup_inv_None [OF less.prems(1)])
      with less.hyps [of rts "Suc i"] less.prems True None show ?thesis
        by (subst (1 2) prepare_routes_loop.simps) simp
    next
      case (Some k)
      let ?j = "Suc (i + k)"
      let ?rts = "set_dup (set_dup rts i) ?j"
      note fi = first_idx_Some [OF Some]
      then have j: "i < ?j" "?j < length rts" "S i ?j" using less.prems(3) True by auto
      have m: "\<not> S i m" if "i < m" "m < ?j" for m
      proof -
        have "m - (i + 1) < k" "drop (i + 1) rts ! (m - (i + 1)) = rts ! m" using that j by auto
        with fi show ?thesis using less.prems(3) True that j by (metis order_less_trans)
      qed
      have inv: "dup_inv S ?rts (Suc i)" using less.prems(1) j m by (rule dup_inv_Some)
      have v: "rt_view (?rts ! a) = rt_view (rts ! a)" if "a < length rts" for a
        using that by (cases "a = ?j"; cases "a = i") auto
      then have "\<forall>a<length ?rts. \<forall>b<length ?rts. S a b = is_duplicate_route (?rts ! a) (?rts ! b)"
        using less.prems(3) is_duplicate_route_view [OF v v] by auto
      with less.hyps [of ?rts "Suc i"] inv True have "dup_inv S (prepare_routes_loop ?rts (Suc i)) (length rts) \<and>
          map rt_view (prepare_routes_loop ?rts (Suc i)) = map rt_view ?rts"
        by simp
      moreover have "prepare_routes_loop rts i = prepare_routes_loop ?rts (Suc i)"
        using True Some by (subst prepare_routes_loop.simps) (simp add: Let_def)
      ultimately show ?thesis by (simp only: rt_view_set_dup)
    qed
  qed
qed

lemma rt_view_data_complete [simp]: "map rt_view (data_complete_prepare_routes rts) = map rt_view rts"
proof -
  let ?rts = "map (\<lambda>r. r\<lparr>rt_duplicate := False\<rparr>) rts"
  have "dup_inv (\<lambda>a b. is_duplicate_route (?rts ! a) (?rts ! b)) ?rts 0" by (simp add: dup_inv_def)
  from prepare_routes_loop_inv [OF this] show ?thesis
    by (simp add: data_complete_prepare_routes_def o_def)
qed

section \<open>The expiry check as a whole\<close>

text \<open>The number of gateways that survive the truncations.\<close>

definition gateways_limit :: "NMNDisc \<Rightarrow> nat" where
  "gateways_limit nd =
     min (if addresses nd \<noteq> [] then nat (c_max_addresses (config nd)) else NM_NDISC_SIZE_MAX_GATEWAYS)
       (if dns_servers nd \<noteq> [] \<or> dns_domains nd \<noteq> [] then NM_NDISC_SIZE_MAX_DNS_SERVERS
        else NM_NDISC_SIZE_MAX_GATEWAYS)"

definition live_expiries :: "int \<Rightarrow> NMNDisc \<Rightarrow> int list" where
  "live_expiries now nd =
     map gw_expiry_msec (live_gateways now nd) @ map ad_expiry_msec (live_addresses now nd) @
     map rt_expiry_msec (live_routes now nd) @ map ds_expiry_msec (live_dns_servers now nd) @
     map dd_expiry_msec (live_dns_domains now nd)"

definition expire_flags :: "int \<Rightarrow> NMNDisc \<Rightarrow> NMNDiscConfigMap \<Rightarrow> NMNDiscConfigMap" where
  "expire_flags now nd changed =
     (let gws = take NM_NDISC_SIZE_MAX_GATEWAYS (live_gateways now nd);
          gws' = trunc_gateways (addresses nd \<noteq> []) (nat (c_max_addresses (config nd))) gws in
      (if live_addresses now nd \<noteq> addresses nd then {NM_NDISC_CONFIG_ADDRESSES}
       else changed \<union> (if gws \<noteq> gateways nd then {NM_NDISC_CONFIG_GATEWAYS} else {})) \<union>
      (if gws' \<noteq> gws then {NM_NDISC_CONFIG_ADDRESSES} else {}) \<union>
      (if live_routes now nd \<noteq> routes nd then {NM_NDISC_CONFIG_ROUTES} else {}) \<union>
      (if live_dns_servers now nd \<noteq> dns_servers nd \<or>
          dns_servers nd \<noteq> [] \<and> NM_NDISC_SIZE_MAX_DNS_SERVERS < length gws'
       then {NM_NDISC_CONFIG_DNS_SERVERS} else {}) \<union>
      (if dns_domains nd \<noteq> [] then {NM_NDISC_CONFIG_DNS_DOMAINS} else {}))"

lemma min_expiry_append: "min_expiry (min_expiry n xs) ys = min_expiry n (xs @ ys)"
  by (simp add: min_expiry_def)

lemma trunc_gateways_take:
  "trunc_gateways b k (take m gws) = take (if b then min k m else m) gws"
  by (simp add: trunc_gateways_def)

lemma trunc_gateways_id: "length gws \<le> k \<Longrightarrow> trunc_gateways b k gws = gws"
  by (simp add: trunc_gateways_def)

lemma trunc_gateways_neq: "trunc_gateways b k gws \<noteq> gws \<longleftrightarrow> b \<and> k < length gws"
  by (auto simp: trunc_gateways_def not_less)

lemma clean_all_eq:
  "clean_dns_domains now (clean_dns_servers now (clean_routes now (clean_addresses now
       (clean_gateways now (nd, changed, n))))) =
     (nd\<lparr>gateways := take (gateways_limit nd) (live_gateways now nd),
         addresses := live_addresses now nd, routes := live_routes now nd,
         dns_servers := live_dns_servers now nd, dns_domains := live_dns_domains now nd\<rparr>,
      expire_flags now nd changed, min_expiry n (live_expiries now nd))"
proof -
  define G1 where "G1 = take NM_NDISC_SIZE_MAX_GATEWAYS (live_gateways now nd)"
  define G2 where "G2 = trunc_gateways (addresses nd \<noteq> []) (nat (c_max_addresses (config nd))) G1"
  define ch where "ch = changed \<union> (if G1 \<noteq> gateways nd then {NM_NDISC_CONFIG_GATEWAYS} else {})"
  have len: "length G2 \<le> NM_NDISC_SIZE_MAX_GATEWAYS" by (simp add: G2_def G1_def trunc_gateways_def min_def)
  have gw: "trunc_gateways (dns_domains nd \<noteq> []) NM_NDISC_SIZE_MAX_DNS_DOMAINS
      (trunc_gateways (dns_servers nd \<noteq> []) NM_NDISC_SIZE_MAX_DNS_SERVERS G2) =
      take (gateways_limit nd) (live_gateways now nd)"
    unfolding G2_def G1_def trunc_gateways_take
    by (rule arg_cong [where f = "\<lambda>k. take k _"]) (auto simp: gateways_limit_def)
  note eqs = clean_gateways_eq clean_addresses_eq clean_routes_eq clean_dns_servers_eq clean_dns_domains_eq
  have "clean_routes now (clean_addresses now (clean_gateways now (nd, changed, n))) =
      (nd\<lparr>gateways := G2, addresses := live_addresses now nd, routes := live_routes now nd\<rparr>,
       (if live_addresses now nd \<noteq> addresses nd then {NM_NDISC_CONFIG_ADDRESSES} else ch) \<union>
       (if G2 \<noteq> G1 then {NM_NDISC_CONFIG_ADDRESSES} else {}) \<union>
       (if live_routes now nd \<noteq> routes nd then {NM_NDISC_CONFIG_ROUTES} else {}),
       min_expiry n (map gw_expiry_msec (live_gateways now nd) @ map ad_expiry_msec (live_addresses now nd) @
         map rt_expiry_msec (live_routes now nd)))"
    using len trunc_gateways_neq [of "addresses nd \<noteq> []" "nat (c_max_addresses (config nd))" G1]
    unfolding eqs G1_def [symmetric] ch_def [symmetric]
    by (simp add: G2_def [symmetric] trunc_gateways_id min_expiry_append)
  then show ?thesis
    using gw unfolding expire_flags_def Let_def G1_def [symmetric] G2_def [symmetric] ch_def [symmetric]
    by (simp add: eqs min_expiry_append live_expiries_def)
qed

lemma emit_config_change_simps [simp]:
  "gateways (nm_ndisc_emit_config_change nd ch t) = gateways nd"
  "addresses (nm_ndisc_emit_config_change nd ch t) = addresses nd"
  "routes (nm_ndisc_emit_config_change nd ch t) = data_complete_prepare_routes (routes nd)"
  "dns_servers (nm_ndisc_emit_config_change nd ch t) = dns_servers nd"
  "dns_domains (nm_ndisc_emit_config_change nd ch t) = dns_domains nd"
  "timeout_expire_source (nm_ndisc_emit_config_change nd ch t) = timeout_expire_source nd"
  "solicit_timer_source (nm_ndisc_emit_config_change nd ch t) = solicit_timer_source nd"
  "solicit_retransmit_time_msec (nm_ndisc_emit_config_change nd ch t) = solicit_retransmit_time_msec nd"
  "last_rs_msec (nm_ndisc_emit_config_change nd ch t) = last_rs_msec nd"
  "config (nm_ndisc_emit_config_change nd ch t) = config nd"
  "ra_timeout_source (nm_ndisc_emit_config_change nd ch t) = ra_timeout_source nd"
  "iid (nm_ndisc_emit_config_change nd ch t) = iid nd"
  by (simp_all add: nm_ndisc_emit_config_change_def Let_def)

lemma emit_config_change_signals:
  "signals (nm_ndisc_emit_config_change nd ch t) =
     signals nd @ [CONFIG_RECEIVED ch (l3cd (nm_ndisc_emit_config_change nd ch t))]"
  by (simp add: nm_ndisc_emit_config_change_def Let_def)

lemma min_expiry_Min:
  "min_expiry NM_NDISC_EXPIRY_INFINITY es = Min (insert NM_NDISC_EXPIRY_INFINITY (set es))"
proof -
  have "min_expiry NM_NDISC_EXPIRY_INFINITY es =
      Min (set (NM_NDISC_EXPIRY_INFINITY # filter (\<lambda>e. e \<noteq> NM_NDISC_EXPIRY_INFINITY) es))"
    unfolding min_expiry_def by (rule Min.set_eq_fold [symmetric])
  also have "set (NM_NDISC_EXPIRY_INFINITY # filter (\<lambda>e. e \<noteq> NM_NDISC_EXPIRY_INFINITY) es) =
      insert NM_NDISC_EXPIRY_INFINITY (set es)"
    by auto
  finally show ?thesis .
qed

lemma check_timestamps_eq:
  "check_timestamps nd now changed clock =
     (let e = Min (insert NM_NDISC_EXPIRY_INFINITY (set (live_expiries now nd)));
          nd' = nd\<lparr>gateways := take (gateways_limit nd) (live_gateways now nd),
                  addresses := live_addresses now nd, routes := live_routes now nd,
                  dns_servers := live_dns_servers now nd, dns_domains := live_dns_domains now nd,
                  timeout_expire_source :=
                    (if e = NM_NDISC_EXPIRY_INFINITY then None else Some (min (e - now) G_MAXINT32))\<rparr>
      in if expire_flags now nd changed \<noteq> {}
         then nm_ndisc_emit_config_change nd' (expire_flags now nd changed) clock else nd')"
  by (simp add: check_timestamps_def clean_all_eq min_expiry_Min Let_def)

text \<open>
  C12. The expiry check keeps exactly the addresses, routes, DNS servers and search domains whose
  lifetime is not over, in their order and unchanged (for routes up to the duplicate mark), and the
  not yet expired gateways up to a limit. The expiry timer is armed for the earliest expiry of
  what is alive, at most the largest 32-bit timeout, and is off when nothing ever expires.
  The limit on gateways is the smallest of 100, the maximal number of addresses (when there are
  addresses) and 64 (when there are DNS servers or search domains): the limits of the other arrays
  are applied to the array of gateways, and those arrays are not truncated at all.
\<close>

theorem check_timestamps_correct:
  "(case check_timestamps nd now changed clock of nd' \<Rightarrow>
      gateways nd' = take (gateways_limit nd) (live_gateways now nd) \<and>
      addresses nd' = live_addresses now nd \<and>
      map rt_view (routes nd') = map rt_view (live_routes now nd) \<and>
      dns_servers nd' = live_dns_servers now nd \<and>
      dns_domains nd' = live_dns_domains now nd \<and>
      timeout_expire_source nd' =
        (let e = Min (insert NM_NDISC_EXPIRY_INFINITY (set (live_expiries now nd))) in
         if e = NM_NDISC_EXPIRY_INFINITY then None else Some (min (e - now) G_MAXINT32)))"
  by (simp add: check_timestamps_eq Let_def)

lemma live_expiries_alive: "e \<in> set (live_expiries now nd) \<Longrightarrow> alive now e"
  by (auto simp: live_expiries_def)

text \<open>
  The expiry timer never fires at once: whenever the check arms it, the timeout is positive
  (what \<open>nm_assert(next_msec > now_msec)\<close> demands) and fits a 32-bit integer, so the check
  cannot spin on data it does not remove.
\<close>

theorem check_timestamps_timer_positive:
  assumes "timeout_expire_source (check_timestamps nd now changed clock) = Some t" "now < G_MAXINT64"
  shows "0 < t \<and> t \<le> G_MAXINT32"
proof -
  let ?e = "Min (insert NM_NDISC_EXPIRY_INFINITY (set (live_expiries now nd)))"
  have e: "?e \<noteq> NM_NDISC_EXPIRY_INFINITY" "t = min (?e - now) G_MAXINT32"
    using assms(1) by (auto simp: check_timestamps_eq Let_def split: if_splits)
  have "?e \<in> insert NM_NDISC_EXPIRY_INFINITY (set (live_expiries now nd))" by (rule Min_in) simp_all
  with e(1) have "?e \<in> set (live_expiries now nd)" by blast
  then have "now < ?e" using e(1) live_expiries_alive [of ?e] by (simp add: alive_def)
  with e(2) show ?thesis by simp
qed

text \<open>
  C30. What the change notification reports. When no address expires, every change handed in and
  every expired or truncated array is reported. But when an address expires, the changes handed in
  (the router advertisement that is being processed) and expired gateways are dropped from the
  notification; search domains are reported as changed whenever there are any, even if none expired;
  and truncated gateways are reported as changed addresses or DNS servers.
\<close>

theorem check_timestamps_reports:
  "signals (check_timestamps nd now changed clock) =
     signals nd @
     (if expire_flags now nd changed = {} then []
      else [CONFIG_RECEIVED (expire_flags now nd changed) (l3cd (check_timestamps nd now changed clock))])"
  by (simp add: check_timestamps_eq Let_def emit_config_change_signals)

lemma expire_flags_address_expired:
  "live_addresses now nd \<noteq> addresses nd \<Longrightarrow> expire_flags now nd changed = expire_flags now nd changed'"
  by (simp add: expire_flags_def)

text \<open>
  When an address expires while a router advertisement is being processed, the notification
  does not depend on what the advertisement changed: the changes handed to the check are lost.
\<close>

theorem check_timestamps_drops_changes:
  assumes "live_addresses now nd \<noteq> addresses nd"
  shows "check_timestamps nd now changed clock = check_timestamps nd now {} clock"
  by (simp add: check_timestamps_eq expire_flags_address_expired [OF assms, of changed "{}"] Let_def)

abbreviation example_config :: NMNDiscConfig where
  "example_config \<equiv>
     \<lparr>c_ifname = ''eth0'', c_network_id = ''net'', c_max_addresses = 16, c_router_solicitations = 3,
      c_router_solicitation_interval = 4, c_ra_timeout = 30, c_stable_type = 1,
      c_addr_gen_mode = NM_SETTING_IP6_CONFIG_ADDR_GEN_MODE_STABLE_PRIVACY,
      c_node_type = NM_NDISC_NODE_TYPE_HOST,
      c_ip6_privacy = NM_SETTING_IP6_CONFIG_PRIVACY_DISABLED\<rparr>"

abbreviation example_address :: "u8 \<Rightarrow> int \<Rightarrow> NMNDiscAddress" where
  "example_address b t \<equiv>
     \<lparr>ad_address = [0x20, 1, 0, 0, 0, 0, 0, b, 0, 0, 0, 0, 0, 0, 0, 1], ad_expiry_msec = t,
      ad_expiry_preferred_msec = t, ad_dad_counter = 1\<rparr>"

theorem check_timestamps_drops_changes_witness:
  "check_timestamps ((nm_ndisc_init example_config)\<lparr>addresses := [example_address 1 500]\<rparr>) 1000
     {NM_NDISC_CONFIG_MTU} 1000 =
   check_timestamps ((nm_ndisc_init example_config)\<lparr>addresses := [example_address 1 500]\<rparr>) 1000 {} 1000"
  by (rule check_timestamps_drops_changes) (simp add: alive_def)

theorem check_timestamps_timer_positive_witness:
  "timeout_expire_source
     (check_timestamps ((nm_ndisc_init example_config)\<lparr>addresses := [example_address 1 1500]\<rparr>) 1000 {} 1000)
   = Some 500 \<and> 0 < (500 :: int) \<and> (500 :: int) \<le> G_MAXINT32"
proof -
  have "timeout_expire_source
     (check_timestamps ((nm_ndisc_init example_config)\<lparr>addresses := [example_address 1 1500]\<rparr>) 1000 {} 1000)
   = Some 500"
    by (simp add: check_timestamps_eq Let_def live_expiries_def nm_ndisc_init_def alive_def)
  with check_timestamps_timer_positive [OF this] show ?thesis by simp
qed

text \<open>
  Dropping expired search domains neither leaks nor double-frees a string: every string the
  array owned is afterwards either owned by exactly one remaining entry or was freed exactly once,
  and the remaining entries are those that are not expired.
\<close>

theorem clean_dns_domains_ownership:
  "(case clean_dns_domains_freed now (nd, changed, n) of (nd', changed', n', freed) \<Rightarrow>
      owned freed + owned (map dd_domain (dns_domains nd')) = owned (map dd_domain (dns_domains nd)) \<and>
      dns_domains nd' = live_dns_domains now nd)"
proof -
  let ?k = "length (live_dns_domains now nd)"
  obtain arr' freed' where
    c: "clean_dns_domains_loop now (dns_domains nd) 0 0 n [] =
      (arr', length (dns_domains nd), ?k, min_expiry n (map dd_expiry_msec (live_dns_domains now nd)), freed')"
    and t: "take ?k arr' = live_dns_domains now nd"
    and o: "owned freed' + owned (map dd_domain arr') = owned (map dd_domain (dns_domains nd))"
    using clean_dns_domains_loop_correct [of 0 0 "dns_domains nd" now n "[]"] by (auto simp: owned_def)
  have "owned (map dd_domain arr') = owned (map dd_domain (take ?k arr' @ drop ?k arr'))"
    by simp
  then have "owned (map dd_domain arr') =
      owned (map dd_domain (live_dns_domains now nd)) + owned (map dd_domain (drop ?k arr'))"
    unfolding map_append owned_append t .
  with o show ?thesis
    using c t by (auto simp: clean_dns_domains_freed_def Let_def dns_domains_set_size_def
        array_set_size_max_eq owned_def ac_simps)
qed

text \<open>
  A published route carries the duplicate mark exactly when another route of the array has the
  same destination, although each scan stops at the first match.
\<close>

theorem data_complete_prepare_routes_correct:
  "map rt_duplicate (data_complete_prepare_routes rts) =
     map (\<lambda>k. \<exists>k'<length rts. k' \<noteq> k \<and> is_duplicate_route (rts ! k) (rts ! k')) [0..<length rts]"
proof (rule nth_equalityI)
  fix k
  assume "k < length (map rt_duplicate (data_complete_prepare_routes rts))"
  then have k: "k < length rts" by (simp add: data_complete_prepare_routes_def)
  let ?rts = "map (\<lambda>r. r\<lparr>rt_duplicate := False\<rparr>) rts"
  let ?S = "\<lambda>a b. is_duplicate_route (?rts ! a) (?rts ! b)"
  have S: "?S a b = is_duplicate_route (rts ! a) (rts ! b)" if "a < length rts" "b < length rts" for a b
    using that by (simp add: is_duplicate_route_def)
  have sym: "is_duplicate_route x y = is_duplicate_route y x" for x y
    by (auto simp: is_duplicate_route_def)
  have "dup_inv ?S ?rts 0" by (simp add: dup_inv_def)
  from prepare_routes_loop_inv [OF this]
  have "dup_inv ?S (data_complete_prepare_routes rts) (length rts)"
    by (simp add: data_complete_prepare_routes_def)
  moreover have "length (data_complete_prepare_routes rts) = length rts"
    by (simp add: data_complete_prepare_routes_def)
  ultimately have inv: "rt_duplicate (data_complete_prepare_routes rts ! k) \<longleftrightarrow>
      (\<exists>k'. k < k' \<and> k' < length rts \<and> ?S k k') \<or>
      (\<exists>k'<length rts. k' < k \<and> ?S k' k \<and> (\<forall>m. k' < m \<and> m < k \<longrightarrow> \<not> ?S k' m))"
    using k by (simp add: dup_inv_def)
  have "(\<exists>k'<length rts. k' < k \<and> ?S k' k \<and> (\<forall>m. k' < m \<and> m < k \<longrightarrow> \<not> ?S k' m)) \<longleftrightarrow> (\<exists>k'<k. ?S k' k)"
    (is "?l \<longleftrightarrow> ?r")
  proof
    assume ?r
    let ?M = "Max {k'. k' < k \<and> ?S k' k}"
    have M: "?M \<in> {k'. k' < k \<and> ?S k' k}" using \<open>?r\<close> by (intro Max_in) auto
    have "\<not> ?S ?M m" if "?M < m" "m < k" for m
    proof
      assume "?S ?M m"
      then have "?S m k" using M by (auto simp: is_duplicate_route_def)
      then have "m \<le> ?M" using that by (intro Max_ge) auto
      with that show False by simp
    qed
    with M k show ?l by (intro exI [of _ ?M]) auto
  qed auto
  with inv have "rt_duplicate (data_complete_prepare_routes rts ! k) \<longleftrightarrow>
      (\<exists>k'. k < k' \<and> k' < length rts \<and> is_duplicate_route (rts ! k) (rts ! k')) \<or>
      (\<exists>k'<k. is_duplicate_route (rts ! k) (rts ! k'))"
    using k S sym [of "rts ! k"] by auto
  also have "\<dots> \<longleftrightarrow> (\<exists>k'<length rts. k' \<noteq> k \<and> is_duplicate_route (rts ! k) (rts ! k'))"
    using k by (auto simp: nat_neq_iff intro: order_less_trans)
  finally show "map rt_duplicate (data_complete_prepare_routes rts) ! k =
      map (\<lambda>k. \<exists>k'<length rts. k' \<noteq> k \<and> is_duplicate_route (rts ! k) (rts ! k')) [0..<length rts] ! k"
    using k by (simp add: data_complete_prepare_routes_def)
qed (simp add: data_complete_prepare_routes_def)

section \<open>Addresses\<close>

lemma ra_new_expiry_lower:
  assumes "now + NDISC_PREFIX_LFT_MIN_MSEC \<le> NM_NDISC_EXPIRY_INFINITY"
  shows "min e (now + NDISC_PREFIX_LFT_MIN_MSEC) \<le> ra_new_expiry e new now"
  using assms by (auto simp: ra_new_expiry_def Let_def NDISC_PREFIX_LFT_MIN_MSEC_def min_def)

lemma ra_new_expiry_cases:
  "ra_new_expiry e new now \<in> {e, new, now + NDISC_PREFIX_LFT_MIN_MSEC}"
  by (auto simp: ra_new_expiry_def Let_def)

lemma add_address_from_ra_cases:
  obtains (same) "fst (nm_ndisc_add_address gen nd x now True) = nd"
  | (upd) i where "first_idx (\<lambda>a. take 8 (ad_address a) = take 8 (ad_address x)) (addresses nd) = Some i"
      "fst (nm_ndisc_add_address gen nd x now True) = nd\<lparr>addresses := (addresses nd)[i := (addresses nd ! i)
         \<lparr>ad_expiry_msec := ra_new_expiry (ad_expiry_msec (addresses nd ! i)) (ad_expiry_msec x) now,
          ad_expiry_preferred_msec := min (min (ad_expiry_preferred_msec x) (ad_expiry_msec x))
            (ra_new_expiry (ad_expiry_msec (addresses nd ! i)) (ad_expiry_msec x) now)\<rparr>]\<rparr>"
  | (new) a where "first_idx (\<lambda>a. take 8 (ad_address a) = take 8 (ad_address x)) (addresses nd) = None"
      "int (length (addresses nd)) < c_max_addresses (config nd)" "now < ad_expiry_msec x"
      "complete_address gen nd (x\<lparr>ad_expiry_preferred_msec := min (ad_expiry_preferred_msec x) (ad_expiry_msec x),
         ad_dad_counter := 0\<rparr>) = (a, True)"
      "fst (nm_ndisc_add_address gen nd x now True) = nd\<lparr>addresses := addresses nd @ [a]\<rparr>"
proof (cases "first_idx (\<lambda>a. take 8 (ad_address a) = take 8 (ad_address x)) (addresses nd)")
  case (Some i)
  let ?e = "ra_new_expiry (ad_expiry_msec (addresses nd ! i)) (ad_expiry_msec x) now"
  let ?p = "min (min (ad_expiry_preferred_msec x) (ad_expiry_msec x)) ?e"
  show thesis
  proof (cases "?e = ad_expiry_msec (addresses nd ! i) \<and> ?p = ad_expiry_preferred_msec (addresses nd ! i)")
    case True
    with Some have "fst (nm_ndisc_add_address gen nd x now True) = nd"
      by (auto simp: nm_ndisc_add_address_def Let_def)
    then show thesis by (rule same)
  next
    case False
    with Some have "fst (nm_ndisc_add_address gen nd x now True) =
        nd\<lparr>addresses := (addresses nd)[i := (addresses nd ! i)
          \<lparr>ad_expiry_msec := ?e, ad_expiry_preferred_msec := ?p\<rparr>]\<rparr>"
      by (simp add: nm_ndisc_add_address_def Let_def) auto
    with Some show thesis by (rule upd)
  qed
next
  case None
  obtain a ok where c: "complete_address gen nd (x\<lparr>ad_expiry_preferred_msec :=
      min (ad_expiry_preferred_msec x) (ad_expiry_msec x), ad_dad_counter := 0\<rparr>) = (a, ok)"
    by (rule prod.exhaust)
  show thesis
  proof (cases "int (length (addresses nd)) < c_max_addresses (config nd) \<and> now < ad_expiry_msec x \<and> ok")
    case True
    with None c have "fst (nm_ndisc_add_address gen nd x now True) = nd\<lparr>addresses := addresses nd @ [a]\<rparr>"
      by (simp add: nm_ndisc_add_address_def Let_def)
    with None True c show thesis using new [of a] by simp
  next
    case False
    with None c have "fst (nm_ndisc_add_address gen nd x now True) = nd"
      by (auto simp: nm_ndisc_add_address_def Let_def)
    then show thesis by (rule same)
  qed
qed

text \<open>
  C24. The two-hour rule of RFC 4862 5.5.3.e: a router advertisement never removes, renames or
  reorders an address and never cuts its valid lifetime below two hours, unless less than two hours
  were left anyway; the new expiry is the old one, the received one or two hours from now.
\<close>

theorem add_address_two_hour_rule:
  assumes "now + NDISC_PREFIX_LFT_MIN_MSEC \<le> NM_NDISC_EXPIRY_INFINITY" "i < length (addresses nd)"
  shows "(case (addresses nd ! i, addresses (fst (nm_ndisc_add_address gen nd x now True)) ! i) of (a, a') \<Rightarrow>
    ad_address a' = ad_address a \<and>
    min (ad_expiry_msec a) (now + NDISC_PREFIX_LFT_MIN_MSEC) \<le> ad_expiry_msec a' \<and>
    ad_expiry_msec a' \<in> {ad_expiry_msec a, ad_expiry_msec x, now + NDISC_PREFIX_LFT_MIN_MSEC})"
proof (cases rule: add_address_from_ra_cases [of gen nd x now])
  case same
  then show ?thesis by simp
next
  case (upd j)
  then show ?thesis
    using ra_new_expiry_lower [OF assms(1)] ra_new_expiry_cases assms(2)
    by (cases "i = j") (simp_all add: first_idx_Some)
next
  case (new a)
  then show ?thesis using assms(2) by (simp add: nth_append)
qed

theorem add_address_two_hour_rule_witness:
  "(case (example_address 1 90000000,
      addresses (fst (nm_ndisc_add_address (\<lambda>_ a _. a)
        ((nm_ndisc_init example_config)\<lparr>addresses := [example_address 1 90000000]\<rparr>)
        (example_address 1 2000) 1000 True)) ! 0) of (a, a') \<Rightarrow>
    ad_address a' = ad_address a \<and>
    min (ad_expiry_msec a) (1000 + NDISC_PREFIX_LFT_MIN_MSEC) \<le> ad_expiry_msec a')"
  using add_address_two_hour_rule [where now = 1000 and i = 0 and gen = "\<lambda>_ a _. a"
      and nd = "(nm_ndisc_init example_config)\<lparr>addresses := [example_address 1 90000000]\<rparr>"
      and x = "example_address 1 2000"]
  by (simp add: NDISC_PREFIX_LFT_MIN_MSEC_def)

section \<open>Solicitations\<close>

lemma jitter_bounds:
  assumes "10 \<le> t"
  shows "t - t div 10 \<le> solicit_retransmit_time_jitter t r"
    and "solicit_retransmit_time_jitter t r < t + t div 10"
proof -
  have d: "c_div t 10 = t div 10" "1 \<le> t div 10" using assms by simp_all
  have "0 \<le> uint r mod (2 * (t div 10))" "uint r mod (2 * (t div 10)) < 2 * (t div 10)"
    using d(2) by simp_all
  then show "t - t div 10 \<le> solicit_retransmit_time_jitter t r"
    "solicit_retransmit_time_jitter t r < t + t div 10"
    using d by (simp_all add: solicit_retransmit_time_jitter_def Let_def max_def)
qed

definition solicit_ok :: "int \<Rightarrow> bool" where
  "solicit_ok t \<longleftrightarrow> t = 0 \<or> 3600 \<le> t \<and> t \<le> RFC7559_MRT * 1000"

lemma backoff_bounds:
  assumes "solicit_ok (solicit_retransmit_time_msec nd)"
  shows "(case (solicit_retransmit_time_msec nd,
      solicit_retransmit_time_msec (solicit_timer_cb nd netns_ok send now r1 r2)) of (t, t') \<Rightarrow>
    solicit_ok t' \<and> 3600 \<le> t' \<and>
    (t = 0 \<longrightarrow> t' < 4400) \<and>
    (t \<noteq> 0 \<longrightarrow> min (RFC7559_MRT * 1000) (2 * t - t div 10) \<le> t' \<and> t' < 2 * t + t div 10) \<and>
    (\<exists>tm. solicit_timer_source (solicit_timer_cb nd netns_ok send now r1 r2) = Some tm \<and>
       3600 \<le> tm \<and> tm < 3960000))"
proof -
  let ?t = "solicit_retransmit_time_msec nd"
  have j: "3600 \<le> solicit_retransmit_time_jitter 4000 r1" "solicit_retransmit_time_jitter 4000 r1 < 4400"
    "3240000 \<le> solicit_retransmit_time_jitter 3600000 r2" "solicit_retransmit_time_jitter 3600000 r2 < 3960000"
    using jitter_bounds [of 4000 r1] jitter_bounds [of 3600000 r2] by simp_all
  show ?thesis
  proof (cases "?t = 0")
    case True
    then show ?thesis
      using j by (simp add: solicit_timer_cb_def solicit_ok_def Let_def split: option.splits)
  next
    case False
    with assms have t: "3600 \<le> ?t" "?t \<le> 3600000" by (simp_all add: solicit_ok_def)
    have jt: "?t - ?t div 10 \<le> solicit_retransmit_time_jitter ?t r1"
      "solicit_retransmit_time_jitter ?t r1 < ?t + ?t div 10"
      using jitter_bounds [of ?t r1] t by simp_all
    have "?t div 10 \<le> ?t" "0 \<le> ?t div 10" using t by simp_all
    with False t j jt show ?thesis
      by (simp add: solicit_timer_cb_def solicit_ok_def Let_def min_def split: option.splits)
  qed
qed

text \<open>
  Exponential backoff of router solicitations (RFC 7559): the retransmission time stays zero
  or between 3.6 seconds and one hour; each callback starts it at 4 seconds (10 percent jitter)
  or doubles it (1.9 to 2.1 times), capped at one hour; the timer is always armed, for at least
  3.6 seconds and less than 66 minutes, so no 32-bit overflow can occur.
\<close>

theorem solicit_timer_cb_backoff:
  assumes "solicit_ok (solicit_retransmit_time_msec nd)"
  shows "(case (solicit_retransmit_time_msec nd,
      solicit_retransmit_time_msec (solicit_timer_cb nd netns_ok send now r1 r2)) of (t, t') \<Rightarrow>
    solicit_ok t' \<and> 3600 \<le> t' \<and>
    (t = 0 \<longrightarrow> t' < 4400) \<and>
    (t \<noteq> 0 \<longrightarrow> min (RFC7559_MRT * 1000) (2 * t - t div 10) \<le> t' \<and> t' < 2 * t + t div 10) \<and>
    (\<exists>tm. solicit_timer_source (solicit_timer_cb nd netns_ok send now r1 r2) = Some tm \<and>
       3600 \<le> tm \<and> tm < 3960000))"
  by (rule backoff_bounds [OF assms])

theorem solicit_timer_cb_backoff_witness:
  "(case solicit_retransmit_time_msec (solicit_timer_cb (nm_ndisc_init example_config) True None 1000 7 9) of
      t' \<Rightarrow> 3600 \<le> t' \<and> t' < 4400)"
  using solicit_timer_cb_backoff [of "nm_ndisc_init example_config" True None 1000 7 9]
  by (simp add: solicit_ok_def nm_ndisc_init_def)

end
