(* ===== verification/NM_NDisc_Run.thy ===== *)
theory NM_NDisc_Run
  imports NM_NDisc
begin

text \<open>
  Runs of the neighbor discovery object: repeated timer callbacks, the schedule of solicitations
  and announcements, retries after duplicate address detection failed, and the invariant of the
  object that every handler keeps.
\<close>

section \<open>Solicitations reach the slowest rate\<close>

text \<open>The arguments of one callback of the solicitation timer.\<close>

type_synonym solicit_input = "bool \<times> string option \<times> int \<times> u32 \<times> u32"

definition solicit_timer_run :: "solicit_input list \<Rightarrow> NMNDisc \<Rightarrow> NMNDisc" where
  "solicit_timer_run ins nd =
     fold (\<lambda>(netns_ok, send, now, r1, r2) nd. solicit_timer_cb nd netns_ok send now r1 r2) ins nd"

definition slow_step :: "int \<Rightarrow> int" where
  "slow_step t = min (RFC7559_MRT * 1000) (2 * t - t div 10)"

lemma slow_step_mono: "s \<le> t \<Longrightarrow> slow_step s \<le> slow_step t"
proof -
  assume "s \<le> t"
  then have "t div 10 \<le> s div 10 + (t - s)" by linarith
  with \<open>s \<le> t\<close> show ?thesis by (simp add: slow_step_def min_def)
qed

lemma backoff_step:
  assumes "solicit_ok (solicit_retransmit_time_msec nd)" "solicit_retransmit_time_msec nd \<noteq> 0" "b \<le> solicit_retransmit_time_msec nd"
  shows "solicit_ok (solicit_retransmit_time_msec (solicit_timer_cb nd ok send now r1 r2)) \<and>
    solicit_retransmit_time_msec (solicit_timer_cb nd ok send now r1 r2) \<noteq> 0 \<and>
    slow_step b \<le> solicit_retransmit_time_msec (solicit_timer_cb nd ok send now r1 r2)"
  using backoff_bounds [OF assms(1), of ok send now r1 r2] slow_step_mono [OF assms(3)] assms(2)
  by (auto simp: slow_step_def)

lemma backoff_run:
  "\<lbrakk>solicit_ok (solicit_retransmit_time_msec nd); solicit_retransmit_time_msec nd \<noteq> 0;
    b \<le> solicit_retransmit_time_msec nd\<rbrakk> \<Longrightarrow>
   solicit_ok (solicit_retransmit_time_msec (solicit_timer_run ins nd)) \<and>
   (slow_step ^^ length ins) b \<le> solicit_retransmit_time_msec (solicit_timer_run ins nd)"
proof (induction ins arbitrary: nd b)
  case (Cons x ins)
  obtain ok send now r1 r2 where x: "x = (ok, send, now, r1, r2)" by (metis prod_cases5)
  note st = backoff_step [OF Cons.prems, of ok send now r1 r2]
  have "(slow_step ^^ length ins) (slow_step b)
      \<le> solicit_retransmit_time_msec (solicit_timer_run ins (solicit_timer_cb nd ok send now r1 r2))"
    "solicit_ok (solicit_retransmit_time_msec (solicit_timer_run ins (solicit_timer_cb nd ok send now r1 r2)))"
    using Cons.IH [of "solicit_timer_cb nd ok send now r1 r2" "slow_step b"] st by blast+
  then show ?case by (simp add: solicit_timer_run_def x funpow_swap1)
qed (simp add: solicit_timer_run_def)

lemma slow_step_11: "(slow_step ^^ 11) 3600 = RFC7559_MRT * 1000"
  by (simp add: eval_nat_numeral slow_step_def)

lemma slow_step_fix: "(slow_step ^^ n) (RFC7559_MRT * 1000) = RFC7559_MRT * 1000"
  by (induction n) (simp_all add: slow_step_def)

text \<open>
  C31. Soliciting without an answer settles at one solicitation per hour: whatever the random
  numbers and whether or not sending works, after at least twelve callbacks of a freshly started
  timer the retransmission time is exactly one hour.
\<close>

theorem solicit_reaches_hourly:
  assumes "12 \<le> length ins"
  shows "solicit_retransmit_time_msec (solicit_timer_run ins (solicit_timer_start nd rnd)) = RFC7559_MRT * 1000"
proof -
  obtain x ins' where ins: "ins = x # ins'" "11 \<le> length ins'" using assms by (cases ins) auto
  obtain ok send now r1 r2 where x: "x = (ok, send, now, r1, r2)" by (metis prod_cases5)
  let ?nd = "solicit_timer_cb (solicit_timer_start nd rnd) ok send now r1 r2"
  have "solicit_ok (solicit_retransmit_time_msec ?nd)" "3600 \<le> solicit_retransmit_time_msec ?nd"
    using backoff_bounds [of "solicit_timer_start nd rnd" ok send now r1 r2]
    by (simp_all add: solicit_timer_start_def solicit_ok_def)
  then have r: "solicit_ok (solicit_retransmit_time_msec (solicit_timer_run ins' ?nd))"
    "(slow_step ^^ length ins') 3600 \<le> solicit_retransmit_time_msec (solicit_timer_run ins' ?nd)"
    using backoff_run [of ?nd 3600 ins'] by simp_all
  have "(slow_step ^^ length ins') 3600 = (slow_step ^^ (length ins' - 11)) ((slow_step ^^ 11) 3600)"
    using ins(2) by (simp flip: funpow_add comp_apply [of "slow_step ^^ (length ins' - 11)" "slow_step ^^ 11"])
  also have "\<dots> = RFC7559_MRT * 1000" by (simp only: slow_step_11 slow_step_fix)
  finally show ?thesis using r by (simp add: solicit_timer_run_def ins(1) x solicit_ok_def)
qed

theorem solicit_reaches_hourly_witness:
  "solicit_retransmit_time_msec (solicit_timer_run (replicate 12 (True, None, 5000, 3, 4))
     (solicit_timer_start (nm_ndisc_init example_config) 17)) = 3600000"
  using solicit_reaches_hourly [of "replicate 12 (True, None, 5000, 3, 4)" "nm_ndisc_init example_config" 17]
  by simp

section \<open>Solicitations after an advertisement\<close>

lemma check_timestamps_last_rs [simp]:
  "last_rs_msec (check_timestamps nd now ch clock) = last_rs_msec nd"
  by (simp add: check_timestamps_eq Let_def)

text \<open>
  Once a router advertisement was processed, the timeout for advertisements is off and the
  next solicitation is scheduled at the latest one hour from now and never sooner than four seconds
  after the last one.
\<close>

theorem ra_received_schedule:
  assumes "last_rs_msec nd \<le> now"
  shows "(case nm_ndisc_ra_received nd now changed clock rnd of nd' \<Rightarrow>
    ra_timeout_source nd' = None \<and> solicit_retransmit_time_msec nd' = 0 \<and>
    (\<exists>t. solicit_timer_source nd' = Some t \<and> 0 \<le> t \<and> t \<le> RFC7559_MRT * 1000 \<and>
      last_rs_msec nd' + RFC7559_IRT * 1000 \<le> now + t))"
proof -
  have "ra_timeout_source (check_timestamps (nd\<lparr>ra_timeout_source := None, last_error := None\<rparr>) now changed clock) = None"
    by (simp add: check_timestamps_eq Let_def)
  then show ?thesis
    using assms by (auto simp: nm_ndisc_ra_received_def Let_def NM_CLAMP_def)
qed

theorem ra_received_schedule_witness:
  "(case nm_ndisc_ra_received (nm_ndisc_init example_config) 1000 {} 1000 7 of nd' \<Rightarrow>
    ra_timeout_source nd' = None \<and>
    (\<exists>t. solicit_timer_source nd' = Some t \<and> 0 \<le> t \<and> t \<le> RFC7559_MRT * 1000))"
  using ra_received_schedule [of "nm_ndisc_init example_config" 1000 "{}" 1000 7]
  by (auto simp: nm_ndisc_init_def)

section \<open>Announcements\<close>

text \<open>The arguments of one callback of the announcement timer: clock, error of sending, random delay.\<close>

definition announce_router_run :: "(int \<times> string option \<times> int) list \<Rightarrow> NMNDisc \<Rightarrow> NMNDisc" where
  "announce_router_run ins nd = fold (\<lambda>(now, send, delay) nd. announce_router nd True now send delay) ins nd"

lemma announce_router_step:
  "announcements_left (announce_router nd True now send delay) =
     (if announcements_left nd = 1 then 1 else announcements_left nd - 1)"
  "send_ra_id (announce_router nd True now send delay) =
     Some (if announcements_left nd = 1 then NM_NDISC_ROUTER_ADVERT_MAX_INTERVAL * 1000 else delay * 1000)"
  "last_ra (announce_router nd True now send delay) = now"
  by (simp_all add: announce_router_def Let_def)

text \<open>
  After the initial announcement was requested, the first two advertisements are each followed
  by another one after a short random delay, and from the third on advertisements are sent every
  600 seconds; a timer for the next one is armed after every single one, whether or not sending
  worked.
\<close>

theorem announce_router_schedule:
  assumes "ins \<noteq> []"
  shows "(case announce_router_run ins (announce_router_initial nd now0 delay0) of nd' \<Rightarrow>
    announcements_left nd' = max 1 (3 - int (length ins)) \<and>
    send_ra_id nd' =
      Some (if length ins < 3 then snd (snd (last ins)) * 1000
            else NM_NDISC_ROUTER_ADVERT_MAX_INTERVAL * 1000) \<and>
    last_ra nd' = fst (last ins))"
  using assms
proof (induction ins rule: rev_induct)
  case (snoc x ins)
  obtain now send delay where x: "x = (now, send, delay)" by (metis prod_cases3)
  let ?nd = "announce_router_run ins (announce_router_initial nd now0 delay0)"
  have left: "announcements_left ?nd = max 1 (3 - int (length ins))"
  proof (cases "ins = []")
    case True
    then show ?thesis by (simp add: announce_router_run_def announce_router_initial_def Let_def)
  qed (use snoc.IH in auto)
  have run: "announce_router_run (ins @ [x]) (announce_router_initial nd now0 delay0) =
      announce_router ?nd True now send delay"
    by (simp add: announce_router_run_def x)
  show ?case unfolding run using left by (simp add: announce_router_step x max_def)
qed simp

theorem announce_router_schedule_witness:
  "(case announce_router_run [(10, None, 5), (15, None, 9), (24, None, 4)]
      (announce_router_initial (nm_ndisc_init example_config) 7 1) of nd' \<Rightarrow>
    announcements_left nd' = 1 \<and> send_ra_id nd' = Some 600000 \<and> last_ra nd' = 24)"
  using announce_router_schedule [of "[(10, None, 5), (15, None, 9), (24, None, 4)]" "nm_ndisc_init example_config" 7 1]
  by simp

text \<open>
  Stopping clears all collected data, disarms every timer and forgets the backoff, but sets the
  time of the last advertisement to the smallest 32-bit integer: after a restart the difference to
  the clock overflows, so a solicitation that arrives before the first advertisement does not
  hasten it, as it does for an object that was never stopped.
\<close>

theorem ndisc_stop_then_solicited:
  assumes "3 < now_sec" "now_sec \<le> G_MAXINT32"
  shows "(case nm_ndisc_stop nd True of st \<Rightarrow>
    gateways st = [] \<and> addresses st = [] \<and> routes st = [] \<and> dns_servers st = [] \<and> dns_domains st = [] \<and>
    ra_timeout_source st = None \<and> send_ra_id st = None \<and> timeout_expire_source st = None \<and>
    solicit_timer_source st = None \<and> solicit_retransmit_time_msec st = 0 \<and>
    send_ra_id (nm_ndisc_rs_received (announce_router_initial st now_sec delay) now_sec delay_ms) =
      Some (delay * 1000)) \<and>
   send_ra_id (nm_ndisc_rs_received (announce_router_initial (nm_ndisc_init cfg) now_sec delay) now_sec delay_ms) =
      Some delay_ms"
proof -
  have "gint32 (now_sec - G_MININT32) = now_sec - 2147483648"
    using assms by (simp add: gint32_def)
  moreover have "gint32 now_sec = now_sec" using assms by simp
  ultimately show ?thesis
    using assms
    by (simp add: nm_ndisc_stop_def announce_router_initial_def nm_ndisc_rs_received_def
        announce_router_solicited_def Let_def nm_ndisc_init_def)
qed

theorem ndisc_stop_then_solicited_witness:
  "send_ra_id (nm_ndisc_rs_received
      (announce_router_initial (nm_ndisc_stop (nm_ndisc_init example_config) True) 100 2) 100 40) = Some 2000 \<and>
   send_ra_id (nm_ndisc_rs_received
      (announce_router_initial (nm_ndisc_init example_config) 100 2) 100 40) = Some 40"
  using ndisc_stop_then_solicited [of 100 "nm_ndisc_init example_config" 2 40 example_config] by simp

section \<open>Duplicate address detection\<close>

text \<open>What happens to the address list when one address failed, as a function on lists.\<close>

definition dad_retry :: "stable_generator \<Rightarrow> NMNDisc \<Rightarrow> in6_addr \<Rightarrow> NMNDiscAddress list \<Rightarrow> NMNDiscAddress list" where
  "dad_retry gen nd addr as =
     concat (map (\<lambda>a. if ad_address a = addr
                      then (case complete_address gen nd a of (a', ok) \<Rightarrow> if ok then [a'] else [])
                      else [a]) as)"

lemma complete_address_cong:
  "config nd = config nd' \<Longrightarrow> iid nd = iid nd' \<Longrightarrow> complete_address gen nd a = complete_address gen nd' a"
  by (simp add: complete_address_def)

lemma dad_failed_loop_eq:
  "dad_failed_loop gen (nd\<lparr>addresses := us @ vs\<rparr>) addr (length us) changed =
     (nd\<lparr>addresses := us @ dad_retry gen nd addr vs\<rparr>, changed \<or> addr \<in> ad_address ` set vs)"
proof (induction vs arbitrary: us changed)
  case Nil
  then show ?case by (simp add: dad_failed_loop.simps dad_retry_def)
next
  case (Cons v vs)
  have c: "complete_address gen (nd\<lparr>addresses := us @ v # vs\<rparr>) v = complete_address gen nd v"
    by (rule complete_address_cong) simp_all
  obtain v' ok where v': "complete_address gen nd v = (v', ok)" by (rule prod.exhaust)
  have "dad_failed_loop gen (nd\<lparr>addresses := us @ v # vs\<rparr>) addr (length us) changed =
      (if ad_address v = addr
       then if ok then dad_failed_loop gen (nd\<lparr>addresses := (us @ [v']) @ vs\<rparr>) addr (length (us @ [v'])) True
            else dad_failed_loop gen (nd\<lparr>addresses := us @ vs\<rparr>) addr (length us) True
       else dad_failed_loop gen (nd\<lparr>addresses := (us @ [v]) @ vs\<rparr>) addr (length (us @ [v])) changed)"
    by (subst dad_failed_loop.simps) (simp add: c v')
  also have "\<dots> = (nd\<lparr>addresses := us @ dad_retry gen nd addr (v # vs)\<rparr>,
      changed \<or> addr \<in> ad_address ` set (v # vs))"
    unfolding Cons.IH using v' by (auto simp: dad_retry_def)
  finally show ?case .
qed

lemma dad_failed_fold:
  "fold (\<lambda>addr (nd, changed). dad_failed_loop gen nd addr 0 changed) failed (nd\<lparr>addresses := as\<rparr>, changed) =
     (nd\<lparr>addresses := fold (dad_retry gen nd) failed as\<rparr>,
      changed \<or> (\<exists>k<length failed. failed ! k \<in> ad_address ` set (fold (dad_retry gen nd) (take k failed) as)))"
proof (induction failed arbitrary: as changed)
  case (Cons f failed)
  have "dad_failed_loop gen (nd\<lparr>addresses := as\<rparr>) f 0 changed =
      (nd\<lparr>addresses := dad_retry gen nd f as\<rparr>, changed \<or> f \<in> ad_address ` set as)"
    using dad_failed_loop_eq [where gen = gen and nd = nd and us = "[]" and vs = as and addr = f and changed = changed]
    by simp
  then show ?case by (auto simp: Cons.IH less_Suc_eq_0_disj)
qed simp

lemma dad_retry_counter:
  assumes "\<forall>a\<in>set as. unat (ad_dad_counter a) \<le> 3" "a' \<in> set (dad_retry gen nd addr as)"
  shows "unat (ad_dad_counter a') \<le> 3"
proof -
  from assms(2) obtain a where a: "a \<in> set as"
    and a': "a' = a \<or> complete_address gen nd a = (a', True)"
    by (auto simp: dad_retry_def split: if_splits prod.splits)
  show ?thesis
  proof (cases "a' = a")
    case False
    with a' have c: "complete_address gen nd a = (a', True)" by simp
    then have "ad_dad_counter a' = ad_dad_counter a \<or>
        ad_dad_counter a' = ad_dad_counter a + 1 \<and> unat (ad_dad_counter a) < 3"
      by (auto simp: complete_address_def nm_utils_ipv6_addr_set_stable_privacy_may_fail_def Let_def
          not_le split: if_splits)
    moreover have "unat (ad_dad_counter a + 1) \<le> unat (ad_dad_counter a) + 1"
      by (simp add: unat_word_ariths(1))
    ultimately show ?thesis using assms(1) a by fastforce
  qed (use assms(1) a in simp)
qed

lemma dad_retry_counter_fold:
  "\<forall>a\<in>set as. unat (ad_dad_counter a) \<le> 3 \<Longrightarrow>
    \<forall>a\<in>set (fold (dad_retry gen nd) failed as). unat (ad_dad_counter a) \<le> 3"
proof (induction failed arbitrary: as)
  case (Cons f failed)
  have "\<forall>a\<in>set (dad_retry gen nd f as). unat (ad_dad_counter a) \<le> 3"
    using dad_retry_counter [OF Cons.prems] by blast
  from Cons.IH [OF this] show ?case by simp
qed simp

text \<open>
  When duplicate address detection fails for some addresses, exactly the entries with those
  addresses are replaced by a newly generated address or, when none can be generated, removed, and
  the loop that removes entries while it walks the array skips none. The caller learns whether
  anything changed. No entry ever gets more than three tries.
\<close>

theorem dad_failed_correct:
  assumes "\<forall>a\<in>set (addresses nd). unat (ad_dad_counter a) \<le> 3"
  shows "nm_ndisc_dad_failed gen nd failed False now =
      (nd\<lparr>addresses := fold (dad_retry gen nd) failed (addresses nd)\<rparr>,
       if \<exists>k<length failed. failed ! k \<in> ad_address ` set (fold (dad_retry gen nd) (take k failed) (addresses nd))
       then {NM_NDISC_CONFIG_ADDRESSES} else {}) \<and>
    (\<forall>a\<in>set (addresses (fst (nm_ndisc_dad_failed gen nd failed False now))). unat (ad_dad_counter a) \<le> 3)"
  using dad_failed_fold [where gen = gen and failed = failed and nd = nd and as = "addresses nd" and changed = False]
    dad_retry_counter_fold [OF assms]
  by (simp add: nm_ndisc_dad_failed_def)

theorem dad_failed_correct_witness:
  "nm_ndisc_dad_failed (\<lambda>_ a n. take 15 a @ [of_nat n])
     ((nm_ndisc_init example_config)\<lparr>addresses := [example_address 1 5000, example_address 2 5000]\<rparr>)
     [ad_address (example_address 2 5000)] False 1000 =
   ((nm_ndisc_init example_config)\<lparr>addresses := [example_address 1 5000,
       (example_address 2 5000)\<lparr>ad_address := [0x20, 1, 0, 0, 0, 0, 0, 2, 0, 0, 0, 0, 0, 0, 0, 1], ad_dad_counter := 2\<rparr>]\<rparr>,
    {NM_NDISC_CONFIG_ADDRESSES})"
  using dad_failed_correct [of "(nm_ndisc_init example_config)\<lparr>addresses := [example_address 1 5000, example_address 2 5000]\<rparr>"
      "\<lambda>_ a n. take 15 a @ [of_nat n]" "[ad_address (example_address 2 5000)]" 1000]
  by (simp add: dad_retry_def complete_address_def nm_utils_ipv6_addr_set_stable_privacy_may_fail_def
      nm_ndisc_init_def config_init_def)

end
