(* ===== verification/NM_Lndp.thy ===== *)
theory NM_Lndp
  imports NM_NDisc_Run
begin

text \<open>
  The messages of neighbor discovery, \<^verbatim>\<open>src/core/ndisc/nm-lndp-ndisc.c\<close>: processing
  a router advertisement and composing one. What \<^verbatim>\<open>libndp\<close> extracts from a received
  message is the argument of \<open>receive_ra\<close>, a record with one field per accessor and one list per
  kind of option in the order of their occurrence.
\<close>

section \<open>Receiving a router advertisement\<close>

record ndp_prefix =
  op_prefix :: in6_addr
  op_prefix_len :: nat
  op_flag_on_link :: bool
  op_flag_auto_addr_conf :: bool
  op_valid_time :: u32
  op_preferred_time :: u32

record ndp_route =
  or_prefix :: in6_addr
  or_prefix_len :: nat
  or_lifetime :: u32
  or_preference :: nat

record ndp_msgra =
  ra_addrto :: in6_addr
  ra_flag_managed :: bool
  ra_flag_other :: bool
  ra_router_lifetime :: u32
  ra_route_preference :: nat
  ra_prefixes :: "ndp_prefix list"
  ra_routes :: "ndp_route list"
  ra_rdnss :: "(in6_addr list \<times> u32) list"
  ra_dnssl :: "(string list \<times> u32) list"
  ra_curhoplimit :: int
  ra_reachable_time :: u32
  ra_retransmit_time :: u32
  ra_mtus :: "u32 list"

type_synonym ra_state = "NMNDisc \<times> NMNDiscConfigMap"

definition route_preference_coerce :: "nat \<Rightarrow> NMIcmpv6RouterPref" where
  "route_preference_coerce pref =
     (if pref = 3 then NM_ICMPV6_ROUTER_PREF_LOW
      else if pref = 0 then NM_ICMPV6_ROUTER_PREF_MEDIUM
      else if pref = 1 then NM_ICMPV6_ROUTER_PREF_HIGH
      else NM_ICMPV6_ROUTER_PREF_MEDIUM)"

definition ra_note :: "NMNDiscConfigFlag \<Rightarrow> NMNDiscConfigMap \<Rightarrow> NMNDisc \<times> bool \<Rightarrow> ra_state" where
  "ra_note flag changed = (\<lambda>(nd, ch). (nd, if ch then changed \<union> {flag} else changed))"

definition receive_ra_dhcp_level :: "ndp_msgra \<Rightarrow> ra_state \<Rightarrow> ra_state" where
  "receive_ra_dhcp_level ra = (\<lambda>(nd, changed).
     let level = (if ra_flag_managed ra then NM_NDISC_DHCP_LEVEL_MANAGED
                  else if ra_flag_other ra then NM_NDISC_DHCP_LEVEL_OTHERCONF
                  else NM_NDISC_DHCP_LEVEL_NONE);
         level = max level (dhcp_level nd)
     in if level \<noteq> dhcp_level nd
        then (nd\<lparr>dhcp_level := level\<rparr>, changed \<union> {NM_NDISC_CONFIG_DHCP_LEVEL}) else (nd, changed))"

definition ra_gateway_item :: "ndp_msgra \<Rightarrow> int \<Rightarrow> NMNDiscGateway" where
  "ra_gateway_item ra now_msec =
     \<lparr>gw_address = ra_addrto ra,
      gw_expiry_msec = nm_ndisc_lifetime_to_expiry now_msec (ra_router_lifetime ra),
      gw_preference = route_preference_coerce (ra_route_preference ra)\<rparr>"

definition receive_ra_gateway :: "ndp_msgra \<Rightarrow> int \<Rightarrow> ra_state \<Rightarrow> ra_state" where
  "receive_ra_gateway ra now_msec = (\<lambda>(nd, changed).
     ra_note NM_NDISC_CONFIG_GATEWAYS changed (nm_ndisc_add_gateway nd (ra_gateway_item ra now_msec) now_msec))"

text \<open>The buffer for the network is not initialised before its host part is cleared; \<open>junk\<close> is what it holds.\<close>

definition receive_ra_prefix ::
    "stable_generator \<Rightarrow> in6_addr \<Rightarrow> int \<Rightarrow> ndp_prefix \<Rightarrow> ra_state \<Rightarrow> ra_state" where
  "receive_ra_prefix gen junk now_msec opt = (\<lambda>(nd, changed).
     let r_plen = op_prefix_len opt in
     if r_plen = 0 \<or> r_plen > 128 then (nd, changed)
     else
       (case nm_ip6_addr_clear_host_address junk (Some (op_prefix opt)) r_plen of
          None \<Rightarrow> (nd, changed)
        | Some r_network \<Rightarrow>
            if IN6_IS_ADDR_UNSPECIFIED r_network \<or> IN6_IS_ADDR_LINKLOCAL r_network then (nd, changed)
            else
              (let (nd, changed) =
                 (if op_flag_on_link opt then
                    ra_note NM_NDISC_CONFIG_ROUTES changed
                      (nm_ndisc_add_route nd
                        \<lparr>rt_network = r_network, rt_gateway = replicate 16 0,
                         rt_expiry_msec = nm_ndisc_lifetime_to_expiry now_msec (op_valid_time opt),
                         rt_preference = NM_ICMPV6_ROUTER_PREF_MEDIUM, rt_plen = r_plen,
                         rt_on_link = True, rt_duplicate = False\<rparr> now_msec)
                  else (nd, changed))
               in
               if r_plen = 64 \<and> op_flag_auto_addr_conf opt then
                 (let valid_time = op_valid_time opt;
                      preferred_time = min (op_preferred_time opt) valid_time in
                  ra_note NM_NDISC_CONFIG_ADDRESSES changed
                    (nm_ndisc_complete_and_add_address gen nd
                      \<lparr>ad_address = r_network,
                       ad_expiry_msec = nm_ndisc_lifetime_to_expiry now_msec valid_time,
                       ad_expiry_preferred_msec = nm_ndisc_lifetime_to_expiry now_msec preferred_time,
                       ad_dad_counter = 0\<rparr> now_msec))
               else (nd, changed))))"

definition receive_ra_route ::
    "in6_addr \<Rightarrow> in6_addr \<Rightarrow> int \<Rightarrow> ndp_route \<Rightarrow> ra_state \<Rightarrow> ra_state" where
  "receive_ra_route gateway_addr junk now_msec opt = (\<lambda>(nd, changed).
     let plen = or_prefix_len opt in
     if plen = 0 \<or> plen > 128 then (nd, changed)
     else
       (case nm_ip6_addr_clear_host_address junk (Some (or_prefix opt)) plen of
          None \<Rightarrow> (nd, changed)
        | Some network \<Rightarrow>
            ra_note NM_NDISC_CONFIG_ROUTES changed
              (nm_ndisc_add_route nd
                \<lparr>rt_network = network, rt_gateway = gateway_addr,
                 rt_expiry_msec = nm_ndisc_lifetime_to_expiry now_msec (or_lifetime opt),
                 rt_preference = route_preference_coerce (or_preference opt), rt_plen = plen,
                 rt_on_link = False, rt_duplicate = False\<rparr> now_msec)))"

definition rdnss_items :: "int \<Rightarrow> in6_addr list \<times> u32 \<Rightarrow> NMNDiscDNSServer list" where
  "rdnss_items now_msec = (\<lambda>(addrs, lifetime).
     map (\<lambda>a. \<lparr>ds_address = a, ds_expiry_msec = nm_ndisc_lifetime_to_expiry now_msec lifetime\<rparr>) addrs)"

definition receive_ra_rdnss :: "int \<Rightarrow> in6_addr list \<times> u32 \<Rightarrow> ra_state \<Rightarrow> ra_state" where
  "receive_ra_rdnss now_msec opt st =
     fold (\<lambda>item (nd, changed).
             ra_note NM_NDISC_CONFIG_DNS_SERVERS changed (nm_ndisc_add_dns_server nd item now_msec))
       (rdnss_items now_msec opt) st"

definition dnssl_items :: "int \<Rightarrow> string list \<times> u32 \<Rightarrow> NMNDiscDNSDomain list" where
  "dnssl_items now_msec = (\<lambda>(domains, lifetime).
     map (\<lambda>d. \<lparr>dd_domain = Some d, dd_expiry_msec = nm_ndisc_lifetime_to_expiry now_msec lifetime\<rparr>) domains)"

definition receive_ra_dnssl :: "int \<Rightarrow> string list \<times> u32 \<Rightarrow> ra_state \<Rightarrow> ra_state" where
  "receive_ra_dnssl now_msec opt st =
     fold (\<lambda>item (nd, changed).
             ra_note NM_NDISC_CONFIG_DNS_DOMAINS changed (nm_ndisc_add_dns_domain nd item now_msec))
       (dnssl_items now_msec opt) st"

definition receive_ra_params :: "ndp_msgra \<Rightarrow> ra_state \<Rightarrow> ra_state" where
  "receive_ra_params ra = (\<lambda>(nd, changed).
     let (nd, changed) =
           (if hop_limit nd \<noteq> ra_curhoplimit ra
            then (nd\<lparr>hop_limit := ra_curhoplimit ra\<rparr>, changed \<union> {NM_NDISC_CONFIG_HOP_LIMIT})
            else (nd, changed));
         (nd, changed) =
           (if ra_reachable_time ra \<noteq> 0 \<and> reachable_time_ms nd \<noteq> ra_reachable_time ra
            then (nd\<lparr>reachable_time_ms := ra_reachable_time ra\<rparr>, changed \<union> {NM_NDISC_CONFIG_REACHABLE_TIME})
            else (nd, changed))
     in if ra_retransmit_time ra \<noteq> 0 \<and> retrans_timer_ms nd \<noteq> ra_retransmit_time ra
        then (nd\<lparr>retrans_timer_ms := ra_retransmit_time ra\<rparr>, changed \<union> {NM_NDISC_CONFIG_RETRANS_TIMER})
        else (nd, changed))"

definition receive_ra_mtu :: "u32 \<Rightarrow> ra_state \<Rightarrow> ra_state" where
  "receive_ra_mtu m = (\<lambda>(nd, changed).
     if m \<ge> 1280 then
       if mtu nd \<noteq> m then (nd\<lparr>mtu := m\<rparr>, changed \<union> {NM_NDISC_CONFIG_MTU}) else (nd, changed)
     else (nd, changed))"

definition receive_ra_collect ::
    "stable_generator \<Rightarrow> in6_addr \<Rightarrow> NMNDisc \<Rightarrow> ndp_msgra \<Rightarrow> int \<Rightarrow> ra_state" where
  "receive_ra_collect gen junk nd ra now_msec =
     (let st = (nd, {});
          st = receive_ra_dhcp_level ra st;
          st = receive_ra_gateway ra now_msec st;
          st = fold (receive_ra_prefix gen junk now_msec) (ra_prefixes ra) st;
          st = fold (receive_ra_route (ra_addrto ra) junk now_msec) (ra_routes ra) st;
          st = fold (receive_ra_rdnss now_msec) (ra_rdnss ra) st;
          st = fold (receive_ra_dnssl now_msec) (ra_dnssl ra) st;
          st = receive_ra_params ra st
      in fold receive_ra_mtu (ra_mtus ra) st)"

definition receive_ra ::
    "stable_generator \<Rightarrow> in6_addr \<Rightarrow> NMNDisc \<Rightarrow> ndp_msgra \<Rightarrow> int \<Rightarrow> int \<Rightarrow> u32 \<Rightarrow> NMNDisc" where
  "receive_ra gen junk nd ra now_msec clock_msec rnd =
     (if IN6_IS_ADDR_UNSPECIFIED (ra_addrto ra) then nd
      else
        (case receive_ra_collect gen junk nd ra now_msec of
           (nd, changed) \<Rightarrow> nm_ndisc_ra_received nd now_msec changed clock_msec rnd))"

definition receive_rs :: "NMNDisc \<Rightarrow> int \<Rightarrow> int \<Rightarrow> NMNDisc" where
  "receive_rs nd now_sec delay_ms = nm_ndisc_rs_received nd now_sec delay_ms"

section \<open>Sending a router advertisement\<close>

text \<open>
  The options are appended to the message in order; an option is its type, its length octet and its
  content. \<open>wire\<close> stands for \<^verbatim>\<open>nm_sd_dns_name_to_wire_format\<close>, which writes the
  name in wire format into a buffer of the given size or fails; the buffer is what the string buffer
  reserves, at least two bytes more than the name.
\<close>

datatype ra_option =
  ND_OPT_PREFIX_INFORMATION u8 nat u32 u32 in6_addr
| NM_ND_OPT_RDNSS u8 u32 "in6_addr list"
| NM_ND_OPT_DNSSL u8 u32 "u8 list"

primrec option_len_octet :: "ra_option \<Rightarrow> u8" where
  "option_len_octet (ND_OPT_PREFIX_INFORMATION l _ _ _ _) = l"
| "option_len_octet (NM_ND_OPT_RDNSS l _ _) = l"
| "option_len_octet (NM_ND_OPT_DNSSL l _ _) = l"

primrec option_bytes :: "ra_option \<Rightarrow> nat" where
  "option_bytes (ND_OPT_PREFIX_INFORMATION _ _ _ _ _) = 32"
| "option_bytes (NM_ND_OPT_RDNSS _ _ addrs) = 8 + 16 * length addrs"
| "option_bytes (NM_ND_OPT_DNSSL _ _ bs) = 8 + length bs"

record ra_message =
  msg_payload_len :: nat
  msg_options :: "ra_option list"

definition ndp_msg_add_option :: "nat \<Rightarrow> ra_message \<Rightarrow> nat \<Rightarrow> ra_message option" where
  "ndp_msg_add_option maxlen msg len =
     (let len = len + msg_payload_len msg in
      if len > maxlen then None else Some (msg\<lparr>msg_payload_len := len\<rparr>))"

definition prefix_option :: "NMNDiscAddress \<Rightarrow> ra_option" where
  "prefix_option a =
     ND_OPT_PREFIX_INFORMATION 4 64
       (word_of_int (nm_ndisc_lifetime_from_expiry 0 (ad_expiry_msec a) True))
       (word_of_int (nm_ndisc_lifetime_from_expiry 0 (ad_expiry_preferred_msec a) True))
       (take 8 (ad_address a) @ replicate 8 0)"

fun send_ra_prefixes :: "nat \<Rightarrow> NMNDiscAddress list \<Rightarrow> ra_message \<Rightarrow> ra_message" where
  "send_ra_prefixes maxlen [] msg = msg"
| "send_ra_prefixes maxlen (a # as) msg =
     (case ndp_msg_add_option maxlen msg 32 of
        None \<Rightarrow> msg
      | Some msg \<Rightarrow> send_ra_prefixes maxlen as (msg\<lparr>msg_options := msg_options msg @ [prefix_option a]\<rparr>))"

definition send_ra_rdnss :: "nat \<Rightarrow> NMNDiscDNSServer list \<Rightarrow> ra_message \<Rightarrow> ra_message" where
  "send_ra_rdnss maxlen dss msg =
     (if length dss > 0 then
        (let len = 8 + 16 * length dss in
         case ndp_msg_add_option maxlen msg len of
           None \<Rightarrow> msg
         | Some msg \<Rightarrow>
             msg\<lparr>msg_options := msg_options msg @ [NM_ND_OPT_RDNSS (of_nat (len div 8)) 900 (map ds_address dss)]\<rparr>)
      else msg)"

definition search_list_wire :: "(string \<Rightarrow> u8 list option) \<Rightarrow> NMNDiscDNSDomain list \<Rightarrow> u8 list" where
  "search_list_wire wire dds =
     concat (map (\<lambda>d. case dd_domain d of
                         None \<Rightarrow> []
                       | Some name \<Rightarrow>
                           if name = '''' then []
                           else (case wire name of None \<Rightarrow> [] | Some bs \<Rightarrow> bs)) dds)"

definition send_ra_dnssl ::
    "(string \<Rightarrow> u8 list option) \<Rightarrow> nat \<Rightarrow> NMNDiscDNSDomain list \<Rightarrow> ra_message \<Rightarrow> ra_message" where
  "send_ra_dnssl wire maxlen dds msg =
     (if length dds > 0 then
        (let sbuf = search_list_wire wire dds in
         if length sbuf = 0 then msg
         else
           (let len = 8 + length sbuf;
                padding = len mod 8;
                (padding, len) = (if padding \<noteq> 0 then (8 - padding, len + (8 - padding)) else (padding, len))
            in if len div 8 \<ge> 256 then msg
               else (case ndp_msg_add_option maxlen msg len of
                       None \<Rightarrow> msg
                     | Some msg \<Rightarrow>
                         msg\<lparr>msg_options := msg_options msg @
                           [NM_ND_OPT_DNSSL (of_nat (len div 8)) 900 (sbuf @ replicate padding 0)]\<rparr>)))
      else msg)"

definition send_ra_message ::
    "(string \<Rightarrow> u8 list option) \<Rightarrow> nat \<Rightarrow> nat \<Rightarrow> NMNDisc \<Rightarrow> ra_message" where
  "send_ra_message wire hdr_len maxlen nd =
     send_ra_dnssl wire maxlen (dns_domains nd)
       (send_ra_rdnss maxlen (dns_servers nd)
         (send_ra_prefixes maxlen (addresses nd) \<lparr>msg_payload_len = hdr_len, msg_options = []\<rparr>))"

definition send_ra ::
    "(int \<Rightarrow> string) \<Rightarrow> (string \<Rightarrow> u8 list option) \<Rightarrow> nat \<Rightarrow> nat \<Rightarrow> int \<Rightarrow> (ra_message \<Rightarrow> int) \<Rightarrow>
     NMNDisc \<Rightarrow> string + ra_message" where
  "send_ra strerror wire hdr_len maxlen new_errsv send nd =
     (if new_errsv \<noteq> 0 then Inl ''cannot create a router advertisement''
      else
        (let msg = send_ra_message wire hdr_len maxlen nd; errsv = send msg in
         if errsv \<noteq> 0 then Inl (strerror errsv) else Inr msg))"

section \<open>The state of the object and its events\<close>

definition addresses_ok :: "NMNDiscConfig \<Rightarrow> NMNDiscAddress list \<Rightarrow> bool" where
  "addresses_ok cfg as \<longleftrightarrow>
     int (length as) \<le> c_max_addresses cfg \<and>
     (\<forall>a\<in>set as. ad_expiry_preferred_msec a \<le> ad_expiry_msec a \<and> unat (ad_dad_counter a) \<le> 3)"

definition config_ok :: "NMNDiscConfig \<Rightarrow> bool" where
  "config_ok cfg \<longleftrightarrow> 1 \<le> c_max_addresses cfg \<and> c_max_addresses cfg \<le> 3 * NM_NDISC_SIZE_MAX_ADDRESSES"

definition ndisc_inv :: "NMNDisc \<Rightarrow> bool" where
  "ndisc_inv nd \<longleftrightarrow>
     ASSERT_data_gateways (gateways nd) \<and> length (gateways nd) \<le> NM_NDISC_SIZE_MAX_GATEWAYS \<and>
     routes_ok (routes nd) \<and>
     distinct (map ds_address (dns_servers nd)) \<and> length (dns_servers nd) \<le> NM_NDISC_SIZE_MAX_DNS_SERVERS \<and>
     distinct (map dd_domain (dns_domains nd)) \<and> length (dns_domains nd) \<le> NM_NDISC_SIZE_MAX_DNS_DOMAINS \<and>
     addresses_ok (config nd) (addresses nd) \<and>
     solicit_ok (solicit_retransmit_time_msec nd) \<and> config_ok (config nd)"

text \<open>
  The events of the object, each with what the handler reads from outside. A timer event happens
  only when its timer is armed.
\<close>

datatype ndisc_event =
  Event_receive_ra in6_addr ndp_msgra int int u32
| Event_receive_rs int int
| Event_expire int int
| Event_solicit bool "string option" int u32 u32
| Event_ra_timeout
| Event_announce bool int "string option" int
| Event_dad_failed "in6_addr list" bool int
| Event_set_iid "u8 list" bool int u32
| Event_set_config "NMPlatformIP6Address list" "string list" "string list" int int
| Event_start bool u32 int int
| Event_stop bool

inductive ndisc_step ::
    "stable_generator \<Rightarrow> (string \<Rightarrow> in6_addr option) \<Rightarrow> NMNDisc \<Rightarrow> ndisc_event \<Rightarrow> NMNDisc \<Rightarrow> bool"
  for gen dnsname_parse where
  receive_ra: "ndisc_step gen dnsname_parse nd (Event_receive_ra junk ra now clock rnd)
    (receive_ra gen junk nd ra now clock rnd)"
| receive_rs: "ndisc_step gen dnsname_parse nd (Event_receive_rs now_sec delay)
    (receive_rs nd now_sec delay)"
| expire: "timeout_expire_source nd \<noteq> None \<Longrightarrow>
    ndisc_step gen dnsname_parse nd (Event_expire now clock) (timeout_expire_cb nd now clock)"
| solicit: "solicit_timer_source nd \<noteq> None \<Longrightarrow>
    ndisc_step gen dnsname_parse nd (Event_solicit ok send now r1 r2) (solicit_timer_cb nd ok send now r1 r2)"
| ra_timeout: "ra_timeout_source nd \<noteq> None \<Longrightarrow>
    ndisc_step gen dnsname_parse nd Event_ra_timeout (ra_timeout_cb nd)"
| announce: "send_ra_id nd \<noteq> None \<Longrightarrow>
    ndisc_step gen dnsname_parse nd (Event_announce ok now_sec send delay) (announce_router nd ok now_sec send delay)"
| dad_failed: "ndisc_step gen dnsname_parse nd (Event_dad_failed failed emit now)
    (fst (nm_ndisc_dad_failed gen nd failed emit now))"
| set_iid: "ndisc_step gen dnsname_parse nd (Event_set_iid new_iid tok now rnd)
    (fst (nm_ndisc_set_iid nd new_iid tok now rnd))"
| set_config: "ndisc_step gen dnsname_parse nd (Event_set_config addrs ns ss now_sec delay)
    (nm_ndisc_set_config gen dnsname_parse nd addrs ns ss now_sec delay)"
| start: "ndisc_step gen dnsname_parse nd (Event_start ok rnd now_sec delay)
    (nm_ndisc_start nd ok rnd now_sec delay)"
| stop: "ndisc_step gen dnsname_parse nd (Event_stop ok) (nm_ndisc_stop nd ok)"

inductive ndisc_run ::
    "stable_generator \<Rightarrow> (string \<Rightarrow> in6_addr option) \<Rightarrow> NMNDisc \<Rightarrow> ndisc_event list \<Rightarrow> NMNDisc \<Rightarrow> bool"
  for gen dnsname_parse where
  run_nil: "ndisc_run gen dnsname_parse nd [] nd"
| run_snoc: "ndisc_run gen dnsname_parse nd evs nd' \<Longrightarrow> ndisc_step gen dnsname_parse nd' ev nd'' \<Longrightarrow>
    ndisc_run gen dnsname_parse nd (evs @ [ev]) nd''"

inductive_cases ndisc_stepE: "ndisc_step gen dnsname_parse nd ev nd'"

section \<open>Every handler keeps the invariant\<close>

lemma routes_ok_view:
  assumes "map rt_view xs = map rt_view ys"
  shows "routes_ok xs = routes_ok ys"
proof -
  have k: "rt_key = (\<lambda>v. (fst v, fst (snd v), fst (snd (snd v)))) \<circ> rt_view"
    by (auto simp: rt_key_def rt_view_def)
  have "map rt_key xs = map rt_key ys" unfolding k using assms by (simp flip: map_map)
  moreover have "length xs = length ys" using assms by (rule map_eq_imp_length_eq)
  moreover have p: "(\<forall>r\<in>set zs. 0 < rt_plen r \<and> rt_plen r \<le> 128) \<longleftrightarrow>
      (\<forall>v\<in>set (map rt_view zs). 0 < fst (snd v) \<and> fst (snd v) \<le> 128)" for zs
    by (auto simp: rt_view_def)
  ultimately show ?thesis unfolding routes_ok_def p assms by simp
qed

lemma routes_ok_filter: "routes_ok rts \<Longrightarrow> routes_ok (filter P rts)"
  by (auto simp: routes_ok_def distinct_map_filter intro: order_trans [OF length_filter_le])

lemma ASSERT_data_gateways_take: "ASSERT_data_gateways gws \<Longrightarrow> ASSERT_data_gateways (take k gws)"
  unfolding ASSERT_data_gateways_iff
  by (auto simp: sorted_wrt_take take_map [symmetric] dest: in_set_takeD intro: distinct_take)

lemma ASSERT_data_gateways_filter: "ASSERT_data_gateways gws \<Longrightarrow> ASSERT_data_gateways (filter P gws)"
  unfolding ASSERT_data_gateways_iff by (auto simp: sorted_wrt_filter distinct_map_filter)

lemma addresses_ok_filter: "addresses_ok cfg as \<Longrightarrow> addresses_ok cfg (filter P as)"
proof -
  assume a: "addresses_ok cfg as"
  have "int (length (filter P as)) \<le> int (length as)" by simp
  also have "\<dots> \<le> c_max_addresses cfg" using a by (simp add: addresses_ok_def)
  finally show ?thesis using a by (auto simp: addresses_ok_def)
qed

lemma length_filter_le_trans: "length xs \<le> n \<Longrightarrow> length (filter P xs) \<le> n"
  using length_filter_le [of P xs] by linarith

lemma routes_ok_data_complete [simp]: "routes_ok (data_complete_prepare_routes rts) = routes_ok rts"
  by (rule routes_ok_view) simp

lemma emit_inv [simp]: "ndisc_inv (nm_ndisc_emit_config_change nd ch t) = ndisc_inv nd"
  by (simp add: ndisc_inv_def)

lemma check_timestamps_inv:
  assumes "ndisc_inv nd"
  shows "ndisc_inv (check_timestamps nd now ch clock)"
proof -
  have "length (take (gateways_limit nd) (live_gateways now nd)) \<le> NM_NDISC_SIZE_MAX_GATEWAYS"
    by (simp add: gateways_limit_def min_def)
  then show ?thesis
    using assms
    by (simp add: check_timestamps_eq Let_def ndisc_inv_def ASSERT_data_gateways_take
        ASSERT_data_gateways_filter routes_ok_filter addresses_ok_filter distinct_map_filter
        length_filter_le_trans)
qed

lemma ra_received_inv: "ndisc_inv nd \<Longrightarrow> ndisc_inv (nm_ndisc_ra_received nd now ch clock rnd)"
  using check_timestamps_inv [of "nd\<lparr>ra_timeout_source := None, last_error := None\<rparr>" now ch clock]
  by (simp add: nm_ndisc_ra_received_def Let_def ndisc_inv_def solicit_ok_def)

lemma add_gateway_inv:
  assumes "ndisc_inv nd" "\<not> IN6_IS_ADDR_UNSPECIFIED (gw_address x)"
  shows "ndisc_inv (fst (nm_ndisc_add_gateway nd x now))"
  using add_gateway_bundle [of "gateways nd" x now] assms
  by (simp add: nm_ndisc_add_gateway_def ndisc_inv_def case_prod_beta)

lemma add_route_inv: "ndisc_inv nd \<Longrightarrow> ndisc_inv (fst (nm_ndisc_add_route nd x now))"
  by (simp add: nm_ndisc_add_route_def ndisc_inv_def case_prod_beta add_route_routes_ok)

lemma add_dns_server_inv: "ndisc_inv nd \<Longrightarrow> ndisc_inv (fst (nm_ndisc_add_dns_server nd x now))"
  by (simp add: nm_ndisc_add_dns_server_def ndisc_inv_def case_prod_beta ds_store.add_distinct ds_store.add_cap)

lemma add_dns_domain_inv: "ndisc_inv nd \<Longrightarrow> ndisc_inv (fst (nm_ndisc_add_dns_domain nd x now))"
  by (simp add: nm_ndisc_add_dns_domain_def ndisc_inv_def case_prod_beta dd_store.add_distinct dd_store.add_cap)

lemma complete_address_ok:
  assumes "complete_address gen nd a = (a', True)" "unat (ad_dad_counter a) \<le> 3"
  shows "ad_expiry_msec a' = ad_expiry_msec a \<and> ad_expiry_preferred_msec a' = ad_expiry_preferred_msec a \<and>
    unat (ad_dad_counter a') \<le> 3"
proof -
  have "unat (ad_dad_counter a + 1) \<le> unat (ad_dad_counter a) + 1" by (simp add: unat_word_ariths(1))
  then show ?thesis
    using assms
    by (auto simp: complete_address_def nm_utils_ipv6_addr_set_stable_privacy_may_fail_def Let_def
        not_le split: if_splits)
qed

lemma addresses_ok_append:
  "addresses_ok cfg (as @ [a]) \<longleftrightarrow> addresses_ok cfg as \<and> int (length as) < c_max_addresses cfg \<and>
     ad_expiry_preferred_msec a \<le> ad_expiry_msec a \<and> unat (ad_dad_counter a) \<le> 3"
  by (auto simp: addresses_ok_def)

lemma addresses_ok_update:
  assumes "addresses_ok cfg as" "ad_expiry_preferred_msec a \<le> ad_expiry_msec a" "unat (ad_dad_counter a) \<le> 3"
  shows "addresses_ok cfg (as[i := a])"
  using assms set_update_subset_insert [of as i a] by (auto simp: addresses_ok_def)

lemma addresses_ok_nth: "addresses_ok cfg as \<Longrightarrow> i < length as \<Longrightarrow> unat (ad_dad_counter (as ! i)) \<le> 3"
  by (simp add: addresses_ok_def)

lemma add_address_from_ra_inv:
  assumes "ndisc_inv nd"
  shows "ndisc_inv (fst (nm_ndisc_add_address gen nd x now True))"
proof (cases rule: add_address_from_ra_cases [of gen nd x now])
  case same
  then show ?thesis using assms by simp
next
  case (upd i)
  then have "i < length (addresses nd)" using first_idx_Some by blast
  with upd(2) show ?thesis
    using assms addresses_ok_nth [of "config nd" "addresses nd" i]
    by (auto simp: ndisc_inv_def intro!: addresses_ok_update)
next
  case (new a)
  then show ?thesis
    using assms complete_address_ok [OF new(4)] by (simp add: ndisc_inv_def addresses_ok_append)
qed

lemma addresses_ok_remove:
  assumes "addresses_ok cfg as" "i < length as"
  shows "addresses_ok cfg (g_array_remove_index as i)"
  using assms set_remove_index_subset [of as i] by (auto simp: addresses_ok_def)

lemma add_address_static_inv:
  assumes "ndisc_inv nd" "unat (ad_dad_counter x) \<le> 3"
  shows "ndisc_inv (fst (nm_ndisc_add_address gen nd x now False))"
proof (cases "first_idx (\<lambda>a. ad_address a = ad_address x) (addresses nd)")
  case None
  then show ?thesis
    using assms by (auto simp: nm_ndisc_add_address_def Let_def ndisc_inv_def addresses_ok_append)
next
  case (Some i)
  then have i: "i < length (addresses nd)" using first_idx_Some by blast
  with Some show ?thesis
    using assms addresses_ok_nth [of "config nd" "addresses nd" i]
    by (auto simp: nm_ndisc_add_address_def Let_def ndisc_inv_def intro!: addresses_ok_update addresses_ok_remove)
qed

lemma fst_ra_note [simp]: "fst (ra_note f ch r) = fst r"
  by (simp add: ra_note_def case_prod_beta)

lemma fold_inv: "(\<And>x s. P s \<Longrightarrow> P (f x s)) \<Longrightarrow> P s \<Longrightarrow> P (fold f xs s)"
  by (induction xs arbitrary: s) auto

lemma receive_ra_prefix_inv:
  "ndisc_inv (fst st) \<Longrightarrow> ndisc_inv (fst (receive_ra_prefix gen junk now opt st))"
  by (cases st)
    (auto simp: receive_ra_prefix_def Let_def nm_ndisc_complete_and_add_address_def case_prod_beta
      add_route_inv add_address_from_ra_inv split: option.splits)

lemma receive_ra_route_inv:
  "ndisc_inv (fst st) \<Longrightarrow> ndisc_inv (fst (receive_ra_route gw junk now opt st))"
  by (cases st) (auto simp: receive_ra_route_def Let_def add_route_inv split: option.splits)

lemma receive_ra_rdnss_inv:
  "ndisc_inv (fst st) \<Longrightarrow> ndisc_inv (fst (receive_ra_rdnss now opt st))"
  unfolding receive_ra_rdnss_def
  by (rule fold_inv [where P = "\<lambda>st. ndisc_inv (fst st)"]) (auto simp: add_dns_server_inv)

lemma receive_ra_dnssl_inv:
  "ndisc_inv (fst st) \<Longrightarrow> ndisc_inv (fst (receive_ra_dnssl now opt st))"
  unfolding receive_ra_dnssl_def
  by (rule fold_inv [where P = "\<lambda>st. ndisc_inv (fst st)"]) (auto simp: add_dns_domain_inv)

lemma receive_ra_params_inv: "ndisc_inv (fst st) \<Longrightarrow> ndisc_inv (fst (receive_ra_params ra st))"
  by (cases st) (auto simp: receive_ra_params_def Let_def ndisc_inv_def)

lemma receive_ra_mtu_inv: "ndisc_inv (fst st) \<Longrightarrow> ndisc_inv (fst (receive_ra_mtu m st))"
  by (cases st) (auto simp: receive_ra_mtu_def ndisc_inv_def)

lemma receive_ra_collect_inv:
  assumes "ndisc_inv nd" "\<not> IN6_IS_ADDR_UNSPECIFIED (ra_addrto ra)"
  shows "ndisc_inv (fst (receive_ra_collect gen junk nd ra now))"
proof -
  have "ndisc_inv (fst (receive_ra_gateway ra now (receive_ra_dhcp_level ra (nd, {}))))"
    using assms
    by (auto simp: receive_ra_gateway_def receive_ra_dhcp_level_def Let_def ra_gateway_item_def
        ndisc_inv_def intro!: add_gateway_inv [unfolded ndisc_inv_def])
  then show ?thesis
    unfolding receive_ra_collect_def Let_def
    by (intro fold_inv [where P = "\<lambda>st. ndisc_inv (fst st)"] receive_ra_mtu_inv receive_ra_params_inv
        receive_ra_dnssl_inv receive_ra_rdnss_inv receive_ra_route_inv receive_ra_prefix_inv)
qed

lemma solicit_timer_cb_inv:
  assumes "ndisc_inv nd"
  shows "ndisc_inv (solicit_timer_cb nd ok send now r1 r2)"
proof -
  have "solicit_ok (solicit_retransmit_time_msec (solicit_timer_cb nd ok send now r1 r2))"
    using backoff_bounds [of nd ok send now r1 r2] assms by (simp add: ndisc_inv_def)
  moreover have "gateways (solicit_timer_cb nd ok send now r1 r2) = gateways nd"
    "addresses (solicit_timer_cb nd ok send now r1 r2) = addresses nd"
    "routes (solicit_timer_cb nd ok send now r1 r2) = routes nd"
    "dns_servers (solicit_timer_cb nd ok send now r1 r2) = dns_servers nd"
    "dns_domains (solicit_timer_cb nd ok send now r1 r2) = dns_domains nd"
    "config (solicit_timer_cb nd ok send now r1 r2) = config nd"
    by (simp_all add: solicit_timer_cb_def Let_def split: option.splits prod.splits)
  ultimately show ?thesis using assms by (simp add: ndisc_inv_def)
qed

lemma announce_inv:
  "ndisc_inv nd \<Longrightarrow> ndisc_inv (announce_router nd ok now send delay)"
  "ndisc_inv nd \<Longrightarrow> ndisc_inv (announce_router_initial nd now delay)"
  "ndisc_inv nd \<Longrightarrow> ndisc_inv (announce_router_solicited nd now delay)"
  by (auto simp: announce_router_def announce_router_initial_def announce_router_solicited_def Let_def ndisc_inv_def)

lemma dad_retry_ok:
  assumes "addresses_ok cfg as"
  shows "addresses_ok cfg (dad_retry gen nd addr as)"
proof -
  have "length (dad_retry gen nd addr as) \<le> length as"
    by (induction as) (auto simp: dad_retry_def split: prod.splits)
  then have "int (length (dad_retry gen nd addr as)) \<le> c_max_addresses cfg"
    using assms by (simp add: addresses_ok_def)
  moreover have "ad_expiry_preferred_msec a' \<le> ad_expiry_msec a' \<and> unat (ad_dad_counter a') \<le> 3"
    if "a' \<in> set (dad_retry gen nd addr as)" for a'
  proof -
    from that obtain a where a: "a \<in> set as" and a': "a' = a \<or> complete_address gen nd a = (a', True)"
      by (auto simp: dad_retry_def split: if_splits prod.splits)
    have "ad_expiry_preferred_msec a \<le> ad_expiry_msec a" "unat (ad_dad_counter a) \<le> 3"
      using a assms by (auto simp: addresses_ok_def)
    with a' show ?thesis using complete_address_ok [of gen nd a a'] by auto
  qed
  ultimately show ?thesis by (simp add: addresses_ok_def)
qed

lemma dad_failed_inv:
  assumes "ndisc_inv nd"
  shows "ndisc_inv (fst (nm_ndisc_dad_failed gen nd failed emit now))"
proof -
  have "addresses_ok (config nd) (fold (dad_retry gen nd) failed (addresses nd))"
    using assms by (intro fold_inv [where P = "addresses_ok (config nd)"]) (auto simp: dad_retry_ok ndisc_inv_def)
  then have "ndisc_inv (nd\<lparr>addresses := fold (dad_retry gen nd) failed (addresses nd)\<rparr>)"
    using assms by (simp add: ndisc_inv_def)
  then show ?thesis
    using dad_failed_fold [where gen = gen and failed = failed and nd = nd and as = "addresses nd" and changed = False]
    by (simp add: nm_ndisc_dad_failed_def Let_def)
qed

lemma set_iid_inv: "ndisc_inv nd \<Longrightarrow> ndisc_inv (fst (nm_ndisc_set_iid nd new_iid tok now rnd))"
  using emit_inv
  by (auto simp: nm_ndisc_set_iid_def Let_def solicit_timer_start_def ndisc_inv_def solicit_ok_def addresses_ok_def
      config_ok_def)

lemma set_config_address_inv:
  "ndisc_inv (fst st) \<Longrightarrow> ndisc_inv (fst (set_config_address gen now_sec a st))"
  by (cases st) (simp add: set_config_address_def case_prod_beta add_address_static_inv)

lemma set_config_nameserver_inv:
  "ndisc_inv (fst st) \<Longrightarrow> ndisc_inv (fst (set_config_nameserver dnsname_parse s st))"
  by (cases st) (simp add: set_config_nameserver_def case_prod_beta add_dns_server_inv split: option.splits)

lemma set_config_search_inv:
  "ndisc_inv (fst st) \<Longrightarrow> ndisc_inv (fst (set_config_search s st))"
  by (cases st) (simp add: set_config_search_def case_prod_beta add_dns_domain_inv)

lemma set_config_inv:
  assumes "ndisc_inv nd"
  shows "ndisc_inv (nm_ndisc_set_config gen dnsname_parse nd addrs ns ss now delay)"
proof -
  let ?inv = "\<lambda>st. ndisc_inv (fst st)"
  obtain nd1 ch1 f1 where 1: "fold (set_config_address gen now) addrs (nd, False, 0) = (nd1, ch1, f1)"
    by (metis prod_cases3)
  have "?inv (fold (set_config_address gen now) addrs (nd, False, 0))"
    using assms by (intro fold_inv [where P = ?inv] set_config_address_inv) simp_all
  then have "ndisc_inv nd1" using 1 by simp
  then have 2: "?inv (fold (set_config_nameserver dnsname_parse) ns (nd1, ch1))"
    by (intro fold_inv [where P = ?inv] set_config_nameserver_inv) simp_all
  then have "?inv (fold set_config_search ss (fold (set_config_nameserver dnsname_parse) ns (nd1, ch1)))"
    by (rule fold_inv [where P = ?inv, rotated]) (rule set_config_search_inv)
  then show ?thesis
    using 1 by (simp add: nm_ndisc_set_config_def Let_def case_prod_beta announce_inv)
qed

lemma start_stop_inv:
  "ndisc_inv nd \<Longrightarrow> ndisc_inv (nm_ndisc_start nd ok rnd now_sec delay)"
  "ndisc_inv nd \<Longrightarrow> ndisc_inv (nm_ndisc_stop nd ok)"
  "ndisc_inv nd \<Longrightarrow> ndisc_inv (ra_timeout_cb nd)"
  by (auto simp: nm_ndisc_start_def nm_ndisc_stop_def ra_timeout_cb_def solicit_timer_start_def Let_def announce_inv)
    (auto simp: ndisc_inv_def solicit_ok_def addresses_ok_def routes_ok_def config_ok_def ASSERT_data_gateways_iff)

lemma ndisc_step_inv:
  "ndisc_step gen dnsname_parse nd ev nd' \<Longrightarrow> ndisc_inv nd \<Longrightarrow> ndisc_inv nd'"
proof (induction rule: ndisc_step.induct)
  case (receive_ra nd junk ra now clock rnd)
  then show ?case
    using ra_received_inv [OF receive_ra_collect_inv [of nd ra gen junk now]]
    by (auto simp: receive_ra_def case_prod_beta)
next
  case (receive_rs nd now_sec delay)
  then show ?case
    by (simp add: receive_rs_def nm_ndisc_rs_received_def announce_inv(3) ndisc_inv_def [of "_\<lparr>last_error := _\<rparr>"]
        ndisc_inv_def [symmetric])
next
  case (expire nd now clock)
  then show ?case by (simp add: timeout_expire_cb_def check_timestamps_inv)
qed (simp_all add: solicit_timer_cb_inv start_stop_inv announce_inv dad_failed_inv set_iid_inv set_config_inv)

lemma ndisc_init_inv: "ndisc_inv (nm_ndisc_init cfg)"
  by (simp add: nm_ndisc_init_def ndisc_inv_def ASSERT_data_gateways_iff routes_ok_def addresses_ok_def
      solicit_ok_def config_ok_def config_init_def)

text \<open>
  C8. In every state that a freshly created object can reach through any sequence of received
  messages, timers, failed address checks, configuration changes, starts and stops: the gateways
  are sorted by preference and unique, no array exceeds its bound, keys are unique, no address is
  preferred longer than it is valid, no address had more than three tries and the solicitation
  backoff is within its bounds.
\<close>

theorem ndisc_reachable_invariant:
  assumes "ndisc_run gen dnsname_parse (nm_ndisc_init cfg) evs nd"
  shows "ndisc_inv nd"
  using assms
proof (induction "nm_ndisc_init cfg" evs nd rule: ndisc_run.induct)
  case run_nil
  show ?case by (rule ndisc_init_inv)
next
  case (run_snoc evs nd' ev nd'')
  then show ?case using ndisc_step_inv by blast
qed

theorem ndisc_reachable_invariant_witness:
  "ndisc_inv (nm_ndisc_start (nm_ndisc_init example_config) True 7 100 1)"
proof -
  have "ndisc_run (\<lambda>_ a _. a) (\<lambda>_. None) (nm_ndisc_init example_config) ([] @ [Event_start True 7 100 1])
      (nm_ndisc_start (nm_ndisc_init example_config) True 7 100 1)"
    by (rule ndisc_run.run_snoc [OF ndisc_run.run_nil ndisc_step.start])
  then show ?thesis by (rule ndisc_reachable_invariant)
qed

section \<open>A host keeps soliciting\<close>

lemma add_address_solicit_timer [simp]:
  "solicit_timer_source (fst (nm_ndisc_add_address gen nd x now from_ra)) = solicit_timer_source nd"
  by (simp add: nm_ndisc_add_address_def Let_def case_prod_beta split: option.split)

lemma Collect_filter: "{d \<in> set (filter P ys). Q d} = {d \<in> {y \<in> set ys. Q y}. P d}"
  by auto

lemma solicit_timer_armed_step:
  assumes "ndisc_step gen dnsname_parse nd ev nd'" "\<forall>ok. ev \<noteq> Event_stop ok" "solicit_timer_source nd \<noteq> None"
  shows "solicit_timer_source nd' \<noteq> None"
  using assms
proof (induction rule: ndisc_step.induct)
  case (receive_ra nd junk ra now clock rnd)
  then show ?case by (auto simp: receive_ra_def nm_ndisc_ra_received_def Let_def split: prod.splits)
next
  case (solicit nd ok send now r1 r2)
  then show ?case by (simp add: solicit_timer_cb_def Let_def split: prod.splits)
next
  case (dad_failed nd failed emit now)
  then show ?case
    using dad_failed_fold [where gen = gen and failed = failed and nd = nd and as = "addresses nd" and changed = False]
    by (simp add: nm_ndisc_dad_failed_def Let_def)
next
  case (set_config nd addrs ns ss now_sec delay)
  let ?P = "\<lambda>st. solicit_timer_source (fst st) \<noteq> None"
  have "?P (fold (set_config_address gen now_sec) addrs (nd, False, 0))"
    using set_config
    by (intro fold_inv [where P = ?P]) (auto simp: set_config_address_def case_prod_beta)
  then obtain nd1 ch1 f1 where 1: "fold (set_config_address gen now_sec) addrs (nd, False, 0) = (nd1, ch1, f1)"
    "solicit_timer_source nd1 \<noteq> None"
    by (metis fst_conv prod_cases3)
  have "?P (fold (set_config_nameserver dnsname_parse) ns (nd1, ch1))"
    using 1 by (intro fold_inv [where P = ?P])
      (auto simp: set_config_nameserver_def nm_ndisc_add_dns_server_def split: prod.splits option.splits)
  then have "?P (fold set_config_search ss (fold (set_config_nameserver dnsname_parse) ns (nd1, ch1)))"
    by (rule fold_inv [where P = ?P, rotated])
      (auto simp: set_config_search_def nm_ndisc_add_dns_domain_def split: prod.splits option.splits)
  then show ?case
    using 1 by (auto simp: nm_ndisc_set_config_def announce_router_initial_def Let_def case_prod_beta)
qed (auto simp: receive_rs_def nm_ndisc_rs_received_def announce_router_solicited_def timeout_expire_cb_def
    check_timestamps_eq Let_def ra_timeout_cb_def announce_router_def nm_ndisc_set_iid_def solicit_timer_start_def
    nm_ndisc_start_def announce_router_initial_def)

text \<open>
  C22. A host that was started keeps soliciting routers: through any sequence of events without a
  stop the solicitation timer stays armed, so solicitations are never given up.
\<close>

theorem host_keeps_soliciting:
  assumes "ndisc_run gen dnsname_parse (nm_ndisc_start nd True rnd now_sec delay) evs nd'"
    "c_node_type (config nd) = NM_NDISC_NODE_TYPE_HOST" "\<forall>ok. Event_stop ok \<notin> set evs"
  shows "solicit_timer_source nd' \<noteq> None"
  using assms
proof (induction "nm_ndisc_start nd True rnd now_sec delay" evs nd' rule: ndisc_run.induct)
  case run_nil
  then show ?case by (auto simp: nm_ndisc_start_def solicit_timer_start_def Let_def)
next
  case (run_snoc evs nd1 ev nd2)
  then show ?case using solicit_timer_armed_step [of gen dnsname_parse nd1 ev nd2] by auto
qed

theorem host_keeps_soliciting_witness:
  "solicit_timer_source (solicit_timer_cb (nm_ndisc_start (nm_ndisc_init example_config) True 7 100 1)
     True None 500 3 4) \<noteq> None"
proof (rule host_keeps_soliciting)
  show "ndisc_run (\<lambda>_ a _. a) (\<lambda>_. None) (nm_ndisc_start (nm_ndisc_init example_config) True 7 100 1)
      ([] @ [Event_solicit True None 500 3 4])
      (solicit_timer_cb (nm_ndisc_start (nm_ndisc_init example_config) True 7 100 1) True None 500 3 4)"
    by (rule ndisc_run.run_snoc [OF ndisc_run.run_nil ndisc_step.solicit])
      (simp add: nm_ndisc_start_def solicit_timer_start_def Let_def nm_ndisc_init_def config_init_def)
qed (simp_all add: nm_ndisc_init_def config_init_def)

section \<open>DNS servers of an advertisement\<close>

lemma receive_ra_rdnss_dns_servers:
  "dns_servers (fst (receive_ra_rdnss now opt st)) =
     add_all add_dns_server (dns_servers (fst st)) (rdnss_items now opt) now"
proof -
  have "dns_servers (fst (fold (\<lambda>item (nd, changed).
          ra_note NM_NDISC_CONFIG_DNS_SERVERS changed (nm_ndisc_add_dns_server nd item now)) items st)) =
      add_all add_dns_server (dns_servers (fst st)) items now" for items
    by (induction items arbitrary: st) (auto simp: nm_ndisc_add_dns_server_def case_prod_beta)
  then show ?thesis by (simp add: receive_ra_rdnss_def)
qed

lemma fold_keeps: "(\<And>x s. g (f x s) = g s) \<Longrightarrow> g (fold f xs s) = g s"
  by (induction xs arbitrary: s) auto

lemma collect_dns_servers:
  "dns_servers (fst (receive_ra_collect gen junk nd ra now)) =
     add_all add_dns_server (dns_servers nd) (concat (map (rdnss_items now) (ra_rdnss ra))) now"
proof -
  let ?g = "\<lambda>st. dns_servers (fst st)"
  have a: "dns_servers (fst (nm_ndisc_add_address gen nd x now True)) = dns_servers nd" for nd x
    by (cases rule: add_address_from_ra_cases [of gen nd x now]) simp_all
  have 1: "?g (receive_ra_mtu m st) = ?g st" "?g (receive_ra_params ra st) = ?g st"
    "?g (receive_ra_route gw junk now r st) = ?g st" "?g (receive_ra_gateway ra now st) = ?g st"
    "?g (receive_ra_dhcp_level ra st) = ?g st" for m r gw st
    by (cases st; auto simp: receive_ra_mtu_def receive_ra_params_def receive_ra_route_def receive_ra_gateway_def
        receive_ra_dhcp_level_def nm_ndisc_add_gateway_def nm_ndisc_add_route_def Let_def case_prod_beta
        split: option.splits)+
  have 2: "?g (receive_ra_prefix gen junk now p st) = ?g st" for p st
    by (cases st) (auto simp: receive_ra_prefix_def nm_ndisc_complete_and_add_address_def nm_ndisc_add_route_def
        Let_def case_prod_beta a split: option.splits)
  have 3: "?g (receive_ra_dnssl now d st) = ?g st" for d st
    unfolding receive_ra_dnssl_def
    by (rule fold_keeps) (auto simp: nm_ndisc_add_dns_domain_def case_prod_beta)
  have 4: "?g (fold (receive_ra_rdnss now) opts st) =
      add_all add_dns_server (?g st) (concat (map (rdnss_items now) opts)) now" for opts st
    by (induction opts arbitrary: st) (simp_all add: receive_ra_rdnss_dns_servers)
  show ?thesis
    unfolding receive_ra_collect_def Let_def
    by (simp add: fold_keeps [where g = ?g] 1 2 3 4)
qed

text \<open>
  What a router advertisement does to the list of DNS servers, end to end: of the servers it
  announces, the last announcement of an address decides. With a lifetime of zero (or one that is
  over) the server is gone afterwards; otherwise there is exactly one entry for it, with the
  announced expiry, provided the list of at most 64 had room.
\<close>

theorem receive_ra_dns_servers:
  assumes "ndisc_inv nd" "\<not> IN6_IS_ADDR_UNSPECIFIED (ra_addrto ra)"
    "concat (map (rdnss_items now) (ra_rdnss ra)) = as @ x # bs" "ds_address x \<notin> ds_address ` set bs"
    "length (dns_servers nd) + length as < NM_NDISC_SIZE_MAX_DNS_SERVERS"
  shows "{d \<in> set (dns_servers (receive_ra gen junk nd ra now clock rnd)). ds_address d = ds_address x} =
    (if ds_expiry_msec x \<le> now then {} else {x})"
proof -
  let ?xs = "dns_servers nd" and ?items = "concat (map (rdnss_items now) (ra_rdnss ra))"
  let ?ys = "add_all add_dns_server ?xs ?items now"
  have d: "distinct (map ds_address ?xs)" and l: "length ?xs \<le> NM_NDISC_SIZE_MAX_DNS_SERVERS"
    using assms(1) by (simp_all add: ndisc_inv_def)
  have "length (add_all add_dns_server ?xs as now) < NM_NDISC_SIZE_MAX_DNS_SERVERS"
    using ds_store.add_all_length [OF d, of as now] assms(5) by simp
  then have ys: "{y \<in> set ?ys. ds_address y = ds_address x} = (if ds_expiry_msec x \<le> now then {} else {x})"
    using ds_store.add_all_last [OF d l assms(3,4), of now] by (simp split: if_splits)
  have "dns_servers (receive_ra gen junk nd ra now clock rnd) = filter (alive now \<circ> ds_expiry_msec) ?ys"
    using assms(2) collect_dns_servers [of gen junk nd ra now]
    by (simp add: receive_ra_def nm_ndisc_ra_received_def check_timestamps_eq Let_def case_prod_beta)
  then have "{d \<in> set (dns_servers (receive_ra gen junk nd ra now clock rnd)). ds_address d = ds_address x} =
      {d \<in> {y \<in> set ?ys. ds_address y = ds_address x}. (alive now \<circ> ds_expiry_msec) d}"
    by (simp only: Collect_filter)
  also have "\<dots> = (if ds_expiry_msec x \<le> now then {} else {x})"
    unfolding ys by (cases "ds_expiry_msec x \<le> now") (simp_all add: alive_def Collect_conv_if)
  finally show ?thesis .
qed

abbreviation example_ra :: ndp_msgra where
  "example_ra \<equiv>
     \<lparr>ra_addrto = example_addr 1, ra_flag_managed = False, ra_flag_other = True, ra_router_lifetime = 1800,
      ra_route_preference = 1, ra_prefixes = [], ra_routes = [],
      ra_rdnss = [([example_addr 5, example_addr 6], 600), ([example_addr 5], 0)], ra_dnssl = [],
      ra_curhoplimit = 64, ra_reachable_time = 0, ra_retransmit_time = 0, ra_mtus = [1500]\<rparr>"

theorem receive_ra_dns_servers_witness:
  "{d \<in> set (dns_servers (receive_ra (\<lambda>_ a _. a) [] (nm_ndisc_init example_config) example_ra 1000 1000 7)).
      ds_address d = example_addr 6} = {\<lparr>ds_address = example_addr 6, ds_expiry_msec = 601000\<rparr>}"
  using receive_ra_dns_servers [where nd = "nm_ndisc_init example_config" and ra = example_ra and now = 1000
      and as = "[\<lparr>ds_address = example_addr 5, ds_expiry_msec = 601000\<rparr>]"
      and x = "\<lparr>ds_address = example_addr 6, ds_expiry_msec = 601000\<rparr>"
      and bs = "[\<lparr>ds_address = example_addr 5, ds_expiry_msec = 1000\<rparr>]"
      and gen = "\<lambda>_ a _. a" and junk = "[]" and clock = 1000 and rnd = 7, OF ndisc_init_inv]
  by (simp add: rdnss_items_def nm_ndisc_lifetime_to_expiry_def nm_ndisc_init_def)

section \<open>Composing an advertisement\<close>

definition message_ok :: "nat \<Rightarrow> nat \<Rightarrow> ra_message \<Rightarrow> bool" where
  "message_ok hdr_len maxlen msg \<longleftrightarrow>
     msg_payload_len msg = hdr_len + sum_list (map option_bytes (msg_options msg)) \<and>
     msg_payload_len msg \<le> maxlen \<and>
     list_all (\<lambda>opt. option_bytes opt = 8 * unat (option_len_octet opt)) (msg_options msg)"

lemma send_ra_prefixes_ok:
  "message_ok hdr_len maxlen msg \<Longrightarrow>
    message_ok hdr_len maxlen (send_ra_prefixes maxlen as msg) \<and>
    msg_options (send_ra_prefixes maxlen as msg) =
      msg_options msg @ map prefix_option (take ((maxlen - msg_payload_len msg) div 32) as)"
proof (induction as arbitrary: msg)
  case (Cons a as)
  show ?case
  proof (cases "msg_payload_len msg + 32 \<le> maxlen")
    case False
    then have "(maxlen - msg_payload_len msg) div 32 = 0" by simp
    with False Cons.prems show ?thesis by (simp add: ndp_msg_add_option_def Let_def)
  next
    case True
    let ?msg = "msg\<lparr>msg_payload_len := 32 + msg_payload_len msg, msg_options := msg_options msg @ [prefix_option a]\<rparr>"
    have "message_ok hdr_len maxlen ?msg"
      using Cons.prems True by (simp add: message_ok_def prefix_option_def)
    note ih = Cons.IH [OF this]
    have step: "send_ra_prefixes maxlen (a # as) msg = send_ra_prefixes maxlen as ?msg"
      using True by (simp add: ndp_msg_add_option_def Let_def)
    have "(maxlen - msg_payload_len msg) div 32 = Suc ((maxlen - (32 + msg_payload_len msg)) div 32)"
      using le_div_geq [of 32 "maxlen - msg_payload_len msg"] True by (simp add: add.commute)
    then show ?thesis unfolding step using ih by simp
  qed
qed simp

lemma unat_u8: "k < 256 \<Longrightarrow> unat (of_nat k :: u8) = k"
  by (simp add: unat_of_nat)

lemma send_ra_rdnss_ok:
  assumes "message_ok hdr_len maxlen msg" "length dss \<le> NM_NDISC_SIZE_MAX_DNS_SERVERS"
  shows "message_ok hdr_len maxlen (send_ra_rdnss maxlen dss msg)"
proof -
  have "unat (of_nat ((8 + 16 * length dss) div 8) :: u8) = (8 + 16 * length dss) div 8"
    by (rule unat_u8) (use assms(2) in simp)
  then have "8 + 16 * length dss = 8 * unat (of_nat ((8 + 16 * length dss) div 8) :: u8)" by simp
  then show ?thesis
    using assms(1) by (auto simp: send_ra_rdnss_def ndp_msg_add_option_def Let_def message_ok_def)
qed

lemma send_ra_dnssl_eq:
  assumes "pad = (if (8 + length sbuf) mod 8 \<noteq> 0 then 8 - (8 + length sbuf) mod 8 else 0)"
    "sbuf = search_list_wire wire dds"
  shows "send_ra_dnssl wire maxlen dds msg =
    (if dds = [] \<or> sbuf = [] \<or> 256 \<le> (8 + length sbuf + pad) div 8 then msg
     else (case ndp_msg_add_option maxlen msg (8 + length sbuf + pad) of
             None \<Rightarrow> msg
           | Some msg \<Rightarrow> msg\<lparr>msg_options := msg_options msg @
               [NM_ND_OPT_DNSSL (of_nat ((8 + length sbuf + pad) div 8)) 900 (sbuf @ replicate pad 0)]\<rparr>))"
proof -
  define N where "N = 8 + length sbuf"
  show ?thesis
    using assms(1) unfolding send_ra_dnssl_def assms(2) [symmetric] N_def [symmetric] Let_def
    by (cases "N mod 8 = 0") (simp_all split: option.split)
qed

lemma send_ra_dnssl_ok:
  assumes "message_ok hdr_len maxlen msg"
  shows "message_ok hdr_len maxlen (send_ra_dnssl wire maxlen dds msg)"
proof -
  define sbuf where "sbuf = search_list_wire wire dds"
  define pad where "pad = (if (8 + length sbuf) mod 8 \<noteq> 0 then 8 - (8 + length sbuf) mod 8 else 0)"
  define len where "len = 8 + length sbuf + pad"
  define N where "N = 8 + length sbuf"
  have "len = 8 * (N div 8) + (if N mod 8 \<noteq> 0 then 8 else 0)"
  proof -
    define r where "r = N mod 8"
    define k where "k = N div 8"
    have "N = 8 * k + r" "r < 8" unfolding r_def k_def by simp_all
    then have "N + (if r \<noteq> 0 then 8 - r else 0) = 8 * k + (if r \<noteq> 0 then 8 else 0)" by simp
    then show ?thesis unfolding len_def pad_def N_def [symmetric] r_def [symmetric] k_def [symmetric] .
  qed
  then have "8 dvd len" by simp
  then have "len div 8 < 256 \<Longrightarrow> len = 8 * unat (of_nat (len div 8) :: u8)"
    using unat_u8 [of "len div 8"] by simp
  then show ?thesis
    using assms unfolding send_ra_dnssl_eq [OF pad_def sbuf_def] len_def [symmetric]
    by (auto simp: ndp_msg_add_option_def Let_def message_ok_def len_def)
qed

text \<open>
  C21. A composed router advertisement is well-formed: the payload length is the header plus all
  options and never exceeds what the message can hold; every option's length octet (in units of
  eight bytes) states its real size, so the octet never overflows; and as many prefixes are
  announced, in order, as fit.
\<close>

theorem send_ra_message_correct:
  assumes "ndisc_inv nd" "hdr_len \<le> maxlen"
  shows "message_ok hdr_len maxlen (send_ra_message wire hdr_len maxlen nd) \<and>
    (\<exists>rest. msg_options (send_ra_message wire hdr_len maxlen nd) =
       map prefix_option (take ((maxlen - hdr_len) div 32) (addresses nd)) @ rest)"
proof -
  let ?m0 = "\<lparr>msg_payload_len = hdr_len, msg_options = []\<rparr>"
  let ?m1 = "send_ra_prefixes maxlen (addresses nd) ?m0"
  let ?m2 = "send_ra_rdnss maxlen (dns_servers nd) ?m1"
  have "message_ok hdr_len maxlen ?m0" using assms(2) by (simp add: message_ok_def)
  note m1 = send_ra_prefixes_ok [OF this, of "addresses nd"]
  have "message_ok hdr_len maxlen ?m2"
    using m1 assms(1) by (intro send_ra_rdnss_ok) (simp_all add: ndisc_inv_def)
  then have "message_ok hdr_len maxlen (send_ra_message wire hdr_len maxlen nd)"
    unfolding send_ra_message_def by (rule send_ra_dnssl_ok)
  moreover have "\<exists>r. msg_options ?m2 = msg_options ?m1 @ r"
    by (auto simp: send_ra_rdnss_def ndp_msg_add_option_def Let_def)
  moreover have "\<exists>r. msg_options (send_ra_dnssl wire maxlen (dns_domains nd) ?m2) = msg_options ?m2 @ r"
    unfolding send_ra_dnssl_eq [OF refl refl] by (auto simp: ndp_msg_add_option_def Let_def)
  ultimately show ?thesis using m1 unfolding send_ra_message_def by auto
qed

theorem send_ra_message_correct_witness:
  "message_ok 16 1280 (send_ra_message (\<lambda>_. None) 16 1280 (nm_ndisc_init example_config))"
  using send_ra_message_correct [OF ndisc_init_inv, of 16 1280 "\<lambda>_. None"] by simp

end
