(* ===== verification/NM_Platform_Cmp.thy ===== *)
theory NM_Platform_Cmp
  imports NM_Inet
begin

text \<open>
  Comparing and hashing structures, for the objects of the platform (\<^verbatim>\<open>nm-std-aux.h\<close>,
  \<^verbatim>\<open>nm-hash-utils.h\<close>). A \<open>NM_CMP_*\<close> macro returns from the function when its comparison is not
  zero; a sequence of them is the list of the comparisons, of which \<open>nm_cmp_chain\<close> takes the first that is not
  zero. \<open>NM_CMP_SELF\<close> is the comparison of the pointers, whose result for one and the same object
  is zero, what the rest of the function also returns. A hash function is modelled by the values it
  feeds into the hash state. The lemmas reduce the laws of a sequence of comparisons to those of its members.
\<close>

section \<open>Sequences of comparisons\<close>

definition nm_cmp_chain :: "int list \<Rightarrow> int" where
  "nm_cmp_chain cs = foldr (\<lambda>c r. if c \<noteq> 0 then c else r) cs 0"

lemma nm_cmp_chain_Nil [simp]: "nm_cmp_chain [] = 0"
  and nm_cmp_chain_Cons: "nm_cmp_chain (c # cs) = (if c \<noteq> 0 then c else nm_cmp_chain cs)"
  by (simp_all add: nm_cmp_chain_def)

lemma nm_cmp_chain_eq_0 [simp]: "nm_cmp_chain cs = 0 \<longleftrightarrow> (\<forall>c\<in>set cs. c = 0)"
  by (induction cs) (auto simp: nm_cmp_chain_Cons)

text \<open>\<open>NM_CMP_RETURN\<close> of another sequence continues with the rest when that is zero.\<close>

lemma nm_cmp_chain_nest: "nm_cmp_chain (nm_cmp_chain xs # ys) = nm_cmp_chain (xs @ ys)"
  by (induction xs) (auto simp: nm_cmp_chain_Cons simp del: nm_cmp_chain_eq_0)

lemma compare_order_bytes_key: "compare_order (\<lambda>a b. cmp_bytes (f a) (f b))"
  by unfold_locales (auto simp: cmp_bytes_antisym intro: cmp_bytes_trans)

section \<open>Prefixes of networks\<close>

text \<open>
  Two networks are compared by the bits they have in common and then by the length of the prefix.
  This is the lexicographic order of the network with its host part cleared and the length: the
  lemma is on numbers of \<open>w\<close> bits.
\<close>

lemma div_pow_le: "m \<le> n \<Longrightarrow> (x::nat) div 2 ^ n = x div 2 ^ m div 2 ^ (n - m)"
  by (simp add: div_mult2_eq [symmetric] power_add [symmetric])

lemma prefix_order_nat:
  fixes A B :: nat
  assumes "pa \<le> w" "pb \<le> w"
  defines "clr \<equiv> \<lambda>x p. x div 2 ^ (w - p) * 2 ^ (w - p)"
  defines "c \<equiv> nm_cmp_direct (clr A (min pa pb)) (clr B (min pa pb))"
  shows "(if c \<noteq> 0 then c else nm_cmp_direct pa pb) =
    (if nm_cmp_direct (clr A pa) (clr B pb) \<noteq> 0 then nm_cmp_direct (clr A pa) (clr B pb)
     else nm_cmp_direct pa pb)"
proof -
  have mono: "clr x p \<le> clr x q" "clr x q div 2 ^ (w - p) = x div 2 ^ (w - p)" if "p \<le> q" "q \<le> w" for x p q
  proof -
    have le: "w - q \<le> w - p" using that by simp
    have "clr x q div 2 ^ (w - p) = x div 2 ^ (w - q) div 2 ^ ((w - p) - (w - q))"
      using div_pow_le [OF le, of "clr x q"] by (simp add: clr_def)
    then show e: "clr x q div 2 ^ (w - p) = x div 2 ^ (w - p)"
      using div_pow_le [OF le, of x] by simp
    have "clr x p = clr x q div 2 ^ (w - p) * 2 ^ (w - p)" by (simp add: e) (simp add: clr_def)
    then show "clr x p \<le> clr x q" by (simp add: div_times_less_eq_dividend)
  qed
  have ord: "clr x p < clr y p \<Longrightarrow> p \<le> q \<Longrightarrow> q \<le> w \<Longrightarrow> clr x q < clr y q \<and> clr x p < clr y q \<and> clr x q < clr y p" for x y p q
  proof -
    assume h: "clr x p < clr y p" "p \<le> q" "q \<le> w"
    then have d: "x div 2 ^ (w - p) < y div 2 ^ (w - p)" by (simp add: clr_def)
    have "clr x q div 2 ^ (w - p) < y div 2 ^ (w - p)" using d mono(2) [OF h(2,3), of x] by simp
    then have "clr x q < y div 2 ^ (w - p) * 2 ^ (w - p)" by (simp add: div_less_iff_less_mult)
    also have "\<dots> = clr y p" by (simp add: clr_def)
    finally have "clr x q < clr y p" .
    moreover have "clr y p \<le> clr y q" "clr x p \<le> clr x q" using mono(1) [OF h(2,3)] by simp_all
    ultimately show ?thesis by linarith
  qed
  consider "pa = pb" | "pa < pb" | "pb < pa" by linarith
  then show ?thesis
  proof cases
    case 1
    then show ?thesis by (simp add: c_def)
  next
    case 2
    have "clr A pa \<noteq> clr B pa \<Longrightarrow> nm_cmp_direct (clr A pa) (clr B pa) = nm_cmp_direct (clr A pa) (clr B pb)"
      using ord [of A pa B pb] ord [of B pa A pb] 2 assms(2) mono(1) [of pa pb B]
      by (auto simp: nm_cmp_direct_def neq_iff)
    moreover have "clr A pa = clr B pa \<Longrightarrow> clr A pa \<le> clr B pb" using mono(1) [of pa pb B] 2 assms(2) by simp
    ultimately show ?thesis using 2 by (auto simp: c_def nm_cmp_direct_def min_def)
  next
    case 3
    have "clr A pb \<noteq> clr B pb \<Longrightarrow> nm_cmp_direct (clr A pb) (clr B pb) = nm_cmp_direct (clr A pa) (clr B pb)"
      using ord [of A pb B pa] ord [of B pb A pa] 3 assms(1) mono(1) [of pb pa A]
      by (auto simp: nm_cmp_direct_def neq_iff)
    moreover have "clr A pb = clr B pb \<Longrightarrow> clr B pb \<le> clr A pa" using mono(1) [of pb pa A] 3 assms(1) by simp
    ultimately show ?thesis using 3 by (auto simp: c_def nm_cmp_direct_def min_def)
  qed
qed

text \<open>The same with lengths beyond \<open>w\<close>, which stand for the whole number.\<close>

lemma prefix_order_nat_min:
  fixes A B w pa pb :: nat
  defines "clr \<equiv> \<lambda>x p. x div 2 ^ (w - p) * 2 ^ (w - p)"
  defines "c \<equiv> nm_cmp_direct (clr A (min pa pb)) (clr B (min pa pb))"
  shows "(if c \<noteq> 0 then c else nm_cmp_direct pa pb) =
    (if nm_cmp_direct (clr A pa) (clr B pb) \<noteq> 0 then nm_cmp_direct (clr A pa) (clr B pb)
     else nm_cmp_direct pa pb)"
proof -
  have clr_min: "clr x (min p w) = clr x p" for x p
    by (cases "p \<le> w") (simp_all add: clr_def min_def)
  have m: "min (min pa pb) w = min (min pa w) (min pb w)" by simp
  have c: "c = nm_cmp_direct (clr A (min (min pa w) (min pb w))) (clr B (min (min pa w) (min pb w)))"
    unfolding c_def m [symmetric] clr_min ..
  show ?thesis
  proof (cases "min pa w = min pb w")
    case True
    then have "c = nm_cmp_direct (clr A pa) (clr B pb)"
      unfolding c by (metis clr_min min.idem)
    then show ?thesis by simp
  next
    case False
    then have "nm_cmp_direct pa pb = nm_cmp_direct (min pa w) (min pb w)"
      by (auto simp: nm_cmp_direct_def min_def split: if_splits)
    moreover have e: "\<And>x p. x div 2 ^ (w - p) * 2 ^ (w - p) = clr x p" by (simp only: clr_def)
    ultimately show ?thesis
      using prefix_order_nat [of "min pa w" w "min pb w" A B, OF min.cobounded2 min.cobounded2]
      unfolding e clr_min by (simp only: c)
  qed
qed

lemma push_drop_bit_unat:
  fixes x :: "'a::len word"
  shows "unat (push_bit n (drop_bit n x)) = unat x div 2 ^ n * 2 ^ n"
proof -
  have "unat x div 2 ^ n * 2 ^ n \<le> unat x" by (rule div_times_less_eq_dividend)
  then have "unat x div 2 ^ n * 2 ^ n < 2 ^ LENGTH('a)"
    by (rule le_less_trans) (rule unsigned_less)
  moreover have "unat (push_bit n (drop_bit n x)) = take_bit LENGTH('a) (push_bit n (drop_bit n (unat x)))"
    unfolding unsigned_push_bit_eq unsigned_drop_bit_eq by (simp add: take_bit_nat_eq_self unsigned_less)
  ultimately show ?thesis
    by (simp add: push_bit_eq_mult drop_bit_eq_div take_bit_nat_eq_self)
qed

lemma clear_host4_unat:
  "unat (ntohl (nm_ip4_addr_clear_host_address a p)) = unat (ntohl a) div 2 ^ (32 - p) * 2 ^ (32 - p)"
proof (cases "p \<le> 32")
  case True
  have "ntohl (nm_ip4_addr_clear_host_address a p) = push_bit (32 - p) (drop_bit (32 - p) (ntohl a))"
    by (rule bit_word_eqI) (auto simp: bit_clear_host4 [OF True] bit_simps)
  then show ?thesis by (simp only: push_drop_bit_unat)
next
  case False
  have m1: "(0xFFFFFFFF :: u32) = - 1" by simp
  show ?thesis
    using False
    by (simp add: nm_ip4_addr_clear_host_address_def nm_ip4_addr_netmask_from_prefix_def m1)
qed

lemma nm_cmp_direct_unat: "nm_cmp_direct (x :: 'a::len word) y = nm_cmp_direct (unat x) (unat y)"
  by (auto simp: nm_cmp_direct_def word_less_nat_alt word_unat_eq_iff)

lemma nm_cmp_chain_replace:
  "(if c \<noteq> 0 then c else x) = (if d \<noteq> 0 then d else x) \<Longrightarrow>
     nm_cmp_chain (c # x # cs) = nm_cmp_chain (d # x # cs)"
  by (auto simp: nm_cmp_chain_Cons split: if_splits)

lemma ip4_prefix_chain:
  "nm_cmp_chain (nm_ip4_addr_same_prefix_cmp a b (min (unat (p::u8)) (unat q)) # nm_cmp_direct p q # cs) =
   nm_cmp_chain (nm_cmp_direct (htonl (nm_ip4_addr_clear_host_address a (unat p)))
     (htonl (nm_ip4_addr_clear_host_address b (unat q))) # nm_cmp_direct p q # cs)"
  unfolding nm_ip4_addr_same_prefix_cmp_def nm_cmp_direct_unat clear_host4_unat
  by (rule nm_cmp_chain_replace, rule prefix_order_nat_min)

section \<open>Addresses as numbers\<close>

definition be_nat :: "u8 list \<Rightarrow> nat" where
  "be_nat bs = foldl (\<lambda>v b. v * 256 + unat b) 0 bs"

lemma be_nat_snoc: "be_nat (bs @ [b]) = be_nat bs * 256 + unat b"
  by (simp add: be_nat_def)

lemma be_nat_append: "be_nat (xs @ ys) = be_nat xs * 256 ^ length ys + be_nat ys"
proof (induction ys rule: rev_induct)
  case (snoc y ys)
  have "be_nat (xs @ ys @ [y]) = be_nat (xs @ ys) * 256 + unat y"
    using be_nat_snoc [of "xs @ ys" y] by simp
  then show ?case using snoc by (simp add: be_nat_snoc algebra_simps)
qed (simp add: be_nat_def)

lemma be_nat_less: "be_nat bs < 256 ^ length bs"
proof (induction bs rule: rev_induct)
  case (snoc b bs)
  have "unat b < 256" using unsigned_less [of b] by simp
  with snoc have "be_nat bs * 256 + unat b < 256 * 256 ^ length bs" by simp
  then show ?case by (simp add: be_nat_snoc)
qed (simp add: be_nat_def)

lemma be_nat_Cons: "be_nat (x # xs) = unat x * 256 ^ length xs + be_nat xs"
  using be_nat_append [of "[x]" xs] by (simp add: be_nat_def)

lemma be_nat_replicate_0 [simp]: "be_nat (replicate n 0) = 0"
  by (induction n) (simp_all add: be_nat_Cons be_nat_def)

lemma cmp_bytes_be_nat: "length xs = length ys \<Longrightarrow> cmp_bytes xs ys = nm_cmp_direct (be_nat xs) (be_nat ys)"
proof (induction xs ys rule: cmp_bytes.induct)
  case (4 x xs y ys)
  have less: "be_nat (x # xs) < be_nat (y # ys)" if "x < y" "length xs = length ys" for x y :: u8 and xs ys
  proof -
    have "Suc (unat x) \<le> unat y" using that(1) by (simp add: word_less_nat_alt)
    then have "Suc (unat x) * 256 ^ length xs \<le> unat y * 256 ^ length ys"
      using mult_le_mono1 [of "Suc (unat x)" "unat y" "256 ^ length xs"] that(2) by simp
    then show ?thesis using be_nat_less [of xs] by (simp add: be_nat_Cons)
  qed
  show ?case
  proof (cases "x = y")
    case True
    then show ?thesis using 4 by (simp add: be_nat_Cons nm_cmp_direct_def)
  next
    case False
    then show ?thesis using less [of x y xs ys] less [of y x ys xs] 4(2)
      by (auto simp: nm_cmp_direct_def neq_iff)
  qed
qed (simp_all add: be_nat_def)

lemma cmp_bytes_append:
  "length xs = length ys \<Longrightarrow>
     cmp_bytes (xs @ us) (ys @ vs) = (if cmp_bytes xs ys \<noteq> 0 then cmp_bytes xs ys else cmp_bytes us vs)"
  by (induction xs ys rule: cmp_bytes.induct) auto

lemma same_prefix6_cmp_clear6:
  assumes "length a = 16" "length b = 16" "plen \<le> 128"
  shows "nm_ip6_addr_same_prefix_cmp a b plen = cmp_bytes (clear6 a plen) (clear6 b plen)"
proof (cases "plen = 128")
  case True
  then show ?thesis using assms by (simp add: nm_ip6_addr_same_prefix_cmp_lex clear6_full)
next
  case False
  define nb k where "nb = plen div 8" and "k = plen mod 8"
  have nb: "nb \<le> 15" "8 * nb + k = plen" "k < 8" "plen div 8 = nb" "plen mod 8 = k"
    using False assms by (auto simp: nb_def k_def)
  have m8: "(NOT (mask 8) :: u8) = 0" by (simp add: mask_eq_exp_minus_1)
  have cl: "clear6 x plen = take nb x @ (x ! nb AND NOT (mask (8 - k))) # replicate (15 - nb) 0"
    if "length x = 16" for x
    using clear6_split [OF that nb(1,3)] by (simp only: nb)
  show ?thesis
    unfolding cl [OF assms(1)] cl [OF assms(2)] nm_ip6_addr_same_prefix_cmp_lex nb(4,5)
    using False assms m8 by (simp add: cmp_bytes_append nm_cmp_direct_def)
qed

lemma byte_clear_unat: "k \<le> 8 \<Longrightarrow> unat ((x::u8) AND NOT (mask k)) = unat x div 2 ^ k * 2 ^ k"
proof -
  have "x AND NOT (mask k) = push_bit k (drop_bit k x)"
    by (rule bit_word_eqI) (auto simp: bit_simps)
  then show ?thesis by (simp only: push_drop_bit_unat)
qed

lemma be_nat_clear6:
  assumes "length a = 16" "p \<le> 128"
  shows "be_nat (clear6 a p) = be_nat a div 2 ^ (128 - p) * 2 ^ (128 - p)"
proof (cases "p = 128")
  case True
  then show ?thesis using assms by (simp add: clear6_full)
next
  case False
  define nb k where "nb = p div 8" and "k = p mod 8"
  have nb: "nb \<le> 15" "8 * nb + k = p" "k < 8" using False assms by (auto simp: nb_def k_def)
  define xs x zs where "xs = take nb a" and "x = a ! nb" and "zs = drop (Suc nb) a"
  have a: "a = xs @ x # zs" using assms nb by (simp add: xs_def x_def zs_def id_take_nth_drop)
  have lz: "length zs = 15 - nb" using assms by (simp add: zs_def)
  define L where "L = (256::nat) ^ length zs"
  have L0: "0 < L" by (simp add: L_def)
  have "128 - p = (8 - k) + 8 * length zs" using nb lz by linarith
  then have e: "(2::nat) ^ (128 - p) = L * 2 ^ (8 - k)"
    by (simp only: L_def power_add power_mult) simp
  define X where "X = be_nat xs * 256 + unat x"
  have "be_nat a = be_nat (xs @ [x]) * L + be_nat zs"
    using be_nat_append [of "xs @ [x]" zs] by (simp add: a L_def)
  then have "be_nat a = X * L + be_nat zs" by (simp only: be_nat_snoc X_def)
  moreover have "be_nat zs < L" unfolding L_def by (rule be_nat_less)
  ultimately have "be_nat a div L = X" by (simp add: L0 div_nat_eqI)
  then have d: "be_nat a div 2 ^ (128 - p) = X div 2 ^ (8 - k)" unfolding e div_mult2_eq by simp
  have "(256::nat) = 2 ^ k * 2 ^ (8 - k)" using nb(3) by (simp add: power_add [symmetric])
  then have "X = (be_nat xs * 2 ^ k) * 2 ^ (8 - k) + unat x" unfolding X_def by (simp add: mult.assoc)
  then have X: "X div 2 ^ (8 - k) = be_nat xs * 2 ^ k + unat x div 2 ^ (8 - k)" by simp
  have "clear6 a p = xs @ (x AND NOT (mask (8 - k))) # replicate (15 - nb) 0"
    using clear6_split [OF assms(1) nb(1,3)] by (simp add: nb xs_def x_def)
  then have "be_nat (clear6 a p) = (be_nat xs * 256 + unat x div 2 ^ (8 - k) * 2 ^ (8 - k)) * L"
    using be_nat_append [of "xs @ [x AND NOT (mask (8 - k))]" "replicate (15 - nb) 0"]
    by (simp only: append_assoc append_Cons append_Nil be_nat_snoc byte_clear_unat diff_le_self
        length_replicate be_nat_replicate_0 add_0_right L_def lz)
  also have "\<dots> = (X div 2 ^ (8 - k)) * (L * 2 ^ (8 - k))"
    using \<open>256 = 2 ^ k * 2 ^ (8 - k)\<close> unfolding X by (simp add: algebra_simps)
  finally show ?thesis unfolding d unfolding e .
qed

lemma ip6_prefix_chain:
  assumes "length a = 16" "length b = 16" "unat (p::u8) \<le> 128" "unat q \<le> 128"
  shows "nm_cmp_chain (nm_ip6_addr_same_prefix_cmp a b (min (unat p) (unat q)) # nm_cmp_direct p q # cs) =
   nm_cmp_chain (cmp_bytes (clear6 a (unat p)) (clear6 b (unat q)) # nm_cmp_direct p q # cs)"
proof (rule nm_cmp_chain_replace)
  have "min (unat p) (unat q) \<le> 128" using assms by simp
  then show "(if nm_ip6_addr_same_prefix_cmp a b (min (unat p) (unat q)) \<noteq> 0
      then nm_ip6_addr_same_prefix_cmp a b (min (unat p) (unat q)) else nm_cmp_direct p q) =
    (if cmp_bytes (clear6 a (unat p)) (clear6 b (unat q)) \<noteq> 0
      then cmp_bytes (clear6 a (unat p)) (clear6 b (unat q)) else nm_cmp_direct p q)"
    using prefix_order_nat [OF assms(3,4), of "be_nat a" "be_nat b"] assms
    by (simp only: same_prefix6_cmp_clear6 cmp_bytes_be_nat length_clear6 be_nat_clear6 nm_cmp_direct_unat)
qed

section \<open>Families and hashing\<close>

text \<open>Address families are kept by their numbers, as in the fields of the objects.\<close>

abbreviation (input) NM_AF_UNSPEC :: nat where "NM_AF_UNSPEC \<equiv> 0"
abbreviation (input) NM_AF_INET :: nat where "NM_AF_INET \<equiv> 2"
abbreviation (input) NM_AF_INET6 :: nat where "NM_AF_INET6 \<equiv> 10"

definition nm_utils_addr_family_to_size_untrusted :: "nat \<Rightarrow> nat" where
  "nm_utils_addr_family_to_size_untrusted family =
     (if family = NM_AF_INET then 4 else if family = NM_AF_INET6 then 16 else 0)"

definition hash_bytes :: "u8 list \<Rightarrow> hash_input" where
  "hash_bytes = map uint"

definition NM_HASH_COMBINE_BOOLS :: "bool list \<Rightarrow> int" where
  "NM_HASH_COMBINE_BOOLS bs = foldr (\<lambda>b v. of_bool b + 2 * v) bs 0"

section \<open>Total preorders\<close>

text \<open>
  The two laws of a comparison function, for the results of comparing given objects. A law of a
  sequence of comparisons is reduced by the first comparison to the law of the rest, in which the
  compared fields are equal.
\<close>

definition cmp_anti :: "int \<Rightarrow> int \<Rightarrow> bool" where
  "cmp_anti x y \<longleftrightarrow> (x < 0 \<longleftrightarrow> 0 < y)"

definition cmp_trans3 :: "int \<Rightarrow> int \<Rightarrow> int \<Rightarrow> bool" where
  "cmp_trans3 x y z \<longleftrightarrow> (x \<le> 0 \<longrightarrow> y \<le> 0 \<longrightarrow> z \<le> 0)"

lemma cmp_anti_0 [simp]: "cmp_anti 0 0" and cmp_trans3_0 [simp]: "cmp_trans3 0 0 0"
  by (simp_all add: cmp_anti_def cmp_trans3_def)

lemma cmp_anti_chain [simp]:
  "cmp_anti (nm_cmp_chain (nm_cmp_direct x y # cs)) (nm_cmp_chain (nm_cmp_direct y x # ds)) \<longleftrightarrow>
     (x = y \<longrightarrow> cmp_anti (nm_cmp_chain cs) (nm_cmp_chain ds))"
  "cmp_anti (nm_cmp_chain (cmp_bytes xs ys # cs)) (nm_cmp_chain (cmp_bytes ys xs # ds)) \<longleftrightarrow>
     (xs = ys \<longrightarrow> cmp_anti (nm_cmp_chain cs) (nm_cmp_chain ds))"
  using cmp_bytes_antisym [of xs ys] cmp_bytes_antisym [of ys xs]
  by (auto simp: cmp_anti_def nm_cmp_chain_Cons nm_cmp_direct_def)

lemma cmp_trans3_chain [simp]:
  "cmp_trans3 (nm_cmp_chain (nm_cmp_direct x y # cs)) (nm_cmp_chain (nm_cmp_direct y z # ds))
     (nm_cmp_chain (nm_cmp_direct x z # es)) \<longleftrightarrow>
     (x = y \<longrightarrow> y = z \<longrightarrow> cmp_trans3 (nm_cmp_chain cs) (nm_cmp_chain ds) (nm_cmp_chain es))"
  "cmp_trans3 (nm_cmp_chain (cmp_bytes xs ys # cs)) (nm_cmp_chain (cmp_bytes ys zs # ds))
     (nm_cmp_chain (cmp_bytes xs zs # es)) \<longleftrightarrow>
     (xs = ys \<longrightarrow> ys = zs \<longrightarrow> cmp_trans3 (nm_cmp_chain cs) (nm_cmp_chain ds) (nm_cmp_chain es))"
proof -
  show "cmp_trans3 (nm_cmp_chain (nm_cmp_direct x y # cs)) (nm_cmp_chain (nm_cmp_direct y z # ds))
     (nm_cmp_chain (nm_cmp_direct x z # es)) \<longleftrightarrow>
     (x = y \<longrightarrow> y = z \<longrightarrow> cmp_trans3 (nm_cmp_chain cs) (nm_cmp_chain ds) (nm_cmp_chain es))"
    by (auto simp: cmp_trans3_def nm_cmp_chain_Cons nm_cmp_direct_def split: if_splits)
  note order = compare_order.cmp_trans [OF compare_order_bytes_key [where f = "\<lambda>x. x"]]
    compare_order_eq_0 [OF compare_order_bytes_key [where f = "\<lambda>x. x"], of xs ys zs]
  show "cmp_trans3 (nm_cmp_chain (cmp_bytes xs ys # cs)) (nm_cmp_chain (cmp_bytes ys zs # ds))
     (nm_cmp_chain (cmp_bytes xs zs # es)) \<longleftrightarrow>
     (xs = ys \<longrightarrow> ys = zs \<longrightarrow> cmp_trans3 (nm_cmp_chain cs) (nm_cmp_chain ds) (nm_cmp_chain es))"
    using order(1) [of xs ys zs] order(2)
    by (fastforce simp: cmp_trans3_def nm_cmp_chain_Cons)
qed

text \<open>A comparison in descending order has its arguments swapped.\<close>

lemma cmp_trans3_chain_desc [simp]:
  "cmp_trans3 (nm_cmp_chain (nm_cmp_direct y x # cs)) (nm_cmp_chain (nm_cmp_direct z y # ds))
     (nm_cmp_chain (nm_cmp_direct z x # es)) \<longleftrightarrow>
     (x = y \<longrightarrow> y = z \<longrightarrow> cmp_trans3 (nm_cmp_chain cs) (nm_cmp_chain ds) (nm_cmp_chain es))"
  by (auto simp: cmp_trans3_def nm_cmp_chain_Cons nm_cmp_direct_def split: if_splits)

lemma compare_orderI:
  assumes "\<And>a b. cmp_anti (f a b) (f b a)" and "\<And>a b c. cmp_trans3 (f a b) (f b c) (f a c)"
  shows "compare_order f"
  using assms unfolding compare_order_def cmp_anti_def cmp_trans3_def by blast

text \<open>A comparison that is made only under a condition compares fields that are blank otherwise.\<close>

lemma nm_cmp_chain_if:
  "nm_cmp_chain ((if P then nm_cmp_direct x y # xs else []) @ cs) =
     nm_cmp_chain (nm_cmp_direct (if P then x else undefined) (if P then y else undefined) #
       (if P then xs else []) @ cs)"
  "nm_cmp_chain ((if P then cmp_bytes bs ds # xs else []) @ cs) =
     nm_cmp_chain (cmp_bytes (if P then bs else undefined) (if P then ds else undefined) #
       (if P then xs else []) @ cs)"
  by (auto simp: nm_cmp_chain_Cons)

definition compare_ok_on :: "'a set \<Rightarrow> ('a \<Rightarrow> 'a \<Rightarrow> int) \<Rightarrow> bool" where
  "compare_ok_on S f \<longleftrightarrow>
     (\<forall>a\<in>S. \<forall>b\<in>S. f a b < 0 \<longleftrightarrow> 0 < f b a) \<and>
     (\<forall>a\<in>S. \<forall>b\<in>S. \<forall>c\<in>S. f a b \<le> 0 \<longrightarrow> f b c \<le> 0 \<longrightarrow> f a c \<le> 0)"

lemma equivp_cmp: "compare_order f \<Longrightarrow> equivp (\<lambda>a b. f a b = 0)"
proof -
  assume f: "compare_order f"
  note anti = compare_order.cmp_antisym [OF f]
  show ?thesis
  proof (rule equivpI)
    show "reflp (\<lambda>a b. f a b = 0)" by (rule reflpI) (rule compare_order.cmp_refl [OF f])
    show "symp (\<lambda>a b. f a b = 0)"
    proof (rule sympI)
      fix a b assume "f a b = 0"
      then show "f b a = 0" using anti [of a b] anti [of b a] by linarith
    qed
    show "transp (\<lambda>a b. f a b = 0)" by (rule transpI) (rule compare_order.cmp_equiv_trans [OF f])
  qed
qed

lemma all_0_if: "(\<forall>c\<in>set (if P then xs else []). c = 0) \<longleftrightarrow> (P \<longrightarrow> (\<forall>c\<in>set xs. c = (0::int)))"
  by (cases P) simp_all

section \<open>Prefixes of addresses\<close>

lemma same_prefix4_eq_0: "nm_ip4_addr_same_prefix_cmp a b p = 0 \<longleftrightarrow>
    nm_ip4_addr_clear_host_address a p = nm_ip4_addr_clear_host_address b p"
  by (simp add: nm_ip4_addr_same_prefix_cmp_def)

text \<open>The part of an IPv6 address that is compared for a prefix length.\<close>

definition prefix6_key :: "nat \<Rightarrow> in6_addr \<Rightarrow> u8 list \<times> u8" where
  "prefix6_key p a =
     (if 128 \<le> p then (take 16 a, 0)
      else (take (p div 8) a, if p mod 8 = 0 then 0 else a ! (p div 8) AND NOT (mask (8 - p mod 8))))"

lemma same_prefix6_key: "nm_ip6_addr_same_prefix_cmp a b p = 0 \<longleftrightarrow> prefix6_key p a = prefix6_key p b"
  by (auto simp: nm_ip6_addr_same_prefix_cmp_lex prefix6_key_def)

lemma prefix6_key_take:
  assumes "take 16 a = take 16 b"
  shows "prefix6_key p a = prefix6_key p b"
proof (cases "128 \<le> p")
  case True
  then show ?thesis using assms by (simp add: prefix6_key_def)
next
  case False
  then have k: "p div 8 < 16" by simp
  then have "take (p div 8) a = take (p div 8) b" using arg_cong [OF assms, of "take (p div 8)"] by simp
  moreover have "a ! (p div 8) = b ! (p div 8)" using arg_cong [OF assms, of "\<lambda>x. x ! (p div 8)"] k by simp
  ultimately show ?thesis using False by (simp add: prefix6_key_def)
qed

end
