(* ===== verification/NM_Platform_Routes.thy ===== *)
theory NM_Platform_Routes
  imports NM_Platform_Cmp
begin

text \<open>
  IPv4 and IPv6 routes, policy routing rules and MPTCP endpoints, with their comparison, hash and normalization
  functions (\<^verbatim>\<open>nm-platform.[ch]\<close>, \<^verbatim>\<open>nmp-object.c\<close>). Comparison decides which objects
  are the same object for a hash table, so the two questions answered here are whether every comparison is a total
  preorder and whether the hash functions agree with it.
\<close>

section \<open>The objects\<close>

text \<open>The fields of \<^verbatim>\<open>__NMPlatformIPRoute_COMMON\<close>, which both kinds of routes start with.\<close>

record NMPlatformIPRoute =
  r_ifindex :: int
  r_rtm_flags :: u32
  r_mss :: u32
  r_window :: u32
  r_cwnd :: u32
  r_initcwnd :: u32
  r_initrwnd :: u32
  r_rto_min :: u32
  r_mtu :: u32
  r_metric :: u32
  r_table_coerced :: u32
  r_rt_source :: nat
  r_lock_window :: bool
  r_lock_cwnd :: bool
  r_lock_initcwnd :: bool
  r_lock_initrwnd :: bool
  r_lock_mtu :: bool
  r_lock_mss :: bool
  r_quickack :: bool
  r_metric_any :: bool
  r_table_any :: bool
  r_force_commit :: bool
  r_type_coerced :: u8
  r_plen :: u8

record NMPlatformIP4Route = NMPlatformIPRoute +
  r4_network :: in_addr_t
  r4_n_nexthops :: u32
  r4_gateway :: in_addr_t
  r4_pref_src :: in_addr_t
  r4_weight :: u16
  r4_tos :: u8
  r4_scope_inv :: u8

record NMPlatformIP6Route = NMPlatformIPRoute +
  r6_network :: in6_addr
  r6_gateway :: in6_addr
  r6_pref_src :: in6_addr
  r6_src :: in6_addr
  r6_src_plen :: u8
  r6_rt_pref :: u8

datatype NMPlatformIPRouteCmpType =
  NM_PLATFORM_IP_ROUTE_CMP_TYPE_WEAK_ID
| NM_PLATFORM_IP_ROUTE_CMP_TYPE_ID
| NM_PLATFORM_IP_ROUTE_CMP_TYPE_ECMP_ID
| NM_PLATFORM_IP_ROUTE_CMP_TYPE_SEMANTICALLY
| NM_PLATFORM_IP_ROUTE_CMP_TYPE_FULL

record NMPlatformRoutingRule =
  rr_src :: "u8 list"
  rr_dst :: "u8 list"
  rr_tun_id :: u64
  rr_table :: u32
  rr_flags :: u32
  rr_priority :: u32
  rr_fwmark :: u32
  rr_fwmask :: u32
  rr_goto_target :: u32
  rr_flow :: u32
  rr_suppress_prefixlen_inverse :: u32
  rr_suppress_ifgroup_inverse :: u32
  rr_uid_range :: "u32 \<times> u32"
  rr_sport_range :: "u16 \<times> u16"
  rr_dport_range :: "u16 \<times> u16"
  rr_iifname :: "u8 list"
  rr_oifname :: "u8 list"
  rr_addr_family :: nat
  rr_action :: u8
  rr_tos :: u8
  rr_src_len :: u8
  rr_dst_len :: u8
  rr_l3mdev :: u8
  rr_protocol :: u8
  rr_ip_proto :: u8
  rr_uid_range_has :: bool

datatype NMPlatformRoutingRuleCmpType =
  NM_PLATFORM_ROUTING_RULE_CMP_TYPE_ID
| NM_PLATFORM_ROUTING_RULE_CMP_TYPE_SEMANTICALLY
| NM_PLATFORM_ROUTING_RULE_CMP_TYPE_FULL

datatype NMPlatformKernelSupportType =
  NM_PLATFORM_KERNEL_SUPPORT_TYPE_FRA_L3MDEV
| NM_PLATFORM_KERNEL_SUPPORT_TYPE_FRA_UID_RANGE
| NM_PLATFORM_KERNEL_SUPPORT_TYPE_FRA_PROTOCOL
| NM_PLATFORM_KERNEL_SUPPORT_TYPE_IFLA_BR_VLAN_STATS_ENABLED
| NM_PLATFORM_KERNEL_SUPPORT_TYPE_IFLA_PERM_ADDRESS
| NM_PLATFORM_KERNEL_SUPPORT_TYPE_FRA_IP_PROTO
| NM_PLATFORM_KERNEL_SUPPORT_TYPE_IFLA_BOND_SLAVE_PRIO

record NMPlatformMptcpAddr =
  mp_ifindex :: int
  mp_id :: u32
  mp_flags :: u32
  mp_port :: u16
  mp_addr :: "u8 list"
  mp_addr_family :: nat

section \<open>Normalized fields\<close>

text \<open>\<^verbatim>\<open>NMIPConfigSource\<close> by its numbers; sources from \<open>1 + 0\<close> to \<open>1 + 0xFF\<close> are \<^verbatim>\<open>rtm_protocol\<close> values.\<close>

abbreviation (input) NM_IP_CONFIG_SOURCE_KERNEL :: nat where "NM_IP_CONFIG_SOURCE_KERNEL \<equiv> 257"
abbreviation (input) NM_IP_CONFIG_SOURCE_IP6LL :: nat where "NM_IP_CONFIG_SOURCE_IP6LL \<equiv> 260"
abbreviation (input) NM_IP_CONFIG_SOURCE_DHCP :: nat where "NM_IP_CONFIG_SOURCE_DHCP \<equiv> 264"
abbreviation (input) NM_IP_CONFIG_SOURCE_NDISC :: nat where "NM_IP_CONFIG_SOURCE_NDISC \<equiv> 265"

definition nmp_utils_ip_config_source_from_rtprot :: "nat \<Rightarrow> nat" where
  "nmp_utils_ip_config_source_from_rtprot rtprot = rtprot + 1"

definition nmp_utils_ip_config_source_coerce_to_rtprot :: "nat \<Rightarrow> nat" where
  "nmp_utils_ip_config_source_coerce_to_rtprot source =
     (if source \<le> 0 then 0
      else if source \<le> 256 then source - 1
      else if source = NM_IP_CONFIG_SOURCE_KERNEL then 2
      else if source = NM_IP_CONFIG_SOURCE_IP6LL then 2
      else if source = NM_IP_CONFIG_SOURCE_DHCP then 16
      else if source = NM_IP_CONFIG_SOURCE_NDISC then 9
      else 4)"

definition nmp_utils_ip_config_source_round_trip_rtprot :: "nat \<Rightarrow> nat" where
  "nmp_utils_ip_config_source_round_trip_rtprot source =
     nmp_utils_ip_config_source_from_rtprot (nmp_utils_ip_config_source_coerce_to_rtprot source)"

definition nm_platform_route_table_coerce :: "u32 \<Rightarrow> u32" where
  "nm_platform_route_table_coerce table =
     (if table = 0 then 254 else if table = 254 then 0 else table)"

definition nm_platform_route_table_uncoerce :: "u32 \<Rightarrow> bool \<Rightarrow> u32" where
  "nm_platform_route_table_uncoerce table_coerced norm =
     (if table_coerced = 0 then 254
      else if table_coerced = 254 then (if norm then 254 else 0)
      else table_coerced)"

definition nm_platform_ip_route_get_effective_table :: "'a NMPlatformIPRoute_scheme \<Rightarrow> u32" where
  "nm_platform_ip_route_get_effective_table r =
     (if r_table_any r then 254 else nm_platform_route_table_uncoerce (r_table_coerced r) True)"

definition nm_platform_route_type_coerce :: "u8 \<Rightarrow> u8" where
  "nm_platform_route_type_coerce type = (if type = 0 then 1 else if type = 1 then 0 else type)"

definition nm_platform_uint8_inv :: "u8 \<Rightarrow> u8" where
  "nm_platform_uint8_inv scope = NOT scope"

abbreviation (input) RT_SCOPE_UNIVERSE :: u8 where "RT_SCOPE_UNIVERSE \<equiv> 0"
abbreviation (input) RT_SCOPE_LINK :: u8 where "RT_SCOPE_LINK \<equiv> 253"
abbreviation (input) RT_SCOPE_HOST :: u8 where "RT_SCOPE_HOST \<equiv> 254"
abbreviation (input) RTN_LOCAL :: u8 where "RTN_LOCAL \<equiv> 2"

definition ip_route_scope_inv_get_normalized :: "NMPlatformIP4Route \<Rightarrow> u8" where
  "ip_route_scope_inv_get_normalized route =
     (if r4_scope_inv route = 0 then
        (if r_type_coerced route = nm_platform_route_type_coerce RTN_LOCAL
         then nm_platform_uint8_inv RT_SCOPE_HOST
         else nm_platform_uint8_inv (if r4_gateway route = 0 then RT_SCOPE_LINK else RT_SCOPE_UNIVERSE))
      else r4_scope_inv route)"

definition nm_platform_ip4_route_get_n_nexthops :: "NMPlatformIP4Route \<Rightarrow> u32" where
  "nm_platform_ip4_route_get_n_nexthops r =
     (if r4_n_nexthops r \<ge> 1 then r4_n_nexthops r else if r_ifindex r > 0 then 1 else 0)"

definition ip4_route_weight_normalize :: "u32 \<Rightarrow> u16 \<Rightarrow> bool \<Rightarrow> u16" where
  "ip4_route_weight_normalize n_nexthops weight normalize_ecmp_weight =
     (if n_nexthops > 1 then max weight 1
      else if n_nexthops = 0 then 0
      else if normalize_ecmp_weight then 0 else weight)"

text \<open>\<^verbatim>\<open>NM_ICMPV6_ROUTER_PREF_MEDIUM\<close>, \<^verbatim>\<open>HIGH\<close> and \<^verbatim>\<open>LOW\<close> are 0, 1 and 3.\<close>

definition route_pref_normalize :: "u8 \<Rightarrow> u8" where
  "route_pref_normalize pref = (if pref \<in> {3, 1} then pref else 0)"

definition nm_add_clamped_u32 :: "u32 \<Rightarrow> u32 \<Rightarrow> u32" where
  "nm_add_clamped_u32 a b = (let c = a + b in if c < a then 0xFFFFFFFF else c)"

definition nm_platform_ip4_route_get_effective_metric :: "NMPlatformIP4Route \<Rightarrow> u32" where
  "nm_platform_ip4_route_get_effective_metric r =
     (if r_metric_any r then nm_add_clamped_u32 0 (r_metric r) else r_metric r)"

definition nm_platform_ip6_route_get_effective_metric :: "NMPlatformIP6Route \<Rightarrow> u32" where
  "nm_platform_ip6_route_get_effective_metric r =
     (if r_metric_any r then nm_add_clamped_u32 1024 (r_metric r) else r_metric r)"

text \<open>\<^verbatim>\<open>nm_platform_ip_route_normalize\<close>, for each of the two kinds of routes it is called with.\<close>

definition nm_platform_ip_route_normalize_common :: "'a NMPlatformIPRoute_scheme \<Rightarrow> 'a NMPlatformIPRoute_scheme" where
  "nm_platform_ip_route_normalize_common route =
     route\<lparr>r_table_coerced := nm_platform_route_table_coerce (nm_platform_ip_route_get_effective_table route),
           r_table_any := False,
           r_rt_source := nmp_utils_ip_config_source_round_trip_rtprot (r_rt_source route)\<rparr>"

definition nm_platform_ip4_route_normalize :: "NMPlatformIP4Route \<Rightarrow> NMPlatformIP4Route" where
  "nm_platform_ip4_route_normalize route =
     (let r4 = nm_platform_ip_route_normalize_common route;
          r4 = r4\<lparr>r_metric := nm_platform_ip4_route_get_effective_metric r4\<rparr>;
          r4 = r4\<lparr>r_metric_any := False\<rparr>;
          r4 = r4\<lparr>r4_network := nm_ip4_addr_clear_host_address (r4_network r4) (unat (r_plen r4))\<rparr>;
          r4 = r4\<lparr>r4_scope_inv := ip_route_scope_inv_get_normalized r4\<rparr>;
          r4 = r4\<lparr>r4_n_nexthops := nm_platform_ip4_route_get_n_nexthops r4\<rparr>
      in r4\<lparr>r4_weight := ip4_route_weight_normalize (r4_n_nexthops r4) (r4_weight r4) True\<rparr>)"

definition ip6_clear_host :: "in6_addr \<Rightarrow> u8 \<Rightarrow> in6_addr" where
  "ip6_clear_host a plen =
     (case nm_ip6_addr_clear_host_address a None (unat plen) of None \<Rightarrow> a | Some r \<Rightarrow> r)"

definition nm_platform_ip6_route_normalize :: "NMPlatformIP6Route \<Rightarrow> NMPlatformIP6Route" where
  "nm_platform_ip6_route_normalize route =
     (let r6 = nm_platform_ip_route_normalize_common route;
          r6 = r6\<lparr>r_metric := nm_platform_ip6_route_get_effective_metric r6\<rparr>;
          r6 = r6\<lparr>r_metric_any := False\<rparr>;
          r6 = r6\<lparr>r6_network := ip6_clear_host (r6_network r6) (r_plen r6)\<rparr>
      in r6\<lparr>r6_src := ip6_clear_host (r6_src r6) (r6_src_plen r6)\<rparr>)"

section \<open>Comparison\<close>

abbreviation (input) RTM_F_CLONED :: u32 where "RTM_F_CLONED \<equiv> 0x200"
abbreviation (input) RTNH_F_ONLINK :: u32 where "RTNH_F_ONLINK \<equiv> 4"

definition nm_platform_ip4_route_cmp ::
    "NMPlatformIPRouteCmpType \<Rightarrow> NMPlatformIP4Route \<Rightarrow> NMPlatformIP4Route \<Rightarrow> int" where
  "nm_platform_ip4_route_cmp cmp_type a b =
     (let nh_a = nm_platform_ip4_route_get_n_nexthops a; nh_b = nm_platform_ip4_route_get_n_nexthops b;
          nexthops_cmp =
            [nm_cmp_direct nh_a nh_b,
             nm_cmp_direct (ip4_route_weight_normalize nh_a (r4_weight a) False)
                           (ip4_route_weight_normalize nh_a (r4_weight b) False)];
          prefix_cmp = nm_ip4_addr_same_prefix_cmp (r4_network a) (r4_network b) (min (unat (r_plen a)) (unat (r_plen b)))
      in
      if cmp_type \<in> {NM_PLATFORM_IP_ROUTE_CMP_TYPE_ECMP_ID, NM_PLATFORM_IP_ROUTE_CMP_TYPE_WEAK_ID,
                     NM_PLATFORM_IP_ROUTE_CMP_TYPE_ID} then
        nm_cmp_chain
          ([nm_cmp_direct (r_table_any a) (r_table_any b),
            nm_cmp_direct (nm_platform_ip_route_get_effective_table a) (nm_platform_ip_route_get_effective_table b),
            prefix_cmp,
            nm_cmp_direct (r_plen a) (r_plen b),
            nm_cmp_direct (r_metric_any a) (r_metric_any b),
            nm_cmp_direct (r_metric a) (r_metric b),
            nm_cmp_direct (r4_tos a) (r4_tos b)] @
           (if cmp_type \<in> {NM_PLATFORM_IP_ROUTE_CMP_TYPE_ID, NM_PLATFORM_IP_ROUTE_CMP_TYPE_ECMP_ID} then
              [nm_cmp_direct (r_type_coerced a) (r_type_coerced b),
               nm_cmp_direct (nmp_utils_ip_config_source_round_trip_rtprot (r_rt_source a))
                             (nmp_utils_ip_config_source_round_trip_rtprot (r_rt_source b)),
               nm_cmp_direct (ip_route_scope_inv_get_normalized a) (ip_route_scope_inv_get_normalized b),
               nm_cmp_direct (r_mss a) (r_mss b),
               nm_cmp_direct (r4_pref_src a) (r4_pref_src b),
               nm_cmp_direct (r_window a) (r_window b),
               nm_cmp_direct (r_cwnd a) (r_cwnd b),
               nm_cmp_direct (r_initcwnd a) (r_initcwnd b),
               nm_cmp_direct (r_initrwnd a) (r_initrwnd b),
               nm_cmp_direct (r_mtu a) (r_mtu b),
               nm_cmp_direct (r_rto_min a) (r_rto_min b),
               nm_cmp_direct (r_rtm_flags a AND RTNH_F_ONLINK) (r_rtm_flags b AND RTNH_F_ONLINK),
               nm_cmp_direct (r_quickack a) (r_quickack b),
               nm_cmp_direct (r_lock_window a) (r_lock_window b),
               nm_cmp_direct (r_lock_cwnd a) (r_lock_cwnd b),
               nm_cmp_direct (r_lock_initcwnd a) (r_lock_initcwnd b),
               nm_cmp_direct (r_lock_initrwnd a) (r_lock_initrwnd b),
               nm_cmp_direct (r_lock_mtu a) (r_lock_mtu b),
               nm_cmp_direct (r_lock_mss a) (r_lock_mss b)] @
              (if cmp_type = NM_PLATFORM_IP_ROUTE_CMP_TYPE_ID then
                 [nm_cmp_direct (r_ifindex a) (r_ifindex b),
                  nm_cmp_direct (r4_gateway a) (r4_gateway b)] @ nexthops_cmp
               else [])
            else []))
      else
        (let sem = (cmp_type = NM_PLATFORM_IP_ROUTE_CMP_TYPE_SEMANTICALLY) in
         nm_cmp_chain
          ([nm_cmp_direct (r_type_coerced a) (r_type_coerced b),
            nm_cmp_direct (r_table_any a) (r_table_any b),
            (if sem
             then nm_cmp_direct (nm_platform_ip_route_get_effective_table a) (nm_platform_ip_route_get_effective_table b)
             else nm_cmp_direct (r_table_coerced a) (r_table_coerced b)),
            nm_cmp_direct (r_ifindex a) (r_ifindex b),
            (if sem then prefix_cmp else nm_cmp_direct (r4_network a) (r4_network b)),
            nm_cmp_direct (r_plen a) (r_plen b),
            nm_cmp_direct (r_metric_any a) (r_metric_any b),
            nm_cmp_direct (r_metric a) (r_metric b),
            nm_cmp_direct (r4_gateway a) (r4_gateway b)] @
           (if sem then nexthops_cmp
            else [nm_cmp_direct (r4_n_nexthops a) (r4_n_nexthops b), nm_cmp_direct (r4_weight a) (r4_weight b)]) @
           (if sem then
              [nm_cmp_direct (nmp_utils_ip_config_source_round_trip_rtprot (r_rt_source a))
                             (nmp_utils_ip_config_source_round_trip_rtprot (r_rt_source b)),
               nm_cmp_direct (ip_route_scope_inv_get_normalized a) (ip_route_scope_inv_get_normalized b)]
            else
              [nm_cmp_direct (r_rt_source a) (r_rt_source b), nm_cmp_direct (r4_scope_inv a) (r4_scope_inv b)]) @
           [nm_cmp_direct (r_mss a) (r_mss b),
            nm_cmp_direct (r4_pref_src a) (r4_pref_src b),
            (if sem
             then nm_cmp_direct (r_rtm_flags a AND (RTM_F_CLONED OR RTNH_F_ONLINK))
                                (r_rtm_flags b AND (RTM_F_CLONED OR RTNH_F_ONLINK))
             else nm_cmp_direct (r_rtm_flags a) (r_rtm_flags b)),
            nm_cmp_direct (r4_tos a) (r4_tos b),
            nm_cmp_direct (r_quickack a) (r_quickack b),
            nm_cmp_direct (r_lock_window a) (r_lock_window b),
            nm_cmp_direct (r_lock_cwnd a) (r_lock_cwnd b),
            nm_cmp_direct (r_lock_initcwnd a) (r_lock_initcwnd b),
            nm_cmp_direct (r_lock_initrwnd a) (r_lock_initrwnd b),
            nm_cmp_direct (r_lock_mtu a) (r_lock_mtu b),
            nm_cmp_direct (r_lock_mss a) (r_lock_mss b),
            nm_cmp_direct (r_window a) (r_window b),
            nm_cmp_direct (r_cwnd a) (r_cwnd b),
            nm_cmp_direct (r_initcwnd a) (r_initcwnd b),
            nm_cmp_direct (r_initrwnd a) (r_initrwnd b),
            nm_cmp_direct (r_mtu a) (r_mtu b),
            nm_cmp_direct (r_rto_min a) (r_rto_min b)])))"

definition nm_platform_ip6_route_cmp ::
    "NMPlatformIPRouteCmpType \<Rightarrow> NMPlatformIP6Route \<Rightarrow> NMPlatformIP6Route \<Rightarrow> int" where
  "nm_platform_ip6_route_cmp cmp_type a b =
     (let prefix_cmp = nm_ip6_addr_same_prefix_cmp (r6_network a) (r6_network b) (min (unat (r_plen a)) (unat (r_plen b)));
          src_cmp = nm_ip6_addr_same_prefix_cmp (r6_src a) (r6_src b) (min (unat (r6_src_plen a)) (unat (r6_src_plen b)))
      in
      if cmp_type \<in> {NM_PLATFORM_IP_ROUTE_CMP_TYPE_ECMP_ID, NM_PLATFORM_IP_ROUTE_CMP_TYPE_WEAK_ID,
                     NM_PLATFORM_IP_ROUTE_CMP_TYPE_ID} then
        nm_cmp_chain
          ([nm_cmp_direct (r_table_any a) (r_table_any b),
            nm_cmp_direct (nm_platform_ip_route_get_effective_table a) (nm_platform_ip_route_get_effective_table b),
            prefix_cmp,
            nm_cmp_direct (r_plen a) (r_plen b),
            nm_cmp_direct (r_metric_any a) (r_metric_any b),
            nm_cmp_direct (r_metric a) (r_metric b),
            src_cmp,
            nm_cmp_direct (r6_src_plen a) (r6_src_plen b)] @
           (if cmp_type = NM_PLATFORM_IP_ROUTE_CMP_TYPE_ID then
              [nm_cmp_direct (r_ifindex a) (r_ifindex b),
               nm_cmp_direct (r_type_coerced a) (r_type_coerced b),
               nm_cmp_memcmp (r6_gateway a) (r6_gateway b) 16]
            else []))
      else
        (let sem = (cmp_type = NM_PLATFORM_IP_ROUTE_CMP_TYPE_SEMANTICALLY) in
         nm_cmp_chain
          ([nm_cmp_direct (r_type_coerced a) (r_type_coerced b),
            nm_cmp_direct (r_table_any a) (r_table_any b),
            (if sem
             then nm_cmp_direct (nm_platform_ip_route_get_effective_table a) (nm_platform_ip_route_get_effective_table b)
             else nm_cmp_direct (r_table_coerced a) (r_table_coerced b)),
            nm_cmp_direct (r_ifindex a) (r_ifindex b),
            (if sem then prefix_cmp else nm_cmp_memcmp (r6_network a) (r6_network b) 16),
            nm_cmp_direct (r_plen a) (r_plen b),
            nm_cmp_direct (r_metric_any a) (r_metric_any b),
            nm_cmp_direct (r_metric a) (r_metric b),
            nm_cmp_memcmp (r6_gateway a) (r6_gateway b) 16,
            nm_cmp_memcmp (r6_pref_src a) (r6_pref_src b) 16,
            (if sem then src_cmp else nm_cmp_memcmp (r6_src a) (r6_src b) 16),
            nm_cmp_direct (r6_src_plen a) (r6_src_plen b),
            (if sem
             then nm_cmp_direct (nmp_utils_ip_config_source_round_trip_rtprot (r_rt_source a))
                                (nmp_utils_ip_config_source_round_trip_rtprot (r_rt_source b))
             else nm_cmp_direct (r_rt_source a) (r_rt_source b)),
            nm_cmp_direct (r_mss a) (r_mss b),
            (if sem
             then nm_cmp_direct (r_rtm_flags a AND RTM_F_CLONED) (r_rtm_flags b AND RTM_F_CLONED)
             else nm_cmp_direct (r_rtm_flags a) (r_rtm_flags b)),
            nm_cmp_direct (r_quickack a) (r_quickack b),
            nm_cmp_direct (r_lock_window a) (r_lock_window b),
            nm_cmp_direct (r_lock_cwnd a) (r_lock_cwnd b),
            nm_cmp_direct (r_lock_initcwnd a) (r_lock_initcwnd b),
            nm_cmp_direct (r_lock_initrwnd a) (r_lock_initrwnd b),
            nm_cmp_direct (r_lock_mtu a) (r_lock_mtu b),
            nm_cmp_direct (r_lock_mss a) (r_lock_mss b),
            nm_cmp_direct (r_window a) (r_window b),
            nm_cmp_direct (r_cwnd a) (r_cwnd b),
            nm_cmp_direct (r_initcwnd a) (r_initcwnd b),
            nm_cmp_direct (r_initrwnd a) (r_initrwnd b),
            nm_cmp_direct (r_mtu a) (r_mtu b),
            nm_cmp_direct (r_rto_min a) (r_rto_min b),
            (if sem
             then nm_cmp_direct (route_pref_normalize (r6_rt_pref a)) (route_pref_normalize (r6_rt_pref b))
             else nm_cmp_direct (r6_rt_pref a) (r6_rt_pref b))])))"

text \<open>
  \<open>support\<close> is \<^verbatim>\<open>nm_platform_kernel_support_get\<close>, which reports what the running kernel
  implements. Rules of an unsupported address family are compared by their addresses in memory,
  which \<open>ptr\<close> gives.
\<close>

abbreviation (input) FR_ACT_TO_TBL :: u8 where "FR_ACT_TO_TBL \<equiv> 1"
abbreviation (input) FR_ACT_GOTO :: u8 where "FR_ACT_GOTO \<equiv> 2"

text \<open>\<^verbatim>\<open>FIB_RULE_UNRESOLVED | FIB_RULE_IIF_DETACHED | FIB_RULE_OIF_DETACHED\<close>\<close>

abbreviation (input) ROUTING_RULE_FLAGS_IGNORE :: u32 where "ROUTING_RULE_FLAGS_IGNORE \<equiv> 0x1C"

type_synonym kernel_support = "NMPlatformKernelSupportType \<Rightarrow> bool"

definition routing_rule_compare ::
    "kernel_support \<Rightarrow> NMPlatformRoutingRuleCmpType \<Rightarrow> NMPlatformKernelSupportType \<Rightarrow> bool" where
  "routing_rule_compare support cmp_type kernel_support_type \<longleftrightarrow>
     cmp_type = NM_PLATFORM_ROUTING_RULE_CMP_TYPE_FULL \<or> support kernel_support_type"

definition routing_rule_flags_mask :: "NMPlatformRoutingRuleCmpType \<Rightarrow> u32" where
  "routing_rule_flags_mask cmp_type =
     (if cmp_type = NM_PLATFORM_ROUTING_RULE_CMP_TYPE_ID then NOT ROUTING_RULE_FLAGS_IGNORE else - 1)"

definition rr_valid :: "NMPlatformRoutingRule \<Rightarrow> bool" where
  "rr_valid a \<longleftrightarrow> rr_addr_family a \<in> {NM_AF_INET, NM_AF_INET6}"

definition nm_platform_routing_rule_cmp ::
    "kernel_support \<Rightarrow> (NMPlatformRoutingRule \<Rightarrow> nat) \<Rightarrow> NMPlatformRoutingRuleCmpType \<Rightarrow>
     NMPlatformRoutingRule \<Rightarrow> NMPlatformRoutingRule \<Rightarrow> int" where
  "nm_platform_routing_rule_cmp support ptr cmp_type a b =
     nm_cmp_chain
       ([nm_cmp_direct (rr_valid a) (rr_valid b)] @
        (if \<not> rr_valid a then [nm_cmp_direct (ptr a) (ptr b)]
         else
           (let cmp_full = (cmp_type = NM_PLATFORM_ROUTING_RULE_CMP_TYPE_FULL);
                flags_mask = routing_rule_flags_mask cmp_type;
                addr_size = nm_utils_addr_family_to_size_untrusted (rr_addr_family a) in
            [nm_cmp_direct (rr_addr_family a) (rr_addr_family b),
             nm_cmp_direct (rr_action a) (rr_action b),
             nm_cmp_direct (rr_priority a) (rr_priority b),
             nm_cmp_direct (rr_tun_id a) (rr_tun_id b)] @
            (if routing_rule_compare support cmp_type NM_PLATFORM_KERNEL_SUPPORT_TYPE_FRA_L3MDEV then
               [if cmp_full then nm_cmp_direct (rr_l3mdev a) (rr_l3mdev b)
                else nm_cmp_direct (rr_l3mdev a \<noteq> 0) (rr_l3mdev b \<noteq> 0)]
             else []) @
            [nm_cmp_direct (rr_table a) (rr_table b),
             nm_cmp_direct (rr_flags a AND flags_mask) (rr_flags b AND flags_mask),
             nm_cmp_direct (rr_fwmark a) (rr_fwmark b),
             nm_cmp_direct (rr_fwmask a) (rr_fwmask b)] @
            (if cmp_full \<or> cmp_type = NM_PLATFORM_ROUTING_RULE_CMP_TYPE_SEMANTICALLY \<and> rr_action a = FR_ACT_GOTO
             then [nm_cmp_direct (rr_goto_target a) (rr_goto_target b)] else []) @
            [nm_cmp_direct (rr_suppress_prefixlen_inverse a) (rr_suppress_prefixlen_inverse b),
             nm_cmp_direct (rr_suppress_ifgroup_inverse a) (rr_suppress_ifgroup_inverse b),
             nm_cmp_direct (rr_tos a) (rr_tos b)] @
            (if cmp_full \<or> rr_addr_family a = NM_AF_INET then [nm_cmp_direct (rr_flow a) (rr_flow b)] else []) @
            (if routing_rule_compare support cmp_type NM_PLATFORM_KERNEL_SUPPORT_TYPE_FRA_PROTOCOL
             then [nm_cmp_direct (rr_protocol a) (rr_protocol b)] else []) @
            (if routing_rule_compare support cmp_type NM_PLATFORM_KERNEL_SUPPORT_TYPE_FRA_IP_PROTO then
               [nm_cmp_direct (rr_ip_proto a) (rr_ip_proto b),
                nm_cmp_direct (fst (rr_sport_range a)) (fst (rr_sport_range b)),
                nm_cmp_direct (snd (rr_sport_range a)) (snd (rr_sport_range b)),
                nm_cmp_direct (fst (rr_dport_range a)) (fst (rr_dport_range b)),
                nm_cmp_direct (snd (rr_dport_range a)) (snd (rr_dport_range b))]
             else []) @
            [nm_cmp_direct (rr_src_len a) (rr_src_len b)] @
            (if cmp_full \<or> rr_src_len a > 0 then [nm_cmp_memcmp (rr_src a) (rr_src b) addr_size] else []) @
            [nm_cmp_direct (rr_dst_len a) (rr_dst_len b)] @
            (if cmp_full \<or> rr_dst_len a > 0 then [nm_cmp_memcmp (rr_dst a) (rr_dst b) addr_size] else []) @
            (if routing_rule_compare support cmp_type NM_PLATFORM_KERNEL_SUPPORT_TYPE_FRA_UID_RANGE then
               [nm_cmp_direct (rr_uid_range_has a) (rr_uid_range_has b)] @
               (if cmp_full \<or> rr_uid_range_has a then
                  [nm_cmp_direct (fst (rr_uid_range a)) (fst (rr_uid_range b)),
                   nm_cmp_direct (snd (rr_uid_range a)) (snd (rr_uid_range b))]
                else [])
             else []) @
            [cmp_bytes (rr_iifname a) (rr_iifname b), cmp_bytes (rr_oifname a) (rr_oifname b)])))"

definition nm_platform_mptcp_addr_cmp :: "NMPlatformMptcpAddr \<Rightarrow> NMPlatformMptcpAddr \<Rightarrow> int" where
  "nm_platform_mptcp_addr_cmp a b =
     nm_cmp_chain
       ([nm_cmp_direct (mp_ifindex a) (mp_ifindex b),
         nm_cmp_direct (mp_id a) (mp_id b),
         nm_cmp_direct (mp_addr_family a) (mp_addr_family b)] @
        (if mp_addr_family a \<in> {NM_AF_INET, NM_AF_INET6}
         then [nm_cmp_memcmp (mp_addr a) (mp_addr b) (nm_utils_addr_family_to_size_untrusted (mp_addr_family a))]
         else []) @
        [nm_cmp_direct (mp_port a) (mp_port b)])"

definition vt_cmd_plobj_id_cmp_mptcp_addr :: "NMPlatformMptcpAddr \<Rightarrow> NMPlatformMptcpAddr \<Rightarrow> int" where
  "vt_cmd_plobj_id_cmp_mptcp_addr a b =
     nm_cmp_chain
       [nm_cmp_direct (mp_ifindex a) (mp_ifindex b),
        nm_cmp_direct (mp_addr_family a) (mp_addr_family b),
        nm_cmp_memcmp (mp_addr a) (mp_addr b) (nm_utils_addr_family_to_size_untrusted (mp_addr_family a)),
        nm_cmp_direct (mp_port a) (mp_port b)]"

definition nm_platform_mptcp_addr_index_addr_equal :: "NMPlatformMptcpAddr \<Rightarrow> NMPlatformMptcpAddr \<Rightarrow> bool" where
  "nm_platform_mptcp_addr_index_addr_equal a b \<longleftrightarrow>
     mp_addr_family a = mp_addr_family b \<and>
     nm_cmp_memcmp (mp_addr a) (mp_addr b) (nm_utils_addr_family_to_size_untrusted (mp_addr_family a)) = 0"

section \<open>Hashing\<close>

definition ip_route_lock_bools :: "'a NMPlatformIPRoute_scheme \<Rightarrow> bool list" where
  "ip_route_lock_bools obj =
     [r_quickack obj, r_lock_window obj, r_lock_cwnd obj, r_lock_initcwnd obj, r_lock_initrwnd obj,
      r_lock_mtu obj, r_lock_mss obj]"

definition nm_platform_ip4_route_hash_update ::
    "NMPlatformIPRouteCmpType \<Rightarrow> NMPlatformIP4Route \<Rightarrow> hash_input" where
  "nm_platform_ip4_route_hash_update cmp_type obj =
     (let n_nexthops = nm_platform_ip4_route_get_n_nexthops obj;
          weight = uint (ip4_route_weight_normalize n_nexthops (r4_weight obj) False);
          table = uint (nm_platform_ip_route_get_effective_table obj);
          network = uint (nm_ip4_addr_clear_host_address (r4_network obj) (unat (r_plen obj)));
          rtprot = int (nmp_utils_ip_config_source_round_trip_rtprot (r_rt_source obj));
          scope = uint (ip_route_scope_inv_get_normalized obj);
          metrics = [uint (r_mss obj), uint (r4_pref_src obj), uint (r_window obj), uint (r_cwnd obj),
                     uint (r_initcwnd obj), uint (r_initrwnd obj), uint (r_mtu obj), uint (r_rto_min obj)]
      in
      case cmp_type of
        NM_PLATFORM_IP_ROUTE_CMP_TYPE_SEMANTICALLY \<Rightarrow>
          [uint (r_type_coerced obj), table, r_ifindex obj, network, uint (r_plen obj), uint (r_metric obj),
           uint n_nexthops, uint (r4_gateway obj), weight, rtprot, scope, uint (r4_tos obj)] @ metrics @
          [uint (r_rtm_flags obj AND (RTM_F_CLONED OR RTNH_F_ONLINK)),
           NM_HASH_COMBINE_BOOLS ([r_metric_any obj, r_table_any obj] @ ip_route_lock_bools obj)]
      | NM_PLATFORM_IP_ROUTE_CMP_TYPE_FULL \<Rightarrow>
          [uint (r_type_coerced obj), uint (r_table_coerced obj), r_ifindex obj, uint (r4_network obj),
           uint (r_plen obj), uint (r_metric obj), uint (r4_gateway obj), uint (r4_n_nexthops obj),
           uint (r4_weight obj), int (r_rt_source obj), uint (r4_scope_inv obj), uint (r4_tos obj)] @ metrics @
          [uint (r_rtm_flags obj),
           NM_HASH_COMBINE_BOOLS ([r_metric_any obj, r_table_any obj] @ ip_route_lock_bools obj)]
      | _ \<Rightarrow>
          [table, network, uint (r_plen obj), uint (r_metric obj), uint (r4_tos obj),
           NM_HASH_COMBINE_BOOLS [r_metric_any obj, r_table_any obj]] @
          (if cmp_type \<in> {NM_PLATFORM_IP_ROUTE_CMP_TYPE_ID, NM_PLATFORM_IP_ROUTE_CMP_TYPE_ECMP_ID} then
             [uint (r_type_coerced obj), rtprot, scope] @ metrics @
             [uint (r_rtm_flags obj AND RTNH_F_ONLINK), NM_HASH_COMBINE_BOOLS (ip_route_lock_bools obj)] @
             (if cmp_type = NM_PLATFORM_IP_ROUTE_CMP_TYPE_ID then
                [r_ifindex obj, uint n_nexthops, uint (r4_gateway obj), weight]
              else [])
           else []))"

definition nm_platform_ip6_route_hash_update ::
    "NMPlatformIPRouteCmpType \<Rightarrow> NMPlatformIP6Route \<Rightarrow> hash_input" where
  "nm_platform_ip6_route_hash_update cmp_type obj =
     (let table = uint (nm_platform_ip_route_get_effective_table obj);
          network = hash_bytes (ip6_clear_host (r6_network obj) (r_plen obj));
          src = hash_bytes (ip6_clear_host (r6_src obj) (r6_src_plen obj));
          weak = [table] @ network @ [uint (r_plen obj), uint (r_metric obj)] @ src @
                 [uint (r6_src_plen obj), NM_HASH_COMBINE_BOOLS [r_metric_any obj, r_table_any obj]];
          bools = NM_HASH_COMBINE_BOOLS ([r_metric_any obj, r_table_any obj] @ ip_route_lock_bools obj);
          metrics = [uint (r_window obj), uint (r_cwnd obj), uint (r_initcwnd obj), uint (r_initrwnd obj),
                     uint (r_mtu obj), uint (r_rto_min obj)]
      in
      case cmp_type of
        NM_PLATFORM_IP_ROUTE_CMP_TYPE_WEAK_ID \<Rightarrow> weak
      | NM_PLATFORM_IP_ROUTE_CMP_TYPE_SEMANTICALLY \<Rightarrow>
          [uint (r_type_coerced obj), table, r_ifindex obj] @ network @
          [uint (r_plen obj), uint (r_metric obj)] @ hash_bytes (r6_gateway obj) @ hash_bytes (r6_pref_src obj) @
          src @ [uint (r6_src_plen obj),
            int (nmp_utils_ip_config_source_round_trip_rtprot (r_rt_source obj)), uint (r_mss obj),
            uint (r_rtm_flags obj AND RTM_F_CLONED), bools] @ metrics @
          [uint (route_pref_normalize (r6_rt_pref obj))]
      | NM_PLATFORM_IP_ROUTE_CMP_TYPE_FULL \<Rightarrow>
          [uint (r_type_coerced obj), uint (r_table_coerced obj), r_ifindex obj] @ hash_bytes (r6_network obj) @
          [uint (r_metric obj)] @ hash_bytes (r6_gateway obj) @ hash_bytes (r6_pref_src obj) @
          hash_bytes (r6_src obj) @ [uint (r6_src_plen obj), int (r_rt_source obj), uint (r_mss obj),
            uint (r_rtm_flags obj), bools] @ metrics @ [uint (r6_rt_pref obj)]
      | _ \<Rightarrow> [uint (r_type_coerced obj)] @ weak @ [r_ifindex obj] @ hash_bytes (r6_gateway obj))"

definition nm_platform_routing_rule_hash_update ::
    "kernel_support \<Rightarrow> (NMPlatformRoutingRule \<Rightarrow> nat) \<Rightarrow> NMPlatformRoutingRuleCmpType \<Rightarrow>
     NMPlatformRoutingRule \<Rightarrow> hash_input" where
  "nm_platform_routing_rule_hash_update support ptr cmp_type obj =
     (if \<not> rr_valid obj then [int (ptr obj)]
      else
        (let cmp_full = (cmp_type = NM_PLATFORM_ROUTING_RULE_CMP_TYPE_FULL);
             flags_mask = routing_rule_flags_mask cmp_type;
             addr_size = nm_utils_addr_family_to_size_untrusted (rr_addr_family obj) in
         [int (rr_addr_family obj), uint (rr_tun_id obj), uint (rr_table obj),
          uint (rr_flags obj AND flags_mask), uint (rr_priority obj), uint (rr_fwmark obj), uint (rr_fwmask obj),
          (if cmp_full \<or> cmp_type = NM_PLATFORM_ROUTING_RULE_CMP_TYPE_SEMANTICALLY \<and> rr_action obj = FR_ACT_GOTO
           then uint (rr_goto_target obj) else 0),
          (if cmp_full \<or> rr_addr_family obj = NM_AF_INET then uint (rr_flow obj) else 0),
          NM_HASH_COMBINE_BOOLS
            [if routing_rule_compare support cmp_type NM_PLATFORM_KERNEL_SUPPORT_TYPE_FRA_UID_RANGE
             then rr_uid_range_has obj else False],
          uint (rr_suppress_prefixlen_inverse obj), uint (rr_suppress_ifgroup_inverse obj),
          (if routing_rule_compare support cmp_type NM_PLATFORM_KERNEL_SUPPORT_TYPE_FRA_L3MDEV
           then (if cmp_full then uint (rr_l3mdev obj) else of_bool (rr_l3mdev obj \<noteq> 0)) else 65535),
          uint (rr_action obj), uint (rr_tos obj), uint (rr_src_len obj), uint (rr_dst_len obj),
          (if routing_rule_compare support cmp_type NM_PLATFORM_KERNEL_SUPPORT_TYPE_FRA_PROTOCOL
           then uint (rr_protocol obj) else 65535)] @
         (if cmp_full \<or> rr_src_len obj > 0 then hash_bytes (take addr_size (rr_src obj)) else []) @
         (if cmp_full \<or> rr_dst_len obj > 0 then hash_bytes (take addr_size (rr_dst obj)) else []) @
         (if routing_rule_compare support cmp_type NM_PLATFORM_KERNEL_SUPPORT_TYPE_FRA_UID_RANGE then
            (if cmp_full \<or> rr_uid_range_has obj
             then [uint (fst (rr_uid_range obj)), uint (snd (rr_uid_range obj))] else [])
          else []) @
         (if routing_rule_compare support cmp_type NM_PLATFORM_KERNEL_SUPPORT_TYPE_FRA_IP_PROTO then
            [uint (rr_ip_proto obj), uint (fst (rr_sport_range obj)), uint (snd (rr_sport_range obj)),
             uint (fst (rr_dport_range obj)), uint (snd (rr_dport_range obj))]
          else []) @
         hash_bytes (rr_iifname obj) @ hash_bytes (rr_oifname obj)))"

definition nm_platform_mptcp_addr_hash_update :: "NMPlatformMptcpAddr \<Rightarrow> hash_input" where
  "nm_platform_mptcp_addr_hash_update obj =
     [uint (mp_id obj), uint (mp_flags obj), uint (mp_port obj), int (mp_addr_family obj),
      mp_ifindex obj] @
     (if mp_addr_family obj \<in> {NM_AF_INET, NM_AF_INET6}
      then hash_bytes (take (nm_utils_addr_family_to_size_untrusted (mp_addr_family obj)) (mp_addr obj)) else [])"

definition vt_cmd_plobj_id_hash_update_mptcp_addr :: "NMPlatformMptcpAddr \<Rightarrow> hash_input" where
  "vt_cmd_plobj_id_hash_update_mptcp_addr obj =
     [int (mp_addr_family obj), uint (mp_port obj), mp_ifindex obj] @
     hash_bytes (take (nm_utils_addr_family_to_size_untrusted (mp_addr_family obj)) (mp_addr obj))"

section \<open>The comparisons are total preorders\<close>

lemma routing_rule_cmp_anti:
  "cmp_anti (nm_platform_routing_rule_cmp support ptr t a b) (nm_platform_routing_rule_cmp support ptr t b a)"
proof (cases "rr_valid a \<and> rr_valid b")
  case True
  then show ?thesis
  unfolding nm_platform_routing_rule_cmp_def Let_def nm_cmp_memcmp_def
  by (induct t; cases "support NM_PLATFORM_KERNEL_SUPPORT_TYPE_FRA_UID_RANGE")
   (simp_all add: nm_cmp_chain_if routing_rule_compare_def cong: imp_cong cong del: if_weak_cong split del: if_split)
next
  case False
  then show ?thesis
    by (auto simp: nm_platform_routing_rule_cmp_def cmp_anti_def nm_cmp_chain_Cons nm_cmp_direct_def)
qed

lemma routing_rule_cmp_trans:
  "cmp_trans3 (nm_platform_routing_rule_cmp support ptr t a b) (nm_platform_routing_rule_cmp support ptr t b c)
     (nm_platform_routing_rule_cmp support ptr t a c)"
proof (cases "rr_valid a \<and> rr_valid b \<and> rr_valid c")
  case True
  then show ?thesis
  unfolding nm_platform_routing_rule_cmp_def Let_def nm_cmp_memcmp_def
  by (induct t; cases "support NM_PLATFORM_KERNEL_SUPPORT_TYPE_FRA_UID_RANGE")
   (simp_all add: nm_cmp_chain_if routing_rule_compare_def cong: imp_cong cong del: if_weak_cong split del: if_split)
next
  case False
  then show ?thesis
    by (auto simp: nm_platform_routing_rule_cmp_def cmp_trans3_def nm_cmp_chain_Cons nm_cmp_direct_def split: if_splits)
qed

lemma ip4_weight_chain:
  "nm_cmp_chain (nm_cmp_direct n m # nm_cmp_direct (ip4_route_weight_normalize n x f) (ip4_route_weight_normalize n y f) # cs) =
   nm_cmp_chain (nm_cmp_direct n m # nm_cmp_direct (ip4_route_weight_normalize n x f) (ip4_route_weight_normalize m y f) # cs)"
  by (simp add: nm_cmp_chain_Cons)

lemmas ip4_cmp_simps = nm_platform_ip4_route_cmp_def Let_def ip4_prefix_chain ip4_weight_chain

lemma ip4_route_cmp_anti:
  "cmp_anti (nm_platform_ip4_route_cmp t a b) (nm_platform_ip4_route_cmp t b a)"
  by (induct t) (simp_all add: ip4_cmp_simps cong: imp_cong split del: if_split)

lemma ip4_route_cmp_trans:
  "cmp_trans3 (nm_platform_ip4_route_cmp t a b) (nm_platform_ip4_route_cmp t b c) (nm_platform_ip4_route_cmp t a c)"
  by (induct t) (simp_all add: ip4_cmp_simps cong: imp_cong split del: if_split)

definition ip6_route_ok :: "NMPlatformIP6Route \<Rightarrow> bool" where
  "ip6_route_ok r \<longleftrightarrow> length (r6_network r) = 16 \<and> length (r6_gateway r) = 16 \<and> length (r6_pref_src r) = 16 \<and>
     length (r6_src r) = 16 \<and> unat (r_plen r) \<le> 128 \<and> unat (r6_src_plen r) \<le> 128"

lemmas ip6_cmp_simps = nm_platform_ip6_route_cmp_def Let_def ip6_prefix_chain nm_cmp_memcmp_def ip6_route_ok_def

lemma ip6_route_cmp_anti:
  "ip6_route_ok a \<Longrightarrow> ip6_route_ok b \<Longrightarrow>
     cmp_anti (nm_platform_ip6_route_cmp t a b) (nm_platform_ip6_route_cmp t b a)"
  by (induct t) (simp_all add: ip6_cmp_simps cong: imp_cong split del: if_split)

lemma ip6_route_cmp_trans:
  "ip6_route_ok a \<Longrightarrow> ip6_route_ok b \<Longrightarrow> ip6_route_ok c \<Longrightarrow>
  cmp_trans3 (nm_platform_ip6_route_cmp t a b) (nm_platform_ip6_route_cmp t b c) (nm_platform_ip6_route_cmp t a c)"
  by (induct t) (simp_all add: ip6_cmp_simps cong: imp_cong split del: if_split)

interpretation ip4_route: compare_order "nm_platform_ip4_route_cmp t" for t
  using ip4_route_cmp_anti [of t] ip4_route_cmp_trans [of t]
  by unfold_locales (auto simp: cmp_anti_def cmp_trans3_def)

interpretation routing_rule: compare_order "nm_platform_routing_rule_cmp support ptr t" for support ptr t
  using routing_rule_cmp_anti [of support ptr t] routing_rule_cmp_trans [of support ptr t]
  by unfold_locales (auto simp: cmp_anti_def cmp_trans3_def)

lemma ip6_route_compare_ok: "compare_ok_on {r. ip6_route_ok r} (nm_platform_ip6_route_cmp t)"
  using ip6_route_cmp_anti [of _ _ t] ip6_route_cmp_trans [of _ _ _ t]
  unfolding compare_ok_on_def cmp_anti_def cmp_trans3_def mem_Collect_eq by blast

section \<open>Hash functions agree with the comparison\<close>

lemma ip4_hash_agrees:
  "nm_platform_ip4_route_cmp t a b = 0 \<Longrightarrow>
     nm_platform_ip4_route_hash_update t a = nm_platform_ip4_route_hash_update t b"
  by (induct t) (simp add: nm_platform_ip4_route_cmp_def Let_def same_prefix4_eq_0, elim conjE,
      simp add: nm_platform_ip4_route_hash_update_def Let_def ip_route_lock_bools_def)+

lemma ip6_clear_host_clear6: "length a = 16 \<Longrightarrow> unat p \<le> 128 \<Longrightarrow> ip6_clear_host a p = clear6 a (unat p)"
  using clear_host_address6 [of a None "unat p"] by (simp add: ip6_clear_host_def)

lemma ip6_take_16:
  assumes "ip6_route_ok a"
  shows "take 16 (r6_network a) = r6_network a" "take 16 (r6_gateway a) = r6_gateway a"
    "take 16 (r6_pref_src a) = r6_pref_src a" "take 16 (r6_src a) = r6_src a"
  using assms by (simp_all add: ip6_route_ok_def)

lemma ip6_prefix_eq_0:
  assumes "ip6_route_ok a" "ip6_route_ok b"
  shows "nm_ip6_addr_same_prefix_cmp (r6_network a) (r6_network b) (min (unat (r_plen a)) (unat (r_plen b))) = 0 \<Longrightarrow>
      r_plen a = r_plen b \<Longrightarrow> ip6_clear_host (r6_network a) (r_plen a) = ip6_clear_host (r6_network b) (r_plen b)"
    "nm_ip6_addr_same_prefix_cmp (r6_src a) (r6_src b) (min (unat (r6_src_plen a)) (unat (r6_src_plen b))) = 0 \<Longrightarrow>
      r6_src_plen a = r6_src_plen b \<Longrightarrow> ip6_clear_host (r6_src a) (r6_src_plen a) = ip6_clear_host (r6_src b) (r6_src_plen b)"
  using assms by (simp_all add: ip6_route_ok_def same_prefix6_cmp_clear6 ip6_clear_host_clear6)

lemma ip6_hash_agrees:
  assumes "ip6_route_ok a" "ip6_route_ok b" "nm_platform_ip6_route_cmp t a b = 0"
    "t \<noteq> NM_PLATFORM_IP_ROUTE_CMP_TYPE_ECMP_ID"
  shows "nm_platform_ip6_route_hash_update t a = nm_platform_ip6_route_hash_update t b"
  using assms(3,4) ip6_prefix_eq_0 [OF assms(1,2)]
  by (induct t) (simp add: nm_platform_ip6_route_cmp_def Let_def nm_cmp_memcmp_def ip6_take_16 assms(1,2),
      (elim conjE, simp add: nm_platform_ip6_route_hash_update_def Let_def ip_route_lock_bools_def)?)+

lemma routing_rule_hash_agrees:
  assumes "nm_platform_routing_rule_cmp support ptr t a b = 0"
  shows "nm_platform_routing_rule_hash_update support ptr t a = nm_platform_routing_rule_hash_update support ptr t b"
proof (cases "rr_valid a \<and> rr_valid b")
  case True
  with assms show ?thesis
    by (induct t) (simp add: nm_platform_routing_rule_cmp_def Let_def nm_cmp_memcmp_def 
    all_0_if ball_Un imp_conjL imp_disjL all_conj_distrib split del: if_split cong del: if_weak_cong, elim conjE,
      simp add: nm_platform_routing_rule_hash_update_def Let_def cong: if_cong split del: if_split)+
next
  case False
  with assms show ?thesis
    by (auto simp add: nm_platform_routing_rule_cmp_def nm_platform_routing_rule_hash_update_def)
qed

lemma ip4_normalize_sel:
  "r_table_any (nm_platform_ip4_route_normalize r) = False"
  "r_metric_any (nm_platform_ip4_route_normalize r) = False"
  "r_table_coerced (nm_platform_ip4_route_normalize r) =
     nm_platform_route_table_coerce (nm_platform_ip_route_get_effective_table r)"
  "r_rt_source (nm_platform_ip4_route_normalize r) = nmp_utils_ip_config_source_round_trip_rtprot (r_rt_source r)"
  "r_metric (nm_platform_ip4_route_normalize r) = r_metric r"
  "r4_network (nm_platform_ip4_route_normalize r) = nm_ip4_addr_clear_host_address (r4_network r) (unat (r_plen r))"
  "r4_scope_inv (nm_platform_ip4_route_normalize r) = ip_route_scope_inv_get_normalized r"
  "r4_n_nexthops (nm_platform_ip4_route_normalize r) = nm_platform_ip4_route_get_n_nexthops r"
  "r4_weight (nm_platform_ip4_route_normalize r) =
     ip4_route_weight_normalize (nm_platform_ip4_route_get_n_nexthops r) (r4_weight r) True"
  by (simp_all add: nm_platform_ip4_route_normalize_def nm_platform_ip_route_normalize_common_def Let_def
      nm_platform_ip4_route_get_effective_metric_def nm_add_clamped_u32_def ip_route_scope_inv_get_normalized_def
      nm_platform_ip4_route_get_n_nexthops_def)

lemma ip4_normalize_keeps:
  "r_ifindex (nm_platform_ip4_route_normalize r) = r_ifindex r"
  "r_rtm_flags (nm_platform_ip4_route_normalize r) = r_rtm_flags r"
  "r_mss (nm_platform_ip4_route_normalize r) = r_mss r"
  "r_window (nm_platform_ip4_route_normalize r) = r_window r"
  "r_cwnd (nm_platform_ip4_route_normalize r) = r_cwnd r"
  "r_initcwnd (nm_platform_ip4_route_normalize r) = r_initcwnd r"
  "r_initrwnd (nm_platform_ip4_route_normalize r) = r_initrwnd r"
  "r_rto_min (nm_platform_ip4_route_normalize r) = r_rto_min r"
  "r_mtu (nm_platform_ip4_route_normalize r) = r_mtu r"
  "ip_route_lock_bools (nm_platform_ip4_route_normalize r) = ip_route_lock_bools r"
  "r_type_coerced (nm_platform_ip4_route_normalize r) = r_type_coerced r"
  "r_plen (nm_platform_ip4_route_normalize r) = r_plen r"
  "r4_gateway (nm_platform_ip4_route_normalize r) = r4_gateway r"
  "r4_pref_src (nm_platform_ip4_route_normalize r) = r4_pref_src r"
  "r4_tos (nm_platform_ip4_route_normalize r) = r4_tos r"
  by (simp_all add: nm_platform_ip4_route_normalize_def nm_platform_ip_route_normalize_common_def Let_def
      ip_route_lock_bools_def)

lemma weight_normalize_ecmp:
  "ip4_route_weight_normalize n x False = ip4_route_weight_normalize n y False \<Longrightarrow>
     ip4_route_weight_normalize n x True = ip4_route_weight_normalize n y True"
  by (auto simp: ip4_route_weight_normalize_def split: if_splits)

lemma ip4_semantically_normalized:
  assumes "nm_platform_ip4_route_cmp NM_PLATFORM_IP_ROUTE_CMP_TYPE_SEMANTICALLY a b = 0"
  shows "nm_platform_ip4_route_cmp NM_PLATFORM_IP_ROUTE_CMP_TYPE_FULL
      (nm_platform_ip4_route_normalize a) (nm_platform_ip4_route_normalize b) = 0 \<longleftrightarrow> r_rtm_flags a = r_rtm_flags b"
  using assms weight_normalize_ecmp [of "nm_platform_ip4_route_get_n_nexthops a" "r4_weight a" "r4_weight b"]
    ip4_normalize_keeps(10) [of a, unfolded ip_route_lock_bools_def] ip4_normalize_keeps(10) [of b, unfolded ip_route_lock_bools_def]
  by (simp add: nm_platform_ip4_route_cmp_def Let_def same_prefix4_eq_0, elim conjE,
      simp add: ip4_normalize_sel ip4_normalize_keeps)

lemma ip6_normalize_sel:
  "r_table_any (nm_platform_ip6_route_normalize r) = False"
  "r_metric_any (nm_platform_ip6_route_normalize r) = False"
  "r_table_coerced (nm_platform_ip6_route_normalize r) =
     nm_platform_route_table_coerce (nm_platform_ip_route_get_effective_table r)"
  "r_rt_source (nm_platform_ip6_route_normalize r) = nmp_utils_ip_config_source_round_trip_rtprot (r_rt_source r)"
  "r_metric (nm_platform_ip6_route_normalize r) = nm_platform_ip6_route_get_effective_metric r"
  "r6_network (nm_platform_ip6_route_normalize r) = ip6_clear_host (r6_network r) (r_plen r)"
  "r6_src (nm_platform_ip6_route_normalize r) = ip6_clear_host (r6_src r) (r6_src_plen r)"
  by (simp_all add: nm_platform_ip6_route_normalize_def nm_platform_ip_route_normalize_common_def Let_def
      nm_platform_ip6_route_get_effective_metric_def)

lemma ip6_normalize_keeps:
  "r_ifindex (nm_platform_ip6_route_normalize r) = r_ifindex r"
  "r_rtm_flags (nm_platform_ip6_route_normalize r) = r_rtm_flags r"
  "r_mss (nm_platform_ip6_route_normalize r) = r_mss r"
  "r_window (nm_platform_ip6_route_normalize r) = r_window r"
  "r_cwnd (nm_platform_ip6_route_normalize r) = r_cwnd r"
  "r_initcwnd (nm_platform_ip6_route_normalize r) = r_initcwnd r"
  "r_initrwnd (nm_platform_ip6_route_normalize r) = r_initrwnd r"
  "r_rto_min (nm_platform_ip6_route_normalize r) = r_rto_min r"
  "r_mtu (nm_platform_ip6_route_normalize r) = r_mtu r"
  "ip_route_lock_bools (nm_platform_ip6_route_normalize r) = ip_route_lock_bools r"
  "r_type_coerced (nm_platform_ip6_route_normalize r) = r_type_coerced r"
  "r_plen (nm_platform_ip6_route_normalize r) = r_plen r"
  "r6_gateway (nm_platform_ip6_route_normalize r) = r6_gateway r"
  "r6_pref_src (nm_platform_ip6_route_normalize r) = r6_pref_src r"
  "r6_src_plen (nm_platform_ip6_route_normalize r) = r6_src_plen r"
  "r6_rt_pref (nm_platform_ip6_route_normalize r) = r6_rt_pref r"
  by (simp_all add: nm_platform_ip6_route_normalize_def nm_platform_ip_route_normalize_common_def Let_def
      ip_route_lock_bools_def)

lemma ip6_semantically_normalized:
  assumes "ip6_route_ok a" "ip6_route_ok b"
    "nm_platform_ip6_route_cmp NM_PLATFORM_IP_ROUTE_CMP_TYPE_SEMANTICALLY a b = 0"
  shows "nm_platform_ip6_route_cmp NM_PLATFORM_IP_ROUTE_CMP_TYPE_FULL
      (nm_platform_ip6_route_normalize a) (nm_platform_ip6_route_normalize b) = 0 \<longleftrightarrow>
      r_rtm_flags a = r_rtm_flags b \<and> r6_rt_pref a = r6_rt_pref b"
  using assms(3) ip6_prefix_eq_0 [OF assms(1,2)]
    ip6_normalize_keeps(10) [of a, unfolded ip_route_lock_bools_def] ip6_normalize_keeps(10) [of b, unfolded ip_route_lock_bools_def]
  by (simp add: nm_platform_ip6_route_cmp_def Let_def nm_cmp_memcmp_def ip6_take_16 assms(1,2), elim conjE,
      simp add: ip6_normalize_sel ip6_normalize_keeps ip6_take_16 assms(1,2) nm_platform_ip6_route_get_effective_metric_def)

lemma mptcp_id_hash_agrees:
  "vt_cmd_plobj_id_cmp_mptcp_addr a b = 0 \<Longrightarrow>
     vt_cmd_plobj_id_hash_update_mptcp_addr a = vt_cmd_plobj_id_hash_update_mptcp_addr b"
  by (clarsimp simp: vt_cmd_plobj_id_cmp_mptcp_addr_def vt_cmd_plobj_id_hash_update_mptcp_addr_def nm_cmp_memcmp_def)

lemma mptcp_hash_flags:
  "nm_platform_mptcp_addr_cmp a b = 0 \<Longrightarrow>
     nm_platform_mptcp_addr_hash_update a = nm_platform_mptcp_addr_hash_update b \<longleftrightarrow> mp_flags a = mp_flags b"
  by (auto simp: nm_platform_mptcp_addr_cmp_def nm_platform_mptcp_addr_hash_update_def nm_cmp_memcmp_def
      word_uint_eq_iff [symmetric])

section \<open>Semantic comparison and normalization\<close>

abbreviation blank_ip4_route :: NMPlatformIP4Route where
  "blank_ip4_route \<equiv>
     \<lparr>r_ifindex = 0, r_rtm_flags = 0, r_mss = 0, r_window = 0, r_cwnd = 0, r_initcwnd = 0, r_initrwnd = 0,
      r_rto_min = 0, r_mtu = 0, r_metric = 0, r_table_coerced = 0, r_rt_source = 0, r_lock_window = False,
      r_lock_cwnd = False, r_lock_initcwnd = False, r_lock_initrwnd = False, r_lock_mtu = False,
      r_lock_mss = False, r_quickack = False, r_metric_any = False, r_table_any = False,
      r_force_commit = False, r_type_coerced = 6, r_plen = 24,
      r4_network = 0, r4_n_nexthops = 0, r4_gateway = 0, r4_pref_src = 0, r4_weight = 0, r4_tos = 0,
      r4_scope_inv = 0\<rparr>"

abbreviation blank_ip6_route :: NMPlatformIP6Route where
  "blank_ip6_route \<equiv>
     \<lparr>r_ifindex = 0, r_rtm_flags = 0, r_mss = 0, r_window = 0, r_cwnd = 0, r_initcwnd = 0, r_initrwnd = 0,
      r_rto_min = 0, r_mtu = 0, r_metric = 0, r_table_coerced = 0, r_rt_source = 0, r_lock_window = False,
      r_lock_cwnd = False, r_lock_initcwnd = False, r_lock_initrwnd = False, r_lock_mtu = False,
      r_lock_mss = False, r_quickack = False, r_metric_any = False, r_table_any = False,
      r_force_commit = False, r_type_coerced = 6, r_plen = 64,
      r6_network = replicate 16 0, r6_gateway = replicate 16 0, r6_pref_src = replicate 16 0,
      r6_src = replicate 16 0, r6_src_plen = 0, r6_rt_pref = 0\<rparr>"

abbreviation example_mptcp_addr :: "u32 \<Rightarrow> NMPlatformMptcpAddr" where
  "example_mptcp_addr flags \<equiv>
     \<lparr>mp_ifindex = 1, mp_id = 0, mp_flags = flags, mp_port = 0, mp_addr = replicate 16 0,
      mp_addr_family = NM_AF_INET\<rparr>"

text \<open>
  What the documentation of \<^verbatim>\<open>nm_platform_ip_route_normalize\<close> promises of routes that
  compare semantically equal, that they are fully equal after normalizing, holds exactly when they
  have the same \<open>r_rtm_flags\<close> and, for IPv6, the same router preference: normalizing leaves these
  two fields alone, while the semantic comparison looks at parts of them only.
\<close>

theorem route_semantically_normalized:
  assumes "nm_platform_ip4_route_cmp NM_PLATFORM_IP_ROUTE_CMP_TYPE_SEMANTICALLY a b = 0"
    and "ip6_route_ok x" "ip6_route_ok y"
    and "nm_platform_ip6_route_cmp NM_PLATFORM_IP_ROUTE_CMP_TYPE_SEMANTICALLY x y = 0"
  shows "(nm_platform_ip4_route_cmp NM_PLATFORM_IP_ROUTE_CMP_TYPE_FULL
      (nm_platform_ip4_route_normalize a) (nm_platform_ip4_route_normalize b) = 0 \<longleftrightarrow>
      r_rtm_flags a = r_rtm_flags b) \<and>
    (nm_platform_ip6_route_cmp NM_PLATFORM_IP_ROUTE_CMP_TYPE_FULL
      (nm_platform_ip6_route_normalize x) (nm_platform_ip6_route_normalize y) = 0 \<longleftrightarrow>
      r_rtm_flags x = r_rtm_flags y \<and> r6_rt_pref x = r6_rt_pref y)"
  using ip4_semantically_normalized [OF assms(1)] ip6_semantically_normalized [OF assms(2-4)] by simp

theorem route_semantically_normalized_witness:
  "nm_platform_ip4_route_cmp NM_PLATFORM_IP_ROUTE_CMP_TYPE_FULL
      (nm_platform_ip4_route_normalize blank_ip4_route)
      (nm_platform_ip4_route_normalize (blank_ip4_route\<lparr>r4_network := htonl 5, r_table_coerced := 254\<rparr>)) = 0 \<and>
   nm_platform_ip6_route_cmp NM_PLATFORM_IP_ROUTE_CMP_TYPE_FULL
      (nm_platform_ip6_route_normalize blank_ip6_route)
      (nm_platform_ip6_route_normalize (blank_ip6_route\<lparr>r6_rt_pref := 2\<rparr>)) \<noteq> 0"
proof -
  let ?b = "blank_ip4_route\<lparr>r4_network := htonl 5, r_table_coerced := 254\<rparr>"
    and ?y = "blank_ip6_route\<lparr>r6_rt_pref := 2\<rparr>"
  have "nm_platform_ip4_route_cmp NM_PLATFORM_IP_ROUTE_CMP_TYPE_SEMANTICALLY blank_ip4_route ?b = 0"
    by code_simp
  moreover have "nm_platform_ip6_route_cmp NM_PLATFORM_IP_ROUTE_CMP_TYPE_SEMANTICALLY blank_ip6_route ?y = 0"
    by code_simp
  moreover have "ip6_route_ok blank_ip6_route" "ip6_route_ok ?y" by (simp_all add: ip6_route_ok_def)
  ultimately show ?thesis
    using route_semantically_normalized [of blank_ip4_route ?b blank_ip6_route ?y] by simp
qed

section \<open>Identity\<close>

lemma equivp_ip6:
  "t \<in> {NM_PLATFORM_IP_ROUTE_CMP_TYPE_ID, NM_PLATFORM_IP_ROUTE_CMP_TYPE_FULL} \<Longrightarrow>
     equivp (\<lambda>a b. nm_platform_ip6_route_cmp t a b = 0)"
  by (intro equivpI reflpI sympI transpI; elim insertE emptyE;
      simp add: nm_platform_ip6_route_cmp_def Let_def nm_cmp_memcmp_def same_prefix6_key;
      (elim conjE, simp)?)

lemma equivp_mptcp:
  "equivp (\<lambda>a b. nm_platform_mptcp_addr_cmp a b = 0)" "equivp (\<lambda>a b. vt_cmd_plobj_id_cmp_mptcp_addr a b = 0)"
  by (intro equivpI reflpI sympI transpI;
      auto simp: nm_platform_mptcp_addr_cmp_def vt_cmd_plobj_id_cmp_mptcp_addr_def nm_cmp_memcmp_def)+

lemma full_cmp_id_cmp_ip4:
  "nm_platform_ip4_route_cmp NM_PLATFORM_IP_ROUTE_CMP_TYPE_FULL x y = 0 \<Longrightarrow>
     nm_platform_ip4_route_cmp NM_PLATFORM_IP_ROUTE_CMP_TYPE_ID x y = 0"
  by (simp add: nm_platform_ip4_route_cmp_def Let_def, elim conjE)
    (simp add: same_prefix4_eq_0 nm_platform_ip_route_get_effective_table_def ip_route_scope_inv_get_normalized_def
      nm_platform_ip4_route_get_n_nexthops_def)

lemma full_cmp_id_cmp_ip6:
  "nm_platform_ip6_route_cmp NM_PLATFORM_IP_ROUTE_CMP_TYPE_FULL x y = 0 \<Longrightarrow>
     nm_platform_ip6_route_cmp NM_PLATFORM_IP_ROUTE_CMP_TYPE_ID x y = 0"
  by (simp add: nm_platform_ip6_route_cmp_def Let_def nm_cmp_memcmp_def, elim conjE)
    (simp add: same_prefix6_key nm_platform_ip_route_get_effective_table_def, intro conjI prefix6_key_take)

lemma full_cmp_id_cmp_rule:
  "nm_platform_routing_rule_cmp support ptr NM_PLATFORM_ROUTING_RULE_CMP_TYPE_FULL x y = 0 \<Longrightarrow>
     nm_platform_routing_rule_cmp support ptr NM_PLATFORM_ROUTING_RULE_CMP_TYPE_ID x y = 0"
  by (cases "rr_valid x"; simp add: nm_platform_routing_rule_cmp_def routing_rule_compare_def
        routing_rule_flags_mask_def Let_def nm_cmp_memcmp_def; elim conjE; auto simp: nm_cmp_direct_def)

lemma full_cmp_id_cmp_mptcp:
  "nm_platform_mptcp_addr_cmp x y = 0 \<Longrightarrow> vt_cmd_plobj_id_cmp_mptcp_addr x y = 0"
  by (auto simp: nm_platform_mptcp_addr_cmp_def vt_cmd_plobj_id_cmp_mptcp_addr_def nm_cmp_memcmp_def
      nm_utils_addr_family_to_size_untrusted_def split: if_splits)

end
