(* ===== verification/NM_Platform_Addresses.thy ===== *)
theory NM_Platform_Addresses
  imports NM_Platform_Cmp
begin

text \<open>
  The addresses of the platform (\<^verbatim>\<open>nmp-plobj.[ch]\<close>) with their comparison functions, the orders in which
  they are shown and configured, and the remaining lifetimes (\<^verbatim>\<open>nm-platform-utils.c\<close>). The clock is the
  argument \<open>now\<close>.
\<close>

section \<open>Lifetimes\<close>

abbreviation (input) NM_PLATFORM_LIFETIME_PERMANENT :: u32 where "NM_PLATFORM_LIFETIME_PERMANENT \<equiv> 0xFFFFFFFF"

definition nmp_utils_lifetime_rebase_relative_time_on_now :: "u32 \<Rightarrow> u32 \<Rightarrow> int \<Rightarrow> u32" where
  "nmp_utils_lifetime_rebase_relative_time_on_now timestamp duration now =
     (if duration = NM_PLATFORM_LIFETIME_PERMANENT then NM_PLATFORM_LIFETIME_PERMANENT
      else
        (let timestamp = (if timestamp = 0 then word_of_int now else timestamp);
             t = uint timestamp + uint duration - now
         in if t \<le> 0 then 0
            else if t \<ge> uint NM_PLATFORM_LIFETIME_PERMANENT then NM_PLATFORM_LIFETIME_PERMANENT - 1
            else word_of_int t))"

text \<open>The lifetime and the preferred lifetime, which is an output argument.\<close>

definition nmp_utils_lifetime_get :: "u32 \<Rightarrow> u32 \<Rightarrow> u32 \<Rightarrow> int \<Rightarrow> u32 \<times> u32" where
  "nmp_utils_lifetime_get timestamp lifetime preferred now =
     (if timestamp = 0 \<and> lifetime = 0 then (NM_PLATFORM_LIFETIME_PERMANENT, NM_PLATFORM_LIFETIME_PERMANENT)
      else
        (let t_lifetime = nmp_utils_lifetime_rebase_relative_time_on_now timestamp lifetime now
         in if t_lifetime = 0 then (0, 0)
            else
              (let t_preferred = nmp_utils_lifetime_rebase_relative_time_on_now timestamp preferred now
               in (t_lifetime, min t_preferred t_lifetime))))"

section \<open>The addresses\<close>

text \<open>The fields of \<^verbatim>\<open>__NMPlatformIPAddress_COMMON\<close>, which both kinds of addresses start with.\<close>

record NMPlatformIPAddress =
  ax_ifindex :: int
  ax_addr_source :: nat
  ax_timestamp :: u32
  ax_lifetime :: u32
  ax_preferred :: u32
  ax_n_ifa_flags :: u32
  ax_use_ip4_broadcast_address :: bool
  ax_a_force_commit :: bool
  ax_plen :: u8

record NMPlatformIP4Address = NMPlatformIPAddress +
  a4_address :: in_addr_t
  a4_peer_address :: in_addr_t
  a4_broadcast_address :: in_addr_t
  a4_label :: "u8 list"
  a4_a_acd_not_ready :: bool

record NMPlatformIP6Address = NMPlatformIPAddress +
  a6_address :: in6_addr
  a6_peer_address :: in6_addr

datatype NMPlatformIPAddressCmpType =
  NM_PLATFORM_IP_ADDRESS_CMP_TYPE_ID
| NM_PLATFORM_IP_ADDRESS_CMP_TYPE_SEMANTICALLY
| NM_PLATFORM_IP_ADDRESS_CMP_TYPE_FULL

definition nm_ip4_addr_get_broadcast_address :: "in_addr_t \<Rightarrow> u8 \<Rightarrow> in_addr_t" where
  "nm_ip4_addr_get_broadcast_address address plen = address OR NOT (nm_ip4_addr_netmask_from_prefix (unat plen))"

definition nm_platform_ip4_broadcast_address_from_addr :: "NMPlatformIP4Address \<Rightarrow> in_addr_t" where
  "nm_platform_ip4_broadcast_address_from_addr addr =
     (if ax_use_ip4_broadcast_address addr then a4_broadcast_address addr
      else if a4_peer_address addr \<noteq> 0 \<and> ax_plen addr < 31
        then nm_ip4_addr_get_broadcast_address (a4_peer_address addr) (ax_plen addr)
      else 0)"

definition nm_platform_ip4_address_set_addr :: "in_addr_t \<Rightarrow> u8 \<Rightarrow> NMPlatformIP4Address \<Rightarrow> NMPlatformIP4Address" where
  "nm_platform_ip4_address_set_addr address plen addr =
     addr\<lparr>a4_address := address, a4_peer_address := address, ax_plen := plen\<rparr>"

definition nm_platform_ip6_address_get_peer :: "NMPlatformIP6Address \<Rightarrow> in6_addr" where
  "nm_platform_ip6_address_get_peer addr =
     (if IN6_IS_ADDR_UNSPECIFIED (a6_peer_address addr) \<or> a6_peer_address addr = a6_address addr then a6_address addr
      else a6_peer_address addr)"

section \<open>Comparing and hashing\<close>

definition address_cmp_expiry :: "int \<Rightarrow> 'a NMPlatformIPAddress_scheme \<Rightarrow> 'a NMPlatformIPAddress_scheme \<Rightarrow> int" where
  "address_cmp_expiry now a b =
     (let (lifetime_a, preferred_a) = nmp_utils_lifetime_get (ax_timestamp a) (ax_lifetime a) (ax_preferred a) now;
          (lifetime_b, preferred_b) = nmp_utils_lifetime_get (ax_timestamp b) (ax_lifetime b) (ax_preferred b) now
      in nm_cmp_chain [nm_cmp_direct lifetime_a lifetime_b, nm_cmp_direct preferred_a preferred_b])"

definition nm_platform_ip4_address_cmp ::
    "int \<Rightarrow> NMPlatformIPAddressCmpType \<Rightarrow> NMPlatformIP4Address \<Rightarrow> NMPlatformIP4Address \<Rightarrow> int" where
  "nm_platform_ip4_address_cmp now cmp_type a b =
     nm_cmp_chain
       ([nm_cmp_direct (ax_ifindex a) (ax_ifindex b),
         nm_cmp_direct (ax_plen a) (ax_plen b),
         nm_cmp_direct (a4_address a) (a4_address b)] @
        (if cmp_type = NM_PLATFORM_IP_ADDRESS_CMP_TYPE_ID
         then [nm_ip4_addr_same_prefix_cmp (a4_peer_address a) (a4_peer_address b) (unat (ax_plen a))]
         else
           [nm_cmp_direct (a4_peer_address a) (a4_peer_address b),
            cmp_bytes (a4_label a) (a4_label b)] @
           (if cmp_type = NM_PLATFORM_IP_ADDRESS_CMP_TYPE_SEMANTICALLY then
              [address_cmp_expiry now a b,
               nm_cmp_direct (nm_platform_ip4_broadcast_address_from_addr a) (nm_platform_ip4_broadcast_address_from_addr b)]
            else
              [nm_cmp_direct (ax_timestamp a) (ax_timestamp b),
               nm_cmp_direct (ax_lifetime a) (ax_lifetime b),
               nm_cmp_direct (ax_preferred a) (ax_preferred b),
               nm_cmp_direct (ax_n_ifa_flags a) (ax_n_ifa_flags b),
               nm_cmp_direct (ax_addr_source a) (ax_addr_source b),
               nm_cmp_direct (ax_use_ip4_broadcast_address a) (ax_use_ip4_broadcast_address b)] @
              (if ax_use_ip4_broadcast_address a
               then [nm_cmp_direct (a4_broadcast_address a) (a4_broadcast_address b)] else []) @
              [nm_cmp_direct (a4_a_acd_not_ready a) (a4_a_acd_not_ready b),
               nm_cmp_direct (ax_a_force_commit a) (ax_a_force_commit b)])))"

abbreviation (input) IFA_F_SECONDARY :: u32 where "IFA_F_SECONDARY \<equiv> 0x01"
abbreviation (input) IFA_F_OPTIMISTIC :: u32 where "IFA_F_OPTIMISTIC \<equiv> 0x04"
abbreviation (input) IFA_F_DADFAILED :: u32 where "IFA_F_DADFAILED \<equiv> 0x08"
abbreviation (input) IFA_F_DEPRECATED :: u32 where "IFA_F_DEPRECATED \<equiv> 0x20"
abbreviation (input) IFA_F_TENTATIVE :: u32 where "IFA_F_TENTATIVE \<equiv> 0x40"
abbreviation (input) IFA_F_PERMANENT :: u32 where "IFA_F_PERMANENT \<equiv> 0x80"
abbreviation (input) IFA_F_MANAGETEMPADDR :: u32 where "IFA_F_MANAGETEMPADDR \<equiv> 0x100"

definition nm_platform_ip6_address_cmp ::
    "int \<Rightarrow> NMPlatformIPAddressCmpType \<Rightarrow> NMPlatformIP6Address \<Rightarrow> NMPlatformIP6Address \<Rightarrow> int" where
  "nm_platform_ip6_address_cmp now cmp_type a b =
     nm_cmp_chain
       ([nm_cmp_direct (ax_ifindex a) (ax_ifindex b),
         nm_cmp_memcmp (a6_address a) (a6_address b) 16] @
        (if cmp_type = NM_PLATFORM_IP_ADDRESS_CMP_TYPE_ID then []
         else
           [nm_cmp_direct (ax_plen a) (ax_plen b),
            nm_cmp_memcmp (nm_platform_ip6_address_get_peer a) (nm_platform_ip6_address_get_peer b) 16] @
           (if cmp_type = NM_PLATFORM_IP_ADDRESS_CMP_TYPE_SEMANTICALLY then
              [address_cmp_expiry now a b,
               nm_cmp_direct (ax_n_ifa_flags a AND IFA_F_MANAGETEMPADDR) (ax_n_ifa_flags b AND IFA_F_MANAGETEMPADDR)]
            else
              [nm_cmp_direct (ax_timestamp a) (ax_timestamp b),
               nm_cmp_direct (ax_lifetime a) (ax_lifetime b),
               nm_cmp_direct (ax_preferred a) (ax_preferred b),
               nm_cmp_direct (ax_n_ifa_flags a) (ax_n_ifa_flags b),
               nm_cmp_direct (ax_addr_source a) (ax_addr_source b),
               nm_cmp_direct (ax_a_force_commit a) (ax_a_force_commit b)])))"

definition nm_platform_ip4_address_hash_update :: "NMPlatformIP4Address \<Rightarrow> hash_input" where
  "nm_platform_ip4_address_hash_update obj =
     [ax_ifindex obj, int (ax_addr_source obj),
      uint (if ax_use_ip4_broadcast_address obj then a4_broadcast_address obj else 0),
      uint (ax_timestamp obj), uint (ax_lifetime obj), uint (ax_preferred obj), uint (ax_n_ifa_flags obj),
      uint (ax_plen obj), uint (a4_address obj), uint (a4_peer_address obj),
      NM_HASH_COMBINE_BOOLS [ax_use_ip4_broadcast_address obj, a4_a_acd_not_ready obj, ax_a_force_commit obj]] @
     hash_bytes (a4_label obj @ [0])"

definition nm_platform_ip6_address_hash_update :: "NMPlatformIP6Address \<Rightarrow> hash_input" where
  "nm_platform_ip6_address_hash_update obj =
     [ax_ifindex obj, int (ax_addr_source obj), uint (ax_timestamp obj), uint (ax_lifetime obj), uint (ax_preferred obj),
      uint (ax_n_ifa_flags obj), uint (ax_plen obj)] @
     hash_bytes (a6_address obj) @ hash_bytes (a6_peer_address obj) @ [NM_HASH_COMBINE_BOOLS [ax_a_force_commit obj]]"

definition vt_cmd_plobj_id_hash_update_ip4_address :: "NMPlatformIP4Address \<Rightarrow> hash_input" where
  "vt_cmd_plobj_id_hash_update_ip4_address obj =
     [ax_ifindex obj, uint (ax_plen obj), uint (a4_address obj),
      uint (nm_ip4_addr_clear_host_address (a4_peer_address obj) (unat (ax_plen obj)))]"

definition vt_cmd_plobj_id_hash_update_ip6_address :: "NMPlatformIP6Address \<Rightarrow> hash_input" where
  "vt_cmd_plobj_id_hash_update_ip6_address obj = ax_ifindex obj # hash_bytes (a6_address obj)"

section \<open>Sorting\<close>

definition nm_ip4_addr_is_link_local :: "in_addr_t \<Rightarrow> bool" where
  "nm_ip4_addr_is_link_local addr \<longleftrightarrow> addr AND htonl 0xFFFF0000 = htonl 0xA9FE0000"

definition address_pretty_sort_get_prio_4 :: "in_addr_t \<Rightarrow> int" where
  "address_pretty_sort_get_prio_4 addr = (if nm_ip4_addr_is_link_local addr then 0 else 1)"

text \<open>The macros of \<^verbatim>\<open>netinet/in.h\<close>.\<close>

definition IN6_IS_ADDR_V4MAPPED :: "in6_addr \<Rightarrow> bool" where
  "IN6_IS_ADDR_V4MAPPED a \<longleftrightarrow> take 12 a = replicate 10 0 @ [0xff, 0xff]"

definition IN6_IS_ADDR_V4COMPAT :: "in6_addr \<Rightarrow> bool" where
  "IN6_IS_ADDR_V4COMPAT a \<longleftrightarrow> take 12 a = replicate 12 0 \<and> drop 12 a \<notin> {[0, 0, 0, 0], [0, 0, 0, 1]}"

definition IN6_IS_ADDR_LOOPBACK :: "in6_addr \<Rightarrow> bool" where
  "IN6_IS_ADDR_LOOPBACK a \<longleftrightarrow> a = replicate 15 0 @ [1]"

definition address_pretty_sort_get_prio_6 :: "in6_addr \<Rightarrow> int" where
  "address_pretty_sort_get_prio_6 addr =
     (if IN6_IS_ADDR_V4MAPPED addr then 0
      else if IN6_IS_ADDR_V4COMPAT addr then 1
      else if IN6_IS_ADDR_UNSPECIFIED addr then 2
      else if IN6_IS_ADDR_LOOPBACK addr then 3
      else if IN6_IS_ADDR_LINKLOCAL addr then 4
      else if IN6_IS_ADDR_SITELOCAL addr then 5
      else 6)"

definition nm_platform_ip4_address_pretty_sort_cmp :: "NMPlatformIP4Address \<Rightarrow> NMPlatformIP4Address \<Rightarrow> int" where
  "nm_platform_ip4_address_pretty_sort_cmp a1 a2 =
     (let n1 = nm_ip4_addr_clear_host_address (a4_address a1) (unat (ax_plen a1));
          n2 = nm_ip4_addr_clear_host_address (a4_address a2) (unat (ax_plen a2))
      in nm_cmp_chain
           [nm_cmp_direct (address_pretty_sort_get_prio_4 (a4_address a2)) (address_pretty_sort_get_prio_4 (a4_address a1)),
            nm_cmp_direct (ax_addr_source a2) (ax_addr_source a1),
            nm_cmp_direct (a4_label a2 = []) (a4_label a1 = []),
            nm_cmp_direct (htonl n1) (htonl n2)])"

definition flags_any :: "u32 \<Rightarrow> u32 \<Rightarrow> bool" where
  "flags_any flags check \<longleftrightarrow> flags AND check \<noteq> 0"

text \<open>
  The last comparison is one of the memory of the two structures. What the memory of a structure is, with the bytes
  between its fields, is the argument \<open>mem_image\<close>.
\<close>

definition nm_platform_ip6_address_pretty_sort_cmp ::
    "(NMPlatformIP6Address \<Rightarrow> u8 list) \<Rightarrow> bool \<Rightarrow> NMPlatformIP6Address \<Rightarrow> NMPlatformIP6Address \<Rightarrow> int" where
  "nm_platform_ip6_address_pretty_sort_cmp mem_image prefer_temp a1 a2 =
     (let ipv6_privacy1 = flags_any (ax_n_ifa_flags a1) (IFA_F_MANAGETEMPADDR OR IFA_F_SECONDARY);
          ipv6_privacy2 = flags_any (ax_n_ifa_flags a2) (IFA_F_MANAGETEMPADDR OR IFA_F_SECONDARY);
          public1 = (if ipv6_privacy1
                     then (if flags_any (ax_n_ifa_flags a1) IFA_F_SECONDARY then prefer_temp else \<not> prefer_temp) else True);
          public2 = (if ipv6_privacy2
                     then (if flags_any (ax_n_ifa_flags a2) IFA_F_SECONDARY then prefer_temp else \<not> prefer_temp) else True)
      in nm_cmp_chain
           ([nm_cmp_direct (flags_any (ax_n_ifa_flags a1) IFA_F_TENTATIVE) (flags_any (ax_n_ifa_flags a2) IFA_F_TENTATIVE),
             nm_cmp_direct (address_pretty_sort_get_prio_6 (a6_address a2)) (address_pretty_sort_get_prio_6 (a6_address a1))] @
            (if ipv6_privacy1 \<or> ipv6_privacy2 then [nm_cmp_direct public2 public1] else []) @
            [nm_cmp_direct (ax_addr_source a2) (ax_addr_source a1),
             nm_cmp_direct (flags_any (ax_n_ifa_flags a2) IFA_F_PERMANENT) (flags_any (ax_n_ifa_flags a1) IFA_F_PERMANENT),
             nm_cmp_memcmp (a6_address a1) (a6_address a2) 16,
             cmp_bytes (mem_image a1) (mem_image a2)]))"

section \<open>Matching\<close>

abbreviation (input) NM_PLATFORM_MATCH_WITH_ADDRTYPE_NORMAL :: u32 where "NM_PLATFORM_MATCH_WITH_ADDRTYPE_NORMAL \<equiv> 1"
abbreviation (input) NM_PLATFORM_MATCH_WITH_ADDRTYPE_LINKLOCAL :: u32 where "NM_PLATFORM_MATCH_WITH_ADDRTYPE_LINKLOCAL \<equiv> 2"
abbreviation (input) NM_PLATFORM_MATCH_WITH_ADDRSTATE_NORMAL :: u32 where "NM_PLATFORM_MATCH_WITH_ADDRSTATE_NORMAL \<equiv> 4"
abbreviation (input) NM_PLATFORM_MATCH_WITH_ADDRSTATE_TENTATIVE :: u32 where "NM_PLATFORM_MATCH_WITH_ADDRSTATE_TENTATIVE \<equiv> 8"
abbreviation (input) NM_PLATFORM_MATCH_WITH_ADDRSTATE_DADFAILED :: u32 where "NM_PLATFORM_MATCH_WITH_ADDRSTATE_DADFAILED \<equiv> 16"
abbreviation (input) NM_PLATFORM_MATCH_WITH_ADDRSTATE_DEPRECATED :: u32 where "NM_PLATFORM_MATCH_WITH_ADDRSTATE_DEPRECATED \<equiv> 32"

text \<open>Whether the address is link local is decided by the family; the rest looks at the flags of the kernel.\<close>

definition nm_platform_ip_address_match :: "bool \<Rightarrow> u32 \<Rightarrow> u32 \<Rightarrow> bool" where
  "nm_platform_ip_address_match link_local n_ifa_flags match_flag =
     (if \<not> flags_any match_flag
            (if link_local then NM_PLATFORM_MATCH_WITH_ADDRTYPE_LINKLOCAL else NM_PLATFORM_MATCH_WITH_ADDRTYPE_NORMAL)
      then False
      else
        flags_any match_flag
          (if flags_any n_ifa_flags IFA_F_DADFAILED then NM_PLATFORM_MATCH_WITH_ADDRSTATE_DADFAILED
           else if flags_any n_ifa_flags IFA_F_TENTATIVE \<and> \<not> flags_any n_ifa_flags IFA_F_OPTIMISTIC
             then NM_PLATFORM_MATCH_WITH_ADDRSTATE_TENTATIVE
           else if flags_any n_ifa_flags IFA_F_DEPRECATED then NM_PLATFORM_MATCH_WITH_ADDRSTATE_DEPRECATED
           else NM_PLATFORM_MATCH_WITH_ADDRSTATE_NORMAL))"

definition nm_platform_ip4_address_match :: "NMPlatformIP4Address \<Rightarrow> u32 \<Rightarrow> bool" where
  "nm_platform_ip4_address_match a = nm_platform_ip_address_match (nm_ip4_addr_is_link_local (a4_address a)) (ax_n_ifa_flags a)"

definition nm_platform_ip6_address_match :: "NMPlatformIP6Address \<Rightarrow> u32 \<Rightarrow> bool" where
  "nm_platform_ip6_address_match a = nm_platform_ip_address_match (IN6_IS_ADDR_LINKLOCAL (a6_address a)) (ax_n_ifa_flags a)"

section \<open>The comparisons are total preorders\<close>

lemmas address_cmp_simps = nm_cmp_memcmp_def nm_ip4_addr_same_prefix_cmp_def address_cmp_expiry_def Let_def
  split_beta nm_cmp_chain_nest

lemma ip4_address_cmp_order: "compare_order (nm_platform_ip4_address_cmp now t)"
proof (rule compare_orderI)
  show "cmp_anti (nm_platform_ip4_address_cmp now t a b) (nm_platform_ip4_address_cmp now t b a)" for a b
    by (induct t) (auto simp: nm_platform_ip4_address_cmp_def address_cmp_simps)
  show "cmp_trans3 (nm_platform_ip4_address_cmp now t a b) (nm_platform_ip4_address_cmp now t b c)
      (nm_platform_ip4_address_cmp now t a c)" for a b c
    by (induct t) (auto simp: nm_platform_ip4_address_cmp_def address_cmp_simps)
qed

lemma ip6_address_cmp_order: "compare_order (nm_platform_ip6_address_cmp now t)"
proof (rule compare_orderI)
  show "cmp_anti (nm_platform_ip6_address_cmp now t a b) (nm_platform_ip6_address_cmp now t b a)" for a b
    by (induct t) (simp_all add: nm_platform_ip6_address_cmp_def address_cmp_simps)
  show "cmp_trans3 (nm_platform_ip6_address_cmp now t a b) (nm_platform_ip6_address_cmp now t b c)
      (nm_platform_ip6_address_cmp now t a c)" for a b c
    by (induct t) (simp_all add: nm_platform_ip6_address_cmp_def address_cmp_simps)
qed

lemma ip4_address_pretty_sort_order: "compare_order nm_platform_ip4_address_pretty_sort_cmp"
proof (rule compare_orderI)
  show "cmp_anti (nm_platform_ip4_address_pretty_sort_cmp a b) (nm_platform_ip4_address_pretty_sort_cmp b a)" for a b
    by (simp add: nm_platform_ip4_address_pretty_sort_cmp_def Let_def)
  show "cmp_trans3 (nm_platform_ip4_address_pretty_sort_cmp a b) (nm_platform_ip4_address_pretty_sort_cmp b c)
      (nm_platform_ip4_address_pretty_sort_cmp a c)" for a b c
    by (simp add: nm_platform_ip4_address_pretty_sort_cmp_def Let_def)
qed

text \<open>Two addresses of which none is about privacy are both public, so the comparison can always be made.\<close>

lemma privacy_chain:
  "nm_cmp_chain ((if P \<or> Q then [nm_cmp_direct (if Q then q else True) (if P then p else True)] else []) @ cs) =
     nm_cmp_chain (nm_cmp_direct (if Q then q else True) (if P then p else True) # cs)"
  by (auto simp: nm_cmp_chain_Cons)

lemma ip6_address_pretty_sort_order: "compare_order (nm_platform_ip6_address_pretty_sort_cmp mem_image prefer_temp)"
proof (rule compare_orderI)
  let ?cmp = "nm_platform_ip6_address_pretty_sort_cmp mem_image prefer_temp"
  show "cmp_anti (?cmp a b) (?cmp b a)" for a b
    by (simp add: nm_platform_ip6_address_pretty_sort_cmp_def Let_def privacy_chain nm_cmp_memcmp_def split del: if_split)
  show "cmp_trans3 (?cmp a b) (?cmp b c) (?cmp a c)" for a b c
    by (simp add: nm_platform_ip6_address_pretty_sort_cmp_def Let_def privacy_chain nm_cmp_memcmp_def split del: if_split)
qed

section \<open>Hashing and identity\<close>

lemma ip4_address_hash_agrees:
  "nm_platform_ip4_address_cmp now NM_PLATFORM_IP_ADDRESS_CMP_TYPE_FULL a b = 0 \<Longrightarrow>
     nm_platform_ip4_address_hash_update a = nm_platform_ip4_address_hash_update b"
  by (auto simp: nm_platform_ip4_address_cmp_def nm_platform_ip4_address_hash_update_def split: if_splits)

lemma ip4_address_id_hash_agrees:
  "nm_platform_ip4_address_cmp now NM_PLATFORM_IP_ADDRESS_CMP_TYPE_ID a b = 0 \<Longrightarrow>
     vt_cmd_plobj_id_hash_update_ip4_address a = vt_cmd_plobj_id_hash_update_ip4_address b"
  by (auto simp: nm_platform_ip4_address_cmp_def vt_cmd_plobj_id_hash_update_ip4_address_def same_prefix4_eq_0)

definition ip6_address_ok :: "NMPlatformIP6Address \<Rightarrow> bool" where
  "ip6_address_ok a \<longleftrightarrow> length (a6_address a) = 16 \<and> length (a6_peer_address a) = 16"

lemma ip6_address_id_hash_agrees:
  "ip6_address_ok a \<Longrightarrow> ip6_address_ok b \<Longrightarrow> nm_platform_ip6_address_cmp now NM_PLATFORM_IP_ADDRESS_CMP_TYPE_ID a b = 0 \<Longrightarrow>
     vt_cmd_plobj_id_hash_update_ip6_address a = vt_cmd_plobj_id_hash_update_ip6_address b"
  by (simp add: nm_platform_ip6_address_cmp_def vt_cmd_plobj_id_hash_update_ip6_address_def ip6_address_ok_def)

text \<open>An unset peer stands for the address itself; the hash does not know that.\<close>

lemma inj_hash_bytes [simp]: "hash_bytes xs = hash_bytes ys \<longleftrightarrow> xs = ys"
  unfolding hash_bytes_def by (rule inj_map_eq_map) (simp add: inj_def word_uint_eq_iff)

lemma ip6_address_hash_agrees:
  assumes "ip6_address_ok a" "ip6_address_ok b" "nm_platform_ip6_address_cmp now NM_PLATFORM_IP_ADDRESS_CMP_TYPE_FULL a b = 0"
  shows "nm_platform_ip6_address_hash_update a = nm_platform_ip6_address_hash_update b \<longleftrightarrow>
     a6_peer_address a = a6_peer_address b"
  using assms by (auto simp: nm_platform_ip6_address_cmp_def nm_platform_ip6_address_hash_update_def ip6_address_ok_def hash_bytes_def)

lemma full_cmp_id_cmp_ip4_address:
  "nm_platform_ip4_address_cmp now NM_PLATFORM_IP_ADDRESS_CMP_TYPE_FULL a b = 0 \<Longrightarrow>
     nm_platform_ip4_address_cmp now NM_PLATFORM_IP_ADDRESS_CMP_TYPE_ID a b = 0"
  by (auto simp: nm_platform_ip4_address_cmp_def same_prefix4_eq_0)

lemma full_cmp_id_cmp_ip6_address:
  "nm_platform_ip6_address_cmp now NM_PLATFORM_IP_ADDRESS_CMP_TYPE_FULL a b = 0 \<Longrightarrow>
     nm_platform_ip6_address_cmp now NM_PLATFORM_IP_ADDRESS_CMP_TYPE_ID a b = 0"
  by (auto simp: nm_platform_ip6_address_cmp_def)

end
