(* ===== verification/NM_Chars.thy ===== *)
theory NM_Chars
  imports NM_Prelude
begin

text \<open>
  C strings as lists of bytes, without the terminating NUL, and the classes of characters of
  \<^verbatim>\<open>nm-macros-internal.h\<close> and \<^verbatim>\<open>nm-shared-utils.h\<close>. Where the code compares a \<^verbatim>\<open>char\<close> with ASCII
  characters the result does not depend on its signedness, and bytes are compared as unsigned numbers.
\<close>

abbreviation (input) ascii :: "char \<Rightarrow> u8" where
  "ascii c \<equiv> of_char c"

abbreviation in_range :: "u8 \<Rightarrow> u8 \<Rightarrow> u8 \<Rightarrow> bool" where
  "in_range lo hi c \<equiv> lo \<le> c \<and> c \<le> hi"

abbreviation (input) str :: "string \<Rightarrow> u8 list" where
  "str s \<equiv> map ascii s"

text \<open>The largest value of \<^verbatim>\<open>gsize\<close> on a machine of 64 bits.\<close>

abbreviation (input) G_MAXSIZE :: nat where
  "G_MAXSIZE \<equiv> 18446744073709551615"

text \<open>The byte of a C string at an index up to and including the terminator.\<close>

definition str_at :: "u8 list \<Rightarrow> nat \<Rightarrow> u8" where
  "str_at s i = (if i < length s then s ! i else 0)"

lemma str_at_simps [simp]:
  "str_at [] i = 0" "str_at (c # s) 0 = c" "str_at (c # s) (Suc i) = str_at s i"
  by (simp_all add: str_at_def)

lemma str_at_numeral [simp]: "str_at (c # s) (numeral n) = str_at s (pred_numeral n)"
  by (simp add: numeral_eq_Suc)

text \<open>A string without NUL bytes: what a C string can hold.\<close>

definition c_string :: "u8 list \<Rightarrow> bool" where
  "c_string s \<longleftrightarrow> 0 \<notin> set s"

lemma c_string_simps [simp]: "c_string []" "c_string (c # s) \<longleftrightarrow> c \<noteq> 0 \<and> c_string s"
  "c_string (s @ t) \<longleftrightarrow> c_string s \<and> c_string t"
  by (auto simp: c_string_def)

lemma str_at_0_iff: "c_string s \<Longrightarrow> str_at s 0 = 0 \<longleftrightarrow> s = []"
  by (cases s) auto

text \<open>The pieces of a string between the occurrences of a separator.\<close>

fun str_split :: "u8 \<Rightarrow> u8 list \<Rightarrow> u8 list list" where
  "str_split sep [] = [[]]"
| "str_split sep (c # s) =
     (if c = sep then [] # str_split sep s
      else (case str_split sep s of l # ls \<Rightarrow> (c # l) # ls | [] \<Rightarrow> [[c]]))"

lemma str_split_not_Nil [simp]: "str_split sep s \<noteq> []"
  by (cases s) (auto split: list.splits)

lemma str_split_Cons:
  obtains l ls where "str_split sep s = l # ls"
  by (cases "str_split sep s") auto

lemma str_split_takeWhile:
  "str_split sep s = takeWhile (\<lambda>c. c \<noteq> sep) s #
     (case dropWhile (\<lambda>c. c \<noteq> sep) s of [] \<Rightarrow> [] | _ # r \<Rightarrow> str_split sep r)"
  by (induction s) (auto split: list.splits)

section \<open>Arithmetic and bits of bytes\<close>

lemma unat_add_u8: "unat x + unat y < 256 \<Longrightarrow> unat (x + y) = unat x + unat (y :: u8)"
  by (simp add: unat_word_ariths)

lemma u8_bit_ge [simp]: "8 \<le> n \<Longrightarrow> \<not> bit (v :: u8) n"
  using bit_imp_le_length [of v n] by auto

lemma u8_eq_iff:
  "x = y \<longleftrightarrow> (bit x 0 = bit y 0 \<and> bit x 1 = bit y 1 \<and> bit x 2 = bit y 2 \<and> bit x 3 = bit y 3 \<and>
    bit x 4 = bit y 4 \<and> bit x 5 = bit y 5 \<and> bit x 6 = bit y 6 \<and> bit x 7 = bit (y :: u8) 7)"
proof -
  have "(\<forall>n<8. bit x n = bit y n) \<longleftrightarrow> x = y" by (auto intro: bit_word_eqI)
  then show ?thesis by (auto simp: All_less_Suc numeral_eq_Suc)
qed

lemma octal_sum: "(v :: nat) div 64 * 64 + v div 8 mod 8 * 8 + v mod 8 = v"
proof -
  have "v div 64 * 8 + v div 8 mod 8 = v div 8"
    using div_mult_mod_eq [of "v div 8" 8] by (simp add: div_mult2_eq [symmetric])
  then show ?thesis using div_mult_mod_eq [of v 8] by linarith
qed

section \<open>Classes of characters\<close>

definition nm_ascii_is_whitespace :: "u8 \<Rightarrow> bool" where
  "nm_ascii_is_whitespace ch \<longleftrightarrow> ch \<in> {0x20, 0x0A, 0x09, 0x0D}"

definition nm_ascii_is_newline :: "u8 \<Rightarrow> bool" where
  "nm_ascii_is_newline ch \<longleftrightarrow> ch \<in> {0x0A, 0x09}"

definition nm_ascii_is_space_kernel :: "u8 \<Rightarrow> bool" where
  "nm_ascii_is_space_kernel ch \<longleftrightarrow> ch \<in> {0x20, 0x0A, 0x09, 0x0D, 0x0C, 0x0B, 0xA0}"

definition nm_ascii_is_ctrl_or_del :: "u8 \<Rightarrow> bool" where
  "nm_ascii_is_ctrl_or_del ch \<longleftrightarrow> ch < 0x20 \<or> ch = 127"

definition nm_ascii_is_non_ascii :: "u8 \<Rightarrow> bool" where
  "nm_ascii_is_non_ascii ch \<longleftrightarrow> ch > 127"

text \<open>\<^verbatim>\<open>g_ascii_isspace\<close> and \<^verbatim>\<open>g_ascii_isgraph\<close> of the tables of glib for ASCII.\<close>

definition g_ascii_isspace :: "u8 \<Rightarrow> bool" where
  "g_ascii_isspace ch \<longleftrightarrow> ch \<in> {0x20, 0x0A, 0x09, 0x0D, 0x0C}"

definition g_ascii_isgraph :: "u8 \<Rightarrow> bool" where
  "g_ascii_isgraph ch \<longleftrightarrow> 0x20 < ch \<and> ch < 127"

definition nm_utils_hexchar_to_int :: "u8 \<Rightarrow> int" where
  "nm_utils_hexchar_to_int ch =
     (if ch \<ge> ascii (CHR ''0'') then
        (if ch \<le> ascii (CHR ''9'') then uint ch - uint (ascii (CHR ''0''))
         else if ch \<ge> ascii (CHR ''A'') then
           (if ch \<le> ascii (CHR ''F'') then uint ch + (10 - uint (ascii (CHR ''A'')))
            else if ch \<ge> ascii (CHR ''a'') \<and> ch \<le> ascii (CHR ''f'') then uint ch + (10 - uint (ascii (CHR ''a'')))
            else - 1)
         else - 1)
      else - 1)"

end
