(* ===== verification/NM_Platform_Tc.thy ===== *)
theory NM_Platform_Tc
  imports NM_Platform_Cmp NM_Chars
begin

text \<open>
  Queueing disciplines and traffic filters (\<^verbatim>\<open>nm-platform.[ch]\<close>, \<^verbatim>\<open>nmp-object.c\<close>), with their
  comparison and hash functions. The members of a C union are separate fields here; the kind says which of them is
  read.
\<close>

section \<open>Optional strings\<close>

fun nm_strcmp0 :: "u8 list option \<Rightarrow> u8 list option \<Rightarrow> int" where
  "nm_strcmp0 None None = 0"
| "nm_strcmp0 None (Some _) = - 1"
| "nm_strcmp0 (Some _) None = 1"
| "nm_strcmp0 (Some s1) (Some s2) = cmp_bytes s1 s2"

definition nm_hash_update_str0 :: "u8 list option \<Rightarrow> hash_input" where
  "nm_hash_update_str0 text =
     (case text of Some s \<Rightarrow> int (length s) # hash_bytes s | None \<Rightarrow> [int G_MAXSIZE])"

text \<open>Without a string comes first, which the order of byte strings also has for a byte in front of every string.\<close>

definition str0_key :: "u8 list option \<Rightarrow> u8 list" where
  "str0_key text = (case text of None \<Rightarrow> [] | Some s \<Rightarrow> 1 # s)"

lemma nm_strcmp0_key: "nm_strcmp0 s t = cmp_bytes (str0_key s) (str0_key t)"
  by (cases s; cases t) (simp_all add: str0_key_def)

lemma str0_key_eq [simp]: "str0_key s = str0_key t \<longleftrightarrow> s = t"
  by (cases s; cases t) (simp_all add: str0_key_def)

section \<open>The structures\<close>

record NMPlatformQdiscFqCodel =
  fq_limit :: u32
  fq_flows :: u32
  fq_target :: u32
  fq_interval :: u32
  fq_quantum :: u32
  fq_ce_threshold :: u32
  fq_memory_limit :: u32
  fq_ecn :: bool

record NMPlatformQdiscSfq =
  sfq_quantum :: u32
  sfq_perturb_period :: int
  sfq_limit :: u32
  sfq_divisor :: u32
  sfq_flows :: u32
  sfq_depth :: u32

record NMPlatformQdiscTbf =
  tbf_rate :: u64
  tbf_burst :: u32
  tbf_limit :: u32
  tbf_latency :: u32

record NMPlatformQdisc =
  qd_ifindex :: int
  qd_kind :: "u8 list option"
  qd_addr_family :: int
  qd_handle :: u32
  qd_parent :: u32
  qd_info :: u32
  qd_fq_codel :: NMPlatformQdiscFqCodel
  qd_sfq :: NMPlatformQdiscSfq
  qd_tbf :: NMPlatformQdiscTbf

record NMPlatformActionMirred =
  mirred_ifindex :: int
  mirred_egress :: bool
  mirred_ingress :: bool
  mirred_mirror :: bool
  mirred_redirect :: bool

record NMPlatformTfilter =
  tf_ifindex :: int
  tf_kind :: "u8 list option"
  tf_addr_family :: int
  tf_handle :: u32
  tf_parent :: u32
  tf_info :: u32
  tf_action_kind :: "u8 list option"
  tf_action_sdata :: "u8 list"
  tf_action_mirred :: NMPlatformActionMirred

abbreviation (input) KIND_FQ_CODEL :: "u8 list option" where "KIND_FQ_CODEL \<equiv> Some (str ''fq_codel'')"
abbreviation (input) KIND_SFQ :: "u8 list option" where "KIND_SFQ \<equiv> Some (str ''sfq'')"
abbreviation (input) KIND_TBF :: "u8 list option" where "KIND_TBF \<equiv> Some (str ''tbf'')"
abbreviation (input) NM_PLATFORM_ACTION_KIND_SIMPLE :: "u8 list option" where
  "NM_PLATFORM_ACTION_KIND_SIMPLE \<equiv> Some (str ''simple'')"
abbreviation (input) NM_PLATFORM_ACTION_KIND_MIRRED :: "u8 list option" where
  "NM_PLATFORM_ACTION_KIND_MIRRED \<equiv> Some (str ''mirred'')"

section \<open>Comparing and hashing\<close>

definition nm_platform_qdisc_cmp :: "bool \<Rightarrow> NMPlatformQdisc \<Rightarrow> NMPlatformQdisc \<Rightarrow> int" where
  "nm_platform_qdisc_cmp compare_handle a b =
     nm_cmp_chain
       ([nm_cmp_direct (qd_ifindex a) (qd_ifindex b),
         nm_cmp_direct (qd_parent a) (qd_parent b),
         nm_strcmp0 (qd_kind a) (qd_kind b),
         nm_cmp_direct (qd_addr_family a) (qd_addr_family b)] @
        (if compare_handle then [nm_cmp_direct (qd_handle a) (qd_handle b)] else []) @
        [nm_cmp_direct (qd_info a) (qd_info b)] @
        (if qd_kind a = KIND_FQ_CODEL then
           (let a = qd_fq_codel a; b = qd_fq_codel b in
            [nm_cmp_direct (fq_limit a) (fq_limit b),
             nm_cmp_direct (fq_flows a) (fq_flows b),
             nm_cmp_direct (fq_target a) (fq_target b),
             nm_cmp_direct (fq_interval a) (fq_interval b),
             nm_cmp_direct (fq_quantum a) (fq_quantum b),
             nm_cmp_direct (fq_ce_threshold a) (fq_ce_threshold b),
             nm_cmp_direct (fq_memory_limit a) (fq_memory_limit b),
             nm_cmp_direct (fq_ecn a) (fq_ecn b)])
         else if qd_kind a = KIND_SFQ then
           (let a = qd_sfq a; b = qd_sfq b in
            [nm_cmp_direct (sfq_quantum a) (sfq_quantum b),
             nm_cmp_direct (sfq_perturb_period a) (sfq_perturb_period b),
             nm_cmp_direct (sfq_limit a) (sfq_limit b),
             nm_cmp_direct (sfq_flows a) (sfq_flows b),
             nm_cmp_direct (sfq_divisor a) (sfq_divisor b),
             nm_cmp_direct (sfq_depth a) (sfq_depth b)])
         else if qd_kind a = KIND_TBF then
           (let a = qd_tbf a; b = qd_tbf b in
            [nm_cmp_direct (tbf_rate a) (tbf_rate b),
             nm_cmp_direct (tbf_burst a) (tbf_burst b),
             nm_cmp_direct (tbf_limit a) (tbf_limit b),
             nm_cmp_direct (tbf_latency a) (tbf_latency b)])
         else []))"

definition vt_cmd_plobj_id_cmp_qdisc :: "NMPlatformQdisc \<Rightarrow> NMPlatformQdisc \<Rightarrow> int" where
  "vt_cmd_plobj_id_cmp_qdisc a b =
     nm_cmp_chain [nm_cmp_direct (qd_ifindex a) (qd_ifindex b), nm_cmp_direct (qd_parent a) (qd_parent b)]"

definition nm_platform_qdisc_hash_update :: "NMPlatformQdisc \<Rightarrow> hash_input" where
  "nm_platform_qdisc_hash_update obj =
     nm_hash_update_str0 (qd_kind obj) @
     [qd_ifindex obj, qd_addr_family obj, uint (qd_handle obj), uint (qd_parent obj), uint (qd_info obj)] @
     (if qd_kind obj = KIND_FQ_CODEL then
        (let q = qd_fq_codel obj in
         [uint (fq_limit q), uint (fq_flows q), uint (fq_target q), uint (fq_interval q), uint (fq_quantum q),
          uint (fq_ce_threshold q), uint (fq_memory_limit q), NM_HASH_COMBINE_BOOLS [fq_ecn q]])
      else if qd_kind obj = KIND_SFQ then
        (let q = qd_sfq obj in
         [uint (sfq_quantum q), sfq_perturb_period q, uint (sfq_limit q), uint (sfq_divisor q), uint (sfq_flows q),
          uint (sfq_depth q)])
      else if qd_kind obj = KIND_TBF then
        (let q = qd_tbf obj in [uint (tbf_rate q), uint (tbf_burst q), uint (tbf_limit q), uint (tbf_latency q)])
      else [])"

definition vt_cmd_plobj_id_hash_update_qdisc :: "NMPlatformQdisc \<Rightarrow> hash_input" where
  "vt_cmd_plobj_id_hash_update_qdisc obj = [qd_ifindex obj, uint (qd_parent obj)]"

definition nm_platform_tfilter_cmp :: "NMPlatformTfilter \<Rightarrow> NMPlatformTfilter \<Rightarrow> int" where
  "nm_platform_tfilter_cmp a b =
     nm_cmp_chain
       ([nm_cmp_direct (tf_ifindex a) (tf_ifindex b),
         nm_cmp_direct (tf_parent a) (tf_parent b),
         nm_strcmp0 (tf_kind a) (tf_kind b),
         nm_cmp_direct (tf_addr_family a) (tf_addr_family b),
         nm_cmp_direct (tf_handle a) (tf_handle b),
         nm_cmp_direct (tf_info a) (tf_info b),
         nm_strcmp0 (tf_action_kind a) (tf_action_kind b)] @
        (if tf_action_kind a \<noteq> None then
           (if tf_action_kind a = NM_PLATFORM_ACTION_KIND_SIMPLE then
              [cmp_bytes (tf_action_sdata a) (tf_action_sdata b)]
            else if tf_action_kind a = NM_PLATFORM_ACTION_KIND_MIRRED then
              (let a = tf_action_mirred a; b = tf_action_mirred b in
               [nm_cmp_direct (mirred_ifindex a) (mirred_ifindex b),
                nm_cmp_direct (mirred_ingress a) (mirred_ingress b),
                nm_cmp_direct (mirred_egress a) (mirred_egress b),
                nm_cmp_direct (mirred_mirror a) (mirred_mirror b),
                nm_cmp_direct (mirred_redirect a) (mirred_redirect b)])
            else [])
         else []))"

definition vt_cmd_plobj_id_cmp_tfilter :: "NMPlatformTfilter \<Rightarrow> NMPlatformTfilter \<Rightarrow> int" where
  "vt_cmd_plobj_id_cmp_tfilter a b =
     nm_cmp_chain [nm_cmp_direct (tf_ifindex a) (tf_ifindex b), nm_cmp_direct (tf_handle a) (tf_handle b)]"

definition nm_platform_tfilter_hash_update :: "NMPlatformTfilter \<Rightarrow> hash_input" where
  "nm_platform_tfilter_hash_update obj =
     nm_hash_update_str0 (tf_kind obj) @
     [tf_ifindex obj, tf_addr_family obj, uint (tf_handle obj), uint (tf_parent obj), uint (tf_info obj)] @
     (case tf_action_kind obj of
        None \<Rightarrow> []
      | Some kind \<Rightarrow>
          hash_bytes (kind @ [0]) @
          (if Some kind = NM_PLATFORM_ACTION_KIND_SIMPLE then hash_bytes (tf_action_sdata obj @ [0])
           else if Some kind = NM_PLATFORM_ACTION_KIND_MIRRED then
             (let m = tf_action_mirred obj in
              [mirred_ifindex m,
               NM_HASH_COMBINE_BOOLS [mirred_ingress m, mirred_egress m, mirred_mirror m, mirred_redirect m]])
           else []))"

definition vt_cmd_plobj_id_hash_update_tfilter :: "NMPlatformTfilter \<Rightarrow> hash_input" where
  "vt_cmd_plobj_id_hash_update_tfilter obj = [tf_ifindex obj, uint (tf_handle obj)]"

section \<open>The comparisons are total preorders\<close>

text \<open>The kinds are compared before the fields that depend on them.\<close>

lemma qdisc_cmp_order: "compare_order (nm_platform_qdisc_cmp compare_handle)"
proof (rule compare_orderI)
  show "cmp_anti (nm_platform_qdisc_cmp compare_handle a b) (nm_platform_qdisc_cmp compare_handle b a)" for a b
    by (cases compare_handle) (simp_all add: nm_platform_qdisc_cmp_def nm_strcmp0_key Let_def)
  show "cmp_trans3 (nm_platform_qdisc_cmp compare_handle a b) (nm_platform_qdisc_cmp compare_handle b c)
      (nm_platform_qdisc_cmp compare_handle a c)" for a b c
    by (cases compare_handle) (simp_all add: nm_platform_qdisc_cmp_def nm_strcmp0_key Let_def)
qed

lemma tfilter_cmp_order: "compare_order nm_platform_tfilter_cmp"
proof (rule compare_orderI)
  show "cmp_anti (nm_platform_tfilter_cmp a b) (nm_platform_tfilter_cmp b a)" for a b
    by (simp add: nm_platform_tfilter_cmp_def nm_strcmp0_key Let_def)
  show "cmp_trans3 (nm_platform_tfilter_cmp a b) (nm_platform_tfilter_cmp b c) (nm_platform_tfilter_cmp a c)" for a b c
    by (simp add: nm_platform_tfilter_cmp_def nm_strcmp0_key Let_def)
qed

lemma tc_id_cmp_order: "compare_order vt_cmd_plobj_id_cmp_qdisc" "compare_order vt_cmd_plobj_id_cmp_tfilter"
  by (intro compare_orderI; simp add: vt_cmd_plobj_id_cmp_qdisc_def vt_cmd_plobj_id_cmp_tfilter_def)+

section \<open>Hashing and identity\<close>

lemma qdisc_hash_agrees:
  "nm_platform_qdisc_cmp True a b = 0 \<Longrightarrow> nm_platform_qdisc_hash_update a = nm_platform_qdisc_hash_update b"
  by (cases "qd_kind a = KIND_FQ_CODEL"; cases "qd_kind a = KIND_SFQ"; cases "qd_kind a = KIND_TBF")
    (simp_all add: nm_platform_qdisc_cmp_def nm_platform_qdisc_hash_update_def nm_strcmp0_key Let_def)

lemma tfilter_hash_agrees:
  "nm_platform_tfilter_cmp a b = 0 \<Longrightarrow> nm_platform_tfilter_hash_update a = nm_platform_tfilter_hash_update b"
  by (cases "tf_action_kind a = NM_PLATFORM_ACTION_KIND_SIMPLE"; cases "tf_action_kind a = NM_PLATFORM_ACTION_KIND_MIRRED")
    (auto simp: nm_platform_tfilter_cmp_def nm_platform_tfilter_hash_update_def nm_strcmp0_key Let_def split: option.splits)

lemma tc_id_hash_agrees:
  "vt_cmd_plobj_id_cmp_qdisc p q = 0 \<Longrightarrow> vt_cmd_plobj_id_hash_update_qdisc p = vt_cmd_plobj_id_hash_update_qdisc q"
  "vt_cmd_plobj_id_cmp_tfilter a b = 0 \<Longrightarrow> vt_cmd_plobj_id_hash_update_tfilter a = vt_cmd_plobj_id_hash_update_tfilter b"
  by (simp_all add: vt_cmd_plobj_id_cmp_qdisc_def vt_cmd_plobj_id_hash_update_qdisc_def vt_cmd_plobj_id_cmp_tfilter_def
      vt_cmd_plobj_id_hash_update_tfilter_def)

lemma full_cmp_id_cmp_tc:
  "nm_platform_qdisc_cmp True p q = 0 \<Longrightarrow> vt_cmd_plobj_id_cmp_qdisc p q = 0"
  "nm_platform_tfilter_cmp a b = 0 \<Longrightarrow> vt_cmd_plobj_id_cmp_tfilter a b = 0"
  by (simp_all add: nm_platform_qdisc_cmp_def nm_platform_tfilter_cmp_def vt_cmd_plobj_id_cmp_qdisc_def vt_cmd_plobj_id_cmp_tfilter_def)

end
