(* ===== verification/NM_Platform_Objects.thy ===== *)
theory NM_Platform_Objects
  imports NM_Platform_Routes NM_Platform_Addresses NM_Platform_Tc
begin

text \<open>
  The objects of the platform cache and of the global tracker (\<^verbatim>\<open>nmp-object.[ch]\<close>): one of the
  structures with its class. The class has the comparison in full and of the identity, and the hash functions for
  both. All types of objects that the cache has are modelled, except for links.
\<close>

section \<open>Objects of any type\<close>

record NMPlatformIP4RtNextHop =
  nh_ifindex :: int
  nh_gateway :: in_addr_t
  nh_weight :: u16

definition nm_platform_ip4_rt_nexthop_cmp :: "bool \<Rightarrow> NMPlatformIP4RtNextHop \<Rightarrow> NMPlatformIP4RtNextHop \<Rightarrow> int" where
  "nm_platform_ip4_rt_nexthop_cmp for_id a b =
     (let w_a = (if for_id then max (nh_weight a) 1 else nh_weight a);
          w_b = (if for_id then max (nh_weight b) 1 else nh_weight b) in
      nm_cmp_chain
        [nm_cmp_direct (nh_ifindex a) (nh_ifindex b),
         nm_cmp_direct (nh_gateway a) (nh_gateway b),
         nm_cmp_direct w_a w_b])"

definition nm_platform_ip4_rt_nexthop_hash_update :: "bool \<Rightarrow> NMPlatformIP4RtNextHop \<Rightarrow> hash_input" where
  "nm_platform_ip4_rt_nexthop_hash_update for_id obj =
     (let w = (if for_id then max (nh_weight obj) 1 else nh_weight obj) in
      [nh_ifindex obj, uint (nh_gateway obj), uint w])"

text \<open>
  An object is one of the structures with its class; an IPv4 route carries its further next hops.
  \<open>env\<close> holds what the running system determines: the features of the kernel, the addresses of
  rules of unsupported families, and the hash function of the process, which is keyed with random data: from a seed and
  the values that are fed in, it makes the value under which \<^verbatim>\<open>glib\<close> keeps the object.
\<close>

datatype NMPObject =
  NMP_IP4_ADDRESS NMPlatformIP4Address
| NMP_IP6_ADDRESS NMPlatformIP6Address
| NMP_IP4_ROUTE NMPlatformIP4Route "NMPlatformIP4RtNextHop list"
| NMP_IP6_ROUTE NMPlatformIP6Route
| NMP_ROUTING_RULE NMPlatformRoutingRule
| NMP_QDISC NMPlatformQdisc
| NMP_TFILTER NMPlatformTfilter
| NMP_MPTCP_ADDR NMPlatformMptcpAddr

datatype NMPObjectType =
  NMP_OBJECT_TYPE_IP4_ADDRESS | NMP_OBJECT_TYPE_IP6_ADDRESS
| NMP_OBJECT_TYPE_IP4_ROUTE | NMP_OBJECT_TYPE_IP6_ROUTE
| NMP_OBJECT_TYPE_ROUTING_RULE
| NMP_OBJECT_TYPE_QDISC
| NMP_OBJECT_TYPE_TFILTER
| NMP_OBJECT_TYPE_MPTCP_ADDR

primrec obj_type :: "NMPObject \<Rightarrow> NMPObjectType" where
  "obj_type (NMP_IP4_ADDRESS _) = NMP_OBJECT_TYPE_IP4_ADDRESS"
| "obj_type (NMP_IP6_ADDRESS _) = NMP_OBJECT_TYPE_IP6_ADDRESS"
| "obj_type (NMP_IP4_ROUTE _ _) = NMP_OBJECT_TYPE_IP4_ROUTE"
| "obj_type (NMP_IP6_ROUTE _) = NMP_OBJECT_TYPE_IP6_ROUTE"
| "obj_type (NMP_ROUTING_RULE _) = NMP_OBJECT_TYPE_ROUTING_RULE"
| "obj_type (NMP_QDISC _) = NMP_OBJECT_TYPE_QDISC"
| "obj_type (NMP_TFILTER _) = NMP_OBJECT_TYPE_TFILTER"
| "obj_type (NMP_MPTCP_ADDR _) = NMP_OBJECT_TYPE_MPTCP_ADDR"

primrec obj_type_number :: "NMPObjectType \<Rightarrow> nat" where
  "obj_type_number NMP_OBJECT_TYPE_IP4_ADDRESS = 2"
| "obj_type_number NMP_OBJECT_TYPE_IP6_ADDRESS = 3"
| "obj_type_number NMP_OBJECT_TYPE_IP4_ROUTE = 4"
| "obj_type_number NMP_OBJECT_TYPE_IP6_ROUTE = 5"
| "obj_type_number NMP_OBJECT_TYPE_ROUTING_RULE = 6"
| "obj_type_number NMP_OBJECT_TYPE_QDISC = 7"
| "obj_type_number NMP_OBJECT_TYPE_TFILTER = 8"
| "obj_type_number NMP_OBJECT_TYPE_MPTCP_ADDR = 30"

type_synonym object_env = "kernel_support \<times> (NMPlatformRoutingRule \<Rightarrow> nat) \<times> (u32 \<Rightarrow> hash_input \<Rightarrow> u32)"

definition vt_cmd_obj_cmp_ip4_route ::
    "bool \<Rightarrow> NMPlatformIP4Route \<Rightarrow> NMPlatformIP4RtNextHop list \<Rightarrow> NMPlatformIP4Route \<Rightarrow>
     NMPlatformIP4RtNextHop list \<Rightarrow> int" where
  "vt_cmd_obj_cmp_ip4_route for_id r1 nh1 r2 nh2 =
     nm_cmp_chain
       (nm_platform_ip4_route_cmp
          (if for_id then NM_PLATFORM_IP_ROUTE_CMP_TYPE_ID else NM_PLATFORM_IP_ROUTE_CMP_TYPE_FULL) r1 r2 #
        map (\<lambda>i. nm_platform_ip4_rt_nexthop_cmp for_id (nh1 ! (i - 1)) (nh2 ! (i - 1)))
          [1..<unat (r4_n_nexthops r1)])"

definition vt_cmd_obj_hash_update_ip4_route ::
    "bool \<Rightarrow> NMPlatformIP4Route \<Rightarrow> NMPlatformIP4RtNextHop list \<Rightarrow> hash_input" where
  "vt_cmd_obj_hash_update_ip4_route for_id r nh =
     nm_platform_ip4_route_hash_update
       (if for_id then NM_PLATFORM_IP_ROUTE_CMP_TYPE_ID else NM_PLATFORM_IP_ROUTE_CMP_TYPE_FULL) r @
     concat (map (\<lambda>i. nm_platform_ip4_rt_nexthop_hash_update for_id (nh ! (i - 1))) [1..<unat (r4_n_nexthops r)])"

text \<open>Neither the full comparison of addresses nor that of their identity looks at the clock.\<close>

definition nmp_object_cmp_full :: "object_env \<Rightarrow> bool \<Rightarrow> NMPObject \<Rightarrow> NMPObject \<Rightarrow> int" where
  "nmp_object_cmp_full env for_id obj1 obj2 =
     (case env of (support, ptr, hash) \<Rightarrow>
      (case (obj1, obj2) of
         (NMP_IP4_ADDRESS a1, NMP_IP4_ADDRESS a2) \<Rightarrow>
           nm_platform_ip4_address_cmp 0
             (if for_id then NM_PLATFORM_IP_ADDRESS_CMP_TYPE_ID else NM_PLATFORM_IP_ADDRESS_CMP_TYPE_FULL) a1 a2
       | (NMP_IP6_ADDRESS a1, NMP_IP6_ADDRESS a2) \<Rightarrow>
           nm_platform_ip6_address_cmp 0
             (if for_id then NM_PLATFORM_IP_ADDRESS_CMP_TYPE_ID else NM_PLATFORM_IP_ADDRESS_CMP_TYPE_FULL) a1 a2
       | (NMP_IP4_ROUTE r1 nh1, NMP_IP4_ROUTE r2 nh2) \<Rightarrow> vt_cmd_obj_cmp_ip4_route for_id r1 nh1 r2 nh2
       | (NMP_IP6_ROUTE r1, NMP_IP6_ROUTE r2) \<Rightarrow>
           nm_platform_ip6_route_cmp
             (if for_id then NM_PLATFORM_IP_ROUTE_CMP_TYPE_ID else NM_PLATFORM_IP_ROUTE_CMP_TYPE_FULL) r1 r2
       | (NMP_ROUTING_RULE r1, NMP_ROUTING_RULE r2) \<Rightarrow>
           nm_platform_routing_rule_cmp support ptr
             (if for_id then NM_PLATFORM_ROUTING_RULE_CMP_TYPE_ID else NM_PLATFORM_ROUTING_RULE_CMP_TYPE_FULL) r1 r2
       | (NMP_QDISC q1, NMP_QDISC q2) \<Rightarrow>
           (if for_id then vt_cmd_plobj_id_cmp_qdisc q1 q2 else nm_platform_qdisc_cmp True q1 q2)
       | (NMP_TFILTER f1, NMP_TFILTER f2) \<Rightarrow>
           (if for_id then vt_cmd_plobj_id_cmp_tfilter f1 f2 else nm_platform_tfilter_cmp f1 f2)
       | (NMP_MPTCP_ADDR m1, NMP_MPTCP_ADDR m2) \<Rightarrow>
           (if for_id then vt_cmd_plobj_id_cmp_mptcp_addr m1 m2 else nm_platform_mptcp_addr_cmp m1 m2)
       | _ \<Rightarrow> nm_cmp_direct (obj_type_number (obj_type obj1)) (obj_type_number (obj_type obj2))))"

definition nmp_object_equal :: "object_env \<Rightarrow> NMPObject \<Rightarrow> NMPObject \<Rightarrow> bool" where
  "nmp_object_equal env obj1 obj2 \<longleftrightarrow> nmp_object_cmp_full env False obj1 obj2 = 0"

definition nmp_object_id_equal :: "object_env \<Rightarrow> NMPObject \<Rightarrow> NMPObject \<Rightarrow> bool" where
  "nmp_object_id_equal env obj1 obj2 \<longleftrightarrow> nmp_object_cmp_full env True obj1 obj2 = 0"

definition nmp_object_hash_update_full :: "object_env \<Rightarrow> bool \<Rightarrow> NMPObject \<Rightarrow> hash_input" where
  "nmp_object_hash_update_full env for_id obj =
     (case env of (support, ptr, hash) \<Rightarrow>
      int (obj_type_number (obj_type obj)) #
      (case obj of
         NMP_IP4_ADDRESS a \<Rightarrow>
           (if for_id then vt_cmd_plobj_id_hash_update_ip4_address a else nm_platform_ip4_address_hash_update a)
       | NMP_IP6_ADDRESS a \<Rightarrow>
           (if for_id then vt_cmd_plobj_id_hash_update_ip6_address a else nm_platform_ip6_address_hash_update a)
       | NMP_IP4_ROUTE r nh \<Rightarrow> vt_cmd_obj_hash_update_ip4_route for_id r nh
       | NMP_IP6_ROUTE r \<Rightarrow>
           nm_platform_ip6_route_hash_update
             (if for_id then NM_PLATFORM_IP_ROUTE_CMP_TYPE_ID else NM_PLATFORM_IP_ROUTE_CMP_TYPE_FULL) r
       | NMP_ROUTING_RULE r \<Rightarrow>
           nm_platform_routing_rule_hash_update support ptr
             (if for_id then NM_PLATFORM_ROUTING_RULE_CMP_TYPE_ID else NM_PLATFORM_ROUTING_RULE_CMP_TYPE_FULL) r
       | NMP_QDISC q \<Rightarrow> (if for_id then vt_cmd_plobj_id_hash_update_qdisc q else nm_platform_qdisc_hash_update q)
       | NMP_TFILTER f \<Rightarrow> (if for_id then vt_cmd_plobj_id_hash_update_tfilter f else nm_platform_tfilter_hash_update f)
       | NMP_MPTCP_ADDR m \<Rightarrow>
           (if for_id then vt_cmd_plobj_id_hash_update_mptcp_addr m else nm_platform_mptcp_addr_hash_update m)))"

section \<open>Hash functions agree with the comparison\<close>

definition object_ok :: "NMPObject \<Rightarrow> bool" where
  "object_ok obj \<longleftrightarrow>
     (case obj of NMP_IP6_ADDRESS a \<Rightarrow> ip6_address_ok a | NMP_IP6_ROUTE r \<Rightarrow> ip6_route_ok r | _ \<Rightarrow> True)"

text \<open>What the full hash looks at although the full comparison does not.\<close>

definition object_hash_extra :: "NMPObject \<Rightarrow> hash_input" where
  "object_hash_extra obj =
     (case obj of
        NMP_MPTCP_ADDR m \<Rightarrow> [uint (mp_flags m)]
      | NMP_IP6_ADDRESS a \<Rightarrow> hash_bytes (a6_peer_address a)
      | _ \<Rightarrow> [])"

lemma ip4_n_nexthops_eq:
  assumes "nm_platform_ip4_route_cmp (if for_id then NM_PLATFORM_IP_ROUTE_CMP_TYPE_ID else NM_PLATFORM_IP_ROUTE_CMP_TYPE_FULL) r1 r2 = 0"
  shows "[1..<unat (r4_n_nexthops r1)] = [1..<unat (r4_n_nexthops r2)]"
proof (cases for_id)
  case True
  have small: "[1..<unat n] = []" if "\<not> 1 < n" for n :: u32
  proof -
    have "unat n \<le> 1" using that by (simp add: word_less_nat_alt not_less)
    then show ?thesis by simp
  qed
  have "nm_platform_ip4_route_get_n_nexthops r1 = nm_platform_ip4_route_get_n_nexthops r2"
    using assms True by (simp add: nm_platform_ip4_route_cmp_def Let_def)
  then consider "r4_n_nexthops r1 = r4_n_nexthops r2"
    | "\<not> 1 < r4_n_nexthops r1" "\<not> 1 < r4_n_nexthops r2"
    by (force simp: nm_platform_ip4_route_get_n_nexthops_def split: if_splits)
  then show ?thesis
  proof cases
    case 2
    then show ?thesis using small [OF 2(1)] small [OF 2(2)] by (simp only:)
  qed simp
next
  case False
  then show ?thesis using assms by (simp add: nm_platform_ip4_route_cmp_def Let_def)
qed

lemma nexthop_hash_agrees:
  "nm_platform_ip4_rt_nexthop_cmp for_id a b = 0 \<Longrightarrow>
     nm_platform_ip4_rt_nexthop_hash_update for_id a = nm_platform_ip4_rt_nexthop_hash_update for_id b"
  by (simp add: nm_platform_ip4_rt_nexthop_cmp_def nm_platform_ip4_rt_nexthop_hash_update_def Let_def)

lemma ip4_object_hash_agrees:
  assumes "vt_cmd_obj_cmp_ip4_route for_id r1 nh1 r2 nh2 = 0"
  shows "vt_cmd_obj_hash_update_ip4_route for_id r1 nh1 = vt_cmd_obj_hash_update_ip4_route for_id r2 nh2"
proof -
  let ?t = "if for_id then NM_PLATFORM_IP_ROUTE_CMP_TYPE_ID else NM_PLATFORM_IP_ROUTE_CMP_TYPE_FULL"
  have r: "nm_platform_ip4_route_cmp ?t r1 r2 = 0"
    and nh: "\<And>i. i \<in> set [1..<unat (r4_n_nexthops r1)] \<Longrightarrow>
      nm_platform_ip4_rt_nexthop_cmp for_id (nh1 ! (i - 1)) (nh2 ! (i - 1)) = 0"
    using assms unfolding vt_cmd_obj_cmp_ip4_route_def nm_cmp_chain_eq_0 by simp_all
  have "map (\<lambda>i. nm_platform_ip4_rt_nexthop_hash_update for_id (nh1 ! (i - 1))) [1..<unat (r4_n_nexthops r1)] =
      map (\<lambda>i. nm_platform_ip4_rt_nexthop_hash_update for_id (nh2 ! (i - 1))) [1..<unat (r4_n_nexthops r1)]"
    by (rule map_cong [OF refl]) (rule nexthop_hash_agrees [OF nh])
  then show ?thesis
    unfolding vt_cmd_obj_hash_update_ip4_route_def ip4_hash_agrees [OF r] ip4_n_nexthops_eq [OF r] by (simp only:)
qed

lemma obj_cmp_type:
  "nmp_object_cmp_full env for_id a b = 0 \<Longrightarrow> obj_type a = obj_type b"
  by (cases env; cases a; cases b) (simp_all add: nmp_object_cmp_full_def)

text \<open>
  C32. The comparison functions of routes, rules, addresses, queueing disciplines and filters are total preorders for
  every comparison type, and so are the orders in which addresses are sorted: antisymmetric and transitive. This is
  not obvious where a network is compared by the bits that both prefixes have (which alone is not transitive) and
  where fields are compared only under a condition on one of the two objects. IPv6 routes are assumed to have
  addresses of 16 bytes and prefix lengths up to 128.
\<close>

theorem platform_cmp_total_preorder:
  "compare_ok (nm_platform_ip4_route_cmp t) \<and> compare_ok_on {r. ip6_route_ok r} (nm_platform_ip6_route_cmp t) \<and>
   compare_ok (nm_platform_routing_rule_cmp support ptr u) \<and>
   compare_ok (nm_platform_ip4_address_cmp now v) \<and> compare_ok (nm_platform_ip6_address_cmp now v) \<and>
   compare_ok nm_platform_ip4_address_pretty_sort_cmp \<and>
   compare_ok (nm_platform_ip6_address_pretty_sort_cmp mem_image prefer_temp) \<and>
   compare_ok (nm_platform_qdisc_cmp compare_handle) \<and> compare_ok nm_platform_tfilter_cmp"
  unfolding compare_ok_iff
  by (intro conjI ip6_route_compare_ok ip4_route.compare_order_axioms routing_rule.compare_order_axioms
      ip4_address_cmp_order ip6_address_cmp_order ip4_address_pretty_sort_order ip6_address_pretty_sort_order
      qdisc_cmp_order tfilter_cmp_order)

text \<open>The tables of identities need this half of it: objects of the same identity are hashed the same.\<close>

lemma object_id_hash_agrees:
  assumes "object_ok a" "object_ok b" "nmp_object_id_equal env a b"
  shows "nmp_object_hash_update_full env True a = nmp_object_hash_update_full env True b"
  using obj_cmp_type [OF assms(3) [unfolded nmp_object_id_equal_def]] assms
  by (cases env; cases a; cases b)
    (auto simp: nmp_object_id_equal_def nmp_object_cmp_full_def nmp_object_hash_update_full_def object_ok_def
      mptcp_hash_flags ip6_address_hash_agrees word_uint_eq_iff [symmetric]
      dest: ip4_object_hash_agrees ip6_hash_agrees routing_rule_hash_agrees mptcp_id_hash_agrees
        ip4_address_hash_agrees ip4_address_id_hash_agrees ip6_address_id_hash_agrees qdisc_hash_agrees
        tfilter_hash_agrees tc_id_hash_agrees)

text \<open>
  C33. Two objects that compare equal are hashed the same, for the full comparison and for the identity, with two
  exceptions: the full comparison of MPTCP endpoints ignores the flags, and that of IPv6 addresses takes an unset
  peer for the address itself, while their hashes include the flags and the peer as they are. So equal endpoints
  with different flags have different hashes, and so have equal IPv6 addresses of which one has no peer.
\<close>

theorem nmp_object_hash_agrees:
  assumes "object_ok a" "object_ok b" "nmp_object_cmp_full env for_id a b = 0"
  shows "nmp_object_hash_update_full env for_id a = nmp_object_hash_update_full env for_id b \<longleftrightarrow>
    for_id \<or> object_hash_extra a = object_hash_extra b"
  using obj_cmp_type [OF assms(3)] assms
  by (cases env; cases a; cases b)
    (auto simp: nmp_object_cmp_full_def nmp_object_hash_update_full_def object_ok_def object_hash_extra_def
      mptcp_hash_flags ip6_address_hash_agrees word_uint_eq_iff [symmetric]
      dest: ip4_object_hash_agrees ip6_hash_agrees routing_rule_hash_agrees mptcp_id_hash_agrees
        ip4_address_hash_agrees ip4_address_id_hash_agrees ip6_address_id_hash_agrees qdisc_hash_agrees
        tfilter_hash_agrees tc_id_hash_agrees)

definition example_ip6_address :: "u8 list \<Rightarrow> NMPlatformIP6Address" where
  "example_ip6_address peer =
     \<lparr>ax_ifindex = 1, ax_addr_source = 0, ax_timestamp = 0, ax_lifetime = 0, ax_preferred = 0, ax_n_ifa_flags = 0,
      ax_use_ip4_broadcast_address = False, ax_a_force_commit = False, ax_plen = 64,
      a6_address = replicate 15 0 @ [5], a6_peer_address = peer\<rparr>"

theorem nmp_object_hash_agrees_witness:
  "nmp_object_hash_update_full (\<lambda>_. True, \<lambda>_. 0, \<lambda>_ _. 0) False (NMP_IP6_ADDRESS (example_ip6_address (replicate 16 0))) \<noteq>
   nmp_object_hash_update_full (\<lambda>_. True, \<lambda>_. 0, \<lambda>_ _. 0) False (NMP_IP6_ADDRESS (example_ip6_address (replicate 15 0 @ [5])))"
proof -
  let ?a = "example_ip6_address (replicate 16 0)" and ?b = "example_ip6_address (replicate 15 0 @ [5])"
  have "nm_platform_ip6_address_cmp 0 NM_PLATFORM_IP_ADDRESS_CMP_TYPE_FULL ?a ?b = 0" by code_simp
  moreover have "hash_bytes (a6_peer_address ?a) \<noteq> hash_bytes (a6_peer_address ?b)" by code_simp
  moreover have "ip6_address_ok ?a" "ip6_address_ok ?b" by (simp_all add: ip6_address_ok_def example_ip6_address_def)
  ultimately show ?thesis
    using nmp_object_hash_agrees [of "NMP_IP6_ADDRESS ?a" "NMP_IP6_ADDRESS ?b" "(\<lambda>_. True, \<lambda>_. 0, \<lambda>_ _. 0)" False]
    by (simp add: nmp_object_cmp_full_def object_ok_def object_hash_extra_def)
qed

section \<open>Identity of objects\<close>

text \<open>What the tables rely on: the two equalities are equivalences, and equal objects have the same identity.\<close>

locale object_identity =
  fixes id_eq :: "'o \<Rightarrow> 'o \<Rightarrow> bool" and full_eq :: "'o \<Rightarrow> 'o \<Rightarrow> bool"
  assumes id_equivp: "equivp id_eq" and full_equivp: "equivp full_eq"
    and full_id: "full_eq a b \<Longrightarrow> id_eq a b"
begin

lemma id_refl [simp]: "id_eq a a" and full_refl [simp]: "full_eq a a"
  using id_equivp full_equivp by (simp_all add: equivp_reflp)

lemma id_sym: "id_eq a b \<Longrightarrow> id_eq b a" and full_sym: "full_eq a b \<Longrightarrow> full_eq b a"
  using id_equivp full_equivp by (simp_all add: equivp_symp)

lemma id_trans: "id_eq a b \<Longrightarrow> id_eq b c \<Longrightarrow> id_eq a c"
  and full_trans: "full_eq a b \<Longrightarrow> full_eq b c \<Longrightarrow> full_eq a c"
  using id_equivp full_equivp equivp_transp by metis+

text \<open>Objects with the same identity are interchangeable in a test for identity.\<close>

lemma id_cong: "id_eq a b \<Longrightarrow> id_eq a c \<longleftrightarrow> id_eq b c" "id_eq a b \<Longrightarrow> id_eq c a \<longleftrightarrow> id_eq c b"
  using id_sym id_trans by blast+

end

lemma equivp_nexthop: "equivp (\<lambda>a b. nm_platform_ip4_rt_nexthop_cmp for_id a b = 0)"
  by (intro equivpI reflpI sympI transpI) (simp_all add: nm_platform_ip4_rt_nexthop_cmp_def Let_def)

lemma equivp_indexed:
  assumes "equivp E" "equivp F" and I: "\<And>x y. E x y \<Longrightarrow> I x = I y"
  shows "equivp (\<lambda>a b. E (fst a) (fst b) \<and> (\<forall>i\<in>set (I (fst a)). F (snd a ! (i - 1)) (snd b ! (i - 1))))"
proof (intro equivpI reflpI sympI transpI)
  note E = equivp_reflp [OF assms(1)] equivp_symp [OF assms(1)] equivp_transp [OF assms(1)]
    and F = equivp_reflp [OF assms(2)] equivp_symp [OF assms(2)] equivp_transp [OF assms(2)]
  show "E (fst a) (fst a) \<and> (\<forall>i\<in>set (I (fst a)). F (snd a ! (i - 1)) (snd a ! (i - 1)))" for a
    using E(1) F(1) by blast
  fix a b c
  assume ab: "E (fst a) (fst b) \<and> (\<forall>i\<in>set (I (fst a)). F (snd a ! (i - 1)) (snd b ! (i - 1)))"
  show "E (fst b) (fst a) \<and> (\<forall>i\<in>set (I (fst b)). F (snd b ! (i - 1)) (snd a ! (i - 1)))"
    using ab I [of "fst a" "fst b"] E(2) F(2) by simp
  assume bc: "E (fst b) (fst c) \<and> (\<forall>i\<in>set (I (fst b)). F (snd b ! (i - 1)) (snd c ! (i - 1)))"
  show "E (fst a) (fst c) \<and> (\<forall>i\<in>set (I (fst a)). F (snd a ! (i - 1)) (snd c ! (i - 1)))"
  proof (intro conjI ballI)
    show "E (fst a) (fst c)" using ab bc E(3) by blast
    fix i assume "i \<in> set (I (fst a))"
    then have "F (snd a ! (i - 1)) (snd b ! (i - 1))" "F (snd b ! (i - 1)) (snd c ! (i - 1))"
      using ab bc I [of "fst a" "fst b"] by auto
    then show "F (snd a ! (i - 1)) (snd c ! (i - 1))" by (rule F(3))
  qed
qed

lemma equivp_ip4_object:
  "equivp (\<lambda>a b. vt_cmd_obj_cmp_ip4_route for_id (fst a) (snd a) (fst b) (snd b) = 0)"
proof -
  let ?t = "if for_id then NM_PLATFORM_IP_ROUTE_CMP_TYPE_ID else NM_PLATFORM_IP_ROUTE_CMP_TYPE_FULL"
  have "equivp (\<lambda>a b. nm_platform_ip4_route_cmp ?t a b = 0)"
    by (rule equivp_cmp) (rule ip4_route.compare_order_axioms)
  from equivp_indexed [OF this equivp_nexthop [of for_id], of "\<lambda>r. [1..<unat (r4_n_nexthops r)]"]
  show ?thesis
    unfolding vt_cmd_obj_cmp_ip4_route_def nm_cmp_chain_eq_0
    using ip4_n_nexthops_eq [of for_id] by simp
qed

text \<open>A relation that is an equivalence on each type and relates no objects of different types.\<close>

lemma equivp_by_type:
  assumes "\<And>a b. E a b \<Longrightarrow> obj_type a = obj_type b"
    and "equivp (\<lambda>a b. E (NMP_IP4_ADDRESS a) (NMP_IP4_ADDRESS b))" "equivp (\<lambda>a b. E (NMP_IP6_ADDRESS a) (NMP_IP6_ADDRESS b))"
    and "equivp (\<lambda>a b. E (NMP_IP4_ROUTE (fst a) (snd a)) (NMP_IP4_ROUTE (fst b) (snd b)))"
    and "equivp (\<lambda>a b. E (NMP_IP6_ROUTE a) (NMP_IP6_ROUTE b))" "equivp (\<lambda>a b. E (NMP_ROUTING_RULE a) (NMP_ROUTING_RULE b))"
    and "equivp (\<lambda>a b. E (NMP_QDISC a) (NMP_QDISC b))" "equivp (\<lambda>a b. E (NMP_TFILTER a) (NMP_TFILTER b))"
    and "equivp (\<lambda>a b. E (NMP_MPTCP_ADDR a) (NMP_MPTCP_ADDR b))"
  shows "equivp E"
proof -
  note r = assms(2-9) [THEN equivp_reflp] and s = assms(2-9) [THEN equivp_symp] and t = assms(2-9) [THEN equivp_transp]
  have r4: "E (NMP_IP4_ROUTE x n) (NMP_IP4_ROUTE x n)" for x n using r(3) [of "(x, n)"] by simp
  have s4: "E (NMP_IP4_ROUTE x n) (NMP_IP4_ROUTE y m) \<Longrightarrow> E (NMP_IP4_ROUTE y m) (NMP_IP4_ROUTE x n)" for x n y m
    using s(3) [of "(x, n)" "(y, m)"] by simp
  have t4: "E (NMP_IP4_ROUTE x n) (NMP_IP4_ROUTE y m) \<Longrightarrow> E (NMP_IP4_ROUTE y m) (NMP_IP4_ROUTE z k)
      \<Longrightarrow> E (NMP_IP4_ROUTE x n) (NMP_IP4_ROUTE z k)" for x n y m z k
    using t(3) [of "(x, n)" "(y, m)" "(z, k)"] by simp
  show ?thesis
  proof (intro equivpI reflpI sympI transpI)
    show "E a a" for a by (cases a) (simp_all add: r(1,2,4-8) r4)
    fix a b assume ab: "E a b"
    show "E b a" using assms(1) [OF ab] ab by (cases a; cases b) (simp_all add: s(1,2,4-8) s4)
    fix c assume bc: "E b c"
    show "E a c" using assms(1) [OF ab] assms(1) [OF bc] ab bc
      by (cases a; cases b; simp; cases c; simp)
        (blast intro: t(1) t(2) t(4) t(5) t(6) t(7) t(8) t4)+
  qed
qed

lemma equivp_object: "equivp (\<lambda>a b. nmp_object_cmp_full env for_id a b = 0)"
proof -
  obtain support ptr hash where env: "env = (support, ptr, hash)" by (cases env)
  let ?t = "if for_id then NM_PLATFORM_IP_ROUTE_CMP_TYPE_ID else NM_PLATFORM_IP_ROUTE_CMP_TYPE_FULL"
  have ip6: "equivp (\<lambda>a b. nm_platform_ip6_route_cmp ?t a b = 0)" by (rule equivp_ip6) simp
  have tc: "equivp (\<lambda>a b. (if for_id then vt_cmd_plobj_id_cmp_qdisc a b else nm_platform_qdisc_cmp True a b) = 0)"
      "equivp (\<lambda>a b. (if for_id then vt_cmd_plobj_id_cmp_tfilter a b else nm_platform_tfilter_cmp a b) = 0)"
    using tc_id_cmp_order qdisc_cmp_order tfilter_cmp_order by (cases for_id; simp add: equivp_cmp)+
  have mp: "equivp (\<lambda>a b. (if for_id then vt_cmd_plobj_id_cmp_mptcp_addr a b else nm_platform_mptcp_addr_cmp a b) = 0)"
    using equivp_mptcp by (cases for_id) simp_all
  note orders = ip4_address_cmp_order ip6_address_cmp_order routing_rule.compare_order_axioms
  show ?thesis
    by (rule equivp_by_type, erule obj_cmp_type)
      (simp_all add: nmp_object_cmp_full_def env equivp_cmp [OF orders(1)] equivp_cmp [OF orders(2)]
        equivp_cmp [OF orders(3)] equivp_ip4_object ip6 tc mp split del: if_split)
qed

lemma full_cmp_id_cmp_ip4_object:
  assumes "vt_cmd_obj_cmp_ip4_route False r1 nh1 r2 nh2 = 0"
  shows "vt_cmd_obj_cmp_ip4_route True r1 nh1 r2 nh2 = 0"
proof -
  have nh: "nm_platform_ip4_rt_nexthop_cmp False x y = 0 \<Longrightarrow> nm_platform_ip4_rt_nexthop_cmp True x y = 0" for x y
    by (simp add: nm_platform_ip4_rt_nexthop_cmp_def Let_def)
  then show ?thesis
    using assms unfolding vt_cmd_obj_cmp_ip4_route_def nm_cmp_chain_eq_0 by (auto intro: full_cmp_id_cmp_ip4)
qed

lemma nmp_object_equal_id:
  "nmp_object_equal env a b \<Longrightarrow> nmp_object_id_equal env a b"
  unfolding nmp_object_equal_def nmp_object_id_equal_def
  by (cases env; cases a; cases b; simp add: nmp_object_cmp_full_def full_cmp_id_cmp_ip4_object
      full_cmp_id_cmp_ip6 full_cmp_id_cmp_rule full_cmp_id_cmp_mptcp full_cmp_id_cmp_ip4_address
      full_cmp_id_cmp_ip6_address full_cmp_id_cmp_tc)

interpretation oid: object_identity "nmp_object_id_equal env" "nmp_object_equal env" for env
  using equivp_object [of env True] equivp_object [of env False] nmp_object_equal_id [of env]
  by unfold_locales (simp_all add: nmp_object_id_equal_def [abs_def] nmp_object_equal_def [abs_def])

end
