(* ===== verification/NM_Global_Tracker.thy ===== *)
theory NM_Global_Tracker
  imports NM_Platform_Objects
begin

text \<open>
  \<^verbatim>\<open>nmp-global-tracker.c\<close>: independent users track that a route, a rule or an MPTCP endpoint
  shall be present or absent, each under a tag of its own and with a priority; a sync makes the
  kernel agree with the winning entries and remembers what it changed.

  The three hash tables of the tracker share their entries through intrusive lists. A
  \<open>TrackData\<close> is linked, when it is created, at the tail of the list of its object (found by
  identity) and at the tail of the list of its user tag, and neither its object nor its tag ever
  change. The model keeps \<open>by_data\<close> in the order of creation; the list of an object and the list of a
  tag are its sublists. \<open>by_obj\<close> is kept in the order of the lists \<open>by_obj_lst_heads\<close>, of which each
  one is the sublist of one object type. A lookup in \<open>by_data\<close> finds an entry whose hash and key
  agree (the hash values of different inputs are taken to be different).
\<close>

section \<open>Data\<close>

type_synonym user_tag = nat

record TrackData =
  td_obj :: NMPObject
  td_user_tag :: user_tag
  td_track_priority_val :: nat
  td_track_priority_present :: bool
  td_dirty :: bool

datatype ConfigState =
  CONFIG_STATE_NONE | CONFIG_STATE_ADDED_BY_US | CONFIG_STATE_REMOVED_BY_US | CONFIG_STATE_OWNED_BY_US

record TrackObjData =
  tod_obj :: NMPObject
  tod_config_state :: ConfigState

record NMPGlobalTracker =
  by_data :: "TrackData list"
  by_obj :: "TrackObjData list"
  by_user_tag :: "user_tag list"

definition track_data_hash :: "object_env \<Rightarrow> NMPObject \<Rightarrow> user_tag \<Rightarrow> hash_input" where
  "track_data_hash env obj user_tag = nmp_object_hash_update_full env False obj @ [int user_tag]"

definition track_data_equal :: "object_env \<Rightarrow> NMPObject \<times> user_tag \<Rightarrow> NMPObject \<times> user_tag \<Rightarrow> bool" where
  "track_data_equal env a b \<longleftrightarrow> snd a = snd b \<and> nmp_object_equal env (fst a) (fst b)"

abbreviation td_key :: "TrackData \<Rightarrow> NMPObject \<times> user_tag" where
  "td_key td \<equiv> (td_obj td, td_user_tag td)"

text \<open>Whether the hash table \<open>by_data\<close> takes two keys for the same.\<close>

definition same_key :: "object_env \<Rightarrow> NMPObject \<times> user_tag \<Rightarrow> NMPObject \<times> user_tag \<Rightarrow> bool" where
  "same_key env a b \<longleftrightarrow>
     track_data_hash env (fst a) (snd a) = track_data_hash env (fst b) (snd b) \<and> track_data_equal env a b"

definition track_data_lookup :: "object_env \<Rightarrow> TrackData list \<Rightarrow> NMPObject \<Rightarrow> user_tag \<Rightarrow> TrackData option" where
  "track_data_lookup env data obj user_tag = find (\<lambda>td. same_key env (td_key td) (obj, user_tag)) data"

definition track_obj_data_equal :: "object_env \<Rightarrow> NMPObject \<Rightarrow> NMPObject \<Rightarrow> bool" where
  "track_obj_data_equal env a b \<longleftrightarrow> nmp_object_id_equal env a b"

definition obj_data_lookup :: "object_env \<Rightarrow> TrackObjData list \<Rightarrow> NMPObject \<Rightarrow> TrackObjData option" where
  "obj_data_lookup env objs obj = find (\<lambda>od. track_obj_data_equal env (tod_obj od) obj) objs"

definition obj_data_update ::
    "object_env \<Rightarrow> NMPObject \<Rightarrow> (TrackObjData \<Rightarrow> TrackObjData) \<Rightarrow> TrackObjData list \<Rightarrow> TrackObjData list" where
  "obj_data_update env obj f objs = map (\<lambda>od. if track_obj_data_equal env (tod_obj od) obj then f od else od) objs"

definition obj_lst :: "object_env \<Rightarrow> TrackData list \<Rightarrow> NMPObject \<Rightarrow> TrackData list" where
  "obj_lst env data obj = filter (\<lambda>td. track_obj_data_equal env (td_obj td) obj) data"

definition user_tag_lst :: "TrackData list \<Rightarrow> user_tag \<Rightarrow> TrackData list" where
  "user_tag_lst data user_tag = filter (\<lambda>td. td_user_tag td = user_tag) data"

section \<open>The winning entry\<close>

fun get_best_data_loop :: "TrackData list \<Rightarrow> TrackData option \<Rightarrow> TrackData option" where
  "get_best_data_loop [] td_best = td_best"
| "get_best_data_loop (track_data # rest) None = get_best_data_loop rest (Some track_data)"
| "get_best_data_loop (track_data # rest) (Some td_best) =
     (if td_track_priority_val td_best > td_track_priority_val track_data then get_best_data_loop rest (Some td_best)
      else if td_track_priority_val td_best = td_track_priority_val track_data \<and>
              (td_track_priority_present td_best \<or> \<not> td_track_priority_present track_data)
      then get_best_data_loop rest (Some td_best)
      else get_best_data_loop rest (Some track_data))"

definition track_obj_data_get_best_data ::
    "object_env \<Rightarrow> TrackData list \<Rightarrow> TrackObjData \<Rightarrow> TrackData option \<times> TrackObjData" where
  "track_obj_data_get_best_data env data obj_data =
     (case get_best_data_loop (obj_lst env data (tod_obj obj_data)) None of
        None \<Rightarrow> (None, obj_data)
      | Some td_best \<Rightarrow> (Some td_best, obj_data\<lparr>tod_obj := td_obj td_best\<rparr>))"

section \<open>Tracking and untracking\<close>

definition nmp_global_tracker_new :: NMPGlobalTracker where
  "nmp_global_tracker_new = \<lparr>by_data = [], by_obj = [], by_user_tag = []\<rparr>"

primrec track_obj_allowed :: "NMPObject \<Rightarrow> bool" where
  "track_obj_allowed (NMP_ROUTING_RULE _) = True"
| "track_obj_allowed (NMP_MPTCP_ADDR _) = True"
| "track_obj_allowed (NMP_IP4_ROUTE r _) = (r_ifindex r = 0)"
| "track_obj_allowed (NMP_IP6_ROUTE r) = (r_ifindex r = 0)"
| "track_obj_allowed (NMP_IP4_ADDRESS _) = False"
| "track_obj_allowed (NMP_IP6_ADDRESS _) = False"
| "track_obj_allowed (NMP_QDISC _) = False"
| "track_obj_allowed (NMP_TFILTER _) = False"

definition track_data_untrack ::
    "object_env \<Rightarrow> NMPGlobalTracker \<Rightarrow> TrackData \<Rightarrow> bool \<Rightarrow> bool \<Rightarrow> NMPGlobalTracker" where
  "track_data_untrack env self track_data remove_user_tag_data make_owned_by_us =
     (let obj = td_obj track_data; tag = td_user_tag track_data;
          by_obj' =
            (if make_owned_by_us then
               obj_data_update env obj
                 (\<lambda>od. if tod_config_state od = CONFIG_STATE_NONE
                       then od\<lparr>tod_config_state := CONFIG_STATE_OWNED_BY_US\<rparr> else od) (by_obj self)
             else by_obj self);
          by_user_tag' =
            (if \<not> make_owned_by_us \<and> remove_user_tag_data \<and> length (user_tag_lst (by_data self) tag) \<le> 1
             then removeAll tag (by_user_tag self) else by_user_tag self);
          by_obj'' =
            (case obj_data_lookup env by_obj' obj of
               None \<Rightarrow> by_obj'
             | Some od \<Rightarrow>
                 if tod_config_state od = CONFIG_STATE_NONE \<and> length (obj_lst env (by_data self) obj) \<le> 1
                 then filter (\<lambda>od. \<not> track_obj_data_equal env (tod_obj od) obj) by_obj' else by_obj')
      in self\<lparr>by_data := filter (\<lambda>td. \<not> same_key env (td_key td) (td_key track_data)) (by_data self),
              by_obj := by_obj'', by_user_tag := by_user_tag'\<rparr>)"

text \<open>The entry of the object for the tag is created or updated.\<close>

definition track_entry ::
    "object_env \<Rightarrow> NMPGlobalTracker \<Rightarrow> NMPObject \<Rightarrow> nat \<Rightarrow> bool \<Rightarrow> user_tag \<Rightarrow> NMPGlobalTracker \<times> bool" where
  "track_entry env self obj val present user_tag =
     (case track_data_lookup env (by_data self) obj user_tag of
        None \<Rightarrow>
          (self\<lparr>by_data := by_data self @
                  [\<lparr>td_obj = obj, td_user_tag = user_tag, td_track_priority_val = val,
                    td_track_priority_present = present, td_dirty = False\<rparr>],
                by_obj :=
                  (case obj_data_lookup env (by_obj self) obj of
                     None \<Rightarrow> by_obj self @ [\<lparr>tod_obj = obj, tod_config_state = CONFIG_STATE_NONE\<rparr>]
                   | Some _ \<Rightarrow> by_obj self),
                by_user_tag :=
                  (if user_tag \<in> set (by_user_tag self) then by_user_tag self
                   else by_user_tag self @ [user_tag])\<rparr>, True)
      | Some td \<Rightarrow>
          (self\<lparr>by_data := map (\<lambda>x. if same_key env (td_key x) (td_key td)
                                    then x\<lparr>td_dirty := False, td_track_priority_val := val,
                                            td_track_priority_present := present\<rparr>
                                    else x) (by_data self)\<rparr>,
           td_track_priority_val td \<noteq> val \<or> td_track_priority_present td \<noteq> present))"

text \<open>\<open>user_tag_untrack\<close> is none for \<^verbatim>\<open>NULL\<close>.\<close>

definition track_untrack_other ::
    "object_env \<Rightarrow> NMPGlobalTracker \<Rightarrow> NMPObject \<Rightarrow> user_tag \<Rightarrow> user_tag option \<Rightarrow> NMPGlobalTracker \<times> bool" where
  "track_untrack_other env self obj user_tag user_tag_untrack =
     (case user_tag_untrack of
        None \<Rightarrow> (self, False)
      | Some tag \<Rightarrow>
          if user_tag \<noteq> tag then
            (case track_data_lookup env (by_data self) obj tag of
               None \<Rightarrow> (self, False)
             | Some td \<Rightarrow> (track_data_untrack env self td False True, True))
          else (self, False))"

definition nmp_global_tracker_track ::
    "object_env \<Rightarrow> NMPGlobalTracker \<Rightarrow> NMPObject \<Rightarrow> int \<Rightarrow> user_tag \<Rightarrow> user_tag option \<Rightarrow> NMPGlobalTracker \<times> bool" where
  "nmp_global_tracker_track env self obj track_priority user_tag user_tag_untrack =
     (if \<not> track_obj_allowed obj then (self, False)
      else
        (let (val, present) = (if track_priority \<ge> 0 then (nat track_priority, True) else (nat (- track_priority), False));
             (self, changed) = track_entry env self obj val present user_tag;
             (self, changed_untrack) = track_untrack_other env self obj user_tag user_tag_untrack
         in (self, changed \<or> changed_untrack)))"

definition nmp_global_tracker_untrack ::
    "object_env \<Rightarrow> NMPGlobalTracker \<Rightarrow> NMPObject \<Rightarrow> user_tag \<Rightarrow> NMPGlobalTracker \<times> bool" where
  "nmp_global_tracker_untrack env self obj user_tag =
     (case track_data_lookup env (by_data self) obj user_tag of
        None \<Rightarrow> (self, False)
      | Some td \<Rightarrow> (track_data_untrack env self td True False, True))"

definition nmp_global_tracker_set_dirty :: "NMPGlobalTracker \<Rightarrow> user_tag \<Rightarrow> NMPGlobalTracker" where
  "nmp_global_tracker_set_dirty self user_tag =
     (if user_tag \<notin> set (by_user_tag self) then self
      else self\<lparr>by_data := map (\<lambda>td. if td_user_tag td = user_tag then td\<lparr>td_dirty := True\<rparr> else td) (by_data self)\<rparr>)"

fun untrack_all_loop ::
    "object_env \<Rightarrow> bool \<Rightarrow> bool \<Rightarrow> TrackData list \<Rightarrow> NMPGlobalTracker \<times> bool \<Rightarrow> NMPGlobalTracker \<times> bool" where
  "untrack_all_loop env all_tds make_survivors_dirty [] st = st"
| "untrack_all_loop env all_tds make_survivors_dirty (td # tds) (self, changed) =
     (if all_tds \<or> td_dirty td then
        untrack_all_loop env all_tds make_survivors_dirty tds (track_data_untrack env self td False False, True)
      else if make_survivors_dirty then
        untrack_all_loop env all_tds make_survivors_dirty tds
          (self\<lparr>by_data := map (\<lambda>x. if same_key env (td_key x) (td_key td) then x\<lparr>td_dirty := True\<rparr> else x)
                             (by_data self)\<rparr>, changed)
      else untrack_all_loop env all_tds make_survivors_dirty tds (self, changed))"

definition nmp_global_tracker_untrack_all ::
    "object_env \<Rightarrow> NMPGlobalTracker \<Rightarrow> user_tag \<Rightarrow> bool \<Rightarrow> bool \<Rightarrow> NMPGlobalTracker \<times> bool" where
  "nmp_global_tracker_untrack_all env self user_tag all_tds make_survivors_dirty =
     (if user_tag \<notin> set (by_user_tag self) then (self, False)
      else
        (let (self, changed) =
               untrack_all_loop env all_tds make_survivors_dirty (user_tag_lst (by_data self) user_tag) (self, False);
             self =
               (if user_tag_lst (by_data self) user_tag = []
                then self\<lparr>by_user_tag := removeAll user_tag (by_user_tag self)\<rparr> else self)
         in (self, changed)))"

section \<open>Syncing routes and rules\<close>

text \<open>
  The requests the sync sends to the platform. \<open>kern\<close> is what the kernel and the platform cache make
  of a request; nothing is assumed of it in the definitions.
\<close>

datatype platform_request = Object_delete NMPObject | Object_add NMPObject

type_synonym platform_kernel = "platform_request \<Rightarrow> NMPObject list \<Rightarrow> NMPObject list"

primrec obj_ifindex :: "NMPObject \<Rightarrow> int" where
  "obj_ifindex (NMP_IP4_ROUTE r _) = r_ifindex r"
| "obj_ifindex (NMP_IP6_ROUTE r) = r_ifindex r"
| "obj_ifindex (NMP_ROUTING_RULE _) = 0"
| "obj_ifindex (NMP_MPTCP_ADDR m) = mp_ifindex m"
| "obj_ifindex (NMP_IP4_ADDRESS a) = ax_ifindex a"
| "obj_ifindex (NMP_IP6_ADDRESS a) = ax_ifindex a"
| "obj_ifindex (NMP_QDISC q) = qd_ifindex q"
| "obj_ifindex (NMP_TFILTER f) = tf_ifindex f"

text \<open>
  The objects of the platform cache the sync walks over: all rules, or the routes without an
  interface (\<^verbatim>\<open>nm_platform_lookup_obj_type\<close>, \<^verbatim>\<open>nm_platform_lookup_object\<close>), and the object
  with a given identity (\<^verbatim>\<open>nm_platform_lookup_obj\<close>).
\<close>

definition platform_lookup :: "NMPObjectType \<Rightarrow> NMPObject list \<Rightarrow> NMPObject list" where
  "platform_lookup type cache =
     (if type = NMP_OBJECT_TYPE_ROUTING_RULE then filter (\<lambda>ob. obj_type ob = type) cache
      else filter (\<lambda>ob. obj_type ob = type \<and> obj_ifindex ob = 0) cache)"

definition nm_platform_lookup_obj :: "object_env \<Rightarrow> NMPObject \<Rightarrow> NMPObject list \<Rightarrow> NMPObject option" where
  "nm_platform_lookup_obj env obj cache = find (nmp_object_id_equal env obj) cache"

definition object_cmp_semantically :: "object_env \<Rightarrow> NMPObject \<Rightarrow> NMPObject \<Rightarrow> int" where
  "object_cmp_semantically env a b =
     (case (a, b) of
        (NMP_ROUTING_RULE x, NMP_ROUTING_RULE y) \<Rightarrow>
          nm_platform_routing_rule_cmp (fst env) (fst (snd env)) NM_PLATFORM_ROUTING_RULE_CMP_TYPE_SEMANTICALLY x y
      | (NMP_IP4_ROUTE x _, NMP_IP4_ROUTE y _) \<Rightarrow>
          nm_platform_ip4_route_cmp NM_PLATFORM_IP_ROUTE_CMP_TYPE_SEMANTICALLY x y
      | (NMP_IP6_ROUTE x, NMP_IP6_ROUTE y) \<Rightarrow>
          nm_platform_ip6_route_cmp NM_PLATFORM_IP_ROUTE_CMP_TYPE_SEMANTICALLY x y
      | _ \<Rightarrow> 0)"

text \<open>First loop: what is done for an object of the platform that is tracked. The flag tells to delete it.\<close>

definition sync_platform_obj ::
    "object_env \<Rightarrow> TrackData list \<Rightarrow> bool \<Rightarrow> TrackObjData \<Rightarrow> TrackObjData \<times> bool" where
  "sync_platform_obj env data keep_deleted obj_data =
     (let (td_best, obj_data) = track_obj_data_get_best_data env data obj_data;
          delete = (\<lambda>obj_data. if keep_deleted then (obj_data, False)
                               else (obj_data\<lparr>tod_config_state := CONFIG_STATE_REMOVED_BY_US\<rparr>, True))
      in
      case td_best of
        None \<Rightarrow> delete obj_data
      | Some td_best \<Rightarrow>
          if td_track_priority_present td_best then
            (if tod_config_state obj_data = CONFIG_STATE_OWNED_BY_US
             then obj_data\<lparr>tod_config_state := CONFIG_STATE_ADDED_BY_US\<rparr> else obj_data, False)
          else if td_track_priority_val td_best = 0 then
            (if tod_config_state obj_data \<notin> {CONFIG_STATE_ADDED_BY_US, CONFIG_STATE_OWNED_BY_US}
             then (obj_data\<lparr>tod_config_state := CONFIG_STATE_NONE\<rparr>, False)
             else delete (obj_data\<lparr>tod_config_state := CONFIG_STATE_NONE\<rparr>))
          else delete obj_data)"

fun sync_platform_loop ::
    "object_env \<Rightarrow> TrackData list \<Rightarrow> bool \<Rightarrow> NMPObject list \<Rightarrow> TrackObjData list \<times> NMPObject list \<Rightarrow>
     TrackObjData list \<times> NMPObject list" where
  "sync_platform_loop env data keep_deleted [] st = st"
| "sync_platform_loop env data keep_deleted (plobj # plobjs) (objs, objs_to_delete) =
     (case obj_data_lookup env objs plobj of
        None \<Rightarrow> sync_platform_loop env data keep_deleted plobjs (objs, objs_to_delete)
      | Some obj_data \<Rightarrow>
          (let (obj_data', del) = sync_platform_obj env data keep_deleted obj_data in
           sync_platform_loop env data keep_deleted plobjs
             (obj_data_update env plobj (\<lambda>_. obj_data') objs,
              if del then objs_to_delete @ [plobj] else objs_to_delete)))"

text \<open>Second loop: what is done for a tracked object. The entry is dropped when nobody tracks it.\<close>

definition sync_tracked_obj ::
    "object_env \<Rightarrow> platform_kernel \<Rightarrow> TrackData list \<Rightarrow> TrackObjData \<Rightarrow> NMPObject list \<Rightarrow>
     TrackObjData option \<times> NMPObject list \<times> platform_request list" where
  "sync_tracked_obj env kern data obj_data cache =
     (case track_obj_data_get_best_data env data obj_data of
        (None, _) \<Rightarrow> (None, cache, [])
      | (Some td_best, obj_data) \<Rightarrow>
          if \<not> td_track_priority_present td_best then
            (Some (if tod_config_state obj_data = CONFIG_STATE_OWNED_BY_US
                   then obj_data\<lparr>tod_config_state := CONFIG_STATE_REMOVED_BY_US\<rparr> else obj_data), cache, [])
          else if td_track_priority_val td_best = 0 \<and>
                  tod_config_state obj_data \<notin> {CONFIG_STATE_REMOVED_BY_US, CONFIG_STATE_OWNED_BY_US} then
            (Some (obj_data\<lparr>tod_config_state := CONFIG_STATE_NONE\<rparr>), cache, [])
          else
            (let obj_data = (if td_track_priority_val td_best = 0
                             then obj_data\<lparr>tod_config_state := CONFIG_STATE_NONE\<rparr> else obj_data);
                 added = obj_data\<lparr>tod_config_state := CONFIG_STATE_ADDED_BY_US\<rparr>;
                 add = Object_add (tod_obj obj_data)
             in
             case nm_platform_lookup_obj env (tod_obj obj_data) cache of
               None \<Rightarrow> (Some added, kern add cache, [add])
             | Some plobj \<Rightarrow>
                 if object_cmp_semantically env (tod_obj obj_data) plobj = 0 then (Some obj_data, cache, [])
                 else (Some added, kern add (kern (Object_delete plobj) cache), [Object_delete plobj, add])))"

fun sync_tracked_loop ::
    "object_env \<Rightarrow> platform_kernel \<Rightarrow> TrackData list \<Rightarrow> NMPObjectType \<Rightarrow> TrackObjData list \<Rightarrow> NMPObject list \<Rightarrow>
     TrackObjData list \<times> NMPObject list \<times> platform_request list" where
  "sync_tracked_loop env kern data type [] cache = ([], cache, [])"
| "sync_tracked_loop env kern data type (obj_data # objs) cache =
     (if obj_type (tod_obj obj_data) \<noteq> type then
        (case sync_tracked_loop env kern data type objs cache of
           (objs, cache, reqs) \<Rightarrow> (obj_data # objs, cache, reqs))
      else
        (case sync_tracked_obj env kern data obj_data cache of
           (obj_data, cache, reqs1) \<Rightarrow>
             (case sync_tracked_loop env kern data type objs cache of
                (objs, cache, reqs2) \<Rightarrow>
                  ((case obj_data of None \<Rightarrow> objs | Some od \<Rightarrow> od # objs), cache, reqs1 @ reqs2))))"

definition nmp_global_tracker_sync ::
    "object_env \<Rightarrow> platform_kernel \<Rightarrow> NMPGlobalTracker \<Rightarrow> NMPObject list \<Rightarrow> NMPObjectType \<Rightarrow> bool \<Rightarrow>
     NMPGlobalTracker \<times> NMPObject list \<times> platform_request list" where
  "nmp_global_tracker_sync env kern self cache type keep_deleted =
     (if type \<notin> {NMP_OBJECT_TYPE_IP4_ROUTE, NMP_OBJECT_TYPE_IP6_ROUTE, NMP_OBJECT_TYPE_ROUTING_RULE} then (self, cache, [])
      else
        (let (objs, objs_to_delete) =
               sync_platform_loop env (by_data self) keep_deleted (platform_lookup type cache) (by_obj self, []);
             dels = map Object_delete objs_to_delete;
             cache = fold kern dels cache
         in
         case sync_tracked_loop env kern (by_data self) type objs cache of
           (objs, cache, reqs) \<Rightarrow> (self\<lparr>by_obj := objs\<rparr>, cache, dels @ reqs)))"

section \<open>Default and local rules\<close>

definition blank_routing_rule :: NMPlatformRoutingRule where
  "blank_routing_rule =
     \<lparr>rr_src = replicate 16 0, rr_dst = replicate 16 0, rr_tun_id = 0, rr_table = 0, rr_flags = 0,
      rr_priority = 0, rr_fwmark = 0, rr_fwmask = 0, rr_goto_target = 0, rr_flow = 0,
      rr_suppress_prefixlen_inverse = 0, rr_suppress_ifgroup_inverse = 0, rr_uid_range = (0, 0),
      rr_sport_range = (0, 0), rr_dport_range = (0, 0), rr_iifname = [], rr_oifname = [],
      rr_addr_family = 0, rr_action = 0, rr_tos = 0, rr_src_len = 0, rr_dst_len = 0, rr_l3mdev = 0,
      rr_protocol = 0, rr_ip_proto = 0, rr_uid_range_has = False\<rparr>"

text \<open>\<^verbatim>\<open>RT_TABLE_LOCAL\<close>, \<^verbatim>\<open>RT_TABLE_MAIN\<close> and \<^verbatim>\<open>RT_TABLE_DEFAULT\<close> are 255, 254 and 253; \<^verbatim>\<open>RTPROT_KERNEL\<close> is 2.\<close>

definition kernel_rule :: "nat \<Rightarrow> u32 \<Rightarrow> u32 \<Rightarrow> NMPObject" where
  "kernel_rule family priority table =
     NMP_ROUTING_RULE (blank_routing_rule\<lparr>rr_addr_family := family, rr_priority := priority, rr_table := table,
       rr_action := FR_ACT_TO_TBL, rr_protocol := 2\<rparr>)"

abbreviation track_rule ::
    "object_env \<Rightarrow> int \<Rightarrow> user_tag \<Rightarrow> user_tag option \<Rightarrow> NMPObject \<Rightarrow> NMPGlobalTracker \<Rightarrow> NMPGlobalTracker" where
  "track_rule env track_priority user_tag user_tag_untrack rule self \<equiv>
     fst (nmp_global_tracker_track env self rule track_priority user_tag user_tag_untrack)"

definition nmp_global_tracker_track_local_rule ::
    "object_env \<Rightarrow> NMPGlobalTracker \<Rightarrow> nat \<Rightarrow> int \<Rightarrow> user_tag \<Rightarrow> user_tag option \<Rightarrow> NMPGlobalTracker" where
  "nmp_global_tracker_track_local_rule env self family track_priority user_tag user_tag_untrack =
     (let self = (if family \<in> {NM_AF_UNSPEC, NM_AF_INET}
                  then track_rule env track_priority user_tag user_tag_untrack (kernel_rule NM_AF_INET 0 255) self
                  else self)
      in if family \<in> {NM_AF_UNSPEC, NM_AF_INET6}
         then track_rule env track_priority user_tag user_tag_untrack (kernel_rule NM_AF_INET6 0 255) self
         else self)"

definition nmp_global_tracker_track_rule_default ::
    "object_env \<Rightarrow> NMPGlobalTracker \<Rightarrow> nat \<Rightarrow> int \<Rightarrow> user_tag \<Rightarrow> NMPGlobalTracker" where
  "nmp_global_tracker_track_rule_default env self family track_priority user_tag =
     (let self =
            (if family \<in> {NM_AF_UNSPEC, NM_AF_INET} then
               track_rule env track_priority user_tag None (kernel_rule NM_AF_INET 32767 253)
                 (track_rule env track_priority user_tag None (kernel_rule NM_AF_INET 32766 254)
                   (nmp_global_tracker_track_local_rule env self family track_priority user_tag None))
             else self)
      in if family \<in> {NM_AF_UNSPEC, NM_AF_INET6} then
           track_rule env track_priority user_tag None (kernel_rule NM_AF_INET6 32766 254)
             (nmp_global_tracker_track_local_rule env self family track_priority user_tag None)
         else self)"

definition nmp_global_tracker_track_rule_from_platform ::
    "object_env \<Rightarrow> NMPGlobalTracker \<Rightarrow> NMPObject list \<Rightarrow> nat \<Rightarrow> int \<Rightarrow> user_tag \<Rightarrow> NMPGlobalTracker" where
  "nmp_global_tracker_track_rule_from_platform env self cache family tracking_priority user_tag =
     fold (\<lambda>obj self.
             case obj of
               NMP_ROUTING_RULE rr \<Rightarrow>
                 if family \<noteq> NM_AF_UNSPEC \<and> rr_addr_family rr \<noteq> family then self
                 else track_rule env tracking_priority user_tag None obj self
             | _ \<Rightarrow> self)
       (filter (\<lambda>ob. obj_type ob = NMP_OBJECT_TYPE_ROUTING_RULE) cache) self"

section \<open>The tables as maps\<close>

lemma track_obj_data_equal_id [simp]: "track_obj_data_equal env = nmp_object_id_equal env"
  by (simp add: fun_eq_iff track_obj_data_equal_def)

lemma same_key_refl [simp]: "same_key env a a"
  by (simp add: same_key_def track_data_equal_def)

lemma same_key_sym: "same_key env a b \<longleftrightarrow> same_key env b a"
  using oid.full_sym [of env] by (auto simp: same_key_def track_data_equal_def)

lemma same_key_trans: "same_key env a b \<Longrightarrow> same_key env b c \<Longrightarrow> same_key env a c"
  using oid.full_trans unfolding same_key_def track_data_equal_def by metis

lemma same_key_cong: "same_key env a b \<Longrightarrow> same_key env a c \<longleftrightarrow> same_key env b c"
  using same_key_trans same_key_sym by metis

lemma same_key_tag: "same_key env a b \<Longrightarrow> snd a = snd b"
  and same_key_id: "same_key env a b \<Longrightarrow> nmp_object_id_equal env (fst a) (fst b)"
  using oid.full_id by (auto simp: same_key_def track_data_equal_def)

abbreviation lookup_key :: "object_env \<Rightarrow> NMPObject \<times> user_tag \<Rightarrow> TrackData list \<Rightarrow> TrackData option" where
  "lookup_key env k data \<equiv> find (\<lambda>td. same_key env (td_key td) k) data"

lemma lookup_key_Some: "lookup_key env k data = Some td \<Longrightarrow> td \<in> set data \<and> same_key env (td_key td) k"
  by (auto simp: find_Some_iff)

lemma lookup_key_None: "lookup_key env k data = None \<longleftrightarrow> (\<forall>td\<in>set data. \<not> same_key env (td_key td) k)"
  by (auto simp: find_None_iff)

lemma lookup_key_snoc:
  "lookup_key env k (data @ [td]) =
     (case lookup_key env k data of Some x \<Rightarrow> Some x | None \<Rightarrow> if same_key env (td_key td) k then Some td else None)"
  by (induction data) auto

lemma lookup_key_update:
  assumes "\<And>x. td_key (f x) = td_key x"
  shows "lookup_key env k (map (\<lambda>x. if same_key env (td_key x) k0 then f x else x) data) =
    (if same_key env k k0 then map_option f (lookup_key env k data) else lookup_key env k data)"
proof (induction data)
  case (Cons x xs)
  show ?case
  proof (cases "same_key env (td_key x) k")
    case True
    then have "same_key env (td_key x) k0 \<longleftrightarrow> same_key env k k0" by (rule same_key_cong)
    then show ?thesis using True assms [of x] by simp
  next
    case False
    then show ?thesis using Cons assms [of x] by simp
  qed
qed simp

lemma lookup_key_remove:
  "lookup_key env k (filter (\<lambda>x. \<not> same_key env (td_key x) k0) data) =
    (if same_key env k k0 then None else lookup_key env k data)"
proof (induction data)
  case (Cons x xs)
  show ?case
  proof (cases "same_key env (td_key x) k")
    case True
    then have "same_key env (td_key x) k0 \<longleftrightarrow> same_key env k k0" by (rule same_key_cong)
    then show ?thesis using True Cons by simp
  qed (use Cons in simp)
qed simp

lemma lookup_key_cong: "same_key env k k' \<Longrightarrow> lookup_key env k data = lookup_key env k' data"
  using same_key_cong same_key_sym by (intro arg_cong2 [where f = find] ext refl) blast

section \<open>Specification\<close>

text \<open>
  A user of the tracker sees a map from keys to the priority with its sign and the dirty mark. The
  specification of the operations is on these maps.
\<close>

type_synonym tracked_map = "NMPObject \<times> user_tag \<Rightarrow> (int \<times> bool) option"

definition td_priority :: "TrackData \<Rightarrow> int" where
  "td_priority td =
     (if td_track_priority_present td then int (td_track_priority_val td) else - int (td_track_priority_val td))"

definition tracked_map_of :: "object_env \<Rightarrow> NMPGlobalTracker \<Rightarrow> tracked_map" where
  "tracked_map_of env self k = map_option (\<lambda>td. (td_priority td, td_dirty td)) (lookup_key env k (by_data self))"

definition spec_track ::
    "object_env \<Rightarrow> NMPObject \<Rightarrow> int \<Rightarrow> user_tag \<Rightarrow> user_tag option \<Rightarrow> tracked_map \<Rightarrow> tracked_map" where
  "spec_track env obj prio tag untrack m k =
     (if \<not> track_obj_allowed obj then m k
      else if same_key env k (obj, tag) then Some (prio, False)
      else if untrack \<noteq> None \<and> same_key env k (obj, the untrack) then None
      else m k)"

definition spec_untrack :: "object_env \<Rightarrow> NMPObject \<Rightarrow> user_tag \<Rightarrow> tracked_map \<Rightarrow> tracked_map" where
  "spec_untrack env obj tag m k = (if same_key env k (obj, tag) then None else m k)"

definition spec_set_dirty :: "user_tag \<Rightarrow> tracked_map \<Rightarrow> tracked_map" where
  "spec_set_dirty tag m k = (if snd k = tag then map_option (\<lambda>(p, _). (p, True)) (m k) else m k)"

definition spec_untrack_all :: "user_tag \<Rightarrow> bool \<Rightarrow> bool \<Rightarrow> tracked_map \<Rightarrow> tracked_map" where
  "spec_untrack_all tag all_tds survivors_dirty m k =
     (if snd k = tag then
        (case m k of
           None \<Rightarrow> None
         | Some (p, d) \<Rightarrow> if all_tds \<or> d then None else Some (p, d \<or> survivors_dirty))
      else m k)"

section \<open>Invariant\<close>

definition tracker_inv :: "object_env \<Rightarrow> NMPGlobalTracker \<Rightarrow> bool" where
  "tracker_inv env self \<longleftrightarrow>
     sorted_wrt (\<lambda>a b. \<not> same_key env (td_key a) (td_key b)) (by_data self) \<and>
     sorted_wrt (\<lambda>a b. \<not> nmp_object_id_equal env (tod_obj a) (tod_obj b)) (by_obj self) \<and>
     (\<forall>td\<in>set (by_data self). \<exists>od\<in>set (by_obj self). nmp_object_id_equal env (tod_obj od) (td_obj td)) \<and>
     (\<forall>od\<in>set (by_obj self). tod_config_state od = CONFIG_STATE_NONE \<longrightarrow>
        obj_lst env (by_data self) (tod_obj od) \<noteq> []) \<and>
     (\<forall>td\<in>set (by_data self). td_user_tag td \<in> set (by_user_tag self)) \<and>
     (\<forall>td\<in>set (by_data self). td_track_priority_val td = 0 \<longrightarrow> td_track_priority_present td) \<and>
     (\<forall>td\<in>set (by_data self). track_obj_allowed (td_obj td)) \<and>
     (\<forall>od\<in>set (by_obj self). track_obj_allowed (tod_obj od))"

text \<open>Objects with the same identity have the same type and, for routes, the same interface.\<close>

lemma id_equal_type: "nmp_object_id_equal env a b \<Longrightarrow> obj_type a = obj_type b"
  by (cases env; cases a; cases b; simp add: nmp_object_id_equal_def nmp_object_cmp_full_def)

lemma id_equal_allowed: "nmp_object_id_equal env a b \<Longrightarrow> track_obj_allowed a \<longleftrightarrow> track_obj_allowed b"
proof -
  have "r_ifindex x = r_ifindex y" if "nm_platform_ip4_route_cmp NM_PLATFORM_IP_ROUTE_CMP_TYPE_ID x y = 0" for x y
    using that by (simp add: nm_platform_ip4_route_cmp_def Let_def)
  moreover have "r_ifindex x = r_ifindex y" if "nm_platform_ip6_route_cmp NM_PLATFORM_IP_ROUTE_CMP_TYPE_ID x y = 0" for x y
    using that by (simp add: nm_platform_ip6_route_cmp_def Let_def)
  ultimately show "nmp_object_id_equal env a b \<Longrightarrow> ?thesis"
    by (cases env; cases a; cases b; fastforce simp: nmp_object_id_equal_def nmp_object_cmp_full_def
        vt_cmd_obj_cmp_ip4_route_def)
qed

lemma tracker_inv_unique:
  assumes "sorted_wrt (\<lambda>a b. \<not> same_key env (td_key a) (td_key b)) data" "td \<in> set data"
    "same_key env (td_key td) k"
  shows "lookup_key env k data = Some td"
  using assms
proof (induction data)
  case (Cons x xs)
  show ?case
  proof (cases "same_key env (td_key x) k")
    case True
    then have "same_key env (td_key x) (td_key td)"
      using Cons.prems(3) same_key_trans same_key_sym by metis
    then show ?thesis using Cons.prems True by auto
  next
    case False
    then show ?thesis using Cons by auto
  qed
qed simp

lemma new_inv: "tracker_inv env nmp_global_tracker_new"
  by (simp add: tracker_inv_def nmp_global_tracker_new_def)


section \<open>Every operation refines its specification\<close>

lemma untrack_by_data:
  "by_data (track_data_untrack env self td r m) = filter (\<lambda>x. \<not> same_key env (td_key x) (td_key td)) (by_data self)"
  by (simp add: track_data_untrack_def Let_def)

lemma entries_untrack:
  "tracked_map_of env (track_data_untrack env self td r m) k = (if same_key env k (td_key td) then None else tracked_map_of env self k)"
  by (simp add: tracked_map_of_def untrack_by_data lookup_key_remove)

lemma entries_cong: "same_key env k k' \<Longrightarrow> tracked_map_of env self k = tracked_map_of env self k'"
  using lookup_key_cong [of env k k' "by_data self"] by (simp add: tracked_map_of_def)

lemma entries_found:
  assumes "track_data_lookup env (by_data self) obj tag = Some td"
  shows "same_key env k (td_key td) \<longleftrightarrow> same_key env k (obj, tag)"
  using lookup_key_Some [OF assms [unfolded track_data_lookup_def]] same_key_trans same_key_sym by metis

lemma entries_not_found:
  assumes "track_data_lookup env (by_data self) obj tag = None" "same_key env k (obj, tag)"
  shows "tracked_map_of env self k = None"
  using assms(1) unfolding entries_cong [OF assms(2)] by (simp add: tracked_map_of_def track_data_lookup_def)

lemma entries_track_entry:
  "tracked_map_of env (fst (track_entry env self obj val present tag)) k =
    (if same_key env k (obj, tag) then Some (if present then int val else - int val, False) else tracked_map_of env self k)"
proof (cases "track_data_lookup env (by_data self) obj tag")
  case None
  show ?thesis
  proof (cases "same_key env k (obj, tag)")
    case True
    then have "lookup_key env k (by_data self) = None"
      using entries_not_found [OF None True] by (simp add: tracked_map_of_def)
    then show ?thesis
      using None True same_key_sym [of env "(obj, tag)" k]
      by (simp add: track_entry_def tracked_map_of_def lookup_key_snoc td_priority_def)
  next
    case False
    then show ?thesis
      using None same_key_sym [of env "(obj, tag)" k]
      by (simp add: track_entry_def tracked_map_of_def lookup_key_snoc split: option.split)
  qed
next
  case (Some td)
  then have "lookup_key env (obj, tag) (by_data self) = Some td" by (simp add: track_data_lookup_def)
  then have "same_key env k (obj, tag) \<Longrightarrow> lookup_key env k (by_data self) = Some td"
    using lookup_key_cong [of env k "(obj, tag)"] by simp
  then show ?thesis
    using Some entries_found [OF Some, of k]
    by (simp add: track_entry_def tracked_map_of_def lookup_key_update td_priority_def)
qed

lemma entries_track_untrack_other:
  "tracked_map_of env (fst (track_untrack_other env self obj tag untrack)) k =
    (if untrack \<noteq> None \<and> the untrack \<noteq> tag \<and> same_key env k (obj, the untrack) then None else tracked_map_of env self k)"
  using entries_not_found [of env self obj "the untrack" k] entries_found [of env self obj "the untrack" _ k]
  by (auto simp: track_untrack_other_def entries_untrack split: option.splits)

lemma fst_track:
  "track_obj_allowed obj \<Longrightarrow> fst (nmp_global_tracker_track env self obj prio tag untrack) =
     fst (track_untrack_other env
       (fst (track_entry env self obj (nat \<bar>prio\<bar>) (prio \<ge> 0) tag)) obj tag untrack)"
  by (cases "prio \<ge> 0") (simp_all add: nmp_global_tracker_track_def Let_def case_prod_beta)

lemma entries_track:
  "tracked_map_of env (fst (nmp_global_tracker_track env self obj prio tag untrack)) =
     spec_track env obj prio tag untrack (tracked_map_of env self)"
proof (cases "track_obj_allowed obj")
  case True
  show ?thesis
  proof
    fix k
    have "the untrack \<noteq> tag" if "same_key env k (obj, the untrack)" "\<not> same_key env k (obj, tag)"
      using that by auto
    moreover have "\<not> same_key env k (obj, tag)" if "same_key env k (obj, the untrack)" "the untrack \<noteq> tag"
      using that same_key_tag [of env k "(obj, the untrack)"] same_key_tag [of env k "(obj, tag)"] by auto
    moreover have "(if 0 \<le> prio then int (nat \<bar>prio\<bar>) else - int (nat \<bar>prio\<bar>)) = prio" by simp
    ultimately show "tracked_map_of env (fst (nmp_global_tracker_track env self obj prio tag untrack)) k =
        spec_track env obj prio tag untrack (tracked_map_of env self) k"
      using True by (auto simp: fst_track entries_track_untrack_other entries_track_entry spec_track_def)
  qed
next
  case False
  then show ?thesis by (simp add: nmp_global_tracker_track_def spec_track_def fun_eq_iff)
qed

lemma entries_untrack_op:
  "tracked_map_of env (fst (nmp_global_tracker_untrack env self obj tag)) = spec_untrack env obj tag (tracked_map_of env self)"
proof
  fix k
  show "tracked_map_of env (fst (nmp_global_tracker_untrack env self obj tag)) k = spec_untrack env obj tag (tracked_map_of env self) k"
  proof (cases "track_data_lookup env (by_data self) obj tag")
    case None
    then show ?thesis using entries_not_found [OF None, of k]
      by (auto simp: nmp_global_tracker_untrack_def spec_untrack_def)
  next
    case (Some td)
    then show ?thesis using entries_found [OF Some, of k]
      by (simp add: nmp_global_tracker_untrack_def spec_untrack_def entries_untrack)
  qed
qed

lemma lookup_key_map_tag:
  assumes "\<And>x. td_key (f x) = td_key x"
  shows "lookup_key env k (map (\<lambda>x. if td_user_tag x = tag then f x else x) data) =
    (if snd k = tag then map_option f (lookup_key env k data) else lookup_key env k data)"
proof (induction data)
  case (Cons x xs)
  show ?case
  proof (cases "same_key env (td_key x) k")
    case True
    then show ?thesis using same_key_tag [OF True] assms [of x] by auto
  next
    case False
    then show ?thesis using Cons assms [of x] by auto
  qed
qed simp

lemma td_priority_dirty [simp]: "td_priority (td\<lparr>td_dirty := d\<rparr>) = td_priority td"
  by (simp add: td_priority_def)

lemma entries_unknown_tag:
  assumes "tracker_inv env self" "tag \<notin> set (by_user_tag self)" "snd k = tag"
  shows "tracked_map_of env self k = None"
proof -
  have "\<not> same_key env (td_key td) k" if "td \<in> set (by_data self)" for td
    using assms that same_key_tag [of env "td_key td" k] by (auto simp: tracker_inv_def)
  then show ?thesis by (simp add: tracked_map_of_def find_None_iff)
qed

lemma entries_set_dirty:
  assumes "tracker_inv env self"
  shows "tracked_map_of env (nmp_global_tracker_set_dirty self tag) = spec_set_dirty tag (tracked_map_of env self)"
proof
  fix k
  show "tracked_map_of env (nmp_global_tracker_set_dirty self tag) k = spec_set_dirty tag (tracked_map_of env self) k"
    using entries_unknown_tag [OF assms, of tag k]
    by (auto simp: nmp_global_tracker_set_dirty_def spec_set_dirty_def tracked_map_of_def lookup_key_map_tag
        option.map_comp comp_def)
qed


lemma entries_mark_dirty:
  "tracked_map_of env (self\<lparr>by_data := map (\<lambda>x. if same_key env (td_key x) k0 then x\<lparr>td_dirty := True\<rparr> else x) (by_data self)\<rparr>) k =
    (if same_key env k k0 then map_option (\<lambda>(p, _). (p, True)) (tracked_map_of env self k) else tracked_map_of env self k)"
  by (simp add: tracked_map_of_def lookup_key_update option.map_comp comp_def)

text \<open>The loop of \<open>nmp_global_tracker_untrack_all\<close> over entries with pairwise different keys.\<close>

lemma entries_untrack_all_loop:
  assumes "sorted_wrt (\<lambda>a b. \<not> same_key env (td_key a) (td_key b)) tds"
  shows "tracked_map_of env (fst (untrack_all_loop env all_tds md tds (self, ch))) k =
    (case lookup_key env k tds of
       None \<Rightarrow> tracked_map_of env self k
     | Some td \<Rightarrow>
         if all_tds \<or> td_dirty td then None
         else if md then map_option (\<lambda>(p, _). (p, True)) (tracked_map_of env self k) else tracked_map_of env self k)"
  using assms
proof (induction tds arbitrary: self ch all_tds md)
  case (Cons td tds)
  have other: "lookup_key env k tds = None" if "same_key env (td_key td) k"
  proof -
    have "\<not> same_key env (td_key x) k" if x: "x \<in> set tds" for x
    proof
      assume "same_key env (td_key x) k"
      then have "same_key env (td_key td) (td_key x)"
        using \<open>same_key env (td_key td) k\<close>
          same_key_sym [of env "td_key x" k] same_key_trans [of env "td_key td" k "td_key x"] by blast
      then show False using Cons.prems x by simp
    qed
    then show ?thesis by (simp add: find_None_iff)
  qed
  show ?case
    using Cons.prems same_key_sym [of env k "td_key td"] other
    by (auto simp: Cons.IH entries_untrack entries_mark_dirty split: option.splits)
qed simp

lemma lookup_user_tag_lst:
  "lookup_key env k (user_tag_lst data tag) = (if snd k = tag then lookup_key env k data else None)"
proof (induction data)
  case (Cons x xs)
  then show ?case using same_key_tag [of env "td_key x" k] by (auto simp: user_tag_lst_def)
qed (simp add: user_tag_lst_def)

lemma entries_untrack_all:
  assumes "tracker_inv env self"
  shows "tracked_map_of env (fst (nmp_global_tracker_untrack_all env self tag all_tds md)) =
    spec_untrack_all tag all_tds md (tracked_map_of env self)"
proof
  fix k
  have keys: "sorted_wrt (\<lambda>a b. \<not> same_key env (td_key a) (td_key b)) (user_tag_lst (by_data self) tag)"
    using assms by (simp add: tracker_inv_def user_tag_lst_def sorted_wrt_filter)
  have tag: "tracked_map_of env (s\<lparr>by_user_tag := x\<rparr>) k = tracked_map_of env s k" for s x by (simp add: tracked_map_of_def)
  show "tracked_map_of env (fst (nmp_global_tracker_untrack_all env self tag all_tds md)) k =
      spec_untrack_all tag all_tds md (tracked_map_of env self) k"
  proof (cases "tag \<in> set (by_user_tag self)")
    case True
    then have "tracked_map_of env (fst (nmp_global_tracker_untrack_all env self tag all_tds md)) k =
        tracked_map_of env (fst (untrack_all_loop env all_tds md (user_tag_lst (by_data self) tag) (self, False))) k"
      by (simp add: nmp_global_tracker_untrack_all_def Let_def case_prod_beta tag)
    also have "\<dots> = spec_untrack_all tag all_tds md (tracked_map_of env self) k"
      unfolding entries_untrack_all_loop [OF keys] lookup_user_tag_lst
      by (auto simp: spec_untrack_all_def tracked_map_of_def split: option.splits)
    finally show ?thesis .
  next
    case False
    then show ?thesis using entries_unknown_tag [OF assms False, of k]
      by (auto simp: nmp_global_tracker_untrack_all_def spec_untrack_all_def)
  qed
qed

section \<open>Every operation keeps the invariant\<close>

text \<open>The invariant speaks of the data only through the keys and the priorities.\<close>

lemma sorted_wrt_map_key:
  assumes "\<And>x. td_key (f x) = td_key x"
  shows "sorted_wrt (\<lambda>a b. \<not> same_key env (td_key a) (td_key b)) (map f data) \<longleftrightarrow>
    sorted_wrt (\<lambda>a b. \<not> same_key env (td_key a) (td_key b)) data"
  using assms by (simp add: sorted_wrt_map)

lemma obj_lst_map_key:
  assumes "\<And>x. td_key (f x) = td_key x"
  shows "obj_lst env (map f data) obj = map f (obj_lst env data obj)"
  using assms by (induction data) (auto simp: obj_lst_def)

lemma tracker_inv_map:
  assumes inv: "tracker_inv env self" and key: "\<And>x. td_key (f x) = td_key x"
    and prio: "\<And>x. x \<in> set (by_data self) \<Longrightarrow> td_track_priority_val (f x) = 0 \<Longrightarrow> td_track_priority_present (f x)"
  shows "tracker_inv env (self\<lparr>by_data := map f (by_data self)\<rparr>)"
proof -
  have k: "td_obj (f x) = td_obj x" "td_user_tag (f x) = td_user_tag x" for x using key [of x] by simp_all
  show ?thesis
    using inv prio by (simp add: tracker_inv_def sorted_wrt_map obj_lst_map_key [OF key] k)
qed

lemma obj_lst_append: "obj_lst env (xs @ ys) obj = obj_lst env xs obj @ obj_lst env ys obj"
  by (simp add: obj_lst_def)

lemma obj_data_lookup_None:
  "obj_data_lookup env objs obj = None \<longleftrightarrow> (\<forall>od\<in>set objs. \<not> nmp_object_id_equal env (tod_obj od) obj)"
  by (auto simp: obj_data_lookup_def find_None_iff)

lemma obj_data_lookup_Some:
  "obj_data_lookup env objs obj = Some od \<Longrightarrow> od \<in> set objs \<and> nmp_object_id_equal env (tod_obj od) obj"
  by (auto simp: obj_data_lookup_def find_Some_iff)

lemma track_entry_inv:
  assumes inv: "tracker_inv env self" and "track_obj_allowed obj" "val = 0 \<Longrightarrow> present"
  shows "tracker_inv env (fst (track_entry env self obj val present tag))"
proof (cases "track_data_lookup env (by_data self) obj tag")
  case None
  then have new: "\<not> same_key env (td_key x) (obj, tag)" if "x \<in> set (by_data self)" for x
    using that by (auto simp: track_data_lookup_def find_None_iff)
  have objs: "\<exists>od\<in>set (by_obj (fst (track_entry env self obj val present tag))). nmp_object_id_equal env (tod_obj od) obj"
    using None obj_data_lookup_Some [of env "by_obj self" obj] by (auto simp: track_entry_def split: option.splits)
  show ?thesis
    using inv None new assms(2,3) objs
    by (cases "obj_data_lookup env (by_obj self) obj")
      (auto simp: tracker_inv_def track_entry_def sorted_wrt_append obj_lst_append obj_data_lookup_None obj_lst_def
        split: option.splits)
next
  case (Some td)
  have "tracker_inv env (self\<lparr>by_data := map (\<lambda>x. if same_key env (td_key x) (td_key td)
      then x\<lparr>td_dirty := False, td_track_priority_val := val, td_track_priority_present := present\<rparr> else x) (by_data self)\<rparr>)"
    using inv assms(3) by (intro tracker_inv_map) (auto simp: tracker_inv_def)
  then show ?thesis using Some by (simp add: track_entry_def)
qed

text \<open>Two entries of an object: at least one is not the one that is removed.\<close>

lemma obj_lst_remove:
  assumes "sorted_wrt (\<lambda>a b. \<not> same_key env (td_key a) (td_key b)) data" "1 < length (obj_lst env data obj)"
  shows "obj_lst env (filter (\<lambda>x. \<not> same_key env (td_key x) k) data) obj \<noteq> []"
proof -
  have s: "sorted_wrt (\<lambda>a b. \<not> same_key env (td_key a) (td_key b)) (obj_lst env data obj)"
    using assms(1) by (simp add: obj_lst_def sorted_wrt_filter)
  obtain x y rest where l: "obj_lst env data obj = x # y # rest"
    using assms(2) by (cases "obj_lst env data obj"; cases "tl (obj_lst env data obj)") auto
  then have "\<not> same_key env (td_key x) (td_key y)" using s by simp
  then have "\<not> same_key env (td_key x) k \<or> \<not> same_key env (td_key y) k"
    using same_key_trans [of env "td_key x" k "td_key y"] same_key_sym [of env k "td_key y"] by blast
  moreover have "x \<in> set (obj_lst env data obj)" "y \<in> set (obj_lst env data obj)" by (simp_all add: l)
  ultimately show ?thesis by (auto simp: obj_lst_def filter_empty_conv)
qed

lemma obj_lst_cong: "nmp_object_id_equal env a b \<Longrightarrow> obj_lst env data a = obj_lst env data b"
  unfolding obj_lst_def track_obj_data_equal_id using oid.id_cong(2) by (intro filter_cong refl) blast


lemma two_elements: "x \<in> set xs \<Longrightarrow> y \<in> set xs \<Longrightarrow> x \<noteq> y \<Longrightarrow> 1 < length xs"
  by (cases xs; cases "tl xs") auto

lemma sorted_wrt_unique:
  assumes "sorted_wrt (\<lambda>a b. \<not> nmp_object_id_equal env (tod_obj a) (tod_obj b)) objs" "a \<in> set objs" "b \<in> set objs"
    "nmp_object_id_equal env (tod_obj a) obj" "nmp_object_id_equal env (tod_obj b) obj"
  shows "a = b"
proof -
  have "nmp_object_id_equal env (tod_obj a) (tod_obj b)" "nmp_object_id_equal env (tod_obj b) (tod_obj a)"
    using assms(4,5) oid.id_sym oid.id_trans by blast+
  then show ?thesis using assms(1-3) by (induction objs) auto
qed

text \<open>The table of objects after an entry of \<open>obj\<close> is gone.\<close>

definition drop_obj_data :: "object_env \<Rightarrow> TrackData list \<Rightarrow> NMPObject \<Rightarrow> TrackObjData list \<Rightarrow> TrackObjData list" where
  "drop_obj_data env data obj objs =
     (case obj_data_lookup env objs obj of
        None \<Rightarrow> objs
      | Some od \<Rightarrow>
          if tod_config_state od = CONFIG_STATE_NONE \<and> length (obj_lst env data obj) \<le> 1
          then filter (\<lambda>od. \<not> nmp_object_id_equal env (tod_obj od) obj) objs else objs)"

definition own_obj_data :: "object_env \<Rightarrow> NMPObject \<Rightarrow> TrackObjData list \<Rightarrow> TrackObjData list" where
  "own_obj_data env obj =
     obj_data_update env obj (\<lambda>od. if tod_config_state od = CONFIG_STATE_NONE
       then od\<lparr>tod_config_state := CONFIG_STATE_OWNED_BY_US\<rparr> else od)"

lemma track_data_untrack_eq:
  "track_data_untrack env self td r m =
     self\<lparr>by_data := filter (\<lambda>x. \<not> same_key env (td_key x) (td_key td)) (by_data self),
          by_obj := drop_obj_data env (by_data self) (td_obj td)
            (if m then own_obj_data env (td_obj td) (by_obj self) else by_obj self),
          by_user_tag := (if \<not> m \<and> r \<and> length (user_tag_lst (by_data self) (td_user_tag td)) \<le> 1
             then removeAll (td_user_tag td) (by_user_tag self) else by_user_tag self)\<rparr>"
  unfolding track_data_untrack_def drop_obj_data_def own_obj_data_def Let_def track_obj_data_equal_id
  by (cases m) simp_all

text \<open>The parts of the invariant on the two tables of objects and data.\<close>

definition objs_ok :: "object_env \<Rightarrow> TrackData list \<Rightarrow> TrackObjData list \<Rightarrow> bool" where
  "objs_ok env data objs \<longleftrightarrow>
     sorted_wrt (\<lambda>a b. \<not> nmp_object_id_equal env (tod_obj a) (tod_obj b)) objs \<and>
     (\<forall>td\<in>set data. \<exists>od\<in>set objs. nmp_object_id_equal env (tod_obj od) (td_obj td)) \<and>
     (\<forall>od\<in>set objs. tod_config_state od = CONFIG_STATE_NONE \<longrightarrow> obj_lst env data (tod_obj od) \<noteq> []) \<and>
     (\<forall>od\<in>set objs. track_obj_allowed (tod_obj od))"

lemma objs_ok_map:
  assumes ok: "objs_ok env data objs"
    and id: "\<And>od. od \<in> set objs \<Longrightarrow> nmp_object_id_equal env (tod_obj (f od)) (tod_obj od)"
    and none: "\<And>od. od \<in> set objs \<Longrightarrow> tod_config_state (f od) = CONFIG_STATE_NONE \<Longrightarrow>
      obj_lst env data (tod_obj od) \<noteq> []"
  shows "objs_ok env data (map f objs)"
proof -
  have same: "nmp_object_id_equal env (tod_obj (f a)) b \<longleftrightarrow> nmp_object_id_equal env (tod_obj a) b"
    "nmp_object_id_equal env b (tod_obj (f a)) \<longleftrightarrow> nmp_object_id_equal env b (tod_obj a)" if "a \<in> set objs" for a b
    using oid.id_cong [OF id [OF that]] by auto
  have "sorted_wrt (\<lambda>a b. \<not> nmp_object_id_equal env (tod_obj (f a)) (tod_obj (f b))) objs"
    by (rule sorted_wrt_mono_rel [of objs "\<lambda>a b. \<not> nmp_object_id_equal env (tod_obj a) (tod_obj b)"])
      (use ok same in \<open>simp_all add: objs_ok_def\<close>)
  moreover have "\<exists>od\<in>set (map f objs). nmp_object_id_equal env (tod_obj od) (td_obj td)" if "td \<in> set data" for td
    using ok that same(1) by (fastforce simp: objs_ok_def)
  moreover have "obj_lst env data (tod_obj od) \<noteq> []"
    if "od \<in> set (map f objs)" "tod_config_state od = CONFIG_STATE_NONE" for od
    using that none obj_lst_cong [OF id] by auto
  moreover have "track_obj_allowed (tod_obj od)" if "od \<in> set (map f objs)" for od
    using that ok id_equal_allowed [OF id] by (auto simp: objs_ok_def)
  ultimately show ?thesis unfolding objs_ok_def by (simp add: sorted_wrt_map)
qed

lemma own_obj_data_ok:
  assumes "objs_ok env data objs"
  shows "objs_ok env data (own_obj_data env obj objs)"
  unfolding own_obj_data_def obj_data_update_def
  by (rule objs_ok_map [OF assms]) (use assms in \<open>auto simp: objs_ok_def split: if_splits\<close>)

lemma drop_obj_data_ok:
  assumes ok: "objs_ok env data objs" and td: "td \<in> set data"
    and keys: "sorted_wrt (\<lambda>a b. \<not> same_key env (td_key a) (td_key b)) data"
  shows "objs_ok env (filter (\<lambda>x. \<not> same_key env (td_key x) (td_key td)) data)
    (drop_obj_data env data (td_obj td) objs)"
proof -
  let ?d = "filter (\<lambda>x. \<not> same_key env (td_key x) (td_key td)) data" and ?o = "td_obj td"
  let ?objs = "drop_obj_data env data ?o objs"
  have ids: "sorted_wrt (\<lambda>a b. \<not> nmp_object_id_equal env (tod_obj a) (tod_obj b)) objs"
    using ok by (simp add: objs_ok_def)
  have sub: "set ?objs \<subseteq> set objs" by (auto simp: drop_obj_data_def split: option.splits if_splits)
  have other: "1 < length (obj_lst env data ?o)"
    if "x \<in> set ?d" "nmp_object_id_equal env (td_obj x) ?o" for x
    using that td by (intro two_elements [of x _ td]) (auto simp: obj_lst_def)
  have "\<exists>od\<in>set ?objs. nmp_object_id_equal env (tod_obj od) (td_obj x)" if x: "x \<in> set ?d" for x
  proof -
    obtain od where od: "od \<in> set objs" "nmp_object_id_equal env (tod_obj od) (td_obj x)"
      using ok x by (auto simp: objs_ok_def)
    have "od \<in> set ?objs"
    proof (cases "nmp_object_id_equal env (tod_obj od) ?o")
      case True
      then have "nmp_object_id_equal env (td_obj x) ?o" using od(2) oid.id_sym oid.id_trans by blast
      then show ?thesis using other [OF x] od(1) by (simp add: drop_obj_data_def split: option.split)
    next
      case False
      then show ?thesis using od(1) by (auto simp: drop_obj_data_def split: option.splits)
    qed
    then show ?thesis using od(2) by blast
  qed
  moreover have "obj_lst env ?d (tod_obj od) \<noteq> []"
    if od: "od \<in> set ?objs" "tod_config_state od = CONFIG_STATE_NONE" for od
  proof (cases "nmp_object_id_equal env (tod_obj od) ?o")
    case True
    obtain od' where od': "obj_data_lookup env objs ?o = Some od'"
      using True od(1) sub obj_data_lookup_None by (cases "obj_data_lookup env objs ?o") blast+
    then have "od' = od"
      using sorted_wrt_unique [OF ids, of od' od ?o] obj_data_lookup_Some [OF od'] od(1) sub True by blast
    then have "1 < length (obj_lst env data ?o)"
      using od od' True by (auto simp: drop_obj_data_def split: if_splits)
    then show ?thesis using obj_lst_remove [OF keys] obj_lst_cong [OF True] by simp
  next
    case False
    obtain x where x: "x \<in> set data" "nmp_object_id_equal env (td_obj x) (tod_obj od)"
      using ok od sub by (fastforce simp: objs_ok_def obj_lst_def filter_empty_conv)
    have "\<not> same_key env (td_key x) (td_key td)"
      using False oid.id_cong(1) [OF x(2), of ?o] same_key_id [of env "td_key x" "td_key td"] by auto
    then show ?thesis using x by (auto simp: obj_lst_def filter_empty_conv)
  qed
  moreover have "sorted_wrt (\<lambda>a b. \<not> nmp_object_id_equal env (tod_obj a) (tod_obj b)) ?objs"
    using ids by (auto simp: drop_obj_data_def sorted_wrt_filter split: option.split)
  moreover have "\<forall>od\<in>set ?objs. track_obj_allowed (tod_obj od)" using ok sub by (auto simp: objs_ok_def)
  ultimately show ?thesis unfolding objs_ok_def by blast
qed

lemma tracker_inv_objs:
  "tracker_inv env self \<longleftrightarrow>
     sorted_wrt (\<lambda>a b. \<not> same_key env (td_key a) (td_key b)) (by_data self) \<and>
     objs_ok env (by_data self) (by_obj self) \<and>
     (\<forall>td\<in>set (by_data self). td_user_tag td \<in> set (by_user_tag self) \<and>
        (td_track_priority_val td = 0 \<longrightarrow> td_track_priority_present td) \<and> track_obj_allowed (td_obj td))"
  unfolding tracker_inv_def objs_ok_def by blast

lemma untrack_inv:
  assumes inv: "tracker_inv env self" and td: "td \<in> set (by_data self)"
  shows "tracker_inv env (track_data_untrack env self td r m)"
proof -
  have keys: "sorted_wrt (\<lambda>a b. \<not> same_key env (td_key a) (td_key b)) (by_data self)"
    and ok: "objs_ok env (by_data self) (by_obj self)" using inv by (simp_all add: tracker_inv_objs)
  have "objs_ok env (by_data self) (if m then own_obj_data env (td_obj td) (by_obj self) else by_obj self)"
    using ok own_obj_data_ok by simp
  note objs = drop_obj_data_ok [OF this td keys]
  have tags: "1 < length (user_tag_lst (by_data self) (td_user_tag td))"
    if "x \<in> set (by_data self)" "\<not> same_key env (td_key x) (td_key td)" "td_user_tag x = td_user_tag td" for x
    using that td by (intro two_elements [of x _ td]) (auto simp: user_tag_lst_def)
  show ?thesis
    using inv objs tags unfolding tracker_inv_objs track_data_untrack_eq
    by (fastforce simp: sorted_wrt_filter)
qed

lemma lookup_in_data: "track_data_lookup env data obj tag = Some td \<Longrightarrow> td \<in> set data"
  by (auto simp: track_data_lookup_def find_Some_iff)

lemma track_inv:
  assumes "tracker_inv env self"
  shows "tracker_inv env (fst (nmp_global_tracker_track env self obj prio tag untrack))"
proof (cases "track_obj_allowed obj")
  case True
  let ?s = "fst (track_entry env self obj (nat \<bar>prio\<bar>) (prio \<ge> 0) tag)"
  have "tracker_inv env ?s" using assms True by (intro track_entry_inv) auto
  then have "tracker_inv env (fst (track_untrack_other env ?s obj tag untrack))"
    by (auto simp: track_untrack_other_def intro: untrack_inv lookup_in_data split: option.splits)
  then show ?thesis by (simp add: fst_track [OF True])
qed (simp add: assms nmp_global_tracker_track_def)

lemma untrack_op_inv:
  "tracker_inv env self \<Longrightarrow> tracker_inv env (fst (nmp_global_tracker_untrack env self obj tag))"
  by (auto simp: nmp_global_tracker_untrack_def intro: untrack_inv lookup_in_data split: option.splits)

lemma mark_dirty_inv:
  assumes "tracker_inv env self"
  shows "tracker_inv env (self\<lparr>by_data := map (\<lambda>x. if P x then x\<lparr>td_dirty := True\<rparr> else x) (by_data self)\<rparr>)"
proof (rule tracker_inv_map [OF assms])
  fix x
  assume "x \<in> set (by_data self)"
  then have "td_track_priority_val x = 0 \<longrightarrow> td_track_priority_present x" using assms by (simp add: tracker_inv_def)
  then show "td_track_priority_val (if P x then x\<lparr>td_dirty := True\<rparr> else x) = 0 \<Longrightarrow>
      td_track_priority_present (if P x then x\<lparr>td_dirty := True\<rparr> else x)"
    by (simp split: if_splits)
qed simp

lemma set_dirty_inv:
  "tracker_inv env self \<Longrightarrow> tracker_inv env (nmp_global_tracker_set_dirty self tag)"
  by (simp add: nmp_global_tracker_set_dirty_def mark_dirty_inv)

text \<open>
  The entries the loop still has to visit stay in the table while it runs, up to their dirty mark.
\<close>

definition same_entry :: "TrackData \<Rightarrow> TrackData \<Rightarrow> bool" where
  "same_entry a b \<longleftrightarrow> td_key a = td_key b"

lemma untrack_same_entry:
  assumes "same_entry x y"
  shows "track_data_untrack env self x r m = track_data_untrack env self y r m"
  using assms by (simp add: track_data_untrack_def same_entry_def)

lemma untrack_all_loop_inv:
  assumes "tracker_inv env self" "sorted_wrt (\<lambda>a b. \<not> same_key env (td_key a) (td_key b)) tds"
    "\<forall>td\<in>set tds. \<exists>x\<in>set (by_data self). same_entry x td"
  shows "tracker_inv env (fst (untrack_all_loop env all_tds md tds (self, ch)))"
  using assms
proof (induction tds arbitrary: self ch)
  case (Cons td tds)
  obtain x where x: "x \<in> set (by_data self)" "same_entry x td" using Cons.prems(3) by auto
  let ?u = "track_data_untrack env self td False False"
  let ?f = "\<lambda>x. if same_key env (td_key x) (td_key td) then x\<lparr>td_dirty := True\<rparr> else x"
  have "tracker_inv env ?u"
    using untrack_inv [OF Cons.prems(1) x(1), of False False] unfolding untrack_same_entry [OF x(2)] .
  moreover have "\<exists>x\<in>set (by_data ?u). same_entry x y" if y: "y \<in> set tds" for y
  proof -
    obtain z where z: "z \<in> set (by_data self)" "same_entry z y" using Cons.prems(3) y by auto
    moreover have "\<not> same_key env (td_key td) (td_key y)" using Cons.prems(2) y by simp
    ultimately have "\<not> same_key env (td_key z) (td_key td)"
      using same_key_sym [of env "td_key td"] by (simp add: same_entry_def)
    then show ?thesis using z by (auto simp: untrack_by_data)
  qed
  moreover have "tracker_inv env (self\<lparr>by_data := map ?f (by_data self)\<rparr>)"
    by (rule mark_dirty_inv [OF Cons.prems(1)])
  moreover have "\<exists>x\<in>set (by_data (self\<lparr>by_data := map ?f (by_data self)\<rparr>)). same_entry x y" if y: "y \<in> set tds" for y
  proof -
    obtain z where z: "z \<in> set (by_data self)" "same_entry z y" using Cons.prems(3) y by auto
    then have "?f z \<in> set (map ?f (by_data self))" "same_entry (?f z) y" by (simp_all add: same_entry_def)
    then have "\<exists>x\<in>set (map ?f (by_data self)). same_entry x y" by (rule bexI [rotated])
    then show ?thesis by simp
  qed
  moreover have "sorted_wrt (\<lambda>a b. \<not> same_key env (td_key a) (td_key b)) tds" using Cons.prems(2) by simp
  ultimately have "tracker_inv env (fst (untrack_all_loop env all_tds md tds (?u, True)))"
    "tracker_inv env (fst (untrack_all_loop env all_tds md tds (self\<lparr>by_data := map ?f (by_data self)\<rparr>, ch)))"
    "tracker_inv env (fst (untrack_all_loop env all_tds md tds (self, ch)))"
    using Cons.prems(1,3) by (intro Cons.IH; simp only: list.set ball_simps; blast)+
  then show ?case unfolding untrack_all_loop.simps by (cases "all_tds \<or> td_dirty td"; cases md) (simp_all only: if_True if_False)
qed simp

lemma by_user_tag_inv:
  assumes "tracker_inv env self" "user_tag_lst (by_data self) tag = []"
  shows "tracker_inv env (self\<lparr>by_user_tag := removeAll tag (by_user_tag self)\<rparr>)"
  using assms by (auto simp: tracker_inv_def user_tag_lst_def filter_empty_conv)

lemma untrack_all_inv:
  assumes "tracker_inv env self"
  shows "tracker_inv env (fst (nmp_global_tracker_untrack_all env self tag all_tds md))"
proof -
  have "tracker_inv env (fst (untrack_all_loop env all_tds md (user_tag_lst (by_data self) tag) (self, False)))"
    using assms by (intro untrack_all_loop_inv)
      (auto simp: user_tag_lst_def tracker_inv_def same_entry_def sorted_wrt_filter)
  then show ?thesis
    using assms by_user_tag_inv by (simp add: nmp_global_tracker_untrack_all_def Let_def case_prod_beta)
qed

section \<open>The winning entry\<close>

text \<open>
  The order the loop looks for: a higher value first, and present before absent; of equal entries the
  one that was tracked first.
\<close>

definition td_rank :: "TrackData \<Rightarrow> nat" where
  "td_rank td = 2 * td_track_priority_val td + (if td_track_priority_present td then 1 else 0)"

lemma get_best_loop_rank:
  "get_best_data_loop (x # xs) (Some b) =
    (if td_rank b \<ge> td_rank x then get_best_data_loop xs (Some b) else get_best_data_loop xs (Some x))"
  by (auto simp: td_rank_def)

definition first_max :: "TrackData list \<Rightarrow> TrackData option" where
  "first_max tds = find (\<lambda>td. \<forall>x\<in>set tds. td_rank x \<le> td_rank td) tds"

lemma get_best_loop_first_max: "get_best_data_loop xs (Some b) = first_max (b # xs)"
proof (induction xs arbitrary: b)
  case (Cons x xs)
  show ?case
  proof (cases "td_rank b \<ge> td_rank x")
    case True
    have "first_max (b # x # xs) = first_max (b # xs)"
    proof (cases "\<forall>y\<in>set xs. td_rank y \<le> td_rank b")
      case False
      then have "\<not> (\<forall>y\<in>set xs. td_rank y \<le> td_rank x)" using True by force
      moreover have "td_rank x \<le> td_rank z" if "td_rank b \<le> td_rank z" for z using that True by simp
      ultimately show ?thesis
        using False True unfolding first_max_def by (auto intro!: arg_cong2 [where f = find])
    qed (simp add: first_max_def True)
    then show ?thesis using Cons True by (simp only: get_best_loop_rank simp_thms if_True)
  next
    case False
    have "first_max (b # x # xs) = first_max (x # xs)"
    proof -
      have "(\<forall>y\<in>set (b # x # xs). td_rank y \<le> td_rank z) \<longleftrightarrow> (\<forall>y\<in>set (x # xs). td_rank y \<le> td_rank z)" for z
        using False by auto
      then show ?thesis using False unfolding first_max_def by simp
    qed
    then show ?thesis using Cons False by (simp only: get_best_loop_rank simp_thms if_False)
  qed
qed (simp add: first_max_def)

lemma get_best_first_max: "get_best_data_loop tds None = first_max tds"
  by (cases tds) (simp_all add: get_best_loop_first_max, simp add: first_max_def)

end
