(* ===== verification/NM_Tracker_Sync.thy ===== *)
theory NM_Tracker_Sync
  imports NM_Global_Tracker
begin

text \<open>
  The sync of the global tracker (\<^verbatim>\<open>nmp_global_tracker_sync\<close>): it keeps the invariant of the tables, and
  with a kernel that executes the requests it does to every identity what the winning entry says.
\<close>

section \<open>Sync\<close>

text \<open>The winning entry of the identity of an object.\<close>

abbreviation best :: "object_env \<Rightarrow> TrackData list \<Rightarrow> NMPObject \<Rightarrow> TrackData option" where
  "best env data obj \<equiv> get_best_data_loop (obj_lst env data obj) None"

lemma best_cong: "nmp_object_id_equal env a b \<Longrightarrow> best env data a = best env data b"
  using obj_lst_cong [of env a b data] by simp

lemma first_max_Some: "first_max tds = Some td \<Longrightarrow> td \<in> set tds"
  by (auto simp: first_max_def find_Some_iff)

lemma first_max_None: "first_max tds = None \<longleftrightarrow> tds = []"
proof
  assume n: "first_max tds = None"
  show "tds = []"
  proof (rule ccontr)
    assume "tds \<noteq> []"
    then obtain td where "td \<in> set tds" "td_rank td = Max (td_rank ` set tds)"
      using Max_in [of "td_rank ` set tds"] by fastforce
    then show False using n by (auto simp: first_max_def find_None_iff)
  qed
qed (simp add: first_max_def)

lemma best_Some: "best env data obj = Some td \<Longrightarrow> td \<in> set data \<and> nmp_object_id_equal env (td_obj td) obj"
  unfolding get_best_first_max using first_max_Some by (fastforce simp: obj_lst_def)

lemma best_None: "best env data obj = None \<longleftrightarrow> obj_lst env data obj = []"
  by (simp add: get_best_first_max first_max_None)

lemma get_best_data_cases:
  "track_obj_data_get_best_data env data od =
     (best env data (tod_obj od), case best env data (tod_obj od) of None \<Rightarrow> od | Some td \<Rightarrow> od\<lparr>tod_obj := td_obj td\<rparr>)"
  by (simp add: track_obj_data_get_best_data_def split: option.split)

text \<open>What both loops keep of an entry: the identity, and no state \<open>NONE\<close> without a tracking user.\<close>

definition obj_data_kept :: "object_env \<Rightarrow> TrackData list \<Rightarrow> TrackObjData \<Rightarrow> TrackObjData \<Rightarrow> bool" where
  "obj_data_kept env data od od' \<longleftrightarrow>
     nmp_object_id_equal env (tod_obj od') (tod_obj od) \<and>
     (tod_config_state od' = CONFIG_STATE_NONE \<longrightarrow> obj_lst env data (tod_obj od) \<noteq> [] \<or> od' = od)"

lemma sync_platform_obj_kept: "obj_data_kept env data od (fst (sync_platform_obj env data keep od))"
proof (cases "best env data (tod_obj od)")
  case None
  then show ?thesis
    by (simp add: sync_platform_obj_def get_best_data_cases obj_data_kept_def)
next
  case (Some td)
  then have "nmp_object_id_equal env (td_obj td) (tod_obj od)" "obj_lst env data (tod_obj od) \<noteq> []"
    using best_Some [OF Some] best_None [of env data "tod_obj od"] by auto
  then show ?thesis using Some
    by (simp add: sync_platform_obj_def get_best_data_cases obj_data_kept_def)
qed

lemma sync_tracked_obj_None: "fst (sync_tracked_obj env kern data od cache) = None \<longleftrightarrow> obj_lst env data (tod_obj od) = []"
  unfolding best_None [symmetric]
  by (simp add: sync_tracked_obj_def get_best_data_cases Let_def split: option.split)

lemma sync_tracked_obj_kept:
  assumes "fst (sync_tracked_obj env kern data od cache) = Some od'"
  shows "obj_data_kept env data od od'"
proof -
  have "obj_lst env data (tod_obj od) \<noteq> []"
    using assms sync_tracked_obj_None [of env kern data od cache] by auto
  moreover from this obtain td where td: "best env data (tod_obj od) = Some td" using best_None by fastforce
  moreover have "nmp_object_id_equal env (td_obj td) (tod_obj od)" using best_Some [OF td] by simp
  ultimately show ?thesis using assms
    by (auto simp: sync_tracked_obj_def get_best_data_cases Let_def obj_data_kept_def
        split: option.splits if_splits)
qed

lemma objs_ok_unique:
  assumes "objs_ok env data objs" "obj_data_lookup env objs ob = Some od"
    "x \<in> set objs" "nmp_object_id_equal env (tod_obj x) ob"
  shows "x = od"
  using assms sorted_wrt_unique obj_data_lookup_Some unfolding objs_ok_def by blast

lemma sync_update_ok:
  assumes ok: "objs_ok env data objs" and od: "obj_data_lookup env objs plobj = Some od"
    and kept: "obj_data_kept env data od od'"
  shows "objs_ok env data (obj_data_update env plobj (\<lambda>_. od') objs)"
  unfolding obj_data_update_def track_obj_data_equal_id
proof (rule objs_ok_map [OF ok])
  fix x
  assume x: "x \<in> set objs"
  show "nmp_object_id_equal env (tod_obj (if nmp_object_id_equal env (tod_obj x) plobj then od' else x)) (tod_obj x)"
    using objs_ok_unique [OF ok od x] kept by (auto simp: obj_data_kept_def)
  assume "tod_config_state (if nmp_object_id_equal env (tod_obj x) plobj then od' else x) = CONFIG_STATE_NONE"
  then show "obj_lst env data (tod_obj x) \<noteq> []"
    using objs_ok_unique [OF ok od x] kept ok x by (auto simp: obj_data_kept_def objs_ok_def split: if_splits)
qed

lemma sync_platform_loop_ok:
  assumes "objs_ok env data objs"
  shows "objs_ok env data (fst (sync_platform_loop env data keep plobjs (objs, dels)))"
  using assms
proof (induction plobjs arbitrary: objs dels)
  case (Cons p plobjs)
  then show ?case
    using sync_update_ok [OF Cons.prems _ sync_platform_obj_kept]
    by (simp add: case_prod_beta split: option.split)
qed simp

lemma sync_tracked_loop_objs:
  "list_all2 (obj_data_kept env data)
     (filter (\<lambda>od. obj_type (tod_obj od) \<noteq> type \<or> obj_lst env data (tod_obj od) \<noteq> []) objs)
     (fst (sync_tracked_loop env kern data type objs cache))"
proof (induction objs arbitrary: cache)
  case (Cons od objs)
  show ?case
    using Cons sync_tracked_obj_None [of env kern data od cache] sync_tracked_obj_kept [of env kern data od cache]
    by (auto simp: case_prod_beta obj_data_kept_def split: option.splits)
qed simp

lemma list_all2_right: "list_all2 R xs ys \<Longrightarrow> y \<in> set ys \<Longrightarrow> \<exists>x\<in>set xs. R x y"
  by (induction rule: list_all2_induct) auto

lemma list_all2_left: "list_all2 R xs ys \<Longrightarrow> x \<in> set xs \<Longrightarrow> \<exists>y\<in>set ys. R x y"
  by (induction rule: list_all2_induct) auto

lemma objs_ok_kept:
  assumes ok: "objs_ok env data objs" and kept: "list_all2 (obj_data_kept env data) objs objs'"
  shows "objs_ok env data objs'"
proof -
  have same: "nmp_object_id_equal env (tod_obj x') (tod_obj y') \<longleftrightarrow> nmp_object_id_equal env (tod_obj x) (tod_obj y)"
    if "obj_data_kept env data x x'" "obj_data_kept env data y y'" for x x' y y'
    using that oid.id_cong [of env "tod_obj x'" "tod_obj x"] oid.id_cong [of env "tod_obj y'" "tod_obj y"]
    by (simp add: obj_data_kept_def)
  have "sorted_wrt (\<lambda>a b. \<not> nmp_object_id_equal env (tod_obj a) (tod_obj b)) objs'"
    using kept ok [unfolded objs_ok_def, THEN conjunct1]
  proof (induction rule: list_all2_induct)
    case (Cons x xs y ys)
    have "\<not> nmp_object_id_equal env (tod_obj y) (tod_obj z)" if "z \<in> set ys" for z
    proof -
      obtain w where "w \<in> set xs" "obj_data_kept env data w z"
        using list_all2_right [OF Cons.hyps(2)] \<open>z \<in> set ys\<close> by blast
      then show ?thesis using Cons.prems same [OF Cons.hyps(1), of w z] by simp
    qed
    then show ?case using Cons.IH Cons.prems by simp
  qed simp
  moreover have "\<exists>od\<in>set objs'. nmp_object_id_equal env (tod_obj od) (td_obj td)" if td: "td \<in> set data" for td
  proof -
    obtain od where od: "od \<in> set objs" "nmp_object_id_equal env (tod_obj od) (td_obj td)"
      using ok td by (auto simp: objs_ok_def)
    then obtain od' where "od' \<in> set objs'" "obj_data_kept env data od od'"
      using list_all2_left [OF kept] by blast
    then show ?thesis using od(2) oid.id_trans unfolding obj_data_kept_def by blast
  qed
  moreover have "obj_lst env data (tod_obj od') \<noteq> []"
    if od': "od' \<in> set objs'" "tod_config_state od' = CONFIG_STATE_NONE" for od'
  proof -
    obtain od where "od \<in> set objs" "obj_data_kept env data od od'"
      using list_all2_right [OF kept od'(1)] by blast
    then show ?thesis using ok od'(2) obj_lst_cong [of env "tod_obj od'" "tod_obj od"]
      by (auto simp: obj_data_kept_def objs_ok_def)
  qed
  moreover have "track_obj_allowed (tod_obj od')" if od': "od' \<in> set objs'" for od'
  proof -
    obtain od where "od \<in> set objs" "obj_data_kept env data od od'" using list_all2_right [OF kept od'] by blast
    then show ?thesis using ok id_equal_allowed [of env "tod_obj od'" "tod_obj od"]
      by (simp add: obj_data_kept_def objs_ok_def)
  qed
  ultimately show ?thesis unfolding objs_ok_def by blast
qed

lemma objs_ok_filter:
  assumes ok: "objs_ok env data objs"
    and keep: "\<And>od. od \<in> set objs \<Longrightarrow> \<not> P od \<Longrightarrow> obj_lst env data (tod_obj od) = []"
  shows "objs_ok env data (filter P objs)"
proof -
  have "P od" if "td \<in> set data" "od \<in> set objs" "nmp_object_id_equal env (tod_obj od) (td_obj td)" for td od
    using that keep [of od] oid.id_sym by (fastforce simp: obj_lst_def filter_empty_conv)
  then show ?thesis using ok unfolding objs_ok_def by (fastforce simp: sorted_wrt_filter)
qed

lemma sync_inv:
  assumes "tracker_inv env self"
  shows "tracker_inv env (fst (nmp_global_tracker_sync env kern self cache type keep))"
proof -
  let ?l = "sync_platform_loop env (by_data self) keep (platform_lookup type cache) (by_obj self, [])"
  have "objs_ok env (by_data self) (fst ?l)"
    using assms by (intro sync_platform_loop_ok) (simp add: tracker_inv_objs)
  then have "objs_ok env (by_data self)
      (filter (\<lambda>od. obj_type (tod_obj od) \<noteq> type \<or> obj_lst env (by_data self) (tod_obj od) \<noteq> []) (fst ?l))"
    by (rule objs_ok_filter) simp
  note ok = objs_ok_kept [OF this sync_tracked_loop_objs]
  show ?thesis
    using assms ok by (simp add: nmp_global_tracker_sync_def Let_def case_prod_beta tracker_inv_objs)
qed

section \<open>What a sync does to the platform\<close>

text \<open>
  The kernel as the sync relies on it: a delete removes the object of that identity and nothing else,
  and an add of an object whose identity is free creates it and nothing else.
\<close>

definition class_of :: "object_env \<Rightarrow> NMPObject \<Rightarrow> NMPObject list \<Rightarrow> NMPObject set" where
  "class_of env ob cache = {y \<in> set cache. nmp_object_id_equal env y ob}"

definition kernel_deletes :: "object_env \<Rightarrow> platform_kernel \<Rightarrow> bool" where
  "kernel_deletes env kern \<longleftrightarrow>
     (\<forall>x cache. set (kern (Object_delete x) cache) = {y \<in> set cache. \<not> nmp_object_id_equal env y x})"

definition kernel_adds :: "object_env \<Rightarrow> platform_kernel \<Rightarrow> bool" where
  "kernel_adds env kern \<longleftrightarrow>
     (\<forall>x cache. class_of env x cache = {} \<longrightarrow>
        (\<exists>y. nmp_object_id_equal env y x \<and> object_cmp_semantically env x y = 0 \<and>
             set (kern (Object_add x) cache) = insert y (set cache)))"

lemma class_of_cong: "nmp_object_id_equal env a b \<Longrightarrow> class_of env a cache = class_of env b cache"
  using oid.id_cong(2) [of env a b] by (simp add: class_of_def)

lemma class_of_delete:
  assumes "kernel_deletes env kern"
  shows "class_of env ob (kern (Object_delete x) cache) =
    (if nmp_object_id_equal env x ob then {} else class_of env ob cache)"
proof -
  have set: "set (kern (Object_delete x) cache) = {y \<in> set cache. \<not> nmp_object_id_equal env y x}"
    using assms by (simp add: kernel_deletes_def)
  show ?thesis
  proof (cases "nmp_object_id_equal env x ob")
    case True
    then show ?thesis using set oid.id_cong(2) [OF True] by (auto simp: class_of_def)
  next
    case False
    then have "\<not> nmp_object_id_equal env y x" if "nmp_object_id_equal env y ob" for y
      using that oid.id_cong(1) [of env y x ob] by blast
    then show ?thesis using set False by (auto simp: class_of_def)
  qed
qed

lemma kernel_addsE:
  assumes "kernel_adds env kern" "class_of env x cache = {}"
  obtains y where "nmp_object_id_equal env y x" "object_cmp_semantically env x y = 0"
    "set (kern (Object_add x) cache) = insert y (set cache)"
  using assms unfolding kernel_adds_def by blast

lemma class_of_add_other:
  assumes "kernel_adds env kern" "class_of env x cache = {}" "\<not> nmp_object_id_equal env x ob"
  shows "class_of env ob (kern (Object_add x) cache) = class_of env ob cache"
proof -
  obtain y where y: "nmp_object_id_equal env y x" "set (kern (Object_add x) cache) = insert y (set cache)"
    using kernel_addsE [OF assms(1,2)] by blast
  have "\<not> nmp_object_id_equal env y ob" using oid.id_cong(1) [OF y(1)] assms(3) by simp
  then show ?thesis using y(2) by (auto simp: class_of_def)
qed

lemma class_of_add:
  assumes "kernel_adds env kern" "class_of env x cache = {}" "nmp_object_id_equal env x ob"
  shows "\<exists>y\<in>class_of env ob (kern (Object_add x) cache). object_cmp_semantically env x y = 0"
proof -
  obtain y where y: "nmp_object_id_equal env y x" "object_cmp_semantically env x y = 0"
      "set (kern (Object_add x) cache) = insert y (set cache)"
    using kernel_addsE [OF assms(1,2)] by blast
  moreover have "nmp_object_id_equal env y ob" using oid.id_cong(2) [OF assms(3)] y(1) by simp
  ultimately show ?thesis by (auto simp: class_of_def)
qed

lemma class_of_deletes:
  assumes "kernel_deletes env kern"
  shows "class_of env ob (fold kern (map Object_delete xs) cache) =
    (if \<exists>x\<in>set xs. nmp_object_id_equal env x ob then {} else class_of env ob cache)"
  by (induction xs arbitrary: cache) (auto simp: class_of_delete [OF assms])

text \<open>
  What a sync owes to the objects of an identity: leave them, create one that is semantically equal
  to the tracked object, or remove them.
\<close>

datatype verdict = Leave | Ensure NMPObject | Remove

definition sync_verdict ::
    "object_env \<Rightarrow> NMPGlobalTracker \<Rightarrow> NMPObject list \<Rightarrow> NMPObjectType \<Rightarrow> bool \<Rightarrow> NMPObject \<Rightarrow> verdict" where
  "sync_verdict env self cache type keep_deleted ob =
     (if obj_type ob \<noteq> type then Leave else
      case obj_data_lookup env (by_obj self) ob of
        None \<Rightarrow> Leave
      | Some od \<Rightarrow>
          (case first_max (obj_lst env (by_data self) ob) of
             None \<Rightarrow> if keep_deleted then Leave else Remove
           | Some td \<Rightarrow>
               if td_track_priority_present td then
                 (if td_track_priority_val td > 0 \<or> tod_config_state od = CONFIG_STATE_REMOVED_BY_US \<or>
                     tod_config_state od = CONFIG_STATE_OWNED_BY_US \<and> class_of env ob cache = {}
                  then Ensure (td_obj td) else Leave)
               else if keep_deleted then Leave else Remove))"

primrec verdict_kept :: "object_env \<Rightarrow> NMPObject \<Rightarrow> NMPObject list \<Rightarrow> NMPObject list \<Rightarrow> verdict \<Rightarrow> bool" where
  "verdict_kept env ob cache cache' Leave = (class_of env ob cache' = class_of env ob cache)"
| "verdict_kept env ob cache cache' (Ensure x) = (\<exists>y\<in>class_of env ob cache'. object_cmp_semantically env x y = 0)"
| "verdict_kept env ob cache cache' Remove = (class_of env ob cache' = {})"

text \<open>The first loop.\<close>

definition unwanted :: "object_env \<Rightarrow> TrackData list \<Rightarrow> NMPObject \<Rightarrow> bool" where
  "unwanted env data ob =
     (case best env data ob of None \<Rightarrow> True | Some td \<Rightarrow> \<not> td_track_priority_present td)"

definition prio_ok :: "TrackData list \<Rightarrow> bool" where
  "prio_ok data \<longleftrightarrow> (\<forall>td\<in>set data. td_track_priority_val td = 0 \<longrightarrow> td_track_priority_present td)"

lemma unwanted_cong: "nmp_object_id_equal env a b \<Longrightarrow> unwanted env data a \<longleftrightarrow> unwanted env data b"
  by (simp add: unwanted_def best_cong [of env a b])

lemma sync_platform_obj_eq:
  assumes "prio_ok data"
  shows "snd (sync_platform_obj env data keep od) \<longleftrightarrow> \<not> keep \<and> unwanted env data (tod_obj od)"
    "\<not> unwanted env data (tod_obj od) \<Longrightarrow> tod_config_state (fst (sync_platform_obj env data keep od)) =
      (if tod_config_state od = CONFIG_STATE_OWNED_BY_US then CONFIG_STATE_ADDED_BY_US else tod_config_state od)"
  using assms best_Some [of env data "tod_obj od"]
  by (auto simp: sync_platform_obj_def get_best_data_cases unwanted_def prio_ok_def split: option.splits)

lemma lookup_update:
  assumes "\<And>od. od \<in> set objs \<Longrightarrow> nmp_object_id_equal env (tod_obj od) x \<Longrightarrow> nmp_object_id_equal env (tod_obj (f od)) x"
  shows "obj_data_lookup env (obj_data_update env x f objs) ob =
    (if nmp_object_id_equal env x ob then map_option f (obj_data_lookup env objs ob) else obj_data_lookup env objs ob)"
  using assms
proof (induction objs)
  case (Cons od objs)
  have "nmp_object_id_equal env (tod_obj (if nmp_object_id_equal env (tod_obj od) x then f od else od)) ob \<longleftrightarrow>
      nmp_object_id_equal env (tod_obj od) ob"
    using Cons.prems [of od] oid.id_cong(1) [of env "tod_obj (f od)" x ob] oid.id_cong(1) [of env "tod_obj od" x ob]
    by auto
  moreover have "nmp_object_id_equal env (tod_obj od) x \<longleftrightarrow> nmp_object_id_equal env x ob"
    if "nmp_object_id_equal env (tod_obj od) ob"
    using oid.id_cong(1) [OF that, of x] oid.id_sym by blast
  ultimately show ?case using Cons by (auto simp: obj_data_lookup_def obj_data_update_def)
qed (simp add: obj_data_lookup_def obj_data_update_def)

lemma obj_data_lookup_cong: "nmp_object_id_equal env a b \<Longrightarrow> obj_data_lookup env objs a = obj_data_lookup env objs b"
  unfolding obj_data_lookup_def track_obj_data_equal_id using oid.id_cong(2) [of env a b] by simp

lemma tracked_update:
  assumes ok: "objs_ok env data objs" and od: "obj_data_lookup env objs x = Some od" and kept: "obj_data_kept env data od od'"
  shows "obj_data_lookup env (obj_data_update env x (\<lambda>_. od') objs) ob =
    (if nmp_object_id_equal env x ob then Some od' else obj_data_lookup env objs ob)"
proof -
  have "nmp_object_id_equal env (tod_obj od') x"
    using kept obj_data_lookup_Some [OF od] oid.id_trans unfolding obj_data_kept_def by blast
  moreover have "obj_data_lookup env objs ob \<noteq> None" if "nmp_object_id_equal env x ob"
    using obj_data_lookup_Some [OF od] oid.id_trans that unfolding obj_data_lookup_None by blast
  ultimately show ?thesis by (subst lookup_update) auto
qed

lemma sync_platform_loop_deletes:
  assumes "objs_ok env data objs" "prio_ok data"
  shows "set (snd (sync_platform_loop env data keep plobjs (objs, dels))) =
    set dels \<union> {p \<in> set plobjs. obj_data_lookup env objs p \<noteq> None \<and> \<not> keep \<and> unwanted env data p}"
  using assms(1)
proof (induction plobjs arbitrary: objs dels)
  case (Cons p plobjs)
  show ?case
  proof (cases "obj_data_lookup env objs p")
    case None
    then show ?thesis using Cons by auto
  next
    case (Some od)
    let ?od = "fst (sync_platform_obj env data keep od)"
    have "unwanted env data (tod_obj od) \<longleftrightarrow> unwanted env data p"
      using obj_data_lookup_Some [OF Some] by (intro unwanted_cong) simp
    moreover have "obj_data_lookup env (obj_data_update env p (\<lambda>_. ?od) objs) q = None \<longleftrightarrow> obj_data_lookup env objs q = None" for q
      using Some by (cases "nmp_object_id_equal env p q")
        (simp_all add: tracked_update [OF Cons.prems Some sync_platform_obj_kept] obj_data_lookup_cong [of env p q, symmetric])
    ultimately show ?thesis
      using Some Cons.IH [OF sync_update_ok [OF Cons.prems Some sync_platform_obj_kept [of env data od keep]]]
      by (auto simp: case_prod_beta sync_platform_obj_eq [OF assms(2)] simp del: not_None_eq)
  qed
qed simp

lemma sync_platform_loop_lookup:
  assumes "objs_ok env data objs" "prio_ok data"
  shows "(obj_data_lookup env objs ob = None \<longrightarrow>
       obj_data_lookup env (fst (sync_platform_loop env data keep plobjs (objs, dels))) ob = None) \<and>
     (obj_data_lookup env objs ob = Some od \<longrightarrow>
       (\<exists>od'. obj_data_lookup env (fst (sync_platform_loop env data keep plobjs (objs, dels))) ob = Some od' \<and>
         (\<not> unwanted env data ob \<longrightarrow> tod_config_state od' =
            (if tod_config_state od = CONFIG_STATE_OWNED_BY_US \<and> (\<exists>p\<in>set plobjs. nmp_object_id_equal env p ob)
             then CONFIG_STATE_ADDED_BY_US else tod_config_state od))))"
  using assms(1)
proof (induction plobjs arbitrary: objs dels od)
  case (Cons p plobjs)
  show ?case
  proof (cases "obj_data_lookup env objs p")
    case None
    then have "obj_data_lookup env objs ob = Some od \<Longrightarrow> \<not> nmp_object_id_equal env p ob"
      using obj_data_lookup_cong [of env p ob objs] by auto
    then show ?thesis using Cons.IH [OF Cons.prems, where od = od] None by auto
  next
    case (Some od0)
    let ?od = "fst (sync_platform_obj env data keep od0)"
    let ?dels = "if snd (sync_platform_obj env data keep od0) then dels @ [p] else dels"
    note IH = Cons.IH [OF sync_update_ok [OF Cons.prems Some sync_platform_obj_kept [of env data od0 keep]], where dels = ?dels]
    have lk: "obj_data_lookup env (obj_data_update env p (\<lambda>_. ?od) objs) ob =
        (if nmp_object_id_equal env p ob then Some ?od else obj_data_lookup env objs ob)"
      by (rule tracked_update [OF Cons.prems Some sync_platform_obj_kept])
    show ?thesis
    proof (cases "nmp_object_id_equal env p ob")
      case True
      have "obj_data_lookup env objs ob = Some od0" using obj_data_lookup_cong [OF True, of objs] Some by simp
      moreover have "unwanted env data (tod_obj od0) \<longleftrightarrow> unwanted env data ob"
        using obj_data_lookup_Some [OF Some] oid.id_trans [OF _ True] by (intro unwanted_cong) blast
      ultimately show ?thesis
        using IH [where od = ?od] lk True Some sync_platform_obj_eq(2) [OF assms(2), of env od0 keep]
        by (auto simp: case_prod_beta)
    next
      case False
      then show ?thesis using IH [where od = od] lk Some by (simp add: case_prod_beta)
    qed
  qed
qed simp

text \<open>The second loop.\<close>

lemma nm_platform_lookup_obj_class:
  "nm_platform_lookup_obj env x cache = None \<longleftrightarrow> class_of env x cache = {}"
  "nm_platform_lookup_obj env x cache = Some p \<Longrightarrow> p \<in> class_of env x cache"
  using oid.id_sym [of env] by (auto simp: nm_platform_lookup_obj_def class_of_def find_None_iff find_Some_iff)

lemma sync_tracked_obj_other:
  assumes k: "kernel_deletes env kern" "kernel_adds env kern" and ob: "\<not> nmp_object_id_equal env (tod_obj od) ob"
  shows "class_of env ob (fst (snd (sync_tracked_obj env kern data od cache))) = class_of env ob cache"
proof (cases "best env data (tod_obj od)")
  case (Some td)
  let ?x = "td_obj td"
  have x: "\<not> nmp_object_id_equal env ?x ob" using best_Some [OF Some] oid.id_cong(1) [of env ?x "tod_obj od" ob] ob by simp
  show ?thesis
  proof (cases "nm_platform_lookup_obj env ?x cache")
    case None
    then have "class_of env ?x cache = {}" using nm_platform_lookup_obj_class(1) by blast
    from class_of_add_other [OF k(2) this x] show ?thesis
      using Some None by (simp add: sync_tracked_obj_def get_best_data_cases Let_def)
  next
    case (Some p)
    then have p: "nmp_object_id_equal env p ?x" using nm_platform_lookup_obj_class(2) by (auto simp: class_of_def)
    then have "class_of env ?x (kern (Object_delete p) cache) = {}" by (simp add: class_of_delete [OF k(1)])
    from class_of_add_other [OF k(2) this x]
    have "class_of env ob (kern (Object_add ?x) (kern (Object_delete p) cache)) = class_of env ob cache"
      using x oid.id_cong(1) [OF p] by (simp add: class_of_delete [OF k(1)])
    then show ?thesis
      using Some \<open>best env data (tod_obj od) = Some td\<close>
      by (simp add: sync_tracked_obj_def get_best_data_cases Let_def)
  qed
qed (simp add: sync_tracked_obj_def get_best_data_cases)

text \<open>Whether the second loop makes sure that the object exists.\<close>

definition sync_ensures :: "TrackData \<Rightarrow> ConfigState \<Rightarrow> bool" where
  "sync_ensures td state \<longleftrightarrow> td_track_priority_present td \<and>
     (td_track_priority_val td > 0 \<or> state = CONFIG_STATE_REMOVED_BY_US \<or> state = CONFIG_STATE_OWNED_BY_US)"

lemma sync_tracked_obj_own:
  assumes k: "kernel_deletes env kern" "kernel_adds env kern" and ob: "nmp_object_id_equal env (tod_obj od) ob"
  shows "case best env data ob of
      Some td \<Rightarrow>
        if sync_ensures td (tod_config_state od)
        then \<exists>y\<in>class_of env ob (fst (snd (sync_tracked_obj env kern data od cache))).
               object_cmp_semantically env (td_obj td) y = 0
        else fst (snd (sync_tracked_obj env kern data od cache)) = cache
    | None \<Rightarrow> fst (snd (sync_tracked_obj env kern data od cache)) = cache"
proof (cases "best env data (tod_obj od)")
  case None
  then show ?thesis using best_cong [OF ob, of data] by (simp add: sync_tracked_obj_def get_best_data_cases)
next
  case (Some td)
  let ?x = "td_obj td"
  have b: "best env data ob = Some td" using best_cong [OF ob, of data] Some by simp
  have x: "nmp_object_id_equal env ?x ob" using best_Some [OF b] by simp
  show ?thesis
  proof (cases "sync_ensures td (tod_config_state od)")
    case False
    then show ?thesis using Some b
      by (auto simp: sync_tracked_obj_def get_best_data_cases sync_ensures_def Let_def)
  next
    case ens: True
    show ?thesis
    proof (cases "nm_platform_lookup_obj env ?x cache")
      case None
      then have "class_of env ?x cache = {}" using nm_platform_lookup_obj_class(1) by blast
      from class_of_add [OF k(2) this x] show ?thesis
        using Some b None ens by (auto simp: sync_tracked_obj_def get_best_data_cases sync_ensures_def Let_def)
    next
      case p: (Some p)
      then have px: "p \<in> class_of env ?x cache" by (rule nm_platform_lookup_obj_class(2))
      then have "nmp_object_id_equal env p ?x" by (simp add: class_of_def)
      then have "class_of env ?x (kern (Object_delete p) cache) = {}" by (simp add: class_of_delete [OF k(1)])
      note added = class_of_add [OF k(2) this x]
      have "p \<in> class_of env ob cache" using px class_of_cong [OF x] by simp
      then show ?thesis using Some b p ens added
        by (auto simp: sync_tracked_obj_def get_best_data_cases sync_ensures_def Let_def)
    qed
  qed
qed

lemma sync_tracked_loop_other:
  assumes k: "kernel_deletes env kern" "kernel_adds env kern"
    and ob: "\<And>od. od \<in> set objs \<Longrightarrow> obj_type (tod_obj od) = type \<Longrightarrow> \<not> nmp_object_id_equal env (tod_obj od) ob"
  shows "class_of env ob (fst (snd (sync_tracked_loop env kern data type objs cache))) = class_of env ob cache"
  using ob
proof (induction objs arbitrary: cache)
  case (Cons od objs)
  then show ?case using sync_tracked_obj_other [OF k, of od ob data cache] by (simp add: case_prod_beta)
qed simp

lemma sync_tracked_loop_own:
  assumes k: "kernel_deletes env kern" "kernel_adds env kern"
    and ids: "sorted_wrt (\<lambda>a b. \<not> nmp_object_id_equal env (tod_obj a) (tod_obj b)) objs"
    and od: "obj_data_lookup env objs ob = Some od" and type: "obj_type ob = type"
    and best: "best env data ob = Some td" and ens: "sync_ensures td (tod_config_state od)"
  shows "\<exists>y\<in>class_of env ob (fst (snd (sync_tracked_loop env kern data type objs cache))).
    object_cmp_semantically env (td_obj td) y = 0"
  using ids od
proof (induction objs arbitrary: cache)
  case (Cons x objs)
  show ?case
  proof (cases "nmp_object_id_equal env (tod_obj x) ob")
    case True
    then have [simp]: "x = od" using Cons.prems(2) by (simp add: obj_data_lookup_def)
    have "\<not> nmp_object_id_equal env (tod_obj z) ob" if "z \<in> set objs" for z
      using Cons.prems(1) that oid.id_cong(2) [OF oid.id_sym [OF True]] oid.id_sym by fastforce
    then show ?thesis
      using sync_tracked_loop_other [OF k, of objs type ob] sync_tracked_obj_own [OF k True, of data cache]
        best ens id_equal_type [OF True] type by (simp add: case_prod_beta)
  next
    case False
    then have "obj_data_lookup env objs ob = Some od" using Cons.prems(2) by (simp add: obj_data_lookup_def)
    then show ?thesis using Cons.IH Cons.prems(1) by (simp add: case_prod_beta)
  qed
qed (simp add: obj_data_lookup_def)

lemma sync_tracked_loop_idle:
  assumes k: "kernel_deletes env kern" "kernel_adds env kern"
    and ids: "sorted_wrt (\<lambda>a b. \<not> nmp_object_id_equal env (tod_obj a) (tod_obj b)) objs"
    and od: "obj_data_lookup env objs ob = Some od"
    and idle: "\<And>td. best env data ob = Some td \<Longrightarrow> \<not> sync_ensures td (tod_config_state od)"
  shows "class_of env ob (fst (snd (sync_tracked_loop env kern data type objs cache))) = class_of env ob cache"
  using ids od
proof (induction objs arbitrary: cache)
  case (Cons x objs)
  show ?case
  proof (cases "nmp_object_id_equal env (tod_obj x) ob")
    case True
    then have [simp]: "x = od" using Cons.prems(2) by (simp add: obj_data_lookup_def)
    have "\<not> nmp_object_id_equal env (tod_obj z) ob" if "z \<in> set objs" for z
      using Cons.prems(1) that oid.id_cong(2) [OF oid.id_sym [OF True]] oid.id_sym by fastforce
    then show ?thesis
      using sync_tracked_loop_other [OF k, of objs type ob] sync_tracked_obj_own [OF k True, of data cache]
        idle by (auto simp: case_prod_beta split: option.splits)
  next
    case False
    then have "obj_data_lookup env objs ob = Some od" using Cons.prems(2) by (simp add: obj_data_lookup_def)
    then show ?thesis using Cons.IH Cons.prems(1) sync_tracked_obj_other [OF k False, of data cache]
      by (simp add: case_prod_beta)
  qed
qed (simp add: obj_data_lookup_def)

lemma platform_lookup_class:
  assumes "track_obj_allowed ob" "obj_type ob \<noteq> NMP_OBJECT_TYPE_MPTCP_ADDR" "nmp_object_id_equal env p ob"
  shows "p \<in> set (platform_lookup (obj_type ob) cache) \<longleftrightarrow> p \<in> set cache"
proof -
  have "obj_type p = obj_type ob" "track_obj_allowed p"
    using id_equal_type [OF assms(3)] id_equal_allowed [OF assms(3)] assms(1) by simp_all
  then show ?thesis using assms(2) by (cases p) (auto simp: platform_lookup_def)
qed

lemma platform_lookup_type: "p \<in> set (platform_lookup type cache) \<Longrightarrow> obj_type p = type"
  by (simp add: platform_lookup_def split: if_splits)

text \<open>The state between the two loops, and the platform after each of them.\<close>

abbreviation sync_loop1 ::
    "object_env \<Rightarrow> NMPGlobalTracker \<Rightarrow> NMPObject list \<Rightarrow> NMPObjectType \<Rightarrow> bool \<Rightarrow> TrackObjData list \<times> NMPObject list" where
  "sync_loop1 env self cache type keep \<equiv>
     sync_platform_loop env (by_data self) keep (platform_lookup type cache) (by_obj self, [])"

abbreviation sync_cache1 ::
    "object_env \<Rightarrow> platform_kernel \<Rightarrow> NMPGlobalTracker \<Rightarrow> NMPObject list \<Rightarrow> NMPObjectType \<Rightarrow> bool \<Rightarrow> NMPObject list" where
  "sync_cache1 env kern self cache type keep \<equiv>
     fold kern (map Object_delete (snd (sync_loop1 env self cache type keep))) cache"

lemma sync_cache:
  assumes "type \<in> {NMP_OBJECT_TYPE_IP4_ROUTE, NMP_OBJECT_TYPE_IP6_ROUTE, NMP_OBJECT_TYPE_ROUTING_RULE}"
  shows "fst (snd (nmp_global_tracker_sync env kern self cache type keep)) =
    fst (snd (sync_tracked_loop env kern (by_data self) type (fst (sync_loop1 env self cache type keep))
      (sync_cache1 env kern self cache type keep)))"
  using assms by (simp add: nmp_global_tracker_sync_def Let_def case_prod_beta)

lemma tracker_inv_parts:
  assumes "tracker_inv env self"
  shows "objs_ok env (by_data self) (by_obj self)" "prio_ok (by_data self)"
    "sorted_wrt (\<lambda>a b. \<not> nmp_object_id_equal env (tod_obj a) (tod_obj b)) (fst (sync_loop1 env self cache type keep))"
proof -
  show ok: "objs_ok env (by_data self) (by_obj self)" and "prio_ok (by_data self)"
    using assms by (simp_all add: tracker_inv_objs prio_ok_def)
  show "sorted_wrt (\<lambda>a b. \<not> nmp_object_id_equal env (tod_obj a) (tod_obj b)) (fst (sync_loop1 env self cache type keep))"
    using sync_platform_loop_ok [OF ok, of keep "platform_lookup type cache" "[]"] by (simp add: objs_ok_def)
qed

lemma sync_not_tracked:
  assumes inv: "tracker_inv env self" and k: "kernel_deletes env kern" "kernel_adds env kern"
    and type: "type \<in> {NMP_OBJECT_TYPE_IP4_ROUTE, NMP_OBJECT_TYPE_IP6_ROUTE, NMP_OBJECT_TYPE_ROUTING_RULE}"
    and ob: "obj_type ob = type \<Longrightarrow> obj_data_lookup env (by_obj self) ob = None"
  shows "class_of env ob (fst (snd (nmp_global_tracker_sync env kern self cache type keep))) = class_of env ob cache"
proof -
  let ?pl = "platform_lookup type cache" and ?l = "sync_loop1 env self cache type keep"
  note ok = tracker_inv_parts(1) [OF inv] and prio = tracker_inv_parts(2) [OF inv]
  have "\<not> nmp_object_id_equal env x ob" if "x \<in> set (snd ?l)" for x
  proof
    assume e: "nmp_object_id_equal env x ob"
    have "x \<in> set ?pl" "obj_data_lookup env (by_obj self) x \<noteq> None"
      using that sync_platform_loop_deletes [OF ok prio] by simp_all
    then show False
      using ob id_equal_type [OF e] obj_data_lookup_cong [OF e, of "by_obj self"] platform_lookup_type by simp
  qed
  then have "class_of env ob (sync_cache1 env kern self cache type keep) = class_of env ob cache"
    by (auto simp: class_of_deletes [OF k(1)])
  moreover have "\<not> nmp_object_id_equal env (tod_obj od) ob"
    if "od \<in> set (fst ?l)" "obj_type (tod_obj od) = type" for od
  proof
    assume e: "nmp_object_id_equal env (tod_obj od) ob"
    then have "obj_data_lookup env (by_obj self) ob = None" using ob id_equal_type [OF e] that(2) by simp
    then have "obj_data_lookup env (fst ?l) ob = None"
      using sync_platform_loop_lookup [OF ok prio, of ob keep ?pl "[]"] by blast
    then show False using that(1) e obj_data_lookup_None by blast
  qed
  ultimately show ?thesis
    using sync_tracked_loop_other [OF k, of "fst ?l" type ob] by (simp add: sync_cache [OF type])
qed

lemma sync_loop1_tracked:
  assumes inv: "tracker_inv env self" and type: "obj_type ob \<noteq> NMP_OBJECT_TYPE_MPTCP_ADDR"
    and k: "kernel_deletes env kern" and od: "obj_data_lookup env (by_obj self) ob = Some od"
  obtains od' where "obj_data_lookup env (fst (sync_loop1 env self cache (obj_type ob) keep)) ob = Some od'"
    "\<not> unwanted env (by_data self) ob \<Longrightarrow> tod_config_state od' =
       (if tod_config_state od = CONFIG_STATE_OWNED_BY_US \<and> class_of env ob cache \<noteq> {}
        then CONFIG_STATE_ADDED_BY_US else tod_config_state od)"
    "class_of env ob (sync_cache1 env kern self cache (obj_type ob) keep) =
       (if \<not> keep \<and> unwanted env (by_data self) ob then {} else class_of env ob cache)"
proof -
  let ?pl = "platform_lookup (obj_type ob) cache" and ?l = "sync_loop1 env self cache (obj_type ob) keep"
  note ok = tracker_inv_parts(1) [OF inv] and prio = tracker_inv_parts(2) [OF inv]
  have allowed: "track_obj_allowed ob"
    using obj_data_lookup_Some [OF od] ok id_equal_allowed [of env "tod_obj od" ob] by (simp add: objs_ok_def)
  have pl: "p \<in> set ?pl \<longleftrightarrow> p \<in> set cache" if "nmp_object_id_equal env p ob" for p
    by (rule platform_lookup_class [OF allowed type that])
  then have some: "(\<exists>p\<in>set ?pl. nmp_object_id_equal env p ob) \<longleftrightarrow> class_of env ob cache \<noteq> {}"
    by (auto simp: class_of_def)
  have "x \<in> set (snd ?l) \<longleftrightarrow> x \<in> set ?pl \<and> \<not> keep \<and> unwanted env (by_data self) ob" if "nmp_object_id_equal env x ob" for x
    using od unwanted_cong [OF that, of "by_data self"] obj_data_lookup_cong [OF that, of "by_obj self"]
    by (simp add: sync_platform_loop_deletes [OF ok prio])
  then have del: "(\<exists>x\<in>set (snd ?l). nmp_object_id_equal env x ob) \<longleftrightarrow>
      (\<exists>p\<in>set ?pl. nmp_object_id_equal env p ob \<and> \<not> keep \<and> unwanted env (by_data self) ob)"
    by blast
  obtain od' where od': "obj_data_lookup env (fst ?l) ob = Some od'"
    "\<not> unwanted env (by_data self) ob \<longrightarrow> tod_config_state od' =
       (if tod_config_state od = CONFIG_STATE_OWNED_BY_US \<and> class_of env ob cache \<noteq> {}
        then CONFIG_STATE_ADDED_BY_US else tod_config_state od)"
    using sync_platform_loop_lookup [OF ok prio, of ob keep ?pl "[]" od] od unfolding some by blast
  have "class_of env ob (sync_cache1 env kern self cache (obj_type ob) keep) =
      (if \<not> keep \<and> unwanted env (by_data self) ob then {} else class_of env ob cache)"
    unfolding class_of_deletes [OF k] del using some by auto
  then show ?thesis using that od' by blast
qed

lemma sync_tracked:
  assumes inv: "tracker_inv env self" and k: "kernel_deletes env kern" "kernel_adds env kern"
    and type: "obj_type ob \<noteq> NMP_OBJECT_TYPE_MPTCP_ADDR"
    and od: "obj_data_lookup env (by_obj self) ob = Some od"
  shows "verdict_kept env ob cache (fst (snd (nmp_global_tracker_sync env kern self cache (obj_type ob) keep)))
    (sync_verdict env self cache (obj_type ob) keep ob)"
proof -
  let ?data = "by_data self"
  have "track_obj_allowed ob"
    using obj_data_lookup_Some [OF od] tracker_inv_parts(1) [OF inv] id_equal_allowed by (fastforce simp: objs_ok_def)
  then have synced: "obj_type ob \<in> {NMP_OBJECT_TYPE_IP4_ROUTE, NMP_OBJECT_TYPE_IP6_ROUTE, NMP_OBJECT_TYPE_ROUTING_RULE}"
    using type by (cases ob) simp_all
  obtain od' where od': "obj_data_lookup env (fst (sync_loop1 env self cache (obj_type ob) keep)) ob = Some od'"
    "\<not> unwanted env ?data ob \<Longrightarrow> tod_config_state od' =
       (if tod_config_state od = CONFIG_STATE_OWNED_BY_US \<and> class_of env ob cache \<noteq> {}
        then CONFIG_STATE_ADDED_BY_US else tod_config_state od)"
    and c1: "class_of env ob (sync_cache1 env kern self cache (obj_type ob) keep) =
       (if \<not> keep \<and> unwanted env ?data ob then {} else class_of env ob cache)"
    using sync_loop1_tracked [OF inv type k(1) od] by blast
  note ids = tracker_inv_parts(3) [OF inv, where cache = cache and type = "obj_type ob" and keep = keep]
  show ?thesis
  proof (cases "\<exists>td. best env ?data ob = Some td \<and> sync_ensures td (tod_config_state od')")
    case True
    then obtain td where td: "best env ?data ob = Some td" and ens: "sync_ensures td (tod_config_state od')" by blast
    then have "\<not> unwanted env ?data ob" by (simp add: unwanted_def sync_ensures_def)
    then have "sync_verdict env self cache (obj_type ob) keep ob = Ensure (td_obj td)"
      using od td ens od'(2)
      by (auto simp: sync_verdict_def sync_ensures_def get_best_first_max [symmetric] split: if_splits)
    then show ?thesis
      using sync_tracked_loop_own [OF k ids od'(1) refl td ens] by (simp add: sync_cache [OF synced])
  next
    case False
    then have "class_of env ob (fst (snd (nmp_global_tracker_sync env kern self cache (obj_type ob) keep))) =
        (if \<not> keep \<and> unwanted env ?data ob then {} else class_of env ob cache)"
      using sync_tracked_loop_idle [OF k ids od'(1), of ?data] c1 by (auto simp: sync_cache [OF synced])
    moreover have "sync_verdict env self cache (obj_type ob) keep ob =
        (if \<not> keep \<and> unwanted env ?data ob then Remove else Leave)"
      using od False od'(2)
      by (auto simp: sync_verdict_def sync_ensures_def unwanted_def get_best_first_max [symmetric]
          split: if_splits option.splits)
    ultimately show ?thesis by (cases keep; cases "unwanted env ?data ob") simp_all
  qed
qed

lemma sync_verdict_kept:
  assumes inv: "tracker_inv env self" and k: "kernel_deletes env kern" "kernel_adds env kern"
    and type: "type \<noteq> NMP_OBJECT_TYPE_MPTCP_ADDR"
  shows "verdict_kept env ob cache (fst (snd (nmp_global_tracker_sync env kern self cache type keep)))
    (sync_verdict env self cache type keep ob)"
proof (cases "obj_type ob = type \<and> obj_data_lookup env (by_obj self) ob \<noteq> None")
  case True
  then show ?thesis using sync_tracked [OF inv k] type by auto
next
  case False
  then have "sync_verdict env self cache type keep ob = Leave" by (auto simp: sync_verdict_def)
  moreover have "class_of env ob (fst (snd (nmp_global_tracker_sync env kern self cache type keep))) = class_of env ob cache"
  proof (cases "type \<in> {NMP_OBJECT_TYPE_IP4_ROUTE, NMP_OBJECT_TYPE_IP6_ROUTE, NMP_OBJECT_TYPE_ROUTING_RULE}")
    case True
    then show ?thesis using sync_not_tracked [OF inv k True] False by simp
  qed (simp add: nmp_global_tracker_sync_def)
  ultimately show ?thesis by simp
qed

end
