(* ===== verification/NM_Tracker_Mptcp.thy ===== *)
theory NM_Tracker_Mptcp
  imports NM_Tracker_Sync
begin

text \<open>
  The sync of the MPTCP endpoints (\<^verbatim>\<open>nmp_global_tracker_sync_mptcp_addrs\<close>): the endpoints with the
  highest priorities and different addresses are configured, at most as many as the kernel takes, and
  endpoints of the managed interfaces that are not wanted are deleted.

  An entry of the array \<open>entries\<close> is modelled by the winning \<open>TrackData\<close>; the object of its
  \<open>TrackObjData\<close> is the same, and its state is found in the table by the identity of the object.
\<close>

section \<open>Operations\<close>

abbreviation (input) MPTCP_PM_ADDR_MAX :: nat where
  "MPTCP_PM_ADDR_MAX \<equiv> 8"

definition nmp_global_tracker_mptcp_addr_init_for_ifindex :: "int \<Rightarrow> NMPlatformMptcpAddr" where
  "nmp_global_tracker_mptcp_addr_init_for_ifindex ifindex =
     \<lparr>mp_ifindex = ifindex, mp_id = 0, mp_flags = 0, mp_port = 0, mp_addr = replicate 16 0,
      mp_addr_family = NM_AF_UNSPEC\<rparr>"

definition object_cast_mptcp_addr :: "NMPObject \<Rightarrow> NMPlatformMptcpAddr" where
  "object_cast_mptcp_addr obj =
     (case obj of NMP_MPTCP_ADDR m \<Rightarrow> m | _ \<Rightarrow> nmp_global_tracker_mptcp_addr_init_for_ifindex 0)"

lemma object_cast_mptcp_addr_simp [simp]: "object_cast_mptcp_addr (NMP_MPTCP_ADDR m) = m"
  by (simp add: object_cast_mptcp_addr_def)

text \<open>
  The first loop yields the remaining objects, the managed interfaces, the entries and the objects to delete.
\<close>

type_synonym mptcp_collected = "TrackObjData list \<times> int list \<times> TrackData list \<times> NMPObject list"

definition mptcp_collect_obj :: "object_env \<Rightarrow> TrackData list \<Rightarrow> bool \<Rightarrow> TrackObjData \<Rightarrow> mptcp_collected" where
  "mptcp_collect_obj env data reapply obj_data =
     (let mptcp_addr = object_cast_mptcp_addr (tod_obj obj_data) in
      case track_obj_data_get_best_data env data obj_data of
        (None, obj_data) \<Rightarrow>
          ([], [mp_ifindex mptcp_addr], [],
           if mp_addr_family mptcp_addr \<noteq> NM_AF_UNSPEC \<and> \<not> reapply then [tod_obj obj_data] else [])
      | (Some td_best, obj_data) \<Rightarrow>
          if mp_addr_family mptcp_addr = NM_AF_UNSPEC
          then ([obj_data\<lparr>tod_config_state := CONFIG_STATE_ADDED_BY_US\<rparr>], [mp_ifindex mptcp_addr], [], [])
          else ([obj_data], [mp_ifindex mptcp_addr], [td_best], []))"

fun mptcp_collect_loop :: "object_env \<Rightarrow> TrackData list \<Rightarrow> bool \<Rightarrow> TrackObjData list \<Rightarrow> mptcp_collected" where
  "mptcp_collect_loop env data reapply [] = ([], [], [], [])"
| "mptcp_collect_loop env data reapply (obj_data # objs) =
     (case mptcp_collect_loop env data reapply objs of
        (objs, handled_ifindexes, entries, entries_to_delete) \<Rightarrow>
          if obj_type (tod_obj obj_data) \<noteq> NMP_OBJECT_TYPE_MPTCP_ADDR
          then (obj_data # objs, handled_ifindexes, entries, entries_to_delete)
          else
            (case mptcp_collect_obj env data reapply obj_data of
               (od, ifindex, td, del) \<Rightarrow>
                 (od @ objs, ifindex @ handled_ifindexes, td @ entries, del @ entries_to_delete)))"

definition mptcp_entries_cmp :: "TrackData \<Rightarrow> TrackData \<Rightarrow> int" where
  "mptcp_entries_cmp a b = nm_cmp_direct (td_track_priority_val b) (td_track_priority_val a)"

text \<open>A stable sort, as \<^verbatim>\<open>g_array_sort_with_data\<close> is.\<close>

fun insert_stable :: "('a \<Rightarrow> 'a \<Rightarrow> int) \<Rightarrow> 'a \<Rightarrow> 'a list \<Rightarrow> 'a list" where
  "insert_stable cmp x [] = [x]"
| "insert_stable cmp x (y # ys) = (if cmp x y \<le> 0 then x # y # ys else y # insert_stable cmp x ys)"

definition g_array_sort_with_data :: "('a \<Rightarrow> 'a \<Rightarrow> int) \<Rightarrow> 'a list \<Rightarrow> 'a list" where
  "g_array_sort_with_data cmp xs = foldr (insert_stable cmp) xs []"

abbreviation td_addr :: "TrackData \<Rightarrow> NMPlatformMptcpAddr" where
  "td_addr td \<equiv> object_cast_mptcp_addr (td_obj td)"

definition obj_data_set_state ::
    "object_env \<Rightarrow> NMPObject \<Rightarrow> ConfigState \<Rightarrow> TrackObjData list \<Rightarrow> TrackObjData list" where
  "obj_data_set_state env obj state = obj_data_update env obj (\<lambda>od. od\<lparr>tod_config_state := state\<rparr>)"

fun mptcp_dedup_loop ::
    "object_env \<Rightarrow> TrackData list \<Rightarrow> TrackObjData list \<Rightarrow> TrackData list \<Rightarrow> TrackObjData list \<times> TrackData list" where
  "mptcp_dedup_loop env [] objs kept = (objs, kept)"
| "mptcp_dedup_loop env (d # entries) objs kept =
     (case find (\<lambda>x. nm_platform_mptcp_addr_index_addr_equal (td_addr x) (td_addr d)) kept of
        Some shadow \<Rightarrow>
          mptcp_dedup_loop env entries
            (if map_option tod_config_state (obj_data_lookup env objs (td_obj d)) = Some CONFIG_STATE_ADDED_BY_US
             then obj_data_set_state env (td_obj d) CONFIG_STATE_NONE
                    (obj_data_set_state env (td_obj shadow) CONFIG_STATE_ADDED_BY_US objs)
             else objs) kept
      | None \<Rightarrow>
          if length (kept @ [d]) \<ge> MPTCP_PM_ADDR_MAX then (objs, kept @ [d])
          else mptcp_dedup_loop env entries objs (kept @ [d]))"

text \<open>What is done with an endpoint of the kernel: kept, kept and known to be configured, or deleted.\<close>

datatype kaddr_verdict = Kaddr_keep | Kaddr_keep_index | Kaddr_delete

definition mptcp_kaddr_verdict ::
    "object_env \<Rightarrow> bool \<Rightarrow> int list \<Rightarrow> TrackData list \<Rightarrow> NMPObject list \<Rightarrow> NMPObject \<Rightarrow> kaddr_verdict" where
  "mptcp_kaddr_verdict env reapply handled_ifindexes entries entries_to_delete obj =
     (let mptcp_addr = object_cast_mptcp_addr obj in
      if mp_port mptcp_addr \<noteq> 0 \<or> mp_ifindex mptcp_addr \<le> 0 then Kaddr_keep
      else if mp_ifindex mptcp_addr \<notin> set handled_ifindexes then Kaddr_keep
      else
        (case find (\<lambda>d. nm_platform_mptcp_addr_index_addr_equal (td_addr d) mptcp_addr) entries of
           Some d \<Rightarrow>
             if mp_flags mptcp_addr = mp_flags (td_addr d) \<and> mp_ifindex mptcp_addr = mp_ifindex (td_addr d)
             then Kaddr_keep_index else Kaddr_delete
         | None \<Rightarrow>
             if reapply then Kaddr_delete
             else if \<not> (\<exists>x\<in>set entries_to_delete. nmp_object_id_equal env x obj) then Kaddr_keep
             else Kaddr_delete))"

fun mptcp_add_loop ::
    "object_env \<Rightarrow> NMPObject list \<Rightarrow> TrackData list \<Rightarrow> TrackObjData list \<Rightarrow> TrackObjData list \<times> platform_request list" where
  "mptcp_add_loop env kaddrs_idx [] objs = (objs, [])"
| "mptcp_add_loop env kaddrs_idx (d # entries) objs =
     (case mptcp_add_loop env kaddrs_idx entries (obj_data_set_state env (td_obj d) CONFIG_STATE_ADDED_BY_US objs) of
        (objs, reqs) \<Rightarrow>
          (objs,
           case find (\<lambda>kobj. nmp_object_id_equal env kobj (td_obj d)) (rev kaddrs_idx) of
             Some kobj \<Rightarrow>
               if mp_flags (object_cast_mptcp_addr kobj) = mp_flags (td_addr d) then reqs
               else Object_add (td_obj d) # reqs
           | None \<Rightarrow> Object_add (td_obj d) # reqs))"

text \<open>\<open>kaddrs\<close> are the endpoints the kernel reports (\<^verbatim>\<open>nm_platform_mptcp_addrs_dump\<close>).\<close>

definition nmp_global_tracker_sync_mptcp_addrs ::
    "object_env \<Rightarrow> NMPGlobalTracker \<Rightarrow> NMPObject list \<Rightarrow> bool \<Rightarrow> NMPGlobalTracker \<times> platform_request list" where
  "nmp_global_tracker_sync_mptcp_addrs env self kaddrs reapply =
     (case mptcp_collect_loop env (by_data self) reapply (by_obj self) of
        (objs, handled_ifindexes, entries, entries_to_delete) \<Rightarrow>
          (case mptcp_dedup_loop env (g_array_sort_with_data mptcp_entries_cmp entries) objs [] of
             (objs, entries) \<Rightarrow>
               (let verdict = mptcp_kaddr_verdict env reapply handled_ifindexes entries entries_to_delete;
                    dels = map Object_delete (filter (\<lambda>obj. verdict obj = Kaddr_delete) kaddrs);
                    kaddrs_idx = filter (\<lambda>obj. verdict obj = Kaddr_keep_index) kaddrs;
                    (objs, adds) = mptcp_add_loop env kaddrs_idx entries objs
                in (self\<lparr>by_obj := objs\<rparr>, dels @ adds))))"

section \<open>The sync keeps the invariant\<close>

lemma mptcp_collect_kept:
  "list_all2 (obj_data_kept env data)
     (filter (\<lambda>od. obj_type (tod_obj od) \<noteq> NMP_OBJECT_TYPE_MPTCP_ADDR \<or> obj_lst env data (tod_obj od) \<noteq> []) objs)
     (fst (mptcp_collect_loop env data reapply objs))"
proof (induction objs)
  case (Cons od objs)
  have self: "obj_data_kept env data od od" by (simp add: obj_data_kept_def)
  show ?case
  proof (cases "best env data (tod_obj od)")
    case None
    then show ?thesis using Cons self best_None [of env data "tod_obj od"]
      by (simp add: case_prod_beta mptcp_collect_obj_def Let_def get_best_data_cases)
  next
    case (Some td)
    then have "nmp_object_id_equal env (td_obj td) (tod_obj od)" "obj_lst env data (tod_obj od) \<noteq> []"
      using best_Some [OF Some] best_None [of env data "tod_obj od"] by auto
    then show ?thesis using Cons Some self
      by (simp add: case_prod_beta mptcp_collect_obj_def Let_def get_best_data_cases obj_data_kept_def)
  qed
qed simp

lemma set_state_ok:
  assumes ok: "objs_ok env data objs" and none: "state = CONFIG_STATE_NONE \<Longrightarrow> obj_lst env data obj \<noteq> []"
  shows "objs_ok env data (obj_data_set_state env obj state objs)"
  unfolding obj_data_set_state_def obj_data_update_def track_obj_data_equal_id
proof (rule objs_ok_map [OF ok])
  fix x
  assume "x \<in> set objs"
    "tod_config_state (if nmp_object_id_equal env (tod_obj x) obj then x\<lparr>tod_config_state := state\<rparr> else x) = CONFIG_STATE_NONE"
  then show "obj_lst env data (tod_obj x) \<noteq> []"
    using ok none obj_lst_cong [of env "tod_obj x" obj data] by (auto simp: objs_ok_def split: if_splits)
qed simp

lemma entry_obj_lst: "td \<in> set data \<Longrightarrow> obj_lst env data (td_obj td) \<noteq> []"
  by (auto simp: obj_lst_def filter_empty_conv intro!: bexI [of _ td])

lemma mptcp_dedup_ok:
  assumes "objs_ok env data objs" "set entries \<subseteq> set data"
  shows "objs_ok env data (fst (mptcp_dedup_loop env entries objs kept))"
  using assms
proof (induction entries arbitrary: objs kept)
  case (Cons d entries)
  have "objs_ok env data (obj_data_set_state env (td_obj d) CONFIG_STATE_NONE
      (obj_data_set_state env (td_obj x) CONFIG_STATE_ADDED_BY_US objs))" for x
    using Cons.prems by (intro set_state_ok entry_obj_lst) auto
  then show ?case using Cons by (auto split: option.split)
qed simp

lemma mptcp_add_ok:
  "objs_ok env data objs \<Longrightarrow> objs_ok env data (fst (mptcp_add_loop env idx entries objs))"
proof (induction entries arbitrary: objs)
  case (Cons d entries)
  then have "objs_ok env data (obj_data_set_state env (td_obj d) CONFIG_STATE_ADDED_BY_US objs)"
    by (intro set_state_ok) simp_all
  then show ?case using Cons.IH by (simp add: case_prod_beta)
qed simp

text \<open>The entries the first loop collects, and their order after the sort.\<close>

definition is_endpoint :: "TrackObjData \<Rightarrow> bool" where
  "is_endpoint od \<longleftrightarrow> obj_type (tod_obj od) = NMP_OBJECT_TYPE_MPTCP_ADDR \<and>
     mp_addr_family (object_cast_mptcp_addr (tod_obj od)) \<noteq> NM_AF_UNSPEC"

definition managed_ifindexes :: "TrackObjData list \<Rightarrow> int list" where
  "managed_ifindexes objs =
     map (\<lambda>od. mp_ifindex (object_cast_mptcp_addr (tod_obj od)))
       (filter (\<lambda>od. obj_type (tod_obj od) = NMP_OBJECT_TYPE_MPTCP_ADDR) objs)"

definition endpoint_winners :: "object_env \<Rightarrow> TrackData list \<Rightarrow> TrackObjData list \<Rightarrow> TrackData list" where
  "endpoint_winners env data objs =
     List.map_filter (\<lambda>od. first_max (obj_lst env data (tod_obj od))) (filter is_endpoint objs)"

definition endpoint_tombstones :: "object_env \<Rightarrow> TrackData list \<Rightarrow> TrackObjData list \<Rightarrow> NMPObject list" where
  "endpoint_tombstones env data objs =
     map tod_obj (filter (\<lambda>od. is_endpoint od \<and> obj_lst env data (tod_obj od) = []) objs)"

lemma mptcp_collect_eq:
  "snd (mptcp_collect_loop env data reapply objs) =
     (managed_ifindexes objs, endpoint_winners env data objs,
      if reapply then [] else endpoint_tombstones env data objs)"
proof (induction objs)
  case (Cons od objs)
  then show ?case
    using best_None [of env data "tod_obj od"]
    by (auto simp: case_prod_beta mptcp_collect_obj_def Let_def get_best_data_cases managed_ifindexes_def
        endpoint_winners_def endpoint_tombstones_def is_endpoint_def map_filter_simps get_best_first_max
        prod_eq_iff split: option.splits)
qed (simp add: managed_ifindexes_def endpoint_winners_def endpoint_tombstones_def map_filter_simps)

lemma sort_by_priority:
  "g_array_sort_with_data mptcp_entries_cmp tds = sort_key (\<lambda>td. - int (td_track_priority_val td)) tds"
proof -
  have "insert_stable mptcp_entries_cmp x ys = insort_key (\<lambda>td. - int (td_track_priority_val td)) x ys" for x ys
    by (induction ys) (auto simp: mptcp_entries_cmp_def nm_cmp_direct_def)
  then have "insert_stable mptcp_entries_cmp = insort_key (\<lambda>td. - int (td_track_priority_val td))" by (intro ext)
  then show ?thesis by (simp add: g_array_sort_with_data_def sort_key_def)
qed

lemma winners_data: "set (endpoint_winners env data objs) \<subseteq> set data"
  using first_max_Some by (fastforce simp: endpoint_winners_def map_filter_def obj_lst_def)

lemma sync_mptcp_inv:
  assumes "tracker_inv env self"
  shows "tracker_inv env (fst (nmp_global_tracker_sync_mptcp_addrs env self kaddrs reapply))"
proof -
  let ?c = "mptcp_collect_loop env (by_data self) reapply (by_obj self)"
  have "objs_ok env (by_data self) (filter (\<lambda>od. obj_type (tod_obj od) \<noteq> NMP_OBJECT_TYPE_MPTCP_ADDR \<or>
      obj_lst env (by_data self) (tod_obj od) \<noteq> []) (by_obj self))"
    using assms by (intro objs_ok_filter) (simp_all add: tracker_inv_objs)
  from objs_ok_kept [OF this mptcp_collect_kept]
  have "objs_ok env (by_data self) (fst ?c)" .
  moreover have "set (g_array_sort_with_data mptcp_entries_cmp (fst (snd (snd ?c)))) \<subseteq> set (by_data self)"
    using winners_data by (simp add: mptcp_collect_eq sort_by_priority)
  ultimately show ?thesis
    using assms mptcp_dedup_ok mptcp_add_ok
    by (simp add: nmp_global_tracker_sync_mptcp_addrs_def case_prod_beta Let_def tracker_inv_objs)
qed

section \<open>The endpoints that are configured\<close>

definition same_addr :: "TrackData \<Rightarrow> TrackData \<Rightarrow> bool" where
  "same_addr a b = nm_platform_mptcp_addr_index_addr_equal (td_addr a) (td_addr b)"

lemma same_addr_equiv: "same_addr a b \<Longrightarrow> same_addr b a" "same_addr a b \<Longrightarrow> same_addr b c \<Longrightarrow> same_addr a c"
  by (auto simp: same_addr_def nm_platform_mptcp_addr_index_addr_equal_def nm_cmp_memcmp_def)

text \<open>Of the entries with the same address the first one.\<close>

fun addr_firsts :: "TrackData list \<Rightarrow> TrackData list" where
  "addr_firsts [] = []"
| "addr_firsts (d # ds) = d # filter (\<lambda>x. \<not> same_addr d x) (addr_firsts ds)"

lemma addr_firsts_distinct: "sorted_wrt (\<lambda>a b. \<not> same_addr a b) (addr_firsts ds)"
  by (induction ds) (auto simp: sorted_wrt_filter)

lemma mptcp_dedup_eq:
  assumes "length kept < MPTCP_PM_ADDR_MAX"
  shows "snd (mptcp_dedup_loop env ds objs kept) =
    take MPTCP_PM_ADDR_MAX (kept @ filter (\<lambda>x. \<forall>k\<in>set kept. \<not> same_addr k x) (addr_firsts ds))"
  using assms
proof (induction ds arbitrary: objs kept)
  case (Cons d ds)
  show ?case
  proof (cases "find (\<lambda>x. nm_platform_mptcp_addr_index_addr_equal (td_addr x) (td_addr d)) kept")
    case None
    then have new: "\<forall>k\<in>set kept. \<not> same_addr k d" by (simp add: find_None_iff same_addr_def)
    have "filter (\<lambda>x. \<forall>k\<in>set (kept @ [d]). \<not> same_addr k x) (addr_firsts ds) =
        filter (\<lambda>x. \<forall>k\<in>set kept. \<not> same_addr k x) (filter (\<lambda>x. \<not> same_addr d x) (addr_firsts ds))"
      by (auto simp: conj_commute)
    moreover have "8 - length kept = Suc (7 - length kept)" using Cons.prems by simp
    ultimately show ?thesis using Cons None new by simp
  next
    case (Some x)
    then have x: "x \<in> set kept" "same_addr x d" by (auto simp: find_Some_iff same_addr_def)
    then have "\<not> same_addr d y" if "\<forall>k\<in>set kept. \<not> same_addr k y" for y
      using that same_addr_equiv(2) [OF x(2), of y] by blast
    then have "filter (\<lambda>x. \<forall>k\<in>set kept. \<not> same_addr k x) (filter (\<lambda>x. \<not> same_addr d x) (addr_firsts ds)) =
        filter (\<lambda>x. \<forall>k\<in>set kept. \<not> same_addr k x) (addr_firsts ds)"
      unfolding filter_filter by (intro filter_cong refl) blast
    moreover have "\<not> (\<forall>k\<in>set kept. \<not> same_addr k d)" using x by blast
    ultimately show ?thesis using Cons.IH [OF Cons.prems] Some by (simp only: mptcp_dedup_loop.simps option.case
        addr_firsts.simps filter.simps if_False)
  qed
qed simp

definition wanted_endpoints :: "object_env \<Rightarrow> NMPGlobalTracker \<Rightarrow> TrackData list" where
  "wanted_endpoints env self =
     take MPTCP_PM_ADDR_MAX
       (addr_firsts (sort_key (\<lambda>td. - int (td_track_priority_val td)) (endpoint_winners env (by_data self) (by_obj self))))"

lemma wanted_bounds:
  "length (wanted_endpoints env self) \<le> MPTCP_PM_ADDR_MAX"
  "sorted_wrt (\<lambda>a b. \<not> same_addr a b) (wanted_endpoints env self)"
  unfolding wanted_endpoints_def using addr_firsts_distinct by (simp_all add: sorted_wrt_take)

text \<open>Whether an endpoint of the kernel is, or conflicts with, a wanted one.\<close>

definition endpoint_manageable :: "NMPGlobalTracker \<Rightarrow> NMPObject \<Rightarrow> bool" where
  "endpoint_manageable self obj \<longleftrightarrow>
     mp_port (object_cast_mptcp_addr obj) = 0 \<and> mp_ifindex (object_cast_mptcp_addr obj) > 0 \<and>
     mp_ifindex (object_cast_mptcp_addr obj) \<in> set (managed_ifindexes (by_obj self))"

definition endpoint_match :: "object_env \<Rightarrow> NMPGlobalTracker \<Rightarrow> NMPObject \<Rightarrow> TrackData option" where
  "endpoint_match env self obj =
     find (\<lambda>d. nm_platform_mptcp_addr_index_addr_equal (td_addr d) (object_cast_mptcp_addr obj)) (wanted_endpoints env self)"

definition endpoint_configured :: "NMPObject \<Rightarrow> TrackData \<Rightarrow> bool" where
  "endpoint_configured obj d \<longleftrightarrow>
     mp_flags (object_cast_mptcp_addr obj) = mp_flags (td_addr d) \<and>
     mp_ifindex (object_cast_mptcp_addr obj) = mp_ifindex (td_addr d)"

definition endpoint_deleted :: "object_env \<Rightarrow> NMPGlobalTracker \<Rightarrow> bool \<Rightarrow> NMPObject \<Rightarrow> bool" where
  "endpoint_deleted env self reapply obj \<longleftrightarrow>
     endpoint_manageable self obj \<and>
     (case endpoint_match env self obj of
        Some d \<Rightarrow> \<not> endpoint_configured obj d
      | None \<Rightarrow> reapply \<or>
          (\<exists>x\<in>set (endpoint_tombstones env (by_data self) (by_obj self)). nmp_object_id_equal env x obj))"

definition endpoint_present :: "object_env \<Rightarrow> NMPGlobalTracker \<Rightarrow> NMPObject \<Rightarrow> bool" where
  "endpoint_present env self obj \<longleftrightarrow>
     endpoint_manageable self obj \<and>
     (case endpoint_match env self obj of Some d \<Rightarrow> endpoint_configured obj d | None \<Rightarrow> False)"

lemma mptcp_add_reqs:
  "snd (mptcp_add_loop env idx ds objs) =
     map (\<lambda>d. Object_add (td_obj d))
       (filter (\<lambda>d. case find (\<lambda>kobj. nmp_object_id_equal env kobj (td_obj d)) (rev idx) of
                    Some kobj \<Rightarrow> mp_flags (object_cast_mptcp_addr kobj) \<noteq> mp_flags (td_addr d) | None \<Rightarrow> True) ds)"
  by (induction ds arbitrary: objs) (auto simp: case_prod_beta split: option.split)

lemma mptcp_verdict_eq:
  "mptcp_kaddr_verdict env reapply (managed_ifindexes (by_obj self)) (wanted_endpoints env self)
     (if reapply then [] else endpoint_tombstones env (by_data self) (by_obj self)) obj =
   (if endpoint_deleted env self reapply obj then Kaddr_delete
    else if endpoint_present env self obj then Kaddr_keep_index else Kaddr_keep)"
  "endpoint_present env self obj \<Longrightarrow> \<not> endpoint_deleted env self reapply obj"
  by (auto simp: mptcp_kaddr_verdict_def Let_def endpoint_deleted_def endpoint_present_def endpoint_manageable_def
      endpoint_match_def endpoint_configured_def split: option.splits)

lemma mptcp_verdict_index:
  "mptcp_kaddr_verdict env reapply (managed_ifindexes (by_obj self)) (wanted_endpoints env self)
     (if reapply then [] else endpoint_tombstones env (by_data self) (by_obj self)) obj = Kaddr_keep_index \<longleftrightarrow>
   endpoint_present env self obj"
  "mptcp_kaddr_verdict env reapply (managed_ifindexes (by_obj self)) (wanted_endpoints env self)
     (if reapply then [] else endpoint_tombstones env (by_data self) (by_obj self)) obj = Kaddr_delete \<longleftrightarrow>
   endpoint_deleted env self reapply obj"
  using mptcp_verdict_eq by auto

lemma wanted_mptcp:
  assumes "d \<in> set (wanted_endpoints env self)"
  shows "obj_type (td_obj d) = NMP_OBJECT_TYPE_MPTCP_ADDR"
proof -
  have "set (addr_firsts ds) \<subseteq> set ds" for ds by (induction ds) auto
  then have "d \<in> set (endpoint_winners env (by_data self) (by_obj self))"
    using assms set_take_subset unfolding wanted_endpoints_def by fastforce
  then obtain od where od: "is_endpoint od" "first_max (obj_lst env (by_data self) (tod_obj od)) = Some d"
    by (auto simp: endpoint_winners_def map_filter_def)
  then have "nmp_object_id_equal env (td_obj d) (tod_obj od)" using first_max_Some [OF od(2)] by (simp add: obj_lst_def)
  then show ?thesis using od(1) id_equal_type by (simp add: is_endpoint_def)
qed

lemma wanted_unique:
  assumes "a \<in> set (wanted_endpoints env self)" "b \<in> set (wanted_endpoints env self)" "same_addr a b"
  shows "a = b"
proof -
  have "sorted_wrt (\<lambda>a b. \<not> same_addr a b) xs \<Longrightarrow> a \<in> set xs \<Longrightarrow> b \<in> set xs \<Longrightarrow> a = b" for xs
    using assms(3) same_addr_equiv(1) by (induction xs) auto
  then show ?thesis using wanted_bounds(2) assms(1,2) by blast
qed

lemma present_flags:
  assumes "endpoint_present env self kobj" "d \<in> set (wanted_endpoints env self)" "nmp_object_id_equal env kobj (td_obj d)"
  shows "mp_flags (object_cast_mptcp_addr kobj) = mp_flags (td_addr d)"
proof -
  obtain d' where d': "endpoint_match env self kobj = Some d'" "endpoint_configured kobj d'"
    using assms(1) by (auto simp: endpoint_present_def split: option.splits)
  have "nm_platform_mptcp_addr_index_addr_equal (object_cast_mptcp_addr kobj) (td_addr d)"
    using wanted_mptcp [OF assms(2)] assms(3)
    by (cases env; cases kobj; cases "td_obj d")
      (auto simp: nmp_object_id_equal_def nmp_object_cmp_full_def vt_cmd_plobj_id_cmp_mptcp_addr_def
        nm_platform_mptcp_addr_index_addr_equal_def)
  moreover have "d' \<in> set (wanted_endpoints env self)"
    "nm_platform_mptcp_addr_index_addr_equal (td_addr d') (object_cast_mptcp_addr kobj)"
    using d'(1) by (auto simp: endpoint_match_def find_Some_iff)
  ultimately have "d' = d"
    using wanted_unique [of d' env self d] assms(2)
    by (auto simp: same_addr_def nm_platform_mptcp_addr_index_addr_equal_def nm_cmp_memcmp_def)
  then show ?thesis using d'(2) by (simp add: endpoint_configured_def)
qed

lemma find_SomeD: "find P xs = Some x \<Longrightarrow> x \<in> set xs \<and> P x"
  by (induction xs) (auto split: if_splits)

lemma sync_mptcp_reqs:
  "snd (nmp_global_tracker_sync_mptcp_addrs env self kaddrs reapply) =
     map Object_delete (filter (endpoint_deleted env self reapply) kaddrs) @
     map (\<lambda>d. Object_add (td_obj d))
       (filter (\<lambda>d. \<not> (\<exists>kobj\<in>set kaddrs. endpoint_present env self kobj \<and> nmp_object_id_equal env kobj (td_obj d)))
         (wanted_endpoints env self))"
proof -
  let ?c = "mptcp_collect_loop env (by_data self) reapply (by_obj self)"
  let ?idx = "filter (endpoint_present env self) kaddrs"
  have c: "snd ?c = (managed_ifindexes (by_obj self), endpoint_winners env (by_data self) (by_obj self),
      if reapply then [] else endpoint_tombstones env (by_data self) (by_obj self))" by (rule mptcp_collect_eq)
  let ?sorted = "g_array_sort_with_data mptcp_entries_cmp (endpoint_winners env (by_data self) (by_obj self))"
  have w: "snd (mptcp_dedup_loop env ?sorted objs []) = wanted_endpoints env self" for objs
    using mptcp_dedup_eq [of "[]"] by (simp add: sort_by_priority wanted_endpoints_def)
  have add: "(case find (\<lambda>kobj. nmp_object_id_equal env kobj (td_obj d)) (rev ?idx) of
         Some kobj \<Rightarrow> mp_flags (object_cast_mptcp_addr kobj) \<noteq> mp_flags (td_addr d) | None \<Rightarrow> True) \<longleftrightarrow>
      \<not> (\<exists>kobj\<in>set kaddrs. endpoint_present env self kobj \<and> nmp_object_id_equal env kobj (td_obj d))"
    if d: "d \<in> set (wanted_endpoints env self)" for d
  proof (cases "find (\<lambda>kobj. nmp_object_id_equal env kobj (td_obj d)) (rev ?idx)")
    case (Some kobj)
    then have "nmp_object_id_equal env kobj (td_obj d)" "kobj \<in> set ?idx" using find_SomeD [OF Some] by simp_all
    then show ?thesis using Some present_flags [OF _ d] by auto
  next
    case None
    moreover from None have "\<not> (\<exists>kobj\<in>set kaddrs. endpoint_present env self kobj \<and> nmp_object_id_equal env kobj (td_obj d))"
      by (auto simp: find_None_iff)
    ultimately show ?thesis by (simp only: option.case simp_thms)
  qed
  have "snd (nmp_global_tracker_sync_mptcp_addrs env self kaddrs reapply) =
     map Object_delete (filter (endpoint_deleted env self reapply) kaddrs) @
     snd (mptcp_add_loop env ?idx (wanted_endpoints env self)
       (fst (mptcp_dedup_loop env ?sorted (fst ?c) [])))"
    unfolding nmp_global_tracker_sync_mptcp_addrs_def case_prod_beta Let_def c fst_conv snd_conv
    unfolding w mptcp_verdict_index ..
  then show ?thesis unfolding mptcp_add_reqs using add by (simp cong: filter_cong)
qed

text \<open>
  Without \<open>reapply\<close> the only endpoints that are deleted for being unwanted are those nobody tracks any
  more. An endpoint that an earlier sync added and that is still tracked, but no longer among the first
  eight, stays in the kernel.
\<close>

lemma mptcp_truncated_kept:
  assumes "endpoint_match env self obj = None"
    "\<not> (\<exists>x\<in>set (endpoint_tombstones env (by_data self) (by_obj self)). nmp_object_id_equal env x obj)"
  shows "Object_delete obj \<notin> set (snd (nmp_global_tracker_sync_mptcp_addrs env self kaddrs False))"
  using assms by (auto simp: sync_mptcp_reqs endpoint_deleted_def)

text \<open>
  C13. The sync of the MPTCP endpoints requests exactly this: it deletes the endpoints without a port on a
  managed interface that have the address of a wanted one and differ from it in flags or interface, or that
  have no wanted address and are to be reapplied or were tracked before and are no more; then it adds, in
  order, every wanted endpoint that is not configured already. The wanted ones are the winners of the
  tracked endpoints by decreasing priority, older ones first, without those whose address came before, and
  never more than eight; no two of them have the same address.
\<close>

theorem mptcp_sync_requests:
  "snd (nmp_global_tracker_sync_mptcp_addrs env self kaddrs reapply) =
     map Object_delete (filter (endpoint_deleted env self reapply) kaddrs) @
     map (\<lambda>d. Object_add (td_obj d))
       (filter (\<lambda>d. \<not> (\<exists>kobj\<in>set kaddrs. endpoint_present env self kobj \<and> nmp_object_id_equal env kobj (td_obj d)))
         (wanted_endpoints env self)) \<and>
   length (wanted_endpoints env self) \<le> MPTCP_PM_ADDR_MAX \<and>
   sorted_wrt (\<lambda>a b. \<not> same_addr a b) (wanted_endpoints env self)"
  by (intro conjI sync_mptcp_reqs wanted_bounds)

end
