(* ===== verification/NM_Tracker_Run.thy ===== *)
theory NM_Tracker_Run
  imports NM_Tracker_Mptcp
begin

text \<open>
  The global tracker as a state machine: the trackers that the operations of
  \<^verbatim>\<open>nmp-global-tracker.c\<close> can produce in any order, and the properties that hold of all of them.
\<close>

section \<open>Reachable trackers\<close>

inductive tracker_reachable :: "object_env \<Rightarrow> platform_kernel \<Rightarrow> NMPGlobalTracker \<Rightarrow> bool" for env kern where
  new: "tracker_reachable env kern nmp_global_tracker_new"
| track: "tracker_reachable env kern self \<Longrightarrow>
    tracker_reachable env kern (fst (nmp_global_tracker_track env self obj prio tag untrack))"
| untrack: "tracker_reachable env kern self \<Longrightarrow>
    tracker_reachable env kern (fst (nmp_global_tracker_untrack env self obj tag))"
| set_dirty: "tracker_reachable env kern self \<Longrightarrow>
    tracker_reachable env kern (nmp_global_tracker_set_dirty self tag)"
| untrack_all: "tracker_reachable env kern self \<Longrightarrow>
    tracker_reachable env kern (fst (nmp_global_tracker_untrack_all env self tag all_tds survivors_dirty))"
| sync: "tracker_reachable env kern self \<Longrightarrow>
    tracker_reachable env kern (fst (nmp_global_tracker_sync env kern self cache type keep_deleted))"
| sync_mptcp: "tracker_reachable env kern self \<Longrightarrow>
    tracker_reachable env kern (fst (nmp_global_tracker_sync_mptcp_addrs env self kaddrs reapply))"

lemma reachable_inv: "tracker_reachable env kern self \<Longrightarrow> tracker_inv env self"
  by (induction rule: tracker_reachable.induct)
    (simp_all add: new_inv track_inv untrack_op_inv set_dirty_inv untrack_all_inv sync_inv sync_mptcp_inv)

section \<open>Mark and sweep\<close>

text \<open>
  How the users of the tracker renew what they track: mark all entries of the tag, track what is
  wanted now, untrack what is still marked.
\<close>

definition track_items ::
    "object_env \<Rightarrow> user_tag \<Rightarrow> (NMPObject \<times> int) list \<Rightarrow> NMPGlobalTracker \<Rightarrow> NMPGlobalTracker" where
  "track_items env tag items self =
     fold (\<lambda>(obj, prio) self. fst (nmp_global_tracker_track env self obj prio tag None)) items self"

definition mark_and_sweep ::
    "object_env \<Rightarrow> user_tag \<Rightarrow> (NMPObject \<times> int) list \<Rightarrow> NMPGlobalTracker \<Rightarrow> NMPGlobalTracker" where
  "mark_and_sweep env tag items self =
     fst (nmp_global_tracker_untrack_all env (track_items env tag items (nmp_global_tracker_set_dirty self tag)) tag
       False False)"

text \<open>The priority the items give a key; the last item of a key counts.\<close>

definition item_priority ::
    "object_env \<Rightarrow> user_tag \<Rightarrow> (NMPObject \<times> int) list \<Rightarrow> NMPObject \<times> user_tag \<Rightarrow> int option" where
  "item_priority env tag items k =
     map_option snd (find (\<lambda>(obj, _). track_obj_allowed obj \<and> same_key env k (obj, tag)) (rev items))"

lemma track_items_snoc:
  "track_items env tag (items @ [(obj, prio)]) self =
     fst (nmp_global_tracker_track env (track_items env tag items self) obj prio tag None)"
  by (simp add: track_items_def)

lemma track_items_inv: "tracker_inv env self \<Longrightarrow> tracker_inv env (track_items env tag items self)"
  by (induction items rule: rev_induct)
    (auto simp: track_items_snoc track_inv, simp add: track_items_def)

lemma entries_track_items:
  "tracked_map_of env (track_items env tag items self) k =
     (case item_priority env tag items k of Some p \<Rightarrow> Some (p, False) | None \<Rightarrow> tracked_map_of env self k)"
proof (induction items rule: rev_induct)
  case (snoc x items)
  obtain obj prio where [simp]: "x = (obj, prio)" by (cases x)
  show ?case
    using snoc by (auto simp: track_items_snoc entries_track spec_track_def item_priority_def)
qed (simp add: track_items_def item_priority_def)

lemma item_priority_tag: "item_priority env tag items k = Some p \<Longrightarrow> snd k = tag"
  using same_key_tag by (fastforce simp: item_priority_def find_Some_iff)

lemma entries_mark_and_sweep:
  assumes "tracker_inv env self"
  shows "tracked_map_of env (mark_and_sweep env tag items self) k =
    (if snd k = tag then map_option (\<lambda>p. (p, False)) (item_priority env tag items k) else tracked_map_of env self k)"
proof -
  note inv = track_items_inv [OF set_dirty_inv [OF assms]]
  show ?thesis
    using item_priority_tag [of env tag items k]
    by (auto simp: mark_and_sweep_def entries_untrack_all [OF inv] spec_untrack_all_def entries_track_items
        entries_set_dirty [OF assms] spec_set_dirty_def split: option.splits)
qed

section \<open>Properties\<close>

text \<open>
  C14. In every tracker that the operations can produce, whatever the kernel does with the requests of a sync,
  no two entries have the same key, no two objects the same identity, every entry has its object and its user
  tag in the other tables, an object without a configuration state has an entry, a priority of zero is never
  negative, and only the objects that may be tracked are.
\<close>

theorem tracker_invariant:
  assumes "tracker_reachable env kern self"
  shows "tracker_inv env self"
  by (rule reachable_inv [OF assms])

abbreviation ex_env :: object_env where
  "ex_env \<equiv> (\<lambda>_. True, \<lambda>_. 0, \<lambda>_ _. 0)"

abbreviation ex_rule :: NMPObject where
  "ex_rule \<equiv> kernel_rule NM_AF_INET 100 254"

abbreviation ex_tracker :: NMPGlobalTracker where
  "ex_tracker \<equiv> fst (nmp_global_tracker_track ex_env nmp_global_tracker_new ex_rule (- 5) 1 None)"

theorem tracker_invariant_witness: "tracker_inv ex_env ex_tracker"
  by (rule tracker_invariant [of ex_env "\<lambda>_ cache. cache"]) (intro tracker_reachable.intros)

text \<open>
  C3. The tracker implements a map from objects and user tags to a signed priority and a dirty mark: tracking
  sets the priority of one key and drops the key of the tag to untrack, untracking drops one key, setting a
  tag dirty marks the keys of the tag, and untracking all drops the marked keys of the tag, or all of them,
  and marks the survivors on demand. No other key changes.
\<close>

theorem tracker_refines_map:
  assumes "tracker_reachable env kern self"
  shows "tracked_map_of env (fst (nmp_global_tracker_track env self obj prio tag untrack)) =
           spec_track env obj prio tag untrack (tracked_map_of env self) \<and>
         tracked_map_of env (fst (nmp_global_tracker_untrack env self obj tag)) = spec_untrack env obj tag (tracked_map_of env self) \<and>
         tracked_map_of env (nmp_global_tracker_set_dirty self tag) = spec_set_dirty tag (tracked_map_of env self) \<and>
         tracked_map_of env (fst (nmp_global_tracker_untrack_all env self tag all_tds survivors_dirty)) =
           spec_untrack_all tag all_tds survivors_dirty (tracked_map_of env self)"
  using reachable_inv [OF assms]
  by (intro conjI entries_track entries_untrack_op entries_set_dirty entries_untrack_all)

theorem tracker_refines_map_witness:
  "tracked_map_of ex_env (fst (nmp_global_tracker_untrack ex_env ex_tracker ex_rule 1)) =
     spec_untrack ex_env ex_rule 1 (tracked_map_of ex_env ex_tracker)"
  using tracker_refines_map [of ex_env "\<lambda>_ cache. cache" ex_tracker ex_rule _ 1]
  by (simp add: tracker_reachable.intros)

text \<open>
  The winning entry of an object is the first one, in the order in which the entries were created, whose
  priority no other exceeds, where of the same value present beats absent; and the object remembered for the
  identity becomes the one of the winner.
\<close>

theorem best_data_is_first_max:
  "track_obj_data_get_best_data env data obj_data =
     (first_max (obj_lst env data (tod_obj obj_data)),
      case first_max (obj_lst env data (tod_obj obj_data)) of
        None \<Rightarrow> obj_data | Some td \<Rightarrow> obj_data\<lparr>tod_obj := td_obj td\<rparr>)"
  by (simp add: get_best_data_cases get_best_first_max)

text \<open>
  C23. Marking the entries of a tag, tracking a list of objects and untracking what is still marked leaves
  exactly the objects of the list under the tag, with the priorities of the list, unmarked, and changes no
  entry of another tag.
\<close>

theorem mark_and_sweep_renews:
  assumes "tracker_reachable env kern self"
  shows "tracked_map_of env (mark_and_sweep env tag items self) k =
    (if snd k = tag then map_option (\<lambda>p. (p, False)) (item_priority env tag items k) else tracked_map_of env self k)"
  by (rule entries_mark_and_sweep [OF reachable_inv [OF assms]])

theorem mark_and_sweep_renews_witness:
  "tracked_map_of ex_env (mark_and_sweep ex_env 1 [(kernel_rule NM_AF_INET 200 254, 7)] ex_tracker)
     (kernel_rule NM_AF_INET 200 254, 1) = Some (7, False)"
proof -
  have "tracker_reachable ex_env (\<lambda>_ cache. cache) ex_tracker" by (intro tracker_reachable.intros)
  from mark_and_sweep_renews [OF this, of 1 "[(kernel_rule NM_AF_INET 200 254, 7)]" "(kernel_rule NM_AF_INET 200 254, 1)"]
  show ?thesis by (simp add: item_priority_def kernel_rule_def)
qed

text \<open>
  C1. When the kernel executes the requests, a sync does to every identity what the tracked entries say: where the
  winner is present with a positive priority, an object that is semantically equal to the tracked one exists
  afterwards; where it is absent, or nobody tracks an object the tracker once configured, no object of that
  identity is left, unless deleted objects are to be kept; with priority zero an object is only added back
  after the tracker removed it; and every other object, tracked under another type or not tracked, is left
  alone.
\<close>

theorem sync_follows_verdict:
  assumes "tracker_reachable env kern self" "kernel_deletes env kern" "kernel_adds env kern"
    "type \<noteq> NMP_OBJECT_TYPE_MPTCP_ADDR"
  shows "verdict_kept env ob cache (fst (snd (nmp_global_tracker_sync env kern self cache type keep_deleted)))
    (sync_verdict env self cache type keep_deleted ob)"
  by (rule sync_verdict_kept [OF reachable_inv [OF assms(1)] assms(2-4)])

definition ex_kernel :: platform_kernel where
  "ex_kernel req cache =
     (case req of
        Object_delete x \<Rightarrow> filter (\<lambda>y. \<not> nmp_object_id_equal ex_env y x) cache
      | Object_add x \<Rightarrow> x # cache)"

lemma ex_kernel_ok: "kernel_deletes ex_env ex_kernel" "kernel_adds ex_env ex_kernel"
proof -
  have "object_cmp_semantically ex_env x x = 0" for x
    by (cases x) (simp_all add: object_cmp_semantically_def ip6_cmp_simps same_prefix6_key
        ip4_route.cmp_refl routing_rule.cmp_refl)
  then show "kernel_adds ex_env ex_kernel"
    unfolding kernel_adds_def ex_kernel_def platform_request.case by (metis list.simps(15) oid.id_refl)
  show "kernel_deletes ex_env ex_kernel" by (simp add: kernel_deletes_def ex_kernel_def)
qed

theorem sync_follows_verdict_witness:
  "class_of ex_env ex_rule
     (fst (snd (nmp_global_tracker_sync ex_env ex_kernel ex_tracker [ex_rule] NMP_OBJECT_TYPE_ROUTING_RULE False))) = {}"
proof -
  have "tracker_reachable ex_env ex_kernel ex_tracker" by (intro tracker_reachable.intros)
  from sync_follows_verdict [OF this ex_kernel_ok, of NMP_OBJECT_TYPE_ROUTING_RULE ex_rule "[ex_rule]" False]
  have "verdict_kept ex_env ex_rule [ex_rule]
      (fst (snd (nmp_global_tracker_sync ex_env ex_kernel ex_tracker [ex_rule] NMP_OBJECT_TYPE_ROUTING_RULE False)))
      (sync_verdict ex_env ex_tracker [ex_rule] NMP_OBJECT_TYPE_ROUTING_RULE False ex_rule)" by simp
  moreover have "sync_verdict ex_env ex_tracker [ex_rule] NMP_OBJECT_TYPE_ROUTING_RULE False ex_rule = Remove"
    by (simp add: sync_verdict_def kernel_rule_def nmp_global_tracker_track_def track_entry_def nmp_global_tracker_new_def
        track_data_lookup_def obj_data_lookup_def track_untrack_other_def obj_lst_def first_max_def)
  ultimately show ?thesis by simp
qed

end
