(* ===== verification/NM_Search.thy ===== *)
theory NM_Search
  imports NM_Prelude
begin

text \<open>
  Binary search in sorted arrays (\<^verbatim>\<open>nm-shared-utils.c\<close>). The comparison with the needle is one function
  from the elements to a number. Every read of the array is checked: a read outside of it makes the
  result none. Indexes are signed 64-bit numbers in the code; no array is long enough to make them overflow.
\<close>

section \<open>Operations\<close>

definition array_read :: "'a list \<Rightarrow> int \<Rightarrow> 'a option" where
  "array_read xs i = (if 0 \<le> i \<and> i < int (length xs) then Some (xs ! nat i) else None)"

fun nm_utils_ptrarray_is_sorted :: "('a \<Rightarrow> 'a \<Rightarrow> int) \<Rightarrow> bool \<Rightarrow> 'a list \<Rightarrow> bool" where
  "nm_utils_ptrarray_is_sorted cmpfcn require_strict (x # y # ys) =
     (let c = cmpfcn x y in
      if c < 0 then nm_utils_ptrarray_is_sorted cmpfcn require_strict (y # ys)
      else if c > 0 \<or> require_strict then False
      else nm_utils_ptrarray_is_sorted cmpfcn require_strict (y # ys))"
| "nm_utils_ptrarray_is_sorted cmpfcn require_strict _ = True"

function bsearch_loop :: "('a \<Rightarrow> int) \<Rightarrow> 'a list \<Rightarrow> int \<Rightarrow> int \<Rightarrow> int option" where
  "bsearch_loop cmp xs imin imax =
     (if imin \<le> imax then
        (let imid = imin + (imax - imin) div 2 in
         case array_read xs imid of
           None \<Rightarrow> None
         | Some x \<Rightarrow>
             if cmp x = 0 then Some imid
             else if cmp x < 0 then bsearch_loop cmp xs (imid + 1) imax
             else bsearch_loop cmp xs imin (imid - 1))
      else Some (- imin - 1))"
  by pat_completeness auto

termination
  by (relation "measure (\<lambda>(cmp, xs, imin, imax). nat (imax - imin + 1))") auto

definition nm_ptrarray_find_bsearch :: "('a \<Rightarrow> 'n \<Rightarrow> int) \<Rightarrow> 'a list \<Rightarrow> 'n \<Rightarrow> int option" where
  "nm_ptrarray_find_bsearch cmpfcn xs needle =
     (if length xs > 0 then bsearch_loop (\<lambda>x. cmpfcn x needle) xs 0 (int (length xs) - 1) else Some (- 1))"

definition nm_array_find_bsearch_inline :: "('a \<Rightarrow> 'n \<Rightarrow> int) \<Rightarrow> 'a list \<Rightarrow> 'n \<Rightarrow> int option" where
  "nm_array_find_bsearch_inline cmpfcn xs needle =
     (if length xs = 0 then Some (- 1) else bsearch_loop (\<lambda>x. cmpfcn x needle) xs 0 (int (length xs) - 1))"

function bsearch_first_loop :: "('a \<Rightarrow> int) \<Rightarrow> 'a list \<Rightarrow> int \<Rightarrow> int \<Rightarrow> int option" where
  "bsearch_first_loop cmp xs i2min i2max =
     (if i2min \<le> i2max then
        (let i2mid = i2min + (i2max - i2min) div 2 in
         case array_read xs i2mid of
           None \<Rightarrow> None
         | Some x \<Rightarrow>
             if cmp x = 0 then bsearch_first_loop cmp xs i2min (i2mid - 1)
             else bsearch_first_loop cmp xs (i2mid + 1) i2max)
      else Some i2min)"
  by pat_completeness auto

termination
  by (relation "measure (\<lambda>(cmp, xs, imin, imax). nat (imax - imin + 1))") auto

function bsearch_last_loop :: "('a \<Rightarrow> int) \<Rightarrow> 'a list \<Rightarrow> int \<Rightarrow> int \<Rightarrow> int option" where
  "bsearch_last_loop cmp xs i2min i2max =
     (if i2min \<le> i2max then
        (let i2mid = i2min + (i2max - i2min) div 2 in
         case array_read xs i2mid of
           None \<Rightarrow> None
         | Some x \<Rightarrow>
             if cmp x = 0 then bsearch_last_loop cmp xs (i2mid + 1) i2max
             else bsearch_last_loop cmp xs i2min (i2mid - 1))
      else Some (i2min - 1))"
  by pat_completeness auto

termination
  by (relation "measure (\<lambda>(cmp, xs, imin, imax). nat (imax - imin + 1))") auto

text \<open>The result is the index with the first and the last index of an equal element.\<close>

function bsearch_range_loop :: "('a \<Rightarrow> int) \<Rightarrow> 'a list \<Rightarrow> int \<Rightarrow> int \<Rightarrow> (int \<times> int \<times> int) option" where
  "bsearch_range_loop cmp xs imin imax =
     (if imin \<le> imax then
        (let imid = imin + (imax - imin) div 2 in
         case array_read xs imid of
           None \<Rightarrow> None
         | Some x \<Rightarrow>
             if cmp x = 0 then
               (case bsearch_first_loop cmp xs imin (imid + 1) of
                  None \<Rightarrow> None
                | Some idx_first \<Rightarrow>
                    (case bsearch_last_loop cmp xs (imid + 1) imax of
                       None \<Rightarrow> None
                     | Some idx_last \<Rightarrow> Some (imid, idx_first, idx_last)))
             else if cmp x < 0 then bsearch_range_loop cmp xs (imid + 1) imax
             else bsearch_range_loop cmp xs imin (imid - 1))
      else Some (- imin - 1, - imin - 1, - imin - 1))"
  by pat_completeness auto

termination
  by (relation "measure (\<lambda>(cmp, xs, imin, imax). nat (imax - imin + 1))") auto

definition nm_ptrarray_find_bsearch_range ::
    "('a \<Rightarrow> 'n \<Rightarrow> int) \<Rightarrow> 'a list \<Rightarrow> 'n \<Rightarrow> (int \<times> int \<times> int) option" where
  "nm_ptrarray_find_bsearch_range cmpfcn xs needle =
     (if length xs > 0 then bsearch_range_loop (\<lambda>x. cmpfcn x needle) xs 0 (int (length xs) - 1)
      else Some (- 1, - 1, - 1))"

declare bsearch_loop.simps [simp del] bsearch_first_loop.simps [simp del] bsearch_last_loop.simps [simp del]
  bsearch_range_loop.simps [simp del]

section \<open>Correctness\<close>

text \<open>The elements below the needle come first, then the equal ones, then those above.\<close>

definition cmp_part :: "('a \<Rightarrow> int) \<Rightarrow> 'a list \<Rightarrow> int \<Rightarrow> int \<Rightarrow> bool" where
  "cmp_part cmp xs lo hi \<longleftrightarrow>
     0 \<le> lo \<and> lo \<le> hi \<and> hi \<le> int (length xs) \<and>
     (\<forall>i x. array_read xs i = Some x \<longrightarrow> (cmp x < 0 \<longleftrightarrow> i < lo) \<and> (cmp x > 0 \<longleftrightarrow> i \<ge> hi))"

lemma cmp_part_read:
  assumes "cmp_part cmp xs lo hi" "0 \<le> i" "i < int (length xs)"
  obtains x where "array_read xs i = Some x" "cmp x < 0 \<longleftrightarrow> i < lo" "cmp x > 0 \<longleftrightarrow> i \<ge> hi"
proof -
  have "array_read xs i = Some (xs ! nat i)" using assms(2,3) by (simp add: array_read_def)
  then show ?thesis using assms(1) that by (auto simp: cmp_part_def)
qed

lemma mid_bounds:
  fixes a b :: int
  assumes "a \<le> b"
  shows "a \<le> a + (b - a) div 2" "a + (b - a) div 2 \<le> b"
  using assms by linarith+

lemma bsearch_loop_correct:
  assumes "cmp_part cmp xs lo hi" "0 \<le> imin" "imax < int (length xs)" "imin \<le> lo" "hi \<le> imax + 1"
  shows "\<exists>i. bsearch_loop cmp xs imin imax = Some i \<and> (if lo < hi then lo \<le> i \<and> i < hi else i = - lo - 1)"
  using assms
proof (induction cmp xs imin imax rule: bsearch_loop.induct)
  case (1 cmp xs imin imax)
  show ?case
  proof (cases "imin \<le> imax")
    case True
    define mid where "mid = imin + (imax - imin) div 2"
    have m: "imin \<le> mid" "mid \<le> imax" using mid_bounds [OF True] by (simp_all add: mid_def)
    obtain x where x: "array_read xs mid = Some x" "cmp x < 0 \<longleftrightarrow> mid < lo" "cmp x > 0 \<longleftrightarrow> mid \<ge> hi"
      using cmp_part_read [OF "1.prems"(1), of mid] m "1.prems"(2,3) by auto
    consider "cmp x = 0" | "cmp x < 0" | "cmp x > 0" by linarith
    then show ?thesis
    proof cases
      case 1
      then show ?thesis using True x by (subst bsearch_loop.simps) (auto simp: Let_def simp flip: mid_def)
    next
      case 2
      then show ?thesis
        using True x m "1.prems" "1.IH"(1) [OF True mid_def x(1)]
        by (subst bsearch_loop.simps) (auto simp: Let_def simp flip: mid_def)
    next
      case 3
      then show ?thesis
        using True x m "1.prems" "1.IH"(2) [OF True mid_def x(1)]
        by (subst bsearch_loop.simps) (auto simp: Let_def simp flip: mid_def)
    qed
  next
    case False
    then show ?thesis using "1.prems" by (subst bsearch_loop.simps) (auto simp: cmp_part_def)
  qed
qed

lemma bsearch_first_loop_correct:
  assumes "cmp_part cmp xs lo hi" "0 \<le> i2min" "i2min \<le> lo" "lo \<le> i2max + 1" "lo < hi" "i2max \<le> imid + 1"
    "lo \<le> imid" "imid < hi"
  shows "bsearch_first_loop cmp xs i2min i2max = Some lo"
  using assms
proof (induction cmp xs i2min i2max rule: bsearch_first_loop.induct)
  case (1 cmp xs i2min i2max)
  show ?case
  proof (cases "i2min \<le> i2max")
    case True
    define mid where "mid = i2min + (i2max - i2min) div 2"
    have m: "i2min \<le> mid" "mid \<le> i2max" "mid \<le> imid"
      using mid_bounds [OF True] "1.prems"(3,6,7) by (simp_all add: mid_def, linarith?)
    obtain x where x: "array_read xs mid = Some x" "cmp x < 0 \<longleftrightarrow> mid < lo" "cmp x > 0 \<longleftrightarrow> mid \<ge> hi"
      using cmp_part_read [OF "1.prems"(1), of mid] m "1.prems" by (auto simp: cmp_part_def)
    show ?thesis
    proof (cases "cmp x = 0")
      case c: True
      then show ?thesis
        using True x m "1.prems" "1.IH"(1) [OF True mid_def x(1)]
        by (subst bsearch_first_loop.simps) (auto simp: Let_def simp flip: mid_def)
    next
      case c: False
      then have "mid < lo" using x m "1.prems"(8) by linarith
      then show ?thesis
        using c True x m "1.prems" "1.IH"(2) [OF True mid_def x(1)]
        by (subst bsearch_first_loop.simps) (auto simp: Let_def simp flip: mid_def)
    qed
  next
    case False
    then show ?thesis using "1.prems" by (subst bsearch_first_loop.simps) auto
  qed
qed

lemma bsearch_last_loop_correct:
  assumes "cmp_part cmp xs lo hi" "0 \<le> i2min" "i2max < int (length xs)" "lo < i2min" "i2min \<le> hi" "hi \<le> i2max + 1"
  shows "bsearch_last_loop cmp xs i2min i2max = Some (hi - 1)"
  using assms
proof (induction cmp xs i2min i2max rule: bsearch_last_loop.induct)
  case (1 cmp xs i2min i2max)
  show ?case
  proof (cases "i2min \<le> i2max")
    case True
    define mid where "mid = i2min + (i2max - i2min) div 2"
    have m: "i2min \<le> mid" "mid \<le> i2max" using mid_bounds [OF True] by (simp_all add: mid_def)
    obtain x where x: "array_read xs mid = Some x" "cmp x < 0 \<longleftrightarrow> mid < lo" "cmp x > 0 \<longleftrightarrow> mid \<ge> hi"
      using cmp_part_read [OF "1.prems"(1), of mid] m "1.prems"(2,3) by auto
    show ?thesis
    proof (cases "cmp x = 0")
      case c: True
      then show ?thesis
        using True x m "1.prems" "1.IH"(1) [OF True mid_def x(1)]
        by (subst bsearch_last_loop.simps) (auto simp: Let_def simp flip: mid_def)
    next
      case c: False
      then have "mid \<ge> hi" using x m "1.prems"(4) by linarith
      then show ?thesis
        using c True x m "1.prems" "1.IH"(2) [OF True mid_def x(1)]
        by (subst bsearch_last_loop.simps) (auto simp: Let_def simp flip: mid_def)
    qed
  next
    case False
    then show ?thesis using "1.prems" by (subst bsearch_last_loop.simps) auto
  qed
qed

lemma bsearch_range_loop_correct:
  assumes "cmp_part cmp xs lo hi" "0 \<le> imin" "imax < int (length xs)" "imin \<le> lo" "hi \<le> imax + 1"
  shows "\<exists>i. bsearch_range_loop cmp xs imin imax =
      Some (if lo < hi then (i, lo, hi - 1) else (- lo - 1, - lo - 1, - lo - 1)) \<and> (lo < hi \<longrightarrow> lo \<le> i \<and> i < hi)"
  using assms
proof (induction cmp xs imin imax rule: bsearch_range_loop.induct)
  case (1 cmp xs imin imax)
  show ?case
  proof (cases "imin \<le> imax")
    case True
    define mid where "mid = imin + (imax - imin) div 2"
    have m: "imin \<le> mid" "mid \<le> imax" using mid_bounds [OF True] by (simp_all add: mid_def)
    obtain x where x: "array_read xs mid = Some x" "cmp x < 0 \<longleftrightarrow> mid < lo" "cmp x > 0 \<longleftrightarrow> mid \<ge> hi"
      using cmp_part_read [OF "1.prems"(1), of mid] m "1.prems"(2,3) by auto
    consider "cmp x = 0" | "cmp x < 0" | "cmp x > 0" by linarith
    then show ?thesis
    proof cases
      case 1
      then have l: "lo \<le> mid" "mid < hi" using x by linarith+
      have "bsearch_first_loop cmp xs imin (mid + 1) = Some lo"
        using "1.prems" l by (intro bsearch_first_loop_correct [where imid = mid]) auto
      moreover have "bsearch_last_loop cmp xs (mid + 1) imax = Some (hi - 1)"
        using "1.prems" l m by (intro bsearch_last_loop_correct) auto
      ultimately show ?thesis
        using True x l 1 by (subst bsearch_range_loop.simps) (auto simp: Let_def simp flip: mid_def)
    next
      case 2
      then show ?thesis
        using True x m "1.prems" "1.IH"(1) [OF True mid_def x(1)]
        by (subst bsearch_range_loop.simps) (auto simp: Let_def simp flip: mid_def)
    next
      case 3
      then show ?thesis
        using True x m "1.prems" "1.IH"(2) [OF True mid_def x(1)]
        by (subst bsearch_range_loop.simps) (auto simp: Let_def simp flip: mid_def)
    qed
  next
    case False
    then show ?thesis using "1.prems" by (subst bsearch_range_loop.simps) (auto simp: cmp_part_def)
  qed
qed

lemma array_read_Cons: "array_read (x # xs) i = (if i = 0 then Some x else array_read xs (i - 1))"
  by (auto simp: array_read_def nth_Cons' nat_diff_distrib)

lemma cmp_part_Cons:
  assumes "cmp_part cmp xs lo hi" "0 \<le> lo'" "lo' \<le> hi'" "hi' \<le> int (length (x # xs))"
    "cmp x < 0 \<longleftrightarrow> 0 < lo'" "cmp x > 0 \<longleftrightarrow> hi' \<le> 0"
    "\<And>i. 0 < i \<Longrightarrow> i - 1 < lo \<longleftrightarrow> i < lo'" "\<And>i. 0 < i \<Longrightarrow> i - 1 \<ge> hi \<longleftrightarrow> i \<ge> hi'"
  shows "cmp_part cmp (x # xs) lo' hi'"
  unfolding cmp_part_def
proof (intro conjI allI impI)
  fix i y
  assume y: "array_read (x # xs) i = Some y"
  then have i: "0 \<le> i" by (auto simp: array_read_def split: if_splits)
  show "cmp y < 0 \<longleftrightarrow> i < lo'"
    using y i assms(1) assms(5) assms(7) [of i] by (cases "i = 0") (auto simp: array_read_Cons cmp_part_def)
  show "cmp y > 0 \<longleftrightarrow> i \<ge> hi'"
    using y i assms(1) assms(6) assms(8) [of i] by (cases "i = 0") (auto simp: array_read_Cons cmp_part_def)
qed (use assms in auto)

text \<open>How many elements are smaller than the needle, and how many are not larger.\<close>

definition n_below :: "('a \<Rightarrow> 'n \<Rightarrow> int) \<Rightarrow> 'a list \<Rightarrow> 'n \<Rightarrow> int" where
  "n_below cmp xs needle = int (length (filter (\<lambda>x. cmp x needle < 0) xs))"

definition n_upto :: "('a \<Rightarrow> 'n \<Rightarrow> int) \<Rightarrow> 'a list \<Rightarrow> 'n \<Rightarrow> int" where
  "n_upto cmp xs needle = int (length (filter (\<lambda>x. cmp x needle \<le> 0) xs))"

definition bsearch_result :: "('a \<Rightarrow> 'n \<Rightarrow> int) \<Rightarrow> 'a list \<Rightarrow> 'n \<Rightarrow> int \<Rightarrow> bool" where
  "bsearch_result cmp xs needle i \<longleftrightarrow>
     (if n_below cmp xs needle < n_upto cmp xs needle
      then n_below cmp xs needle \<le> i \<and> i < n_upto cmp xs needle else i = - n_below cmp xs needle - 1)"

context compare_order
begin

lemma is_sorted_wrt: "nm_utils_ptrarray_is_sorted cmp False xs \<longleftrightarrow> sorted_wrt (\<lambda>a b. cmp a b \<le> 0) xs"
proof (induction xs rule: induct_list012)
  case (3 x y ys)
  have "cmp x z \<le> 0" if "cmp x y \<le> 0" "\<forall>z\<in>set ys. cmp y z \<le> 0" "z \<in> set ys" for z
    using cmp_trans that by blast
  then show ?case using 3 by (auto simp: Let_def)
qed simp_all

lemma sorted_cmp_part:
  assumes "sorted_wrt (\<lambda>a b. cmp a b \<le> 0) xs"
  shows "cmp_part (\<lambda>x. cmp x needle) xs (int (length (filter (\<lambda>x. cmp x needle < 0) xs)))
    (int (length (filter (\<lambda>x. cmp x needle \<le> 0) xs)))"
  using assms
proof (induction xs)
  case (Cons x xs)
  let ?lo = "int (length (filter (\<lambda>x. cmp x needle < 0) xs))" and ?hi = "int (length (filter (\<lambda>x. cmp x needle \<le> 0) xs))"
  have IH: "cmp_part (\<lambda>x. cmp x needle) xs ?lo ?hi" using Cons by simp
  have later: "cmp y needle \<ge> 0" if "y \<in> set xs" "cmp x needle \<ge> 0" for y
  proof -
    have "cmp needle x \<le> 0" using that(2) cmp_antisym [of x needle] by linarith
    moreover have "cmp x y \<le> 0" using that(1) Cons.prems by simp
    ultimately have "cmp needle y \<le> 0" by (rule cmp_trans)
    then show ?thesis using cmp_antisym [of y needle] by linarith
  qed
  have above: "cmp y needle > 0" if "y \<in> set xs" "cmp x needle > 0" for y
    using that Cons.prems cmp_trans [of x y needle] by fastforce
  have lo: "?lo = 0" if "cmp x needle \<ge> 0" using later that by (force simp: filter_empty_conv)
  have hi: "?hi = 0" if "cmp x needle > 0" using above that by (force simp: filter_empty_conv)
  have len: "?hi \<le> int (length xs)" "?lo \<le> ?hi" using IH by (simp_all add: cmp_part_def)
  show ?case
    by (rule cmp_part_Cons [OF IH]) (use lo hi len in auto)
qed (simp add: cmp_part_def array_read_def)

lemma find_bsearch_correct:
  assumes "nm_utils_ptrarray_is_sorted cmp False xs"
  shows "\<exists>i. nm_ptrarray_find_bsearch cmp xs needle = Some i \<and> bsearch_result cmp xs needle i"
proof (cases xs)
  case (Cons y ys)
  have p: "cmp_part (\<lambda>x. cmp x needle) xs (n_below cmp xs needle) (n_upto cmp xs needle)"
    using sorted_cmp_part assms unfolding n_below_def n_upto_def is_sorted_wrt by blast
  then show ?thesis
    using bsearch_loop_correct [OF p, of 0 "int (length xs) - 1"] Cons
    by (auto simp: nm_ptrarray_find_bsearch_def cmp_part_def bsearch_result_def)
qed (simp add: nm_ptrarray_find_bsearch_def bsearch_result_def n_below_def n_upto_def)

lemma find_bsearch_range_correct:
  assumes "nm_utils_ptrarray_is_sorted cmp False xs"
  shows "\<exists>i. nm_ptrarray_find_bsearch_range cmp xs needle =
      Some (if n_below cmp xs needle < n_upto cmp xs needle
            then (i, n_below cmp xs needle, n_upto cmp xs needle - 1) else (i, i, i)) \<and> bsearch_result cmp xs needle i"
proof (cases xs)
  case (Cons y ys)
  have p: "cmp_part (\<lambda>x. cmp x needle) xs (n_below cmp xs needle) (n_upto cmp xs needle)"
    using sorted_cmp_part assms unfolding n_below_def n_upto_def is_sorted_wrt by blast
  then show ?thesis
    using bsearch_range_loop_correct [OF p, of 0 "int (length xs) - 1"] Cons
    by (auto simp: nm_ptrarray_find_bsearch_range_def cmp_part_def bsearch_result_def)
qed (simp add: nm_ptrarray_find_bsearch_range_def bsearch_result_def n_below_def n_upto_def)

end

text \<open>
  C28. In an array that is sorted by a comparison function, the three binary searches end without reading outside of
  the array. They return an index of an equal element, and the range search with it the first and the last
  index of such an element; if there is none, the inverse of the position where the element belongs, which is
  the number of smaller elements.
\<close>

theorem bsearch_correct:
  assumes "compare_ok cmp" "nm_utils_ptrarray_is_sorted cmp False xs"
  shows "\<exists>i j.
      nm_ptrarray_find_bsearch cmp xs needle = Some i \<and> nm_array_find_bsearch_inline cmp xs needle = Some i \<and>
      nm_ptrarray_find_bsearch_range cmp xs needle =
        Some (if n_below cmp xs needle < n_upto cmp xs needle
              then (j, n_below cmp xs needle, n_upto cmp xs needle - 1) else (j, j, j)) \<and>
      bsearch_result cmp xs needle i \<and> bsearch_result cmp xs needle j"
proof -
  have "nm_array_find_bsearch_inline cmp xs needle = nm_ptrarray_find_bsearch cmp xs needle"
    by (simp add: nm_array_find_bsearch_inline_def nm_ptrarray_find_bsearch_def)
  then show ?thesis
    using compare_order.find_bsearch_correct [of cmp xs needle] compare_order.find_bsearch_range_correct [of cmp xs needle]
      assms unfolding compare_ok_iff by auto
qed

theorem bsearch_correct_witness:
  "\<exists>i. nm_ptrarray_find_bsearch (\<lambda>a b. a - b) [1, 3, 3, 7 :: int] 3 = Some i \<and> 1 \<le> i \<and> i < 3"
proof -
  have "compare_ok (\<lambda>a b :: int. a - b)" by (simp add: compare_ok_def)
  from bsearch_correct [OF this, of "[1, 3, 3, 7]" 3] show ?thesis
    by (auto simp: bsearch_result_def n_below_def n_upto_def)
qed

end
