(* ===== verification/NM_Env_Var.thy ===== *)
theory NM_Env_Var
  imports NM_Chars
begin

text \<open>
  Encoding of names as environment variables (\<^verbatim>\<open>nm_utils_env_var_encode_name\<close>,
  \<^verbatim>\<open>nm_utils_env_var_decode_name\<close> of \<^verbatim>\<open>nm-shared-utils.c\<close>).
\<close>

section \<open>Operations\<close>

text \<open>The octal digits of a number, padded with zeros to at least three: \<^verbatim>\<open>%03o\<close>.\<close>

fun octal_digits :: "nat \<Rightarrow> u8 list" where
  "octal_digits n = (if n < 8 then [ascii (CHR ''0'') + of_nat n] else octal_digits (n div 8) @ [ascii (CHR ''0'') + of_nat (n mod 8)])"

declare octal_digits.simps [simp del]

definition format_03o :: "nat \<Rightarrow> u8 list" where
  "format_03o n = replicate (3 - length (octal_digits n)) (ascii (CHR ''0'')) @ octal_digits n"

text \<open>
  The cast \<^verbatim>\<open>(unsigned) ch\<close> extends the sign where the type \<^verbatim>\<open>char\<close> is signed, which depends on the
  platform: a byte above 127 is a negative number then, and the cast adds two to the power of 32.
\<close>

definition char_to_unsigned :: "bool \<Rightarrow> u8 \<Rightarrow> nat" where
  "char_to_unsigned char_signed ch = (if char_signed \<and> 128 \<le> ch then 2 ^ 32 - 256 + unat ch else unat ch)"

definition env_var_encode_char :: "bool \<Rightarrow> u8 \<Rightarrow> u8 list" where
  "env_var_encode_char char_signed ch =
     (if in_range (ascii (CHR ''0'')) (ascii (CHR ''9'')) ch then [ch]
      else if in_range (ascii (CHR ''a'')) (ascii (CHR ''z'')) ch then [ch - ascii (CHR ''a'') + ascii (CHR ''A'')]
      else if ch = ascii (CHR ''.'') then [ascii (CHR ''_''), ascii (CHR ''_'')]
      else if in_range (ascii (CHR ''A'')) (ascii (CHR ''Z'')) ch then [ascii (CHR ''_''), ch]
      else ascii (CHR ''_'') # format_03o (char_to_unsigned char_signed ch))"

definition nm_utils_env_var_encode_name :: "bool \<Rightarrow> u8 list \<Rightarrow> u8 list" where
  "nm_utils_env_var_encode_name char_signed key = concat (map (env_var_encode_char char_signed) key)"

text \<open>The result is whether the name is valid and what was appended to the buffer.\<close>

abbreviation is_octal :: "u8 \<Rightarrow> bool" where
  "is_octal \<equiv> in_range (ascii (CHR ''0'')) (ascii (CHR ''7''))"

definition octal_value3 :: "u8 \<Rightarrow> u8 \<Rightarrow> u8 \<Rightarrow> nat" where
  "octal_value3 ch ch2 ch3 = unat (ch - ascii (CHR ''0'')) * 64 + unat (ch2 - ascii (CHR ''0'')) * 8 + unat (ch3 - ascii (CHR ''0''))"

definition env_var_regular :: "u8 \<Rightarrow> bool" where
  "env_var_regular ch \<longleftrightarrow>
     in_range (ascii (CHR ''A'')) (ascii (CHR ''Z'')) ch \<or> in_range (ascii (CHR ''0'')) (ascii (CHR ''9'')) ch \<or>
     ch = ascii (CHR ''.'') \<or> in_range (ascii (CHR ''a'')) (ascii (CHR ''z'')) ch"

function env_var_decode_loop :: "u8 list \<Rightarrow> u8 list \<Rightarrow> bool \<times> u8 list" where
  "env_var_decode_loop name buf =
     (if name = [] then (True, buf)
      else
        (let ch = str_at name 0 in
         if in_range (ascii (CHR ''0'')) (ascii (CHR ''9'')) ch then env_var_decode_loop (drop 1 name) (buf @ [ch])
         else if in_range (ascii (CHR ''A'')) (ascii (CHR ''Z'')) ch
         then env_var_decode_loop (drop 1 name) (buf @ [ch - ascii (CHR ''A'') + ascii (CHR ''a'')])
         else if ch = ascii (CHR ''_'') then
           (let ch = str_at name 1 in
            if ch = ascii (CHR ''_'') then env_var_decode_loop (drop 2 name) (buf @ [ascii (CHR ''.'')])
            else if in_range (ascii (CHR ''A'')) (ascii (CHR ''Z'')) ch then env_var_decode_loop (drop 2 name) (buf @ [ch])
            else if is_octal ch then
              (if \<not> is_octal (str_at name 2) then (False, buf)
               else if \<not> is_octal (str_at name 3) then (False, buf)
               else
                 (let v = octal_value3 ch (str_at name 2) (str_at name 3) in
                  if v > 0xFF \<or> v = 0 then (False, buf)
                  else if env_var_regular (of_nat v) then (False, buf)
                  else env_var_decode_loop (drop 4 name) (buf @ [of_nat v])))
            else (False, buf))
         else (False, buf)))"
  by pat_completeness auto

termination
  by (relation "measure (\<lambda>(name, buf). length name)") auto

declare env_var_decode_loop.simps [simp del]

definition nm_utils_env_var_decode_name :: "u8 list \<Rightarrow> bool \<times> u8 list" where
  "nm_utils_env_var_decode_name name = (if str_at name 0 = 0 then (False, []) else env_var_decode_loop name [])"

section \<open>Round trip\<close>

lemma octal_digits_3:
  assumes "64 \<le> n" "n < 512"
  shows "octal_digits n = map (\<lambda>d. ascii (CHR ''0'') + of_nat d) [n div 64, n div 8 mod 8, n mod 8]"
proof -
  have "\<not> n < 8" "\<not> n div 8 < 8" "n div 64 < 8" "n div 8 div 8 = n div 64" using assms by simp_all
  then show ?thesis by (simp add: octal_digits.simps [of n] octal_digits.simps [of "n div 8"] octal_digits.simps [of "n div 64"])
qed

lemma format_03o_eq:
  assumes "n < 512"
  shows "format_03o n = map (\<lambda>d. ascii (CHR ''0'') + of_nat d) [n div 64, n div 8 mod 8, n mod 8]"
proof -
  consider "n < 8" | "8 \<le> n" "n < 64" | "64 \<le> n" by linarith
  then show ?thesis
  proof cases
    case 1
    then show ?thesis by (simp add: format_03o_def octal_digits.simps [of n] numeral_2_eq_2)
  next
    case 2
    then have "n div 8 < 8" "n div 64 = 0" by simp_all
    then show ?thesis using 2
      by (simp add: format_03o_def octal_digits.simps [of n] octal_digits.simps [of "n div 8"])
  next
    case 3
    then show ?thesis using octal_digits_3 [OF 3 assms] by (simp add: format_03o_def)
  qed
qed

lemma octal_digit:
  assumes "d < 8"
  shows "is_octal (ascii (CHR ''0'') + of_nat d)" "unat (ascii (CHR ''0'') + of_nat d - ascii (CHR ''0'')) = d"
proof -
  have "d \<in> {0, 1, 2, 3, 4, 5, 6, 7}" using assms by auto
  then show "is_octal (ascii (CHR ''0'') + of_nat d)" "unat (ascii (CHR ''0'') + of_nat d - ascii (CHR ''0'')) = d" by auto
qed

lemma octal_digits_step: "0 < a \<Longrightarrow> d < 8 \<Longrightarrow> octal_digits (a * 8 + d) = octal_digits a @ [ascii (CHR ''0'') + of_nat d]"
  by (simp add: octal_digits.simps [of "a * 8 + d"])

lemma octal_digits_step3:
  assumes "0 < a" "d1 < 8" "d2 < 8" "d3 < 8"
  shows "octal_digits (((a * 8 + d1) * 8 + d2) * 8 + d3) = octal_digits a @ map (\<lambda>d. ascii (CHR ''0'') + of_nat d) [d1, d2, d3]"
  using assms octal_digits_step [of "(a * 8 + d1) * 8 + d2" d3] octal_digits_step [of "a * 8 + d1" d2] octal_digits_step [of a d1]
  by simp

text \<open>What the decoder makes of the encoding of one byte.\<close>

definition env_var_decoded :: "bool \<Rightarrow> u8 \<Rightarrow> u8 list" where
  "env_var_decoded char_signed ch =
     (if char_signed \<and> 128 \<le> ch
      then 0xFF # replicate 5 (ascii (CHR ''7'')) @
        map (\<lambda>d. ascii (CHR ''0'') + of_nat d) [(256 + unat ch) div 64, unat ch div 8 mod 8, unat ch mod 8]
      else [ch])"

lemma replicate_7: "replicate 7 (x :: 'a) = [x, x] @ replicate 5 x" "replicate 5 x = [x, x, x, x, x]"
  by (simp_all add: numeral_eq_Suc)

lemma octal_digits_signed:
  fixes ch :: u8
  assumes "128 \<le> ch"
  shows "format_03o (2 ^ 32 - 256 + unat ch) =
    ascii (CHR ''3'') # replicate 7 (ascii (CHR ''7'')) @
      map (\<lambda>d. ascii (CHR ''0'') + of_nat d) [(256 + unat ch) div 64, unat ch div 8 mod 8, unat ch mod 8]"
proof -
  let ?c = "unat ch"
  have c: "128 \<le> ?c" "?c < 256" using assms unsigned_less [of ch, where 'a = nat] by (simp_all add: word_le_nat_alt)
  have "(256 + ?c) div 8 = 32 + ?c div 8" "(256 + ?c) mod 8 = ?c mod 8"
    using mod_mult_self2 [of ?c 8 32] by (simp_all add: add.commute)
  moreover have "(32 + ?c div 8) mod 8 = ?c div 8 mod 8"
    using mod_mult_self2 [of "?c div 8" 8 4] by (simp add: add.commute)
  ultimately have n: "2 ^ 32 - 256 + ?c = ((8388607 * 8 + (256 + ?c) div 64) * 8 + ?c div 8 mod 8) * 8 + ?c mod 8"
    using octal_sum [of "256 + ?c"] by simp
  have d: "(256 + ?c) div 64 < 8" "?c div 8 mod 8 < 8" "?c mod 8 < 8" using c by simp_all
  have pos: "(0 :: nat) < 8388607" by simp
  have lead: "octal_digits 8388607 = ascii (CHR ''3'') # replicate 7 (ascii (CHR ''7''))"
    unfolding replicate_7 by (simp add: octal_digits.simps)
  have "octal_digits (2 ^ 32 - 256 + ?c) = ascii (CHR ''3'') # replicate 7 (ascii (CHR ''7'')) @
      map (\<lambda>d. ascii (CHR ''0'') + of_nat d) [(256 + unat ch) div 64, unat ch div 8 mod 8, unat ch mod 8]"
    unfolding n octal_digits_step3 [OF pos d] lead by simp
  then show ?thesis by (simp add: format_03o_def)
qed

lemma decode_loop_Nil [simp]: "env_var_decode_loop [] buf = (True, buf)"
  by (simp add: env_var_decode_loop.simps)

lemma decode_loop_digit:
  "in_range (ascii (CHR ''0'')) (ascii (CHR ''9'')) ch \<Longrightarrow>
     env_var_decode_loop (ch # rest) buf = env_var_decode_loop rest (buf @ [ch])"
  by (simp add: env_var_decode_loop.simps [of "ch # rest"] str_at_def)

lemma decode_loop_digits:
  "\<forall>d\<in>set ds. in_range (ascii (CHR ''0'')) (ascii (CHR ''9'')) d \<Longrightarrow>
     env_var_decode_loop (ds @ rest) buf = env_var_decode_loop rest (buf @ ds)"
proof (induction ds arbitrary: buf)
  case (Cons d ds)
  then show ?case using decode_loop_digit [of d "ds @ rest" buf] by simp
qed simp

lemma decode_loop_upper:
  assumes "in_range (ascii (CHR ''A'')) (ascii (CHR ''Z'')) ch"
  shows "env_var_decode_loop (ch # rest) buf = env_var_decode_loop rest (buf @ [ch - ascii (CHR ''A'') + ascii (CHR ''a'')])"
proof -
  have "\<not> ch \<le> ascii (CHR ''9'')" using assms by (simp add: word_le_nat_alt)
  then show ?thesis using assms by (simp add: env_var_decode_loop.simps [of "ch # rest"] str_at_def)
qed

lemma decode_loop_dot:
  "env_var_decode_loop (ascii (CHR ''_'') # ascii (CHR ''_'') # rest) buf = env_var_decode_loop rest (buf @ [ascii (CHR ''.'')])"
  by (simp add: env_var_decode_loop.simps [of "95 # 95 # rest"] str_at_def)

lemma decode_loop_escaped_upper:
  assumes "in_range (ascii (CHR ''A'')) (ascii (CHR ''Z'')) ch"
  shows "env_var_decode_loop (ascii (CHR ''_'') # ch # rest) buf = env_var_decode_loop rest (buf @ [ch])"
proof -
  have "ch \<noteq> ascii (CHR ''_'')" using assms by (auto simp: word_le_nat_alt)
  then show ?thesis using assms by (simp add: env_var_decode_loop.simps [of "95 # ch # rest"] str_at_def)
qed

lemma is_octal_range:
  assumes "is_octal ch"
  shows "ch \<noteq> ascii (CHR ''_'')" "\<not> ascii (CHR ''A'') \<le> ch"
  using assms by (auto simp: word_le_nat_alt)

lemma decode_loop_octal:
  assumes "v < 256" "v \<noteq> 0" "\<not> env_var_regular (of_nat v)"
  shows "env_var_decode_loop (ascii (CHR ''_'') # map (\<lambda>d. ascii (CHR ''0'') + of_nat d) [v div 64, v div 8 mod 8, v mod 8] @ rest) buf =
    env_var_decode_loop rest (buf @ [of_nat v])"
proof -
  define a b c where "a = (ascii (CHR ''0'') + of_nat (v div 64) :: u8)" and "b = (ascii (CHR ''0'') + of_nat (v div 8 mod 8) :: u8)"
    and "c = (ascii (CHR ''0'') + of_nat (v mod 8) :: u8)"
  have d: "v div 64 < 8" "v div 8 mod 8 < 8" "v mod 8 < 8" using assms(1) by simp_all
  have oct: "is_octal a" "is_octal b" "is_octal c" using octal_digit(1) d by (simp_all only: a_def b_def c_def)
  have "octal_value3 a b c = v div 64 * 64 + v div 8 mod 8 * 8 + v mod 8"
    using octal_digit(2) d by (simp only: octal_value3_def a_def b_def c_def)
  then have val: "octal_value3 a b c = v" by (simp only: octal_sum)
  have "env_var_decode_loop (ascii (CHR ''_'') # a # b # c # rest) buf = env_var_decode_loop rest (buf @ [of_nat v])"
    using assms is_octal_range [OF oct(1)] oct
    by (subst env_var_decode_loop.simps) (simp add: str_at_def val)
  then show ?thesis by (simp add: a_def b_def c_def)
qed

lemma decode_loop_append:
  assumes "ch \<noteq> 0"
  shows "env_var_decode_loop (env_var_encode_char char_signed ch @ rest) buf =
    env_var_decode_loop rest (buf @ env_var_decoded char_signed ch)"
proof -
  have high: "\<not> 128 \<le> ch" if "ch \<le> 127" using that by (simp add: word_le_nat_alt)
  have lt: "unat ch < 256" using unsigned_less [of ch, where 'a = nat] by simp
  consider (digit) "in_range 48 57 ch" | (lower) "in_range 97 122 ch" | (dot) "ch = 46" | (upper) "in_range 65 90 ch"
    | (other) "\<not> env_var_regular ch" by (auto simp: env_var_regular_def)
  then show ?thesis
  proof cases
    case digit
    then show ?thesis using decode_loop_digit [of ch rest buf] by (simp add: env_var_encode_char_def env_var_decoded_def word_le_nat_alt)
  next
    case lower
    then have "in_range 65 90 (ch - 97 + 65)" by unat_arith
    then show ?thesis using lower decode_loop_upper [of "ch - 97 + 65" rest buf]
      by (simp add: env_var_encode_char_def env_var_decoded_def word_le_nat_alt)
  next
    case dot
    then show ?thesis using decode_loop_dot [of rest buf] by (simp add: env_var_encode_char_def env_var_decoded_def)
  next
    case upper
    then show ?thesis using decode_loop_escaped_upper [of ch rest buf]
      by (auto simp: env_var_encode_char_def env_var_decoded_def word_le_nat_alt)
  next
    case other
    then have enc: "env_var_encode_char char_signed ch = ascii (CHR ''_'') # format_03o (char_to_unsigned char_signed ch)"
      unfolding env_var_encode_char_def by (auto simp: env_var_regular_def)
    show ?thesis
    proof (cases "char_signed \<and> 128 \<le> ch")
      case False
      then have "format_03o (char_to_unsigned char_signed ch) =
          map (\<lambda>d. ascii (CHR ''0'') + of_nat d) [unat ch div 64, unat ch div 8 mod 8, unat ch mod 8]"
        using lt format_03o_eq [of "unat ch"] by (auto simp: char_to_unsigned_def)
      moreover have "unat ch \<noteq> 0" using assms by (simp add: unat_eq_0)
      ultimately show ?thesis
        using decode_loop_octal [OF lt, of rest buf] other False by (auto simp: enc env_var_decoded_def)
    next
      case True
      define ds where "ds = map (\<lambda>d. ascii (CHR ''0'') + of_nat d :: u8) [(256 + unat ch) div 64, unat ch div 8 mod 8, unat ch mod 8]"
      have "\<forall>d\<in>set (replicate 5 (ascii (CHR ''7'')) @ ds). in_range (ascii (CHR ''0'')) (ascii (CHR ''9'')) d"
      proof -
        have "(256 + unat ch) div 64 < 8" using lt by simp
        then show ?thesis
          using octal_digit(1) [of "(256 + unat ch) div 64"] octal_digit(1) [of "unat ch div 8 mod 8"]
            octal_digit(1) [of "unat ch mod 8"]
          by (auto simp: ds_def word_le_nat_alt)
      qed
      note digits = decode_loop_digits [OF this, of rest "buf @ [0xFF]"]
      have "format_03o (char_to_unsigned char_signed ch) =  map (\<lambda>d. 48 + of_nat d) [255 div 64, 255 div 8 mod 8, 255 mod 8] @
          replicate 5 55 @ ds"
        using True octal_digits_signed [of ch] by (auto simp: enc char_to_unsigned_def ds_def replicate_7)
      moreover have "\<not> env_var_regular (of_nat 255)" by (simp add: env_var_regular_def)
      ultimately show ?thesis
        unfolding enc using digits decode_loop_octal [of 255 "replicate 5 55 @ ds @ rest" buf] True
        by (simp add: env_var_decoded_def ds_def)
    qed
  qed
qed

lemma decode_encoded:
  assumes "0 \<notin> set key"
  shows "env_var_decode_loop (nm_utils_env_var_encode_name char_signed key) buf =
    (True, buf @ concat (map (env_var_decoded char_signed) key))"
  using assms
proof (induction key arbitrary: buf)
  case (Cons ch key)
  then show ?case
    using decode_loop_append [of ch char_signed "nm_utils_env_var_encode_name char_signed key" buf]
    by (simp add: nm_utils_env_var_encode_name_def)
qed (simp add: nm_utils_env_var_encode_name_def)

lemma encoded_not_empty:
  assumes "key \<noteq> []" "0 \<notin> set key"
  shows "str_at (nm_utils_env_var_encode_name char_signed key) 0 \<noteq> 0"
proof -
  obtain ch rest where k: "key = ch # rest" using assms(1) by (cases key) auto
  have "\<exists>x xs. env_var_encode_char char_signed ch = x # xs \<and> x \<noteq> 0"
  proof (cases "in_range 97 122 ch")
    case True
    then have "ch - 97 + 65 \<noteq> 0" by unat_arith
    then show ?thesis using True by (auto simp: env_var_encode_char_def)
  next
    case False
    moreover have "ch \<noteq> 0" using assms(2) k by simp
    ultimately show ?thesis by (auto simp: env_var_encode_char_def)
  qed
  then show ?thesis by (auto simp: k nm_utils_env_var_encode_name_def str_at_def)
qed

lemma length_decoded:
  "length (concat (map (env_var_decoded char_signed) key)) = length key + 8 * length (filter (\<lambda>ch. char_signed \<and> 128 \<le> ch) key)"
  by (induction key) (auto simp: env_var_decoded_def)

text \<open>
  C34. Decoding the environment variable of a name that is not empty succeeds. It gives the name back exactly when the
  name has only ASCII characters, or where the type \<^verbatim>\<open>char\<close> is unsigned: elsewhere a byte above 127 is printed
  with eleven octal digits, of which the decoder takes three.
\<close>

theorem env_var_roundtrip:
  assumes "key \<noteq> []" "0 \<notin> set key"
  shows "\<exists>res. nm_utils_env_var_decode_name (nm_utils_env_var_encode_name char_signed key) = (True, res) \<and>
    (res = key \<longleftrightarrow> \<not> char_signed \<or> list_all (\<lambda>ch. ch < 128) key)"
proof -
  let ?res = "concat (map (env_var_decoded char_signed) key)"
  have "nm_utils_env_var_decode_name (nm_utils_env_var_encode_name char_signed key) = (True, ?res)"
    using encoded_not_empty [OF assms] decode_encoded [OF assms(2), of char_signed "[]"]
    by (simp add: nm_utils_env_var_decode_name_def)
  moreover have "?res = key \<longleftrightarrow> \<not> char_signed \<or> list_all (\<lambda>ch. ch < 128) key"
  proof
    assume "?res = key"
    then show "\<not> char_signed \<or> list_all (\<lambda>ch. ch < 128) key"
      using length_decoded [of char_signed key] by (auto simp: list_all_iff filter_empty_conv not_le)
  next
    assume "\<not> char_signed \<or> list_all (\<lambda>ch. ch < 128) key"
    then show "?res = key" by (induction key) (auto simp: env_var_decoded_def not_le)
  qed
  ultimately show ?thesis by blast
qed

theorem env_var_roundtrip_witness:
  "nm_utils_env_var_decode_name (nm_utils_env_var_encode_name True [0x61, 0x2B, 0x42]) = (True, [0x61, 0x2B, 0x42])"
proof -
  have "[0x61, 0x2B, 0x42 :: u8] \<noteq> []" "(0 :: u8) \<notin> set [0x61, 0x2B, 0x42]" by simp_all
  from env_var_roundtrip [OF this, of True] show ?thesis by auto
qed

end
