(* ===== verification/NM_Base64.thy ===== *)
theory NM_Base64
  imports NM_Chars
begin

text \<open>
  Decoding of Base64 (\<^verbatim>\<open>nm_unbase64char\<close>, \<^verbatim>\<open>unbase64_next\<close>, \<^verbatim>\<open>nm_unbase64mem_full\<close> of
  \<^verbatim>\<open>nm-shared-utils.c\<close>). The decoder is shown to accept exactly the canonical encodings of RFC 4648 with
  whitespace anywhere, and to stay within the buffer that it allocates.
\<close>

unbundle bit_operations_syntax

section \<open>Operations\<close>

text \<open>The negative results of the code are errors.\<close>

datatype b64_errno = EINVAL | ERANGE | EPIPE | ENAMETOOLONG

definition nm_unbase64char :: "u8 \<Rightarrow> b64_errno + u8" where
  "nm_unbase64char c =
     (if in_range (ascii (CHR ''A'')) (ascii (CHR ''Z'')) c then Inr (c - ascii (CHR ''A''))
      else if in_range (ascii (CHR ''a'')) (ascii (CHR ''z'')) c then Inr ((c - ascii (CHR ''a'')) + (ascii (CHR ''Z'') - ascii (CHR ''A'') + 1))
      else if in_range (ascii (CHR ''0'')) (ascii (CHR ''9'')) c
        then Inr ((c - ascii (CHR ''0'')) + ((ascii (CHR ''Z'') - ascii (CHR ''A'') + 1) + (ascii (CHR ''z'') - ascii (CHR ''a'') + 1)))
      else if c = ascii (CHR ''+'')
        then Inr ((ascii (CHR ''Z'') - ascii (CHR ''A'') + 1) + (ascii (CHR ''z'') - ascii (CHR ''a'') + 1) + (ascii (CHR ''9'') - ascii (CHR ''0'') + 1))
      else if c = ascii (CHR ''/'')
        then Inr ((ascii (CHR ''Z'') - ascii (CHR ''A'') + 1) + (ascii (CHR ''z'') - ascii (CHR ''a'') + 1) + (ascii (CHR ''9'') - ascii (CHR ''0'') + 1) + 1)
      else if c = ascii (CHR ''='') then Inl ERANGE
      else Inl EINVAL)"

text \<open>
  The next character that is not whitespace, decoded, and the remaining input. Whitespace before and after
  it is skipped; an invalid character is not.
\<close>

definition unbase64_next :: "u8 list \<Rightarrow> (b64_errno + u8) \<times> u8 list" where
  "unbase64_next p =
     (case dropWhile nm_ascii_is_whitespace p of
        [] \<Rightarrow> (Inl EPIPE, [])
      | ch # p' \<Rightarrow>
          (let ret = nm_unbase64char ch in
           if ret = Inl EINVAL then (ret, ch # p') else (ret, dropWhile nm_ascii_is_whitespace p')))"

text \<open>
  One round of the loop of the decoder. It ends the loop with an error or without (\<open>Inl\<close>), or leaves the
  remaining input; in both cases with the bytes it wrote. The first definition is what follows the reading of
  four characters.
\<close>

type_synonym b64_step = "(b64_errno option \<times> u8 list) + (u8 list \<times> u8 list)"

definition unbase64_emit :: "u8 \<Rightarrow> u8 \<Rightarrow> b64_errno + u8 \<Rightarrow> b64_errno + u8 \<Rightarrow> u8 list \<Rightarrow> b64_step" where
  "unbase64_emit a b c d x =
     (if c = Inl ERANGE then
        (if d \<noteq> Inl ERANGE then Inl (Some EINVAL, [])
         else if b AND 15 \<noteq> 0 then Inl (Some EINVAL, [])
         else if x \<noteq> [] then Inl (Some ENAMETOOLONG, [])
         else Inl (None, [push_bit 2 a OR drop_bit 4 b]))
      else if d = Inl ERANGE then
        (if projr c AND 3 \<noteq> 0 then Inl (Some EINVAL, [])
         else if x \<noteq> [] then Inl (Some ENAMETOOLONG, [])
         else Inl (None, [push_bit 2 a OR drop_bit 4 b, push_bit 4 b OR drop_bit 2 (projr c)]))
      else
        Inr (x, [push_bit 2 a OR drop_bit 4 b, push_bit 4 b OR drop_bit 2 (projr c), push_bit 6 (projr c) OR projr d]))"

definition unbase64_block :: "u8 list \<Rightarrow> b64_step" where
  "unbase64_block x =
     (case unbase64_next x of
        (Inl e, _) \<Rightarrow> Inl (if e = EPIPE then None else if e = ERANGE then Some EINVAL else Some e, [])
      | (Inr a, x) \<Rightarrow>
         (case unbase64_next x of
            (Inl e, _) \<Rightarrow> Inl (if e = ERANGE then Some EINVAL else Some e, [])
          | (Inr b, x) \<Rightarrow>
             (case unbase64_next x of (c, x) \<Rightarrow>
              if \<not> isl c \<or> c = Inl ERANGE then
               (case unbase64_next x of (d, x) \<Rightarrow>
                if \<not> isl d \<or> d = Inl ERANGE then unbase64_emit a b c d x
                else Inl (Some (projl d), []))
              else Inl (Some (projl c), []))))"

lemma unbase64_block_cases:
  obtains (eof) "fst (unbase64_next x) = Inl EPIPE" "unbase64_block x = Inl (None, [])"
  | (fail) e where "unbase64_block x = Inl (Some e, [])"
  | (emit) a x1 b x2 c x3 d x4 where "unbase64_next x = (Inr a, x1)" "unbase64_next x1 = (Inr b, x2)"
      "unbase64_next x2 = (c, x3)" "\<not> isl c \<or> c = Inl ERANGE" "unbase64_next x3 = (d, x4)" "\<not> isl d \<or> d = Inl ERANGE"
      "unbase64_block x = unbase64_emit a b c d x4"
proof -
  obtain ra x1 where 1: "unbase64_next x = (ra, x1)" by (cases "unbase64_next x")
  obtain rb x2 where 2: "unbase64_next x1 = (rb, x2)" by (cases "unbase64_next x1")
  obtain c x3 where 3: "unbase64_next x2 = (c, x3)" by (cases "unbase64_next x2")
  obtain d x4 where 4: "unbase64_next x3 = (d, x4)" by (cases "unbase64_next x3")
  show ?thesis
  proof (cases ra)
    case (Inl e)
    then show ?thesis using 1 eof fail [of "if e = ERANGE then EINVAL else e"]
      by (cases "e = EPIPE") (auto simp: unbase64_block_def)
  next
    case ra: (Inr a)
    show ?thesis
    proof (cases rb)
      case (Inl e)
      then show ?thesis using 1 2 ra fail [of "if e = ERANGE then EINVAL else e"] by (auto simp: unbase64_block_def)
    next
      case rb: (Inr b)
      have blk: "unbase64_block x =
          (if \<not> isl c \<or> c = Inl ERANGE then
             if \<not> isl d \<or> d = Inl ERANGE then unbase64_emit a b c d x4 else Inl (Some (projl d), [])
           else Inl (Some (projl c), []))"
        by (simp only: unbase64_block_def 1 2 3 4 ra rb prod.case sum.case)
      show ?thesis
      proof (cases "(\<not> isl c \<or> c = Inl ERANGE) \<and> (\<not> isl d \<or> d = Inl ERANGE)")
        case True
        then show ?thesis using emit [OF 1 [unfolded ra] 2 [unfolded rb] 3 _ 4] blk by simp
      next
        case False
        then show ?thesis using fail blk by (auto split: if_splits)
      qed
    qed
  qed
qed

text \<open>What is left of the input without whitespace: the view in which the decoder works.\<close>

abbreviation solid :: "u8 list \<Rightarrow> u8 list" where
  "solid \<equiv> filter (\<lambda>ch. \<not> nm_ascii_is_whitespace ch)"

lemma solid_dropWhile: "solid (dropWhile nm_ascii_is_whitespace p) = solid p"
  by (induction p) auto

lemma dropWhile_ws_eq_Nil: "dropWhile nm_ascii_is_whitespace p = [] \<longleftrightarrow> solid p = []"
  by (induction p) auto

lemma unbase64_next_cases:
  obtains (eof) "solid p = []" "unbase64_next p = (Inl EPIPE, [])"
  | (invalid) c r where "solid p = c # r" "nm_unbase64char c = Inl EINVAL" "fst (unbase64_next p) = Inl EINVAL"
  | (char) c r p' where "solid p = c # r" "nm_unbase64char c \<noteq> Inl EINVAL" "unbase64_next p = (nm_unbase64char c, p')"
      "solid p' = r" "p' = [] \<longleftrightarrow> r = []" "length p' < length p"
proof (cases "dropWhile nm_ascii_is_whitespace p")
  case Nil
  then have "solid p = []" by (simp only: dropWhile_ws_eq_Nil)
  moreover have "unbase64_next p = (Inl EPIPE, [])" unfolding unbase64_next_def Nil by simp
  ultimately show ?thesis by (rule eof)
next
  case (Cons c q)
  then have "\<not> nm_ascii_is_whitespace c" using hd_dropWhile [of nm_ascii_is_whitespace p] by simp
  then have sol: "solid p = c # solid q" using solid_dropWhile [of p] Cons by simp
  have "length (dropWhile nm_ascii_is_whitespace q) \<le> length q" by (rule length_dropWhile_le)
  moreover have "length q < length p" using Cons length_dropWhile_le [of nm_ascii_is_whitespace p] by simp
  ultimately have "length (dropWhile nm_ascii_is_whitespace q) < length p" by simp
  then show ?thesis
    using sol invalid [of c "solid q"] char [of c "solid q" "dropWhile nm_ascii_is_whitespace q"] dropWhile_ws_eq_Nil [of q]
    by (cases "nm_unbase64char c = Inl EINVAL") (simp_all add: unbase64_next_def Cons solid_dropWhile)
qed

lemma unbase64_next_less: "unbase64_next p = (Inr v, p') \<Longrightarrow> length p' < length p"
  by (rule unbase64_next_cases [of p]) auto

lemma unbase64_next_le:
  assumes "unbase64_next p = (v, p')"
  shows "length p' \<le> length p"
proof (cases "dropWhile nm_ascii_is_whitespace p")
  case (Cons c q)
  then have "length (c # q) \<le> length p" using length_dropWhile_le [of nm_ascii_is_whitespace p] by simp
  then show ?thesis
    using assms length_dropWhile_le [of nm_ascii_is_whitespace q]
    unfolding unbase64_next_def Cons by (auto simp: Let_def split: if_splits)
next
  case Nil
  show ?thesis using assms unfolding unbase64_next_def Nil by simp
qed

lemma unbase64_emit_Inr: "unbase64_emit a b c d x = Inr (x', w) \<Longrightarrow> x' = x"
  by (auto simp: unbase64_emit_def split: if_splits)

lemma unbase64_block_shorter:
  assumes "unbase64_block x = Inr (x', w)"
  shows "length x' < length x"
proof (cases x rule: unbase64_block_cases)
  case (emit a x1 b x2 c x3 d x4)
  then show ?thesis
    using assms unbase64_next_less [OF emit(1)] unbase64_next_le [OF emit(2)] unbase64_next_le [OF emit(3)]
      unbase64_next_le [OF emit(5)] unbase64_emit_Inr [of a b c d x4 x' w] by simp
qed (use assms in simp_all)

text \<open>
  The loop, with the bytes written so far in \<open>z\<close>. The result is the error, if any, and the bytes that were
  written, which the code throws away after an error.
\<close>

function unbase64_loop :: "u8 list \<Rightarrow> u8 list \<Rightarrow> b64_errno option \<times> u8 list" where
  "unbase64_loop x z =
     (case unbase64_block x of
        Inl (r, w) \<Rightarrow> (r, z @ w)
      | Inr (x', w) \<Rightarrow> unbase64_loop x' (z @ w))"
  by pat_completeness auto

termination
  by (relation "measure (\<lambda>(x, z). length x)") (auto intro: unbase64_block_shorter)

declare unbase64_loop.simps [simp del]

lemma unbase64_loop_step:
  "unbase64_block x = Inl (r, w) \<Longrightarrow> unbase64_loop x z = (r, z @ w)"
  "unbase64_block x = Inr (x', w) \<Longrightarrow> unbase64_loop x z = unbase64_loop x' (z @ w)"
  by (simp_all add: unbase64_loop.simps [of x z])

text \<open>
  The decoder gets \<open>l\<close> bytes at \<open>p\<close>, or a C string. The result is the error or the decoded bytes, together
  with the size of the allocated buffer and all the bytes written to it, the final NUL included.
\<close>

record b64_run =
  b64_result :: "b64_errno + u8 list"
  b64_buffer_size :: nat
  b64_written :: "u8 list"

definition unbase64_input_len :: "u8 list \<Rightarrow> nat \<Rightarrow> nat" where
  "unbase64_input_len p l = (if l = G_MAXSIZE then length (takeWhile (\<lambda>c. c \<noteq> 0) p) else l)"

definition nm_unbase64mem_full :: "u8 list \<Rightarrow> nat \<Rightarrow> b64_run" where
  "nm_unbase64mem_full p l =
     (let l = unbase64_input_len p l;
          len = (l div 4) * 3 + (if l mod 4 \<noteq> 0 then l mod 4 - 1 else 0)
      in case unbase64_loop (take l p) [] of
           (None, z) \<Rightarrow> \<lparr>b64_result = Inr z, b64_buffer_size = len + 1, b64_written = z @ [0]\<rparr>
         | (Some e, z) \<Rightarrow> \<lparr>b64_result = Inl e, b64_buffer_size = len + 1, b64_written = z\<rparr>)"

section \<open>The encoding\<close>

text \<open>The alphabet and the groups of RFC 4648, section 4: three bytes are four characters of six bits.\<close>

definition base64_char :: "u8 \<Rightarrow> u8" where
  "base64_char v =
     (if v < 26 then ascii (CHR ''A'') + v
      else if v < 52 then ascii (CHR ''a'') + (v - 26)
      else if v < 62 then ascii (CHR ''0'') + (v - 52)
      else if v = 62 then ascii (CHR ''+'') else ascii (CHR ''/''))"

abbreviation (input) pad :: u8 where
  "pad \<equiv> 0x3D"

fun base64_encode :: "u8 list \<Rightarrow> u8 list" where
  "base64_encode [] = []"
| "base64_encode [x] = [base64_char (drop_bit 2 x), base64_char (push_bit 4 (take_bit 2 x)), pad, pad]"
| "base64_encode [x, y] =
    [base64_char (drop_bit 2 x), base64_char (push_bit 4 (take_bit 2 x) OR drop_bit 4 y),
     base64_char (push_bit 2 (take_bit 4 y)), pad]"
| "base64_encode (x # y # z # bs) =
    [base64_char (drop_bit 2 x), base64_char (push_bit 4 (take_bit 2 x) OR drop_bit 4 y),
     base64_char (push_bit 2 (take_bit 4 y) OR drop_bit 6 z), base64_char (take_bit 6 z)] @ base64_encode bs"

lemma base64_ranges:
  fixes c :: u8
  shows "in_range 65 90 c \<Longrightarrow> c - 65 < 26"
    and "in_range 97 122 c \<Longrightarrow> 26 \<le> c - 71 \<and> c - 71 < 52"
    and "in_range 48 57 c \<Longrightarrow> 52 \<le> 4 + c \<and> 4 + c < 62"
  using unat_sub [of 65 c] unat_sub [of 71 c] unat_add_u8 [of 4 c]
  by (auto simp: word_less_nat_alt word_le_nat_alt)

lemma base64_ranges':
  fixes v :: u8
  shows "v < 26 \<Longrightarrow> in_range 65 90 (65 + v)"
    and "26 \<le> v \<Longrightarrow> v < 52 \<Longrightarrow> in_range 97 122 (71 + v)"
    and "52 \<le> v \<Longrightarrow> v < 62 \<Longrightarrow> in_range 48 57 (v - 4)"
  using unat_sub [of 4 v] unat_add_u8 [of 65 v] unat_add_u8 [of 71 v]
  by (auto simp: word_less_nat_alt word_le_nat_alt)

lemma unbase64char_Inr: "nm_unbase64char c = Inr v \<Longrightarrow> v < 64 \<and> base64_char v = c"
  using base64_ranges [of c]
  by (auto simp: nm_unbase64char_def base64_char_def word_less_nat_alt word_le_nat_alt split: if_splits)

lemma unbase64char_char: 
  assumes "v < 64"
  shows "nm_unbase64char (base64_char v) = Inr v"
proof -
  have "v < 26 \<or> (26 \<le> v \<and> v < 52) \<or> (52 \<le> v \<and> v < 62) \<or> v = 62 \<or> v = 63"
    using assms by (auto simp: word_less_nat_alt word_le_nat_alt word_unat_eq_iff)
  then show ?thesis
    using base64_ranges' [of v] by (auto simp: nm_unbase64char_def base64_char_def word_less_nat_alt word_le_nat_alt)
qed


lemma u8_less_64_iff: "(v :: u8) < 64 \<longleftrightarrow> \<not> bit v 6 \<and> \<not> bit v 7"
proof -
  have "v < 64 \<longleftrightarrow> take_bit 6 v = v"
    by (simp add: word_less_nat_alt word_unat_eq_iff unsigned_take_bit_eq take_bit_nat_eq_self_iff)
  then show ?thesis by (simp add: u8_eq_iff bit_simps)
qed

lemma six_bits [simp]:
  fixes x y :: u8
  shows "drop_bit 2 x < 64" "push_bit 4 (take_bit 2 x) < 64" "push_bit 4 (take_bit 2 x) OR drop_bit 4 y < 64"
    "push_bit 2 (take_bit 4 x) < 64" "push_bit 2 (take_bit 4 x) OR drop_bit 6 y < 64" "take_bit 6 x < 64"
  by (simp_all add: u8_less_64_iff bit_simps)

lemma decode_bits [simp]:
  fixes x y z :: u8
  shows "push_bit 2 (drop_bit 2 x) OR drop_bit 4 (push_bit 4 (take_bit 2 x)) = x"
    and "push_bit 2 (drop_bit 2 x) OR drop_bit 4 (push_bit 4 (take_bit 2 x) OR drop_bit 4 y) = x"
    and "push_bit 4 (push_bit 4 (take_bit 2 x) OR drop_bit 4 y) OR drop_bit 2 (push_bit 2 (take_bit 4 y)) = y"
    and "push_bit 4 (push_bit 4 (take_bit 2 x) OR drop_bit 4 y) OR drop_bit 2 (push_bit 2 (take_bit 4 y) OR drop_bit 6 z) = y"
    and "push_bit 6 (push_bit 2 (take_bit 4 y) OR drop_bit 6 z) OR take_bit 6 z = z"
    and "push_bit 4 (drop_bit 4 y) OR drop_bit 2 (push_bit 2 (take_bit 4 y)) = y"
    and "push_bit 6 (drop_bit 6 z) OR take_bit 6 z = z"
    and "push_bit 4 (take_bit 2 x) AND 15 = 0" "push_bit 2 (take_bit 4 y) AND 3 = 0"
  by (simp_all add: u8_eq_iff bit_simps)

lemma encode_bits:
  fixes a b c d :: u8
  shows "a < 64 \<Longrightarrow> b < 64 \<Longrightarrow> drop_bit 2 (push_bit 2 a OR drop_bit 4 b) = a"
    and "b < 64 \<Longrightarrow> b AND 15 = 0 \<Longrightarrow> push_bit 4 (take_bit 2 (push_bit 2 a OR drop_bit 4 b)) = b"
    and "b < 64 \<Longrightarrow> c < 64 \<Longrightarrow>
      push_bit 4 (take_bit 2 (push_bit 2 a OR drop_bit 4 b)) OR drop_bit 4 (push_bit 4 b OR drop_bit 2 c) = b"
    and "c < 64 \<Longrightarrow> c AND 3 = 0 \<Longrightarrow> push_bit 2 (take_bit 4 (push_bit 4 b OR drop_bit 2 c)) = c"
    and "c < 64 \<Longrightarrow> d < 64 \<Longrightarrow>
      push_bit 2 (take_bit 4 (push_bit 4 b OR drop_bit 2 c)) OR drop_bit 6 (push_bit 6 c OR d) = c"
    and "d < 64 \<Longrightarrow> take_bit 6 (push_bit 6 c OR d) = d"
  unfolding u8_eq_iff u8_less_64_iff by (simp_all add: bit_simps)

lemma encode_digits:
  "a < 64 \<Longrightarrow> b < 64 \<Longrightarrow> b AND 15 = 0 \<Longrightarrow>
     base64_encode [push_bit 2 a OR drop_bit 4 b] = [base64_char a, base64_char b, pad, pad]"
  "a < 64 \<Longrightarrow> b < 64 \<Longrightarrow> c < 64 \<Longrightarrow> c AND 3 = 0 \<Longrightarrow>
     base64_encode [push_bit 2 a OR drop_bit 4 b, push_bit 4 b OR drop_bit 2 c] =
       [base64_char a, base64_char b, base64_char c, pad]"
  "a < 64 \<Longrightarrow> b < 64 \<Longrightarrow> c < 64 \<Longrightarrow> d < 64 \<Longrightarrow>
     base64_encode [push_bit 2 a OR drop_bit 4 b, push_bit 4 b OR drop_bit 2 c, push_bit 6 c OR d] =
       [base64_char a, base64_char b, base64_char c, base64_char d]"
  by (simp_all only: base64_encode.simps encode_bits append_Nil2)

section \<open>Blocks\<close>

lemma unbase64char_pad [simp]: "nm_unbase64char pad = Inl ERANGE"
  by (simp add: nm_unbase64char_def)

lemma unbase64char_ERANGE: "nm_unbase64char c = Inl ERANGE \<longleftrightarrow> c = pad"
  by (auto simp: nm_unbase64char_def split: if_splits)

lemma unbase64char_Inl: "nm_unbase64char c = Inl e \<Longrightarrow> e = ERANGE \<or> e = EINVAL"
  by (auto simp: nm_unbase64char_def split: if_splits)

lemma unbase64_next_Cons:
  assumes "solid p = c # r" "nm_unbase64char c \<noteq> Inl EINVAL"
  obtains p' where "unbase64_next p = (nm_unbase64char c, p')" "solid p' = r" "p' = [] \<longleftrightarrow> r = []"
  using assms by (cases p rule: unbase64_next_cases) auto

lemma unbase64_next_ok:
  assumes "unbase64_next p = (v, p')" "\<not> isl v \<or> v = Inl ERANGE"
  obtains c where "solid p = c # solid p'" "nm_unbase64char c = v" "p' = [] \<longleftrightarrow> solid p' = []"
  using assms by (cases p rule: unbase64_next_cases) auto

lemma block_of_chars:
  assumes "solid x = [ca, cb, cc, cd] @ r" "nm_unbase64char ca = Inr a" "nm_unbase64char cb = Inr b"
    and c: "nm_unbase64char cc = c" "c \<noteq> Inl EINVAL" and d: "nm_unbase64char cd = d" "d \<noteq> Inl EINVAL"
  shows "\<exists>x'. solid x' = r \<and> (x' = [] \<longleftrightarrow> r = []) \<and> unbase64_block x = unbase64_emit a b c d x'"
proof -
  obtain x1 where 1: "unbase64_next x = (Inr a, x1)" "solid x1 = [cb, cc, cd] @ r"
    using unbase64_next_Cons [of x ca] assms(1,2) by auto
  obtain x2 where 2: "unbase64_next x1 = (Inr b, x2)" "solid x2 = [cc, cd] @ r"
    using unbase64_next_Cons [of x1 cb] 1 assms(3) by auto
  obtain x3 where 3: "unbase64_next x2 = (c, x3)" "solid x3 = [cd] @ r"
    using unbase64_next_Cons [of x2 cc] 2 c by auto
  obtain x4 where 4: "unbase64_next x3 = (d, x4)" "solid x4 = r" "x4 = [] \<longleftrightarrow> r = []"
    using unbase64_next_Cons [of x3 cd r] 3 d by auto
  have "\<not> isl c \<or> c = Inl ERANGE" "\<not> isl d \<or> d = Inl ERANGE"
    using c d by (auto simp: nm_unbase64char_def split: if_splits)
  then show ?thesis using 4(2,3) by (intro exI [of _ x4]) (simp add: unbase64_block_def 1 2 3 4)
qed

lemmas block_of_digits = block_of_chars [OF _ unbase64char_char unbase64char_char]

lemma block_encode:
  assumes "solid x = base64_encode w" "length w \<le> 2"
  shows "unbase64_block x = Inl (None, w)"
proof (cases w rule: base64_encode.cases)
  case 1
  then show ?thesis using assms(1) by (cases x rule: unbase64_next_cases) (auto simp: unbase64_block_def)
next
  case (2 u)
  then show ?thesis using assms(1)
    block_of_digits [OF _ six_bits(1) six_bits(2) unbase64char_pad _ unbase64char_pad, of x u u "[]"] by (simp add: unbase64_emit_def)
next
  case (3 u v)
  then show ?thesis using assms(1)
    block_of_digits [OF _ six_bits(1) six_bits(3) unbase64char_char [OF six_bits(4)] _ unbase64char_pad, of x u u v v "[]"] by (simp add: unbase64_emit_def)
qed (use assms in auto)

lemma block_encode_3:
  assumes "solid x = base64_encode [u, v, w] @ r"
  shows "\<exists>x'. unbase64_block x = Inr (x', [u, v, w]) \<and> solid x' = r"
  using assms block_of_digits [OF _ six_bits(1) six_bits(3) unbase64char_char [OF six_bits(5)] _
    unbase64char_char [OF six_bits(6)], of x u u v v w w r] by (auto simp: unbase64_emit_def)

lemma block_chars:
  assumes "unbase64_block x = Inr (x', w) \<or> (unbase64_block x = Inl (None, w) \<and> solid x \<noteq> [])"
  obtains ca cb cc cd r a b where "solid x = [ca, cb, cc, cd] @ r" "nm_unbase64char ca = Inr a" "nm_unbase64char cb = Inr b"
    "nm_unbase64char cc \<noteq> Inl EINVAL" "nm_unbase64char cd \<noteq> Inl EINVAL"
proof (cases x rule: unbase64_block_cases)
  case eof
  then show ?thesis using assms by (cases x rule: unbase64_next_cases) (auto dest: unbase64char_Inl)
next
  case (emit a x1 b x2 c x3 d x4)
  obtain ca where ca: "solid x = ca # solid x1" "nm_unbase64char ca = Inr a" using unbase64_next_ok [OF emit(1)] by auto
  obtain cb where cb: "solid x1 = cb # solid x2" "nm_unbase64char cb = Inr b" using unbase64_next_ok [OF emit(2)] by auto
  obtain cc where cc: "solid x2 = cc # solid x3" "nm_unbase64char cc = c" using unbase64_next_ok [OF emit(3,4)] by blast
  obtain cd where cd: "solid x3 = cd # solid x4" "nm_unbase64char cd = d" using unbase64_next_ok [OF emit(5,6)] by blast
  have "c \<noteq> Inl EINVAL" "d \<noteq> Inl EINVAL" using emit(4,6) by auto
  then show ?thesis using that [of ca cb cc cd "solid x4" a b] ca cb cc cd by simp
qed (use assms in simp)

lemma block_ok_encode:
  assumes "unbase64_block x = Inl (None, w)"
  shows "solid x = base64_encode w \<and> length w \<le> 2"
proof (cases "solid x = []")
  case True
  then show ?thesis using assms by (cases x rule: unbase64_next_cases) (auto simp: unbase64_block_def)
next
  case False
  then obtain ca cb cc cd r a b where ch: "solid x = [ca, cb, cc, cd] @ r" "nm_unbase64char ca = Inr a" "nm_unbase64char cb = Inr b"
    "nm_unbase64char cc \<noteq> Inl EINVAL" "nm_unbase64char cd \<noteq> Inl EINVAL"
    using block_chars assms by blast
  note run = block_of_chars [OF ch(1-3) refl ch(4) refl ch(5)]
  have "r = []" "nm_unbase64char cd = Inl ERANGE" using run assms by (auto simp: unbase64_emit_def split: if_splits)
  note facts = this ch(1) unbase64char_Inr [OF ch(2)] unbase64char_Inr [OF ch(3)]
  show ?thesis
  proof (cases "nm_unbase64char cc")
    case (Inl e)
    then have "cc = pad" "cd = pad" "w = [push_bit 2 a OR drop_bit 4 b]" "b AND 15 = 0"
      using run assms facts(2) unbase64char_Inl [OF Inl] ch(4) by (auto simp: unbase64_emit_def unbase64char_ERANGE split: if_splits)
    then show ?thesis using facts encode_digits(1) [of a b] by simp
  next
    case (Inr c)
    then have "cd = pad" "w = [push_bit 2 a OR drop_bit 4 b, push_bit 4 b OR drop_bit 2 c]" "c AND 3 = 0"
      using run assms facts(2) by (auto simp: unbase64_emit_def unbase64char_ERANGE split: if_splits)
    then show ?thesis using facts encode_digits(2) [of a b c] unbase64char_Inr [OF Inr] by simp
  qed
qed

lemma block_cont_encode:
  assumes "unbase64_block x = Inr (x', w)"
  shows "solid x = base64_encode w @ solid x' \<and> length w = 3"
proof -
  obtain ca cb cc cd r a b where ch: "solid x = [ca, cb, cc, cd] @ r" "nm_unbase64char ca = Inr a" "nm_unbase64char cb = Inr b"
    "nm_unbase64char cc \<noteq> Inl EINVAL" "nm_unbase64char cd \<noteq> Inl EINVAL"
    using block_chars assms by blast
  note run = block_of_chars [OF ch(1-3) refl ch(4) refl ch(5)]
  obtain c d where cd: "nm_unbase64char cc = Inr c" "nm_unbase64char cd = Inr d"
    using run assms ch(4,5) unbase64char_Inl [of cc] unbase64char_Inl [of cd]
    by (cases "nm_unbase64char cc"; cases "nm_unbase64char cd") (auto simp: unbase64_emit_def split: if_splits)
  then have "w = [push_bit 2 a OR drop_bit 4 b, push_bit 4 b OR drop_bit 2 c, push_bit 6 c OR d]" "solid x' = r"
    using run assms by (auto simp: unbase64_emit_def)
  then show ?thesis
    using encode_digits(3) [of a b c d] ch(1) unbase64char_Inr [OF ch(2)] unbase64char_Inr [OF ch(3)]
      unbase64char_Inr [OF cd(1)] unbase64char_Inr [OF cd(2)] by simp
qed

section \<open>Correctness of the decoder\<close>

lemma base64_encode_append3: "length w = 3 \<Longrightarrow> base64_encode (w @ bs) = base64_encode w @ base64_encode bs"
  by (auto simp: numeral_3_eq_3 length_Suc_conv)

lemma unbase64_loop_append: "unbase64_loop x (z @ z') = apsnd ((@) z) (unbase64_loop x z')"
proof (induction "length x" arbitrary: x z' rule: less_induct)
  case less
  show ?case
  proof (cases "unbase64_block x")
    case (Inl p)
    then show ?thesis by (cases p) (simp add: unbase64_loop_step)
  next
    case (Inr p)
    obtain x' w where p: "p = (x', w)" by (cases p)
    then show ?thesis using less [OF unbase64_block_shorter, of x' w "z' @ w"] Inr by (simp add: unbase64_loop_step)
  qed
qed

lemma unbase64_loop_correct: "unbase64_loop x [] = (None, bs) \<longleftrightarrow> solid x = base64_encode bs"
proof (induction "length x" arbitrary: x bs rule: less_induct)
  case less
  have step: "unbase64_loop x [] = (case unbase64_block x of Inl (r, w) \<Rightarrow> (r, w) | Inr (x', w) \<Rightarrow> apsnd ((@) w) (unbase64_loop x' []))"
  proof (cases "unbase64_block x")
    case (Inl p)
    then show ?thesis by (cases p) (simp add: unbase64_loop_step)
  next
    case (Inr p)
    then show ?thesis using unbase64_loop_append [of "fst p" "snd p" "[]"] by (cases p) (simp add: unbase64_loop_step)
  qed
  show ?case
  proof
    assume run: "unbase64_loop x [] = (None, bs)"
    show "solid x = base64_encode bs"
    proof (cases "unbase64_block x")
      case (Inl p)
      then show ?thesis using run step block_ok_encode [of x bs] by (cases p) simp
    next
      case (Inr p)
      obtain x' w where p: "p = (x', w)" by (cases p)
      then obtain bs' where bs': "unbase64_loop x' [] = (None, bs')" "bs = w @ bs'"
        using run step Inr by (cases "unbase64_loop x' []") auto
      have "solid x' = base64_encode bs'"
        using less [OF unbase64_block_shorter, of x' w bs'] Inr p bs'(1) by simp
      then show ?thesis using block_cont_encode [of x x' w] Inr p bs'(2) by (simp add: base64_encode_append3)
    qed
  next
    assume enc: "solid x = base64_encode bs"
    show "unbase64_loop x [] = (None, bs)"
    proof (cases "length bs \<le> 2")
      case True
      then show ?thesis using block_encode [OF enc] step by simp
    next
      case False
      then obtain u v w r where bs: "bs = [u, v, w] @ r" by (cases bs rule: base64_encode.cases) auto
      then obtain x' where x': "unbase64_block x = Inr (x', [u, v, w])" "solid x' = base64_encode r"
        using block_encode_3 [of x u v w "base64_encode r"] enc by (auto simp: bs)
      then show ?thesis using less [OF unbase64_block_shorter [OF x'(1)], of r] step bs by simp
    qed
  qed
qed

text \<open>
  C25. Decoding succeeds exactly for the encodings of RFC 4648 without superfluous bits, in which whitespace may
  be inserted anywhere, and gives the bytes that were encoded; every other input is an error.
\<close>

theorem unbase64_correct:
  "b64_result (nm_unbase64mem_full p l) = Inr bs \<longleftrightarrow>
     filter (\<lambda>ch. \<not> nm_ascii_is_whitespace ch) (take (unbase64_input_len p l) p) = base64_encode bs"
proof -
  let ?x = "take (unbase64_input_len p l) p"
  have "b64_result (nm_unbase64mem_full p l) = Inr bs \<longleftrightarrow> unbase64_loop ?x [] = (None, bs)"
    by (cases "unbase64_loop ?x []") (auto simp: nm_unbase64mem_full_def Let_def split: option.splits)
  then show ?thesis by (simp only: unbase64_loop_correct)
qed

lemma length_base64_encode: "4 * length bs \<le> 3 * length (base64_encode bs)"
  by (induction bs rule: base64_encode.induct) auto

lemma emit_failed_written: "unbase64_emit a b c d x = Inl (Some e, w) \<Longrightarrow> w = []"
  by (simp add: unbase64_emit_def split: if_split_asm)

lemma block_failed_written: "unbase64_block x = Inl (Some e, w) \<Longrightarrow> w = []"
  by (rule unbase64_block_cases [of x]) (simp_all add: emit_failed_written)

lemma unbase64_loop_written: "4 * length (snd (unbase64_loop x z)) \<le> 4 * length z + 3 * length (solid x)"
proof (induction "length x" arbitrary: x z rule: less_induct)
  case less
  show ?case
  proof (cases "unbase64_block x")
    case (Inl p)
    obtain r w where p: "p = (r, w)" by (cases p)
    then have "4 * length w \<le> 3 * length (solid x)"
      using Inl block_ok_encode [of x w] block_failed_written [of x] length_base64_encode [of w] by (cases r) auto
    then show ?thesis using Inl p by (simp add: unbase64_loop_step)
  next
    case (Inr p)
    obtain x' w where p: "p = (x', w)" by (cases p)
    then show ?thesis
      using less [OF unbase64_block_shorter, of x' w "z @ w"] block_cont_encode [of x x' w] Inr length_base64_encode [of w]
      by (simp add: unbase64_loop_step)
  qed
qed

text \<open>
  The decoder writes at most as many bytes as it allocated, the final NUL included, whether it succeeds or
  fails in the middle.
\<close>

theorem unbase64_buffer_bound:
  "length (b64_written (nm_unbase64mem_full p l)) \<le> b64_buffer_size (nm_unbase64mem_full p l)"
proof -
  define n where "n = unbase64_input_len p l"
  obtain r out where run: "unbase64_loop (take n p) [] = (r, out)" by (rule prod.exhaust)
  have "length (solid (take n p)) \<le> n" by (rule order_trans [OF length_filter_le]) simp
  then have "4 * length out \<le> 3 * n" using unbase64_loop_written [of "take n p" "[]"] run by simp
  then have "length out \<le> n div 4 * 3 + (if n mod 4 \<noteq> 0 then n mod 4 - 1 else 0)"
  proof -
    define q m where "q = n div 4" and "m = n mod 4"
    then have "n = q * 4 + m" "m < 4" by simp_all
    then show ?thesis using \<open>4 * length out \<le> 3 * n\<close> unfolding q_def [symmetric] m_def [symmetric] by auto
  qed
  then show ?thesis using run by (cases r) (simp_all add: nm_unbase64mem_full_def Let_def flip: n_def)
qed

end
