(* ===== verification/NM_Hexstr.thy ===== *)
theory NM_Hexstr
  imports NM_Chars
begin

text \<open>
  Conversion between bytes and hexadecimal strings (\<^verbatim>\<open>nm_utils_bin2hexstr_fuller\<close>,
  \<^verbatim>\<open>nm_utils_hexstr2bin_full\<close>, \<^verbatim>\<open>nm_utils_hexstr2bin_alloc\<close> of \<^verbatim>\<open>nm-shared-utils.c\<close>), used for MAC
  addresses, client identifiers and keys.
\<close>

section \<open>Operations\<close>

definition hexstr_lookup :: "bool \<Rightarrow> u8 \<Rightarrow> u8" where
  "hexstr_lookup upper_case v =
     (if v < 10 then ascii (CHR ''0'') + v else (if upper_case then ascii (CHR ''A'') else ascii (CHR ''a'')) + (v - 10))"

definition hexstr_byte :: "bool \<Rightarrow> bool \<Rightarrow> u8 \<Rightarrow> u8 list" where
  "hexstr_byte upper_case with_leading_zero v =
     (let v_hi = drop_bit 4 v in
      (if v_hi \<noteq> 0 \<or> with_leading_zero then [hexstr_lookup upper_case v_hi] else []) @
      [hexstr_lookup upper_case (take_bit 4 v)])"

fun bin2hexstr_loop :: "u8 \<Rightarrow> bool \<Rightarrow> bool \<Rightarrow> u8 list \<Rightarrow> u8 list" where
  "bin2hexstr_loop delimiter upper_case with_leading_zero [] = []"
| "bin2hexstr_loop delimiter upper_case with_leading_zero [v] = hexstr_byte upper_case with_leading_zero v"
| "bin2hexstr_loop delimiter upper_case with_leading_zero (v # vs) =
     hexstr_byte upper_case with_leading_zero v @ (if delimiter \<noteq> 0 then [delimiter] else []) @
     bin2hexstr_loop delimiter upper_case with_leading_zero vs"

text \<open>The string, and the size of the buffer where the function allocates it.\<close>

definition nm_utils_bin2hexstr_fuller :: "u8 list \<Rightarrow> u8 \<Rightarrow> bool \<Rightarrow> bool \<Rightarrow> u8 list" where
  "nm_utils_bin2hexstr_fuller addr delimiter upper_case with_leading_zero =
     bin2hexstr_loop delimiter upper_case with_leading_zero addr"

definition bin2hexstr_alloc_size :: "nat \<Rightarrow> u8 \<Rightarrow> nat" where
  "bin2hexstr_alloc_size n delimiter = (if n = 0 then 1 else if delimiter = 0 then n * 2 + 1 else n * 3)"

text \<open>
  The state of the loop of the parser: the rest of the string, the bytes written to the buffer, whether a
  delimiter is expected and which one, and the room in the buffer. A round ends the loop with the verdict and
  the bytes written, or leaves the next state. The decrement of the room wraps around.
\<close>

record hexstr_opts =
  delimiter_required :: bool
  hexdigit_pairs_required :: bool
  delimiter_candidates :: "u8 list"

record hexstr_state =
  hs_in :: "u8 list"
  hs_out :: "u8 list"
  hs_delimiter_has :: bool
  hs_delimiter :: u8
  hs_buffer_len :: nat

type_synonym hexstr_step = "(bool \<times> u8 list) + hexstr_state"

definition gsize_dec :: "nat \<Rightarrow> nat" where
  "gsize_dec n = (if n = 0 then G_MAXSIZE else n - 1)"

definition hexstr2bin_delimiter :: "hexstr_opts \<Rightarrow> u8 \<Rightarrow> hexstr_state \<Rightarrow> hexstr_step" where
  "hexstr2bin_delimiter opts d2 st =
     (let st = st\<lparr>hs_buffer_len := gsize_dec (hs_buffer_len st)\<rparr>;
          skip = st\<lparr>hs_in := drop 1 (hs_in st)\<rparr>
      in if hs_buffer_len st = 0 then Inl (False, hs_out st)
         else if hs_delimiter_has st then
           (if d2 \<noteq> hs_delimiter st then
              (if hs_delimiter st \<noteq> 0 then Inl (False, hs_out st)
               else if d2 \<in> set (delimiter_candidates opts) then Inr (skip\<lparr>hs_delimiter := d2\<rparr>)
               else if delimiter_required opts then Inl (False, hs_out st)
               else Inr (st\<lparr>hs_delimiter_has := False\<rparr>))
            else Inr skip)
         else Inr st)"

definition hexstr2bin_round :: "hexstr_opts \<Rightarrow> hexstr_state \<Rightarrow> hexstr_step" where
  "hexstr2bin_round opts st =
     (let inp = hs_in st; out = hs_out st;
          i1 = nm_utils_hexchar_to_int (str_at inp 0);
          i2 = nm_utils_hexchar_to_int (str_at inp 1)
      in if i1 < 0 then Inl (False, out)
         else if str_at inp 1 \<noteq> 0 \<and> i2 \<ge> 0 then
           (let st = st\<lparr>hs_out := out @ [of_int (i1 * 16 + i2)]\<rparr> in
            if str_at inp 2 = 0 then Inl (True, hs_out st)
            else hexstr2bin_delimiter opts (str_at inp 2) (st\<lparr>hs_in := drop 2 inp\<rparr>))
         else
           (let st = st\<lparr>hs_out := out @ [of_int i1]\<rparr> in
            if str_at inp 1 = 0 then Inl (\<not> (\<not> hs_delimiter_has st \<or> hexdigit_pairs_required opts), hs_out st)
            else if hexdigit_pairs_required opts then Inl (False, hs_out st)
            else hexstr2bin_delimiter opts (str_at inp 1) (st\<lparr>hs_in := drop 1 inp\<rparr>)))"

lemma hexchar_0 [simp]: "nm_utils_hexchar_to_int 0 = -1"
  by (simp add: nm_utils_hexchar_to_int_def)

lemma hexstr2bin_delimiter_in: "hexstr2bin_delimiter opts d2 st = Inr st' \<Longrightarrow> length (hs_in st') \<le> length (hs_in st)"
  by (auto simp: hexstr2bin_delimiter_def Let_def split: if_splits)

lemma hexstr2bin_round_shorter:
  assumes "hexstr2bin_round opts st = Inr st'"
  shows "length (hs_in st') < length (hs_in st)"
proof -
  obtain c cs where "hs_in st = c # cs" using assms by (cases "hs_in st") (auto simp: hexstr2bin_round_def)
  then show ?thesis using assms
    by (auto simp: hexstr2bin_round_def Let_def split: if_splits dest!: hexstr2bin_delimiter_in)
qed

function hexstr2bin_loop :: "hexstr_opts \<Rightarrow> hexstr_state \<Rightarrow> bool \<times> u8 list" where
  "hexstr2bin_loop opts st = (case hexstr2bin_round opts st of Inl r \<Rightarrow> r | Inr st' \<Rightarrow> hexstr2bin_loop opts st')"
  by pat_completeness auto

termination
  by (relation "measure (\<lambda>(opts, st). length (hs_in st))") (auto intro: hexstr2bin_round_shorter)

declare hexstr2bin_loop.simps [simp del]

text \<open>The result and all the bytes that were written to the buffer.\<close>

definition nm_utils_hexstr2bin_full :: "u8 list \<Rightarrow> bool \<Rightarrow> hexstr_opts \<Rightarrow> nat \<Rightarrow> nat \<Rightarrow> u8 list option \<times> u8 list" where
  "nm_utils_hexstr2bin_full hexstr allow_0x_prefix opts required_len buffer_len =
     (let inp = (if allow_0x_prefix \<and> str_at hexstr 0 = ascii (CHR ''0'') \<and> str_at hexstr 1 = ascii (CHR ''x'')
                 then drop 2 hexstr else hexstr);
          (ok, out) = hexstr2bin_loop opts
            \<lparr>hs_in = inp, hs_out = [], hs_delimiter_has = True, hs_delimiter = 0, hs_buffer_len = buffer_len\<rparr>
      in (if ok \<and> (required_len = 0 \<or> length out = required_len) then Some out else None, out))"

definition nm_utils_hexstr2bin_alloc :: "u8 list \<Rightarrow> bool \<Rightarrow> bool \<Rightarrow> u8 list \<Rightarrow> nat \<Rightarrow> u8 list option" where
  "nm_utils_hexstr2bin_alloc hexstr allow_0x_prefix delim_required delim_candidates required_len =
     (let hexstr = (if allow_0x_prefix \<and> str_at hexstr 0 = ascii (CHR ''0'') \<and> str_at hexstr 1 = ascii (CHR ''x'')
                    then drop 2 hexstr else hexstr)
      in if str_at hexstr 0 = 0 then None
         else
           (let buffer_len = (if required_len > 0 then required_len else length hexstr div 2 + 3) in
            fst (nm_utils_hexstr2bin_full hexstr False
              \<lparr>delimiter_required = delim_required, hexdigit_pairs_required = False, delimiter_candidates = delim_candidates\<rparr>
              required_len buffer_len)))"

section \<open>Digits\<close>

lemma hexchar_unat:
  "nm_utils_hexchar_to_int ch =
     (if 48 \<le> unat ch \<and> unat ch \<le> 57 then uint ch - 48
      else if 65 \<le> unat ch \<and> unat ch \<le> 70 then uint ch - 55
      else if 97 \<le> unat ch \<and> unat ch \<le> 102 then uint ch - 87 else - 1)"
  by (simp add: nm_utils_hexchar_to_int_def word_le_nat_alt)

lemma hexstr_lookup_unat:
  assumes "v < 16"
  shows "unat (hexstr_lookup upper_case v) = (if v < 10 then 48 else if upper_case then 55 else 87) + unat v"
proof (cases "v < 10")
  case True
  then show ?thesis using unat_add_u8 [of 48 v] by (simp add: hexstr_lookup_def word_less_nat_alt)
next
  case False
  then have "unat (v - 10) = unat v - 10" "10 \<le> unat v" "unat v < 16"
    using unat_sub [of 10 v] assms by (simp_all add: word_le_nat_alt word_less_nat_alt)
  then show ?thesis using False unat_add_u8 [of 65 "v - 10"] unat_add_u8 [of 97 "v - 10"] by (simp add: hexstr_lookup_def)
qed

lemma hexstr_lookup_value:
  assumes "v < 16"
  shows "nm_utils_hexchar_to_int (hexstr_lookup upper_case v) = uint v"
  using assms unfolding hexchar_unat uint_nat hexstr_lookup_unat [OF assms] by (simp add: word_less_nat_alt)

lemma hexstr_lookup_not_0: "v < 16 \<Longrightarrow> hexstr_lookup upper_case v \<noteq> 0"
  using hexstr_lookup_value [of v upper_case] by (metis hexchar_0 uint_ge_0 neg_0_le_iff_le not_one_le_zero)

lemma unat_nibbles: "unat (drop_bit 4 (v :: u8)) = unat v div 16" "unat (take_bit 4 v) = unat v mod 16"
  unfolding unat_drop_bit_eq unsigned_take_bit_eq by (simp_all add: drop_bit_eq_div take_bit_eq_mod)

lemma nibbles [simp]: "drop_bit 4 (v :: u8) < 16" "take_bit 4 v < 16"
  using unsigned_less [of v, where 'a = nat] by (simp_all add: word_less_nat_alt unat_nibbles)

lemma nibble_sum: "of_int (uint (drop_bit 4 v) * 16 + uint (take_bit 4 v)) = (v :: u8)"
proof -
  have "uint (drop_bit 4 v) * 16 + uint (take_bit 4 v) = int (unat v div 16 * 16 + unat v mod 16)"
    unfolding uint_nat unat_nibbles by (simp only: of_nat_add of_nat_mult of_nat_numeral)
  also have "... = uint v" by (simp only: div_mult_mod_eq uint_nat)
  finally show ?thesis by simp
qed

lemma nibble_sum' [simp]: "drop_bit 4 v * 16 + take_bit 4 v = (v :: u8)"
  using nibble_sum [of v] by simp

section \<open>Round trip\<close>

text \<open>What the parser makes of one byte that is followed by something else or by the end of the string.\<close>

lemma round_last:
  assumes "hs_in st = hexstr_byte upper_case lead v" "lead \<or> (hs_delimiter_has st \<and> \<not> hexdigit_pairs_required opts)"
  shows "hexstr2bin_round opts st = Inl (True, hs_out st @ [v])"
proof (cases "drop_bit 4 v \<noteq> 0 \<or> lead")
  case True
  then show ?thesis using assms
    by (simp add: hexstr2bin_round_def hexstr_byte_def Let_def hexstr_lookup_value hexstr_lookup_not_0 nibble_sum)
next
  case False
  then have v: "take_bit 4 v = v" "v < 16" using nibble_sum' [of v] nibbles(2) [of v] by simp_all
  then show ?thesis using assms False
    by (simp add: hexstr2bin_round_def hexstr_byte_def Let_def hexstr_lookup_value [OF v(2)])
qed

lemma round_more:
  assumes "hs_in st = hexstr_byte upper_case lead v @ rest" "rest \<noteq> []" "hd rest \<noteq> 0"
    "lead \<or> (nm_utils_hexchar_to_int (hd rest) < 0 \<and> \<not> hexdigit_pairs_required opts)"
  shows "hexstr2bin_round opts st = hexstr2bin_delimiter opts (hd rest) (st\<lparr>hs_out := hs_out st @ [v], hs_in := rest\<rparr>)"
proof -
  obtain r rs where r: "rest = r # rs" using assms(2) by (cases rest) auto
  show ?thesis
  proof (cases "drop_bit 4 v \<noteq> 0 \<or> lead")
    case True
    then show ?thesis using assms r
      by (simp add: hexstr2bin_round_def hexstr_byte_def Let_def hexstr_lookup_value hexstr_lookup_not_0 nibble_sum)
  next
    case False
    then have v: "take_bit 4 v = v" "v < 16" using nibble_sum' [of v] nibbles(2) [of v] by simp_all
    then show ?thesis using assms False r
      by (simp add: hexstr2bin_round_def hexstr_byte_def Let_def hexstr_lookup_value [OF v(2)])
  qed
qed

lemma hexstr2bin_loop_round:
  "hexstr2bin_round opts st = Inl r \<Longrightarrow> hexstr2bin_loop opts st = r"
  "hexstr2bin_round opts st = Inr st' \<Longrightarrow> hexstr2bin_loop opts st = hexstr2bin_loop opts st'"
  by (simp_all add: hexstr2bin_loop.simps [of opts st])

lemma hexstr_byte_hd: "\<exists>c cs. hexstr_byte upper_case lead v = c # cs \<and> c \<noteq> 0 \<and> nm_utils_hexchar_to_int c \<ge> 0"
  by (auto simp: hexstr_byte_def Let_def hexstr_lookup_value hexstr_lookup_not_0)

lemma hexstr_loop_hd:
  assumes "bs \<noteq> []"
  shows "\<exists>c cs. bin2hexstr_loop delimiter upper_case lead bs = c # cs \<and> c \<noteq> 0 \<and> nm_utils_hexchar_to_int c \<ge> 0"
proof -
  obtain v vs where "bs = v # vs" using assms by (cases bs) auto
  then show ?thesis using hexstr_byte_hd [of upper_case lead v] by (cases vs) auto
qed

lemma loop_delimited:
  assumes "bs \<noteq> []" "delimiter \<noteq> 0" "nm_utils_hexchar_to_int delimiter < 0" "delimiter \<in> set (delimiter_candidates opts)"
    "hexdigit_pairs_required opts \<longrightarrow> lead"
    "hs_in st = bin2hexstr_loop delimiter upper_case lead bs" "length bs \<le> hs_buffer_len st"
    "hs_delimiter_has st" "hs_delimiter st = 0 \<or> hs_delimiter st = delimiter"
  shows "hexstr2bin_loop opts st = (True, hs_out st @ bs)"
  using assms
proof (induction bs arbitrary: st)
  case (Cons v vs)
  show ?case
  proof (cases "vs = []")
    case True
    then show ?thesis using Cons.prems round_last [of st upper_case lead v opts]
      by (intro hexstr2bin_loop_round(1)) auto
  next
    case False
    then have inp: "hs_in st = hexstr_byte upper_case lead v @ (delimiter # bin2hexstr_loop delimiter upper_case lead vs)"
      using Cons.prems by (cases vs) simp_all
    define st' where "st' = st\<lparr>hs_in := bin2hexstr_loop delimiter upper_case lead vs, hs_out := hs_out st @ [v],
      hs_delimiter := delimiter, hs_buffer_len := gsize_dec (hs_buffer_len st)\<rparr>"
    have "gsize_dec (hs_buffer_len st) \<noteq> 0" "length vs \<le> gsize_dec (hs_buffer_len st)"
      using False Cons.prems(7) by (cases vs; simp add: gsize_dec_def)+
    then have "hexstr2bin_round opts st = Inr st'"
      using round_more [OF inp] Cons.prems False
      by (auto simp: hexstr2bin_delimiter_def st'_def)
    moreover have "hexstr2bin_loop opts st' = (True, hs_out st' @ vs)"
      using Cons.prems False \<open>length vs \<le> gsize_dec (hs_buffer_len st)\<close> by (intro Cons.IH) (simp_all add: st'_def)
    ultimately show ?thesis by (simp add: hexstr2bin_loop_round st'_def)
  qed
qed simp

lemma loop_undelimited:
  assumes "bs \<noteq> []" "hs_in st = bin2hexstr_loop 0 upper_case True bs" "length bs \<le> hs_buffer_len st"
    "\<not> hs_delimiter_has st"
  shows "hexstr2bin_loop opts st = (True, hs_out st @ bs)"
  using assms
proof (induction bs arbitrary: st)
  case (Cons v vs)
  show ?case
  proof (cases "vs = []")
    case True
    then show ?thesis using Cons.prems round_last [of st upper_case True v opts]
      by (intro hexstr2bin_loop_round(1)) auto
  next
    case False
    then obtain c cs where c: "bin2hexstr_loop 0 upper_case True vs = c # cs" "c \<noteq> 0"
      using hexstr_loop_hd [of vs] by blast
    have inp: "hs_in st = hexstr_byte upper_case True v @ bin2hexstr_loop 0 upper_case True vs"
      using Cons.prems False by (cases vs) simp_all
    define st' where "st' = st\<lparr>hs_in := bin2hexstr_loop 0 upper_case True vs, hs_out := hs_out st @ [v],
      hs_buffer_len := gsize_dec (hs_buffer_len st)\<rparr>"
    have len: "gsize_dec (hs_buffer_len st) \<noteq> 0" "length vs \<le> gsize_dec (hs_buffer_len st)"
      using False Cons.prems(3) by (cases vs; simp add: gsize_dec_def)+
    then have "hexstr2bin_round opts st = Inr st'"
      using round_more [OF inp] Cons.prems c by (simp add: hexstr2bin_delimiter_def st'_def)
    moreover have "hexstr2bin_loop opts st' = (True, hs_out st' @ vs)"
      using Cons.prems False len by (intro Cons.IH) (simp_all add: st'_def)
    ultimately show ?thesis by (simp add: hexstr2bin_loop_round st'_def)
  qed
qed simp

text \<open>The first delimiter that is not there makes the parser look for none.\<close>

lemma loop_undelimited_first:
  assumes "bs \<noteq> []" "hs_in st = bin2hexstr_loop 0 upper_case True bs" "length bs \<le> hs_buffer_len st"
    "hs_delimiter st = 0" "\<not> delimiter_required opts" "\<forall>c\<in>set (delimiter_candidates opts). nm_utils_hexchar_to_int c < 0"
  shows "hexstr2bin_loop opts st = (True, hs_out st @ bs)"
proof (cases "hs_delimiter_has st")
  case has: True
  obtain v vs where bs: "bs = v # vs" using assms(1) by (cases bs) auto
  show ?thesis
  proof (cases "vs = []")
    case True
    then show ?thesis using assms bs round_last [of st upper_case True v opts]
      by (intro hexstr2bin_loop_round(1)) auto
  next
    case False
    then obtain c cs where c: "bin2hexstr_loop 0 upper_case True vs = c # cs" "c \<noteq> 0" "nm_utils_hexchar_to_int c \<ge> 0"
      using hexstr_loop_hd [of vs] by blast
    have inp: "hs_in st = hexstr_byte upper_case True v @ bin2hexstr_loop 0 upper_case True vs"
      using assms bs False by (cases vs) simp_all
    define st' where "st' = st\<lparr>hs_in := bin2hexstr_loop 0 upper_case True vs, hs_out := hs_out st @ [v],
      hs_delimiter_has := False, hs_buffer_len := gsize_dec (hs_buffer_len st)\<rparr>"
    have len: "gsize_dec (hs_buffer_len st) \<noteq> 0" "length vs \<le> gsize_dec (hs_buffer_len st)"
      using False assms(3) bs by (cases vs; simp add: gsize_dec_def)+
    have "c \<notin> set (delimiter_candidates opts)" using assms(6) c(3) by auto
    then have "hexstr2bin_round opts st = Inr st'"
      using round_more [OF inp] assms has len c by (simp add: hexstr2bin_delimiter_def st'_def)
    moreover have "hexstr2bin_loop opts st' = (True, hs_out st' @ vs)"
      using False len by (intro loop_undelimited) (simp_all add: st'_def)
    ultimately show ?thesis by (simp add: hexstr2bin_loop_round st'_def bs)
  qed
qed (use assms loop_undelimited in blast)

text \<open>Formats from which the bytes can be read back, and options that accept them.\<close>

definition hexstr_readable :: "hexstr_opts \<Rightarrow> bool \<Rightarrow> u8 \<Rightarrow> bool \<Rightarrow> bool" where
  "hexstr_readable opts allow_0x_prefix delimiter lead \<longleftrightarrow>
     (hexdigit_pairs_required opts \<longrightarrow> lead) \<and>
     (if delimiter = 0
      then lead \<and> \<not> delimiter_required opts \<and> list_all (\<lambda>c. nm_utils_hexchar_to_int c < 0) (delimiter_candidates opts)
      else nm_utils_hexchar_to_int delimiter < 0 \<and> delimiter \<in> set (delimiter_candidates opts) \<and>
        \<not> (allow_0x_prefix \<and> delimiter = ascii (CHR ''x'')))"

lemma hexstr_no_0x_prefix:
  assumes "bs \<noteq> []" "hexstr_readable opts True delimiter lead"
  shows "str_at (bin2hexstr_loop delimiter upper_case lead bs) 1 \<noteq> ascii (CHR ''x'')"
proof -
  have digit: "hexstr_lookup upper_case v \<noteq> 120" if "v < 16" for v
  proof
    assume "hexstr_lookup upper_case v = 120"
    then have "nm_utils_hexchar_to_int 120 = uint v" using hexstr_lookup_value [OF that] by metis
    then show False by (simp add: nm_utils_hexchar_to_int_def) (use uint_ge_0 [of v] in linarith)
  qed
  obtain v vs where bs: "bs = v # vs" using assms(1) by (cases bs) auto
  show ?thesis using assms(2) bs digit [of "take_bit 4 v"]
    by (cases vs) (auto simp: hexstr_byte_def Let_def hexstr_readable_def split: if_splits)
qed

lemma hexstr_roundtrip_aux:
  assumes "bs \<noteq> []" "length bs \<le> buffer_len" "required_len = 0 \<or> required_len = length bs"
    and "hexstr_readable opts allow_0x_prefix delimiter lead"
  shows "nm_utils_hexstr2bin_full (nm_utils_bin2hexstr_fuller bs delimiter upper_case lead) allow_0x_prefix opts
    required_len buffer_len = (Some bs, bs)"
proof -
  let ?s = "bin2hexstr_loop delimiter upper_case lead bs"
  let ?st = "\<lparr>hs_in = ?s, hs_out = [], hs_delimiter_has = True, hs_delimiter = 0, hs_buffer_len = buffer_len\<rparr>"
  have "\<not> (allow_0x_prefix \<and> str_at ?s 0 = ascii (CHR ''0'') \<and> str_at ?s 1 = ascii (CHR ''x''))"
    using hexstr_no_0x_prefix [of bs opts delimiter lead upper_case] assms(1,4) by (cases allow_0x_prefix) auto
  moreover have "hexstr2bin_loop opts ?st = (True, bs)"
  proof (cases "delimiter = 0")
    case True
    then have "lead" "\<not> delimiter_required opts" "\<forall>c\<in>set (delimiter_candidates opts). nm_utils_hexchar_to_int c < 0"
      using assms(4) by (auto simp: hexstr_readable_def list_all_iff)
    then show ?thesis using loop_undelimited_first [of bs ?st upper_case opts] assms True by simp
  next
    case False
    then show ?thesis
      using loop_delimited [of bs delimiter opts lead ?st upper_case] assms by (simp add: hexstr_readable_def)
  qed
  ultimately show ?thesis using assms(3) by (auto simp: nm_utils_hexstr2bin_full_def nm_utils_bin2hexstr_fuller_def Let_def)
qed

text \<open>
  C27. Bytes that were formatted as a hexadecimal string are read back, with or without delimiters, leading
  zeros and upper case letters.
\<close>

theorem hexstr_roundtrip:
  assumes "bs \<noteq> []" "length bs \<le> buffer_len" "required_len = 0 \<or> required_len = length bs"
    and "hexstr_readable opts allow_0x_prefix delimiter lead"
  shows "nm_utils_hexstr2bin_full (nm_utils_bin2hexstr_fuller bs delimiter upper_case lead) allow_0x_prefix opts
    required_len buffer_len = (Some bs, bs)"
  by (rule hexstr_roundtrip_aux [OF assms])

theorem hexstr_roundtrip_witness:
  "nm_utils_hexstr2bin_full (nm_utils_bin2hexstr_fuller [0xDE, 0x0A] (ascii (CHR '':'')) True False) True
     \<lparr>delimiter_required = True, hexdigit_pairs_required = False, delimiter_candidates = [ascii (CHR ''-''), ascii (CHR '':'')]\<rparr>
     2 2 = (Some [0xDE, 0x0A], [0xDE, 0x0A])"
  by (rule hexstr_roundtrip) (simp_all add: hexstr_readable_def nm_utils_hexchar_to_int_def)

section \<open>Bounds of the buffers\<close>

lemma length_hexstr_byte: "length (hexstr_byte upper_case lead v) \<le> 2"
  by (simp add: hexstr_byte_def Let_def)

lemma length_bin2hexstr_loop:
  "bs \<noteq> [] \<Longrightarrow> length (bin2hexstr_loop delimiter upper_case lead bs) + (if delimiter = 0 then 0 else 1) \<le>
     (if delimiter = 0 then 2 else 3) * length bs"
proof (induction delimiter upper_case lead bs rule: bin2hexstr_loop.induct)
  case (2 delimiter upper_case lead v)
  then show ?case using length_hexstr_byte [of upper_case lead v] by simp
next
  case (3 delimiter upper_case lead v w vs)
  then show ?case using length_hexstr_byte [of upper_case lead v] by (auto split: if_splits)
qed simp

lemma hexstr2bin_delimiter_room:
  assumes "hexstr2bin_delimiter opts d st = Inr st'" "0 < hs_buffer_len st"
  shows "0 < hs_buffer_len st' \<and> length (hs_out st') + hs_buffer_len st' < length (hs_out st) + hs_buffer_len st"
  using assms by (auto simp: hexstr2bin_delimiter_def gsize_dec_def Let_def split: if_splits)

lemma hexstr2bin_delimiter_out: "hexstr2bin_delimiter opts d st = Inl (r, out) \<Longrightarrow> out = hs_out st"
  by (auto simp: hexstr2bin_delimiter_def Let_def split: if_splits)

lemma round_out:
  assumes "hexstr2bin_round opts st = Inl (r, out)"
  shows "length out \<le> Suc (length (hs_out st))"
  using assms by (auto simp: hexstr2bin_round_def Let_def split: if_splits dest!: hexstr2bin_delimiter_out)

lemma round_room:
  assumes "hexstr2bin_round opts st = Inr st'" "0 < hs_buffer_len st"
  shows "0 < hs_buffer_len st' \<and> length (hs_out st') + hs_buffer_len st' \<le> length (hs_out st) + hs_buffer_len st"
  using assms by (auto simp: hexstr2bin_round_def Let_def split: if_splits dest!: hexstr2bin_delimiter_room)

lemma loop_room: "0 < hs_buffer_len st \<Longrightarrow> length (snd (hexstr2bin_loop opts st)) \<le> length (hs_out st) + hs_buffer_len st"
proof (induction opts st rule: hexstr2bin_loop.induct)
  case (1 opts st)
  show ?case
  proof (cases "hexstr2bin_round opts st")
    case (Inl p)
    then show ?thesis using round_out [of opts st "fst p" "snd p"] "1.prems" by (simp add: hexstr2bin_loop_round)
  next
    case (Inr st')
    then show ?thesis using "1.IH" [OF Inr] round_room [OF Inr] "1.prems" by (simp add: hexstr2bin_loop_round)
  qed
qed

text \<open>
  The parser never writes more bytes than the buffer has, whether the string is valid or not.
\<close>

theorem hexstr2bin_buffer_bound:
  assumes "0 < buffer_len"
  shows "length (snd (nm_utils_hexstr2bin_full hexstr allow_0x_prefix opts required_len buffer_len)) \<le> buffer_len"
  using assms loop_room [of _ opts] by (auto simp: nm_utils_hexstr2bin_full_def Let_def split: prod.splits)
    (metis add_0 hexstr_state.select_convs(2,5) list.size(3) snd_conv)+

theorem hexstr2bin_buffer_bound_witness:
  "length (snd (nm_utils_hexstr2bin_full (map ascii ''0xaabbc'') True
     \<lparr>delimiter_required = False, hexdigit_pairs_required = False, delimiter_candidates = []\<rparr> 0 2)) \<le> 2"
  by (rule hexstr2bin_buffer_bound) simp

text \<open>The buffer that the formatter allocates has room for the string and the final NUL.\<close>

lemma bin2hexstr_fits:
  "length (nm_utils_bin2hexstr_fuller bs delimiter upper_case lead) + 1 \<le> bin2hexstr_alloc_size (length bs) delimiter"
  using length_bin2hexstr_loop [of bs delimiter upper_case lead]
  by (cases "bs = []") (auto simp: nm_utils_bin2hexstr_fuller_def bin2hexstr_alloc_size_def split: if_splits)

text \<open>The buffer that the parser allocates has room for the bytes: no string that was formatted is too long.\<close>

lemma length_hexstr_ge: "hexstr_readable opts x delimiter lead \<Longrightarrow>
  2 * length bs \<le> Suc (length (bin2hexstr_loop delimiter upper_case lead bs))"
proof (induction delimiter upper_case lead bs rule: bin2hexstr_loop.induct)
  case (2 delimiter upper_case lead v)
  then show ?case by (simp add: hexstr_byte_def Let_def)
next
  case (3 delimiter upper_case lead v w vs)
  then show ?case by (auto simp: hexstr_readable_def hexstr_byte_def Let_def)
qed simp

lemma hexstr_alloc_roundtrip:
  assumes "bs \<noteq> []" "required_len = 0 \<or> required_len = length bs"
    and "hexstr_readable \<lparr>delimiter_required = req, hexdigit_pairs_required = False, delimiter_candidates = cands\<rparr>
      allow_0x_prefix delimiter lead"
  shows "nm_utils_hexstr2bin_alloc (nm_utils_bin2hexstr_fuller bs delimiter upper_case lead) allow_0x_prefix req cands
    required_len = Some bs"
proof -
  let ?opts = "\<lparr>delimiter_required = req, hexdigit_pairs_required = False, delimiter_candidates = cands\<rparr>"
  let ?s = "nm_utils_bin2hexstr_fuller bs delimiter upper_case lead"
  have s: "?s = bin2hexstr_loop delimiter upper_case lead bs" by (simp add: nm_utils_bin2hexstr_fuller_def)
  have prefix: "\<not> (allow_0x_prefix \<and> str_at ?s 0 = ascii (CHR ''0'') \<and> str_at ?s 1 = ascii (CHR ''x''))"
    using hexstr_no_0x_prefix [of bs ?opts delimiter lead upper_case] assms(1,3) unfolding s
    by (cases allow_0x_prefix) auto
  have "str_at ?s 0 \<noteq> 0" using hexstr_loop_hd [OF assms(1), of delimiter upper_case lead] unfolding s by auto
  moreover have "length bs \<le> (if required_len > 0 then required_len else length ?s div 2 + 3)"
    using length_hexstr_ge [OF assms(3), of bs upper_case] assms(2) unfolding s by auto
  moreover have "hexstr_readable ?opts False delimiter lead" using assms(3) by (auto simp: hexstr_readable_def)
  ultimately show ?thesis
    using hexstr_roundtrip_aux [OF assms(1) _ assms(2), of _ ?opts False delimiter lead upper_case] prefix
    unfolding nm_utils_hexstr2bin_alloc_def if_not_P [OF prefix] Let_def by simp
qed

end
