(* ===== verification/NM_Names.thy ===== *)
theory NM_Names
  imports NM_Chars
begin

text \<open>
  Validation of names: interface names (\<^verbatim>\<open>nm_utils_ifname_valid\<close> and its parts, \<^verbatim>\<open>nm_utils_ifname_cpy\<close>)
  and host names (\<^verbatim>\<open>nm_hostname_is_valid\<close>) of \<^verbatim>\<open>nm-shared-utils.c\<close>. Whether a string is valid UTF-8 is
  decided by glib and is a parameter.
\<close>

section \<open>Interface names\<close>

abbreviation (input) IFNAMSIZ :: nat where
  "IFNAMSIZ \<equiv> 16"

text \<open>The messages of the errors.\<close>

datatype ifname_error =
  IfnameMissing | IfnameTooShort | IfnameReserved | IfnameInvalidChar | IfnameTooLong
| IfnamePercent | IfnameNotAllowed | IfnameOvsChar | IfnameEmpty | IfnameNotUtf8

text \<open>The loop over at most \<^verbatim>\<open>IFNAMSIZ\<close> bytes, of which the first argument counts the remaining ones.\<close>

fun ifname_kernel_loop :: "nat \<Rightarrow> u8 list \<Rightarrow> ifname_error + unit" where
  "ifname_kernel_loop 0 name = Inl IfnameTooLong"
| "ifname_kernel_loop (Suc n) name =
     (let ch = str_at name 0 in
      if ch = 0 then Inr ()
      else if ch \<in> {ascii (CHR ''/''), ascii (CHR '':'')} \<or> nm_ascii_is_space_kernel ch then Inl IfnameInvalidChar
      else ifname_kernel_loop n (drop 1 name))"

definition nm_utils_ifname_valid_kernel :: "u8 list option \<Rightarrow> ifname_error + unit" where
  "nm_utils_ifname_valid_kernel name =
     (case name of
        None \<Rightarrow> Inl IfnameMissing
      | Some name \<Rightarrow>
          if str_at name 0 = 0 then Inl IfnameTooShort
          else if str_at name 0 = ascii (CHR ''.'') \<and>
            (str_at name 1 = 0 \<or> (str_at name 1 = ascii (CHR ''.'') \<and> str_at name 2 = 0)) then Inl IfnameReserved
          else ifname_kernel_loop IFNAMSIZ name)"

definition ifname_valid_kernel_strict :: "u8 list \<Rightarrow> ifname_error + unit" where
  "ifname_valid_kernel_strict name =
     (case nm_utils_ifname_valid_kernel (Some name) of
        Inl e \<Rightarrow> Inl e
      | Inr _ \<Rightarrow>
          if ascii (CHR ''%'') \<in> set name then Inl IfnamePercent
          else if name \<in> {str ''all'', str ''default'', str ''bonding_masters''} then Inl IfnameNotAllowed
          else Inr ())"

fun ifname_valid_ovs :: "u8 list \<Rightarrow> ifname_error + unit" where
  "ifname_valid_ovs [] = Inr ()"
| "ifname_valid_ovs (ch # name) =
     (if ch = 0x5C \<or> ch = ascii (CHR ''/'') \<or> \<not> g_ascii_isgraph ch then Inl IfnameOvsChar
      else ifname_valid_ovs name)"

datatype NMUtilsIfaceType = NMU_IFACE_ANY | NMU_IFACE_KERNEL | NMU_IFACE_OVS | NMU_IFACE_OVS_AND_KERNEL

definition nm_utils_ifname_valid ::
    "(u8 list \<Rightarrow> bool) \<Rightarrow> u8 list option \<Rightarrow> NMUtilsIfaceType \<Rightarrow> ifname_error + unit" where
  "nm_utils_ifname_valid utf8_validate name type =
     (case name of
        None \<Rightarrow> Inl IfnameEmpty
      | Some name \<Rightarrow>
          if str_at name 0 = 0 then Inl IfnameEmpty
          else if \<not> utf8_validate name then Inl IfnameNotUtf8
          else
            (case type of
               NMU_IFACE_KERNEL \<Rightarrow> ifname_valid_kernel_strict name
             | NMU_IFACE_OVS \<Rightarrow> ifname_valid_ovs name
             | NMU_IFACE_OVS_AND_KERNEL \<Rightarrow>
                 (case ifname_valid_kernel_strict name of Inl e \<Rightarrow> Inl e | Inr _ \<Rightarrow> ifname_valid_ovs name)
             | NMU_IFACE_ANY \<Rightarrow>
                 (case ifname_valid_kernel_strict name of
                    Inr _ \<Rightarrow> Inr ()
                  | Inl local \<Rightarrow> (case ifname_valid_ovs name of Inr _ \<Rightarrow> Inr () | Inl _ \<Rightarrow> Inl local))))"

text \<open>Copying a name into a buffer of \<^verbatim>\<open>IFNAMSIZ\<close> bytes: the two loops with their index.\<close>

fun ifname_cpy_name :: "nat \<Rightarrow> u8 list \<Rightarrow> u8 list" where
  "ifname_cpy_name 0 name = []"
| "ifname_cpy_name (Suc n) name = (if str_at name 0 \<noteq> 0 then str_at name 0 # ifname_cpy_name n (drop 1 name) else [])"

definition nm_utils_ifname_cpy :: "u8 list \<Rightarrow> u8 list" where
  "nm_utils_ifname_cpy name =
     (let dst = ifname_cpy_name IFNAMSIZ name in dst @ replicate (IFNAMSIZ - length dst) 0)"

text \<open>What the kernel accepts as the name of an interface.\<close>

definition ifname_char :: "u8 \<Rightarrow> bool" where
  "ifname_char ch \<longleftrightarrow> ch \<notin> {ascii (CHR ''/''), ascii (CHR '':'')} \<and> \<not> nm_ascii_is_space_kernel ch"

definition kernel_ifname :: "u8 list \<Rightarrow> bool" where
  "kernel_ifname name \<longleftrightarrow> name \<noteq> [] \<and> length name < IFNAMSIZ \<and> name \<noteq> str ''.'' \<and> name \<noteq> str ''..'' \<and> list_all ifname_char name"

lemma ifname_kernel_loop_eq:
  "c_string name \<Longrightarrow> ifname_kernel_loop n name =
     (if \<not> list_all ifname_char (take n name) then Inl IfnameInvalidChar
      else if length name < n then Inr () else Inl IfnameTooLong)"
proof (induction n arbitrary: name)
  case (Suc n)
  then show ?case by (cases name) (auto simp: ifname_char_def)
qed simp

lemma ifname_reserved_iff:
  assumes "c_string name"
  shows "str_at name 0 = ascii (CHR ''.'') \<and> (str_at name 1 = 0 \<or> (str_at name 1 = ascii (CHR ''.'') \<and> str_at name 2 = 0)) \<longleftrightarrow>
    name = str ''.'' \<or> name = str ''..''"
proof -
  consider "name = []" | c where "name = [c]" | c d where "name = [c, d]" | c d e r where "name = c # d # e # r"
    by (cases name rule: remdups_adj.cases) (metis list.exhaust)+
  then show ?thesis using assms by cases auto
qed

lemma valid_kernel_eq:
  assumes "c_string name"
  shows "nm_utils_ifname_valid_kernel (Some name) =
    (if name = [] then Inl IfnameTooShort
     else if name = str ''.'' \<or> name = str ''..'' then Inl IfnameReserved
     else if \<not> list_all ifname_char (take IFNAMSIZ name) then Inl IfnameInvalidChar
     else if length name < IFNAMSIZ then Inr () else Inl IfnameTooLong)"
  unfolding nm_utils_ifname_valid_kernel_def option.case ifname_reserved_iff [OF assms] str_at_0_iff [OF assms]
    ifname_kernel_loop_eq [OF assms] by simp

lemma valid_kernel_iff:
  assumes "c_string name"
  shows "nm_utils_ifname_valid_kernel (Some name) = Inr () \<longleftrightarrow> kernel_ifname name"
  unfolding valid_kernel_eq [OF assms] kernel_ifname_def by auto

lemma ifname_cpy_name_eq: "c_string name \<Longrightarrow> ifname_cpy_name n name = take n name"
proof (induction n arbitrary: name)
  case (Suc n)
  then show ?case by (cases name) auto
qed simp

text \<open>What Open vSwitch names may contain here: graphical ASCII characters but no slashes.\<close>

definition ovs_char :: "u8 \<Rightarrow> bool" where
  "ovs_char ch \<longleftrightarrow> 0x20 < ch \<and> ch < 127 \<and> ch \<noteq> 0x5C \<and> ch \<noteq> ascii (CHR ''/'')"

lemma valid_ovs_eq: "ifname_valid_ovs name = (if list_all ovs_char name then Inr () else Inl IfnameOvsChar)"
  by (induction name) (auto simp: ovs_char_def g_ascii_isgraph_def)

definition profile_ifname :: "u8 list \<Rightarrow> bool" where
  "profile_ifname name \<longleftrightarrow> kernel_ifname name \<and> ascii (CHR ''%'') \<notin> set name \<and>
     name \<notin> {str ''all'', str ''default'', str ''bonding_masters''}"

lemma valid_kernel_strict_iff:
  "c_string name \<Longrightarrow> ifname_valid_kernel_strict name = Inr () \<longleftrightarrow> profile_ifname name"
  using valid_kernel_iff [of name]
  by (auto simp: ifname_valid_kernel_strict_def profile_ifname_def split: sum.splits)

text \<open>
  The verdict on an interface name, with the error that is reported: the checks are tried in the order
  in which they are listed, and an invalid character counts only within the first 16 bytes.
\<close>

theorem ifname_valid_kernel_verdict:
  assumes "c_string name"
  shows "nm_utils_ifname_valid_kernel (Some name) =
    (if name = [] then Inl IfnameTooShort
     else if name = str ''.'' \<or> name = str ''..'' then Inl IfnameReserved
     else if \<not> list_all ifname_char (take IFNAMSIZ name) then Inl IfnameInvalidChar
     else if length name < IFNAMSIZ then Inr () else Inl IfnameTooLong)"
  by (rule valid_kernel_eq [OF assms])

theorem ifname_valid_kernel_verdict_witness:
  "nm_utils_ifname_valid_kernel (Some (str ''a-name-of-16char'' @ str ''/'')) = Inl IfnameTooLong"
proof -
  have "c_string (str ''a-name-of-16char'' @ str ''/'')" by simp
  from ifname_valid_kernel_verdict [OF this] show ?thesis
    by (simp add: ifname_char_def nm_ascii_is_space_kernel_def)
qed

text \<open>
  For profiles, a name is accepted by the type of interface: names for kernel interfaces must be accepted by
  the kernel and not be special, names for Open vSwitch must be graphical ASCII characters without slashes.
\<close>

theorem ifname_valid_iff:
  assumes "c_string name"
  shows "nm_utils_ifname_valid utf8_validate (Some name) type = Inr () \<longleftrightarrow>
    name \<noteq> [] \<and> utf8_validate name \<and>
    (case type of
       NMU_IFACE_KERNEL \<Rightarrow> profile_ifname name
     | NMU_IFACE_OVS \<Rightarrow> list_all ovs_char name
     | NMU_IFACE_OVS_AND_KERNEL \<Rightarrow> profile_ifname name \<and> list_all ovs_char name
     | NMU_IFACE_ANY \<Rightarrow> profile_ifname name \<or> list_all ovs_char name)"
  using valid_kernel_strict_iff [OF assms] valid_ovs_eq [of name]
  by (cases "ifname_valid_kernel_strict name")
    (auto simp: nm_utils_ifname_valid_def str_at_0_iff [OF assms] split: NMUtilsIfaceType.splits)

theorem ifname_valid_iff_witness:
  "nm_utils_ifname_valid (\<lambda>_. True) (Some (str ''a-very-long-ovs-bridge'')) NMU_IFACE_ANY = Inr ()"
proof -
  have "c_string (str ''a-very-long-ovs-bridge'')" by simp
  from ifname_valid_iff [OF this] show ?thesis by (simp add: ovs_char_def)
qed

text \<open>
  A name that was accepted fits into the buffer of an interface request: the copy fills the whole buffer,
  ends with a NUL byte, and is the name when it is read back as a C string.
\<close>

theorem ifname_cpy_valid:
  assumes "c_string name" "nm_utils_ifname_valid_kernel (Some name) = Inr ()"
  shows "length (nm_utils_ifname_cpy name) = IFNAMSIZ \<and> last (nm_utils_ifname_cpy name) = 0 \<and>
    takeWhile (\<lambda>c. c \<noteq> 0) (nm_utils_ifname_cpy name) = name"
proof -
  have len: "length name < 16" using assms(2) valid_kernel_iff [OF assms(1)] by (simp add: kernel_ifname_def)
  then have cpy: "nm_utils_ifname_cpy name = name @ replicate (16 - length name) 0"
    by (simp add: nm_utils_ifname_cpy_def ifname_cpy_name_eq [OF assms(1)] Let_def)
  obtain k where "16 - length name = Suc k" using len by (cases "16 - length name") auto
  moreover from this have "length name + k = 15" using len by simp
  moreover have "takeWhile (\<lambda>c. c \<noteq> 0) (name @ 0 # r) = name" for r
    using assms(1) by (induction name) auto
  ultimately show ?thesis using len cpy by (simp add: last_append)
qed

theorem ifname_cpy_valid_witness:
  "takeWhile (\<lambda>c. c \<noteq> 0) (nm_utils_ifname_cpy (str ''eth0'')) = str ''eth0''"
proof -
  have name: "c_string (str ''eth0'')" by simp
  moreover have "nm_utils_ifname_valid_kernel (Some (str ''eth0'')) = Inr ()"
    using valid_kernel_eq [OF name] by (simp add: ifname_char_def nm_ascii_is_space_kernel_def)
  ultimately show ?thesis using ifname_cpy_valid by blast
qed

section \<open>Host names\<close>

abbreviation (input) NM_HOST_NAME_MAX :: nat where
  "NM_HOST_NAME_MAX \<equiv> 64"

definition valid_ldh_char :: "u8 \<Rightarrow> bool" where
  "valid_ldh_char c \<longleftrightarrow> in_range (ascii (CHR ''a'')) (ascii (CHR ''z'')) c \<or> in_range (ascii (CHR ''A'')) (ascii (CHR ''Z'')) c \<or>
     in_range (ascii (CHR ''0'')) (ascii (CHR ''9'')) c \<or> c = ascii (CHR ''-'')"

text \<open>The loop leaves the flags and the number of dots, or finds that the name is invalid.\<close>

fun hostname_loop :: "bool \<Rightarrow> bool \<Rightarrow> nat \<Rightarrow> u8 list \<Rightarrow> (bool \<times> bool \<times> nat) option" where
  "hostname_loop dot hyphen n_dots [] = Some (dot, hyphen, n_dots)"
| "hostname_loop dot hyphen n_dots (c # p) =
     (if c = ascii (CHR ''.'') then
        (if dot \<or> hyphen then None else hostname_loop True False (n_dots + 1) p)
      else if c = ascii (CHR ''-'') then
        (if dot then None else hostname_loop False True n_dots p)
      else if \<not> valid_ldh_char c then None
      else hostname_loop False False n_dots p)"

definition nm_hostname_is_valid :: "u8 list \<Rightarrow> bool \<Rightarrow> bool" where
  "nm_hostname_is_valid s trailing_dot =
     (if str_at s 0 = 0 then False
      else
        (case hostname_loop True True 0 s of
           None \<Rightarrow> False
         | Some (dot, hyphen, n_dots) \<Rightarrow>
             if dot \<and> (n_dots < 2 \<or> \<not> trailing_dot) then False
             else if hyphen then False
             else if length s > NM_HOST_NAME_MAX then False
             else True))"

text \<open>The specification: a host name is a list of labels with dots between them.\<close>

abbreviation labels :: "u8 list \<Rightarrow> u8 list list" where
  "labels \<equiv> str_split (ascii (CHR ''.''))"

definition valid_label :: "u8 list \<Rightarrow> bool" where
  "valid_label l \<longleftrightarrow> l \<noteq> [] \<and> list_all valid_ldh_char l \<and> hd l \<noteq> ascii (CHR ''-'') \<and> last l \<noteq> ascii (CHR ''-'')"

definition hostname_spec :: "u8 list \<Rightarrow> bool \<Rightarrow> bool" where
  "hostname_spec s trailing_dot \<longleftrightarrow>
     length s \<le> NM_HOST_NAME_MAX \<and>
     (list_all valid_label (labels s) \<or>
      (trailing_dot \<and> last (labels s) = [] \<and> 3 \<le> length (labels s) \<and> list_all valid_label (butlast (labels s))))"

text \<open>
  What the loop checks for the rest of the current label \<open>l\<close> and the labels \<open>ls\<close> after it, given the flags
  for what it has seen of the current label.
\<close>

definition later_labels_ok :: "bool \<Rightarrow> nat \<Rightarrow> u8 list list \<Rightarrow> bool" where
  "later_labels_ok td n ls \<longleftrightarrow> list_all valid_label ls \<or>
     (td \<and> last ls = [] \<and> list_all valid_label (butlast ls) \<and> 3 \<le> n + length ls)"

definition rest_ok :: "bool \<Rightarrow> bool \<Rightarrow> bool \<Rightarrow> nat \<Rightarrow> u8 list \<Rightarrow> u8 list list \<Rightarrow> bool" where
  "rest_ok td dot hyphen n l ls \<longleftrightarrow>
     list_all valid_ldh_char l \<and> (dot \<and> l \<noteq> [] \<longrightarrow> hd l \<noteq> ascii (CHR ''-'')) \<and>
     (if ls = []
      then if l = [] then \<not> (dot \<and> (n < 2 \<or> \<not> td)) \<and> \<not> hyphen else last l \<noteq> ascii (CHR ''-'')
      else (if l = [] then \<not> dot \<and> \<not> hyphen else last l \<noteq> ascii (CHR ''-'')) \<and> later_labels_ok td (Suc n) ls)"

definition hostname_accepts :: "bool \<Rightarrow> (bool \<times> bool \<times> nat) option \<Rightarrow> bool" where
  "hostname_accepts td r = (case r of None \<Rightarrow> False | Some (d, h, m) \<Rightarrow> \<not> (d \<and> (m < 2 \<or> \<not> td)) \<and> \<not> h)"

lemma rest_ok_next: "rest_ok td True False n l ls \<longleftrightarrow> later_labels_ok td n (l # ls)"
  by (cases "ls = []") (auto simp: rest_ok_def later_labels_ok_def valid_label_def)

lemma hostname_loop_labels:
  "labels p = l # ls \<Longrightarrow> hostname_accepts td (hostname_loop dot hyphen n p) \<longleftrightarrow> rest_ok td dot hyphen n l ls"
proof (induction p arbitrary: dot hyphen n l ls)
  case Nil
  then show ?case by (auto simp: hostname_accepts_def rest_ok_def)
next
  case (Cons c p)
  obtain l' ls' where p: "labels p = l' # ls'" by (rule str_split_Cons)
  show ?case
  proof (cases "c = ascii (CHR ''.'')")
    case True
    then have "l = []" "ls = l' # ls'" using Cons.prems p by simp_all
    then show ?thesis
      using Cons.IH [OF p] True rest_ok_next [of td "Suc n" l' ls']
      by (cases "dot \<or> hyphen") (auto simp: rest_ok_def hostname_accepts_def)
  next
    case False
    then have "l = c # l'" "ls = ls'" using Cons.prems p by simp_all
    then show ?thesis
      using Cons.IH [OF p] False
      by (cases "c = ascii (CHR ''-'')") (auto simp: rest_ok_def hostname_accepts_def valid_ldh_char_def)
  qed
qed

text \<open>
  C35. A host name is accepted if and only if it has at most 64 characters and consists of labels of letters,
  digits and hyphens, separated by dots, of which none is empty or starts or ends with a hyphen; where trailing
  dots are allowed, a name of two or more labels may have one.
\<close>

theorem hostname_is_valid_iff: "nm_hostname_is_valid s trailing_dot \<longleftrightarrow> hostname_spec s trailing_dot"
proof -
  obtain l ls where s: "labels s = l # ls" by (rule str_split_Cons)
  have "rest_ok trailing_dot True True 0 l ls \<longleftrightarrow> list_all valid_label (labels s) \<or>
      (trailing_dot \<and> last (labels s) = [] \<and> 3 \<le> length (labels s) \<and> list_all valid_label (butlast (labels s)))"
    unfolding s by (cases "ls = []") (auto simp: rest_ok_def later_labels_ok_def valid_label_def)
  then have "hostname_spec s trailing_dot \<longleftrightarrow>
      length s \<le> 64 \<and> hostname_accepts trailing_dot (hostname_loop True True 0 s)"
    by (simp add: hostname_spec_def hostname_loop_labels [OF s])
  moreover have "\<not> hostname_accepts trailing_dot (hostname_loop True True 0 s)" if "str_at s 0 = 0"
    using that by (cases s) (auto simp: hostname_accepts_def valid_ldh_char_def)
  ultimately show ?thesis
    by (auto simp: nm_hostname_is_valid_def hostname_accepts_def split: option.splits)
qed

text \<open>The older check also allows underscores and hyphens everywhere in a label.\<close>

definition g_ascii_isalnum :: "u8 \<Rightarrow> bool" where
  "g_ascii_isalnum c \<longleftrightarrow> in_range (ascii (CHR ''a'')) (ascii (CHR ''z'')) c \<or> in_range (ascii (CHR ''A'')) (ascii (CHR ''Z'')) c \<or>
     in_range (ascii (CHR ''0'')) (ascii (CHR ''9'')) c"

fun validate_hostname_loop :: "bool \<Rightarrow> u8 list \<Rightarrow> bool option" where
  "validate_hostname_loop dot [] = Some dot"
| "validate_hostname_loop dot (c # p) =
     (if c = ascii (CHR ''.'') then (if dot then None else validate_hostname_loop True p)
      else if \<not> g_ascii_isalnum c \<and> c \<noteq> ascii (CHR ''-'') \<and> c \<noteq> ascii (CHR ''_'') then None
      else validate_hostname_loop False p)"

definition nm_utils_validate_hostname :: "u8 list option \<Rightarrow> bool" where
  "nm_utils_validate_hostname hostname =
     (case hostname of
        None \<Rightarrow> False
      | Some hostname \<Rightarrow>
          if str_at hostname 0 = 0 then False
          else (case validate_hostname_loop True hostname of
                  None \<Rightarrow> False
                | Some dot \<Rightarrow> \<not> dot \<and> length hostname \<le> NM_HOST_NAME_MAX))"

lemma hostname_loop_validate:
  "hostname_loop dot hyphen n p = Some (d, h, m) \<Longrightarrow> validate_hostname_loop dot p = Some d"
  by (induction p arbitrary: dot hyphen n) (auto simp: valid_ldh_char_def g_ascii_isalnum_def split: if_splits)

lemma hostname_valid_validates: "nm_hostname_is_valid s False \<Longrightarrow> nm_utils_validate_hostname (Some s)"
  using hostname_loop_validate [of True True 0 s]
  by (auto simp: nm_hostname_is_valid_def nm_utils_validate_hostname_def split: if_splits option.splits)

end
