(* ===== verification/NM_Paths.thy ===== *)
theory NM_Paths
  imports NM_Chars NM_Inet "HOL-Library.Sublist"
begin

text \<open>
  Paths (\<^verbatim>\<open>nm_path_find_first_component\<close>, \<^verbatim>\<open>nm_path_compare\<close>, \<^verbatim>\<open>nm_path_startswith_full\<close>,
  \<^verbatim>\<open>nm_path_simplify\<close> of \<^verbatim>\<open>nm-shared-utils.c\<close>). A pointer into a string is the rest of the string from
  there; \<^verbatim>\<open>nm_path_simplify\<close>, which works in place, has a memory and indices.
\<close>

section \<open>Operations\<close>

abbreviation (input) slash :: u8 where "slash \<equiv> 0x2F"
abbreviation (input) dot :: u8 where "dot \<equiv> 0x2E"

abbreviation (input) NAME_MAX :: nat where
  "NAME_MAX \<equiv> 255"

fun skip_slash_or_dot :: "u8 list \<Rightarrow> u8 list" where
  "skip_slash_or_dot [] = []"
| "skip_slash_or_dot (c # p) =
     (if c = slash then skip_slash_or_dot p
      else if c = dot \<and> str_at p 0 = slash then skip_slash_or_dot (drop 1 p)
      else c # p)"

text \<open>
  The component with its length and the rest after it; or the end of the path with the rest, which is empty;
  or an invalid component, which leaves the pointer of the caller.
\<close>

datatype path_first =
  PathInvalid | PathEnd (path_rest: "u8 list") | PathComponent (path_ret: "u8 list") (path_len: nat) (path_rest: "u8 list")

definition nm_path_find_first_component :: "u8 list \<Rightarrow> bool \<Rightarrow> path_first" where
  "nm_path_find_first_component p accept_dot_dot =
     (let first = skip_slash_or_dot p in
      if first = [] then PathEnd first
      else if first = [dot] then PathEnd (drop 1 first)
      else
        (let end_first = dropWhile (\<lambda>c. c \<noteq> slash) first;
             len = length first - length end_first
         in if len > NAME_MAX then PathInvalid
            else if \<not> accept_dot_dot \<and> len = 2 \<and> str_at first 0 = dot \<and> str_at first 1 = dot then PathInvalid
            else
              (let next = skip_slash_or_dot end_first in
               PathComponent first len (if next = [dot] then drop 1 next else next))))"

definition nm_path_is_absolute :: "u8 list \<Rightarrow> bool" where
  "nm_path_is_absolute p \<longleftrightarrow> str_at p 0 = slash"

section \<open>Components\<close>

definition path_components :: "u8 list \<Rightarrow> u8 list list" where
  "path_components p = filter (\<lambda>c. c \<noteq> [] \<and> c \<noteq> [dot]) (str_split slash p)"

lemma components_simps [simp]:
  "path_components [] = []" "path_components [dot] = []" "path_components (slash # p) = path_components p"
  "path_components (dot # slash # p) = path_components p"
  by (simp_all add: path_components_def)

lemma components_step:
  assumes "takeWhile (\<lambda>c. c \<noteq> slash) p \<notin> {[], [dot]}"
  shows "path_components p = takeWhile (\<lambda>c. c \<noteq> slash) p # path_components (dropWhile (\<lambda>c. c \<noteq> slash) p)"
proof (cases "dropWhile (\<lambda>c. c \<noteq> slash) p")
  case Nil
  show ?thesis using assms unfolding path_components_def str_split_takeWhile [of slash p] Nil by simp
next
  case (Cons a r)
  then have "a = slash" using hd_dropWhile [of "\<lambda>c. c \<noteq> slash" p] by simp
  then have "path_components (a # r) = path_components r" by simp
  then show ?thesis
    using assms unfolding path_components_def str_split_takeWhile [of slash p] Cons by simp
qed

lemma skip_components [simp]: "path_components (skip_slash_or_dot p) = path_components p"
proof (induction p rule: skip_slash_or_dot.induct)
  case (2 c p)
  then show ?case by (cases p) auto
qed simp

lemma skip_suffix: "suffix (skip_slash_or_dot p) p"
proof (induction p rule: skip_slash_or_dot.induct)
  case (2 c p)
  have "suffix (skip_slash_or_dot (drop 1 p)) p" if "suffix (skip_slash_or_dot (drop 1 p)) (drop 1 p)"
    using that suffix_drop suffix_order.trans by blast
  then show ?case using 2 by (auto simp: suffix_Cons)
qed simp

lemma skip_Cons_slash: "suffix (skip_slash_or_dot (slash # r)) r"
  using skip_suffix [of r] by simp

lemma skip_first:
  assumes "skip_slash_or_dot p \<noteq> []" "skip_slash_or_dot p \<noteq> [dot]"
  shows "takeWhile (\<lambda>c. c \<noteq> slash) (skip_slash_or_dot p) \<notin> {[], [dot]}"
  using assms
proof (induction p rule: skip_slash_or_dot.induct)
  case (2 c p)
  then show ?case by (cases p) auto
qed simp

lemma length_first:
  "length first - length (dropWhile P first) = length (takeWhile P first)"
  by (metis add_diff_cancel_right' length_append takeWhile_dropWhile_id)

lemma takeWhile_eq_dots: "takeWhile (\<lambda>c. c \<noteq> slash) f = [dot, dot] \<longleftrightarrow>
  length (takeWhile (\<lambda>c. c \<noteq> slash) f) = 2 \<and> str_at f 0 = dot \<and> str_at f 1 = dot"
proof (cases f)
  case (Cons a g)
  then show ?thesis by (cases g) auto
qed simp

lemma find_first_cases:
  obtains (End) "nm_path_find_first_component p dd = PathEnd []" "path_components p = []"
  | (Invalid) c cs where "nm_path_find_first_component p dd = PathInvalid" "path_components p = c # cs"
      "NAME_MAX < length c \<or> (\<not> dd \<and> c = [dot, dot])"
  | (Component) f len nxt c sep where "nm_path_find_first_component p dd = PathComponent f len nxt"
      "path_components p = c # path_components nxt" "len = length c" "c \<noteq> []" "len \<le> NAME_MAX" "dd \<or> c \<noteq> [dot, dot]"
      "suffix f p" "f = c @ sep @ nxt" "sep = [] \<longrightarrow> nxt = []" "path_components f = path_components p"
proof -
  let ?f = "skip_slash_or_dot p"
  show ?thesis
  proof (cases "?f = [] \<or> ?f = [dot]")
    case True
    moreover from this have "path_components p = []"
      by (metis components_simps(1,2) skip_components)
    ultimately show ?thesis using End by (auto simp: nm_path_find_first_component_def Let_def)
  next
    case False
    define c e where "c = takeWhile (\<lambda>c. c \<noteq> slash) ?f" and "e = dropWhile (\<lambda>c. c \<noteq> slash) ?f"
    define nxt where "nxt = (let n = skip_slash_or_dot e in if n = [dot] then drop 1 n else n)"
    have c: "c \<noteq> []" "c \<noteq> [dot]" using skip_first [of p] False unfolding c_def by auto
    have ce: "?f = c @ e" by (simp add: c_def e_def)
    have comps: "path_components p = c # path_components e"
      using components_step [of ?f] c unfolding c_def e_def skip_components by simp
    have nxt: "path_components e = path_components nxt"
      unfolding nxt_def Let_def by (subst skip_components [of e, symmetric]) (simp del: skip_components)
    have run: "nm_path_find_first_component p dd =
        (if NAME_MAX < length c then PathInvalid else if \<not> dd \<and> c = [dot, dot] then PathInvalid else PathComponent ?f (length c) nxt)"
      using False unfolding nm_path_find_first_component_def Let_def length_first c_def e_def nxt_def takeWhile_eq_dots by simp
    have "e \<noteq> [] \<Longrightarrow> \<not> hd e \<noteq> slash" unfolding e_def by (rule hd_dropWhile)
    then have "e = [] \<or> (\<exists>r. e = slash # r)" by (cases e) auto
    then have "e = [] \<and> nxt = [] \<or> (\<exists>r. e = slash # r \<and> suffix nxt r)"
      using skip_Cons_slash by (auto simp: nxt_def Let_def suffix_def)
    then obtain sep where sep: "e = sep @ nxt" "sep = [] \<longrightarrow> nxt = []"
      by (auto simp: suffix_def intro: that [of "slash # _"])
    show ?thesis
    proof (cases "NAME_MAX < length c \<or> (\<not> dd \<and> c = [dot, dot])")
      case True
      then show ?thesis using Invalid [OF _ comps] run by auto
    next
      case False
      then show ?thesis
        using Component [of ?f "length c" nxt c sep, OF _ _ _ _ _ _ skip_suffix _ _ skip_components] run comps nxt c sep ce by auto
    qed
  qed
qed

lemma find_first_shorter:
  "nm_path_find_first_component p dd = PathComponent f len nxt \<Longrightarrow> length nxt < length p"
  by (cases rule: find_first_cases [where p = p and dd = dd]) (auto dest!: suffix_length_le simp flip: length_greater_0_conv)

section \<open>Comparison\<close>

function path_compare_loop :: "u8 list \<Rightarrow> u8 list \<Rightarrow> int" where
  "path_compare_loop a b =
     (case (nm_path_find_first_component a True, nm_path_find_first_component b True) of
        (PathInvalid, PathInvalid) \<Rightarrow> cmp_bytes a b
      | (PathInvalid, _) \<Rightarrow> 1
      | (_, PathInvalid) \<Rightarrow> - 1
      | (PathEnd _, PathEnd _) \<Rightarrow> 0
      | (PathEnd _, PathComponent _ _ _) \<Rightarrow> - 1
      | (PathComponent _ _ _, PathEnd _) \<Rightarrow> 1
      | (PathComponent aa j a', PathComponent bb k b') \<Rightarrow>
          (let c = nm_cmp_memcmp aa bb (min j k) in
           if c \<noteq> 0 then c
           else if j \<noteq> k then nm_cmp_direct j k
           else path_compare_loop a' b'))"
  by pat_completeness auto

termination
  by (relation "measure (\<lambda>(a, b). length a)") (auto dest: find_first_shorter find_first_shorter [OF sym])

declare path_compare_loop.simps [simp del]

definition nm_path_compare :: "u8 list option \<Rightarrow> u8 list option \<Rightarrow> int" where
  "nm_path_compare a b =
     (case (a, b) of
        (None, None) \<Rightarrow> 0
      | (None, Some _) \<Rightarrow> - 1
      | (Some _, None) \<Rightarrow> 1
      | (Some a, Some b) \<Rightarrow>
          (if nm_path_is_absolute a \<noteq> nm_path_is_absolute b
           then nm_cmp_direct (nm_path_is_absolute a) (nm_path_is_absolute b)
           else path_compare_loop a b))"

text \<open>
  A path as a list of tokens: the components up to the first invalid one, and the rest of the path from there
  on. Two paths are compared token by token.
\<close>

function path_tokens :: "u8 list \<Rightarrow> (bool \<times> u8 list) list" where
  "path_tokens p =
     (case nm_path_find_first_component p True of
        PathInvalid \<Rightarrow> [(True, p)]
      | PathEnd _ \<Rightarrow> []
      | PathComponent f len nxt \<Rightarrow> (False, take len f) # path_tokens nxt)"
  by pat_completeness auto

termination
  by (relation "measure length") (auto dest: find_first_shorter)

declare path_tokens.simps [simp del]

definition path_valid :: "bool \<Rightarrow> u8 list \<Rightarrow> bool" where
  "path_valid accept_dot_dot p \<longleftrightarrow>
     list_all (\<lambda>c. length c \<le> NAME_MAX \<and> (accept_dot_dot \<or> c \<noteq> [dot, dot])) (path_components p)"

lemma path_tokens_valid: "path_valid True p \<Longrightarrow> path_tokens p = map (Pair False) (path_components p)"
proof (induction p rule: path_tokens.induct)
  case (1 p)
  show ?case
  proof (cases rule: find_first_cases [where p = p and dd = True])
    case End
    then show ?thesis by (simp add: path_tokens.simps [of p])
  next
    case (Invalid c cs)
    then show ?thesis using 1 by (auto simp: path_valid_def)
  next
    case (Component f len nxt c sep)
    then have "path_valid True nxt" using "1.prems" by (simp add: path_valid_def)
    then show ?thesis using "1.IH" Component by (simp add: path_tokens.simps [of p])
  qed
qed

definition cmp_token :: "bool \<times> u8 list \<Rightarrow> bool \<times> u8 list \<Rightarrow> int" where
  "cmp_token a b = (if nm_cmp_direct (fst a) (fst b) \<noteq> 0 then nm_cmp_direct (fst a) (fst b) else cmp_bytes (snd a) (snd b))"

fun cmp_tokens :: "(bool \<times> u8 list) list \<Rightarrow> (bool \<times> u8 list) list \<Rightarrow> int" where
  "cmp_tokens [] [] = 0"
| "cmp_tokens [] (b # bs) = - 1"
| "cmp_tokens (a # as) [] = 1"
| "cmp_tokens (a # as) (b # bs) = (if cmp_token a b \<noteq> 0 then cmp_token a b else cmp_tokens as bs)"

interpretation token: compare_order cmp_token
  unfolding cmp_token_def by (rule compare_order_lex) (rule compare_order_key compare_order_bytes)+

lemma cmp_token_eq_0 [simp]: "cmp_token a b = 0 \<longleftrightarrow> a = b"
  by (auto simp: cmp_token_def prod_eq_iff)

lemma cmp_tokens_eq_0 [simp]: "cmp_tokens a b = 0 \<longleftrightarrow> a = b"
  by (induction a b rule: cmp_tokens.induct) auto

interpretation tokens: compare_order cmp_tokens
proof
  show "cmp_tokens a b < 0 \<longleftrightarrow> 0 < cmp_tokens b a" for a b
    by (induction a b rule: cmp_tokens.induct) (auto simp: token.cmp_antisym)
  show "cmp_tokens a b \<le> 0 \<Longrightarrow> cmp_tokens b c \<le> 0 \<Longrightarrow> cmp_tokens a c \<le> 0" for a b c
  proof (induction a b arbitrary: c rule: cmp_tokens.induct)
    case (2 b bs)
    then show ?case by (cases c) auto
  next
    case (4 a as b bs)
    show ?case
    proof (cases c)
      case Nil
      then show ?thesis using 4 by simp
    next
      case (Cons d ds)
      then show ?thesis
        using 4 token.cmp_trans [of a b d] compare_order_eq_0 [OF token.compare_order_axioms, of a b d]
        by (auto split: if_splits)
    qed
  qed simp_all
qed

lemma cmp_bytes_min:
  "(if cmp_bytes (take (min (length a) (length b)) a) (take (min (length a) (length b)) b) \<noteq> 0
    then cmp_bytes (take (min (length a) (length b)) a) (take (min (length a) (length b)) b)
    else if length a \<noteq> length b then nm_cmp_direct (length a) (length b) else 0) = cmp_bytes a b"
  by (induction a b rule: cmp_bytes.induct) (auto simp: nm_cmp_direct_def)

lemma path_compare_tokens: "path_compare_loop a b = cmp_tokens (path_tokens a) (path_tokens b)"
proof (induction a b rule: path_compare_loop.induct)
  case (1 a b)
  show ?case
  proof (cases rule: find_first_cases [where p = a and dd = True])
    case End
    then show ?thesis
      by (simp add: path_compare_loop.simps [of a b] path_tokens.simps [of a] path_tokens.simps [of b] split: path_first.splits)
  next
    case (Invalid c cs)
    then show ?thesis
      by (simp add: path_compare_loop.simps [of a b] path_tokens.simps [of a] path_tokens.simps [of b] cmp_token_def
        nm_cmp_direct_def split: path_first.splits)
  next
    case a: (Component f len nxt c sep)
    show ?thesis
    proof (cases rule: find_first_cases [where p = b and dd = True])
      case (Component f' len' nxt' c' sep')
      have "take (min len len') f = take (min len len') c" "take (min len len') f' = take (min len len') c'"
        using a(3,8) Component(3,8) by simp_all
      then show ?thesis
        using 1 a Component cmp_bytes_min [of c c'] 
        by (auto simp: path_compare_loop.simps [of a b] path_tokens.simps [of a] path_tokens.simps [of b] cmp_token_def
          nm_cmp_memcmp_def Let_def split: if_splits)
    qed (use a in \<open>simp_all add: path_compare_loop.simps [of a b] path_tokens.simps [of a] path_tokens.simps [of b]
        cmp_token_def nm_cmp_direct_def\<close>)
  qed
qed

text \<open>The order of paths that are not missing.\<close>

definition path_order :: "u8 list \<Rightarrow> u8 list \<Rightarrow> int" where
  "path_order a b =
     (if nm_cmp_direct (nm_path_is_absolute a) (nm_path_is_absolute b) \<noteq> 0
      then nm_cmp_direct (nm_path_is_absolute a) (nm_path_is_absolute b) else path_compare_loop a b)"

interpretation path_order: compare_order path_order
proof -
  have "compare_order path_compare_loop"
    unfolding path_compare_tokens by unfold_locales (rule tokens.cmp_antisym, rule tokens.cmp_trans)
  from compare_order_lex [OF compare_order_key [of nm_path_is_absolute] this]
  show "compare_order path_order" unfolding path_order_def .
qed

lemma path_compare_simps [simp]:
  "nm_path_compare None None = 0" "nm_path_compare None (Some b) = - 1" "nm_path_compare (Some a) None = 1"
  "nm_path_compare (Some a) (Some b) = path_order a b"
  by (simp_all add: nm_path_compare_def path_order_def)

text \<open>
  The comparison of paths is a total preorder, also on paths that are missing or invalid, so that it can be
  used to sort.
\<close>

theorem path_compare_order: "compare_ok nm_path_compare"
  unfolding compare_ok_def
proof (intro conjI allI impI)
  show "nm_path_compare a b < 0 \<longleftrightarrow> 0 < nm_path_compare b a" for a b
    by (cases a; cases b) (simp_all add: path_order.cmp_antisym)
  show "nm_path_compare a b \<le> 0 \<Longrightarrow> nm_path_compare b c \<le> 0 \<Longrightarrow> nm_path_compare a c \<le> 0" for a b c
    by (cases a; cases b; cases c) (auto intro: path_order.cmp_trans)
qed

text \<open>
  Two paths of valid components compare as equal exactly if both are absolute or both are relative and they
  have the same components: empty components and single dots do not count.
\<close>

theorem path_compare_eq_iff:
  assumes "path_valid True a" "path_valid True b"
  shows "nm_path_compare (Some a) (Some b) = 0 \<longleftrightarrow>
    nm_path_is_absolute a = nm_path_is_absolute b \<and> path_components a = path_components b"
  using assms by (auto simp: path_order_def path_compare_tokens path_tokens_valid inj_map_eq_map inj_def)

theorem path_compare_eq_iff_witness:
  "nm_path_compare (Some (str ''/foo//./bar/'')) (Some (str ''/./foo/bar'')) = 0"
proof -
  have "path_valid True (str ''/foo//./bar/'')" "path_valid True (str ''/./foo/bar'')"
    by (simp_all add: path_valid_def path_components_def)
  from path_compare_eq_iff [OF this] show ?thesis by (simp add: path_components_def nm_path_is_absolute_def)
qed

section \<open>Prefixes\<close>

text \<open>
  The loop keeps the two pointers; the result is the rest of the path after the prefix, or NULL.
\<close>

function path_startswith_loop :: "u8 list \<Rightarrow> u8 list \<Rightarrow> bool \<Rightarrow> u8 list option" where
  "path_startswith_loop path prfx accept_dot_dot =
     (case nm_path_find_first_component path accept_dot_dot of
        PathInvalid \<Rightarrow> None
      | r \<Rightarrow>
         (case nm_path_find_first_component prfx accept_dot_dot of
            PathInvalid \<Rightarrow> None
          | PathEnd _ \<Rightarrow> Some (case r of PathComponent p _ _ \<Rightarrow> p | _ \<Rightarrow> path_rest r)
          | PathComponent q k prfx' \<Rightarrow>
              (case r of
                 PathComponent p n path' \<Rightarrow>
                   if n \<noteq> k then None
                   else if take n p \<noteq> take n q then None
                   else path_startswith_loop path' prfx' accept_dot_dot
               | _ \<Rightarrow> None)))"
  by pat_completeness auto

termination
  by (relation "measure (\<lambda>(path, prfx, dd). length path)") (auto dest: find_first_shorter find_first_shorter [OF sym])

declare path_startswith_loop.simps [simp del]

definition nm_path_startswith_full :: "u8 list \<Rightarrow> u8 list \<Rightarrow> bool \<Rightarrow> u8 list option" where
  "nm_path_startswith_full path prfx accept_dot_dot =
     (if (str_at path 0 = slash) \<noteq> (str_at prfx 0 = slash) then None
      else path_startswith_loop path prfx accept_dot_dot)"

lemma path_startswith_loop_correct:
  assumes "path_valid dd path" "path_valid dd prfx"
  shows "case path_startswith_loop path prfx dd of
      None \<Rightarrow> \<not> prefix (path_components prfx) (path_components path)
    | Some rest \<Rightarrow> path_components path = path_components prfx @ path_components rest \<and> suffix rest path"
  using assms
proof (induction path prfx dd rule: path_startswith_loop.induct)
  case (1 path prfx dd)
  show ?case
  proof (cases rule: find_first_cases [where p = path and dd = dd])
    case (Invalid c cs)
    then show ?thesis using 1 by (auto simp: path_valid_def)
  next
    case End
    show ?thesis using 1 End
      by (cases rule: find_first_cases [where p = prfx and dd = dd])
        (auto simp: path_startswith_loop.simps [of path prfx] path_valid_def)
  next
    case p: (Component f len nxt c sep)
    show ?thesis
    proof (cases rule: find_first_cases [where p = prfx and dd = dd])
      case (Invalid c cs)
      then show ?thesis using 1 by (auto simp: path_valid_def)
    next
      case End
      then show ?thesis using p by (simp add: path_startswith_loop.simps [of path prfx])
    next
      case q: (Component f' len' nxt' c' sep')
      have "take len f = c" "take len' f' = c'" using p(3,8) q(3,8) by simp_all
      moreover have "path_valid dd nxt" "path_valid dd nxt'" using "1.prems" p(2) q(2) by (simp_all add: path_valid_def)
      moreover have "suffix nxt path" using p(7,8) by (auto simp: suffix_def)
      ultimately show ?thesis
        using "1.IH"(2) [OF p(1) q(1) refl] p q suffix_order.trans
        by (cases "c = c'") (auto simp: path_startswith_loop.simps [of path prfx] split: option.splits)
    qed
  qed
qed

text \<open>
  For paths of valid components, the test finds out whether the components of the prefix are the first
  components of the path, and both are absolute or both relative; then it returns the rest of the path.
\<close>

theorem path_startswith_correct:
  assumes "path_valid accept_dot_dot path" "path_valid accept_dot_dot prfx"
  shows "case nm_path_startswith_full path prfx accept_dot_dot of
      None \<Rightarrow> nm_path_is_absolute path \<noteq> nm_path_is_absolute prfx \<or>
        \<not> prefix (path_components prfx) (path_components path)
    | Some rest \<Rightarrow> nm_path_is_absolute path = nm_path_is_absolute prfx \<and>
        path_components path = path_components prfx @ path_components rest \<and> suffix rest path"
  using path_startswith_loop_correct [OF assms]
  by (auto simp: nm_path_startswith_full_def nm_path_is_absolute_def split: option.splits)

theorem path_startswith_correct_witness:
  "nm_path_startswith_full (str ''/foo//bar/x'') (str ''/./foo'') False \<noteq> None"
proof -
  have "path_valid False (str ''/foo//bar/x'')" "path_valid False (str ''/./foo'')"
    by (simp_all add: path_valid_def path_components_def)
  from path_startswith_correct [OF this] show ?thesis
    by (auto simp: path_components_def nm_path_is_absolute_def split: option.splits)
qed

section \<open>Simplification in place\<close>

text \<open>The C string at an index of the memory, and \<^verbatim>\<open>memmove\<close> of \<open>n\<close> bytes from \<open>src\<close> to \<open>dst\<close>.\<close>

definition str_from :: "u8 list \<Rightarrow> nat \<Rightarrow> u8 list" where
  "str_from mem p = takeWhile (\<lambda>c. c \<noteq> 0) (drop p mem)"

definition memmove :: "u8 list \<Rightarrow> nat \<Rightarrow> nat \<Rightarrow> nat \<Rightarrow> u8 list" where
  "memmove mem dst src n = map (\<lambda>i. if dst \<le> i \<and> i < dst + n then mem ! (src + (i - dst)) else mem ! i) [0..<length mem]"

lemma length_memmove [simp]: "length (memmove mem dst src n) = length mem"
  by (simp add: memmove_def)

lemma length_str_from: "length (str_from mem p) \<le> length mem - p"
  using length_takeWhile_le [of "\<lambda>c. c \<noteq> 0" "drop p mem"] by (simp add: str_from_def)

text \<open>
  The loop moves one component after the other to the index \<open>f\<close>. The result is the memory, the index and
  whether the path was invalid, in which case the rest was moved and the function returns.
\<close>

definition path_add_slash :: "bool \<Rightarrow> u8 list \<Rightarrow> nat \<Rightarrow> u8 list \<times> nat" where
  "path_add_slash add_slash mem f = (if add_slash then (mem[f := slash], f + 1) else (mem, f))"

function path_simplify_loop :: "u8 list \<Rightarrow> nat \<Rightarrow> nat \<Rightarrow> bool \<Rightarrow> u8 list \<times> nat \<times> bool" where
  "path_simplify_loop mem f p add_slash =
     (let s = str_from mem p in
      case nm_path_find_first_component s True of
        PathEnd _ \<Rightarrow> (mem, f, False)
      | PathInvalid \<Rightarrow>
          (let (mem, f) = path_add_slash add_slash mem f in
           (memmove mem f p (length (str_from mem p) + 1), f, True))
      | PathComponent e r nxt \<Rightarrow>
          (let (mem, f) = path_add_slash add_slash mem f;
               mem = memmove mem f (p + (length s - length e)) r
           in path_simplify_loop mem (f + r) (p + (length s - length nxt)) True))"
  by pat_completeness auto

termination
proof (relation "measure (\<lambda>(mem, f, p, a). length mem - p)", goal_cases)
  case (2 mem f p a s e r nxt st mem' f' mem'')
  then have "length nxt < length (str_from mem p)" using find_first_shorter by metis
  then show ?case using 2 length_str_from [of mem p] by (auto simp: path_add_slash_def split: if_splits)
qed simp

declare path_simplify_loop.simps [simp del]

definition nm_path_simplify :: "u8 list \<Rightarrow> u8 list" where
  "nm_path_simplify mem =
     (if str_from mem 0 = [] then mem
      else
        (let f0 = (if nm_path_is_absolute (str_from mem 0) then 1 else 0);
             (mem, f, invalid) = path_simplify_loop mem f0 f0 False
         in if invalid then mem
            else
              (let (mem, f) = (if f = 0 then (mem[f := dot], f + 1) else (mem, f))
               in mem[f := 0])))"

lemma memmove_eq:
  assumes "dst + n \<le> length mem" "src + n \<le> length mem"
  shows "memmove mem dst src n = take dst mem @ take n (drop src mem) @ drop (dst + n) mem"
  using assms by (intro nth_equalityI) (auto simp: memmove_def nth_append)

lemma memmove_down:
  "memmove (a @ g @ c @ t) (length a) (length a + length g) (length c) = a @ c @ drop (length c) (g @ c @ t)"
  by (simp add: memmove_eq)

lemma str_from_append: "c_string s \<Longrightarrow> p = length a \<Longrightarrow> str_from (a @ s @ 0 # t) p = s"
  by (induction s) (auto simp: str_from_def takeWhile_append)

text \<open>The output: the tokens with slashes between them.\<close>

fun tokens_join :: "bool \<Rightarrow> (bool \<times> u8 list) list \<Rightarrow> u8 list" where
  "tokens_join add [] = []"
| "tokens_join add ((_, t) # ts) = (if add then [slash] else []) @ t @ tokens_join True ts"

lemma add_slash_gap:
  assumes "add \<longrightarrow> gap \<noteq> []"
  obtains out' gap' where "path_add_slash add (out @ gap @ m) (length out) = (out' @ gap' @ m, length out')"
    "out' = out @ (if add then [slash] else [])" "length (out' @ gap') = length (out @ gap)"
proof (cases add)
  case True
  then obtain g gap' where "gap = g # gap'" using assms by (cases gap) auto
  then show ?thesis by (intro that [of "out @ [slash]" gap']) (use True in \<open>simp_all add: path_add_slash_def\<close>)
next
  case False
  then show ?thesis by (intro that [of out gap]) (simp_all add: path_add_slash_def)
qed

lemma path_simplify_loop_correct:
  assumes "mem = out @ gap @ rest @ 0 # extra" "f = length out" "p = length (out @ gap)" "c_string rest"
    "add \<longrightarrow> gap \<noteq> [] \<or> rest = []" "path_simplify_loop mem f p add = (mem', f', invalid)"
  shows "\<exists>tail. mem' = out @ tokens_join add (path_tokens rest) @ tail \<and> tail \<noteq> [] \<and> length mem' = length mem \<and>
    (invalid \<longleftrightarrow> list_ex fst (path_tokens rest)) \<and>
    (if invalid then hd tail = 0 else f' = length (out @ tokens_join add (path_tokens rest)))"
  using assms
proof (induction "length rest" arbitrary: mem out gap rest f p add rule: less_induct)
  case less
  have s: "str_from mem p = rest" using str_from_append [OF less(5), of p "out @ gap"] less(2,4) by simp
  show ?case
  proof (cases rule: find_first_cases [where p = rest and dd = True])
    case End
    then have "(mem', f', invalid) = (mem, f, False)" using less(7) s by (simp add: path_simplify_loop.simps [of mem])
    then show ?thesis using less(2,3) End by (simp add: path_tokens.simps [of rest])
  next
    case (Invalid c cs)
    then have "rest \<noteq> []" by auto
    then obtain out' gap' where o: "path_add_slash add mem f = (out' @ gap' @ rest @ 0 # extra, length out')"
        "out' = out @ (if add then [slash] else [])" "length (out' @ gap') = p"
      using add_slash_gap [of add gap out "rest @ 0 # extra"] less(2-4,6) by metis
    have "str_from (out' @ gap' @ rest @ 0 # extra) p = rest"
      using str_from_append [OF less(5), of p "out' @ gap'"] o(3) by simp
    then have "(mem', f', invalid) = (memmove (out' @ gap' @ rest @ 0 # extra) (length out') p (length rest + 1), length out', True)"
      using less(7) s Invalid(1) o(1) by (auto simp: path_simplify_loop.simps [of mem])
    moreover have "memmove (out' @ gap' @ rest @ 0 # extra) (length out') p (length rest + 1) =
        out' @ (rest @ [0]) @ drop (length rest + 1) (gap' @ rest @ 0 # extra)"
      using memmove_down [of out' gap' "rest @ [0]" extra] o(3) by simp
    ultimately have m: "mem' = out' @ rest @ 0 # drop (length rest + 1) (gap' @ rest @ 0 # extra)" "invalid" by simp_all
    then show ?thesis using o less(2,4) Invalid(1) by (auto simp: path_tokens.simps [of rest])
  next
    case (Component e r nxt c sep)
    obtain pre where pre: "rest = pre @ e" using Component(7) by (auto simp: suffix_def)
    have "rest \<noteq> []" using Component(4,8) pre by auto
    then obtain out' gap' where o: "path_add_slash add mem f = (out' @ gap' @ rest @ 0 # extra, length out')"
        "out' = out @ (if add then [slash] else [])" "length (out' @ gap') = p"
      using add_slash_gap [of add gap out "rest @ 0 # extra"] less(2-4,6) by metis
    define gap2 where "gap2 = drop (length c) (gap' @ pre @ c @ sep)"
    let ?mem = "(out' @ c) @ gap2 @ nxt @ 0 # extra"
    have len: "length gap2 = length gap' + length pre + length sep" by (simp add: gap2_def)
    have "memmove (out' @ gap' @ rest @ 0 # extra) (length out') (p + (length rest - length e)) r = ?mem"
      using memmove_down [of out' "gap' @ pre" c "sep @ nxt @ 0 # extra"] o(3) [symmetric] pre Component(3,8)
      by (simp add: gap2_def add.assoc)
    then have run: "path_simplify_loop ?mem (length out' + r) (p + (length rest - length nxt)) True = (mem', f', invalid)"
      using less(7) s Component(1) o(1) by (simp add: path_simplify_loop.simps [of mem])
    have "c_string nxt" using less(5) pre Component(8) by simp
    moreover have "True \<longrightarrow> gap2 \<noteq> [] \<or> nxt = []" using Component(9) len by auto
    moreover have "p + (length rest - length nxt) = length ((out' @ c) @ gap2)"
      using pre Component(8) len o(3) by simp
    moreover have "length nxt < length rest" using Component(1) by (rule find_first_shorter)
    moreover have "length out' + r = length (out' @ c)" using Component(3) by simp
    ultimately obtain tail where tail: "mem' = (out' @ c) @ tokens_join True (path_tokens nxt) @ tail" "tail \<noteq> []"
        "length mem' = length ?mem" "invalid \<longleftrightarrow> list_ex fst (path_tokens nxt)"
        "if invalid then hd tail = 0 else f' = length ((out' @ c) @ tokens_join True (path_tokens nxt))"
      using less(1) [of nxt ?mem "out' @ c" gap2 "length out' + r" "p + (length rest - length nxt)" True] run by blast
    moreover have "path_tokens rest = (False, c) # path_tokens nxt"
      using Component(1,3,8) by (simp add: path_tokens.simps [of rest])
    moreover have "length ?mem = length mem" using len o(3) pre Component(8) less(2,4) by simp
    ultimately show ?thesis using o(2) by (intro exI [of _ tail]) simp
  qed
qed

text \<open>The simplified path.\<close>

definition path_simplified :: "u8 list \<Rightarrow> u8 list" where
  "path_simplified p =
     (let cs = path_components p;
          body = concat (case cs of [] \<Rightarrow> [] | c # cs \<Rightarrow> c # map (\<lambda>c. slash # c) cs)
      in if p = [] then [] else if nm_path_is_absolute p then slash # body else if cs = [] then [dot] else body)"

lemma tokens_join_map:
  "tokens_join True (map (Pair False) cs) = concat (map (\<lambda>c. slash # c) cs)"
  "tokens_join False (map (Pair False) cs) = concat (case cs of [] \<Rightarrow> [] | c # cs \<Rightarrow> c # map (\<lambda>c. slash # c) cs)"
proof -
  show *: "tokens_join True (map (Pair False) cs) = concat (map (\<lambda>c. slash # c) cs)" for cs by (induction cs) auto
  show "tokens_join False (map (Pair False) cs) = concat (case cs of [] \<Rightarrow> [] | c # cs \<Rightarrow> c # map (\<lambda>c. slash # c) cs)"
    by (cases cs) (auto simp: *)
qed

lemma set_str_split: "l \<in> set (str_split sep s) \<Longrightarrow> set l \<subseteq> set s"
proof (induction s arbitrary: l)
  case (Cons c s)
  obtain k ks where "str_split sep s = k # ks" by (rule str_split_Cons)
  then show ?case using Cons.IH [of l] Cons.IH [of k] Cons.prems by (cases "c = sep") auto
qed simp

lemma components_c_string: "c_string p \<Longrightarrow> c \<in> set (path_components p) \<Longrightarrow> c_string c"
  using set_str_split [of c slash p] by (auto simp: path_components_def c_string_def)

lemma components_not_empty: "c \<in> set (path_components p) \<Longrightarrow> c \<noteq> []"
  by (auto simp: path_components_def)

text \<open>
  C26. Simplifying a path of valid components in place leaves its components with single slashes between them,
  after a slash if the path was absolute; a relative path without components becomes a dot. The memory after
  the path does not matter and the path never gets longer than the memory.
\<close>

theorem path_simplify_correct:
  assumes "c_string path" "path_valid True path"
  shows "str_from (nm_path_simplify (path @ 0 # extra)) 0 = path_simplified path"
proof (cases "path = []")
  case True
  then show ?thesis by (simp add: nm_path_simplify_def path_simplified_def str_from_def)
next
  case False
  have s: "str_from (path @ 0 # extra) 0 = path" using str_from_append [OF assms(1), of 0 "[]"] by simp
  define abs where "abs = nm_path_is_absolute path"
  define root where "root = (if abs then [slash] else [])"
  define body where "body = concat (case path_components path of [] \<Rightarrow> [] | c # cs \<Rightarrow> c # map (\<lambda>c. slash # c) cs)"
  have "path = root @ (if abs then tl path else path)"
    using False by (cases path) (auto simp: root_def abs_def nm_path_is_absolute_def)
  then obtain q where q: "path = root @ q" by blast
  have comps: "path_components q = path_components path" by (simp add: q root_def)
  have "path_valid True q" using assms(2) by (simp add: path_valid_def comps)
  then have toks: "path_tokens q = map (Pair False) (path_components path)" by (simp add: path_tokens_valid comps)
  obtain mem' f' invalid where run: "path_simplify_loop (path @ 0 # extra) (length root) (length root) False = (mem', f', invalid)"
    by (cases "path_simplify_loop (path @ 0 # extra) (length root) (length root) False")
  have "c_string q" using assms(1) by (simp add: q)
  have J: "tokens_join False (path_tokens q) = body" by (simp only: toks tokens_join_map body_def)
  have N: "\<not> list_ex fst (path_tokens q)" unfolding toks by (simp add: list_ex_iff)
  have mem: "path @ 0 # extra = root @ [] @ q @ 0 # extra" by (subst q) simp
  obtain tail where tail: "mem' = root @ body @ tail" "tail \<noteq> []" "length mem' = length (path @ 0 # extra)"
      "\<not> invalid" "f' = length (root @ body)"
    using path_simplify_loop_correct [OF mem refl _ \<open>c_string q\<close> _ run] N unfolding J by auto
  have "c_string c" if "c \<in> set (path_components path)" for c using components_c_string [OF assms(1) that] .
  then have "c_string body" by (cases "path_components path") (auto simp: body_def c_string_def)
  then have cstr: "c_string (root @ body)" by (simp add: root_def)
  have simp: "path_simplified path = (if abs then slash # body else if path_components path = [] then [dot] else body)"
    using False by (simp add: path_simplified_def abs_def body_def Let_def)
  have f0: "(if nm_path_is_absolute path then 1 else 0) = length root" by (simp add: root_def abs_def)
  show ?thesis
  proof (cases "root @ body = []")
    case True
    then obtain t u r where "tail = t # u # r" using tail(1,3) False by (cases tail rule: remdups_adj.cases) (auto simp: q)
    moreover have "path_components path = []"
      using True components_not_empty [of "hd (path_components path)" path] by (cases "path_components path") (auto simp: body_def)
    moreover have "\<not> abs" using True by (auto simp: root_def)
    ultimately show ?thesis using True False tail run
      unfolding nm_path_simplify_def s f0 simp by (simp add: str_from_def)
  next
    case body: False
    obtain t r where "tail = t # r" using tail(2) by (cases tail) auto
    then have "nm_path_simplify (path @ 0 # extra) = (root @ body) @ 0 # r"
      using tail run body False unfolding nm_path_simplify_def s f0 by (auto simp: list_update_append)
    then have "str_from (nm_path_simplify (path @ 0 # extra)) 0 = root @ body"
      using str_from_append [OF cstr, of 0 "[]" r] by simp
    then show ?thesis using body by (cases abs) (auto simp: simp root_def body_def)
  qed
qed

theorem path_simplify_correct_witness:
  "str_from (nm_path_simplify (str ''.//./foo//./bar/.'' @ [0])) 0 = str ''foo/bar''"
proof -
  have "c_string (str ''.//./foo//./bar/.'')" "path_valid True (str ''.//./foo//./bar/.'')"
    by (simp_all add: path_valid_def path_components_def)
  from path_simplify_correct [OF this, of "[]"] show ?thesis
    by (simp add: path_simplified_def path_components_def nm_path_is_absolute_def)
qed

end
