(* ===== verification/NM_Env_File.thy ===== *)
theory NM_Env_File
  imports NM_Chars
begin

text \<open>
  The parser of environment files such as \<^verbatim>\<open>/etc/os-release\<close> (\<^verbatim>\<open>nm_parse_env_file_full\<close> and
  \<^verbatim>\<open>nm_parse_env_filev\<close> of \<^verbatim>\<open>nm-io-utils.c\<close>): a state machine over the characters of the file that hands
  keys and values to a callback. Whether a string is valid UTF-8 is decided by glib and is a parameter.
\<close>

section \<open>The state machine\<close>

datatype env_state =
  PRE_KEY | KEY | PRE_VALUE | VALUE | VALUE_ESCAPE | SINGLE_QUOTE_VALUE | DOUBLE_QUOTE_VALUE
| DOUBLE_QUOTE_VALUE_ESCAPE | COMMENT | COMMENT_ESCAPE

text \<open>The local variables. The two positions of trailing whitespace are \<open>None\<close> for \<^verbatim>\<open>G_MAXSIZE\<close>.\<close>

record env_parser =
  ep_state :: env_state
  ep_key :: "u8 list"
  ep_value :: "u8 list"
  ep_last_key_whitespace :: "nat option"
  ep_last_value_whitespace :: "nat option"
  ep_line :: nat

definition env_parser_init :: env_parser where
  "env_parser_init =
     \<lparr>ep_state = PRE_KEY, ep_key = [], ep_value = [], ep_last_key_whitespace = None, ep_last_value_whitespace = None, ep_line = 1\<rparr>"

text \<open>The callback gets the line, the key and the value, and changes the data of its caller.\<close>

type_synonym 'u env_push = "nat \<Rightarrow> u8 list \<Rightarrow> u8 list \<Rightarrow> 'u \<Rightarrow> int \<times> 'u"

text \<open>Writing a NUL byte at a position cuts the string off there.\<close>

definition cut_at :: "nat option \<Rightarrow> u8 list \<Rightarrow> u8 list" where
  "cut_at pos s = (case pos of None \<Rightarrow> s | Some n \<Rightarrow> take n s)"

definition SHELL_NEED_ESCAPE :: "u8 list" where
  "SHELL_NEED_ESCAPE = [0x22, 0x5C, ascii (CHR ''`''), ascii (CHR ''$'')]"

text \<open>The end of a line in the states \<open>PRE_VALUE\<close> and \<open>VALUE\<close>; the latter strips the value.\<close>

definition env_end_of_line ::
    "'u env_push \<Rightarrow> bool \<Rightarrow> env_parser \<Rightarrow> 'u \<Rightarrow> (int \<times> 'u) + (env_parser \<times> 'u)" where
  "env_end_of_line push strip_value p u =
     (let p = p\<lparr>ep_state := PRE_KEY, ep_line := ep_line p + 1\<rparr>;
          value = (if strip_value then cut_at (ep_last_value_whitespace p) (ep_value p) else ep_value p);
          key = cut_at (ep_last_key_whitespace p) (ep_key p);
          (r, u) = push (ep_line p) key value u
      in if r < 0 then Inl (r, u) else Inr (p\<lparr>ep_key := [], ep_value := []\<rparr>, u))"

abbreviation append_key :: "u8 list \<Rightarrow> env_parser \<Rightarrow> env_parser" where
  "append_key cs p \<equiv> p\<lparr>ep_key := ep_key p @ cs\<rparr>"

abbreviation append_value :: "u8 list \<Rightarrow> env_parser \<Rightarrow> env_parser" where
  "append_value cs p \<equiv> p\<lparr>ep_value := ep_value p @ cs\<rparr>"

definition env_key_char :: "u8 \<Rightarrow> env_parser \<Rightarrow> env_parser" where
  "env_key_char c p =
     (if nm_ascii_is_newline c then p\<lparr>ep_state := PRE_KEY, ep_line := ep_line p + 1, ep_key := []\<rparr>
      else if c = ascii (CHR ''='') then p\<lparr>ep_state := PRE_VALUE, ep_last_value_whitespace := None\<rparr>
      else if \<not> nm_ascii_is_whitespace c then append_key [c] (p\<lparr>ep_last_key_whitespace := None\<rparr>)
      else if ep_last_key_whitespace p = None
        then append_key [c] (p\<lparr>ep_last_key_whitespace := Some (length (ep_key p))\<rparr>)
      else append_key [c] p)"

definition env_pre_value_char :: "u8 \<Rightarrow> env_parser \<Rightarrow> env_parser" where
  "env_pre_value_char c p =
     (if c = 0x27 then p\<lparr>ep_state := SINGLE_QUOTE_VALUE\<rparr>
      else if c = 0x22 then p\<lparr>ep_state := DOUBLE_QUOTE_VALUE\<rparr>
      else if c = 0x5C then p\<lparr>ep_state := VALUE_ESCAPE\<rparr>
      else if \<not> nm_ascii_is_whitespace c then append_value [c] (p\<lparr>ep_state := VALUE\<rparr>)
      else p)"

definition env_value_char :: "u8 \<Rightarrow> env_parser \<Rightarrow> env_parser" where
  "env_value_char c p =
     (if c = 0x5C then p\<lparr>ep_state := VALUE_ESCAPE, ep_last_value_whitespace := None\<rparr>
      else if \<not> nm_ascii_is_whitespace c then append_value [c] (p\<lparr>ep_last_value_whitespace := None\<rparr>)
      else if ep_last_value_whitespace p = None
        then append_value [c] (p\<lparr>ep_last_value_whitespace := Some (length (ep_value p))\<rparr>)
      else append_value [c] p)"

definition env_step :: "'u env_push \<Rightarrow> u8 \<Rightarrow> env_parser \<Rightarrow> 'u \<Rightarrow> (int \<times> 'u) + (env_parser \<times> 'u)" where
  "env_step push c p u =
     (case ep_state p of
        PRE_KEY \<Rightarrow>
          Inr (if c \<in> {ascii (CHR ''#''), ascii (CHR '';'')} then p\<lparr>ep_state := COMMENT\<rparr>
               else if \<not> nm_ascii_is_whitespace c
                 then append_key [c] (p\<lparr>ep_state := KEY, ep_last_key_whitespace := None\<rparr>)
               else p, u)
      | KEY \<Rightarrow> Inr (env_key_char c p, u)
      | PRE_VALUE \<Rightarrow>
          if nm_ascii_is_newline c then env_end_of_line push False p u else Inr (env_pre_value_char c p, u)
      | VALUE \<Rightarrow>
          if nm_ascii_is_newline c then env_end_of_line push True p u else Inr (env_value_char c p, u)
      | VALUE_ESCAPE \<Rightarrow>
          Inr ((if \<not> nm_ascii_is_newline c then append_value [c] else id) (p\<lparr>ep_state := VALUE\<rparr>), u)
      | SINGLE_QUOTE_VALUE \<Rightarrow>
          Inr (if c = 0x27 then p\<lparr>ep_state := PRE_VALUE\<rparr> else append_value [c] p, u)
      | DOUBLE_QUOTE_VALUE \<Rightarrow>
          Inr (if c = 0x22 then p\<lparr>ep_state := PRE_VALUE\<rparr>
               else if c = 0x5C then p\<lparr>ep_state := DOUBLE_QUOTE_VALUE_ESCAPE\<rparr>
               else append_value [c] p, u)
      | DOUBLE_QUOTE_VALUE_ESCAPE \<Rightarrow>
          (let p = p\<lparr>ep_state := DOUBLE_QUOTE_VALUE\<rparr> in
           Inr (if c \<in> set SHELL_NEED_ESCAPE then append_value [c] p
                else if c \<noteq> 0x0A then append_value [0x5C, c] p
                else p, u))
      | COMMENT \<Rightarrow>
          Inr (if c = 0x5C then p\<lparr>ep_state := COMMENT_ESCAPE\<rparr>
               else if nm_ascii_is_newline c then p\<lparr>ep_state := PRE_KEY, ep_line := ep_line p + 1\<rparr>
               else p, u)
      | COMMENT_ESCAPE \<Rightarrow> Inr (p\<lparr>ep_state := COMMENT\<rparr>, u))"

fun env_run :: "'u env_push \<Rightarrow> u8 list \<Rightarrow> env_parser \<Rightarrow> 'u \<Rightarrow> (int \<times> 'u) + (env_parser \<times> 'u)" where
  "env_run push [] p u = Inr (p, u)"
| "env_run push (c # cs) p u = (case env_step push c p u of Inl e \<Rightarrow> Inl e | Inr (p, u) \<Rightarrow> env_run push cs p u)"

abbreviation (input) ENOENT :: int where "ENOENT \<equiv> 2"
abbreviation (input) EINVAL :: int where "EINVAL \<equiv> 22"

definition nm_parse_env_file_full :: "u8 list option \<Rightarrow> 'u env_push \<Rightarrow> 'u \<Rightarrow> int \<times> 'u" where
  "nm_parse_env_file_full contents push u =
     (case contents of
        None \<Rightarrow> (- ENOENT, u)
      | Some contents \<Rightarrow>
          (case env_run push contents env_parser_init u of
             Inl (r, u) \<Rightarrow> (r, u)
           | Inr (p, u) \<Rightarrow>
               if ep_state p \<in> {PRE_VALUE, VALUE, VALUE_ESCAPE, SINGLE_QUOTE_VALUE, DOUBLE_QUOTE_VALUE, DOUBLE_QUOTE_VALUE_ESCAPE}
               then
                 (let value = (if ep_state p = VALUE then cut_at (ep_last_value_whitespace p) (ep_value p) else ep_value p);
                      key = cut_at (ep_last_key_whitespace p) (ep_key p);
                      (r, u) = push (ep_line p) key value u
                  in if r < 0 then (r, u) else (0, u))
               else (0, u)))"

text \<open>The callback that fills the variables of the caller: a list of keys with the strings they point to.\<close>

type_synonym env_vars = "(u8 list \<times> u8 list option) list"

definition check_utf8ness_and_warn :: "(u8 list \<Rightarrow> bool) \<Rightarrow> u8 list \<Rightarrow> u8 list \<Rightarrow> int" where
  "check_utf8ness_and_warn utf8_validate key value =
     (if \<not> utf8_validate key then - EINVAL else if \<not> utf8_validate value then - EINVAL else 0)"

fun env_vars_set :: "u8 list \<Rightarrow> u8 list \<Rightarrow> env_vars \<Rightarrow> int \<times> env_vars" where
  "env_vars_set key value [] = (0, [])"
| "env_vars_set key value ((k, v) # aq) =
     (if key = k then (1, (k, Some value) # aq) else (case env_vars_set key value aq of (r, aq) \<Rightarrow> (r, (k, v) # aq)))"

definition parse_env_file_push :: "(u8 list \<Rightarrow> bool) \<Rightarrow> env_vars env_push" where
  "parse_env_file_push utf8_validate line key value ap =
     (let r = check_utf8ness_and_warn utf8_validate key value in
      if r < 0 then (r, ap) else env_vars_set key value ap)"

definition nm_parse_env_filev :: "(u8 list \<Rightarrow> bool) \<Rightarrow> u8 list option \<Rightarrow> env_vars \<Rightarrow> int \<times> env_vars" where
  "nm_parse_env_filev utf8_validate contents ap = nm_parse_env_file_full contents (parse_env_file_push utf8_validate) ap"

section \<open>Files of assignments\<close>

text \<open>
  A file with one assignment per line, the value in double quotes with the special characters escaped.
\<close>

definition env_quote :: "u8 list \<Rightarrow> u8 list" where
  "env_quote v = 0x22 # concat (map (\<lambda>c. if c \<in> set SHELL_NEED_ESCAPE then [0x5C, c] else [c]) v) @ [0x22]"

definition env_assignment :: "u8 list \<times> u8 list \<Rightarrow> u8 list" where
  "env_assignment kv = fst kv @ [ascii (CHR ''='')] @ env_quote (snd kv) @ [0x0A]"

definition env_file :: "(u8 list \<times> u8 list) list \<Rightarrow> u8 list" where
  "env_file kvs = concat (map env_assignment kvs)"

definition env_key_ok :: "u8 list \<Rightarrow> bool" where
  "env_key_ok k \<longleftrightarrow> k \<noteq> [] \<and> hd k \<notin> {ascii (CHR ''#''), ascii (CHR '';'')} \<and>
     list_all (\<lambda>c. \<not> nm_ascii_is_whitespace c) k \<and> list_all (\<lambda>c. c \<noteq> ascii (CHR ''='')) (tl k)"

lemma env_run_append:
  "env_run push (xs @ ys) p u = (case env_run push xs p u of Inl e \<Rightarrow> Inl e | Inr (p, u) \<Rightarrow> env_run push ys p u)"
  by (induction xs arbitrary: p u) (auto split: sum.splits)

lemma newline_whitespace: "nm_ascii_is_newline c \<Longrightarrow> nm_ascii_is_whitespace c"
  by (auto simp: nm_ascii_is_newline_def nm_ascii_is_whitespace_def)

lemma env_run_key_rest:
  "list_all (\<lambda>c. \<not> nm_ascii_is_whitespace c \<and> c \<noteq> ascii (CHR ''='')) k \<Longrightarrow> ep_state p = KEY \<Longrightarrow> ep_last_key_whitespace p = None \<Longrightarrow>
     env_run push k p u = Inr (append_key k p, u)"
proof (induction k arbitrary: p)
  case (Cons c k)
  then have "env_step push c p u = Inr (append_key [c] p, u)"
    using newline_whitespace [of c] by (auto simp: env_step_def env_key_char_def)
  then show ?case using Cons by simp
qed simp

lemma env_run_quoted:
  "ep_state p = DOUBLE_QUOTE_VALUE \<Longrightarrow>
     env_run push (concat (map (\<lambda>c. if c \<in> set SHELL_NEED_ESCAPE then [0x5C, c] else [c]) v)) p u = Inr (append_value v p, u)"
proof (induction v arbitrary: p)
  case (Cons c v)
  have "env_run push (if c \<in> set SHELL_NEED_ESCAPE then [0x5C, c] else [c]) p u = Inr (append_value [c] p, u)"
    using Cons.prems by (auto simp: env_step_def SHELL_NEED_ESCAPE_def)
  then show ?case using Cons by (simp add: env_run_append)
qed simp

lemma env_run_assignment:
  assumes "env_key_ok k" "ep_state p = PRE_KEY" "ep_key p = []" "ep_value p = []"
  shows "env_run push (env_assignment (k, v)) p u =
    (case push (Suc (ep_line p)) k v u of (r, u') \<Rightarrow>
       if r < 0 then Inl (r, u')
       else Inr (p\<lparr>ep_line := Suc (ep_line p), ep_last_key_whitespace := None, ep_last_value_whitespace := None\<rparr>, u'))"
proof -
  obtain c k' where k: "k = c # k'" "c \<notin> {35, 59}" "\<not> nm_ascii_is_whitespace c"
      "list_all (\<lambda>c. \<not> nm_ascii_is_whitespace c \<and> c \<noteq> ascii (CHR ''='')) k'"
    using assms(1) by (cases k) (auto simp: env_key_ok_def list_all_iff)
  let ?p1 = "p\<lparr>ep_state := KEY, ep_last_key_whitespace := None, ep_key := [c]\<rparr>"
  let ?p2 = "?p1\<lparr>ep_key := k\<rparr>"
  let ?p3 = "?p2\<lparr>ep_state := PRE_VALUE, ep_last_value_whitespace := None\<rparr>"
  have 1: "env_step push c p u = Inr (?p1, u)" using k assms by (auto simp: env_step_def)
  have 2: "env_run push k' ?p1 u = Inr (?p2, u)" using env_run_key_rest [OF k(4), of ?p1 push u] k(1) by simp
  have 3: "env_step push 61 ?p2 u = Inr (?p3, u)" by (simp add: env_step_def env_key_char_def nm_ascii_is_newline_def)
  have 4: "env_step push 0x22 ?p3 u = Inr (?p3\<lparr>ep_state := DOUBLE_QUOTE_VALUE\<rparr>, u)"
    by (simp add: env_step_def env_pre_value_char_def nm_ascii_is_newline_def)
  have 5: "env_run push (concat (map (\<lambda>c. if c \<in> set SHELL_NEED_ESCAPE then [0x5C, c] else [c]) v)) (?p3\<lparr>ep_state := DOUBLE_QUOTE_VALUE\<rparr>) u =
      Inr (?p3\<lparr>ep_state := DOUBLE_QUOTE_VALUE, ep_value := v\<rparr>, u)"
    using env_run_quoted [of "?p3\<lparr>ep_state := DOUBLE_QUOTE_VALUE\<rparr>" push v u] assms(4) by simp
  have 6: "env_step push 0x22 (?p3\<lparr>ep_state := DOUBLE_QUOTE_VALUE, ep_value := v\<rparr>) u = Inr (?p3\<lparr>ep_value := v\<rparr>, u)"
    by (simp add: env_step_def)
  have 7: "env_step push 0x0A (?p3\<lparr>ep_value := v\<rparr>) u =
      (case push (Suc (ep_line p)) k v u of (r, u') \<Rightarrow>
         if r < 0 then Inl (r, u')
         else Inr (p\<lparr>ep_line := Suc (ep_line p), ep_last_key_whitespace := None, ep_last_value_whitespace := None\<rparr>, u'))"
    using assms(2-4) by (auto simp: env_step_def nm_ascii_is_newline_def env_end_of_line_def cut_at_def split: prod.splits)
  show ?thesis
    unfolding env_assignment_def env_quote_def fst_conv snd_conv k(1) append_Cons append_Nil append_assoc env_run.simps
      env_run_append 1 sum.case prod.case 2 [unfolded k(1)]
    using 3 4 5 6 7 by (simp add: k(1) env_run_append split: sum.splits prod.splits)
qed

text \<open>Handing all pairs to the callback, until it fails.\<close>

fun env_push_all :: "'u env_push \<Rightarrow> nat \<Rightarrow> (u8 list \<times> u8 list) list \<Rightarrow> 'u \<Rightarrow> int \<times> 'u" where
  "env_push_all push line [] u = (0, u)"
| "env_push_all push line ((k, v) # kvs) u =
     (case push line k v u of (r, u) \<Rightarrow> if r < 0 then (r, u) else env_push_all push (Suc line) kvs u)"

lemma env_run_file:
  assumes "list_all (env_key_ok \<circ> fst) kvs" "ep_state p = PRE_KEY" "ep_key p = []" "ep_value p = []"
  shows "case env_run push (env_file kvs) p u of
      Inl (r, u') \<Rightarrow> r < 0 \<and> env_push_all push (Suc (ep_line p)) kvs u = (r, u')
    | Inr (p', u') \<Rightarrow> ep_state p' = PRE_KEY \<and> env_push_all push (Suc (ep_line p)) kvs u = (0, u')"
  using assms
proof (induction kvs arbitrary: p u)
  case (Cons kv kvs)
  obtain k v where kv: "kv = (k, v)" by (cases kv)
  obtain r u' where push: "push (Suc (ep_line p)) k v u = (r, u')" by (cases "push (Suc (ep_line p)) k v u")
  have contents: "env_file ((k, v) # kvs) = env_assignment (k, v) @ env_file kvs" by (simp add: env_file_def)
  have "env_key_ok k" using Cons.prems(1) kv by simp
  note run = env_run_assignment [OF this Cons.prems(2-4), of push v u]
  show ?case
  proof (cases "r < 0")
    case True
    then show ?thesis unfolding kv contents env_run_append run push by (simp add: push)
  next
    case False
    then show ?thesis
      using Cons.IH [of "p\<lparr>ep_line := Suc (ep_line p), ep_last_key_whitespace := None, ep_last_value_whitespace := None\<rparr>" u'] Cons.prems
      unfolding kv contents env_run_append run push by (simp add: push split: sum.split_asm sum.split prod.split_asm prod.split)
  qed
qed (simp add: env_file_def)

lemma parse_env_file_pushes:
  assumes "list_all (env_key_ok \<circ> fst) kvs"
  shows "nm_parse_env_file_full (Some (env_file kvs)) push u = env_push_all push 2 kvs u"
  using env_run_file [OF assms, of env_parser_init push u]
  by (auto simp: nm_parse_env_file_full_def env_parser_init_def numeral_2_eq_2 split: sum.splits prod.splits)

lemma env_vars_set_eq:
  "distinct (map fst vars) \<Longrightarrow>
     snd (env_vars_set key value vars) = map (\<lambda>(k, v). (k, if k = key then Some value else v)) vars"
  "0 \<le> fst (env_vars_set key value vars)"
proof (induction vars)
  case (Cons kv vars)
  { case 1
    have "map (\<lambda>(k, v). (k, if k = key then Some value else v)) vars = vars" if "key \<notin> fst ` set vars"
      using that by (intro map_idI) force
    then show ?case using 1 Cons(1) by (cases kv) (auto split: prod.splits)
  next
    case 2
    show ?case using Cons(2) by (cases kv) (auto split: prod.splits)
  }
qed simp_all

text \<open>
  C36. Reading a file of assignments with quoted values gives every requested variable the value of its last
  assignment, whatever bytes it has, and leaves variables without an assignment alone.
\<close>

theorem env_file_roundtrip:
  assumes "list_all (\<lambda>(k, v). env_key_ok k \<and> c_string k \<and> c_string v \<and> utf8_validate k \<and> utf8_validate v) kvs"
    and "distinct (map fst vars)"
  shows "nm_parse_env_filev utf8_validate (Some (env_file kvs)) vars =
    (0, map (\<lambda>(k, v). (k, case map_of (rev kvs) k of Some value \<Rightarrow> Some value | None \<Rightarrow> v)) vars)"
proof -
  have "env_push_all (parse_env_file_push utf8_validate) n kvs vars =
      (0, map (\<lambda>(k, v). (k, case map_of (rev kvs) k of Some value \<Rightarrow> Some value | None \<Rightarrow> v)) vars)" for n
    using assms
  proof (induction kvs arbitrary: n vars)
    case Nil
    show ?case by (simp add: map_idI)
  next
    case (Cons kv kvs)
    obtain k v where kv: "kv = (k, v)" by (cases kv)
    let ?vars = "map (\<lambda>(x, y). (x, if x = k then Some v else y)) vars"
    have "parse_env_file_push utf8_validate n k v vars = (fst (env_vars_set k v vars), ?vars)"
      using Cons.prems env_vars_set_eq(1) [of vars k v]
      by (auto simp: parse_env_file_push_def check_utf8ness_and_warn_def kv prod_eq_iff)
    moreover have "distinct (map fst ?vars)" using Cons.prems(2) by (simp add: o_def case_prod_beta)
    ultimately show ?case
      using Cons.IH [of ?vars "Suc n"] Cons.prems(1) env_vars_set_eq(2) [of k v vars]
      by (auto simp: kv map_add_def case_prod_beta o_def split: option.splits)
  qed
  moreover have "list_all (env_key_ok \<circ> fst) kvs" using assms(1) by (auto simp: list_all_iff)
  ultimately show ?thesis by (simp add: nm_parse_env_filev_def parse_env_file_pushes)
qed

theorem env_file_roundtrip_witness:
  "nm_parse_env_filev (\<lambda>_. True) (Some (env_file [(str ''A'', str ''x $y''), (str ''B'', [0x0A]), (str ''A'', [0x22])]))
     [(str ''A'', None), (str ''C'', None)] = (0, [(str ''A'', Some [0x22]), (str ''C'', None)])"
  using env_file_roundtrip [of "\<lambda>_. True" "[(str ''A'', str ''x $y''), (str ''B'', [0x0A]), (str ''A'', [0x22])]" "[(str ''A'', None), (str ''C'', None)]"]
  by (simp add: env_key_ok_def nm_ascii_is_whitespace_def)

text \<open>
  An entry is reported with the number of the line after it, and a tab ends a line.
\<close>

lemma env_file_tab_ends_line:
  "nm_parse_env_filev (\<lambda>_. True) (Some (str ''A=x'' @ [0x09] @ str ''B=y'' @ [0x0A])) [(str ''A'', None), (str ''B'', None)] =
     (0, [(str ''A'', Some (str ''x'')), (str ''B'', Some (str ''y''))])"
  by code_simp

end
