(* ===== verification/NM_Utf8safe.thy ===== *)
theory NM_Utf8safe
  imports NM_Chars
begin

text \<open>
  Escaping of binary data as UTF-8 text and back (\<^verbatim>\<open>nm_utils_buf_utf8safe_escape\<close>,
  \<^verbatim>\<open>nm_utils_buf_utf8safe_unescape\<close> of \<^verbatim>\<open>nm-shared-utils.c\<close>). The validation of UTF-8 is
  \<^verbatim>\<open>g_utf8_validate\<close> of glib: a parameter \<open>utf8_end\<close> that gives the length of the longest valid prefix.
\<close>

unbundle bit_operations_syntax

section \<open>Operations\<close>

definition str_buf_append_c_escape_octal :: "u8 \<Rightarrow> u8 list" where
  "str_buf_append_c_escape_octal ch =
     [0x5C, ascii (CHR ''0'') + (drop_bit 6 ch AND 7), ascii (CHR ''0'') + (drop_bit 3 ch AND 7), ascii (CHR ''0'') + (ch AND 7)]"

record utf8safe_flags =
  FLAG_ESCAPE_CTRL :: bool
  FLAG_ESCAPE_NON_ASCII :: bool
  FLAG_ESCAPE_DOUBLE_QUOTE :: bool

definition utf8safe_special :: "utf8safe_flags \<Rightarrow> u8 \<Rightarrow> bool" where
  "utf8safe_special flags ch \<longleftrightarrow>
     (FLAG_ESCAPE_CTRL flags \<and> nm_ascii_is_ctrl_or_del ch) \<or>
     (FLAG_ESCAPE_NON_ASCII flags \<and> nm_ascii_is_non_ascii ch) \<or>
     (FLAG_ESCAPE_DOUBLE_QUOTE flags \<and> ch = 0x22)"

definition utf8safe_escape_char :: "utf8safe_flags \<Rightarrow> u8 \<Rightarrow> u8 list" where
  "utf8safe_escape_char flags ch =
     (if ch = 0x5C then [0x5C, 0x5C]
      else if utf8safe_special flags ch then str_buf_append_c_escape_octal ch
      else [ch])"

text \<open>The loop: the valid prefix, then one byte that is escaped in any case.\<close>

function utf8safe_escape_loop :: "(u8 list \<Rightarrow> nat) \<Rightarrow> utf8safe_flags \<Rightarrow> u8 list \<Rightarrow> u8 list" where
  "utf8safe_escape_loop utf8_end flags s =
     (let valid = take (utf8_end s) s; rest = drop (utf8_end s) s;
          out = concat (map (utf8safe_escape_char flags) valid)
      in case rest of
           [] \<Rightarrow> out
         | [ch] \<Rightarrow> out @ str_buf_append_c_escape_octal ch
         | ch # s' \<Rightarrow> out @ str_buf_append_c_escape_octal ch @ utf8safe_escape_loop utf8_end flags s')"
  by pat_completeness auto

termination
proof (relation "measure (\<lambda>(u, f, s). length s)", goal_cases)
  case (2 utf8_end flags s valid rest out ch s' c s'')
  then have "Suc (Suc (length s'')) = length s - utf8_end s" by (metis length_Cons length_drop)
  then show ?case using 2 by simp
qed simp

declare utf8safe_escape_loop.simps [simp del]

text \<open>
  The escaped buffer. A buffer that is given with its length is always escaped into a copy, and an empty one
  gives NULL; a string is returned as it is where nothing has to be escaped.
\<close>

definition nm_utils_buf_utf8safe_escape :: "(u8 list \<Rightarrow> nat) \<Rightarrow> u8 list \<Rightarrow> bool \<Rightarrow> utf8safe_flags \<Rightarrow> u8 list option" where
  "nm_utils_buf_utf8safe_escape utf8_end buf nul_terminated flags =
     (if buf = [] then (if nul_terminated then Some buf else None)
      else if utf8_end buf = length buf \<and> nul_terminated \<and> \<not> list_ex (\<lambda>ch. ch = 0x5C \<or> utf8safe_special flags ch) buf
      then Some buf
      else Some (utf8safe_escape_loop utf8_end flags buf))"

definition strip_trailing_spaces :: "u8 list \<Rightarrow> u8 list" where
  "strip_trailing_spaces s = rev (dropWhile g_ascii_isspace (rev s))"

text \<open>One escape sequence after the backslash: the byte, and the rest of the string.\<close>

definition unescape_octal :: "u8 list \<Rightarrow> u8 \<times> u8 list" where
  "unescape_octal p =
     (let is_octal = in_range (ascii (CHR ''0'')) (ascii (CHR ''7''));
          v = unat (str_at p 0 - ascii (CHR ''0''))
      in if is_octal (str_at p 1) then
           (let v = v * 8 + unat (str_at p 1 - ascii (CHR ''0'')) in
            if is_octal (str_at p 2)
            then (of_nat (v * 8 + unat (str_at p 2 - ascii (CHR ''0''))), drop 3 p)
            else (of_nat v, drop 2 p))
         else (of_nat v, drop 1 p))"

definition unescape_seq :: "u8 list \<Rightarrow> u8 \<times> u8 list" where
  "unescape_seq p =
     (let ch = str_at p 0 in
      if in_range (ascii (CHR ''0'')) (ascii (CHR ''9'')) ch then unescape_octal p
      else
        (if ch = ascii (CHR ''b'') then 0x08
         else if ch = ascii (CHR ''f'') then 0x0C
         else if ch = ascii (CHR ''n'') then 0x0A
         else if ch = ascii (CHR ''r'') then 0x0D
         else if ch = ascii (CHR ''t'') then 0x09
         else if ch = ascii (CHR ''v'') then 0x0B
         else ch, drop 1 p))"

lemma unescape_seq_shorter: "unescape_seq p = (ch, r) \<Longrightarrow> length r \<le> length p - 1"
  by (auto simp: unescape_seq_def unescape_octal_def Let_def split: if_splits)

text \<open>The loop starts at a backslash.\<close>

function unescape_loop :: "bool \<Rightarrow> u8 list \<Rightarrow> u8 list \<Rightarrow> u8 list" where
  "unescape_loop strip_spaces p strbuf =
     (let p = drop 1 p in
      if str_at p 0 = 0 then strbuf
      else
        (let (ch, p) = unescape_seq p;
             strbuf = strbuf @ [ch];
             s = dropWhile (\<lambda>c. c \<noteq> 0x5C) p
         in if s = [] then strbuf @ (if strip_spaces then strip_trailing_spaces p else p)
            else unescape_loop strip_spaces s (strbuf @ takeWhile (\<lambda>c. c \<noteq> 0x5C) p)))"
  by pat_completeness auto

termination
proof (relation "measure (\<lambda>(b, p, z). length p)", goal_cases)
  case (2 strip p z q pair ch r z' s)
  have "length s \<le> length r" using 2 length_dropWhile_le by metis
  moreover have "length r \<le> length q - 1" using 2 unescape_seq_shorter by metis
  moreover have "q \<noteq> []" using 2(2) by auto
  then have "0 < length q" by simp
  ultimately show ?case using 2 by simp
qed simp

declare unescape_loop.simps [simp del]

definition nm_utils_buf_utf8safe_unescape :: "bool \<Rightarrow> u8 list \<Rightarrow> u8 list" where
  "nm_utils_buf_utf8safe_unescape strip_spaces p =
     (let p = (if strip_spaces then dropWhile g_ascii_isspace p else p);
          s = dropWhile (\<lambda>c. c \<noteq> 0x5C) p
      in if s = [] then (if strip_spaces then strip_trailing_spaces p else p)
         else unescape_loop strip_spaces s (takeWhile (\<lambda>c. c \<noteq> 0x5C) p))"

section \<open>Round trip\<close>

lemma unescape_loop_append: "unescape_loop b p (z @ z') = z @ unescape_loop b p z'"
proof (induction b p z' rule: unescape_loop.induct)
  case (1 b p z')
  show ?case
    using 1 by (auto simp: unescape_loop.simps [of b p "z @ z'"] unescape_loop.simps [of b p z'] Let_def split: prod.splits)
qed

abbreviation unescape :: "u8 list \<Rightarrow> u8 list" where
  "unescape \<equiv> nm_utils_buf_utf8safe_unescape False"

lemma unescape_Nil [simp]: "unescape [] = []"
  by (simp add: nm_utils_buf_utf8safe_unescape_def)

lemma unescape_plain:
  assumes "c \<noteq> 0x5C"
  shows "unescape (c # p) = c # unescape p"
  using assms unescape_loop_append [of False _ "[c]"]
  by (auto simp: nm_utils_buf_utf8safe_unescape_def Let_def)

lemma unescape_seq_eq:
  assumes "unescape_seq p = (ch, r)" "str_at p 0 \<noteq> 0"
  shows "unescape (0x5C # p) = ch # unescape r"
proof -
  have "unescape (0x5C # p) = unescape_loop False (0x5C # p) []" by (simp add: nm_utils_buf_utf8safe_unescape_def)
  also have "... = (let s = dropWhile (\<lambda>c. c \<noteq> 0x5C) r in
      if s = [] then [ch] @ r else unescape_loop False s ([ch] @ takeWhile (\<lambda>c. c \<noteq> 0x5C) r))"
    unfolding unescape_loop.simps [of False "0x5C # p"] using assms by (simp only: Let_def drop_Suc_Cons drop_0 One_nat_def prod.case if_False append_Nil simp_thms)
  also have "... = ch # unescape r"
    unfolding unescape_loop_append Let_def nm_utils_buf_utf8safe_unescape_def by auto
  finally show ?thesis .
qed

lemma octal_digit_u8:
  assumes "v < 8"
  shows "in_range 48 55 (48 + v)" "unat (48 + v - 48) = unat (v :: u8)"
  using assms unat_add_u8 [of 48 v] by (simp_all add: word_le_nat_alt word_less_nat_alt)

lemma and_7: "unat (x AND 7) = unat (x :: u8) mod 8"
proof -
  have "x AND 7 = take_bit 3 x" by (simp add: take_bit_eq_mask mask_eq_exp_minus_1)
  then show ?thesis unfolding take_bit_eq_mod [symmetric] by (simp only: unsigned_take_bit_eq) (simp add: take_bit_eq_mod)
qed

lemma unescape_octal_byte: "unescape (str_buf_append_c_escape_octal ch @ p) = ch # unescape p"
proof -
  define a b c where "a = drop_bit 6 ch AND 7" and "b = drop_bit 3 ch AND 7" and "c = ch AND 7"
  have unat: "unat a = unat ch div 64 mod 8" "unat b = unat ch div 8 mod 8" "unat c = unat ch mod 8"
    unfolding a_def b_def c_def and_7 unat_drop_bit_eq by (simp_all add: drop_bit_eq_div)
  then have less: "a < 8" "b < 8" "c < 8" by (simp_all add: word_less_nat_alt)
  have "unat ch div 64 mod 8 = unat ch div 64" using unsigned_less [of ch, where 'a = nat] by simp
  then have abc: "unat a * 64 + unat b * 8 + unat c = unat ch" unfolding unat using octal_sum [of "unat ch"] by (simp only:)
  have "(x * 8 + y) * 8 + z = x * 64 + y * 8 + z" for x y z :: nat by simp
  from this [of "unat a" "unat b" "unat c"] have "(unat a * 8 + unat b) * 8 + unat c = unat ch" using abc by (simp only:)
  then have val: "of_nat ((unat a * 8 + unat b) * 8 + unat c) = ch" by simp
  have "48 + a \<le> 57" using octal_digit_u8(1) [OF less(1)] by (simp add: word_le_nat_alt)
  then have "unescape_seq ([48 + a, 48 + b, 48 + c] @ p) = (ch, p)"
    using octal_digit_u8 [OF less(1)] octal_digit_u8 [OF less(2)] octal_digit_u8 [OF less(3)] val
    by (simp add: unescape_seq_def unescape_octal_def Let_def)
  moreover have "48 + a \<noteq> 0" using octal_digit_u8(1) [OF less(1)] by auto
  ultimately show ?thesis
    using unescape_seq_eq [of "[48 + a, 48 + b, 48 + c] @ p" ch p]
    by (simp add: str_buf_append_c_escape_octal_def a_def b_def c_def)
qed

lemma unescape_escape_char: "unescape (utf8safe_escape_char flags ch @ p) = ch # unescape p"
proof -
  have "unescape (0x5C # 0x5C # p) = 0x5C # unescape p"
    using unescape_seq_eq [of "0x5C # p" "0x5C" p] by (simp add: unescape_seq_def)
  then show ?thesis by (simp add: utf8safe_escape_char_def unescape_plain unescape_octal_byte)
qed

lemma unescape_escape_chars: "unescape (concat (map (utf8safe_escape_char flags) s) @ p) = s @ unescape p"
  by (induction s) (simp_all add: unescape_escape_char)

lemma unescape_escape_loop: "unescape (utf8safe_escape_loop utf8_end flags s) = s"
proof (induction utf8_end flags s rule: utf8safe_escape_loop.induct)
  case (1 utf8_end flags s)
  have s: "take (utf8_end s) s @ drop (utf8_end s) s = s" by (rule append_take_drop_id)
  show ?case
  proof (cases "drop (utf8_end s) s")
    case Nil
    then show ?thesis using s unescape_escape_chars [of flags "take (utf8_end s) s" "[]"]
      by (simp add: utf8safe_escape_loop.simps [of utf8_end flags s] Let_def)
  next
    case (Cons ch s')
    show ?thesis
    proof (cases s')
      case Nil
      then show ?thesis using s Cons unescape_octal_byte [of ch "[]"]
        by (simp add: utf8safe_escape_loop.simps [of utf8_end flags s] Let_def unescape_escape_chars)
    next
      case (Cons c s'')
      then show ?thesis using s \<open>drop (utf8_end s) s = ch # s'\<close> 1
        by (simp add: utf8safe_escape_loop.simps [of utf8_end flags s] Let_def unescape_escape_chars unescape_octal_byte)
    qed
  qed
qed

text \<open>What glib documents of the validation: the prefix is a part of the buffer and has no NUL bytes.\<close>

definition utf8_end_ok :: "(u8 list \<Rightarrow> nat) \<Rightarrow> bool" where
  "utf8_end_ok utf8_end \<longleftrightarrow> (\<forall>s. utf8_end s \<le> length s \<and> c_string (take (utf8_end s) s))"

lemma octal_c_string: "c_string (str_buf_append_c_escape_octal ch)"
proof -
  have "48 + (x AND 7) \<noteq> 0" for x :: u8
    using octal_digit_u8(1) [of "x AND 7"] and_7 [of x] by (auto simp: word_less_nat_alt)
  then show ?thesis by (simp add: str_buf_append_c_escape_octal_def)
qed

lemma escape_chars_c_string: "c_string s \<Longrightarrow> c_string (concat (map (utf8safe_escape_char flags) s))"
  by (induction s) (simp_all add: utf8safe_escape_char_def octal_c_string)

lemma escape_loop_c_string:
  assumes "utf8_end_ok utf8_end"
  shows "c_string (utf8safe_escape_loop utf8_end flags s)"
  using assms
proof (induction utf8_end flags s rule: utf8safe_escape_loop.induct)
  case (1 utf8_end flags s)
  have "c_string (concat (map (utf8safe_escape_char flags) (take (utf8_end s) s)))"
    using 1(2) by (intro escape_chars_c_string) (simp add: utf8_end_ok_def)
  then show ?case
    unfolding utf8safe_escape_loop.simps [of utf8_end flags s] Let_def
    using 1 octal_c_string by (auto split: list.splits)
qed

text \<open>
  C37. Any data that is not empty is escaped as a C string, and unescaping gives the data back: also invalid
  UTF-8, NUL bytes and backslashes, and for all flags.
\<close>

theorem utf8safe_roundtrip:
  assumes "utf8_end_ok utf8_end" "buf \<noteq> []" "nul_terminated \<longrightarrow> c_string buf"
  shows "\<exists>esc. nm_utils_buf_utf8safe_escape utf8_end buf nul_terminated flags = Some esc \<and> c_string esc \<and>
    nm_utils_buf_utf8safe_unescape False esc = buf"
proof (cases "utf8_end buf = length buf \<and> nul_terminated \<and> \<not> list_ex (\<lambda>ch. ch = 0x5C \<or> utf8safe_special flags ch) buf")
  case True
  then have "dropWhile (\<lambda>c. c \<noteq> 0x5C) buf = []" by (auto simp: list_ex_iff)
  then show ?thesis using True assms(2,3)
    by (simp add: nm_utils_buf_utf8safe_escape_def nm_utils_buf_utf8safe_unescape_def Let_def)
next
  case False
  then show ?thesis
    using assms(2) escape_loop_c_string [OF assms(1)] unescape_escape_loop [of utf8_end flags buf]
    by (auto simp: nm_utils_buf_utf8safe_escape_def)
qed

text \<open>A validation that accepts ASCII characters only.\<close>

definition ascii_end :: "u8 list \<Rightarrow> nat" where
  "ascii_end s = length (takeWhile (\<lambda>c. 0 < c \<and> c < 128) s)"

lemma ascii_end_ok: "utf8_end_ok ascii_end"
proof -
  have "c_string (take (ascii_end s) s)" for s
    unfolding ascii_end_def takeWhile_eq_take [symmetric] by (auto simp: c_string_def dest: set_takeWhileD)
  then show ?thesis by (simp add: utf8_end_ok_def ascii_end_def length_takeWhile_le)
qed

theorem utf8safe_roundtrip_witness:
  "\<exists>esc. nm_utils_buf_utf8safe_escape ascii_end [0x61, 0xFF, 0x00, 0x5C, 0x37] False
       \<lparr>FLAG_ESCAPE_CTRL = True, FLAG_ESCAPE_NON_ASCII = False, FLAG_ESCAPE_DOUBLE_QUOTE = False\<rparr> = Some esc \<and> c_string esc \<and>
     nm_utils_buf_utf8safe_unescape False esc = [0x61, 0xFF, 0x00, 0x5C, 0x37]"
proof -
  have "[0x61, 0xFF, 0x00, 0x5C, 0x37 :: u8] \<noteq> []" "False \<longrightarrow> c_string [0x61, 0xFF, 0x00, 0x5C, 0x37]" by simp_all
  from utf8safe_roundtrip [OF ascii_end_ok this] show ?thesis .
qed

section \<open>Bounds\<close>

text \<open>Unescaping never makes a string longer: the buffer that is allocated up front is large enough.\<close>

lemma length_strip: "length (strip_trailing_spaces s) \<le> length s"
  using length_dropWhile_le [of g_ascii_isspace "rev s"] by (simp add: strip_trailing_spaces_def)

lemma length_unescape_loop: "length (unescape_loop b p z) \<le> length z + length p"
proof (induction b p z rule: unescape_loop.induct)
  case (1 b p z)
  show ?case
  proof (cases "str_at (drop 1 p) 0 = 0")
    case True
    then show ?thesis by (simp add: unescape_loop.simps [of b p z])
  next
    case False
    obtain ch r where seq: "unescape_seq (drop 1 p) = (ch, r)" by (cases "unescape_seq (drop 1 p)")
    let ?s = "dropWhile (\<lambda>c. c \<noteq> 0x5C) r" and ?t = "takeWhile (\<lambda>c. c \<noteq> 0x5C) r"
    have len: "length r + 2 \<le> length p"
      using unescape_seq_shorter [OF seq] False by (cases p rule: remdups_adj.cases) auto
    have st: "length ?t + length ?s = length r" by (metis length_append takeWhile_dropWhile_id)
    show ?thesis
    proof (cases "?s = []")
      case True
      then show ?thesis using False len length_strip [of r]
        unfolding unescape_loop.simps [of b p z] Let_def seq prod.case if_not_P [OF False] by auto
    next
      case s: False
      then have "length (unescape_loop b ?s ((z @ [ch]) @ ?t)) \<le> length ((z @ [ch]) @ ?t) + length ?s"
        using 1 False seq by (metis (no_types, lifting))
      then show ?thesis using False len st
        unfolding unescape_loop.simps [of b p z] Let_def seq prod.case if_not_P [OF False] if_not_P [OF s] by simp
    qed
  qed
qed

lemma unescape_not_longer: "length (nm_utils_buf_utf8safe_unescape b p) \<le> length p"
proof -
  define q where "q = (if b then dropWhile g_ascii_isspace p else p)"
  have q: "length q \<le> length p" using length_dropWhile_le [of g_ascii_isspace p] by (simp add: q_def)
  have "length (takeWhile (\<lambda>c. c \<noteq> 0x5C) q) + length (dropWhile (\<lambda>c. c \<noteq> 0x5C) q) = length q"
    by (metis length_append takeWhile_dropWhile_id)
  then have "length (unescape_loop b (dropWhile (\<lambda>c. c \<noteq> 0x5C) q) (takeWhile (\<lambda>c. c \<noteq> 0x5C) q)) \<le> length q"
    using length_unescape_loop [of b "dropWhile (\<lambda>c. c \<noteq> 0x5C) q" "takeWhile (\<lambda>c. c \<noteq> 0x5C) q"] by simp
  then show ?thesis using q length_strip [of q]
    unfolding nm_utils_buf_utf8safe_unescape_def Let_def q_def [symmetric] by auto
qed

text \<open>The digits 8 and 9 after a backslash are taken for octal digits.\<close>

lemma unescape_backslash_9: "unescape [0x5C, ascii (CHR ''9'')] = [0x09]"
  using unescape_seq_eq [of "[0x39]" 9 "[]"] by (simp add: unescape_seq_def unescape_octal_def)

end
