(* ===== verification/NM_Lldp_Neighbor.thy ===== *)
theory NM_Lldp_Neighbor
  imports NM_Utf8safe NM_Hexstr NM_Inet
begin

text \<open>
  Neighbors that were announced with the Link Layer Discovery Protocol (\<^verbatim>\<open>libnm-lldp/nm-lldp-neighbor.c\<close>):
  parsing of the received frames, the identity of a neighbor, the access to its TLVs (type, length, value), and
  its text form. \<^verbatim>\<open>inet_ntop\<close> of the C library and the validation of UTF-8 are parameters.
\<close>

section \<open>Data\<close>

record NMLldpNeighborID =
  id_chassis_id :: "u8 list option"
  id_port_id :: "u8 list option"

record NMLldpNeighbor =
  nb_id :: NMLldpNeighborID
  nb_linked :: bool
  nb_timestamp_usec :: int
  nb_until_usec :: int
  nb_source_address :: "u8 list"
  nb_destination_address :: "u8 list"
  nb_raw :: "u8 list"
  nb_rindex :: nat
  nb_has_ttl :: bool
  nb_has_capabilities :: bool
  nb_ttl :: nat
  nb_system_capabilities :: u16
  nb_enabled_capabilities :: u16
  nb_port_description :: "u8 list option"
  nb_system_name :: "u8 list option"
  nb_system_description :: "u8 list option"
  nb_mud_url :: "u8 list option"

definition nm_lldp_neighbor_new :: "u8 list \<Rightarrow> NMLldpNeighbor" where
  "nm_lldp_neighbor_new raw =
     \<lparr>nb_id = \<lparr>id_chassis_id = None, id_port_id = None\<rparr>, nb_linked = False, nb_timestamp_usec = 0, nb_until_usec = 0,
      nb_source_address = replicate 6 0, nb_destination_address = replicate 6 0, nb_raw = raw, nb_rindex = 0,
      nb_has_ttl = False, nb_has_capabilities = False, nb_ttl = 0, nb_system_capabilities = 0,
      nb_enabled_capabilities = 0, nb_port_description = None, nb_system_name = None,
      nb_system_description = None, nb_mud_url = None\<rparr>"

section \<open>Identity and comparison\<close>

text \<open>\<^verbatim>\<open>nm_memcmp_n\<close>: a missing identifier has the size zero.\<close>

definition nm_memcmp_n :: "u8 list \<Rightarrow> u8 list \<Rightarrow> int" where
  "nm_memcmp_n a b =
     (if length a \<noteq> length b then nm_cmp_direct (length a) (length b)
      else if length a > 0 then nm_cmp_memcmp a b (length a) else 0)"

definition nm_lldp_neighbor_id_cmp :: "NMLldpNeighborID \<Rightarrow> NMLldpNeighborID \<Rightarrow> int" where
  "nm_lldp_neighbor_id_cmp x y =
     (let bytes = case_option [] id;
          c = nm_memcmp_n (bytes (id_chassis_id x)) (bytes (id_chassis_id y)) in
      if c \<noteq> 0 then c else nm_memcmp_n (bytes (id_port_id x)) (bytes (id_port_id y)))"

definition nm_lldp_neighbor_id_equal :: "NMLldpNeighborID \<Rightarrow> NMLldpNeighborID \<Rightarrow> bool" where
  "nm_lldp_neighbor_id_equal x y \<longleftrightarrow> nm_lldp_neighbor_id_cmp x y = 0"

definition nm_lldp_neighbor_prioq_compare_func :: "NMLldpNeighbor \<Rightarrow> NMLldpNeighbor \<Rightarrow> int" where
  "nm_lldp_neighbor_prioq_compare_func x y = nm_cmp_direct (nb_until_usec x) (nb_until_usec y)"

definition nm_lldp_neighbor_cmp :: "NMLldpNeighbor \<Rightarrow> NMLldpNeighbor \<Rightarrow> int" where
  "nm_lldp_neighbor_cmp a b =
     (if length (nb_raw a) \<noteq> length (nb_raw b) then nm_cmp_direct (length (nb_raw a)) (length (nb_raw b))
      else nm_cmp_memcmp (nb_raw a) (nb_raw b) (length (nb_raw a)))"

definition nm_lldp_neighbor_equal :: "NMLldpNeighbor \<Rightarrow> NMLldpNeighbor \<Rightarrow> bool" where
  "nm_lldp_neighbor_equal a b \<longleftrightarrow> nm_lldp_neighbor_cmp a b = 0"

section \<open>Parsing\<close>

text \<open>The messages with which a datagram is ignored; the code is the same for all.\<close>

datatype lldp_error =
  PacketTruncated | PacketWrongType | PacketWrongDestination | TlvLacksHeader | TlvTruncated | EndNotEmpty
| ChassisSize | ChassisDuplicate | PortSize | PortDuplicate | TtlSize | TtlDuplicate | CapabilitiesSize
| PrivateTooShort | MandatoryMissing

abbreviation (input) NM_LLDP_TYPE_END :: nat where "NM_LLDP_TYPE_END \<equiv> 0"
abbreviation (input) NM_LLDP_TYPE_CHASSIS_ID :: nat where "NM_LLDP_TYPE_CHASSIS_ID \<equiv> 1"
abbreviation (input) NM_LLDP_TYPE_PORT_ID :: nat where "NM_LLDP_TYPE_PORT_ID \<equiv> 2"
abbreviation (input) NM_LLDP_TYPE_TTL :: nat where "NM_LLDP_TYPE_TTL \<equiv> 3"
abbreviation (input) NM_LLDP_TYPE_PORT_DESCRIPTION :: nat where "NM_LLDP_TYPE_PORT_DESCRIPTION \<equiv> 4"
abbreviation (input) NM_LLDP_TYPE_SYSTEM_NAME :: nat where "NM_LLDP_TYPE_SYSTEM_NAME \<equiv> 5"
abbreviation (input) NM_LLDP_TYPE_SYSTEM_DESCRIPTION :: nat where "NM_LLDP_TYPE_SYSTEM_DESCRIPTION \<equiv> 6"
abbreviation (input) NM_LLDP_TYPE_SYSTEM_CAPABILITIES :: nat where "NM_LLDP_TYPE_SYSTEM_CAPABILITIES \<equiv> 7"
abbreviation (input) NM_LLDP_TYPE_PRIVATE :: nat where "NM_LLDP_TYPE_PRIVATE \<equiv> 127"

definition NM_LLDP_OUI_IANA_MUD :: "u8 list" where
  "NM_LLDP_OUI_IANA_MUD = [0x00, 0x00, 0x5E, 0x01]"

definition lldp_escape_flags :: utf8safe_flags where
  "lldp_escape_flags = \<lparr>FLAG_ESCAPE_CTRL = True, FLAG_ESCAPE_NON_ASCII = True, FLAG_ESCAPE_DOUBLE_QUOTE = False\<rparr>"

text \<open>A copy of the escaped buffer.\<close>

definition utf8safe_escape_cp :: "(u8 list \<Rightarrow> nat) \<Rightarrow> u8 list \<Rightarrow> u8 list option" where
  "utf8safe_escape_cp utf8_end buf = nm_utils_buf_utf8safe_escape utf8_end buf False lldp_escape_flags"

definition parse_string :: "(u8 list \<Rightarrow> nat) \<Rightarrow> u8 list option \<Rightarrow> u8 list \<Rightarrow> u8 list option" where
  "parse_string utf8_end s q =
     (if s \<noteq> None then s
      else
        (let p = rev (dropWhile (\<lambda>c. c = 0) (rev q)) in
         if p = [] then s
         else if 0 \<in> set p then s
         else utf8safe_escape_cp utf8_end p))"

definition read_be16 :: "u8 list \<Rightarrow> nat" where
  "read_be16 p = unat (str_at p 0) * 256 + unat (str_at p 1)"

text \<open>The case distinction on the type of a TLV other than the end marker.\<close>

definition lldp_parse_tlv :: "(u8 list \<Rightarrow> nat) \<Rightarrow> NMLldpNeighbor \<Rightarrow> nat \<Rightarrow> u8 list \<Rightarrow> lldp_error + NMLldpNeighbor" where
  "lldp_parse_tlv utf8_end n type p =
     (if type = NM_LLDP_TYPE_CHASSIS_ID then
        (if length p < 2 \<or> length p > 256 then Inl ChassisSize
         else if id_chassis_id (nb_id n) \<noteq> None then Inl ChassisDuplicate
         else Inr (n\<lparr>nb_id := (nb_id n)\<lparr>id_chassis_id := Some p\<rparr>\<rparr>))
      else if type = NM_LLDP_TYPE_PORT_ID then
        (if length p < 2 \<or> length p > 256 then Inl PortSize
         else if id_port_id (nb_id n) \<noteq> None then Inl PortDuplicate
         else Inr (n\<lparr>nb_id := (nb_id n)\<lparr>id_port_id := Some p\<rparr>\<rparr>))
      else if type = NM_LLDP_TYPE_TTL then
        (if length p \<noteq> 2 then Inl TtlSize
         else if nb_has_ttl n then Inl TtlDuplicate
         else Inr (n\<lparr>nb_ttl := read_be16 p, nb_has_ttl := True\<rparr>))
      else if type = NM_LLDP_TYPE_PORT_DESCRIPTION then
        Inr (n\<lparr>nb_port_description := parse_string utf8_end (nb_port_description n) p\<rparr>)
      else if type = NM_LLDP_TYPE_SYSTEM_NAME then
        Inr (n\<lparr>nb_system_name := parse_string utf8_end (nb_system_name n) p\<rparr>)
      else if type = NM_LLDP_TYPE_SYSTEM_DESCRIPTION then
        Inr (n\<lparr>nb_system_description := parse_string utf8_end (nb_system_description n) p\<rparr>)
      else if type = NM_LLDP_TYPE_SYSTEM_CAPABILITIES then
        (if length p \<noteq> 4 then Inl CapabilitiesSize
         else Inr (n\<lparr>nb_system_capabilities := of_nat (read_be16 p), nb_enabled_capabilities := of_nat (read_be16 (drop 2 p)),
           nb_has_capabilities := True\<rparr>))
      else if type = NM_LLDP_TYPE_PRIVATE then
        (if length p < 4 then Inl PrivateTooShort
         else if take 4 p = NM_LLDP_OUI_IANA_MUD then
           Inr (n\<lparr>nb_mud_url := parse_string utf8_end (nb_mud_url n) (drop 4 p)\<rparr>)
         else Inr n)
      else Inr n)"

definition tlv_type :: "u8 \<Rightarrow> nat" where
  "tlv_type b0 = unat (drop_bit 1 b0)"

definition tlv_length :: "u8 \<Rightarrow> u8 \<Rightarrow> nat" where
  "tlv_length b0 b1 = unat b1 + unat (b0 AND 1) * 256"

function lldp_parse_loop :: "(u8 list \<Rightarrow> nat) \<Rightarrow> NMLldpNeighbor \<Rightarrow> u8 list \<Rightarrow> lldp_error + NMLldpNeighbor" where
  "lldp_parse_loop utf8_end n p =
     (case p of
        b0 # b1 # p \<Rightarrow>
          (let type = tlv_type b0; len = tlv_length b0 b1 in
           if length p < len then Inl TlvTruncated
           else if type = NM_LLDP_TYPE_END then (if len \<noteq> 0 then Inl EndNotEmpty else Inr n)
           else
             (case lldp_parse_tlv utf8_end n type (take len p) of
                Inl e \<Rightarrow> Inl e
              | Inr n \<Rightarrow> lldp_parse_loop utf8_end n (drop len p)))
      | _ \<Rightarrow> Inl TlvLacksHeader)"
  by pat_completeness auto

termination
  by (relation "measure (\<lambda>(u, n, p). length p)") auto

declare lldp_parse_loop.simps [simp del]

abbreviation (input) ETHER_HEADER_SIZE :: nat where "ETHER_HEADER_SIZE \<equiv> 14"

definition nm_lldp_neighbor_parse :: "(u8 list \<Rightarrow> nat) \<Rightarrow> NMLldpNeighbor \<Rightarrow> lldp_error + NMLldpNeighbor" where
  "nm_lldp_neighbor_parse utf8_end n =
     (let raw = nb_raw n in
      if length raw < ETHER_HEADER_SIZE then Inl PacketTruncated
      else if take 2 (drop 12 raw) \<noteq> [0x88, 0xCC] then Inl PacketWrongType
      else if take 5 raw \<noteq> [0x01, 0x80, 0xC2, 0x00, 0x00] \<or> raw ! 5 \<notin> {0x00, 0x03, 0x0E} then Inl PacketWrongDestination
      else
        (let n = n\<lparr>nb_source_address := take 6 (drop 6 raw), nb_destination_address := take 6 raw\<rparr> in
         case lldp_parse_loop utf8_end n (drop ETHER_HEADER_SIZE raw) of
           Inl e \<Rightarrow> Inl e
         | Inr n \<Rightarrow>
             if id_chassis_id (nb_id n) = None \<or> id_port_id (nb_id n) = None \<or> \<not> nb_has_ttl n then Inl MandatoryMissing
             else Inr (n\<lparr>nb_rindex := ETHER_HEADER_SIZE\<rparr>)))"

definition nm_lldp_neighbor_new_from_raw :: "(u8 list \<Rightarrow> nat) \<Rightarrow> u8 list \<Rightarrow> NMLldpNeighbor option" where
  "nm_lldp_neighbor_new_from_raw utf8_end raw =
     (case nm_lldp_neighbor_parse utf8_end (nm_lldp_neighbor_new raw) of Inl _ \<Rightarrow> None | Inr n \<Rightarrow> Some n)"

section \<open>Text form of the identifiers\<close>

definition format_mac_address :: "u8 list \<Rightarrow> u8 list option" where
  "format_mac_address d =
     (if length d \<noteq> 7 then None else Some (nm_utils_bin2hexstr_fuller (drop 1 d) (ascii (CHR '':'')) True True))"

definition format_network_address :: "(int \<Rightarrow> u8 list \<Rightarrow> u8 list) \<Rightarrow> u8 list \<Rightarrow> u8 list option" where
  "format_network_address ntop d =
     (if length d = 6 \<and> d ! 1 = 1 then Some (ntop 2 (drop 2 d))
      else if length d = 18 \<and> d ! 1 = 2 then Some (ntop 10 (drop 2 d))
      else None)"

text \<open>
  The subtypes that are text, MAC address and network address differ for chassis and ports; everything else is
  printed in hexadecimal.
\<close>

definition lldp_id_as_string ::
    "(u8 list \<Rightarrow> nat) \<Rightarrow> (int \<Rightarrow> u8 list \<Rightarrow> u8 list) \<Rightarrow> u8 set \<Rightarrow> u8 \<Rightarrow> u8 \<Rightarrow> u8 list \<Rightarrow> u8 list option" where
  "lldp_id_as_string utf8_end ntop text mac network d =
     (let fallback = Some (nm_utils_bin2hexstr_fuller d 0 False True) in
      if d ! 0 \<in> text then utf8safe_escape_cp utf8_end (drop 1 d)
      else if d ! 0 = mac then (case format_mac_address d of Some k \<Rightarrow> Some k | None \<Rightarrow> fallback)
      else if d ! 0 = network then (case format_network_address ntop d of Some k \<Rightarrow> Some k | None \<Rightarrow> fallback)
      else fallback)"

definition nm_lldp_neighbor_get_chassis_id_as_string ::
    "(u8 list \<Rightarrow> nat) \<Rightarrow> (int \<Rightarrow> u8 list \<Rightarrow> u8 list) \<Rightarrow> NMLldpNeighbor \<Rightarrow> u8 list option" where
  "nm_lldp_neighbor_get_chassis_id_as_string utf8_end ntop n =
     lldp_id_as_string utf8_end ntop {1, 2, 3, 6, 7} 4 5 (the (id_chassis_id (nb_id n)))"

definition nm_lldp_neighbor_get_port_id_as_string ::
    "(u8 list \<Rightarrow> nat) \<Rightarrow> (int \<Rightarrow> u8 list \<Rightarrow> u8 list) \<Rightarrow> NMLldpNeighbor \<Rightarrow> u8 list option" where
  "nm_lldp_neighbor_get_port_id_as_string utf8_end ntop n =
     lldp_id_as_string utf8_end ntop {1, 2, 5, 7} 3 4 (the (id_port_id (nb_id n)))"

section \<open>Access to the TLVs\<close>

datatype lldp_errno = ESPIPE | EBADMSG | ENXIO | ENODATA

definition NM_LLDP_NEIGHBOR_TLV_TYPE :: "NMLldpNeighbor \<Rightarrow> nat" where
  "NM_LLDP_NEIGHBOR_TLV_TYPE n = tlv_type (nb_raw n ! nb_rindex n)"

definition NM_LLDP_NEIGHBOR_TLV_LENGTH :: "NMLldpNeighbor \<Rightarrow> nat" where
  "NM_LLDP_NEIGHBOR_TLV_LENGTH n = tlv_length (nb_raw n ! nb_rindex n) (nb_raw n ! (nb_rindex n + 1))"

definition NM_LLDP_NEIGHBOR_TLV_DATA :: "NMLldpNeighbor \<Rightarrow> u8 list" where
  "NM_LLDP_NEIGHBOR_TLV_DATA n = drop (nb_rindex n + 2) (nb_raw n)"

definition nm_lldp_neighbor_tlv_rewind :: "NMLldpNeighbor \<Rightarrow> bool \<times> NMLldpNeighbor" where
  "nm_lldp_neighbor_tlv_rewind n =
     (let n = n\<lparr>nb_rindex := ETHER_HEADER_SIZE\<rparr> in (nb_rindex n < length (nb_raw n), n))"

definition nm_lldp_neighbor_tlv_next :: "NMLldpNeighbor \<Rightarrow> (lldp_errno + bool) \<times> NMLldpNeighbor" where
  "nm_lldp_neighbor_tlv_next n =
     (if nb_rindex n = length (nb_raw n) then (Inl ESPIPE, n)
      else if nb_rindex n + 2 > length (nb_raw n) then (Inl EBADMSG, n)
      else
        (let len = NM_LLDP_NEIGHBOR_TLV_LENGTH n in
         if nb_rindex n + 2 + len > length (nb_raw n) then (Inl EBADMSG, n)
         else
           (let n = n\<lparr>nb_rindex := nb_rindex n + 2 + len\<rparr> in (Inr (nb_rindex n < length (nb_raw n)), n))))"

definition nm_lldp_neighbor_tlv_get_type :: "NMLldpNeighbor \<Rightarrow> lldp_errno + nat" where
  "nm_lldp_neighbor_tlv_get_type n =
     (if nb_rindex n = length (nb_raw n) then Inl ESPIPE
      else if nb_rindex n + 2 > length (nb_raw n) then Inl EBADMSG
      else Inr (NM_LLDP_NEIGHBOR_TLV_TYPE n))"

definition nm_lldp_neighbor_tlv_is_type :: "NMLldpNeighbor \<Rightarrow> nat \<Rightarrow> lldp_errno + bool" where
  "nm_lldp_neighbor_tlv_is_type n type =
     (case nm_lldp_neighbor_tlv_get_type n of Inl r \<Rightarrow> Inl r | Inr k \<Rightarrow> Inr (type = k))"

definition nm_lldp_neighbor_tlv_get_oui :: "NMLldpNeighbor \<Rightarrow> lldp_errno + (u8 list \<times> u8)" where
  "nm_lldp_neighbor_tlv_get_oui n =
     (case nm_lldp_neighbor_tlv_is_type n NM_LLDP_TYPE_PRIVATE of
        Inl r \<Rightarrow> Inl r
      | Inr False \<Rightarrow> Inl ENXIO
      | Inr True \<Rightarrow>
          (let len = NM_LLDP_NEIGHBOR_TLV_LENGTH n in
           if len < 4 then Inl EBADMSG
           else if nb_rindex n + 2 + len > length (nb_raw n) then Inl EBADMSG
           else (let d = NM_LLDP_NEIGHBOR_TLV_DATA n in Inr (take 3 d, d ! 3))))"

definition nm_lldp_neighbor_tlv_is_oui :: "NMLldpNeighbor \<Rightarrow> u8 list \<Rightarrow> u8 \<Rightarrow> lldp_errno + bool" where
  "nm_lldp_neighbor_tlv_is_oui n oui subtype =
     (case nm_lldp_neighbor_tlv_get_oui n of
        Inl r \<Rightarrow> if r = ENXIO then Inr False else Inl r
      | Inr (k, st) \<Rightarrow> Inr (k = oui \<and> st = subtype))"

definition nm_lldp_neighbor_tlv_get_raw :: "NMLldpNeighbor \<Rightarrow> lldp_errno + u8 list" where
  "nm_lldp_neighbor_tlv_get_raw n =
     (if nb_rindex n + 2 > length (nb_raw n) then Inl EBADMSG
      else
        (let len = NM_LLDP_NEIGHBOR_TLV_LENGTH n in
         if nb_rindex n + 2 + len > length (nb_raw n) then Inl EBADMSG
         else Inr (take (len + 2) (drop (nb_rindex n) (nb_raw n)))))"

section \<open>Access to the fields\<close>

definition nm_lldp_neighbor_get_chassis_id :: "NMLldpNeighbor \<Rightarrow> u8 \<times> u8 list" where
  "nm_lldp_neighbor_get_chassis_id n = (let d = the (id_chassis_id (nb_id n)) in (d ! 0, drop 1 d))"

definition nm_lldp_neighbor_get_port_id :: "NMLldpNeighbor \<Rightarrow> u8 \<times> u8 list" where
  "nm_lldp_neighbor_get_port_id n = (let d = the (id_port_id (nb_id n)) in (d ! 0, drop 1 d))"

definition lldp_field :: "'a option \<Rightarrow> lldp_errno + 'a" where
  "lldp_field f = (case f of None \<Rightarrow> Inl ENODATA | Some v \<Rightarrow> Inr v)"

definition nm_lldp_neighbor_get_system_name :: "NMLldpNeighbor \<Rightarrow> lldp_errno + u8 list" where
  "nm_lldp_neighbor_get_system_name n = lldp_field (nb_system_name n)"

definition nm_lldp_neighbor_get_system_description :: "NMLldpNeighbor \<Rightarrow> lldp_errno + u8 list" where
  "nm_lldp_neighbor_get_system_description n = lldp_field (nb_system_description n)"

definition nm_lldp_neighbor_get_port_description :: "NMLldpNeighbor \<Rightarrow> lldp_errno + u8 list" where
  "nm_lldp_neighbor_get_port_description n = lldp_field (nb_port_description n)"

definition nm_lldp_neighbor_get_mud_url :: "NMLldpNeighbor \<Rightarrow> lldp_errno + u8 list" where
  "nm_lldp_neighbor_get_mud_url n = lldp_field (nb_mud_url n)"

definition nm_lldp_neighbor_get_system_capabilities :: "NMLldpNeighbor \<Rightarrow> lldp_errno + u16" where
  "nm_lldp_neighbor_get_system_capabilities n =
     (if \<not> nb_has_capabilities n then Inl ENODATA else Inr (nb_system_capabilities n))"

definition nm_lldp_neighbor_get_enabled_capabilities :: "NMLldpNeighbor \<Rightarrow> lldp_errno + u16" where
  "nm_lldp_neighbor_get_enabled_capabilities n =
     (if \<not> nb_has_capabilities n then Inl ENODATA else Inr (nb_enabled_capabilities n))"

definition nm_lldp_neighbor_get_timestamp_usec :: "NMLldpNeighbor \<Rightarrow> lldp_errno + int" where
  "nm_lldp_neighbor_get_timestamp_usec n =
     (if nb_timestamp_usec n = 0 then Inl ENODATA else Inr (nb_timestamp_usec n))"

section \<open>Life time\<close>

definition nm_lldp_neighbor_start_ttl :: "int \<Rightarrow> NMLldpNeighbor \<Rightarrow> NMLldpNeighbor" where
  "nm_lldp_neighbor_start_ttl now_usec n =
     (if nb_ttl n > 0 then
        (let n = (if nb_timestamp_usec n \<le> 0 then n\<lparr>nb_timestamp_usec := now_usec\<rparr> else n) in
         n\<lparr>nb_until_usec := nb_timestamp_usec n + int (nb_ttl n) * 1000000\<rparr>)
      else n\<lparr>nb_until_usec := 0\<rparr>)"


section \<open>Frames\<close>

text \<open>
  What a frame is: the addresses, the Ethernet type, a sequence of TLVs, the end marker and any padding. A type
  has seven bits and a length nine.
\<close>

definition encode_tlv :: "nat \<times> u8 list \<Rightarrow> u8 list" where
  "encode_tlv tv = [of_nat (2 * fst tv + length (snd tv) div 256), of_nat (length (snd tv) mod 256)] @ snd tv"

definition encode_tlvs :: "(nat \<times> u8 list) list \<Rightarrow> u8 list \<Rightarrow> u8 list" where
  "encode_tlvs tlvs padding = concat (map encode_tlv tlvs) @ [0, 0] @ padding"

definition tlv_encodable :: "nat \<times> u8 list \<Rightarrow> bool" where
  "tlv_encodable tv \<longleftrightarrow> 0 < fst tv \<and> fst tv < 128 \<and> length (snd tv) < 512"

definition tlv_values :: "nat \<Rightarrow> (nat \<times> u8 list) list \<Rightarrow> u8 list list" where
  "tlv_values type tlvs = map snd (filter (\<lambda>tv. fst tv = type) tlvs)"

lemma tlv_values_Nil [simp]: "tlv_values type [] = []"
  and tlv_values_snoc [simp]:
    "tlv_values type (tlvs @ [(k, v)]) = tlv_values type tlvs @ (if k = type then [v] else [])"
  by (simp_all add: tlv_values_def)

lemma tlv_type_eq: "tlv_type b0 = unat b0 div 2"
  by (simp add: tlv_type_def drop_bit_eq_div unat_div_distrib)

lemma tlv_length_eq: "tlv_length b0 b1 = unat b1 + unat b0 mod 2 * 256"
  by (simp add: tlv_length_def and_one_eq unat_mod_distrib)

lemma tlv_header_decode:
  assumes "tlv_encodable (k, v)"
  shows "tlv_type (of_nat (2 * k + length v div 256)) = k"
    and "tlv_length (of_nat (2 * k + length v div 256)) (of_nat (length v mod 256)) = length v"
proof -
  have "length v div 256 < 2" using assms unfolding tlv_encodable_def snd_conv by linarith
  then have d: "length v div 256 = 0 \<or> length v div 256 = 1" by linarith
  then have u: "unat (of_nat (2 * k + length v div 256) :: u8) = 2 * k + length v div 256"
    using assms d by (simp only: unat_of_nat) (auto simp: tlv_encodable_def)
  show "tlv_type (of_nat (2 * k + length v div 256)) = k"
    unfolding tlv_type_eq u using d by auto
  have "(2 * k + length v div 256) mod 2 = length v div 256" using d by auto
  then show "tlv_length (of_nat (2 * k + length v div 256)) (of_nat (length v mod 256)) = length v"
    unfolding tlv_length_eq u by (simp add: unat_of_nat)
qed

lemma tlv_header_encode:
  assumes "length v = tlv_length b0 b1"
  shows "encode_tlv (tlv_type b0, v) = b0 # b1 # v"
proof -
  have "unat b1 < 256" using unsigned_less [of b1] by simp
  moreover have "unat b0 mod 2 < 2" by simp
  ultimately have "length v div 256 = unat b0 mod 2" "length v mod 256 = unat b1"
    using assms by (simp_all add: tlv_length_eq)
  then have "2 * tlv_type b0 + length v div 256 = unat b0" "length v mod 256 = unat b1" by (simp_all add: tlv_type_eq)
  then show ?thesis by (simp add: encode_tlv_def)
qed

lemma tlv_encodable_header:
  assumes "length v = tlv_length b0 b1" "tlv_type b0 \<noteq> 0"
  shows "tlv_encodable (tlv_type b0, v)"
proof -
  have "unat b1 < 256" "unat b0 < 256" using unsigned_less [of b1] unsigned_less [of b0] by simp_all
  moreover have "unat b0 mod 2 < 2" by simp
  ultimately have "unat b1 + unat b0 mod 2 * 256 < 512" "unat b0 div 2 < 128" by linarith+
  then show ?thesis using assms by (simp add: tlv_encodable_def tlv_type_eq tlv_length_eq)
qed

section \<open>The loop handles the TLVs in their order\<close>

fun lldp_parse_tlvs :: "(u8 list \<Rightarrow> nat) \<Rightarrow> NMLldpNeighbor \<Rightarrow> (nat \<times> u8 list) list \<Rightarrow> lldp_error + NMLldpNeighbor" where
  "lldp_parse_tlvs utf8_end n [] = Inr n"
| "lldp_parse_tlvs utf8_end n ((k, v) # tlvs) =
     (case lldp_parse_tlv utf8_end n k v of Inl e \<Rightarrow> Inl e | Inr n \<Rightarrow> lldp_parse_tlvs utf8_end n tlvs)"

lemma lldp_parse_tlvs_snoc:
  "lldp_parse_tlvs utf8_end n (tlvs @ [(k, v)]) =
     (case lldp_parse_tlvs utf8_end n tlvs of Inl e \<Rightarrow> Inl e | Inr n \<Rightarrow> lldp_parse_tlv utf8_end n k v)"
  by (induction tlvs arbitrary: n) (auto split: sum.splits)

lemma lldp_parse_loop_Cons:
  "lldp_parse_loop utf8_end n (b0 # b1 # p) =
     (if length p < tlv_length b0 b1 then Inl TlvTruncated
      else if tlv_type b0 = 0 then (if tlv_length b0 b1 \<noteq> 0 then Inl EndNotEmpty else Inr n)
      else
        (case lldp_parse_tlv utf8_end n (tlv_type b0) (take (tlv_length b0 b1) p) of
           Inl e \<Rightarrow> Inl e
         | Inr n \<Rightarrow> lldp_parse_loop utf8_end n (drop (tlv_length b0 b1) p)))"
  by (simp add: lldp_parse_loop.simps [of _ _ "b0 # b1 # p"] Let_def)

lemma lldp_parse_loop_encoded:
  "list_all tlv_encodable tlvs \<Longrightarrow>
   lldp_parse_loop utf8_end n (encode_tlvs tlvs padding) = lldp_parse_tlvs utf8_end n tlvs"
proof (induction tlvs arbitrary: n)
  case Nil
  show ?case by (simp add: encode_tlvs_def lldp_parse_loop_Cons tlv_type_eq tlv_length_eq)
next
  case (Cons tv tlvs)
  obtain k v where tv: "tv = (k, v)" by (cases tv)
  have ok: "tlv_encodable (k, v)" "k \<noteq> 0" using Cons.prems by (auto simp: tv tlv_encodable_def)
  define b0 b1 :: u8 where "b0 = of_nat (2 * k + length v div 256)" and "b1 = of_nat (length v mod 256)"
  have hd: "tlv_type b0 = k" "tlv_length b0 b1 = length v"
    using tlv_header_decode [OF ok(1)] by (simp_all only: b0_def b1_def)
  have "encode_tlvs (tv # tlvs) padding = b0 # b1 # v @ encode_tlvs tlvs padding"
    by (simp add: encode_tlvs_def encode_tlv_def tv b0_def b1_def)
  then show ?case
    using Cons ok(2) by (simp add: tv hd lldp_parse_loop_Cons split: sum.splits)
qed

lemma lldp_parse_loop_decoded:
  "lldp_parse_loop utf8_end n p = Inr n' \<Longrightarrow>
   \<exists>tlvs padding. p = encode_tlvs tlvs padding \<and> list_all tlv_encodable tlvs"
proof (induction utf8_end n p rule: lldp_parse_loop.induct)
  case (1 utf8_end n p)
  obtain b0 b1 r where p: "p = b0 # b1 # r"
    using "1.prems" by (subst (asm) lldp_parse_loop.simps) (auto split: list.splits)
  define k len where "k = tlv_type b0" and "len = tlv_length b0 b1"
  have len: "\<not> length r < len"
    using "1.prems" unfolding p k_def len_def by (auto simp: lldp_parse_loop_Cons split: if_splits)
  show ?case
  proof (cases "k = 0")
    case True
    then have "len = 0" using "1.prems" len unfolding p k_def len_def
      by (auto simp: lldp_parse_loop_Cons split: if_splits)
    then have "encode_tlv (k, []) = [b0, b1]"
      unfolding k_def len_def by (intro tlv_header_encode) simp
    then have "p = encode_tlvs [] r" using True by (simp add: p encode_tlvs_def encode_tlv_def)
    then show ?thesis by (metis list.pred_inject(1))
  next
    case False
    then obtain m where m: "lldp_parse_tlv utf8_end n k (take len r) = Inr m"
        and loop: "lldp_parse_loop utf8_end m (drop len r) = Inr n'"
      using "1.prems" len unfolding p k_def len_def
      by (auto simp: lldp_parse_loop_Cons split: if_splits sum.splits)
    obtain tlvs padding where IH: "drop len r = encode_tlvs tlvs padding" "list_all tlv_encodable tlvs"
      using "1.IH" [OF p refl k_def len_def len False m loop] by blast
    have l: "length (take len r) = tlv_length b0 b1" using len by (simp add: len_def)
    have "p = encode_tlvs ((k, take len r) # tlvs) padding"
      using IH(1) tlv_header_encode [OF l] append_take_drop_id [of len r] by (simp add: p encode_tlvs_def k_def)
    moreover have "tlv_encodable (k, take len r)"
      using tlv_encodable_header [OF l] False by (simp add: k_def)
    ultimately show ?thesis using IH(2) by (metis list.pred_inject(2))
  qed
qed

section \<open>What is accepted, and what is stored\<close>

definition lldp_string_ok :: "u8 list \<Rightarrow> bool" where
  "lldp_string_ok v \<longleftrightarrow> (let p = rev (dropWhile (\<lambda>c. c = 0) (rev v)) in p \<noteq> [] \<and> 0 \<notin> set p)"

text \<open>The first value that is a text wins; the others and those with inner NUL bytes are ignored.\<close>

definition lldp_first_string :: "(u8 list \<Rightarrow> nat) \<Rightarrow> u8 list list \<Rightarrow> u8 list option" where
  "lldp_first_string utf8_end vs =
     (case filter lldp_string_ok vs of
        [] \<Rightarrow> None
      | v # _ \<Rightarrow> Some (utf8safe_escape_loop utf8_end lldp_escape_flags (rev (dropWhile (\<lambda>c. c = 0) (rev v)))))"

definition first_value :: "'a list \<Rightarrow> 'a option" where
  "first_value vs = (case vs of [] \<Rightarrow> None | v # _ \<Rightarrow> Some v)"

definition tlv_size_ok :: "nat \<times> u8 list \<Rightarrow> bool" where
  "tlv_size_ok tv \<longleftrightarrow>
     (let len = length (snd tv) in
      (fst tv \<in> {NM_LLDP_TYPE_CHASSIS_ID, NM_LLDP_TYPE_PORT_ID} \<longrightarrow> 2 \<le> len \<and> len \<le> 256) \<and>
      (fst tv = NM_LLDP_TYPE_TTL \<longrightarrow> len = 2) \<and>
      (fst tv = NM_LLDP_TYPE_SYSTEM_CAPABILITIES \<longrightarrow> len = 4) \<and>
      (fst tv = NM_LLDP_TYPE_PRIVATE \<longrightarrow> 4 \<le> len))"

definition mud_urls :: "(nat \<times> u8 list) list \<Rightarrow> u8 list list" where
  "mud_urls tlvs =
     map (drop 4) (filter (\<lambda>v. take 4 v = NM_LLDP_OUI_IANA_MUD) (tlv_values NM_LLDP_TYPE_PRIVATE tlvs))"

definition neighbor_of_tlvs :: "(u8 list \<Rightarrow> nat) \<Rightarrow> NMLldpNeighbor \<Rightarrow> (nat \<times> u8 list) list \<Rightarrow> NMLldpNeighbor" where
  "neighbor_of_tlvs utf8_end n tlvs =
     n\<lparr>nb_id := \<lparr>id_chassis_id = first_value (tlv_values NM_LLDP_TYPE_CHASSIS_ID tlvs),
          id_port_id = first_value (tlv_values NM_LLDP_TYPE_PORT_ID tlvs)\<rparr>,
       nb_has_ttl := tlv_values NM_LLDP_TYPE_TTL tlvs \<noteq> [],
       nb_ttl := (case tlv_values NM_LLDP_TYPE_TTL tlvs of [] \<Rightarrow> 0 | v # _ \<Rightarrow> read_be16 v),
       nb_has_capabilities := tlv_values NM_LLDP_TYPE_SYSTEM_CAPABILITIES tlvs \<noteq> [],
       nb_system_capabilities :=
         (case rev (tlv_values NM_LLDP_TYPE_SYSTEM_CAPABILITIES tlvs) of [] \<Rightarrow> 0 | v # _ \<Rightarrow> of_nat (read_be16 v)),
       nb_enabled_capabilities :=
         (case rev (tlv_values NM_LLDP_TYPE_SYSTEM_CAPABILITIES tlvs) of [] \<Rightarrow> 0 | v # _ \<Rightarrow> of_nat (read_be16 (drop 2 v))),
       nb_port_description := lldp_first_string utf8_end (tlv_values NM_LLDP_TYPE_PORT_DESCRIPTION tlvs),
       nb_system_name := lldp_first_string utf8_end (tlv_values NM_LLDP_TYPE_SYSTEM_NAME tlvs),
       nb_system_description := lldp_first_string utf8_end (tlv_values NM_LLDP_TYPE_SYSTEM_DESCRIPTION tlvs),
       nb_mud_url := lldp_first_string utf8_end (mud_urls tlvs)\<rparr>"

lemma parse_string_snoc:
  "parse_string utf8_end (lldp_first_string utf8_end vs) v = lldp_first_string utf8_end (vs @ [v])"
  by (cases "filter lldp_string_ok vs")
    (auto simp: parse_string_def lldp_first_string_def lldp_string_ok_def utf8safe_escape_cp_def
      nm_utils_buf_utf8safe_escape_def Let_def)

lemma lldp_first_string_Nil [simp]: "lldp_first_string utf8_end [] = None"
  by (simp add: lldp_first_string_def)

definition tlvs_consistent :: "(nat \<times> u8 list) list \<Rightarrow> bool" where
  "tlvs_consistent tlvs \<longleftrightarrow> list_all tlv_size_ok tlvs \<and>
     length (tlv_values NM_LLDP_TYPE_CHASSIS_ID tlvs) \<le> 1 \<and> length (tlv_values NM_LLDP_TYPE_PORT_ID tlvs) \<le> 1 \<and>
     length (tlv_values NM_LLDP_TYPE_TTL tlvs) \<le> 1"

lemma first_value_None [simp]: "first_value vs = None \<longleftrightarrow> vs = []"
  and first_value_snoc: "first_value (vs @ [v]) = (if vs = [] then Some v else first_value vs)"
  by (simp_all add: first_value_def split: list.splits)

lemma length_Suc_le_1: "Suc (length xs) \<le> 1 \<longleftrightarrow> xs = []"
  by simp

lemmas lldp_parse_tlv_snoc_defs =
  lldp_parse_tlv_def tlvs_consistent_def tlv_size_ok_def neighbor_of_tlvs_def mud_urls_def parse_string_snoc
  first_value_snoc Let_def

lemma lldp_parse_tlv_snoc:
  assumes "tlvs_consistent tlvs"
  shows "lldp_parse_tlv utf8_end (neighbor_of_tlvs utf8_end n tlvs) k v = Inr n' \<longleftrightarrow>
     tlvs_consistent (tlvs @ [(k, v)]) \<and> n' = neighbor_of_tlvs utf8_end n (tlvs @ [(k, v)])"
proof -
  consider "k = 1" | "k = 2" | "k = 3" | "k = 4" | "k = 5" | "k = 6" | "k = 7" | "k = 127" | "k \<notin> {1, 2, 3, 4, 5, 6, 7, 127}"
    by blast
  then show ?thesis by cases (use assms in \<open>auto simp: lldp_parse_tlv_snoc_defs\<close>)
qed

lemma lldp_parse_tlvs_iff:
  assumes "neighbor_of_tlvs utf8_end n [] = n"
  shows "lldp_parse_tlvs utf8_end n tlvs = Inr n' \<longleftrightarrow> tlvs_consistent tlvs \<and> n' = neighbor_of_tlvs utf8_end n tlvs"
proof (induction tlvs arbitrary: n' rule: rev_induct)
  case Nil
  then show ?case using assms by (auto simp: tlvs_consistent_def)
next
  case (snoc tv tlvs)
  obtain k v where tv: "tv = (k, v)" by (cases tv)
  have c: "tlvs_consistent (tlvs @ [tv]) \<Longrightarrow> tlvs_consistent tlvs"
    by (auto simp: tlvs_consistent_def tv split: if_splits)
  show ?case
  proof (cases "tlvs_consistent tlvs")
    case True
    then have "lldp_parse_tlvs utf8_end n tlvs = Inr (neighbor_of_tlvs utf8_end n tlvs)" using snoc.IH by blast
    then show ?thesis using lldp_parse_tlv_snoc [OF True] by (simp add: tv lldp_parse_tlvs_snoc)
  next
    case False
    then obtain e where "lldp_parse_tlvs utf8_end n tlvs = Inl e" using snoc.IH by (metis sumE)
    then show ?thesis using False c by (auto simp: tv lldp_parse_tlvs_snoc)
  qed
qed

definition lldp_frame :: "u8 list \<Rightarrow> u8 list \<Rightarrow> (nat \<times> u8 list) list \<Rightarrow> u8 list \<Rightarrow> u8 list" where
  "lldp_frame dst src tlvs padding = dst @ src @ [0x88, 0xCC] @ encode_tlvs tlvs padding"

definition lldp_group_address :: "u8 list \<Rightarrow> bool" where
  "lldp_group_address dst \<longleftrightarrow> dst \<in> set (map (\<lambda>b. [0x01, 0x80, 0xC2, 0x00, 0x00, b]) [0x00, 0x03, 0x0E])"

definition tlvs_accepted :: "(nat \<times> u8 list) list \<Rightarrow> bool" where
  "tlvs_accepted tlvs \<longleftrightarrow> list_all tlv_encodable tlvs \<and> list_all tlv_size_ok tlvs \<and>
     length (tlv_values NM_LLDP_TYPE_CHASSIS_ID tlvs) = 1 \<and> length (tlv_values NM_LLDP_TYPE_PORT_ID tlvs) = 1 \<and>
     length (tlv_values NM_LLDP_TYPE_TTL tlvs) = 1"

definition neighbor_of_frame ::
    "(u8 list \<Rightarrow> nat) \<Rightarrow> NMLldpNeighbor \<Rightarrow> u8 list \<Rightarrow> u8 list \<Rightarrow> (nat \<times> u8 list) list \<Rightarrow> NMLldpNeighbor" where
  "neighbor_of_frame utf8_end n dst src tlvs =
     (neighbor_of_tlvs utf8_end n tlvs)
       \<lparr>nb_source_address := src, nb_destination_address := dst, nb_rindex := ETHER_HEADER_SIZE\<rparr>"

lemma length_1_iff: "length xs = 1 \<longleftrightarrow> length xs \<le> 1 \<and> xs \<noteq> []"
  by (cases xs) auto

lemma tlvs_accepted_iff:
  "tlvs_accepted tlvs \<longleftrightarrow> list_all tlv_encodable tlvs \<and> tlvs_consistent tlvs \<and>
     first_value (tlv_values NM_LLDP_TYPE_CHASSIS_ID tlvs) \<noteq> None \<and>
     first_value (tlv_values NM_LLDP_TYPE_PORT_ID tlvs) \<noteq> None \<and> tlv_values NM_LLDP_TYPE_TTL tlvs \<noteq> []"
  unfolding tlvs_accepted_def tlvs_consistent_def length_1_iff first_value_None by blast

lemma lldp_header_frame:
  assumes "lldp_group_address dst" "length src = 6"
  shows "\<not> length (dst @ src @ [0x88, 0xCC] @ p) < 14" "take 2 (drop 12 (dst @ src @ [0x88, 0xCC] @ p)) = [0x88, 0xCC]"
    "take 5 (dst @ src @ [0x88, 0xCC] @ p) = [0x01, 0x80, 0xC2, 0x00, 0x00]"
    "(dst @ src @ [0x88, 0xCC] @ p) ! 5 \<in> {0x00, 0x03, 0x0E}" "take 6 (drop 6 (dst @ src @ [0x88, 0xCC] @ p)) = src"
    "take 6 (dst @ src @ [0x88, 0xCC] @ p) = dst" "drop 14 (dst @ src @ [0x88, 0xCC] @ p) = p"
  using assms by (auto simp: lldp_group_address_def)

lemma lldp_frame_header:
  assumes "\<not> length raw < 14" "take 2 (drop 12 raw) = [0x88, 0xCC]" "take 5 raw = [0x01, 0x80, 0xC2, 0x00, 0x00]"
    "raw ! 5 \<in> {0x00, 0x03, 0x0E}"
  shows "raw = take 6 raw @ take 6 (drop 6 raw) @ [0x88, 0xCC] @ drop 14 raw" "lldp_group_address (take 6 raw)"
    "length (take 6 (drop 6 raw)) = 6"
proof -
  have "raw = take 6 raw @ take 6 (drop 6 raw) @ take 2 (drop 12 raw) @ drop 14 raw"
    using append_take_drop_id [of 6 raw] append_take_drop_id [of 6 "drop 6 raw"] append_take_drop_id [of 2 "drop 12 raw"]
    by simp
  then show "raw = take 6 raw @ take 6 (drop 6 raw) @ [0x88, 0xCC] @ drop 14 raw" using assms(2) by simp
  have "take 6 raw = take 5 raw @ [raw ! 5]" using assms(1) take_Suc_conv_app_nth [of 5 raw] by simp
  then show "lldp_group_address (take 6 raw)" using assms(3,4) by (auto simp: lldp_group_address_def)
  show "length (take 6 (drop 6 raw)) = 6" using assms(1) by simp
qed

lemma neighbor_of_tlvs_addresses:
  "neighbor_of_tlvs utf8_end (n\<lparr>nb_source_address := src, nb_destination_address := dst\<rparr>) tlvs =
     (neighbor_of_tlvs utf8_end n tlvs)\<lparr>nb_source_address := src, nb_destination_address := dst\<rparr>"
  by (simp add: neighbor_of_tlvs_def)

lemma nm_lldp_neighbor_parse_iff:
  assumes "neighbor_of_tlvs utf8_end n [] = n"
  shows "nm_lldp_neighbor_parse utf8_end n = Inr n' \<longleftrightarrow>
    (\<exists>dst src tlvs padding. nb_raw n = lldp_frame dst src tlvs padding \<and> lldp_group_address dst \<and> length src = 6 \<and>
       tlvs_accepted tlvs \<and> n' = neighbor_of_frame utf8_end n dst src tlvs)"
proof
  assume *: "nm_lldp_neighbor_parse utf8_end n = Inr n'"
  define dst src p where "dst = take 6 (nb_raw n)" and "src = take 6 (drop 6 (nb_raw n))" and "p = drop 14 (nb_raw n)"
  define m where "m = n\<lparr>nb_source_address := src, nb_destination_address := dst\<rparr>"
  have hdr: "\<not> length (nb_raw n) < 14" "take 2 (drop 12 (nb_raw n)) = [0x88, 0xCC]"
      "take 5 (nb_raw n) = [0x01, 0x80, 0xC2, 0x00, 0x00]" "nb_raw n ! 5 \<in> {0x00, 0x03, 0x0E}"
    using * by (auto simp: nm_lldp_neighbor_parse_def Let_def split: if_splits)
  then obtain k where loop: "lldp_parse_loop utf8_end m p = Inr k"
      and k: "id_chassis_id (nb_id k) \<noteq> None" "id_port_id (nb_id k) \<noteq> None" "nb_has_ttl k" "n' = k\<lparr>nb_rindex := 14\<rparr>"
    using * unfolding nm_lldp_neighbor_parse_def Let_def m_def dst_def src_def p_def
    by (auto split: if_splits sum.splits)
  obtain tlvs padding where p: "p = encode_tlvs tlvs padding" and enc: "list_all tlv_encodable tlvs"
    using lldp_parse_loop_decoded [OF loop] by blast
  have "neighbor_of_tlvs utf8_end m [] = m" using assms by (simp add: m_def neighbor_of_tlvs_addresses)
  from lldp_parse_tlvs_iff [OF this] have "tlvs_consistent tlvs" "k = neighbor_of_tlvs utf8_end m tlvs"
    using loop by (simp_all add: p lldp_parse_loop_encoded [OF enc])
  then have "tlvs_accepted tlvs" "n' = neighbor_of_frame utf8_end n dst src tlvs"
    using k enc unfolding tlvs_accepted_iff
    by (simp_all add: m_def neighbor_of_tlvs_addresses neighbor_of_frame_def del: not_None_eq)
      (simp_all add: neighbor_of_tlvs_def del: not_None_eq)
  then show "\<exists>dst src tlvs padding. nb_raw n = lldp_frame dst src tlvs padding \<and> lldp_group_address dst \<and>
      length src = 6 \<and> tlvs_accepted tlvs \<and> n' = neighbor_of_frame utf8_end n dst src tlvs"
    using lldp_frame_header [OF hdr] p unfolding lldp_frame_def dst_def src_def p_def by metis
next
  assume "\<exists>dst src tlvs padding. nb_raw n = lldp_frame dst src tlvs padding \<and> lldp_group_address dst \<and>
    length src = 6 \<and> tlvs_accepted tlvs \<and> n' = neighbor_of_frame utf8_end n dst src tlvs"
  then obtain dst src tlvs padding where raw: "nb_raw n = dst @ src @ [0x88, 0xCC] @ encode_tlvs tlvs padding"
      and ok: "lldp_group_address dst" "length src = 6" "tlvs_accepted tlvs"
      and n': "n' = neighbor_of_frame utf8_end n dst src tlvs"
    unfolding lldp_frame_def by blast
  define m where "m = n\<lparr>nb_source_address := src, nb_destination_address := dst\<rparr>"
  have "neighbor_of_tlvs utf8_end m [] = m" using assms by (simp add: m_def neighbor_of_tlvs_addresses)
  moreover have enc: "list_all tlv_encodable tlvs" "tlvs_consistent tlvs" using ok(3) by (auto simp: tlvs_accepted_iff)
  ultimately have loop: "lldp_parse_loop utf8_end m (encode_tlvs tlvs padding) = Inr (neighbor_of_tlvs utf8_end m tlvs)"
    using lldp_parse_tlvs_iff by (simp add: lldp_parse_loop_encoded)
  have "nm_lldp_neighbor_parse utf8_end n =
     (case lldp_parse_loop utf8_end m (encode_tlvs tlvs padding) of
        Inl e \<Rightarrow> Inl e
      | Inr k \<Rightarrow> if id_chassis_id (nb_id k) = None \<or> id_port_id (nb_id k) = None \<or> \<not> nb_has_ttl k then Inl MandatoryMissing
                 else Inr (k\<lparr>nb_rindex := 14\<rparr>))"
    unfolding nm_lldp_neighbor_parse_def Let_def raw lldp_header_frame [OF ok(1,2)] m_def
    using lldp_header_frame [OF ok(1,2)] by simp
  then show "nm_lldp_neighbor_parse utf8_end n = Inr n'"
    using ok(3) unfolding tlvs_accepted_iff loop n' neighbor_of_frame_def
    by (simp add: m_def neighbor_of_tlvs_addresses del: not_None_eq) (simp add: neighbor_of_tlvs_def del: not_None_eq)
qed

lemma nm_lldp_neighbor_parse_frame:
  assumes "neighbor_of_tlvs utf8_end n [] = n" "nb_raw n = lldp_frame dst src tlvs padding" "lldp_group_address dst"
    "length src = 6" "tlvs_accepted tlvs"
  shows "nm_lldp_neighbor_parse utf8_end n = Inr (neighbor_of_frame utf8_end n dst src tlvs)"
  using assms(2-5) unfolding nm_lldp_neighbor_parse_iff [OF assms(1)] by blast

lemma neighbor_of_tlvs_Nil: "neighbor_of_tlvs utf8_end (nm_lldp_neighbor_new raw) [] = nm_lldp_neighbor_new raw"
  by (simp add: neighbor_of_tlvs_def nm_lldp_neighbor_new_def mud_urls_def first_value_def)


text \<open>
  C20. A datagram is accepted if and only if it is an Ethernet frame of the protocol to one of the three group
  addresses whose TLVs are complete and end with an empty end marker, with exactly one chassis identifier, one port
  identifier and one time to live, all with the sizes of the standard; anything may follow as padding. The neighbor
  has the identifiers and the time to live of the frame, the last capabilities, and for every text the first value
  that is not empty and has no inner NUL.
\<close>

theorem lldp_parse_correct:
  "nm_lldp_neighbor_new_from_raw utf8_end raw = Some n \<longleftrightarrow>
    (\<exists>dst src tlvs padding. raw = lldp_frame dst src tlvs padding \<and> lldp_group_address dst \<and> length src = 6 \<and>
       tlvs_accepted tlvs \<and> n = neighbor_of_frame utf8_end (nm_lldp_neighbor_new raw) dst src tlvs)"
proof -
  have "nm_lldp_neighbor_new_from_raw utf8_end raw = Some n \<longleftrightarrow>
      nm_lldp_neighbor_parse utf8_end (nm_lldp_neighbor_new raw) = Inr n"
    by (auto simp: nm_lldp_neighbor_new_from_raw_def split: sum.splits)
  moreover have "nb_raw (nm_lldp_neighbor_new raw) = raw" by (simp add: nm_lldp_neighbor_new_def)
  ultimately show ?thesis by (simp add: nm_lldp_neighbor_parse_iff [OF neighbor_of_tlvs_Nil])
qed


section \<open>Texts of a neighbor are printable\<close>

definition printable :: "u8 \<Rightarrow> bool" where
  "printable c \<longleftrightarrow> 0x20 \<le> c \<and> c < 0x7F"

lemma printable_unat: "printable c \<longleftrightarrow> 0x20 \<le> unat c \<and> unat c < 0x7F"
  by (simp add: printable_def word_le_nat_alt word_less_nat_alt)

lemma printable_octal: "list_all printable (str_buf_append_c_escape_octal ch)"
proof -
  have "printable (0x30 + (w AND 7))" for w :: u8
  proof -
    have "unat (w AND 7) < 8" by (simp add: and_7)
    then show ?thesis using unat_add_u8 [of 48 "w AND 7"] by (simp add: printable_unat)
  qed
  then show ?thesis by (simp add: str_buf_append_c_escape_octal_def) (simp add: printable_def)
qed

lemma printable_escape_char: "list_all printable (utf8safe_escape_char lldp_escape_flags ch)"
proof -
  have "unat ch = 0x7F \<longleftrightarrow> ch = 0x7F" by (simp add: word_unat_eq_iff)
  then have "\<not> nm_ascii_is_ctrl_or_del ch \<Longrightarrow> \<not> nm_ascii_is_non_ascii ch \<Longrightarrow> printable ch"
    by (auto simp: printable_unat nm_ascii_is_ctrl_or_del_def nm_ascii_is_non_ascii_def word_less_nat_alt)
  then show ?thesis
    using printable_octal by (auto simp: utf8safe_escape_char_def utf8safe_special_def lldp_escape_flags_def printable_unat)
qed

lemma printable_escape_loop:
  "flags = lldp_escape_flags \<Longrightarrow> list_all printable (utf8safe_escape_loop utf8_end flags s)"
proof (induction utf8_end flags s rule: utf8safe_escape_loop.induct)
  case (1 utf8_end flags s)
  have "list_all printable (concat (map (utf8safe_escape_char flags) (take (utf8_end s) s)))"
    using printable_escape_char 1(2) by (auto simp: list_all_iff)
  then show ?case
    unfolding utf8safe_escape_loop.simps [of utf8_end flags s] Let_def
    using 1 printable_octal by (auto split: list.splits)
qed

lemma printable_first_string: "pred_option (list_all printable) (lldp_first_string utf8_end vs)"
  by (simp add: lldp_first_string_def printable_escape_loop split: list.splits)

lemma printable_hexstr_lookup: "v < 16 \<Longrightarrow> printable (hexstr_lookup upper_case v)"
  by (auto simp: printable_unat hexstr_lookup_unat word_less_nat_alt)

lemma printable_bin2hexstr:
  "delimiter = 0 \<or> printable delimiter \<Longrightarrow> list_all printable (bin2hexstr_loop delimiter upper_case lead bs)"
  by (induction delimiter upper_case lead bs rule: bin2hexstr_loop.induct)
    (auto simp: hexstr_byte_def Let_def printable_hexstr_lookup)

lemma printable_id_as_string:
  assumes "\<And>family addr. list_all printable (ntop family addr)"
  shows "pred_option (list_all printable) (lldp_id_as_string utf8_end ntop text mac network d)"
  using assms printable_bin2hexstr [of "0x3A"] printable_bin2hexstr [of 0]
  by (auto simp: lldp_id_as_string_def format_mac_address_def format_network_address_def utf8safe_escape_cp_def
    nm_utils_buf_utf8safe_escape_def nm_utils_bin2hexstr_fuller_def Let_def printable_def printable_escape_loop
    split: option.splits)

text \<open>
  C38. Whatever the network sends, all texts of a neighbor that are shown to users and logged are printable ASCII:
  the descriptions, the name, the URL, and the text forms of the identifiers.
\<close>

theorem lldp_texts_printable:
  assumes "\<And>family addr. list_all printable (ntop family addr)" "nm_lldp_neighbor_new_from_raw utf8_end raw = Some n"
  shows "list_all (pred_option (list_all printable))
    [nb_port_description n, nb_system_name n, nb_system_description n, nb_mud_url n,
     nm_lldp_neighbor_get_chassis_id_as_string utf8_end ntop n, nm_lldp_neighbor_get_port_id_as_string utf8_end ntop n]"
proof -
  have "nm_lldp_neighbor_parse utf8_end (nm_lldp_neighbor_new raw) = Inr n"
    using assms(2) by (auto simp: nm_lldp_neighbor_new_from_raw_def split: sum.splits)
  then obtain dst src tlvs where "n = neighbor_of_frame utf8_end (nm_lldp_neighbor_new raw) dst src tlvs"
    unfolding nm_lldp_neighbor_parse_iff [OF neighbor_of_tlvs_Nil] by blast
  then show ?thesis
    using printable_id_as_string [OF assms(1)] printable_first_string
    by (simp add: neighbor_of_frame_def neighbor_of_tlvs_def nm_lldp_neighbor_get_chassis_id_as_string_def
      nm_lldp_neighbor_get_port_id_as_string_def)
qed

definition example_tlvs :: "(nat \<times> u8 list) list" where
  "example_tlvs = [(1, [0x04, 0xA0, 0, 0, 0, 0, 1]), (2, [0x05, 0x65, 0x1B]), (3, [0, 120]), (5, [0x61, 0x0A, 0xFF]), (7, [0, 4, 0, 4])]"

definition example_raw :: "u8 list" where
  "example_raw = lldp_frame [0x01, 0x80, 0xC2, 0x00, 0x00, 0x0E] [2, 0, 0, 0, 0, 1] example_tlvs [0, 0]"

lemma example_tlvs_accepted: "tlvs_accepted example_tlvs"
  by (simp add: tlvs_accepted_def example_tlvs_def tlv_encodable_def tlv_size_ok_def tlv_values_def)

definition example_neighbor :: NMLldpNeighbor where
  "example_neighbor =
     neighbor_of_frame ascii_end (nm_lldp_neighbor_new example_raw) [0x01, 0x80, 0xC2, 0x00, 0x00, 0x0E] [2, 0, 0, 0, 0, 1] example_tlvs"

lemma example_parsed: "nm_lldp_neighbor_new_from_raw ascii_end example_raw = Some example_neighbor"
proof -
  have "nm_lldp_neighbor_parse ascii_end (nm_lldp_neighbor_new example_raw) = Inr example_neighbor"
    unfolding example_neighbor_def
    by (rule nm_lldp_neighbor_parse_frame [OF neighbor_of_tlvs_Nil _ _ _ example_tlvs_accepted])
      (simp_all add: nm_lldp_neighbor_new_def example_raw_def lldp_group_address_def)
  then show ?thesis by (simp add: nm_lldp_neighbor_new_from_raw_def)
qed

theorem lldp_texts_printable_witness:
  "nb_system_name example_neighbor \<noteq> None \<and> list_all (pred_option (list_all printable))
    [nb_port_description example_neighbor, nb_system_name example_neighbor, nb_system_description example_neighbor,
     nb_mud_url example_neighbor, nm_lldp_neighbor_get_chassis_id_as_string ascii_end (\<lambda>_ _. []) example_neighbor,
     nm_lldp_neighbor_get_port_id_as_string ascii_end (\<lambda>_ _. []) example_neighbor]"
proof
  show "nb_system_name example_neighbor \<noteq> None"
    by (simp add: example_neighbor_def neighbor_of_frame_def neighbor_of_tlvs_def example_tlvs_def tlv_values_def
      lldp_first_string_def lldp_string_ok_def)
qed (rule lldp_texts_printable [OF _ example_parsed], simp)

section \<open>Walking over the TLVs\<close>

lemma length_encode_tlv: "length (encode_tlv tv) = 2 + length (snd tv)"
  by (simp add: encode_tlv_def)

lemma tlv_at_index:
  assumes "nb_raw n = prefix @ encode_tlv tv @ rest" "nb_rindex n = length prefix" "tlv_encodable tv"
  shows "NM_LLDP_NEIGHBOR_TLV_TYPE n = fst tv" "NM_LLDP_NEIGHBOR_TLV_LENGTH n = length (snd tv)"
    "take (length (snd tv)) (NM_LLDP_NEIGHBOR_TLV_DATA n) = snd tv"
proof -
  obtain k v where tv: "tv = (k, v)" by (cases tv)
  note hd = tlv_header_decode [OF assms(3) [unfolded tv]]
  show "NM_LLDP_NEIGHBOR_TLV_TYPE n = fst tv" "NM_LLDP_NEIGHBOR_TLV_LENGTH n = length (snd tv)"
    using hd by (simp_all add: NM_LLDP_NEIGHBOR_TLV_TYPE_def NM_LLDP_NEIGHBOR_TLV_LENGTH_def assms(1,2) tv encode_tlv_def nth_append)
  show "take (length (snd tv)) (NM_LLDP_NEIGHBOR_TLV_DATA n) = snd tv"
    by (simp add: NM_LLDP_NEIGHBOR_TLV_DATA_def assms(1,2) tv encode_tlv_def)
qed

lemma tlv_step:
  assumes "nb_raw n = prefix @ encode_tlv tv @ rest" "nb_rindex n = length prefix" "tlv_encodable tv"
  shows "nm_lldp_neighbor_tlv_get_type n = Inr (fst tv)" "nm_lldp_neighbor_tlv_get_raw n = Inr (encode_tlv tv)"
    "nm_lldp_neighbor_tlv_next n = (Inr (rest \<noteq> []), n\<lparr>nb_rindex := length (prefix @ encode_tlv tv)\<rparr>)"
proof -
  have len: "length (nb_raw n) = nb_rindex n + 2 + length (snd tv) + length rest"
    by (simp add: assms(1,2) length_encode_tlv)
  show "nm_lldp_neighbor_tlv_get_type n = Inr (fst tv)"
    using len by (simp add: nm_lldp_neighbor_tlv_get_type_def tlv_at_index [OF assms])
  show "nm_lldp_neighbor_tlv_get_raw n = Inr (encode_tlv tv)"
    using len by (simp add: nm_lldp_neighbor_tlv_get_raw_def tlv_at_index [OF assms])
      (simp add: assms(1,2) length_encode_tlv)
  show "nm_lldp_neighbor_tlv_next n = (Inr (rest \<noteq> []), n\<lparr>nb_rindex := length (prefix @ encode_tlv tv)\<rparr>)"
    using len by (simp add: nm_lldp_neighbor_tlv_next_def tlv_at_index [OF assms] Let_def assms(2) length_encode_tlv)
qed

text \<open>The loop of the callers: rewind, then look at the TLV and go on to the next one.\<close>

fun tlv_walk :: "nat \<Rightarrow> NMLldpNeighbor \<Rightarrow> (lldp_errno + nat) list \<times> (lldp_errno + u8 list) list \<times> NMLldpNeighbor" where
  "tlv_walk 0 n = ([], [], n)"
| "tlv_walk (Suc i) n =
     (let (types, raws, m) = tlv_walk i (snd (nm_lldp_neighbor_tlv_next n))
      in (nm_lldp_neighbor_tlv_get_type n # types, nm_lldp_neighbor_tlv_get_raw n # raws, m))"

lemma tlv_walk_tlvs:
  assumes "nb_raw n = prefix @ concat (map encode_tlv tlvs) @ rest" "nb_rindex n = length prefix" "list_all tlv_encodable tlvs"
  shows "tlv_walk (length tlvs) n =
    (map (\<lambda>tv. Inr (fst tv)) tlvs, map (\<lambda>tv. Inr (encode_tlv tv)) tlvs,
     n\<lparr>nb_rindex := length (prefix @ concat (map encode_tlv tlvs))\<rparr>)"
  using assms
proof (induction tlvs arbitrary: n prefix)
  case Nil
  then show ?case by (cases n) simp
next
  case (Cons tv tlvs)
  have raw: "nb_raw n = prefix @ encode_tlv tv @ concat (map encode_tlv tlvs) @ rest" "tlv_encodable tv"
    using Cons.prems by simp_all
  note step = tlv_step [OF raw(1) Cons.prems(2) raw(2)]
  show ?case
    using Cons.IH [of "n\<lparr>nb_rindex := length (prefix @ encode_tlv tv)\<rparr>" "prefix @ encode_tlv tv"] Cons.prems raw
    by (simp add: step)
qed

text \<open>
  Rewinding an accepted neighbor and going on from TLV to TLV visits exactly the TLVs of the frame, in their
  order and with their data, and then the end marker.
\<close>

theorem lldp_walk_correct:
  assumes "nm_lldp_neighbor_new_from_raw utf8_end raw = Some n"
  shows "\<exists>dst src tlvs padding m. raw = lldp_frame dst src tlvs padding \<and> tlvs_accepted tlvs \<and>
    tlv_walk (length tlvs) (snd (nm_lldp_neighbor_tlv_rewind n)) =
      (map (\<lambda>tv. Inr (fst tv)) tlvs, map (\<lambda>tv. Inr (encode_tlv tv)) tlvs, m) \<and>
    nm_lldp_neighbor_tlv_get_type m = Inr NM_LLDP_TYPE_END"
proof -
  have "nm_lldp_neighbor_parse utf8_end (nm_lldp_neighbor_new raw) = Inr n"
    using assms by (auto simp: nm_lldp_neighbor_new_from_raw_def split: sum.splits)
  then obtain dst src tlvs padding where raw: "raw = lldp_frame dst src tlvs padding" "length src = 6"
      and dst: "lldp_group_address dst" and ok: "tlvs_accepted tlvs"
      and n: "n = neighbor_of_frame utf8_end (nm_lldp_neighbor_new raw) dst src tlvs"
    unfolding nm_lldp_neighbor_parse_iff [OF neighbor_of_tlvs_Nil] by (auto simp: nm_lldp_neighbor_new_def)
  define r where "r = snd (nm_lldp_neighbor_tlv_rewind n)"
  define prefix where "prefix = dst @ src @ [0x88, 0xCC]"
  have prefix: "length prefix = 14" using raw(2) dst by (auto simp: prefix_def lldp_group_address_def)
  have r: "nb_raw r = prefix @ concat (map encode_tlv tlvs) @ [0, 0] @ padding" "nb_rindex r = length prefix"
    by (simp_all add: r_def nm_lldp_neighbor_tlv_rewind_def prefix n)
      (simp add: neighbor_of_frame_def neighbor_of_tlvs_def nm_lldp_neighbor_new_def raw lldp_frame_def encode_tlvs_def prefix_def)
  have enc: "list_all tlv_encodable tlvs" using ok by (simp add: tlvs_accepted_def)
  define m where "m = r\<lparr>nb_rindex := length (prefix @ concat (map encode_tlv tlvs))\<rparr>"
  have "tlv_walk (length tlvs) r = (map (\<lambda>tv. Inr (fst tv)) tlvs, map (\<lambda>tv. Inr (encode_tlv tv)) tlvs, m)"
    unfolding m_def by (rule tlv_walk_tlvs [OF r enc])
  moreover have "nm_lldp_neighbor_tlv_get_type m = Inr 0"
    by (simp add: nm_lldp_neighbor_tlv_get_type_def NM_LLDP_NEIGHBOR_TLV_TYPE_def tlv_type_eq m_def r nth_append)
  ultimately show ?thesis using raw(1) ok unfolding r_def by blast
qed

theorem lldp_walk_correct_witness:
  "\<exists>dst src tlvs padding m. example_raw = lldp_frame dst src tlvs padding \<and> tlvs_accepted tlvs \<and>
    tlv_walk (length tlvs) (snd (nm_lldp_neighbor_tlv_rewind example_neighbor)) =
      (map (\<lambda>tv. Inr (fst tv)) tlvs, map (\<lambda>tv. Inr (encode_tlv tv)) tlvs, m) \<and>
    nm_lldp_neighbor_tlv_get_type m = Inr NM_LLDP_TYPE_END"
  by (rule lldp_walk_correct [OF example_parsed])

end
