(* ===== verification/NM_Object_Queue.thy ===== *)
theory NM_Object_Queue
  imports NM_Prioq
begin

text \<open>
  Priority queues of objects that embed their index variable, as the receiver of LLDP frames and the retry queue of
  \<^verbatim>\<open>nm-l3cfg.c\<close> use them: the data of an item is the address of the object, and the index pointer is a field
  of the same object. The users rely on the contract \<open>object_queue\<close>, which says what an operation does to the set of
  queued objects, also when the priority of a queued object changed before.
\<close>

section \<open>The contract\<close>

locale object_queue =
  fixes inv :: "'q \<Rightarrow> bool"
    and content :: "'q \<Rightarrow> 'd set"
    and order :: "'q \<Rightarrow> 'd \<Rightarrow> 'd \<Rightarrow> int"
    and set_order :: "('d \<Rightarrow> 'd \<Rightarrow> int) \<Rightarrow> 'q \<Rightarrow> 'q"
    and size :: "'q \<Rightarrow> nat"
    and peek :: "'q \<Rightarrow> 'd option"
    and put :: "'q \<Rightarrow> 'd \<Rightarrow> 'q"
    and remove :: "'q \<Rightarrow> 'd \<Rightarrow> 'q"
    and reshuffle :: "'q \<Rightarrow> 'd \<Rightarrow> 'q"
  assumes size_content: "inv q \<Longrightarrow> size q = card (content q)"
    and finite_content: "inv q \<Longrightarrow> finite (content q)"
    and order_ok: "inv q \<Longrightarrow> compare_ok (order q)"
    and peek_empty: "inv q \<Longrightarrow> peek q = None \<longleftrightarrow> content q = {}"
    and peek_least: "inv q \<Longrightarrow> peek q = Some d \<Longrightarrow> d \<in> content q \<and> (\<forall>x\<in>content q. order q d x \<le> 0)"
    and put_spec: "inv q \<Longrightarrow> d \<notin> content q \<Longrightarrow>
      inv (put q d) \<and> content (put q d) = insert d (content q) \<and> order (put q d) = order q"
    and remove_spec: "inv q \<Longrightarrow> d \<in> content q \<Longrightarrow>
      inv (remove q d) \<and> content (remove q d) = content q - {d} \<and> order (remove q d) = order q"
    and set_order_spec: "inv q \<Longrightarrow> compare_ok f \<Longrightarrow> (\<And>x y. x \<in> content q \<Longrightarrow> y \<in> content q \<Longrightarrow> f x y = order q x y) \<Longrightarrow>
      inv (set_order f q) \<and> content (set_order f q) = content q \<and> order (set_order f q) = f"
    and reshuffle_spec: "inv q \<Longrightarrow> d \<in> content q \<Longrightarrow> compare_ok f \<Longrightarrow>
      (\<And>x y. x \<in> content q - {d} \<Longrightarrow> y \<in> content q - {d} \<Longrightarrow> f x y = order q x y) \<Longrightarrow>
      inv (reshuffle (set_order f q) d) \<and> content (reshuffle (set_order f q) d) = content q \<and>
      order (reshuffle (set_order f q) d) = f"

context object_queue
begin

lemma remove_smaller:
  assumes "inv q" "d \<in> content q"
  shows "size (remove q d) < size q"
  using assms remove_spec [OF assms] card_Diff1_less [OF finite_content [OF assms(1)] assms(2)] by (simp add: size_content)

lemma peek_Some: "inv q \<Longrightarrow> content q \<noteq> {} \<Longrightarrow> \<exists>d. peek q = Some d"
  using peek_empty by blast

end

section \<open>Queues of objects\<close>

definition objects_embed_index :: "('d, 'd) NMPrioq \<Rightarrow> bool" where
  "objects_embed_index q \<longleftrightarrow> list_all (\<lambda>i. idx i = Some (data i)) (items q)"

definition objq_ok :: "('d, 'd) NMPrioq \<Rightarrow> bool" where
  "objq_ok q \<longleftrightarrow> prioq_ok q \<and> objects_embed_index q"

definition objq_content :: "('d, 'd) NMPrioq \<Rightarrow> 'd set" where
  "objq_content q = data ` set (items q)"

definition objq_order :: "('d, 'p) NMPrioq \<Rightarrow> 'd \<Rightarrow> 'd \<Rightarrow> int" where
  "objq_order q = (case compare_func q of None \<Rightarrow> (\<lambda>_ _. 0) | Some f \<Rightarrow> f)"

definition objq_set_order :: "('d \<Rightarrow> 'd \<Rightarrow> int) \<Rightarrow> ('d, 'p) NMPrioq \<Rightarrow> ('d, 'p) NMPrioq" where
  "objq_set_order f q = q\<lparr>compare_func := Some f\<rparr>"

lemma objq_set_order_simps [simp]:
  "items (objq_set_order f q) = items q" "idx_mem (objq_set_order f q) = idx_mem q"
  "n_items (objq_set_order f q) = n_items q" "compare_func (objq_set_order f q) = Some f"
  by (simp_all add: objq_set_order_def n_items_def)

definition objq_put :: "('d, 'd) NMPrioq \<Rightarrow> 'd \<Rightarrow> ('d, 'd) NMPrioq" where
  "objq_put q d = nm_prioq_put q d (Some d)"

definition objq_remove :: "('d, 'd) NMPrioq \<Rightarrow> 'd \<Rightarrow> ('d, 'd) NMPrioq" where
  "objq_remove q d = snd (nm_prioq_remove q d (Some d))"

definition objq_reshuffle :: "('d, 'd) NMPrioq \<Rightarrow> 'd \<Rightarrow> ('d, 'd) NMPrioq" where
  "objq_reshuffle q d = snd (nm_prioq_reshuffle q d (Some d))"

lemma idx_ptrs_embedded: "objects_embed_index q \<Longrightarrow> idx_ptrs q = objq_content q"
  by (force simp: objects_embed_index_def idx_ptrs_def objq_content_def list_all_iff)

lemma objq_distinct:
  assumes "objq_ok q"
  shows "distinct (map data (items q))"
proof -
  have "i = j" if "i < n_items q" "j < n_items q" "data (items q ! i) = data (items q ! j)" for i j
  proof -
    have "idx (items q ! i) = Some (data (items q ! i))" "idx (items q ! j) = Some (data (items q ! j))"
      using assms that by (simp_all add: objq_ok_def objects_embed_index_def list_all_length n_items_def)
    then show ?thesis using assms that by (metis idx_ok_iff objq_ok_def prioq_okD)
  qed
  then show ?thesis by (auto simp: distinct_conv_nth n_items_def)
qed

lemma find_object:
  assumes "objq_ok q" "d \<in> objq_content q"
  obtains i where "find_item q d (Some d) = Some i" "i < n_items q" "items q ! i = \<lparr>data = d, idx = Some d\<rparr>"
proof -
  obtain i where i: "i < n_items q" "data (items q ! i) = d"
    using assms(2) by (auto simp: objq_content_def in_set_conv_nth n_items_def)
  have e: "idx (items q ! i) = Some d"
    using assms(1) i by (auto simp: objq_ok_def objects_embed_index_def list_all_length n_items_def)
  then have "idx_mem q d = i" using assms(1) i(1) prioq_okD [of q] by (auto simp: objq_ok_def idx_ok_iff)
  then have "find_item q d (Some d) = Some i" using i by (simp add: find_item_def)
  moreover have "items q ! i = \<lparr>data = d, idx = Some d\<rparr>" using i(2) e by (cases "items q ! i") simp
  ultimately show ?thesis using that i(1) by blast
qed

lemma objects_embed_index_mset:
  "mset (items q') = mset (items q) \<Longrightarrow> objects_embed_index q' = objects_embed_index q"
  "mset (items q') = mset (items q) \<Longrightarrow> objq_content q' = objq_content q"
  unfolding objects_embed_index_def objq_content_def list_all_iff by (metis set_mset_mset)+

lemma put_items:
  "mset (items (nm_prioq_put q d p)) = add_mset \<lparr>data = d, idx = p\<rparr> (mset (items q))"
proof -
  have "same_content (appended q d p) (nm_prioq_put q d p)"
    unfolding nm_prioq_put_eq by (rule shuffle_up_content) simp
  then show ?thesis by (simp add: same_content_def)
qed

lemma remove_items:
  assumes "prioq_ok q" "i < n_items q"
  shows "add_mset (items q ! i) (mset (items (remove_item q i))) = mset (items q)"
proof (cases "i = n_items q - 1")
  case True
  then show ?thesis using assms truncated_props(4) [of q] by (simp add: remove_item_eq)
next
  case False
  then have il: "i < n_items q - 1" using assms(2) by linarith
  obtain f where f: "compare_func q = Some f" "compare_ok f" "heap_ok q" using prioq_okD [OF assms(1)] by blast
  have "same_content (replaced q i) (reshuffle_item (replaced q i) i)"
    using reshuffle_item_spec [OF replaced_hole [OF il f(3,1,2)]] il f by simp
  then have "mset (items (remove_item q i)) = mset (items (replaced q i))"
    using False by (simp add: remove_item_eq same_content_def)
  then show ?thesis using mset_replaced [OF il] by simp
qed

lemma objq_remove_spec:
  assumes "objq_ok q" "d \<in> objq_content q"
  shows "objq_ok (objq_remove q d)" "objq_content (objq_remove q d) = objq_content q - {d}"
    "compare_func (objq_remove q d) = compare_func q"
proof -
  obtain i where i: "find_item q d (Some d) = Some i" "i < n_items q" "items q ! i = \<lparr>data = d, idx = Some d\<rparr>"
    by (rule find_object [OF assms])
  have r: "objq_remove q d = remove_item q i" by (simp add: objq_remove_def nm_prioq_remove_def i(1))
  have ok: "prioq_ok q" using assms(1) by (simp add: objq_ok_def)
  note it = remove_items [OF ok i(2), symmetric, unfolded i(3)]
  then have set: "set (items q) = insert \<lparr>data = d, idx = Some d\<rparr> (set (items (remove_item q i)))"
    by (metis set_mset_add_mset_insert set_mset_mset)
  show "objq_ok (objq_remove q d)"
    using assms(1) remove_item_spec(1) [OF ok i(2)] set by (simp add: r objq_ok_def objects_embed_index_def list_all_iff)
  have "mset (map data (items q)) = add_mset d (mset (map data (items (remove_item q i))))" using it by simp
  then have "d \<notin> set (map data (items (remove_item q i)))"
    using objq_distinct [OF assms(1)] by (metis distinct.simps(2) mset.simps(2) mset_eq_imp_distinct_iff)
  then show "objq_content (objq_remove q d) = objq_content q - {d}" by (auto simp: r objq_content_def set)
  show "compare_func (objq_remove q d) = compare_func q" using remove_item_spec(4) [OF ok i(2)] by (simp add: r)
qed

lemma objq_reshuffle_spec:
  assumes "objq_ok q" "d \<in> objq_content q" "compare_ok f"
    and same: "\<And>x y. x \<in> objq_content q - {d} \<Longrightarrow> y \<in> objq_content q - {d} \<Longrightarrow> f x y = objq_order q x y"
  shows "objq_ok (objq_reshuffle (objq_set_order f q) d)"
    "objq_content (objq_reshuffle (objq_set_order f q) d) = objq_content q"
    "compare_func (objq_reshuffle (objq_set_order f q) d) = Some f"
proof -
  obtain i where i: "find_item q d (Some d) = Some i" "i < n_items q" "items q ! i = \<lparr>data = d, idx = Some d\<rparr>"
    by (rule find_object [OF assms(1,2)])
  let ?q1 = "objq_set_order f q"
  have n1: "n_items ?q1 = n_items q" by (simp add: n_items_def objq_set_order_def)
  have ok: "prioq_ok q" and emb: "objects_embed_index q" using assms(1) by (simp_all add: objq_ok_def)
  have "find_item ?q1 d (Some d) = Some i"
    using i(1) by (auto simp: find_item_def n_items_def objq_set_order_def split: if_splits)
  then have r: "objq_reshuffle ?q1 d = reshuffle_item ?q1 i" by (simp add: objq_reshuffle_def nm_prioq_reshuffle_def)
  have "data (items q ! a) \<in> objq_content q - {d}" if "a < n_items q" "a \<noteq> i" for a
  proof -
    have "data (items q ! a) \<noteq> data (items q ! i)"
      using that i(2) objq_distinct [OF assms(1)] by (auto simp: n_items_def distinct_conv_nth)
    then show ?thesis using that i(3) by (simp add: objq_content_def n_items_def)
  qed
  then have eq: "compare ?q1 a b = compare q a b" if "a < n_items q" "b < n_items q" "a \<noteq> i" "b \<noteq> i" for a b
    using that same prioq_okD [OF ok] by (auto simp: compare_def objq_set_order_def objq_order_def)
  have "hole ?q1 i" using reorder_hole [OF ok i(2) eq [unfolded objq_set_order_def]] by (simp add: objq_set_order_def)
  then have sc: "same_content ?q1 (reshuffle_item ?q1 i)" and hp: "heap_ok (reshuffle_item ?q1 i)"
    using reshuffle_item_spec [of ?q1 i f] i(2) n1 assms(3) by (simp_all add: objq_set_order_def)
  have "idx_ok ?q1" using prioq_okD [OF ok] by (auto simp: idx_ok_iff objq_set_order_def n_items_def)
  then have "prioq_ok (reshuffle_item ?q1 i)"
    using prioq_ok_same_content [OF sc _ _ assms(3) hp] by (simp add: objq_set_order_def)
  moreover have m: "mset (items (reshuffle_item ?q1 i)) = mset (items q)"
    using sc by (simp add: same_content_def objq_set_order_def)
  ultimately show "objq_ok (objq_reshuffle ?q1 d)" "objq_content (objq_reshuffle ?q1 d) = objq_content q"
    using emb objects_embed_index_mset [OF m] by (simp_all add: r objq_ok_def)
  show "compare_func (objq_reshuffle ?q1 d) = Some f" using sc by (simp add: r same_content_def)
qed

interpretation objq: object_queue objq_ok objq_content objq_order objq_set_order nm_prioq_size nm_prioq_peek
  objq_put objq_remove objq_reshuffle
proof
  fix q :: "('a, 'a) NMPrioq" and d :: 'a and f :: "'a \<Rightarrow> 'a \<Rightarrow> int"
  assume q: "objq_ok q"
  then have ok: "prioq_ok q" by (simp add: objq_ok_def)
  then obtain g where g: "compare_func q = Some g" "compare_ok g" "heap_ok q" "idx_ok q" using prioq_okD by blast
  show "nm_prioq_size q = card (objq_content q)"
    using objq_distinct [OF q] distinct_card by (fastforce simp: nm_prioq_size_def n_items_def objq_content_def)
  show "finite (objq_content q)" by (simp add: objq_content_def)
  show "compare_ok (objq_order q)" using g by (simp add: objq_order_def)
  show "nm_prioq_peek q = None \<longleftrightarrow> objq_content q = {}"
    by (simp add: nm_prioq_peek_def nm_prioq_peek_by_index_def objq_content_def n_items_def)
  show "d \<in> objq_content q \<and> (\<forall>x\<in>objq_content q. objq_order q d x \<le> 0)" if "nm_prioq_peek q = Some d"
  proof -
    have d: "0 < n_items q" "data (items q ! 0) = d"
      using that by (auto simp: nm_prioq_peek_def nm_prioq_peek_by_index_def split: if_splits)
    have "objq_order q d x \<le> 0" if "x \<in> objq_content q" for x
    proof -
      obtain i where "i < n_items q" "x = data (items q ! i)"
        using \<open>x \<in> objq_content q\<close> by (auto simp: objq_content_def in_set_conv_nth n_items_def)
      then show ?thesis using heap_root_least [OF g(3,1,2)] d g(1) by (simp add: compare_func_cmp objq_order_def)
    qed
    then show ?thesis using d by (auto simp: objq_content_def n_items_def)
  qed
  show "objq_ok (objq_put q d) \<and> objq_content (objq_put q d) = insert d (objq_content q) \<and>
      objq_order (objq_put q d) = objq_order q" if "d \<notin> objq_content q"
  proof -
    have "d \<notin> idx_ptrs q" using that q idx_ptrs_embedded by (auto simp: objq_ok_def)
    then have "prioq_ok (nm_prioq_put q d (Some d))" "compare_func (nm_prioq_put q d (Some d)) = compare_func q"
      using nm_prioq_put_spec [OF ok, of "Some d" d] by simp_all
    note put = this
    have "set (items (objq_put q d)) = insert \<lparr>data = d, idx = Some d\<rparr> (set (items q))"
      unfolding objq_put_def using put_items [of q d "Some d"] by (metis set_mset_add_mset_insert set_mset_mset)
    then show ?thesis
      using q put by (auto simp: objq_ok_def objects_embed_index_def list_all_iff objq_content_def objq_order_def objq_put_def)
  qed
  show "objq_ok (objq_remove q d) \<and> objq_content (objq_remove q d) = objq_content q - {d} \<and>
      objq_order (objq_remove q d) = objq_order q" if "d \<in> objq_content q"
    using objq_remove_spec [OF q that] by (simp add: objq_order_def)
  show "objq_ok (objq_set_order f q) \<and> objq_content (objq_set_order f q) = objq_content q \<and>
      objq_order (objq_set_order f q) = f"
    if "compare_ok f" "\<And>x y. x \<in> objq_content q \<Longrightarrow> y \<in> objq_content q \<Longrightarrow> f x y = objq_order q x y"
  proof -
    have "data (items q ! a) \<in> objq_content q" if "a < n_items q" for a
      using that by (auto simp: objq_content_def n_items_def)
    then have "compare (objq_set_order f q) a b = compare q a b" if "a < n_items q" "b < n_items q" for a b
      using that \<open>\<And>x y. x \<in> objq_content q \<Longrightarrow> y \<in> objq_content q \<Longrightarrow> f x y = objq_order q x y\<close> g(1)
      by (simp add: compare_def objq_set_order_def objq_order_def)
    then have "heap_ok (objq_set_order f q)"
      using g(3) le_less_trans [OF parent_le] by (simp add: heap_ok_iff edge_ok_def)
    moreover have "idx_ok (objq_set_order f q)" using g(4) by (simp add: idx_ok_iff)
    ultimately show ?thesis
      using q that(1) by (simp add: objq_ok_def prioq_ok_def objects_embed_index_def objq_content_def objq_order_def)
  qed
  show "objq_ok (objq_reshuffle (objq_set_order f q) d) \<and>
      objq_content (objq_reshuffle (objq_set_order f q) d) = objq_content q \<and>
      objq_order (objq_reshuffle (objq_set_order f q) d) = f"
    if "d \<in> objq_content q" "compare_ok f"
      "\<And>x y. x \<in> objq_content q - {d} \<Longrightarrow> y \<in> objq_content q - {d} \<Longrightarrow> f x y = objq_order q x y"
    using objq_reshuffle_spec [OF q that] by (simp add: objq_order_def)
qed

end
