(* ===== verification/NM_Time.thy ===== *)
theory NM_Time
  imports NM_Prelude
begin

text \<open>
  Time stamps (\<^verbatim>\<open>libnm-glib-aux/nm-time-utils.c\<close>): the monotonic clock that counts from one second
  before it was used first, its conversion to the clock of the kernel and back, and the mapping of times between
  two clocks. The readings of the kernel's clocks are arguments, and so is the offset that the first use computes.
\<close>

record timespec =
  tv_sec :: int
  tv_nsec :: int

abbreviation NM_UTILS_NSEC_PER_SEC :: int where "NM_UTILS_NSEC_PER_SEC \<equiv> 1000000000"
abbreviation NM_UTILS_USEC_PER_SEC :: int where "NM_UTILS_USEC_PER_SEC \<equiv> 1000000"

definition timespec_to_xsec :: "timespec \<Rightarrow> int \<Rightarrow> int" where
  "timespec_to_xsec ts xsec_per_sec =
     (if tv_sec ts < 0 \<or> tv_nsec ts < 0 then G_MAXINT64
      else if tv_sec ts > G_MAXINT64 \<or> tv_nsec ts > G_MAXINT64 \<or>
              tv_sec ts \<ge> c_div (G_MAXINT64 - tv_nsec ts) xsec_per_sec
      then G_MAXINT64
      else tv_sec ts * xsec_per_sec + c_div (tv_nsec ts) (c_div NM_UTILS_NSEC_PER_SEC xsec_per_sec))"

definition nm_utils_timespec_to_usec :: "timespec \<Rightarrow> int" where
  "nm_utils_timespec_to_usec ts = timespec_to_xsec ts NM_UTILS_USEC_PER_SEC"

section \<open>The monotonic clock\<close>

definition t_init_global_state :: "timespec \<Rightarrow> int" where
  "t_init_global_state tp = - tv_sec tp + 1"

definition nm_utils_get_monotonic_timestamp_nsec :: "int \<Rightarrow> timespec \<Rightarrow> int" where
  "nm_utils_get_monotonic_timestamp_nsec offset_sec tp =
     (tv_sec tp + offset_sec) * NM_UTILS_NSEC_PER_SEC + tv_nsec tp"

definition nm_utils_get_monotonic_timestamp_usec :: "int \<Rightarrow> timespec \<Rightarrow> int" where
  "nm_utils_get_monotonic_timestamp_usec offset_sec tp =
     (tv_sec tp + offset_sec) * 1000000 + c_div (tv_nsec tp) (c_div NM_UTILS_NSEC_PER_SEC 1000000)"

definition nm_utils_get_monotonic_timestamp_msec :: "int \<Rightarrow> timespec \<Rightarrow> int" where
  "nm_utils_get_monotonic_timestamp_msec offset_sec tp =
     (tv_sec tp + offset_sec) * 1000 + c_div (tv_nsec tp) (c_div NM_UTILS_NSEC_PER_SEC 1000)"

definition nm_utils_get_monotonic_timestamp_sec :: "int \<Rightarrow> timespec \<Rightarrow> int" where
  "nm_utils_get_monotonic_timestamp_sec offset_sec tp = gint32 (tv_sec tp + offset_sec)"

definition nsec_per_tick_ok :: "int \<Rightarrow> bool" where
  "nsec_per_tick_ok tick \<longleftrightarrow> tick = 1 \<or> (0 < tick \<and> tick \<le> NM_UTILS_NSEC_PER_SEC \<and> tick mod 10 = 0)"

definition nm_utils_monotonic_timestamp_as_boottime :: "int \<Rightarrow> int \<Rightarrow> int \<Rightarrow> int" where
  "nm_utils_monotonic_timestamp_as_boottime offset_sec timestamp tick =
     (if \<not> nsec_per_tick_ok tick then - 1
      else
        (let offset = offset_sec * c_div NM_UTILS_NSEC_PER_SEC tick in
         if \<not> timestamp < G_MAXINT64 + offset then G_MAXINT64 else timestamp - offset))"

definition nm_utils_monotonic_timestamp_from_boottime :: "int \<Rightarrow> int \<Rightarrow> int \<Rightarrow> int" where
  "nm_utils_monotonic_timestamp_from_boottime offset_sec boottime tick =
     (if \<not> nsec_per_tick_ok tick then - 1
      else
        (let offset = offset_sec * c_div NM_UTILS_NSEC_PER_SEC tick in
         if boottime \<ge> G_MAXINT64 then G_MAXINT64 else boottime + offset))"

definition nm_time_map_clock :: "int \<Rightarrow> int \<Rightarrow> int \<Rightarrow> int" where
  "nm_time_map_clock from_time from_base to_base =
     (if from_time \<ge> from_base then
        (let delta = from_time - from_base in
         if to_base \<ge> G_MAXINT64 - delta then G_MAXINT64 else to_base + delta)
      else
        (let delta = from_base - from_time in
         if to_base \<le> G_MININT64 + delta then G_MININT64 else to_base - delta))"

section \<open>Properties\<close>

text \<open>A time that is mapped to another clock is limited to the range of the type.\<close>

lemma map_clock_clamped:
  "to_base \<in> {G_MININT64..G_MAXINT64} \<Longrightarrow>
   nm_time_map_clock t from_base to_base = max G_MININT64 (min G_MAXINT64 (t - from_base + to_base))"
  by (auto simp: nm_time_map_clock_def Let_def)

definition timespec_ok :: "timespec \<Rightarrow> bool" where
  "timespec_ok tp \<longleftrightarrow> 0 \<le> tv_sec tp \<and> 0 \<le> tv_nsec tp \<and> tv_nsec tp < NM_UTILS_NSEC_PER_SEC"

definition timespec_le :: "timespec \<Rightarrow> timespec \<Rightarrow> bool" where
  "timespec_le a b \<longleftrightarrow> tv_sec a < tv_sec b \<or> tv_sec a = tv_sec b \<and> tv_nsec a \<le> tv_nsec b"

text \<open>
  The time stamps are positive from the first use on and in every unit never go backwards; the units are the
  same time, rounded down; and the time of the kernel's clock is the one the conversion gives, from which the
  time stamp is got back. For the conversion the clock of the kernel must count at least one second, otherwise the
  offset is positive.
\<close>

theorem monotonic_timestamp_correct:
  assumes "timespec_ok tp0" "timespec_ok tp" "timespec_ok tp'" "timespec_le tp0 tp" "timespec_le tp tp'"
    and "1 \<le> tv_sec tp0" "tv_sec tp < 9000000000"
  shows "(let off = t_init_global_state tp0; nsec = nm_utils_get_monotonic_timestamp_nsec off tp in
    0 < nm_utils_get_monotonic_timestamp_sec off tp0 \<and>
    NM_UTILS_NSEC_PER_SEC \<le> nsec \<and> nsec \<le> nm_utils_get_monotonic_timestamp_nsec off tp' \<and>
    nm_utils_get_monotonic_timestamp_usec off tp = nsec div 1000 \<and>
    nm_utils_get_monotonic_timestamp_msec off tp = nsec div 1000000 \<and>
    nm_utils_monotonic_timestamp_as_boottime off nsec 1 = timespec_to_xsec tp NM_UTILS_NSEC_PER_SEC \<and>
    nm_utils_monotonic_timestamp_from_boottime off (timespec_to_xsec tp NM_UTILS_NSEC_PER_SEC) 1 = nsec)"
proof -
  define s n where "s = tv_sec tp + (1 - tv_sec tp0)" and "n = tv_nsec tp"
  have range: "1 \<le> s" "0 \<le> n" "n < 1000000000" "s < 9000000000"
    using assms by (auto simp: s_def n_def timespec_ok_def timespec_le_def)
  have nsec: "nm_utils_get_monotonic_timestamp_nsec (t_init_global_state tp0) tp = s * 1000000000 + n"
    by (simp add: nm_utils_get_monotonic_timestamp_nsec_def t_init_global_state_def s_def n_def)
  have "tv_sec tp < (G_MAXINT64 - n) div 1000000000" using assms(7) range by linarith
  then have boot: "timespec_to_xsec tp NM_UTILS_NSEC_PER_SEC = tv_sec tp * 1000000000 + n"
    using assms(2,7) range by (simp add: timespec_to_xsec_def timespec_ok_def n_def)
  have units: "nm_utils_get_monotonic_timestamp_usec (t_init_global_state tp0) tp = (s * 1000000000 + n) div 1000"
    "nm_utils_get_monotonic_timestamp_msec (t_init_global_state tp0) tp = (s * 1000000000 + n) div 1000000"
    using range by (simp_all add: nm_utils_get_monotonic_timestamp_usec_def nm_utils_get_monotonic_timestamp_msec_def
      t_init_global_state_def s_def n_def)
  have conv: "nm_utils_monotonic_timestamp_as_boottime (t_init_global_state tp0) (s * 1000000000 + n) 1 =
      tv_sec tp * 1000000000 + n"
    "nm_utils_monotonic_timestamp_from_boottime (t_init_global_state tp0) (tv_sec tp * 1000000000 + n) 1 =
      s * 1000000000 + n"
    using assms(7) range
    by (simp_all add: nm_utils_monotonic_timestamp_as_boottime_def nm_utils_monotonic_timestamp_from_boottime_def
      nsec_per_tick_ok_def t_init_global_state_def s_def Let_def)
  have "s * 1000000000 + n \<le> nm_utils_get_monotonic_timestamp_nsec (t_init_global_state tp0) tp'"
    using assms(3,5) range
    by (auto simp: nm_utils_get_monotonic_timestamp_nsec_def t_init_global_state_def s_def n_def timespec_le_def timespec_ok_def)
  moreover have "0 < nm_utils_get_monotonic_timestamp_sec (t_init_global_state tp0) tp0"
    by (simp add: nm_utils_get_monotonic_timestamp_sec_def t_init_global_state_def)
  ultimately show ?thesis using range by (simp add: Let_def nsec boot units conv)
qed

theorem monotonic_timestamp_correct_witness:
  "let tp = \<lparr>tv_sec = 100, tv_nsec = 5\<rparr>; off = t_init_global_state \<lparr>tv_sec = 98, tv_nsec = 999999999\<rparr>;
       nsec = nm_utils_get_monotonic_timestamp_nsec off tp in
    0 < nm_utils_get_monotonic_timestamp_sec off \<lparr>tv_sec = 98, tv_nsec = 999999999\<rparr> \<and>
    NM_UTILS_NSEC_PER_SEC \<le> nsec \<and> nsec \<le> nm_utils_get_monotonic_timestamp_nsec off \<lparr>tv_sec = 101, tv_nsec = 0\<rparr> \<and>
    nm_utils_get_monotonic_timestamp_usec off tp = nsec div 1000 \<and>
    nm_utils_get_monotonic_timestamp_msec off tp = nsec div 1000000 \<and>
    nm_utils_monotonic_timestamp_as_boottime off nsec 1 = timespec_to_xsec tp NM_UTILS_NSEC_PER_SEC \<and>
    nm_utils_monotonic_timestamp_from_boottime off (timespec_to_xsec tp NM_UTILS_NSEC_PER_SEC) 1 = nsec"
  unfolding Let_def [of "\<lparr>tv_sec = 100, tv_nsec = 5\<rparr>"]
  by (rule monotonic_timestamp_correct) (simp_all add: timespec_ok_def timespec_le_def)

end
