(* ===== verification/NM_Lldp_Rx.thy ===== *)
theory NM_Lldp_Rx
  imports NM_Lldp_Neighbor NM_Object_Queue NM_Time "HOL-Library.While_Combinator"
begin

text \<open>
  The receiver of LLDP frames (\<^verbatim>\<open>libnm-lldp/nm-lldp-rx.c\<close>): the table of the neighbors that were
  announced, the queue of their expiry times, the timer, and the events that the user of the receiver is told.
  Neighbors are objects in memory: the table and the queue hold addresses, the field \<open>rx_mem\<close> is the memory. The
  queue compares the expiry times that are in the memory, so every write of a neighbor (\<open>neighbor_set\<close>) also renews
  the comparison function of the queue. The events are the calls of the callback, with the neighbor as it is at that
  moment; the callback does not change the receiver. The raw socket is outside of the model: its datagrams, the
  times and the addresses of new objects are arguments. One operation takes one reading of the monotonic clock.
\<close>

section \<open>Data\<close>

type_synonym nptr = nat

datatype NMLldpRXEvent = NM_LLDP_RX_EVENT_ADDED | NM_LLDP_RX_EVENT_REMOVED | NM_LLDP_RX_EVENT_UPDATED | NM_LLDP_RX_EVENT_REFRESHED

record NMLldpRXConfig =
  neighbors_max :: nat
  filter_address :: "u8 list"
  capability_mask :: u16
  has_capability_mask :: bool

record NMLldpRX =
  rx_fd :: int
  rx_config :: NMLldpRXConfig
  rx_timer_event_source :: "int option"
  neighbor_by_id :: "nptr list"
  neighbor_by_expiry :: "(nptr, nptr) NMPrioq"
  rx_mem :: "nptr \<Rightarrow> NMLldpNeighbor"
  rx_events :: "(NMLldpRXEvent \<times> NMLldpNeighbor) list"

definition expiry_order :: "(nptr \<Rightarrow> NMLldpNeighbor) \<Rightarrow> nptr \<Rightarrow> nptr \<Rightarrow> int" where
  "expiry_order mem a b = nm_lldp_neighbor_prioq_compare_func (mem a) (mem b)"

definition neighbor_set :: "nptr \<Rightarrow> NMLldpNeighbor \<Rightarrow> NMLldpRX \<Rightarrow> NMLldpRX" where
  "neighbor_set p n rx =
     (let mem = (rx_mem rx)(p := n)
      in rx\<lparr>rx_mem := mem, neighbor_by_expiry := objq_set_order (expiry_order mem) (neighbor_by_expiry rx)\<rparr>)"

definition lldp_rx_callback :: "NMLldpRXEvent \<Rightarrow> nptr \<Rightarrow> NMLldpRX \<Rightarrow> NMLldpRX" where
  "lldp_rx_callback event p rx = rx\<lparr>rx_events := rx_events rx @ [(event, rx_mem rx p)]\<rparr>"

definition by_id_lookup :: "NMLldpNeighborID \<Rightarrow> NMLldpRX \<Rightarrow> nptr option" where
  "by_id_lookup i rx = List.find (\<lambda>k. nm_lldp_neighbor_id_equal (nb_id (rx_mem rx k)) i) (neighbor_by_id rx)"

section \<open>Operations\<close>

definition nm_lldp_neighbor_unlink :: "nptr \<Rightarrow> NMLldpRX \<Rightarrow> NMLldpRX" where
  "nm_lldp_neighbor_unlink p rx =
     (let n = rx_mem rx p in
      if \<not> nb_linked n then rx
      else
        (let by_id =
               (case by_id_lookup (nb_id n) rx of
                  None \<Rightarrow> neighbor_by_id rx
                | Some old_key \<Rightarrow>
                    (let stolen = remove1 old_key (neighbor_by_id rx)
                     in if old_key \<noteq> p then stolen @ [old_key] else stolen));
             rx = rx\<lparr>neighbor_by_id := by_id, neighbor_by_expiry := objq_remove (neighbor_by_expiry rx) p\<rparr>
         in neighbor_set p (n\<lparr>nb_linked := False\<rparr>) rx))"

definition make_space_cond :: "nat \<Rightarrow> int \<Rightarrow> NMLldpRX \<times> bool \<Rightarrow> bool" where
  "make_space_cond limit now_usec s =
     (case nm_prioq_peek (neighbor_by_expiry (fst s)) of
        None \<Rightarrow> False
      | Some p \<Rightarrow> nm_prioq_size (neighbor_by_expiry (fst s)) > limit \<or> \<not> nb_until_usec (rx_mem (fst s) p) > now_usec)"

definition make_space_body :: "bool \<Rightarrow> NMLldpRX \<times> bool \<Rightarrow> NMLldpRX \<times> bool" where
  "make_space_body flush s =
     (case nm_prioq_peek (neighbor_by_expiry (fst s)) of
        None \<Rightarrow> s
      | Some p \<Rightarrow>
          (let rx = nm_lldp_neighbor_unlink p (fst s)
           in (if flush then rx else lldp_rx_callback NM_LLDP_RX_EVENT_REMOVED p rx, True)))"

definition space_limit :: "bool \<Rightarrow> nat \<Rightarrow> NMLldpRX \<Rightarrow> nat" where
  "space_limit flush extra rx =
     (if \<not> flush \<and> neighbors_max (rx_config rx) > extra then neighbors_max (rx_config rx) - extra else 0)"

definition lldp_rx_make_space :: "bool \<Rightarrow> nat \<Rightarrow> int \<Rightarrow> NMLldpRX \<Rightarrow> (NMLldpRX \<times> bool) option" where
  "lldp_rx_make_space flush extra now_usec rx =
     while_option (make_space_cond (space_limit flush extra rx) now_usec) (make_space_body flush) (rx, False)"

definition lldp_rx_keep_neighbor :: "NMLldpRXConfig \<Rightarrow> NMLldpNeighbor \<Rightarrow> bool" where
  "lldp_rx_keep_neighbor config n =
     (if nb_ttl n \<le> 0 then False
      else if \<not> list_all (\<lambda>b. b = 0) (filter_address config) \<and> filter_address config = nb_source_address n then False
      else if nb_has_capabilities n \<and> nb_enabled_capabilities n AND capability_mask config = 0 then False
      else True)"

definition neighbor_start_ttl :: "int \<Rightarrow> nptr \<Rightarrow> NMLldpRX \<Rightarrow> NMLldpRX" where
  "neighbor_start_ttl now_usec p rx =
     (let rx = neighbor_set p (nm_lldp_neighbor_start_ttl now_usec (rx_mem rx p)) rx
      in if nb_linked (rx_mem rx p) then rx\<lparr>neighbor_by_expiry := objq_reshuffle (neighbor_by_expiry rx) p\<rparr> else rx)"

definition lldp_rx_start_timer :: "int \<Rightarrow> nptr option \<Rightarrow> NMLldpRX \<Rightarrow> NMLldpRX" where
  "lldp_rx_start_timer now_usec neighbor rx =
     (let rx = rx\<lparr>rx_timer_event_source := None\<rparr>;
          rx = (case neighbor of None \<Rightarrow> rx | Some p \<Rightarrow> neighbor_start_ttl now_usec p rx)
      in case nm_prioq_peek (neighbor_by_expiry rx) of
           None \<Rightarrow> rx
         | Some p \<Rightarrow>
             (let timeout_msec = c_div (nb_until_usec (rx_mem rx p)) 1000 - now_usec div 1000
              in rx\<lparr>rx_timer_event_source := Some (max 0 (min timeout_msec (int G_MAXUINT)))\<rparr>))"

text \<open>The end of \<^verbatim>\<open>lldp_rx_add_neighbor\<close>: make room, link the new neighbor and start its life time.\<close>

definition lldp_rx_link_neighbor :: "int \<Rightarrow> nptr \<Rightarrow> bool \<Rightarrow> NMLldpRX \<Rightarrow> NMLldpRX option" where
  "lldp_rx_link_neighbor now_usec p has_old rx =
     (case lldp_rx_make_space False 1 now_usec rx of
        None \<Rightarrow> None
      | Some (rx, _) \<Rightarrow>
          (let rx = rx\<lparr>neighbor_by_id := neighbor_by_id rx @ [p]\<rparr>;
               rx = rx\<lparr>neighbor_by_expiry := objq_put (neighbor_by_expiry rx) p\<rparr>;
               rx = neighbor_set p ((rx_mem rx p)\<lparr>nb_linked := True\<rparr>) rx;
               rx = lldp_rx_start_timer now_usec (Some p) rx
           in Some (lldp_rx_callback (if has_old then NM_LLDP_RX_EVENT_UPDATED else NM_LLDP_RX_EVENT_ADDED) p rx)))"

definition lldp_rx_add_neighbor :: "int \<Rightarrow> nptr \<Rightarrow> NMLldpRX \<Rightarrow> NMLldpRX option" where
  "lldp_rx_add_neighbor now_usec p rx =
     (let n = rx_mem rx p;
          keep = lldp_rx_keep_neighbor (rx_config rx) n
      in case by_id_lookup (nb_id n) rx of
           Some old \<Rightarrow>
             if \<not> keep then Some (lldp_rx_callback NM_LLDP_RX_EVENT_REMOVED old (nm_lldp_neighbor_unlink old rx))
             else if nm_lldp_neighbor_equal n (rx_mem rx old) then
               (let rx = neighbor_set old ((rx_mem rx old)\<lparr>nb_timestamp_usec := nb_timestamp_usec n\<rparr>) rx;
                    rx = lldp_rx_start_timer now_usec (Some old) rx
                in Some (lldp_rx_callback NM_LLDP_RX_EVENT_REFRESHED old rx))
             else lldp_rx_link_neighbor now_usec p True (nm_lldp_neighbor_unlink old rx)
         | None \<Rightarrow> if \<not> keep then Some rx else lldp_rx_link_neighbor now_usec p False rx)"

text \<open>
  The time at which a datagram arrived: what the kernel says where it is known and plausible, otherwise the current
  time. The arguments are the time stamp of the datagram and the readings of the clocks.
\<close>

record rx_clocks =
  clk_stamp :: "timespec option"
  clk_boottime :: int
  clk_realtime :: int
  clk_offset_sec :: int
  clk_monotonic_usec :: int

definition lldp_rx_timestamp :: "rx_clocks \<Rightarrow> int" where
  "lldp_rx_timestamp c =
     (case clk_stamp c of
        None \<Rightarrow> clk_monotonic_usec c
      | Some ts \<Rightarrow>
          (let ts_usec = nm_utils_timespec_to_usec ts in
           if ts_usec < G_MAXINT64 \<and> clk_boottime c \<ge> 0 \<and> clk_realtime c \<ge> 0 then
             (let now_usec = nm_utils_monotonic_timestamp_from_boottime (clk_offset_sec c) (clk_boottime c) 1000;
                  ts_usec = nm_time_map_clock ts_usec (clk_realtime c) (clk_boottime c)
              in if ts_usec \<ge> 0 then
                   (let ts_usec = nm_utils_monotonic_timestamp_from_boottime (clk_offset_sec c) ts_usec 1000
                    in if ts_usec > NM_UTILS_USEC_PER_SEC \<and> ts_usec < now_usec then ts_usec else now_usec)
                 else now_usec)
           else clk_monotonic_usec c))"

text \<open>
  A datagram: \<open>None\<close> where its size cannot be determined, it cannot be read or the size does not match. The object
  of a datagram that is ignored is freed, so that its memory does not matter.
\<close>

definition lldp_rx_receive_datagram ::
    "(u8 list \<Rightarrow> nat) \<Rightarrow> rx_clocks \<Rightarrow> nptr \<Rightarrow> u8 list option \<Rightarrow> NMLldpRX \<Rightarrow> NMLldpRX option" where
  "lldp_rx_receive_datagram utf8_end c p datagram rx =
     (case datagram of
        None \<Rightarrow> Some rx
      | Some raw \<Rightarrow>
          (case nm_lldp_neighbor_parse utf8_end ((nm_lldp_neighbor_new raw)\<lparr>nb_timestamp_usec := lldp_rx_timestamp c\<rparr>) of
             Inl _ \<Rightarrow> Some rx
           | Inr n \<Rightarrow> lldp_rx_add_neighbor (clk_monotonic_usec c) p (neighbor_set p n rx)))"

definition lldp_rx_reset :: "NMLldpRX \<Rightarrow> NMLldpRX option" where
  "lldp_rx_reset rx =
     map_option fst (lldp_rx_make_space True 0 0 (rx\<lparr>rx_timer_event_source := None, rx_fd := - 1\<rparr>))"

definition nm_lldp_rx_is_running :: "NMLldpRX \<Rightarrow> bool" where
  "nm_lldp_rx_is_running rx \<longleftrightarrow> rx_fd rx \<ge> 0"

definition nm_lldp_rx_start :: "int \<Rightarrow> NMLldpRX \<Rightarrow> int \<times> NMLldpRX" where
  "nm_lldp_rx_start r rx =
     (if nm_lldp_rx_is_running rx then (0, rx)
      else if r < 0 then (r, rx)
      else (1, rx\<lparr>rx_fd := r\<rparr>))"

definition nm_lldp_rx_stop :: "NMLldpRX \<Rightarrow> (int \<times> NMLldpRX) option" where
  "nm_lldp_rx_stop rx =
     (if \<not> nm_lldp_rx_is_running rx then Some (0, rx) else map_option (Pair 1) (lldp_rx_reset rx))"

definition on_timer_event :: "int \<Rightarrow> NMLldpRX \<Rightarrow> NMLldpRX option" where
  "on_timer_event now_usec rx =
     map_option (\<lambda>(rx, _). lldp_rx_start_timer now_usec None rx) (lldp_rx_make_space False 0 now_usec rx)"

definition neighbor_compare_func :: "(nptr \<Rightarrow> NMLldpNeighbor) \<Rightarrow> nptr \<Rightarrow> nptr \<Rightarrow> int" where
  "neighbor_compare_func mem a b = nm_lldp_neighbor_id_cmp (nb_id (mem a)) (nb_id (mem b))"

text \<open>The keys of the table, sorted with \<^verbatim>\<open>g_qsort_with_data\<close>, which is stable.\<close>

fun insert_by :: "('a \<Rightarrow> 'a \<Rightarrow> int) \<Rightarrow> 'a \<Rightarrow> 'a list \<Rightarrow> 'a list" where
  "insert_by cmp x [] = [x]"
| "insert_by cmp x (y # ys) = (if cmp x y \<le> 0 then x # y # ys else y # insert_by cmp x ys)"

definition nm_lldp_rx_get_neighbors :: "NMLldpRX \<Rightarrow> nptr list" where
  "nm_lldp_rx_get_neighbors rx = foldr (insert_by (neighbor_compare_func (rx_mem rx))) (neighbor_by_id rx) []"

abbreviation LLDP_DEFAULT_NEIGHBORS_MAX :: nat where "LLDP_DEFAULT_NEIGHBORS_MAX \<equiv> 128"

definition nm_lldp_rx_new :: "NMLldpRXConfig \<Rightarrow> (nptr \<Rightarrow> NMLldpNeighbor) \<Rightarrow> (nptr \<Rightarrow> nat) \<Rightarrow> NMLldpRX" where
  "nm_lldp_rx_new config mem idxs =
     (let config = (if neighbors_max config = 0 then config\<lparr>neighbors_max := LLDP_DEFAULT_NEIGHBORS_MAX\<rparr> else config);
          config = (if \<not> has_capability_mask config \<and> capability_mask config = 0
                    then config\<lparr>capability_mask := 0xFFFF\<rparr> else config)
      in \<lparr>rx_fd = - 1, rx_config = config, rx_timer_event_source = None, neighbor_by_id = [],
          neighbor_by_expiry = nm_prioq_init (expiry_order mem) idxs, rx_mem = mem, rx_events = []\<rparr>)"

section \<open>Identity of neighbors\<close>

definition neighbor_key :: "NMLldpNeighbor \<Rightarrow> u8 list \<times> u8 list" where
  "neighbor_key n = (case_option [] id (id_chassis_id (nb_id n)), case_option [] id (id_port_id (nb_id n)))"

lemma memcmp_n_eq_0 [simp]: "nm_memcmp_n a b = 0 \<longleftrightarrow> a = b"
  by (auto simp: nm_memcmp_n_def nm_cmp_memcmp_def)

lemma id_equal_iff: "nm_lldp_neighbor_id_equal (nb_id a) (nb_id b) \<longleftrightarrow> neighbor_key a = neighbor_key b"
  by (simp add: nm_lldp_neighbor_id_equal_def nm_lldp_neighbor_id_cmp_def neighbor_key_def Let_def)

lemma neighbor_key_simps [simp]:
  "neighbor_key (n\<lparr>nb_linked := l\<rparr>) = neighbor_key n" "neighbor_key (n\<lparr>nb_timestamp_usec := ts\<rparr>) = neighbor_key n"
  "neighbor_key (nm_lldp_neighbor_start_ttl now n) = neighbor_key n"
  by (simp_all add: neighbor_key_def nm_lldp_neighbor_start_ttl_def Let_def)

lemma start_ttl_simps [simp]:
  "nb_linked (nm_lldp_neighbor_start_ttl now n) = nb_linked n" "nb_ttl (nm_lldp_neighbor_start_ttl now n) = nb_ttl n"
  "nb_raw (nm_lldp_neighbor_start_ttl now n) = nb_raw n"
  "lldp_rx_keep_neighbor config (nm_lldp_neighbor_start_ttl now n) = lldp_rx_keep_neighbor config n"
  by (auto simp: nm_lldp_neighbor_start_ttl_def lldp_rx_keep_neighbor_def Let_def)

lemma keep_neighbor_simps [simp]:
  "lldp_rx_keep_neighbor config (n\<lparr>nb_linked := l\<rparr>) = lldp_rx_keep_neighbor config n"
  "lldp_rx_keep_neighbor config (n\<lparr>nb_timestamp_usec := ts\<rparr>) = lldp_rx_keep_neighbor config n"
  by (auto simp: lldp_rx_keep_neighbor_def)

section \<open>The table and the queue\<close>

text \<open>The structure: the table and the queue hold the same neighbors, which are linked and have different identities.\<close>

definition rx_core :: "NMLldpRX \<Rightarrow> bool" where
  "rx_core rx \<longleftrightarrow>
     objq_ok (neighbor_by_expiry rx) \<and> objq_content (neighbor_by_expiry rx) = set (neighbor_by_id rx) \<and>
     objq_order (neighbor_by_expiry rx) = expiry_order (rx_mem rx) \<and> distinct (neighbor_by_id rx) \<and>
     (\<forall>p. nb_linked (rx_mem rx p) \<longleftrightarrow> p \<in> set (neighbor_by_id rx)) \<and>
     inj_on (\<lambda>p. neighbor_key (rx_mem rx p)) (set (neighbor_by_id rx))"

lemma expiry_order_ok: "compare_ok (expiry_order mem)"
  unfolding compare_ok_iff expiry_order_def nm_lldp_neighbor_prioq_compare_func_def by (rule compare_order_key)

lemma rx_coreD:
  assumes "rx_core rx"
  shows "objq_ok (neighbor_by_expiry rx)" "objq_content (neighbor_by_expiry rx) = set (neighbor_by_id rx)"
    "objq_order (neighbor_by_expiry rx) = expiry_order (rx_mem rx)" "distinct (neighbor_by_id rx)"
    "\<And>p. nb_linked (rx_mem rx p) \<longleftrightarrow> p \<in> set (neighbor_by_id rx)"
    "inj_on (\<lambda>p. neighbor_key (rx_mem rx p)) (set (neighbor_by_id rx))"
  using assms by (simp_all add: rx_core_def)

lemma rx_core_size: "rx_core rx \<Longrightarrow> nm_prioq_size (neighbor_by_expiry rx) = length (neighbor_by_id rx)"
  using objq.size_content [of "neighbor_by_expiry rx"] by (simp add: rx_core_def distinct_card)

text \<open>With fewer than \<open>2^31 - 1\<close> neighbors (128 by default) an insertion into the expiry queue stores in bounds.\<close>

lemma expiry_put_in_bounds:
  "rx_core rx \<Longrightarrow> length (neighbor_by_id rx) + 1 < 2 ^ 31 \<Longrightarrow>
     nm_prioq_put_checked (neighbor_by_expiry rx) p i = Some (nm_prioq_put (neighbor_by_expiry rx) p i)"
  using rx_core_size [of rx] by (intro nm_prioq_put_in_bounds) (simp add: nm_prioq_size_def)

lemma by_id_lookup_Some:
  assumes "rx_core rx" "p \<in> set (neighbor_by_id rx)" "neighbor_key (rx_mem rx p) = neighbor_key n"
  shows "by_id_lookup (nb_id n) rx = Some p"
proof -
  have "by_id_lookup (nb_id n) rx \<noteq> None"
    using assms(2,3) by (auto simp: by_id_lookup_def find_None_iff id_equal_iff simp del: not_None_eq)
  then obtain k where k: "by_id_lookup (nb_id n) rx = Some k" by blast
  then have "k \<in> set (neighbor_by_id rx)" "neighbor_key (rx_mem rx k) = neighbor_key n"
    by (auto simp: by_id_lookup_def find_Some_iff id_equal_iff)
  then show ?thesis using k assms rx_coreD(6) [OF assms(1)] by (simp add: inj_on_def)
qed

lemma by_id_lookupD:
  "by_id_lookup (nb_id n) rx = Some p \<Longrightarrow> p \<in> set (neighbor_by_id rx) \<and> neighbor_key (rx_mem rx p) = neighbor_key n"
  "by_id_lookup (nb_id n) rx = None \<Longrightarrow> p \<in> set (neighbor_by_id rx) \<Longrightarrow> neighbor_key (rx_mem rx p) \<noteq> neighbor_key n"
  by (auto simp: by_id_lookup_def find_Some_iff find_None_iff id_equal_iff)

section \<open>Single steps keep the structure\<close>

lemma unlink_spec:
  assumes core: "rx_core rx" and p: "p \<in> set (neighbor_by_id rx)"
  shows "rx_core (nm_lldp_neighbor_unlink p rx)"
    and "neighbor_by_id (nm_lldp_neighbor_unlink p rx) = remove1 p (neighbor_by_id rx)"
    and "rx_mem (nm_lldp_neighbor_unlink p rx) = (rx_mem rx)(p := (rx_mem rx p)\<lparr>nb_linked := False\<rparr>)"
    and "rx_config (nm_lldp_neighbor_unlink p rx) = rx_config rx" "rx_fd (nm_lldp_neighbor_unlink p rx) = rx_fd rx"
      "rx_timer_event_source (nm_lldp_neighbor_unlink p rx) = rx_timer_event_source rx"
      "rx_events (nm_lldp_neighbor_unlink p rx) = rx_events rx"
proof -
  note c = rx_coreD [OF core]
  let ?mem = "(rx_mem rx)(p := (rx_mem rx p)\<lparr>nb_linked := False\<rparr>)"
  have lookup: "by_id_lookup (nb_id (rx_mem rx p)) rx = Some p" by (rule by_id_lookup_Some [OF core p refl])
  have eq: "nm_lldp_neighbor_unlink p rx =
      rx\<lparr>neighbor_by_id := remove1 p (neighbor_by_id rx), rx_mem := ?mem,
         neighbor_by_expiry := objq_set_order (expiry_order ?mem) (objq_remove (neighbor_by_expiry rx) p)\<rparr>"
    using p by (simp add: nm_lldp_neighbor_unlink_def lookup c(5) Let_def neighbor_set_def)
  have q: "objq_ok (objq_remove (neighbor_by_expiry rx) p)"
    "objq_content (objq_remove (neighbor_by_expiry rx) p) = set (neighbor_by_id rx) - {p}"
    "objq_order (objq_remove (neighbor_by_expiry rx) p) = expiry_order (rx_mem rx)"
    using objq.remove_spec [OF c(1), of p] p by (simp_all add: c(2,3))
  have "expiry_order ?mem a b = expiry_order (rx_mem rx) a b" for a b
    by (simp add: expiry_order_def nm_lldp_neighbor_prioq_compare_func_def)
  then have "objq_ok (neighbor_by_expiry (nm_lldp_neighbor_unlink p rx)) \<and>
      objq_content (neighbor_by_expiry (nm_lldp_neighbor_unlink p rx)) = set (neighbor_by_id rx) - {p} \<and>
      objq_order (neighbor_by_expiry (nm_lldp_neighbor_unlink p rx)) = expiry_order ?mem"
    using objq.set_order_spec [OF q(1) expiry_order_ok [of ?mem]] q(2,3) by (simp add: eq)
  then show "rx_core (nm_lldp_neighbor_unlink p rx)"
    using c(4-6) by (auto simp: rx_core_def eq inj_on_def)
qed (simp_all add: nm_lldp_neighbor_unlink_def neighbor_set_def Let_def by_id_lookup_Some [OF core p refl] rx_coreD(5) [OF core] p)

lemma neighbor_set_fresh:
  assumes core: "rx_core rx" and p: "p \<notin> set (neighbor_by_id rx)" "\<not> nb_linked n"
  shows "rx_core (neighbor_set p n rx)"
proof -
  note c = rx_coreD [OF core]
  let ?mem = "(rx_mem rx)(p := n)"
  have "expiry_order ?mem a b = expiry_order (rx_mem rx) a b" if "a \<noteq> p" "b \<noteq> p" for a b
    using that by (simp add: expiry_order_def)
  then have "objq_ok (neighbor_by_expiry (neighbor_set p n rx)) \<and>
      objq_content (neighbor_by_expiry (neighbor_set p n rx)) = set (neighbor_by_id rx) \<and>
      objq_order (neighbor_by_expiry (neighbor_set p n rx)) = expiry_order ?mem"
    using objq.set_order_spec [OF c(1) expiry_order_ok [of ?mem]] c(2,3) p
    by (simp add: neighbor_set_def Let_def) (metis (mono_tags, lifting))
  then show ?thesis using c(4-6) p by (auto simp: rx_core_def neighbor_set_def Let_def inj_on_def)
qed

text \<open>Writes of a linked neighbor: of fields that do not matter for the queue, and of the expiry time.\<close>

lemma neighbor_set_linked:
  assumes core: "rx_core rx" and p: "p \<in> set (neighbor_by_id rx)"
    and n: "nb_linked n" "neighbor_key n = neighbor_key (rx_mem rx p)"
  shows "nb_until_usec n = nb_until_usec (rx_mem rx p) \<Longrightarrow> rx_core (neighbor_set p n rx)"
    and "rx_core ((neighbor_set p n rx)
      \<lparr>neighbor_by_expiry := objq_reshuffle (neighbor_by_expiry (neighbor_set p n rx)) p\<rparr>)"
proof -
  note c = rx_coreD [OF core]
  let ?mem = "(rx_mem rx)(p := n)"
  have same: "expiry_order ?mem a b = expiry_order (rx_mem rx) a b" if "a \<noteq> p" "b \<noteq> p" for a b
    using that by (simp add: expiry_order_def)
  have "(\<lambda>x. neighbor_key (?mem x)) = (\<lambda>x. neighbor_key (rx_mem rx x))" "nb_linked (?mem x) = nb_linked (rx_mem rx x)" for x
    using n p c(5) [of p] by auto
  then have struct: "rx_core (rx\<lparr>rx_mem := ?mem, neighbor_by_expiry := q\<rparr>)"
    if "objq_ok q" "objq_content q = set (neighbor_by_id rx)" "objq_order q = expiry_order ?mem" for q
    using that c(4-6) by (simp add: rx_core_def del: fun_upd_apply)
  show "rx_core (neighbor_set p n rx)" if "nb_until_usec n = nb_until_usec (rx_mem rx p)"
  proof -
    have "expiry_order ?mem = expiry_order (rx_mem rx)"
      using that by (intro ext) (simp add: expiry_order_def nm_lldp_neighbor_prioq_compare_func_def)
    then show ?thesis
      using struct objq.set_order_spec [OF c(1) expiry_order_ok [of ?mem]] c(2,3) by (simp add: neighbor_set_def Let_def)
  qed
  have "objq_ok (objq_reshuffle (objq_set_order (expiry_order ?mem) (neighbor_by_expiry rx)) p) \<and>
      objq_content (objq_reshuffle (objq_set_order (expiry_order ?mem) (neighbor_by_expiry rx)) p) = set (neighbor_by_id rx) \<and>
      objq_order (objq_reshuffle (objq_set_order (expiry_order ?mem) (neighbor_by_expiry rx)) p) = expiry_order ?mem"
    using objq.reshuffle_spec [OF c(1) _ expiry_order_ok [of ?mem], of p] p same unfolding c(2,3) by blast
  then show "rx_core ((neighbor_set p n rx)
      \<lparr>neighbor_by_expiry := objq_reshuffle (neighbor_by_expiry (neighbor_set p n rx)) p\<rparr>)"
    using struct by (simp add: neighbor_set_def Let_def)
qed

lemma neighbor_set_fields [simp]:
  "rx_mem (neighbor_set p n rx) = (rx_mem rx)(p := n)" "neighbor_by_id (neighbor_set p n rx) = neighbor_by_id rx"
  "rx_config (neighbor_set p n rx) = rx_config rx" "rx_fd (neighbor_set p n rx) = rx_fd rx"
  "rx_timer_event_source (neighbor_set p n rx) = rx_timer_event_source rx" "rx_events (neighbor_set p n rx) = rx_events rx"
  by (simp_all add: neighbor_set_def Let_def)

lemma rx_core_frame [simp]:
  "rx_core (rx\<lparr>rx_timer_event_source := t\<rparr>) = rx_core rx" "rx_core (rx\<lparr>rx_events := e\<rparr>) = rx_core rx"
  "rx_core (rx\<lparr>rx_fd := r\<rparr>) = rx_core rx"
  by (simp_all add: rx_core_def)

lemma start_ttl_spec:
  assumes "rx_core rx" "p \<in> set (neighbor_by_id rx)"
  shows "rx_core (neighbor_start_ttl now p rx)"
    and "rx_mem (neighbor_start_ttl now p rx) = (rx_mem rx)(p := nm_lldp_neighbor_start_ttl now (rx_mem rx p))"
    and "neighbor_by_id (neighbor_start_ttl now p rx) = neighbor_by_id rx"
      "rx_config (neighbor_start_ttl now p rx) = rx_config rx" "rx_fd (neighbor_start_ttl now p rx) = rx_fd rx"
      "rx_timer_event_source (neighbor_start_ttl now p rx) = rx_timer_event_source rx"
      "rx_events (neighbor_start_ttl now p rx) = rx_events rx"
  using neighbor_set_linked(2) [OF assms, of "nm_lldp_neighbor_start_ttl now (rx_mem rx p)"] rx_coreD(5) [OF assms(1), of p] assms(2)
  by (simp_all add: neighbor_start_ttl_def Let_def)

text \<open>The timer after it was started: none without neighbors, otherwise the earliest expiry.\<close>

definition rx_timeout :: "int \<Rightarrow> NMLldpRX \<Rightarrow> int option" where
  "rx_timeout now rx =
     (if neighbor_by_id rx = [] then None
      else Some (max 0 (min (c_div (Min ((\<lambda>p. nb_until_usec (rx_mem rx p)) ` set (neighbor_by_id rx))) 1000 - now div 1000)
        (int G_MAXUINT))))"

lemma peek_earliest:
  assumes "rx_core rx"
  shows "nm_prioq_peek (neighbor_by_expiry rx) = None \<longleftrightarrow> neighbor_by_id rx = []"
    and "nm_prioq_peek (neighbor_by_expiry rx) = Some p \<Longrightarrow> p \<in> set (neighbor_by_id rx) \<and>
      (\<forall>x\<in>set (neighbor_by_id rx). nb_until_usec (rx_mem rx p) \<le> nb_until_usec (rx_mem rx x))"
  using objq.peek_empty [OF rx_coreD(1) [OF assms]] objq.peek_least [OF rx_coreD(1) [OF assms], of p] rx_coreD(2,3) [OF assms]
  by (simp_all add: expiry_order_def nm_lldp_neighbor_prioq_compare_func_def nm_cmp_direct_le_0)

lemma start_timer_spec:
  fixes now :: int
  assumes "rx_core rx" "\<And>p. neighbor = Some p \<Longrightarrow> p \<in> set (neighbor_by_id rx)"
  defines "rx' \<equiv> lldp_rx_start_timer now neighbor rx"
  shows "rx_core rx'"
    and "rx_mem rx' = (case neighbor of None \<Rightarrow> rx_mem rx
           | Some p \<Rightarrow> (rx_mem rx)(p := nm_lldp_neighbor_start_ttl now (rx_mem rx p)))"
    and "neighbor_by_id rx' = neighbor_by_id rx" "rx_config rx' = rx_config rx" "rx_fd rx' = rx_fd rx"
      "rx_events rx' = rx_events rx"
    and "rx_timer_event_source rx' = rx_timeout now rx'"
proof -
  define s where "s = (case neighbor of None \<Rightarrow> rx\<lparr>rx_timer_event_source := None\<rparr>
    | Some p \<Rightarrow> neighbor_start_ttl now p (rx\<lparr>rx_timer_event_source := None\<rparr>))"
  have s: "rx_core s" "rx_mem s = (case neighbor of None \<Rightarrow> rx_mem rx
           | Some p \<Rightarrow> (rx_mem rx)(p := nm_lldp_neighbor_start_ttl now (rx_mem rx p)))"
    "neighbor_by_id s = neighbor_by_id rx" "rx_config s = rx_config rx" "rx_fd s = rx_fd rx" "rx_events s = rx_events rx"
    "rx_timer_event_source s = None"
    using assms(1,2) start_ttl_spec [of "rx\<lparr>rx_timer_event_source := None\<rparr>" _ now]
    by (auto simp: s_def split: option.splits)
  have "rx' = (case nm_prioq_peek (neighbor_by_expiry s) of None \<Rightarrow> s
      | Some p \<Rightarrow> s\<lparr>rx_timer_event_source :=
          Some (max 0 (min (c_div (nb_until_usec (rx_mem s p)) 1000 - now div 1000) (int G_MAXUINT)))\<rparr>)"
    by (simp only: rx'_def lldp_rx_start_timer_def s_def Let_def)
  moreover have "Min ((\<lambda>p. nb_until_usec (rx_mem s p)) ` set (neighbor_by_id s)) = nb_until_usec (rx_mem s p)"
    if "nm_prioq_peek (neighbor_by_expiry s) = Some p" for p
    using peek_earliest(2) [OF s(1) that] by (intro Min_eqI) auto
  ultimately have "rx' = s\<lparr>rx_timer_event_source := rx_timeout now s\<rparr>"
    using s(7) peek_earliest(1) [OF s(1)]
    by (cases "nm_prioq_peek (neighbor_by_expiry s)") (simp_all add: rx_timeout_def)
  moreover have "rx_timeout now (s\<lparr>rx_timer_event_source := t\<rparr>) = rx_timeout now s" for t by (simp add: rx_timeout_def)
  ultimately show "rx_core rx'" "rx_mem rx' = (case neighbor of None \<Rightarrow> rx_mem rx
           | Some p \<Rightarrow> (rx_mem rx)(p := nm_lldp_neighbor_start_ttl now (rx_mem rx p)))"
    "neighbor_by_id rx' = neighbor_by_id rx" "rx_config rx' = rx_config rx" "rx_fd rx' = rx_fd rx"
      "rx_events rx' = rx_events rx" "rx_timer_event_source rx' = rx_timeout now rx'"
    using s by simp_all
qed

section \<open>What the user of the receiver knows\<close>

definition rx_table :: "NMLldpRX \<Rightarrow> u8 list \<times> u8 list \<Rightarrow> NMLldpNeighbor option" where
  "rx_table rx k = map_option (rx_mem rx) (List.find (\<lambda>p. neighbor_key (rx_mem rx p) = k) (neighbor_by_id rx))"

fun apply_event ::
    "(u8 list \<times> u8 list \<Rightarrow> NMLldpNeighbor option) \<Rightarrow> NMLldpRXEvent \<times> NMLldpNeighbor \<Rightarrow> u8 list \<times> u8 list \<Rightarrow> NMLldpNeighbor option" where
  "apply_event view (NM_LLDP_RX_EVENT_REMOVED, n) = view(neighbor_key n := None)"
| "apply_event view (_, n) = view(neighbor_key n \<mapsto> n)"

definition rx_known :: "NMLldpRX \<Rightarrow> u8 list \<times> u8 list \<Rightarrow> NMLldpNeighbor option" where
  "rx_known rx = foldl apply_event (\<lambda>_. None) (rx_events rx)"

lemma rx_known_callback [simp]:
  "rx_known (lldp_rx_callback ev p rx) = apply_event (rx_known rx) (ev, rx_mem rx p)"
  by (simp add: rx_known_def lldp_rx_callback_def)

lemma callback_fields [simp]:
  "rx_mem (lldp_rx_callback ev p rx) = rx_mem rx" "neighbor_by_id (lldp_rx_callback ev p rx) = neighbor_by_id rx"
  "rx_config (lldp_rx_callback ev p rx) = rx_config rx" "rx_fd (lldp_rx_callback ev p rx) = rx_fd rx"
  "rx_timer_event_source (lldp_rx_callback ev p rx) = rx_timer_event_source rx"
  "rx_core (lldp_rx_callback ev p rx) = rx_core rx" "rx_table (lldp_rx_callback ev p rx) = rx_table rx"
  "neighbor_by_expiry (lldp_rx_callback ev p rx) = neighbor_by_expiry rx"
  by (simp_all add: lldp_rx_callback_def rx_table_def fun_eq_iff)

lemma rx_table_Some:
  assumes "rx_core rx"
  shows "rx_table rx k = Some n \<longleftrightarrow> (\<exists>p\<in>set (neighbor_by_id rx). rx_mem rx p = n \<and> neighbor_key n = k)"
proof
  assume "rx_table rx k = Some n"
  then show "\<exists>p\<in>set (neighbor_by_id rx). rx_mem rx p = n \<and> neighbor_key n = k"
    by (auto simp: rx_table_def find_Some_iff)
next
  assume "\<exists>p\<in>set (neighbor_by_id rx). rx_mem rx p = n \<and> neighbor_key n = k"
  then obtain p where p: "p \<in> set (neighbor_by_id rx)" "rx_mem rx p = n" "neighbor_key n = k" by blast
  then have "List.find (\<lambda>p. neighbor_key (rx_mem rx p) = k) (neighbor_by_id rx) \<noteq> None"
    by (auto simp: find_None_iff simp del: not_None_eq)
  then obtain x where x: "List.find (\<lambda>p. neighbor_key (rx_mem rx p) = k) (neighbor_by_id rx) = Some x" by blast
  then have "x \<in> set (neighbor_by_id rx)" "neighbor_key (rx_mem rx x) = k" by (auto simp: find_Some_iff)
  then have "x = p" using p rx_coreD(6) [OF assms] by (simp add: inj_on_def)
  then show "rx_table rx k = Some n" using x p(2) by (simp add: rx_table_def)
qed

lemma rx_table_eqI:
  assumes "rx_core rx" "\<And>k n. f k = Some n \<longleftrightarrow> (\<exists>p\<in>set (neighbor_by_id rx). rx_mem rx p = n \<and> neighbor_key n = k)"
  shows "rx_table rx = f"
proof
  fix k
  have "rx_table rx k = Some n \<longleftrightarrow> f k = Some n" for n using rx_table_Some [OF assms(1)] assms(2) by simp
  then show "rx_table rx k = f k" by (metis option.exhaust)
qed

lemma rx_table_unlink:
  assumes core: "rx_core rx" and p: "p \<in> set (neighbor_by_id rx)"
  shows "rx_table (nm_lldp_neighbor_unlink p rx) = (rx_table rx)(neighbor_key (rx_mem rx p) := None)"
proof (rule rx_table_eqI [OF unlink_spec(1) [OF core p]])
  note u = unlink_spec [OF core p]
  fix k n
  have ne: "neighbor_key (rx_mem rx x) \<noteq> neighbor_key (rx_mem rx p)" if "x \<in> set (neighbor_by_id rx)" "x \<noteq> p" for x
    using that p rx_coreD(6) [OF core] by (auto simp: inj_on_def)
  have "(\<exists>x\<in>set (neighbor_by_id (nm_lldp_neighbor_unlink p rx)). rx_mem (nm_lldp_neighbor_unlink p rx) x = n \<and> neighbor_key n = k)
      \<longleftrightarrow> (\<exists>x\<in>set (neighbor_by_id rx). x \<noteq> p \<and> rx_mem rx x = n \<and> neighbor_key n = k)"
    unfolding u(2,3) set_remove1_eq [OF rx_coreD(4) [OF core]] by auto
  also have "\<dots> \<longleftrightarrow> k \<noteq> neighbor_key (rx_mem rx p) \<and> rx_table rx k = Some n"
    unfolding rx_table_Some [OF core] using ne by (metis (no_types, lifting))
  finally show "((rx_table rx)(neighbor_key (rx_mem rx p) := None)) k = Some n \<longleftrightarrow>
      (\<exists>x\<in>set (neighbor_by_id (nm_lldp_neighbor_unlink p rx)). rx_mem (nm_lldp_neighbor_unlink p rx) x = n \<and> neighbor_key n = k)"
    by simp
qed

lemma rx_table_set:
  assumes "rx_core rx'" "set (neighbor_by_id rx') = insert p (set (neighbor_by_id rx))" "rx_core rx"
    and "rx_mem rx' = (rx_mem rx)(p := n)"
    and "p \<in> set (neighbor_by_id rx) \<Longrightarrow> neighbor_key n = neighbor_key (rx_mem rx p)"
  shows "rx_table rx' = (rx_table rx)(neighbor_key n \<mapsto> n)"
proof (rule rx_table_eqI [OF assms(1)])
  fix k m
  have ne: "neighbor_key (rx_mem rx x) \<noteq> neighbor_key n" if "x \<in> set (neighbor_by_id rx)" "x \<noteq> p" for x
  proof -
    have "x \<in> set (neighbor_by_id rx')" "p \<in> set (neighbor_by_id rx')" using that assms(2) by auto
    then have "neighbor_key (rx_mem rx' x) \<noteq> neighbor_key (rx_mem rx' p)" using that(2) rx_coreD(6) [OF assms(1)] by (metis inj_onD)
    then show ?thesis using that(2) by (simp add: assms(4))
  qed
  have "(\<exists>x\<in>set (neighbor_by_id rx'). rx_mem rx' x = m \<and> neighbor_key m = k) \<longleftrightarrow>
      m = n \<and> neighbor_key n = k \<or> (\<exists>x\<in>set (neighbor_by_id rx). x \<noteq> p \<and> rx_mem rx x = m \<and> neighbor_key m = k)"
    unfolding assms(2,4) by (metis (mono_tags, lifting) fun_upd_apply insertE insertI1 insertI2)
  also have "\<dots> \<longleftrightarrow> (if k = neighbor_key n then Some n else rx_table rx k) = Some m"
    using ne assms(5) rx_table_Some [OF assms(3), of k m] by (cases "k = neighbor_key n") (simp, metis+)
  finally show "((rx_table rx)(neighbor_key n \<mapsto> n)) k = Some m \<longleftrightarrow>
      (\<exists>x\<in>set (neighbor_by_id rx'). rx_mem rx' x = m \<and> neighbor_key m = k)"
    by simp
qed

section \<open>Making space\<close>

text \<open>
  What the loop has done at any moment: it removed neighbors that expire no later than the ones that are left, and
  neighbors that were not expired only down to the limit.
\<close>

definition space_made :: "nat \<Rightarrow> int \<Rightarrow> NMLldpRX \<Rightarrow> NMLldpRX \<Rightarrow> bool" where
  "space_made limit now rx0 rx \<longleftrightarrow>
     rx_core rx \<and> set (neighbor_by_id rx) \<subseteq> set (neighbor_by_id rx0) \<and>
     (\<forall>p\<in>set (neighbor_by_id rx0) - set (neighbor_by_id rx).
        rx_mem rx p = (rx_mem rx0 p)\<lparr>nb_linked := False\<rparr> \<and>
        (\<forall>x\<in>set (neighbor_by_id rx). nb_until_usec (rx_mem rx0 p) \<le> nb_until_usec (rx_mem rx0 x)) \<and>
        (nb_until_usec (rx_mem rx0 p) \<le> now \<or> limit \<le> length (neighbor_by_id rx))) \<and>
     (\<forall>p. p \<notin> set (neighbor_by_id rx0) - set (neighbor_by_id rx) \<longrightarrow> rx_mem rx p = rx_mem rx0 p) \<and>
     rx_config rx = rx_config rx0 \<and> rx_fd rx = rx_fd rx0 \<and> rx_timer_event_source rx = rx_timer_event_source rx0"

lemma make_space_body_eq:
  assumes "rx_core (fst s)" "make_space_cond limit now s"
  obtains p where "p \<in> set (neighbor_by_id (fst s))"
    "\<forall>x\<in>set (neighbor_by_id (fst s)). nb_until_usec (rx_mem (fst s) p) \<le> nb_until_usec (rx_mem (fst s) x)"
    "limit < length (neighbor_by_id (fst s)) \<or> nb_until_usec (rx_mem (fst s) p) \<le> now"
    "make_space_body flush s = (let rx = nm_lldp_neighbor_unlink p (fst s)
       in (if flush then rx else lldp_rx_callback NM_LLDP_RX_EVENT_REMOVED p rx, True))"
proof -
  obtain p where p: "nm_prioq_peek (neighbor_by_expiry (fst s)) = Some p"
    using assms(2) by (auto simp: make_space_cond_def split: option.splits)
  show ?thesis
    by (rule that [of p])
      (use peek_earliest(2) [OF assms(1) p] assms(2) p rx_core_size [OF assms(1)] in
        \<open>auto simp: make_space_cond_def make_space_body_def\<close>)
qed

lemma make_space_step:
  assumes made: "space_made limit now rx0 (fst s)" and cond: "make_space_cond limit now s"
  shows "space_made limit now rx0 (fst (make_space_body flush s)) \<and>
    length (neighbor_by_id (fst (make_space_body flush s))) < length (neighbor_by_id (fst s))"
proof -
  have core: "rx_core (fst s)" using made by (simp add: space_made_def)
  obtain p where p: "p \<in> set (neighbor_by_id (fst s))"
      and least: "\<forall>x\<in>set (neighbor_by_id (fst s)). nb_until_usec (rx_mem (fst s) p) \<le> nb_until_usec (rx_mem (fst s) x)"
      and why: "limit < length (neighbor_by_id (fst s)) \<or> nb_until_usec (rx_mem (fst s) p) \<le> now"
      and body: "make_space_body flush s = (let rx = nm_lldp_neighbor_unlink p (fst s)
       in (if flush then rx else lldp_rx_callback NM_LLDP_RX_EVENT_REMOVED p rx, True))"
    by (rule make_space_body_eq [OF core cond, where flush = flush])
  note u = unlink_spec [OF core p]
  define rx where "rx = fst (make_space_body flush s)"
  have rx: "rx_core rx" "neighbor_by_id rx = remove1 p (neighbor_by_id (fst s))"
    "rx_mem rx = (rx_mem (fst s))(p := (rx_mem (fst s) p)\<lparr>nb_linked := False\<rparr>)"
    "rx_config rx = rx_config (fst s)" "rx_fd rx = rx_fd (fst s)" "rx_timer_event_source rx = rx_timer_event_source (fst s)"
    using u by (simp_all add: rx_def body Let_def)
  have set: "set (neighbor_by_id rx) = set (neighbor_by_id (fst s)) - {p}" using rx(2) rx_coreD(4) [OF core] by simp
  have len: "length (neighbor_by_id (fst s)) = Suc (length (neighbor_by_id rx))"
    using p by (simp add: rx(2) length_remove1) (metis Suc_pred length_pos_if_in_set)
  have old: "rx_mem (fst s) x = rx_mem rx0 x" if "x \<in> set (neighbor_by_id (fst s))" for x
    using made that by (simp add: space_made_def)
  have "space_made limit now rx0 rx"
    unfolding space_made_def
  proof (intro conjI ballI allI impI)
    fix x assume x: "x \<in> set (neighbor_by_id rx0) - set (neighbor_by_id rx)"
    then have cases: "x = p \<or> x \<in> set (neighbor_by_id rx0) - set (neighbor_by_id (fst s))" using set by blast
    then show "rx_mem rx x = (rx_mem rx0 x)\<lparr>nb_linked := False\<rparr>"
      using made old [OF p] p by (auto simp: rx(3) space_made_def)
    show "nb_until_usec (rx_mem rx0 x) \<le> nb_until_usec (rx_mem rx0 y)" if "y \<in> set (neighbor_by_id rx)" for y
    proof -
      have y: "y \<in> set (neighbor_by_id (fst s))" using that set by blast
      then have "nb_until_usec (rx_mem rx0 p) \<le> nb_until_usec (rx_mem rx0 y)" using least old [OF p] old [OF y] by auto
      then show ?thesis using cases made y by (auto simp: space_made_def)
    qed
    show "nb_until_usec (rx_mem rx0 x) \<le> now \<or> limit \<le> length (neighbor_by_id rx)"
    proof (cases "x = p")
      case True
      then show ?thesis using why len old [OF p] by auto
    next
      case False
      then have "x \<in> set (neighbor_by_id rx0) - set (neighbor_by_id (fst s))" using x set by blast
      then have "nb_until_usec (rx_mem rx0 x) \<le> nb_until_usec (rx_mem rx0 p)" using made p by (simp add: space_made_def)
      then show ?thesis using why len old [OF p] by auto
    qed
  next
    fix x assume "x \<notin> set (neighbor_by_id rx0) - set (neighbor_by_id rx)"
    then show "rx_mem rx x = rx_mem rx0 x" using made p by (auto simp: rx(3) set space_made_def)
  qed (use made rx set in \<open>auto simp: space_made_def\<close>)
  then show ?thesis using len by (simp add: rx_def)
qed

text \<open>The user knows the table, except for the keys of \<open>ks\<close>.\<close>

definition knows_except :: "(u8 list \<times> u8 list) set \<Rightarrow> NMLldpRX \<Rightarrow> bool" where
  "knows_except ks rx \<longleftrightarrow> (\<forall>k. k \<notin> ks \<longrightarrow> rx_known rx k = rx_table rx k)"

lemma knows_except_unlink:
  assumes "rx_core rx" "p \<in> set (neighbor_by_id rx)" "knows_except ks rx"
  shows "knows_except ks (lldp_rx_callback NM_LLDP_RX_EVENT_REMOVED p (nm_lldp_neighbor_unlink p rx))"
proof -
  have "rx_known (nm_lldp_neighbor_unlink p rx) = rx_known rx"
    by (simp add: rx_known_def unlink_spec(7) [OF assms(1,2)])
  then show ?thesis
    using assms(3) by (simp add: knows_except_def rx_table_unlink [OF assms(1,2)] unlink_spec(3) [OF assms(1,2)])
qed

lemma make_space_step_events:
  assumes "rx_core (fst s)" "make_space_cond limit now s"
  shows "knows_except ks (fst s) \<Longrightarrow> knows_except ks (fst (make_space_body False s))"
    and "rx_events (fst (make_space_body True s)) = rx_events (fst s)"
proof -
  obtain p where p: "p \<in> set (neighbor_by_id (fst s))"
      and body: "make_space_body False s =
        (let rx = nm_lldp_neighbor_unlink p (fst s) in (if False then rx else lldp_rx_callback NM_LLDP_RX_EVENT_REMOVED p rx, True))"
    by (rule make_space_body_eq [OF assms, where flush = False])
  show "knows_except ks (fst s) \<Longrightarrow> knows_except ks (fst (make_space_body False s))"
    using knows_except_unlink [OF assms(1) p] by (simp add: body)
next
  obtain p where p: "p \<in> set (neighbor_by_id (fst s))"
      and body: "make_space_body True s =
        (let rx = nm_lldp_neighbor_unlink p (fst s) in (if True then rx else lldp_rx_callback NM_LLDP_RX_EVENT_REMOVED p rx, True))"
    by (rule make_space_body_eq [OF assms, where flush = True])
  show "rx_events (fst (make_space_body True s)) = rx_events (fst s)"
    using unlink_spec(7) [OF assms(1) p] by (simp add: body)
qed

lemma make_space_spec:
  assumes core: "rx_core rx0"
  obtains rx changed where "lldp_rx_make_space flush extra now rx0 = Some (rx, changed)"
    and "space_made (space_limit flush extra rx0) now rx0 rx"
    and "neighbor_by_id rx = [] \<or> length (neighbor_by_id rx) \<le> space_limit flush extra rx0 \<and>
      (\<forall>p\<in>set (neighbor_by_id rx). now < nb_until_usec (rx_mem rx p))"
    and "\<not> flush \<and> knows_except ks rx0 \<longrightarrow> knows_except ks rx" "flush \<longrightarrow> rx_events rx = rx_events rx0"
proof -
  let ?limit = "space_limit flush extra rx0" and ?s = "(rx0, False)"
  let ?P = "\<lambda>s. space_made ?limit now rx0 (fst s) \<and> (\<not> flush \<and> knows_except ks rx0 \<longrightarrow> knows_except ks (fst s)) \<and>
    (flush \<longrightarrow> rx_events (fst s) = rx_events rx0)"
  have P0: "?P ?s" using core by (simp add: space_made_def)
  have step: "?P (make_space_body flush s) \<and>
      length (neighbor_by_id (fst (make_space_body flush s))) < length (neighbor_by_id (fst s))"
    if "?P s" "make_space_cond ?limit now s" for s
  proof -
    have "rx_core (fst s)" using that(1) by (simp add: space_made_def)
    then show ?thesis
      using make_space_step [of ?limit now rx0 s flush] make_space_step_events(1) [of s ?limit now ks]
        make_space_step_events(2) [of s ?limit now] that by (cases flush) simp_all
  qed
  obtain t where t: "while_option (make_space_cond ?limit now) (make_space_body flush) ?s = Some t"
    using measure_while_option_Some [where P = ?P and f = "\<lambda>s. length (neighbor_by_id (fst s))", OF step P0] by blast
  have P: "?P t" by (rule while_option_rule [where P = ?P, OF _ t P0]) (use step in blast)
  have stop: "\<not> make_space_cond ?limit now t" by (rule while_option_stop [OF t])
  have coret: "rx_core (fst t)" using P by (simp add: space_made_def)
  have "neighbor_by_id (fst t) = [] \<or> length (neighbor_by_id (fst t)) \<le> ?limit \<and>
      (\<forall>p\<in>set (neighbor_by_id (fst t)). now < nb_until_usec (rx_mem (fst t) p))"
  proof (cases "nm_prioq_peek (neighbor_by_expiry (fst t))")
    case None
    then show ?thesis using peek_earliest(1) [OF coret] by simp
  next
    case (Some p)
    then show ?thesis
      using peek_earliest(2) [OF coret Some] stop rx_core_size [OF coret] by (force simp: make_space_cond_def)
  qed
  then show ?thesis using that [of "fst t" "snd t"] t P by (simp add: lldp_rx_make_space_def)
qed

section \<open>The invariant of the receiver\<close>

definition rx_values :: "NMLldpRX \<Rightarrow> bool" where
  "rx_values rx \<longleftrightarrow>
     (\<forall>p\<in>set (neighbor_by_id rx). lldp_rx_keep_neighbor (rx_config rx) (rx_mem rx p) \<and>
        nb_until_usec (rx_mem rx p) = nb_timestamp_usec (rx_mem rx p) + int (nb_ttl (rx_mem rx p)) * 1000000)"

text \<open>
  The invariant: the structure, all neighbors are to be kept and expire their life time after they were received,
  there are at most as many as configured, the timer is armed where there are any, and what the events say is the
  table.
\<close>

definition rx_ok :: "NMLldpRX \<Rightarrow> bool" where
  "rx_ok rx \<longleftrightarrow> rx_core rx \<and> rx_values rx \<and> 0 < neighbors_max (rx_config rx) \<and>
     length (neighbor_by_id rx) \<le> neighbors_max (rx_config rx) \<and>
     (neighbor_by_id rx \<noteq> [] \<longrightarrow> nm_lldp_rx_is_running rx \<and> rx_timer_event_source rx \<noteq> None) \<and>
     rx_known rx = rx_table rx"

lemma rx_ok_core: "rx_ok rx \<Longrightarrow> rx_core rx" by (simp add: rx_ok_def)

lemma knows_all: "rx_known rx = rx_table rx \<longleftrightarrow> knows_except {} rx"
  by (simp add: knows_except_def fun_eq_iff)

lemma start_ttl_until:
  "0 < nb_ttl n \<Longrightarrow> nb_until_usec (nm_lldp_neighbor_start_ttl now n) =
     nb_timestamp_usec (nm_lldp_neighbor_start_ttl now n) + int (nb_ttl n) * 1000000"
  by (simp add: nm_lldp_neighbor_start_ttl_def Let_def)

lemma keep_ttl: "lldp_rx_keep_neighbor config n \<Longrightarrow> 0 < nb_ttl n"
  by (auto simp: lldp_rx_keep_neighbor_def split: if_splits)

lemma rx_timeout_armed: "neighbor_by_id rx \<noteq> [] \<Longrightarrow> rx_timeout now rx \<noteq> None"
  by (simp add: rx_timeout_def)

text \<open>Linking a new neighbor into the table and the queue.\<close>

lemma link_core:
  assumes core: "rx_core m" and p: "p \<notin> set (neighbor_by_id m)"
    and key: "\<forall>x\<in>set (neighbor_by_id m). neighbor_key (rx_mem m x) \<noteq> neighbor_key (rx_mem m p)"
  shows "rx_core (neighbor_set p ((rx_mem m p)\<lparr>nb_linked := True\<rparr>)
    (m\<lparr>neighbor_by_id := neighbor_by_id m @ [p], neighbor_by_expiry := objq_put (neighbor_by_expiry m) p\<rparr>))"
proof -
  note c = rx_coreD [OF core]
  let ?mem = "(rx_mem m)(p := (rx_mem m p)\<lparr>nb_linked := True\<rparr>)"
  have put: "objq_ok (objq_put (neighbor_by_expiry m) p)"
    "objq_content (objq_put (neighbor_by_expiry m) p) = insert p (set (neighbor_by_id m))"
    "objq_order (objq_put (neighbor_by_expiry m) p) = expiry_order (rx_mem m)"
    using objq.put_spec [OF c(1), of p] p by (simp_all add: c(2,3))
  have "expiry_order ?mem = expiry_order (rx_mem m)"
    by (intro ext) (simp add: expiry_order_def nm_lldp_neighbor_prioq_compare_func_def)
  then have q: "objq_ok (objq_set_order (expiry_order ?mem) (objq_put (neighbor_by_expiry m) p)) \<and>
      objq_content (objq_set_order (expiry_order ?mem) (objq_put (neighbor_by_expiry m) p)) = insert p (set (neighbor_by_id m)) \<and>
      objq_order (objq_set_order (expiry_order ?mem) (objq_put (neighbor_by_expiry m) p)) = expiry_order ?mem"
    using objq.set_order_spec [OF put(1) expiry_order_ok [of ?mem]] put(2,3) by simp
  have "(\<lambda>x. neighbor_key (?mem x)) = (\<lambda>x. neighbor_key (rx_mem m x))" by auto
  moreover have "inj_on (\<lambda>x. neighbor_key (rx_mem m x)) (insert p (set (neighbor_by_id m)))"
    using c(6) key p by (auto simp: inj_on_insert image_iff)
  moreover have "nb_linked (?mem x) \<longleftrightarrow> x \<in> insert p (set (neighbor_by_id m))" for x using c(5) by simp
  ultimately show ?thesis
    using q c(4) p by (simp add: rx_core_def neighbor_set_def Let_def del: fun_upd_apply)
qed

lemma link_neighbor_spec:
  assumes core: "rx_core rx" and p: "p \<notin> set (neighbor_by_id rx)"
    and key: "\<forall>x\<in>set (neighbor_by_id rx). neighbor_key (rx_mem rx x) \<noteq> neighbor_key (rx_mem rx p)"
    and keep: "lldp_rx_keep_neighbor (rx_config rx) (rx_mem rx p)" and vals: "rx_values rx"
    and max: "0 < neighbors_max (rx_config rx)" and run: "nm_lldp_rx_is_running rx"
    and known: "knows_except {neighbor_key (rx_mem rx p)} rx"
  obtains rx' m where "lldp_rx_link_neighbor now p has_old rx = Some rx'" "rx_ok rx'"
    "space_made (neighbors_max (rx_config rx) - 1) now rx m"
    "neighbor_by_id rx' = neighbor_by_id m @ [p]" "rx_config rx' = rx_config rx" "rx_fd rx' = rx_fd rx"
    "rx_mem rx' = (rx_mem m)(p := nm_lldp_neighbor_start_ttl now ((rx_mem rx p)\<lparr>nb_linked := True\<rparr>))"
    "rx_table rx' = (rx_table m)(neighbor_key (rx_mem rx p) \<mapsto> nm_lldp_neighbor_start_ttl now ((rx_mem rx p)\<lparr>nb_linked := True\<rparr>))"
    "rx_timer_event_source rx' = rx_timeout now rx'"
proof -
  obtain m changed where space: "lldp_rx_make_space False 1 now rx = Some (m, changed)"
      and made: "space_made (space_limit False 1 rx) now rx m"
      and fin: "neighbor_by_id m = [] \<or> length (neighbor_by_id m) \<le> space_limit False 1 rx \<and>
        (\<forall>p\<in>set (neighbor_by_id m). now < nb_until_usec (rx_mem m p))"
      and knm: "\<not> False \<and> knows_except {neighbor_key (rx_mem rx p)} rx \<longrightarrow> knows_except {neighbor_key (rx_mem rx p)} m"
      and "False \<longrightarrow> rx_events m = rx_events rx"
    by (rule make_space_spec [OF core, where flush = False and extra = 1 and now = now and ks = "{neighbor_key (rx_mem rx p)}"])
  have limit: "space_limit False 1 rx = neighbors_max (rx_config rx) - 1" using max by (simp add: space_limit_def)
  have m: "rx_core m" "set (neighbor_by_id m) \<subseteq> set (neighbor_by_id rx)" "rx_mem m p = rx_mem rx p"
      "\<And>x. x \<in> set (neighbor_by_id m) \<Longrightarrow> rx_mem m x = rx_mem rx x" "rx_config m = rx_config rx" "rx_fd m = rx_fd rx"
    using made p by (auto simp: space_made_def)
  have pm: "p \<notin> set (neighbor_by_id m)" using p m(2) by blast
  define r where "r = neighbor_set p ((rx_mem m p)\<lparr>nb_linked := True\<rparr>)
    (m\<lparr>neighbor_by_id := neighbor_by_id m @ [p], neighbor_by_expiry := objq_put (neighbor_by_expiry m) p\<rparr>)"
  have key_m: "\<forall>x\<in>set (neighbor_by_id m). neighbor_key (rx_mem m x) \<noteq> neighbor_key (rx_mem m p)"
    using key m(2-4) by auto
  have r: "rx_core r" "neighbor_by_id r = neighbor_by_id m @ [p]" "rx_config r = rx_config rx" "rx_fd r = rx_fd rx"
    "rx_events r = rx_events m" "rx_mem r = (rx_mem m)(p := (rx_mem rx p)\<lparr>nb_linked := True\<rparr>)"
    using link_core [OF m(1) pm key_m] m by (simp_all add: r_def)
  define t where "t = lldp_rx_start_timer now (Some p) r"
  have "\<And>x. Some p = Some x \<Longrightarrow> x \<in> set (neighbor_by_id r)" using r(2) by simp
  note t = start_timer_spec [where now = now and neighbor = "Some p", OF r(1) this, folded t_def]
  let ?n = "nm_lldp_neighbor_start_ttl now ((rx_mem rx p)\<lparr>nb_linked := True\<rparr>)"
  have mem: "rx_mem t = (rx_mem m)(p := ?n)" using t(2) r(6) by simp
  define ev where "ev = (if has_old then NM_LLDP_RX_EVENT_UPDATED else NM_LLDP_RX_EVENT_ADDED)"
  define rx' where "rx' = lldp_rx_callback ev p t"
  have result: "lldp_rx_link_neighbor now p has_old rx = Some rx'"
    unfolding lldp_rx_link_neighbor_def space by (simp add: Let_def rx'_def ev_def t_def r_def)
  have table: "rx_table t = (rx_table m)(neighbor_key (rx_mem rx p) \<mapsto> ?n)"
    using rx_table_set [OF t(1) _ m(1) mem] t(3) r(2) pm by simp
  have "rx_known t = rx_known m" using t(6) r(5) by (simp add: rx_known_def)
  then have "rx_known rx' = (rx_known m)(neighbor_key (rx_mem rx p) \<mapsto> ?n)"
    by (simp add: rx'_def ev_def mem)
  then have "rx_known rx' = rx_table rx'" using table knm known by (auto simp: rx'_def knows_except_def fun_eq_iff)
  moreover have "rx_values rx'"
    using vals m(2,4) keep start_ttl_until [of "(rx_mem rx p)\<lparr>nb_linked := True\<rparr>" now] keep_ttl [OF keep] pm
    by (auto simp: rx_values_def rx'_def t(3,4) r(2,3) mem)
  moreover have "length (neighbor_by_id rx') \<le> neighbors_max (rx_config rx')"
    using fin limit max by (auto simp: rx'_def t(3,4) r(2,3))
  moreover have "neighbor_by_id t \<noteq> []" using t(3) r(2) by simp
  ultimately have "rx_ok rx'"
    using t(1,3-5,7) r(2-4) max run rx_timeout_armed [of t now]
    by (simp add: rx_ok_def rx'_def nm_lldp_rx_is_running_def)
  moreover have "rx_timer_event_source rx' = rx_timeout now rx'" using t(7) by (simp add: rx'_def rx_timeout_def)
  ultimately show ?thesis
    using that [of rx' m] result made limit table mem t(3-5) r(2-4) by (simp add: rx'_def)
qed

section \<open>Receiving\<close>

text \<open>
  What happens to the other neighbors when a frame is received: they stay as they are, unless they expired or the
  table was full and they were the first to expire.
\<close>

definition evicted_for :: "int \<Rightarrow> u8 list \<times> u8 list \<Rightarrow> NMLldpRX \<Rightarrow> NMLldpNeighbor \<Rightarrow> bool" where
  "evicted_for now key rx' v \<longleftrightarrow> nb_until_usec v \<le> now \<or>
     length (neighbor_by_id rx') = neighbors_max (rx_config rx') \<and>
     (\<forall>k' v'. k' \<noteq> key \<longrightarrow> rx_table rx' k' = Some v' \<longrightarrow> nb_until_usec v \<le> nb_until_usec v')"

definition others_kept :: "int \<Rightarrow> u8 list \<times> u8 list \<Rightarrow> NMLldpRX \<Rightarrow> NMLldpRX \<Rightarrow> bool" where
  "others_kept now key rx rx' \<longleftrightarrow>
     (\<forall>k. k \<noteq> key \<longrightarrow> rx_table rx' k = rx_table rx k \<or>
        rx_table rx' k = None \<and> (\<forall>v. rx_table rx k = Some v \<longrightarrow> evicted_for now key rx' v))"

lemma space_made_table:
  assumes core: "rx_core rx" and made: "space_made limit now rx m" and diff: "rx_table m k \<noteq> rx_table rx k"
  shows "rx_table m k = None" "rx_table rx k = Some v \<Longrightarrow> nb_until_usec v \<le> now \<or> limit \<le> length (neighbor_by_id m)"
    "rx_table rx k = Some v \<Longrightarrow> length (neighbor_by_id m) < length (neighbor_by_id rx)"
    "rx_table rx k = Some v \<Longrightarrow> rx_table m k' = Some v' \<Longrightarrow> nb_until_usec v \<le> nb_until_usec v'"
proof -
  have cm: "rx_core m" and sub: "set (neighbor_by_id m) \<subseteq> set (neighbor_by_id rx)"
    and mem: "\<And>x. x \<in> set (neighbor_by_id m) \<Longrightarrow> rx_mem m x = rx_mem rx x"
    using made by (auto simp: space_made_def)
  have lower: "rx_table m j = Some w \<Longrightarrow> rx_table rx j = Some w" for j w
    using sub mem by (auto simp: rx_table_Some [OF cm] rx_table_Some [OF core])
  then show "rx_table m k = None" using diff by (cases "rx_table m k") auto
  assume v: "rx_table rx k = Some v"
  then obtain x where x: "x \<in> set (neighbor_by_id rx)" "rx_mem rx x = v" "neighbor_key v = k"
    by (auto simp: rx_table_Some [OF core])
  then have gone: "x \<in> set (neighbor_by_id rx) - set (neighbor_by_id m)"
    using \<open>rx_table m k = None\<close> mem [of x] rx_table_Some [OF cm, of k v] by auto
  show "nb_until_usec v \<le> now \<or> limit \<le> length (neighbor_by_id m)" using gone made x(2) by (auto simp: space_made_def)
  have "set (neighbor_by_id m) \<subset> set (neighbor_by_id rx)" using sub gone by blast
  then have "card (set (neighbor_by_id m)) < card (set (neighbor_by_id rx))" by (simp add: psubset_card_mono)
  then show "length (neighbor_by_id m) < length (neighbor_by_id rx)"
    by (simp add: distinct_card rx_coreD(4) [OF core] rx_coreD(4) [OF cm])
  assume "rx_table m k' = Some v'"
  then obtain y where "y \<in> set (neighbor_by_id m)" "rx_mem rx y = v'" using mem by (auto simp: rx_table_Some [OF cm])
  then show "nb_until_usec v \<le> nb_until_usec v'" using gone made x(2) by (auto simp: space_made_def)
qed

lemma others_kept_linked:
  assumes core: "rx_core rx" and made: "space_made (neighbors_max (rx_config rx) - 1) now rx m" and ok: "rx_ok rx'"
    and new: "neighbor_by_id rx' = neighbor_by_id m @ [p]" "rx_config rx' = rx_config rx" "rx_table rx' = (rx_table m)(key \<mapsto> n)"
  shows "others_kept now key rx rx'"
  unfolding others_kept_def
proof (intro allI impI)
  fix k assume k: "k \<noteq> key"
  show "rx_table rx' k = rx_table rx k \<or> rx_table rx' k = None \<and> (\<forall>v. rx_table rx k = Some v \<longrightarrow> evicted_for now key rx' v)"
  proof (cases "rx_table m k = rx_table rx k")
    case True
    then show ?thesis using k by (simp add: new(3))
  next
    case False
    note t = space_made_table [OF core made False]
    have "evicted_for now key rx' v" if "rx_table rx k = Some v" for v
      using t(2,4) [OF that] ok by (auto simp: evicted_for_def new rx_ok_def)
    then show ?thesis using t(1) k by (simp add: new(3))
  qed
qed

lemma remove_neighbor_ok:
  assumes ok: "rx_ok rx" and p: "p \<in> set (neighbor_by_id rx)"
  defines "rx' \<equiv> lldp_rx_callback NM_LLDP_RX_EVENT_REMOVED p (nm_lldp_neighbor_unlink p rx)"
  shows "rx_ok rx'" "rx_table rx' = (rx_table rx)(neighbor_key (rx_mem rx p) := None)"
    "rx_config rx' = rx_config rx" "rx_fd rx' = rx_fd rx"
proof -
  have core: "rx_core rx" using ok by (rule rx_ok_core)
  note u = unlink_spec [OF core p]
  have "neighbor_by_id rx \<noteq> []" using p by auto
  moreover have "rx_values rx'"
    using ok u(3,4) rx_coreD(4) [OF core] by (auto simp: rx_ok_def rx_values_def rx'_def u(2))
  moreover have "rx_known rx' = rx_table rx'"
    unfolding rx'_def knows_all by (rule knows_except_unlink [OF core p]) (use ok in \<open>simp add: rx_ok_def knows_all\<close>)
  moreover have "rx_core rx'" "neighbor_by_id rx' = remove1 p (neighbor_by_id rx)" "rx_config rx' = rx_config rx"
      "rx_fd rx' = rx_fd rx" "rx_timer_event_source rx' = rx_timer_event_source rx"
    using u by (simp_all add: rx'_def)
  ultimately show "rx_ok rx'"
    using ok p by (auto simp: rx_ok_def length_remove1 nm_lldp_rx_is_running_def)
  show "rx_table rx' = (rx_table rx)(neighbor_key (rx_mem rx p) := None)"
    using rx_table_unlink [OF core p] by (simp add: rx'_def)
qed (simp_all add: rx'_def unlink_spec(4,5) [OF rx_ok_core [OF ok] p])

lemma refresh_neighbor_ok:
  fixes now ts :: int
  assumes ok: "rx_ok rx" and p: "p \<in> set (neighbor_by_id rx)"
  defines "n \<equiv> nm_lldp_neighbor_start_ttl now ((rx_mem rx p)\<lparr>nb_timestamp_usec := ts\<rparr>)"
    and "rx' \<equiv> lldp_rx_callback NM_LLDP_RX_EVENT_REFRESHED p
      (lldp_rx_start_timer now (Some p) (neighbor_set p ((rx_mem rx p)\<lparr>nb_timestamp_usec := ts\<rparr>) rx))"
  shows "rx_ok rx'" "rx_table rx' = (rx_table rx)(neighbor_key (rx_mem rx p) \<mapsto> n)"
    "rx_config rx' = rx_config rx" "rx_fd rx' = rx_fd rx"
proof -
  have core: "rx_core rx" using ok by (rule rx_ok_core)
  define r where "r = neighbor_set p ((rx_mem rx p)\<lparr>nb_timestamp_usec := ts\<rparr>) rx"
  have r: "rx_core r" "p \<in> set (neighbor_by_id r)"
    using neighbor_set_linked(1) [OF core p] rx_coreD(5) [OF core, of p] p by (simp_all add: r_def)
  define t where "t = lldp_rx_start_timer now (Some p) r"
  have "\<And>x. Some p = Some x \<Longrightarrow> x \<in> set (neighbor_by_id r)" using r(2) by simp
  note t = start_timer_spec [where now = now and neighbor = "Some p", OF r(1) this, folded t_def]
  have t': "rx_mem t = (rx_mem rx)(p := n)" "neighbor_by_id t = neighbor_by_id rx" "rx_config t = rx_config rx"
      "rx_fd t = rx_fd rx" "rx_events t = rx_events rx"
    using t(2-6) by (simp_all add: r_def n_def)
  have rx': "rx' = lldp_rx_callback NM_LLDP_RX_EVENT_REFRESHED p t" by (simp add: rx'_def t_def r_def)
  have key: "neighbor_key n = neighbor_key (rx_mem rx p)" by (simp add: n_def)
  have tab: "rx_table t = (rx_table rx)(neighbor_key n \<mapsto> n)"
    by (rule rx_table_set [OF t(1) _ core t'(1)]) (use t'(2) p key in auto)
  have "rx_known t = rx_table rx" using ok t'(5) by (simp add: rx_known_def rx_ok_def)
  moreover have keep: "lldp_rx_keep_neighbor (rx_config rx) (rx_mem rx p)" using ok p by (simp add: rx_ok_def rx_values_def)
  have "rx_values t"
    using ok keep start_ttl_until [of "(rx_mem rx p)\<lparr>nb_timestamp_usec := ts\<rparr>" now] keep_ttl [OF keep]
    by (auto simp: rx_ok_def rx_values_def t' n_def)
  moreover have "neighbor_by_id t \<noteq> []" using p t'(2) by auto
  ultimately show "rx_ok rx'"
    using ok t(1,7) t' tab rx_timeout_armed [of t now]
    by (simp add: rx' rx_ok_def rx_values_def nm_lldp_rx_is_running_def)
  show "rx_table rx' = (rx_table rx)(neighbor_key (rx_mem rx p) \<mapsto> n)" "rx_config rx' = rx_config rx" "rx_fd rx' = rx_fd rx"
    using tab key t' by (simp_all add: rx')
qed

text \<open>What the receiver does with a neighbor that was parsed from a frame.\<close>

definition received :: "int \<Rightarrow> NMLldpNeighbor \<Rightarrow> NMLldpRX \<Rightarrow> NMLldpRX \<Rightarrow> bool" where
  "received now n rx rx' \<longleftrightarrow>
     (if lldp_rx_keep_neighbor (rx_config rx) n
      then (\<exists>v. rx_table rx' (neighbor_key n) = Some v \<and> nb_raw v = nb_raw n \<and>
        (0 < nb_timestamp_usec n \<longrightarrow> nb_until_usec v = nb_timestamp_usec n + int (nb_ttl v) * 1000000)) \<and>
        (if rx_table rx (neighbor_key n) = None \<or> (\<exists>v. rx_table rx (neighbor_key n) = Some v \<and> nb_raw v \<noteq> nb_raw n)
         then others_kept now (neighbor_key n) rx rx'
         else \<forall>k. k \<noteq> neighbor_key n \<longrightarrow> rx_table rx' k = rx_table rx k)
      else rx_table rx' = (rx_table rx)(neighbor_key n := None))"

lemma neighbor_equal_iff: "nm_lldp_neighbor_equal a b \<longleftrightarrow> nb_raw a = nb_raw b"
  by (auto simp: nm_lldp_neighbor_equal_def nm_lldp_neighbor_cmp_def nm_cmp_memcmp_def)

lemma start_ttl_stamped:
  "0 < nb_ttl n \<Longrightarrow> 0 < nb_timestamp_usec n \<Longrightarrow>
   nb_until_usec (nm_lldp_neighbor_start_ttl now n) = nb_timestamp_usec n + int (nb_ttl n) * 1000000"
  by (simp add: nm_lldp_neighbor_start_ttl_def)

lemma rx_table_lookup:
  assumes "rx_core rx"
  shows "by_id_lookup (nb_id n) rx = None \<Longrightarrow> rx_table rx (neighbor_key n) = None"
    "by_id_lookup (nb_id n) rx = Some p \<Longrightarrow> rx_table rx (neighbor_key n) = Some (rx_mem rx p)"
proof -
  show "rx_table rx (neighbor_key n) = None" if "by_id_lookup (nb_id n) rx = None"
    using rx_table_Some [OF assms] by_id_lookupD(2) [OF that] by (metis option.exhaust)
  show "rx_table rx (neighbor_key n) = Some (rx_mem rx p)" if "by_id_lookup (nb_id n) rx = Some p"
    using by_id_lookupD(1) [OF that] by (auto simp: rx_table_Some [OF assms])
qed

text \<open>The receiver after a neighbor was linked.\<close>

definition linked_ok :: "int \<Rightarrow> NMLldpNeighbor \<Rightarrow> NMLldpRX \<Rightarrow> NMLldpRX \<Rightarrow> bool" where
  "linked_ok now n rx rx' \<longleftrightarrow> rx_ok rx' \<and> rx_config rx' = rx_config rx \<and> rx_fd rx' = rx_fd rx \<and>
     others_kept now (neighbor_key n) rx rx' \<and>
     rx_table rx' (neighbor_key n) = Some (nm_lldp_neighbor_start_ttl now (n\<lparr>nb_linked := True\<rparr>))"

lemma link_new:
  assumes ok: "rx_core rx" "rx_values rx" "0 < neighbors_max (rx_config rx)" "nm_lldp_rx_is_running rx"
    and p: "p \<notin> set (neighbor_by_id rx)" and keep: "lldp_rx_keep_neighbor (rx_config rx) (rx_mem rx p)"
    and key: "\<forall>x\<in>set (neighbor_by_id rx). neighbor_key (rx_mem rx x) \<noteq> neighbor_key (rx_mem rx p)"
    and known: "knows_except {neighbor_key (rx_mem rx p)} rx"
  shows "\<exists>rx'. lldp_rx_link_neighbor now p has_old rx = Some rx' \<and> linked_ok now (rx_mem rx p) rx rx'"
proof (rule link_neighbor_spec [where now = now and has_old = has_old, OF ok(1) p key keep ok(2,3,4) known], goal_cases)
  case (1 rx' m)
  then show ?case using others_kept_linked [OF ok(1) 1(3) 1(2) 1(4) 1(5) 1(8)] by (simp add: linked_ok_def)
qed

lemma link_changed:
  assumes ok: "rx_ok rx" "nm_lldp_rx_is_running rx" and p: "p \<notin> set (neighbor_by_id rx)"
    and keep: "lldp_rx_keep_neighbor (rx_config rx) (rx_mem rx p)"
    and old: "old \<in> set (neighbor_by_id rx)" "neighbor_key (rx_mem rx old) = neighbor_key (rx_mem rx p)"
  shows "\<exists>rx'. lldp_rx_link_neighbor now p True (nm_lldp_neighbor_unlink old rx) = Some rx' \<and> linked_ok now (rx_mem rx p) rx rx'"
proof -
  have core: "rx_core rx" using ok(1) by (rule rx_ok_core)
  let ?k = "neighbor_key (rx_mem rx p)"
  define r where "r = nm_lldp_neighbor_unlink old rx"
  note u = unlink_spec [OF core old(1), folded r_def]
  have set: "set (neighbor_by_id r) = set (neighbor_by_id rx) - {old}" using u(2) rx_coreD(4) [OF core] by simp
  have n: "rx_mem r p = rx_mem rx p" using u(3) p old(1) by auto
  have tab: "rx_table r = (rx_table rx)(?k := None)" using rx_table_unlink [OF core old(1)] old(2) by (simp add: r_def)
  have "rx_values r" using ok(1) by (auto simp: rx_ok_def rx_values_def set u(3,4))
  moreover have "knows_except {neighbor_key (rx_mem r p)} r"
    using ok(1) by (simp add: knows_except_def tab n) (simp add: rx_known_def u(7) rx_ok_def)
  moreover have "neighbor_key (rx_mem r x) \<noteq> neighbor_key (rx_mem r p)" if "x \<in> set (neighbor_by_id r)" for x
  proof -
    have "x \<in> set (neighbor_by_id rx)" "x \<noteq> old" using that set by blast+
    then have "neighbor_key (rx_mem rx x) \<noteq> neighbor_key (rx_mem rx old)"
      using old(1) rx_coreD(6) [OF core] by (metis inj_onD)
    moreover have "rx_mem r x = rx_mem rx x" unfolding u(3) using \<open>x \<noteq> old\<close> by (rule fun_upd_other)
    ultimately show ?thesis by (simp only: n old(2) not_False_eq_True)
  qed
  moreover have "0 < neighbors_max (rx_config r)" "nm_lldp_rx_is_running r" "p \<notin> set (neighbor_by_id r)"
      "lldp_rx_keep_neighbor (rx_config r) (rx_mem r p)"
    using ok p keep by (simp_all add: rx_ok_def u(4,5) set n nm_lldp_rx_is_running_def)
  ultimately obtain rx' where "lldp_rx_link_neighbor now p True r = Some rx'" "linked_ok now (rx_mem rx p) r rx'"
    using link_new [OF u(1), of p now True] n by auto
  moreover have "linked_ok now (rx_mem rx p) r rx' \<Longrightarrow> linked_ok now (rx_mem rx p) rx rx'" for rx'
    by (simp add: linked_ok_def others_kept_def tab u(4,5))
  ultimately show ?thesis unfolding r_def by blast
qed

lemma add_neighbor_keep:
  assumes keep: "lldp_rx_keep_neighbor (rx_config rx) (rx_mem rx p)" and link: "linked_ok now (rx_mem rx p) rx rx'"
    and fresh: "rx_table rx (neighbor_key (rx_mem rx p)) = None \<or>
      (\<exists>v. rx_table rx (neighbor_key (rx_mem rx p)) = Some v \<and> nb_raw v \<noteq> nb_raw (rx_mem rx p))"
  shows "received now (rx_mem rx p) rx rx'"
  using assms start_ttl_stamped [of "(rx_mem rx p)\<lparr>nb_linked := True\<rparr>" now] keep_ttl [OF keep]
  by (simp add: received_def linked_ok_def)

lemma add_neighbor_spec:
  assumes ok: "rx_ok rx" and p: "p \<notin> set (neighbor_by_id rx)" and run: "nm_lldp_rx_is_running rx"
  shows "\<exists>rx'. lldp_rx_add_neighbor now p rx = Some rx' \<and> rx_ok rx' \<and> rx_config rx' = rx_config rx \<and>
    rx_fd rx' = rx_fd rx \<and> received now (rx_mem rx p) rx rx'"
proof (cases "by_id_lookup (nb_id (rx_mem rx p)) rx")
  case None
  let ?n = "rx_mem rx p"
  have core: "rx_core rx" using ok by (rule rx_ok_core)
  note tab = rx_table_lookup(1) [OF core None]
  show ?thesis
  proof (cases "lldp_rx_keep_neighbor (rx_config rx) ?n")
    case False
    then show ?thesis using None ok tab by (auto simp: lldp_rx_add_neighbor_def received_def)
  next
    case True
    have "knows_except {neighbor_key ?n} rx" using ok by (simp add: rx_ok_def knows_except_def)
    moreover have "\<forall>x\<in>set (neighbor_by_id rx). neighbor_key (rx_mem rx x) \<noteq> neighbor_key ?n" using by_id_lookupD(2) [OF None] by blast
    ultimately obtain rx' where rx': "lldp_rx_link_neighbor now p False rx = Some rx'" "linked_ok now ?n rx rx'"
      using link_new [OF core _ _ run p True, of now False] ok by (auto simp: rx_ok_def)
    then show ?thesis
      using None True add_neighbor_keep [OF True rx'(2)] tab by (auto simp: lldp_rx_add_neighbor_def linked_ok_def)
  qed
next
  case (Some old)
  let ?n = "rx_mem rx p"
  have core: "rx_core rx" using ok by (rule rx_ok_core)
  note tab = rx_table_lookup(2) [OF core Some]
  have old: "old \<in> set (neighbor_by_id rx)" "neighbor_key (rx_mem rx old) = neighbor_key ?n"
    using by_id_lookupD(1) [OF Some] by auto
  consider (drop) "\<not> lldp_rx_keep_neighbor (rx_config rx) ?n"
    | (same) "lldp_rx_keep_neighbor (rx_config rx) ?n" "nb_raw ?n = nb_raw (rx_mem rx old)"
    | (changed) "lldp_rx_keep_neighbor (rx_config rx) ?n" "nb_raw ?n \<noteq> nb_raw (rx_mem rx old)" by blast
  then show ?thesis
  proof cases
    case drop
    then show ?thesis
      using Some remove_neighbor_ok [OF ok old(1)] old(2) by (simp add: lldp_rx_add_neighbor_def received_def)
  next
    case same
    have "0 < nb_ttl (rx_mem rx old)" using ok old(1) keep_ttl by (auto simp: rx_ok_def rx_values_def)
    then show ?thesis
      using Some same tab refresh_neighbor_ok [OF ok old(1), where now = now and ts = "nb_timestamp_usec ?n"] old(2)
        start_ttl_stamped [of "(rx_mem rx old)\<lparr>nb_timestamp_usec := nb_timestamp_usec ?n\<rparr>" now]
      by (simp add: lldp_rx_add_neighbor_def neighbor_equal_iff received_def)
  next
    case changed
    obtain rx' where rx': "lldp_rx_link_neighbor now p True (nm_lldp_neighbor_unlink old rx) = Some rx'" "linked_ok now ?n rx rx'"
      using link_changed [OF ok run p changed(1) old] by blast
    then show ?thesis
      using Some changed(2) add_neighbor_keep [OF changed(1) rx'(2)] tab changed(1)
      by (auto simp: lldp_rx_add_neighbor_def linked_ok_def neighbor_equal_iff)
  qed
qed

section \<open>All operations\<close>

lemma neighbor_set_fresh_ok:
  assumes ok: "rx_ok rx" and p: "p \<notin> set (neighbor_by_id rx)" "\<not> nb_linked n"
  shows "rx_ok (neighbor_set p n rx)" "rx_table (neighbor_set p n rx) = rx_table rx"
proof -
  have core: "rx_core rx" "rx_core (neighbor_set p n rx)" using neighbor_set_fresh [OF rx_ok_core [OF ok] p] rx_ok_core [OF ok] by simp_all
  show tab: "rx_table (neighbor_set p n rx) = rx_table rx"
    by (rule rx_table_eqI [OF core(2)]) (use p(1) in \<open>auto simp: rx_table_Some [OF core(1)]\<close>)
  have "rx_known (neighbor_set p n rx) = rx_known rx" by (simp add: rx_known_def)
  then show "rx_ok (neighbor_set p n rx)"
    using ok core(2) p(1) tab by (auto simp: rx_ok_def rx_values_def nm_lldp_rx_is_running_def)
qed

lemma parsed_fields:
  assumes "nm_lldp_neighbor_parse utf8_end ((nm_lldp_neighbor_new raw)\<lparr>nb_timestamp_usec := ts\<rparr>) = Inr n"
  shows "\<not> nb_linked n" "nb_raw n = raw" "nb_timestamp_usec n = ts"
proof -
  have "neighbor_of_tlvs utf8_end ((nm_lldp_neighbor_new raw)\<lparr>nb_timestamp_usec := ts\<rparr>) [] =
      (nm_lldp_neighbor_new raw)\<lparr>nb_timestamp_usec := ts\<rparr>"
    by (simp add: neighbor_of_tlvs_def nm_lldp_neighbor_new_def mud_urls_def first_value_def)
  then obtain dst src tlvs where
    "n = neighbor_of_frame utf8_end ((nm_lldp_neighbor_new raw)\<lparr>nb_timestamp_usec := ts\<rparr>) dst src tlvs"
    using assms nm_lldp_neighbor_parse_iff by blast
  then show "\<not> nb_linked n" "nb_raw n = raw" "nb_timestamp_usec n = ts"
    by (simp_all add: neighbor_of_frame_def neighbor_of_tlvs_def nm_lldp_neighbor_new_def)
qed

lemma receive_datagram_spec:
  assumes ok: "rx_ok rx" and p: "p \<notin> set (neighbor_by_id rx)" and run: "nm_lldp_rx_is_running rx"
  shows "\<exists>rx'. lldp_rx_receive_datagram utf8_end c p datagram rx = Some rx' \<and> rx_ok rx' \<and> rx_config rx' = rx_config rx \<and>
    (case datagram of None \<Rightarrow> rx' = rx
     | Some raw \<Rightarrow>
         (case nm_lldp_neighbor_parse utf8_end ((nm_lldp_neighbor_new raw)\<lparr>nb_timestamp_usec := lldp_rx_timestamp c\<rparr>) of
            Inl _ \<Rightarrow> rx' = rx
          | Inr n \<Rightarrow> received (clk_monotonic_usec c) n rx rx'))"
proof (cases datagram)
  case None
  then show ?thesis using ok by (simp add: lldp_rx_receive_datagram_def)
next
  case (Some raw)
  show ?thesis
  proof (cases "nm_lldp_neighbor_parse utf8_end ((nm_lldp_neighbor_new raw)\<lparr>nb_timestamp_usec := lldp_rx_timestamp c\<rparr>)")
    case (Inl e)
    then show ?thesis using ok Some by (simp add: lldp_rx_receive_datagram_def)
  next
    case (Inr n)
    note fresh = neighbor_set_fresh_ok [OF ok p parsed_fields(1) [OF Inr]]
    have "p \<notin> set (neighbor_by_id (neighbor_set p n rx))" "nm_lldp_rx_is_running (neighbor_set p n rx)"
      using p run by (simp_all add: nm_lldp_rx_is_running_def)
    moreover have "received now n (neighbor_set p n rx) rx' = received now n rx rx'" for now rx'
      by (simp only: received_def others_kept_def fresh(2) neighbor_set_fields)
    ultimately show ?thesis
      using Some Inr add_neighbor_spec [OF fresh(1), of p "clk_monotonic_usec c"] by (auto simp: lldp_rx_receive_datagram_def)
  qed
qed

lemma on_timer_event_spec:
  assumes ok: "rx_ok rx"
  shows "\<exists>rx'. on_timer_event now rx = Some rx' \<and> rx_ok rx' \<and> rx_config rx' = rx_config rx \<and>
    rx_table rx' = (\<lambda>k. case rx_table rx k of None \<Rightarrow> None | Some v \<Rightarrow> if nb_until_usec v \<le> now then None else Some v) \<and>
    rx_timer_event_source rx' = rx_timeout now rx'"
proof -
  have core: "rx_core rx" using ok by (rule rx_ok_core)
  obtain m changed where space: "lldp_rx_make_space False 0 now rx = Some (m, changed)"
      and made: "space_made (space_limit False 0 rx) now rx m"
      and fin: "neighbor_by_id m = [] \<or> length (neighbor_by_id m) \<le> space_limit False 0 rx \<and>
        (\<forall>p\<in>set (neighbor_by_id m). now < nb_until_usec (rx_mem m p))"
      and known: "\<not> False \<and> knows_except {} rx \<longrightarrow> knows_except {} m" and "False \<longrightarrow> rx_events m = rx_events rx"
    by (rule make_space_spec [OF core, where flush = False and extra = 0 and now = now and ks = "{}"])
  have limit: "space_limit False 0 rx = neighbors_max (rx_config rx)" using ok by (simp add: space_limit_def rx_ok_def)
  have m: "rx_core m" "set (neighbor_by_id m) \<subseteq> set (neighbor_by_id rx)" "rx_config m = rx_config rx" "rx_fd m = rx_fd rx"
      "\<And>x. x \<in> set (neighbor_by_id m) \<Longrightarrow> rx_mem m x = rx_mem rx x"
    using made by (auto simp: space_made_def)
  have tab: "rx_table m k = (case rx_table rx k of None \<Rightarrow> None | Some v \<Rightarrow> if nb_until_usec v \<le> now then None else Some v)" for k
  proof (cases "rx_table m k = rx_table rx k")
    case True
    then show ?thesis
      using fin rx_table_Some [OF m(1), of k] by (auto split: option.splits)
  next
    case False
    note t = space_made_table [OF core made False]
    show ?thesis using t(1,2,3) ok by (auto simp: limit rx_ok_def split: option.splits)
  qed
  define r where "r = lldp_rx_start_timer now None m"
  note r = start_timer_spec [where now = now and neighbor = None, OF m(1), folded r_def, simplified]
  have tabr: "rx_table r = rx_table m" "rx_known r = rx_known m"
    by (rule ext) (simp_all add: rx_table_def r(2,3), simp add: rx_known_def r(6))
  have "rx_values r" using ok m(2,3,5) by (auto simp: rx_ok_def rx_values_def r(2,3,4))
  moreover have "length (neighbor_by_id r) \<le> neighbors_max (rx_config r)"
    using fin by (auto simp: r(3,4) m(3) limit)
  moreover have "nm_lldp_rx_is_running r" if "neighbor_by_id r \<noteq> []"
  proof -
    have "neighbor_by_id rx \<noteq> []" using that r(3) m(2) by auto
    then show ?thesis using ok r(5) m(4) by (simp add: rx_ok_def nm_lldp_rx_is_running_def)
  qed
  moreover have "rx_known m = rx_table m" using known ok by (simp add: rx_ok_def knows_all)
  ultimately have "rx_ok r" using ok r tabr rx_timeout_armed [of r now] by (auto simp: rx_ok_def m(3))
  moreover have "on_timer_event now rx = Some r" unfolding on_timer_event_def space by (simp add: r_def)
  ultimately show ?thesis using tab tabr(1) r m(3) by auto
qed

lemma rx_ok_empty:
  "rx_core rx \<Longrightarrow> neighbor_by_id rx = [] \<Longrightarrow> 0 < neighbors_max (rx_config rx) \<Longrightarrow> rx_ok (rx\<lparr>rx_events := []\<rparr>)"
  by (simp add: rx_ok_def rx_values_def rx_known_def rx_table_def fun_eq_iff)

lemma stop_spec:
  assumes ok: "rx_ok rx"
  shows "\<exists>r rx'. nm_lldp_rx_stop rx = Some (r, rx') \<and> rx_ok (rx'\<lparr>rx_events := []\<rparr>) \<and> neighbor_by_id rx' = [] \<and>
    \<not> nm_lldp_rx_is_running rx' \<and> rx_config rx' = rx_config rx \<and> rx_events rx' = rx_events rx \<and>
    (nm_lldp_rx_is_running rx \<longrightarrow> rx_timer_event_source rx' = None)"
proof (cases "nm_lldp_rx_is_running rx")
  case False
  then have "neighbor_by_id rx = []" using ok by (auto simp: rx_ok_def)
  then show ?thesis using False ok rx_ok_empty [of rx] by (simp add: nm_lldp_rx_stop_def rx_ok_def)
next
  case True
  let ?s = "rx\<lparr>rx_timer_event_source := None, rx_fd := - 1\<rparr>"
  have core: "rx_core ?s" using rx_ok_core [OF ok] by simp
  obtain m changed where space: "lldp_rx_make_space True 0 0 ?s = Some (m, changed)"
      and made: "space_made (space_limit True 0 ?s) 0 ?s m"
      and fin: "neighbor_by_id m = [] \<or> length (neighbor_by_id m) \<le> space_limit True 0 ?s \<and>
        (\<forall>p\<in>set (neighbor_by_id m). 0 < nb_until_usec (rx_mem m p))"
      and "\<not> True \<and> knows_except {} ?s \<longrightarrow> knows_except {} m" and ev: "True \<longrightarrow> rx_events m = rx_events ?s"
    by (rule make_space_spec [OF core, where flush = True and extra = 0 and now = 0 and ks = "{}"])
  have m: "rx_core m" "neighbor_by_id m = []" "rx_config m = rx_config rx" "rx_fd m = - 1" "rx_timer_event_source m = None"
    using made fin by (auto simp: space_made_def space_limit_def)
  moreover have "nm_lldp_rx_stop rx = Some (1, m)"
    unfolding nm_lldp_rx_stop_def lldp_rx_reset_def space using True by simp
  ultimately show ?thesis
    using ok ev rx_ok_empty [of m] by (simp add: nm_lldp_rx_is_running_def rx_ok_def)
qed

section \<open>Runs\<close>

text \<open>
  A run of the receiver: it is created, started (the socket may fail), stopped, gets datagrams while it runs, and its
  timer fires while it is armed. A datagram gets an object at an address that is not in use. Stopping drops all
  neighbors without events: the user forgets what it knows.
\<close>

inductive lldp_rx_reachable :: "(u8 list \<Rightarrow> nat) \<Rightarrow> NMLldpRX \<Rightarrow> bool" for utf8_end where
  reach_new: "(\<And>p. \<not> nb_linked (mem p)) \<Longrightarrow> lldp_rx_reachable utf8_end (nm_lldp_rx_new config mem idxs)"
| reach_start: "lldp_rx_reachable utf8_end rx \<Longrightarrow> lldp_rx_reachable utf8_end (snd (nm_lldp_rx_start r rx))"
| reach_stop: "lldp_rx_reachable utf8_end rx \<Longrightarrow> nm_lldp_rx_stop rx = Some (r, rx') \<Longrightarrow>
    lldp_rx_reachable utf8_end (rx'\<lparr>rx_events := []\<rparr>)"
| reach_datagram: "lldp_rx_reachable utf8_end rx \<Longrightarrow> nm_lldp_rx_is_running rx \<Longrightarrow> p \<notin> set (neighbor_by_id rx) \<Longrightarrow>
    lldp_rx_receive_datagram utf8_end c p datagram rx = Some rx' \<Longrightarrow> lldp_rx_reachable utf8_end rx'"
| reach_timer: "lldp_rx_reachable utf8_end rx \<Longrightarrow> rx_timer_event_source rx \<noteq> None \<Longrightarrow> on_timer_event now rx = Some rx' \<Longrightarrow>
    lldp_rx_reachable utf8_end rx'"

lemma new_ok: "(\<And>p. \<not> nb_linked (mem p)) \<Longrightarrow> rx_ok (nm_lldp_rx_new config mem idxs)"
proof -
  assume unlinked: "\<And>p. \<not> nb_linked (mem p)"
  define rx where "rx = nm_lldp_rx_new config mem idxs"
  have "objq_ok (nm_prioq_init (expiry_order mem) idxs)"
    using prioq_ok_init [OF expiry_order_ok] by (simp add: objq_ok_def objects_embed_index_def nm_prioq_init_def)
  then have "rx_core rx" "neighbor_by_id rx = []" "rx_events rx = []" "0 < neighbors_max (rx_config rx)"
    using unlinked by (simp_all add: rx_def nm_lldp_rx_new_def Let_def rx_core_def objq_content_def objq_order_def nm_prioq_init_def)
  then have "rx_ok (rx\<lparr>rx_events := []\<rparr>)" "rx\<lparr>rx_events := []\<rparr> = rx" using rx_ok_empty by simp_all
  then show ?thesis by (simp add: rx_def)
qed

lemma start_ok: "rx_ok rx \<Longrightarrow> rx_ok (snd (nm_lldp_rx_start r rx))"
proof -
  assume ok: "rx_ok rx"
  have "rx_ok (rx\<lparr>rx_fd := r\<rparr>)" if "0 \<le> r"
    using ok that by (auto simp: rx_ok_def rx_values_def rx_known_def rx_table_def fun_eq_iff nm_lldp_rx_is_running_def)
  then show ?thesis using ok by (simp add: nm_lldp_rx_start_def)
qed

lemma reachable_ok: "lldp_rx_reachable utf8_end rx \<Longrightarrow> rx_ok rx"
proof (induction rule: lldp_rx_reachable.induct)
  case (reach_new mem config idxs)
  then show ?case by (rule new_ok)
next
  case (reach_start rx r)
  then show ?case by (intro start_ok)
next
  case (reach_stop rx r rx')
  then show ?case using stop_spec [of rx] by auto
next
  case (reach_datagram rx p c datagram rx')
  then show ?case using receive_datagram_spec [of rx p utf8_end c datagram] by auto
next
  case (reach_timer rx now rx')
  then show ?case using on_timer_event_spec [of rx now] by auto
qed

lemma memcmp_n_lex:
  "nm_memcmp_n a b =
     (if nm_cmp_direct (length a) (length b) \<noteq> 0 then nm_cmp_direct (length a) (length b) else cmp_bytes a b)"
  by (simp add: nm_memcmp_n_def nm_cmp_memcmp_def)

lemma compare_order_memcmp_n: "compare_order (\<lambda>a b. nm_memcmp_n (f a) (f b))"
  unfolding memcmp_n_lex by (rule compare_order_lex [OF compare_order_key compare_order_bytes])

lemma neighbor_compare_order: "compare_order (neighbor_compare_func mem)"
  unfolding neighbor_compare_func_def nm_lldp_neighbor_id_cmp_def Let_def
  by (rule compare_order_lex [OF compare_order_memcmp_n compare_order_memcmp_n])

lemma insert_by_mset [simp]: "mset (insert_by cmp x xs) = add_mset x (mset xs)"
  by (induction xs) auto

lemma insert_by_sorted:
  assumes "compare_order cmp" "sorted_wrt (\<lambda>a b. cmp a b \<le> 0) xs"
  shows "sorted_wrt (\<lambda>a b. cmp a b \<le> 0) (insert_by cmp x xs)"
  using assms(2)
proof (induction xs)
  case (Cons y ys)
  have "set (insert_by cmp x ys) = insert x (set ys)" by (metis insert_by_mset set_mset_add_mset_insert set_mset_mset)
  then show ?case
    using Cons compare_order.cmp_trans [OF assms(1), of x y] compare_order.cmp_not_le [OF assms(1), of x y] by auto
qed simp

lemma get_neighbors_sorted:
  "mset (nm_lldp_rx_get_neighbors rx) = mset (neighbor_by_id rx) \<and>
   sorted_wrt (\<lambda>a b. neighbor_compare_func (rx_mem rx) a b \<le> 0) (nm_lldp_rx_get_neighbors rx)"
proof -
  have "mset (foldr (insert_by (neighbor_compare_func mem)) ps []) = mset ps \<and>
      sorted_wrt (\<lambda>a b. neighbor_compare_func mem a b \<le> 0) (foldr (insert_by (neighbor_compare_func mem)) ps [])" for ps mem
    by (induction ps) (auto intro: insert_by_sorted [OF neighbor_compare_order])
  then show ?thesis by (simp add: nm_lldp_rx_get_neighbors_def)
qed

section \<open>Example\<close>

definition example_config :: NMLldpRXConfig where
  "example_config = \<lparr>neighbors_max = 0, filter_address = [0, 0, 0, 0, 0, 0], capability_mask = 0, has_capability_mask = False\<rparr>"

definition example_rx :: NMLldpRX where
  "example_rx = snd (nm_lldp_rx_start 3 (nm_lldp_rx_new example_config (\<lambda>_. nm_lldp_neighbor_new []) (\<lambda>_. 0)))"

definition example_clocks :: rx_clocks where
  "example_clocks = \<lparr>clk_stamp = None, clk_boottime = 0, clk_realtime = 0, clk_offset_sec = 0, clk_monotonic_usec = 5000000\<rparr>"

definition example_stamped :: NMLldpNeighbor where
  "example_stamped =
     neighbor_of_frame ascii_end ((nm_lldp_neighbor_new example_raw)\<lparr>nb_timestamp_usec := 5000000\<rparr>)
       [0x01, 0x80, 0xC2, 0x00, 0x00, 0x0E] [2, 0, 0, 0, 0, 1] example_tlvs"

lemma example_rx_simps: "neighbor_by_id example_rx = []" "nm_lldp_rx_is_running example_rx"
    "rx_table example_rx = (\<lambda>_. None)" "rx_config example_rx = example_config\<lparr>neighbors_max := 128, capability_mask := 0xFFFF\<rparr>"
  by (simp_all add: example_rx_def nm_lldp_rx_start_def nm_lldp_rx_new_def nm_lldp_rx_is_running_def example_config_def
    rx_table_def fun_eq_iff)

lemma example_rx_reachable: "lldp_rx_reachable utf8_end example_rx"
  unfolding example_rx_def by (intro reach_start reach_new) (simp add: nm_lldp_neighbor_new_def)

lemma example_stamped_parsed:
  "nm_lldp_neighbor_parse ascii_end ((nm_lldp_neighbor_new example_raw)\<lparr>nb_timestamp_usec := lldp_rx_timestamp example_clocks\<rparr>) =
     Inr example_stamped"
proof -
  let ?n = "(nm_lldp_neighbor_new example_raw)\<lparr>nb_timestamp_usec := 5000000\<rparr>"
  have "neighbor_of_tlvs ascii_end ?n [] = ?n"
    by (simp add: neighbor_of_tlvs_def nm_lldp_neighbor_new_def mud_urls_def first_value_def)
  then have "nm_lldp_neighbor_parse ascii_end ?n = Inr example_stamped"
    unfolding example_stamped_def
    by (rule nm_lldp_neighbor_parse_frame [OF _ _ _ _ example_tlvs_accepted])
      (simp_all add: nm_lldp_neighbor_new_def example_raw_def lldp_group_address_def)
  then show ?thesis by (simp add: lldp_rx_timestamp_def example_clocks_def)
qed

lemma example_keep: "lldp_rx_keep_neighbor (rx_config example_rx) example_stamped"
  by (simp add: example_rx_simps example_config_def lldp_rx_keep_neighbor_def example_stamped_def neighbor_of_frame_def
    neighbor_of_tlvs_def tlv_values_def example_tlvs_def read_be16_def)

lemma example_received: "\<exists>rx. lldp_rx_reachable ascii_end rx \<and> (\<exists>v. rx_table rx (neighbor_key example_stamped) = Some v)"
proof -
  have "7 \<notin> set (neighbor_by_id example_rx)" by (simp add: example_rx_simps)
  then obtain rx where rx: "lldp_rx_receive_datagram ascii_end example_clocks 7 (Some example_raw) example_rx = Some rx"
      "received (clk_monotonic_usec example_clocks) example_stamped example_rx rx"
    using receive_datagram_spec [OF reachable_ok [OF example_rx_reachable] _ example_rx_simps(2), of 7 ascii_end example_clocks "Some example_raw"]
      example_stamped_parsed by auto
  then have "lldp_rx_reachable ascii_end rx"
    using reach_datagram [OF example_rx_reachable example_rx_simps(2), of 7] by (simp add: example_rx_simps)
  then show ?thesis using rx(2) example_keep by (auto simp: received_def)
qed

section \<open>Properties\<close>

text \<open>
  C15. Whatever datagrams arrive and whatever the clocks show, the receiver stays consistent: the table and the
  expiry queue hold the same neighbors, no two of which have the same identity; the queue is a heap with correct
  index variables; there are never more neighbors than configured; every neighbor passes the filters and expires its
  life time after it was received; and as long as there are neighbors the receiver runs and its timer is armed.
\<close>

theorem lldp_rx_invariant:
  assumes "lldp_rx_reachable utf8_end rx"
  shows "rx_core rx \<and> rx_values rx \<and> length (neighbor_by_id rx) \<le> neighbors_max (rx_config rx) \<and>
    (neighbor_by_id rx \<noteq> [] \<longrightarrow> nm_lldp_rx_is_running rx \<and> rx_timer_event_source rx \<noteq> None)"
  using reachable_ok [OF assms] by (simp add: rx_ok_def)

theorem lldp_rx_invariant_witness:
  "\<exists>rx. (\<exists>v. rx_table rx (neighbor_key example_stamped) = Some v) \<and>
    rx_core rx \<and> rx_values rx \<and> length (neighbor_by_id rx) \<le> neighbors_max (rx_config rx) \<and>
    (neighbor_by_id rx \<noteq> [] \<longrightarrow> nm_lldp_rx_is_running rx \<and> rx_timer_event_source rx \<noteq> None)"
  using example_received lldp_rx_invariant by blast

text \<open>
  C11. The events tell the user exactly the table: a user who remembers the neighbors of the added, updated and
  refreshed events and forgets those of the removed events has at any time all neighbors of the receiver with their
  current data, and no others.
\<close>

theorem lldp_rx_events_tell_table:
  assumes "lldp_rx_reachable utf8_end rx"
  shows "rx_known rx = rx_table rx \<and>
    mset (map (\<lambda>p. (neighbor_key (rx_mem rx p), rx_mem rx p)) (nm_lldp_rx_get_neighbors rx)) =
      mset_set {(k, n). rx_known rx k = Some n}"
proof -
  have ok: "rx_ok rx" by (rule reachable_ok [OF assms])
  then have core: "rx_core rx" and known: "rx_known rx = rx_table rx" by (simp_all add: rx_ok_def)
  let ?f = "\<lambda>p. (neighbor_key (rx_mem rx p), rx_mem rx p)"
  have "inj_on ?f (set (neighbor_by_id rx))" using rx_coreD(6) [OF core] by (auto simp: inj_on_def)
  then have d: "distinct (map ?f (neighbor_by_id rx))" using rx_coreD(4) [OF core] by (simp add: distinct_map)
  have "mset (map ?f (nm_lldp_rx_get_neighbors rx)) = mset (map ?f (neighbor_by_id rx))"
    using get_neighbors_sorted [of rx] by (metis mset_map)
  also have "\<dots> = mset_set (set (map ?f (neighbor_by_id rx)))" using d by (rule mset_set_set [symmetric])
  also have "set (map ?f (neighbor_by_id rx)) = {(k, n). rx_known rx k = Some n}"
    unfolding known by (auto simp: rx_table_Some [OF core] image_iff) metis
  finally show ?thesis using known by simp
qed

theorem lldp_rx_events_tell_table_witness:
  "\<exists>rx. (\<exists>v. rx_table rx (neighbor_key example_stamped) = Some v) \<and> rx_known rx = rx_table rx \<and>
    mset (map (\<lambda>p. (neighbor_key (rx_mem rx p), rx_mem rx p)) (nm_lldp_rx_get_neighbors rx)) =
      mset_set {(k, n). rx_known rx k = Some n}"
  using example_received lldp_rx_events_tell_table by blast

text \<open>
  C10. Receiving a valid frame always ends and does what the protocol asks for: an announcement that is to be kept is
  in the table under its identity with its data and expires its time to live after its arrival, an announcement with
  time to live zero or from the filtered address removes the neighbor; other neighbors are only removed for a new or
  changed neighbor, and only when they expired or when the table is full and they expire first.
\<close>

theorem lldp_receive_correct:
  assumes "lldp_rx_reachable utf8_end rx" "nm_lldp_rx_is_running rx" "p \<notin> set (neighbor_by_id rx)"
    and "nm_lldp_neighbor_parse utf8_end ((nm_lldp_neighbor_new raw)\<lparr>nb_timestamp_usec := lldp_rx_timestamp c\<rparr>) = Inr n"
  shows "\<exists>rx'. lldp_rx_receive_datagram utf8_end c p (Some raw) rx = Some rx' \<and> received (clk_monotonic_usec c) n rx rx'"
  using receive_datagram_spec [OF reachable_ok [OF assms(1)] assms(3,2), of utf8_end c "Some raw"] assms(4) by auto

theorem lldp_receive_correct_witness:
  "lldp_rx_keep_neighbor (rx_config example_rx) example_stamped \<and>
   (\<exists>rx'. lldp_rx_receive_datagram ascii_end example_clocks 7 (Some example_raw) example_rx = Some rx' \<and>
     received (clk_monotonic_usec example_clocks) example_stamped example_rx rx')"
  using example_keep lldp_receive_correct [OF example_rx_reachable example_rx_simps(2) _ example_stamped_parsed, of 7]
  by (simp add: example_rx_simps)

text \<open>
  C39. When the timer fires, exactly the neighbors whose time is over are removed, and the timer is armed again for
  the earliest expiry of the remaining ones, or not at all where none is left.
\<close>

theorem lldp_expiry_correct:
  assumes "lldp_rx_reachable utf8_end rx"
  shows "\<exists>rx'. on_timer_event now rx = Some rx' \<and>
    rx_table rx' = (\<lambda>k. case rx_table rx k of None \<Rightarrow> None | Some v \<Rightarrow> if nb_until_usec v \<le> now then None else Some v) \<and>
    rx_timer_event_source rx' = rx_timeout now rx'"
  using on_timer_event_spec [OF reachable_ok [OF assms]] by blast

theorem lldp_expiry_correct_witness:
  "\<exists>rx. (\<exists>v. rx_table rx (neighbor_key example_stamped) = Some v) \<and>
    (\<exists>rx'. on_timer_event 6000000 rx = Some rx' \<and>
      rx_table rx' = (\<lambda>k. case rx_table rx k of None \<Rightarrow> None | Some v \<Rightarrow> if nb_until_usec v \<le> 6000000 then None else Some v) \<and>
      rx_timer_event_source rx' = rx_timeout 6000000 rx')"
  using example_received lldp_expiry_correct [where now = 6000000] by blast

end
