(* ===== verification/NM_List_Sort.thy ===== *)
theory NM_List_Sort
  imports NM_Prelude
begin

text \<open>
  Sorting of linked lists (\<^verbatim>\<open>libnm-std-aux/c-list-util.[ch]\<close>). The merge sort is not recursive: it keeps an array
  of 70 frames and jumps between two labels. A list is what its \<^verbatim>\<open>next\<close> pointers reach; the \<^verbatim>\<open>prev\<close> pointers, which
  \<^verbatim>\<open>c_list_relink\<close> restores at the end, are not modelled. \<^verbatim>\<open>cmp\<close> is the function that the caller passes, with its
  user data.
\<close>

section \<open>The code\<close>

text \<open>
  \<^verbatim>\<open>_c_list_srt_split\<close>: one pointer goes two steps where the other goes one. The result is the first half, at which
  the list is cut, and the second half, unless the list has one element.
\<close>

fun srt_split_loop :: "'a list \<Rightarrow> nat \<Rightarrow> nat" where
  "srt_split_loop [] k = k"
| "srt_split_loop [x] k = k"
| "srt_split_loop (x # y # ls) k = (if ls = [] then k + 1 else srt_split_loop ls (k + 1))"

definition c_list_srt_split :: "'a list \<Rightarrow> 'a list \<times> 'a list option" where
  "c_list_srt_split ls =
     (if tl ls = [] then (ls, None)
      else (let k = srt_split_loop (tl ls) 0 in (take (k + 1) ls, Some (drop (k + 1) ls))))"

fun c_list_srt_merge :: "('a \<Rightarrow> 'a \<Rightarrow> int) \<Rightarrow> 'a list \<Rightarrow> 'a list \<Rightarrow> 'a list" where
  "c_list_srt_merge cmp (x # xs) (y # ys) =
     (if cmp x y \<le> 0 then x # (if xs = [] then y # ys else c_list_srt_merge cmp xs (y # ys))
      else y # (if ys = [] then x # xs else c_list_srt_merge cmp (x # xs) ys))"
| "c_list_srt_merge cmp [] ys = ys"
| "c_list_srt_merge cmp xs [] = xs"

record 'a SortStack =
  ls1 :: "'a list"
  ls2 :: "'a list option"
  ls1_sorted :: bool

datatype label = Split | Backtrack

abbreviation stack_size :: nat where "stack_size \<equiv> 70"

text \<open>
  The two labels of \<^verbatim>\<open>_c_list_sort\<close>. The result is \<^verbatim>\<open>None\<close> where the code would write behind the array, and where
  it does not end.
\<close>

partial_function (option) c_list_sort_run ::
    "('a \<Rightarrow> 'a \<Rightarrow> int) \<Rightarrow> label \<Rightarrow> 'a SortStack list \<Rightarrow> nat \<Rightarrow> 'a list option" where
  "c_list_sort_run cmp pc stack h =
     (case pc of
        Split \<Rightarrow>
          (case c_list_srt_split (ls1 (stack ! h)) of
             (a, second) \<Rightarrow>
               let stack = stack[h := (stack ! h)\<lparr>ls1 := a, ls2 := second\<rparr>]
               in if second \<noteq> None then
                    (if h + 1 < length stack then
                       (let stack = stack[h := (stack ! h)\<lparr>ls1_sorted := False\<rparr>];
                            stack = stack[h + 1 := (stack ! (h + 1))\<lparr>ls1 := ls1 (stack ! h)\<rparr>]
                        in c_list_sort_run cmp Split stack (h + 1))
                     else None)
                  else c_list_sort_run cmp Backtrack stack h)
      | Backtrack \<Rightarrow>
          (if h = 0 then Some (ls1 (stack ! 0))
           else
             (let h = h - 1
              in if \<not> ls1_sorted (stack ! h) then
                   (let stack = stack[h := (stack ! h)\<lparr>ls1 := ls1 (stack ! (h + 1)), ls1_sorted := True\<rparr>];
                        stack = stack[h + 1 := (stack ! (h + 1))\<lparr>ls1 := the (ls2 (stack ! h))\<rparr>]
                    in c_list_sort_run cmp Split stack (h + 1))
                 else
                   (let stack = stack[h := (stack ! h)\<lparr>ls1 := c_list_srt_merge cmp (ls1 (stack ! h)) (ls1 (stack ! (h + 1)))\<rparr>]
                    in c_list_sort_run cmp Backtrack stack h))))"

text \<open>The array is not initialised; \<^verbatim>\<open>garbage\<close> is what it holds.\<close>

definition c_list_sort_list :: "'a SortStack list \<Rightarrow> ('a \<Rightarrow> 'a \<Rightarrow> int) \<Rightarrow> 'a list \<Rightarrow> 'a list option" where
  "c_list_sort_list garbage cmp ls = c_list_sort_run cmp Split (garbage[0 := (garbage ! 0)\<lparr>ls1 := ls\<rparr>]) 0"

definition c_list_sort_headless :: "'a SortStack list \<Rightarrow> ('a \<Rightarrow> 'a \<Rightarrow> int) \<Rightarrow> 'a list \<Rightarrow> 'a list option" where
  "c_list_sort_headless garbage cmp lst = (if length lst > 1 then c_list_sort_list garbage cmp lst else Some lst)"

definition c_list_sort :: "'a SortStack list \<Rightarrow> ('a \<Rightarrow> 'a \<Rightarrow> int) \<Rightarrow> 'a list \<Rightarrow> 'a list option" where
  "c_list_sort garbage cmp ls = (if ls \<noteq> [] \<and> tl ls \<noteq> [] then c_list_sort_list garbage cmp ls else Some ls)"

fun c_list_length_is :: "'a list \<Rightarrow> nat \<Rightarrow> nat \<Rightarrow> bool" where
  "c_list_length_is [] check_len n \<longleftrightarrow> n = check_len"
| "c_list_length_is (x # xs) check_len n \<longleftrightarrow> (if n + 1 > check_len then False else c_list_length_is xs check_len (n + 1))"

definition c_list_is_empty_or_single :: "'a list \<Rightarrow> bool" where
  "c_list_is_empty_or_single list \<longleftrightarrow> list = [] \<or> tl list = []"

text \<open>The position of the first element that is out of order.\<close>

fun first_unsorted_loop :: "bool \<Rightarrow> ('a \<Rightarrow> 'a \<Rightarrow> int) \<Rightarrow> 'a \<Rightarrow> 'a list \<Rightarrow> nat \<Rightarrow> nat option" where
  "first_unsorted_loop ascending cmp iter_prev [] i = None"
| "first_unsorted_loop ascending cmp iter_prev (x # xs) i =
     (let c = cmp iter_prev x
      in if (if ascending then c > 0 else c < 0) then Some i else first_unsorted_loop ascending cmp x xs (i + 1))"

definition c_list_first_unsorted :: "'a list \<Rightarrow> bool \<Rightarrow> ('a \<Rightarrow> 'a \<Rightarrow> int) \<Rightarrow> nat option" where
  "c_list_first_unsorted list ascending cmp =
     (case list of [] \<Rightarrow> None | x # xs \<Rightarrow> first_unsorted_loop ascending cmp x xs 1)"

definition c_list_is_sorted :: "'a list \<Rightarrow> bool \<Rightarrow> ('a \<Rightarrow> 'a \<Rightarrow> int) \<Rightarrow> bool" where
  "c_list_is_sorted list ascending cmp \<longleftrightarrow> c_list_first_unsorted list ascending cmp = None"

fun insert_skip_equal :: "('a \<Rightarrow> 'a \<Rightarrow> int) \<Rightarrow> 'a \<Rightarrow> 'a list \<Rightarrow> 'a list" where
  "insert_skip_equal cmp elem [] = [elem]"
| "insert_skip_equal cmp elem (x # xs) = (if cmp x elem \<noteq> 0 then elem # x # xs else x # insert_skip_equal cmp elem xs)"

fun c_list_insert_sorted :: "'a list \<Rightarrow> 'a \<Rightarrow> bool \<Rightarrow> bool \<Rightarrow> ('a \<Rightarrow> 'a \<Rightarrow> int) \<Rightarrow> 'a list" where
  "c_list_insert_sorted [] elem ascending append_equal cmp = [elem]"
| "c_list_insert_sorted (x # xs) elem ascending append_equal cmp =
     (let c = cmp x elem
      in if (if ascending then c < 0 else c > 0) then x # c_list_insert_sorted xs elem ascending append_equal cmp
         else if (if ascending then c > 0 else c < 0) \<or> \<not> append_equal then elem # x # xs
         else x # insert_skip_equal cmp elem xs)"

section \<open>The recursive merge sort\<close>

lemma srt_split_loop_eq: "ls \<noteq> [] \<Longrightarrow> srt_split_loop ls k = k + length ls div 2"
  by (induction ls k rule: srt_split_loop.induct) auto

lemma c_list_srt_split_eq:
  "c_list_srt_split ls = (if length ls \<le> 1 then (ls, None)
     else (take ((length ls + 1) div 2) ls, Some (drop ((length ls + 1) div 2) ls)))"
proof (cases ls)
  case (Cons x xs)
  then show ?thesis
    by (cases xs) (auto simp: c_list_srt_split_def srt_split_loop_eq Let_def)
qed (simp add: c_list_srt_split_def)

function msort :: "('a \<Rightarrow> 'a \<Rightarrow> int) \<Rightarrow> 'a list \<Rightarrow> 'a list" where
  "msort cmp ls = (if length ls \<le> 1 then ls
     else c_list_srt_merge cmp (msort cmp (take ((length ls + 1) div 2) ls)) (msort cmp (drop ((length ls + 1) div 2) ls)))"
  by pat_completeness auto
termination by (relation "measure (\<lambda>(cmp, ls). length ls)") auto

declare msort.simps [simp del]

section \<open>The machine runs the recursive sort\<close>

lemma run_split:
  "\<lbrakk>h < length stack; length (ls1 (stack ! h)) \<le> 2 ^ d; h + d < length stack\<rbrakk> \<Longrightarrow>
    \<exists>stack'. length stack' = length stack \<and> take h stack' = take h stack \<and> ls1 (stack' ! h) = msort cmp (ls1 (stack ! h))
      \<and> c_list_sort_run cmp Split stack h = c_list_sort_run cmp Backtrack stack' h"
proof (induction d arbitrary: h stack)
  case 0
  let ?s = "stack[h := (stack ! h)\<lparr>ls2 := None\<rparr>]"
  have "c_list_sort_run cmp Split stack h = c_list_sort_run cmp Backtrack ?s h"
    using 0 by (subst c_list_sort_run.simps) (simp add: c_list_srt_split_eq)
  then show ?case using 0 by (intro exI [of _ ?s]) (simp add: msort.simps)
next
  case (Suc d)
  let ?ls = "ls1 (stack ! h)"
  show ?case
  proof (cases "length ?ls \<le> 1")
    case True
    let ?s = "stack[h := (stack ! h)\<lparr>ls2 := None\<rparr>]"
    have "c_list_sort_run cmp Split stack h = c_list_sort_run cmp Backtrack ?s h"
      using Suc.prems True by (subst c_list_sort_run.simps) (simp add: c_list_srt_split_eq)
    then show ?thesis using Suc.prems True by (intro exI [of _ ?s]) (simp add: msort.simps)
  next
    case False
    define a b where "a = take ((length ?ls + 1) div 2) ?ls" and "b = drop ((length ?ls + 1) div 2) ?ls"
    have len: "length a \<le> 2 ^ d" "length b \<le> 2 ^ d" using Suc.prems(2) by (auto simp: a_def b_def)
    have h1: "Suc h < length stack" "Suc h + d < length stack" using Suc.prems(3) by simp_all
    define s1 where "s1 = stack[h := (stack ! h)\<lparr>ls1 := a, ls2 := Some b, ls1_sorted := False\<rparr>,
        Suc h := (stack ! Suc h)\<lparr>ls1 := a\<rparr>]"
    have e1: "c_list_sort_run cmp Split stack h = c_list_sort_run cmp Split s1 (Suc h)"
      using h1 False by (subst c_list_sort_run.simps) (simp add: c_list_srt_split_eq a_def b_def s1_def)
    obtain s2 where s2: "length s2 = length stack" "take (Suc h) s2 = take (Suc h) s1" "ls1 (s2 ! Suc h) = msort cmp a"
        "c_list_sort_run cmp Split s1 (Suc h) = c_list_sort_run cmp Backtrack s2 (Suc h)"
      using Suc.IH [of "Suc h" s1] len(1) h1 by (auto simp: s1_def)
    have s2h: "s2 ! h = (stack ! h)\<lparr>ls1 := a, ls2 := Some b, ls1_sorted := False\<rparr>"
      using arg_cong [OF s2(2), of "\<lambda>xs. xs ! h"] h1 by (simp add: s1_def)
    define s3 where "s3 = s2[h := (s2 ! h)\<lparr>ls1 := msort cmp a, ls1_sorted := True\<rparr>,
        Suc h := (s2 ! Suc h)\<lparr>ls1 := b\<rparr>]"
    have e2: "c_list_sort_run cmp Backtrack s2 (Suc h) = c_list_sort_run cmp Split s3 (Suc h)"
      using h1 s2(1,3) s2h by (subst c_list_sort_run.simps) (simp add: s3_def)
    obtain s4 where s4: "length s4 = length stack" "take (Suc h) s4 = take (Suc h) s3" "ls1 (s4 ! Suc h) = msort cmp b"
        "c_list_sort_run cmp Split s3 (Suc h) = c_list_sort_run cmp Backtrack s4 (Suc h)"
      using Suc.IH [of "Suc h" s3] len(2) h1 s2(1) by (auto simp: s3_def)
    have s4h: "s4 ! h = (s2 ! h)\<lparr>ls1 := msort cmp a, ls1_sorted := True\<rparr>"
      using arg_cong [OF s4(2), of "\<lambda>xs. xs ! h"] h1 s2(1) by (simp add: s3_def)
    define s5 where "s5 = s4[h := (s4 ! h)\<lparr>ls1 := c_list_srt_merge cmp (msort cmp a) (msort cmp b)\<rparr>]"
    have e3: "c_list_sort_run cmp Backtrack s4 (Suc h) = c_list_sort_run cmp Backtrack s5 h"
      using s4(3) s4h by (subst c_list_sort_run.simps) (simp add: s5_def)
    have "take h s5 = take h stack"
    proof -
      have "take h s5 = take h (take (Suc h) s4)" by (simp add: s5_def)
      also have "\<dots> = take h (take (Suc h) s2)" by (simp add: s4(2) s3_def)
      also have "\<dots> = take h stack" by (simp add: s2(2) s1_def)
      finally show ?thesis .
    qed
    moreover have "ls1 (s5 ! h) = msort cmp ?ls"
      using False h1 s4(1) by (subst msort.simps) (simp add: s5_def a_def b_def)
    ultimately show ?thesis using e1 s2(4) e2 s4(4) e3 s4(1) by (intro exI [of _ s5]) (simp add: s5_def)
  qed
qed

lemma c_list_sort_list_eq:
  assumes "length garbage = stack_size" and "length ls \<le> 2 ^ 69"
  shows "c_list_sort_list garbage cmp ls = Some (msort cmp ls)"
proof -
  let ?s = "garbage[0 := (garbage ! 0)\<lparr>ls1 := ls\<rparr>]"
  obtain s' where "ls1 (s' ! 0) = msort cmp ls" "c_list_sort_run cmp Split ?s 0 = c_list_sort_run cmp Backtrack s' 0"
    using run_split [of 0 ?s 69 cmp] assms by auto
  then show ?thesis unfolding c_list_sort_list_def by (subst (asm) (2) c_list_sort_run.simps) simp
qed

section \<open>What sorting promises\<close>

lemma c_list_srt_merge_Nil [simp]: "c_list_srt_merge cmp xs [] = xs"
  by (cases xs) simp_all

lemma mset_c_list_srt_merge [simp]: "mset (c_list_srt_merge cmp xs ys) = mset xs + mset ys"
  by (induction cmp xs ys rule: c_list_srt_merge.induct) auto

lemma set_c_list_srt_merge [simp]: "set (c_list_srt_merge cmp xs ys) = set xs \<union> set ys"
  using arg_cong [OF mset_c_list_srt_merge [of cmp xs ys], of set_mset] unfolding set_mset_union set_mset_mset .

text \<open>Induction over two lists of which one loses its head, and over the halves of a list.\<close>

lemma merge_induct [case_names Both Left Right]:
  assumes "\<And>x xs y ys. P xs (y # ys) \<Longrightarrow> P (x # xs) ys \<Longrightarrow> P (x # xs) (y # ys)"
    and "\<And>ys. P [] ys" and "\<And>xs. P xs []"
  shows "P xs ys"
proof (induction xs arbitrary: ys)
  case (Cons x xs)
  note outer = this
  show ?case by (induction ys) (simp_all add: assms outer)
qed (rule assms)

lemma half_induct [case_names Step]:
  assumes "\<And>ls. (length ls > 1 \<Longrightarrow> P (take ((length ls + 1) div 2) ls)) \<Longrightarrow>
    (length ls > 1 \<Longrightarrow> P (drop ((length ls + 1) div 2) ls)) \<Longrightarrow> P ls"
  shows "P ls"
  by (induction ls rule: length_induct) (rule assms, auto)

lemma mset_msort: "mset (msort cmp ls) = mset ls"
proof (induction cmp ls rule: msort.induct)
  case (1 cmp ls)
  let ?n = "(length ls + 1) div 2"
  have "mset (take ?n ls) + mset (drop ?n ls) = mset ls"
    by (metis append_take_drop_id mset_append)
  then show ?case using 1 by (subst msort.simps) auto
qed

context compare_order
begin

lemma merge_sorted:
  "\<lbrakk>sorted_wrt (\<lambda>x y. cmp x y \<le> 0) xs; sorted_wrt (\<lambda>x y. cmp x y \<le> 0) ys\<rbrakk> \<Longrightarrow>
    sorted_wrt (\<lambda>x y. cmp x y \<le> 0) (c_list_srt_merge cmp xs ys)"
proof (induction xs ys rule: merge_induct)
  case (Both x xs y ys)
  then show ?case using cmp_trans [of x y] cmp_trans [of y x] cmp_not_le [of x y] by auto
qed auto

lemma merge_stable:
  "\<lbrakk>sorted_wrt (\<lambda>x y. cmp x y \<le> 0) xs; sorted_wrt (\<lambda>x y. cmp x y \<le> 0) ys\<rbrakk> \<Longrightarrow>
    filter (\<lambda>y. cmp z y = 0) (c_list_srt_merge cmp xs ys) = filter (\<lambda>y. cmp z y = 0) xs @ filter (\<lambda>y. cmp z y = 0) ys"
proof (induction xs ys rule: merge_induct)
  case (Both x xs y ys)
  show ?case
  proof (cases "cmp x y \<le> 0")
    case False
    have "cmp z v \<noteq> 0" if "cmp z y = 0" and "v \<in> set (x # xs)" for v
    proof
      assume "cmp z v = 0"
      then have "cmp v z \<le> 0" using cmp_antisym [of z v] by linarith
      moreover have "cmp x v \<le> 0" using that(2) Both.prems(1) cmp_refl [of x] by auto
      ultimately show False using cmp_trans [of x v y] cmp_trans [of v z y] that(1) False by auto
    qed
    then have "filter (\<lambda>y. cmp z y = 0) (x # xs) = []" if "cmp z y = 0"
      unfolding filter_empty_conv using that by blast
    then show ?thesis using Both False by auto
  qed (use Both in auto)
qed auto

lemma msort_sorted: "sorted_wrt (\<lambda>x y. cmp x y \<le> 0) (msort cmp ls)"
proof (induction ls rule: half_induct)
  case (Step ls)
  have "sorted_wrt (\<lambda>x y. cmp x y \<le> 0) ls" if "length ls \<le> 1"
    using that by (cases ls) auto
  then show ?case using Step by (subst msort.simps) (auto intro: merge_sorted)
qed

lemma msort_stable: "filter (\<lambda>y. cmp z y = 0) (msort cmp ls) = filter (\<lambda>y. cmp z y = 0) ls"
proof (induction ls rule: half_induct)
  case (Step ls)
  let ?n = "(length ls + 1) div 2"
  have "filter (\<lambda>y. cmp z y = 0) (take ?n ls) @ filter (\<lambda>y. cmp z y = 0) (drop ?n ls) = filter (\<lambda>y. cmp z y = 0) ls"
    by (metis append_take_drop_id filter_append)
  then show ?case using Step
    by (subst msort.simps) (auto simp: merge_stable msort_sorted)
qed

lemma first_unsorted_loop_None:
  "first_unsorted_loop True cmp x xs i = None \<longleftrightarrow> sorted_wrt (\<lambda>x y. cmp x y \<le> 0) (x # xs)"
proof (induction xs arbitrary: x i)
  case (Cons y ys)
  have "(\<forall>v \<in> set ys. cmp x v \<le> 0)" if "cmp x y \<le> 0" "\<forall>v \<in> set ys. cmp y v \<le> 0"
    using that cmp_trans by blast
  then show ?case using Cons [of y] by (auto simp: Let_def)
qed simp

lemma is_sorted_iff: "c_list_is_sorted ls True cmp \<longleftrightarrow> sorted_wrt (\<lambda>x y. cmp x y \<le> 0) ls"
  by (cases ls) (auto simp: c_list_is_sorted_def c_list_first_unsorted_def first_unsorted_loop_None)

lemma insert_skip_equal_eq:
  assumes "sorted_wrt (\<lambda>x y. cmp x y \<le> 0) xs" and "\<forall>x \<in> set xs. cmp x e \<ge> 0"
  shows "insert_skip_equal cmp e xs = filter (\<lambda>x. cmp x e \<le> 0) xs @ e # filter (\<lambda>x. \<not> cmp x e \<le> 0) xs"
  using assms
proof (induction xs)
  case (Cons x xs)
  have "\<not> cmp v e \<le> 0" if "cmp x e \<noteq> 0" "v \<in> set xs" for v
    using cmp_trans [of x v e] Cons.prems that by fastforce
  then have "filter (\<lambda>x. cmp x e \<le> 0) xs = []" "filter (\<lambda>x. \<not> cmp x e \<le> 0) xs = xs" if "cmp x e \<noteq> 0"
    unfolding filter_empty_conv filter_id_conv using that by blast+
  then show ?case using Cons by auto
qed simp

text \<open>The elements of a sorted list that the new one goes behind.\<close>

lemma insert_sorted_eq:
  assumes "sorted_wrt (\<lambda>x y. cmp x y \<le> 0) xs"
  shows "c_list_insert_sorted xs e True app cmp =
    filter (\<lambda>x. cmp x e < 0 \<or> app \<and> cmp x e = 0) xs @ e # filter (\<lambda>x. \<not> (cmp x e < 0 \<or> app \<and> cmp x e = 0)) xs"
  using assms
proof (induction xs)
  case (Cons x xs)
  have ge: "cmp v e \<ge> 0" if "cmp x e \<ge> 0" "v \<in> set xs" for v
    using cmp_trans [of e x v] Cons.prems that cmp_antisym [of x e] cmp_antisym [of v e] cmp_antisym [of e x] by fastforce
  have gt: "cmp v e > 0" if "cmp x e > 0" "v \<in> set xs" for v
    using cmp_trans [of x v e] Cons.prems that by fastforce
  consider "cmp x e < 0" | "cmp x e > 0" | "cmp x e = 0" by linarith
  then show ?case
  proof cases
    case 2
    then have "filter (\<lambda>x. cmp x e < 0 \<or> app \<and> cmp x e = 0) xs = []"
        "filter (\<lambda>x. \<not> (cmp x e < 0 \<or> app \<and> cmp x e = 0)) xs = xs"
      unfolding filter_empty_conv filter_id_conv using gt by fastforce+
    then show ?thesis using 2 by simp
  next
    case 3
    show ?thesis
    proof (cases app)
      case True
      then show ?thesis using 3 ge Cons.prems insert_skip_equal_eq [of xs e]
        by (auto simp: le_less intro!: arg_cong2 [of _ _ _ _ "(@)"] filter_cong)
    next
      case False
      then have "filter (\<lambda>x. cmp x e < 0 \<or> app \<and> cmp x e = 0) xs = []"
          "filter (\<lambda>x. \<not> (cmp x e < 0 \<or> app \<and> cmp x e = 0)) xs = xs"
        unfolding filter_empty_conv filter_id_conv using ge 3 by fastforce+
      then show ?thesis using 3 False by simp
    qed
  qed (use Cons in simp)
qed simp

lemma insert_sorted_places:
  assumes "c_list_is_sorted xs True cmp"
  shows "c_list_is_sorted (c_list_insert_sorted xs e True app cmp) True cmp \<and>
    (\<exists>before after. c_list_insert_sorted xs e True app cmp = before @ e # after \<and> xs = before @ after \<and>
      (\<forall>x \<in> set before. cmp x e < 0 \<or> app \<and> cmp x e = 0) \<and>
      (\<forall>x \<in> set after. cmp x e > 0 \<or> \<not> app \<and> cmp x e = 0))"
proof -
  let ?P = "\<lambda>x. cmp x e < 0 \<or> app \<and> cmp x e = 0"
  have sorted: "sorted_wrt (\<lambda>x y. cmp x y \<le> 0) xs" using assms by (simp add: is_sorted_iff)
  have down: "?P x" if "?P y" "cmp x y \<le> 0" for x y
    using that cmp_trans [of x y e] cmp_trans [of e x y] cmp_antisym [of x e] cmp_antisym [of e x]
      cmp_antisym [of y e] cmp_antisym [of e y] by force
  have eq: "xs = filter ?P xs @ filter (\<lambda>x. \<not> ?P x) xs"
    using sorted
  proof (induction xs)
    case (Cons x xs)
    have "filter ?P xs = []" "filter (\<lambda>x. \<not> ?P x) xs = xs" if "\<not> ?P x"
      unfolding filter_empty_conv filter_id_conv using that down [of _ x] Cons.prems by auto
    then show ?case using Cons by auto
  qed simp
  have "sorted_wrt (\<lambda>x y. cmp x y \<le> 0) (filter ?P xs @ e # filter (\<lambda>x. \<not> ?P x) xs)"
    using arg_cong [OF eq, of "sorted_wrt (\<lambda>x y. cmp x y \<le> 0)"] sorted cmp_not_less [of _ e]
    by (auto simp: sorted_wrt_append)
  then show ?thesis
    unfolding is_sorted_iff insert_sorted_eq [OF sorted]
    by (intro conjI exI [of _ "filter ?P xs"] exI [of _ "filter (\<lambda>x. \<not> ?P x) xs"] refl eq) auto
qed

lemma compare_order_flip: "compare_order (\<lambda>a b. - cmp a b)"
proof
  fix a b c
  show "- cmp a b < 0 \<longleftrightarrow> 0 < - cmp b a" using cmp_antisym [of b a] by linarith
  assume "- cmp a b \<le> 0" "- cmp b c \<le> 0"
  then show "- cmp a c \<le> 0"
    using cmp_trans [of c b a] cmp_antisym [of a b] cmp_antisym [of b c] cmp_antisym [of a c] by linarith
qed

end

text \<open>Descending order is ascending order of the opposite comparison.\<close>

lemma first_unsorted_flip:
  "c_list_first_unsorted ls False cmp = c_list_first_unsorted ls True (\<lambda>a b. - cmp a b)"
proof -
  have "first_unsorted_loop False cmp x xs i = first_unsorted_loop True (\<lambda>a b. - cmp a b) x xs i" for x xs i
    by (induction xs arbitrary: x i) (auto simp: Let_def)
  then show ?thesis by (cases ls) (simp_all add: c_list_first_unsorted_def)
qed

lemma insert_sorted_flip:
  "c_list_insert_sorted ls e False app cmp = c_list_insert_sorted ls e True app (\<lambda>a b. - cmp a b)"
proof -
  have "insert_skip_equal cmp e xs = insert_skip_equal (\<lambda>a b. - cmp a b) e xs" for xs
    by (induction xs) auto
  then show ?thesis by (induction ls) (auto simp: Let_def)
qed

lemma c_list_sort_eq:
  assumes "length garbage = stack_size" and "length ls \<le> 2 ^ 69"
  shows "c_list_sort garbage cmp ls = Some (msort cmp ls)"
  using c_list_sort_list_eq [OF assms] by (cases ls) (auto simp: c_list_sort_def msort.simps)

section \<open>Properties\<close>

text \<open>
  C19. \<^verbatim>\<open>c_list_sort\<close> sorts with its 70 frames any list of at most $2^{69}$ elements, whatever the uninitialised
  frames hold: it returns, the array does not overflow, and the result has the same elements in ascending order with
  those that compare equal in the order that they had.
\<close>

theorem c_list_sort_correct:
  assumes "compare_order cmp" and "length garbage = stack_size" and "length ls \<le> 2 ^ 69"
  shows "\<exists>ys. c_list_sort garbage cmp ls = Some ys \<and> mset ys = mset ls \<and> sorted_wrt (\<lambda>x y. cmp x y \<le> 0) ys
    \<and> (\<forall>z. filter (\<lambda>y. cmp z y = 0) ys = filter (\<lambda>y. cmp z y = 0) ls)"
  by (simp add: c_list_sort_eq [OF assms(2,3)] mset_msort compare_order.msort_sorted [OF assms(1)]
      compare_order.msort_stable [OF assms(1)])

text \<open>Numbers compared by their tens, on a stack that holds nothing yet.\<close>

definition cmp_tens :: "nat \<Rightarrow> nat \<Rightarrow> int" where
  "cmp_tens x y = int (x div 10) - int (y div 10)"

lemma cmp_tens_order: "compare_order cmp_tens"
  by unfold_locales (auto simp: cmp_tens_def)

definition no_frames :: "nat SortStack list" where
  "no_frames = replicate stack_size \<lparr>ls1 = [], ls2 = None, ls1_sorted = True\<rparr>"

theorem c_list_sort_correct_witness:
  "\<exists>ys. c_list_sort no_frames cmp_tens [31, 15, 38, 12, 9] = Some ys \<and> mset ys = {#9, 12, 15, 31, 38#}
    \<and> sorted_wrt (\<lambda>x y. cmp_tens x y \<le> 0) ys \<and> filter (\<lambda>y. cmp_tens 10 y = 0) ys = [15, 12]"
proof -
  have "\<exists>ys. c_list_sort no_frames cmp_tens [31, 15, 38, 12, 9] = Some ys \<and> mset ys = mset [31, 15, 38, 12, 9]
    \<and> sorted_wrt (\<lambda>x y. cmp_tens x y \<le> 0) ys
    \<and> (\<forall>z. filter (\<lambda>y. cmp_tens z y = 0) ys = filter (\<lambda>y. cmp_tens z y = 0) [31, 15, 38, 12, 9])"
    by (rule c_list_sort_correct) (simp_all add: cmp_tens_order no_frames_def)
  then obtain ys where ys: "c_list_sort no_frames cmp_tens [31, 15, 38, 12, 9] = Some ys" "mset ys = mset [31, 15, 38, 12, 9]"
      "sorted_wrt (\<lambda>x y. cmp_tens x y \<le> 0) ys"
      "\<forall>z. filter (\<lambda>y. cmp_tens z y = 0) ys = filter (\<lambda>y. cmp_tens z y = 0) [31, 15, 38, 12, 9]"
    by blast
  have "filter (\<lambda>y. cmp_tens 10 y = 0) ys = [15, 12]" using spec [OF ys(4), of 10] by (simp add: cmp_tens_def)
  then show ?thesis using ys(1-3) by (intro exI [of _ ys]) simp
qed

text \<open>
  \<^verbatim>\<open>c_list_insert_sorted\<close> keeps a list sorted in either direction: the new element stands behind all that come
  before it and in front of all that come after it, and behind or in front of the equal ones as \<^verbatim>\<open>append_equal\<close> says.
\<close>

theorem c_list_insert_sorted_correct:
  assumes "compare_order cmp" and "c_list_is_sorted ls ascending cmp"
  shows "c_list_is_sorted (c_list_insert_sorted ls e ascending app cmp) ascending cmp \<and>
    (\<exists>before after. c_list_insert_sorted ls e ascending app cmp = before @ e # after \<and> ls = before @ after \<and>
      (\<forall>x \<in> set before. (if ascending then cmp x e < 0 else cmp x e > 0) \<or> app \<and> cmp x e = 0) \<and>
      (\<forall>x \<in> set after. (if ascending then cmp x e > 0 else cmp x e < 0) \<or> \<not> app \<and> cmp x e = 0))"
proof (cases ascending)
  case True
  then show ?thesis using compare_order.insert_sorted_places [OF assms(1), of ls e app] assms(2) by simp
next
  case False
  have "compare_order (\<lambda>a b. - cmp a b)" by (rule compare_order.compare_order_flip [OF assms(1)])
  from compare_order.insert_sorted_places [OF this, of ls e app] show ?thesis
    using False assms(2) by (simp add: c_list_is_sorted_def first_unsorted_flip insert_sorted_flip)
qed

theorem c_list_insert_sorted_correct_witness:
  "c_list_is_sorted (c_list_insert_sorted [38, 31, 15, 9] 35 False True cmp_tens) False cmp_tens \<and>
    c_list_insert_sorted [38, 31, 15, 9] 35 False True cmp_tens = [38, 31, 35, 15, 9]"
  using c_list_insert_sorted_correct [of cmp_tens "[38, 31, 15, 9]" False 35 True]
  by (simp add: cmp_tens_order) (simp add: c_list_is_sorted_def c_list_first_unsorted_def cmp_tens_def Let_def)

end
