(* ===== verification/NM_Dedup_Multi.thy ===== *)
theory NM_Dedup_Multi
  imports NM_List_Sort
begin

text \<open>
  The index of deduplicated objects (\<^verbatim>\<open>libnm-glib-aux/nm-dedup-multi.[ch]\<close>), in which the platform cache and
  the layer 3 configuration keep their addresses and routes. Objects that are equal and have the same hash
  value are stored once and are reference counted. An index type (\<^verbatim>\<open>NMDedupMultiIdxType\<close>) has its objects in partitions; a partition is an
  ordered list of entries, of which no two have the same identity.

  Objects and entries have addresses, those of new ones are arguments. The hash table \<^verbatim>\<open>idx_entries\<close> has exactly the entries that are
  linked in the lists; the model looks them up there, by equality: the contract of an index type is that its hash
  functions agree with the equality of identities and partitions. The callers may pass results of earlier lookups to save a
  lookup, which the code asserts to be what the lookup gives: the model makes the lookup.
\<close>

section \<open>Data\<close>

record 'v dobj =
  o_val :: 'v
  o_multi_idx :: "nat option"
  o_ref_count :: nat

record NMDedupMultiEntry =
  e_ptr :: nat
  e_obj :: nat
  e_dirty :: bool

record NMDedupMultiHeadEntry =
  lst_entries :: "NMDedupMultiEntry list"
  he_len :: nat

record ('t, 'v) NMDedupMultiIndex =
  dm_self :: nat
  dm_ref_count :: nat
  idx_objs :: "nat list"
  dm_mem :: "nat \<Rightarrow> 'v dobj"
  dm_types :: "'t list"
  lst_idx_head :: "'t \<Rightarrow> NMDedupMultiHeadEntry list"
  idx_len :: "'t \<Rightarrow> nat"

text \<open>
  The functions of the classes of index types and objects. An index type without partitions has none. The function
  \<open>nm_hash\<close> is what \<^verbatim>\<open>nm_hash_init\<close> and \<^verbatim>\<open>nm_hash_complete\<close> make of a seed and the values that are fed in between:
  a keyed hash, of which the code uses only that it is a function. It is the value under which \<^verbatim>\<open>glib\<close> keeps the
  object in the table.
\<close>

record ('t, 'v) dedup_class =
  idx_obj_id_equal :: "'t \<Rightarrow> 'v \<Rightarrow> 'v \<Rightarrow> bool"
  idx_obj_partitionable :: "'t \<Rightarrow> 'v \<Rightarrow> bool"
  idx_obj_partition_equal :: "'t \<Rightarrow> ('v \<Rightarrow> 'v \<Rightarrow> bool) option"
  obj_needs_clone :: "'v \<Rightarrow> bool"
  obj_full_hash_update :: "'v \<Rightarrow> hash_input"
  obj_full_equal :: "'v \<Rightarrow> 'v \<Rightarrow> bool"
  nm_hash :: "u32 \<Rightarrow> hash_input \<Rightarrow> u32"

datatype NMDedupMultiIdxMode =
  NM_DEDUP_MULTI_IDX_MODE_PREPEND | NM_DEDUP_MULTI_IDX_MODE_PREPEND_FORCE
| NM_DEDUP_MULTI_IDX_MODE_APPEND | NM_DEDUP_MULTI_IDX_MODE_APPEND_FORCE

abbreviation NM_OBJ_REF_COUNT_STACKINIT :: nat where "NM_OBJ_REF_COUNT_STACKINIT \<equiv> 2147483647"

abbreviation dval :: "('t, 'v) NMDedupMultiIndex \<Rightarrow> nat \<Rightarrow> 'v" where
  "dval s a \<equiv> o_val (dm_mem s a)"

definition nm_dedup_multi_index_new :: "nat \<Rightarrow> (nat \<Rightarrow> 'v dobj) \<Rightarrow> ('t, 'v) NMDedupMultiIndex" where
  "nm_dedup_multi_index_new self mem =
     \<lparr>dm_self = self, dm_ref_count = 1, idx_objs = [], dm_mem = mem, dm_types = [], lst_idx_head = (\<lambda>_. []), idx_len = (\<lambda>_. 0)\<rparr>"

definition nm_dedup_multi_idx_type_init :: "'t \<Rightarrow> ('t, 'v) NMDedupMultiIndex \<Rightarrow> ('t, 'v) NMDedupMultiIndex" where
  "nm_dedup_multi_idx_type_init t s =
     s\<lparr>dm_types := List.insert t (dm_types s), lst_idx_head := (lst_idx_head s)(t := []), idx_len := (idx_len s)(t := 0)\<rparr>"

section \<open>Objects\<close>

definition nm_dedup_multi_obj_ref :: "nat \<Rightarrow> ('t, 'v) NMDedupMultiIndex \<Rightarrow> ('t, 'v) NMDedupMultiIndex" where
  "nm_dedup_multi_obj_ref a s = s\<lparr>dm_mem := (dm_mem s)(a := (dm_mem s a)\<lparr>o_ref_count := o_ref_count (dm_mem s a) + 1\<rparr>)\<rparr>"

definition nm_dedup_multi_index_obj_release :: "nat \<Rightarrow> ('t, 'v) NMDedupMultiIndex \<Rightarrow> ('t, 'v) NMDedupMultiIndex" where
  "nm_dedup_multi_index_obj_release a s =
     s\<lparr>dm_mem := (dm_mem s)(a := (dm_mem s a)\<lparr>o_multi_idx := None\<rparr>), idx_objs := remove1 a (idx_objs s)\<rparr>"

text \<open>
  An object that is in another index is released from that index, of which the model has only the pointer in the
  object. An object without references is destroyed.
\<close>

definition nm_dedup_multi_obj_unref :: "nat \<Rightarrow> ('t, 'v) NMDedupMultiIndex \<Rightarrow> ('t, 'v) NMDedupMultiIndex" where
  "nm_dedup_multi_obj_unref a s =
     (let r = o_ref_count (dm_mem s a) - 1;
          s = (if r = 0 \<and> o_multi_idx (dm_mem s a) = Some (dm_self s) then nm_dedup_multi_index_obj_release a s
               else if r = 0 then s\<lparr>dm_mem := (dm_mem s)(a := (dm_mem s a)\<lparr>o_multi_idx := None\<rparr>)\<rparr>
               else s)
      in s\<lparr>dm_mem := (dm_mem s)(a := (dm_mem s a)\<lparr>o_ref_count := r\<rparr>)\<rparr>)"

definition dict_idx_objs_hash :: "('t, 'v) dedup_class \<Rightarrow> ('t, 'v) NMDedupMultiIndex \<Rightarrow> nat \<Rightarrow> u32" where
  "dict_idx_objs_hash c s a = nm_hash c 1748638583 (obj_full_hash_update c (dval s a))"

definition dict_idx_objs_equal :: "('t, 'v) dedup_class \<Rightarrow> ('t, 'v) NMDedupMultiIndex \<Rightarrow> nat \<Rightarrow> nat \<Rightarrow> bool" where
  "dict_idx_objs_equal c s a b \<longleftrightarrow> a = b \<or> obj_full_equal c (dval s a) (dval s b)"

text \<open>
  The hash table \<^verbatim>\<open>idx_objs\<close> compares an object only with those of the same hash value; of the objects that are equal it
  does not find those with another hash value.
\<close>

definition nm_dedup_multi_index_obj_find ::
    "('t, 'v) dedup_class \<Rightarrow> nat \<Rightarrow> ('t, 'v) NMDedupMultiIndex \<Rightarrow> nat option" where
  "nm_dedup_multi_index_obj_find c a s =
     List.find (\<lambda>b. dict_idx_objs_hash c s b = dict_idx_objs_hash c s a \<and> dict_idx_objs_equal c s a b) (idx_objs s)"

definition nm_dedup_multi_obj_needs_clone :: "('t, 'v) dedup_class \<Rightarrow> 'v dobj \<Rightarrow> bool" where
  "nm_dedup_multi_obj_needs_clone c ob \<longleftrightarrow>
     o_multi_idx ob \<noteq> None \<or> o_ref_count ob = NM_OBJ_REF_COUNT_STACKINIT \<or> obj_needs_clone c (o_val ob)"

definition nm_dedup_multi_index_obj_intern ::
    "('t, 'v) dedup_class \<Rightarrow> nat \<Rightarrow> nat \<Rightarrow> ('t, 'v) NMDedupMultiIndex \<Rightarrow> nat \<times> ('t, 'v) NMDedupMultiIndex" where
  "nm_dedup_multi_index_obj_intern c fresh a s =
     (if o_multi_idx (dm_mem s a) = Some (dm_self s) then (a, nm_dedup_multi_obj_ref a s)
      else
        (case nm_dedup_multi_index_obj_find c a s of
           Some obj_old \<Rightarrow> (obj_old, nm_dedup_multi_obj_ref obj_old s)
         | None \<Rightarrow>
             (let (n, s) =
                    (if nm_dedup_multi_obj_needs_clone c (dm_mem s a)
                     then (fresh, s\<lparr>dm_mem := (dm_mem s)(fresh := \<lparr>o_val = dval s a, o_multi_idx = None, o_ref_count = 1\<rparr>)\<rparr>)
                     else (a, nm_dedup_multi_obj_ref a s))
              in (n, s\<lparr>idx_objs := n # idx_objs s, dm_mem := (dm_mem s)(n := (dm_mem s n)\<lparr>o_multi_idx := Some (dm_self s)\<rparr>)\<rparr>))))"

section \<open>Lookup\<close>

fun find_index :: "('a \<Rightarrow> bool) \<Rightarrow> 'a list \<Rightarrow> nat option" where
  "find_index P [] = None"
| "find_index P (x # xs) = (if P x then Some 0 else map_option Suc (find_index P xs))"

definition nm_dedup_multi_idx_type_id_equal ::
    "('t, 'v) dedup_class \<Rightarrow> ('t, 'v) NMDedupMultiIndex \<Rightarrow> 't \<Rightarrow> nat \<Rightarrow> nat \<Rightarrow> bool" where
  "nm_dedup_multi_idx_type_id_equal c s t a b \<longleftrightarrow> a = b \<or> idx_obj_id_equal c t (dval s a) (dval s b)"

definition nm_dedup_multi_idx_type_partition_equal ::
    "('t, 'v) dedup_class \<Rightarrow> ('t, 'v) NMDedupMultiIndex \<Rightarrow> 't \<Rightarrow> nat \<Rightarrow> nat \<Rightarrow> bool" where
  "nm_dedup_multi_idx_type_partition_equal c s t a b =
     (case idx_obj_partition_equal c t of None \<Rightarrow> True | Some f \<Rightarrow> a = b \<or> f (dval s a) (dval s b))"

text \<open>The key of an entry in \<^verbatim>\<open>idx_entries\<close> equals that of the object that is looked up.\<close>

definition dict_idx_entries_equal ::
    "('t, 'v) dedup_class \<Rightarrow> ('t, 'v) NMDedupMultiIndex \<Rightarrow> 't \<Rightarrow> bool \<Rightarrow> nat \<Rightarrow> nat \<Rightarrow> bool" where
  "dict_idx_entries_equal c s t lookup_head a b \<longleftrightarrow>
     nm_dedup_multi_idx_type_partition_equal c s t a b \<and> (lookup_head \<or> nm_dedup_multi_idx_type_id_equal c s t a b)"

definition entries :: "('t, 'v) NMDedupMultiIndex \<Rightarrow> 't \<Rightarrow> NMDedupMultiEntry list" where
  "entries s t = concat (map lst_entries (lst_idx_head s t))"

definition entry_lookup_obj :: "('t, 'v) dedup_class \<Rightarrow> 't \<Rightarrow> nat \<Rightarrow> ('t, 'v) NMDedupMultiIndex \<Rightarrow> NMDedupMultiEntry option" where
  "entry_lookup_obj c t a s = List.find (\<lambda>e. dict_idx_entries_equal c s t False a (e_obj e)) (entries s t)"

text \<open>The head with an entry, and the head of a partition, as positions in the list of the index type.\<close>

definition entry_head :: "'t \<Rightarrow> nat \<Rightarrow> ('t, 'v) NMDedupMultiIndex \<Rightarrow> nat option" where
  "entry_head t p s = find_index (\<lambda>h. list_ex (\<lambda>e. e_ptr e = p) (lst_entries h)) (lst_idx_head s t)"

definition entry_lookup_head :: "('t, 'v) dedup_class \<Rightarrow> 't \<Rightarrow> nat \<Rightarrow> ('t, 'v) NMDedupMultiIndex \<Rightarrow> nat option" where
  "entry_lookup_head c t a s =
     (case idx_obj_partition_equal c t of
        None \<Rightarrow> (if lst_idx_head s t = [] then None else Some 0)
      | Some _ \<Rightarrow>
          find_index (\<lambda>h. dict_idx_entries_equal c s t True a (e_obj (hd (lst_entries h)))) (lst_idx_head s t))"

definition nm_dedup_multi_index_lookup_obj ::
    "('t, 'v) dedup_class \<Rightarrow> 't \<Rightarrow> nat \<Rightarrow> ('t, 'v) NMDedupMultiIndex \<Rightarrow> NMDedupMultiEntry option" where
  "nm_dedup_multi_index_lookup_obj c t a s = entry_lookup_obj c t a s"

definition nm_dedup_multi_index_lookup_head ::
    "('t, 'v) dedup_class \<Rightarrow> 't \<Rightarrow> nat \<Rightarrow> ('t, 'v) NMDedupMultiIndex \<Rightarrow> NMDedupMultiHeadEntry option" where
  "nm_dedup_multi_index_lookup_head c t a s = map_option (\<lambda>i. lst_idx_head s t ! i) (entry_lookup_head c t a s)"

section \<open>Order of the entries\<close>

fun insert_before :: "nat \<Rightarrow> NMDedupMultiEntry \<Rightarrow> NMDedupMultiEntry list \<Rightarrow> NMDedupMultiEntry list" where
  "insert_before p e [] = [e]"
| "insert_before p e (x # xs) = (if e_ptr x = p then e # x # xs else x # insert_before p e xs)"

fun insert_after :: "nat \<Rightarrow> NMDedupMultiEntry \<Rightarrow> NMDedupMultiEntry list \<Rightarrow> NMDedupMultiEntry list" where
  "insert_after p e [] = [e]"
| "insert_after p e (x # xs) = (if e_ptr x = p then x # e # xs else x # insert_after p e xs)"

fun adjacent :: "nat \<Rightarrow> nat \<Rightarrow> NMDedupMultiEntry list \<Rightarrow> bool" where
  "adjacent p q (x # y # ys) \<longleftrightarrow> e_ptr x = p \<and> e_ptr y = q \<or> adjacent p q (y # ys)"
| "adjacent p q _ \<longleftrightarrow> False"

definition unlink_entry :: "nat \<Rightarrow> NMDedupMultiEntry list \<Rightarrow> NMDedupMultiEntry list" where
  "unlink_entry p xs = filter (\<lambda>x. e_ptr x \<noteq> p) xs"

text \<open>\<^verbatim>\<open>nm_c_list_move_before\<close> and \<^verbatim>\<open>nm_c_list_move_after\<close>, relative to an entry or to the head of the list.\<close>

definition nm_c_list_move_before :: "nat option \<Rightarrow> NMDedupMultiEntry \<Rightarrow> NMDedupMultiEntry list \<Rightarrow> bool \<times> NMDedupMultiEntry list" where
  "nm_c_list_move_before lst e xs =
     (case lst of
        Some p \<Rightarrow>
          if p \<noteq> e_ptr e \<and> \<not> adjacent (e_ptr e) p xs then (True, insert_before p e (unlink_entry (e_ptr e) xs)) else (False, xs)
      | None \<Rightarrow>
          if e_ptr (last xs) \<noteq> e_ptr e then (True, unlink_entry (e_ptr e) xs @ [e]) else (False, xs))"

definition nm_c_list_move_after :: "nat option \<Rightarrow> NMDedupMultiEntry \<Rightarrow> NMDedupMultiEntry list \<Rightarrow> bool \<times> NMDedupMultiEntry list" where
  "nm_c_list_move_after lst e xs =
     (case lst of
        Some p \<Rightarrow>
          if p \<noteq> e_ptr e \<and> \<not> adjacent p (e_ptr e) xs then (True, insert_after p e (unlink_entry (e_ptr e) xs)) else (False, xs)
      | None \<Rightarrow>
          if e_ptr (hd xs) \<noteq> e_ptr e then (True, e # unlink_entry (e_ptr e) xs) else (False, xs))"

definition entry_move ::
    "NMDedupMultiIdxMode \<Rightarrow> nat option \<Rightarrow> NMDedupMultiEntry \<Rightarrow> NMDedupMultiEntry list \<Rightarrow> bool \<times> NMDedupMultiEntry list" where
  "entry_move mode entry_order e xs =
     (case mode of
        NM_DEDUP_MULTI_IDX_MODE_PREPEND_FORCE \<Rightarrow>
          (if entry_order \<noteq> None then nm_c_list_move_before entry_order e xs else nm_c_list_move_after None e xs)
      | NM_DEDUP_MULTI_IDX_MODE_APPEND_FORCE \<Rightarrow>
          (if entry_order \<noteq> None then nm_c_list_move_after entry_order e xs else nm_c_list_move_before None e xs)
      | _ \<Rightarrow> (False, xs))"

definition entry_link ::
    "NMDedupMultiIdxMode \<Rightarrow> nat option \<Rightarrow> NMDedupMultiEntry \<Rightarrow> NMDedupMultiEntry list \<Rightarrow> NMDedupMultiEntry list" where
  "entry_link mode entry_order e xs =
     (if mode \<in> {NM_DEDUP_MULTI_IDX_MODE_PREPEND, NM_DEDUP_MULTI_IDX_MODE_PREPEND_FORCE}
      then (case entry_order of Some p \<Rightarrow> insert_before p e xs | None \<Rightarrow> e # xs)
      else (case entry_order of Some p \<Rightarrow> insert_after p e xs | None \<Rightarrow> xs @ [e]))"

definition nm_dedup_multi_entry_reorder :: "nat option \<Rightarrow> bool \<Rightarrow> NMDedupMultiEntry \<Rightarrow> NMDedupMultiEntry list \<Rightarrow> bool \<times> NMDedupMultiEntry list" where
  "nm_dedup_multi_entry_reorder entry_order order_after e xs =
     (if entry_order = None then
        (if order_after then nm_c_list_move_before None e xs else nm_c_list_move_after None e xs)
      else
        (if order_after then nm_c_list_move_after entry_order e xs else nm_c_list_move_before entry_order e xs))"

section \<open>Adding and replacing\<close>

definition set_head :: "'t \<Rightarrow> nat \<Rightarrow> NMDedupMultiHeadEntry \<Rightarrow> ('t, 'v) NMDedupMultiIndex \<Rightarrow> ('t, 'v) NMDedupMultiIndex" where
  "set_head t i h s = s\<lparr>lst_idx_head := (lst_idx_head s)(t := (lst_idx_head s t)[i := h])\<rparr>"

definition put_entry :: "NMDedupMultiEntry \<Rightarrow> NMDedupMultiEntry list \<Rightarrow> NMDedupMultiEntry list" where
  "put_entry e xs = map (\<lambda>x. if e_ptr x = e_ptr e then e else x) xs"

text \<open>
  Adding returns whether anything changed, the entry, the former object of the entry if the caller wants it, and the
  index. A new object and a new entry have the addresses \<^verbatim>\<open>fo\<close> and \<^verbatim>\<open>fe\<close>.
\<close>

definition add_existing ::
    "('t, 'v) dedup_class \<Rightarrow> nat \<Rightarrow> 't \<Rightarrow> nat \<Rightarrow> nat \<Rightarrow> NMDedupMultiEntry \<Rightarrow> NMDedupMultiIdxMode \<Rightarrow> nat option \<Rightarrow> bool
       \<Rightarrow> ('t, 'v) NMDedupMultiIndex \<Rightarrow> bool \<times> nat option \<times> nat option \<times> ('t, 'v) NMDedupMultiIndex" where
  "add_existing c fo t a i entry mode entry_order want_old s =
     (let entry = entry\<lparr>e_dirty := False\<rparr>;
          h = lst_idx_head s t ! i;
          (changed, xs) = entry_move mode entry_order entry (put_entry entry (lst_entries h));
          s = set_head t i (h\<lparr>lst_entries := xs\<rparr>) s
      in if a = e_obj entry \<or> obj_full_equal c (dval s a) (dval s (e_obj entry)) then
           (changed, Some (e_ptr entry), if want_old then Some (e_obj entry) else None,
            if want_old then nm_dedup_multi_obj_ref (e_obj entry) s else s)
         else
           (let (obj_new, s) = nm_dedup_multi_index_obj_intern c fo a s;
                obj_old = e_obj entry;
                s = set_head t i (h\<lparr>lst_entries := put_entry (entry\<lparr>e_obj := obj_new\<rparr>) xs\<rparr>) s
            in (True, Some (e_ptr entry), if want_old then Some obj_old else None,
                if want_old then s else nm_dedup_multi_obj_unref obj_old s)))"

definition add_new ::
    "('t, 'v) dedup_class \<Rightarrow> nat \<Rightarrow> nat \<Rightarrow> 't \<Rightarrow> nat \<Rightarrow> NMDedupMultiIdxMode \<Rightarrow> nat option
       \<Rightarrow> ('t, 'v) NMDedupMultiIndex \<Rightarrow> bool \<times> nat option \<times> nat option \<times> ('t, 'v) NMDedupMultiIndex" where
  "add_new c fo fe t a mode entry_order s =
     (if \<not> idx_obj_partitionable c t (dval s a) then (False, None, None, s)
      else
        (let (obj_new, s) = nm_dedup_multi_index_obj_intern c fo a s;
             (i, s) =
               (case entry_lookup_head c t obj_new s of
                  Some i \<Rightarrow> (i, s)
                | None \<Rightarrow>
                    (length (lst_idx_head s t),
                     s\<lparr>lst_idx_head := (lst_idx_head s)(t := lst_idx_head s t @ [\<lparr>lst_entries = [], he_len = 0\<rparr>])\<rparr>));
             h = lst_idx_head s t ! i;
             entry = \<lparr>e_ptr = fe, e_obj = obj_new, e_dirty = False\<rparr>;
             s = set_head t i (h\<lparr>lst_entries := entry_link mode entry_order entry (lst_entries h), he_len := he_len h + 1\<rparr>) s
         in (True, Some fe, None, s\<lparr>idx_len := (idx_len s)(t := idx_len s t + 1)\<rparr>)))"

definition nm_dedup_multi_index_add_full ::
    "('t, 'v) dedup_class \<Rightarrow> nat \<Rightarrow> nat \<Rightarrow> 't \<Rightarrow> nat \<Rightarrow> NMDedupMultiIdxMode \<Rightarrow> nat option \<Rightarrow> bool
       \<Rightarrow> ('t, 'v) NMDedupMultiIndex \<Rightarrow> bool \<times> nat option \<times> nat option \<times> ('t, 'v) NMDedupMultiIndex" where
  "nm_dedup_multi_index_add_full c fo fe t a mode entry_order want_old s =
     (case entry_lookup_obj c t a s of
        Some entry \<Rightarrow> add_existing c fo t a (the (entry_head t (e_ptr entry) s)) entry mode entry_order want_old s
      | None \<Rightarrow> add_new c fo fe t a mode entry_order s)"

definition nm_dedup_multi_index_add ::
    "('t, 'v) dedup_class \<Rightarrow> nat \<Rightarrow> nat \<Rightarrow> 't \<Rightarrow> nat \<Rightarrow> NMDedupMultiIdxMode \<Rightarrow> bool
       \<Rightarrow> ('t, 'v) NMDedupMultiIndex \<Rightarrow> bool \<times> nat option \<times> nat option \<times> ('t, 'v) NMDedupMultiIndex" where
  "nm_dedup_multi_index_add c fo fe t a mode want_old s = nm_dedup_multi_index_add_full c fo fe t a mode None want_old s"

section \<open>Removing\<close>

definition entry_at :: "'t \<Rightarrow> nat \<Rightarrow> ('t, 'v) NMDedupMultiIndex \<Rightarrow> NMDedupMultiEntry" where
  "entry_at t p s = the (List.find (\<lambda>e. e_ptr e = p) (entries s t))"

definition remove_entry :: "'t \<Rightarrow> nat \<Rightarrow> ('t, 'v) NMDedupMultiIndex \<Rightarrow> bool \<times> ('t, 'v) NMDedupMultiIndex" where
  "remove_entry t p s =
     (let i = the (entry_head t p s);
          h = lst_idx_head s t ! i;
          obj = e_obj (entry_at t p s);
          len = he_len h - 1
      in if len > 0 then
           (False, nm_dedup_multi_obj_unref obj
              (set_head t i (h\<lparr>lst_entries := unlink_entry p (lst_entries h), he_len := len\<rparr>)
                 (s\<lparr>idx_len := (idx_len s)(t := idx_len s t - 1)\<rparr>)))
         else
           (True, nm_dedup_multi_obj_unref obj
              (s\<lparr>lst_idx_head := (lst_idx_head s)(t := take i (lst_idx_head s t) @ drop (Suc i) (lst_idx_head s t))\<rparr>)))"

definition nm_dedup_multi_entry_set_dirty :: "'t \<Rightarrow> nat \<Rightarrow> bool \<Rightarrow> ('t, 'v) NMDedupMultiIndex \<Rightarrow> ('t, 'v) NMDedupMultiIndex" where
  "nm_dedup_multi_entry_set_dirty t p d s =
     s\<lparr>lst_idx_head := (lst_idx_head s)(t :=
         map (\<lambda>h. h\<lparr>lst_entries := map (\<lambda>e. if e_ptr e = p then e\<lparr>e_dirty := d\<rparr> else e) (lst_entries h)\<rparr>) (lst_idx_head s t))\<rparr>"

text \<open>
  The loops over a list keep the following element while the current one is removed; so they visit the elements that
  the list has when the loop starts. A head is given by its entries.
\<close>

fun remove_head_loop ::
    "'t \<Rightarrow> bool \<Rightarrow> bool \<Rightarrow> nat list \<Rightarrow> nat \<Rightarrow> ('t, 'v) NMDedupMultiIndex \<Rightarrow> nat \<times> ('t, 'v) NMDedupMultiIndex" where
  "remove_head_loop t remove_all mark_survivors_dirty [] n s = (n, s)"
| "remove_head_loop t remove_all mark_survivors_dirty (p # ps) n s =
     (if remove_all \<or> e_dirty (entry_at t p s) then
        (case remove_entry t p s of
           (head_entry_removed, s) \<Rightarrow>
             if head_entry_removed then (n + 1, s)
             else remove_head_loop t remove_all mark_survivors_dirty ps (n + 1) s)
      else
        remove_head_loop t remove_all mark_survivors_dirty ps n
          (if mark_survivors_dirty then nm_dedup_multi_entry_set_dirty t p True s else s))"

definition remove_head ::
    "'t \<Rightarrow> NMDedupMultiHeadEntry \<Rightarrow> bool \<Rightarrow> bool \<Rightarrow> ('t, 'v) NMDedupMultiIndex \<Rightarrow> nat \<times> ('t, 'v) NMDedupMultiIndex" where
  "remove_head t h remove_all mark_survivors_dirty s =
     remove_head_loop t remove_all mark_survivors_dirty (map e_ptr (lst_entries h)) 0 s"

fun remove_idx_entry_loop ::
    "'t \<Rightarrow> bool \<Rightarrow> bool \<Rightarrow> NMDedupMultiHeadEntry list \<Rightarrow> nat \<Rightarrow> ('t, 'v) NMDedupMultiIndex
       \<Rightarrow> nat \<times> ('t, 'v) NMDedupMultiIndex" where
  "remove_idx_entry_loop t remove_all mark_survivors_dirty [] n s = (n, s)"
| "remove_idx_entry_loop t remove_all mark_survivors_dirty (h # hs) n s =
     (case remove_head t h remove_all mark_survivors_dirty s of
        (k, s) \<Rightarrow> remove_idx_entry_loop t remove_all mark_survivors_dirty hs (n + k) s)"

definition remove_idx_entry ::
    "'t \<Rightarrow> bool \<Rightarrow> bool \<Rightarrow> ('t, 'v) NMDedupMultiIndex \<Rightarrow> nat \<times> ('t, 'v) NMDedupMultiIndex" where
  "remove_idx_entry t remove_all mark_survivors_dirty s =
     remove_idx_entry_loop t remove_all mark_survivors_dirty (lst_idx_head s t) 0 s"

datatype some_entry = Entry nat | HeadEntry NMDedupMultiHeadEntry

definition nm_dedup_multi_index_remove_entry :: "'t \<Rightarrow> some_entry \<Rightarrow> ('t, 'v) NMDedupMultiIndex \<Rightarrow> nat \<times> ('t, 'v) NMDedupMultiIndex" where
  "nm_dedup_multi_index_remove_entry t entry s =
     (case entry of Entry p \<Rightarrow> (1, snd (remove_entry t p s)) | HeadEntry h \<Rightarrow> remove_head t h True False s)"

definition nm_dedup_multi_index_remove_obj ::
    "('t, 'v) dedup_class \<Rightarrow> 't \<Rightarrow> nat \<Rightarrow> bool \<Rightarrow> ('t, 'v) NMDedupMultiIndex
       \<Rightarrow> nat \<times> nat option \<times> ('t, 'v) NMDedupMultiIndex" where
  "nm_dedup_multi_index_remove_obj c t a want_obj s =
     (case nm_dedup_multi_index_lookup_obj c t a s of
        None \<Rightarrow> (0, None, s)
      | Some entry \<Rightarrow>
          (1, if want_obj then Some (e_obj entry) else None,
           snd (remove_entry t (e_ptr entry) (if want_obj then nm_dedup_multi_obj_ref (e_obj entry) s else s))))"

definition nm_dedup_multi_index_remove_head ::
    "('t, 'v) dedup_class \<Rightarrow> 't \<Rightarrow> nat \<Rightarrow> ('t, 'v) NMDedupMultiIndex \<Rightarrow> nat \<times> ('t, 'v) NMDedupMultiIndex" where
  "nm_dedup_multi_index_remove_head c t a s =
     (case nm_dedup_multi_index_lookup_head c t a s of None \<Rightarrow> (0, s) | Some h \<Rightarrow> remove_head t h True False s)"

definition nm_dedup_multi_index_remove_idx :: "'t \<Rightarrow> ('t, 'v) NMDedupMultiIndex \<Rightarrow> nat \<times> ('t, 'v) NMDedupMultiIndex" where
  "nm_dedup_multi_index_remove_idx t s = remove_idx_entry t True False s"

section \<open>Reordering\<close>

text \<open>\<^verbatim>\<open>nm_dedup_multi_entry_reorder\<close> on the list of the head of the entry.\<close>

definition entry_reorder :: "'t \<Rightarrow> nat \<Rightarrow> nat option \<Rightarrow> bool \<Rightarrow> ('t, 'v) NMDedupMultiIndex \<Rightarrow> bool \<times> ('t, 'v) NMDedupMultiIndex" where
  "entry_reorder t p entry_order order_after s =
     (let i = the (entry_head t p s); h = lst_idx_head s t ! i;
          (changed, xs) = nm_dedup_multi_entry_reorder entry_order order_after (entry_at t p s) (lst_entries h)
      in (changed, set_head t i (h\<lparr>lst_entries := xs\<rparr>) s))"

text \<open>
  Sorting a head, where there is one. The comparison function gets two entries; it finds their objects in the memory,
  which sorting does not change. The result is \<^verbatim>\<open>None\<close> where \<^verbatim>\<open>c_list_sort\<close> has none.
\<close>

definition nm_dedup_multi_head_entry_sort ::
    "NMDedupMultiEntry SortStack list \<Rightarrow> (NMDedupMultiEntry \<Rightarrow> NMDedupMultiEntry \<Rightarrow> int) \<Rightarrow> 't \<Rightarrow> nat option
       \<Rightarrow> ('t, 'v) NMDedupMultiIndex \<Rightarrow> ('t, 'v) NMDedupMultiIndex option" where
  "nm_dedup_multi_head_entry_sort garbage cmp t head_entry s =
     (case head_entry of
        None \<Rightarrow> Some s
      | Some i \<Rightarrow>
          (let h = lst_idx_head s t ! i
           in map_option (\<lambda>xs. set_head t i (h\<lparr>lst_entries := xs\<rparr>) s) (c_list_sort garbage cmp (lst_entries h))))"

section \<open>Marking\<close>

definition dirty_head :: "NMDedupMultiHeadEntry \<Rightarrow> NMDedupMultiHeadEntry" where
  "dirty_head h = h\<lparr>lst_entries := map (\<lambda>e. e\<lparr>e_dirty := True\<rparr>) (lst_entries h)\<rparr>"

definition nm_dedup_multi_index_dirty_set_head ::
    "('t, 'v) dedup_class \<Rightarrow> 't \<Rightarrow> nat \<Rightarrow> ('t, 'v) NMDedupMultiIndex \<Rightarrow> ('t, 'v) NMDedupMultiIndex" where
  "nm_dedup_multi_index_dirty_set_head c t a s =
     (case entry_lookup_head c t a s of None \<Rightarrow> s | Some i \<Rightarrow> set_head t i (dirty_head (lst_idx_head s t ! i)) s)"

definition nm_dedup_multi_index_dirty_set_idx :: "'t \<Rightarrow> ('t, 'v) NMDedupMultiIndex \<Rightarrow> ('t, 'v) NMDedupMultiIndex" where
  "nm_dedup_multi_index_dirty_set_idx t s = s\<lparr>lst_idx_head := (lst_idx_head s)(t := map dirty_head (lst_idx_head s t))\<rparr>"

definition nm_dedup_multi_index_dirty_remove_idx ::
    "'t \<Rightarrow> bool \<Rightarrow> ('t, 'v) NMDedupMultiIndex \<Rightarrow> nat \<times> ('t, 'v) NMDedupMultiIndex" where
  "nm_dedup_multi_index_dirty_remove_idx t mark_survivors_dirty s = remove_idx_entry t False mark_survivors_dirty s"

section \<open>Reading\<close>

definition nm_dedup_multi_objs_to_array_head :: "NMDedupMultiHeadEntry option \<Rightarrow> (nat \<Rightarrow> bool) option \<Rightarrow> nat list option \<times> nat" where
  "nm_dedup_multi_objs_to_array_head head_entry predicate =
     (case head_entry of
        None \<Rightarrow> (None, 0)
      | Some h \<Rightarrow>
          (let result = filter (\<lambda>a. case predicate of None \<Rightarrow> True | Some f \<Rightarrow> f a) (map e_obj (lst_entries h))
           in if result = [] then (None, 0) else (Some result, length result)))"

definition nm_dedup_multi_objs_to_ptr_array_head ::
    "NMDedupMultiHeadEntry option \<Rightarrow> (nat \<Rightarrow> bool) option \<Rightarrow> ('t, 'v) NMDedupMultiIndex
       \<Rightarrow> nat list option \<times> ('t, 'v) NMDedupMultiIndex" where
  "nm_dedup_multi_objs_to_ptr_array_head head_entry predicate s =
     (case head_entry of
        None \<Rightarrow> (None, s)
      | Some h \<Rightarrow>
          (let result = filter (\<lambda>a. case predicate of None \<Rightarrow> True | Some f \<Rightarrow> f a) (map e_obj (lst_entries h))
           in (if result = [] then None else Some result, fold nm_dedup_multi_obj_ref result s)))"

definition nm_dedup_multi_head_entry_get_idx :: "NMDedupMultiHeadEntry option \<Rightarrow> int \<Rightarrow> NMDedupMultiEntry option" where
  "nm_dedup_multi_head_entry_get_idx head_entry idx =
     (case head_entry of
        None \<Rightarrow> None
      | Some h \<Rightarrow>
          (let xs = lst_entries h
           in if idx \<ge> 0 then (if nat idx < length xs then Some (xs ! nat idx) else None)
              else (if nat (- idx) \<le> length xs then Some (rev xs ! (nat (- idx) - 1)) else None)))"

text \<open>
  Destroying the index: each round removes the entries of an index type that still has some (the hash table gives any
  of them; here it is the first), until there are none. What is left of the objects is detached.
\<close>

fun unref_more :: "'t list \<Rightarrow> ('t, 'v) NMDedupMultiIndex \<Rightarrow> ('t, 'v) NMDedupMultiIndex" where
  "unref_more [] s = s"
| "unref_more (t # ts) s = unref_more ts (if lst_idx_head s t = [] then s else snd (remove_idx_entry t True False s))"

definition nm_dedup_multi_index_ref :: "('t, 'v) NMDedupMultiIndex \<Rightarrow> ('t, 'v) NMDedupMultiIndex" where
  "nm_dedup_multi_index_ref s = s\<lparr>dm_ref_count := dm_ref_count s + 1\<rparr>"

definition nm_dedup_multi_index_unref :: "('t, 'v) NMDedupMultiIndex \<Rightarrow> ('t, 'v) NMDedupMultiIndex" where
  "nm_dedup_multi_index_unref s =
     (let s = s\<lparr>dm_ref_count := dm_ref_count s - 1\<rparr>
      in if dm_ref_count s > 0 then s
         else
           (let s = unref_more (dm_types s) s
            in s\<lparr>dm_mem := (\<lambda>a. if a \<in> set (idx_objs s) then (dm_mem s a)\<lparr>o_multi_idx := None\<rparr> else dm_mem s a),
                 idx_objs := []\<rparr>))"

end
