(* ===== verification/NM_Dedup_Inv.thy ===== *)
theory NM_Dedup_Inv
  imports NM_Dedup_Multi
begin

text \<open>
  The invariant of the index of deduplicated objects: what the functions of a class promise, which objects are stored
  and how often they are referred to, how the entries are partitioned, and what the lookups find when it holds.
\<close>

section \<open>Classes\<close>

definition same_part :: "('t, 'v) dedup_class \<Rightarrow> 't \<Rightarrow> 'v \<Rightarrow> 'v \<Rightarrow> bool" where
  "same_part c t v w = (case idx_obj_partition_equal c t of None \<Rightarrow> True | Some f \<Rightarrow> f v w)"

text \<open>
  What the functions of a class promise: identity is an equivalence, two objects in the same partition are
  partitionable, and among these being in the same partition is an equivalence. Objects that are equal in full have
  the same identity and are in the same partition.
\<close>

definition dedup_class_ok :: "('t, 'v) dedup_class \<Rightarrow> bool" where
  "dedup_class_ok c \<longleftrightarrow>
     (\<forall>t. equivp (idx_obj_id_equal c t) \<and> symp (same_part c t) \<and> transp (same_part c t)
        \<and> (\<forall>v. idx_obj_partitionable c t v = same_part c t v v)
        \<and> (\<forall>v w. obj_full_equal c v w \<longrightarrow> idx_obj_id_equal c t v w \<and> (same_part c t v v \<longrightarrow> same_part c t v w)))
     \<and> equivp (obj_full_equal c)"

definition same_ident :: "('t, 'v) dedup_class \<Rightarrow> 't \<Rightarrow> 'v \<Rightarrow> 'v \<Rightarrow> bool" where
  "same_ident c t v w \<longleftrightarrow> same_part c t v w \<and> idx_obj_id_equal c t v w"

lemma same_part_sym: "dedup_class_ok c \<Longrightarrow> same_part c t v w \<Longrightarrow> same_part c t w v"
  unfolding dedup_class_ok_def by (blast dest: sympD)

lemma same_part_trans: "dedup_class_ok c \<Longrightarrow> same_part c t u v \<Longrightarrow> same_part c t v w \<Longrightarrow> same_part c t u w"
  unfolding dedup_class_ok_def by (blast dest: transpD)

lemma same_part_refl: "dedup_class_ok c \<Longrightarrow> same_part c t v w \<Longrightarrow> same_part c t v v"
  by (rule same_part_trans [OF _ _ same_part_sym])

lemma partitionable_iff: "dedup_class_ok c \<Longrightarrow> idx_obj_partitionable c t v = same_part c t v v"
  by (simp add: dedup_class_ok_def)

lemma obj_id_refl: "dedup_class_ok c \<Longrightarrow> idx_obj_id_equal c t v v"
  unfolding dedup_class_ok_def by (blast dest: equivp_reflp)

lemma obj_id_sym: "dedup_class_ok c \<Longrightarrow> idx_obj_id_equal c t v w \<Longrightarrow> idx_obj_id_equal c t w v"
  unfolding dedup_class_ok_def by (blast dest: equivp_symp)

lemma obj_id_trans: "dedup_class_ok c \<Longrightarrow> idx_obj_id_equal c t u v \<Longrightarrow> idx_obj_id_equal c t v w \<Longrightarrow> idx_obj_id_equal c t u w"
  unfolding dedup_class_ok_def by (blast dest: equivp_transp)

lemma obj_full_refl: "dedup_class_ok c \<Longrightarrow> obj_full_equal c v v"
  unfolding dedup_class_ok_def by (blast dest: equivp_reflp)

lemma obj_full_sym: "dedup_class_ok c \<Longrightarrow> obj_full_equal c v w \<Longrightarrow> obj_full_equal c w v"
  unfolding dedup_class_ok_def by (blast dest: equivp_symp)

lemma obj_full_trans: "dedup_class_ok c \<Longrightarrow> obj_full_equal c u v \<Longrightarrow> obj_full_equal c v w \<Longrightarrow> obj_full_equal c u w"
  unfolding dedup_class_ok_def by (blast dest: equivp_transp)

lemma same_ident_full: "dedup_class_ok c \<Longrightarrow> obj_full_equal c v w \<Longrightarrow> same_part c t v v \<Longrightarrow> same_ident c t v w"
  unfolding dedup_class_ok_def same_ident_def by blast

lemma same_ident_sym: "dedup_class_ok c \<Longrightarrow> same_ident c t v w \<Longrightarrow> same_ident c t w v"
  unfolding same_ident_def by (blast intro: same_part_sym obj_id_sym)

lemma same_ident_trans: "dedup_class_ok c \<Longrightarrow> same_ident c t u v \<Longrightarrow> same_ident c t v w \<Longrightarrow> same_ident c t u w"
  unfolding same_ident_def by (blast intro: same_part_trans obj_id_trans)

text \<open>
  Two objects are the same for the table of objects when they are equal in full and have the same hash value. The
  contract of a class does not say that equal objects have the same hash value.
\<close>

definition intern_equal :: "('t, 'v) dedup_class \<Rightarrow> 'v \<Rightarrow> 'v \<Rightarrow> bool" where
  "intern_equal c v w \<longleftrightarrow>
     nm_hash c 1748638583 (obj_full_hash_update c v) = nm_hash c 1748638583 (obj_full_hash_update c w) \<and> obj_full_equal c v w"

lemma intern_equal_full: "intern_equal c v w \<Longrightarrow> obj_full_equal c v w"
  by (simp add: intern_equal_def)

lemma intern_equal_refl: "dedup_class_ok c \<Longrightarrow> intern_equal c v v"
  by (simp add: intern_equal_def obj_full_refl)

lemma intern_equal_sym: "dedup_class_ok c \<Longrightarrow> intern_equal c v w \<Longrightarrow> intern_equal c w v"
  by (auto simp: intern_equal_def intro: obj_full_sym)

lemma intern_equal_trans: "dedup_class_ok c \<Longrightarrow> intern_equal c u v \<Longrightarrow> intern_equal c v w \<Longrightarrow> intern_equal c u w"
  by (auto simp: intern_equal_def intro: obj_full_trans)

text \<open>The hash function agrees with equality where equal objects have the same hash value.\<close>

definition hash_agrees :: "('t, 'v) dedup_class \<Rightarrow> bool" where
  "hash_agrees c \<longleftrightarrow> (\<forall>v w. obj_full_equal c v w \<longrightarrow>
     nm_hash c 1748638583 (obj_full_hash_update c v) = nm_hash c 1748638583 (obj_full_hash_update c w))"

lemma hash_agrees_intern: "hash_agrees c \<Longrightarrow> obj_full_equal c v w \<Longrightarrow> intern_equal c v w"
  by (simp add: hash_agrees_def intern_equal_def)

section \<open>Objects\<close>

text \<open>
  An index stores objects that are equal in full and have the same hash value once; an object that somebody refers to
  is alive, and its counter is the number of references. \<^verbatim>\<open>R\<close> counts the references to each address. Objects on the
  stack are not counted.
\<close>

definition dobjs_ok :: "('t, 'v) dedup_class \<Rightarrow> (nat \<Rightarrow> nat) \<Rightarrow> ('t, 'v) NMDedupMultiIndex \<Rightarrow> bool" where
  "dobjs_ok c R s \<longleftrightarrow>
     distinct (idx_objs s) \<and> (\<forall>a \<in> set (idx_objs s). \<forall>b \<in> set (idx_objs s). intern_equal c (dval s a) (dval s b) \<longrightarrow> a = b)
     \<and> (\<forall>a. a \<in> set (idx_objs s) \<longleftrightarrow> o_multi_idx (dm_mem s a) = Some (dm_self s))
     \<and> (\<forall>a \<in> set (idx_objs s). R a > 0)
     \<and> (\<forall>a. o_ref_count (dm_mem s a) = R a \<or> o_ref_count (dm_mem s a) = NM_OBJ_REF_COUNT_STACKINIT \<and> R a = 0)"

lemma dobjs_okI:
  assumes "distinct (idx_objs s)" 
    and "\<And>a b. a \<in> set (idx_objs s) \<Longrightarrow> b \<in> set (idx_objs s) \<Longrightarrow> intern_equal c (dval s a) (dval s b) \<Longrightarrow> a = b"
    and "\<And>a. a \<in> set (idx_objs s) \<longleftrightarrow> o_multi_idx (dm_mem s a) = Some (dm_self s)"
    and "\<And>a. a \<in> set (idx_objs s) \<Longrightarrow> R a > 0"
    and "\<And>a. o_ref_count (dm_mem s a) = R a \<or> o_ref_count (dm_mem s a) = NM_OBJ_REF_COUNT_STACKINIT \<and> R a = 0"
  shows "dobjs_ok c R s"
  unfolding dobjs_ok_def by (intro conjI allI ballI impI assms)

lemma dobjs_ok_unique:
  "dobjs_ok c R s \<Longrightarrow> a \<in> set (idx_objs s) \<Longrightarrow> b \<in> set (idx_objs s) \<Longrightarrow> intern_equal c (dval s a) (dval s b) \<Longrightarrow> a = b"
  by (simp add: dobjs_ok_def)

lemma dobjs_ok_live: "dobjs_ok c R s \<Longrightarrow> a \<in> set (idx_objs s) \<Longrightarrow> o_ref_count (dm_mem s a) = R a \<and> R a > 0"
  unfolding dobjs_ok_def by (metis less_numeral_extra(3))

lemma dobjs_ok_dead: "dobjs_ok c R s \<Longrightarrow> o_ref_count (dm_mem s a) = 0 \<Longrightarrow> R a = 0 \<and> a \<notin> set (idx_objs s)"
  unfolding dobjs_ok_def by (metis less_numeral_extra(3))

lemma obj_ref_sel [simp]:
  "dval (nm_dedup_multi_obj_ref a s) b = dval s b"
  "o_multi_idx (dm_mem (nm_dedup_multi_obj_ref a s) b) = o_multi_idx (dm_mem s b)"
  "o_ref_count (dm_mem (nm_dedup_multi_obj_ref a s) b) = (if b = a then o_ref_count (dm_mem s a) + 1 else o_ref_count (dm_mem s b))"
  "idx_objs (nm_dedup_multi_obj_ref a s) = idx_objs s" "dm_self (nm_dedup_multi_obj_ref a s) = dm_self s"
  "lst_idx_head (nm_dedup_multi_obj_ref a s) = lst_idx_head s" "dm_types (nm_dedup_multi_obj_ref a s) = dm_types s"
  "idx_len (nm_dedup_multi_obj_ref a s) = idx_len s"
  by (simp_all add: nm_dedup_multi_obj_ref_def)

lemma obj_unref_sel [simp]:
  "dval (nm_dedup_multi_obj_unref a s) b = dval s b"
  "o_multi_idx (dm_mem (nm_dedup_multi_obj_unref a s) b) =
     (if b = a \<and> o_ref_count (dm_mem s a) \<le> 1 then None else o_multi_idx (dm_mem s b))"
  "o_ref_count (dm_mem (nm_dedup_multi_obj_unref a s) b) = (if b = a then o_ref_count (dm_mem s a) - 1 else o_ref_count (dm_mem s b))"
  "idx_objs (nm_dedup_multi_obj_unref a s) =
     (if o_ref_count (dm_mem s a) \<le> 1 \<and> o_multi_idx (dm_mem s a) = Some (dm_self s) then remove1 a (idx_objs s) else idx_objs s)"
  "dm_self (nm_dedup_multi_obj_unref a s) = dm_self s"
  "lst_idx_head (nm_dedup_multi_obj_unref a s) = lst_idx_head s" "dm_types (nm_dedup_multi_obj_unref a s) = dm_types s"
  "idx_len (nm_dedup_multi_obj_unref a s) = idx_len s"
  by (auto simp: nm_dedup_multi_obj_unref_def nm_dedup_multi_index_obj_release_def Let_def)

lemma dobjs_ok_ref: "dobjs_ok c R s \<Longrightarrow> R a > 0 \<Longrightarrow> dobjs_ok c (R(a := R a + 1)) (nm_dedup_multi_obj_ref a s)"
  unfolding dobjs_ok_def by (auto split: if_splits)

lemma dobjs_ok_unref:
  assumes ok: "dobjs_ok c R s" and pos: "R a > 0"
  shows "dobjs_ok c (R(a := R a - 1)) (nm_dedup_multi_obj_unref a s)"
proof -
  have cnt: "o_ref_count (dm_mem s a) = R a" using ok pos unfolding dobjs_ok_def by (metis less_numeral_extra(3))
  have m: "a \<in> set (idx_objs s) \<longleftrightarrow> o_multi_idx (dm_mem s a) = Some (dm_self s)" using ok unfolding dobjs_ok_def by blast
  show ?thesis using ok pos cnt m unfolding dobjs_ok_def
    by (auto split: if_splits dest: notin_set_remove1)
qed

text \<open>Interning gives the object of the index with the value.\<close>

lemma obj_find_Some:
  "nm_dedup_multi_index_obj_find c a s = Some b \<Longrightarrow> b \<in> set (idx_objs s) \<and> (a = b \<or> intern_equal c (dval s a) (dval s b))"
  unfolding nm_dedup_multi_index_obj_find_def find_Some_iff dict_idx_objs_equal_def dict_idx_objs_hash_def intern_equal_def
  by auto

lemma obj_find_None:
  "nm_dedup_multi_index_obj_find c a s = None \<Longrightarrow> b \<in> set (idx_objs s) \<Longrightarrow> \<not> intern_equal c (dval s a) (dval s b)"
  unfolding nm_dedup_multi_index_obj_find_def find_None_iff dict_idx_objs_equal_def dict_idx_objs_hash_def intern_equal_def
  by auto

lemma dobjs_ok_insert:
  assumes c: "dedup_class_ok c" and ok: "dobjs_ok c R s" and n: "n \<notin> set (idx_objs s)"
    and new: "\<And>b. b \<in> set (idx_objs s) \<Longrightarrow> \<not> intern_equal c (o_val ob) (dval s b)"
    and ob: "o_multi_idx ob = Some (dm_self s)" "o_ref_count ob = R n + 1"
  shows "dobjs_ok c (R(n := R n + 1)) (s\<lparr>dm_mem := (dm_mem s)(n := ob), idx_objs := n # idx_objs s\<rparr>)" (is "dobjs_ok c ?R ?s")
proof (rule dobjs_okI)
  show "distinct (idx_objs ?s)" using ok n by (simp add: dobjs_ok_def)
  show "a = b" if ab: "a \<in> set (idx_objs ?s)" "b \<in> set (idx_objs ?s)" and eq: "intern_equal c (dval ?s a) (dval ?s b)" for a b
  proof (rule ccontr)
    assume ne: "a \<noteq> b"
    then consider "a = n" "b \<in> set (idx_objs s)" | "b = n" "a \<in> set (idx_objs s)" | "a \<noteq> n" "b \<noteq> n" "a \<in> set (idx_objs s)" "b \<in> set (idx_objs s)"
      using ab by auto
    then show False
    proof cases
      case 1
      then show False using new eq ne by simp
    next
      case 2
      then show False using new intern_equal_sym [OF c eq] ne by simp
    next
      case 3
      then show False using ok eq ne by (simp add: dobjs_ok_def)
    qed
  qed
  show "a \<in> set (idx_objs ?s) \<longleftrightarrow> o_multi_idx (dm_mem ?s a) = Some (dm_self ?s)" for a
    using ok ob(1) unfolding dobjs_ok_def by (cases "a = n") simp_all
  show "?R a > 0" if "a \<in> set (idx_objs ?s)" for a using ok that unfolding dobjs_ok_def by (cases "a = n") simp_all
  show "o_ref_count (dm_mem ?s a) = ?R a \<or> o_ref_count (dm_mem ?s a) = NM_OBJ_REF_COUNT_STACKINIT \<and> ?R a = 0" for a
    using ok ob(2) unfolding dobjs_ok_def by (cases "a = n") simp_all
qed

lemma dobjs_ok_intern:
  assumes c: "dedup_class_ok c" and ok: "dobjs_ok c R s" and live: "o_ref_count (dm_mem s a) > 0" and fresh: "o_ref_count (dm_mem s fo) = 0 \<or> o_multi_idx (dm_mem s a) = Some (dm_self s)"
    and eq: "nm_dedup_multi_index_obj_intern c fo a s = (n, s')"
  shows "dobjs_ok c (R(n := R n + 1)) s' \<and> n \<in> set (idx_objs s') \<and> intern_equal c (dval s a) (dval s' n)
     \<and> (\<forall>b. o_ref_count (dm_mem s b) > 0 \<longrightarrow> dval s' b = dval s b) \<and> set (idx_objs s) \<subseteq> set (idx_objs s')
     \<and> lst_idx_head s' = lst_idx_head s \<and> idx_len s' = idx_len s \<and> dm_types s' = dm_types s"
proof (cases "o_multi_idx (dm_mem s a) = Some (dm_self s)")
  case True
  then have "a \<in> set (idx_objs s)" using ok unfolding dobjs_ok_def by blast
  then show ?thesis using True eq dobjs_ok_ref [OF ok, of a] dobjs_ok_live [OF ok, of a] intern_equal_refl [OF c]
    by (auto simp: nm_dedup_multi_index_obj_intern_def)
next
  case not_mine: False
  then have fresh: "o_ref_count (dm_mem s fo) = 0" using fresh by simp
  show ?thesis
  proof (cases "nm_dedup_multi_index_obj_find c a s")
    case (Some b)
    then show ?thesis
      using not_mine eq dobjs_ok_ref [OF ok, of b] dobjs_ok_live [OF ok, of b] obj_find_Some [OF Some] intern_equal_refl [OF c]
      by (auto simp: nm_dedup_multi_index_obj_intern_def)
  next
    case None
    note new = obj_find_None [OF None]
    show ?thesis
    proof (cases "nm_dedup_multi_obj_needs_clone c (dm_mem s a)")
      case True
      have ne: "fo \<noteq> a" using live fresh by auto
      have d: "R fo = 0" "fo \<notin> set (idx_objs s)" using dobjs_ok_dead [OF ok fresh] by auto
      have n: "n = fo" and s': "s' = s\<lparr>dm_mem := (dm_mem s)(fo := \<lparr>o_val = dval s a, o_multi_idx = Some (dm_self s), o_ref_count = 1\<rparr>),
          idx_objs := fo # idx_objs s\<rparr>"
        using eq not_mine None True by (auto simp: nm_dedup_multi_index_obj_intern_def)
      show ?thesis using dobjs_ok_insert [OF c ok d(2), of "\<lparr>o_val = dval s a, o_multi_idx = Some (dm_self s), o_ref_count = 1\<rparr>"]
          d new live fresh ne intern_equal_refl [OF c] unfolding n by (auto simp: s')
    next
      case False
      then have ns: "o_ref_count (dm_mem s a) \<noteq> NM_OBJ_REF_COUNT_STACKINIT" "o_multi_idx (dm_mem s a) = None"
        by (auto simp: nm_dedup_multi_obj_needs_clone_def)
      have cnt: "o_ref_count (dm_mem s a) = R a" using ok ns unfolding dobjs_ok_def by blast
      have a: "a \<notin> set (idx_objs s)" using ok ns unfolding dobjs_ok_def by simp
      have n: "n = a" and s': "s' = s\<lparr>dm_mem := (dm_mem s)(a := (dm_mem s a)\<lparr>o_ref_count := R a + 1,
          o_multi_idx := Some (dm_self s)\<rparr>), idx_objs := a # idx_objs s\<rparr>"
        using eq not_mine None False cnt by (auto simp: nm_dedup_multi_index_obj_intern_def nm_dedup_multi_obj_ref_def)
      show ?thesis using dobjs_ok_insert [OF c ok a, of "(dm_mem s a)\<lparr>o_ref_count := R a + 1, o_multi_idx := Some (dm_self s)\<rparr>"]
          new cnt intern_equal_refl [OF c] unfolding n by (auto simp: s')
    qed
  qed
qed

section \<open>Partitions\<close>

text \<open>
  The entries of a head are of one partition and differ in their identity; those of two heads are of different
  partitions. A head is never empty and knows its length. The value of an entry is given by \<^verbatim>\<open>val\<close>.
\<close>

definition head_ok :: "('t, 'v) dedup_class \<Rightarrow> 't \<Rightarrow> (NMDedupMultiEntry \<Rightarrow> 'v) \<Rightarrow> NMDedupMultiHeadEntry \<Rightarrow> bool" where
  "head_ok c t val h \<longleftrightarrow>
     lst_entries h \<noteq> [] \<and> he_len h = length (lst_entries h) \<and> distinct (map e_ptr (lst_entries h))
     \<and> (\<forall>e \<in> set (lst_entries h). \<forall>e' \<in> set (lst_entries h). same_part c t (val e) (val e'))
     \<and> (\<forall>e \<in> set (lst_entries h). \<forall>e' \<in> set (lst_entries h). idx_obj_id_equal c t (val e) (val e') \<longrightarrow> e = e')"

definition apart :: "('t, 'v) dedup_class \<Rightarrow> 't \<Rightarrow> (NMDedupMultiEntry \<Rightarrow> 'v) \<Rightarrow> NMDedupMultiHeadEntry \<Rightarrow> NMDedupMultiHeadEntry \<Rightarrow> bool" where
  "apart c t val h h' \<longleftrightarrow>
     (\<forall>e \<in> set (lst_entries h). \<forall>e' \<in> set (lst_entries h'). \<not> same_part c t (val e) (val e') \<and> e_ptr e \<noteq> e_ptr e')"

definition parts_ok :: "('t, 'v) dedup_class \<Rightarrow> 't \<Rightarrow> (NMDedupMultiEntry \<Rightarrow> 'v) \<Rightarrow> NMDedupMultiHeadEntry list \<Rightarrow> bool" where
  "parts_ok c t val hs \<longleftrightarrow> (\<forall>h \<in> set hs. head_ok c t val h) \<and> sorted_wrt (apart c t val) hs"

lemma head_ok_cong: "(\<And>e. e \<in> set (lst_entries h) \<Longrightarrow> val e = val' e) \<Longrightarrow> head_ok c t val h = head_ok c t val' h"
  unfolding head_ok_def by (simp cong: ball_cong)

lemma parts_ok_cong:
  assumes "\<And>h e. h \<in> set hs \<Longrightarrow> e \<in> set (lst_entries h) \<Longrightarrow> val e = val' e"
  shows "parts_ok c t val hs = parts_ok c t val' hs"
proof -
  have "apart c t val h h' = apart c t val' h h'" if "h \<in> set hs" "h' \<in> set hs" for h h'
    using assms that unfolding apart_def by (simp cong: ball_cong)
  then have "sorted_wrt (apart c t val) hs = sorted_wrt (apart c t val') hs"
    unfolding sorted_wrt_iff_nth_less by (metis nth_mem dual_order.strict_trans)
  then show ?thesis unfolding parts_ok_def using head_ok_cong assms by metis
qed

lemma apart_sym: "dedup_class_ok c \<Longrightarrow> apart c t val h h' \<Longrightarrow> apart c t val h' h"
  unfolding apart_def by (metis same_part_sym)

lemma parts_ok_nth: "parts_ok c t val hs \<Longrightarrow> i < length hs \<Longrightarrow> head_ok c t val (hs ! i)"
  by (simp add: parts_ok_def)

lemma parts_ok_apart:
  "dedup_class_ok c \<Longrightarrow> parts_ok c t val hs \<Longrightarrow> i < length hs \<Longrightarrow> j < length hs \<Longrightarrow> i \<noteq> j \<Longrightarrow> apart c t val (hs ! i) (hs ! j)"
  unfolding parts_ok_def sorted_wrt_iff_nth_less by (metis apart_sym linorder_neqE_nat)

text \<open>A head may be replaced by one of the same partition whose pointers no other head has.\<close>

lemma parts_ok_update:
  assumes c: "dedup_class_ok c" and ok: "parts_ok c t val hs" and i: "i < length hs" and h: "head_ok c t val h"
    and part: "\<And>e. e \<in> set (lst_entries h) \<Longrightarrow> \<exists>e' \<in> set (lst_entries (hs ! i)). same_part c t (val e') (val e)"
    and ptr: "\<And>e j e'. e \<in> set (lst_entries h) \<Longrightarrow> j < length hs \<Longrightarrow> j \<noteq> i \<Longrightarrow> e' \<in> set (lst_entries (hs ! j)) \<Longrightarrow> e_ptr e \<noteq> e_ptr e'"
  shows "parts_ok c t val (hs[i := h])"
proof -
  have new: "apart c t val h (hs ! j)" if j: "j < length hs" "j \<noteq> i" for j
    unfolding apart_def
  proof (intro ballI conjI)
    fix e e' assume e: "e \<in> set (lst_entries h)" and e': "e' \<in> set (lst_entries (hs ! j))"
    obtain x where x: "x \<in> set (lst_entries (hs ! i))" "same_part c t (val x) (val e)" using part [OF e] by blast
    have "\<not> same_part c t (val x) (val e')"
      using parts_ok_apart [OF c ok i j(1)] j(2) x(1) e' unfolding apart_def by blast
    then show "\<not> same_part c t (val e) (val e')" using same_part_trans [OF c x(2)] by blast
    show "e_ptr e \<noteq> e_ptr e'" using ptr [OF e j e'] .
  qed
  have "apart c t val (hs[i := h] ! j) (hs[i := h] ! k)" if "j < k" "k < length hs" for j k
    using that new [of k] apart_sym [OF c new, of j] parts_ok_apart [OF c ok, of j k]
    by (cases "j = i"; cases "k = i") (simp_all add: nth_list_update)
  then show ?thesis
    using ok h unfolding parts_ok_def sorted_wrt_iff_nth_less by (auto dest: set_update_subset_insert [THEN subsetD])
qed

lemma parts_ok_snoc:
  assumes "parts_ok c t val hs" and "head_ok c t val h" and "\<And>h'. h' \<in> set hs \<Longrightarrow> apart c t val h' h"
  shows "parts_ok c t val (hs @ [h])"
  using assms unfolding parts_ok_def by (auto simp: sorted_wrt_append)

lemma parts_ok_delete: "parts_ok c t val hs \<Longrightarrow> parts_ok c t val (take i hs @ drop (Suc i) hs)"
  unfolding parts_ok_def sorted_wrt_iff_nth_less
  by (auto dest: in_set_takeD in_set_dropD simp: nth_append) 

text \<open>Entries of the same partition and identity, or with the same pointer, are the same.\<close>

lemma parts_ok_unique:
  assumes c: "dedup_class_ok c" and ok: "parts_ok c t val hs"
    and h: "h \<in> set hs" "e \<in> set (lst_entries h)" and h': "h' \<in> set hs" "e' \<in> set (lst_entries h')"
    and eq: "same_ident c t (val e) (val e') \<or> e_ptr e = e_ptr e'"
  shows "e = e' \<and> h = h'"
proof -
  obtain i j where ij: "i < length hs" "j < length hs" "hs ! i = h" "hs ! j = h'" using h(1) h'(1) by (metis in_set_conv_nth)
  have "i = j"
  proof (rule ccontr)
    assume "i \<noteq> j"
    then have "apart c t val h h'" using parts_ok_apart [OF c ok] ij by blast
    then show False using h(2) h'(2) eq unfolding apart_def same_ident_def by blast
  qed
  then have hh: "h = h'" using ij by simp
  have "head_ok c t val h" using ok h(1) by (simp add: parts_ok_def)
  then have "e = e'" using h(2) h'(2) eq hh unfolding head_ok_def same_ident_def by (metis distinct_map inj_onD)
  then show ?thesis using hh by simp
qed

section \<open>The invariant\<close>

text \<open>
  The references to an object are those of the entries of all index types, and \<^verbatim>\<open>ext a\<close> references that the users
  of the index hold.
\<close>

definition entry_refs :: "('t, 'v) NMDedupMultiIndex \<Rightarrow> nat \<Rightarrow> nat" where
  "entry_refs s a = (\<Sum>t \<in> set (dm_types s). count_list (map e_obj (entries s t)) a)"

abbreviation eval :: "('t, 'v) NMDedupMultiIndex \<Rightarrow> NMDedupMultiEntry \<Rightarrow> 'v" where
  "eval s e \<equiv> dval s (e_obj e)"

definition dedup_inv :: "('t, 'v) dedup_class \<Rightarrow> (nat \<Rightarrow> nat) \<Rightarrow> ('t, 'v) NMDedupMultiIndex \<Rightarrow> bool" where
  "dedup_inv c ext s \<longleftrightarrow>
     dobjs_ok c (\<lambda>a. entry_refs s a + ext a) s
     \<and> (\<forall>t. parts_ok c t (eval s) (lst_idx_head s t))
     \<and> (\<forall>t. \<forall>e \<in> set (entries s t). e_obj e \<in> set (idx_objs s))
     \<and> (\<forall>t. t \<notin> set (dm_types s) \<longrightarrow> lst_idx_head s t = [])"

lemma set_entries: "e \<in> set (entries s t) \<longleftrightarrow> (\<exists>h \<in> set (lst_idx_head s t). e \<in> set (lst_entries h))"
  by (auto simp: entries_def)

lemma dedup_entries_cong: "lst_idx_head s' t = lst_idx_head s t \<Longrightarrow> entries s' t = entries s t"
  by (simp add: entries_def)

lemma entry_refs_cong: "lst_idx_head s' = lst_idx_head s \<Longrightarrow> dm_types s' = dm_types s \<Longrightarrow> entry_refs s' = entry_refs s"
  by (simp add: entry_refs_def entries_def fun_eq_iff)

lemma obj_ref_entries [simp]:
  "entries (nm_dedup_multi_obj_ref a s) t = entries s t" "entries (nm_dedup_multi_obj_unref a s) t = entries s t"
  by (simp_all add: entries_def)

lemma obj_ref_entry_refs [simp]:
  "entry_refs (nm_dedup_multi_obj_ref a s) = entry_refs s" "entry_refs (nm_dedup_multi_obj_unref a s) = entry_refs s"
  by (simp_all add: entry_refs_def fun_eq_iff)

lemma entry_refs_update:
  assumes t: "t \<in> set (dm_types s)" and hd: "\<And>t'. t' \<noteq> t \<Longrightarrow> lst_idx_head s' t' = lst_idx_head s t'" and ty: "dm_types s' = dm_types s"
  shows "entry_refs s' a + count_list (map e_obj (entries s t)) a = entry_refs s a + count_list (map e_obj (entries s' t)) a"
proof -
  have "(\<Sum>t' \<in> set (dm_types s) - {t}. count_list (map e_obj (entries s' t')) a)
      = (\<Sum>t' \<in> set (dm_types s) - {t}. count_list (map e_obj (entries s t')) a)"
    by (rule sum.cong) (simp_all add: dedup_entries_cong [OF hd])
  then show ?thesis
    using sum.remove [OF finite_set t, of "\<lambda>t'. count_list (map e_obj (entries s t')) a"]
      sum.remove [OF finite_set t, of "\<lambda>t'. count_list (map e_obj (entries s' t')) a"]
    by (simp add: entry_refs_def ty)
qed

lemma entries_set_head:
  assumes "i < length (lst_idx_head s t)" and "lst_idx_head s' t = (lst_idx_head s t)[i := h]"
  shows "count_list (map e_obj (entries s' t)) a + count_list (map e_obj (lst_entries (lst_idx_head s t ! i))) a
      = count_list (map e_obj (entries s t)) a + count_list (map e_obj (lst_entries h)) a"
proof -
  let ?hs = "lst_idx_head s t"
  have hs: "?hs = take i ?hs @ ?hs ! i # drop (Suc i) ?hs" using assms(1) by (rule id_take_nth_drop)
  have "count_list (map e_obj (entries s t)) a = count_list (map e_obj (concat (map lst_entries (take i ?hs @ ?hs ! i # drop (Suc i) ?hs)))) a"
    unfolding entries_def by (rule arg_cong [OF hs])
  then show ?thesis by (simp add: entries_def [of s'] assms(2) upd_conv_take_nth_drop [OF assms(1)] count_list_append)
qed

lemma dedup_inv_partitionable:
  assumes "dedup_inv c ext s" and "e \<in> set (entries s t)"
  shows "same_part c t (eval s e) (eval s e)"
  using assms unfolding dedup_inv_def set_entries parts_ok_def head_ok_def by blast

lemma dedup_inv_unique:
  assumes "dedup_class_ok c" and "dedup_inv c ext s" and "e \<in> set (entries s t)" and "e' \<in> set (entries s t)"
    and "same_ident c t (eval s e) (eval s e') \<or> e_ptr e = e_ptr e'"
  shows "e = e'"
  using assms parts_ok_unique [OF assms(1), of t "eval s" "lst_idx_head s t"] unfolding dedup_inv_def set_entries by blast

section \<open>Lookup\<close>

lemma find_index_Some: "find_index P xs = Some i \<Longrightarrow> i < length xs \<and> P (xs ! i)"
  by (induction xs arbitrary: i) (auto split: if_splits)

lemma find_index_None: "find_index P xs = None \<longleftrightarrow> (\<forall>x \<in> set xs. \<not> P x)"
  by (induction xs) auto

lemma dict_equal_iff:
  assumes "dedup_class_ok c" and "same_part c t (dval s b) (dval s b)"
  shows "dict_idx_entries_equal c s t head a b \<longleftrightarrow>
      same_part c t (dval s a) (dval s b) \<and> (head \<or> idx_obj_id_equal c t (dval s a) (dval s b))"
  using assms(2) obj_id_refl [OF assms(1)]
  unfolding dict_idx_entries_equal_def nm_dedup_multi_idx_type_partition_equal_def nm_dedup_multi_idx_type_id_equal_def
    same_part_def by (auto split: option.splits)

lemma entry_lookup_obj_Some:
  assumes c: "dedup_class_ok c" and inv: "dedup_inv c ext s"
  shows "entry_lookup_obj c t a s = Some e \<longleftrightarrow> e \<in> set (entries s t) \<and> same_ident c t (dval s a) (eval s e)"
proof -
  have m: "dict_idx_entries_equal c s t False a (e_obj x) \<longleftrightarrow> same_ident c t (dval s a) (eval s x)" if "x \<in> set (entries s t)" for x
    using dict_equal_iff [OF c dedup_inv_partitionable [OF inv that]] by (simp add: same_ident_def)
  show ?thesis
  proof
    assume "entry_lookup_obj c t a s = Some e"
    then show "e \<in> set (entries s t) \<and> same_ident c t (dval s a) (eval s e)"
      unfolding entry_lookup_obj_def find_Some_iff using m by (metis nth_mem)
  next
    assume e: "e \<in> set (entries s t) \<and> same_ident c t (dval s a) (eval s e)"
    then have "entry_lookup_obj c t a s \<noteq> None" unfolding entry_lookup_obj_def find_None_iff using m by blast
    then obtain e' where e': "entry_lookup_obj c t a s = Some e'" by auto
    then have "e' \<in> set (entries s t) \<and> same_ident c t (dval s a) (eval s e')"
      unfolding entry_lookup_obj_def find_Some_iff using m by (metis nth_mem)
    then have "e' = e"
      using dedup_inv_unique [OF c inv] e same_ident_trans [OF c same_ident_sym [OF c]] by blast
    then show "entry_lookup_obj c t a s = Some e" using e' by simp
  qed
qed

lemma entry_lookup_obj_None:
  assumes c: "dedup_class_ok c" and inv: "dedup_inv c ext s"
  shows "entry_lookup_obj c t a s = None \<longleftrightarrow> (\<forall>e \<in> set (entries s t). \<not> same_ident c t (dval s a) (eval s e))"
  using entry_lookup_obj_Some [OF assms] by (metis not_None_eq)

lemma entry_head_mem:
  assumes c: "dedup_class_ok c" and inv: "dedup_inv c ext s" and e: "e \<in> set (entries s t)"
  obtains i where "entry_head t (e_ptr e) s = Some i" "i < length (lst_idx_head s t)" "e \<in> set (lst_entries (lst_idx_head s t ! i))"
proof -
  have "entry_head t (e_ptr e) s \<noteq> None"
    using e unfolding entry_head_def find_index_None set_entries by (auto simp: list_ex_iff)
  then obtain i where i: "entry_head t (e_ptr e) s = Some i" by auto
  then have l: "i < length (lst_idx_head s t)" "list_ex (\<lambda>x. e_ptr x = e_ptr e) (lst_entries (lst_idx_head s t ! i))"
    unfolding entry_head_def by (auto dest: find_index_Some)
  then obtain x where x: "x \<in> set (lst_entries (lst_idx_head s t ! i))" "e_ptr x = e_ptr e" by (auto simp: list_ex_iff)
  then have "x = e" using dedup_inv_unique [OF c inv _ e, of x] l(1) by (metis nth_mem set_entries)
  then show ?thesis using that [OF i l(1)] x by simp
qed

lemma entry_at_mem:
  assumes c: "dedup_class_ok c" and inv: "dedup_inv c ext s" and e: "e \<in> set (entries s t)"
  shows "entry_at t (e_ptr e) s = e"
proof -
  have "List.find (\<lambda>x. e_ptr x = e_ptr e) (entries s t) \<noteq> None" using e unfolding find_None_iff by blast
  then obtain x where x: "List.find (\<lambda>x. e_ptr x = e_ptr e) (entries s t) = Some x" by auto
  then have "x \<in> set (entries s t)" "e_ptr x = e_ptr e" unfolding find_Some_iff by auto
  then show ?thesis using dedup_inv_unique [OF c inv _ e] x unfolding entry_at_def by simp
qed

lemma entry_lookup_head_Some:
  assumes c: "dedup_class_ok c" and inv: "dedup_inv c ext s" and eq: "entry_lookup_head c t a s = Some i"
  shows "i < length (lst_idx_head s t) \<and> (\<forall>e \<in> set (lst_entries (lst_idx_head s t ! i)). same_part c t (dval s a) (eval s e))"
proof (cases "idx_obj_partition_equal c t")
  case None
  then show ?thesis using eq by (auto simp: entry_lookup_head_def same_part_def split: if_splits)
next
  case (Some f)
  let ?h = "lst_idx_head s t ! i"
  have i: "i < length (lst_idx_head s t)" "dict_idx_entries_equal c s t True a (e_obj (hd (lst_entries ?h)))"
    using eq Some by (auto simp: entry_lookup_head_def dest: find_index_Some)
  then have h: "head_ok c t (eval s) ?h" using inv unfolding dedup_inv_def by (blast intro: parts_ok_nth)
  then have hd: "hd (lst_entries ?h) \<in> set (lst_entries ?h)" by (simp add: head_ok_def)
  then have p: "same_part c t (dval s a) (eval s (hd (lst_entries ?h)))"
    using i(2) h dict_equal_iff [OF c] unfolding head_ok_def by blast
  show ?thesis using i(1) same_part_trans [OF c p] h hd unfolding head_ok_def by blast
qed

lemma entry_lookup_head_None:
  assumes c: "dedup_class_ok c" and inv: "dedup_inv c ext s" and eq: "entry_lookup_head c t a s = None"
    and e: "e \<in> set (entries s t)"
  shows "\<not> same_part c t (dval s a) (eval s e)"
proof (cases "idx_obj_partition_equal c t")
  case None
  then show ?thesis using eq e by (auto simp: entry_lookup_head_def set_entries split: if_splits)
next
  case (Some f)
  obtain h where h: "h \<in> set (lst_idx_head s t)" "e \<in> set (lst_entries h)" using e set_entries by metis
  then have ok: "head_ok c t (eval s) h" using inv unfolding dedup_inv_def parts_ok_def by blast
  then have hd: "hd (lst_entries h) \<in> set (lst_entries h)" by (simp add: head_ok_def)
  have "\<not> dict_idx_entries_equal c s t True a (e_obj (hd (lst_entries h)))"
    using eq Some h(1) by (simp add: entry_lookup_head_def find_index_None)
  then have "\<not> same_part c t (dval s a) (eval s (hd (lst_entries h)))"
    using ok hd dict_equal_iff [OF c] unfolding head_ok_def by blast
  then show ?thesis using same_part_trans [OF c] ok h(2) hd unfolding head_ok_def by blast
qed

section \<open>Lists of entries\<close>

lemma unlink_mset:
  assumes "e \<in> set xs" and "distinct (map e_ptr xs)"
  shows "add_mset e (mset (unlink_entry (e_ptr e) xs)) = mset xs"
proof -
  have "filter_mset (\<lambda>x. e_ptr x = e_ptr e) (mset xs) = {#e#}"
    using assms
  proof (induction xs)
    case (Cons x xs)
    then show ?case by (cases "x = e") (auto simp: filter_mset_eq_mempty_iff image_iff)
  qed simp
  then show ?thesis
    using multiset_partition [of "mset xs" "\<lambda>x. e_ptr x = e_ptr e"] by (simp add: unlink_entry_def)
qed

lemma insert_before_mset [simp]: "mset (insert_before p e xs) = add_mset e (mset xs)"
  by (induction xs) auto

lemma insert_after_mset [simp]: "mset (insert_after p e xs) = add_mset e (mset xs)"
  by (induction xs) auto

lemma entry_link_mset [simp]: "mset (entry_link mode entry_order e xs) = add_mset e (mset xs)"
  by (auto simp: entry_link_def split: option.splits)

lemma entry_move_mset:
  assumes "e \<in> set xs" and "distinct (map e_ptr xs)"
  shows "mset (snd (entry_move mode entry_order e xs)) = mset xs"
  using unlink_mset [OF assms]
  by (auto simp: entry_move_def nm_c_list_move_before_def nm_c_list_move_after_def split: NMDedupMultiIdxMode.splits option.splits)

lemma reorder_mset:
  assumes "e \<in> set xs" and "distinct (map e_ptr xs)"
  shows "mset (snd (nm_dedup_multi_entry_reorder entry_order after e xs)) = mset xs"
  using unlink_mset [OF assms]
  by (auto simp: nm_dedup_multi_entry_reorder_def nm_c_list_move_before_def nm_c_list_move_after_def split: option.splits)

lemma put_entry_ptrs [simp]: "map e_ptr (put_entry e xs) = map e_ptr xs"
  by (simp add: put_entry_def)

lemma put_entry_set:
  assumes "x \<in> set xs" and "e_ptr e = e_ptr x"
  shows "set (put_entry e xs) = insert e {y \<in> set xs. e_ptr y \<noteq> e_ptr e}"
  using assms by (auto simp: put_entry_def)

lemma count_mset_map: "mset xs = mset ys \<Longrightarrow> count_list (map f xs) a = count_list (map f ys) a"
  by (metis count_mset mset_map)

lemma put_entry_count:
  assumes "x \<in> set xs" and "distinct (map e_ptr xs)" and "e_ptr e = e_ptr x"
  shows "count_list (map e_obj (put_entry e xs)) a + (if e_obj x = a then 1 else 0)
      = count_list (map e_obj xs) a + (if e_obj e = a then 1 else 0)"
  using assms
proof (induction xs)
  case (Cons y ys)
  show ?case
  proof (cases "x = y")
    case True
    then have "put_entry e ys = ys" using Cons.prems unfolding put_entry_def by (auto intro!: map_idI simp: image_iff)
    then show ?thesis using True Cons.prems by (simp add: put_entry_def)
  next
    case False
    then have "e_ptr y \<noteq> e_ptr e" using Cons.prems by (auto simp: rev_image_eqI)
    then show ?thesis using Cons False by (auto simp: put_entry_def)
  qed
qed simp

lemma head_ok_perm:
  assumes h: "head_ok c t val h" and eq: "mset xs = mset (lst_entries h)"
  shows "head_ok c t val (h\<lparr>lst_entries := xs\<rparr>)"
proof -
  have "set xs = set (lst_entries h)" "length xs = length (lst_entries h)" using eq by (metis set_mset_mset, metis size_mset)
  moreover have "distinct (map e_ptr xs) = distinct (map e_ptr (lst_entries h))"
    using eq by (intro mset_eq_imp_distinct_iff) simp
  ultimately show ?thesis using h by (auto simp: head_ok_def)
qed

section \<open>Steps that keep the invariant\<close>

lemma dedup_inv_ref:
  assumes inv: "dedup_inv c ext s" and a: "entry_refs s a + ext a > 0"
  shows "dedup_inv c (ext(a := ext a + 1)) (nm_dedup_multi_obj_ref a s)"
proof -
  have "(\<lambda>b. entry_refs s b + (ext(a := ext a + 1)) b) = (\<lambda>b. entry_refs s b + ext b)(a := entry_refs s a + ext a + 1)" by auto
  then show ?thesis using inv dobjs_ok_ref [of c "\<lambda>b. entry_refs s b + ext b" s a] a
    unfolding dedup_inv_def by simp
qed

lemma dedup_inv_entry_live:
  assumes inv: "dedup_inv c ext s" and e: "e \<in> set (entries s t)"
  shows "entry_refs s (e_obj e) > 0 \<and> t \<in> set (dm_types s)"
proof -
  have t: "t \<in> set (dm_types s)" using inv e unfolding dedup_inv_def set_entries by (metis empty_iff list.set(1))
  have "count_list (map e_obj (entries s t)) (e_obj e) > 0" using e by (metis count_list_0_iff gr0I image_eqI list.set_map)
  then show ?thesis using t by (auto simp: entry_refs_def sum_eq_0_iff intro!: gr0I)
qed

lemma dedup_inv_unref:
  assumes inv: "dedup_inv c ext s" and a: "ext a > 0"
  shows "dedup_inv c (ext(a := ext a - 1)) (nm_dedup_multi_obj_unref a s)"
proof -
  let ?R = "\<lambda>b. entry_refs s b + ext b"
  have R: "(\<lambda>b. entry_refs s b + (ext(a := ext a - 1)) b) = ?R(a := ?R a - 1)" using a by auto
  have ok: "dobjs_ok c (?R(a := ?R a - 1)) (nm_dedup_multi_obj_unref a s)"
    using inv a unfolding dedup_inv_def by (intro dobjs_ok_unref) auto
  have keep: "b \<in> set (idx_objs (nm_dedup_multi_obj_unref a s))" if "b \<in> set (idx_objs s)" "entry_refs s b > 0" for b
  proof (cases "b = a")
    case True
    then have "o_ref_count (dm_mem s a) > 1"
      using dobjs_ok_live [of c ?R s a] inv a that unfolding dedup_inv_def by auto
    then show ?thesis using that by simp
  next
    case False
    then show ?thesis using that by simp
  qed
  have "e_obj e \<in> set (idx_objs (nm_dedup_multi_obj_unref a s))" if "e \<in> set (entries s t)" for e t
    using keep dedup_inv_entry_live [OF inv that] inv that unfolding dedup_inv_def by blast
  moreover have "dobjs_ok c (\<lambda>b. entry_refs s b + (ext(a := ext a - 1)) b) (nm_dedup_multi_obj_unref a s)" using ok R by simp
  ultimately show ?thesis using inv unfolding dedup_inv_def by (simp only: obj_unref_sel obj_ref_entries obj_ref_entry_refs) blast
qed

lemma dedup_inv_intern:
  assumes c: "dedup_class_ok c" and inv: "dedup_inv c ext s" and live: "o_ref_count (dm_mem s a) > 0" and fresh: "o_ref_count (dm_mem s fo) = 0 \<or> o_multi_idx (dm_mem s a) = Some (dm_self s)"
    and eq: "nm_dedup_multi_index_obj_intern c fo a s = (n, s')"
  shows "dedup_inv c (ext(n := ext n + 1)) s' \<and> n \<in> set (idx_objs s') \<and> intern_equal c (dval s a) (dval s' n)
     \<and> (\<forall>b. o_ref_count (dm_mem s b) > 0 \<longrightarrow> dval s' b = dval s b) \<and> lst_idx_head s' = lst_idx_head s
     \<and> idx_len s' = idx_len s \<and> dm_types s' = dm_types s"
proof -
  let ?R = "\<lambda>b. entry_refs s b + ext b"
  have obj: "dobjs_ok c ?R s" using inv by (simp add: dedup_inv_def)
  note i = dobjs_ok_intern [OF c obj live fresh eq]
  have refs: "entry_refs s' = entry_refs s" using i by (intro entry_refs_cong) auto
  have R: "(\<lambda>b. entry_refs s' b + (ext(n := ext n + 1)) b) = ?R(n := ?R n + 1)" using refs by auto
  have val: "eval s e = eval s' e" if "h \<in> set (lst_idx_head s t)" "e \<in> set (lst_entries h)" for h e t
  proof -
    have "e \<in> set (entries s t)" using that set_entries by metis
    then have "e_obj e \<in> set (idx_objs s)" using inv by (auto simp: dedup_inv_def)
    then have "o_ref_count (dm_mem s (e_obj e)) > 0" using dobjs_ok_live [OF obj] by simp
    then show ?thesis using i by simp
  qed
  have "parts_ok c t (eval s') (lst_idx_head s t)" for t
    using inv parts_ok_cong [of "lst_idx_head s t" "eval s" "eval s'" c t] val unfolding dedup_inv_def by blast
  then show ?thesis using i R inv unfolding dedup_inv_def by (auto simp: entries_def)
qed

text \<open>Changing the list of an index type moves references between the entries and the one who changes the list.\<close>

lemma dedup_inv_heads:
  assumes inv: "dedup_inv c ext s" and t: "t \<in> set (dm_types s)"
    and s': "lst_idx_head s' = (lst_idx_head s)(t := hs)" "dm_types s' = dm_types s" "dm_mem s' = dm_mem s"
      "idx_objs s' = idx_objs s" "dm_self s' = dm_self s"
    and ok: "parts_ok c t (eval s) hs" and objs: "\<And>e. e \<in> set (entries s' t) \<Longrightarrow> e_obj e \<in> set (idx_objs s)"
    and refs: "\<And>a. count_list (map e_obj (entries s' t)) a + ext' a = count_list (map e_obj (entries s t)) a + ext a"
  shows "dedup_inv c ext' s'"
proof -
  have "entry_refs s' a + ext' a = entry_refs s a + ext a" for a
    using entry_refs_update [OF t, of s' a] refs [of a] s' by simp
  then have "dobjs_ok c (\<lambda>a. entry_refs s' a + ext' a) s'" using inv s' by (simp add: dedup_inv_def dobjs_ok_def)
  then show ?thesis using inv ok objs t s' unfolding dedup_inv_def by (auto simp: entries_def split: if_splits)
qed

lemma set_head_sel [simp]:
  "lst_idx_head (set_head t i h s) = (lst_idx_head s)(t := (lst_idx_head s t)[i := h])" "dm_types (set_head t i h s) = dm_types s"
  "dm_mem (set_head t i h s) = dm_mem s" "idx_objs (set_head t i h s) = idx_objs s" "dm_self (set_head t i h s) = dm_self s"
  "idx_len (set_head t i h s) = idx_len s"
  by (simp_all add: set_head_def)

lemma set_head_entries:
  assumes c: "dedup_class_ok c" and inv: "dedup_inv c ext s" and i: "i < length (lst_idx_head s t)"
    and s': "lst_idx_head s' t = (lst_idx_head s t)[i := h]"
  shows "set (entries s' t) = set (entries s t) - set (lst_entries (lst_idx_head s t ! i)) \<union> set (lst_entries h)"
proof -
  let ?hs = "lst_idx_head s t"
  have ok: "parts_ok c t (eval s) ?hs" using inv by (simp add: dedup_inv_def)
  have old: "x \<in> set (entries s t) - set (lst_entries (?hs ! i)) \<longleftrightarrow> (\<exists>j < length ?hs. j \<noteq> i \<and> x \<in> set (lst_entries (?hs ! j)))" for x
  proof
    assume "x \<in> set (entries s t) - set (lst_entries (?hs ! i))"
    then show "\<exists>j < length ?hs. j \<noteq> i \<and> x \<in> set (lst_entries (?hs ! j))"
      unfolding set_entries by (metis DiffE in_set_conv_nth set_entries)
  next
    assume "\<exists>j < length ?hs. j \<noteq> i \<and> x \<in> set (lst_entries (?hs ! j))"
    then obtain j where j: "j < length ?hs" "j \<noteq> i" "x \<in> set (lst_entries (?hs ! j))" by blast
    have "x \<notin> set (lst_entries (?hs ! i))" using parts_ok_apart [OF c ok j(1) i j(2)] j(3) unfolding apart_def by blast
    then show "x \<in> set (entries s t) - set (lst_entries (?hs ! i))" using j by (metis DiffI nth_mem set_entries)
  qed
  have new: "x \<in> set (entries s' t) \<longleftrightarrow> (\<exists>j < length ?hs. x \<in> set (lst_entries (?hs[i := h] ! j)))" for x
    unfolding set_entries s' by (metis in_set_conv_nth length_list_update)
  have "x \<in> set (entries s' t) \<longleftrightarrow> (\<exists>j < length ?hs. j \<noteq> i \<and> x \<in> set (lst_entries (?hs ! j))) \<or> x \<in> set (lst_entries h)" for x
    unfolding new using i by (metis nth_list_update_eq nth_list_update_neq)
  then show ?thesis using old by blast
qed

text \<open>The list of a head may be permuted, and an entry of it replaced by one of the same identity.\<close>

lemma head_ok_put:
  assumes c: "dedup_class_ok c" and h: "head_ok c t val h" and e: "e \<in> set (lst_entries h)" and ptr: "e_ptr e' = e_ptr e"
    and same: "same_ident c t (val e) (val e')" and xs: "mset xs = mset (put_entry e' (lst_entries h))"
  shows "head_ok c t val (h\<lparr>lst_entries := xs\<rparr>) \<and> set xs = insert e' (set (lst_entries h) - {e})"
proof -
  have dist: "distinct (map e_ptr (lst_entries h))" using h by (simp add: head_ok_def)
  have set_xs: "set xs = insert e' (set (lst_entries h) - {e})"
  proof -
    have "set xs = insert e' {y \<in> set (lst_entries h). e_ptr y \<noteq> e_ptr e}"
      using xs put_entry_set [OF e ptr] ptr by (metis set_mset_mset)
    moreover have "e_ptr y \<noteq> e_ptr e \<longleftrightarrow> y \<noteq> e" if "y \<in> set (lst_entries h)" for y
      using dist that e by (auto simp: distinct_map inj_on_def)
    ultimately show ?thesis by blast
  qed
  have part: "same_part c t (val e) (val e')" "idx_obj_id_equal c t (val e) (val e')" using same by (simp_all add: same_ident_def)
  have "head_ok c t val (h\<lparr>lst_entries := xs\<rparr>)"
  proof -
    have "mset (map e_ptr xs) = mset (map e_ptr (lst_entries h))"
      using arg_cong [OF xs, of "image_mset e_ptr"] by (simp flip: mset_map)
    then have "distinct (map e_ptr xs)" using dist mset_eq_imp_distinct_iff by blast
    moreover have "length xs = length (lst_entries h)" using arg_cong [OF xs, of size] by (simp add: put_entry_def)
    moreover have p: "same_part c t (val e) (val x)" if "x \<in> set xs" for x
      using that h e part(1) set_xs unfolding head_ok_def by (cases "x = e'") simp_all
    moreover have "same_part c t (val x) (val y)" if "x \<in> set xs" "y \<in> set xs" for x y
      using same_part_trans [OF c same_part_sym [OF c p [OF that(1)]] p [OF that(2)]] .
    moreover have "x = y" if xy: "x \<in> set xs" "y \<in> set xs" and id: "idx_obj_id_equal c t (val x) (val y)" for x y
    proof -
      define g where "g z = (if z = e' then e else z)" for z
      have g: "g z \<in> set (lst_entries h)" "idx_obj_id_equal c t (val (g z)) (val z)" if "z \<in> set xs" for z
        using that set_xs e part(2) obj_id_refl [OF c] by (auto simp: g_def)
      have "idx_obj_id_equal c t (val (g x)) (val (g y))"
        using obj_id_trans [OF c obj_id_trans [OF c g(2) [OF xy(1)] id] obj_id_sym [OF c g(2) [OF xy(2)]]] .
      then have "g x = g y" using h g(1) [OF xy(1)] g(1) [OF xy(2)] unfolding head_ok_def by blast
      then show "x = y" using xy set_xs by (auto simp: g_def split: if_splits)
    qed
    ultimately show ?thesis using h e unfolding head_ok_def by auto
  qed
  then show ?thesis using set_xs by simp
qed

lemma dedup_inv_put:
  assumes c: "dedup_class_ok c" and inv: "dedup_inv c ext s" and i: "i < length (lst_idx_head s t)"
    and e: "e \<in> set (lst_entries (lst_idx_head s t ! i))" and ptr: "e_ptr e' = e_ptr e"
    and same: "same_ident c t (eval s e) (eval s e')" and obj: "e_obj e' \<in> set (idx_objs s)"
    and own: "e_obj e' = e_obj e \<and> ext' = ext \<or> e_obj e' \<noteq> e_obj e \<and> ext (e_obj e') > 0
      \<and> ext' = ext(e_obj e' := ext (e_obj e') - 1, e_obj e := ext (e_obj e) + 1)"
    and xs: "mset xs = mset (put_entry e' (lst_entries (lst_idx_head s t ! i)))"
  defines "s' \<equiv> set_head t i ((lst_idx_head s t ! i)\<lparr>lst_entries := xs\<rparr>) s"
  shows "dedup_inv c ext' s' \<and> set (entries s' t) = insert e' (set (entries s t) - {e})"
proof -
  let ?h = "lst_idx_head s t ! i" and ?h' = "(lst_idx_head s t ! i)\<lparr>lst_entries := xs\<rparr>"
  have ok: "parts_ok c t (eval s) (lst_idx_head s t)" using inv by (simp add: dedup_inv_def)
  then have h: "head_ok c t (eval s) ?h" using i by (rule parts_ok_nth)
  then have dist: "distinct (map e_ptr (lst_entries ?h))" by (simp add: head_ok_def)
  have ee: "e \<in> set (entries s t)" using e i by (metis nth_mem set_entries)
  have h': "head_ok c t (eval s) ?h'" and set_xs: "set xs = insert e' (set (lst_entries ?h) - {e})"
    using head_ok_put [OF c h e ptr same xs] by simp_all
  have part: "same_part c t (eval s e) (eval s e')" using same by (simp add: same_ident_def)
  have parts: "parts_ok c t (eval s) ((lst_idx_head s t)[i := ?h'])"
  proof (rule parts_ok_update [OF c ok i h'])
    fix x assume "x \<in> set (lst_entries ?h')"
    then show "\<exists>y \<in> set (lst_entries ?h). same_part c t (eval s y) (eval s x)"
      using h e part set_xs unfolding head_ok_def by auto
  next
    fix x j y assume x: "x \<in> set (lst_entries ?h')" and j: "j < length (lst_idx_head s t)" "j \<noteq> i" "y \<in> set (lst_entries (lst_idx_head s t ! j))"
    obtain z where z: "z \<in> set (lst_entries ?h)" "e_ptr z = e_ptr x" using x set_xs e ptr by auto
    then show "e_ptr x \<noteq> e_ptr y" using parts_ok_apart [OF c ok i j(1)] j unfolding apart_def by metis
  qed
  have ent: "set (entries s' t) = insert e' (set (entries s t) - {e})"
    using set_head_entries [OF c inv i, of s' ?h'] ee e set_xs i unfolding s'_def by (auto simp: set_entries)
  have cnt: "count_list (map e_obj (entries s' t)) a + (if e_obj e = a then 1 else 0)
      = count_list (map e_obj (entries s t)) a + (if e_obj e' = a then 1 else 0)" for a
    using entries_set_head [OF i, of s' ?h' a] put_entry_count [OF e dist ptr, of a] count_mset_map [OF xs, of e_obj a]
    by (simp add: s'_def)
  have "dedup_inv c ext' s'"
  proof (rule dedup_inv_heads [OF inv, of t s'])
    show "t \<in> set (dm_types s)" using dedup_inv_entry_live [OF inv ee] by simp
    show "parts_ok c t (eval s) ((lst_idx_head s t)[i := ?h'])" using parts .
    show "e_obj x \<in> set (idx_objs s)" if "x \<in> set (entries s' t)" for x using that ent obj inv unfolding dedup_inv_def by auto
    show "count_list (map e_obj (entries s' t)) a + ext' a = count_list (map e_obj (entries s t)) a + ext a" for a
      using cnt [of a] own by (auto split: if_splits)
  qed (simp_all add: s'_def)
  then show ?thesis using ent by simp
qed

section \<open>Adding an object\<close>

text \<open>What a step leaves as it is: the values of the objects that are alive, the other index types, the set of index types.\<close>

definition dedup_frame :: "'t \<Rightarrow> ('t, 'v) NMDedupMultiIndex \<Rightarrow> ('t, 'v) NMDedupMultiIndex \<Rightarrow> bool" where
  "dedup_frame t s s' \<longleftrightarrow>
     (\<forall>b. o_ref_count (dm_mem s b) > 0 \<longrightarrow> dval s' b = dval s b)
     \<and> (\<forall>t'. t' \<noteq> t \<longrightarrow> lst_idx_head s' t' = lst_idx_head s t') \<and> dm_types s' = dm_types s"

definition take_ref :: "nat option \<Rightarrow> (nat \<Rightarrow> nat) \<Rightarrow> nat \<Rightarrow> nat" where
  "take_ref old ext = (case old of None \<Rightarrow> ext | Some b \<Rightarrow> ext(b := ext b + 1))"

lemma dedup_inv_live: "dedup_inv c ext s \<Longrightarrow> e \<in> set (entries s t) \<Longrightarrow> o_ref_count (dm_mem s (e_obj e)) > 0"
  using dobjs_ok_live [of c "\<lambda>a. entry_refs s a + ext a" s "e_obj e"] unfolding dedup_inv_def by fastforce

text \<open>The object of an entry is replaced by the interned one; the reference to the former object is handed over.\<close>

lemma dedup_inv_replace:
  assumes c: "dedup_class_ok c" and inv: "dedup_inv c ext s" and i: "i < length (lst_idx_head s t)"
    and e: "e \<in> set (lst_entries (lst_idx_head s t ! i))" and same: "same_ident c t (eval s e) (dval s a)"
    and diff: "\<not> obj_full_equal c (dval s a) (eval s e)" and live: "o_ref_count (dm_mem s a) > 0" and fresh: "o_ref_count (dm_mem s fo) = 0 \<or> o_multi_idx (dm_mem s a) = Some (dm_self s)"
    and int: "nm_dedup_multi_index_obj_intern c fo a s = (n, s2)"
  defines "h \<equiv> lst_idx_head s t ! i" and "e' \<equiv> e\<lparr>e_obj := n\<rparr>"
  defines "s3 \<equiv> set_head t i (h\<lparr>lst_entries := put_entry e' (lst_entries h)\<rparr>) s2"
  shows "dedup_inv c (ext(e_obj e := ext (e_obj e) + 1)) s3 \<and> set (entries s3 t) = insert e' (set (entries s t) - {e})
     \<and> intern_equal c (dval s a) (eval s3 e') \<and> dedup_frame t s s3"
proof -
  note I = dedup_inv_intern [OF c inv live fresh int]
  have e': "e_ptr e' = e_ptr e" "e_obj e' = n" by (simp_all add: e'_def)
  have ee: "e \<in> set (entries s t)" using e i by (metis nth_mem set_entries)
  have heads: "lst_idx_head s2 t = lst_idx_head s t" using I by simp
  have v: "eval s2 e = eval s e" using I dedup_inv_live [OF inv ee] by simp
  have ne: "n \<noteq> e_obj e" using diff I v by (auto dest: intern_equal_full)
  have "same_part c t (dval s a) (dval s a)"
    using same_part_refl [OF c same_part_sym [OF c, of t "eval s e"]] same by (simp add: same_ident_def)
  then have "same_ident c t (dval s a) (eval s2 e')" using same_ident_full [OF c] I e' by (simp add: intern_equal_full)
  then have same2: "same_ident c t (eval s2 e) (eval s2 e')" using same_ident_trans [OF c same] v by simp
  have own: "ext(e_obj e := ext (e_obj e) + 1) = (ext(n := ext n + 1))(n := (ext(n := ext n + 1)) n - 1, e_obj e := (ext(n := ext n + 1)) (e_obj e) + 1)"
    using ne by (auto simp: fun_eq_iff)
  have "dedup_inv c (ext(e_obj e := ext (e_obj e) + 1)) s3 \<and> set (entries s3 t) = insert e' (set (entries s2 t) - {e})"
    using dedup_inv_put [OF c conjunct1 [OF I], of i t e e' "ext(e_obj e := ext (e_obj e) + 1)" "put_entry e' (lst_entries h)"]
      i e e' same2 ne own I unfolding s3_def heads h_def by simp
  moreover have "entries s2 t = entries s t" by (rule dedup_entries_cong [OF heads])
  moreover have "intern_equal c (dval s a) (eval s3 e')" using I e' by (simp add: s3_def)
  moreover have "dedup_frame t s s3" using I by (simp add: dedup_frame_def s3_def)
  ultimately show ?thesis by simp
qed

text \<open>First the mark of the entry is cleared and the entry moved.\<close>

lemma add_existing_moves:
  assumes c: "dedup_class_ok c" and inv: "dedup_inv c ext s" and i: "i < length (lst_idx_head s t)"
    and e: "e \<in> set (lst_entries (lst_idx_head s t ! i))"
    and mv: "entry_move mode entry_order (e\<lparr>e_dirty := False\<rparr>)
        (put_entry (e\<lparr>e_dirty := False\<rparr>) (lst_entries (lst_idx_head s t ! i))) = (ch, xs)"
  defines "e1 \<equiv> e\<lparr>e_dirty := False\<rparr>" and "h \<equiv> lst_idx_head s t ! i"
  defines "s1 \<equiv> set_head t i (h\<lparr>lst_entries := xs\<rparr>) s"
  shows "dedup_inv c ext s1 \<and> set (entries s1 t) = insert e1 (set (entries s t) - {e}) \<and> e1 \<in> set xs"
proof -
  have ee: "e \<in> set (entries s t)" using e i by (metis nth_mem set_entries)
  have e1: "e_ptr e1 = e_ptr e" "e_obj e1 = e_obj e" by (simp_all add: e1_def)
  have dist: "distinct (map e_ptr (put_entry e1 (lst_entries h)))"
    using inv i parts_ok_nth [of c t "eval s"] unfolding dedup_inv_def h_def head_ok_def put_entry_ptrs by blast
  have in1: "e1 \<in> set (put_entry e1 (lst_entries h))" using put_entry_set [of e "lst_entries h" e1] e e1 by (simp add: h_def)
  have xs: "mset xs = mset (put_entry e1 (lst_entries h))" 
    using entry_move_mset [OF in1 dist, of mode entry_order] mv by (simp add: e1_def h_def)
  have refl: "same_ident c t (eval s e) (eval s e1)"
    using dedup_inv_partitionable [OF inv ee] obj_id_refl [OF c] e1 by (simp add: same_ident_def)
  have obj: "e_obj e1 \<in> set (idx_objs s)" using inv ee e1 by (simp add: dedup_inv_def)
  have "e1 \<in> set xs" using xs in1 by (metis set_mset_mset)
  then show ?thesis using dedup_inv_put [OF c inv i e e1(1) refl obj, of ext xs] xs e1 by (simp add: s1_def h_def)
qed

lemma add_existing_correct:
  assumes c: "dedup_class_ok c" and inv: "dedup_inv c ext s" and e: "e \<in> set (entries s t)"
    and same: "same_ident c t (dval s a) (eval s e)" and live: "o_ref_count (dm_mem s a) > 0" and fresh: "o_ref_count (dm_mem s fo) = 0 \<or> o_multi_idx (dm_mem s a) = Some (dm_self s)"
    and eq: "add_existing c fo t a (the (entry_head t (e_ptr e) s)) e mode entry_order want s = (changed, en, old, s')"
  shows "dedup_inv c (take_ref old ext) s' \<and> dedup_frame t s s'
     \<and> (\<exists>e'. en = Some (e_ptr e') \<and> e_ptr e' = e_ptr e \<and> \<not> e_dirty e' \<and> obj_full_equal c (dval s a) (eval s' e')
          \<and> (intern_equal c (dval s a) (eval s' e') \<or> e_obj e' = e_obj e \<and> obj_full_equal c (dval s a) (eval s e))
          \<and> set (entries s' t) = insert e' (set (entries s t) - {e}))"
proof -
  obtain i where i: "entry_head t (e_ptr e) s = Some i" "i < length (lst_idx_head s t)" "e \<in> set (lst_entries (lst_idx_head s t ! i))"
    using entry_head_mem [OF c inv e] .
  define e1 h where "e1 = e\<lparr>e_dirty := False\<rparr>" and "h = lst_idx_head s t ! i"
  obtain ch xs where mv: "entry_move mode entry_order e1 (put_entry e1 (lst_entries h)) = (ch, xs)" by fastforce
  define s1 where "s1 = set_head t i (h\<lparr>lst_entries := xs\<rparr>) s"
  have e1: "e_ptr e1 = e_ptr e" "e_obj e1 = e_obj e" "\<not> e_dirty e1" by (simp_all add: e1_def)
  have st1: "dedup_inv c ext s1" "set (entries s1 t) = insert e1 (set (entries s t) - {e})" "e1 \<in> set xs"
    using add_existing_moves [OF c inv i(2,3) mv [unfolded e1_def h_def]] unfolding s1_def e1_def h_def by simp_all
  have head1: "i < length (lst_idx_head s1 t)" "lst_idx_head s1 t ! i = h\<lparr>lst_entries := xs\<rparr>" using i(2) by (simp_all add: s1_def)
  have mem: "dm_mem s1 = dm_mem s" "dm_self s1 = dm_self s" by (simp_all add: s1_def)
  have ptr: "e_ptr x \<noteq> e_ptr e" if "x \<in> set (entries s t) - {e}" for x
    using dedup_inv_unique [OF c inv e, of x] that by fastforce
  show ?thesis
  proof (cases "a = e_obj e1 \<or> obj_full_equal c (dval s1 a) (dval s1 (e_obj e1))")
    case True
    have "add_existing c fo t a i e mode entry_order want s =
        (ch, Some (e_ptr e1), if want then Some (e_obj e1) else None, if want then nm_dedup_multi_obj_ref (e_obj e1) s1 else s1)"
      using True mv unfolding add_existing_def Let_def e1_def [symmetric] h_def [symmetric] s1_def [symmetric] by (auto simp: s1_def)
    then have r: "en = Some (e_ptr e1)" "old = (if want then Some (e_obj e1) else None)"
      "s' = (if want then nm_dedup_multi_obj_ref (e_obj e1) s1 else s1)" using eq i(1) by auto
    have "dedup_inv c (take_ref old ext) s'"
      using st1 dedup_inv_ref [OF st1(1), of "e_obj e1"] dedup_inv_entry_live [OF st1(1), of e1] r by (auto simp: take_ref_def)
    moreover have "dedup_frame t s s'" using r by (simp add: dedup_frame_def s1_def)
    moreover have "obj_full_equal c (dval s a) (eval s' e1)" "set (entries s' t) = set (entries s1 t)"
        "e_obj e1 = e_obj e" "obj_full_equal c (dval s a) (eval s e)"
      using True r obj_full_refl [OF c] e1 by (auto simp: s1_def)
    ultimately show ?thesis using r(1) st1(2) e1 by (intro conjI exI [of _ e1]) simp_all
  next
    case False
    obtain n s2 where int: "nm_dedup_multi_index_obj_intern c fo a s1 = (n, s2)" by fastforce
    define e2 s3 where "e2 = e1\<lparr>e_obj := n\<rparr>" and "s3 = set_head t i (h\<lparr>lst_entries := put_entry e2 xs\<rparr>) s2"
    have "same_ident c t (eval s1 e1) (dval s1 a)" using same_ident_sym [OF c same] mem e1 by simp
    then have R: "dedup_inv c (ext(e_obj e1 := ext (e_obj e1) + 1)) s3" "set (entries s3 t) = insert e2 (set (entries s1 t) - {e1})"
        "intern_equal c (dval s a) (eval s3 e2)" "dedup_frame t s1 s3"
      using dedup_inv_replace [OF c st1(1) head1(1), of e1 a fo n s2] head1(2) st1(3) False live fresh int mem
      unfolding s3_def e2_def by simp_all
    have "add_existing c fo t a i e mode entry_order want s =
        (True, Some (e_ptr e1), if want then Some (e_obj e1) else None, if want then s3 else nm_dedup_multi_obj_unref (e_obj e1) s3)"
      using False mv int mem unfolding add_existing_def Let_def e1_def [symmetric] h_def [symmetric] by (simp add: s1_def [symmetric] s3_def e2_def)
    then have r: "en = Some (e_ptr e1)" "old = (if want then Some (e_obj e1) else None)"
      "s' = (if want then s3 else nm_dedup_multi_obj_unref (e_obj e1) s3)" using eq i(1) by auto
    have "dedup_inv c (take_ref old ext) s'" using R(1) dedup_inv_unref [OF R(1), of "e_obj e1"] r by (auto simp: take_ref_def)
    moreover have "dedup_frame t s s'" using R(4) r by (simp add: dedup_frame_def s1_def)
    moreover have "intern_equal c (dval s a) (eval s' e2)" "set (entries s' t) = set (entries s3 t)" using R r by auto
    moreover have "set (entries s3 t) = insert e2 (set (entries s t) - {e})" using R(2) st1(2) ptr e1(1) by auto
    ultimately show ?thesis using r(1) e1 by (intro conjI exI [of _ e2]) (simp_all add: e2_def intern_equal_full)
  qed
qed

text \<open>A new entry is put into the head of its partition, or into a new head.\<close>

lemma head_ok_link:
  assumes c: "dedup_class_ok c" and h: "head_ok c t val h"
    and part: "\<And>x. x \<in> set (lst_entries h) \<Longrightarrow> same_part c t (val e) (val x)"
    and new: "\<And>x. x \<in> set (lst_entries h) \<Longrightarrow> \<not> idx_obj_id_equal c t (val e) (val x) \<and> e_ptr x \<noteq> e_ptr e"
    and self: "same_part c t (val e) (val e)" and xs: "mset xs = add_mset e (mset (lst_entries h))"
  shows "head_ok c t val (h\<lparr>lst_entries := xs, he_len := he_len h + 1\<rparr>)"
proof -
  have sx: "set xs = insert e (set (lst_entries h))" using arg_cong [OF xs, of set_mset] by simp
  have "length xs = Suc (length (lst_entries h))" using arg_cong [OF xs, of size] by simp
  moreover have "mset (map e_ptr xs) = mset (e_ptr e # map e_ptr (lst_entries h))"
    using arg_cong [OF xs, of "image_mset e_ptr"] by simp
  moreover have "distinct (e_ptr e # map e_ptr (lst_entries h))"
  proof -
    have "e_ptr e \<notin> e_ptr ` set (lst_entries h)"
    proof
      assume "e_ptr e \<in> e_ptr ` set (lst_entries h)"
      then obtain x where "x \<in> set (lst_entries h)" "e_ptr x = e_ptr e" by auto
      then show False using new by blast
    qed
    then show ?thesis using h by (simp add: head_ok_def)
  qed
  ultimately have "length xs = Suc (length (lst_entries h))" "distinct (map e_ptr xs)"
    using mset_eq_imp_distinct_iff by blast+
  moreover have "\<not> idx_obj_id_equal c t (val e) (val x) \<and> \<not> idx_obj_id_equal c t (val x) (val e)"
    if "x \<in> set (lst_entries h)" for x
    using new [OF that] obj_id_sym [OF c] by blast
  ultimately show ?thesis using h part self same_part_sym [OF c] sx unfolding head_ok_def by auto
qed

lemma dedup_inv_link:
  assumes c: "dedup_class_ok c" and inv: "dedup_inv c ext s" and i: "i < length (lst_idx_head s t)" and t: "t \<in> set (dm_types s)"
    and part: "\<forall>x \<in> set (lst_entries (lst_idx_head s t ! i)). same_part c t (eval s e) (eval s x)"
    and new: "\<And>x. x \<in> set (entries s t) \<Longrightarrow> \<not> same_ident c t (eval s e) (eval s x) \<and> e_ptr x \<noteq> e_ptr e"
    and obj: "e_obj e \<in> set (idx_objs s)" and own: "ext (e_obj e) > 0"
    and xs: "mset xs = add_mset e (mset (lst_entries (lst_idx_head s t ! i)))"
    and s': "s' = (set_head t i ((lst_idx_head s t ! i)\<lparr>lst_entries := xs, he_len := he_len (lst_idx_head s t ! i) + 1\<rparr>) s)
      \<lparr>idx_len := l\<rparr>"
  shows "dedup_inv c (ext(e_obj e := ext (e_obj e) - 1)) s' \<and> set (entries s' t) = insert e (set (entries s t))"
proof -
  let ?h = "lst_idx_head s t ! i"
  let ?h' = "?h\<lparr>lst_entries := xs, he_len := he_len ?h + 1\<rparr>"
  have ok: "parts_ok c t (eval s) (lst_idx_head s t)" using inv by (simp add: dedup_inv_def)
  then have h: "head_ok c t (eval s) ?h" using i by (rule parts_ok_nth)
  have sx: "set xs = insert e (set (lst_entries ?h))" using arg_cong [OF xs, of set_mset] by simp
  have sub: "x \<in> set (entries s t)" if "x \<in> set (lst_entries ?h)" for x using that i by (metis nth_mem set_entries)
  obtain x0 where x0: "x0 \<in> set (lst_entries ?h)" using h unfolding head_ok_def by (metis list.set_sel(1))
  have self: "same_part c t (eval s e) (eval s e)" using same_part_refl [OF c] part x0 by blast
  have h': "head_ok c t (eval s) ?h'"
    using head_ok_link [OF c h _ _ self xs] part new sub by (simp add: same_ident_def)
  have parts: "parts_ok c t (eval s) ((lst_idx_head s t)[i := ?h'])"
  proof (rule parts_ok_update [OF c ok i h'])
    show "\<exists>y \<in> set (lst_entries ?h). same_part c t (eval s y) (eval s x)" if "x \<in> set (lst_entries ?h')" for x
      using that h part x0 same_part_sym [OF c] sx unfolding head_ok_def by auto
    show "e_ptr x \<noteq> e_ptr y" if x: "x \<in> set (lst_entries ?h')" and j: "j < length (lst_idx_head s t)" "j \<noteq> i"
        "y \<in> set (lst_entries (lst_idx_head s t ! j))" for x j y
    proof (cases "x = e")
      case True
      then show ?thesis using new [of y] j by (metis nth_mem set_entries)
    next
      case False
      then show ?thesis using x sx parts_ok_apart [OF c ok i j(1)] j unfolding apart_def by auto
    qed
  qed
  have heads: "lst_idx_head s' = (lst_idx_head s)(t := (lst_idx_head s t)[i := ?h'])" by (simp add: s')
  have ent: "set (entries s' t) = insert e (set (entries s t))"
    using set_head_entries [OF c inv i, of s' ?h'] heads sx sub by auto
  have "dedup_inv c (ext(e_obj e := ext (e_obj e) - 1)) s'"
  proof (rule dedup_inv_heads [OF inv t heads])
    show "e_obj x \<in> set (idx_objs s)" if "x \<in> set (entries s' t)" for x using that ent obj inv unfolding dedup_inv_def by auto
    have "count_list (map e_obj xs) a = (if e_obj e = a then 1 else 0) + count_list (map e_obj (lst_entries ?h)) a" for a
      using count_mset_map [of xs "e # lst_entries ?h" e_obj a] xs by simp
    then show "count_list (map e_obj (entries s' t)) a + (ext(e_obj e := ext (e_obj e) - 1)) a
        = count_list (map e_obj (entries s t)) a + ext a" for a
      using entries_set_head [OF i, of s' ?h' a] own heads by (auto split: if_splits)
    show "parts_ok c t (eval s) ((lst_idx_head s t)[i := ?h'])" using parts .
  qed (simp_all add: s')
  then show ?thesis using ent by simp
qed

lemma dedup_inv_new_head:
  assumes c: "dedup_class_ok c" and inv: "dedup_inv c ext s" and t: "t \<in> set (dm_types s)"
    and part: "\<And>x. x \<in> set (entries s t) \<Longrightarrow> \<not> same_part c t (eval s e) (eval s x) \<and> e_ptr x \<noteq> e_ptr e"
    and self: "same_part c t (eval s e) (eval s e)" and obj: "e_obj e \<in> set (idx_objs s)" and own: "ext (e_obj e) > 0"
    and s': "lst_idx_head s' = (lst_idx_head s)(t := lst_idx_head s t @ [\<lparr>lst_entries = [e], he_len = 1\<rparr>])" "dm_types s' = dm_types s"
      "dm_mem s' = dm_mem s" "idx_objs s' = idx_objs s" "dm_self s' = dm_self s"
  shows "dedup_inv c (ext(e_obj e := ext (e_obj e) - 1)) s' \<and> set (entries s' t) = insert e (set (entries s t))"
proof -
  have ok: "parts_ok c t (eval s) (lst_idx_head s t)" using inv by (simp add: dedup_inv_def)
  have ent: "entries s' t = entries s t @ [e]" by (simp add: entries_def s')
  have "dedup_inv c (ext(e_obj e := ext (e_obj e) - 1)) s'"
  proof (rule dedup_inv_heads [OF inv t s'])
    show "parts_ok c t (eval s) (lst_idx_head s t @ [\<lparr>lst_entries = [e], he_len = 1\<rparr>])"
    proof (rule parts_ok_snoc [OF ok])
      show "head_ok c t (eval s) \<lparr>lst_entries = [e], he_len = 1\<rparr>" using self by (simp add: head_ok_def)
      show "apart c t (eval s) h \<lparr>lst_entries = [e], he_len = 1\<rparr>" if "h \<in> set (lst_idx_head s t)" for h
        using part that same_part_sym [OF c] unfolding apart_def set_entries by auto
    qed
    show "e_obj x \<in> set (idx_objs s)" if "x \<in> set (entries s' t)" for x using that ent obj inv unfolding dedup_inv_def by auto
    show "count_list (map e_obj (entries s' t)) a + (ext(e_obj e := ext (e_obj e) - 1)) a
        = count_list (map e_obj (entries s t)) a + ext a" for a using own by (simp add: ent)
  qed
  then show ?thesis using ent by simp
qed

lemma add_new_correct:
  assumes c: "dedup_class_ok c" and inv: "dedup_inv c ext s" and t: "t \<in> set (dm_types s)"
    and none: "\<And>x. x \<in> set (entries s t) \<Longrightarrow> \<not> same_ident c t (dval s a) (eval s x) \<and> e_ptr x \<noteq> fe"
    and live: "o_ref_count (dm_mem s a) > 0" and fresh: "o_ref_count (dm_mem s fo) = 0 \<or> o_multi_idx (dm_mem s a) = Some (dm_self s)"
    and part: "idx_obj_partitionable c t (dval s a)"
    and eq: "add_new c fo fe t a mode entry_order s = (changed, en, old, s')"
  shows "dedup_inv c ext s' \<and> dedup_frame t s s' \<and> changed \<and> old = None
     \<and> (\<exists>e'. en = Some (e_ptr e') \<and> e_ptr e' = fe \<and> \<not> e_dirty e' \<and> intern_equal c (dval s a) (eval s' e')
          \<and> set (entries s' t) = insert e' (set (entries s t)))"
proof -
  obtain n s1 where int: "nm_dedup_multi_index_obj_intern c fo a s = (n, s1)" by fastforce
  note I = dedup_inv_intern [OF c inv live fresh int]
  have inv1: "dedup_inv c (ext(n := ext n + 1)) s1" and t1: "t \<in> set (dm_types s1)" using I t by simp_all
  define e where "e = \<lparr>e_ptr = fe, e_obj = n, e_dirty = False\<rparr>"
  have e: "e_ptr e = fe" "e_obj e = n" "\<not> e_dirty e" "intern_equal c (dval s a) (eval s1 e)" using I by (simp_all add: e_def)
  have pa: "same_part c t (dval s a) (dval s a)" using part partitionable_iff [OF c] by simp
  have ae: "same_ident c t (dval s a) (eval s1 e)" using same_ident_full [OF c intern_equal_full [OF e(4)] pa] .
  have ents: "entries s1 t = entries s t" using I by (intro dedup_entries_cong) simp
  have val: "eval s1 x = eval s x" if "x \<in> set (entries s t)" for x using I dedup_inv_live [OF inv that] by simp
  have none1: "\<not> same_ident c t (eval s1 e) (eval s1 x) \<and> e_ptr x \<noteq> e_ptr e" if "x \<in> set (entries s1 t)" for x
    using none [of x] val [of x] that ents e(1) same_ident_trans [OF c ae] by auto
  have self: "same_part c t (eval s1 e) (eval s1 e)"
    using same_part_refl [OF c same_part_sym [OF c]] ae by (auto simp: same_ident_def)
  have own: "(ext(n := ext n + 1)) (e_obj e) > 0" "e_obj e \<in> set (idx_objs s1)"
    "(ext(n := ext n + 1))(e_obj e := (ext(n := ext n + 1)) (e_obj e) - 1) = ext" using I e by auto
  have frame: "dedup_frame t s s'" if "dm_mem s' = dm_mem s1" "dm_types s' = dm_types s1" "\<And>t'. t' \<noteq> t \<Longrightarrow> lst_idx_head s' t' = lst_idx_head s1 t'"
    using that I by (simp add: dedup_frame_def)
  show ?thesis
  proof (cases "entry_lookup_head c t n s1")
    case (Some i)
    have hd: "i < length (lst_idx_head s1 t)" "\<forall>x \<in> set (lst_entries (lst_idx_head s1 t ! i)). same_part c t (eval s1 e) (eval s1 x)"
      using entry_lookup_head_Some [OF c inv1 Some] e by auto
    define l where "l = (idx_len s1)(t := idx_len s1 t + 1)"
    have r: "changed" "en = Some fe" "old = None"
        "s' = (set_head t i ((lst_idx_head s1 t ! i)\<lparr>lst_entries := entry_link mode entry_order e (lst_entries (lst_idx_head s1 t ! i)),
           he_len := he_len (lst_idx_head s1 t ! i) + 1\<rparr>) s1)\<lparr>idx_len := l\<rparr>"
      using eq part int Some by (auto simp: add_new_def Let_def e_def l_def)
    have "dedup_inv c ext s' \<and> set (entries s' t) = insert e (set (entries s1 t))"
      using dedup_inv_link [OF c inv1 hd(1) t1 hd(2) none1 own(2,1) entry_link_mset r(4)] unfolding own(3) .
    moreover have "dedup_frame t s s'" by (rule frame) (simp_all add: r(4))
    ultimately show ?thesis using r ents e by (intro conjI exI [of _ e]) simp_all
  next
    case None
    then have np: "\<not> same_part c t (eval s1 e) (eval s1 x) \<and> e_ptr x \<noteq> e_ptr e" if "x \<in> set (entries s1 t)" for x
      using entry_lookup_head_None [OF c inv1 None that] none1 [OF that] e(2) by simp
    have link: "entry_link mode entry_order e [] = [e]" by (auto simp: entry_link_def split: option.splits)
    have r: "changed" "en = Some fe" "old = None"
        "s' = s1\<lparr>lst_idx_head := (lst_idx_head s1)(t := lst_idx_head s1 t @ [\<lparr>lst_entries = [e], he_len = 1\<rparr>]),
            idx_len := (idx_len s1)(t := idx_len s1 t + 1)\<rparr>"
      using eq part int None link by (auto simp: add_new_def Let_def e_def set_head_def)
    have "dedup_inv c ext s' \<and> set (entries s' t) = insert e (set (entries s1 t))"
      using dedup_inv_new_head [OF c inv1 t1 np self own(2,1), of s'] r(4) unfolding own(3) by simp
    moreover have "dedup_frame t s s'" by (rule frame) (simp_all add: r(4))
    ultimately show ?thesis using r ents e by (intro conjI exI [of _ e]) simp_all
  qed
qed

end
