(* ===== verification/NM_Dedup_Run.thy ===== *)
theory NM_Dedup_Run
  imports NM_Dedup_Inv
begin

text \<open>
  What the operations of the index do, in terms of its entries: adding and replacing, removing one entry, a partition
  or everything that is still marked, marking, reordering, sorting and destroying. Each lemma also says that the
  operation keeps the invariant, with the references that it takes or hands over.
\<close>

section \<open>Adding\<close>

text \<open>
  The object of the entry is the interned one, unless the entry had an object that is equal in full: then it keeps
  that one, which may have another hash value.
\<close>

lemma add_full_interned:
  assumes c: "dedup_class_ok c" and inv: "dedup_inv c ext s" and t: "t \<in> set (dm_types s)"
    and fe: "\<And>x. x \<in> set (entries s t) \<Longrightarrow> e_ptr x \<noteq> fe"
    and live: "o_ref_count (dm_mem s a) > 0" and fresh: "o_ref_count (dm_mem s fo) = 0 \<or> o_multi_idx (dm_mem s a) = Some (dm_self s)"
    and part: "idx_obj_partitionable c t (dval s a)"
    and eq: "nm_dedup_multi_index_add_full c fo fe t a mode entry_order want s = (changed, en, old, s')"
  shows "dedup_inv c (take_ref old ext) s' \<and> dedup_frame t s s'
     \<and> (\<exists>e'. en = Some (e_ptr e') \<and> \<not> e_dirty e'
          \<and> e_ptr e' = (case entry_lookup_obj c t a s of Some x \<Rightarrow> e_ptr x | None \<Rightarrow> fe) \<and> obj_full_equal c (dval s a) (eval s' e')
          \<and> (intern_equal c (dval s a) (eval s' e')
               \<or> (\<exists>x. entry_lookup_obj c t a s = Some x \<and> e_obj e' = e_obj x \<and> obj_full_equal c (dval s a) (eval s x)))
          \<and> set (entries s' t) = insert e' {x \<in> set (entries s t). \<not> same_ident c t (dval s a) (eval s x)})"
proof (cases "entry_lookup_obj c t a s")
  case None
  then have none: "\<not> same_ident c t (dval s a) (eval s x)" if "x \<in> set (entries s t)" for x
    using entry_lookup_obj_None [OF c inv] that by blast
  have r: "add_new c fo fe t a mode entry_order s = (changed, en, old, s')"
    using eq None by (simp add: nm_dedup_multi_index_add_full_def)
  have "{x \<in> set (entries s t). \<not> same_ident c t (dval s a) (eval s x)} = set (entries s t)" using none by blast
  moreover obtain e' where "dedup_inv c ext s'" "dedup_frame t s s'" "old = None" "en = Some (e_ptr e')" "e_ptr e' = fe"
      "\<not> e_dirty e'" "intern_equal c (dval s a) (eval s' e')" "set (entries s' t) = insert e' (set (entries s t))"
    using add_new_correct [OF c inv t _ live fresh part r, OF conjI [OF none fe]] by blast
  ultimately show ?thesis using None by (intro conjI exI [of _ e']) (simp_all add: take_ref_def intern_equal_full)
next
  case (Some e)
  then have e: "e \<in> set (entries s t)" "same_ident c t (dval s a) (eval s e)"
    using entry_lookup_obj_Some [OF c inv, of t a e] by auto
  have "same_ident c t (dval s a) (eval s x) \<longleftrightarrow> x = e" if "x \<in> set (entries s t)" for x
    using dedup_inv_unique [OF c inv e(1) that] e(2) same_ident_trans [OF c same_ident_sym [OF c e(2)]] by blast
  then have "{x \<in> set (entries s t). \<not> same_ident c t (dval s a) (eval s x)} = set (entries s t) - {e}" by blast
  moreover obtain e' where "dedup_inv c (take_ref old ext) s'" "dedup_frame t s s'" "en = Some (e_ptr e')" "e_ptr e' = e_ptr e"
      "\<not> e_dirty e'" "obj_full_equal c (dval s a) (eval s' e')"
      "intern_equal c (dval s a) (eval s' e') \<or> e_obj e' = e_obj e \<and> obj_full_equal c (dval s a) (eval s e)"
      "set (entries s' t) = insert e' (set (entries s t) - {e})"
    using add_existing_correct [OF c inv e live fresh, of mode entry_order want changed en old s'] eq Some
    by (auto simp: nm_dedup_multi_index_add_full_def)
  ultimately show ?thesis using Some by (intro conjI exI [of _ e']) simp_all
qed

lemma add_full_correct:
  assumes c: "dedup_class_ok c" and inv: "dedup_inv c ext s" and t: "t \<in> set (dm_types s)"
    and fe: "\<And>x. x \<in> set (entries s t) \<Longrightarrow> e_ptr x \<noteq> fe"
    and live: "o_ref_count (dm_mem s a) > 0" and fresh: "o_ref_count (dm_mem s fo) = 0 \<or> o_multi_idx (dm_mem s a) = Some (dm_self s)"
    and part: "idx_obj_partitionable c t (dval s a)"
    and eq: "nm_dedup_multi_index_add_full c fo fe t a mode entry_order want s = (changed, en, old, s')"
  shows "dedup_inv c (take_ref old ext) s' \<and> dedup_frame t s s'
     \<and> (\<exists>e'. en = Some (e_ptr e') \<and> \<not> e_dirty e'
          \<and> e_ptr e' = (case entry_lookup_obj c t a s of Some x \<Rightarrow> e_ptr x | None \<Rightarrow> fe) \<and> obj_full_equal c (dval s a) (eval s' e')
          \<and> set (entries s' t) = insert e' {x \<in> set (entries s t). \<not> same_ident c t (dval s a) (eval s x)})"
  using add_full_interned [OF c inv t fe live fresh part eq] by blast

lemma add_full_not_partitionable:
  assumes c: "dedup_class_ok c" and inv: "dedup_inv c ext s" and part: "\<not> idx_obj_partitionable c t (dval s a)"
  shows "nm_dedup_multi_index_add_full c fo fe t a mode entry_order want s = (False, None, None, s)"
proof -
  have "entry_lookup_obj c t a s = None"
    unfolding entry_lookup_obj_None [OF c inv]
    using part same_part_refl [OF c] partitionable_iff [OF c] by (auto simp: same_ident_def)
  then show ?thesis using part by (simp add: nm_dedup_multi_index_add_full_def add_new_def)
qed

section \<open>Removing\<close>

definition dedup_keeps :: "'t \<Rightarrow> ('t, 'v) NMDedupMultiIndex \<Rightarrow> ('t, 'v) NMDedupMultiIndex \<Rightarrow> bool" where
  "dedup_keeps t s s' \<longleftrightarrow>
     (\<forall>b. dval s' b = dval s b) \<and> (\<forall>t'. t' \<noteq> t \<longrightarrow> lst_idx_head s' t' = lst_idx_head s t') \<and> dm_types s' = dm_types s
     \<and> dm_self s' = dm_self s"

lemma dedup_keeps_trans: "dedup_keeps t s s1 \<Longrightarrow> dedup_keeps t s1 s2 \<Longrightarrow> dedup_keeps t s s2"
  by (simp add: dedup_keeps_def)

lemma dedup_keeps_refl [simp]: "dedup_keeps t s s"
  by (simp add: dedup_keeps_def)

text \<open>Taking an entry out of its head hands its reference over.\<close>

lemma unlink_other: "p \<notin> e_ptr ` set xs \<Longrightarrow> unlink_entry p xs = xs"
  by (auto simp: unlink_entry_def filter_id_conv)

lemma unlink_concat: "(\<And>h. h \<in> set hs \<Longrightarrow> p \<notin> e_ptr ` set (lst_entries h)) \<Longrightarrow>
    unlink_entry p (concat (map lst_entries hs)) = concat (map lst_entries hs)"
  by (rule unlink_other) auto

lemma unlink_append [simp]: "unlink_entry p (xs @ ys) = unlink_entry p xs @ unlink_entry p ys"
  by (simp add: unlink_entry_def)

lemma parts_ok_split:
  assumes c: "dedup_class_ok c" and ok: "parts_ok c t val hs" and i: "i < length hs" and p: "p \<in> e_ptr ` set (lst_entries (hs ! i))"
    and h: "h \<in> set (take i hs) \<union> set (drop (Suc i) hs)"
  shows "p \<notin> e_ptr ` set (lst_entries h)"
proof -
  have "\<exists>j < length hs. j \<noteq> i \<and> hs ! j = h"
    using h
  proof
    assume "h \<in> set (take i hs)"
    then obtain j where "j < i" "hs ! j = h" using i by (auto simp: in_set_conv_nth)
    then show ?thesis using i by (intro exI [of _ j]) simp
  next
    assume "h \<in> set (drop (Suc i) hs)"
    then obtain j where "j < length hs - Suc i" "hs ! (Suc i + j) = h" by (auto simp: in_set_conv_nth)
    then show ?thesis by (intro exI [of _ "Suc i + j"]) simp
  qed
  then obtain j where j: "j < length hs" "j \<noteq> i" "hs ! j = h" by blast
  then show ?thesis using parts_ok_apart [OF c ok j(1) i j(2)] p unfolding apart_def by fastforce
qed

lemma head_ok_unlink:
  assumes "head_ok c t val h" and "unlink_entry p (lst_entries h) \<noteq> []"
  shows "head_ok c t val (h\<lparr>lst_entries := unlink_entry p (lst_entries h), he_len := length (unlink_entry p (lst_entries h))\<rparr>)"
  using assms unfolding head_ok_def by (auto simp: unlink_entry_def distinct_map intro: inj_on_subset)

text \<open>The list of heads after an entry is taken out, and the entries then.\<close>

definition unlink_heads :: "nat \<Rightarrow> nat \<Rightarrow> NMDedupMultiHeadEntry list \<Rightarrow> NMDedupMultiHeadEntry list" where
  "unlink_heads i p hs =
     (let xs = unlink_entry p (lst_entries (hs ! i))
      in if xs = [] then take i hs @ drop (Suc i) hs else hs[i := (hs ! i)\<lparr>lst_entries := xs, he_len := length xs\<rparr>])"

lemma unlink_heads_entries:
  assumes c: "dedup_class_ok c" and ok: "parts_ok c t val hs" and i: "i < length hs" and p: "p \<in> e_ptr ` set (lst_entries (hs ! i))"
  shows "concat (map lst_entries (unlink_heads i p hs)) = unlink_entry p (concat (map lst_entries hs))"
proof -
  let ?a = "concat (map lst_entries (take i hs))" and ?b = "concat (map lst_entries (drop (Suc i) hs))"
  have hs: "concat (map lst_entries hs) = ?a @ lst_entries (hs ! i) @ ?b"
    using arg_cong [OF id_take_nth_drop [OF i], of "\<lambda>hs. concat (map lst_entries hs)"] by simp
  have "unlink_entry p ?a = ?a" "unlink_entry p ?b = ?b"
    using parts_ok_split [OF c ok i p] by (auto intro!: unlink_concat)
  then show ?thesis using i by (simp add: hs unlink_heads_def Let_def upd_conv_take_nth_drop)
qed

lemma unlink_heads_ok:
  assumes c: "dedup_class_ok c" and ok: "parts_ok c t val hs" and i: "i < length hs"
  shows "parts_ok c t val (unlink_heads i p hs)"
proof (cases "unlink_entry p (lst_entries (hs ! i)) = []")
  case True
  then show ?thesis using parts_ok_delete [OF ok] by (simp add: unlink_heads_def)
next
  case False
  note h = head_ok_unlink [OF parts_ok_nth [OF ok i] False]
  have "parts_ok c t val (hs[i := (hs ! i)\<lparr>lst_entries := unlink_entry p (lst_entries (hs ! i)),
      he_len := length (unlink_entry p (lst_entries (hs ! i)))\<rparr>])"
  proof (rule parts_ok_update [OF c ok i h])
    show "\<exists>y \<in> set (lst_entries (hs ! i)). same_part c t (val y) (val x)"
      if "x \<in> set (lst_entries ((hs ! i)\<lparr>lst_entries := unlink_entry p (lst_entries (hs ! i)),
        he_len := length (unlink_entry p (lst_entries (hs ! i)))\<rparr>))" for x
      using that parts_ok_nth [OF ok i] by (auto simp: head_ok_def unlink_entry_def)
    show "e_ptr x \<noteq> e_ptr y" if "x \<in> set (lst_entries ((hs ! i)\<lparr>lst_entries := unlink_entry p (lst_entries (hs ! i)),
        he_len := length (unlink_entry p (lst_entries (hs ! i)))\<rparr>))" "j < length hs" "j \<noteq> i" "y \<in> set (lst_entries (hs ! j))" for x j y
      using that parts_ok_apart [OF c ok i that(2)] by (auto simp: apart_def unlink_entry_def)
  qed
  then show ?thesis using False by (simp add: unlink_heads_def Let_def)
qed

lemma parts_ok_distinct: "parts_ok c t val hs \<Longrightarrow> distinct (map e_ptr (concat (map lst_entries hs)))"
proof (induction hs)
  case (Cons h hs)
  then have "parts_ok c t val hs" "distinct (map e_ptr (lst_entries h))" "\<forall>h' \<in> set hs. apart c t val h h'"
    by (auto simp: parts_ok_def head_ok_def)
  then show ?case using Cons.IH by (fastforce simp: apart_def)
qed simp

lemma remove_entry_correct:
  assumes c: "dedup_class_ok c" and inv: "dedup_inv c ext s" and e: "e \<in> set (entries s t)"
    and i: "entry_head t (e_ptr e) s = Some i" and eq: "remove_entry t (e_ptr e) s = (removed, s')"
  shows "dedup_inv c ext s' \<and> dedup_keeps t s s' \<and> lst_idx_head s' t = unlink_heads i (e_ptr e) (lst_idx_head s t)
     \<and> entries s' t = unlink_entry (e_ptr e) (entries s t)
     \<and> (removed \<longleftrightarrow> unlink_entry (e_ptr e) (lst_entries (lst_idx_head s t ! i)) = [])
     \<and> idx_len s' = (if removed then idx_len s else (idx_len s)(t := idx_len s t - 1))"
proof -
  have ok: "parts_ok c t (eval s) (lst_idx_head s t)" using inv by (simp add: dedup_inv_def)
  have il: "i < length (lst_idx_head s t)" "e \<in> set (lst_entries (lst_idx_head s t ! i))"
    using entry_head_mem [OF c inv e] i by auto
  let ?h = "lst_idx_head s t ! i" and ?p = "e_ptr e"
  have h: "head_ok c t (eval s) ?h" using parts_ok_nth [OF ok il(1)] .
  have um: "add_mset e (mset (unlink_entry ?p (lst_entries ?h))) = mset (lst_entries ?h)"
    using unlink_mset [OF il(2)] h by (simp add: head_ok_def)
  have len: "he_len ?h - 1 = length (unlink_entry ?p (lst_entries ?h))"
    using h arg_cong [OF um, of size] by (simp add: head_ok_def)
  define s1 where "s1 = (if removed then s else s\<lparr>idx_len := (idx_len s)(t := idx_len s t - 1)\<rparr>)
      \<lparr>lst_idx_head := (lst_idx_head s)(t := unlink_heads i ?p (lst_idx_head s t))\<rparr>"
  have r: "removed \<longleftrightarrow> unlink_entry ?p (lst_entries ?h) = []" "s' = nm_dedup_multi_obj_unref (e_obj e) s1"
    using eq i len entry_at_mem [OF c inv e] unfolding remove_entry_def s1_def unlink_heads_def Let_def
    by (auto simp: set_head_def split: if_splits)
  have ent: "entries s1 t = unlink_entry ?p (entries s t)"
    using unlink_heads_entries [OF c ok il(1)] il(2) by (simp add: entries_def s1_def)
  have um2: "add_mset e (mset (entries s1 t)) = mset (entries s t)"
    using unlink_mset [OF e] parts_ok_distinct [OF ok] ent by (simp add: entries_def)
  have "dedup_inv c (ext(e_obj e := ext (e_obj e) + 1)) s1"
  proof (rule dedup_inv_heads [OF inv])
    show "t \<in> set (dm_types s)" using dedup_inv_entry_live [OF inv e] by simp
    show "lst_idx_head s1 = (lst_idx_head s)(t := unlink_heads i ?p (lst_idx_head s t))" by (simp add: s1_def)
    show "parts_ok c t (eval s) (unlink_heads i ?p (lst_idx_head s t))" using unlink_heads_ok [OF c ok il(1)] .
    show "e_obj x \<in> set (idx_objs s)" if "x \<in> set (entries s1 t)" for x
      using that ent inv by (auto simp: dedup_inv_def unlink_entry_def)
    show "count_list (map e_obj (entries s1 t)) a + (ext(e_obj e := ext (e_obj e) + 1)) a
        = count_list (map e_obj (entries s t)) a + ext a" for a
      using count_mset_map [of "e # entries s1 t" "entries s t" e_obj a] um2 by auto
  qed (simp_all add: s1_def)
  from dedup_inv_unref [OF this, of "e_obj e"] have "dedup_inv c ext s'" by (simp add: r(2))
  then show ?thesis using r ent by (auto simp: s1_def dedup_keeps_def)
qed

section \<open>Marks\<close>

text \<open>Entries may be changed as long as they keep their pointers and objects.\<close>

lemma head_ok_map:
  assumes f: "\<And>e. e_ptr (f e) = e_ptr e" "\<And>e. e_obj (f e) = e_obj e" and h: "head_ok c t (eval s) h"
  shows "head_ok c t (eval s) (h\<lparr>lst_entries := map f (lst_entries h)\<rparr>)"
proof -
  have "map e_ptr (map f (lst_entries h)) = map e_ptr (lst_entries h)" using f by simp
  then have "distinct (map e_ptr (map f (lst_entries h)))" using h by (simp only: head_ok_def)
  moreover have "f e = f e'" if "e \<in> set (lst_entries h)" "e' \<in> set (lst_entries h)" "idx_obj_id_equal c t (eval s e) (eval s e')" for e e'
    using h that unfolding head_ok_def by blast
  ultimately show ?thesis using h unfolding head_ok_def by (simp add: f)
qed

lemma dedup_inv_map:
  assumes f: "\<And>e. e_ptr (f e) = e_ptr e" "\<And>e. e_obj (f e) = e_obj e" and inv: "dedup_inv c ext s"
    and s': "lst_idx_head s' = (lst_idx_head s)(t := map (\<lambda>h. h\<lparr>lst_entries := map f (lst_entries h)\<rparr>) (lst_idx_head s t))"
      "dm_types s' = dm_types s" "dm_mem s' = dm_mem s" "idx_objs s' = idx_objs s" "dm_self s' = dm_self s"
  shows "dedup_inv c ext s' \<and> dedup_keeps t s s' \<and> entries s' t = map f (entries s t)"
proof -
  let ?g = "\<lambda>h. h\<lparr>lst_entries := map f (lst_entries h)\<rparr>"
  have ent: "entries s' t = map f (entries s t)" by (simp add: entries_def s' map_concat o_def)
  have keep: "dedup_keeps t s s'" by (simp add: dedup_keeps_def s')
  have "dedup_inv c ext s'"
  proof (cases "t \<in> set (dm_types s)")
    case True
    show ?thesis
    proof (rule dedup_inv_heads [OF inv True s'])
      have ok: "parts_ok c t (eval s) (lst_idx_head s t)" using inv by (simp add: dedup_inv_def)
      have "apart c t (eval s) (?g h) (?g h')" if "apart c t (eval s) h h'" for h h' using that f by (auto simp: apart_def)
      then have "sorted_wrt (apart c t (eval s)) (map ?g (lst_idx_head s t))"
        using ok unfolding parts_ok_def sorted_wrt_map by (auto intro: sorted_wrt_mono_rel)
      then show "parts_ok c t (eval s) (map ?g (lst_idx_head s t))"
        using ok head_ok_map [where f = f and c = c and t = t and s = s, OF f] unfolding parts_ok_def by simp
      show "e_obj e \<in> set (idx_objs s)" if "e \<in> set (entries s' t)" for e using that inv f by (auto simp: ent dedup_inv_def)
      have "map e_obj (map f xs) = map e_obj xs" for xs using f by simp
      then show "count_list (map e_obj (entries s' t)) a + ext a = count_list (map e_obj (entries s t)) a + ext a" for a
        by (simp only: ent)
    qed
  next
    case False
    then have "lst_idx_head s t = []" using inv by (simp add: dedup_inv_def)
    then have "lst_idx_head s' = lst_idx_head s" by (simp add: s' fun_upd_idem)
    then have "entries s' = entries s" "entry_refs s' = entry_refs s"
      by (simp_all add: entries_def entry_refs_def fun_eq_iff s')
    moreover have "dobjs_ok c R s' = dobjs_ok c R s" for R unfolding dobjs_ok_def s' ..
    ultimately show ?thesis using inv \<open>lst_idx_head s' = lst_idx_head s\<close> unfolding dedup_inv_def s'(2-4) by simp
  qed
  then show ?thesis using ent keep by simp
qed

lemma set_dirty_correct:
  assumes inv: "dedup_inv c ext s" and s': "s' = nm_dedup_multi_entry_set_dirty t p d s"
  shows "dedup_inv c ext s' \<and> dedup_keeps t s s' \<and> entries s' t = map (\<lambda>e. if e_ptr e = p then e\<lparr>e_dirty := d\<rparr> else e) (entries s t)"
  unfolding s' by (rule dedup_inv_map [OF _ _ inv]) (simp_all add: nm_dedup_multi_entry_set_dirty_def)

lemma dirty_set_idx_correct:
  assumes inv: "dedup_inv c ext s" and s': "s' = nm_dedup_multi_index_dirty_set_idx t s"
  shows "dedup_inv c ext s' \<and> dedup_keeps t s s' \<and> entries s' t = map (\<lambda>e. e\<lparr>e_dirty := True\<rparr>) (entries s t)"
  unfolding s' by (rule dedup_inv_map [OF _ _ inv]) (simp_all add: nm_dedup_multi_index_dirty_set_idx_def dirty_head_def [abs_def])

lemma dirty_set_head_correct:
  assumes c: "dedup_class_ok c" and inv: "dedup_inv c ext s" and s': "s' = nm_dedup_multi_index_dirty_set_head c t a s"
  shows "dedup_inv c ext s' \<and> dedup_keeps t s s'
     \<and> entries s' t = map (\<lambda>e. if same_part c t (dval s a) (eval s e) then e\<lparr>e_dirty := True\<rparr> else e) (entries s t)"
proof (cases "entry_lookup_head c t a s")
  case None
  then have "map (\<lambda>e. if same_part c t (dval s a) (eval s e) then e\<lparr>e_dirty := True\<rparr> else e) (entries s t) = entries s t"
    using entry_lookup_head_None [OF c inv None] by (intro map_idI) simp
  then show ?thesis using None inv by (simp add: s' nm_dedup_multi_index_dirty_set_head_def)
next
  case (Some i)
  let ?f = "\<lambda>e. if same_part c t (dval s a) (eval s e) then e\<lparr>e_dirty := True\<rparr> else e" and ?hs = "lst_idx_head s t"
  have i: "i < length ?hs" "\<forall>e \<in> set (lst_entries (?hs ! i)). same_part c t (dval s a) (eval s e)"
    using entry_lookup_head_Some [OF c inv Some] by auto
  have ok: "parts_ok c t (eval s) ?hs" using inv by (simp add: dedup_inv_def)
  have "?hs[i := dirty_head (?hs ! i)] = map (\<lambda>h. h\<lparr>lst_entries := map ?f (lst_entries h)\<rparr>) ?hs"
  proof (rule nth_equalityI)
    fix j assume j: "j < length (?hs[i := dirty_head (?hs ! i)])"
    show "?hs[i := dirty_head (?hs ! i)] ! j = map (\<lambda>h. h\<lparr>lst_entries := map ?f (lst_entries h)\<rparr>) ?hs ! j"
    proof (cases "j = i")
      case True
      then show ?thesis using i by (simp add: dirty_head_def)
    next
      case False
      obtain x where x: "x \<in> set (lst_entries (?hs ! i))" using parts_ok_nth [OF ok i(1)] unfolding head_ok_def by (metis list.set_sel(1))
      have "\<not> same_part c t (dval s a) (eval s y)" if "y \<in> set (lst_entries (?hs ! j))" for y
        using parts_ok_apart [OF c ok i(1), of j] False j x that i(2) same_part_trans [OF c same_part_sym [OF c], of t "dval s a" "eval s x"]
        unfolding apart_def by auto
      then have "map ?f (lst_entries (?hs ! j)) = lst_entries (?hs ! j)" by (intro map_idI) simp
      then show ?thesis using False j by simp
    qed
  qed simp
  then show ?thesis unfolding s'
    by (intro dedup_inv_map [OF _ _ inv]) (simp_all add: nm_dedup_multi_index_dirty_set_head_def Some)
qed

section \<open>Sweeping\<close>

text \<open>What the loops leave of a list of entries: of those at \<^verbatim>\<open>P\<close>, all or the dirty ones are gone, and the others may get marked.\<close>

definition sweep :: "bool \<Rightarrow> bool \<Rightarrow> nat set \<Rightarrow> NMDedupMultiEntry list \<Rightarrow> NMDedupMultiEntry list" where
  "sweep remove_all mark P xs =
     map (\<lambda>e. if e_ptr e \<in> P \<and> mark then e\<lparr>e_dirty := True\<rparr> else e)
       (filter (\<lambda>e. \<not> (e_ptr e \<in> P \<and> (remove_all \<or> e_dirty e))) xs)"

lemma sweep_empty [simp]: "sweep remove_all mark {} xs = xs"
  by (simp add: sweep_def)

lemma sweep_insert: "p \<notin> P \<Longrightarrow> sweep remove_all mark (insert p P) xs = sweep remove_all mark P (sweep remove_all mark {p} xs)"
  by (induction xs) (auto simp: sweep_def)

lemma sweep_Un:
  assumes "P \<inter> Q = {}"
  shows "sweep remove_all mark (P \<union> Q) xs = sweep remove_all mark Q (sweep remove_all mark P xs)"
  using assms by (induction xs) (auto simp: sweep_def)

lemma sweep_all: "(\<And>e. e \<in> set xs \<Longrightarrow> e_ptr e \<in> P) \<Longrightarrow>
    sweep remove_all mark P xs = map (\<lambda>e. if mark then e\<lparr>e_dirty := True\<rparr> else e) (filter (\<lambda>e. \<not> (remove_all \<or> e_dirty e)) xs)"
  by (induction xs) (auto simp: sweep_def)

lemma sweep_one:
  assumes "\<And>x. x \<in> set xs \<Longrightarrow> e_ptr x = e_ptr e \<Longrightarrow> x = e"
  shows "sweep remove_all mark {e_ptr e} xs =
     (if remove_all \<or> e_dirty e then unlink_entry (e_ptr e) xs
      else if mark then map (\<lambda>x. if e_ptr x = e_ptr e then x\<lparr>e_dirty := True\<rparr> else x) xs else xs)"
proof -
  have "filter (\<lambda>x. \<not> (e_ptr x \<in> {e_ptr e} \<and> (remove_all \<or> e_dirty x))) xs
      = filter (\<lambda>x. \<not> (e_ptr x = e_ptr e \<and> (remove_all \<or> e_dirty e))) xs"
    by (rule filter_cong [OF refl]) (use assms in blast)
  moreover have "map (\<lambda>x. if e_ptr x = e_ptr e then x\<lparr>e_dirty := True\<rparr> else x) (filter (\<lambda>x. e_ptr x \<noteq> e_ptr e) xs)
      = filter (\<lambda>x. e_ptr x \<noteq> e_ptr e) xs" by (rule map_idI) simp
  ultimately show ?thesis by (simp add: sweep_def unlink_entry_def)
qed

lemma unlink_heads_other:
  assumes "h \<in> set hs" and "i < length hs" and "h \<noteq> hs ! i"
  shows "h \<in> set (unlink_heads i p hs)"
proof -
  have "hs = take i hs @ hs ! i # drop (Suc i) hs" using assms(2) by (rule id_take_nth_drop)
  then have "h \<in> set (take i hs) \<union> set (drop (Suc i) hs)" using assms(1,3) by (metis Un_iff set_ConsD set_append)
  then show ?thesis using assms(2) by (auto simp: unlink_heads_def Let_def upd_conv_take_nth_drop)
qed

lemma remove_entry_step:
  assumes c: "dedup_class_ok c" and inv: "dedup_inv c ext s" and h: "h \<in> set (lst_idx_head s t)" and e: "e \<in> set (lst_entries h)"
    and eq: "remove_entry t (e_ptr e) s = (removed, s')"
  shows "dedup_inv c ext s' \<and> dedup_keeps t s s' \<and> entries s' t = unlink_entry (e_ptr e) (entries s t)
     \<and> Suc (length (entries s' t)) = length (entries s t)
     \<and> (removed \<longrightarrow> set (lst_entries h) = {e})
     \<and> (\<not> removed \<longrightarrow> (\<exists>h' \<in> set (lst_idx_head s' t). lst_entries h' = unlink_entry (e_ptr e) (lst_entries h)))
     \<and> (\<forall>h'. h' \<in> set (lst_idx_head s t) \<longrightarrow> h' \<noteq> h \<longrightarrow> h' \<in> set (lst_idx_head s' t))
     \<and> idx_len s' = (if removed then idx_len s else (idx_len s)(t := idx_len s t - 1))"
proof -
  have ee: "e \<in> set (entries s t)" using h e set_entries by metis
  have ok: "parts_ok c t (eval s) (lst_idx_head s t)" using inv by (simp add: dedup_inv_def)
  obtain i where i: "entry_head t (e_ptr e) s = Some i" "i < length (lst_idx_head s t)" "e \<in> set (lst_entries (lst_idx_head s t ! i))"
    using entry_head_mem [OF c inv ee] .
  have hi: "lst_idx_head s t ! i = h"
    using parts_ok_unique [OF c ok nth_mem [OF i(2)] i(3) h e] by simp
  note r = remove_entry_correct [OF c inv ee i(1) eq, unfolded hi]
  have "distinct (map e_ptr (lst_entries h))" "distinct (map e_ptr (entries s t))"
    using ok h parts_ok_distinct [OF ok] by (auto simp: parts_ok_def head_ok_def entries_def)
  then have "add_mset e (mset (unlink_entry (e_ptr e) (lst_entries h))) = mset (lst_entries h)"
    "add_mset e (mset (unlink_entry (e_ptr e) (entries s t))) = mset (entries s t)" using unlink_mset e ee by blast+
  then have "set (lst_entries h) = insert e (set (unlink_entry (e_ptr e) (lst_entries h)))"
    "length (entries s t) = Suc (length (unlink_entry (e_ptr e) (entries s t)))"
    by (metis set_mset_add_mset_insert set_mset_mset, metis size_add_mset size_mset)
  moreover have "h\<lparr>lst_entries := unlink_entry (e_ptr e) (lst_entries h), he_len := length (unlink_entry (e_ptr e) (lst_entries h))\<rparr>
      \<in> set (lst_idx_head s' t)" if "\<not> removed"
    using r that i(2) hi by (simp add: unlink_heads_def Let_def set_update_memI)
  ultimately show ?thesis using r unlink_heads_other [of _ "lst_idx_head s t" i] i(2) hi by force
qed

lemma mark_step:
  assumes h: "h \<in> set (lst_idx_head s t)"
  shows "\<exists>h1 \<in> set (lst_idx_head (if mark then nm_dedup_multi_entry_set_dirty t p d s else s) t).
      e_ptr ` set (lst_entries h1) = e_ptr ` set (lst_entries h)"
    and "p \<notin> e_ptr ` set (lst_entries h) \<Longrightarrow> h \<in> set (lst_idx_head (if mark then nm_dedup_multi_entry_set_dirty t p d s else s) t)"
proof -
  let ?f = "\<lambda>e. if e_ptr e = p then e\<lparr>e_dirty := d\<rparr> else e"
  let ?g = "\<lambda>h. h\<lparr>lst_entries := map ?f (lst_entries h)\<rparr>"
  have g: "?g h \<in> set (lst_idx_head (nm_dedup_multi_entry_set_dirty t p d s) t)"
    using h by (simp add: nm_dedup_multi_entry_set_dirty_def)
  have "map e_ptr (lst_entries (?g h)) = map e_ptr (lst_entries h)" by simp
  then have "e_ptr ` set (lst_entries (?g h)) = e_ptr ` set (lst_entries h)" by (metis list.set_map)
  then show "\<exists>h1 \<in> set (lst_idx_head (if mark then nm_dedup_multi_entry_set_dirty t p d s else s) t).
      e_ptr ` set (lst_entries h1) = e_ptr ` set (lst_entries h)" using g h by (cases mark) (simp_all only: if_True if_False, blast+)
  assume "p \<notin> e_ptr ` set (lst_entries h)"
  then have "map ?f (lst_entries h) = lst_entries h" by (intro map_idI) auto
  then show "h \<in> set (lst_idx_head (if mark then nm_dedup_multi_entry_set_dirty t p d s else s) t)" using g h by simp
qed

lemma remove_head_loop_correct:
  assumes c: "dedup_class_ok c"
  shows "\<lbrakk>dedup_inv c ext s; distinct ps; ps = [] \<or> h \<in> set (lst_idx_head s t) \<and> set ps \<subseteq> e_ptr ` set (lst_entries h);
      remove_head_loop t remove_all mark ps n s = (m, s')\<rbrakk> \<Longrightarrow>
    dedup_inv c ext s' \<and> dedup_keeps t s s' \<and> entries s' t = sweep remove_all mark (set ps) (entries s t)
    \<and> m + length (entries s' t) = n + length (entries s t)
    \<and> (\<forall>h'. h' \<in> set (lst_idx_head s t) \<longrightarrow> set ps \<inter> e_ptr ` set (lst_entries h') = {} \<longrightarrow> h' \<in> set (lst_idx_head s' t))"
proof (induction ps arbitrary: n s h)
  case (Cons p ps)
  then have h: "h \<in> set (lst_idx_head s t)" and sub: "set ps \<subseteq> e_ptr ` set (lst_entries h)" and p: "p \<in> e_ptr ` set (lst_entries h)"
    and np: "p \<notin> set ps" "distinct ps" and inv: "dedup_inv c ext s" by auto
  obtain e where e: "e \<in> set (lst_entries h)" "e_ptr e = p" using p by auto
  have ee: "e \<in> set (entries s t)" using h e set_entries by metis
  have at: "entry_at t p s = e" using entry_at_mem [OF c inv ee] e by simp
  have un: "x = e" if "x \<in> set (entries s t)" "e_ptr x = e_ptr e" for x using dedup_inv_unique [OF c inv that(1) ee] that(2) by blast
  note sw = sweep_insert [OF np(1), of remove_all mark "entries s t"] sweep_one [of "entries s t" e remove_all mark, OF un]
  show ?case
  proof (cases "remove_all \<or> e_dirty e")
    case True
    obtain removed s1 where rm: "remove_entry t p s = (removed, s1)" by fastforce
    note r = remove_entry_step [OF c inv h e(1), unfolded e(2), OF rm]
    show ?thesis
    proof (cases removed)
      case rem: True
      then have "ps = []" using r sub e np by (cases ps) auto
      then show ?thesis using Cons.prems(4) True at rm rem r sw e by auto
    next
      case False
      then obtain h' where h': "h' \<in> set (lst_idx_head s1 t)" "lst_entries h' = unlink_entry p (lst_entries h)" using r by auto
      have "set ps \<subseteq> e_ptr ` set (lst_entries h')" using sub np h'(2) by (auto simp: unlink_entry_def)
      moreover have "remove_head_loop t remove_all mark ps (n + 1) s1 = (m, s')" using Cons.prems(4) True at rm False by simp
      ultimately have IH: "dedup_inv c ext s' \<and> dedup_keeps t s1 s' \<and> entries s' t = sweep remove_all mark (set ps) (entries s1 t)
          \<and> m + length (entries s' t) = n + 1 + length (entries s1 t)
          \<and> (\<forall>h'. h' \<in> set (lst_idx_head s1 t) \<longrightarrow> set ps \<inter> e_ptr ` set (lst_entries h') = {} \<longrightarrow> h' \<in> set (lst_idx_head s' t))"
        using Cons.IH [of s1 h' "n + 1"] r np(2) h'(1) by blast
      then show ?thesis using r sw True e dedup_keeps_trans [of t s s1 s'] by auto
    qed
  next
    case False
    define s1 where "s1 = (if mark then nm_dedup_multi_entry_set_dirty t p True s else s)"
    have d: "dedup_inv c ext s1" "dedup_keeps t s s1" "entries s1 t = sweep remove_all mark {p} (entries s t)"
      "length (entries s1 t) = length (entries s t)"
      using set_dirty_correct [OF inv, of _ t p True] inv sw(2) False e by (auto simp: s1_def)
    have "\<exists>h1 \<in> set (lst_idx_head s1 t). set ps \<subseteq> e_ptr ` set (lst_entries h1)"
      using mark_step(1) [OF h] sub unfolding s1_def by metis
    then obtain h1 where h1: "h1 \<in> set (lst_idx_head s1 t)" "set ps \<subseteq> e_ptr ` set (lst_entries h1)" by blast
    have "remove_head_loop t remove_all mark ps n s1 = (m, s')" using Cons.prems(4) False at by (simp add: s1_def)
    then have IH: "dedup_inv c ext s' \<and> dedup_keeps t s1 s' \<and> entries s' t = sweep remove_all mark (set ps) (entries s1 t)
        \<and> m + length (entries s' t) = n + length (entries s1 t)
        \<and> (\<forall>h'. h' \<in> set (lst_idx_head s1 t) \<longrightarrow> set ps \<inter> e_ptr ` set (lst_entries h') = {} \<longrightarrow> h' \<in> set (lst_idx_head s' t))"
      using Cons.IH [of s1 h1 n] d(1) np(2) h1 by blast
    have "h' \<in> set (lst_idx_head s' t)" if "h' \<in> set (lst_idx_head s t)" "set (p # ps) \<inter> e_ptr ` set (lst_entries h') = {}" for h'
    proof -
      have "p \<notin> e_ptr ` set (lst_entries h')" "set ps \<inter> e_ptr ` set (lst_entries h') = {}" using that(2) by auto
      then have "h' \<in> set (lst_idx_head s1 t)" using mark_step(2) [OF that(1)] by (simp add: s1_def)
      then show ?thesis using IH \<open>set ps \<inter> e_ptr ` set (lst_entries h') = {}\<close> by blast
    qed
    moreover have "entries s' t = sweep remove_all mark (set (p # ps)) (entries s t)" using IH d(3) sw(1) by simp
    moreover have "m + length (entries s' t) = n + length (entries s t)" using IH unfolding d(4) by blast
    ultimately show ?thesis using IH dedup_keeps_trans [OF d(2)] by blast
  qed
qed simp

lemma remove_head_correct:
  assumes c: "dedup_class_ok c" and inv: "dedup_inv c ext s" and h: "h \<in> set (lst_idx_head s t)"
    and eq: "remove_head t h remove_all mark s = (n, s')"
  shows "dedup_inv c ext s' \<and> dedup_keeps t s s' \<and> entries s' t = sweep remove_all mark (e_ptr ` set (lst_entries h)) (entries s t)
     \<and> n + length (entries s' t) = length (entries s t)
     \<and> (\<forall>h'. h' \<in> set (lst_idx_head s t) \<longrightarrow> e_ptr ` set (lst_entries h) \<inter> e_ptr ` set (lst_entries h') = {} \<longrightarrow> h' \<in> set (lst_idx_head s' t))"
proof -
  have "distinct (map e_ptr (lst_entries h))" using inv h unfolding dedup_inv_def parts_ok_def head_ok_def by blast
  then show ?thesis
    using remove_head_loop_correct [OF c inv, of "map e_ptr (lst_entries h)" h t remove_all mark 0 n s'] h eq by (auto simp: remove_head_def)
qed

lemma remove_idx_entry_loop_correct:
  assumes c: "dedup_class_ok c"
  shows "\<lbrakk>dedup_inv c ext s; set hs \<subseteq> set (lst_idx_head s t);
      sorted_wrt (\<lambda>h h'. e_ptr ` set (lst_entries h) \<inter> e_ptr ` set (lst_entries h') = {}) hs;
      remove_idx_entry_loop t remove_all mark hs n s = (m, s')\<rbrakk> \<Longrightarrow>
    dedup_inv c ext s' \<and> dedup_keeps t s s'
    \<and> entries s' t = sweep remove_all mark (\<Union>h \<in> set hs. e_ptr ` set (lst_entries h)) (entries s t)
    \<and> m + length (entries s' t) = n + length (entries s t)"
proof (induction hs arbitrary: n s)
  case (Cons h hs)
  let ?p = "\<lambda>h. e_ptr ` set (lst_entries h)"
  obtain k s1 where r: "remove_head t h remove_all mark s = (k, s1)" by fastforce
  have inv: "dedup_inv c ext s" and h: "h \<in> set (lst_idx_head s t)" using Cons.prems by auto
  note R = remove_head_correct [OF c inv h r]
  have dj: "?p h \<inter> ?p h' = {}" if "h' \<in> set hs" for h' using Cons.prems(3) that by simp
  have djs: "?p h \<inter> (\<Union>h \<in> set hs. ?p h) = {}" using dj by blast
  have "set hs \<subseteq> set (lst_idx_head s1 t)"
  proof
    fix h' assume "h' \<in> set hs"
    then have "h' \<in> set (lst_idx_head s t)" "?p h \<inter> ?p h' = {}" using Cons.prems(2) dj by auto
    then show "h' \<in> set (lst_idx_head s1 t)" using R by blast
  qed
  then have IH: "dedup_inv c ext s' \<and> dedup_keeps t s1 s'
      \<and> entries s' t = sweep remove_all mark (\<Union>h \<in> set hs. ?p h) (entries s1 t) \<and> m + length (entries s' t) = n + k + length (entries s1 t)"
    using Cons.IH [of s1 "n + k"] R Cons.prems(3,4) r by auto
  have "entries s' t = sweep remove_all mark (\<Union>h \<in> set (h # hs). ?p h) (entries s t)"
    using IH R sweep_Un [OF djs, of remove_all mark "entries s t"] by simp
  moreover have "m + length (entries s' t) = n + length (entries s t)" using IH R by linarith
  moreover have "dedup_keeps t s s'" using dedup_keeps_trans [of t s s1 s'] IH R by simp
  ultimately show ?case using IH by simp
qed simp

lemma remove_idx_entry_correct:
  assumes c: "dedup_class_ok c" and inv: "dedup_inv c ext s" and eq: "remove_idx_entry t remove_all mark s = (n, s')"
  shows "dedup_inv c ext s' \<and> dedup_keeps t s s' \<and> n + length (entries s' t) = length (entries s t)
     \<and> entries s' t = map (\<lambda>e. if mark then e\<lparr>e_dirty := True\<rparr> else e) (filter (\<lambda>e. \<not> (remove_all \<or> e_dirty e)) (entries s t))"
proof -
  have ok: "parts_ok c t (eval s) (lst_idx_head s t)" using inv by (simp add: dedup_inv_def)
  have dj: "sorted_wrt (\<lambda>h h'. e_ptr ` set (lst_entries h) \<inter> e_ptr ` set (lst_entries h') = {}) (lst_idx_head s t)"
  proof (rule sorted_wrt_mono_rel [of _ "apart c t (eval s)"])
    show "sorted_wrt (apart c t (eval s)) (lst_idx_head s t)" using ok by (simp add: parts_ok_def)
    show "e_ptr ` set (lst_entries h) \<inter> e_ptr ` set (lst_entries h') = {}" if "apart c t (eval s) h h'" for h h'
      using that unfolding apart_def by auto
  qed
  have "e_ptr e \<in> (\<Union>h \<in> set (lst_idx_head s t). e_ptr ` set (lst_entries h))" if "e \<in> set (entries s t)" for e
    using that by (auto simp: set_entries)
  note sw = sweep_all [of "entries s t" _ remove_all mark, OF this]
  show ?thesis
    using remove_idx_entry_loop_correct [OF c inv order.refl dj, of remove_all mark 0 n s'] eq sw by (auto simp: remove_idx_entry_def)
qed

lemma entries_empty: "dedup_inv c ext s \<Longrightarrow> entries s t = [] \<Longrightarrow> lst_idx_head s t = []"
  unfolding dedup_inv_def parts_ok_def head_ok_def entries_def
  by (metis (no_types, lifting) concat_eq_Nil_conv imageI last_in_set list.set_map)

lemma remove_obj_correct:
  assumes c: "dedup_class_ok c" and inv: "dedup_inv c ext s"
    and eq: "nm_dedup_multi_index_remove_obj c t a want s = (n, old, s')"
  shows "dedup_inv c (take_ref old ext) s' \<and> dedup_keeps t s s'
     \<and> set (entries s' t) = {x \<in> set (entries s t). \<not> same_ident c t (dval s a) (eval s x)}
     \<and> n + length (entries s' t) = length (entries s t)"
proof (cases "entry_lookup_obj c t a s")
  case None
  then have "{x \<in> set (entries s t). \<not> same_ident c t (dval s a) (eval s x)} = set (entries s t)"
    using entry_lookup_obj_None [OF c inv] by blast
  then show ?thesis using None eq inv
    by (simp add: nm_dedup_multi_index_remove_obj_def nm_dedup_multi_index_lookup_obj_def take_ref_def)
next
  case (Some e)
  then have e: "e \<in> set (entries s t)" "same_ident c t (dval s a) (eval s e)"
    using entry_lookup_obj_Some [OF c inv, of t a e] by auto
  have u: "same_ident c t (dval s a) (eval s x) \<longleftrightarrow> e_ptr x = e_ptr e" if "x \<in> set (entries s t)" for x
    using dedup_inv_unique [OF c inv e(1) that] e(2) same_ident_trans [OF c same_ident_sym [OF c e(2)]] by metis
  obtain h where h: "h \<in> set (lst_idx_head s t)" "e \<in> set (lst_entries h)" using e set_entries by metis
  define s1 where "s1 = (if want then nm_dedup_multi_obj_ref (e_obj e) s else s)"
  have r: "n = 1" "old = (if want then Some (e_obj e) else None)" "s' = snd (remove_entry t (e_ptr e) s1)"
    using eq Some by (auto simp: nm_dedup_multi_index_remove_obj_def nm_dedup_multi_index_lookup_obj_def s1_def)
  have inv1: "dedup_inv c (take_ref old ext) s1"
    using inv dedup_inv_ref [OF inv, of "e_obj e"] dedup_inv_entry_live [OF inv e(1)] r by (auto simp: s1_def take_ref_def)
  have same: "entries s1 t = entries s t" "lst_idx_head s1 = lst_idx_head s" "dedup_keeps t s s1"
    by (auto simp: s1_def dedup_keeps_def)
  note R = remove_entry_step [OF c inv1, of h t e "fst (remove_entry t (e_ptr e) s1)" s']
  have "set (entries s' t) = {x \<in> set (entries s t). \<not> same_ident c t (dval s a) (eval s x)}"
    using R h r same u by (auto simp: unlink_entry_def)
  then show ?thesis using R h r same dedup_keeps_trans [OF same(3)] by auto
qed

lemma remove_head_op_correct:
  assumes c: "dedup_class_ok c" and inv: "dedup_inv c ext s"
    and eq: "nm_dedup_multi_index_remove_head c t a s = (n, s')"
  shows "dedup_inv c ext s' \<and> dedup_keeps t s s' \<and> n + length (entries s' t) = length (entries s t)
     \<and> entries s' t = filter (\<lambda>x. \<not> same_part c t (dval s a) (eval s x)) (entries s t)"
proof (cases "entry_lookup_head c t a s")
  case None
  then have "filter (\<lambda>x. \<not> same_part c t (dval s a) (eval s x)) (entries s t) = entries s t"
    using entry_lookup_head_None [OF c inv None] by (simp add: filter_id_conv)
  then show ?thesis using None eq inv
    by (simp add: nm_dedup_multi_index_remove_head_def nm_dedup_multi_index_lookup_head_def)
next
  case (Some i)
  let ?h = "lst_idx_head s t ! i"
  have i: "i < length (lst_idx_head s t)" "\<forall>e \<in> set (lst_entries ?h). same_part c t (dval s a) (eval s e)"
    using entry_lookup_head_Some [OF c inv Some] by auto
  have ok: "parts_ok c t (eval s) (lst_idx_head s t)" using inv by (simp add: dedup_inv_def)
  have r: "remove_head t ?h True False s = (n, s')"
    using eq Some by (simp add: nm_dedup_multi_index_remove_head_def nm_dedup_multi_index_lookup_head_def)
  have "e_ptr x \<in> e_ptr ` set (lst_entries ?h) \<longleftrightarrow> same_part c t (dval s a) (eval s x)" if x: "x \<in> set (entries s t)" for x
  proof
    assume "e_ptr x \<in> e_ptr ` set (lst_entries ?h)"
    then obtain y where y: "y \<in> set (lst_entries ?h)" "e_ptr y = e_ptr x" by auto
    then have "y = x" using dedup_inv_unique [OF c inv _ x, of y] i(1) by (metis nth_mem set_entries)
    then show "same_part c t (dval s a) (eval s x)" using i y by blast
  next
    assume p: "same_part c t (dval s a) (eval s x)"
    obtain j where j: "j < length (lst_idx_head s t)" "x \<in> set (lst_entries (lst_idx_head s t ! j))"
      using x by (metis in_set_conv_nth set_entries)
    obtain y where y: "y \<in> set (lst_entries ?h)" using parts_ok_nth [OF ok i(1)] unfolding head_ok_def by (metis list.set_sel(1))
    have "same_part c t (eval s y) (eval s x)" using same_part_trans [OF c same_part_sym [OF c] p] i(2) y by blast
    then have "j = i" using parts_ok_apart [OF c ok i(1) j(1)] y j(2) unfolding apart_def by blast
    then show "e_ptr x \<in> e_ptr ` set (lst_entries ?h)" using j by simp
  qed
  then have "sweep True False (e_ptr ` set (lst_entries ?h)) (entries s t) = filter (\<lambda>x. \<not> same_part c t (dval s a) (eval s x)) (entries s t)"
    by (auto simp: sweep_def cong: filter_cong)
  then show ?thesis using remove_head_correct [OF c inv nth_mem [OF i(1)] r] by auto
qed

section \<open>Reordering and destroying\<close>

lemma entry_reorder_correct:
  assumes c: "dedup_class_ok c" and inv: "dedup_inv c ext s" and e: "e \<in> set (entries s t)"
    and eq: "entry_reorder t (e_ptr e) entry_order order_after s = (changed, s')"
  shows "dedup_inv c ext s' \<and> dedup_keeps t s s' \<and> set (entries s' t) = set (entries s t)"
proof -
  obtain i where i: "entry_head t (e_ptr e) s = Some i" "i < length (lst_idx_head s t)" "e \<in> set (lst_entries (lst_idx_head s t ! i))"
    using entry_head_mem [OF c inv e] .
  let ?h = "lst_idx_head s t ! i" and ?xs = "snd (nm_dedup_multi_entry_reorder entry_order order_after e (lst_entries (lst_idx_head s t ! i)))"
  have dist: "distinct (map e_ptr (lst_entries ?h))"
    using inv i(2) parts_ok_nth [of c t "eval s"] unfolding dedup_inv_def head_ok_def by blast
  have s': "s' = set_head t i (?h\<lparr>lst_entries := ?xs\<rparr>) s"
    using eq i(1) entry_at_mem [OF c inv e] by (auto simp: entry_reorder_def Let_def split: prod.splits)
  have "put_entry e (lst_entries ?h) = lst_entries ?h"
    unfolding put_entry_def using dist i(3) by (intro map_idI) (auto simp: distinct_map dest: inj_onD)
  then have "mset ?xs = mset (put_entry e (lst_entries ?h))" using reorder_mset [OF i(3) dist] by simp
  moreover have "same_ident c t (eval s e) (eval s e)"
    using dedup_inv_partitionable [OF inv e] obj_id_refl [OF c] by (simp add: same_ident_def)
  moreover have "e_obj e \<in> set (idx_objs s)" using inv e by (simp add: dedup_inv_def)
  ultimately have "dedup_inv c ext s' \<and> set (entries s' t) = insert e (set (entries s t) - {e})"
    using dedup_inv_put [OF c inv i(2,3), of e ext ?xs] unfolding s' by blast
  then show ?thesis using e by (auto simp: s' dedup_keeps_def)
qed

lemma head_entry_sort_correct:
  assumes c: "dedup_class_ok c" and inv: "dedup_inv c ext s" and i: "i < length (lst_idx_head s t)"
    and bounds: "length garbage = stack_size" "length (lst_entries (lst_idx_head s t ! i)) \<le> 2 ^ 69"
    and eq: "nm_dedup_multi_head_entry_sort garbage cmp t (Some i) s = Some s'"
  shows "dedup_inv c ext s' \<and> dedup_keeps t s s' \<and> set (entries s' t) = set (entries s t)"
proof -
  let ?h = "lst_idx_head s t ! i"
  have s': "s' = set_head t i (?h\<lparr>lst_entries := msort cmp (lst_entries ?h)\<rparr>) s"
    using eq c_list_sort_eq [OF bounds] by (simp add: nm_dedup_multi_head_entry_sort_def Let_def)
  have h: "lst_entries ?h \<noteq> []" "distinct (map e_ptr (lst_entries ?h))"
    using inv i parts_ok_nth [of c t "eval s"] unfolding dedup_inv_def head_ok_def by blast+
  then obtain e where e: "e \<in> set (lst_entries ?h)" by (metis list.set_sel(1))
  then have mem: "e \<in> set (entries s t)" using i by (auto simp: set_entries)
  have "put_entry e (lst_entries ?h) = lst_entries ?h"
    unfolding put_entry_def using h(2) e by (intro map_idI) (auto simp: distinct_map dest: inj_onD)
  then have "mset (msort cmp (lst_entries ?h)) = mset (put_entry e (lst_entries ?h))" by (simp add: mset_msort)
  moreover have "same_ident c t (eval s e) (eval s e)"
    using dedup_inv_partitionable [OF inv mem] obj_id_refl [OF c] by (simp add: same_ident_def)
  moreover have "e_obj e \<in> set (idx_objs s)" using inv mem by (simp add: dedup_inv_def)
  ultimately have "dedup_inv c ext s' \<and> set (entries s' t) = insert e (set (entries s t) - {e})"
    using dedup_inv_put [OF c inv i e, of e ext "msort cmp (lst_entries ?h)"] unfolding s' by blast
  then show ?thesis using mem by (auto simp: s' dedup_keeps_def)
qed

lemma dedup_inv_ref_count [simp]: "dedup_inv c ext (s\<lparr>dm_ref_count := n\<rparr>) = dedup_inv c ext s"
  by (simp add: dedup_inv_def dobjs_ok_def entry_refs_def entries_def)

lemma unref_more_correct:
  assumes c: "dedup_class_ok c"
  shows "dedup_inv c ext s \<Longrightarrow> dedup_inv c ext (unref_more ts s) \<and> dm_types (unref_more ts s) = dm_types s
     \<and> dm_self (unref_more ts s) = dm_self s \<and> (\<forall>t. t \<in> set ts \<or> lst_idx_head s t = [] \<longrightarrow> lst_idx_head (unref_more ts s) t = [])"
proof (induction ts arbitrary: s)
  case (Cons t ts)
  define s1 where "s1 = (if lst_idx_head s t = [] then s else snd (remove_idx_entry t True False s))"
  obtain n s2 where r: "remove_idx_entry t True False s = (n, s2)" by fastforce
  note R = remove_idx_entry_correct [OF c Cons.prems r]
  have s2: "lst_idx_head s2 t = []" by (rule entries_empty [of c ext]) (use R in simp_all)
  have one: "dedup_inv c ext s1" "dm_types s1 = dm_types s \<and> dm_self s1 = dm_self s" "lst_idx_head s1 t = []"
    using Cons.prems R r s2 by (simp_all add: s1_def dedup_keeps_def)
  have "lst_idx_head s1 t' = []" if "lst_idx_head s t' = []" for t'
    using that R r s2 by (cases "t' = t") (simp_all add: s1_def dedup_keeps_def)
  have "unref_more (t # ts) s = unref_more ts s1" by (simp add: s1_def)
  then show ?case using Cons.IH [OF one(1)] one \<open>\<And>t'. lst_idx_head s t' = [] \<Longrightarrow> lst_idx_head s1 t' = []\<close> by auto
qed simp

end
