(* ===== verification/NM_Dedup_Index.thy ===== *)
theory NM_Dedup_Index
  imports NM_Dedup_Run
begin

text \<open>
  The index of deduplicated objects as its users see it: a store of values by identity whose entries carry a mark,
  the synchronisation that its users make with the marks, and the invariant over all sequences of operations.
\<close>

section \<open>A store with marks\<close>

text \<open>
  A request stores a value. The users mark everything, store what they have now, and sweep what is still marked. The
  value of a request that is held does not change while others are stored.
\<close>

locale marked_store =
  fixes inv :: "'s \<Rightarrow> bool"
    and content :: "'s \<Rightarrow> 'v \<Rightarrow> ('v \<times> bool) option"
    and same :: "'v \<Rightarrow> 'v \<Rightarrow> bool"
    and eq :: "'v \<Rightarrow> 'v \<Rightarrow> bool"
    and ready :: "'r \<Rightarrow> 's \<Rightarrow> bool"
    and held :: "'r \<Rightarrow> 's \<Rightarrow> bool"
    and value_of :: "'r \<Rightarrow> 's \<Rightarrow> 'v"
    and put :: "'r \<Rightarrow> 's \<Rightarrow> 's"
    and mark :: "'s \<Rightarrow> 's"
    and sweep_marked :: "'s \<Rightarrow> 's"
  assumes inv_put: "inv s \<Longrightarrow> ready r s \<Longrightarrow> inv (put r s)"
    and content_put: "inv s \<Longrightarrow> ready r s \<Longrightarrow>
      (if same v (value_of r s) then \<exists>w. eq (value_of r s) w \<and> content (put r s) v = Some (w, False)
       else content (put r s) v = content s v)"
    and held_put: "inv s \<Longrightarrow> ready r s \<Longrightarrow> held r' s \<Longrightarrow> held r' (put r s) \<and> value_of r' (put r s) = value_of r' s"
    and inv_mark: "inv s \<Longrightarrow> inv (mark s)"
    and content_mark: "inv s \<Longrightarrow> content (mark s) v = map_option (\<lambda>(w, _). (w, True)) (content s v)"
    and held_mark: "held r (mark s) = held r s"
    and value_mark: "value_of r (mark s) = value_of r s"
    and content_sweep: "inv s \<Longrightarrow>
      content (sweep_marked s) v = (case content s v of Some (w, False) \<Rightarrow> Some (w, False) | _ \<Rightarrow> None)"
    and inv_sweep: "inv s \<Longrightarrow> inv (sweep_marked s)"
begin

lemma puts_content:
  "\<lbrakk>inv s; \<forall>i < length rs. ready (rs ! i) (fold put (take i rs) s); \<forall>r \<in> set rs. held r s\<rbrakk> \<Longrightarrow>
    inv (fold put rs s)
    \<and> (case List.find (\<lambda>r. same v (value_of r s)) (rev rs) of
         Some r \<Rightarrow> \<exists>w. eq (value_of r s) w \<and> content (fold put rs s) v = Some (w, False)
       | None \<Rightarrow> content (fold put rs s) v = content s v)"
proof (induction rs arbitrary: s)
  case (Cons r rs)
  have r: "ready r s" using Cons.prems(2) [THEN spec, of 0] by simp
  have "ready (rs ! i) (fold put (take i rs) (put r s))" if "i < length rs" for i
    using Cons.prems(2) [THEN spec, of "Suc i"] that by simp
  then have p: "inv (put r s)" "\<forall>i < length rs. ready (rs ! i) (fold put (take i rs) (put r s))" "\<forall>r' \<in> set rs. held r' (put r s)"
    and val: "\<forall>r' \<in> set rs. value_of r' (put r s) = value_of r' s"
    using Cons.prems inv_put held_put r by auto
  have find: "List.find (\<lambda>r'. same v (value_of r' (put r s))) (rev rs) = List.find (\<lambda>r'. same v (value_of r' s)) (rev rs)"
    by (rule find_cong) (use val in auto)
  have app: "List.find P (xs @ [x]) = (case List.find P xs of Some y \<Rightarrow> Some y | None \<Rightarrow> if P x then Some x else None)" for P xs x
    by (induction xs) auto
  have mem: "r' \<in> set rs" if "List.find (\<lambda>r'. same v (value_of r' s)) (rev rs) = Some r'" for r'
    using that unfolding find_Some_iff by (metis length_rev nth_mem set_rev)
  show ?case using Cons.IH [OF p] Cons.prems(1) r find val mem content_put [of s r v] by (auto simp: app split: option.splits if_splits)
qed simp

text \<open>After marking, storing and sweeping, the store has the values that were stored, the last one of each identity.\<close>

lemma mark_and_sweep:
  assumes "inv s" and "\<forall>i < length rs. ready (rs ! i) (fold put (take i rs) (mark s))" and "\<forall>r \<in> set rs. held r s"
  shows "inv (sweep_marked (fold put rs (mark s)))
    \<and> (case List.find (\<lambda>r. same v (value_of r s)) (rev rs) of
         Some r \<Rightarrow> \<exists>w. eq (value_of r s) w \<and> content (sweep_marked (fold put rs (mark s))) v = Some (w, False)
       | None \<Rightarrow> content (sweep_marked (fold put rs (mark s))) v = None)"
proof -
  have p: "inv (fold put rs (mark s))"
    "case List.find (\<lambda>r. same v (value_of r s)) (rev rs) of
       Some r \<Rightarrow> \<exists>w. eq (value_of r s) w \<and> content (fold put rs (mark s)) v = Some (w, False)
     | None \<Rightarrow> content (fold put rs (mark s)) v = map_option (\<lambda>(w, _). (w, True)) (content s v)"
    using puts_content [OF inv_mark [OF assms(1)] assms(2), of v] assms content_mark [OF assms(1), of v]
    by (auto simp: held_mark value_mark split: option.splits)
  then show ?thesis using content_sweep [OF p(1), of v] inv_sweep [OF p(1)] by (auto split: option.splits)
qed

end

section \<open>The index as a store with marks\<close>

definition content :: "('t, 'v) dedup_class \<Rightarrow> 't \<Rightarrow> ('t, 'v) NMDedupMultiIndex \<Rightarrow> 'v \<Rightarrow> ('v \<times> bool) option" where
  "content c t s v = map_option (\<lambda>e. (eval s e, e_dirty e)) (List.find (\<lambda>e. same_ident c t v (eval s e)) (entries s t))"

lemma content_Some:
  assumes c: "dedup_class_ok c" and inv: "dedup_inv c ext s"
  shows "content c t s v = Some (w, d) \<longleftrightarrow> (\<exists>e \<in> set (entries s t). same_ident c t v (eval s e) \<and> w = eval s e \<and> d = e_dirty e)"
proof -
  have u: "e = e'" if "e \<in> set (entries s t)" "e' \<in> set (entries s t)" "same_ident c t v (eval s e)" "same_ident c t v (eval s e')" for e e'
    using dedup_inv_unique [OF c inv that(1,2)] same_ident_trans [OF c same_ident_sym [OF c that(3)] that(4)] by blast
  show ?thesis
  proof (cases "List.find (\<lambda>e. same_ident c t v (eval s e)) (entries s t)")
    case None
    then have "\<not> same_ident c t v (eval s e)" if "e \<in> set (entries s t)" for e using that unfolding find_None_iff by blast
    then show ?thesis using None by (auto simp: content_def)
  next
    case (Some e)
    then have "e \<in> set (entries s t)" "same_ident c t v (eval s e)" unfolding find_Some_iff by auto
    then show ?thesis using Some u by (auto simp: content_def)
  qed
qed

lemma content_eqI:
  assumes "\<And>w d. x = Some (w, d) \<longleftrightarrow> y = Some (w, d)"
  shows "x = (y :: ('v \<times> bool) option)"
  using assms by (cases x; cases y) auto

lemma content_lookup:
  assumes c: "dedup_class_ok c" and inv: "dedup_inv c ext s"
  shows "map_option (\<lambda>e. (eval s e, e_dirty e)) (nm_dedup_multi_index_lookup_obj c t a s) = content c t s (dval s a)"
proof (rule content_eqI)
  show "map_option (\<lambda>e. (eval s e, e_dirty e)) (nm_dedup_multi_index_lookup_obj c t a s) = Some (w, d)
      \<longleftrightarrow> content c t s (dval s a) = Some (w, d)" for w d
    unfolding content_Some [OF c inv] nm_dedup_multi_index_lookup_obj_def
    using entry_lookup_obj_Some [OF c inv, of t a] by auto
qed

text \<open>
  A request has the addresses of a new object and a new entry, and that of the object to add, to which the caller
  holds a reference.
\<close>

definition index_ok :: "('t, 'v) dedup_class \<Rightarrow> (nat \<Rightarrow> nat) \<Rightarrow> 't \<Rightarrow> ('t, 'v) NMDedupMultiIndex \<Rightarrow> bool" where
  "index_ok c ext t s \<longleftrightarrow> dedup_class_ok c \<and> dedup_inv c ext s \<and> t \<in> set (dm_types s)"

fun request_ready :: "('t, 'v) dedup_class \<Rightarrow> (nat \<Rightarrow> nat) \<Rightarrow> 't \<Rightarrow> nat \<times> nat \<times> nat \<Rightarrow> ('t, 'v) NMDedupMultiIndex \<Rightarrow> bool" where
  "request_ready c ext t (fo, fe, a) s \<longleftrightarrow>
     ext a > 0 \<and> o_ref_count (dm_mem s a) > 0 \<and> o_ref_count (dm_mem s fo) = 0 \<and> fe \<notin> e_ptr ` set (entries s t)
     \<and> idx_obj_partitionable c t (dval s a)"

fun request_held :: "(nat \<Rightarrow> nat) \<Rightarrow> nat \<times> nat \<times> nat \<Rightarrow> ('t, 'v) NMDedupMultiIndex \<Rightarrow> bool" where
  "request_held ext (fo, fe, a) s \<longleftrightarrow> ext a > 0 \<and> o_ref_count (dm_mem s a) > 0"

fun request_value :: "nat \<times> nat \<times> nat \<Rightarrow> ('t, 'v) NMDedupMultiIndex \<Rightarrow> 'v" where
  "request_value (fo, fe, a) s = dval s a"

fun request_add :: "('t, 'v) dedup_class \<Rightarrow> 't \<Rightarrow> NMDedupMultiIdxMode \<Rightarrow> nat \<times> nat \<times> nat \<Rightarrow> ('t, 'v) NMDedupMultiIndex
    \<Rightarrow> ('t, 'v) NMDedupMultiIndex" where
  "request_add c t mode (fo, fe, a) s = snd (snd (snd (nm_dedup_multi_index_add c fo fe t a mode False s)))"

lemma held_alive: "dedup_inv c ext s \<Longrightarrow> ext a > 0 \<Longrightarrow> o_ref_count (dm_mem s a) > 0"
  unfolding dedup_inv_def dobjs_ok_def by (metis add_gr_0 neq0_conv zero_neq_numeral)

lemma add_old_None:
  assumes "nm_dedup_multi_index_add_full c fo fe t a mode entry_order False s = (changed, en, old, s')"
  shows "old = None"
  using assms by (auto simp: nm_dedup_multi_index_add_full_def add_existing_def add_new_def Let_def split: option.splits prod.splits if_splits)

lemma request_add_correct:
  assumes ok: "index_ok c ext t s" and r: "request_ready c ext t (fo, fe, a) s"
  shows "index_ok c ext t (request_add c t mode (fo, fe, a) s) \<and> dedup_frame t s (request_add c t mode (fo, fe, a) s)
     \<and> (if same_ident c t v (dval s a)
        then \<exists>w. obj_full_equal c (dval s a) w \<and> content c t (request_add c t mode (fo, fe, a) s) v = Some (w, False)
        else content c t (request_add c t mode (fo, fe, a) s) v = content c t s v)"
proof -
  have c: "dedup_class_ok c" and inv: "dedup_inv c ext s" and t: "t \<in> set (dm_types s)" using ok by (simp_all add: index_ok_def)
  obtain changed en old s' where eq: "nm_dedup_multi_index_add_full c fo fe t a mode None False s = (changed, en, old, s')"
    by (metis prod_cases4)
  have s': "request_add c t mode (fo, fe, a) s = s'" by (simp add: nm_dedup_multi_index_add_def eq)
  have fe: "e_ptr x \<noteq> fe" if "x \<in> set (entries s t)" for x using r that by auto
  have R: "dedup_inv c ext s'" "dedup_frame t s s'" and ex: "\<exists>e'. \<not> e_dirty e' \<and> obj_full_equal c (dval s a) (eval s' e')
      \<and> set (entries s' t) = insert e' {x \<in> set (entries s t). \<not> same_ident c t (dval s a) (eval s x)}"
    using add_full_correct [OF c inv t fe _ _ _ eq] r add_old_None [OF eq] by (auto simp: take_ref_def)
  then obtain e' where e': "\<not> e_dirty e'" "obj_full_equal c (dval s a) (eval s' e')"
    "set (entries s' t) = insert e' {x \<in> set (entries s t). \<not> same_ident c t (dval s a) (eval s x)}" by blast
  have val: "eval s' x = eval s x" if "x \<in> set (entries s t)" for x
    using R(2) dedup_inv_live [OF inv that] by (simp add: dedup_frame_def)
  have pa: "same_part c t (dval s a) (dval s a)" using r partitionable_iff [OF c] by simp
  have ae: "same_ident c t (dval s a) (eval s' e')" using same_ident_full [OF c e'(2) pa] .
  have other: "content c t s' v = content c t s v" if no: "\<not> same_ident c t v (dval s a)"
  proof (rule content_eqI)
    fix w d
    have n1: "\<not> same_ident c t v (eval s' e')" using no same_ident_trans [OF c _ same_ident_sym [OF c ae]] by blast
    have n2: "\<not> same_ident c t (dval s a) (eval s x)" if "same_ident c t v (eval s x)" for x
      using same_ident_trans [OF c that same_ident_sym [OF c, of t "dval s a" "eval s x"]] no by blast
    show "content c t s' v = Some (w, d) \<longleftrightarrow> content c t s v = Some (w, d)"
      unfolding content_Some [OF c R(1)] content_Some [OF c inv] e'(3) using n1 n2 val by auto
  qed
  have "content c t s' v = Some (eval s' e', False)" if "same_ident c t v (dval s a)"
    unfolding content_Some [OF c R(1)] e'(3) using e'(1) same_ident_trans [OF c that ae] by blast
  then have "if same_ident c t v (dval s a) then \<exists>w. obj_full_equal c (dval s a) w \<and> content c t s' v = Some (w, False)
      else content c t s' v = content c t s v" using other e'(2) by auto
  then show ?thesis using R s' c t by (simp add: index_ok_def dedup_frame_def)
qed

lemma content_mono:
  assumes c: "dedup_class_ok c" and inv: "dedup_inv c ext s" and inv': "dedup_inv c ext' s'" and keep: "dedup_keeps t s s'"
    and f: "\<And>e. e \<in> set (entries s t) \<Longrightarrow> e_obj (f e) = e_obj e" and ent: "set (entries s' t) = f ` {e \<in> set (entries s t). P e}"
    and P: "\<And>e. P e = Q (e_dirty e)" and g: "\<And>e. e_dirty (f e) = g (e_dirty e)"
  shows "content c t s' v = (case content c t s v of Some (w, d) \<Rightarrow> if Q d then Some (w, g d) else None | None \<Rightarrow> None)"
proof (rule content_eqI)
  fix w d
  have val: "eval s' (f e) = eval s e" if "e \<in> set (entries s t)" for e using keep f [OF that] by (simp add: dedup_keeps_def)
  have "content c t s' v = Some (w, d) \<longleftrightarrow> (\<exists>e \<in> set (entries s t). P e \<and> same_ident c t v (eval s e) \<and> w = eval s e \<and> d = e_dirty (f e))"
    unfolding content_Some [OF c inv'] ent using val by auto
  also have "\<dots> \<longleftrightarrow> (\<exists>d'. content c t s v = Some (w, d') \<and> Q d' \<and> d = g d')"
    unfolding content_Some [OF c inv] P g by blast
  also have "\<dots> \<longleftrightarrow> (case content c t s v of Some (w, d) \<Rightarrow> if Q d then Some (w, g d) else None | None \<Rightarrow> None) = Some (w, d)"
    by (auto split: option.splits)
  finally show "content c t s' v = Some (w, d) \<longleftrightarrow> (case content c t s v of Some (w, d) \<Rightarrow> if Q d then Some (w, g d) else None | None \<Rightarrow> None) = Some (w, d)" .
qed

interpretation dedup: marked_store "index_ok c ext t" "content c t" "same_ident c t" "obj_full_equal c" "request_ready c ext t" "request_held ext"
  request_value "request_add c t mode" "nm_dedup_multi_index_dirty_set_idx t"
  "\<lambda>s. snd (nm_dedup_multi_index_dirty_remove_idx t False s)"
  for c :: "('t, 'v) dedup_class" and ext t mode
proof
  fix s :: "('t, 'v) NMDedupMultiIndex" and r r' :: "nat \<times> nat \<times> nat" and v
  obtain fo fe a where rq: "r = (fo, fe, a)" by (cases r) auto
  obtain fo' fe' a' where rq': "r' = (fo', fe', a')" by (cases r') auto
  show "request_held ext r (nm_dedup_multi_index_dirty_set_idx t s) = request_held ext r s"
    "request_value r (nm_dedup_multi_index_dirty_set_idx t s) = request_value r s"
    unfolding rq by (simp_all add: nm_dedup_multi_index_dirty_set_idx_def)
  assume ok: "index_ok c ext t s"
  then have c: "dedup_class_ok c" and inv: "dedup_inv c ext s" and t: "t \<in> set (dm_types s)" by (simp_all add: index_ok_def)
  note m = dirty_set_idx_correct [OF inv refl, of t]
  show "index_ok c ext t (nm_dedup_multi_index_dirty_set_idx t s)" using m c t by (simp add: index_ok_def dedup_keeps_def)
  show "content c t (nm_dedup_multi_index_dirty_set_idx t s) v = map_option (\<lambda>(w, _). (w, True)) (content c t s v)"
    using content_mono [OF c inv conjunct1 [OF m] conjunct1 [OF conjunct2 [OF m]], of "\<lambda>e. e\<lparr>e_dirty := True\<rparr>" "\<lambda>_. True" "\<lambda>_. True" "\<lambda>_. True" v]
      m by (auto split: option.splits)
  obtain n s' where sw: "nm_dedup_multi_index_dirty_remove_idx t False s = (n, s')" by fastforce
  note R = remove_idx_entry_correct [OF c inv, of t False False n s']
  have R: "dedup_inv c ext s'" "dedup_keeps t s s'" "set (entries s' t) = id ` {e \<in> set (entries s t). \<not> e_dirty e}"
    using R sw by (auto simp: nm_dedup_multi_index_dirty_remove_idx_def)
  show "index_ok c ext t (snd (nm_dedup_multi_index_dirty_remove_idx t False s))"
    using R c t sw by (simp add: index_ok_def dedup_keeps_def)
  show "content c t (snd (nm_dedup_multi_index_dirty_remove_idx t False s)) v
      = (case content c t s v of Some (w, False) \<Rightarrow> Some (w, False) | _ \<Rightarrow> None)"
    using content_mono [OF c inv R(1,2) _ R(3), of Not "\<lambda>d. d" v] sw by (auto split: option.splits bool.splits)
  assume ready: "request_ready c ext t r s"
  note A = request_add_correct [OF ok ready [unfolded rq], of mode, folded rq]
  show "index_ok c ext t (request_add c t mode r s)" using A by blast
  show "if same_ident c t v (request_value r s)
      then \<exists>w. obj_full_equal c (request_value r s) w \<and> content c t (request_add c t mode r s) v = Some (w, False)
      else content c t (request_add c t mode r s) v = content c t s v"
    unfolding rq request_value.simps using request_add_correct [OF ok ready [unfolded rq], of mode v] by blast
  assume held: "request_held ext r' s"
  have "o_ref_count (dm_mem (request_add c t mode r s) a') > 0"
    using A held held_alive [of c ext "request_add c t mode r s" a'] rq' by (simp add: index_ok_def)
  then show "request_held ext r' (request_add c t mode r s) \<and> request_value r' (request_add c t mode r s) = request_value r' s"
    using A held rq' by (simp add: dedup_frame_def)
qed

section \<open>All runs\<close>

text \<open>
  What users do with an index, from a new one. \<^verbatim>\<open>ext a\<close> is the number of references that users hold to the object at
  \<^verbatim>\<open>a\<close>; who drops a reference has one. An object at an address without references is dead; objects on the stack are
  passed to the index and go away again.
\<close>

inductive dedup_run :: "('t, 'v) dedup_class \<Rightarrow> ('t, 'v) NMDedupMultiIndex \<Rightarrow> (nat \<Rightarrow> nat) \<Rightarrow> bool" for c where
  new: "\<lbrakk>\<forall>a. o_multi_idx (mem a) \<noteq> Some self; \<forall>a. o_ref_count (mem a) = 0\<rbrakk> \<Longrightarrow>
    dedup_run c (nm_dedup_multi_index_new self mem) (\<lambda>_. 0)"
| idx_type: "\<lbrakk>dedup_run c s ext; t \<notin> set (dm_types s)\<rbrakk> \<Longrightarrow> dedup_run c (nm_dedup_multi_idx_type_init t s) ext"
| object: "\<lbrakk>dedup_run c s ext; o_ref_count (dm_mem s a) = 0\<rbrakk> \<Longrightarrow>
    dedup_run c (s\<lparr>dm_mem := (dm_mem s)(a := \<lparr>o_val = v, o_multi_idx = None, o_ref_count = 1\<rparr>)\<rparr>) (ext(a := 1))"
| stack_object: "\<lbrakk>dedup_run c s ext; o_ref_count (dm_mem s a) = 0\<rbrakk> \<Longrightarrow>
    dedup_run c (s\<lparr>dm_mem := (dm_mem s)(a := \<lparr>o_val = v, o_multi_idx = None, o_ref_count = NM_OBJ_REF_COUNT_STACKINIT\<rparr>)\<rparr>) ext"
| stack_done: "\<lbrakk>dedup_run c s ext; o_multi_idx (dm_mem s a) = None; o_ref_count (dm_mem s a) = NM_OBJ_REF_COUNT_STACKINIT; ext a = 0\<rbrakk> \<Longrightarrow>
    dedup_run c (s\<lparr>dm_mem := (dm_mem s)(a := (dm_mem s a)\<lparr>o_ref_count := 0\<rparr>)\<rparr>) ext"
| ref: "\<lbrakk>dedup_run c s ext; ext a > 0\<rbrakk> \<Longrightarrow> dedup_run c (nm_dedup_multi_obj_ref a s) (ext(a := ext a + 1))"
| ref_entry: "\<lbrakk>dedup_run c s ext; e \<in> set (entries s t)\<rbrakk> \<Longrightarrow>
    dedup_run c (nm_dedup_multi_obj_ref (e_obj e) s) (ext(e_obj e := ext (e_obj e) + 1))"
| unref: "\<lbrakk>dedup_run c s ext; ext a > 0\<rbrakk> \<Longrightarrow> dedup_run c (nm_dedup_multi_obj_unref a s) (ext(a := ext a - 1))"
| intern: "\<lbrakk>dedup_run c s ext; o_ref_count (dm_mem s a) > 0; o_ref_count (dm_mem s fo) = 0;
    nm_dedup_multi_index_obj_intern c fo a s = (n, s')\<rbrakk> \<Longrightarrow> dedup_run c s' (ext(n := ext n + 1))"
| add: "\<lbrakk>dedup_run c s ext; t \<in> set (dm_types s); \<forall>x \<in> set (entries s t). e_ptr x \<noteq> fe; o_ref_count (dm_mem s a) > 0;
    o_ref_count (dm_mem s fo) = 0;
    nm_dedup_multi_index_add_full c fo fe t a mode entry_order want s = (changed, en, old, s')\<rbrakk> \<Longrightarrow> dedup_run c s' (take_ref old ext)"
| remove_entry: "\<lbrakk>dedup_run c s ext; e \<in> set (entries s t); nm_dedup_multi_index_remove_entry t (Entry (e_ptr e)) s = (n, s')\<rbrakk> \<Longrightarrow>
    dedup_run c s' ext"
| remove_head_entry: "\<lbrakk>dedup_run c s ext; h \<in> set (lst_idx_head s t); nm_dedup_multi_index_remove_entry t (HeadEntry h) s = (n, s')\<rbrakk> \<Longrightarrow>
    dedup_run c s' ext"
| remove_obj: "\<lbrakk>dedup_run c s ext; nm_dedup_multi_index_remove_obj c t a want s = (n, old, s')\<rbrakk> \<Longrightarrow> dedup_run c s' (take_ref old ext)"
| remove_head: "\<lbrakk>dedup_run c s ext; nm_dedup_multi_index_remove_head c t a s = (n, s')\<rbrakk> \<Longrightarrow> dedup_run c s' ext"
| remove_idx: "\<lbrakk>dedup_run c s ext; nm_dedup_multi_index_remove_idx t s = (n, s')\<rbrakk> \<Longrightarrow> dedup_run c s' ext"
| set_dirty: "dedup_run c s ext \<Longrightarrow> dedup_run c (nm_dedup_multi_entry_set_dirty t p d s) ext"
| dirty_set_head: "dedup_run c s ext \<Longrightarrow> dedup_run c (nm_dedup_multi_index_dirty_set_head c t a s) ext"
| dirty_set_idx: "dedup_run c s ext \<Longrightarrow> dedup_run c (nm_dedup_multi_index_dirty_set_idx t s) ext"
| dirty_remove_idx: "\<lbrakk>dedup_run c s ext; nm_dedup_multi_index_dirty_remove_idx t mark s = (n, s')\<rbrakk> \<Longrightarrow> dedup_run c s' ext"
| reorder: "\<lbrakk>dedup_run c s ext; e \<in> set (entries s t); entry_reorder t (e_ptr e) entry_order order_after s = (changed, s')\<rbrakk> \<Longrightarrow>
    dedup_run c s' ext"
| sort: "\<lbrakk>dedup_run c s ext; i < length (lst_idx_head s t); length garbage = stack_size;
    length (lst_entries (lst_idx_head s t ! i)) \<le> 2 ^ 69;
    nm_dedup_multi_head_entry_sort garbage cmp t (Some i) s = Some s'\<rbrakk> \<Longrightarrow> dedup_run c s' ext"
| index_ref: "dedup_run c s ext \<Longrightarrow> dedup_run c (nm_dedup_multi_index_ref s) ext"

lemma dedup_inv_new:
  assumes "\<forall>a. o_multi_idx (mem a) \<noteq> Some self" and "\<forall>a. o_ref_count (mem a) = 0"
  shows "dedup_inv c (\<lambda>_. 0) (nm_dedup_multi_index_new self mem)"
  using assms by (simp add: dedup_inv_def nm_dedup_multi_index_new_def dobjs_ok_def entry_refs_def entries_def parts_ok_def)

lemma dedup_inv_idx_type:
  assumes inv: "dedup_inv c ext s" and t: "t \<notin> set (dm_types s)"
  shows "dedup_inv c ext (nm_dedup_multi_idx_type_init t s)"
proof -
  let ?s = "nm_dedup_multi_idx_type_init t s"
  have hd: "lst_idx_head ?s = lst_idx_head s" using inv t by (simp add: nm_dedup_multi_idx_type_init_def dedup_inv_def fun_upd_idem)
  have same: "dm_mem ?s = dm_mem s" "idx_objs ?s = idx_objs s" "dm_self ?s = dm_self s" "dm_types ?s = t # dm_types s"
    using t by (simp_all add: nm_dedup_multi_idx_type_init_def)
  have ent: "entries ?s = entries s" by (simp add: entries_def hd fun_eq_iff)
  have "entries s t = []" using inv t by (simp add: dedup_inv_def entries_def)
  then have "entry_refs ?s = entry_refs s" using t by (simp add: entry_refs_def fun_eq_iff ent same)
  moreover have "dobjs_ok c R ?s = dobjs_ok c R s" for R unfolding dobjs_ok_def same ..
  ultimately show ?thesis using inv unfolding dedup_inv_def hd ent same by auto
qed

text \<open>Memory that the index does not refer to may change.\<close>

lemma dedup_inv_mem:
  assumes inv: "dedup_inv c ext s" and a: "a \<notin> set (idx_objs s)" and ob: "o_multi_idx ob \<noteq> Some (dm_self s)"
    and cnt: "o_ref_count ob = ext' a \<or> o_ref_count ob = NM_OBJ_REF_COUNT_STACKINIT \<and> ext' a = 0"
    and other: "\<And>b. b \<noteq> a \<Longrightarrow> ext' b = ext b"
  shows "dedup_inv c ext' (s\<lparr>dm_mem := (dm_mem s)(a := ob)\<rparr>)"
proof -
  let ?s = "s\<lparr>dm_mem := (dm_mem s)(a := ob)\<rparr>"
  have ent: "entries ?s = entries s" "entry_refs ?s = entry_refs s" by (simp_all add: entries_def entry_refs_def fun_eq_iff)
  have val: "dval ?s b = dval s b" if "b \<in> set (idx_objs s)" for b using that a by auto
  have "entry_refs s a = 0"
  proof (rule ccontr)
    assume "entry_refs s a \<noteq> 0"
    then obtain t where "count_list (map e_obj (entries s t)) a \<noteq> 0" unfolding entry_refs_def by (metis (no_types, lifting) sum.neutral)
    then have "a \<in> e_obj ` set (entries s t)" by (metis count_list_0_iff list.set_map)
    then show False using inv a unfolding dedup_inv_def by auto
  qed
  then have R: "entry_refs s b + ext' b = (if b = a then ext' a else entry_refs s b + ext b)" for b using other by simp
  have "dobjs_ok c (\<lambda>b. entry_refs s b + ext' b) ?s"
  proof (rule dobjs_okI)
    note ok = conjunct1 [OF inv [unfolded dedup_inv_def], unfolded dobjs_ok_def]
    show "distinct (idx_objs ?s)" using ok by simp
    show "x = y" if "x \<in> set (idx_objs ?s)" "y \<in> set (idx_objs ?s)" "intern_equal c (dval ?s x) (dval ?s y)" for x y
      using ok that val by simp
    show "b \<in> set (idx_objs ?s) \<longleftrightarrow> o_multi_idx (dm_mem ?s b) = Some (dm_self ?s)" for b using ok a ob by (cases "b = a") simp_all
    show "entry_refs s b + ext' b > 0" if "b \<in> set (idx_objs ?s)" for b
    proof -
      have "b \<noteq> a" using that a by auto
      then show ?thesis using ok that R [of b] by simp
    qed
    show "o_ref_count (dm_mem ?s b) = entry_refs s b + ext' b
        \<or> o_ref_count (dm_mem ?s b) = NM_OBJ_REF_COUNT_STACKINIT \<and> entry_refs s b + ext' b = 0" for b
      unfolding R using ok cnt by (cases "b = a") simp_all
  qed
  moreover have "parts_ok c t (eval ?s) (lst_idx_head s t)" for t
  proof -
    have "eval s e = eval ?s e" if "h \<in> set (lst_idx_head s t)" "e \<in> set (lst_entries h)" for h e
    proof -
      have "e \<in> set (entries s t)" using that set_entries by metis
      then show ?thesis using inv val unfolding dedup_inv_def by simp
    qed
    then have "parts_ok c t (eval s) (lst_idx_head s t) = parts_ok c t (eval ?s) (lst_idx_head s t)" by (rule parts_ok_cong)
    then show ?thesis using inv by (simp add: dedup_inv_def)
  qed
  ultimately show ?thesis using inv unfolding dedup_inv_def ent by simp
qed

lemma dedup_inv_dead: "dedup_inv c ext s \<Longrightarrow> o_ref_count (dm_mem s a) = 0 \<Longrightarrow> a \<notin> set (idx_objs s) \<and> ext a = 0"
  using dobjs_ok_dead [of c "\<lambda>a. entry_refs s a + ext a" s a] by (simp add: dedup_inv_def)

lemma dedup_inv_unref_stack:
  "dedup_inv c ext s \<Longrightarrow> o_multi_idx (dm_mem s a) = None \<Longrightarrow> a \<notin> set (idx_objs s)"
  unfolding dedup_inv_def dobjs_ok_def by fastforce

text \<open>Each operation keeps the invariant, with the references it hands over.\<close>

lemma add_full_inv:
  assumes c: "dedup_class_ok c" and inv: "dedup_inv c ext s" and t: "t \<in> set (dm_types s)"
    and fe: "\<forall>x \<in> set (entries s t). e_ptr x \<noteq> fe" and live: "o_ref_count (dm_mem s a) > 0" and fresh: "o_ref_count (dm_mem s fo) = 0"
    and eq: "nm_dedup_multi_index_add_full c fo fe t a mode entry_order want s = (changed, en, old, s')"
  shows "dedup_inv c (take_ref old ext) s'"
proof (cases "idx_obj_partitionable c t (dval s a)")
  case True
  then show ?thesis using add_full_correct [OF c inv t _ live disjI1 [OF fresh] True eq] fe by blast
next
  case False
  then show ?thesis using add_full_not_partitionable [OF c inv False] eq inv by (simp add: take_ref_def)
qed

lemma dedup_run_inv:
  assumes c: "dedup_class_ok c"
  shows "dedup_run c s ext \<Longrightarrow> dedup_inv c ext s"
proof (induction rule: dedup_run.induct)
  case (new mem self)
  then show ?case by (rule dedup_inv_new)
next
  case (idx_type s ext t)
  then show ?case by (intro dedup_inv_idx_type)
next
  case (object s ext a v)
  then show ?case using dedup_inv_dead [of c ext s a] by (intro dedup_inv_mem) auto
next
  case (stack_object s ext a v)
  then show ?case using dedup_inv_dead [of c ext s a] by (intro dedup_inv_mem) auto
next
  case (stack_done s ext a)
  then show ?case using dedup_inv_unref_stack [of c ext s a] by (intro dedup_inv_mem) auto
next
  case (ref_entry s ext e t)
  then show ?case using dedup_inv_entry_live [of c ext s e t] by (intro dedup_inv_ref) auto
next
  case (intern s ext a fo n s')
  then show ?case using dedup_inv_intern [OF c, of ext s a fo n s'] by (simp add: fun_upd_def)
next
  case (add s ext t fe a fo mode entry_order want changed en old s')
  then show ?case using add_full_inv [OF c] by blast
next
  case (remove_entry s ext e t n s')
  then obtain h where h: "h \<in> set (lst_idx_head s t)" "e \<in> set (lst_entries h)" using set_entries by metis
  show ?case using remove_entry_step [OF c remove_entry.IH h, of "fst (remove_entry t (e_ptr e) s)" s'] remove_entry.hyps
    by (auto simp: nm_dedup_multi_index_remove_entry_def)
next
  case (remove_head_entry s ext h t n s')
  then show ?case using remove_head_correct [OF c, of ext s h t True False n s'] by (simp add: nm_dedup_multi_index_remove_entry_def)
next
  case (remove_obj s ext t a want n old s')
  then show ?case using remove_obj_correct [OF c] by blast
next
  case (remove_head s ext t a n s')
  then show ?case using remove_head_op_correct [OF c] by blast
next
  case (remove_idx s ext t n s')
  then show ?case using remove_idx_entry_correct [OF c] by (simp add: nm_dedup_multi_index_remove_idx_def)
next
  case (dirty_remove_idx s ext t mark n s')
  then show ?case using remove_idx_entry_correct [OF c] by (simp add: nm_dedup_multi_index_dirty_remove_idx_def)
next
  case (reorder s ext e t entry_order order_after changed s')
  then show ?case using entry_reorder_correct [OF c] by blast
next
  case (sort s ext i t garbage cmp s')
  then show ?case using head_entry_sort_correct [OF c] by blast
next
  case (dirty_set_head s ext t a)
  then show ?case using dirty_set_head_correct [OF c, of ext s _ t a] by simp
next
  case (dirty_set_idx s ext t)
  then show ?case using dirty_set_idx_correct [of c ext s _ t] by simp
next
  case (set_dirty s ext t p d)
  then show ?case using set_dirty_correct [of c ext s _ t p d] by simp
next
  case (ref s ext a)
  then show ?case using dedup_inv_ref [of c ext s a] by (simp add: fun_upd_def)
next
  case (unref s ext a)
  then show ?case using dedup_inv_unref [of c ext s a] by (simp add: fun_upd_def)
next
  case (index_ref s ext)
  then show ?case by (simp add: nm_dedup_multi_index_ref_def)
qed

section \<open>Properties\<close>

text \<open>An example class: pairs are identified by their first component and partitioned by its parity.\<close>

definition pair_class :: "(nat, nat \<times> nat) dedup_class" where
  "pair_class = \<lparr>idx_obj_id_equal = (\<lambda>_ v w. fst v = fst w), idx_obj_partitionable = (\<lambda>_ _. True),
     idx_obj_partition_equal = (\<lambda>_. Some (\<lambda>v w. even (fst v) = even (fst w))), obj_needs_clone = (\<lambda>_. False),
     obj_full_hash_update = (\<lambda>(x, y). [int x, int y]), obj_full_equal = (=),
     nm_hash = (\<lambda>seed xs. seed + word_of_int (sum_list xs))\<rparr>"

lemma pair_class_ok: "dedup_class_ok pair_class"
  by (auto simp: dedup_class_ok_def pair_class_def same_part_def equivp_def symp_def transp_def fun_eq_iff)

lemma pair_class_sel [simp]:
  "idx_obj_partitionable pair_class t v" "obj_full_equal pair_class = (=)"
  by (simp_all add: pair_class_def)

definition mem0 :: "nat \<Rightarrow> (nat \<times> nat) dobj" where
  "mem0 a = \<lparr>o_val = (0, 0), o_multi_idx = None, o_ref_count = 0\<rparr>"

text \<open>An index of one type, and objects that the user holds, at addresses 11 to 13.\<close>

definition index1 :: "(nat, nat \<times> nat) NMDedupMultiIndex" where
  "index1 = nm_dedup_multi_idx_type_init 0 (nm_dedup_multi_index_new 7 mem0)"

definition with_object :: "nat \<Rightarrow> nat \<times> nat \<Rightarrow> (nat, nat \<times> nat) NMDedupMultiIndex \<Rightarrow> (nat, nat \<times> nat) NMDedupMultiIndex" where
  "with_object a v s = s\<lparr>dm_mem := (dm_mem s)(a := \<lparr>o_val = v, o_multi_idx = None, o_ref_count = 1\<rparr>)\<rparr>"

definition index2 :: "(nat, nat \<times> nat) NMDedupMultiIndex" where
  "index2 = with_object 13 (4, 30) (with_object 12 (5, 20) (with_object 11 (4, 10) index1))"

definition ext2 :: "nat \<Rightarrow> nat" where
  "ext2 = (\<lambda>_. 0)(11 := 1, 12 := 1, 13 := 1)"

lemma index2_run: "dedup_run pair_class index2 ext2"
proof -
  have r0: "dedup_run pair_class index1 (\<lambda>_. 0)"
    unfolding index1_def by (rule dedup_run.idx_type, rule dedup_run.new) (simp_all add: mem0_def nm_dedup_multi_index_new_def)
  have r1: "dedup_run pair_class (with_object 11 (4, 10) index1) ((\<lambda>_. 0)(11 := 1))"
    unfolding with_object_def by (rule dedup_run.object [OF r0])
      (simp add: index1_def mem0_def nm_dedup_multi_index_new_def nm_dedup_multi_idx_type_init_def)
  have r2: "dedup_run pair_class (with_object 12 (5, 20) (with_object 11 (4, 10) index1)) ((\<lambda>_. 0)(11 := 1, 12 := 1))"
    unfolding with_object_def [of 12] by (rule dedup_run.object [OF r1])
      (simp add: with_object_def index1_def mem0_def nm_dedup_multi_index_new_def nm_dedup_multi_idx_type_init_def)
  show ?thesis unfolding index2_def ext2_def with_object_def [of 13] by (rule dedup_run.object [OF r2])
      (simp add: with_object_def index1_def mem0_def nm_dedup_multi_index_new_def nm_dedup_multi_idx_type_init_def)
qed

lemma index2_sel:
  "dm_types index2 = [0]" "entries index2 0 = []" "lst_idx_head index2 0 = []" "dm_self index2 = 7" "idx_objs index2 = []" "idx_len index2 0 = 0"
  "dm_mem index2 11 = \<lparr>o_val = (4, 10), o_multi_idx = None, o_ref_count = 1\<rparr>"
  "dm_mem index2 12 = \<lparr>o_val = (5, 20), o_multi_idx = None, o_ref_count = 1\<rparr>"
  "dm_mem index2 13 = \<lparr>o_val = (4, 30), o_multi_idx = None, o_ref_count = 1\<rparr>"
  "a \<notin> {11, 12, 13} \<Longrightarrow> o_ref_count (dm_mem index2 a) = 0"
  by (simp_all add: index2_def with_object_def index1_def mem0_def nm_dedup_multi_index_new_def nm_dedup_multi_idx_type_init_def entries_def)

text \<open>The index after the object at 11 was added.\<close>

definition index3 :: "(nat, nat \<times> nat) NMDedupMultiIndex" where
  "index3 = request_add pair_class 0 NM_DEDUP_MULTI_IDX_MODE_APPEND (40, 50, 11) index2"

lemma index3_add:
  "nm_dedup_multi_index_add_full pair_class 40 50 0 11 NM_DEDUP_MULTI_IDX_MODE_APPEND None False index2 = (True, Some 50, None, index3)"
  "lst_idx_head index3 0 = [\<lparr>lst_entries = [\<lparr>e_ptr = 50, e_obj = 11, e_dirty = False\<rparr>], he_len = 1\<rparr>]" "idx_len index3 0 = 1"
  "dm_types index3 = [0]" "dval index3 11 = (4, 10)" "dval index3 12 = (5, 20)" "o_ref_count (dm_mem index3 12) = 1"
  "o_ref_count (dm_mem index3 41) = 0"
  using index2_sel(10) [of 41]
  by (simp_all add: index3_def nm_dedup_multi_index_add_def nm_dedup_multi_index_add_full_def entry_lookup_obj_def entry_lookup_head_def
      index2_sel add_new_def pair_class_def nm_dedup_multi_index_obj_intern_def nm_dedup_multi_index_obj_find_def
      nm_dedup_multi_obj_needs_clone_def entry_link_def set_head_def)

lemma index3_objs: "idx_objs index3 = [11]"
  by (simp add: index3_def nm_dedup_multi_index_add_def nm_dedup_multi_index_add_full_def entry_lookup_obj_def entry_lookup_head_def
      index2_sel add_new_def pair_class_def nm_dedup_multi_index_obj_intern_def nm_dedup_multi_index_obj_find_def
      nm_dedup_multi_obj_needs_clone_def nm_dedup_multi_obj_ref_def entry_link_def set_head_def)

lemma index3_run: "dedup_run pair_class index3 ext2"
  using dedup_run.add [OF index2_run _ _ _ _ index3_add(1)] index2_sel(10) [of 40] by (simp add: index2_sel take_ref_def)

text \<open>The index after the object at 12 was added, too.\<close>

definition index4 :: "(nat, nat \<times> nat) NMDedupMultiIndex" where
  "index4 = request_add pair_class 0 NM_DEDUP_MULTI_IDX_MODE_APPEND (41, 51, 12) index3"

lemma index3_objects:
  "dm_self index3 = 7" "o_multi_idx (dm_mem index3 12) = None" "entries index3 0 = [\<lparr>e_ptr = 50, e_obj = 11, e_dirty = False\<rparr>]"
  by (simp_all add: index3_def nm_dedup_multi_index_add_def nm_dedup_multi_index_add_full_def entry_lookup_obj_def entry_lookup_head_def
      index2_sel add_new_def pair_class_def nm_dedup_multi_index_obj_intern_def nm_dedup_multi_index_obj_find_def
      nm_dedup_multi_obj_needs_clone_def nm_dedup_multi_obj_ref_def entry_link_def set_head_def entries_def)

lemma index4_add:
  "nm_dedup_multi_index_add_full pair_class 41 51 0 12 NM_DEDUP_MULTI_IDX_MODE_APPEND None False index3 = (True, Some 51, None, index4)"
  "idx_objs index4 = [12, 11]"
  using index3_objs index3_add(7)
  by (simp_all add: index4_def nm_dedup_multi_index_add_def nm_dedup_multi_index_add_full_def entry_lookup_obj_def entry_lookup_head_def
      index3_add(2-6) index3_objects add_new_def pair_class_def nm_dedup_multi_index_obj_intern_def nm_dedup_multi_index_obj_find_def
      dict_idx_objs_hash_def dict_idx_objs_equal_def dict_idx_entries_equal_def nm_dedup_multi_idx_type_id_equal_def
      nm_dedup_multi_idx_type_partition_equal_def nm_dedup_multi_obj_needs_clone_def nm_dedup_multi_obj_ref_def entry_link_def set_head_def)

lemma index4_run: "dedup_run pair_class index4 ext2"
  using dedup_run.add [OF index3_run _ _ _ _ index4_add(1)] by (simp add: index3_add index3_objects take_ref_def)

text \<open>
  C6. Every run of an index keeps it consistent: objects that are equal in full and have the same hash value are stored
  once and shared by all index types; no two entries of an index type have the same identity; every partition is one
  list with its length; the reference counter of every object is the number of the entries that refer to it and of the
  references that the users hold, so no object is freed while it is used and none is leaked. If the hash function of the
  class gives equal objects the same hash value, the index stores no two objects that are equal in full. Without that,
  as for the IPv6 addresses of the platform, it can store such objects several times.
\<close>

theorem dedup_run_invariant:
  assumes "dedup_class_ok c" and "dedup_run c s ext"
  shows "dedup_inv c ext s
     \<and> (hash_agrees c \<longrightarrow>
         (\<forall>a \<in> set (idx_objs s). \<forall>b \<in> set (idx_objs s). obj_full_equal c (dval s a) (dval s b) \<longrightarrow> a = b))"
proof (intro conjI impI ballI)
  show inv: "dedup_inv c ext s" using assms by (rule dedup_run_inv)
  fix a b
  assume "hash_agrees c" and "obj_full_equal c (dval s a) (dval s b)" and ab: "a \<in> set (idx_objs s)" "b \<in> set (idx_objs s)"
  then have "intern_equal c (dval s a) (dval s b)" by (blast intro: hash_agrees_intern)
  with dobjs_ok_unique [OF conjunct1 [OF inv [unfolded dedup_inv_def]] ab] show "a = b" .
qed

text \<open>The hash function of the example agrees with equality.\<close>

lemma pair_class_hash: "hash_agrees pair_class"
  by (simp add: hash_agrees_def)

theorem dedup_run_invariant_witness:
  "dedup_inv pair_class ext2 index4 \<and> idx_objs index4 = [12, 11] \<and> distinct (map (dval index4) (idx_objs index4))"
proof -
  note w = dedup_run_invariant [OF pair_class_ok index4_run]
  have inj: "inj_on (dval index4) (set (idx_objs index4))"
    using mp [OF conjunct2 [OF w] pair_class_hash] unfolding pair_class_sel(2) inj_on_def .
  have "distinct (map (dval index4) (idx_objs index4))"
    unfolding distinct_map using inj by (simp add: index4_add)
  with conjunct1 [OF w] show ?thesis by (simp add: index4_add)
qed



text \<open>
  C7. Synchronising an index type: its users mark all entries, add the objects that they have now, and remove what is
  still marked. Then a lookup gives an entry, without a mark, exactly for the identities of the objects that were
  added, with a value equal to the last one of the identity; whatever the index had before is gone.
\<close>

theorem dedup_mark_and_sweep:
  fixes rs :: "(nat \<times> nat \<times> nat) list"
  assumes c: "dedup_class_ok c" and run: "dedup_run c s ext" and t: "t \<in> set (dm_types s)"
    and ready: "\<forall>i < length rs. request_ready c ext t (rs ! i) (fold (request_add c t mode) (take i rs) (nm_dedup_multi_index_dirty_set_idx t s))"
    and held: "\<forall>(fo, fe, a) \<in> set rs. ext a > 0"
    and eq: "nm_dedup_multi_index_dirty_remove_idx t False (fold (request_add c t mode) rs (nm_dedup_multi_index_dirty_set_idx t s)) = (n, s')"
  shows "case List.find (\<lambda>r. same_ident c t v (request_value r s)) (rev rs) of
       Some r \<Rightarrow> \<exists>w. obj_full_equal c (request_value r s) w \<and> content c t s' v = Some (w, False)
     | None \<Rightarrow> content c t s' v = None"
proof -
  have inv: "dedup_inv c ext s" using dedup_run_inv [OF c run] .
  have ok: "index_ok c ext t s" using c inv t by (simp add: index_ok_def)
  have "\<forall>r \<in> set rs. request_held ext r s" using held held_alive [OF inv] by auto
  from dedup.mark_and_sweep [OF ok ready this, of v] show ?thesis unfolding eq snd_conv by (rule conjunct2)
qed

theorem dedup_mark_and_sweep_witness:
  "content pair_class 0 (snd (nm_dedup_multi_index_dirty_remove_idx 0 False
      (request_add pair_class 0 NM_DEDUP_MULTI_IDX_MODE_APPEND (41, 51, 12) (nm_dedup_multi_index_dirty_set_idx 0 index3)))) (5, 0) = Some ((5, 20), False)
   \<and> content pair_class 0 (snd (nm_dedup_multi_index_dirty_remove_idx 0 False
      (request_add pair_class 0 NM_DEDUP_MULTI_IDX_MODE_APPEND (41, 51, 12) (nm_dedup_multi_index_dirty_set_idx 0 index3)))) (4, 0) = None"
proof -
  let ?rs = "[(41, 51, 12)] :: (nat \<times> nat \<times> nat) list"
  have mk: "dm_mem (nm_dedup_multi_index_dirty_set_idx 0 index3) = dm_mem index3"
    "entries (nm_dedup_multi_index_dirty_set_idx 0 index3) 0 = [\<lparr>e_ptr = 50, e_obj = 11, e_dirty = True\<rparr>]"
    by (simp_all add: nm_dedup_multi_index_dirty_set_idx_def entries_def dirty_head_def index3_add)
  have ready: "\<forall>i < length ?rs. request_ready pair_class ext2 0 (?rs ! i)
      (fold (request_add pair_class 0 NM_DEDUP_MULTI_IDX_MODE_APPEND) (take i ?rs) (nm_dedup_multi_index_dirty_set_idx 0 index3))"
    by (simp add: mk index3_add ext2_def)
  have held: "\<forall>(fo, fe, a) \<in> set ?rs. ext2 a > 0" by (simp add: ext2_def)
  obtain n s' where eq: "nm_dedup_multi_index_dirty_remove_idx 0 False
      (fold (request_add pair_class 0 NM_DEDUP_MULTI_IDX_MODE_APPEND) ?rs (nm_dedup_multi_index_dirty_set_idx 0 index3)) = (n, s')" by fastforce
  have t: "0 \<in> set (dm_types index3)" by (simp add: index3_add)
  note w = dedup_mark_and_sweep [OF pair_class_ok index3_run t ready held eq]
  have "same_ident pair_class 0 (5, 0) (5, 20)" "\<not> same_ident pair_class 0 (4, 0) (5, 20)"
    by (simp_all add: same_ident_def same_part_def pair_class_def)
  then show ?thesis using w [of "(5, 0)"] w [of "(4, 0)"] eq by (simp add: index3_add)
qed

text \<open>
  C40. When the last reference to an index is dropped, its index types have no entries any more, no object belongs to
  it, and the reference counter of every object is the number of references that the users still hold.
\<close>

theorem dedup_destroy_releases:
  assumes c: "dedup_class_ok c" and run: "dedup_run c s ext" and last: "dm_ref_count s = 1"
  shows "(\<forall>t. lst_idx_head (nm_dedup_multi_index_unref s) t = []) \<and> idx_objs (nm_dedup_multi_index_unref s) = []
     \<and> (\<forall>a. o_multi_idx (dm_mem (nm_dedup_multi_index_unref s) a) \<noteq> Some (dm_self s)
          \<and> (o_ref_count (dm_mem (nm_dedup_multi_index_unref s) a) = ext a
             \<or> o_ref_count (dm_mem (nm_dedup_multi_index_unref s) a) = NM_OBJ_REF_COUNT_STACKINIT \<and> ext a = 0))"
proof -
  define s1 where "s1 = unref_more (dm_types s) (s\<lparr>dm_ref_count := 0\<rparr>)"
  have "dedup_inv c ext (s\<lparr>dm_ref_count := 0\<rparr>)" using dedup_run_inv [OF c run] by simp
  note U = unref_more_correct [OF c this, of "dm_types s", folded s1_def]
  have inv: "dedup_inv c ext s1" using U by blast
  have heads: "lst_idx_head s1 t = []" for t using U dedup_run_inv [OF c run] by (cases "t \<in> set (dm_types s)") (simp_all add: dedup_inv_def)
  then have ref: "entry_refs s1 a = 0" for a by (simp add: entry_refs_def entries_def)
  have ok: "dobjs_ok c ext s1" using inv ref by (simp add: dedup_inv_def)
  have zero: "s\<lparr>dm_ref_count := dm_ref_count s - 1\<rparr> = s\<lparr>dm_ref_count := 0\<rparr>" using last by simp
  have ty: "dm_types (s\<lparr>dm_ref_count := 0\<rparr>) = dm_types s" "dm_ref_count (s\<lparr>dm_ref_count := 0\<rparr>) = 0" by simp_all
  have s': "nm_dedup_multi_index_unref s =
      s1\<lparr>dm_mem := (\<lambda>a. if a \<in> set (idx_objs s1) then (dm_mem s1 a)\<lparr>o_multi_idx := None\<rparr> else dm_mem s1 a), idx_objs := []\<rparr>"
    unfolding nm_dedup_multi_index_unref_def Let_def zero ty s1_def by (simp only: less_irrefl if_False)
  have "o_multi_idx (dm_mem (nm_dedup_multi_index_unref s) a) \<noteq> Some (dm_self s)" for a
    using ok U by (auto simp: s' dobjs_ok_def)
  moreover have "o_ref_count (dm_mem (nm_dedup_multi_index_unref s) a) = o_ref_count (dm_mem s1 a)" for a by (simp add: s')
  ultimately show ?thesis using heads ok by (simp add: s' dobjs_ok_def)
qed

theorem dedup_destroy_releases_witness:
  "o_ref_count (dm_mem (nm_dedup_multi_index_unref index2) 11) = 1 \<and> lst_idx_head (nm_dedup_multi_index_unref index2) 0 = []"
proof -
  have "dm_ref_count index2 = 1" by (simp add: index2_def with_object_def index1_def nm_dedup_multi_index_new_def nm_dedup_multi_idx_type_init_def)
  from dedup_destroy_releases [OF pair_class_ok index2_run this] show ?thesis by (auto simp: ext2_def dest: spec [of _ 11])
qed

text \<open>
  Removing an entry takes exactly that entry out of its index type and keeps the order of the others. The counter
  of the index type counts the removal only if the partition has further entries: the removal of the last entry of a
  partition leaves it as it is, so it drifts away from the number of entries.
\<close>

theorem dedup_remove_entry_counts:
  assumes c: "dedup_class_ok c" and run: "dedup_run c s ext" and h: "h \<in> set (lst_idx_head s t)" and e: "e \<in> set (lst_entries h)"
    and eq: "remove_entry t (e_ptr e) s = (head_removed, s')"
  shows "entries s' t = unlink_entry (e_ptr e) (entries s t) \<and> Suc (length (entries s' t)) = length (entries s t)
     \<and> idx_len s' t = (if he_len h = 1 then idx_len s t else idx_len s t - 1)"
proof -
  have inv: "dedup_inv c ext s" using dedup_run_inv [OF c run] .
  have hok: "head_ok c t (eval s) h" using inv h by (auto simp: dedup_inv_def parts_ok_def)
  note R = remove_entry_step [OF c inv h e eq]
  have "head_removed \<longleftrightarrow> he_len h = 1"
  proof
    assume head_removed
    then have "set (lst_entries h) = {e}" using R by blast
    moreover have "distinct (lst_entries h)" using hok by (simp add: head_ok_def distinct_map)
    ultimately have "length (lst_entries h) = card {e}" by (metis distinct_card)
    then show "he_len h = 1" using hok by (simp add: head_ok_def)
  next
    assume "he_len h = 1"
    then have "lst_entries h = [e]" using hok e by (cases "lst_entries h") (auto simp: head_ok_def)
    then have none: "unlink_entry (e_ptr e) (lst_entries h) = []" by (simp add: unlink_entry_def)
    have "lst_entries h' \<noteq> []" if "h' \<in> set (lst_idx_head s' t)" for h' using R that by (auto simp: dedup_inv_def parts_ok_def head_ok_def)
    then show head_removed using R none by metis
  qed
  then show ?thesis using R by (cases head_removed) auto
qed

theorem dedup_remove_entry_counts_witness:
  "entries (snd (remove_entry 0 50 index3)) 0 = [] \<and> idx_len (snd (remove_entry 0 50 index3)) 0 = 1"
proof -
  let ?e = "\<lparr>e_ptr = 50, e_obj = 11, e_dirty = False\<rparr>"
  have "remove_entry 0 (e_ptr ?e) index3 = (fst (remove_entry 0 50 index3), snd (remove_entry 0 50 index3))" by simp
  from dedup_remove_entry_counts [OF pair_class_ok index3_run _ _ this] show ?thesis
    by (simp add: index3_add unlink_entry_def entries_def [of index3])
qed

end
