(* ===== verification/NM_Platform_Cache.thy ===== *)
theory NM_Platform_Cache
  imports NM_Platform_Objects NM_Dedup_Run
begin

text \<open>
  The platform cache (\<^verbatim>\<open>NMPCache\<close> of \<^verbatim>\<open>libnm-platform/nmp-object.[ch]\<close>): an index of deduplicated objects with one
  index type for each \<^verbatim>\<open>NMPCacheIdType\<close>. The index type \<^verbatim>\<open>OBJECT_TYPE\<close> has every object; the others have those that
  they can partition, so that lookups need not search. An update has to keep all of them in step.

  Links are left out: their updates merge fields of netlink, udev and other links. The flag \<^verbatim>\<open>use_udev\<close> of the cache
  is about links. New objects and entries have addresses that are arguments, as in the index.
\<close>

section \<open>Classes of objects\<close>

datatype NMPCacheIdType =
  NMP_CACHE_ID_TYPE_OBJECT_TYPE | NMP_CACHE_ID_TYPE_LINK_BY_IFNAME | NMP_CACHE_ID_TYPE_DEFAULT_ROUTES
| NMP_CACHE_ID_TYPE_OBJECT_BY_IFINDEX | NMP_CACHE_ID_TYPE_ROUTES_BY_WEAK_ID
| NMP_CACHE_ID_TYPE_OBJECT_BY_ADDR_FAMILY

datatype NMPCacheOpsType =
  NMP_CACHE_OPS_UNCHANGED | NMP_CACHE_OPS_ADDED | NMP_CACHE_OPS_UPDATED | NMP_CACHE_OPS_REMOVED

definition nmp_object_is_alive :: "NMPObject \<Rightarrow> bool" where
  "nmp_object_is_alive obj =
     (case obj of
        NMP_IP4_ADDRESS a \<Rightarrow> ax_ifindex a > 0
      | NMP_IP6_ADDRESS a \<Rightarrow> ax_ifindex a > 0
      | NMP_IP4_ROUTE r _ \<Rightarrow> r_rtm_flags r AND RTM_F_CLONED = 0
      | NMP_IP6_ROUTE r \<Rightarrow> r_rtm_flags r AND RTM_F_CLONED = 0
      | NMP_ROUTING_RULE r \<Rightarrow> rr_addr_family r \<in> {NM_AF_INET, NM_AF_INET6}
      | NMP_QDISC q \<Rightarrow> qd_ifindex q > 0
      | NMP_TFILTER f \<Rightarrow> tf_ifindex f > 0
      | NMP_MPTCP_ADDR m \<Rightarrow> mp_addr_family m \<in> {NM_AF_INET, NM_AF_INET6, NM_AF_UNSPEC})"

text \<open>Only the class of links has a function \<^verbatim>\<open>cmd_obj_is_visible\<close>.\<close>

definition nmp_object_is_visible :: "NMPObject \<Rightarrow> bool" where
  "nmp_object_is_visible obj = nmp_object_is_alive obj"

definition supported_cache_ids :: "NMPObjectType \<Rightarrow> NMPCacheIdType list" where
  "supported_cache_ids t =
     (if t \<in> {NMP_OBJECT_TYPE_IP4_ROUTE, NMP_OBJECT_TYPE_IP6_ROUTE} then
        [NMP_CACHE_ID_TYPE_OBJECT_TYPE, NMP_CACHE_ID_TYPE_OBJECT_BY_IFINDEX, NMP_CACHE_ID_TYPE_DEFAULT_ROUTES,
         NMP_CACHE_ID_TYPE_ROUTES_BY_WEAK_ID]
      else if t = NMP_OBJECT_TYPE_ROUTING_RULE then
        [NMP_CACHE_ID_TYPE_OBJECT_TYPE, NMP_CACHE_ID_TYPE_OBJECT_BY_ADDR_FAMILY]
      else [NMP_CACHE_ID_TYPE_OBJECT_TYPE, NMP_CACHE_ID_TYPE_OBJECT_BY_IFINDEX])"

text \<open>The field \<^verbatim>\<open>ifindex\<close> of objects that have one.\<close>

definition obj_with_ifindex :: "NMPObject \<Rightarrow> int option" where
  "obj_with_ifindex obj =
     (case obj of
        NMP_IP4_ADDRESS a \<Rightarrow> Some (ax_ifindex a)
      | NMP_IP6_ADDRESS a \<Rightarrow> Some (ax_ifindex a)
      | NMP_IP4_ROUTE r _ \<Rightarrow> Some (r_ifindex r)
      | NMP_IP6_ROUTE r \<Rightarrow> Some (r_ifindex r)
      | NMP_ROUTING_RULE r \<Rightarrow> None
      | NMP_QDISC q \<Rightarrow> Some (qd_ifindex q)
      | NMP_TFILTER f \<Rightarrow> Some (tf_ifindex f)
      | NMP_MPTCP_ADDR m \<Rightarrow> Some (mp_ifindex m))"

definition NM_PLATFORM_IP_ROUTE_IS_DEFAULT :: "NMPObject \<Rightarrow> bool" where
  "NM_PLATFORM_IP_ROUTE_IS_DEFAULT obj =
     (case obj of NMP_IP4_ROUTE r _ \<Rightarrow> r_plen r \<le> 0 | NMP_IP6_ROUTE r \<Rightarrow> r_plen r \<le> 0 | _ \<Rightarrow> False)"

definition route_weak_id_equal :: "NMPObject \<Rightarrow> NMPObject \<Rightarrow> bool" where
  "route_weak_id_equal obj_a obj_b =
     (case (obj_a, obj_b) of
        (NMP_IP4_ROUTE a _, NMP_IP4_ROUTE b _) \<Rightarrow>
          r_ifindex b \<ge> 0 \<and> nm_platform_ip4_route_cmp NM_PLATFORM_IP_ROUTE_CMP_TYPE_WEAK_ID a b = 0
      | (NMP_IP6_ROUTE a, NMP_IP6_ROUTE b) \<Rightarrow>
          r_ifindex b \<ge> 0 \<and> nm_platform_ip6_route_cmp NM_PLATFORM_IP_ROUTE_CMP_TYPE_WEAK_ID a b = 0
      | _ \<Rightarrow> False)"

text \<open>
  \<^verbatim>\<open>_idx_obj_part\<close>, for one object whether it is partitionable, for two whether they are in the same partition. The
  third use, hashing, is \<open>idx_obj_part_hash\<close>.
\<close>

definition idx_obj_part :: "NMPCacheIdType \<Rightarrow> NMPObject \<Rightarrow> NMPObject option \<Rightarrow> bool" where
  "idx_obj_part cache_id_type obj_a obj_b =
     (let type_a = obj_type obj_a;
          same_type = (\<lambda>b. type_a = obj_type b)
      in case cache_id_type of
        NMP_CACHE_ID_TYPE_OBJECT_TYPE \<Rightarrow> (case obj_b of Some b \<Rightarrow> same_type b | None \<Rightarrow> True)
      | NMP_CACHE_ID_TYPE_LINK_BY_IFNAME \<Rightarrow> False
      | NMP_CACHE_ID_TYPE_DEFAULT_ROUTES \<Rightarrow>
          if type_a \<notin> {NMP_OBJECT_TYPE_IP4_ROUTE, NMP_OBJECT_TYPE_IP6_ROUTE}
             \<or> \<not> NM_PLATFORM_IP_ROUTE_IS_DEFAULT obj_a \<or> \<not> nmp_object_is_visible obj_a then False
          else (case obj_b of
                  Some b \<Rightarrow> same_type b \<and> NM_PLATFORM_IP_ROUTE_IS_DEFAULT b \<and> nmp_object_is_visible b
                | None \<Rightarrow> True)
      | NMP_CACHE_ID_TYPE_OBJECT_BY_IFINDEX \<Rightarrow>
          if type_a \<notin> {NMP_OBJECT_TYPE_IP4_ADDRESS, NMP_OBJECT_TYPE_IP6_ADDRESS, NMP_OBJECT_TYPE_IP4_ROUTE,
               NMP_OBJECT_TYPE_IP6_ROUTE, NMP_OBJECT_TYPE_QDISC, NMP_OBJECT_TYPE_TFILTER, NMP_OBJECT_TYPE_MPTCP_ADDR}
             \<or> \<not> nmp_object_is_visible obj_a then False
          else (case obj_b of
                  Some b \<Rightarrow> same_type b \<and> obj_with_ifindex obj_a = obj_with_ifindex b \<and> nmp_object_is_visible b
                | None \<Rightarrow> True)
      | NMP_CACHE_ID_TYPE_ROUTES_BY_WEAK_ID \<Rightarrow>
          if type_a \<notin> {NMP_OBJECT_TYPE_IP4_ROUTE, NMP_OBJECT_TYPE_IP6_ROUTE} \<or> the (obj_with_ifindex obj_a) < 0 then False
          else (case obj_b of Some b \<Rightarrow> route_weak_id_equal obj_a b | None \<Rightarrow> True)
      | NMP_CACHE_ID_TYPE_OBJECT_BY_ADDR_FAMILY \<Rightarrow>
          (case obj_a of
             NMP_ROUTING_RULE r \<Rightarrow>
               if rr_addr_family r \<notin> {NM_AF_INET, NM_AF_INET6} then False
               else (case obj_b of
                       Some (NMP_ROUTING_RULE r') \<Rightarrow> rr_addr_family r = rr_addr_family r'
                     | Some _ \<Rightarrow> False
                     | None \<Rightarrow> True)
           | _ \<Rightarrow> False))"

primrec cache_id_type_number :: "NMPCacheIdType \<Rightarrow> int" where
  "cache_id_type_number NMP_CACHE_ID_TYPE_OBJECT_TYPE = 1"
| "cache_id_type_number NMP_CACHE_ID_TYPE_LINK_BY_IFNAME = 2"
| "cache_id_type_number NMP_CACHE_ID_TYPE_DEFAULT_ROUTES = 3"
| "cache_id_type_number NMP_CACHE_ID_TYPE_OBJECT_BY_IFINDEX = 4"
| "cache_id_type_number NMP_CACHE_ID_TYPE_ROUTES_BY_WEAK_ID = 5"
| "cache_id_type_number NMP_CACHE_ID_TYPE_OBJECT_BY_ADDR_FAMILY = 6"

text \<open>
  The values that the partition of an object adds to the hash of an entry. For an object that is not partitionable the
  code hashes its address; no entry has such an object.
\<close>

definition idx_obj_part_hash :: "NMPCacheIdType \<Rightarrow> NMPObject \<Rightarrow> hash_input option" where
  "idx_obj_part_hash cache_id_type obj_a =
     (let type_a = int (obj_type_number (obj_type obj_a))
      in if \<not> idx_obj_part cache_id_type obj_a None then None
         else Some (cache_id_type_number cache_id_type #
           (case cache_id_type of
              NMP_CACHE_ID_TYPE_OBJECT_TYPE \<Rightarrow> [type_a]
            | NMP_CACHE_ID_TYPE_LINK_BY_IFNAME \<Rightarrow> []
            | NMP_CACHE_ID_TYPE_DEFAULT_ROUTES \<Rightarrow> [type_a]
            | NMP_CACHE_ID_TYPE_OBJECT_BY_IFINDEX \<Rightarrow> [the (obj_with_ifindex obj_a)]
            | NMP_CACHE_ID_TYPE_ROUTES_BY_WEAK_ID \<Rightarrow>
                (case obj_a of
                   NMP_IP4_ROUTE r _ \<Rightarrow> nm_platform_ip4_route_hash_update NM_PLATFORM_IP_ROUTE_CMP_TYPE_WEAK_ID r
                 | NMP_IP6_ROUTE r \<Rightarrow> nm_platform_ip6_route_hash_update NM_PLATFORM_IP_ROUTE_CMP_TYPE_WEAK_ID r
                 | _ \<Rightarrow> [])
            | NMP_CACHE_ID_TYPE_OBJECT_BY_ADDR_FAMILY \<Rightarrow>
                (case obj_a of NMP_ROUTING_RULE r \<Rightarrow> [int (rr_addr_family r)] | _ \<Rightarrow> []))))"

text \<open>\<^verbatim>\<open>_dedup_multi_idx_type_class\<close> and \<^verbatim>\<open>DEDUP_MULTI_OBJ_CLASS_INIT\<close>.\<close>

definition cache_class :: "object_env \<Rightarrow> (NMPCacheIdType, NMPObject) dedup_class" where
  "cache_class env =
     \<lparr>idx_obj_id_equal = (\<lambda>_. nmp_object_id_equal env),
      idx_obj_partitionable = (\<lambda>t obj. idx_obj_part t obj None),
      idx_obj_partition_equal = (\<lambda>t. Some (\<lambda>a b. idx_obj_part t a (Some b))),
      obj_needs_clone = (\<lambda>_. False),
      obj_full_hash_update = nmp_object_hash_update_full env False,
      obj_full_equal = nmp_object_equal env,
      nm_hash = snd (snd env)\<rparr>"

section \<open>The cache\<close>

type_synonym NMPCache = "(NMPCacheIdType, NMPObject) NMDedupMultiIndex"

definition cache_id_types :: "NMPCacheIdType list" where
  "cache_id_types =
     [NMP_CACHE_ID_TYPE_OBJECT_TYPE, NMP_CACHE_ID_TYPE_LINK_BY_IFNAME, NMP_CACHE_ID_TYPE_DEFAULT_ROUTES,
      NMP_CACHE_ID_TYPE_OBJECT_BY_IFINDEX, NMP_CACHE_ID_TYPE_ROUTES_BY_WEAK_ID, NMP_CACHE_ID_TYPE_OBJECT_BY_ADDR_FAMILY]"

definition nmp_cache_new :: "NMPCache \<Rightarrow> NMPCache" where
  "nmp_cache_new multi_idx =
     (let s = fold nm_dedup_multi_idx_type_init cache_id_types multi_idx in s\<lparr>dm_ref_count := dm_ref_count s + 1\<rparr>)"

definition lookup_entry_with_idx_type :: "object_env \<Rightarrow> NMPCacheIdType \<Rightarrow> nat \<Rightarrow> NMPCache \<Rightarrow> NMDedupMultiEntry option" where
  "lookup_entry_with_idx_type env cache_id_type obj s = nm_dedup_multi_index_lookup_obj (cache_class env) cache_id_type obj s"

definition nmp_cache_lookup_entry :: "object_env \<Rightarrow> nat \<Rightarrow> NMPCache \<Rightarrow> NMDedupMultiEntry option" where
  "nmp_cache_lookup_entry env obj s = lookup_entry_with_idx_type env NMP_CACHE_ID_TYPE_OBJECT_TYPE obj s"

definition nmp_cache_lookup_obj :: "object_env \<Rightarrow> nat \<Rightarrow> NMPCache \<Rightarrow> nat option" where
  "nmp_cache_lookup_obj env obj s = map_option e_obj (nmp_cache_lookup_entry env obj s)"

definition nmp_cache_lookup_all :: "object_env \<Rightarrow> NMPCacheIdType \<Rightarrow> nat \<Rightarrow> NMPCache \<Rightarrow> NMDedupMultiHeadEntry option" where
  "nmp_cache_lookup_all env cache_id_type select_obj s =
     nm_dedup_multi_index_lookup_head (cache_class env) cache_id_type select_obj s"

section \<open>Updating all index types\<close>

definition obj_get_add_mode :: "NMPObject \<Rightarrow> NMDedupMultiIdxMode" where
  "obj_get_add_mode obj =
     (if obj_type obj \<in> {NMP_OBJECT_TYPE_IP4_ADDRESS, NMP_OBJECT_TYPE_IP6_ADDRESS}
      then NM_DEDUP_MULTI_IDX_MODE_PREPEND else NM_DEDUP_MULTI_IDX_MODE_APPEND)"

definition idxcache_update_order_step ::
    "object_env \<Rightarrow> nat \<Rightarrow> NMPCacheIdType \<Rightarrow> NMPCache \<Rightarrow> NMPCache" where
  "idxcache_update_order_step env obj id_type s =
     (if id_type = NMP_CACHE_ID_TYPE_OBJECT_TYPE then s
      else (case lookup_entry_with_idx_type env id_type obj s of
              None \<Rightarrow> s
            | Some entry2 \<Rightarrow> snd (entry_reorder id_type (e_ptr entry2) None True s)))"

definition idxcache_update_order_for_dump :: "object_env \<Rightarrow> NMDedupMultiEntry \<Rightarrow> NMPCache \<Rightarrow> NMPCache" where
  "idxcache_update_order_for_dump env entry s =
     (let s = snd (entry_reorder NMP_CACHE_ID_TYPE_OBJECT_TYPE (e_ptr entry) None True s)
      in fold (idxcache_update_order_step env (e_obj entry)) (supported_cache_ids (obj_type (dval s (e_obj entry)))) s)"

text \<open>The addresses of a new object and of a new entry of each index type.\<close>

type_synonym cache_room = "nat \<times> (NMPCacheIdType \<Rightarrow> nat)"

definition idxcache_update_other_cache_ids ::
    "object_env \<Rightarrow> nat option \<Rightarrow> (nat \<times> cache_room) option \<Rightarrow> bool \<Rightarrow> NMPCacheIdType \<Rightarrow> NMPCache \<Rightarrow> NMPCache" where
  "idxcache_update_other_cache_ids env obj_old obj_new is_dump t s =
     (let c = cache_class env;
          entry_old = (case obj_old of Some b \<Rightarrow> nm_dedup_multi_index_lookup_obj c t b s | None \<Rightarrow> None)
      in case obj_new of
           None \<Rightarrow>
             (case entry_old of
                Some e \<Rightarrow> snd (nm_dedup_multi_index_remove_entry t (Entry (e_ptr e)) s)
              | None \<Rightarrow> s)
         | Some (n, fo, fe) \<Rightarrow>
             (let same = (case obj_old of
                            Some b \<Rightarrow> nm_dedup_multi_idx_type_id_equal c s t b n
                                       \<and> nm_dedup_multi_idx_type_partition_equal c s t b n
                          | None \<Rightarrow> False);
                  entry_new = (if same then entry_old else nm_dedup_multi_index_lookup_obj c t n s);
                  entry_order =
                    (case entry_new of
                       Some e \<Rightarrow> Some e
                     | None \<Rightarrow>
                         (case entry_old of
                            Some e \<Rightarrow> if nm_dedup_multi_idx_type_partition_equal c s t (e_obj e) n then Some e else None
                          | None \<Rightarrow> None));
                  (_, en, _, s) =
                    nm_dedup_multi_index_add_full c fo (fe t) t n
                      (if is_dump then NM_DEDUP_MULTI_IDX_MODE_APPEND_FORCE else obj_get_add_mode (dval s n))
                      (if is_dump then None else map_option e_ptr entry_order) False s
              in case entry_old of
                   Some e \<Rightarrow>
                     if en \<noteq> Some (e_ptr e) then snd (nm_dedup_multi_index_remove_entry t (Entry (e_ptr e)) s) else s
                 | None \<Rightarrow> s))"

text \<open>
  \<^verbatim>\<open>entry_old\<close> is the entry in the index type \<^verbatim>\<open>OBJECT_TYPE\<close>, \<^verbatim>\<open>obj_new\<close> the object that replaces its object. One of
  them is given. The variables \<^verbatim>\<open>obj_old\<close> and \<^verbatim>\<open>obj_old2\<close> own references, which are dropped at the end of their
  blocks.
\<close>

definition idxcache_update ::
    "object_env \<Rightarrow> NMDedupMultiEntry option \<Rightarrow> (nat \<times> cache_room) option \<Rightarrow> bool \<Rightarrow> NMPCache
       \<Rightarrow> NMDedupMultiEntry option \<times> NMPCache" where
  "idxcache_update env entry_old obj_new is_dump s =
     (let T = NMP_CACHE_ID_TYPE_OBJECT_TYPE;
          obj_old = map_option e_obj entry_old;
          s = (case obj_old of Some b \<Rightarrow> nm_dedup_multi_obj_ref b s | None \<Rightarrow> s);
          (entry_new, s) =
            (case obj_new of
               Some (a, fo, fe) \<Rightarrow>
                 (let (_, en, obj_old2, s) =
                        nm_dedup_multi_index_add_full (cache_class env) fo (fe T) T a
                          (if is_dump then NM_DEDUP_MULTI_IDX_MODE_APPEND_FORCE else obj_get_add_mode (dval s a)) None True s
                  in (map_option (\<lambda>p. entry_at T p s) en,
                      case obj_old2 of Some b \<Rightarrow> nm_dedup_multi_obj_unref b s | None \<Rightarrow> s))
             | None \<Rightarrow> (None, snd (nm_dedup_multi_index_remove_entry T (Entry (e_ptr (the entry_old))) s)));
          new = (case (entry_new, obj_new) of (Some e, Some (_, room)) \<Rightarrow> Some (e_obj e, room) | _ \<Rightarrow> None);
          klass = obj_type (dval s (case entry_new of Some e \<Rightarrow> e_obj e | None \<Rightarrow> the obj_old));
          s = fold (idxcache_update_other_cache_ids env obj_old new is_dump)
                (filter (\<lambda>id_type. id_type \<noteq> T) (supported_cache_ids klass)) s;
          s = (case obj_old of Some b \<Rightarrow> nm_dedup_multi_obj_unref b s | None \<Rightarrow> s)
      in (entry_new, s))"

section \<open>Operations\<close>

text \<open>
  The operations return what happened, the objects that they hand out with a reference, and the cache. \<^verbatim>\<open>want_old\<close>
  tells whether the caller of \<^verbatim>\<open>nmp_cache_remove\<close> wants the removed object.
\<close>

definition nmp_cache_remove ::
    "object_env \<Rightarrow> nat \<Rightarrow> bool \<Rightarrow> bool \<Rightarrow> bool \<Rightarrow> NMPCache \<Rightarrow> NMPCacheOpsType \<times> nat option \<times> NMPCache" where
  "nmp_cache_remove env obj_needle equals_by_ptr only_dirty want_old s =
     (case nmp_cache_lookup_entry env obj_needle s of
        None \<Rightarrow> (NMP_CACHE_OPS_UNCHANGED, None, s)
      | Some entry_old \<Rightarrow>
          (let obj_old = e_obj entry_old;
               out = (if want_old then Some obj_old else None);
               s = (if want_old then nm_dedup_multi_obj_ref obj_old s else s)
           in if equals_by_ptr \<and> obj_old \<noteq> obj_needle then (NMP_CACHE_OPS_UNCHANGED, out, s)
              else if only_dirty \<and> \<not> e_dirty entry_old then (NMP_CACHE_OPS_UNCHANGED, out, s)
              else (NMP_CACHE_OPS_REMOVED, out, snd (idxcache_update env (Some entry_old) None False s))))"

definition nmp_cache_remove_netlink ::
    "object_env \<Rightarrow> nat \<Rightarrow> NMPCache \<Rightarrow> NMPCacheOpsType \<times> nat option \<times> nat option \<times> NMPCache" where
  "nmp_cache_remove_netlink env obj_needle s =
     (case nmp_cache_lookup_entry env obj_needle s of
        None \<Rightarrow> (NMP_CACHE_OPS_UNCHANGED, None, None, s)
      | Some entry_old \<Rightarrow>
          (let obj_old = e_obj entry_old; s = nm_dedup_multi_obj_ref obj_old s
           in (NMP_CACHE_OPS_REMOVED, Some obj_old, None, snd (idxcache_update env (Some entry_old) None False s))))"

definition nmp_cache_update_netlink ::
    "object_env \<Rightarrow> nat \<Rightarrow> cache_room \<Rightarrow> bool \<Rightarrow> NMPCache \<Rightarrow> NMPCacheOpsType \<times> nat option \<times> nat option \<times> NMPCache" where
  "nmp_cache_update_netlink env obj_hand_over room is_dump s =
     (case nmp_cache_lookup_entry env obj_hand_over s of
        None \<Rightarrow>
          if \<not> nmp_object_is_alive (dval s obj_hand_over) then (NMP_CACHE_OPS_UNCHANGED, None, None, s)
          else
            (let (entry_new, s) = idxcache_update env None (Some (obj_hand_over, room)) is_dump s;
                 n = e_obj (the entry_new)
             in (NMP_CACHE_OPS_ADDED, None, Some n, nm_dedup_multi_obj_ref n s))
      | Some entry_old \<Rightarrow>
          (let obj_old = e_obj entry_old; s = nm_dedup_multi_obj_ref obj_old s
           in if \<not> nmp_object_is_alive (dval s obj_hand_over) then
                (NMP_CACHE_OPS_REMOVED, Some obj_old, None, snd (idxcache_update env (Some entry_old) None False s))
              else if nmp_object_equal env (dval s obj_old) (dval s obj_hand_over) then
                (let s = (if is_dump then idxcache_update_order_for_dump env entry_old s else s);
                     s = nm_dedup_multi_entry_set_dirty NMP_CACHE_ID_TYPE_OBJECT_TYPE (e_ptr entry_old) False s
                 in (NMP_CACHE_OPS_UNCHANGED, Some obj_old, Some obj_old, nm_dedup_multi_obj_ref obj_old s))
              else
                (let (entry_new, s) = idxcache_update env (Some entry_old) (Some (obj_hand_over, room)) is_dump s;
                     n = e_obj (the entry_new)
                 in (NMP_CACHE_OPS_UPDATED, Some obj_old, Some n, nm_dedup_multi_obj_ref n s))))"

text \<open>
  \<^verbatim>\<open>nlmsgflags\<close> are those of the netlink message. The last three results are the route that was replaced, whether the
  cache has to be filled anew, and the cache.
\<close>

abbreviation (input) NLM_F_REPLACE :: u16 where "NLM_F_REPLACE \<equiv> 0x100"
abbreviation (input) NLM_F_EXCL :: u16 where "NLM_F_EXCL \<equiv> 0x200"
abbreviation (input) NLM_F_CREATE :: u16 where "NLM_F_CREATE \<equiv> 0x400"
abbreviation (input) NLM_F_APPEND :: u16 where "NLM_F_APPEND \<equiv> 0x800"

definition route_weak_order ::
    "object_env \<Rightarrow> u16 \<Rightarrow> NMDedupMultiEntry \<Rightarrow> NMPCache \<Rightarrow> NMDedupMultiEntry option \<times> bool \<times> NMPCache" where
  "route_weak_order env nlmsgflags entry_new s =
     (let W = NMP_CACHE_ID_TYPE_ROUTES_BY_WEAK_ID in
      case lookup_entry_with_idx_type env W (e_obj entry_new) s of
        None \<Rightarrow> (None, False, s)
      | Some entry_cur \<Rightarrow>
          (let head_entry = lst_idx_head s W ! the (entry_head W (e_ptr entry_cur) s);
               flags = nlmsgflags AND (NLM_F_REPLACE OR NLM_F_EXCL OR NLM_F_CREATE OR NLM_F_APPEND)
           in if he_len head_entry = 1 then (None, False, s)
              else if flags = NLM_F_REPLACE then
                (let current = lst_entries head_entry ! 0;
                     current = (if e_ptr current = e_ptr entry_cur then lst_entries head_entry ! 1 else current)
                 in (Some current, False, snd (entry_reorder W (e_ptr entry_cur) (Some (e_ptr current)) False s)))
              else if flags = NLM_F_CREATE OR NLM_F_APPEND then
                (None, False, snd (entry_reorder W (e_ptr entry_cur) None True s))
              else if flags = NLM_F_CREATE then
                (None, False, snd (entry_reorder W (e_ptr entry_cur) None False s))
              else (None, True, s)))"

text \<open>The update of a route, before its message is looked at for another route that was replaced.\<close>

definition route_update ::
    "object_env \<Rightarrow> NMDedupMultiEntry option \<Rightarrow> nat \<Rightarrow> cache_room \<Rightarrow> bool \<Rightarrow> bool \<Rightarrow> NMPCache
       \<Rightarrow> NMPCacheOpsType \<times> NMDedupMultiEntry option \<times> NMPCache" where
  "route_update env entry_old obj_hand_over room is_dump is_alive s =
     (case entry_old of
        None \<Rightarrow>
          (if is_alive then
             (case idxcache_update env None (Some (obj_hand_over, room)) is_dump s of
                (entry_new, s) \<Rightarrow> (NMP_CACHE_OPS_ADDED, entry_new, s))
           else (NMP_CACHE_OPS_UNCHANGED, None, s))
      | Some e \<Rightarrow>
          (if \<not> is_alive then (NMP_CACHE_OPS_REMOVED, None, snd (idxcache_update env (Some e) None False s))
           else if nmp_object_equal env (eval s e) (dval s obj_hand_over) then
             (let s = (if is_dump then idxcache_update_order_for_dump env e s else s)
              in (NMP_CACHE_OPS_UNCHANGED, None,
                  nm_dedup_multi_entry_set_dirty NMP_CACHE_ID_TYPE_OBJECT_TYPE (e_ptr e) False s))
           else
             (case idxcache_update env (Some e) (Some (obj_hand_over, room)) is_dump s of
                (entry_new, s) \<Rightarrow> (NMP_CACHE_OPS_UPDATED, entry_new, s))))"

definition nmp_cache_update_netlink_route ::
    "object_env \<Rightarrow> nat \<Rightarrow> cache_room \<Rightarrow> bool \<Rightarrow> u16 \<Rightarrow> bool \<Rightarrow> NMPCache
       \<Rightarrow> NMPCacheOpsType \<times> nat option \<times> nat option \<times> nat option \<times> bool \<times> NMPCache" where
  "nmp_cache_update_netlink_route env obj_hand_over room is_dump nlmsgflags route_is_alive s =
     (if nlmsgflags AND NLM_F_REPLACE \<noteq> 0
         \<and> \<not> (obj_type (dval s obj_hand_over) = NMP_OBJECT_TYPE_IP4_ROUTE
              \<and> nmp_cache_lookup_all env NMP_CACHE_ID_TYPE_ROUTES_BY_WEAK_ID obj_hand_over s = None)
      then (NMP_CACHE_OPS_UNCHANGED, None, None, None, True, s)
      else
        (let entry_old = nmp_cache_lookup_entry env obj_hand_over s;
             out_obj_old = map_option e_obj entry_old;
             s = (case out_obj_old of Some b \<Rightarrow> nm_dedup_multi_obj_ref b s | None \<Rightarrow> s);
             is_alive = (route_is_alive \<and> nmp_object_is_alive (dval s obj_hand_over));
             (ops_type, entry_new, s) = route_update env entry_old obj_hand_over room is_dump is_alive s;
             out_obj_new = map_option e_obj entry_new;
             s = (case out_obj_new of Some b \<Rightarrow> nm_dedup_multi_obj_ref b s | None \<Rightarrow> s);
             (entry_replace, resync_required, s) =
               (case entry_new of
                  Some e \<Rightarrow> if is_dump then (None, False, s) else route_weak_order env nlmsgflags e s
                | None \<Rightarrow> (None, False, s));
             out_obj_replace = map_option e_obj entry_replace;
             s = (case out_obj_replace of Some b \<Rightarrow> nm_dedup_multi_obj_ref b s | None \<Rightarrow> s)
         in (ops_type, out_obj_old, out_obj_new, out_obj_replace, resync_required, s)))"

section \<open>Looking up, marking and pruning a part of the cache\<close>

text \<open>
  A lookup has a type and a selector. The selector is on the stack of the caller and no object of the index, so it is
  given by its value; apart from that, this is \<^verbatim>\<open>nmp_cache_lookup_all\<close>. The result is the list of entries.
\<close>

type_synonym NMPLookup = "NMPCacheIdType \<times> NMPObject"

definition nmp_cache_lookup :: "NMPLookup \<Rightarrow> NMPCache \<Rightarrow> NMDedupMultiEntry list" where
  "nmp_cache_lookup lookup s =
     (case lookup of
        (cache_id_type, selector_obj) \<Rightarrow>
          (case find_index (\<lambda>h. idx_obj_part cache_id_type selector_obj (Some (eval s (hd (lst_entries h))))) (lst_idx_head s cache_id_type) of
             None \<Rightarrow> []
           | Some i \<Rightarrow> lst_entries (lst_idx_head s cache_id_type ! i)))"

text \<open>
  The loops visit the entries of a lookup. An entry keeps its object during the loop, so the loop is over the objects;
  \<^verbatim>\<open>nmp_cache_reresolve_main_entry\<close> finds the entry in the index type \<^verbatim>\<open>OBJECT_TYPE\<close>, where the dirty marks are.
\<close>

definition nmp_cache_reresolve_main_entry :: "object_env \<Rightarrow> nat \<Rightarrow> NMPCache \<Rightarrow> NMDedupMultiEntry" where
  "nmp_cache_reresolve_main_entry env obj s = the (nmp_cache_lookup_entry env obj s)"

definition dirty_set_main :: "object_env \<Rightarrow> nat \<Rightarrow> NMPCache \<Rightarrow> NMPCache" where
  "dirty_set_main env obj s =
     nm_dedup_multi_entry_set_dirty NMP_CACHE_ID_TYPE_OBJECT_TYPE (e_ptr (nmp_cache_reresolve_main_entry env obj s)) True s"

definition nmp_cache_dirty_set_all_main :: "object_env \<Rightarrow> NMPLookup \<Rightarrow> NMPCache \<Rightarrow> NMPCache" where
  "nmp_cache_dirty_set_all_main env lookup s = fold (dirty_set_main env) (map e_obj (nmp_cache_lookup lookup s)) s"

text \<open>
  Pruning removes what is still marked. It reports the objects, and before that the tentative IPv6 addresses, for
  which duplicate address detection failed.
\<close>

abbreviation (input) IFA_F_TENTATIVE :: u32 where "IFA_F_TENTATIVE \<equiv> 0x40"

datatype prune_event = DADFAILED_SET int in6_addr | CACHE_UPDATE_SIGNAL NMPCacheOpsType NMPObject

definition prune_events :: "NMPCacheOpsType \<Rightarrow> NMPObject \<Rightarrow> prune_event list" where
  "prune_events cache_op obj =
     (case obj of
        NMP_IP6_ADDRESS a \<Rightarrow> if ax_n_ifa_flags a AND IFA_F_TENTATIVE \<noteq> 0 then [DADFAILED_SET (ax_ifindex a) (a6_address a)] else []
      | _ \<Rightarrow> []) @ [CACHE_UPDATE_SIGNAL cache_op obj]"

fun cache_prune_loop :: "object_env \<Rightarrow> nat list \<Rightarrow> NMPCache \<Rightarrow> prune_event list \<times> NMPCache" where
  "cache_prune_loop env [] s = ([], s)"
| "cache_prune_loop env (a # as) s =
     (let main_entry = nmp_cache_reresolve_main_entry env a s;
          obj = e_obj main_entry
      in if \<not> e_dirty main_entry then cache_prune_loop env as s
         else
           (let (cache_op, obj_old, s1) = nmp_cache_remove env obj True True True s;
                s2 = (case obj_old of Some b \<Rightarrow> nm_dedup_multi_obj_unref b s1 | None \<Rightarrow> s1);
                (events, s3) = cache_prune_loop env as s2
            in (prune_events cache_op (dval s obj) @ events, s3)))"

definition cache_prune_one_type :: "object_env \<Rightarrow> NMPLookup \<Rightarrow> NMPCache \<Rightarrow> prune_event list \<times> NMPCache" where
  "cache_prune_one_type env lookup s = cache_prune_loop env (map e_obj (nmp_cache_lookup lookup s)) s"

text \<open>
  Receiving an object from netlink (\<^verbatim>\<open>event_valid_msg\<close> of \<^verbatim>\<open>nm-linux-platform.c\<close>, except for links and routes): the
  caller drops the references to the objects that it got.
\<close>

definition unref_out :: "nat option \<Rightarrow> NMPCache \<Rightarrow> NMPCache" where
  "unref_out out s = (case out of Some b \<Rightarrow> nm_dedup_multi_obj_unref b s | None \<Rightarrow> s)"

definition event_update_netlink :: "object_env \<Rightarrow> bool \<Rightarrow> nat \<times> cache_room \<Rightarrow> NMPCache \<Rightarrow> NMPCache" where
  "event_update_netlink env is_dump msg s =
     (case msg of
        (obj, room) \<Rightarrow>
          (case nmp_cache_update_netlink env obj room is_dump s of
             (cache_op, obj_old, obj_new, s) \<Rightarrow> unref_out obj_old (unref_out obj_new s)))"

end
