(* ===== verification/NM_Platform_Cache_Inv.thy ===== *)
theory NM_Platform_Cache_Inv
  imports NM_Platform_Cache
begin

text \<open>
  Why the platform cache keeps its index types in step. The functions of its class satisfy what the index asks for;
  an update of one further index type exchanges the object there; the invariant says that each of them has exactly the
  objects of the cache that it can partition.
\<close>

section \<open>Partitions of the cache\<close>

definition weak_equal :: "NMPObject \<Rightarrow> NMPObject \<Rightarrow> bool" where
  "weak_equal a b =
     (case (a, b) of
        (NMP_IP4_ROUTE a _, NMP_IP4_ROUTE b _) \<Rightarrow> nm_platform_ip4_route_cmp NM_PLATFORM_IP_ROUTE_CMP_TYPE_WEAK_ID a b = 0
      | (NMP_IP6_ROUTE a, NMP_IP6_ROUTE b) \<Rightarrow> nm_platform_ip6_route_cmp NM_PLATFORM_IP_ROUTE_CMP_TYPE_WEAK_ID a b = 0
      | (NMP_IP4_ROUTE _ _, _) \<Rightarrow> False
      | (NMP_IP6_ROUTE _, _) \<Rightarrow> False
      | (_, NMP_IP4_ROUTE _ _) \<Rightarrow> False
      | (_, NMP_IP6_ROUTE _) \<Rightarrow> False
      | _ \<Rightarrow> True)"

definition rule_family :: "NMPObject \<Rightarrow> nat" where
  "rule_family obj =
     (case obj of
        NMP_ROUTING_RULE r \<Rightarrow> if rr_addr_family r \<in> {NM_AF_INET, NM_AF_INET6} then rr_addr_family r else 0
      | _ \<Rightarrow> 0)"

definition part_key_equal :: "NMPCacheIdType \<Rightarrow> NMPObject \<Rightarrow> NMPObject \<Rightarrow> bool" where
  "part_key_equal t a b =
     (case t of
        NMP_CACHE_ID_TYPE_OBJECT_BY_IFINDEX \<Rightarrow> obj_with_ifindex a = obj_with_ifindex b
      | NMP_CACHE_ID_TYPE_ROUTES_BY_WEAK_ID \<Rightarrow> weak_equal a b
      | NMP_CACHE_ID_TYPE_OBJECT_BY_ADDR_FAMILY \<Rightarrow> rule_family a = rule_family b
      | _ \<Rightarrow> True)"

lemma idx_obj_part_iff:
  "idx_obj_part t a (Some b) \<longleftrightarrow> idx_obj_part t a None \<and> idx_obj_part t b None \<and> obj_type a = obj_type b \<and> part_key_equal t a b"
proof (cases t)
  case NMP_CACHE_ID_TYPE_ROUTES_BY_WEAK_ID
  then show ?thesis
    by (cases a; cases b)
      (auto simp: idx_obj_part_def part_key_equal_def weak_equal_def route_weak_id_equal_def obj_with_ifindex_def)
next
  case NMP_CACHE_ID_TYPE_OBJECT_BY_ADDR_FAMILY
  then show ?thesis by (cases a; cases b) (auto simp: idx_obj_part_def part_key_equal_def rule_family_def)
next
  case NMP_CACHE_ID_TYPE_OBJECT_BY_IFINDEX
  then show ?thesis by (auto simp: idx_obj_part_def part_key_equal_def Let_def)
next
  case NMP_CACHE_ID_TYPE_DEFAULT_ROUTES
  then show ?thesis by (auto simp: idx_obj_part_def part_key_equal_def Let_def)
qed (simp_all add: idx_obj_part_def part_key_equal_def)

lemma equivp_ip6_weak: "equivp (\<lambda>a b. nm_platform_ip6_route_cmp NM_PLATFORM_IP_ROUTE_CMP_TYPE_WEAK_ID a b = 0)"
  by (intro equivpI reflpI sympI transpI;
      simp add: nm_platform_ip6_route_cmp_def Let_def nm_cmp_memcmp_def same_prefix6_key;
      (elim conjE, simp)?)

lemma equivp_ip4_weak: "equivp (\<lambda>a b. nm_platform_ip4_route_cmp NM_PLATFORM_IP_ROUTE_CMP_TYPE_WEAK_ID a b = 0)"
  by (rule equivp_cmp) (rule ip4_route.compare_order_axioms)

lemma equivp_weak: "equivp weak_equal"
proof -
  note e = equivp_ip4_weak [THEN equivp_reflp] equivp_ip6_weak [THEN equivp_reflp]
    equivp_ip4_weak [THEN equivp_symp] equivp_ip6_weak [THEN equivp_symp]
    equivp_ip4_weak [THEN equivp_transp] equivp_ip6_weak [THEN equivp_transp]
  show ?thesis
    by (intro equivpI reflpI sympI transpI)
      (auto simp: weak_equal_def e(1,2) intro: e(3-6) split: NMPObject.splits)
qed

lemma equivp_part_key: "equivp (part_key_equal t)"
proof (cases t)
  case NMP_CACHE_ID_TYPE_ROUTES_BY_WEAK_ID
  then have "part_key_equal t = weak_equal" by (intro ext) (simp add: part_key_equal_def)
  then show ?thesis using equivp_weak by simp
qed (intro equivpI reflpI sympI transpI; simp add: part_key_equal_def)+

text \<open>Objects that are equal in full have the same key and are alive together.\<close>

lemma route_id_weak4:
  "nm_platform_ip4_route_cmp NM_PLATFORM_IP_ROUTE_CMP_TYPE_ID a b = 0 \<Longrightarrow>
     nm_platform_ip4_route_cmp NM_PLATFORM_IP_ROUTE_CMP_TYPE_WEAK_ID a b = 0"
  by (simp only: nm_platform_ip4_route_cmp_def Let_def insert_iff empty_iff NMPlatformIPRouteCmpType.distinct simp_thms if_True if_False
      nm_cmp_chain_eq_0 set_append ball_Un) (elim conjE, intro conjI, assumption, simp only: list.set ball_empty)

lemma route_id_weak6:
  "nm_platform_ip6_route_cmp NM_PLATFORM_IP_ROUTE_CMP_TYPE_ID a b = 0 \<Longrightarrow>
     nm_platform_ip6_route_cmp NM_PLATFORM_IP_ROUTE_CMP_TYPE_WEAK_ID a b = 0"
  by (simp only: nm_platform_ip6_route_cmp_def Let_def insert_iff empty_iff NMPlatformIPRouteCmpType.distinct simp_thms if_True if_False
      nm_cmp_chain_eq_0 set_append ball_Un) (elim conjE, intro conjI, assumption, simp only: list.set ball_empty)

lemma id_weak_equal:
  assumes "nmp_object_id_equal env a b"
  shows "weak_equal a b"
proof -
  obtain support ptr hash where env: "env = (support, ptr, hash)" by (cases env)
  have eq: "nmp_object_cmp_full env True a b = 0" using assms by (simp add: nmp_object_id_equal_def)
  show ?thesis
    using obj_cmp_type [OF eq] eq unfolding env
    by (cases a; cases b)
      (simp_all add: nmp_object_cmp_full_def weak_equal_def vt_cmd_obj_cmp_ip4_route_def route_id_weak4 route_id_weak6)
qed

lemma rule_equal_family:
  assumes "nm_platform_routing_rule_cmp support ptr NM_PLATFORM_ROUTING_RULE_CMP_TYPE_FULL x y = 0"
  shows "rr_valid x = rr_valid y" and "rr_valid x \<Longrightarrow> rr_addr_family x = rr_addr_family y"
proof -
  let ?t = NM_PLATFORM_ROUTING_RULE_CMP_TYPE_FULL
  show "rr_valid x = rr_valid y" using assms by (simp add: nm_platform_routing_rule_cmp_def)
  assume "rr_valid x"
  then have "nm_cmp_direct (rr_addr_family x) (rr_addr_family y) = 0"
    using assms unfolding nm_platform_routing_rule_cmp_def nm_cmp_chain_eq_0 Let_def by fastforce
  then show "rr_addr_family x = rr_addr_family y" by simp
qed

lemma object_equal_keys:
  assumes "nmp_object_equal env a b"
  shows "obj_type a = obj_type b \<and> obj_with_ifindex a = obj_with_ifindex b \<and> rule_family a = rule_family b
    \<and> nmp_object_is_alive a = nmp_object_is_alive b \<and> NM_PLATFORM_IP_ROUTE_IS_DEFAULT a = NM_PLATFORM_IP_ROUTE_IS_DEFAULT b"
proof -
  note d = nmp_object_cmp_full_def obj_with_ifindex_def rule_family_def nmp_object_is_alive_def NM_PLATFORM_IP_ROUTE_IS_DEFAULT_def
  obtain support ptr hash where env: "env = (support, ptr, hash)" by (cases env)
  have eq: "nmp_object_cmp_full env False a b = 0" using assms by (simp add: nmp_object_equal_def)
  show ?thesis
    using obj_cmp_type [OF eq] eq unfolding env
    by (cases a; cases b)
      (simp_all add: d vt_cmd_obj_cmp_ip4_route_def nm_platform_ip4_route_cmp_def nm_platform_ip6_route_cmp_def
        nm_platform_ip4_address_cmp_def nm_platform_ip6_address_cmp_def nm_platform_qdisc_cmp_def
        nm_platform_tfilter_cmp_def nm_platform_mptcp_addr_cmp_def Let_def, auto simp: rr_valid_def dest: rule_equal_family)
qed

lemma cache_class_sel [simp]:
  "idx_obj_id_equal (cache_class env) t = nmp_object_id_equal env" "idx_obj_partitionable (cache_class env) t v = idx_obj_part t v None"
  "obj_full_equal (cache_class env) = nmp_object_equal env"
  "same_part (cache_class env) t v w = idx_obj_part t v (Some w)"
  by (simp_all add: cache_class_def same_part_def)

lemma object_equal_part:
  assumes "nmp_object_equal env a b"
  shows "idx_obj_part t a None = idx_obj_part t b None \<and> part_key_equal t a b"
proof -
  note k = object_equal_keys [OF assms] and w = id_weak_equal [OF oid.full_id [OF assms]]
  have ip: "the (obj_with_ifindex a) = the (obj_with_ifindex b)" using k by simp
  have fam: "idx_obj_part NMP_CACHE_ID_TYPE_OBJECT_BY_ADDR_FAMILY x None \<longleftrightarrow> rule_family x \<noteq> 0" for x
    by (cases x) (simp_all add: idx_obj_part_def rule_family_def)
  show ?thesis
  proof (cases t)
    case NMP_CACHE_ID_TYPE_OBJECT_BY_ADDR_FAMILY
    then show ?thesis using k by (simp add: fam part_key_equal_def)
  qed (use k w in \<open>simp_all add: idx_obj_part_def part_key_equal_def nmp_object_is_visible_def Let_def\<close>)
qed

lemma cache_class_ok: "dedup_class_ok (cache_class env)"
proof -
  note key = equivp_part_key [THEN equivp_reflp] equivp_part_key [THEN equivp_symp] equivp_part_key [THEN equivp_transp]
  have "symp (same_part (cache_class env) t)" for t
    by (rule sympI) (simp add: idx_obj_part_iff key(2))
  moreover have "transp (same_part (cache_class env) t)" for t
    by (rule transpI) (simp add: idx_obj_part_iff, blast intro: key(3))
  moreover have "idx_obj_part t v None = idx_obj_part t v (Some v)" for t v by (simp add: idx_obj_part_iff key(1))
  moreover have "idx_obj_part t v (Some v) \<longrightarrow> idx_obj_part t v (Some w)" if "nmp_object_equal env v w" for t v w
    using object_equal_part [OF that, of t] object_equal_keys [OF that] by (simp add: idx_obj_part_iff)
  ultimately show ?thesis
    unfolding dedup_class_ok_def using oid.id_equivp oid.full_equivp oid.full_id by simp
qed

text \<open>
  The hash of an entry agrees with the equality of entries: objects of the same partition and identity feed in the same
  values. So the table of the entries finds what a search by equality finds.
\<close>

lemma entry_hash_agrees:
  assumes ok: "object_ok a" "object_ok b" and same: "same_ident (cache_class env) t a b"
  shows "idx_obj_part_hash t a = idx_obj_part_hash t b"
    and "nmp_object_hash_update_full env True a = nmp_object_hash_update_full env True b"
proof -
  have p: "idx_obj_part t a (Some b)" "idx_obj_part t a None" "idx_obj_part t b None"
    using same same_part_refl [OF cache_class_ok] same_part_sym [OF cache_class_ok, of env t a b] partitionable_iff [OF cache_class_ok]
    by (auto simp: same_ident_def)
  then show "idx_obj_part_hash t a = idx_obj_part_hash t b"
    using ok by (cases t) (auto simp: idx_obj_part_hash_def idx_obj_part_def route_weak_id_equal_def object_ok_def Let_def
        dest: ip4_hash_agrees ip6_hash_agrees split: if_splits NMPObject.splits)
  show "nmp_object_hash_update_full env True a = nmp_object_hash_update_full env True b"
    using object_id_hash_agrees [OF ok] same by (simp add: same_ident_def)
qed

text \<open>An index type has only objects that it can partition, each once; equal identity implies equal type.\<close>

abbreviation objs :: "('t, 'v) NMDedupMultiIndex \<Rightarrow> 't \<Rightarrow> nat set" where
  "objs s t \<equiv> e_obj ` set (entries s t)"

lemma entry_obj_unique:
  assumes c: "dedup_class_ok c" and inv: "dedup_inv c ext s" and e: "e \<in> set (entries s t)" "x \<in> set (entries s t)" "e_obj x = e_obj e"
  shows "x = e"
  using dedup_inv_unique [OF c inv e(2,1)] dedup_inv_partitionable [OF inv e(1)] obj_id_refl [OF c] e(3)
  by (simp add: same_ident_def)

lemma objs_without:
  assumes c: "dedup_class_ok c" and inv: "dedup_inv c ext s" and e: "e \<in> set (entries s t)"
  shows "e_obj ` (set (entries s t) - {e}) = objs s t - {e_obj e}"
proof -
  have "e_obj x \<noteq> e_obj e" if "x \<in> set (entries s t) - {e}" for x using entry_obj_unique [OF c inv e, of x] that by auto
  then show ?thesis by auto
qed

lemma keeps_frame: "dedup_keeps t s s' \<Longrightarrow> dedup_frame t s s'"
  by (simp add: dedup_keeps_def dedup_frame_def)

lemma remove_entry_set:
  assumes c: "dedup_class_ok c" and inv: "dedup_inv c ext s" and e: "e \<in> set (entries s t)"
  shows "dedup_inv c ext (snd (nm_dedup_multi_index_remove_entry t (Entry (e_ptr e)) s))
    \<and> dedup_keeps t s (snd (nm_dedup_multi_index_remove_entry t (Entry (e_ptr e)) s))
    \<and> set (entries (snd (nm_dedup_multi_index_remove_entry t (Entry (e_ptr e)) s)) t) = set (entries s t) - {e}"
proof -
  obtain i where i: "entry_head t (e_ptr e) s = Some i" using entry_head_mem [OF c inv e] by blast
  obtain r s' where eq: "remove_entry t (e_ptr e) s = (r, s')" by fastforce
  have "set (unlink_entry (e_ptr e) (entries s t)) = set (entries s t) - {e}"
    using dedup_inv_unique [OF c inv _ e] by (auto simp: unlink_entry_def)
  then show ?thesis using remove_entry_correct [OF c inv e i eq] by (simp add: nm_dedup_multi_index_remove_entry_def eq)
qed

lemma index_objects:
  assumes inv: "dedup_inv c ext s"
  shows "e \<in> set (entries s t) \<Longrightarrow> e_obj e \<in> set (idx_objs s)"
    and "a \<in> set (idx_objs s) \<Longrightarrow> b \<in> set (idx_objs s) \<Longrightarrow> intern_equal c (dval s a) (dval s b) \<Longrightarrow> a = b"
    and "a \<in> set (idx_objs s) \<Longrightarrow> o_multi_idx (dm_mem s a) = Some (dm_self s) \<and> o_ref_count (dm_mem s a) > 0"
proof -
  have ok: "dobjs_ok c (\<lambda>a. entry_refs s a + ext a) s" using inv by (simp add: dedup_inv_def)
  show "e \<in> set (entries s t) \<Longrightarrow> e_obj e \<in> set (idx_objs s)" using inv by (simp add: dedup_inv_def)
  show "a \<in> set (idx_objs s) \<Longrightarrow> b \<in> set (idx_objs s) \<Longrightarrow> intern_equal c (dval s a) (dval s b) \<Longrightarrow> a = b"
    using ok by (simp add: dobjs_ok_def)
  show "a \<in> set (idx_objs s) \<Longrightarrow> o_multi_idx (dm_mem s a) = Some (dm_self s) \<and> o_ref_count (dm_mem s a) > 0"
    using ok dobjs_ok_live [OF ok, of a] by (simp add: dobjs_ok_def)
qed

lemma held_object_live: "dedup_inv c ext s \<Longrightarrow> ext a > 0 \<Longrightarrow> o_ref_count (dm_mem s a) > 0"
  unfolding dedup_inv_def dobjs_ok_def by (metis add_is_0 not_gr_zero)

section \<open>One further index type\<close>

text \<open>
  When another index type is updated, the new object is in the main one and differs from the old one, and only the old
  object may have the same identity. Somebody holds a reference to the old object.
\<close>

definition other_ready ::
    "object_env \<Rightarrow> (nat \<Rightarrow> nat) \<Rightarrow> nat option \<Rightarrow> (nat \<times> cache_room) option \<Rightarrow> NMPCache \<Rightarrow> NMPCacheIdType \<Rightarrow> bool" where
  "other_ready env ext obj_old obj_new s t \<longleftrightarrow>
     t \<noteq> NMP_CACHE_ID_TYPE_OBJECT_TYPE \<and> t \<in> set (dm_types s)
     \<and> (\<forall>b. obj_old = Some b \<longrightarrow> ext b > 0
          \<and> (\<forall>x \<in> set (entries s t). nmp_object_id_equal env (dval s b) (eval s x) \<longrightarrow> e_obj x = b))
     \<and> (\<forall>n fo fe. obj_new = Some (n, fo, fe) \<longrightarrow> n \<in> objs s NMP_CACHE_ID_TYPE_OBJECT_TYPE
          \<and> (\<forall>x \<in> set (entries s t). e_ptr x \<noteq> fe t)
          \<and> (\<forall>x \<in> set (entries s t). nmp_object_id_equal env (dval s n) (eval s x) \<longrightarrow> obj_old = Some (e_obj x))
          \<and> (\<forall>b. obj_old = Some b \<longrightarrow> \<not> nmp_object_equal env (dval s n) (dval s b)))"

definition exchanged :: "nat option \<Rightarrow> (nat \<times> cache_room) option \<Rightarrow> NMPCacheIdType \<Rightarrow> NMPCache \<Rightarrow> nat set" where
  "exchanged obj_old obj_new t s =
     {x \<in> objs s t. obj_old \<noteq> Some x} \<union> {n. (\<exists>room. obj_new = Some (n, room)) \<and> idx_obj_part t (dval s n) None}"

lemma other_lookup_old:
  assumes inv: "dedup_inv (cache_class env) ext s" and ready: "other_ready env ext (Some b) obj_new s t"
  shows "case nm_dedup_multi_index_lookup_obj (cache_class env) t b s of
      Some e \<Rightarrow> e \<in> set (entries s t) \<and> e_obj e = b | None \<Rightarrow> b \<notin> objs s t"
proof (cases "nm_dedup_multi_index_lookup_obj (cache_class env) t b s")
  case None
  then have "\<not> same_ident (cache_class env) t (dval s b) (eval s x)" if "x \<in> set (entries s t)" for x
    using entry_lookup_obj_None [OF cache_class_ok inv] that by (simp add: nm_dedup_multi_index_lookup_obj_def)
  then have "b \<notin> objs s t"
    using dedup_inv_partitionable [OF inv] obj_id_refl [OF cache_class_ok] by (fastforce simp: same_ident_def)
  then show ?thesis using None by simp
next
  case (Some e)
  then have "e \<in> set (entries s t)" "nmp_object_id_equal env (dval s b) (eval s e)"
    using entry_lookup_obj_Some [OF cache_class_ok inv] by (auto simp: nm_dedup_multi_index_lookup_obj_def same_ident_def)
  then show ?thesis using ready Some by (simp add: other_ready_def)
qed

lemma other_remove:
  assumes inv: "dedup_inv (cache_class env) ext s" and ready: "other_ready env ext (Some b) None s t"
    and s': "s' = idxcache_update_other_cache_ids env (Some b) None is_dump t s"
  shows "dedup_inv (cache_class env) ext s' \<and> dedup_frame t s s' \<and> objs s' t = exchanged (Some b) None t s"
proof -
  have ex: "exchanged (Some b) None t s = objs s t - {b}" by (auto simp: exchanged_def)
  show ?thesis
  proof (cases "nm_dedup_multi_index_lookup_obj (cache_class env) t b s")
    case None
    then show ?thesis using other_lookup_old [OF inv ready] inv unfolding ex
      by (simp add: s' idxcache_update_other_cache_ids_def dedup_frame_def)
  next
    case (Some e)
    then have e: "e \<in> set (entries s t)" "e_obj e = b" using other_lookup_old [OF inv ready] by simp_all
    have s': "s' = snd (nm_dedup_multi_index_remove_entry t (Entry (e_ptr e)) s)"
      using Some by (simp add: s' idxcache_update_other_cache_ids_def)
    note r = remove_entry_set [OF cache_class_ok inv e(1), folded s']
    have "objs s' t = objs s t - {b}" using r objs_without [OF cache_class_ok inv e(1)] e(2) by simp
    then show ?thesis using r unfolding ex by (blast intro: keeps_frame)
  qed
qed

text \<open>The entry of the new object after it was added, and what is left of the old one.\<close>

lemma other_drop_old:
  assumes inv: "dedup_inv (cache_class env) ext s1" and e: "e \<in> set (entries s1 t)" and s': "s' = snd (nm_dedup_multi_index_remove_entry t (Entry (e_ptr e)) s1)"
    and fr: "dedup_frame t s s1"
  shows "dedup_inv (cache_class env) ext s' \<and> dedup_frame t s s' \<and> objs s' t = objs s1 t - {e_obj e}"
  using remove_entry_set [OF cache_class_ok inv e, folded s'] objs_without [OF cache_class_ok inv e] fr
  by (auto simp: dedup_keeps_def dedup_frame_def)

lemma other_add:
  assumes inv: "dedup_inv (cache_class env) ext s" and ready: "other_ready env ext obj_old (Some (n, fo, fe)) s t"
    and s': "s' = idxcache_update_other_cache_ids env obj_old (Some (n, fo, fe)) is_dump t s"
  shows "dedup_inv (cache_class env) ext s' \<and> dedup_frame t s s' \<and> objs s' t = exchanged obj_old (Some (n, fo, fe)) t s"
proof -
  let ?c = "cache_class env" and ?T = NMP_CACHE_ID_TYPE_OBJECT_TYPE
  note c = cache_class_ok [of env]
  define entry_old where "entry_old = (case obj_old of Some b \<Rightarrow> nm_dedup_multi_index_lookup_obj ?c t b s | None \<Rightarrow> None)"
  have old: "case entry_old of Some e \<Rightarrow> e \<in> set (entries s t) \<and> obj_old = Some (e_obj e) | None \<Rightarrow> (\<forall>b. obj_old = Some b \<longrightarrow> b \<notin> objs s t)"
  proof (cases obj_old)
    case (Some b)
    then show ?thesis using other_lookup_old [OF inv ready [unfolded Some]] by (auto simp: entry_old_def split: option.splits)
  qed (simp add: entry_old_def)
  have t: "t \<noteq> ?T" "t \<in> set (dm_types s)" and n: "n \<in> objs s ?T" and fe: "\<And>x. x \<in> set (entries s t) \<Longrightarrow> e_ptr x \<noteq> fe t"
    and uniq: "\<And>x. x \<in> set (entries s t) \<Longrightarrow> nmp_object_id_equal env (dval s n) (eval s x) \<Longrightarrow> obj_old = Some (e_obj x)"
    and differ: "\<And>b. obj_old = Some b \<Longrightarrow> \<not> nmp_object_equal env (dval s n) (dval s b)"
    using ready by (auto simp: other_ready_def)
  have ne: "obj_old \<noteq> Some n" using differ [of n] by auto
  have ni: "n \<in> set (idx_objs s)" using n index_objects(1) [OF inv] by blast
  obtain mode order where add: "s' = (case nm_dedup_multi_index_add_full ?c fo (fe t) t n mode order False s of
      (_, en, _, s1) \<Rightarrow> (case entry_old of Some e \<Rightarrow>
        if en \<noteq> Some (e_ptr e) then snd (nm_dedup_multi_index_remove_entry t (Entry (e_ptr e)) s1) else s1 | None \<Rightarrow> s1))"
    unfolding s' idxcache_update_other_cache_ids_def Let_def entry_old_def by simp
  obtain ch en old' s1 where r: "nm_dedup_multi_index_add_full ?c fo (fe t) t n mode order False s = (ch, en, old', s1)"
    by (metis prod_cases4)
  have s'1: "s' = (case entry_old of Some e \<Rightarrow>
        if en \<noteq> Some (e_ptr e) then snd (nm_dedup_multi_index_remove_entry t (Entry (e_ptr e)) s1) else s1 | None \<Rightarrow> s1)"
    using add r by simp
  show ?thesis
  proof (cases "idx_obj_part t (dval s n) None")
    case False
    then have r1: "en = None" "s1 = s" using add_full_not_partitionable [OF c inv, of t n fo "fe t" mode order False] r by auto
    have ex: "exchanged obj_old (Some (n, fo, fe)) t s = {x \<in> objs s t. obj_old \<noteq> Some x}" using False by (auto simp: exchanged_def)
    show ?thesis
    proof (cases entry_old)
      case None
      then show ?thesis using old inv s'1 r1 unfolding ex by (auto simp: dedup_frame_def)
    next
      case (Some e)
      then have e: "e \<in> set (entries s t)" "obj_old = Some (e_obj e)" using old by simp_all
      have rm: "s' = snd (nm_dedup_multi_index_remove_entry t (Entry (e_ptr e)) s)" using s'1 r1 Some by simp
      have fr: "dedup_frame t s s" by (simp add: dedup_frame_def)
      have "exchanged obj_old (Some (n, fo, fe)) t s = objs s t - {e_obj e}" unfolding ex using e(2) by blast
      then show ?thesis using other_drop_old [OF inv e(1) rm fr] by simp
    qed
  next
    case True
    have old': "old' = None" using r by (auto simp: nm_dedup_multi_index_add_full_def add_existing_def add_new_def Let_def split: option.splits prod.splits if_splits)
    have a: "dedup_inv ?c ext s1" "dedup_frame t s s1"
      and "\<exists>e'. en = Some (e_ptr e') \<and> \<not> e_dirty e'
        \<and> e_ptr e' = (case entry_lookup_obj ?c t n s of Some x \<Rightarrow> e_ptr x | None \<Rightarrow> fe t) \<and> obj_full_equal ?c (dval s n) (eval s1 e')
        \<and> (intern_equal ?c (dval s n) (eval s1 e')
             \<or> (\<exists>x. entry_lookup_obj ?c t n s = Some x \<and> e_obj e' = e_obj x \<and> obj_full_equal ?c (dval s n) (eval s x)))
        \<and> set (entries s1 t) = insert e' {x \<in> set (entries s t). \<not> same_ident ?c t (dval s n) (eval s x)}"
      using add_full_interned [OF c inv t(2) fe _ _ _ r] index_objects(3) [OF inv ni] True old' by (simp_all add: take_ref_def)
    then obtain e' where e': "en = Some (e_ptr e')"
      "e_ptr e' = (case entry_lookup_obj ?c t n s of Some x \<Rightarrow> e_ptr x | None \<Rightarrow> fe t)"
      "intern_equal ?c (dval s n) (eval s1 e')
        \<or> (\<exists>x. entry_lookup_obj ?c t n s = Some x \<and> e_obj e' = e_obj x \<and> nmp_object_equal env (dval s n) (eval s x))"
      "set (entries s1 t) = insert e' {x \<in> set (entries s t). \<not> same_ident ?c t (dval s n) (eval s x)}" by auto
    have int: "intern_equal ?c (dval s n) (eval s1 e')"
    proof (rule ccontr)
      assume "\<not> intern_equal ?c (dval s n) (eval s1 e')"
      then obtain x where x: "entry_lookup_obj ?c t n s = Some x" "nmp_object_equal env (dval s n) (eval s x)" using e'(3) by blast
      then have "x \<in> set (entries s t)" "nmp_object_id_equal env (dval s n) (eval s x)"
        using entry_lookup_obj_Some [OF c inv] by (auto simp: same_ident_def)
      then show False using uniq differ x(2) by blast
    qed
    have live: "dval s1 n = dval s n" using a(2) index_objects(3) [OF inv ni] by (simp add: dedup_frame_def)
    have "n \<in> objs s1 ?T" using n a(2) t(1) dedup_entries_cong [of s1 ?T s] by (simp add: dedup_frame_def)
    then have "n \<in> set (idx_objs s1)" "e_obj e' \<in> set (idx_objs s1)" using index_objects(1) [OF a(1)] e'(4) by blast+
    then have en: "e_obj e' = n" using index_objects(2) [OF a(1), of n "e_obj e'"] int live by simp
    have ex: "exchanged obj_old (Some (n, fo, fe)) t s = insert n {x \<in> objs s t. obj_old \<noteq> Some x}" using True by (auto simp: exchanged_def)
    show ?thesis
    proof (cases "entry_lookup_obj ?c t n s")
      case None
      then have all: "set (entries s1 t) = insert e' (set (entries s t))"
        using e'(4) entry_lookup_obj_None [OF c inv] by auto
      show ?thesis
      proof (cases entry_old)
        case None
        then show ?thesis using old a s'1 all en unfolding ex by auto
      next
        case (Some e)
        then have e: "e \<in> set (entries s t)" "obj_old = Some (e_obj e)" using old by simp_all
        have "e_ptr e' \<noteq> e_ptr e" using e'(2) None fe [OF e(1)] by simp
        then have s'2: "s' = snd (nm_dedup_multi_index_remove_entry t (Entry (e_ptr e)) s1)" using s'1 e'(1) Some by simp
        have e1: "e \<in> set (entries s1 t)" using all e(1) by simp
        have "objs s1 t = insert n (objs s t)" unfolding all using en by simp
        moreover have "insert n (objs s t) - {e_obj e} = insert n {x \<in> objs s t. obj_old \<noteq> Some x}" using e(2) ne by blast
        ultimately show ?thesis using other_drop_old [OF a(1) e1 s'2 a(2)] unfolding ex by simp
      qed
    next
      case (Some x)
      then have x: "x \<in> set (entries s t)" "same_ident ?c t (dval s n) (eval s x)" using entry_lookup_obj_Some [OF c inv] by auto
      have ox: "obj_old = Some (e_obj x)" using uniq x by (simp add: same_ident_def)
      have "entry_old = Some x"
      proof (cases entry_old)
        case None
        then show ?thesis using old ox x(1) by simp
      next
        case (Some y)
        then show ?thesis using old ox entry_obj_unique [OF c inv x(1), of y] by simp
      qed
      then have s's1: "s' = s1" using s'1 e'(1,2) Some by simp
      have "same_ident ?c t (dval s n) (eval s y) \<longleftrightarrow> e_obj y = e_obj x" if "y \<in> set (entries s t)" for y
      proof
        show "same_ident ?c t (dval s n) (eval s y) \<Longrightarrow> e_obj y = e_obj x" using uniq [OF that] ox by (simp add: same_ident_def)
        show "e_obj y = e_obj x \<Longrightarrow> same_ident ?c t (dval s n) (eval s y)" using x(2) by simp
      qed
      then have "{y \<in> set (entries s t). \<not> same_ident ?c t (dval s n) (eval s y)} = {y \<in> set (entries s t). e_obj y \<noteq> e_obj x}" by blast
      then have "objs s1 t = insert n (e_obj ` {y \<in> set (entries s t). e_obj y \<noteq> e_obj x})" unfolding e'(4) using en by simp
      moreover have "e_obj ` {y \<in> set (entries s t). e_obj y \<noteq> e_obj x} = {y \<in> objs s t. obj_old \<noteq> Some y}"
        unfolding ox by auto
      ultimately show ?thesis using a unfolding s's1 ex by simp
    qed
  qed
qed

lemma other_update:
  assumes inv: "dedup_inv (cache_class env) ext s" and ready: "other_ready env ext obj_old obj_new s t" and some: "obj_old \<noteq> None \<or> obj_new \<noteq> None"
    and s': "s' = idxcache_update_other_cache_ids env obj_old obj_new is_dump t s"
  shows "dedup_inv (cache_class env) ext s' \<and> dedup_frame t s s' \<and> objs s' t = exchanged obj_old obj_new t s"
proof (cases obj_new)
  case None
  then obtain b where "obj_old = Some b" using some by auto
  then show ?thesis using other_remove [OF inv, of b t s' is_dump] ready s' None by simp
next
  case (Some x)
  then obtain n fo fe where "obj_new = Some (n, fo, fe)" by (cases x) auto
  then show ?thesis using other_add [OF inv, of obj_old n fo fe t s' is_dump] ready s' by simp
qed

section \<open>All further index types\<close>

definition known :: "(nat \<Rightarrow> nat) \<Rightarrow> NMPCache \<Rightarrow> nat set" where
  "known ext s = {a. ext a > 0} \<union> objs s NMP_CACHE_ID_TYPE_OBJECT_TYPE"

lemma known_live: "dedup_inv c ext s \<Longrightarrow> a \<in> known ext s \<Longrightarrow> o_ref_count (dm_mem s a) > 0"
  using dedup_inv_live [of c ext s] held_object_live [of c ext s] by (auto simp: known_def)

lemma other_ready_frame:
  assumes inv: "dedup_inv c ext s" and fr: "dedup_frame t s s1" and t: "t \<noteq> NMP_CACHE_ID_TYPE_OBJECT_TYPE" "t' \<noteq> t"
    and ready: "other_ready env ext obj_old obj_new s t'"
  shows "other_ready env ext obj_old obj_new s1 t' \<and> exchanged obj_old obj_new t' s1 = exchanged obj_old obj_new t' s"
proof -
  let ?T = NMP_CACHE_ID_TYPE_OBJECT_TYPE
  have ent: "entries s1 t' = entries s t'" "entries s1 ?T = entries s ?T" and ty: "dm_types s1 = dm_types s"
    using fr t dedup_entries_cong [of s1 _ s] by (simp_all add: dedup_frame_def)
  have val: "dval s1 a = dval s a" if "o_ref_count (dm_mem s a) > 0" for a using fr that by (simp add: dedup_frame_def)
  have x: "eval s1 x = eval s x" if "x \<in> set (entries s t')" for x using val dedup_inv_live [OF inv that] .
  have b: "dval s1 b = dval s b" if "obj_old = Some b" for b
    using ready that held_object_live [OF inv] by (intro val) (simp add: other_ready_def)
  have n: "dval s1 n = dval s n" if "obj_new = Some (n, fo, fe)" for n fo fe
    using ready that known_live [OF inv, of n] by (intro val) (simp add: other_ready_def known_def)
  have "exchanged obj_old obj_new t' s1 = exchanged obj_old obj_new t' s"
    unfolding exchanged_def ent using n by auto
  moreover have "other_ready env ext obj_old obj_new s1 t'"
    unfolding other_ready_def ent ty
  proof (intro conjI allI impI ballI)
    fix b x assume b': "obj_old = Some b" and x': "x \<in> set (entries s t')" and eq: "nmp_object_id_equal env (dval s1 b) (eval s1 x)"
    show "e_obj x = b" using ready b' x' eq x [OF x'] b [OF b'] by (simp add: other_ready_def)
  next
    fix n fo fe x assume n': "obj_new = Some (n, fo, fe)" and x': "x \<in> set (entries s t')" and eq: "nmp_object_id_equal env (dval s1 n) (eval s1 x)"
    show "obj_old = Some (e_obj x)" using ready n' x' eq x [OF x'] n [OF n'] by (simp add: other_ready_def)
  next
    fix n fo fe b assume n': "obj_new = Some (n, fo, fe)" and b': "obj_old = Some b"
    show "\<not> nmp_object_equal env (dval s1 n) (dval s1 b)" using ready n' b' n [OF n'] b [OF b'] by (simp add: other_ready_def)
  qed (use ready in \<open>simp_all add: other_ready_def\<close>)
  ultimately show ?thesis by simp
qed

lemma other_updates:
  fixes env and is_dump
  defines "f \<equiv> \<lambda>obj_old obj_new. idxcache_update_other_cache_ids env obj_old obj_new is_dump"
  assumes some: "obj_old \<noteq> None \<or> obj_new \<noteq> None"
  shows "\<lbrakk>distinct ts; dedup_inv (cache_class env) ext s; \<forall>t \<in> set ts. other_ready env ext obj_old obj_new s t\<rbrakk> \<Longrightarrow>
    dedup_inv (cache_class env) ext (fold (f obj_old obj_new) ts s)
    \<and> dm_types (fold (f obj_old obj_new) ts s) = dm_types s
    \<and> (\<forall>t. t \<notin> set ts \<longrightarrow> lst_idx_head (fold (f obj_old obj_new) ts s) t = lst_idx_head s t)
    \<and> (\<forall>t \<in> set ts. objs (fold (f obj_old obj_new) ts s) t = exchanged obj_old obj_new t s)
    \<and> (\<forall>a \<in> known ext s. dval (fold (f obj_old obj_new) ts s) a = dval s a)"
proof (induction ts arbitrary: s)
  case (Cons t ts)
  define s1 where "s1 = f obj_old obj_new t s"
  have u: "dedup_inv (cache_class env) ext s1" "dedup_frame t s s1" "objs s1 t = exchanged obj_old obj_new t s"
    using other_update [OF Cons.prems(2) _ some, of t s1 is_dump] Cons.prems(3) by (simp_all add: s1_def f_def)
  have t: "t \<noteq> NMP_CACHE_ID_TYPE_OBJECT_TYPE" using Cons.prems(3) by (simp add: other_ready_def)
  have r: "\<forall>t' \<in> set ts. other_ready env ext obj_old obj_new s1 t' \<and> exchanged obj_old obj_new t' s1 = exchanged obj_old obj_new t' s"
  proof
    fix t' assume t': "t' \<in> set ts"
    then have "t' \<noteq> t" "other_ready env ext obj_old obj_new s t'" using Cons.prems(1,3) by auto
    then show "other_ready env ext obj_old obj_new s1 t' \<and> exchanged obj_old obj_new t' s1 = exchanged obj_old obj_new t' s"
      by (rule other_ready_frame [OF Cons.prems(2) u(2) t])
  qed
  have k: "known ext s1 = known ext s"
    using u(2) t dedup_entries_cong [of s1 NMP_CACHE_ID_TYPE_OBJECT_TYPE s] by (simp add: known_def dedup_frame_def)
  have v: "\<forall>a \<in> known ext s. dval s1 a = dval s a" using u(2) known_live [OF Cons.prems(2)] by (simp add: dedup_frame_def)
  have h: "dm_types s1 = dm_types s" "\<And>t'. t' \<noteq> t \<Longrightarrow> lst_idx_head s1 t' = lst_idx_head s t'" using u(2) by (simp_all add: dedup_frame_def)
  note IH = Cons.IH [of s1] u(1) r Cons.prems(1)
  have "t \<notin> set ts" using Cons.prems(1) by simp
  then have "entries (fold (f obj_old obj_new) ts s1) t = entries s1 t" using IH by (intro dedup_entries_cong) simp
  then show ?case using IH u(3) k v h by (simp add: s1_def)
qed simp

end
