(* ===== verification/NM_Platform_Cache_Update.thy ===== *)
theory NM_Platform_Cache_Update
  imports NM_Platform_Cache_Inv
begin

text \<open>
  What the operations of the platform cache do: the objects of the cache change as the operation says, and every
  further index type keeps exactly the objects that it can partition.
\<close>

section \<open>The invariant of the cache\<close>

abbreviation (input) MAIN :: NMPCacheIdType where "MAIN \<equiv> NMP_CACHE_ID_TYPE_OBJECT_TYPE"

definition cache_inv :: "object_env \<Rightarrow> (nat \<Rightarrow> nat) \<Rightarrow> NMPCache \<Rightarrow> bool" where
  "cache_inv env ext s \<longleftrightarrow>
     dedup_inv (cache_class env) ext s \<and> set (dm_types s) = UNIV
     \<and> (\<forall>a \<in> objs s MAIN. nmp_object_is_alive (dval s a))
     \<and> (\<forall>t. t \<noteq> MAIN \<longrightarrow> objs s t = {a \<in> objs s MAIN. idx_obj_part t (dval s a) None})"

lemma cache_dedup_inv: "cache_inv env ext s \<Longrightarrow> dedup_inv (cache_class env) ext s"
  by (simp add: cache_inv_def)

lemma cache_alive: "cache_inv env ext s \<Longrightarrow> a \<in> objs s MAIN \<Longrightarrow> nmp_object_is_alive (dval s a)"
  by (auto simp: cache_inv_def)

lemma cache_id_type: "nmp_object_id_equal env v w \<Longrightarrow> obj_type v = obj_type w"
  unfolding nmp_object_id_equal_def by (rule obj_cmp_type)

lemma main_ident: "same_ident (cache_class env) MAIN v w \<longleftrightarrow> nmp_object_id_equal env v w"
  using cache_id_type [of env v w] by (auto simp: same_ident_def idx_obj_part_def)

lemma main_entry_unique:
  assumes inv: "cache_inv env ext s" and x: "x \<in> set (entries s MAIN)" "y \<in> set (entries s MAIN)" and eq: "nmp_object_id_equal env (eval s x) (eval s y)"
  shows "x = y"
  using dedup_inv_unique [OF cache_class_ok cache_dedup_inv [OF inv] x] eq by (simp add: main_ident)

lemma main_object_unique:
  assumes inv: "cache_inv env ext s" and a: "a \<in> objs s MAIN" "b \<in> objs s MAIN" and eq: "nmp_object_id_equal env (dval s a) (dval s b)"
  shows "a = b"
  using main_entry_unique [OF inv] a eq by auto

lemma other_in_main: "cache_inv env ext s \<Longrightarrow> objs s t \<subseteq> objs s MAIN"
  unfolding cache_inv_def by (cases "t = MAIN") blast+

lemma not_supported:
  "t \<notin> set (supported_cache_ids (obj_type v)) \<Longrightarrow> \<not> idx_obj_part t v None"
  by (cases t; cases v) (simp_all add: supported_cache_ids_def idx_obj_part_def)

lemma supported_distinct: "distinct (supported_cache_ids k)"
  by (simp add: supported_cache_ids_def)

text \<open>
  After the main index type was changed, all others follow. \<^verbatim>\<open>s\<close> is the cache before and \<^verbatim>\<open>s2\<close> the one after the main
  index type was changed.
\<close>

lemma others_follow:
  assumes inv: "cache_inv env ext s" and inv2: "dedup_inv (cache_class env) extn s2"
    and fr: "dm_types s2 = dm_types s" "\<And>t. t \<noteq> MAIN \<Longrightarrow> lst_idx_head s2 t = lst_idx_head s t"
    and val: "\<And>a. a \<in> known ext s \<Longrightarrow> dval s2 a = dval s a"
    and main: "objs s2 MAIN = {x \<in> objs s MAIN. obj_old \<noteq> Some x} \<union> {n. \<exists>room. obj_new = Some (n, room)}"
    and alive: "\<And>a. a \<in> objs s2 MAIN \<Longrightarrow> nmp_object_is_alive (dval s2 a)"
    and some: "obj_old \<noteq> None \<or> obj_new \<noteq> None"
    and old: "\<And>b. obj_old = Some b \<Longrightarrow> b \<in> objs s MAIN \<and> extn b > 0 \<and> obj_type (dval s2 b) = klass"
    and new: "\<And>n fo fe. obj_new = Some (n, fo, fe) \<Longrightarrow> obj_type (dval s2 n) = klass
      \<and> (\<forall>b. obj_old = Some b \<longrightarrow> \<not> nmp_object_equal env (dval s2 n) (dval s2 b))
      \<and> (\<forall>t. \<forall>x \<in> set (entries s t). e_ptr x \<noteq> fe t)
      \<and> (\<forall>x \<in> objs s MAIN. nmp_object_id_equal env (dval s2 n) (dval s2 x) \<longrightarrow> obj_old = Some x)"
    and s3: "s3 = fold (idxcache_update_other_cache_ids env obj_old obj_new is_dump) (filter (\<lambda>t. t \<noteq> MAIN) (supported_cache_ids klass)) s2"
  shows "cache_inv env extn s3 \<and> lst_idx_head s3 MAIN = lst_idx_head s2 MAIN \<and> (\<forall>a \<in> known extn s2. dval s3 a = dval s2 a)"
proof -
  let ?ts = "filter (\<lambda>t. t \<noteq> MAIN) (supported_cache_ids klass)"
  have ent: "entries s2 t = entries s t" if "t \<noteq> MAIN" for t using fr(2) [OF that] by (rule dedup_entries_cong)
  have vT: "dval s2 a = dval s a" if "a \<in> objs s MAIN" for a using val [of a] that by (simp add: known_def)
  have ready: "other_ready env extn obj_old obj_new s2 t" if t: "t \<noteq> MAIN" for t
    unfolding other_ready_def ent [OF t]
  proof (intro conjI allI impI ballI)
    show "t \<noteq> MAIN" by (rule t)
    show "t \<in> set (dm_types s2)" using inv by (simp add: fr(1) cache_inv_def)
    fix b x assume b: "obj_old = Some b" and x: "x \<in> set (entries s t)" and eq: "nmp_object_id_equal env (dval s2 b) (eval s2 x)"
    have m: "b \<in> objs s MAIN" "e_obj x \<in> objs s MAIN" using old [OF b] other_in_main [OF inv, of t] x by auto
    show "e_obj x = b" using main_object_unique [OF inv m] eq by (simp add: vT m)
  next
    fix n fo fe x assume n: "obj_new = Some (n, fo, fe)" and x: "x \<in> set (entries s t)" and eq: "nmp_object_id_equal env (dval s2 n) (eval s2 x)"
    show "obj_old = Some (e_obj x)" using new [OF n] other_in_main [OF inv, of t] x eq by blast
  next
    fix n fo fe assume n: "obj_new = Some (n, fo, fe)"
    show "n \<in> objs s2 MAIN" unfolding main using n by blast
    show "\<And>b. obj_old = Some b \<Longrightarrow> \<not> nmp_object_equal env (dval s2 n) (dval s2 b)" using new [OF n] by blast
  qed (use old new in blast)+
  have dist: "distinct ?ts" using supported_distinct by simp
  have r: "dedup_inv (cache_class env) extn s3" "dm_types s3 = dm_types s2" "\<And>t. t \<notin> set ?ts \<Longrightarrow> lst_idx_head s3 t = lst_idx_head s2 t"
      "\<And>t. t \<in> set ?ts \<Longrightarrow> objs s3 t = exchanged obj_old obj_new t s2" "\<And>a. a \<in> known extn s2 \<Longrightarrow> dval s3 a = dval s2 a"
    using other_updates [OF some dist inv2, of is_dump, folded s3] ready by auto
  have T3: "lst_idx_head s3 MAIN = lst_idx_head s2 MAIN" by (rule r(3)) simp
  then have e3: "entries s3 MAIN = entries s2 MAIN" by (rule dedup_entries_cong)
  have v3: "dval s3 a = dval s2 a" if "a \<in> objs s2 MAIN" for a using r(5) that by (simp add: known_def)
  have before: "objs s t = {a \<in> objs s MAIN. idx_obj_part t (dval s2 a) None}" if "t \<noteq> MAIN" for t
    using inv that vT unfolding cache_inv_def by auto
  have "objs s3 t = {a \<in> objs s3 MAIN. idx_obj_part t (dval s3 a) None}" if t: "t \<noteq> MAIN" for t
  proof -
    have m: "{a \<in> objs s3 MAIN. idx_obj_part t (dval s3 a) None} = {a \<in> objs s2 MAIN. idx_obj_part t (dval s2 a) None}"
      unfolding e3 using v3 by auto
    show ?thesis
    proof (cases "t \<in> set ?ts")
      case True
      have "obj_old \<noteq> Some n" if "obj_new = Some (n, fo, fe)" for n fo fe using new [OF that] by auto
      with True show ?thesis unfolding m r(4) [OF True] exchanged_def ent [OF t] before [OF t] main by auto
    next
      case False
      then have ns: "t \<notin> set (supported_cache_ids klass)" using t by simp
      have "entries s3 t = entries s t" using r(3) [OF False] fr(2) [OF t] by (intro dedup_entries_cong) simp
      then have "objs s3 t = {a \<in> objs s MAIN. idx_obj_part t (dval s2 a) None}" using before [OF t] by simp
      also have "\<dots> = {a \<in> objs s2 MAIN. idx_obj_part t (dval s2 a) None}"
        unfolding main using not_supported [of t] ns old new by auto
      finally show ?thesis unfolding m .
    qed
  qed
  moreover have "nmp_object_is_alive (dval s3 a)" if "a \<in> objs s3 MAIN" for a using that alive v3 unfolding e3 by auto
  moreover have "set (dm_types s3) = UNIV" using inv by (simp add: r(2) fr(1) cache_inv_def)
  ultimately show ?thesis using r(1,5) T3 unfolding cache_inv_def by blast
qed

section \<open>Updating one object\<close>

lemma obj_ref_known [simp]:
  "known ext (nm_dedup_multi_obj_ref b s) = known ext s" "known ext (nm_dedup_multi_obj_unref b s) = known ext s"
  by (simp_all add: known_def)

lemma cache_inv_ref:
  assumes inv: "cache_inv env ext s" and b: "b \<in> known ext s"
  shows "cache_inv env (ext(b := ext b + 1)) (nm_dedup_multi_obj_ref b s)"
proof -
  have "entry_refs s b + ext b > 0"
    using b dedup_inv_entry_live [OF cache_dedup_inv [OF inv]] by (auto simp: known_def)
  then show ?thesis using dedup_inv_ref [OF cache_dedup_inv [OF inv], of b] inv by (simp add: cache_inv_def)
qed

lemma cache_inv_unref: "cache_inv env ext s \<Longrightarrow> ext b > 0 \<Longrightarrow> cache_inv env (ext(b := ext b - 1)) (nm_dedup_multi_obj_unref b s)"
  using dedup_inv_unref [of "cache_class env" ext s b] by (simp add: cache_inv_def)

lemma lookup_entry_ref [simp]: "nmp_cache_lookup_entry env a (nm_dedup_multi_obj_ref b s) = nmp_cache_lookup_entry env a s"
  by (simp add: nmp_cache_lookup_entry_def lookup_entry_with_idx_type_def nm_dedup_multi_index_lookup_obj_def
      entry_lookup_obj_def dict_idx_entries_equal_def nm_dedup_multi_idx_type_partition_equal_def nm_dedup_multi_idx_type_id_equal_def
      cache_class_def)

lemma lookup_entry_Some:
  "cache_inv env ext s \<Longrightarrow> nmp_cache_lookup_entry env a s = Some e \<longleftrightarrow>
     e \<in> set (entries s MAIN) \<and> nmp_object_id_equal env (dval s a) (eval s e)"
  using entry_lookup_obj_Some [OF cache_class_ok cache_dedup_inv]
  by (simp add: nmp_cache_lookup_entry_def lookup_entry_with_idx_type_def nm_dedup_multi_index_lookup_obj_def main_ident)

lemma lookup_entry_None:
  "cache_inv env ext s \<Longrightarrow> nmp_cache_lookup_entry env a s = None \<longleftrightarrow>
     (\<forall>e \<in> set (entries s MAIN). \<not> nmp_object_id_equal env (dval s a) (eval s e))"
  using entry_lookup_obj_None [OF cache_class_ok cache_dedup_inv]
  by (simp add: nmp_cache_lookup_entry_def lookup_entry_with_idx_type_def nm_dedup_multi_index_lookup_obj_def main_ident)

lemma idxcache_update_remove:
  assumes inv: "cache_inv env ext s" and e: "e \<in> set (entries s MAIN)" and eq: "idxcache_update env (Some e) None is_dump s = (en, s')"
  shows "en = None \<and> cache_inv env ext s' \<and> set (entries s' MAIN) = set (entries s MAIN) - {e}
    \<and> (\<forall>a \<in> known ext s. dval s' a = dval s a)"
proof -
  define b where "b = e_obj e"
  define s0 where "s0 = nm_dedup_multi_obj_ref b s"
  define ext0 where "ext0 = ext(b := ext b + 1)"
  define s1 where "s1 = snd (nm_dedup_multi_index_remove_entry MAIN (Entry (e_ptr e)) s0)"
  define s3 where "s3 = fold (idxcache_update_other_cache_ids env (Some b) None is_dump)
    (filter (\<lambda>t. t \<noteq> MAIN) (supported_cache_ids (obj_type (dval s1 b)))) s1"
  have b: "b \<in> objs s MAIN" using e by (simp add: b_def)
  have s': "en = None" "s' = nm_dedup_multi_obj_unref b s3"
    using eq by (auto simp: idxcache_update_def Let_def s3_def s1_def s0_def b_def)
  have inv0: "cache_inv env ext0 s0" unfolding s0_def ext0_def using b by (intro cache_inv_ref [OF inv]) (simp add: known_def)
  have e0: "e \<in> set (entries s0 MAIN)" using e by (simp add: s0_def)
  note d0 = cache_dedup_inv [OF inv0]
  note r = remove_entry_set [OF cache_class_ok d0 e0, folded s1_def]
  have fr: "dm_types s1 = dm_types s0" "\<And>t. t \<noteq> MAIN \<Longrightarrow> lst_idx_head s1 t = lst_idx_head s0 t" "\<And>a. dval s1 a = dval s0 a"
    using r by (simp_all add: dedup_keeps_def)
  have main: "objs s1 MAIN = objs s0 MAIN - {b}" using r objs_without [OF cache_class_ok d0 e0] by (simp add: b_def)
  have x: "ext0 b > 0" "b \<in> objs s0 MAIN" using b by (simp_all add: ext0_def s0_def)
  have al: "nmp_object_is_alive (dval s1 a)" if "a \<in> objs s1 MAIN" for a using that cache_alive [OF inv0, of a] main fr(3) by auto
  have "cache_inv env ext0 s3 \<and> lst_idx_head s3 MAIN = lst_idx_head s1 MAIN \<and> (\<forall>a \<in> known ext0 s1. dval s3 a = dval s1 a)"
    by (rule others_follow [OF inv0 conjunct1 [OF r] fr(1,2) fr(3) _ al _ _ _ s3_def]) (use main x in auto)
  moreover have "dval s1 a = dval s a" for a by (simp add: fr(3) s0_def)
  moreover have "known ext s \<subseteq> known ext0 s1" using main x by (auto simp: known_def ext0_def s0_def)
  ultimately have c3: "cache_inv env ext0 s3" "entries s3 MAIN = entries s1 MAIN" "\<forall>a \<in> known ext s. dval s3 a = dval s a"
    using dedup_entries_cong [of s3 MAIN s1] by auto
  have "ext0(b := ext0 b - 1) = ext" by (simp add: ext0_def)
  then have "cache_inv env ext s'" using cache_inv_unref [OF c3(1) x(1)] by (simp add: s')
  then show ?thesis using c3 r by (simp add: s' s0_def)
qed

lemma add_full_old:
  "nm_dedup_multi_index_add_full c fo fe t a mode order True s = (ch, en, old, s') \<Longrightarrow>
     old = map_option e_obj (entry_lookup_obj c t a s)"
  by (auto simp: nm_dedup_multi_index_add_full_def add_existing_def add_new_def Let_def split: option.splits prod.splits if_splits)

lemma idxcache_update_add:
  assumes inv: "cache_inv env ext s" and held: "ext a > 0" and fresh: "o_ref_count (dm_mem s fo) = 0"
    and fe: "\<And>t x. x \<in> set (entries s t) \<Longrightarrow> e_ptr x \<noteq> fe t" and alive: "nmp_object_is_alive (dval s a)"
    and entry_old: "entry_old = nmp_cache_lookup_entry env a s"
    and diff: "\<And>e. entry_old = Some e \<Longrightarrow> \<not> nmp_object_equal env (eval s e) (dval s a)"
    and eq: "idxcache_update env entry_old (Some (a, fo, fe)) is_dump s = (en, s')"
  shows "\<exists>e'. en = Some e' \<and> cache_inv env ext s' \<and> \<not> e_dirty e' \<and> nmp_object_equal env (dval s a) (eval s' e')
    \<and> set (entries s' MAIN) = insert e' {x \<in> set (entries s MAIN). \<not> nmp_object_id_equal env (dval s a) (eval s x)}
    \<and> (\<forall>a \<in> known ext s. dval s' a = dval s a)"
proof -
  let ?c = "cache_class env"
  define old where "old = map_option e_obj entry_old"
  define s0 where "s0 = (case old of Some b \<Rightarrow> nm_dedup_multi_obj_ref b s | None \<Rightarrow> s)"
  define ext0 where "ext0 = (case old of Some b \<Rightarrow> ext(b := ext b + 1) | None \<Rightarrow> ext)"
  obtain mode where mode: "mode = (if is_dump then NM_DEDUP_MULTI_IDX_MODE_APPEND_FORCE else obj_get_add_mode (dval s0 a))" by simp
  obtain ch p old2 s1 where add: "nm_dedup_multi_index_add_full ?c fo (fe MAIN) MAIN a mode None True s0 = (ch, p, old2, s1)"
    by (metis prod_cases4)
  define s2 where "s2 = (case old2 of Some b \<Rightarrow> nm_dedup_multi_obj_unref b s1 | None \<Rightarrow> s1)"
  have old: "b \<in> objs s MAIN" "entry_old \<noteq> None" if "old = Some b" for b
    using that lookup_entry_Some [OF inv] entry_old by (auto simp: old_def)
  have k0: "known ext s \<subseteq> known ext0 s0" by (auto simp: known_def ext0_def s0_def split: option.splits)
  have ent0: "entries s0 t = entries s t" and val0: "dval s0 b = dval s b" for t b by (simp_all add: s0_def split: option.splits)
  have inv0: "cache_inv env ext0 s0"
    using inv cache_inv_ref [OF inv] old by (cases old) (auto simp: s0_def ext0_def known_def)
  note d0 = cache_dedup_inv [OF inv0]
  have a0: "o_ref_count (dm_mem s0 a) > 0" using known_live [OF d0, of a] k0 held by (auto simp: known_def)
  have fresh0: "o_ref_count (dm_mem s0 fo) = 0"
  proof (cases old)
    case (Some b)
    then have "o_ref_count (dm_mem s b) > 0" using known_live [OF cache_dedup_inv [OF inv], of b] old by (simp add: known_def)
    then show ?thesis using fresh Some by (auto simp: s0_def)
  qed (simp add: s0_def fresh)
  have look: "entry_lookup_obj ?c MAIN a s0 = entry_old"
    using entry_old lookup_entry_ref [of env a _ s]
    by (simp add: s0_def nmp_cache_lookup_entry_def lookup_entry_with_idx_type_def nm_dedup_multi_index_lookup_obj_def split: option.splits)
  have old2: "old2 = old" using add_full_old [OF add] look by (simp add: old_def)
  have "MAIN \<in> set (dm_types s0)" using inv0 by (simp add: cache_inv_def)
  note A = add_full_correct [OF cache_class_ok d0 this _ a0 disjI1 [OF fresh0] _ add, unfolded old2]
  have A: "dedup_inv ?c (take_ref old ext0) s1 \<and> dedup_frame MAIN s0 s1
     \<and> (\<exists>e'. p = Some (e_ptr e') \<and> \<not> e_dirty e' \<and> e_ptr e' = (case entry_lookup_obj ?c MAIN a s0 of Some x \<Rightarrow> e_ptr x | None \<Rightarrow> fe MAIN)
       \<and> obj_full_equal ?c (dval s0 a) (eval s1 e')
       \<and> set (entries s1 MAIN) = insert e' {x \<in> set (entries s0 MAIN). \<not> same_ident ?c MAIN (dval s0 a) (eval s0 x)})"
    by (rule A) (use fe in \<open>auto simp: ent0 idx_obj_part_def\<close>)
  then obtain e' where e': "p = Some (e_ptr e')" "\<not> e_dirty e'" "nmp_object_equal env (dval s a) (eval s1 e')"
      "set (entries s1 MAIN) = insert e' {x \<in> set (entries s MAIN). \<not> nmp_object_id_equal env (dval s a) (eval s x)}"
    by (auto simp: ent0 val0 main_ident)
  define n where "n = e_obj e'"
  have e1: "e' \<in> set (entries s1 MAIN)" using e'(4) by simp
  have at: "entry_at MAIN (e_ptr e') s1 = e'" using entry_at_mem [OF cache_class_ok conjunct1 [OF A] e1] .
  have d2: "dedup_inv ?c ext0 s2"
    using A dedup_inv_unref [of ?c "take_ref old ext0" s1 "the old"] by (cases old) (auto simp: s2_def old2 take_ref_def)
  have s2: "entries s2 t = entries s1 t" "dval s2 b = dval s1 b" "dm_types s2 = dm_types s1" "lst_idx_head s2 = lst_idx_head s1" for t b
    by (simp_all add: s2_def split: option.splits)
  have fr: "dm_types s2 = dm_types s0" "\<And>t. t \<noteq> MAIN \<Longrightarrow> lst_idx_head s2 t = lst_idx_head s0 t"
      "\<And>b. b \<in> known ext0 s0 \<Longrightarrow> dval s2 b = dval s0 b"
    using A known_live [OF d0] by (simp_all add: dedup_frame_def s2)
  define s3 where "s3 = fold (idxcache_update_other_cache_ids env old (Some (n, fo, fe)) is_dump)
    (filter (\<lambda>t. t \<noteq> MAIN) (supported_cache_ids (obj_type (dval s2 n)))) s2"
  have s': "en = Some e'" "s' = (case old of Some b \<Rightarrow> nm_dedup_multi_obj_unref b s3 | None \<Rightarrow> s3)"
    using eq add e'(1) at unfolding idxcache_update_def Let_def old_def [symmetric] s0_def [symmetric]
    by (cases old; auto simp: mode s3_def s2_def n_def)+
  have ids: "nmp_object_id_equal env (dval s a) (dval s2 n)" and full: "nmp_object_equal env (dval s a) (dval s2 n)"
    using e'(3) by (simp_all add: s2 n_def oid.full_id)
  have olds: "{x \<in> set (entries s MAIN). \<not> nmp_object_id_equal env (dval s a) (eval s x)} = {x \<in> set (entries s MAIN). old \<noteq> Some (e_obj x)}"
  proof (cases entry_old)
    case None
    then show ?thesis using lookup_entry_None [OF inv, of a] entry_old by (auto simp: old_def)
  next
    case (Some e)
    then have e: "e \<in> set (entries s MAIN)" "nmp_object_id_equal env (dval s a) (eval s e)"
      using lookup_entry_Some [OF inv, of a e] entry_old by simp_all
    have "nmp_object_id_equal env (dval s a) (eval s x) \<longleftrightarrow> e_obj x = e_obj e" if "x \<in> set (entries s MAIN)" for x
      using main_object_unique [OF inv, of "e_obj x" "e_obj e"] that e oid.id_trans [OF oid.id_sym, of env "dval s a"] by (metis imageI)
    then show ?thesis using Some by (auto simp: old_def)
  qed
  have main: "objs s2 MAIN = {x \<in> objs s0 MAIN. old \<noteq> Some x} \<union> {n'. \<exists>room. Some (n, fo, fe) = Some (n', room)}"
    using e'(4) unfolding s2 olds ent0 by (auto simp: n_def)
  have new: "(\<forall>t. \<forall>x \<in> set (entries s0 t). e_ptr x \<noteq> fe t) \<and> obj_type (dval s2 n) = obj_type (dval s a)
      \<and> (\<forall>b. old = Some b \<longrightarrow> \<not> nmp_object_equal env (dval s2 n) (dval s2 b)) \<and> (\<forall>x \<in> objs s0 MAIN. nmp_object_id_equal env (dval s2 n) (dval s2 x) \<longrightarrow> old = Some x)"
  proof (intro conjI allI ballI impI)
    show "\<And>t x. x \<in> set (entries s0 t) \<Longrightarrow> e_ptr x \<noteq> fe t" using fe by (simp add: ent0)
    show "obj_type (dval s2 n) = obj_type (dval s a)" using cache_id_type [OF ids] by simp
    show "\<not> nmp_object_equal env (dval s2 n) (dval s2 b)" if o: "old = Some b" for b
    proof
      assume nb: "nmp_object_equal env (dval s2 n) (dval s2 b)"
      obtain e where e: "entry_old = Some e" "e_obj e = b" using o by (auto simp: old_def)
      have "b \<in> known ext0 s0" using old(1) [OF o] ent0 by (simp add: known_def)
      then have "dval s2 b = dval s b" using fr(3) val0 by simp
      then have "nmp_object_equal env (dval s a) (dval s b)" using oid.full_trans [OF full nb] by simp
      then show False using diff [OF e(1)] oid.full_sym e(2) by simp
    qed
    fix x assume x: "x \<in> objs s0 MAIN" and eq: "nmp_object_id_equal env (dval s2 n) (dval s2 x)"
    have "dval s2 x = dval s x" using fr(3) [of x] x val0 by (simp add: known_def)
    then have "nmp_object_id_equal env (dval s a) (dval s x)" using oid.id_trans [OF ids] eq by simp
    moreover obtain y where y: "y \<in> set (entries s MAIN)" "e_obj y = x" using x by (auto simp: ent0)
    ultimately have "y \<notin> {x \<in> set (entries s MAIN). old \<noteq> Some (e_obj x)}" unfolding olds [symmetric] by simp
    then show "old = Some x" using y by simp
  qed
  have alive2: "nmp_object_is_alive (dval s2 x)" if "x \<in> objs s2 MAIN" for x
  proof (cases "x = n")
    case True
    then show ?thesis using object_equal_keys [OF full] alive by simp
  next
    case False
    then have "x \<in> objs s0 MAIN" using that main by auto
    then show ?thesis using cache_alive [OF inv0] fr(3) [of x] by (simp add: known_def)
  qed
  have oldk: "b \<in> objs s0 MAIN \<and> ext0 b > 0 \<and> obj_type (dval s2 b) = obj_type (dval s2 n)" if "old = Some b" for b
  proof -
    obtain e where e: "entry_old = Some e" "e_obj e = b" using \<open>old = Some b\<close> by (auto simp: old_def)
    have "b \<in> objs s0 MAIN" using old(1) [OF that] by (simp add: ent0)
    moreover from this have "dval s2 b = dval s b" using fr(3) val0 by (simp add: known_def)
    moreover have "nmp_object_id_equal env (dval s a) (dval s b)" using lookup_entry_Some [OF inv, of a e] entry_old e by auto
    ultimately show ?thesis using cache_id_type new that by (auto simp: ext0_def)
  qed
  have F: "cache_inv env ext0 s3 \<and> lst_idx_head s3 MAIN = lst_idx_head s2 MAIN \<and> (\<forall>a \<in> known ext0 s2. dval s3 a = dval s2 a)"
    by (rule others_follow [OF inv0 d2 fr(1,2,3) main alive2 _ oldk _ s3_def]) (use new in auto)
  have e3: "entries s3 MAIN = entries s1 MAIN" using F dedup_entries_cong [of s3 MAIN s1] by (simp add: s2)
  have v3: "dval s3 x = dval s x" if "x \<in> known ext s" for x
  proof -
    have "x \<in> known ext0 s0" using that k0 by auto
    moreover have "x \<in> known ext0 s2" 
      using that oldk by (cases "old = Some x") (auto simp: known_def main ent0 ext0_def split: option.splits)
    ultimately show ?thesis using F fr(3) val0 by simp
  qed
  have "n \<in> known ext0 s2" using main by (simp add: known_def)
  then have vn: "eval s3 e' = eval s1 e'" using F by (simp add: n_def s2)
  have fin: "entries s' MAIN = entries s3 MAIN" "dval s' x = dval s3 x" for x by (simp_all add: s' split: option.splits)
  have "cache_inv env ext s'"
  proof (cases old)
    case (Some b)
    then have "ext0(b := ext0 b - 1) = ext" by (simp add: ext0_def)
    then show ?thesis using cache_inv_unref [of env ext0 s3 b] conjunct1 [OF F] oldk [OF Some] Some by (simp add: s')
  qed (use F in \<open>simp add: s' ext0_def\<close>)
  then show ?thesis using s'(1) e'(2,3,4) e3 v3 vn fin by (intro exI [of _ e']) simp
qed

text \<open>Changes of the order and of marks leave the objects alone.\<close>

definition same_objects :: "NMPCache \<Rightarrow> NMPCache \<Rightarrow> bool" where
  "same_objects s s' \<longleftrightarrow> (\<forall>a. dval s' a = dval s a) \<and> (\<forall>t. objs s' t = objs s t) \<and> dm_types s' = dm_types s"

lemma same_objects_refl [simp]: "same_objects s s"
  by (simp add: same_objects_def)

lemma same_objects_trans: "same_objects s s1 \<Longrightarrow> same_objects s1 s2 \<Longrightarrow> same_objects s s2"
  by (simp add: same_objects_def)

lemma cache_inv_same_objects:
  assumes "cache_inv env ext s" and "dedup_inv (cache_class env) ext s'" and "same_objects s s'"
  shows "cache_inv env ext s'"
proof -
  have same: "\<And>t. objs s' t = objs s t" "\<And>a. dval s' a = dval s a" "dm_types s' = dm_types s"
    using assms(3) by (simp_all add: same_objects_def)
  show ?thesis using assms(1,2) by (simp only: cache_inv_def same) blast
qed

lemma keeps_same_objects:
  assumes "dedup_keeps t s s'" and "objs s' t = objs s t"
  shows "same_objects s s'"
proof -
  have "objs s' t' = objs s t'" for t'
    using assms dedup_entries_cong [of s' t' s] by (cases "t' = t") (simp_all add: dedup_keeps_def)
  then show ?thesis using assms by (simp add: same_objects_def dedup_keeps_def)
qed

lemma entry_reorder_cache:
  assumes inv: "cache_inv env ext s" and e: "e \<in> set (entries s t)" and s': "s' = snd (entry_reorder t (e_ptr e) order after s)"
  shows "cache_inv env ext s' \<and> same_objects s s' \<and> dedup_keeps t s s' \<and> set (entries s' t) = set (entries s t)"
proof -
  obtain ch where eq: "entry_reorder t (e_ptr e) order after s = (ch, s')" using s' by (metis prod.collapse)
  have r: "dedup_inv (cache_class env) ext s' \<and> dedup_keeps t s s' \<and> set (entries s' t) = set (entries s t)"
    by (rule entry_reorder_correct [OF cache_class_ok cache_dedup_inv [OF inv] e eq])
  then have "same_objects s s'" by (intro keeps_same_objects) auto
  then show ?thesis using r cache_inv_same_objects [OF inv] by blast
qed

lemma set_dirty_cache:
  assumes inv: "cache_inv env ext s" and s': "s' = nm_dedup_multi_entry_set_dirty MAIN (e_ptr e) d s" and e: "e \<in> set (entries s MAIN)"
  shows "cache_inv env ext s' \<and> same_objects s s' \<and> entries s' MAIN = map (\<lambda>x. if e_obj x = e_obj e then x\<lparr>e_dirty := d\<rparr> else x) (entries s MAIN)"
proof -
  note d = cache_dedup_inv [OF inv]
  note r = set_dirty_correct [OF d s']
  have "e_ptr x = e_ptr e \<longleftrightarrow> e_obj x = e_obj e" if "x \<in> set (entries s MAIN)" for x
    using dedup_inv_unique [OF cache_class_ok d that e] entry_obj_unique [OF cache_class_ok d e that] by auto
  then have m: "entries s' MAIN = map (\<lambda>x. if e_obj x = e_obj e then x\<lparr>e_dirty := d\<rparr> else x) (entries s MAIN)"
    using r by (auto intro: map_cong)
  have "objs s' MAIN = objs s MAIN" unfolding m set_map image_image by (rule image_cong) auto
  then have "same_objects s s'" using r by (intro keeps_same_objects) auto
  then show ?thesis using m r cache_inv_same_objects [OF inv] by blast
qed

lemma update_order_cache:
  assumes inv: "cache_inv env ext s" and e: "e \<in> set (entries s MAIN)" and s': "s' = idxcache_update_order_for_dump env e s"
  shows "cache_inv env ext s' \<and> same_objects s s' \<and> set (entries s' MAIN) = set (entries s MAIN)"
proof -
  let ?R = "\<lambda>s1. cache_inv env ext s1 \<and> same_objects s s1 \<and> set (entries s1 MAIN) = set (entries s MAIN)"
  have step: "?R (idxcache_update_order_step env b t s1)" if s1: "?R s1" for b t s1
  proof (cases "t = MAIN \<or> lookup_entry_with_idx_type env t b s1 = None")
    case True
    then have "idxcache_update_order_step env b t s1 = s1" by (auto simp: idxcache_update_order_step_def)
    then show ?thesis using s1 by simp
  next
    case False
    then obtain x where x: "t \<noteq> MAIN" "lookup_entry_with_idx_type env t b s1 = Some x" by auto
    have inv1: "cache_inv env ext s1" using s1 by simp
    have xe: "x \<in> set (entries s1 t)"
      using x(2) entry_lookup_obj_Some [OF cache_class_ok cache_dedup_inv [OF inv1]]
      by (simp add: lookup_entry_with_idx_type_def nm_dedup_multi_index_lookup_obj_def)
    have eq: "idxcache_update_order_step env b t s1 = snd (entry_reorder t (e_ptr x) None True s1)"
      using x by (simp add: idxcache_update_order_step_def)
    note r = entry_reorder_cache [OF inv1 xe eq]
    have "entries (idxcache_update_order_step env b t s1) MAIN = entries s1 MAIN"
      using r x(1) by (intro dedup_entries_cong) (simp add: dedup_keeps_def)
    then show ?thesis using r s1 same_objects_trans by auto
  qed
  have fold: "?R s1 \<Longrightarrow> ?R (fold (idxcache_update_order_step env b) ts s1)" for b ts s1
    by (induction ts arbitrary: s1) (use step in auto)
  define s0 where "s0 = snd (entry_reorder MAIN (e_ptr e) None True s)"
  have "?R s0" using entry_reorder_cache [OF inv e s0_def] by blast
  from fold [OF this] show ?thesis unfolding s' idxcache_update_order_for_dump_def Let_def s0_def [symmetric] .
qed

section \<open>What the operations do\<close>

lemma cache_remove_correct:
  assumes inv: "cache_inv env ext s" and eq: "nmp_cache_remove env a by_ptr only_dirty want s = (ops, out, s')"
  shows "cache_inv env (take_ref out ext) s' \<and> (\<forall>b \<in> known ext s. dval s' b = dval s b)
    \<and> (case nmp_cache_lookup_entry env a s of
         None \<Rightarrow> ops = NMP_CACHE_OPS_UNCHANGED \<and> out = None \<and> s' = s
       | Some e \<Rightarrow> out = (if want then Some (e_obj e) else None)
           \<and> (if (by_ptr \<longrightarrow> e_obj e = a) \<and> (only_dirty \<longrightarrow> e_dirty e)
              then ops = NMP_CACHE_OPS_REMOVED \<and> set (entries s' MAIN) = set (entries s MAIN) - {e}
              else ops = NMP_CACHE_OPS_UNCHANGED \<and> entries s' MAIN = entries s MAIN))"
proof (cases "nmp_cache_lookup_entry env a s")
  case None
  then show ?thesis using eq inv by (simp add: nmp_cache_remove_def take_ref_def)
next
  case (Some e)
  then have e: "e \<in> set (entries s MAIN)" using lookup_entry_Some [OF inv] by blast
  define s0 where "s0 = (if want then nm_dedup_multi_obj_ref (e_obj e) s else s)"
  define s1 where "s1 = snd (idxcache_update env (Some e) None False s0)"
  have out: "out = (if want then Some (e_obj e) else None)"
      "(ops, s') = (if (by_ptr \<longrightarrow> e_obj e = a) \<and> (only_dirty \<longrightarrow> e_dirty e) then (NMP_CACHE_OPS_REMOVED, s1) else (NMP_CACHE_OPS_UNCHANGED, s0))"
    using eq Some by (auto simp: nmp_cache_remove_def Let_def s0_def s1_def split: if_splits)
  have k: "e_obj e \<in> known ext s" using e by (simp add: known_def)
  have inv0: "cache_inv env (take_ref out ext) s0"
    using cache_inv_ref [OF inv k] inv by (simp add: s0_def out(1) take_ref_def)
  have same: "entries s0 t = entries s t" "dval s0 b = dval s b" for t b by (simp_all add: s0_def)
  have "idxcache_update env (Some e) None False s0 = (fst (idxcache_update env (Some e) None False s0), s1)" by (simp add: s1_def)
  note r = idxcache_update_remove [OF inv0 _ this]
  have "known ext s \<subseteq> known (take_ref out ext) s0" by (auto simp: known_def take_ref_def same split: option.splits)
  then show ?thesis using Some out inv0 r e same by (auto split: if_splits)
qed

definition update_ops :: "object_env \<Rightarrow> NMPObject option \<Rightarrow> NMPObject \<Rightarrow> bool \<Rightarrow> NMPCacheOpsType" where
  "update_ops env old v alive =
     (case old of
        None \<Rightarrow> if alive then NMP_CACHE_OPS_ADDED else NMP_CACHE_OPS_UNCHANGED
      | Some w \<Rightarrow> if \<not> alive then NMP_CACHE_OPS_REMOVED
                  else if nmp_object_equal env w v then NMP_CACHE_OPS_UNCHANGED else NMP_CACHE_OPS_UPDATED)"

text \<open>
  The entries after an update: that of the identity is gone, or it has the new object and no mark. The three ways in
  which an update of an object that the cache knows or not may go are cases of the same statement.
\<close>

definition entry_updated :: "object_env \<Rightarrow> nat \<Rightarrow> bool \<Rightarrow> nat option \<Rightarrow> NMPCache \<Rightarrow> NMPCache \<Rightarrow> bool" where
  "entry_updated env a alive new s s' \<longleftrightarrow>
     (if alive then
        (\<exists>e'. new = Some (e_obj e') \<and> \<not> e_dirty e' \<and> nmp_object_equal env (dval s a) (eval s' e')
          \<and> set (entries s' MAIN) = insert e' {x \<in> set (entries s MAIN). \<not> nmp_object_id_equal env (dval s a) (eval s x)})
      else new = None \<and> set (entries s' MAIN) = {x \<in> set (entries s MAIN). \<not> nmp_object_id_equal env (dval s a) (eval s x)})"

lemma take_ref_None [simp]: "take_ref None ext = ext"
  by (simp add: take_ref_def)

lemma cache_inv_take_ref: "cache_inv env ext s \<Longrightarrow> b \<in> known ext s \<Longrightarrow> cache_inv env (take_ref (Some b) ext) (nm_dedup_multi_obj_ref b s)"
  using cache_inv_ref [of env ext s b] by (simp add: take_ref_def)

lemma known_refs: "known ext s \<subseteq> known (take_ref out ext) s"
  by (auto simp: known_def take_ref_def split: option.splits)

lemma update_known:
  assumes inv: "cache_inv env ext s" and e: "nmp_cache_lookup_entry env a s = Some e" and eq: "nmp_object_equal env (eval s e) (dval s a)"
    and s': "s' = nm_dedup_multi_entry_set_dirty MAIN (e_ptr e) False (if is_dump then idxcache_update_order_for_dump env e s else s)"
  shows "cache_inv env ext s' \<and> (\<forall>b. dval s' b = dval s b) \<and> e_obj e \<in> known ext s' \<and> entry_updated env a True (Some (e_obj e)) s s'"
proof -
  have em: "e \<in> set (entries s MAIN)" "nmp_object_id_equal env (dval s a) (eval s e)" using e lookup_entry_Some [OF inv] by auto
  define s0 where "s0 = (if is_dump then idxcache_update_order_for_dump env e s else s)"
  have s0: "cache_inv env ext s0" "same_objects s s0" "set (entries s0 MAIN) = set (entries s MAIN)"
    using update_order_cache [OF inv em(1) refl] inv by (simp_all add: s0_def)
  have e0: "e \<in> set (entries s0 MAIN)" using em s0 by simp
  have s': "s' = nm_dedup_multi_entry_set_dirty MAIN (e_ptr e) False s0" using s' by (simp add: s0_def)
  note r = set_dirty_cache [OF s0(1) s' e0]
  have val: "dval s' b = dval s b" for b using r s0(2) by (simp add: same_objects_def)
  have "nmp_object_id_equal env (dval s a) (eval s x) \<longleftrightarrow> e_obj x = e_obj e" if "x \<in> set (entries s MAIN)" for x
  proof
    assume "nmp_object_id_equal env (dval s a) (eval s x)"
    then have "nmp_object_id_equal env (eval s e) (eval s x)" using oid.id_trans [OF oid.id_sym [OF em(2)]] by blast
    then show "e_obj x = e_obj e" using main_entry_unique [OF inv em(1) that] by simp
  next
    show "e_obj x = e_obj e \<Longrightarrow> nmp_object_id_equal env (dval s a) (eval s x)" using em(2) by simp
  qed
  then have ids: "{x \<in> set (entries s MAIN). \<not> nmp_object_id_equal env (dval s a) (eval s x)} = {x \<in> set (entries s MAIN). e_obj x \<noteq> e_obj e}"
    by blast
  have "x = e" if "x \<in> set (entries s MAIN)" "e_obj x = e_obj e" for x
    using entry_obj_unique [OF cache_class_ok cache_dedup_inv [OF inv] em(1) that] .
  then have ents: "set (entries s' MAIN) = insert (e\<lparr>e_dirty := False\<rparr>) {x \<in> set (entries s MAIN). e_obj x \<noteq> e_obj e}"
    using r s0(3) em(1) by auto
  have "entry_updated env a True (Some (e_obj e)) s s'"
    unfolding entry_updated_def ids if_True
    by (rule exI [of _ "e\<lparr>e_dirty := False\<rparr>"]) (use ents val oid.full_sym [OF eq] in simp)
  moreover have "e_obj e \<in> objs s' MAIN" unfolding ents by simp
  ultimately show ?thesis using r val by (simp add: known_def)
qed

lemma update_replaces:
  assumes inv: "cache_inv env ext s" and held: "ext a > 0" and fresh: "o_ref_count (dm_mem s fo) = 0"
    and fe: "\<And>t x. x \<in> set (entries s t) \<Longrightarrow> e_ptr x \<noteq> fe t" and alive: "nmp_object_is_alive (dval s a)"
    and diff: "\<And>e. nmp_cache_lookup_entry env a s = Some e \<Longrightarrow> \<not> nmp_object_equal env (eval s e) (dval s a)"
    and eq: "idxcache_update env (nmp_cache_lookup_entry env a s) (Some (a, fo, fe)) is_dump s = (en, s')"
  shows "cache_inv env ext s' \<and> (\<forall>b \<in> known ext s. dval s' b = dval s b) \<and> en \<noteq> None \<and> e_obj (the en) \<in> known ext s'
    \<and> entry_updated env a True (map_option e_obj en) s s'"
proof -
  obtain e' where e': "en = Some e' \<and> cache_inv env ext s' \<and> \<not> e_dirty e' \<and> nmp_object_equal env (dval s a) (eval s' e')
    \<and> set (entries s' MAIN) = insert e' {x \<in> set (entries s MAIN). \<not> nmp_object_id_equal env (dval s a) (eval s x)}
    \<and> (\<forall>a \<in> known ext s. dval s' a = dval s a)"
    using idxcache_update_add [OF inv held fresh fe alive refl diff eq] by blast
  have "entry_updated env a True (map_option e_obj en) s s'" unfolding entry_updated_def if_True by (rule exI [of _ e']) (use e' in simp)
  then show ?thesis using e' by (simp add: known_def)
qed

lemma update_removes:
  assumes inv: "cache_inv env ext s" and e: "nmp_cache_lookup_entry env a s = Some e" and eq: "idxcache_update env (Some e) None is_dump s = (en, s')"
  shows "cache_inv env ext s' \<and> (\<forall>b \<in> known ext s. dval s' b = dval s b) \<and> entry_updated env a False None s s'"
proof -
  have em: "e \<in> set (entries s MAIN)" "nmp_object_id_equal env (dval s a) (eval s e)" using e lookup_entry_Some [OF inv] by auto
  have "x = e" if "x \<in> set (entries s MAIN)" "nmp_object_id_equal env (dval s a) (eval s x)" for x
    using main_entry_unique [OF inv that(1) em(1)] oid.id_trans [OF oid.id_sym [OF that(2)] em(2)] .
  then have "{x \<in> set (entries s MAIN). \<not> nmp_object_id_equal env (dval s a) (eval s x)} = set (entries s MAIN) - {e}" using em by blast
  then show ?thesis using idxcache_update_remove [OF inv em(1) eq] by (simp add: entry_updated_def)
qed

lemma entry_updated_ref [simp]:
  "entry_updated env a alive new (nm_dedup_multi_obj_ref b s) s' = entry_updated env a alive new s s'"
  "entry_updated env a alive new s (nm_dedup_multi_obj_ref b s') = entry_updated env a alive new s s'"
  "entry_updated env a alive new s (nm_dedup_multi_obj_unref b s') = entry_updated env a alive new s s'"
  by (simp_all add: entry_updated_def)

text \<open>An update is possible when the caller holds the object, and there is room for a new object and new entries.\<close>

definition update_ready :: "(nat \<Rightarrow> nat) \<Rightarrow> nat \<Rightarrow> cache_room \<Rightarrow> NMPCache \<Rightarrow> bool" where
  "update_ready ext a room s \<longleftrightarrow>
     ext a > 0 \<and> o_ref_count (dm_mem s (fst room)) = 0 \<and> (\<forall>t. \<forall>x \<in> set (entries s t). e_ptr x \<noteq> snd room t)"

lemma update_ready_ref:
  assumes inv: "cache_inv env ext s" and ready: "update_ready ext a room s" and b: "b \<in> known ext s"
  shows "update_ready (take_ref (Some b) ext) a room (nm_dedup_multi_obj_ref b s)"
proof -
  have "b \<noteq> fst room" using known_live [OF cache_dedup_inv [OF inv] b] ready by (auto simp: update_ready_def)
  then show ?thesis using ready by (auto simp: update_ready_def take_ref_def)
qed

lemma cache_update_netlink_correct:
  assumes inv: "cache_inv env ext s" and ready: "update_ready ext a room s"
    and eq: "nmp_cache_update_netlink env a room is_dump s = (ops, old, new, s')"
  shows "cache_inv env (take_ref new (take_ref old ext)) s' \<and> (\<forall>b \<in> known ext s. dval s' b = dval s b)
    \<and> old = map_option e_obj (nmp_cache_lookup_entry env a s)
    \<and> entry_updated env a (nmp_object_is_alive (dval s a)) new s s'
    \<and> ops = update_ops env (map_option (eval s) (nmp_cache_lookup_entry env a s)) (dval s a) (nmp_object_is_alive (dval s a))"
proof -
  obtain fo fe where room: "room = (fo, fe)" by (cases room) auto
  have rd: "ext a > 0" "o_ref_count (dm_mem s fo) = 0" "\<And>t x. x \<in> set (entries s t) \<Longrightarrow> e_ptr x \<noteq> fe t"
    using ready by (auto simp: update_ready_def room)
  show ?thesis
  proof (cases "nmp_cache_lookup_entry env a s")
    case None
    show ?thesis
    proof (cases "nmp_object_is_alive (dval s a)")
      case False
      have "{x \<in> set (entries s MAIN). \<not> nmp_object_id_equal env (dval s a) (eval s x)} = set (entries s MAIN)"
        using lookup_entry_None [OF inv] None by blast
      then show ?thesis using eq None False inv
        by (auto simp: nmp_cache_update_netlink_def take_ref_def entry_updated_def update_ops_def)
    next
      case True
      obtain en s1 where u: "idxcache_update env None (Some (a, fo, fe)) is_dump s = (en, s1)" by fastforce
      have df: "\<not> nmp_object_equal env (eval s x) (dval s a)" if "nmp_cache_lookup_entry env a s = Some x" for x using that None by simp
      note U = update_replaces [OF inv rd True df u [folded None]]
      have r: "ops = NMP_CACHE_OPS_ADDED" "old = None" "new = Some (e_obj (the en))" "s' = nm_dedup_multi_obj_ref (e_obj (the en)) s1"
        using eq None True u by (auto simp: nmp_cache_update_netlink_def room Let_def)
      have m: "map_option e_obj en = Some (e_obj (the en))" using U by (cases en) simp_all
      show ?thesis using U [unfolded m] None True cache_inv_take_ref [of env ext s1 "e_obj (the en)"]
        by (simp add: r update_ops_def)
    qed
  next
    case (Some e)
    define b where "b = e_obj e"
    define s0 where "s0 = nm_dedup_multi_obj_ref b s"
    have em: "e \<in> set (entries s MAIN)" using Some lookup_entry_Some [OF inv] by blast
    then have b: "b \<in> known ext s" by (simp add: known_def b_def)
    have inv0: "cache_inv env (take_ref (Some b) ext) s0" using cache_inv_ref [OF inv b] by (simp add: s0_def take_ref_def)
    have rd0: "take_ref (Some b) ext a > 0" "o_ref_count (dm_mem s0 fo) = 0" "\<And>t x. x \<in> set (entries s0 t) \<Longrightarrow> e_ptr x \<noteq> fe t"
      using update_ready_ref [OF inv ready b] by (auto simp: update_ready_def room s0_def)
    have l0: "nmp_cache_lookup_entry env a s0 = Some e" using Some by (simp add: s0_def)
    have same: "dval s0 x = dval s x" for x by (simp add: s0_def)
    have k: "known ext s \<subseteq> known (take_ref (Some b) ext) s0" using known_refs [of ext s] by (simp add: s0_def)
    have upd: "entry_updated env a al nw s0 t = entry_updated env a al nw s t" for al nw t by (simp add: s0_def)
    show ?thesis
    proof (cases "nmp_object_is_alive (dval s a)")
      case False
      obtain en s1 where u: "idxcache_update env (Some e) None False s0 = (en, s1)" by fastforce
      have r: "ops = NMP_CACHE_OPS_REMOVED" "old = Some b" "new = None" "s' = s1"
        using eq Some False u by (auto simp: nmp_cache_update_netlink_def room Let_def s0_def b_def)
      show ?thesis using update_removes [OF inv0 l0 u] Some False k upd same
        by (auto simp: r update_ops_def b_def)
    next
      case True
      show ?thesis
      proof (cases "nmp_object_equal env (eval s e) (dval s a)")
        case same_value: True
        define s1 where "s1 = nm_dedup_multi_entry_set_dirty MAIN (e_ptr e) False (if is_dump then idxcache_update_order_for_dump env e s0 else s0)"
        have r: "ops = NMP_CACHE_OPS_UNCHANGED" "old = Some b" "new = Some b" "s' = nm_dedup_multi_obj_ref b s1"
          using eq Some True same_value by (auto simp: nmp_cache_update_netlink_def room Let_def s0_def b_def s1_def)
        have "nmp_object_equal env (eval s0 e) (dval s0 a)" using same_value same by simp
        note U = update_known [OF inv0 l0 this s1_def, folded b_def]
        show ?thesis using U Some True same_value same upd cache_inv_take_ref [of env "take_ref (Some b) ext" s1 b]
          by (simp add: r update_ops_def b_def)
      next
        case new_value: False
        obtain en s1 where u: "idxcache_update env (Some e) (Some (a, fo, fe)) is_dump s0 = (en, s1)" by fastforce
        have r: "ops = NMP_CACHE_OPS_UPDATED" "old = Some b" "new = Some (e_obj (the en))" "s' = nm_dedup_multi_obj_ref (e_obj (the en)) s1"
          using eq Some True new_value u by (auto simp: nmp_cache_update_netlink_def room Let_def s0_def b_def)
        have al0: "nmp_object_is_alive (dval s0 a)" using True same by simp
        have df: "\<not> nmp_object_equal env (eval s0 x) (dval s0 a)" if "nmp_cache_lookup_entry env a s0 = Some x" for x
          using new_value that l0 same by simp
        note U = update_replaces [OF inv0 rd0 al0 df u [folded l0]]
        have m: "map_option e_obj en = Some (e_obj (the en))" using U by (cases en) simp_all
        show ?thesis using U [unfolded m] Some True new_value k same upd cache_inv_take_ref [of env "take_ref (Some b) ext" s1 "e_obj (the en)"]
          by (auto simp: r update_ops_def b_def)
      qed
    qed
  qed
qed

end
