(* ===== verification/NM_Platform_Cache_Store.thy ===== *)
theory NM_Platform_Cache_Store
  imports NM_Platform_Cache_Update NM_Dedup_Index
begin

text \<open>
  The platform cache as its users see it: what a lookup selects, marking and pruning, and the part of the cache that a
  lookup selects as a store with marks, which a dump of the kernel fills anew.
\<close>

section \<open>Lookups\<close>

definition in_part :: "NMPLookup \<Rightarrow> NMPObject \<Rightarrow> bool" where
  "in_part lookup v = idx_obj_part (fst lookup) (snd lookup) (Some v)"

definition selected :: "NMPLookup \<Rightarrow> NMPCache \<Rightarrow> nat set" where
  "selected lookup s = {a \<in> objs s MAIN. in_part lookup (dval s a)}"

lemma part_partitionable: "in_part (t, v) w \<Longrightarrow> idx_obj_part t w None"
  by (simp add: in_part_def idx_obj_part_iff)

lemma selected_entries:
  assumes inv: "cache_inv env ext s"
  shows "selected lookup s = e_obj ` {x \<in> set (entries s (fst lookup)). in_part lookup (eval s x)}"
proof -
  have "{a \<in> objs s (fst lookup). in_part lookup (dval s a)} = selected lookup s"
    using inv part_partitionable [of "fst lookup" "snd lookup"] unfolding cache_inv_def selected_def
    by (cases "fst lookup = MAIN") auto
  then show ?thesis by auto
qed

lemma lookup_entries:
  assumes inv: "cache_inv env ext s"
  shows "set (nmp_cache_lookup lookup s) = {x \<in> set (entries s (fst lookup)). in_part lookup (eval s x)}"
proof -
  obtain t v where lk: "lookup = (t, v)" by (cases lookup)
  let ?c = "cache_class env"
  note c = cache_class_ok [of env] and d = cache_dedup_inv [OF inv]
  have ok: "parts_ok ?c t (eval s) (lst_idx_head s t)" using d by (simp add: dedup_inv_def)
  have ne: "lst_entries h \<noteq> []" if "h \<in> set (lst_idx_head s t)" for h using ok that by (simp add: parts_ok_def head_ok_def)
  have same: "in_part lookup (eval s x) \<longleftrightarrow> in_part lookup (eval s (hd (lst_entries h)))"
    if h: "h \<in> set (lst_idx_head s t)" and x: "x \<in> set (lst_entries h)" for h x
  proof -
    have "hd (lst_entries h) \<in> set (lst_entries h)" using ne [OF h] by simp
    then have p: "same_part ?c t (eval s x) (eval s (hd (lst_entries h)))" using ok h x by (simp add: parts_ok_def head_ok_def)
    show ?thesis
      using same_part_trans [OF c, of t v] p same_part_sym [OF c p] unfolding in_part_def lk by (simp only: cache_class_sel fst_conv snd_conv) blast
  qed
  define P where "P h = in_part lookup (eval s (hd (lst_entries h)))" for h :: NMDedupMultiHeadEntry
  have fi: "nmp_cache_lookup lookup s = (case find_index P (lst_idx_head s t) of None \<Rightarrow> [] | Some i \<Rightarrow> lst_entries (lst_idx_head s t ! i))"
    by (simp add: nmp_cache_lookup_def lk P_def [abs_def] in_part_def)
  show ?thesis
  proof (cases "find_index P (lst_idx_head s t)")
    case None
    then have "\<not> P h" if "h \<in> set (lst_idx_head s t)" for h using that by (simp add: find_index_None)
    then have "\<not> in_part lookup (eval s x)" if "x \<in> set (entries s t)" for x
      using that same by (auto simp: set_entries P_def)
    moreover have "nmp_cache_lookup lookup s = []" unfolding fi None by simp
    ultimately show ?thesis by (auto simp: lk)
  next
    case (Some i)
    then have i: "i < length (lst_idx_head s t)" "P (lst_idx_head s t ! i)" using find_index_Some by metis+
    let ?h = "lst_idx_head s t ! i"
    have "x \<in> set (lst_entries ?h)" if x: "x \<in> set (entries s t)" "in_part lookup (eval s x)" for x
    proof -
      obtain h where h: "h \<in> set (lst_idx_head s t)" "x \<in> set (lst_entries h)" using x(1) set_entries by metis
      obtain j where j: "j < length (lst_idx_head s t)" "h = lst_idx_head s t ! j" using h(1) by (metis in_set_conv_nth)
      have "i = j"
      proof (rule ccontr)
        assume "i \<noteq> j"
        then have "apart ?c t (eval s) ?h h" using parts_ok_apart [OF c ok i(1) j(1)] j(2) by simp
        moreover have "hd (lst_entries ?h) \<in> set (lst_entries ?h)" using ne i(1) by simp
        ultimately have np: "\<not> same_part ?c t (eval s (hd (lst_entries ?h))) (eval s x)" using h(2) by (simp add: apart_def)
        have "same_part ?c t v (eval s (hd (lst_entries ?h)))" using i(2) by (simp add: P_def in_part_def lk)
        moreover have "same_part ?c t v (eval s x)" using x(2) by (simp add: in_part_def lk)
        ultimately show False using np same_part_trans [OF c same_part_sym [OF c]] by blast
      qed
      then show ?thesis using h j by simp
    qed
    moreover have "x \<in> set (entries s t) \<and> in_part lookup (eval s x)" if "x \<in> set (lst_entries ?h)" for x
      using that i same [of ?h x] by (auto simp: set_entries P_def)
    moreover have "nmp_cache_lookup lookup s = lst_entries ?h" unfolding fi Some by simp
    ultimately show ?thesis by (auto simp: lk)
  qed
qed

lemma lookup_distinct:
  assumes inv: "cache_inv env ext s"
  shows "distinct (map e_obj (nmp_cache_lookup lookup s))"
proof -
  obtain t v where lk: "lookup = (t, v)" by (cases lookup)
  note d = cache_dedup_inv [OF inv]
  have "distinct (map e_ptr (lst_entries h))" if "h \<in> set (lst_idx_head s t)" for h
    using d that by (simp add: dedup_inv_def parts_ok_def head_ok_def)
  then have "distinct (map e_ptr (nmp_cache_lookup lookup s))"
    using find_index_Some unfolding lk nmp_cache_lookup_def by (fastforce split: option.splits)
  moreover have "inj_on e_obj (set (nmp_cache_lookup lookup s))"
    unfolding lookup_entries [OF inv] by (rule inj_onI) (use entry_obj_unique [OF cache_class_ok d] in blast)
  ultimately show ?thesis by (simp add: distinct_map)
qed

lemma lookup_selected:
  assumes inv: "cache_inv env ext s"
  shows "e_obj ` set (nmp_cache_lookup lookup s) = selected lookup s"
  unfolding lookup_entries [OF inv] selected_entries [OF inv] ..

text \<open>The lookup by the value of a selector is that of an object with the value.\<close>

lemma find_index_cong: "(\<And>x. x \<in> set xs \<Longrightarrow> P x = Q x) \<Longrightarrow> find_index P xs = find_index Q xs"
  by (induction xs) auto

lemma lookup_all_eq:
  assumes inv: "cache_inv env ext s"
  shows "nmp_cache_lookup (t, dval s a) s = (case nmp_cache_lookup_all env t a s of None \<Rightarrow> [] | Some h \<Rightarrow> lst_entries h)"
proof -
  let ?c = "cache_class env"
  have eq: "dict_idx_entries_equal ?c s t True a (e_obj (hd (lst_entries h))) = idx_obj_part t (dval s a) (Some (eval s (hd (lst_entries h))))"
    if h: "h \<in> set (lst_idx_head s t)" for h
  proof -
    have "lst_entries h \<noteq> []" using cache_dedup_inv [OF inv] h by (simp add: dedup_inv_def parts_ok_def head_ok_def)
    then have e: "hd (lst_entries h) \<in> set (entries s t)" using h unfolding set_entries by (auto intro: bexI [of _ h])
    note d = dict_equal_iff [OF cache_class_ok dedup_inv_partitionable [OF cache_dedup_inv [OF inv] e], of True a]
    show ?thesis unfolding d by simp
  qed
  have "idx_obj_partition_equal ?c t \<noteq> None" by (simp add: cache_class_def)
  then have "entry_lookup_head ?c t a s
      = find_index (\<lambda>h. idx_obj_part t (dval s a) (Some (eval s (hd (lst_entries h))))) (lst_idx_head s t)"
    unfolding entry_lookup_head_def using find_index_cong [OF eq, of "lst_idx_head s t"] by auto
  then show ?thesis
    by (simp add: nmp_cache_lookup_def nmp_cache_lookup_all_def nm_dedup_multi_index_lookup_head_def split: option.split)
qed

section \<open>Marking\<close>

lemma main_lookup:
  assumes inv: "cache_inv env ext s" and e: "e \<in> set (entries s MAIN)"
  shows "nmp_cache_lookup_entry env (e_obj e) s = Some e" "nmp_cache_reresolve_main_entry env (e_obj e) s = e"
proof -
  show "nmp_cache_lookup_entry env (e_obj e) s = Some e" using lookup_entry_Some [OF inv] e by simp
  then show "nmp_cache_reresolve_main_entry env (e_obj e) s = e" by (simp add: nmp_cache_reresolve_main_entry_def)
qed

lemma dirty_set_main_cache:
  assumes inv: "cache_inv env ext s" and a: "a \<in> objs s MAIN"
  shows "cache_inv env ext (dirty_set_main env a s) \<and> same_objects s (dirty_set_main env a s) \<and> dm_mem (dirty_set_main env a s) = dm_mem s
    \<and> (\<forall>t. map e_ptr (entries (dirty_set_main env a s) t) = map e_ptr (entries s t))
    \<and> entries (dirty_set_main env a s) MAIN = map (\<lambda>x. if e_obj x = a then x\<lparr>e_dirty := True\<rparr> else x) (entries s MAIN)"
proof -
  obtain e where e: "e \<in> set (entries s MAIN)" "e_obj e = a" using a by blast
  have eq: "dirty_set_main env a s = nm_dedup_multi_entry_set_dirty MAIN (e_ptr e) True s"
    using main_lookup(2) [OF inv e(1)] e(2) by (simp add: dirty_set_main_def)
  have mem: "dm_mem (dirty_set_main env a s) = dm_mem s" by (simp add: eq nm_dedup_multi_entry_set_dirty_def)
  note r = set_dirty_cache [OF inv eq e(1)] set_dirty_correct [OF cache_dedup_inv [OF inv] eq]
  have "map e_ptr (entries (dirty_set_main env a s) t) = map e_ptr (entries s t)" for t
  proof (cases "t = MAIN")
    case True
    then show ?thesis using r(2) by (simp add: o_def if_distrib [of e_ptr] cong: if_cong)
  next
    case False
    then show ?thesis using r(2) dedup_entries_cong [of "dirty_set_main env a s" t s] by (simp add: dedup_keeps_def)
  qed
  then show ?thesis using r(1) e(2) mem by simp
qed

lemma dirty_set_all_cache:
  "\<lbrakk>cache_inv env ext s; set xs \<subseteq> objs s MAIN\<rbrakk> \<Longrightarrow>
    cache_inv env ext (fold (dirty_set_main env) xs s) \<and> same_objects s (fold (dirty_set_main env) xs s)
    \<and> dm_mem (fold (dirty_set_main env) xs s) = dm_mem s
    \<and> (\<forall>t. map e_ptr (entries (fold (dirty_set_main env) xs s) t) = map e_ptr (entries s t))
    \<and> entries (fold (dirty_set_main env) xs s) MAIN = map (\<lambda>x. if e_obj x \<in> set xs then x\<lparr>e_dirty := True\<rparr> else x) (entries s MAIN)"
proof (induction xs arbitrary: s)
  case (Cons a xs)
  define s1 where "s1 = dirty_set_main env a s"
  have s1: "cache_inv env ext s1" "same_objects s s1" "dm_mem s1 = dm_mem s" "\<forall>t. map e_ptr (entries s1 t) = map e_ptr (entries s t)"
      "entries s1 MAIN = map (\<lambda>x. if e_obj x = a then x\<lparr>e_dirty := True\<rparr> else x) (entries s MAIN)"
    using dirty_set_main_cache [OF Cons.prems(1), of a] Cons.prems(2) by (simp_all add: s1_def)
  have "set xs \<subseteq> objs s1 MAIN" using Cons.prems(2) s1(2) by (simp add: same_objects_def)
  note IH = Cons.IH [OF s1(1) this]
  have "map (\<lambda>x. if e_obj x \<in> set xs then x\<lparr>e_dirty := True\<rparr> else x) (entries s1 MAIN)
      = map (\<lambda>x. if e_obj x \<in> set (a # xs) then x\<lparr>e_dirty := True\<rparr> else x) (entries s MAIN)"
    unfolding s1(5) by (simp add: o_def)
  then show ?case using IH s1 same_objects_trans [OF s1(2)] by (simp add: s1_def [symmetric])
qed simp

lemma dirty_set_lookup:
  assumes inv: "cache_inv env ext s" and s': "s' = nmp_cache_dirty_set_all_main env lookup s"
  shows "cache_inv env ext s' \<and> same_objects s s' \<and> dm_mem s' = dm_mem s \<and> (\<forall>t. map e_ptr (entries s' t) = map e_ptr (entries s t))
    \<and> entries s' MAIN = map (\<lambda>x. if in_part lookup (eval s x) then x\<lparr>e_dirty := True\<rparr> else x) (entries s MAIN)"
proof -
  have sel: "set (map e_obj (nmp_cache_lookup lookup s)) = selected lookup s" using lookup_selected [OF inv, of lookup] by simp
  then have "set (map e_obj (nmp_cache_lookup lookup s)) \<subseteq> objs s MAIN" by (simp only: selected_def) blast
  from dirty_set_all_cache [OF inv this] show ?thesis
    unfolding sel s' nmp_cache_dirty_set_all_main_def by (auto simp: selected_def intro: map_cong)
qed

section \<open>Pruning\<close>

lemma prune_step:
  assumes inv: "cache_inv env ext s" and e: "e \<in> set (entries s MAIN)" "e_dirty e"
    and eq: "nmp_cache_remove env (e_obj e) True True True s = (ops, out, s1)"
  shows "ops = NMP_CACHE_OPS_REMOVED \<and> out = Some (e_obj e) \<and> cache_inv env ext (nm_dedup_multi_obj_unref (e_obj e) s1)
    \<and> (\<forall>b \<in> known ext s. dval s1 b = dval s b) \<and> set (entries s1 MAIN) = set (entries s MAIN) - {e}"
proof -
  note r = cache_remove_correct [OF inv eq]
  have out: "out = Some (e_obj e)" "ops = NMP_CACHE_OPS_REMOVED" "set (entries s1 MAIN) = set (entries s MAIN) - {e}"
    using r main_lookup(1) [OF inv e(1)] e(2) by simp_all
  have "(take_ref out ext)(e_obj e := take_ref out ext (e_obj e) - 1) = ext" by (simp add: out take_ref_def)
  then have "cache_inv env ext (nm_dedup_multi_obj_unref (e_obj e) s1)"
    using cache_inv_unref [of env "take_ref out ext" s1 "e_obj e"] r by (simp add: out take_ref_def)
  then show ?thesis using r out by simp
qed

lemma prune_loop_cache:
  "\<lbrakk>cache_inv env ext s; set xs \<subseteq> objs s MAIN; distinct xs; cache_prune_loop env xs s = (events, s')\<rbrakk> \<Longrightarrow>
    cache_inv env ext s' \<and> (\<forall>b. ext b > 0 \<or> b \<in> objs s' MAIN \<longrightarrow> dval s' b = dval s b)
    \<and> set (entries s' MAIN) = {x \<in> set (entries s MAIN). \<not> (e_obj x \<in> set xs \<and> e_dirty x)}"
proof (induction xs arbitrary: s events)
  case (Cons a xs)
  obtain e where e: "e \<in> set (entries s MAIN)" "e_obj e = a" using Cons.prems(2) by auto
  note m = main_lookup(2) [OF Cons.prems(1) e(1), unfolded e(2)]
  have only: "e_obj x = a \<longleftrightarrow> x = e" if "x \<in> set (entries s MAIN)" for x
    using entry_obj_unique [OF cache_class_ok cache_dedup_inv [OF Cons.prems(1)] e(1) that] e(2) by auto
  show ?case
  proof (cases "e_dirty e")
    case False
    then have "cache_prune_loop env xs s = (events, s')" using Cons.prems(4) m by simp
    note IH = Cons.IH [OF Cons.prems(1) _ _ this]
    then show ?thesis using Cons.prems(2,3) only False by auto
  next
    case True
    obtain ops out s1 where rm: "nmp_cache_remove env (e_obj e) True True True s = (ops, out, s1)" by (metis prod_cases3)
    note P = prune_step [OF Cons.prems(1) e(1) True rm]
    define s2 where "s2 = nm_dedup_multi_obj_unref (e_obj e) s1"
    obtain evs where l: "cache_prune_loop env xs s2 = (evs, s')"
      using Cons.prems(4) m True rm P by (auto simp: Let_def s2_def e(2) split: prod.splits)
    have s2: "cache_inv env ext s2" "set (entries s2 MAIN) = set (entries s MAIN) - {e}" "\<forall>b \<in> known ext s. dval s2 b = dval s b"
      using P by (simp_all add: s2_def)
    have "objs s2 MAIN = objs s MAIN - {a}" using s2(2) objs_without [OF cache_class_ok cache_dedup_inv [OF Cons.prems(1)] e(1)] e(2) by simp
    then have "set xs \<subseteq> objs s2 MAIN" using Cons.prems(2,3) by auto
    note IH = Cons.IH [OF s2(1) this _ l]
    have "objs s' MAIN \<subseteq> objs s MAIN" using IH Cons.prems(3) s2(2) by auto
    then have "\<forall>b. ext b > 0 \<or> b \<in> objs s' MAIN \<longrightarrow> dval s' b = dval s b" using IH Cons.prems(3) s2(3) by (auto simp: known_def)
    moreover have "set (entries s' MAIN) = {x \<in> set (entries s MAIN). \<not> (e_obj x \<in> set (a # xs) \<and> e_dirty x)}"
      using IH Cons.prems(3) s2(2) only True by auto
    ultimately show ?thesis using IH Cons.prems(3) by simp
  qed
qed simp

lemma prune_lookup:
  assumes inv: "cache_inv env ext s" and eq: "cache_prune_one_type env lookup s = (events, s')"
  shows "cache_inv env ext s' \<and> (\<forall>b. ext b > 0 \<or> b \<in> objs s' MAIN \<longrightarrow> dval s' b = dval s b)
    \<and> set (entries s' MAIN) = {x \<in> set (entries s MAIN). \<not> (in_part lookup (eval s x) \<and> e_dirty x)}"
proof -
  have sel: "set (map e_obj (nmp_cache_lookup lookup s)) = selected lookup s" using lookup_selected [OF inv, of lookup] by simp
  then have sub: "set (map e_obj (nmp_cache_lookup lookup s)) \<subseteq> objs s MAIN" by (simp only: selected_def) blast
  have "e_obj x \<in> selected lookup s \<longleftrightarrow> in_part lookup (eval s x)" if "x \<in> set (entries s MAIN)" for x
    using that by (simp add: selected_def)
  then show ?thesis
    using prune_loop_cache [OF inv sub lookup_distinct [OF inv] eq [unfolded cache_prune_one_type_def]] unfolding sel by auto
qed

section \<open>The cache as a store with marks\<close>

text \<open>
  The part of the cache that a lookup selects, as a map from identities to the value and its mark. Receiving an object
  that is alive and in this part puts it there.
\<close>

definition cache_content :: "object_env \<Rightarrow> NMPLookup \<Rightarrow> NMPCache \<Rightarrow> NMPObject \<Rightarrow> (NMPObject \<times> bool) option" where
  "cache_content env lookup s v =
     (case content (cache_class env) MAIN s v of
        Some (w, d) \<Rightarrow> if in_part lookup w then Some (w, d) else None
      | None \<Rightarrow> None)"

lemma cache_content_Some:
  assumes inv: "cache_inv env ext s"
  shows "cache_content env lookup s v = Some (w, d) \<longleftrightarrow>
    (\<exists>e \<in> set (entries s MAIN). nmp_object_id_equal env v (eval s e) \<and> in_part lookup (eval s e) \<and> w = eval s e \<and> d = e_dirty e)"
proof -
  have "cache_content env lookup s v = Some (w, d) \<longleftrightarrow> content (cache_class env) MAIN s v = Some (w, d) \<and> in_part lookup w"
    by (auto simp: cache_content_def split: option.splits if_splits)
  then show ?thesis unfolding content_Some [OF cache_class_ok cache_dedup_inv [OF inv]] main_ident by blast
qed

lemma unref_out_cache:
  "cache_inv env (take_ref out ext) s \<Longrightarrow> cache_inv env ext (unref_out out s)"
  using cache_inv_unref [of env "take_ref out ext" s "the out"] by (cases out) (simp_all add: unref_out_def take_ref_def)

lemma unref_out_sel [simp]:
  "dval (unref_out out s) b = dval s b" "entries (unref_out out s) t = entries s t"
  by (simp_all add: unref_out_def split: option.splits)

lemma event_update_cache:
  assumes inv: "cache_inv env ext s" and ready: "update_ready ext a room s" and s': "s' = event_update_netlink env is_dump (a, room) s"
  shows "cache_inv env ext s' \<and> (\<forall>b \<in> known ext s. dval s' b = dval s b)
    \<and> (\<exists>new. entry_updated env a (nmp_object_is_alive (dval s a)) new s s')"
proof -
  obtain ops old new s1 where eq: "nmp_cache_update_netlink env a room is_dump s = (ops, old, new, s1)" by (metis prod_cases4)
  note r = cache_update_netlink_correct [OF inv ready eq]
  have s': "s' = unref_out old (unref_out new s1)" using s' eq by (simp add: event_update_netlink_def)
  have "cache_inv env ext s'" unfolding s' by (intro unref_out_cache) (rule conjunct1 [OF r])
  then show ?thesis using r by (auto simp: s' entry_updated_def)
qed

lemma in_part_equal:
  assumes "nmp_object_equal env v w" and "in_part lookup v"
  shows "in_part lookup w"
proof -
  obtain t x where lk: "lookup = (t, x)" by (cases lookup)
  have "idx_obj_part t v (Some w)"
    using assms(2) object_equal_part [OF assms(1), of t] object_equal_keys [OF assms(1)]
    by (simp add: in_part_def lk idx_obj_part_iff)
  then show ?thesis using same_part_trans [OF cache_class_ok, of env t x v w] assms(2) by (simp add: in_part_def lk)
qed

lemma entry_updated_content:
  assumes inv: "cache_inv env ext s" and inv': "cache_inv env ext' s'" and val: "\<And>b. b \<in> known ext s \<Longrightarrow> dval s' b = dval s b"
    and up: "entry_updated env a True new s s'" and part: "in_part lookup (dval s a)"
  shows "if nmp_object_id_equal env v (dval s a)
    then \<exists>w. nmp_object_equal env (dval s a) w \<and> cache_content env lookup s' v = Some (w, False)
    else cache_content env lookup s' v = cache_content env lookup s v"
proof -
  obtain e' where e': "\<not> e_dirty e'" "nmp_object_equal env (dval s a) (eval s' e')"
      "set (entries s' MAIN) = insert e' {x \<in> set (entries s MAIN). \<not> nmp_object_id_equal env (dval s a) (eval s x)}"
    using up by (auto simp: entry_updated_def)
  have id: "nmp_object_id_equal env (dval s a) (eval s' e')" using oid.full_id [OF e'(2)] .
  have v: "eval s' x = eval s x" if "x \<in> set (entries s MAIN)" for x using val [of "e_obj x"] that by (simp add: known_def)
  show ?thesis
  proof (cases "nmp_object_id_equal env v (dval s a)")
    case True
    have "nmp_object_id_equal env v (eval s' e')" using oid.id_trans [OF True id] .
    then have "cache_content env lookup s' v = Some (eval s' e', False)"
      unfolding cache_content_Some [OF inv'] using e'(1,3) in_part_equal [OF e'(2) part] by auto
    then show ?thesis using True e'(2) by auto
  next
    case False
    have n1: "\<not> nmp_object_id_equal env v (eval s' e')" using False oid.id_trans [OF _ oid.id_sym [OF id]] by blast
    have n2: "\<not> nmp_object_id_equal env (dval s a) (eval s x)" if "nmp_object_id_equal env v (eval s x)" for x
      using oid.id_trans [OF that oid.id_sym] False by blast
    have "cache_content env lookup s' v = cache_content env lookup s v"
    proof (rule content_eqI)
      fix w d
      show "cache_content env lookup s' v = Some (w, d) \<longleftrightarrow> cache_content env lookup s v = Some (w, d)"
        unfolding cache_content_Some [OF inv] cache_content_Some [OF inv'] e'(3) using n1 n2 v by auto
    qed
    then show ?thesis using False by simp
  qed
qed

lemma dirty_set_mem [simp]: "dm_mem (nmp_cache_dirty_set_all_main env lookup s) = dm_mem s"
proof -
  have "dm_mem (fold (dirty_set_main env) xs s) = dm_mem s" for xs
    by (induction xs arbitrary: s) (simp_all add: dirty_set_main_def nm_dedup_multi_entry_set_dirty_def)
  then show ?thesis by (simp add: nmp_cache_dirty_set_all_main_def)
qed

lemma mark_content:
  assumes inv: "cache_inv env ext s"
  shows "cache_content env lookup (nmp_cache_dirty_set_all_main env lookup s) v = map_option (\<lambda>(w, _). (w, True)) (cache_content env lookup s v)"
proof (rule content_eqI)
  fix w d
  note r = dirty_set_lookup [OF inv refl, of lookup]
  have "cache_content env lookup (nmp_cache_dirty_set_all_main env lookup s) v = Some (w, d) \<longleftrightarrow>
      d \<and> (\<exists>e \<in> set (entries s MAIN). nmp_object_id_equal env v (eval s e) \<and> in_part lookup (eval s e) \<and> w = eval s e)"
  proof -
    have ents: "set (entries (nmp_cache_dirty_set_all_main env lookup s) MAIN)
        = (\<lambda>x. if in_part lookup (eval s x) then x\<lparr>e_dirty := True\<rparr> else x) ` set (entries s MAIN)" using r by simp
    have dv: "dval (nmp_cache_dirty_set_all_main env lookup s) b = dval s b" for b by simp
    have pt: "nmp_object_id_equal env v (eval s (if Q then x\<lparr>e_dirty := True\<rparr> else x)) = nmp_object_id_equal env v (eval s x)"
        "eval s (if Q then x\<lparr>e_dirty := True\<rparr> else x) = eval s x" for Q x by simp_all
    show ?thesis unfolding cache_content_Some [OF conjunct1 [OF r]] ents dv bex_simps(7) pt by auto
  qed
  also have "\<dots> \<longleftrightarrow> d \<and> (\<exists>d'. cache_content env lookup s v = Some (w, d'))"
    unfolding cache_content_Some [OF inv] by blast
  also have "\<dots> \<longleftrightarrow> map_option (\<lambda>(w, _). (w, True)) (cache_content env lookup s v) = Some (w, d)" by auto
  finally show "cache_content env lookup (nmp_cache_dirty_set_all_main env lookup s) v = Some (w, d)
      \<longleftrightarrow> map_option (\<lambda>(w, _). (w, True)) (cache_content env lookup s v) = Some (w, d)" .
qed

lemma prune_content:
  assumes inv: "cache_inv env ext s" and eq: "cache_prune_one_type env lookup s = (events, s')"
  shows "cache_content env lookup s' v = (case cache_content env lookup s v of Some (w, False) \<Rightarrow> Some (w, False) | _ \<Rightarrow> None)"
proof (rule content_eqI)
  fix w d
  note r = prune_lookup [OF inv eq]
  have v: "eval s' x = eval s x" if "x \<in> set (entries s' MAIN)" for x using r that by blast
  have "cache_content env lookup s' v = Some (w, d) \<longleftrightarrow> \<not> d \<and> cache_content env lookup s v = Some (w, d)"
    unfolding cache_content_Some [OF inv] cache_content_Some [OF conjunct1 [OF r]] using r v by auto
  then show "cache_content env lookup s' v = Some (w, d)
      \<longleftrightarrow> (case cache_content env lookup s v of Some (w, False) \<Rightarrow> Some (w, False) | _ \<Rightarrow> None) = Some (w, d)"
    by (auto split: option.splits bool.splits)
qed

definition dump_ready :: "(nat \<Rightarrow> nat) \<Rightarrow> NMPLookup \<Rightarrow> nat \<times> cache_room \<Rightarrow> NMPCache \<Rightarrow> bool" where
  "dump_ready ext lookup msg s \<longleftrightarrow>
     update_ready ext (fst msg) (snd msg) s \<and> nmp_object_is_alive (dval s (fst msg)) \<and> in_part lookup (dval s (fst msg))"

interpretation cache: marked_store "cache_inv env ext" "cache_content env lookup" "nmp_object_id_equal env" "nmp_object_equal env"
  "dump_ready ext lookup" "\<lambda>msg s. ext (fst msg) > 0" "\<lambda>msg s. dval s (fst msg)" "event_update_netlink env True"
  "nmp_cache_dirty_set_all_main env lookup" "\<lambda>s. snd (cache_prune_one_type env lookup s)"
  for env ext lookup
proof
  fix s :: NMPCache and r r' :: "nat \<times> cache_room" and v
  show "dval (nmp_cache_dirty_set_all_main env lookup s) (fst r) = dval s (fst r)" by simp
  assume inv: "cache_inv env ext s"
  show "cache_inv env ext (nmp_cache_dirty_set_all_main env lookup s)" using dirty_set_lookup [OF inv refl] by blast
  show "cache_content env lookup (nmp_cache_dirty_set_all_main env lookup s) v
      = map_option (\<lambda>(w, _). (w, True)) (cache_content env lookup s v)" by (rule mark_content [OF inv])
  obtain events s' where eq: "cache_prune_one_type env lookup s = (events, s')" by fastforce
  show "cache_inv env ext (snd (cache_prune_one_type env lookup s))" using prune_lookup [OF inv eq] by (simp add: eq)
  show "cache_content env lookup (snd (cache_prune_one_type env lookup s)) v
      = (case cache_content env lookup s v of Some (w, False) \<Rightarrow> Some (w, False) | _ \<Rightarrow> None)"
    using prune_content [OF inv eq] by (simp add: eq)
  assume ready: "dump_ready ext lookup r s"
  have rd: "update_ready ext (fst r) (snd r) s" using ready by (simp add: dump_ready_def)
  note U = event_update_cache [OF inv rd refl, of True, unfolded prod.collapse]
  show "cache_inv env ext (event_update_netlink env True r s)" using U by blast
  obtain new where "entry_updated env (fst r) True new s (event_update_netlink env True r s)" using U ready by (auto simp: dump_ready_def)
  then show "if nmp_object_id_equal env v (dval s (fst r))
      then \<exists>w. nmp_object_equal env (dval s (fst r)) w \<and> cache_content env lookup (event_update_netlink env True r s) v = Some (w, False)
      else cache_content env lookup (event_update_netlink env True r s) v = cache_content env lookup s v"
    using entry_updated_content [OF inv _ _ _, of ext "event_update_netlink env True r s" "fst r" new lookup v] U ready
    by (simp add: dump_ready_def)
  assume "ext (fst r') > 0"
  then show "ext (fst r') > 0 \<and> dval (event_update_netlink env True r s) (fst r') = dval s (fst r')" using U by (simp add: known_def)
qed simp

end
