(* ===== verification/NM_Platform_Cache_Run.thy ===== *)
theory NM_Platform_Cache_Run
  imports NM_Platform_Cache_Store
begin

text \<open>
  Updates of routes, whose messages may say that another route was replaced, and the platform cache over all sequences
  of operations.
\<close>

section \<open>Routes\<close>

abbreviation (input) WEAK :: NMPCacheIdType where "WEAK \<equiv> NMP_CACHE_ID_TYPE_ROUTES_BY_WEAK_ID"

lemma route_weak_order_cache:
  assumes inv: "cache_inv env ext s" and eq: "route_weak_order env flags e s = (rep, resync, s')"
  shows "cache_inv env ext s' \<and> same_objects s s' \<and> entries s' MAIN = entries s MAIN"
proof (cases "lookup_entry_with_idx_type env WEAK (e_obj e) s")
  case None
  then show ?thesis using eq inv by (simp add: route_weak_order_def)
next
  case (Some x)
  have x: "x \<in> set (entries s WEAK)"
    using Some entry_lookup_obj_Some [OF cache_class_ok cache_dedup_inv [OF inv]]
    by (simp add: lookup_entry_with_idx_type_def nm_dedup_multi_index_lookup_obj_def)
  have "s' = s \<or> (\<exists>order after. s' = snd (entry_reorder WEAK (e_ptr x) order after s))"
    using eq Some unfolding route_weak_order_def Let_def by (auto split: if_splits)
  then show ?thesis
  proof
    assume "\<exists>order after. s' = snd (entry_reorder WEAK (e_ptr x) order after s)"
    then obtain order after where s': "s' = snd (entry_reorder WEAK (e_ptr x) order after s)" by blast
    note r = entry_reorder_cache [OF inv x s']
    then have "entries s' MAIN = entries s MAIN" by (intro dedup_entries_cong) (simp add: dedup_keeps_def)
    then show ?thesis using r by blast
  qed (use inv in simp)
qed

text \<open>Where no other cached route has the weak identity of a new one, there is none to replace.\<close>

lemma route_weak_order_alone:
  assumes inv: "cache_inv env ext s" and alone: "\<And>y. y \<in> objs s MAIN \<Longrightarrow> in_part (WEAK, dval s (e_obj e)) (dval s y) \<Longrightarrow> y = e_obj e"
    and eq: "route_weak_order env flags e s = (rep, resync, s')"
  shows "rep = None \<and> \<not> resync"
proof (cases "lookup_entry_with_idx_type env WEAK (e_obj e) s")
  case None
  then show ?thesis using eq by (simp add: route_weak_order_def)
next
  case (Some x)
  let ?c = "cache_class env"
  note c = cache_class_ok [of env] and d = cache_dedup_inv [OF inv]
  have x: "x \<in> set (entries s WEAK)" "same_ident ?c WEAK (dval s (e_obj e)) (eval s x)"
    using Some entry_lookup_obj_Some [OF c d] by (auto simp: lookup_entry_with_idx_type_def nm_dedup_multi_index_lookup_obj_def)
  obtain i where i: "entry_head WEAK (e_ptr x) s = Some i" "i < length (lst_idx_head s WEAK)" "x \<in> set (lst_entries (lst_idx_head s WEAK ! i))"
    using entry_head_mem [OF c d x(1)] .
  let ?h = "lst_idx_head s WEAK ! i"
  have h: "head_ok ?c WEAK (eval s) ?h" using d i(2) by (intro parts_ok_nth) (simp_all add: dedup_inv_def)
  have "y = x" if y: "y \<in> set (lst_entries ?h)" for y
  proof -
    have p: "idx_obj_part WEAK (dval s (e_obj e)) (Some (eval s z))" if "z \<in> set (lst_entries ?h)" for z
    proof -
      have "same_part ?c WEAK (eval s x) (eval s z)" using h i(3) that by (simp add: head_ok_def)
      then show ?thesis using same_part_trans [OF c, of WEAK "dval s (e_obj e)" "eval s x" "eval s z"] x(2) by (simp add: same_ident_def)
    qed
    have m: "z \<in> set (entries s WEAK)" if "z \<in> set (lst_entries ?h)" for z using that i(2) nth_mem set_entries by metis
    have "e_obj z = e_obj e" if z: "z \<in> set (lst_entries ?h)" for z
      using alone [of "e_obj z"] p [OF z] other_in_main [OF inv, of WEAK] m [OF z] by (auto simp: in_part_def)
    then have "e_obj y = e_obj x" using y i(3) by simp
    then show "y = x" using entry_obj_unique [OF c d x(1) m [OF y]] by simp
  qed
  moreover have "distinct (lst_entries ?h)" using h by (auto simp: head_ok_def distinct_map)
  ultimately have "length (lst_entries ?h) \<le> card {x}" using distinct_card [of "lst_entries ?h"] by (metis card_mono finite.emptyI finite_insert insertI1 subsetI)
  moreover have "lst_entries ?h \<noteq> []" "he_len ?h = length (lst_entries ?h)" using h by (simp_all add: head_ok_def)
  ultimately have "he_len ?h = 1" by (cases "lst_entries ?h") auto
  then show ?thesis using eq Some i(1) by (simp add: route_weak_order_def Let_def)
qed

lemma route_weak_order_other:
  assumes "nlmsgflags AND NLM_F_REPLACE = 0" and eq: "route_weak_order env nlmsgflags e s = (rep, resync, s')"
  shows "rep = None"
proof -
  have "(nlmsgflags AND (NLM_F_REPLACE OR NLM_F_EXCL OR NLM_F_CREATE OR NLM_F_APPEND)) AND NLM_F_REPLACE = nlmsgflags AND NLM_F_REPLACE"
    by (simp add: and.assoc)
  then have "nlmsgflags AND (NLM_F_REPLACE OR NLM_F_EXCL OR NLM_F_CREATE OR NLM_F_APPEND) \<noteq> NLM_F_REPLACE" using assms(1) by auto
  then show ?thesis using eq unfolding route_weak_order_def Let_def by (auto split: option.splits if_splits)
qed

lemma lookup_all_None:
  assumes inv: "cache_inv env ext s"
  shows "nmp_cache_lookup_all env t a s = None \<longleftrightarrow> selected (t, dval s a) s = {}"
proof (cases "nmp_cache_lookup_all env t a s")
  case None
  then have "nmp_cache_lookup (t, dval s a) s = []" using lookup_all_eq [OF inv, of t a] by simp
  then show ?thesis using None lookup_selected [OF inv, of "(t, dval s a)"] by simp
next
  case (Some h)
  then obtain i where "entry_lookup_head (cache_class env) t a s = Some i" "h = lst_idx_head s t ! i"
    by (auto simp: nmp_cache_lookup_all_def nm_dedup_multi_index_lookup_head_def)
  then have "h \<in> set (lst_idx_head s t)" using entry_lookup_head_Some [OF cache_class_ok cache_dedup_inv [OF inv]] by auto
  then have "lst_entries h \<noteq> []" using cache_dedup_inv [OF inv] by (simp add: dedup_inv_def parts_ok_def head_ok_def)
  moreover have "nmp_cache_lookup (t, dval s a) s = lst_entries h" using lookup_all_eq [OF inv, of t a] Some by simp
  ultimately show ?thesis using Some lookup_selected [OF inv, of "(t, dval s a)"] by auto
qed

lemma route_update_cache:
  assumes inv: "cache_inv env ext s" and ready: "update_ready ext a room s" and alive: "alive \<Longrightarrow> nmp_object_is_alive (dval s a)"
    and eq: "route_update env (nmp_cache_lookup_entry env a s) a room is_dump alive s = (ops, en, s')"
  shows "cache_inv env ext s' \<and> (\<forall>b \<in> known ext s. dval s' b = dval s b) \<and> (\<exists>new. entry_updated env a alive new s s')
    \<and> (\<forall>x. en = Some x \<longrightarrow> alive \<and> e_obj x \<in> known ext s' \<and> entry_updated env a True (Some (e_obj x)) s s')
    \<and> ops = update_ops env (map_option (eval s) (nmp_cache_lookup_entry env a s)) (dval s a) alive"
proof -
  obtain fo fe where room: "room = (fo, fe)" by (cases room) auto
  have rd: "ext a > 0" "o_ref_count (dm_mem s fo) = 0" "\<And>t x. x \<in> set (entries s t) \<Longrightarrow> e_ptr x \<noteq> fe t"
    using ready by (auto simp: update_ready_def room)
  show ?thesis
  proof (cases "nmp_cache_lookup_entry env a s")
    case None
    show ?thesis
    proof (cases alive)
      case False
      have "{x \<in> set (entries s MAIN). \<not> nmp_object_id_equal env (dval s a) (eval s x)} = set (entries s MAIN)"
        using lookup_entry_None [OF inv] None by blast
      then show ?thesis using eq None False inv by (auto simp: route_update_def entry_updated_def update_ops_def)
    next
      case True
      obtain en' s1 where u: "idxcache_update env None (Some (a, fo, fe)) is_dump s = (en', s1)" by fastforce
      have df: "\<not> nmp_object_equal env (eval s x) (dval s a)" if "nmp_cache_lookup_entry env a s = Some x" for x using that None by simp
      note U = update_replaces [OF inv rd alive [OF True] df u [folded None]]
      have r: "ops = NMP_CACHE_OPS_ADDED" "en = en'" "s' = s1" using eq None True u by (auto simp: route_update_def room)
      show ?thesis using U None True by (auto simp: r update_ops_def)
    qed
  next
    case (Some e)
    show ?thesis
    proof (cases alive)
      case False
      obtain en' s1 where u: "idxcache_update env (Some e) None False s = (en', s1)" by fastforce
      have r: "ops = NMP_CACHE_OPS_REMOVED" "en = None" "s' = s1" using eq Some False u by (auto simp: route_update_def)
      show ?thesis using update_removes [OF inv Some u] Some False by (auto simp: r update_ops_def)
    next
      case True
      show ?thesis
      proof (cases "nmp_object_equal env (eval s e) (dval s a)")
        case same: True
        have r: "ops = NMP_CACHE_OPS_UNCHANGED" "en = None"
            "s' = nm_dedup_multi_entry_set_dirty MAIN (e_ptr e) False (if is_dump then idxcache_update_order_for_dump env e s else s)"
          using eq Some True same by (auto simp: route_update_def)
        show ?thesis using update_known [OF inv Some same r(3)] Some True same by (auto simp: r(1,2) update_ops_def)
      next
        case False
        obtain en' s1 where u: "idxcache_update env (Some e) (Some (a, fo, fe)) is_dump s = (en', s1)" by fastforce
        have df: "\<not> nmp_object_equal env (eval s x) (dval s a)" if "nmp_cache_lookup_entry env a s = Some x" for x using that False Some by simp
        note U = update_replaces [OF inv rd alive [OF True] df u [folded Some]]
        have r: "ops = NMP_CACHE_OPS_UPDATED" "en = en'" "s' = s1" using eq Some True False u by (auto simp: route_update_def room)
        show ?thesis using U Some True False by (auto simp: r update_ops_def)
      qed
    qed
  qed
qed

text \<open>
  The whole update of a route. \<^verbatim>\<open>route_conflict\<close> is the condition under which a message that replaced another route
  is not applied, but the cache has to be filled anew.
\<close>

definition route_conflict :: "nat \<Rightarrow> u16 \<Rightarrow> NMPCache \<Rightarrow> bool" where
  "route_conflict a nlmsgflags s \<longleftrightarrow>
     nlmsgflags AND NLM_F_REPLACE \<noteq> 0
     \<and> \<not> (obj_type (dval s a) = NMP_OBJECT_TYPE_IP4_ROUTE \<and> selected (WEAK, dval s a) s = {})"

lemma route_update_alone:
  assumes inv: "cache_inv env ext s" and inv': "cache_inv env ext' s'" and val: "\<And>b. b \<in> known ext s \<Longrightarrow> dval s' b = dval s b"
    and up: "entry_updated env a True (Some n) s s'" and none: "selected (WEAK, dval s a) s = {}"
    and y: "y \<in> objs s' MAIN" "in_part (WEAK, dval s' n) (dval s' y)"
  shows "y = n"
proof (rule ccontr)
  assume ne: "y \<noteq> n"
  obtain e' where e': "e_obj e' = n" "nmp_object_equal env (dval s a) (dval s' n)"
      "set (entries s' MAIN) = insert e' {x \<in> set (entries s MAIN). \<not> nmp_object_id_equal env (dval s a) (eval s x)}"
    using up by (auto simp: entry_updated_def)
  have ys: "y \<in> objs s MAIN" using y(1) ne e'(1) unfolding e'(3) by auto
  have v: "dval s' y = dval s y" using val [of y] ys by (simp add: known_def)
  have "in_part (WEAK, dval s a) (dval s y)"
    using y(2) object_equal_part [OF e'(2), of WEAK] object_equal_keys [OF e'(2)]
      equivp_transp [OF equivp_part_key, of WEAK "dval s a" "dval s' n" "dval s y"]
    by (simp add: in_part_def idx_obj_part_iff v)
  then show False using none ys by (auto simp: selected_def)
qed

lemma cache_update_route_correct:
  assumes inv: "cache_inv env ext s" and ready: "update_ready ext a room s"
    and eq: "nmp_cache_update_netlink_route env a room is_dump nlmsgflags route_is_alive s = (ops, old, new, rep, resync, s')"
  shows "if route_conflict a nlmsgflags s then (ops, old, new, rep, resync, s') = (NMP_CACHE_OPS_UNCHANGED, None, None, None, True, s)
    else cache_inv env (take_ref new (take_ref old ext)) s' \<and> (\<forall>b \<in> known ext s. dval s' b = dval s b) \<and> rep = None
      \<and> old = map_option e_obj (nmp_cache_lookup_entry env a s)
      \<and> (\<exists>new'. entry_updated env a (route_is_alive \<and> nmp_object_is_alive (dval s a)) new' s s')
      \<and> ops = update_ops env (map_option (eval s) (nmp_cache_lookup_entry env a s)) (dval s a)
          (route_is_alive \<and> nmp_object_is_alive (dval s a))"
proof (cases "route_conflict a nlmsgflags s")
  case True
  then show ?thesis using eq lookup_all_None [OF inv, of WEAK a] by (simp add: nmp_cache_update_netlink_route_def route_conflict_def)
next
  case False
  let ?al = "route_is_alive \<and> nmp_object_is_alive (dval s a)"
  define out where "out = map_option e_obj (nmp_cache_lookup_entry env a s)"
  define s0 where "s0 = (case out of Some b \<Rightarrow> nm_dedup_multi_obj_ref b s | None \<Rightarrow> s)"
  have s0: "cache_inv env (take_ref out ext) s0" "update_ready (take_ref out ext) a room s0"
      "nmp_cache_lookup_entry env a s0 = nmp_cache_lookup_entry env a s" "\<And>b. dval s0 b = dval s b" "\<And>t. entries s0 t = entries s t"
      "known ext s \<subseteq> known (take_ref out ext) s0"
  proof -
    have "cache_inv env (take_ref out ext) s0 \<and> update_ready (take_ref out ext) a room s0"
    proof (cases out)
      case (Some b)
      then have "b \<in> known ext s" using lookup_entry_Some [OF inv, of a] by (auto simp: out_def known_def)
      then show ?thesis using cache_inv_take_ref [OF inv] update_ready_ref [OF inv ready] Some by (simp add: s0_def)
    qed (use inv ready in \<open>simp add: s0_def\<close>)
    then show "cache_inv env (take_ref out ext) s0" "update_ready (take_ref out ext) a room s0" by simp_all
  qed (auto simp: s0_def known_def take_ref_def split: option.splits)
  obtain ops1 en s1 where u: "route_update env (nmp_cache_lookup_entry env a s) a room is_dump ?al s0 = (ops1, en, s1)" by (metis prod_cases3)
  note U = route_update_cache [OF s0(1,2) _ u [folded s0(3)], unfolded s0(3,4)]
  have U: "cache_inv env (take_ref out ext) s1" "\<And>b. b \<in> known (take_ref out ext) s0 \<Longrightarrow> dval s1 b = dval s b"
      "\<exists>new'. entry_updated env a ?al new' s0 s1"
      "\<And>x. en = Some x \<Longrightarrow> ?al \<and> e_obj x \<in> known (take_ref out ext) s1 \<and> entry_updated env a True (Some (e_obj x)) s0 s1"
      "ops1 = update_ops env (map_option (eval s) (nmp_cache_lookup_entry env a s)) (dval s a) ?al"
    using U by (auto simp: s0(4))
  have upd: "entry_updated env a al nw s0 t = entry_updated env a al nw s t" for al nw t by (simp add: entry_updated_def s0(4,5))
  have early: "\<not> (nlmsgflags AND NLM_F_REPLACE \<noteq> 0 \<and> \<not> (obj_type (dval s a) = NMP_OBJECT_TYPE_IP4_ROUTE
      \<and> nmp_cache_lookup_all env WEAK a s = None))"
    using False lookup_all_None [OF inv, of WEAK a] by (simp add: route_conflict_def)
  show ?thesis
  proof (cases en)
    case None
    have r: "ops = ops1" "old = out" "new = None" "rep = None" "s' = s1"
      using eq u None early unfolding nmp_cache_update_netlink_route_def Let_def out_def [symmetric] s0_def [symmetric]
      by (auto simp: s0(4))
    show ?thesis using U False s0(6) unfolding r upd by (auto simp: out_def)
  next
    case (Some x)
    define s2 where "s2 = nm_dedup_multi_obj_ref (e_obj x) s1"
    obtain rp rs s3 where w: "(if is_dump then (None, False, s2) else route_weak_order env nlmsgflags x s2) = (rp, rs, s3)" by (metis prod_cases3)
    have inv2: "cache_inv env (take_ref (Some (e_obj x)) (take_ref out ext)) s2"
      using cache_inv_take_ref [OF U(1)] U(4) [OF Some] by (simp add: s2_def)
    have s3: "cache_inv env (take_ref (Some (e_obj x)) (take_ref out ext)) s3 \<and> same_objects s2 s3 \<and> entries s3 MAIN = entries s2 MAIN"
      using w inv2 route_weak_order_cache [OF inv2, of nlmsgflags x rp rs s3] by (auto split: if_splits)
    have "rp = None"
    proof (cases "is_dump \<or> nlmsgflags AND NLM_F_REPLACE = 0")
      case True
      then show ?thesis using w route_weak_order_other [of nlmsgflags env x s2 rp rs s3] by (auto split: if_splits)
    next
      case False
      then have sel: "selected (WEAK, dval s a) s = {}" using \<open>\<not> route_conflict a nlmsgflags s\<close> by (simp add: route_conflict_def)
      have al: "y = e_obj x" if "y \<in> objs s2 MAIN" "in_part (WEAK, dval s2 (e_obj x)) (dval s2 y)" for y
        using route_update_alone [OF inv U(1) _ _ sel, of "e_obj x" y] U(2,4) s0(6) upd that Some by (auto simp: s2_def)
      show ?thesis using route_weak_order_alone [OF inv2 al] w False by auto
    qed
    have r: "ops = ops1" "old = out" "new = Some (e_obj x)" "rep = None" "s' = s3"
      using eq u Some early w \<open>rp = None\<close> unfolding nmp_cache_update_netlink_route_def Let_def out_def [symmetric] s0_def [symmetric]
      by (auto simp: s0(4) s2_def [symmetric] w cong: if_cong)
    have d3: "dval s3 b = dval s1 b" for b using s3 by (simp add: same_objects_def s2_def)
    have "entry_updated env a ?al nw s0 s3 = entry_updated env a ?al nw s0 s1" for nw
      using s3 by (simp add: entry_updated_def d3 s2_def)
    then have "\<exists>new'. entry_updated env a ?al new' s s3" using U(3) upd by simp
    moreover have "\<forall>b \<in> known ext s. dval s3 b = dval s b" using U(2) s0(6) d3 by auto
    ultimately show ?thesis using False s3 U(5) unfolding r by (simp add: out_def)
  qed
qed

section \<open>All runs\<close>

text \<open>
  What happens to a cache: objects are made, references to them taken and dropped, and the operations called.
  \<^verbatim>\<open>ext a\<close> is the number of references that users hold to the object at \<^verbatim>\<open>a\<close>.
\<close>

inductive cache_run :: "object_env \<Rightarrow> NMPCache \<Rightarrow> (nat \<Rightarrow> nat) \<Rightarrow> bool" for env where
  new: "\<lbrakk>\<forall>a. o_multi_idx (mem a) \<noteq> Some self; \<forall>a. o_ref_count (mem a) = 0\<rbrakk> \<Longrightarrow>
    cache_run env (nmp_cache_new (nm_dedup_multi_index_new self mem)) (\<lambda>_. 0)"
| object: "\<lbrakk>cache_run env s ext; o_ref_count (dm_mem s a) = 0\<rbrakk> \<Longrightarrow>
    cache_run env (s\<lparr>dm_mem := (dm_mem s)(a := \<lparr>o_val = v, o_multi_idx = None, o_ref_count = 1\<rparr>)\<rparr>) (ext(a := 1))"
| ref: "\<lbrakk>cache_run env s ext; ext a > 0 \<or> a \<in> objs s MAIN\<rbrakk> \<Longrightarrow> cache_run env (nm_dedup_multi_obj_ref a s) (ext(a := ext a + 1))"
| unref: "\<lbrakk>cache_run env s ext; ext a > 0\<rbrakk> \<Longrightarrow> cache_run env (nm_dedup_multi_obj_unref a s) (ext(a := ext a - 1))"
| update: "\<lbrakk>cache_run env s ext; update_ready ext a room s; nmp_cache_update_netlink env a room is_dump s = (ops, old, new, s')\<rbrakk> \<Longrightarrow>
    cache_run env s' (take_ref new (take_ref old ext))"
| update_route: "\<lbrakk>cache_run env s ext; update_ready ext a room s; obj_type (dval s a) \<in> {NMP_OBJECT_TYPE_IP4_ROUTE, NMP_OBJECT_TYPE_IP6_ROUTE};
    nmp_cache_update_netlink_route env a room is_dump nlmsgflags alive s = (ops, old, new, rep, resync, s')\<rbrakk> \<Longrightarrow>
    cache_run env s' (take_ref rep (take_ref new (take_ref old ext)))"
| remove: "\<lbrakk>cache_run env s ext; nmp_cache_remove env a by_ptr only_dirty want s = (ops, out, s')\<rbrakk> \<Longrightarrow>
    cache_run env s' (take_ref out ext)"
| remove_netlink: "\<lbrakk>cache_run env s ext; nmp_cache_remove_netlink env a s = (ops, old, new, s')\<rbrakk> \<Longrightarrow>
    cache_run env s' (take_ref new (take_ref old ext))"
| mark: "cache_run env s ext \<Longrightarrow> cache_run env (nmp_cache_dirty_set_all_main env lookup s) ext"
| prune: "\<lbrakk>cache_run env s ext; cache_prune_one_type env lookup s = (events, s')\<rbrakk> \<Longrightarrow> cache_run env s' ext"

lemma cache_inv_new:
  assumes "\<forall>a. o_multi_idx (mem a) \<noteq> Some self" and "\<forall>a. o_ref_count (mem a) = 0"
  shows "cache_inv env (\<lambda>_. 0) (nmp_cache_new (nm_dedup_multi_index_new self mem))"
proof -
  let ?s = "nm_dedup_multi_index_new self mem :: NMPCache"
  have fold: "dedup_inv (cache_class env) ext (fold nm_dedup_multi_idx_type_init ts s) \<and> (\<forall>t. entries (fold nm_dedup_multi_idx_type_init ts s) t = [])
      \<and> set (dm_types (fold nm_dedup_multi_idx_type_init ts s)) = set ts \<union> set (dm_types s)"
    if "dedup_inv (cache_class env) ext s" "\<forall>t. entries s t = []" "distinct ts" "set ts \<inter> set (dm_types s) = {}" for ts s ext
    using that
  proof (induction ts arbitrary: s)
    case (Cons t ts)
    have "dm_types (nm_dedup_multi_idx_type_init t s) = List.insert t (dm_types s)"
      "\<forall>t'. entries (nm_dedup_multi_idx_type_init t s) t' = []" using Cons.prems(2) by (simp_all add: nm_dedup_multi_idx_type_init_def entries_def)
    then show ?case using Cons.IH [of "nm_dedup_multi_idx_type_init t s"] dedup_inv_idx_type [OF Cons.prems(1), of t] Cons.prems(3,4) by auto
  qed simp
  have "distinct cache_id_types" and all: "set cache_id_types = UNIV" using NMPCacheIdType.exhaust by (auto simp: cache_id_types_def)
  moreover have "\<forall>t. entries ?s t = []" "dm_types ?s = []" by (simp_all add: nm_dedup_multi_index_new_def entries_def)
  ultimately have f: "dedup_inv (cache_class env) (\<lambda>_. 0) (fold nm_dedup_multi_idx_type_init cache_id_types ?s)"
      "\<And>t. entries (fold nm_dedup_multi_idx_type_init cache_id_types ?s) t = []"
      "set (dm_types (fold nm_dedup_multi_idx_type_init cache_id_types ?s)) = UNIV"
    using fold [OF dedup_inv_new [OF assms], of cache_id_types] by auto
  have "entries (nmp_cache_new ?s) t = []" for t
    using f(2) [of t] unfolding nmp_cache_new_def Let_def entries_def by simp
  then show ?thesis using f(1,3) by (simp add: cache_inv_def nmp_cache_new_def Let_def)
qed

lemma cache_run_inv: "cache_run env s ext \<Longrightarrow> cache_inv env ext s"
proof (induction rule: cache_run.induct)
  case (new mem self)
  then show ?case by (rule cache_inv_new)
next
  case (object s ext a v)
  let ?s = "s\<lparr>dm_mem := (dm_mem s)(a := \<lparr>o_val = v, o_multi_idx = None, o_ref_count = 1\<rparr>)\<rparr>"
  have dead: "a \<notin> set (idx_objs s)" using dedup_inv_dead [OF cache_dedup_inv [OF object.IH] object.hyps(2)] by simp
  have d: "dedup_inv (cache_class env) (ext(a := 1)) ?s" using dead by (intro dedup_inv_mem [OF cache_dedup_inv [OF object.IH]]) auto
  have ent: "entries ?s t = entries s t" for t by (simp add: entries_def)
  have ne: "b \<noteq> a" if "b \<in> objs s t" for b t using that dead index_objects(1) [OF cache_dedup_inv [OF object.IH]] by auto
  have val: "dval ?s b = dval s b" if "b \<in> objs s t" for b t using ne [OF that] by simp
  have "objs ?s t = {b \<in> objs ?s MAIN. idx_obj_part t (dval ?s b) None}" if t: "t \<noteq> MAIN" for t
  proof -
    have "objs s t = {b \<in> objs s MAIN. idx_obj_part t (dval s b) None}" using object.IH t unfolding cache_inv_def by blast
    also have "\<dots> = {b \<in> objs s MAIN. idx_obj_part t (dval ?s b) None}" using val by (intro Collect_cong conj_cong refl) simp
    finally show ?thesis unfolding ent .
  qed
  moreover have "nmp_object_is_alive (dval ?s b)" if "b \<in> objs s MAIN" for b
    unfolding val [OF that] using cache_alive [OF object.IH] that by blast
  ultimately show ?case using d object.IH unfolding cache_inv_def ent by simp
next
  case (ref s ext a)
  then show ?case by (intro cache_inv_ref) (auto simp: known_def)
next
  case (update_route s ext a room is_dump nlmsgflags alive ops old new rep resync s')
  show ?case using cache_update_route_correct [OF update_route.IH update_route.hyps(2,4)] update_route.IH by (auto split: if_splits)
next
  case (remove_netlink s ext a ops old new s')
  have "nmp_cache_remove env a False False True s = (ops, old, s') \<and> new = None"
    using remove_netlink.hyps(2) by (auto simp: nmp_cache_remove_netlink_def nmp_cache_remove_def Let_def split: option.splits)
  then show ?case using cache_remove_correct [OF remove_netlink.IH] by (metis take_ref_None)
next
  case (mark s ext lookup)
  show ?case using dirty_set_lookup [OF mark.IH refl] by blast
next
  case (unref s ext a)
  show ?case by (rule cache_inv_unref [OF unref.IH unref.hyps(2)])
next
  case (update s ext a room is_dump ops old new s')
  show ?case using cache_update_netlink_correct [OF update.IH update.hyps(2,3)] by blast
next
  case (remove s ext a by_ptr only_dirty want ops out s')
  show ?case using cache_remove_correct [OF remove.IH remove.hyps(2)] by blast
next
  case (prune s ext lookup events s')
  show ?case using prune_lookup [OF prune.IH prune.hyps(2)] by blast
qed

end
