(* ===== verification/NM_Platform_Cache_Spec.thy ===== *)
theory NM_Platform_Cache_Spec
  imports NM_Platform_Cache_Run
begin

text \<open>
  What the platform cache promises: it is a map from identities to values with marks, which updates change at one
  identity and dumps replace in one part; its lookups return what they select; and all runs keep its index types in
  step. The witnesses run on a cache with one MPTCP endpoint.
\<close>

section \<open>The cache as a map from identities to objects\<close>

abbreviation cached :: "object_env \<Rightarrow> NMPCache \<Rightarrow> NMPObject \<Rightarrow> (NMPObject \<times> bool) option" where
  "cached env \<equiv> content (cache_class env) MAIN"

lemma cached_Some:
  assumes inv: "cache_inv env ext s"
  shows "cached env s v = Some (w, d) \<longleftrightarrow> (\<exists>e \<in> set (entries s MAIN). nmp_object_id_equal env v (eval s e) \<and> w = eval s e \<and> d = e_dirty e)"
  unfolding content_Some [OF cache_class_ok cache_dedup_inv [OF inv]] main_ident ..

lemma lookup_entry_cached:
  assumes inv: "cache_inv env ext s"
  shows "map_option (eval s) (nmp_cache_lookup_entry env a s) = map_option fst (cached env s (dval s a))"
  unfolding content_lookup [OF cache_class_ok cache_dedup_inv [OF inv], of MAIN a, symmetric]
  by (simp add: nmp_cache_lookup_entry_def lookup_entry_with_idx_type_def option.map_comp comp_def)

lemma update_cached:
  assumes inv: "cache_inv env ext s" and inv': "cache_inv env ext' s'" and val: "\<And>b. b \<in> known ext s \<Longrightarrow> dval s' b = dval s b"
    and up: "entry_updated env a alive new s s'"
  shows "cached env s' v = (if nmp_object_id_equal env v (dval s a) then map_option (\<lambda>n. (dval s' n, False)) new else cached env s v)
    \<and> (\<forall>n. new = Some n \<longrightarrow> nmp_object_equal env (dval s a) (dval s' n)) \<and> (new \<noteq> None \<longleftrightarrow> alive)"
proof -
  let ?rest = "{x \<in> set (entries s MAIN). \<not> nmp_object_id_equal env (dval s a) (eval s x)}"
  have v: "eval s' x = eval s x" if "x \<in> set (entries s MAIN)" for x using val [of "e_obj x"] that by (simp add: known_def)
  have rest: "(\<exists>e \<in> ?rest. nmp_object_id_equal env v (eval s' e) \<and> w = eval s' e \<and> d = e_dirty e)
      \<longleftrightarrow> \<not> nmp_object_id_equal env v (dval s a) \<and> cached env s v = Some (w, d)" for w d
  proof -
    have key: "nmp_object_id_equal env (dval s a) (eval s x) \<longleftrightarrow> nmp_object_id_equal env v (dval s a)" if "nmp_object_id_equal env v (eval s x)" for x
      using that oid.id_trans oid.id_sym by blast
    have "(\<exists>e \<in> ?rest. nmp_object_id_equal env v (eval s' e) \<and> w = eval s' e \<and> d = e_dirty e)
        \<longleftrightarrow> (\<exists>e \<in> set (entries s MAIN). \<not> nmp_object_id_equal env (dval s a) (eval s e) \<and> nmp_object_id_equal env v (eval s e)
          \<and> w = eval s e \<and> d = e_dirty e)" using v by fastforce
    also have "\<dots> \<longleftrightarrow> (\<exists>e \<in> set (entries s MAIN). \<not> nmp_object_id_equal env v (dval s a) \<and> nmp_object_id_equal env v (eval s e)
          \<and> w = eval s e \<and> d = e_dirty e)" using key by blast
    finally show ?thesis unfolding cached_Some [OF inv] by blast
  qed
  show ?thesis
  proof (cases alive)
    case False
    then have n: "new = None" "set (entries s' MAIN) = ?rest" using up by (simp_all add: entry_updated_def)
    have "cached env s' v = (if nmp_object_id_equal env v (dval s a) then None else cached env s v)"
      by (rule content_eqI) (simp add: cached_Some [OF inv'] n(2) rest [simplified])
    then show ?thesis using False n(1) by simp
  next
    case True
    then obtain e' where n: "new = Some (e_obj e')" "\<not> e_dirty e'" "nmp_object_equal env (dval s a) (eval s' e')" "set (entries s' MAIN) = insert e' ?rest"
      using up by (auto simp: entry_updated_def)
    have id: "nmp_object_id_equal env v (eval s' e') \<longleftrightarrow> nmp_object_id_equal env v (dval s a)"
      using oid.full_id [OF n(3)] oid.id_trans oid.id_sym by metis
    have "cached env s' v = (if nmp_object_id_equal env v (dval s a) then Some (eval s' e', False) else cached env s v)"
    proof (rule content_eqI)
      fix w d
      have "cached env s' v = Some (w, d) \<longleftrightarrow>
          (nmp_object_id_equal env v (dval s a) \<and> w = eval s' e' \<and> \<not> d) \<or> (\<not> nmp_object_id_equal env v (dval s a) \<and> cached env s v = Some (w, d))"
        unfolding cached_Some [OF inv'] n(4) bex_simps(5) rest id using n(2) by blast
      then show "cached env s' v = Some (w, d) \<longleftrightarrow>
          (if nmp_object_id_equal env v (dval s a) then Some (eval s' e', False) else cached env s v) = Some (w, d)" by auto
    qed
    then show ?thesis using True n(1,3) by simp
  qed
qed

lemma mark_cached:
  assumes inv: "cache_inv env ext s"
  shows "cached env (nmp_cache_dirty_set_all_main env lookup s) v = map_option (\<lambda>(w, d). (w, d \<or> in_part lookup w)) (cached env s v)"
proof (rule content_eqI)
  fix w d
  note r = dirty_set_lookup [OF inv refl, of lookup]
  let ?m = "\<lambda>x. if in_part lookup (eval s x) then x\<lparr>e_dirty := True\<rparr> else x"
  have ents: "set (entries (nmp_cache_dirty_set_all_main env lookup s) MAIN) = ?m ` set (entries s MAIN)" using r by simp
  have ev: "eval (nmp_cache_dirty_set_all_main env lookup s) (?m x) = eval s x" "e_dirty (?m x) = (e_dirty x \<or> in_part lookup (eval s x))" for x by simp_all
  have "cached env (nmp_cache_dirty_set_all_main env lookup s) v = Some (w, d) \<longleftrightarrow>
      (\<exists>e \<in> set (entries s MAIN). nmp_object_id_equal env v (eval s e) \<and> w = eval s e \<and> d = (e_dirty e \<or> in_part lookup (eval s e)))"
    unfolding cached_Some [OF conjunct1 [OF r]] ents bex_simps(7) ev ..
  also have "\<dots> \<longleftrightarrow> (\<exists>d'. cached env s v = Some (w, d') \<and> d = (d' \<or> in_part lookup w))" unfolding cached_Some [OF inv] by blast
  also have "\<dots> \<longleftrightarrow> map_option (\<lambda>(w, d). (w, d \<or> in_part lookup w)) (cached env s v) = Some (w, d)" by auto
  finally show "cached env (nmp_cache_dirty_set_all_main env lookup s) v = Some (w, d) \<longleftrightarrow>
      map_option (\<lambda>(w, d). (w, d \<or> in_part lookup w)) (cached env s v) = Some (w, d)" .
qed

lemma prune_cached:
  assumes inv: "cache_inv env ext s" and eq: "cache_prune_one_type env lookup s = (events, s')"
  shows "cached env s' v = (case cached env s v of Some (w, d) \<Rightarrow> if d \<and> in_part lookup w then None else Some (w, d) | None \<Rightarrow> None)"
proof (rule content_eqI)
  fix w d
  note r = prune_lookup [OF inv eq]
  have ev: "eval s' x = eval s x" if "x \<in> set (entries s' MAIN)" for x using r that by blast
  have "cached env s' v = Some (w, d) \<longleftrightarrow>
      (\<exists>e \<in> set (entries s' MAIN). nmp_object_id_equal env v (eval s e) \<and> w = eval s e \<and> d = e_dirty e)"
    unfolding cached_Some [OF conjunct1 [OF r]] using ev by fastforce
  also have "\<dots> \<longleftrightarrow> cached env s v = Some (w, d) \<and> \<not> (d \<and> in_part lookup w)" unfolding cached_Some [OF inv] using r by blast
  finally show "cached env s' v = Some (w, d) \<longleftrightarrow>
      (case cached env s v of Some (w, d) \<Rightarrow> if d \<and> in_part lookup w then None else Some (w, d) | None \<Rightarrow> None) = Some (w, d)"
    by (auto split: option.splits if_splits)
qed

lemma events_cached:
  assumes "cache_inv env ext s" and "\<forall>i < length msgs. update_ready ext (fst (msgs ! i)) (snd (msgs ! i)) (fold (event_update_netlink env is_dump) (take i msgs) s)"
    and "\<forall>m \<in> set msgs. \<not> nmp_object_id_equal env v (dval s (fst m))"
  shows "cache_inv env ext (fold (event_update_netlink env is_dump) msgs s) \<and> cached env (fold (event_update_netlink env is_dump) msgs s) v = cached env s v"
  using assms
proof (induction msgs arbitrary: s)
  case (Cons m msgs)
  let ?s = "event_update_netlink env is_dump m s"
  have rd: "update_ready ext (fst ((m # msgs) ! i)) (snd ((m # msgs) ! i)) (fold (event_update_netlink env is_dump) (take i (m # msgs)) s)"
    if "i < Suc (length msgs)" for i using Cons.prems(2) that by simp
  have rd0: "update_ready ext (fst m) (snd m) s" using rd [of 0] by simp
  have rdS: "update_ready ext (fst (msgs ! i)) (snd (msgs ! i)) (fold (event_update_netlink env is_dump) (take i msgs) ?s)"
    if "i < length msgs" for i using rd [of "Suc i"] that by simp
  have held: "ext (fst m') > 0" if "m' \<in> set msgs" for m' using that rdS by (metis in_set_conv_nth update_ready_def)
  obtain new where U: "cache_inv env ext ?s" "\<And>b. b \<in> known ext s \<Longrightarrow> dval ?s b = dval s b"
      "entry_updated env (fst m) (nmp_object_is_alive (dval s (fst m))) new s ?s"
    using event_update_cache [OF Cons.prems(1) rd0 refl, of is_dump] by auto
  have "cached env ?s v = cached env s v" using update_cached [OF Cons.prems(1) U, of v] Cons.prems(3) by simp
  moreover have "\<forall>m' \<in> set msgs. \<not> nmp_object_id_equal env v (dval ?s (fst m'))" using Cons.prems(3) held U(2) by (simp add: known_def)
  ultimately show ?case using Cons.IH [OF U(1)] rdS by simp
qed simp

lemma count_list_distinct: "distinct xs \<Longrightarrow> count_list xs a = (if a \<in> set xs then 1 else 0)"
  by (induction xs) auto

lemma finite_id_types: "finite (UNIV :: NMPCacheIdType set)"
  using NMPCacheIdType.exhaust by (intro finite_subset [OF _ finite_set [of cache_id_types]]) (auto simp: cache_id_types_def)

section \<open>A small cache\<close>

definition cache_mem0 :: "nat \<Rightarrow> NMPObject dobj" where
  "cache_mem0 a = \<lparr>o_val = NMP_MPTCP_ADDR \<lparr>mp_ifindex = 0, mp_id = 0, mp_flags = 0, mp_port = 0, mp_addr = [], mp_addr_family = 0\<rparr>,
     o_multi_idx = None, o_ref_count = 0\<rparr>"

definition mptcp_addr :: "int \<Rightarrow> u16 \<Rightarrow> u32 \<Rightarrow> NMPObject" where
  "mptcp_addr ifindex port mptcp_id = NMP_MPTCP_ADDR \<lparr>mp_ifindex = ifindex, mp_id = mptcp_id, mp_flags = 0, mp_port = port,
     mp_addr = [], mp_addr_family = NM_AF_UNSPEC\<rparr>"

definition cache_with :: "nat \<Rightarrow> NMPObject \<Rightarrow> NMPCache \<Rightarrow> NMPCache" where
  "cache_with a v s = s\<lparr>dm_mem := (dm_mem s)(a := \<lparr>o_val = v, o_multi_idx = None, o_ref_count = 1\<rparr>)\<rparr>"

definition cache1 :: NMPCache where
  "cache1 = cache_with 12 (mptcp_addr 3 2 1) (cache_with 11 (mptcp_addr 3 1 2) (cache_with 10 (mptcp_addr 3 1 1)
     (nmp_cache_new (nm_dedup_multi_index_new 7 cache_mem0))))"

definition cache_ext1 :: "nat \<Rightarrow> nat" where
  "cache_ext1 = (\<lambda>_. 0)(10 := 1, 11 := 1, 12 := 1)"

definition cache_env :: object_env where
  "cache_env = (\<lambda>_. True, \<lambda>_. 0, \<lambda>seed xs. seed + word_of_int (sum_list xs))"

lemma cache1_run: "cache_run cache_env cache1 cache_ext1"
proof -
  let ?n = "nmp_cache_new (nm_dedup_multi_index_new 7 cache_mem0)"
  have mem: "dm_mem ?n = cache_mem0"
    by (simp add: nmp_cache_new_def cache_id_types_def nm_dedup_multi_index_new_def nm_dedup_multi_idx_type_init_def)
  have r0: "cache_run cache_env ?n (\<lambda>_. 0)" by (rule cache_run.new) (simp_all add: cache_mem0_def)
  have r1: "cache_run cache_env (cache_with 10 (mptcp_addr 3 1 1) ?n) ((\<lambda>_. 0)(10 := 1))"
    unfolding cache_with_def by (rule cache_run.object [OF r0]) (simp add: mem cache_mem0_def)
  have r2: "cache_run cache_env (cache_with 11 (mptcp_addr 3 1 2) (cache_with 10 (mptcp_addr 3 1 1) ?n)) ((\<lambda>_. 0)(10 := 1, 11 := 1))"
    unfolding cache_with_def [of 11] by (rule cache_run.object [OF r1]) (simp add: cache_with_def mem cache_mem0_def)
  show ?thesis unfolding cache1_def cache_ext1_def cache_with_def [of 12]
    by (rule cache_run.object [OF r2]) (simp add: cache_with_def mem cache_mem0_def)
qed

lemma cache1_sel:
  "entries cache1 t = []" "lst_idx_head cache1 t = []" "dval cache1 10 = mptcp_addr 3 1 1" "dval cache1 11 = mptcp_addr 3 1 2"  "dval cache1 12 = mptcp_addr 3 2 1"
  "dm_self cache1 = 7" "idx_objs cache1 = []" "idx_len cache1 t = 0"
  "dm_mem cache1 10 = \<lparr>o_val = mptcp_addr 3 1 1, o_multi_idx = None, o_ref_count = 1\<rparr>"
  "dm_mem cache1 11 = \<lparr>o_val = mptcp_addr 3 1 2, o_multi_idx = None, o_ref_count = 1\<rparr>"
  "dm_mem cache1 12 = \<lparr>o_val = mptcp_addr 3 2 1, o_multi_idx = None, o_ref_count = 1\<rparr>"
  "a \<notin> {10, 11, 12} \<Longrightarrow> o_ref_count (dm_mem cache1 a) = 0"
  by (simp_all add: cache1_def cache_with_def cache_mem0_def nmp_cache_new_def cache_id_types_def
      nm_dedup_multi_index_new_def nm_dedup_multi_idx_type_init_def entries_def)

lemma mptcp_parts [simp]:
  "idx_obj_part MAIN (mptcp_addr i p n) x = (case x of Some b \<Rightarrow> NMP_OBJECT_TYPE_MPTCP_ADDR = obj_type b | None \<Rightarrow> True)"
  "idx_obj_part NMP_CACHE_ID_TYPE_OBJECT_BY_IFINDEX (mptcp_addr i p n) None"
  "idx_obj_part NMP_CACHE_ID_TYPE_OBJECT_BY_IFINDEX (mptcp_addr i p n) (Some (mptcp_addr j q m)) = (i = j)"
  "obj_type (mptcp_addr i p n) = NMP_OBJECT_TYPE_MPTCP_ADDR" "nmp_object_is_alive (mptcp_addr i p n)"
  "obj_get_add_mode (mptcp_addr i p n) = NM_DEDUP_MULTI_IDX_MODE_APPEND"
  by (simp_all add: mptcp_addr_def idx_obj_part_def nmp_object_is_visible_def nmp_object_is_alive_def obj_with_ifindex_def obj_get_add_mode_def split: option.split)

lemma mptcp_equal [simp]:
  "nmp_object_id_equal env (mptcp_addr i p n) (mptcp_addr j q m) = (i = j \<and> p = q)"
  "nmp_object_equal env (mptcp_addr i p n) (mptcp_addr j q m) = (i = j \<and> p = q \<and> n = m)"
  by (cases env; auto simp: mptcp_addr_def nmp_object_id_equal_def nmp_object_equal_def nmp_object_cmp_full_def vt_cmd_plobj_id_cmp_mptcp_addr_def
     nm_platform_mptcp_addr_cmp_def nm_cmp_memcmp_def nm_utils_addr_family_to_size_untrusted_def)+


lemma cache_class_functions [simp]:
  "idx_obj_partition_equal (cache_class env) t = Some (\<lambda>a b. idx_obj_part t a (Some b))" "obj_needs_clone (cache_class env) v = False"
  by (simp_all add: cache_class_def)

lemmas add_eval = nm_dedup_multi_index_add_full_def entry_lookup_obj_def entry_lookup_head_def add_new_def
  nm_dedup_multi_index_obj_intern_def nm_dedup_multi_index_obj_find_def nm_dedup_multi_obj_needs_clone_def entry_link_def
  set_head_def nm_dedup_multi_obj_ref_def

text \<open>The cache after the object at 10 was received, first in the index type \<^verbatim>\<open>OBJECT_TYPE\<close> alone.\<close>

abbreviation (input) BY_IFINDEX :: NMPCacheIdType where "BY_IFINDEX \<equiv> NMP_CACHE_ID_TYPE_OBJECT_BY_IFINDEX"

definition cache_head :: NMDedupMultiHeadEntry where
  "cache_head = \<lparr>lst_entries = [\<lparr>e_ptr = 30, e_obj = 10, e_dirty = False\<rparr>], he_len = 1\<rparr>"

definition cache_main :: NMPCache where
  "cache_main = cache1\<lparr>dm_mem := (dm_mem cache1)(10 := \<lparr>o_val = mptcp_addr 3 1 1, o_multi_idx = Some 7, o_ref_count = 2\<rparr>),
     idx_objs := [10], lst_idx_head := (lst_idx_head cache1)(MAIN := [cache_head]), idx_len := (idx_len cache1)(MAIN := 1)\<rparr>"

definition cache2 :: NMPCache where
  "cache2 = cache1\<lparr>dm_mem := (dm_mem cache1)(10 := \<lparr>o_val = mptcp_addr 3 1 1, o_multi_idx = Some 7, o_ref_count = 3\<rparr>),
     idx_objs := [10], lst_idx_head := (lst_idx_head cache1)(MAIN := [cache_head], BY_IFINDEX := [cache_head]),
     idx_len := (idx_len cache1)(MAIN := 1, BY_IFINDEX := 1)\<rparr>"

lemma cache_main_sel:
  "entries cache_main MAIN = [\<lparr>e_ptr = 30, e_obj = 10, e_dirty = False\<rparr>]" "entries cache_main BY_IFINDEX = []"
  "dval cache_main 10 = mptcp_addr 3 1 1" "dm_self cache_main = 7" "lst_idx_head cache_main BY_IFINDEX = []" "idx_len cache_main BY_IFINDEX = 0"
  "idx_objs cache_main = [10]" "dm_mem cache_main 10 = \<lparr>o_val = mptcp_addr 3 1 1, o_multi_idx = Some 7, o_ref_count = 2\<rparr>"
  by (simp_all add: cache_main_def cache_head_def entries_def cache1_sel)

lemma cache2_sel:
  "entries cache2 MAIN = [\<lparr>e_ptr = 30, e_obj = 10, e_dirty = False\<rparr>]" "x \<in> set (entries cache2 t) \<Longrightarrow> e_ptr x = 30"
  "dval cache2 10 = mptcp_addr 3 1 1" "dval cache2 11 = mptcp_addr 3 1 2" "dval cache2 12 = mptcp_addr 3 2 1"
  "o_ref_count (dm_mem cache2 21) = 0"
proof -
  have ents: "entries cache2 t = (if t = MAIN \<or> t = BY_IFINDEX then [\<lparr>e_ptr = 30, e_obj = 10, e_dirty = False\<rparr>] else [])" for t
    by (simp add: cache2_def cache_head_def entries_def cache1_sel(2))
  show "entries cache2 MAIN = [\<lparr>e_ptr = 30, e_obj = 10, e_dirty = False\<rparr>]" by (simp add: ents)
  show "e_ptr x = 30" if "x \<in> set (entries cache2 t)" using that by (simp add: ents split: if_splits)
  show "dval cache2 10 = mptcp_addr 3 1 1" "dval cache2 11 = mptcp_addr 3 1 2" "dval cache2 12 = mptcp_addr 3 2 1"
    by (simp_all add: cache2_def cache1_sel)
  show "o_ref_count (dm_mem cache2 21) = 0" using cache1_sel(12) [of 21] by (simp add: cache2_def)
qed

lemma cache1_update:
  "nmp_cache_update_netlink cache_env 10 (20, \<lambda>_. 30) False cache1 = (NMP_CACHE_OPS_ADDED, None, Some 10, nm_dedup_multi_obj_ref 10 cache2)"
proof -
  have "nm_dedup_multi_index_add_full (cache_class cache_env) 20 30 MAIN 10 NM_DEDUP_MULTI_IDX_MODE_APPEND None True cache1
      = (True, Some 30, None, cache_main)"
    by (simp add: add_eval cache1_sel cache_main_def cache_head_def numeral_2_eq_2)
  moreover have "nm_dedup_multi_index_add_full (cache_class cache_env) 20 30 BY_IFINDEX 10 NM_DEDUP_MULTI_IDX_MODE_APPEND None False cache_main
      = (True, Some 30, None, cache2)"
    by (simp add: add_eval cache_main_sel) (simp add: cache_main_def cache2_def cache_head_def numeral_3_eq_3)
  moreover have "nm_dedup_multi_index_lookup_obj (cache_class cache_env) BY_IFINDEX 10 cache_main = None"
    by (simp add: add_eval cache_main_sel nm_dedup_multi_index_lookup_obj_def)
  ultimately have "idxcache_update cache_env None (Some (10, 20, \<lambda>_. 30)) False cache1 = (Some \<lparr>e_ptr = 30, e_obj = 10, e_dirty = False\<rparr>, cache2)"
    by (simp add: idxcache_update_def cache1_sel supported_cache_ids_def idxcache_update_other_cache_ids_def cache_main_sel entry_at_def)
  moreover have "nmp_cache_lookup_entry cache_env 10 cache1 = None"
    by (simp add: nmp_cache_lookup_entry_def lookup_entry_with_idx_type_def nm_dedup_multi_index_lookup_obj_def add_eval cache1_sel)
  ultimately show ?thesis by (simp add: nmp_cache_update_netlink_def cache1_sel)
qed

lemma cache2_run: "cache_run cache_env cache2 cache_ext1"
proof -
  have "update_ready cache_ext1 10 (20, \<lambda>_. 30) cache1" using cache1_sel(12) [of 20] by (simp add: update_ready_def cache_ext1_def cache1_sel)
  note r = cache_run.update [OF cache1_run this cache1_update]
  have "cache_run cache_env (nm_dedup_multi_obj_unref 10 (nm_dedup_multi_obj_ref 10 cache2)) cache_ext1"
    using cache_run.unref [OF r, of 10] by (simp add: take_ref_def)
  moreover have "nm_dedup_multi_obj_unref 10 (nm_dedup_multi_obj_ref 10 cache2) = cache2"
    by (simp add: nm_dedup_multi_obj_unref_def nm_dedup_multi_obj_ref_def cache2_def)
  ultimately show ?thesis by simp
qed

lemma cache2_ready: "a \<in> {11, 12} \<Longrightarrow> update_ready cache_ext1 a (21, \<lambda>_. 31) cache2"
  using cache2_sel(2) by (fastforce simp: update_ready_def cache_ext1_def cache2_sel(6))

lemma update_ready_marks:
  assumes "update_ready ext a room s" and "dm_mem s' = dm_mem s" and "\<forall>t. map e_ptr (entries s' t) = map e_ptr (entries s t)"
  shows "update_ready ext a room s'"
proof -
  have "e_ptr ` set (entries s' t) = e_ptr ` set (entries s t)" for t using assms(3) by (metis list.set_map)
  then show ?thesis using assms(1,2) unfolding update_ready_def by (metis (no_types, lifting) image_eqI image_iff)
qed

lemma cached_cache2: "cached cache_env cache2 (mptcp_addr 3 1 n) = Some (mptcp_addr 3 1 1, False)"
  by (simp add: content_def cache2_sel main_ident)

section \<open>Properties\<close>

text \<open>
  C4. Every run of the cache keeps its index types in step: all cached objects are alive; no two have the same
  identity; every further index type has exactly the cached objects that it can partition, each once; and the reference
  counter of a cached object is the number of index types that have it and of the references that users hold.
\<close>

theorem cache_run_invariant:
  assumes "cache_run env s ext"
  shows "(\<forall>a \<in> objs s MAIN. nmp_object_is_alive (dval s a))
    \<and> (\<forall>a \<in> objs s MAIN. \<forall>b \<in> objs s MAIN. nmp_object_id_equal env (dval s a) (dval s b) \<longrightarrow> a = b)
    \<and> (\<forall>t. t \<noteq> MAIN \<longrightarrow> objs s t = {a \<in> objs s MAIN. idx_obj_part t (dval s a) None})
    \<and> (\<forall>t. distinct (map e_obj (entries s t)))
    \<and> (\<forall>a \<in> objs s MAIN. o_ref_count (dm_mem s a) = card {t. a \<in> objs s t} + ext a)"
proof -
  have inv: "cache_inv env ext s" using cache_run_inv [OF assms] .
  note c = cache_class_ok [of env] and d = cache_dedup_inv [OF inv]
  have dist: "distinct (map e_obj (entries s t))" for t
  proof -
    have "distinct (map e_ptr (entries s t))" unfolding entries_def by (rule parts_ok_distinct [of "cache_class env" t "eval s"]) (use d in \<open>simp add: dedup_inv_def\<close>)
    moreover have "inj_on e_obj (set (entries s t))" by (rule inj_onI) (use entry_obj_unique [OF c d] in blast)
    ultimately show ?thesis by (simp add: distinct_map)
  qed
  have uniq: "a = b" if ab: "a \<in> objs s MAIN" "b \<in> objs s MAIN" "nmp_object_id_equal env (dval s a) (dval s b)" for a b
  proof -
    obtain x y where xy: "x \<in> set (entries s MAIN)" "a = e_obj x" "y \<in> set (entries s MAIN)" "b = e_obj y" using ab by auto
    have "x = y" by (rule dedup_inv_unique [OF c d xy(1,3)]) (use ab(3) xy in \<open>simp add: main_ident\<close>)
    then show ?thesis using xy by simp
  qed
  have cnt: "o_ref_count (dm_mem s a) = card {t. a \<in> objs s t} + ext a" if a: "a \<in> objs s MAIN" for a
  proof -
    have "entry_refs s a = (\<Sum>t \<in> UNIV. count_list (map e_obj (entries s t)) a)" using inv by (simp add: entry_refs_def cache_inv_def)
    also have "\<dots> = (\<Sum>t \<in> UNIV. if a \<in> objs s t then 1 else 0)"
      by (intro sum.cong refl) (use count_list_distinct [OF dist] in simp)
    also have "\<dots> = card {t. a \<in> objs s t}" using finite_id_types by (simp add: sum.If_cases)
    finally have r: "entry_refs s a = card {t. a \<in> objs s t}" .
    have ok: "dobjs_ok (cache_class env) (\<lambda>a. entry_refs s a + ext a) s" using d by (simp add: dedup_inv_def)
    have "a \<in> set (idx_objs s)" using index_objects(1) [OF d] a by blast
    then have "o_ref_count (dm_mem s a) = entry_refs s a + ext a" using ok unfolding dobjs_ok_def by (metis less_numeral_extra(3))
    then show ?thesis using r by simp
  qed
  have parts: "\<forall>a \<in> objs s MAIN. nmp_object_is_alive (dval s a)"
    "\<forall>t. t \<noteq> MAIN \<longrightarrow> objs s t = {a \<in> objs s MAIN. idx_obj_part t (dval s a) None}"
    by (rule inv [unfolded cache_inv_def, THEN conjunct2, THEN conjunct2, THEN conjunct1]
        inv [unfolded cache_inv_def, THEN conjunct2, THEN conjunct2, THEN conjunct2])+
  show ?thesis
  proof (intro conjI)
    show "\<forall>a \<in> objs s MAIN. \<forall>b \<in> objs s MAIN. nmp_object_id_equal env (dval s a) (dval s b) \<longrightarrow> a = b" by (intro ballI impI uniq)
    show "\<forall>t. distinct (map e_obj (entries s t))" by (intro allI dist)
    show "\<forall>a \<in> objs s MAIN. o_ref_count (dm_mem s a) = card {t. a \<in> objs s t} + ext a" by (intro ballI cnt)
  qed (rule parts)+
qed

theorem cache_run_invariant_witness:
  "o_ref_count (dm_mem cache2 10) = card {t. 10 \<in> objs cache2 t} + 1 \<and> objs cache2 NMP_CACHE_ID_TYPE_OBJECT_BY_IFINDEX = {10}"
proof -
  note w = cache_run_invariant [OF cache2_run]
  have "BY_IFINDEX \<noteq> MAIN" by simp
  then have "objs cache2 BY_IFINDEX = {a \<in> objs cache2 MAIN. idx_obj_part BY_IFINDEX (dval cache2 a) None}" using w by blast
  moreover have "o_ref_count (dm_mem cache2 10) = card {t. 10 \<in> objs cache2 t} + cache_ext1 10"
    using w by (auto simp: cache2_sel)
  ultimately show ?thesis by (simp add: cache2_sel cache_ext1_def Collect_conv_if)
qed

text \<open>
  C5. Updating the cache with an object from netlink is a map update. The identity of the object gets the value, without
  a mark, or is dropped where the object is not alive; all others stay. The caller learns what happened, and gets
  the object that was there and the one that is there now.
\<close>

theorem cache_update_netlink_refines:
  assumes run: "cache_run env s ext" and ready: "update_ready ext a room s"
    and eq: "nmp_cache_update_netlink env a room is_dump s = (ops, old, new, s')"
  shows "(\<forall>v. cached env s' v = (if nmp_object_id_equal env v (dval s a) then map_option (\<lambda>n. (dval s' n, False)) new else cached env s v))
    \<and> (new \<noteq> None \<longleftrightarrow> nmp_object_is_alive (dval s a)) \<and> (\<forall>n. new = Some n \<longrightarrow> nmp_object_equal env (dval s a) (dval s' n))
    \<and> map_option (dval s') old = map_option fst (cached env s (dval s a))
    \<and> ops = (case cached env s (dval s a) of
        None \<Rightarrow> if new \<noteq> None then NMP_CACHE_OPS_ADDED else NMP_CACHE_OPS_UNCHANGED
      | Some (w, _) \<Rightarrow> if new = None then NMP_CACHE_OPS_REMOVED
          else if nmp_object_equal env w (dval s a) then NMP_CACHE_OPS_UNCHANGED else NMP_CACHE_OPS_UPDATED)"
proof -
  note inv = cache_run_inv [OF run]
  have U: "cache_inv env (take_ref new (take_ref old ext)) s'" "\<And>b. b \<in> known ext s \<Longrightarrow> dval s' b = dval s b"
      "entry_updated env a (nmp_object_is_alive (dval s a)) new s s'" "old = map_option e_obj (nmp_cache_lookup_entry env a s)"
      "ops = update_ops env (map_option (eval s) (nmp_cache_lookup_entry env a s)) (dval s a) (nmp_object_is_alive (dval s a))"
    using cache_update_netlink_correct [OF inv ready eq] by auto
  note C = update_cached [OF inv U(1-3)]
  have "map_option (dval s') old = map_option (eval s) (nmp_cache_lookup_entry env a s)"
    using lookup_entry_Some [OF inv, of a] U(2) by (cases "nmp_cache_lookup_entry env a s") (auto simp: U(4) known_def)
  moreover have al: "new \<noteq> None \<longleftrightarrow> nmp_object_is_alive (dval s a)" using C by blast
  moreover have "ops = (case cached env s (dval s a) of
        None \<Rightarrow> if new \<noteq> None then NMP_CACHE_OPS_ADDED else NMP_CACHE_OPS_UNCHANGED
      | Some (w, _) \<Rightarrow> if new = None then NMP_CACHE_OPS_REMOVED
          else if nmp_object_equal env w (dval s a) then NMP_CACHE_OPS_UNCHANGED else NMP_CACHE_OPS_UPDATED)"
    unfolding U(5) lookup_entry_cached [OF inv] al [symmetric] update_ops_def by (cases "cached env s (dval s a)") (simp_all split: prod.split)
  ultimately show ?thesis using C lookup_entry_cached [OF inv, of a] by (intro conjI allI) (simp_all add: C)
qed

theorem cache_update_netlink_refines_witness:
  "case nmp_cache_update_netlink cache_env 11 (21, \<lambda>_. 31) False cache2 of (ops, old, new, s') \<Rightarrow>
     ops = NMP_CACHE_OPS_UPDATED \<and> (\<exists>n. new = Some n \<and> cached cache_env s' (mptcp_addr 3 1 1) = Some (dval s' n, False))"
proof -
  obtain ops old new s' where eq: "nmp_cache_update_netlink cache_env 11 (21, \<lambda>_. 31) False cache2 = (ops, old, new, s')" by (metis prod_cases4)
  have rd: "update_ready cache_ext1 11 (21, \<lambda>_. 31) cache2" by (rule cache2_ready) simp
  note w = cache_update_netlink_refines [OF cache2_run rd eq, unfolded cache2_sel(4)]
  obtain n where n: "new = Some n" using w by auto
  show ?thesis using w unfolding eq by (simp add: n cached_cache2)
qed

text \<open>
  C17. A lookup returns, each once, exactly the cached objects that the lookup selects by its type and selector: it needs
  no search, because the index type of the lookup has them as one partition.
\<close>

theorem cache_lookup_correct:
  assumes "cache_run env s ext"
  shows "e_obj ` set (nmp_cache_lookup (t, selector) s) = {a \<in> objs s MAIN. idx_obj_part t selector (Some (dval s a))}
    \<and> distinct (map e_obj (nmp_cache_lookup (t, selector) s))"
  using lookup_selected [OF cache_run_inv [OF assms], of "(t, selector)"] lookup_distinct [OF cache_run_inv [OF assms], of "(t, selector)"]
  by (simp add: selected_def in_part_def)

theorem cache_lookup_correct_witness:
  "e_obj ` set (nmp_cache_lookup (NMP_CACHE_ID_TYPE_OBJECT_BY_IFINDEX, mptcp_addr 3 9 9) cache2) = {10}
   \<and> e_obj ` set (nmp_cache_lookup (NMP_CACHE_ID_TYPE_OBJECT_BY_IFINDEX, mptcp_addr 4 9 9) cache2) = {}"
  using cache_lookup_correct [OF cache2_run, of BY_IFINDEX "mptcp_addr 3 9 9"] cache_lookup_correct [OF cache2_run, of BY_IFINDEX "mptcp_addr 4 9 9"]
  by (simp add: cache2_sel Collect_conv_if)

text \<open>
  C2. Refreshing a part of the cache from a dump: mark what a lookup selects, receive the objects of the dump, which
  are in this part, and prune what is still marked. Then the part has, unmarked, exactly the identities of the dump with
  the value that was received last; what it had before is gone. Objects outside of the part stay, unless the dump has
  their identity.
\<close>

theorem cache_dump_sync:
  assumes run: "cache_run env s ext"
    and ready: "\<forall>i < length msgs. dump_ready ext lookup (msgs ! i)
        (fold (event_update_netlink env True) (take i msgs) (nmp_cache_dirty_set_all_main env lookup s))"
    and eq: "cache_prune_one_type env lookup
        (fold (event_update_netlink env True) msgs (nmp_cache_dirty_set_all_main env lookup s)) = (events, s')"
  shows "case List.find (\<lambda>msg. nmp_object_id_equal env v (dval s (fst msg))) (rev msgs) of
      Some msg \<Rightarrow> \<exists>w. nmp_object_equal env (dval s (fst msg)) w \<and> cached env s' v = Some (w, False)
    | None \<Rightarrow> cached env s' v = (case cached env s v of
        Some (w, d) \<Rightarrow> if idx_obj_part (fst lookup) (snd lookup) (Some w) then None else Some (w, d) | None \<Rightarrow> None)"
proof -
  note inv = cache_run_inv [OF run]
  let ?m = "nmp_cache_dirty_set_all_main env lookup s" and ?f = "event_update_netlink env True"
  note m = conjunct1 [OF dirty_set_lookup [OF inv refl, of lookup]]
  have up: "\<forall>i < length msgs. update_ready ext (fst (msgs ! i)) (snd (msgs ! i)) (fold ?f (take i msgs) ?m)"
    using ready by (simp add: dump_ready_def)
  then have held: "\<forall>msg \<in> set msgs. ext (fst msg) > 0" by (metis in_set_conv_nth update_ready_def)
  note sync = cache.mark_and_sweep [OF inv ready held, of v, unfolded eq snd_conv]
  have sub: "cached env s' v = Some (w, d)" if "cache_content env lookup s' v = Some (w, d)" for w d
    using that by (auto simp: cache_content_def split: option.splits if_splits)
  show ?thesis
  proof (cases "List.find (\<lambda>msg. nmp_object_id_equal env v (dval s (fst msg))) (rev msgs)")
    case (Some msg)
    then show ?thesis using sync sub by auto
  next
    case None
    have no: "\<forall>msg \<in> set msgs. \<not> nmp_object_id_equal env v (dval ?m (fst msg))" using None by (simp add: find_None_iff del: split_paired_Ex split_paired_All)
    note E = events_cached [OF m up no]
    have "cached env s' v = (case cached env s v of Some (w, d) \<Rightarrow> if in_part lookup w then None else Some (w, d) | None \<Rightarrow> None)"
      using prune_cached [OF conjunct1 [OF E] eq, of v] mark_cached [OF inv, of lookup v] E by (auto split: option.splits)
    then show ?thesis using None unfolding in_part_def by simp
  qed
qed

theorem cache_dump_sync_witness:
  "case cache_prune_one_type cache_env (NMP_CACHE_ID_TYPE_OBJECT_BY_IFINDEX, mptcp_addr 3 9 9) (event_update_netlink cache_env True (12, 21, \<lambda>_. 31)
       (nmp_cache_dirty_set_all_main cache_env (NMP_CACHE_ID_TYPE_OBJECT_BY_IFINDEX, mptcp_addr 3 9 9) cache2)) of (events, s') \<Rightarrow>
     cached cache_env s' (mptcp_addr 3 1 1) = None \<and> (\<exists>w. cached cache_env s' (mptcp_addr 3 2 7) = Some (w, False))"
proof -
  let ?lk = "(NMP_CACHE_ID_TYPE_OBJECT_BY_IFINDEX, mptcp_addr 3 9 9)" and ?msg = "(12, 21, \<lambda>_. 31) :: nat \<times> cache_room"
  let ?m = "nmp_cache_dirty_set_all_main cache_env ?lk cache2"
  obtain events s' where eq: "cache_prune_one_type cache_env ?lk (fold (event_update_netlink cache_env True) [?msg] ?m) = (events, s')" by fastforce
  have "update_ready cache_ext1 12 (21, \<lambda>_. 31) ?m"
    using cache2_ready [of 12] dirty_set_lookup [OF cache_run_inv [OF cache2_run] refl, of ?lk] by (metis update_ready_marks insertCI)
  then have ready: "\<forall>i < length [?msg]. dump_ready cache_ext1 ?lk ([?msg] ! i) (fold (event_update_netlink cache_env True) (take i [?msg]) ?m)"
    by (simp add: dump_ready_def cache2_sel in_part_def)
  note w = cache_dump_sync [OF cache2_run ready eq]
  show ?thesis using w [of "mptcp_addr 3 1 1"] w [of "mptcp_addr 3 2 7"] eq by (simp add: cache2_sel cached_cache2) blast
qed

text \<open>
  C16. An update of a route never reports that another route was replaced. A message that asks to replace (other than for
  an IPv4 route whose weak identity no cached route has) changes nothing and asks for a refresh; every other message is the
  same map update as for other objects, and it moves the route in its weak-id partition only.
\<close>

theorem cache_update_route_refines:
  assumes run: "cache_run env s ext" and ready: "update_ready ext a room s"
    and eq: "nmp_cache_update_netlink_route env a room is_dump nlmsgflags route_is_alive s = (ops, old, new, rep, resync, s')"
    and alive: "alive \<longleftrightarrow> route_is_alive \<and> nmp_object_is_alive (dval s a)"
  shows "rep = None
    \<and> (if route_conflict a nlmsgflags s then ops = NMP_CACHE_OPS_UNCHANGED \<and> old = None \<and> new = None \<and> resync \<and> s' = s
       else (\<exists>w. nmp_object_equal env (dval s a) w
             \<and> (\<forall>v. cached env s' v = (if \<not> nmp_object_id_equal env v (dval s a) then cached env s v else if alive then Some (w, False) else None)))
         \<and> ops = update_ops env (map_option fst (cached env s (dval s a))) (dval s a) alive)"
proof (cases "route_conflict a nlmsgflags s")
  case True
  then show ?thesis using cache_update_route_correct [OF cache_run_inv [OF run] ready eq] by simp
next
  case False
  note inv = cache_run_inv [OF run]
  obtain new' where U: "cache_inv env (take_ref new (take_ref old ext)) s'" "\<And>b. b \<in> known ext s \<Longrightarrow> dval s' b = dval s b"
      "entry_updated env a alive new' s s'" "rep = None"
      "ops = update_ops env (map_option fst (cached env s (dval s a))) (dval s a) alive"
    using cache_update_route_correct [OF inv ready eq] False by (auto simp: alive lookup_entry_cached [OF inv])
  note C = update_cached [OF inv U(1-3)]
  show ?thesis
  proof (cases new')
    case None
    have "\<not> alive" using C None by simp
    moreover have "nmp_object_equal env (dval s a) (dval s a)" by (rule oid.full_refl)
    ultimately show ?thesis using C None False U(4,5) by (auto intro!: exI [of _ "dval s a"])
  next
    case (Some n)
    have "alive" using C Some by simp
    moreover have "nmp_object_equal env (dval s a) (dval s' n)" using C Some by simp
    moreover have "cached env s' v = (if \<not> nmp_object_id_equal env v (dval s a) then cached env s v else Some (dval s' n, False))" for v
      using C Some by simp
    ultimately show ?thesis using False U(4,5) by auto
  qed
qed

theorem cache_update_route_refines_witness:
  "case nmp_cache_update_netlink_route cache_env 13 (21, \<lambda>_. 31) False 0x600 True
       (cache_with 13 (NMP_IP4_ROUTE blank_ip4_route []) cache2) of (ops, old, new, rep, resync, s') \<Rightarrow>
     ops = NMP_CACHE_OPS_ADDED \<and> rep = None \<and> (\<exists>w. cached cache_env s' (NMP_IP4_ROUTE blank_ip4_route []) = Some (w, False))
     \<and> cached cache_env s' (mptcp_addr 3 1 1) = Some (mptcp_addr 3 1 1, False)"
proof -
  let ?r = "NMP_IP4_ROUTE blank_ip4_route []" let ?s = "cache_with 13 ?r cache2" let ?x = "cache_ext1(13 := 1)"
  have "o_ref_count (dm_mem cache2 13) = 0" using cache1_sel(12) [of 13] by (simp add: cache2_def)
  then have run: "cache_run cache_env ?s ?x" unfolding cache_with_def by (rule cache_run.object [OF cache2_run])
  have ent: "entries ?s t = entries cache2 t" for t by (simp add: cache_with_def entries_def)
  have ready: "update_ready ?x 13 (21, \<lambda>_. 31) ?s"
  proof -
    have "e_ptr x \<noteq> 31" if "x \<in> set (entries cache2 t)" for x t using cache2_sel(2) [OF that] by simp
    moreover have "o_ref_count (dm_mem ?s 21) = 0" by (simp add: cache_with_def cache2_sel(6))
    ultimately show ?thesis by (simp add: update_ready_def ent)
  qed
  obtain ops old new rep resync s' where eq:
    "nmp_cache_update_netlink_route cache_env 13 (21, \<lambda>_. 31) False 0x600 True ?s = (ops, old, new, rep, resync, s')" by (metis prod_cases6)
  have v: "dval ?s 13 = ?r" by (simp add: cache_with_def)
  have al: "True \<longleftrightarrow> True \<and> nmp_object_is_alive (dval ?s 13)" unfolding v by (simp add: nmp_object_is_alive_def)
  have nc: "\<not> route_conflict 13 0x600 ?s" by (simp add: route_conflict_def)
  have id: "nmp_object_id_equal cache_env ?r ?r" by (rule oid.id_refl)
  have ni: "\<not> nmp_object_id_equal cache_env (mptcp_addr 3 1 1) ?r" "\<not> nmp_object_id_equal cache_env ?r (mptcp_addr 3 1 1)"
    using cache_id_type [of cache_env "mptcp_addr 3 1 1" ?r] cache_id_type [of cache_env ?r "mptcp_addr 3 1 1"] by auto
  have old_v: "dval ?s 10 = mptcp_addr 3 1 1" by (simp add: cache_with_def cache2_sel)
  have c: "cached cache_env ?s ?r = None" "cached cache_env ?s (mptcp_addr 3 1 1) = Some (mptcp_addr 3 1 1, False)"
    unfolding content_def ent cache2_sel(1) main_ident by (simp_all add: old_v ni del: fun_upd_apply)
  note R = cache_update_route_refines [OF run ready eq al, unfolded if_not_P [OF nc] v if_True]
  obtain w where
      w: "rep = None" "\<And>v. cached cache_env s' v = (if \<not> nmp_object_id_equal cache_env v ?r then cached cache_env ?s v else Some (w, False))"
        "ops = update_ops cache_env (map_option fst (cached cache_env ?s ?r)) ?r True"
    using R by blast
  show ?thesis unfolding eq using w(1) w(2) [of ?r] w(2) [of "mptcp_addr 3 1 1"] w(3) id ni c by (simp add: update_ops_def)
qed

end
