(* ===== verification/Spec2Isabelle.thy ===== *)
theory Spec2Isabelle
  imports NM_Prioq NM_Lndp NM_Tracker_Run NM_Search NM_Env_Var NM_Base64 NM_Hexstr NM_Names NM_Paths NM_Env_File NM_Lldp_Rx NM_Dedup_Index
    NM_Platform_Cache_Spec
begin

text \<open>
  \<^bold>\<open>Verification of parts of NetworkManager.\<close>

  NetworkManager is a daemon that configures the network interfaces of a Linux host. Its devices and its
  layer 3 configuration (\<^verbatim>\<open>src/core\<close>) collect what shall be configured from profiles, DHCP and IPv6 router
  advertisements; the platform library (\<^verbatim>\<open>src/libnm-platform\<close>) keeps a cache of what the kernel has and
  sends requests to it; both rest on utility libraries (\<^verbatim>\<open>src/libnm-glib-aux\<close>, \<^verbatim>\<open>src/libnm-std-aux\<close>).
  The development models the parts that keep a state of their own and decide something that is hard to see
  from their interface: neighbor discovery, the tracker of routes and rules, the receiver of LLDP frames, the index of
  deduplicated objects, the platform cache over it and the priority queue, and the utility functions for lists,
  objects and untrusted text that the others rest on.

  \<^bold>\<open>Theories.\<close>

  \<^item> \<open>NM_Prelude\<close>: the names of the C integer types and limits, division and wrap-around of C, the
    three-way comparisons of \<^verbatim>\<open>NM_CMP_DIRECT\<close> and \<^verbatim>\<open>memcmp\<close>, and the locale \<open>compare_order\<close> of
    what a comparison function has to satisfy.
  \<^item> \<open>NM_Prioq\<close>: \<^verbatim>\<open>libnm-glib-aux/nm-prioq.c\<close>. The record \<open>NMPrioq\<close> is the array of items, its capacity
    and a store of the index variables of the callers. The functions \<^verbatim>\<open>nm_prioq_put\<close>, \<^verbatim>\<open>pop\<close>,
    \<^verbatim>\<open>remove\<close>, \<^verbatim>\<open>reshuffle\<close>, \<^verbatim>\<open>update\<close> and their helpers are definitions of the same
    names. Shown: the heap order and the index variables are kept, every operation changes the multiset of
    elements as it should, which insertions store in the bounds of the array (\<open>nm_prioq_put_checked\<close>), and that for
    fewer than \<open>2^31\<close> elements all of them do, so that putting and popping sorts.
    The locale \<open>prio_queue\<close> is the contract of a priority queue; it is interpreted on the model.
  \<^item> \<open>NM_Inet\<close>: \<^verbatim>\<open>libnm-glib-aux/nm-inet-utils.[ch]\<close>. Addresses are 32-bit words in network byte order
    or lists of 16 bytes. Shown: what prefixes, netmasks, clearing host bits and comparing mean on the bits.
  \<^item> \<open>NM_NDisc_Store\<close>, \<open>NM_NDisc\<close>, \<open>NM_NDisc_Run\<close>: \<^verbatim>\<open>core/ndisc/nm-ndisc.c\<close>. The record
    \<open>NMNDisc\<close> holds the five arrays of received data, the timers (as the time they are armed for) and the
    configuration. Each handler is one definition; the clock, random numbers and the result of sending are
    arguments. The locales \<open>advert_store\<close> and \<open>keyed_array\<close> state the contract of the arrays, and four of
    the arrays are interpretations. Shown: merging and expiry do exactly what is asked, the retransmission
    schedule stays in its bounds and backs off to one hour, the two hour rule of addresses, duplicate
    address detection, ownership of strings.
  \<^item> \<open>NM_Lndp\<close>: \<^verbatim>\<open>core/ndisc/nm-lndp-ndisc.c\<close>. Received messages are records of what the libndp
    accessors return; composed messages are bytes. It also has the state machine of the object: an inductive
    relation of all events, the invariant of every reachable object, and that a started host keeps a
    solicitation timer.
  \<^item> \<open>NM_Platform_Cmp\<close>: the chains of comparisons (\<^verbatim>\<open>NM_CMP_FIELD\<close> and its relatives), why a chain
    of preorders is a preorder, and hash functions: one is modelled by the sequence of values it feeds to the
    hash state.
  \<^item> \<open>NM_Platform_Routes\<close>: routes, routing rules and MPTCP endpoints of \<^verbatim>\<open>nm-platform.[ch]\<close>, with
    normalization, comparison and hashing. \<open>NM_Platform_Addresses\<close>: addresses and their lifetimes of
    \<^verbatim>\<open>nmp-plobj.[ch]\<close>. \<open>NM_Platform_Tc\<close>: queueing disciplines and filters of
    \<^verbatim>\<open>nm-platform.[ch]\<close>. \<open>NM_Platform_Objects\<close>: the union of them, \<open>NMPObject\<close> of
    \<^verbatim>\<open>nmp-object.[ch]\<close>; links are the only cached objects it does not have. Shown: the comparisons are
    total preorders, equal objects have equal hashes (except for the flags of MPTCP endpoints and unset
    IPv6 peers), semantic comparison against normalization, what matching and the order for display decide.
    The locale \<open>object_identity\<close> has the two equalities of objects; it is interpreted on
    \<^verbatim>\<open>nmp_object_id_equal\<close> and \<^verbatim>\<open>nmp_object_equal\<close>, and the tracker rests on it.
  \<^item> \<open>NM_List_Sort\<close>: \<^verbatim>\<open>libnm-std-aux/c-list-util.c\<close>, the bottom-up merge sort of linked lists with its
    array of frames, and sorted insertion. Shown: it returns, the result is sorted, stable and a permutation, and
    the array of 70 frames is never left.
  \<^item> \<open>NM_Dedup_Multi\<close>, \<open>NM_Dedup_Inv\<close>, \<open>NM_Dedup_Run\<close>, \<open>NM_Dedup_Index\<close>:
    \<^verbatim>\<open>libnm-glib-aux/nm-dedup-multi.c\<close>, the index of reference counted objects behind the platform cache and
    the layer 3 configurations. Objects are addresses in a memory of values; every index type has partitions, each
    a list of entries in the order of the list of its head. The state has the reference counts, so interning,
    \<^verbatim>\<open>nm_dedup_multi_obj_ref\<close> and \<^verbatim>\<open>unref\<close> are operations on it. The table of objects is searched by hash value and equality, as equal
    objects can have different hash values (IPv6 addresses without peer, MPTCP endpoints); the table of entries is
    searched by equality, which their hash agrees with (\<open>entry_hash_agrees\<close>). Shown: the invariant of all
    reachable indexes (objects that are equal and have the same hash value are interned once, the count of an object is
    the number of entries and of references the callers hold, partitions are disjoint and have no duplicates), what adding does in all its modes, that
    marking, adding and removing what is still marked leaves exactly what was added, and that destroying an index
    releases everything. The locale \<open>marked_store\<close> is the contract of mark and sweep; it is interpreted on the
    index, and once more on the platform cache.
  \<^item> \<open>NM_Platform_Cache\<close>, \<open>NM_Platform_Cache_Inv\<close>, \<open>NM_Platform_Cache_Update\<close>, \<open>NM_Platform_Cache_Store\<close>,
    \<open>NM_Platform_Cache_Run\<close>, \<open>NM_Platform_Cache_Spec\<close>: the cache of \<^verbatim>\<open>nmp-object.c\<close>, an index of
    \<open>NMPObject\<close>s with one index type for each \<open>NMPCacheIdType\<close>, and its users in \<^verbatim>\<open>nm-linux-platform.c\<close>
    that receive objects and prune after a dump. \<open>NM_Platform_Cache\<close> has the definitions. The next three theories
    follow an update: of one index type, of the cache, and of the part that a lookup selects (\<open>cache_content\<close>).
    \<open>NM_Platform_Cache_Run\<close> adds routes and the relation \<open>cache_run\<close> of all sequences of operations. Shown: the
    index types stay in step with the cached objects and the reference counts are exact, updates refine a map from
    identities to values with marks, lookups are the same as searches, a dump replaces exactly its part of the cache,
    and what a message about a replaced route does.
  \<^item> \<open>NM_Global_Tracker\<close>, \<open>NM_Tracker_Sync\<close>, \<open>NM_Tracker_Mptcp\<close>, \<open>NM_Tracker_Run\<close>:
    \<^verbatim>\<open>nmp-global-tracker.c\<close>. The three hash tables with their intrusive lists are lists in the order of
    creation. The tracker refines a map from keys to priority and dirty mark; a sync is shown to do to every
    identity what the winning entry says, for any kernel that executes single deletes and adds; the sync of
    MPTCP endpoints is equal to a declarative list of requests; all reachable trackers are consistent.

  \<^item> \<open>NM_Object_Queue\<close>: priority queues of objects that embed their index variable. The locale
    \<open>object_queue\<close> says what the operations do to the set of queued objects, also after the priority of one
    changed; it is interpreted on \<open>nm_prioq_put\<close>, \<open>nm_prioq_remove\<close> and \<open>nm_prioq_reshuffle\<close>.
  \<^item> \<open>NM_Time\<close>: \<^verbatim>\<open>libnm-glib-aux/nm-time-utils.[ch]\<close>, the monotonic clock and its conversions.
  \<^item> \<open>NM_Lldp_Neighbor\<close>, \<open>NM_Lldp_Rx\<close>: \<^verbatim>\<open>libnm-lldp/nm-lldp-neighbor.c\<close> and \<^verbatim>\<open>nm-lldp-rx.c\<close>. A
    neighbor is the record of its C struct; parsing is the loop over the TLVs of the frame with its fifteen error
    paths. The receiver keeps addresses of neighbors in the table and in the expiry queue (an instance of
    \<open>object_queue\<close>) and the neighbors in a memory; its log of callbacks stands for what the user is told. Shown:
    exactly which frames are accepted and what is stored of them, all texts are printable, walking over the TLVs,
    the invariant of all reachable receivers, the events reproduce the table, what a frame and what the timer do.
  \<^item> \<open>NM_Search\<close>: binary search of \<^verbatim>\<open>nm-shared-utils.c\<close> with checked reads.
  \<^item> \<open>NM_Chars\<close>, \<open>NM_Env_Var\<close>, \<open>NM_Base64\<close>, \<open>NM_Hexstr\<close>, \<open>NM_Names\<close>, \<open>NM_Paths\<close>,
    \<open>NM_Utf8safe\<close>: text of \<^verbatim>\<open>nm-shared-utils.c\<close>. Strings are lists of bytes without the terminating NUL;
    a pointer into a string is the rest of it. Shown: round trips of the encodings, which inputs are errors, which
    names are valid, buffers that are written in place are large enough, paths against their lists of components.
  \<^item> \<open>NM_Env_File\<close>: the parser of environment files of \<^verbatim>\<open>nm-io-utils.c\<close>, a state machine over the
    characters with a callback; reading quoted assignments gives every variable its last value.

  \<^bold>\<open>Parameters.\<close> Code outside the repository is a parameter: the kernel of a sync (\<open>kern\<close>, with
  \<open>kernel_deletes\<close> and \<open>kernel_adds\<close> as the only assumptions, which \<open>ex_kernel\<close> satisfies), the support
  of the kernel for rule attributes (\<open>support\<close>), the generator of stable interface identifiers, the clock
  and random numbers. Pointer comparison of unknown rules is the parameter \<open>ptr\<close>.
  The validation of UTF-8 by glib is \<open>utf8_validate\<close> and \<open>utf8_end\<close>, of which only \<open>utf8_end_ok\<close> is assumed
  (\<open>ascii_end\<close> satisfies it), and \<^verbatim>\<open>inet_ntop\<close> is \<open>ntop\<close>. The datagrams of the LLDP socket, the clocks and the
  addresses of new objects and entries are arguments of the operations, which are free to use when they are not in use
  (\<open>update_ready\<close>). What the objects of a deduplicated index
  are is the parameter \<open>c\<close>, the functions of their class and of their index types, of which
  \<open>dedup_class_ok\<close> is assumed, and the keyed hash function of the process, of which nothing is assumed (for the
  platform cache it is the third component of \<open>env\<close>). The uninitialised array of frames of the merge sort is \<open>garbage\<close>.

  \<^bold>\<open>Bounds and termination.\<close> Times and lifetimes are integers where the code checks that they do not
  overflow, and words or explicit wrap-around where it does not. All loops are structural recursions or have
  a measure, except for two. The loop that makes space in the LLDP receiver is a \<open>while_option\<close>, whose end
  depends on the invariant; it is shown that it ends for every reachable receiver. The loops of the merge sort are
  \<open>partial_function (option)\<close>, where None is also the access outside of the array; it is shown that they
  return for all lists of up to \<open>2 ^ 69\<close> elements, which 70 frames are enough for. No definition needs fuel.
  The array of the priority queue has positions of 32 bits; its properties of single operations are about what the
  stores do in bounds, and \<open>put_all_in_bounds\<close> and \<open>expiry_put_in_bounds\<close> show that they are in bounds below
  \<open>2^31\<close> items, which the queue of the LLDP receiver (128 neighbors by default) does not reach.

  \<^bold>\<open>Not modelled.\<close> Logging, reference counting outside of the deduplicated index, GObject properties
  and signals beyond what they report, D-Bus, udev, netlink sockets, the links of the platform cache (their
  fields are merged from netlink, udev and ethtool), devices, manager, policy, settings plugins, clients and user
  interfaces, what the platform does when the cache changes (\<^verbatim>\<open>cache_on_change\<close>): they are input and output
  or glue around services. The parsers of addresses rest on
  \<^verbatim>\<open>inet_pton\<close>, the merging of layer 3 configurations on the devices that feed it. The raw socket of the
  LLDP receiver and its listener on top of D-Bus are glue. Vendored libraries (n-acd, n-dhcp4, systemd, c-list and
  others) are third-party code.
\<close>

end
